(* ===== verification/Prelude.thy ===== *)
theory Prelude
  imports Main "HOL-Library.Word" "HOL-Library.Finite_Map"
begin

text \<open>
  Prelude of the development: how Rust values and effects are written in HOL.

  Rust's three ways for a call to end (a value, an error value and a panic) are the datatype
  @res@.  A method taking @&mut self@ is a function that returns the @res@ and the new state.
  @HashMap@ is @fmap@ (finite, with decidable domain), @Vec@ and @VecDeque@ are lists, unsigned
  machine integers are words, and an unbounded @BigUint@ is a natural number.  The generic lemmas
  on these that the components share are at the end.
\<close>

section \<open>Outcomes of Rust calls\<close>

datatype ('e, 'a) res = Ok 'a | Err 'e | Panic

fun res_bind :: "('e, 'a) res \<Rightarrow> ('a \<Rightarrow> ('e, 'b) res) \<Rightarrow> ('e, 'b) res" where
  "res_bind (Ok x) f = f x"
| "res_bind (Err e) f = Err e"
| "res_bind Panic f = Panic"

fun res_map :: "('a \<Rightarrow> 'b) \<Rightarrow> ('e, 'a) res \<Rightarrow> ('e, 'b) res" where
  "res_map f (Ok x) = Ok (f x)"
| "res_map f (Err e) = Err e"
| "res_map f Panic = Panic"

fun map_err :: "('e \<Rightarrow> 'f) \<Rightarrow> ('e, 'a) res \<Rightarrow> ('f, 'a) res" where
  "map_err f (Ok x) = Ok x"
| "map_err f (Err e) = Err (f e)"
| "map_err f Panic = Panic"

fun is_ok :: "('e, 'a) res \<Rightarrow> bool" where
  "is_ok (Ok x) = True"
| "is_ok (Err e) = False"
| "is_ok Panic = False"

fun is_err :: "('e, 'a) res \<Rightarrow> bool" where
  "is_err (Ok x) = False"
| "is_err (Err e) = True"
| "is_err Panic = False"

text \<open>@ensure!(b, e)@ and @assert!(b)@.\<close>

definition ensure :: "bool \<Rightarrow> 'e \<Rightarrow> ('e, unit) res" where
  "ensure b e = (if b then Ok () else Err e)"

definition assert_that :: "bool \<Rightarrow> ('e, unit) res" where
  "assert_that b = (if b then Ok () else Panic)"

text \<open>@Option::unwrap@ / @expect@, and @ok_or_else@.\<close>

fun expect :: "'a option \<Rightarrow> ('e, 'a) res" where
  "expect None = Panic"
| "expect (Some x) = Ok x"

fun ok_or :: "'a option \<Rightarrow> 'e \<Rightarrow> ('e, 'a) res" where
  "ok_or None e = Err e"
| "ok_or (Some x) e = Ok x"

named_theorems ok_iffs \<open>when a call returns a value\<close>

named_theorems outcome_simps \<open>unfolding of outcomes of Rust calls\<close>

lemma res_bind_Ok_iff [ok_iffs]: "res_bind r f = Ok y \<longleftrightarrow> (\<exists>x. r = Ok x \<and> f x = Ok y)"
  by (cases r) auto

lemma res_map_Ok_iff [ok_iffs]: "res_map f r = Ok y \<longleftrightarrow> (\<exists>x. r = Ok x \<and> y = f x)"
  by (cases r) auto

lemma res_map_not_Panic [simp]: "res_map f r = Panic \<longleftrightarrow> r = Panic"
  by (cases r) auto

lemma ensure_Ok_iff [simp]: "ensure b e = Ok u \<longleftrightarrow> b"
  by (simp add: ensure_def)

lemma assert_that_Ok_iff [simp]: "assert_that b = Ok u \<longleftrightarrow> b"
  by (simp add: assert_that_def)

lemma expect_Ok_iff [simp]: "expect x = Ok y \<longleftrightarrow> x = Some y"
  by (cases x) auto

lemma ok_or_Ok_iff [simp]: "ok_or x e = Ok y \<longleftrightarrow> x = Some y"
  by (cases x) auto

lemma is_ok_iff: "is_ok r \<longleftrightarrow> (\<exists>x. r = Ok x)"
  by (cases r) auto

lemma ensure_True [simp]: "ensure True e = Ok ()"
  by (simp add: ensure_def)

lemma ensure_False [simp]: "ensure False e = Err e"
  by (simp add: ensure_def)

lemma assert_that_True [simp]: "assert_that True = Ok ()"
  by (simp add: assert_that_def)

lemma assert_that_False [simp]: "assert_that False = Panic"
  by (simp add: assert_that_def)

lemma ensure_bind_Panic [simp]: "res_bind (ensure b e) f = Panic \<longleftrightarrow> b \<and> f () = Panic"
  by (simp add: ensure_def)

lemma assert_bind_Panic [simp]: "res_bind (assert_that b) f = Panic \<longleftrightarrow> (b \<longrightarrow> f () = Panic)"
  by (simp add: assert_that_def)

lemma res_bind_not_Panic:
  "r \<noteq> Panic \<Longrightarrow> (\<And>x. r = Ok x \<Longrightarrow> f x \<noteq> Panic) \<Longrightarrow> res_bind r f \<noteq> Panic"
  by (cases r) auto

declare ensure_def [outcome_simps] assert_that_def [outcome_simps]

section \<open>Slices\<close>

text \<open>@[T]::chunks(n)@ for @n > 0@: consecutive pieces of @n@ elements, the last possibly shorter.\<close>

function chunks :: "nat \<Rightarrow> 'a list \<Rightarrow> 'a list list" where
  "chunks n xs = (if n = 0 \<or> xs = [] then [] else take n xs # chunks n (drop n xs))"
  by pat_completeness auto
termination
  by (relation "measure (\<lambda>(n, xs). size xs)") auto

declare chunks.simps [simp del]

lemma chunks_Nil [simp]: "chunks n [] = []"
  by (simp add: chunks.simps)

lemma chunks_step: "0 < n \<Longrightarrow> xs \<noteq> [] \<Longrightarrow> chunks n xs = take n xs # chunks n (drop n xs)"
  by (subst chunks.simps) simp

lemma concat_chunks: "0 < n \<Longrightarrow> concat (chunks n xs) = xs"
  by (induction n xs rule: chunks.induct) (subst chunks.simps, auto)

lemma chunks_full:
  "0 < n \<Longrightarrow> size xs mod n = 0 \<Longrightarrow> c \<in> set (chunks n xs) \<Longrightarrow> size c = n"
proof (induction n xs rule: chunks.induct)
  case (1 n xs)
  show ?case
  proof (cases "xs = []")
    case False
    then have "n \<le> size xs"
      using 1(2,3) by (metis dvd_imp_le length_greater_0_conv mod_0_imp_dvd)
    then have "size (drop n xs) mod n = 0"
      using 1(3) by (simp add: mod_if [of "size xs" n])
    then show ?thesis
      using 1 False \<open>n \<le> size xs\<close> by (auto simp: chunks_step)
  qed (use 1 in simp)
qed

lemma chunks_append:
  "0 < n \<Longrightarrow> size ys = n \<Longrightarrow> chunks n (ys @ xs) = ys # chunks n xs"
  by (subst chunks.simps) auto

lemma chunks_concat:
  "0 < n \<Longrightarrow> (\<And>c. c \<in> set cs \<Longrightarrow> size c = n) \<Longrightarrow> chunks n (concat cs) = cs"
  by (induction cs) (auto simp: chunks_append)

section \<open>Numbers as text\<close>

text \<open>The decimal digits of an integer, as @format!@ writes it.\<close>

fun dec_string :: "nat \<Rightarrow> string" where
  "dec_string n = (if n < 10 then [char_of (48 + n)] else dec_string (n div 10) @ [char_of (48 + n mod 10)])"

declare dec_string.simps [simp del]

section \<open>Shared lemmas on maps and sums\<close>

lemma fmlookup_fmupd_same [simp]: "fmlookup (fmupd k v m) k = Some v"
  by simp

lemma fcard_fmdom_fmupd:
  "fcard (fmdom (fmupd k v m)) = (if k |\<in>| fmdom m then fcard (fmdom m) else fcard (fmdom m) + 1)"
  by (auto simp: finsert_absorb fcard_finsert_if)

end
