(* ===== verification/Params.thy ===== *)
theory Params
  imports Prelude
begin

text \<open>
  The protocol parameters of @core/lib/crypto/src/params.rs@ and the identifier types of
  @core/lib/basic_types@.  Account ids, nonces and block numbers are @u32@ words, token ids @u16@
  words; the 20-byte arrays @H160@ and @PubKeyHash@ and the 32-byte @H256@ are the words of their
  160 and 256 bits, which have the same values.
\<close>

type_synonym byte = "8 word"
type_synonym account_id = "32 word"
type_synonym token_id = "16 word"
type_synonym nonce = "32 word"
type_synonym block_number = "32 word"
type_synonym address = "160 word"
type_synonym pubkey_hash = "160 word"
type_synonym h256 = "256 word"

definition account_tree_depth :: nat where "account_tree_depth = 32"
definition balance_tree_depth :: nat where "balance_tree_depth = 11"

definition total_tokens :: nat where "total_tokens = 2 ^ balance_tree_depth"

definition number_of_processable_tokens :: nat where "number_of_processable_tokens = 128"

definition used_account_subtree_depth :: nat where "used_account_subtree_depth = 24"

definition max_account_id :: account_id where
  "max_account_id =
    (let list_count = min (2 ^ used_account_subtree_depth) (2 ^ 32 - 1 :: nat)
     in if list_count = 2 ^ 32 - 1 then of_nat list_count else of_nat list_count - 1)"

definition max_token_id :: token_id where
  "max_token_id = of_nat number_of_processable_tokens - 1"

definition ETH_TOKEN_ID :: token_id where "ETH_TOKEN_ID = 0"

definition ACCOUNT_ID_BIT_WIDTH :: nat where "ACCOUNT_ID_BIT_WIDTH = 32"
definition TOKEN_BIT_WIDTH :: nat where "TOKEN_BIT_WIDTH = 16"
definition TX_TYPE_BIT_WIDTH :: nat where "TX_TYPE_BIT_WIDTH = 8"
definition BALANCE_BIT_WIDTH :: nat where "BALANCE_BIT_WIDTH = 128"
definition FR_ADDRESS_LEN :: nat where "FR_ADDRESS_LEN = 20"
definition NEW_PUBKEY_HASH_WIDTH :: nat where "NEW_PUBKEY_HASH_WIDTH = FR_ADDRESS_LEN * 8"
definition ADDRESS_WIDTH :: nat where "ADDRESS_WIDTH = FR_ADDRESS_LEN * 8"
definition NONCE_BIT_WIDTH :: nat where "NONCE_BIT_WIDTH = 32"
definition CHUNK_BIT_WIDTH :: nat where "CHUNK_BIT_WIDTH = 72"
definition CHUNK_BYTES :: nat where "CHUNK_BYTES = CHUNK_BIT_WIDTH div 8"
definition ETH_ADDRESS_BIT_WIDTH :: nat where "ETH_ADDRESS_BIT_WIDTH = 160"
definition AMOUNT_EXPONENT_BIT_WIDTH :: nat where "AMOUNT_EXPONENT_BIT_WIDTH = 5"
definition AMOUNT_MANTISSA_BIT_WIDTH :: nat where "AMOUNT_MANTISSA_BIT_WIDTH = 35"
definition FEE_EXPONENT_BIT_WIDTH :: nat where "FEE_EXPONENT_BIT_WIDTH = 5"
definition FEE_MANTISSA_BIT_WIDTH :: nat where "FEE_MANTISSA_BIT_WIDTH = 11"
definition PRIORITY_EXPIRATION :: nat where "PRIORITY_EXPIRATION = 35000"

definition SIGNED_WITHDRAW_BIT_WIDTH :: nat where
  "SIGNED_WITHDRAW_BIT_WIDTH = TX_TYPE_BIT_WIDTH + ACCOUNT_ID_BIT_WIDTH + 2 * ADDRESS_WIDTH
    + TOKEN_BIT_WIDTH + BALANCE_BIT_WIDTH + FEE_EXPONENT_BIT_WIDTH + FEE_MANTISSA_BIT_WIDTH
    + NONCE_BIT_WIDTH"

definition SIGNED_TRANSFER_BIT_WIDTH :: nat where
  "SIGNED_TRANSFER_BIT_WIDTH = TX_TYPE_BIT_WIDTH + ACCOUNT_ID_BIT_WIDTH + 2 * ADDRESS_WIDTH
    + TOKEN_BIT_WIDTH + AMOUNT_EXPONENT_BIT_WIDTH + AMOUNT_MANTISSA_BIT_WIDTH
    + FEE_EXPONENT_BIT_WIDTH + FEE_MANTISSA_BIT_WIDTH + NONCE_BIT_WIDTH"

definition SIGNED_FORCED_EXIT_BIT_WIDTH :: nat where
  "SIGNED_FORCED_EXIT_BIT_WIDTH = TX_TYPE_BIT_WIDTH + ACCOUNT_ID_BIT_WIDTH + ADDRESS_WIDTH
    + TOKEN_BIT_WIDTH + FEE_EXPONENT_BIT_WIDTH + FEE_MANTISSA_BIT_WIDTH + NONCE_BIT_WIDTH"

definition SIGNED_CHANGE_PUBKEY_BIT_WIDTH :: nat where
  "SIGNED_CHANGE_PUBKEY_BIT_WIDTH = TX_TYPE_BIT_WIDTH + ACCOUNT_ID_BIT_WIDTH + ADDRESS_WIDTH
    + NEW_PUBKEY_HASH_WIDTH + TOKEN_BIT_WIDTH + FEE_EXPONENT_BIT_WIDTH + FEE_MANTISSA_BIT_WIDTH
    + NONCE_BIT_WIDTH"

named_theorems param_defs \<open>values of the protocol parameters\<close>

declare account_tree_depth_def [param_defs] balance_tree_depth_def [param_defs]
  total_tokens_def [param_defs] number_of_processable_tokens_def [param_defs]
  used_account_subtree_depth_def [param_defs] ETH_TOKEN_ID_def [param_defs]
  ACCOUNT_ID_BIT_WIDTH_def [param_defs] TOKEN_BIT_WIDTH_def [param_defs]
  TX_TYPE_BIT_WIDTH_def [param_defs] BALANCE_BIT_WIDTH_def [param_defs]
  FR_ADDRESS_LEN_def [param_defs] NEW_PUBKEY_HASH_WIDTH_def [param_defs]
  ADDRESS_WIDTH_def [param_defs] NONCE_BIT_WIDTH_def [param_defs]
  CHUNK_BIT_WIDTH_def [param_defs] CHUNK_BYTES_def [param_defs]
  ETH_ADDRESS_BIT_WIDTH_def [param_defs] AMOUNT_EXPONENT_BIT_WIDTH_def [param_defs]
  AMOUNT_MANTISSA_BIT_WIDTH_def [param_defs] FEE_EXPONENT_BIT_WIDTH_def [param_defs]
  FEE_MANTISSA_BIT_WIDTH_def [param_defs] PRIORITY_EXPIRATION_def [param_defs]
  SIGNED_WITHDRAW_BIT_WIDTH_def [param_defs] SIGNED_TRANSFER_BIT_WIDTH_def [param_defs]
  SIGNED_FORCED_EXIT_BIT_WIDTH_def [param_defs] SIGNED_CHANGE_PUBKEY_BIT_WIDTH_def [param_defs]

lemma max_account_id_eq: "max_account_id = 16777215"
  by (simp add: max_account_id_def used_account_subtree_depth_def)

lemma max_token_id_eq: "max_token_id = 127"
  by (simp add: max_token_id_def number_of_processable_tokens_def)

end
