(* ===== verification/Bits.thy ===== *)
theory Bits
  imports Params
begin

unbundle bit_operations_syntax

text \<open>
  Bit and byte conversions of @core/lib/crypto/src/primitives.rs@ (@GetBits@, @BitIteratorLe@,
  @BitConvert@, @FromBytes@) and Rust's @to_be_bytes@/@from_be_bytes@ at a fixed width, with the
  locale of a fixed-width codec and its interpretation on the integer widths of the protocol.
\<close>

section \<open>Bits\<close>

text \<open>@impl GetBits for u64@: the 16 low bits of @*self + 1@, which wraps around.\<close>

definition get_bits_le :: "64 word \<Rightarrow> bool list" where
  "get_bits_le x = rev (fst (((\<lambda>(acc, i). (((i AND 1) = 1) # acc, drop_bit 1 i)) ^^ 16) ([], x + 1)))"

text \<open>@BitIteratorLe@: the limbs, the next position and the number of bits.\<close>

record bit_iterator_le =
  bi_t :: "64 word list"
  bi_n :: nat
  bi_len :: nat

definition bit_iterator_new :: "64 word list \<Rightarrow> bit_iterator_le" where
  "bit_iterator_new t = \<lparr>bi_t = t, bi_n = 0, bi_len = size t * 64\<rparr>"

definition bit_iterator_next :: "bit_iterator_le \<Rightarrow> bool option \<times> bit_iterator_le" where
  "bit_iterator_next it =
    (if bi_n it = bi_len it then (None, it)
     else let part = bi_n it div 64; bit = bi_n it - 64 * part
          in (Some (0 < (bi_t it ! part AND push_bit bit 1)), it\<lparr>bi_n := bi_n it + 1\<rparr>))"

text \<open>@take(n)@ on the iterator, collected.\<close>

fun bit_iterator_take :: "nat \<Rightarrow> bit_iterator_le \<Rightarrow> bool list" where
  "bit_iterator_take 0 it = []"
| "bit_iterator_take (Suc n) it =
    (case bit_iterator_next it of (None, it') \<Rightarrow> [] | (Some b, it') \<Rightarrow> b # bit_iterator_take n it')"

text \<open>@get_bits_le_fixed@ for a field element, given the limbs of its @into_repr@.\<close>

definition get_bits_le_fixed :: "64 word list \<Rightarrow> nat \<Rightarrow> bool list" where
  "get_bits_le_fixed repr n =
    (let r = bit_iterator_take n (bit_iterator_new repr) in r @ replicate (n - size r) False)"

text \<open>@for (i, bit) in ...enumerate() { if *bit { byte |= 1 << i } }@\<close>

definition or_bits :: "bool list \<Rightarrow> byte" where
  "or_bits bs = foldl (\<lambda>byte (i, b). if b then byte OR push_bit i 1 else byte) 0 (enumerate 0 bs)"

definition into_bytes :: "bool list \<Rightarrow> (unit, byte list) res" where
  "into_bytes bits = res_bind (assert_that (size bits mod 8 = 0))
    (\<lambda>_. Ok (map or_bits (chunks 8 bits)))"

definition into_bytes_ordered :: "bool list \<Rightarrow> (unit, byte list) res" where
  "into_bytes_ordered bits = res_bind (assert_that (size bits mod 8 = 0))
    (\<lambda>_. Ok (map (\<lambda>c. or_bits (rev c)) (chunks 8 bits)))"

text \<open>The inner loop of @from_be_bytes@: test the top bit, shift left.\<close>

fun shift_out :: "nat \<Rightarrow> byte \<Rightarrow> bool list" where
  "shift_out 0 temp = []"
| "shift_out (Suc n) temp = ((temp AND 0x80) = 0x80) # shift_out n (push_bit 1 temp)"

definition from_be_bytes :: "byte list \<Rightarrow> bool list" where
  "from_be_bytes bytes = concat (map (shift_out 8) bytes)"

section \<open>Big endian integers\<close>

text \<open>@x.to_be_bytes()@ for an unsigned integer of @n@ bytes.\<close>

fun to_be :: "nat \<Rightarrow> nat \<Rightarrow> byte list" where
  "to_be 0 x = []"
| "to_be (Suc n) x = to_be n (x div 256) @ [of_nat x]"

definition from_be :: "byte list \<Rightarrow> nat" where
  "from_be bs = foldl (\<lambda>acc b. acc * 256 + unat b) 0 bs"

text \<open>@FromBytes::from_bytes@ for an integer of @count@ bytes: the slice is padded on the left;
  @COUNT - bytes.len()@ underflows on a longer slice.\<close>

definition from_bytes :: "nat \<Rightarrow> byte list \<Rightarrow> (unit, nat) res" where
  "from_bytes count bytes =
    (if count < size bytes then Panic
     else let new_bytes = rev (rev bytes @ replicate (count - size bytes) 0)
          in Ok (from_be new_bytes))"

lemma length_to_be [simp]: "size (to_be n x) = n"
  by (induction n arbitrary: x) auto

lemma from_be_Nil [simp]: "from_be [] = 0"
  by (simp add: from_be_def)

lemma from_be_snoc [simp]: "from_be (bs @ [b]) = from_be bs * 256 + unat b"
  by (simp add: from_be_def)

lemma from_be_append: "from_be (as @ bs) = from_be as * 256 ^ size bs + from_be bs"
  by (induction bs rule: rev_induct) (auto simp: append_assoc [symmetric] algebra_simps simp del: append_assoc)

lemma from_be_replicate_zero [simp]: "from_be (replicate n 0) = 0"
  by (induction n) (simp_all add: from_be_def)

lemma byte_lt [simp]: "unat (b :: byte) < 256"
  using unsigned_less [of b, where ?'a = nat] by simp

lemma from_be_bound: "from_be bs < 256 ^ size bs"
proof (induction bs rule: rev_induct)
  case (snoc b bs)
  have "(from_be bs + 1) * 256 \<le> 256 ^ size bs * 256"
    using snoc by (intro mult_le_mono1) simp
  moreover have "unat b < 256"
    by simp
  ultimately show ?case
    by (simp add: mult.commute del: byte_lt)
qed simp

lemma unat_of_nat_byte: "unat (of_nat x :: byte) = x mod 256"
  by (simp add: unat_of_nat)

lemma from_be_to_be: "from_be (to_be n x) = x mod 256 ^ n"
proof (induction n arbitrary: x)
  case (Suc n)
  then show ?case
    using mod_mult2_eq [of x 256 "256 ^ n"] by (simp add: unat_of_nat_byte mult.commute add.commute)
qed simp

lemma from_be_to_be_id [simp]: "x < 256 ^ n \<Longrightarrow> from_be (to_be n x) = x"
  by (simp add: from_be_to_be)

lemma of_nat_byte_add: "(of_nat (x * 256 + unat b) :: byte) = b"
  by (rule unsigned_word_eqI [where ?'a = nat]) (simp only: unat_of_nat_byte mod_mult_self3, simp)

lemma to_be_from_be [simp]: "size bs = n \<Longrightarrow> to_be n (from_be bs) = bs"
proof (induction bs arbitrary: n rule: rev_induct)
  case (snoc b bs)
  have "(from_be bs * 256 + unat b) div 256 = from_be bs"
    by simp
  then show ?case
    using snoc of_nat_byte_add [of "from_be bs" b] by auto
qed auto

lemma from_bytes_short: "size bs \<le> n \<Longrightarrow> from_bytes n bs = Ok (from_be bs)"
  by (simp add: from_bytes_def from_be_append)

lemma from_bytes_long: "n < size bs \<Longrightarrow> from_bytes n bs = Panic"
  by (simp add: from_bytes_def)

lemma from_bytes_to_be: "x < 256 ^ n \<Longrightarrow> n \<le> m \<Longrightarrow> from_bytes m (to_be n x) = Ok x"
  by (simp add: from_bytes_short)

lemma to_be_inj: "to_be n x = to_be n y \<Longrightarrow> x < 256 ^ n \<Longrightarrow> y < 256 ^ n \<Longrightarrow> x = y"
  by (metis from_be_to_be_id)

section \<open>Bit and byte round trips\<close>

lemma bit_or_bits_aux:
  "bit (foldl (\<lambda>byte (i, b). if b then byte OR push_bit i 1 else byte) (w :: byte)
      (enumerate k bs)) j
    \<longleftrightarrow> bit w j \<or> (j < 8 \<and> k \<le> j \<and> j < k + size bs \<and> bs ! (j - k))"
proof (induction bs arbitrary: k w)
  case (Cons b bs)
  show ?case
  proof (cases "j = k")
    case True
    then show ?thesis
      using Cons [of _ "Suc k"] by (auto simp: bit_simps)
  next
    case False
    then show ?thesis
      using Cons [of _ "Suc k"] by (auto simp: bit_simps nth_Cons' Suc_le_eq)
  qed
qed auto

lemma bit_or_bits: "size bs = 8 \<Longrightarrow> bit (or_bits bs) j \<longleftrightarrow> j < 8 \<and> bs ! j"
  unfolding or_bits_def bit_or_bits_aux by auto

lemma top_bit_test: "((t :: byte) AND 0x80) = 0x80 \<longleftrightarrow> bit t 7"
proof -
  have m: "(0x80 :: byte) = 2 ^ 7"
    by simp
  have e: "bit (2 ^ 7 :: byte) n \<longleftrightarrow> n = 7" for n
    by (simp only: bit_exp_iff) auto
  show ?thesis
    unfolding m bit_eq_iff [where ?'a = byte] bit_and_iff e by (auto dest: spec [of _ 7])
qed

lemma shift_out_eq: "shift_out n t = map (\<lambda>i. bit (push_bit i t) 7) [0..<n]"
proof (induction n arbitrary: t)
  case (Suc n)
  have "[0..<Suc n] = 0 # map Suc [0..<n]"
    by (simp add: upt_conv_Cons map_Suc_upt)
  then show ?case
    using Suc by (simp add: top_bit_test del: upt_Suc)
qed simp

lemma length_shift_out [simp]: "size (shift_out n t) = n"
  by (simp add: shift_out_eq)

lemma shift_out_nth: "i < 8 \<Longrightarrow> shift_out 8 t ! i = bit t (7 - i)"
  by (simp add: shift_out_eq bit_simps)

lemma or_bits_shift_out: "or_bits (rev (shift_out 8 t)) = t"
  by (rule bit_word_eqI) (auto simp: bit_or_bits rev_nth shift_out_nth)

lemma shift_out_or_bits: "size c = 8 \<Longrightarrow> shift_out 8 (or_bits (rev c)) = c"
  by (rule nth_equalityI) (auto simp: bit_or_bits rev_nth shift_out_nth)

lemma length_from_be_bytes [simp]: "size (from_be_bytes bs) = 8 * size bs"
  by (induction bs) (auto simp: from_be_bytes_def)

lemma from_be_bytes_append: "from_be_bytes (as @ bs) = from_be_bytes as @ from_be_bytes bs"
  by (simp add: from_be_bytes_def)

lemma chunks_from_be_bytes: "chunks 8 (from_be_bytes bs) = map (shift_out 8) bs"
  unfolding from_be_bytes_def by (rule chunks_concat) auto

lemma into_bytes_ordered_from_be_bytes: "into_bytes_ordered (from_be_bytes bs) = Ok bs"
  by (simp add: into_bytes_ordered_def chunks_from_be_bytes or_bits_shift_out map_idI)

lemma into_bytes_ordered_Ok:
  assumes "size bits mod 8 = 0"
  obtains bs where "into_bytes_ordered bits = Ok bs" "from_be_bytes bs = bits" "size bits = 8 * size bs"
proof -
  let ?bs = "map (\<lambda>c. or_bits (rev c)) (chunks 8 bits)"
  have "size c = 8" if "c \<in> set (chunks 8 bits)" for c
    using chunks_full [OF _ assms that] by simp
  then have "map (shift_out 8) ?bs = chunks 8 bits"
    by (auto simp: shift_out_or_bits intro!: map_idI)
  then have "from_be_bytes ?bs = bits"
    by (simp add: from_be_bytes_def concat_chunks del: map_map)
  moreover have "into_bytes_ordered bits = Ok ?bs"
    using assms by (simp add: into_bytes_ordered_def)
  ultimately show ?thesis
    using that length_from_be_bytes by metis
qed

lemma bit_iterator_take_eq:
  "n + k \<le> 64 * size t \<Longrightarrow>
    bit_iterator_take n \<lparr>bi_t = t, bi_n = k, bi_len = size t * 64\<rparr>
      = map (\<lambda>j. bit (t ! (j div 64)) (j mod 64)) [k..<k + n]"
proof (induction n arbitrary: k)
  case (Suc n)
  have "(0 < (w AND push_bit b (1 :: 64 word))) = bit w b" if "b < 64" for w b
    by (simp add: word_gt_0 and_exp_eq_0_iff_not_bit)
  moreover have "k - 64 * (k div 64) = k mod 64"
    by (simp add: minus_mult_div_eq_mod)
  ultimately show ?case
    using Suc by (simp add: bit_iterator_next_def Let_def upt_conv_Cons del: upt_Suc)
qed simp

end
