(* ===== verification/Codec.thy ===== *)
theory Codec
  imports Bits
begin

text \<open>
  Fixed-width fields of byte strings.  The locale states what a field of a message needs: an
  encoding of a known width and a decoding that reads it back.  It is interpreted on the big endian
  integers of every width the protocol uses; the messages and public data of the other theories
  are concatenations of such fields, and are taken apart with the facts proved here once.
\<close>

section \<open>The interface of a field\<close>

locale codec =
  fixes enc :: "'a \<Rightarrow> byte list" and dec :: "byte list \<Rightarrow> 'a" and width :: nat
  assumes length_enc: "size (enc x) = width"
    and dec_enc: "dec (enc x) = x"
begin

lemma enc_eq_iff: "enc x = enc y \<longleftrightarrow> x = y"
  by (metis dec_enc)

lemma enc_append_iff: "enc x @ r = enc y @ s \<longleftrightarrow> x = y \<and> r = s"
  using length_enc enc_eq_iff by (metis append_eq_append_conv)

lemma take_enc: "take width (enc x @ r) = enc x"
  by (simp add: length_enc)

lemma drop_enc: "drop width (enc x @ r) = r"
  by (simp add: length_enc)

lemma dec_take: "dec (take width (enc x @ r)) = x"
  unfolding take_enc by (rule dec_enc)

end

section \<open>Integers and byte arrays\<close>

text \<open>@to_be_bytes@ of an unsigned integer, and the bytes of @H160@, @PubKeyHash@ and @H256@.\<close>

definition word_to_be :: "'a::len word \<Rightarrow> byte list" where
  "word_to_be w = to_be (LENGTH('a) div 8) (unat w)"

definition word_from_be :: "byte list \<Rightarrow> 'a::len word" where
  "word_from_be bs = of_nat (from_be bs)"

lemma length_word_to_be [simp]: "size (word_to_be (w :: 'a::len word)) = LENGTH('a) div 8"
  by (simp add: word_to_be_def)

lemma word_from_to_be:
  assumes "LENGTH('a::len) mod 8 = 0"
  shows "word_from_be (word_to_be (w :: 'a word)) = w"
proof -
  have "(256 :: nat) ^ (LENGTH('a) div 8) = 2 ^ (8 * (LENGTH('a) div 8))"
    by (simp add: power_mult)
  also have "8 * (LENGTH('a) div 8) = LENGTH('a)"
    using assms by auto
  finally have "unat w < 256 ^ (LENGTH('a) div 8)"
    using unsigned_less [of w, where ?'a = nat] by simp
  then show ?thesis
    by (simp add: word_from_be_def word_to_be_def)
qed

interpretation u8: codec "word_to_be :: 8 word \<Rightarrow> byte list" word_from_be 1
  by unfold_locales (simp_all add: word_from_to_be)

interpretation u16: codec "word_to_be :: 16 word \<Rightarrow> byte list" word_from_be 2
  by unfold_locales (simp_all add: word_from_to_be)

interpretation u32: codec "word_to_be :: 32 word \<Rightarrow> byte list" word_from_be 4
  by unfold_locales (simp_all add: word_from_to_be)

interpretation u128: codec "word_to_be :: 128 word \<Rightarrow> byte list" word_from_be 16
  by unfold_locales (simp_all add: word_from_to_be)

interpretation h160: codec "word_to_be :: 160 word \<Rightarrow> byte list" word_from_be 20
  by unfold_locales (simp_all add: word_from_to_be)

interpretation h256: codec "word_to_be :: 256 word \<Rightarrow> byte list" word_from_be 32
  by unfold_locales (simp_all add: word_from_to_be)

lemma word_to_be_8: "word_to_be (w :: 8 word) = [w]"
  by (simp add: word_to_be_def)

lemmas field_eqs = u16.enc_append_iff u32.enc_append_iff u128.enc_append_iff h160.enc_append_iff
  u16.enc_eq_iff u32.enc_eq_iff u128.enc_eq_iff h160.enc_eq_iff

lemmas field_decs = u16.dec_enc u32.dec_enc u128.dec_enc h160.dec_enc h256.dec_enc

text \<open>@BigUint::to_u128@ and back.\<close>

definition to_u128 :: "nat \<Rightarrow> 128 word option" where
  "to_u128 n = (if n < 2 ^ 128 then Some (of_nat n) else None)"

lemma to_u128_unat: "to_u128 n = Some w \<longleftrightarrow> n < 2 ^ 128 \<and> unat w = n"
proof -
  have "unat (of_nat n :: 128 word) = n" if "n < 2 ^ 128"
    using that by (simp add: unat_of_nat take_bit_nat_eq_self)
  then show ?thesis
    by (auto simp: to_u128_def)
qed

text \<open>A slice @bytes[from..from + n]@ of a byte string and the field at that offset.\<close>

definition slice :: "nat \<Rightarrow> nat \<Rightarrow> byte list \<Rightarrow> byte list" where
  "slice off n bs = take n (drop off bs)"

lemma length_slice: "size (slice off n bs) = min n (size bs - off)"
  by (simp add: slice_def)

lemma slice_append: "size as = off \<Longrightarrow> size bs = n \<Longrightarrow> slice off n (as @ bs @ cs) = bs"
  by (simp add: slice_def)

lemma slice_skip: "slice (size as + off) n (as @ bs) = slice off n bs"
  by (simp add: slice_def)

lemma slice_Cons: "slice (Suc off) n (b # bs) = slice off n bs"
  by (simp add: slice_def)

lemma slice_zero: "slice 0 n bs = take n bs"
  by (simp add: slice_def)

lemma from_bytes_word:
  "size (word_to_be (w :: 'a::len word)) \<le> n \<Longrightarrow>
    from_bytes n (word_to_be w) = Ok (from_be (word_to_be w))"
  by (rule from_bytes_short)

end
