(* ===== verification/Floats.thy ===== *)
theory Floats
  imports Bits
begin

text \<open>
  The decimal floating point format of amounts and fees: @FloatConversions@ of
  @core/lib/crypto/src/primitives.rs@ and the packing helpers of @core/lib/types/src/helpers.rs@.
  A @u128@ is a natural number below @2 ^ 128@ whose operations check the bound as the source's
  do (checked, saturating, or panicking).  The lemmas show which exponent the search finds, that
  every amount within the format packs and unpacks to the value rounded down, and which values
  are packable.
\<close>

section \<open>FloatConversions\<close>

datatype float_error = IntegerTooBig | Diverges

definition sat_mul_u128 :: "nat \<Rightarrow> nat \<Rightarrow> nat" where
  "sat_mul_u128 a b = min (a * b) (2 ^ 128 - 1)"

definition mul_u128 :: "nat \<Rightarrow> nat \<Rightarrow> (float_error, nat) res" where
  "mul_u128 a b = (if a * b < 2 ^ 128 then Ok (a * b) else Panic)"

text \<open>The loop that divides by the base until the rest is below it; @None@ is a loop that does
  not end.\<close>

partial_function (option) guess_loop :: "nat \<Rightarrow> nat \<Rightarrow> nat \<Rightarrow> nat option" where
  "guess_loop base temp e =
    (if temp < base then Some e else guess_loop base (temp div base) (e + 1))"

text \<open>@for _ in 0..n { t *= base }@\<close>

fun mul_loop :: "nat \<Rightarrow> nat \<Rightarrow> nat \<Rightarrow> (float_error, nat) res" where
  "mul_loop base 0 t = Ok t"
| "mul_loop base (Suc n) t = res_bind (mul_u128 t base) (mul_loop base n)"

definition float_parts :: "nat \<Rightarrow> nat \<Rightarrow> nat \<Rightarrow> (float_error, nat \<times> nat) res" where
  "float_parts integer max_mantissa base =
    (if max_mantissa < integer then
       (case guess_loop base (integer div max_mantissa) 0 of
          None \<Rightarrow> Err Diverges
        | Some exponent \<Rightarrow>
            res_bind (mul_loop base exponent 1) (\<lambda>temp.
            res_bind (mul_u128 temp max_mantissa) (\<lambda>p.
              if p < integer
              then res_bind (mul_u128 temp base) (\<lambda>temp. Ok (exponent + 1, integer div temp))
              else Ok (exponent, integer div temp))))
     else Ok (0, integer))"

text \<open>Bit @i@ of @x@, by @x \& (1 << i) != 0@, for @i@ below @n@.\<close>

definition encode_le :: "nat \<Rightarrow> nat \<Rightarrow> bool list" where
  "encode_le n x = map (\<lambda>i. (x AND push_bit i 1) \<noteq> 0) [0..<n]"

text \<open>@to_float@: @(1 << exponent_length) - 1@ is an @i32@, @(1u128 << mantissa_length) - 1@ a
  @u128@.\<close>

definition to_float :: "nat \<Rightarrow> nat \<Rightarrow> nat \<Rightarrow> nat \<Rightarrow> (float_error, bool list) res" where
  "to_float integer exponent_length mantissa_length base =
    (if 30 < exponent_length \<or> 127 < mantissa_length then Panic
     else
       let max_power = 2 ^ exponent_length - 1;
           max_exponent = ((\<lambda>m. sat_mul_u128 m base) ^^ max_power) 1;
           max_mantissa = 2 ^ mantissa_length - 1
       in if sat_mul_u128 max_mantissa max_exponent < integer then Err IntegerTooBig
          else res_bind (float_parts integer max_mantissa base) (\<lambda>(exponent, mantissa).
            Ok (encode_le exponent_length exponent @ encode_le mantissa_length mantissa)))"

definition pack :: "nat \<Rightarrow> nat \<Rightarrow> nat \<Rightarrow> (unit, byte list) res" where
  "pack number exponent_len mantissa_len =
    (if number < 2 ^ 128 then
       (case to_float number exponent_len mantissa_len 10 of
          Ok vec \<Rightarrow> into_bytes_ordered (rev vec)
        | _ \<Rightarrow> Panic)
     else Panic)"

text \<open>@for (i, bit) in ... { if *bit { acc = acc.checked_add(1 << i)? } }@ on a @w@ bit integer;
  the error is the @None@ of the source.\<close>

fun sum_bits :: "nat \<Rightarrow> nat \<Rightarrow> nat \<Rightarrow> bool list \<Rightarrow> (unit, nat) res" where
  "sum_bits w i acc [] = Ok acc"
| "sum_bits w i acc (b # bs) =
    (if b then
       (if w \<le> i then Panic
        else if acc + 2 ^ i < 2 ^ w then sum_bits w (i + 1) (acc + 2 ^ i) bs else Err ())
     else sum_bits w (i + 1) acc bs)"

definition unpack :: "byte list \<Rightarrow> nat \<Rightarrow> nat \<Rightarrow> (unit, nat) res" where
  "unpack data exponent_len mantissa_len =
    (if exponent_len + mantissa_len \<noteq> size data * 8 then Err ()
     else let bits = from_be_bytes data in
       res_bind (sum_bits 128 0 0 (rev (take mantissa_len bits))) (\<lambda>mantissa.
       res_bind (sum_bits 32 0 0 (rev (take exponent_len (drop mantissa_len bits)))) (\<lambda>exponent_pow.
       res_bind (if 10 ^ exponent_pow < (2 ^ 128 :: nat) then Ok (10 ^ exponent_pow) else Err ()) (\<lambda>exponent.
         if mantissa * exponent < 2 ^ 128 then Ok (mantissa * exponent) else Err ()))))"

section \<open>Packing helpers\<close>

definition pack_token_amount :: "nat \<Rightarrow> (unit, byte list) res" where
  "pack_token_amount amount = pack amount AMOUNT_EXPONENT_BIT_WIDTH AMOUNT_MANTISSA_BIT_WIDTH"

definition pack_fee_amount :: "nat \<Rightarrow> (unit, byte list) res" where
  "pack_fee_amount amount = pack amount FEE_EXPONENT_BIT_WIDTH FEE_MANTISSA_BIT_WIDTH"

definition unpack_token_amount :: "byte list \<Rightarrow> (unit, nat) res" where
  "unpack_token_amount data = unpack data AMOUNT_EXPONENT_BIT_WIDTH AMOUNT_MANTISSA_BIT_WIDTH"

definition unpack_fee_amount :: "byte list \<Rightarrow> (unit, nat) res" where
  "unpack_fee_amount data = unpack data FEE_EXPONENT_BIT_WIDTH FEE_MANTISSA_BIT_WIDTH"

text \<open>A panic of the unpacking (there is none) would be one of the callers.\<close>

definition is_token_amount_packable :: "nat \<Rightarrow> (unit, bool) res" where
  "is_token_amount_packable amount = res_bind (pack_token_amount amount)
    (\<lambda>b. case unpack_token_amount b of Ok m \<Rightarrow> Ok (amount = m) | Err _ \<Rightarrow> Ok False | Panic \<Rightarrow> Panic)"

definition is_fee_amount_packable :: "nat \<Rightarrow> (unit, bool) res" where
  "is_fee_amount_packable amount = res_bind (pack_fee_amount amount)
    (\<lambda>b. case unpack_fee_amount b of Ok m \<Rightarrow> Ok (amount = m) | Err _ \<Rightarrow> Ok False | Panic \<Rightarrow> Panic)"

definition closest_packable_fee_amount :: "nat \<Rightarrow> (unit, nat) res" where
  "closest_packable_fee_amount amount = res_bind (pack_fee_amount amount)
    (\<lambda>b. case unpack_fee_amount b of Ok m \<Rightarrow> Ok m | _ \<Rightarrow> Panic)"

definition closest_packable_token_amount :: "nat \<Rightarrow> (unit, nat) res" where
  "closest_packable_token_amount amount = res_bind (pack_token_amount amount)
    (\<lambda>b. case unpack_token_amount b of Ok m \<Rightarrow> Ok m | _ \<Rightarrow> Panic)"

section \<open>The exponent search\<close>

lemma guess_loop_result:
  assumes "2 \<le> b" "0 < t"
  shows "\<exists>k. guess_loop b t e = Some (e + k) \<and> b ^ k \<le> t \<and> t < b ^ (k + 1)"
  using assms(2)
proof (induction t arbitrary: e rule: less_induct)
  case (less t)
  show ?case
  proof (cases "t < b")
    case True
    then show ?thesis
      using less.prems by (intro exI [of _ 0]) (simp add: guess_loop.simps)
  next
    case False
    then have "t div b < t" "0 < t div b"
      using assms(1) less.prems by (auto simp: div_greater_zero_iff)
    from less.IH [OF this, of "e + 1"] obtain k where
      k: "guess_loop b (t div b) (e + 1) = Some (e + 1 + k)" "b ^ k \<le> t div b" "t div b < b ^ (k + 1)"
      by blast
    then have "b ^ (k + 1) \<le> t"
      using assms(1) by (simp add: less_eq_div_iff_mult_less_eq mult.commute)
    moreover have "t < b ^ (k + 2)"
      using k(3) assms(1) by (simp add: div_less_iff_less_mult mult.commute mult.left_commute)
    ultimately show ?thesis
      using k(1) False by (intro exI [of _ "k + 1"]) (simp add: guess_loop.simps [of b t])
  qed
qed

lemma mul_loop_pow:
  "0 < b \<Longrightarrow> t * b ^ n < 2 ^ 128 \<Longrightarrow> mul_loop b n t = Ok (t * b ^ n)"
proof (induction n arbitrary: t)
  case (Suc n)
  have "t * b \<le> t * b ^ Suc n"
    using Suc.prems(1) by simp
  then have "t * b < 2 ^ 128"
    using Suc.prems(2) by (rule le_less_trans)
  then show ?case
    using Suc by (simp add: mul_u128_def mult.assoc)
qed simp

text \<open>The smallest exponent with which the mantissa fits.\<close>

definition least_exp :: "nat \<Rightarrow> nat \<Rightarrow> nat \<Rightarrow> nat" where
  "least_exp b mm n = (LEAST e. n \<le> mm * b ^ e)"

lemma least_exp_eqI: "n \<le> mm * b ^ e \<Longrightarrow> (\<And>e'. e' < e \<Longrightarrow> mm * b ^ e' < n) \<Longrightarrow> least_exp b mm n = e"
  unfolding least_exp_def by (rule Least_equality) (auto simp: not_less [symmetric])

lemma least_exp_le: "n \<le> mm * b ^ e \<Longrightarrow> least_exp b mm n \<le> e"
  unfolding least_exp_def by (rule Least_le)

lemma ex_exp: "2 \<le> b \<Longrightarrow> 0 < mm \<Longrightarrow> \<exists>e. n \<le> mm * (b :: nat) ^ e"
proof (intro exI [of _ n])
  assume "2 \<le> b" "0 < mm"
  then have "n < b ^ n" "1 \<le> mm"
    using power_gt_expt [of b n] by auto
  then show "n \<le> mm * b ^ n"
    using mult_le_mono [of 1 mm n "b ^ n"] by simp
qed

lemma least_exp_upper: "2 \<le> b \<Longrightarrow> 0 < mm \<Longrightarrow> n \<le> mm * b ^ least_exp b mm n"
  unfolding least_exp_def by (rule LeastI_ex) (rule ex_exp)

lemma least_exp_lower: "e < least_exp b mm n \<Longrightarrow> mm * b ^ e < n"
  unfolding least_exp_def using not_less_Least not_less by blast

lemma float_parts_spec:
  assumes "2 \<le> b" "b \<le> mm" "n < 2 ^ 128"
  shows "float_parts n mm b = Ok (least_exp b mm n, n div b ^ least_exp b mm n)"
proof (cases "mm < n")
  case False
  then have "least_exp b mm n = 0"
    by (intro least_exp_eqI) auto
  then show ?thesis
    using False by (simp add: float_parts_def)
next
  case True
  have mm: "0 < mm"
    using assms by simp
  then have "0 < n div mm"
    using True by (simp add: div_greater_zero_iff)
  then obtain k where k: "guess_loop b (n div mm) 0 = Some k" "b ^ k \<le> n div mm" "n div mm < b ^ (k + 1)"
    using guess_loop_result [OF assms(1), of "n div mm" 0] by auto
  have lo: "b ^ k * mm \<le> n"
    using k(2) mm by (simp add: less_eq_div_iff_mult_less_eq)
  have hi: "n < b ^ (k + 1) * mm"
    using k(3) mm by (simp add: div_less_iff_less_mult)
  have p0: "1 * b ^ k < 2 ^ 128"
  proof -
    have "1 * b ^ k \<le> b ^ k * mm"
      using mm by simp
    then show ?thesis
      using lo assms(3) by (meson le_less_trans)
  qed
  have p1: "b ^ k * b < 2 ^ 128"
    using mult_le_mono2 [OF assms(2)] lo assms(3) by (meson le_less_trans le_trans)
  have m: "(mul_loop b k 1 :: (float_error, nat) res) = Ok (b ^ k)"
    using mul_loop_pow [OF _ p0] assms by simp
  have below: "mm * b ^ e' < n" if "e' < k \<or> (e' = k \<and> b ^ k * mm < n)" for e'
  proof (cases "e' = k")
    case False
    then have "b ^ e' < b ^ k"
      using that assms(1) by (intro power_strict_increasing) auto
    then have "mm * b ^ e' < mm * b ^ k"
      using mm by simp
    then show ?thesis
      using lo by (simp only: mult.commute [of mm] less_le_trans)
  qed (use that in \<open>auto simp: mult.commute\<close>)
  show ?thesis
  proof (cases "b ^ k * mm < n")
    case True': True
    have "least_exp b mm n = k + 1"
      using hi below True' by (intro least_exp_eqI) (auto simp: less_Suc_eq mult.commute)
    then show ?thesis
      using True True' k(1) lo p1 m assms(3) by (simp add: float_parts_def mul_u128_def mult.commute del: res_bind_Ok_iff)
  next
    case False
    have "least_exp b mm n = k"
      using lo below False by (intro least_exp_eqI) (auto simp: mult.commute)
    then show ?thesis
      using True False k(1) lo m assms(3) by (simp add: float_parts_def mul_u128_def)
  qed
qed

section \<open>Packing\<close>

lemma horner_append_zero: "horner_sum of_bool 2 (replicate n False) = (0 :: nat)"
  by (induction n) auto

lemma sum_bits_eq:
  "i + size bs \<le> w \<Longrightarrow> acc < 2 ^ i \<Longrightarrow>
    sum_bits w i acc bs = Ok (acc + 2 ^ i * horner_sum of_bool 2 bs)"
proof (induction bs arbitrary: i acc)
  case (Cons b bs)
  have "acc + 2 ^ i < 2 ^ (i + 1)"
    using Cons.prems(2) by simp
  moreover from this have "acc + 2 ^ i < 2 ^ w"
    using Cons.prems(1) power_increasing [of "i + 1" w "2 :: nat"] by (simp add: less_le_trans)
  moreover have "acc < 2 ^ (i + 1)"
    using Cons.prems(2) by simp
  ultimately show ?case
    using Cons.IH [of "i + 1"] Cons.prems by (auto simp: algebra_simps)
qed simp

lemma encode_le_bits: "encode_le n x = map (bit x) [0..<n]"
  by (simp add: encode_le_def and_exp_eq_0_iff_not_bit)

lemma length_encode_le [simp]: "size (encode_le n x) = n"
  by (simp add: encode_le_def)

lemma sum_bits_encode_le: "n \<le> w \<Longrightarrow> x < 2 ^ n \<Longrightarrow> sum_bits w 0 0 (encode_le n x) = Ok x"
  using sum_bits_eq [of 0 "encode_le n x" w 0]
  by (simp add: encode_le_bits horner_sum_bit_eq_take_bit take_bit_nat_eq_self)

lemma min_mult_min: "1 \<le> b \<Longrightarrow> min (b * min x m) m = min (b * x) (m :: nat)"
proof (cases "x \<le> m")
  case False
  assume b: "1 \<le> b"
  then have "m \<le> b * m" "x \<le> b * x"
    by auto
  then have "min (b * m) m = m" "min (b * x) m = m" "min x m = m"
    using False by (intro min_absorb2, linarith)+
  then show ?thesis
    by simp
qed (simp add: min_absorb1)

lemma sat_pow: "1 \<le> b \<Longrightarrow> ((\<lambda>m. sat_mul_u128 m b) ^^ n) 1 = min (b ^ n) (2 ^ 128 - 1)"
proof (induction n)
  case (Suc n)
  have "sat_mul_u128 (min (b ^ n) (2 ^ 128 - 1)) b = min (b ^ Suc n) (2 ^ 128 - 1)"
    unfolding sat_mul_u128_def power_Suc mult.commute [of _ b] by (rule min_mult_min [OF Suc.prems])
  then show ?case
    by (simp only: funpow.simps o_apply Suc)
qed simp

text \<open>The format with @el@ exponent and @ml@ mantissa bits over base 10 and its largest value.\<close>

definition float_limit :: "nat \<Rightarrow> nat \<Rightarrow> nat" where
  "float_limit el ml = min ((2 ^ ml - 1) * 10 ^ (2 ^ el - 1)) (2 ^ 128 - 1)"

definition float_floor :: "nat \<Rightarrow> nat \<Rightarrow> nat" where
  "float_floor ml n = (let e = least_exp 10 (2 ^ ml - 1) n in n div 10 ^ e * 10 ^ e)"


lemma to_float_spec:
  assumes "el \<le> 30" "4 \<le> ml" "ml \<le> 127" "n \<le> float_limit el ml"
  shows "to_float n el ml 10
    = Ok (encode_le el (least_exp 10 (2 ^ ml - 1) n)
        @ encode_le ml (n div 10 ^ least_exp 10 (2 ^ ml - 1) n))"
proof -
  have "(2 :: nat) ^ 4 \<le> 2 ^ ml"
    using assms(2) by (rule power_increasing) simp
  then have mm: "10 \<le> (2 :: nat) ^ ml - 1"
    by simp
  then have "sat_mul_u128 (2 ^ ml - 1) (min (10 ^ (2 ^ el - 1)) (2 ^ 128 - 1)) = float_limit el ml"
    unfolding sat_mul_u128_def float_limit_def by (intro min_mult_min) linarith
  then have "\<not> sat_mul_u128 (2 ^ ml - 1) (((\<lambda>m. sat_mul_u128 m 10) ^^ (2 ^ el - 1)) 1) < n"
    using assms(4) sat_pow [of 10 "2 ^ el - 1"] by (simp only: not_less)
  moreover have "float_parts n (2 ^ ml - 1) 10
      = Ok (least_exp 10 (2 ^ ml - 1) n, n div 10 ^ least_exp 10 (2 ^ ml - 1) n)"
    using assms(4) mm by (intro float_parts_spec) (auto simp: float_limit_def)
  ultimately show ?thesis
    using assms by (simp add: to_float_def Let_def)
qed

lemma float_limit_exp:
  assumes "n \<le> float_limit el ml" "4 \<le> ml"
  shows "least_exp 10 (2 ^ ml - 1) n < 2 ^ el"
proof -
  have "least_exp 10 (2 ^ ml - 1) n \<le> 2 ^ el - 1"
    using assms by (intro least_exp_le) (simp add: float_limit_def)
  moreover have "0 < (2 :: nat) ^ el"
    by simp
  ultimately show ?thesis
    by linarith
qed

lemma float_mant:
  assumes "4 \<le> ml"
  shows "n div 10 ^ least_exp 10 (2 ^ ml - 1) n < 2 ^ ml"
proof -
  have "(2 :: nat) ^ 4 \<le> 2 ^ ml"
    using assms by (rule power_increasing) simp
  then have "n \<le> (2 ^ ml - 1) * 10 ^ least_exp 10 (2 ^ ml - 1) n"
    by (intro least_exp_upper) auto
  then have "n div 10 ^ least_exp 10 (2 ^ ml - 1) n \<le> 2 ^ ml - 1"
    using div_le_mono [of n _ "10 ^ least_exp 10 (2 ^ ml - 1) n"] by fastforce
  moreover have "(0 :: nat) < 2 ^ ml"
    by simp
  ultimately show ?thesis
    by linarith
qed

lemma float_pow_small:
  assumes "4 \<le> ml" "n < 2 ^ 128"
  shows "(10 :: nat) ^ least_exp 10 (2 ^ ml - 1) n < 2 ^ 128"
proof (cases "least_exp 10 (2 ^ ml - 1) n")
  case (Suc e)
  have "(2 :: nat) ^ 4 \<le> 2 ^ ml"
    using assms(1) by (rule power_increasing) simp
  then have "10 ^ Suc e \<le> ((2 :: nat) ^ ml - 1) * 10 ^ e"
    by simp
  also have "\<dots> < n"
    using Suc by (intro least_exp_lower) simp
  finally show ?thesis
    using assms(2) Suc by simp
qed simp

lemma float_floor_le: "float_floor ml n \<le> n"
  by (simp add: float_floor_def Let_def)

lemma pack_unpack:
  assumes "el \<le> 30" "4 \<le> ml" "ml \<le> 127" "(el + ml) mod 8 = 0" "n \<le> float_limit el ml"
  obtains bs where "(pack n el ml :: (unit, byte list) res) = Ok bs"
    "8 * size bs = el + ml" "unpack bs el ml = Ok (float_floor ml n)"
proof -
  let ?e = "least_exp 10 (2 ^ ml - 1) n"
  let ?m = "n div 10 ^ ?e"
  let ?bits = "rev (encode_le ml ?m) @ rev (encode_le el ?e)"
  have n: "n < 2 ^ 128"
    using assms(5) by (simp add: float_limit_def)
  have "size ?bits mod 8 = 0"
    using assms(4) by (simp add: add.commute)
  then obtain bs where bs: "(into_bytes_ordered ?bits :: (unit, byte list) res) = Ok bs"
    "from_be_bytes bs = ?bits" "size ?bits = 8 * size bs"
    by (rule into_bytes_ordered_Ok)
  have p: "(pack n el ml :: (unit, byte list) res) = Ok bs"
    using bs(1) n to_float_spec [OF assms(1-3,5)] by (simp add: pack_def)
  have "sum_bits 128 0 0 (encode_le ml ?m) = Ok ?m"
    using assms float_mant by (intro sum_bits_encode_le) auto
  moreover have "sum_bits 32 0 0 (encode_le el ?e) = Ok ?e"
    using assms float_limit_exp by (intro sum_bits_encode_le) auto
  moreover have "?m * 10 ^ ?e < 2 ^ 128"
    using float_floor_le [of ml n] n unfolding float_floor_def Let_def by (rule le_less_trans)
  moreover have "10 ^ ?e < (2 ^ 128 :: nat)"
    using n assms(2) by (intro float_pow_small)
  ultimately have "unpack bs el ml = Ok (float_floor ml n)"
    using bs(2,3) by (simp add: unpack_def float_floor_def Let_def)
  then show ?thesis
    using that p bs(3) by simp
qed

lemma float_floor_packable:
  assumes "4 \<le> ml"
  shows "float_floor ml n = n \<longleftrightarrow> (\<exists>m < 2 ^ ml. \<exists>e. n = m * 10 ^ e)"
proof
  assume "float_floor ml n = n"
  then show "\<exists>m < 2 ^ ml. \<exists>e. n = m * 10 ^ e"
    using float_mant [OF assms, of n] unfolding float_floor_def Let_def by metis
next
  assume "\<exists>m < 2 ^ ml. \<exists>e. n = m * 10 ^ e"
  then obtain m e where m: "m < 2 ^ ml" "n = m * 10 ^ e"
    by blast
  have le: "least_exp 10 (2 ^ ml - 1) n \<le> e"
    using m by (intro least_exp_le) simp
  have "10 ^ least_exp 10 (2 ^ ml - 1) n dvd n"
    unfolding m(2) using le m(2) by (intro dvd_mult le_imp_power_dvd) simp
  then show "float_floor ml n = n"
    by (simp add: float_floor_def Let_def)
qed

lemma float_floor_idem: "4 \<le> ml \<Longrightarrow> float_floor ml (float_floor ml n) = float_floor ml n"
  unfolding float_floor_packable using float_mant [of ml n]
  by (auto simp: float_floor_def Let_def)

lemma packable_exp_bound:
  assumes "4 \<le> ml" "n \<le> float_limit el ml"
  shows "(\<exists>m < 2 ^ ml. \<exists>e. n = m * 10 ^ e) \<longleftrightarrow> (\<exists>m < 2 ^ ml. \<exists>e < 2 ^ el. n = m * 10 ^ e)"
    (is "?l \<longleftrightarrow> ?r")
proof
  assume ?l
  then have "float_floor ml n = n"
    using float_floor_packable [OF assms(1)] by simp
  then have "n = n div 10 ^ least_exp 10 (2 ^ ml - 1) n * 10 ^ least_exp 10 (2 ^ ml - 1) n"
    by (simp add: float_floor_def Let_def)
  then show ?r
    using float_mant [OF assms(1), of n] float_limit_exp [OF assms(2,1)] by blast
qed blast

lemma float_floor_error:
  assumes "4 \<le> ml"
  shows "(n - float_floor ml n) * (2 ^ ml - 1) \<le> 10 * n"
proof (cases "least_exp 10 (2 ^ ml - 1) n")
  case 0
  then show ?thesis
    by (simp add: float_floor_def)
next
  case (Suc e)
  have "n - float_floor ml n = n mod 10 ^ Suc e"
    by (simp only: float_floor_def Let_def Suc minus_div_mult_eq_mod)
  then have "n - float_floor ml n \<le> 10 ^ Suc e"
    by (simp add: less_imp_le)
  then have "(n - float_floor ml n) * (2 ^ ml - 1) \<le> 10 ^ Suc e * (2 ^ ml - 1)"
    by (rule mult_le_mono1)
  also have "\<dots> = 10 * ((2 ^ ml - 1) * 10 ^ e)"
    by simp
  also have "\<dots> \<le> 10 * n"
    using least_exp_lower [of e 10 "2 ^ ml - 1" n] Suc by (intro mult_le_mono2) simp
  finally show ?thesis .
qed

section \<open>The fee and token formats\<close>

lemma fee_limit: "float_limit 5 11 = 20470000000000000000000000000000000"
  by (simp add: float_limit_def)

lemma token_limit: "float_limit 5 35 = 2 ^ 128 - 1"
  by (simp add: float_limit_def)

lemma fee_pack_Ok:
  assumes "n \<le> float_limit 5 11"
  obtains bs where "(pack_fee_amount n :: (unit, byte list) res) = Ok bs" "size bs = 2"
    "unpack_fee_amount bs = Ok (float_floor 11 n)"
  using pack_unpack [of 5 11 n] assms
  by (auto simp: pack_fee_amount_def unpack_fee_amount_def param_defs)

lemma token_pack_Ok:
  assumes "n < 2 ^ 128"
  obtains bs where "(pack_token_amount n :: (unit, byte list) res) = Ok bs" "size bs = 5"
    "unpack_token_amount bs = Ok (float_floor 35 n)"
  using pack_unpack [of 5 35 n] assms
  by (auto simp: pack_token_amount_def unpack_token_amount_def param_defs token_limit)

lemma fee_pack_Panic: "float_limit 5 11 < n \<Longrightarrow> pack_fee_amount n = Panic"
  using sat_pow [of 10 31]
  by (simp add: fee_limit pack_fee_amount_def pack_def param_defs to_float_def Let_def
      sat_mul_u128_def)

lemma token_pack_Panic: "2 ^ 128 \<le> n \<Longrightarrow> pack_token_amount n = Panic"
  by (simp add: pack_token_amount_def pack_def)

section \<open>Which amounts are packable\<close>

lemma is_fee_packable_floor:
  "n \<le> float_limit 5 11 \<Longrightarrow> is_fee_amount_packable n = Ok (float_floor 11 n = n)"
  by (rule fee_pack_Ok [of n]) (auto simp: is_fee_amount_packable_def)

lemma is_token_packable_floor:
  "n < 2 ^ 128 \<Longrightarrow> is_token_amount_packable n = Ok (float_floor 35 n = n)"
  by (rule token_pack_Ok [of n]) (auto simp: is_token_amount_packable_def)

lemma closest_fee_Ok: "n \<le> float_limit 5 11 \<Longrightarrow> closest_packable_fee_amount n = Ok (float_floor 11 n)"
  by (rule fee_pack_Ok [of n]) (auto simp: closest_packable_fee_amount_def)

lemma closest_token_Ok: "n < 2 ^ 128 \<Longrightarrow> closest_packable_token_amount n = Ok (float_floor 35 n)"
  by (rule token_pack_Ok [of n]) (auto simp: closest_packable_token_amount_def)

text \<open>C29: the check that a fee is packable answers true exactly on the fees of the form mantissa
  times a power of ten with an 11 bit mantissa and a 5 bit exponent, and panics (instead of
  answering false) on every fee above the largest of them, 2047 * 10^31, although such a fee may
  still be a valid u128.\<close>

theorem fee_packable_iff:
  "is_fee_amount_packable n =
    (if n \<le> 2047 * 10 ^ 31 then Ok (\<exists>m < 2 ^ 11. \<exists>e < 2 ^ 5. n = m * 10 ^ e) else Panic)"
proof (cases "n \<le> float_limit 5 11")
  case True
  have "is_fee_amount_packable n = Ok (float_floor 11 n = n)"
    using True by (rule is_fee_packable_floor)
  also have "float_floor 11 n = n \<longleftrightarrow> (\<exists>m < 2 ^ 11. \<exists>e < 2 ^ 5. n = m * 10 ^ e)"
    using float_floor_packable [of 11 n] packable_exp_bound [OF _ True] by simp
  finally show ?thesis
    using True by (simp add: fee_limit)
next
  case False
  then show ?thesis
    by (simp add: is_fee_amount_packable_def fee_pack_Panic fee_limit)
qed

text \<open>the check that a token amount is packable answers true exactly on the amounts of the
  form mantissa times a power of ten with a 35 bit mantissa and a 5 bit exponent, for every u128,
  and panics on larger amounts.\<close>

lemma token_packable_iff:
  "is_token_amount_packable n =
    (if n < 2 ^ 128 then Ok (\<exists>m < 2 ^ 35. \<exists>e < 2 ^ 5. n = m * 10 ^ e) else Panic)"
proof (cases "n < 2 ^ 128")
  case True
  then have lim: "n \<le> float_limit 5 35"
    by (simp add: token_limit)
  have "is_token_amount_packable n = Ok (float_floor 35 n = n)"
    using True by (rule is_token_packable_floor)
  also have "float_floor 35 n = n \<longleftrightarrow> (\<exists>m < 2 ^ 35. \<exists>e < 2 ^ 5. n = m * 10 ^ e)"
    using float_floor_packable [of 35 n] packable_exp_bound [OF _ lim] by simp
  finally show ?thesis
    using True by simp
qed (simp add: is_token_amount_packable_def token_pack_Panic)

text \<open>Rounding a fee to a packable one returns, for every fee within the format, a packable
  fee that is at most the given one and loses at most 10/2047 of it; rounding a token amount does
  so for every u128.\<close>

lemma closest_fee_rounds_down:
  assumes "n \<le> 2047 * 10 ^ 31"
  shows "\<exists>m. closest_packable_fee_amount n = Ok m \<and> m \<le> n \<and> is_fee_amount_packable m = Ok True
    \<and> (n - m) * 2047 \<le> 10 * n"
proof -
  have n: "n \<le> float_limit 5 11"
    using assms by (simp add: fee_limit)
  have m: "float_floor 11 n \<le> float_limit 5 11"
    using float_floor_le n by (rule le_trans)
  have "is_fee_amount_packable (float_floor 11 n) = Ok True"
    using is_fee_packable_floor [OF m] by (simp add: float_floor_idem)
  then show ?thesis
    using closest_fee_Ok [OF n] float_floor_le [of 11 n] float_floor_error [of 11 n] by simp
qed

lemma closest_fee_rounds_down_example:
  "\<exists>m. closest_packable_fee_amount 1234123424 = Ok m \<and> m \<le> 1234123424
    \<and> is_fee_amount_packable m = Ok True \<and> (1234123424 - m) * 2047 \<le> 10 * 1234123424"
  by (rule closest_fee_rounds_down) simp

text \<open>the fee returned as the closest packable one need not be the closest: for 20471 it is
  20400, although 20470 is packable as well and is closer.\<close>

lemma closest_fee_not_closest:
  "closest_packable_fee_amount 20471 = Ok 20400 \<and> is_fee_amount_packable 20470 = Ok True"
proof -
  have "least_exp 10 (2 ^ 11 - 1) 20471 = 2"
    by (rule least_exp_eqI) (auto simp: less_2_cases_iff)
  then have "float_floor 11 20471 = 20400"
    by (simp add: float_floor_def Let_def)
  moreover have "least_exp 10 (2 ^ 11 - 1) 20470 = 1"
    by (rule least_exp_eqI) auto
  then have "float_floor 11 20470 = 20470"
    by (simp add: float_floor_def Let_def)
  ultimately show ?thesis
    using closest_fee_Ok [of 20471] is_fee_packable_floor [of 20470] by (simp add: fee_limit)
qed

end
