(* ===== verification/Accounts.thy ===== *)
theory Accounts
  imports Params Bits
begin

text \<open>
  Accounts and their updates: @core/lib/types/src/account@ and the update functions of
  @core/lib/types/src/helpers.rs@.  A @BigUint@ balance is a natural number, the balance map an
  @fmap@.  The abstract account is its observable part (a missing balance is a zero balance); the
  operations refine their specification on it, and reversing a sequence of updates undoes it.
\<close>

section \<open>Account\<close>

record account =
  acc_pub_key_hash :: pubkey_hash
  acc_address :: address
  acc_balances :: "(token_id, nat) fmap"
  acc_nonce :: nonce

text \<open>@PubKeyHash::from_bytes@ and the reading of the 20 bytes as a word.\<close>

definition pubkey_hash_from_bytes :: "byte list \<Rightarrow> (unit, pubkey_hash) res" where
  "pubkey_hash_from_bytes bytes =
    (if size bytes = FR_ADDRESS_LEN then Ok (of_nat (from_be bytes)) else Err ())"

definition pubkey_hash_bytes :: "pubkey_hash \<Rightarrow> byte list" where
  "pubkey_hash_bytes h = to_be 20 (unat h)"

definition default_account :: account where
  "default_account = \<lparr>acc_pub_key_hash = 0, acc_address = 0, acc_balances = fmempty, acc_nonce = 0\<rparr>"

definition default_with_address :: "address \<Rightarrow> account" where
  "default_with_address addr = default_account\<lparr>acc_address := addr\<rparr>"

definition get_balance :: "account \<Rightarrow> token_id \<Rightarrow> nat" where
  "get_balance a token = (case fmlookup (acc_balances a) token of None \<Rightarrow> 0 | Some b \<Rightarrow> b)"

definition set_balance :: "account \<Rightarrow> token_id \<Rightarrow> nat \<Rightarrow> account" where
  "set_balance a token amount = a\<lparr>acc_balances := fmupd token amount (acc_balances a)\<rparr>"

definition add_balance :: "account \<Rightarrow> token_id \<Rightarrow> nat \<Rightarrow> account" where
  "add_balance a token amount =
    (let balance = (case fmlookup (acc_balances a) token of None \<Rightarrow> 0 | Some b \<Rightarrow> b)
     in a\<lparr>acc_balances := fmupd token (balance + amount) (fmdrop token (acc_balances a))\<rparr>)"

text \<open>@balance.0 -= amount@ panics when the amount is greater.\<close>

definition sub_balance :: "account \<Rightarrow> token_id \<Rightarrow> nat \<Rightarrow> ('e, account) res" where
  "sub_balance a token amount =
    (let balance = (case fmlookup (acc_balances a) token of None \<Rightarrow> 0 | Some b \<Rightarrow> b)
     in if balance < amount then Panic
        else Ok (a\<lparr>acc_balances := fmupd token (balance - amount) (fmdrop token (acc_balances a))\<rparr>))"

definition get_nonzero_balances :: "account \<Rightarrow> (token_id, nat) fmap" where
  "get_nonzero_balances a = fmfilter (\<lambda>t. fmlookup (acc_balances a) t \<noteq> Some 0) (acc_balances a)"

section \<open>AccountUpdate\<close>

datatype account_update =
    Create address nonce
  | Delete address nonce
  | UpdateBalance nonce nonce "token_id \<times> nat \<times> nat"
  | ChangePubKeyHash pubkey_hash pubkey_hash nonce nonce

type_synonym account_updates = "(account_id \<times> account_update) list"
type_synonym account_map = "(account_id, account) fmap"

fun reversed_update :: "account_update \<Rightarrow> account_update" where
  "reversed_update (Create addr n) = Delete addr n"
| "reversed_update (Delete addr n) = Create addr n"
| "reversed_update (UpdateBalance old_nonce new_nonce (t, old_b, new_b)) =
     UpdateBalance new_nonce old_nonce (t, new_b, old_b)"
| "reversed_update (ChangePubKeyHash old_h new_h old_nonce new_nonce) =
     ChangePubKeyHash new_h old_h new_nonce old_nonce"

definition create_account :: "account_id \<Rightarrow> address \<Rightarrow> account \<times> account_updates" where
  "create_account aid addr =
    (let a = default_account\<lparr>acc_address := addr\<rparr>
     in (a, [(aid, Create (acc_address a) (acc_nonce a))]))"

fun apply_update :: "account option \<Rightarrow> account_update \<Rightarrow> account option" where
  "apply_update (Some a) (Delete addr n) = None"
| "apply_update (Some a) (UpdateBalance old_nonce new_nonce (token, old_b, amount)) =
     Some ((set_balance a token amount)\<lparr>acc_nonce := new_nonce\<rparr>)"
| "apply_update (Some a) (ChangePubKeyHash old_h new_h old_nonce new_nonce) =
     Some (a\<lparr>acc_pub_key_hash := new_h, acc_nonce := new_nonce\<rparr>)"
| "apply_update (Some a) (Create addr n) = Some a"
| "apply_update None (Create addr n) = Some (default_account\<lparr>acc_address := addr, acc_nonce := n\<rparr>)"
| "apply_update None (Delete addr n) = None"
| "apply_update None (UpdateBalance old_nonce new_nonce b) = None"
| "apply_update None (ChangePubKeyHash old_h new_h old_nonce new_nonce) = None"

definition account_apply_updates :: "account option \<Rightarrow> account_update list \<Rightarrow> account option" where
  "account_apply_updates a updates = foldl apply_update a updates"

definition apply_updates :: "account_map \<Rightarrow> account_updates \<Rightarrow> account_map" where
  "apply_updates accounts updates = foldl
    (\<lambda>m (id, update). case apply_update (fmlookup m id) update of
        Some a \<Rightarrow> fmupd id a (fmdrop id m) | None \<Rightarrow> fmdrop id m) accounts updates"

definition reverse_updates :: "account_updates \<Rightarrow> account_updates" where
  "reverse_updates updates = map (\<lambda>(id, u). (id, reversed_update u)) (rev updates)"

section \<open>Balances\<close>

named_theorems account_simps \<open>observations of updated accounts\<close>

lemma get_balance_default [account_simps]: "get_balance default_account t = 0"
  by (simp add: get_balance_def default_account_def)

lemma get_balance_default_with_address [account_simps]: "get_balance (default_with_address a) t = 0"
  by (simp add: get_balance_def default_with_address_def default_account_def)

lemma get_balance_set_balance [account_simps]:
  "get_balance (set_balance a t x) t' = (if t' = t then x else get_balance a t')"
  by (simp add: get_balance_def set_balance_def)

lemma get_balance_add_balance [account_simps]:
  "get_balance (add_balance a t x) t' = (if t' = t then get_balance a t + x else get_balance a t')"
  by (simp add: get_balance_def add_balance_def Let_def)

lemma get_balance_nonce_update [account_simps]:
  "get_balance (a\<lparr>acc_nonce := n\<rparr>) t = get_balance a t"
  "get_balance (a\<lparr>acc_pub_key_hash := h\<rparr>) t = get_balance a t"
  "get_balance (a\<lparr>acc_address := ad\<rparr>) t = get_balance a t"
  by (simp_all add: get_balance_def)

lemma set_balance_fields [account_simps]:
  "acc_nonce (set_balance a t x) = acc_nonce a" "acc_address (set_balance a t x) = acc_address a"
  "acc_pub_key_hash (set_balance a t x) = acc_pub_key_hash a"
  by (simp_all add: set_balance_def)

lemma add_balance_fields [account_simps]:
  "acc_nonce (add_balance a t x) = acc_nonce a" "acc_address (add_balance a t x) = acc_address a"
  "acc_pub_key_hash (add_balance a t x) = acc_pub_key_hash a"
  by (simp_all add: add_balance_def Let_def)

lemma default_account_fields [account_simps]:
  "acc_nonce default_account = 0" "acc_address default_account = 0"
  "acc_pub_key_hash default_account = 0"
  by (simp_all add: default_account_def)

lemma default_with_address_fields [account_simps]:
  "acc_nonce (default_with_address ad) = 0" "acc_address (default_with_address ad) = ad"
  "acc_pub_key_hash (default_with_address ad) = 0"
  by (simp_all add: default_with_address_def default_account_def)

lemma fmupd_fmdrop_same [simp]: "fmupd k v (fmdrop k m) = fmupd k v m"
  by (rule fmap_ext) simp

lemma add_balance_set: "add_balance a t x = set_balance a t (get_balance a t + x)"
  by (simp add: add_balance_def set_balance_def get_balance_def Let_def)

lemma sub_balance_Ok:
  "sub_balance a t x = Ok a' \<longleftrightarrow> x \<le> get_balance a t \<and> a' = set_balance a t (get_balance a t - x)"
  by (auto simp: sub_balance_def get_balance_def set_balance_def Let_def)

lemma sub_balance_enough:
  "x \<le> get_balance a t \<Longrightarrow> sub_balance a t x = Ok (set_balance a t (get_balance a t - x))"
  by (simp add: sub_balance_Ok)

section \<open>The abstract account\<close>

text \<open>What can be observed of an account: address, key, nonce and the balance of every token.\<close>

type_synonym account_view = "address \<times> pubkey_hash \<times> nonce \<times> (token_id \<Rightarrow> nat)"

definition account_view :: "account \<Rightarrow> account_view" where
  "account_view a = (acc_address a, acc_pub_key_hash a, acc_nonce a, get_balance a)"

definition map_view :: "account_map \<Rightarrow> account_id \<Rightarrow> account_view option" where
  "map_view m = (\<lambda>i. map_option account_view (fmlookup m i))"

text \<open>The specification of an update, and when an update belongs to an account.\<close>

fun view_update :: "account_view option \<Rightarrow> account_update \<Rightarrow> account_view option" where
  "view_update (Some v) (Delete addr n) = None"
| "view_update (Some (ad, h, n, b)) (UpdateBalance old_n new_n (t, ob, nb)) = Some (ad, h, new_n, b(t := nb))"
| "view_update (Some (ad, h, n, b)) (ChangePubKeyHash old_h new_h old_n new_n) = Some (ad, new_h, new_n, b)"
| "view_update (Some v) (Create addr n) = Some v"
| "view_update None (Create addr n) = Some (addr, 0, n, \<lambda>t. 0)"
| "view_update None u = None"

fun update_fits :: "account_view option \<Rightarrow> account_update \<Rightarrow> bool" where
  "update_fits None (Create addr n) = True"
| "update_fits (Some v) (Delete addr n) = (v = (addr, 0, n, \<lambda>t. 0))"
| "update_fits (Some (ad, h, n, b)) (UpdateBalance old_n new_n (t, ob, nb)) = (n = old_n \<and> b t = ob)"
| "update_fits (Some (ad, h, n, b)) (ChangePubKeyHash old_h new_h old_n new_n) = (h = old_h \<and> n = old_n)"
| "update_fits v u = False"

definition view_step :: "(account_id \<Rightarrow> account_view option) \<Rightarrow> account_id \<times> account_update
    \<Rightarrow> account_id \<Rightarrow> account_view option" where
  "view_step V iu = V(fst iu := view_update (V (fst iu)) (snd iu))"

definition views_update :: "(account_id \<Rightarrow> account_view option) \<Rightarrow> account_updates
    \<Rightarrow> account_id \<Rightarrow> account_view option" where
  "views_update V us = foldl view_step V us"

fun updates_fit :: "(account_id \<Rightarrow> account_view option) \<Rightarrow> account_updates \<Rightarrow> bool" where
  "updates_fit V [] = True"
| "updates_fit V (iu # us) = (update_fits (V (fst iu)) (snd iu) \<and> updates_fit (view_step V iu) us)"

lemma views_update_simps [simp]:
  "views_update V [] = V"
  "views_update V (iu # us) = views_update (view_step V iu) us"
  "views_update V (us @ vs) = views_update (views_update V us) vs"
  by (simp_all add: views_update_def)

lemma updates_fit_append [simp]:
  "updates_fit V (us @ vs) \<longleftrightarrow> updates_fit V us \<and> updates_fit (views_update V us) vs"
  by (induction us arbitrary: V) auto

lemma view_update_refines:
  "map_option account_view (apply_update a u) = view_update (map_option account_view a) u"
  by (cases "(a, u)" rule: apply_update.cases)
    (auto simp: account_view_def account_simps fun_eq_iff)

lemma map_view_fmupd: "map_view (fmupd i a m) = (map_view m)(i := Some (account_view a))"
  by (auto simp: map_view_def)

lemma map_view_fmdrop: "map_view (fmdrop i m) = (map_view m)(i := None)"
  by (auto simp: map_view_def)

lemma apply_updates_Cons:
  "apply_updates m (iu # us) = apply_updates
    (case apply_update (fmlookup m (fst iu)) (snd iu) of
       Some a \<Rightarrow> fmupd (fst iu) a (fmdrop (fst iu) m) | None \<Rightarrow> fmdrop (fst iu) m) us"
  by (simp add: apply_updates_def case_prod_unfold)

lemma apply_updates_refines: "map_view (apply_updates m us) = views_update (map_view m) us"
proof (induction us arbitrary: m)
  case (Cons iu us)
  have "map_view (case apply_update (fmlookup m (fst iu)) (snd iu) of
       Some a \<Rightarrow> fmupd (fst iu) a (fmdrop (fst iu) m) | None \<Rightarrow> fmdrop (fst iu) m)
     = view_step (map_view m) iu"
    using view_update_refines [of "fmlookup m (fst iu)" "snd iu"]
    by (auto simp: map_view_fmupd map_view_fmdrop view_step_def map_view_def split: option.split)
  then show ?case
    using Cons by (simp add: apply_updates_Cons)
qed (simp add: apply_updates_def)

lemma view_update_undo:
  "update_fits v u \<Longrightarrow> view_update (view_update v u) (reversed_update u) = v"
  by (cases "(v, u)" rule: update_fits.cases) auto

lemma reverse_updates_simps [simp]:
  "reverse_updates [] = []"
  "reverse_updates ((i, u) # us) = reverse_updates us @ [(i, reversed_update u)]"
  by (simp_all add: reverse_updates_def)

lemma view_step_undo:
  "update_fits (V (fst iu)) (snd iu) \<Longrightarrow> view_step (view_step V iu) (fst iu, reversed_update (snd iu)) = V"
  by (simp add: view_step_def view_update_undo)

lemma views_update_undo:
  "updates_fit V us \<Longrightarrow> views_update (views_update V us) (reverse_updates us) = V"
proof (induction us arbitrary: V)
  case (Cons iu us)
  then show ?case
    using view_step_undo by (cases iu) auto
qed simp

lemma reversed_update_involution: "reversed_update (reversed_update u) = u"
  by (cases u rule: reversed_update.cases) auto

lemma reverse_updates_involution: "reverse_updates (reverse_updates us) = us"
  by (simp add: reverse_updates_def rev_map reversed_update_involution case_prod_unfold comp_def)

text \<open>Reversing account updates undoes them: if each update's old values are those of the
  account it is applied to, then applying the updates and then their reversal gives back every
  account's address, key, nonce and balances (as queries of them see it), and no other account.\<close>

lemma reverse_updates_undo:
  assumes "updates_fit (map_view m) us"
  shows "map_view (apply_updates (apply_updates m us) (reverse_updates us)) = map_view m"
  by (simp add: apply_updates_refines views_update_undo assms)

lemma pubkey_hash_roundtrip: "pubkey_hash_from_bytes (pubkey_hash_bytes h) = Ok h"
  using unsigned_less [of h, where ?'a = nat]
  by (simp add: pubkey_hash_from_bytes_def pubkey_hash_bytes_def FR_ADDRESS_LEN_def)

end
