(* ===== verification/Txs.thy ===== *)
theory Txs
  imports Floats Accounts Codec
begin

text \<open>
  The L2 transactions: @core/lib/types/src/tx@ and @SignedTxVariant@ of @mempool.rs@.  The
  elliptic curve, hash and hex libraries are the fields of a record the definitions take as their
  parameter.  The lemmas show how long the signed messages are and that the message that is hashed
  and signed determines the transaction, also between transactions of different types.
\<close>

section \<open>Signatures\<close>

text \<open>A public key and a signature in their packed forms of 32 and 64 bytes.\<close>

record tx_signature =
  sig_pub_key :: "256 word"
  sig_signature :: "512 word"

text \<open>The libraries: the Rescue hash of a bit string to the limbs of a field element, the
  verification of a signature of a hash under a public key, the hash of a public key, the address
  recovered from an Ethereum signature of a message, SHA-256, and the hexadecimal encoding.\<close>

record crypto =
  cr_hash_bits :: "bool list \<Rightarrow> 64 word list"
  cr_verify :: "256 word \<Rightarrow> byte list \<Rightarrow> 512 word \<Rightarrow> bool"
  cr_from_pubkey :: "256 word \<Rightarrow> pubkey_hash"
  cr_eth_recover :: "byte list \<Rightarrow> byte list \<Rightarrow> address option"
  cr_sha256 :: "byte list \<Rightarrow> h256"
  cr_hex_encode :: "byte list \<Rightarrow> byte list"

text \<open>@Vec::resize@: cut off or padded.\<close>

definition resize :: "nat \<Rightarrow> 'a \<Rightarrow> 'a list \<Rightarrow> 'a list" where
  "resize n x xs = take n xs @ replicate (n - size xs) x"

definition PAD_MSG_BEFORE_HASH_BITS_LEN :: nat where "PAD_MSG_BEFORE_HASH_BITS_LEN = 736"

definition padded_msg_bits :: "byte list \<Rightarrow> bool list" where
  "padded_msg_bits msg = resize PAD_MSG_BEFORE_HASH_BITS_LEN False (from_be_bytes msg)"

definition append_le_fixed_width :: "bool list \<Rightarrow> 64 word list \<Rightarrow> nat \<Rightarrow> bool list" where
  "append_le_fixed_width content x width =
    content @ resize width False (bit_iterator_take (size x * 64) (bit_iterator_new x))"

definition rescue_hash_tx_msg :: "crypto \<Rightarrow> byte list \<Rightarrow> (unit, byte list) res" where
  "rescue_hash_tx_msg c msg =
    (let hash_fr = cr_hash_bits c (padded_msg_bits msg)
     in into_bytes (append_le_fixed_width [] hash_fr 256))"

definition verify_musig_rescue :: "crypto \<Rightarrow> tx_signature \<Rightarrow> byte list \<Rightarrow> (unit, 256 word option) res" where
  "verify_musig_rescue c s msg = res_map
    (\<lambda>hashed_msg. if cr_verify c (sig_pub_key s) hashed_msg (sig_signature s)
        then Some (sig_pub_key s) else None)
    (rescue_hash_tx_msg c msg)"

definition verify_musig :: "crypto \<Rightarrow> tx_signature \<Rightarrow> byte list \<Rightarrow> (unit, 256 word option) res" where
  "verify_musig c s msg = verify_musig_rescue c s msg"

definition default_signature :: tx_signature where
  "default_signature = \<lparr>sig_pub_key = 0, sig_signature = 0\<rparr>"

datatype verified_signature_cache = NotCached | Cached "pubkey_hash option"

text \<open>The common body of the @verify_signature@ methods: the cached signer, or the public key hash
  of the signer of the transaction's bytes.\<close>

definition verify_signature_with ::
  "crypto \<Rightarrow> verified_signature_cache \<Rightarrow> tx_signature \<Rightarrow> (unit, byte list) res
    \<Rightarrow> (unit, pubkey_hash option) res" where
  "verify_signature_with c cache s bytes =
    (case cache of
       Cached signer \<Rightarrow> Ok signer
     | NotCached \<Rightarrow> res_bind bytes (\<lambda>b. res_map (map_option (cr_from_pubkey c)) (verify_musig c s b)))"

text \<open>Rust's @a \&\& b@, whose right side is only evaluated when the left is true.\<close>

definition and_then :: "(unit, bool) res \<Rightarrow> (unit, bool) res \<Rightarrow> (unit, bool) res" where
  "and_then a b = res_bind a (\<lambda>x. if x then b else Ok False)"

lemma and_then_Ok_True [simp]: "and_then a b = Ok True \<longleftrightarrow> a = Ok True \<and> b = Ok True"
  by (cases a) (auto simp: and_then_def)

lemma and_then_simps [simp]:
  "and_then (Ok True) b = b" "and_then (Ok False) b = Ok False" "and_then Panic b = Panic"
  by (simp_all add: and_then_def)

section \<open>Transfer\<close>

record transfer =
  tr_account_id :: account_id
  tr_from :: address
  tr_to :: address
  tr_token :: token_id
  tr_amount :: nat
  tr_fee :: nat
  tr_nonce :: nonce
  tr_signature :: tx_signature
  tr_cached_signer :: verified_signature_cache

definition TRANSFER_TX_TYPE :: byte where "TRANSFER_TX_TYPE = 5"

text \<open>Concatenation of the fields of a message, in order; a field that panics does so for the
  message.\<close>

fun concat_fields :: "(unit, byte list) res list \<Rightarrow> (unit, byte list) res" where
  "concat_fields [] = Ok []"
| "concat_fields (f # fs) = res_bind f (\<lambda>b. res_map (\<lambda>bs. b @ bs) (concat_fields fs))"

definition transfer_get_bytes :: "transfer \<Rightarrow> (unit, byte list) res" where
  "transfer_get_bytes tx = concat_fields
    [Ok [TRANSFER_TX_TYPE], Ok (word_to_be (tr_account_id tx)), Ok (word_to_be (tr_from tx)),
     Ok (word_to_be (tr_to tx)), Ok (word_to_be (tr_token tx)), pack_token_amount (tr_amount tx),
     pack_fee_amount (tr_fee tx), Ok (word_to_be (tr_nonce tx))]"

definition transfer_verify_signature :: "crypto \<Rightarrow> transfer \<Rightarrow> (unit, pubkey_hash option) res" where
  "transfer_verify_signature c tx =
    verify_signature_with c (tr_cached_signer tx) (tr_signature tx) (transfer_get_bytes tx)"

definition transfer_new ::
  "crypto \<Rightarrow> account_id \<Rightarrow> address \<Rightarrow> address \<Rightarrow> token_id \<Rightarrow> nat \<Rightarrow> nat \<Rightarrow> nonce \<Rightarrow> tx_signature option
    \<Rightarrow> (unit, transfer) res" where
  "transfer_new c account_id from to token amount fee n sign =
    (let tx = \<lparr>tr_account_id = account_id, tr_from = from, tr_to = to, tr_token = token,
        tr_amount = amount, tr_fee = fee, tr_nonce = n,
        tr_signature = (case sign of None \<Rightarrow> default_signature | Some s \<Rightarrow> s),
        tr_cached_signer = NotCached\<rparr>
     in if sign \<noteq> None
        then res_map (\<lambda>s. tx\<lparr>tr_cached_signer := Cached s\<rparr>) (transfer_verify_signature c tx)
        else Ok tx)"

definition transfer_valid :: "transfer \<Rightarrow> (unit, bool) res" where
  "transfer_valid tx =
    and_then (Ok (tr_amount tx \<le> 2 ^ 128 - 1)) (and_then (Ok (tr_fee tx \<le> 2 ^ 128 - 1))
    (and_then (is_token_amount_packable (tr_amount tx)) (and_then (is_fee_amount_packable (tr_fee tx))
    (and_then (Ok (tr_account_id tx \<le> max_account_id)) (and_then (Ok (tr_token tx \<le> max_token_id))
      (Ok (tr_to tx \<noteq> 0)))))))"

definition transfer_check_correctness :: "crypto \<Rightarrow> transfer \<Rightarrow> (unit, bool) res \<times> transfer" where
  "transfer_check_correctness c tx =
    (case transfer_valid tx of
       Ok True \<Rightarrow>
         (case transfer_verify_signature c tx of
            Ok signer \<Rightarrow> (Ok (signer \<noteq> None), tx\<lparr>tr_cached_signer := Cached signer\<rparr>)
          | Err e \<Rightarrow> (Err e, tx)
          | Panic \<Rightarrow> (Panic, tx))
     | r \<Rightarrow> (r, tx))"

section \<open>Withdraw\<close>

record withdraw =
  wd_account_id :: account_id
  wd_from :: address
  wd_to :: address
  wd_token :: token_id
  wd_amount :: nat
  wd_fee :: nat
  wd_nonce :: nonce
  wd_signature :: tx_signature
  wd_cached_signer :: verified_signature_cache
  wd_fast :: bool

definition WITHDRAW_TX_TYPE :: byte where "WITHDRAW_TX_TYPE = 3"

definition u128_field :: "nat \<Rightarrow> (unit, byte list) res" where
  "u128_field n = res_map word_to_be (expect (to_u128 n))"

definition withdraw_get_bytes :: "withdraw \<Rightarrow> (unit, byte list) res" where
  "withdraw_get_bytes tx = concat_fields
    [Ok [WITHDRAW_TX_TYPE], Ok (word_to_be (wd_account_id tx)), Ok (word_to_be (wd_from tx)),
     Ok (word_to_be (wd_to tx)), Ok (word_to_be (wd_token tx)), u128_field (wd_amount tx),
     pack_fee_amount (wd_fee tx), Ok (word_to_be (wd_nonce tx))]"

definition withdraw_verify_signature :: "crypto \<Rightarrow> withdraw \<Rightarrow> (unit, pubkey_hash option) res" where
  "withdraw_verify_signature c tx =
    verify_signature_with c (wd_cached_signer tx) (wd_signature tx) (withdraw_get_bytes tx)"

definition withdraw_new ::
  "crypto \<Rightarrow> account_id \<Rightarrow> address \<Rightarrow> address \<Rightarrow> token_id \<Rightarrow> nat \<Rightarrow> nat \<Rightarrow> nonce \<Rightarrow> tx_signature option
    \<Rightarrow> (unit, withdraw) res" where
  "withdraw_new c account_id from to token amount fee n sign =
    (let tx = \<lparr>wd_account_id = account_id, wd_from = from, wd_to = to, wd_token = token,
        wd_amount = amount, wd_fee = fee, wd_nonce = n,
        wd_signature = (case sign of None \<Rightarrow> default_signature | Some s \<Rightarrow> s),
        wd_cached_signer = NotCached, wd_fast = False\<rparr>
     in if sign \<noteq> None
        then res_map (\<lambda>s. tx\<lparr>wd_cached_signer := Cached s\<rparr>) (withdraw_verify_signature c tx)
        else Ok tx)"

definition withdraw_valid :: "withdraw \<Rightarrow> (unit, bool) res" where
  "withdraw_valid tx =
    and_then (Ok (wd_amount tx \<le> 2 ^ 128 - 1)) (and_then (is_fee_amount_packable (wd_fee tx))
    (and_then (Ok (wd_account_id tx \<le> max_account_id)) (Ok (wd_token tx \<le> max_token_id))))"

definition withdraw_check_correctness :: "crypto \<Rightarrow> withdraw \<Rightarrow> (unit, bool) res \<times> withdraw" where
  "withdraw_check_correctness c tx =
    (case withdraw_valid tx of
       Ok True \<Rightarrow>
         (case withdraw_verify_signature c tx of
            Ok signer \<Rightarrow> (Ok (signer \<noteq> None), tx\<lparr>wd_cached_signer := Cached signer\<rparr>)
          | Err e \<Rightarrow> (Err e, tx)
          | Panic \<Rightarrow> (Panic, tx))
     | r \<Rightarrow> (r, tx))"

section \<open>ChangePubKey\<close>

record change_pub_key =
  cp_account_id :: account_id
  cp_account :: address
  cp_new_pk_hash :: pubkey_hash
  cp_fee_token :: token_id
  cp_fee :: nat
  cp_nonce :: nonce
  cp_signature :: tx_signature
  cp_eth_signature :: "byte list option"
  cp_cached_signer :: verified_signature_cache

definition CHANGE_PUBKEY_TX_TYPE :: byte where "CHANGE_PUBKEY_TX_TYPE = 7"

definition change_pub_key_get_bytes :: "change_pub_key \<Rightarrow> (unit, byte list) res" where
  "change_pub_key_get_bytes tx = concat_fields
    [Ok [CHANGE_PUBKEY_TX_TYPE], Ok (word_to_be (cp_account_id tx)), Ok (word_to_be (cp_account tx)),
     Ok (word_to_be (cp_new_pk_hash tx)), Ok (word_to_be (cp_fee_token tx)),
     pack_fee_amount (cp_fee tx), Ok (word_to_be (cp_nonce tx))]"

definition change_pub_key_verify_signature ::
  "crypto \<Rightarrow> change_pub_key \<Rightarrow> (unit, pubkey_hash option) res" where
  "change_pub_key_verify_signature c tx =
    verify_signature_with c (cp_cached_signer tx) (cp_signature tx) (change_pub_key_get_bytes tx)"

definition change_pub_key_new ::
  "crypto \<Rightarrow> account_id \<Rightarrow> address \<Rightarrow> pubkey_hash \<Rightarrow> token_id \<Rightarrow> nat \<Rightarrow> nonce \<Rightarrow> tx_signature option
    \<Rightarrow> byte list option \<Rightarrow> (unit, change_pub_key) res" where
  "change_pub_key_new c account_id account new_pk_hash fee_token fee n sign eth_signature =
    (let tx = \<lparr>cp_account_id = account_id, cp_account = account, cp_new_pk_hash = new_pk_hash,
        cp_fee_token = fee_token, cp_fee = fee, cp_nonce = n,
        cp_signature = (case sign of None \<Rightarrow> default_signature | Some s \<Rightarrow> s),
        cp_eth_signature = eth_signature, cp_cached_signer = NotCached\<rparr>
     in if sign \<noteq> None
        then res_map (\<lambda>s. tx\<lparr>cp_cached_signer := Cached s\<rparr>) (change_pub_key_verify_signature c tx)
        else Ok tx)"

text \<open>The bytes of a string literal; @to_ascii_lowercase@.\<close>

definition ascii :: "string \<Rightarrow> byte list" where
  "ascii s = map of_char s"

definition to_ascii_lowercase :: "byte list \<Rightarrow> byte list" where
  "to_ascii_lowercase bs = map (\<lambda>b. if 65 \<le> b \<and> b \<le> 90 then b + 32 else b) bs"

definition CHANGE_PUBKEY_SIGNATURE_LEN :: nat where "CHANGE_PUBKEY_SIGNATURE_LEN = 152"

definition get_eth_signed_data :: "crypto \<Rightarrow> change_pub_key \<Rightarrow> (unit, byte list) res" where
  "get_eth_signed_data c tx =
    (let hex = (\<lambda>bs. to_ascii_lowercase (cr_hex_encode c bs));
         eth_signed_msg = ascii ''Register zkSync pubkey:'' @ [10, 10]
           @ hex (word_to_be (cp_new_pk_hash tx)) @ [10]
           @ ascii ''nonce: 0x'' @ hex (word_to_be (cp_nonce tx)) @ [10]
           @ ascii ''account id: 0x'' @ hex (word_to_be (cp_account_id tx)) @ [10, 10]
           @ ascii ''Only sign this message for a trusted client!''
     in if size eth_signed_msg = CHANGE_PUBKEY_SIGNATURE_LEN then Ok eth_signed_msg else Err ())"

definition verify_eth_signature :: "crypto \<Rightarrow> change_pub_key \<Rightarrow> address option" where
  "verify_eth_signature c tx =
    (case cp_eth_signature tx of
       None \<Rightarrow> None
     | Some sign \<Rightarrow> (case get_eth_signed_data c tx of Ok msg \<Rightarrow> cr_eth_recover c sign msg | _ \<Rightarrow> None))"

definition change_pub_key_check_correctness :: "crypto \<Rightarrow> change_pub_key \<Rightarrow> (unit, bool) res" where
  "change_pub_key_check_correctness c tx =
    and_then (Ok (cp_eth_signature tx = None \<or> verify_eth_signature c tx = Some (cp_account tx)))
    (and_then (res_map (\<lambda>s. s = Some (cp_new_pk_hash tx)) (change_pub_key_verify_signature c tx))
    (and_then (Ok (cp_account_id tx \<le> max_account_id)) (and_then (Ok (cp_fee_token tx \<le> max_token_id))
      (is_fee_amount_packable (cp_fee tx)))))"

section \<open>ForcedExit\<close>

record forced_exit =
  fe_initiator_account_id :: account_id
  fe_target :: address
  fe_token :: token_id
  fe_fee :: nat
  fe_nonce :: nonce
  fe_signature :: tx_signature
  fe_cached_signer :: verified_signature_cache

definition FORCED_EXIT_TX_TYPE :: byte where "FORCED_EXIT_TX_TYPE = 8"

definition forced_exit_get_bytes :: "forced_exit \<Rightarrow> (unit, byte list) res" where
  "forced_exit_get_bytes tx = concat_fields
    [Ok [FORCED_EXIT_TX_TYPE], Ok (word_to_be (fe_initiator_account_id tx)),
     Ok (word_to_be (fe_target tx)), Ok (word_to_be (fe_token tx)), pack_fee_amount (fe_fee tx),
     Ok (word_to_be (fe_nonce tx))]"

definition forced_exit_verify_signature :: "crypto \<Rightarrow> forced_exit \<Rightarrow> (unit, pubkey_hash option) res" where
  "forced_exit_verify_signature c tx =
    verify_signature_with c (fe_cached_signer tx) (fe_signature tx) (forced_exit_get_bytes tx)"

definition forced_exit_new ::
  "crypto \<Rightarrow> account_id \<Rightarrow> address \<Rightarrow> token_id \<Rightarrow> nat \<Rightarrow> nonce \<Rightarrow> tx_signature option
    \<Rightarrow> (unit, forced_exit) res" where
  "forced_exit_new c initiator target token fee n sign =
    (let tx = \<lparr>fe_initiator_account_id = initiator, fe_target = target, fe_token = token,
        fe_fee = fee, fe_nonce = n,
        fe_signature = (case sign of None \<Rightarrow> default_signature | Some s \<Rightarrow> s),
        fe_cached_signer = NotCached\<rparr>
     in if sign \<noteq> None
        then res_map (\<lambda>s. tx\<lparr>fe_cached_signer := Cached s\<rparr>) (forced_exit_verify_signature c tx)
        else Ok tx)"

definition forced_exit_valid :: "forced_exit \<Rightarrow> (unit, bool) res" where
  "forced_exit_valid tx =
    and_then (is_fee_amount_packable (fe_fee tx))
    (and_then (Ok (fe_initiator_account_id tx \<le> max_account_id)) (Ok (fe_token tx \<le> max_token_id)))"

definition forced_exit_check_correctness :: "crypto \<Rightarrow> forced_exit \<Rightarrow> (unit, bool) res \<times> forced_exit" where
  "forced_exit_check_correctness c tx =
    (case forced_exit_valid tx of
       Ok True \<Rightarrow>
         (case forced_exit_verify_signature c tx of
            Ok signer \<Rightarrow> (Ok (signer \<noteq> None), tx\<lparr>fe_cached_signer := Cached signer\<rparr>)
          | Err e \<Rightarrow> (Err e, tx)
          | Panic \<Rightarrow> (Panic, tx))
     | r \<Rightarrow> (r, tx))"

section \<open>Close\<close>

record close =
  cl_account :: address
  cl_nonce :: nonce
  cl_signature :: tx_signature

definition CLOSE_TX_TYPE :: byte where "CLOSE_TX_TYPE = 4"

definition close_get_bytes :: "close \<Rightarrow> byte list" where
  "close_get_bytes tx = [CLOSE_TX_TYPE] @ word_to_be (cl_account tx) @ word_to_be (cl_nonce tx)"

definition close_verify_signature :: "crypto \<Rightarrow> close \<Rightarrow> (unit, pubkey_hash option) res" where
  "close_verify_signature c tx = res_map (map_option (cr_from_pubkey c))
    (verify_musig_rescue c (cl_signature tx) (close_get_bytes tx))"

definition close_check_correctness :: "crypto \<Rightarrow> close \<Rightarrow> (unit, bool) res" where
  "close_check_correctness c tx = res_map (\<lambda>s. s \<noteq> None) (close_verify_signature c tx)"

section \<open>ZkSyncTx\<close>

datatype zksync_tx =
    TxTransfer transfer
  | TxWithdraw withdraw
  | TxClose close
  | TxChangePubKey change_pub_key
  | TxForcedExit forced_exit

text \<open>The constants @CHUNKS@ of @operations@ that transactions refer to.\<close>

definition TRANSFER_CHUNKS :: nat where "TRANSFER_CHUNKS = 2"
definition WITHDRAW_CHUNKS :: nat where "WITHDRAW_CHUNKS = 6"
definition CLOSE_CHUNKS :: nat where "CLOSE_CHUNKS = 1"
definition CHANGE_PUBKEY_CHUNKS :: nat where "CHANGE_PUBKEY_CHUNKS = 6"
definition FORCED_EXIT_CHUNKS :: nat where "FORCED_EXIT_CHUNKS = 6"

datatype tx_fee_type = FeeWithdraw | FeeFastWithdraw | FeeTransfer | FeeChangePubKey bool

datatype token_like = TokenId token_id | TokenAddress address | TokenSymbol string

fun tx_get_bytes :: "zksync_tx \<Rightarrow> (unit, byte list) res" where
  "tx_get_bytes (TxTransfer tx) = transfer_get_bytes tx"
| "tx_get_bytes (TxWithdraw tx) = withdraw_get_bytes tx"
| "tx_get_bytes (TxClose tx) = Ok (close_get_bytes tx)"
| "tx_get_bytes (TxChangePubKey tx) = change_pub_key_get_bytes tx"
| "tx_get_bytes (TxForcedExit tx) = forced_exit_get_bytes tx"

definition tx_hash :: "crypto \<Rightarrow> zksync_tx \<Rightarrow> (unit, h256) res" where
  "tx_hash c tx = res_map (cr_sha256 c) (tx_get_bytes tx)"

fun tx_account :: "zksync_tx \<Rightarrow> address" where
  "tx_account (TxTransfer tx) = tr_from tx"
| "tx_account (TxWithdraw tx) = wd_from tx"
| "tx_account (TxClose tx) = cl_account tx"
| "tx_account (TxChangePubKey tx) = cp_account tx"
| "tx_account (TxForcedExit tx) = fe_target tx"

fun tx_nonce :: "zksync_tx \<Rightarrow> nonce" where
  "tx_nonce (TxTransfer tx) = tr_nonce tx"
| "tx_nonce (TxWithdraw tx) = wd_nonce tx"
| "tx_nonce (TxClose tx) = cl_nonce tx"
| "tx_nonce (TxChangePubKey tx) = cp_nonce tx"
| "tx_nonce (TxForcedExit tx) = fe_nonce tx"

fun tx_check_correctness :: "crypto \<Rightarrow> zksync_tx \<Rightarrow> (unit, bool) res \<times> zksync_tx" where
  "tx_check_correctness c (TxTransfer tx) = map_prod (\<lambda>r. r) TxTransfer (transfer_check_correctness c tx)"
| "tx_check_correctness c (TxWithdraw tx) = map_prod (\<lambda>r. r) TxWithdraw (withdraw_check_correctness c tx)"
| "tx_check_correctness c (TxClose tx) = (close_check_correctness c tx, TxClose tx)"
| "tx_check_correctness c (TxChangePubKey tx) = (change_pub_key_check_correctness c tx, TxChangePubKey tx)"
| "tx_check_correctness c (TxForcedExit tx) = map_prod (\<lambda>r. r) TxForcedExit (forced_exit_check_correctness c tx)"

fun tx_min_chunks :: "zksync_tx \<Rightarrow> nat" where
  "tx_min_chunks (TxTransfer tx) = TRANSFER_CHUNKS"
| "tx_min_chunks (TxWithdraw tx) = WITHDRAW_CHUNKS"
| "tx_min_chunks (TxClose tx) = CLOSE_CHUNKS"
| "tx_min_chunks (TxChangePubKey tx) = CHANGE_PUBKEY_CHUNKS"
| "tx_min_chunks (TxForcedExit tx) = FORCED_EXIT_CHUNKS"

fun is_withdraw :: "zksync_tx \<Rightarrow> bool" where
  "is_withdraw (TxWithdraw tx) = True"
| "is_withdraw (TxForcedExit tx) = True"
| "is_withdraw tx = False"

fun is_close :: "zksync_tx \<Rightarrow> bool" where
  "is_close (TxClose tx) = True"
| "is_close tx = False"

fun get_fee_info :: "zksync_tx \<Rightarrow> (tx_fee_type \<times> token_like \<times> address \<times> nat) option" where
  "get_fee_info (TxWithdraw tx) =
     Some (if wd_fast tx then FeeFastWithdraw else FeeWithdraw, TokenId (wd_token tx), wd_to tx, wd_fee tx)"
| "get_fee_info (TxForcedExit tx) =
     Some (FeeWithdraw, TokenId (fe_token tx), fe_target tx, fe_fee tx)"
| "get_fee_info (TxTransfer tx) = Some (FeeTransfer, TokenId (tr_token tx), tr_to tx, tr_fee tx)"
| "get_fee_info (TxChangePubKey tx) =
     Some (FeeChangePubKey (cp_eth_signature tx = None), TokenId (cp_fee_token tx), cp_account tx, cp_fee tx)"
| "get_fee_info tx = None"

text \<open>@TxEthSignature@, @EthSignData@, @SignedZkSyncTx@, and the variants of @mempool.rs@.\<close>

datatype tx_eth_signature = EthereumSignature "byte list" | EIP1271Signature "byte list"

record eth_sign_data =
  esd_signature :: tx_eth_signature
  esd_message :: string

record signed_tx =
  stx_tx :: zksync_tx
  stx_eth_sign_data :: "eth_sign_data option"

datatype signed_tx_variant = VariantTx signed_tx | VariantBatch "signed_tx list" "64 word"

fun variant_hashes :: "crypto \<Rightarrow> signed_tx_variant \<Rightarrow> (unit, h256) res list" where
  "variant_hashes c (VariantTx tx) = [tx_hash c (stx_tx tx)]"
| "variant_hashes c (VariantBatch txs batch_id) = map (\<lambda>tx. tx_hash c (stx_tx tx)) txs"

section \<open>What a signature covers\<close>

lemma pack_fee_length: "pack_fee_amount n = Ok b \<Longrightarrow> size b = 2"
  by (cases "n \<le> float_limit 5 11") (auto elim: fee_pack_Ok [of n] simp: fee_pack_Panic)

lemma pack_token_length: "pack_token_amount n = Ok b \<Longrightarrow> size b = 5"
proof (cases "n < 2 ^ 128")
  case True
  then show "pack_token_amount n = Ok b \<Longrightarrow> size b = 5"
    by (rule token_pack_Ok) simp
qed (simp add: token_pack_Panic)

lemma pack_fee_inj:
  "pack_fee_amount n = Ok b \<Longrightarrow> pack_fee_amount m = Ok b \<Longrightarrow>
    is_fee_amount_packable n = Ok True \<Longrightarrow> is_fee_amount_packable m = Ok True \<Longrightarrow> n = m"
  by (auto simp: is_fee_amount_packable_def split: res.splits)

lemma pack_token_inj:
  "pack_token_amount n = Ok b \<Longrightarrow> pack_token_amount m = Ok b \<Longrightarrow>
    is_token_amount_packable n = Ok True \<Longrightarrow> is_token_amount_packable m = Ok True \<Longrightarrow> n = m"
  by (auto simp: is_token_amount_packable_def split: res.splits)

lemma u128_field_Ok: "u128_field n = Ok b \<longleftrightarrow> (\<exists>w :: 128 word. b = word_to_be w \<and> unat w = n)"
  using unsigned_less [where ?'a = nat and ?'b = 128]
  by (auto simp: u128_field_def to_u128_unat ok_iffs)

text \<open>The messages without the type byte, as equations.\<close>

lemma transfer_get_bytes_Ok:
  "transfer_get_bytes tx = Ok bs \<longleftrightarrow> (\<exists>a f. pack_token_amount (tr_amount tx) = Ok a \<and>
    pack_fee_amount (tr_fee tx) = Ok f \<and> bs = TRANSFER_TX_TYPE # word_to_be (tr_account_id tx)
      @ word_to_be (tr_from tx) @ word_to_be (tr_to tx) @ word_to_be (tr_token tx) @ a @ f
      @ word_to_be (tr_nonce tx))"
  by (auto simp: transfer_get_bytes_def ok_iffs)

lemma withdraw_get_bytes_Ok:
  "withdraw_get_bytes tx = Ok bs \<longleftrightarrow> (\<exists>a f. u128_field (wd_amount tx) = Ok a \<and>
    pack_fee_amount (wd_fee tx) = Ok f \<and> bs = WITHDRAW_TX_TYPE # word_to_be (wd_account_id tx)
      @ word_to_be (wd_from tx) @ word_to_be (wd_to tx) @ word_to_be (wd_token tx) @ a @ f
      @ word_to_be (wd_nonce tx))"
  by (auto simp: withdraw_get_bytes_def ok_iffs)

lemma change_pub_key_get_bytes_Ok:
  "change_pub_key_get_bytes tx = Ok bs \<longleftrightarrow> (\<exists>f. pack_fee_amount (cp_fee tx) = Ok f \<and>
    bs = CHANGE_PUBKEY_TX_TYPE # word_to_be (cp_account_id tx) @ word_to_be (cp_account tx)
      @ word_to_be (cp_new_pk_hash tx) @ word_to_be (cp_fee_token tx) @ f @ word_to_be (cp_nonce tx))"
  by (auto simp: change_pub_key_get_bytes_def ok_iffs)

lemma forced_exit_get_bytes_Ok:
  "forced_exit_get_bytes tx = Ok bs \<longleftrightarrow> (\<exists>f. pack_fee_amount (fe_fee tx) = Ok f \<and>
    bs = FORCED_EXIT_TX_TYPE # word_to_be (fe_initiator_account_id tx) @ word_to_be (fe_target tx)
      @ word_to_be (fe_token tx) @ f @ word_to_be (fe_nonce tx))"
  by (auto simp: forced_exit_get_bytes_def ok_iffs)

lemmas get_bytes_Ok = transfer_get_bytes_Ok withdraw_get_bytes_Ok change_pub_key_get_bytes_Ok
  forced_exit_get_bytes_Ok

lemma get_bytes_length:
  "tx_get_bytes tx = Ok bs \<Longrightarrow> size bs = (case tx of TxTransfer t \<Rightarrow> 58 | TxWithdraw t \<Rightarrow> 69
    | TxClose t \<Rightarrow> 25 | TxChangePubKey t \<Rightarrow> 53 | TxForcedExit t \<Rightarrow> 33)"
  by (cases tx) (auto simp: get_bytes_Ok close_get_bytes_def u128_field_Ok
      dest!: pack_fee_length pack_token_length)

lemma get_bytes_type:
  "tx_get_bytes tx = Ok bs \<Longrightarrow> bs \<noteq> [] \<and> hd bs = (case tx of TxTransfer t \<Rightarrow> TRANSFER_TX_TYPE
    | TxWithdraw t \<Rightarrow> WITHDRAW_TX_TYPE | TxClose t \<Rightarrow> CLOSE_TX_TYPE
    | TxChangePubKey t \<Rightarrow> CHANGE_PUBKEY_TX_TYPE | TxForcedExit t \<Rightarrow> FORCED_EXIT_TX_TYPE)"
  by (cases tx) (auto simp: get_bytes_Ok close_get_bytes_def)

lemma from_be_bytes_inj: "from_be_bytes as = from_be_bytes bs \<longleftrightarrow> as = bs"
  using into_bytes_ordered_from_be_bytes by (metis res.inject(1))

lemma padded_msg_bits_short:
  "size msg \<le> 92 \<Longrightarrow>
    padded_msg_bits msg = from_be_bytes msg @ replicate (736 - 8 * size msg) False"
  by (simp add: padded_msg_bits_def resize_def PAD_MSG_BEFORE_HASH_BITS_LEN_def)

lemma padded_msg_bits_inj:
  assumes "padded_msg_bits as = padded_msg_bits bs" "size as \<le> 92" "size bs \<le> 92"
    "size as = size bs"
  shows "as = bs"
  using assms by (simp add: padded_msg_bits_short from_be_bytes_inj)

lemma padded_msg_bits_hd:
  assumes "padded_msg_bits as = padded_msg_bits bs" "size as \<le> 92" "size bs \<le> 92"
    "as \<noteq> []" "bs \<noteq> []"
  shows "hd as = hd bs"
proof -
  have "take 8 (padded_msg_bits xs) = shift_out 8 (hd xs)" if "size xs \<le> 92" "xs \<noteq> []" for xs
    using that by (cases xs) (simp_all add: padded_msg_bits_short from_be_bytes_def)
  then have "shift_out 8 (hd as) = shift_out 8 (hd bs)"
    using assms by metis
  then show ?thesis
    by (metis or_bits_shift_out)
qed

text \<open>The content of a transaction that its signature covers: everything but the signatures, the
  cached signer and the server's own @fast@ flag.\<close>

fun signed_content :: "zksync_tx \<Rightarrow> zksync_tx" where
  "signed_content (TxTransfer t) =
     TxTransfer (t\<lparr>tr_signature := default_signature, tr_cached_signer := NotCached\<rparr>)"
| "signed_content (TxWithdraw t) =
     TxWithdraw (t\<lparr>wd_signature := default_signature, wd_cached_signer := NotCached, wd_fast := False\<rparr>)"
| "signed_content (TxClose t) = TxClose (t\<lparr>cl_signature := default_signature\<rparr>)"
| "signed_content (TxChangePubKey t) = TxChangePubKey (t\<lparr>cp_signature := default_signature,
     cp_eth_signature := None, cp_cached_signer := NotCached\<rparr>)"
| "signed_content (TxForcedExit t) =
     TxForcedExit (t\<lparr>fe_signature := default_signature, fe_cached_signer := NotCached\<rparr>)"

fun packable_amounts :: "zksync_tx \<Rightarrow> bool" where
  "packable_amounts (TxTransfer t) =
     (is_token_amount_packable (tr_amount t) = Ok True \<and> is_fee_amount_packable (tr_fee t) = Ok True)"
| "packable_amounts (TxWithdraw t) = (is_fee_amount_packable (wd_fee t) = Ok True)"
| "packable_amounts (TxClose t) = True"
| "packable_amounts (TxChangePubKey t) = (is_fee_amount_packable (cp_fee t) = Ok True)"
| "packable_amounts (TxForcedExit t) = (is_fee_amount_packable (fe_fee t) = Ok True)"

lemma transfer_bytes_inj:
  assumes "transfer_get_bytes t = Ok bs" "transfer_get_bytes u = Ok bs"
    "packable_amounts (TxTransfer t)" "packable_amounts (TxTransfer u)"
  shows "signed_content (TxTransfer t) = signed_content (TxTransfer u)"
proof -
  obtain a f where t: "pack_token_amount (tr_amount t) = Ok a" "pack_fee_amount (tr_fee t) = Ok f"
    "bs = TRANSFER_TX_TYPE # word_to_be (tr_account_id t) @ word_to_be (tr_from t)
      @ word_to_be (tr_to t) @ word_to_be (tr_token t) @ a @ f @ word_to_be (tr_nonce t)"
    using assms(1) by (auto simp: transfer_get_bytes_Ok)
  obtain a' f' where u: "pack_token_amount (tr_amount u) = Ok a'" "pack_fee_amount (tr_fee u) = Ok f'"
    "bs = TRANSFER_TX_TYPE # word_to_be (tr_account_id u) @ word_to_be (tr_from u)
      @ word_to_be (tr_to u) @ word_to_be (tr_token u) @ a' @ f' @ word_to_be (tr_nonce u)"
    using assms(2) by (auto simp: transfer_get_bytes_Ok)
  have "size a = size a'" "size f = size f'"
    using t u pack_token_length pack_fee_length by metis+
  then have "tr_account_id t = tr_account_id u" "tr_from t = tr_from u" "tr_to t = tr_to u"
    "tr_token t = tr_token u" "a = a'" "f = f'" "tr_nonce t = tr_nonce u"
    using t(3) u(3) by (auto simp: field_eqs)
  moreover from this have "tr_amount t = tr_amount u" "tr_fee t = tr_fee u"
    using t u assms(3,4) by (auto intro: pack_token_inj pack_fee_inj)
  ultimately show ?thesis
    by simp
qed

lemma withdraw_bytes_inj:
  assumes "withdraw_get_bytes t = Ok bs" "withdraw_get_bytes u = Ok bs"
    "packable_amounts (TxWithdraw t)" "packable_amounts (TxWithdraw u)"
  shows "signed_content (TxWithdraw t) = signed_content (TxWithdraw u)"
proof -
  obtain a :: "128 word" and f where t: "unat a = wd_amount t" "pack_fee_amount (wd_fee t) = Ok f"
    "bs = WITHDRAW_TX_TYPE # word_to_be (wd_account_id t) @ word_to_be (wd_from t)
      @ word_to_be (wd_to t) @ word_to_be (wd_token t) @ word_to_be a @ f @ word_to_be (wd_nonce t)"
    using assms(1) by (auto simp: withdraw_get_bytes_Ok u128_field_Ok)
  obtain a' :: "128 word" and f' where u: "unat a' = wd_amount u" "pack_fee_amount (wd_fee u) = Ok f'"
    "bs = WITHDRAW_TX_TYPE # word_to_be (wd_account_id u) @ word_to_be (wd_from u)
      @ word_to_be (wd_to u) @ word_to_be (wd_token u) @ word_to_be a' @ f' @ word_to_be (wd_nonce u)"
    using assms(2) by (auto simp: withdraw_get_bytes_Ok u128_field_Ok)
  have "size f = size f'"
    using t u pack_fee_length by metis
  then have "wd_account_id t = wd_account_id u" "wd_from t = wd_from u" "wd_to t = wd_to u"
    "wd_token t = wd_token u" "a = a'" "f = f'" "wd_nonce t = wd_nonce u"
    using t(3) u(3) by (auto simp: field_eqs)
  moreover from this have "wd_amount t = wd_amount u" "wd_fee t = wd_fee u"
    using t u assms(3,4) by (auto intro: pack_fee_inj)
  ultimately show ?thesis
    by simp
qed

lemma change_pub_key_bytes_inj:
  assumes "change_pub_key_get_bytes t = Ok bs" "change_pub_key_get_bytes u = Ok bs"
    "packable_amounts (TxChangePubKey t)" "packable_amounts (TxChangePubKey u)"
  shows "signed_content (TxChangePubKey t) = signed_content (TxChangePubKey u)"
proof -
  obtain f where t: "pack_fee_amount (cp_fee t) = Ok f"
    "bs = CHANGE_PUBKEY_TX_TYPE # word_to_be (cp_account_id t) @ word_to_be (cp_account t)
      @ word_to_be (cp_new_pk_hash t) @ word_to_be (cp_fee_token t) @ f @ word_to_be (cp_nonce t)"
    using assms(1) by (auto simp: change_pub_key_get_bytes_Ok)
  obtain f' where u: "pack_fee_amount (cp_fee u) = Ok f'"
    "bs = CHANGE_PUBKEY_TX_TYPE # word_to_be (cp_account_id u) @ word_to_be (cp_account u)
      @ word_to_be (cp_new_pk_hash u) @ word_to_be (cp_fee_token u) @ f' @ word_to_be (cp_nonce u)"
    using assms(2) by (auto simp: change_pub_key_get_bytes_Ok)
  have "size f = size f'"
    using t u pack_fee_length by metis
  then have "cp_account_id t = cp_account_id u" "cp_account t = cp_account u"
    "cp_new_pk_hash t = cp_new_pk_hash u" "cp_fee_token t = cp_fee_token u" "f = f'"
    "cp_nonce t = cp_nonce u"
    using t(2) u(2) by (auto simp: field_eqs)
  moreover from this have "cp_fee t = cp_fee u"
    using t u assms(3,4) by (auto intro: pack_fee_inj)
  ultimately show ?thesis
    by simp
qed

lemma forced_exit_bytes_inj:
  assumes "forced_exit_get_bytes t = Ok bs" "forced_exit_get_bytes u = Ok bs"
    "packable_amounts (TxForcedExit t)" "packable_amounts (TxForcedExit u)"
  shows "signed_content (TxForcedExit t) = signed_content (TxForcedExit u)"
proof -
  obtain f where t: "pack_fee_amount (fe_fee t) = Ok f"
    "bs = FORCED_EXIT_TX_TYPE # word_to_be (fe_initiator_account_id t) @ word_to_be (fe_target t)
      @ word_to_be (fe_token t) @ f @ word_to_be (fe_nonce t)"
    using assms(1) by (auto simp: forced_exit_get_bytes_Ok)
  obtain f' where u: "pack_fee_amount (fe_fee u) = Ok f'"
    "bs = FORCED_EXIT_TX_TYPE # word_to_be (fe_initiator_account_id u) @ word_to_be (fe_target u)
      @ word_to_be (fe_token u) @ f' @ word_to_be (fe_nonce u)"
    using assms(2) by (auto simp: forced_exit_get_bytes_Ok)
  have "size f = size f'"
    using t u pack_fee_length by metis
  then have "fe_initiator_account_id t = fe_initiator_account_id u" "fe_target t = fe_target u"
    "fe_token t = fe_token u" "f = f'" "fe_nonce t = fe_nonce u"
    using t(2) u(2) by (auto simp: field_eqs)
  moreover from this have "fe_fee t = fe_fee u"
    using t u assms(3,4) by (auto intro: pack_fee_inj)
  ultimately show ?thesis
    by simp
qed

lemma close_bytes_inj: "close_get_bytes t = close_get_bytes u \<Longrightarrow> signed_content (TxClose t) = signed_content (TxClose u)"
  by (simp add: close_get_bytes_def field_eqs)

lemma same_type_bytes_inj:
  assumes "tx_get_bytes t = Ok bs" "tx_get_bytes u = Ok bs" "packable_amounts t" "packable_amounts u"
  shows "signed_content t = signed_content u"
proof -
  note types = TRANSFER_TX_TYPE_def WITHDRAW_TX_TYPE_def CLOSE_TX_TYPE_def CHANGE_PUBKEY_TX_TYPE_def
    FORCED_EXIT_TX_TYPE_def
  show ?thesis
    using assms get_bytes_type [OF assms(1)] get_bytes_type [OF assms(2)]
    by (cases t; cases u)
      (simp_all add: types del: signed_content.simps, auto intro: transfer_bytes_inj
        withdraw_bytes_inj change_pub_key_bytes_inj forced_exit_bytes_inj close_bytes_inj
        simp del: signed_content.simps packable_amounts.simps simp add: packable_amounts.simps [symmetric])
qed

text \<open>C1: two transactions, of the same or of different types, whose signed messages agree after the
  padding that the hash function of the signature applies to them have the same type and the same
  content: account, addresses, token, amount, fee and nonce. A signature of one transaction cannot
  be used for another. (The amounts must be packable, as the correctness check requires.)\<close>

theorem signed_message_binds_tx:
  assumes "tx_get_bytes t = Ok as" "tx_get_bytes u = Ok bs"
    "packable_amounts t" "packable_amounts u" "padded_msg_bits as = padded_msg_bits bs"
  shows "signed_content t = signed_content u"
proof -
  note types = TRANSFER_TX_TYPE_def WITHDRAW_TX_TYPE_def CLOSE_TX_TYPE_def CHANGE_PUBKEY_TX_TYPE_def
    FORCED_EXIT_TX_TYPE_def
  have short: "size as \<le> 92" "size bs \<le> 92"
    using get_bytes_length [OF assms(1)] get_bytes_length [OF assms(2)]
    by (auto split: zksync_tx.splits)
  have "hd as = hd bs"
    using padded_msg_bits_hd [OF assms(5) short] get_bytes_type [OF assms(1)] get_bytes_type [OF assms(2)]
    by blast
  then have "size as = size bs"
    using get_bytes_length [OF assms(1)] get_bytes_length [OF assms(2)]
      get_bytes_type [OF assms(1)] get_bytes_type [OF assms(2)]
    by (auto simp: types split: zksync_tx.splits)
  then have "as = bs"
    using padded_msg_bits_inj [OF assms(5) short] by blast
  then show ?thesis
    using same_type_bytes_inj assms by blast
qed

definition sample_withdraw :: withdraw where
  "sample_withdraw = \<lparr>wd_account_id = 5, wd_from = 17, wd_to = 18, wd_token = 2, wd_amount = 1000,
    wd_fee = 0, wd_nonce = 3, wd_signature = default_signature, wd_cached_signer = NotCached,
    wd_fast = False\<rparr>"

lemma sample_withdraw_bytes: "\<exists>bs. withdraw_get_bytes sample_withdraw = Ok bs"
proof -
  obtain f where "pack_fee_amount 0 = Ok f"
    using fee_pack_Ok [of 0] by auto
  then have "\<exists>bs. withdraw_get_bytes sample_withdraw = Ok bs"
    by (auto simp: withdraw_get_bytes_Ok u128_field_Ok sample_withdraw_def intro: exI [of _ "1000 :: 128 word"])
  then show ?thesis .
qed

lemma fee_zero_packable: "is_fee_amount_packable 0 = Ok True"
  by (simp add: is_fee_packable_floor float_floor_def)

theorem signed_message_binds_tx_witness:
  "signed_content (TxWithdraw sample_withdraw)
    = signed_content (TxWithdraw (sample_withdraw\<lparr>wd_fast := True, wd_signature := \<lparr>sig_pub_key = 1, sig_signature = 2\<rparr>\<rparr>))"
proof -
  let ?w = "sample_withdraw\<lparr>wd_fast := True, wd_signature := \<lparr>sig_pub_key = 1, sig_signature = 2\<rparr>\<rparr>"
  obtain bs where bs: "withdraw_get_bytes sample_withdraw = Ok bs"
    using sample_withdraw_bytes by blast
  moreover from bs have "withdraw_get_bytes ?w = Ok bs"
    by (simp add: withdraw_get_bytes_def)
  moreover have "packable_amounts (TxWithdraw sample_withdraw)" "packable_amounts (TxWithdraw ?w)"
    by (simp_all add: sample_withdraw_def fee_zero_packable)
  ultimately show ?thesis
    by (intro signed_message_binds_tx [of "TxWithdraw sample_withdraw" bs "TxWithdraw ?w" bs]) simp_all
qed

section \<open>Correctness checks\<close>

text \<open>the message of every transaction type has exactly the number of bits that the protocol
  parameters fix for it, so it fits into the 736 bits the hash function reads and nothing of it is
  cut off.\<close>

lemma signed_message_widths:
  assumes "tx_get_bytes tx = Ok bs"
  shows "8 * size bs = (case tx of TxTransfer t \<Rightarrow> SIGNED_TRANSFER_BIT_WIDTH
      | TxWithdraw t \<Rightarrow> SIGNED_WITHDRAW_BIT_WIDTH | TxClose t \<Rightarrow> 200
      | TxChangePubKey t \<Rightarrow> SIGNED_CHANGE_PUBKEY_BIT_WIDTH
      | TxForcedExit t \<Rightarrow> SIGNED_FORCED_EXIT_BIT_WIDTH)
    \<and> take (8 * size bs) (padded_msg_bits bs) = from_be_bytes bs"
proof -
  have "size bs \<le> 92"
    using get_bytes_length [OF assms] by (auto split: zksync_tx.splits)
  then show ?thesis
    using get_bytes_length [OF assms]
    by (cases tx) (simp_all add: param_defs padded_msg_bits_short)
qed

theorem signed_message_widths_witness:
  "\<exists>bs. tx_get_bytes (TxWithdraw sample_withdraw) = Ok bs \<and> 8 * size bs = SIGNED_WITHDRAW_BIT_WIDTH"
  using sample_withdraw_bytes signed_message_widths [of "TxWithdraw sample_withdraw"] by fastforce

lemma fee_packable_le_u128: "is_fee_amount_packable n = Ok True \<Longrightarrow> n \<le> 2 ^ 128 - 1"
  by (cases "n \<le> float_limit 5 11") (simp_all add: fee_limit is_fee_amount_packable_def fee_pack_Panic)

lemma token_packable_le_u128: "is_token_amount_packable n = Ok True \<Longrightarrow> n \<le> 2 ^ 128 - 1"
  by (cases "n < 2 ^ 128") (simp_all add: is_token_amount_packable_def token_pack_Panic)

text \<open>The correctness check of a transfer answers true exactly when the amount and the fee are
  packable, the account id and the token are within the supported range, the recipient is not the
  zero address, and the signature recovers to a signer; the signer is then cached, so that the check
  answers the same when it is repeated.\<close>

lemma transfer_check_iff:
  "(fst (transfer_check_correctness c tx) = Ok True \<longleftrightarrow>
     is_token_amount_packable (tr_amount tx) = Ok True \<and> is_fee_amount_packable (tr_fee tx) = Ok True
     \<and> tr_account_id tx \<le> 16777215 \<and> tr_token tx \<le> 127 \<and> tr_to tx \<noteq> 0
     \<and> (\<exists>h. transfer_verify_signature c tx = Ok (Some h)))
   \<and> transfer_check_correctness c (snd (transfer_check_correctness c tx))
     = (fst (transfer_check_correctness c tx), snd (transfer_check_correctness c tx))"
proof
  have valid: "transfer_valid tx = Ok True \<longleftrightarrow> is_token_amount_packable (tr_amount tx) = Ok True
      \<and> is_fee_amount_packable (tr_fee tx) = Ok True \<and> tr_account_id tx \<le> 16777215
      \<and> tr_token tx \<le> 127 \<and> tr_to tx \<noteq> 0"
    using fee_packable_le_u128 token_packable_le_u128
    by (auto simp: transfer_valid_def max_account_id_eq max_token_id_eq)
  show "fst (transfer_check_correctness c tx) = Ok True \<longleftrightarrow>
     is_token_amount_packable (tr_amount tx) = Ok True \<and> is_fee_amount_packable (tr_fee tx) = Ok True
     \<and> tr_account_id tx \<le> 16777215 \<and> tr_token tx \<le> 127 \<and> tr_to tx \<noteq> 0
     \<and> (\<exists>h. transfer_verify_signature c tx = Ok (Some h))"
  proof (cases "transfer_valid tx = Ok True")
    case True
    then show ?thesis
      using valid by (auto simp: transfer_check_correctness_def split: res.splits)
  next
    case False
    then show ?thesis
      using valid by (auto simp: transfer_check_correctness_def split: res.splits bool.splits)
  qed
  show "transfer_check_correctness c (snd (transfer_check_correctness c tx))
     = (fst (transfer_check_correctness c tx), snd (transfer_check_correctness c tx))"
    by (auto simp: transfer_check_correctness_def transfer_verify_signature_def transfer_valid_def
        verify_signature_with_def split: res.splits bool.splits verified_signature_cache.splits)
qed

text \<open>The correctness checks of withdrawals, forced exits and transfers do not answer false for
  a fee above the packable maximum 2047 * 10^31, they panic: for a withdrawal and a forced exit for
  every such fee, for a transfer when the fee is a u128.\<close>

lemma oversized_fee_panics:
  "(2047 * 10 ^ 31 < wd_fee w \<and> wd_amount w < 2 ^ 128 \<longrightarrow> fst (withdraw_check_correctness c w) = Panic)
   \<and> (2047 * 10 ^ 31 < fe_fee f \<longrightarrow> fst (forced_exit_check_correctness c f) = Panic)
   \<and> (2047 * 10 ^ 31 < tr_fee t \<and> tr_fee t < 2 ^ 128 \<and> is_token_amount_packable (tr_amount t) = Ok True
       \<longrightarrow> fst (transfer_check_correctness c t) = Panic)"
proof -
  have p: "is_fee_amount_packable n = Panic" if "2047 * 10 ^ 31 < n" for n
    using that by (simp add: is_fee_amount_packable_def fee_pack_Panic fee_limit)
  have "fst (withdraw_check_correctness c w) = Panic" if "2047 * 10 ^ 31 < wd_fee w" "wd_amount w < 2 ^ 128"
    using that by (simp add: withdraw_check_correctness_def withdraw_valid_def p)
  moreover have "fst (forced_exit_check_correctness c f) = Panic" if "2047 * 10 ^ 31 < fe_fee f"
    using that by (simp add: forced_exit_check_correctness_def forced_exit_valid_def p)
  moreover have "fst (transfer_check_correctness c t) = Panic"
    if "2047 * 10 ^ 31 < tr_fee t" "tr_fee t < 2 ^ 128" "is_token_amount_packable (tr_amount t) = Ok True"
  proof -
    have "tr_amount t \<le> 2 ^ 128 - 1"
      using that(3) by (rule token_packable_le_u128)
    then show ?thesis
      using that by (simp add: transfer_check_correctness_def transfer_valid_def p)
  qed
  ultimately show ?thesis
    by blast
qed

definition sample_crypto :: crypto where
  "sample_crypto = \<lparr>cr_hash_bits = (\<lambda>bits. [of_nat (size (filter id bits)), 0, 0, 0]),
    cr_verify = (\<lambda>pk msg s. True), cr_from_pubkey = (\<lambda>pk. ucast pk),
    cr_eth_recover = (\<lambda>s msg. Some (of_nat (size msg))), cr_sha256 = (\<lambda>msg. of_nat (from_be msg)),
    cr_hex_encode = (\<lambda>bs. concat (map (\<lambda>b. [48 + drop_bit 4 b, 48 + (b AND 15)]) bs))\<rparr>"

lemma oversized_fee_panics_example:
  "fst (withdraw_check_correctness sample_crypto (sample_withdraw\<lparr>wd_fee := 10 ^ 36\<rparr>)) = Panic"
  using oversized_fee_panics [of "sample_withdraw\<lparr>wd_fee := 10 ^ 36\<rparr>" sample_crypto]
  by (simp add: sample_withdraw_def)

text \<open>the message that an Ethereum key signs to set a public key always has its fixed length of
  152 bytes (the hexadecimal encoding doubling the length of its input), so the check of the length
  never fails; and a signature by another address is refused.\<close>

lemma eth_signed_data_length:
  assumes "\<And>bs. size (cr_hex_encode c bs) = 2 * size bs"
  shows "(\<exists>msg. get_eth_signed_data c tx = Ok msg \<and> size msg = 152)
    \<and> (cp_eth_signature tx \<noteq> None \<and> verify_eth_signature c tx \<noteq> Some (cp_account tx)
        \<longrightarrow> change_pub_key_check_correctness c tx = Ok False)"
  using assms
  by (auto simp: get_eth_signed_data_def CHANGE_PUBKEY_SIGNATURE_LEN_def ascii_def
      to_ascii_lowercase_def change_pub_key_check_correctness_def)

definition sample_change_pub_key :: change_pub_key where
  "sample_change_pub_key = \<lparr>cp_account_id = 5, cp_account = 17, cp_new_pk_hash = 99, cp_fee_token = 0,
    cp_fee = 0, cp_nonce = 3, cp_signature = default_signature, cp_eth_signature = Some [1],
    cp_cached_signer = NotCached\<rparr>"

theorem eth_signed_data_length_witness:
  "\<exists>msg. get_eth_signed_data sample_crypto sample_change_pub_key = Ok msg \<and> size msg = 152"
proof -
  have "size (cr_hex_encode sample_crypto bs) = 2 * size bs" for bs
    by (induction bs) (auto simp: sample_crypto_def)
  then show ?thesis
    using eth_signed_data_length [of sample_crypto sample_change_pub_key] by blast
qed

end
