(* ===== verification/Ops.thy ===== *)
theory Ops
  imports Txs
begin

text \<open>
  The operations of the rollup: @core/lib/types/src/operations@ and @priority_ops@.  Each operation
  has its public data, the bytes that the Ethereum contract receives, and is restored from them.
  The lemmas show that the public data of every operation has the length of its chunks and is read
  back to the operation's public part.
\<close>

section \<open>Reading fields of public data\<close>

datatype op_error = EmptyPubdata | WrongLength | WrongType byte | BadField | WrongKind | DecodeError

fun as_op :: "(unit, 'a) res \<Rightarrow> (op_error, 'a) res" where
  "as_op (Ok x) = Ok x"
| "as_op (Err u) = Err BadField"
| "as_op Panic = Panic"

text \<open>@uN::from_bytes(\&bytes[off..off + n]).ok_or_else(..)?@ and @Address::from_slice@.\<close>

definition int_field :: "nat \<Rightarrow> nat \<Rightarrow> byte list \<Rightarrow> (op_error, 'a::len word) res" where
  "int_field off n bs = as_op (res_map of_nat (from_bytes n (slice off n bs)))"

definition address_field :: "nat \<Rightarrow> nat \<Rightarrow> byte list \<Rightarrow> (op_error, address) res" where
  "address_field off n bs =
    (if size (slice off n bs) = 20 then Ok (word_from_be (slice off n bs)) else Panic)"

text \<open>@data.resize(CHUNKS * CHUNK_BYTES, 0x00)@ at the end of the encoders.\<close>

definition pubdata :: "nat \<Rightarrow> (unit, byte list) res list \<Rightarrow> (unit, byte list) res" where
  "pubdata n fs = res_map (resize (n * CHUNK_BYTES) 0) (concat_fields fs)"

section \<open>Transfer and TransferToNew\<close>

record transfer_op =
  trop_tx :: transfer
  trop_from :: account_id
  trop_to :: account_id

definition TRANSFER_OP_CODE :: byte where "TRANSFER_OP_CODE = 5"

definition transfer_op_public_data :: "transfer_op \<Rightarrow> (unit, byte list) res" where
  "transfer_op_public_data op = pubdata TRANSFER_CHUNKS
    [Ok [TRANSFER_OP_CODE], Ok (word_to_be (trop_from op)), Ok (word_to_be (tr_token (trop_tx op))),
     Ok (word_to_be (trop_to op)), pack_token_amount (tr_amount (trop_tx op)),
     pack_fee_amount (tr_fee (trop_tx op))]"

definition transfer_op_from_public_data :: "crypto \<Rightarrow> byte list \<Rightarrow> (op_error, transfer_op) res" where
  "transfer_op_from_public_data c bytes =
    (let from_offset = 1;
         token_id_offset = from_offset + ACCOUNT_ID_BIT_WIDTH div 8;
         to_offset = token_id_offset + TOKEN_BIT_WIDTH div 8;
         amount_offset = to_offset + ACCOUNT_ID_BIT_WIDTH div 8;
         fee_offset = amount_offset + (AMOUNT_EXPONENT_BIT_WIDTH + AMOUNT_MANTISSA_BIT_WIDTH) div 8
     in res_bind (ensure (size bytes = TRANSFER_CHUNKS * CHUNK_BYTES) WrongLength) (\<lambda>_.
        res_bind (int_field token_id_offset (TOKEN_BIT_WIDTH div 8) bytes) (\<lambda>token.
        res_bind (as_op (unpack_token_amount (slice amount_offset
          ((AMOUNT_EXPONENT_BIT_WIDTH + AMOUNT_MANTISSA_BIT_WIDTH) div 8) bytes))) (\<lambda>amount.
        res_bind (as_op (unpack_fee_amount (slice fee_offset
          ((FEE_EXPONENT_BIT_WIDTH + FEE_MANTISSA_BIT_WIDTH) div 8) bytes))) (\<lambda>fee.
        res_bind (int_field from_offset (ACCOUNT_ID_BIT_WIDTH div 8) bytes) (\<lambda>from_id.
        res_bind (int_field to_offset (ACCOUNT_ID_BIT_WIDTH div 8) bytes) (\<lambda>to_id.
        res_bind (as_op (transfer_new c from_id 0 0 token amount fee 0 None)) (\<lambda>tx.
          Ok \<lparr>trop_tx = tx, trop_from = from_id, trop_to = to_id\<rparr>))))))))"

record transfer_to_new_op =
  tnop_tx :: transfer
  tnop_from :: account_id
  tnop_to :: account_id

definition TRANSFER_TO_NEW_CHUNKS :: nat where "TRANSFER_TO_NEW_CHUNKS = 6"
definition TRANSFER_TO_NEW_OP_CODE :: byte where "TRANSFER_TO_NEW_OP_CODE = 2"

definition transfer_to_new_op_public_data :: "transfer_to_new_op \<Rightarrow> (unit, byte list) res" where
  "transfer_to_new_op_public_data op = pubdata TRANSFER_TO_NEW_CHUNKS
    [Ok [TRANSFER_TO_NEW_OP_CODE], Ok (word_to_be (tnop_from op)),
     Ok (word_to_be (tr_token (tnop_tx op))), pack_token_amount (tr_amount (tnop_tx op)),
     Ok (word_to_be (tr_to (tnop_tx op))), Ok (word_to_be (tnop_to op)),
     pack_fee_amount (tr_fee (tnop_tx op))]"

definition transfer_to_new_op_from_public_data ::
  "crypto \<Rightarrow> byte list \<Rightarrow> (op_error, transfer_to_new_op) res" where
  "transfer_to_new_op_from_public_data c bytes =
    (let from_offset = 1;
         token_id_offset = from_offset + ACCOUNT_ID_BIT_WIDTH div 8;
         amount_offset = token_id_offset + TOKEN_BIT_WIDTH div 8;
         to_address_offset = amount_offset
           + (AMOUNT_EXPONENT_BIT_WIDTH + AMOUNT_MANTISSA_BIT_WIDTH) div 8;
         to_id_offset = to_address_offset + FR_ADDRESS_LEN;
         fee_offset = to_id_offset + ACCOUNT_ID_BIT_WIDTH div 8
     in res_bind (ensure (size bytes = TRANSFER_TO_NEW_CHUNKS * CHUNK_BYTES) WrongLength) (\<lambda>_.
        res_bind (int_field from_offset (ACCOUNT_ID_BIT_WIDTH div 8) bytes) (\<lambda>from_id.
        res_bind (int_field to_id_offset (ACCOUNT_ID_BIT_WIDTH div 8) bytes) (\<lambda>to_id.
        res_bind (address_field to_address_offset FR_ADDRESS_LEN bytes) (\<lambda>to.
        res_bind (int_field token_id_offset (TOKEN_BIT_WIDTH div 8) bytes) (\<lambda>token.
        res_bind (as_op (unpack_token_amount (slice amount_offset
          ((AMOUNT_EXPONENT_BIT_WIDTH + AMOUNT_MANTISSA_BIT_WIDTH) div 8) bytes))) (\<lambda>amount.
        res_bind (as_op (unpack_fee_amount (slice fee_offset
          ((FEE_EXPONENT_BIT_WIDTH + FEE_MANTISSA_BIT_WIDTH) div 8) bytes))) (\<lambda>fee.
        res_bind (as_op (transfer_new c from_id 0 to token amount fee 0 None)) (\<lambda>tx.
          Ok \<lparr>tnop_tx = tx, tnop_from = from_id, tnop_to = to_id\<rparr>)))))))))"

section \<open>Withdraw\<close>

record withdraw_op =
  wdop_tx :: withdraw
  wdop_account_id :: account_id

definition WITHDRAW_OP_CODE :: byte where "WITHDRAW_OP_CODE = 3"
definition WITHDRAW_DATA_PREFIX :: "byte list" where "WITHDRAW_DATA_PREFIX = [1]"

definition withdraw_op_public_data :: "withdraw_op \<Rightarrow> (unit, byte list) res" where
  "withdraw_op_public_data op = pubdata WITHDRAW_CHUNKS
    [Ok [WITHDRAW_OP_CODE], Ok (word_to_be (wdop_account_id op)), Ok (word_to_be (wd_token (wdop_tx op))),
     u128_field (wd_amount (wdop_tx op)), pack_fee_amount (wd_fee (wdop_tx op)),
     Ok (word_to_be (wd_to (wdop_tx op)))]"

definition withdraw_op_withdrawal_data :: "withdraw_op \<Rightarrow> (unit, byte list) res" where
  "withdraw_op_withdrawal_data op = concat_fields
    [Ok WITHDRAW_DATA_PREFIX, Ok (word_to_be (wd_to (wdop_tx op))),
     Ok (word_to_be (wd_token (wdop_tx op))), u128_field (wd_amount (wdop_tx op))]"

definition withdraw_op_from_public_data :: "crypto \<Rightarrow> byte list \<Rightarrow> (op_error, withdraw_op) res" where
  "withdraw_op_from_public_data c bytes =
    (let account_offset = 1;
         token_id_offset = account_offset + ACCOUNT_ID_BIT_WIDTH div 8;
         amount_offset = token_id_offset + TOKEN_BIT_WIDTH div 8;
         fee_offset = amount_offset + BALANCE_BIT_WIDTH div 8;
         eth_address_offset = fee_offset + (FEE_EXPONENT_BIT_WIDTH + FEE_MANTISSA_BIT_WIDTH) div 8
     in res_bind (ensure (size bytes = WITHDRAW_CHUNKS * CHUNK_BYTES) WrongLength) (\<lambda>_.
        res_bind (int_field account_offset (ACCOUNT_ID_BIT_WIDTH div 8) bytes) (\<lambda>account_id.
        res_bind (int_field token_id_offset (TOKEN_BIT_WIDTH div 8) bytes) (\<lambda>token.
        res_bind (address_field eth_address_offset (ETH_ADDRESS_BIT_WIDTH div 8) bytes) (\<lambda>to.
        res_bind (int_field amount_offset (BALANCE_BIT_WIDTH div 8) bytes) (\<lambda>amount :: 128 word.
        res_bind (as_op (unpack_fee_amount (slice fee_offset
          ((FEE_EXPONENT_BIT_WIDTH + FEE_MANTISSA_BIT_WIDTH) div 8) bytes))) (\<lambda>fee.
        res_bind (as_op (withdraw_new c account_id 0 to token (unat amount) fee 0 None)) (\<lambda>tx.
          Ok \<lparr>wdop_tx = tx, wdop_account_id = account_id\<rparr>))))))))"

section \<open>Deposit and FullExit\<close>

record deposit =
  dep_from :: address
  dep_token :: token_id
  dep_amount :: nat
  dep_to :: address

record full_exit =
  fx_account_id :: account_id
  fx_eth_address :: address
  fx_token :: token_id

datatype priority_op_data = PrioDeposit deposit | PrioFullExit full_exit

record deposit_op =
  depop_priority_op :: deposit
  depop_account_id :: account_id

definition DEPOSIT_CHUNKS :: nat where "DEPOSIT_CHUNKS = 6"
definition DEPOSIT_OP_CODE :: byte where "DEPOSIT_OP_CODE = 1"

definition deposit_op_public_data :: "deposit_op \<Rightarrow> (unit, byte list) res" where
  "deposit_op_public_data op = pubdata DEPOSIT_CHUNKS
    [Ok [DEPOSIT_OP_CODE], Ok (word_to_be (depop_account_id op)),
     Ok (word_to_be (dep_token (depop_priority_op op))), u128_field (dep_amount (depop_priority_op op)),
     Ok (word_to_be (dep_to (depop_priority_op op)))]"

definition deposit_op_from_public_data :: "byte list \<Rightarrow> (op_error, deposit_op) res" where
  "deposit_op_from_public_data bytes =
    (let account_id_offset = 1;
         token_id_offset = account_id_offset + ACCOUNT_ID_BIT_WIDTH div 8;
         amount_offset = token_id_offset + TOKEN_BIT_WIDTH div 8;
         account_address_offset = amount_offset + BALANCE_BIT_WIDTH div 8
     in res_bind (ensure (size bytes = DEPOSIT_CHUNKS * CHUNK_BYTES) WrongLength) (\<lambda>_.
        res_bind (int_field account_id_offset (ACCOUNT_ID_BIT_WIDTH div 8) bytes) (\<lambda>account_id.
        res_bind (int_field token_id_offset (TOKEN_BIT_WIDTH div 8) bytes) (\<lambda>token.
        res_bind (int_field amount_offset (BALANCE_BIT_WIDTH div 8) bytes) (\<lambda>amount :: 128 word.
        res_bind (address_field account_address_offset FR_ADDRESS_LEN bytes) (\<lambda>to.
          Ok \<lparr>depop_priority_op = \<lparr>dep_from = 0, dep_token = token, dep_amount = unat amount, dep_to = to\<rparr>,
              depop_account_id = account_id\<rparr>))))))"

record full_exit_op =
  fxop_priority_op :: full_exit
  fxop_withdraw_amount :: "nat option"

definition FULL_EXIT_CHUNKS :: nat where "FULL_EXIT_CHUNKS = 6"
definition FULL_EXIT_OP_CODE :: byte where "FULL_EXIT_OP_CODE = 6"
definition FULL_EXIT_WITHDRAW_DATA_PREFIX :: "byte list" where "FULL_EXIT_WITHDRAW_DATA_PREFIX = [0]"

definition opt_u128_field :: "nat option \<Rightarrow> (unit, byte list) res" where
  "opt_u128_field a = (case a of None \<Rightarrow> Ok (word_to_be (0 :: 128 word)) | Some n \<Rightarrow> u128_field n)"

definition full_exit_op_public_data :: "full_exit_op \<Rightarrow> (unit, byte list) res" where
  "full_exit_op_public_data op = pubdata FULL_EXIT_CHUNKS
    [Ok [FULL_EXIT_OP_CODE], Ok (word_to_be (fx_account_id (fxop_priority_op op))),
     Ok (word_to_be (fx_eth_address (fxop_priority_op op))),
     Ok (word_to_be (fx_token (fxop_priority_op op))),
     u128_field (case fxop_withdraw_amount op of None \<Rightarrow> 0 | Some n \<Rightarrow> n)]"

definition full_exit_op_withdrawal_data :: "full_exit_op \<Rightarrow> (unit, byte list) res" where
  "full_exit_op_withdrawal_data op = concat_fields
    [Ok FULL_EXIT_WITHDRAW_DATA_PREFIX, Ok (word_to_be (fx_eth_address (fxop_priority_op op))),
     Ok (word_to_be (fx_token (fxop_priority_op op))), opt_u128_field (fxop_withdraw_amount op)]"

definition full_exit_op_from_public_data :: "byte list \<Rightarrow> (op_error, full_exit_op) res" where
  "full_exit_op_from_public_data bytes =
    (let account_id_offset = 1;
         eth_address_offset = account_id_offset + ACCOUNT_ID_BIT_WIDTH div 8;
         token_offset = eth_address_offset + ETH_ADDRESS_BIT_WIDTH div 8;
         amount_offset = token_offset + TOKEN_BIT_WIDTH div 8
     in res_bind (ensure (size bytes = FULL_EXIT_CHUNKS * CHUNK_BYTES) WrongLength) (\<lambda>_.
        res_bind (int_field account_id_offset (eth_address_offset - account_id_offset) bytes) (\<lambda>account_id.
        res_bind (address_field eth_address_offset (token_offset - eth_address_offset) bytes) (\<lambda>eth_address.
        res_bind (int_field token_offset (amount_offset - token_offset) bytes) (\<lambda>token.
        res_bind (int_field amount_offset (BALANCE_BIT_WIDTH div 8) bytes) (\<lambda>amount :: 128 word.
          Ok \<lparr>fxop_priority_op = \<lparr>fx_account_id = account_id, fx_eth_address = eth_address, fx_token = token\<rparr>,
              fxop_withdraw_amount = Some (unat amount)\<rparr>))))))"

section \<open>ChangePubKey\<close>

record change_pub_key_op =
  cpop_tx :: change_pub_key
  cpop_account_id :: account_id

definition CHANGE_PUBKEY_OP_CODE :: byte where "CHANGE_PUBKEY_OP_CODE = 7"

definition change_pub_key_op_public_data :: "change_pub_key_op \<Rightarrow> (unit, byte list) res" where
  "change_pub_key_op_public_data op = pubdata CHANGE_PUBKEY_CHUNKS
    [Ok [CHANGE_PUBKEY_OP_CODE], Ok (word_to_be (cpop_account_id op)),
     Ok (word_to_be (cp_new_pk_hash (cpop_tx op))), Ok (word_to_be (cp_account (cpop_tx op))),
     Ok (word_to_be (cp_nonce (cpop_tx op))), Ok (word_to_be (cp_fee_token (cpop_tx op))),
     pack_fee_amount (cp_fee (cpop_tx op))]"

definition change_pub_key_op_eth_witness :: "change_pub_key_op \<Rightarrow> byte list" where
  "change_pub_key_op_eth_witness op =
    (case cp_eth_signature (cpop_tx op) of Some eth_signature \<Rightarrow> eth_signature | None \<Rightarrow> [])"

fun as_op_err :: "op_error \<Rightarrow> (unit, 'a) res \<Rightarrow> (op_error, 'a) res" where
  "as_op_err e (Ok x) = Ok x"
| "as_op_err e (Err u) = Err e"
| "as_op_err e Panic = Panic"

definition change_pub_key_op_from_public_data ::
  "crypto \<Rightarrow> byte list \<Rightarrow> (op_error, change_pub_key_op) res" where
  "change_pub_key_op_from_public_data c bytes =
    (let account_id_offset = 1;
         pk_hash_offset = account_id_offset + ACCOUNT_ID_BIT_WIDTH div 8;
         account_offset = pk_hash_offset + NEW_PUBKEY_HASH_WIDTH div 8;
         nonce_offset = account_offset + ADDRESS_WIDTH div 8;
         fee_token_offset = nonce_offset + NONCE_BIT_WIDTH div 8;
         fee_offset = fee_token_offset + TOKEN_BIT_WIDTH div 8;
         fin = fee_offset + (FEE_EXPONENT_BIT_WIDTH + FEE_MANTISSA_BIT_WIDTH) div 8
     in res_bind (ensure (fin \<le> size bytes) WrongLength) (\<lambda>_.
        res_bind (int_field account_id_offset (pk_hash_offset - account_id_offset) bytes) (\<lambda>account_id.
        res_bind (as_op_err WrongLength (pubkey_hash_from_bytes
          (slice pk_hash_offset (account_offset - pk_hash_offset) bytes))) (\<lambda>new_pk_hash.
        res_bind (address_field account_offset (nonce_offset - account_offset) bytes) (\<lambda>account.
        res_bind (int_field nonce_offset (fee_token_offset - nonce_offset) bytes) (\<lambda>n.
        res_bind (int_field fee_token_offset (fee_offset - fee_token_offset) bytes) (\<lambda>fee_token.
        res_bind (as_op (unpack_fee_amount (slice fee_offset (fin - fee_offset) bytes))) (\<lambda>fee.
        res_bind (as_op (change_pub_key_new c account_id account new_pk_hash fee_token fee n None None)) (\<lambda>tx.
          Ok \<lparr>cpop_tx = tx, cpop_account_id = account_id\<rparr>)))))))))"

section \<open>ForcedExit, Close and Noop\<close>

record forced_exit_op =
  feop_tx :: forced_exit
  feop_target_account_id :: account_id
  feop_withdraw_amount :: "nat option"

definition FORCED_EXIT_OP_CODE :: byte where "FORCED_EXIT_OP_CODE = 8"
definition FORCED_EXIT_WITHDRAW_DATA_PREFIX :: "byte list" where
  "FORCED_EXIT_WITHDRAW_DATA_PREFIX = [1]"

definition forced_exit_op_amount :: "forced_exit_op \<Rightarrow> (unit, 128 word) res" where
  "forced_exit_op_amount op =
    (case feop_withdraw_amount op of None \<Rightarrow> Ok 0 | Some a \<Rightarrow> expect (to_u128 a))"

definition forced_exit_op_public_data :: "forced_exit_op \<Rightarrow> (unit, byte list) res" where
  "forced_exit_op_public_data op = pubdata FORCED_EXIT_CHUNKS
    [Ok [FORCED_EXIT_OP_CODE], Ok (word_to_be (fe_initiator_account_id (feop_tx op))),
     Ok (word_to_be (feop_target_account_id op)), Ok (word_to_be (fe_token (feop_tx op))),
     res_map word_to_be (forced_exit_op_amount op), pack_fee_amount (fe_fee (feop_tx op)),
     Ok (word_to_be (fe_target (feop_tx op)))]"

definition forced_exit_op_withdrawal_data :: "forced_exit_op \<Rightarrow> (unit, byte list) res" where
  "forced_exit_op_withdrawal_data op = concat_fields
    [Ok FORCED_EXIT_WITHDRAW_DATA_PREFIX, Ok (word_to_be (fe_target (feop_tx op))),
     Ok (word_to_be (fe_token (feop_tx op))), res_map word_to_be (forced_exit_op_amount op)]"

definition forced_exit_op_from_public_data :: "crypto \<Rightarrow> byte list \<Rightarrow> (op_error, forced_exit_op) res" where
  "forced_exit_op_from_public_data c bytes =
    (let initiator_account_id_offset = 1;
         target_account_id_offset = initiator_account_id_offset + ACCOUNT_ID_BIT_WIDTH div 8;
         token_id_offset = target_account_id_offset + ACCOUNT_ID_BIT_WIDTH div 8;
         amount_offset = token_id_offset + TOKEN_BIT_WIDTH div 8;
         fee_offset = amount_offset + BALANCE_BIT_WIDTH div 8;
         eth_address_offset = fee_offset + (FEE_EXPONENT_BIT_WIDTH + FEE_MANTISSA_BIT_WIDTH) div 8;
         eth_address_end = eth_address_offset + ETH_ADDRESS_BIT_WIDTH div 8
     in res_bind (ensure (size bytes = FORCED_EXIT_CHUNKS * CHUNK_BYTES) WrongLength) (\<lambda>_.
        res_bind (int_field initiator_account_id_offset
          (target_account_id_offset - initiator_account_id_offset) bytes) (\<lambda>initiator.
        res_bind (int_field target_account_id_offset (token_id_offset - target_account_id_offset) bytes) (\<lambda>target_id.
        res_bind (int_field token_id_offset (amount_offset - token_id_offset) bytes) (\<lambda>token.
        res_bind (int_field amount_offset (BALANCE_BIT_WIDTH div 8) bytes) (\<lambda>amount :: 128 word.
        res_bind (as_op (unpack_fee_amount (slice fee_offset (eth_address_offset - fee_offset) bytes))) (\<lambda>fee.
        res_bind (address_field eth_address_offset (eth_address_end - eth_address_offset) bytes) (\<lambda>target.
        res_bind (as_op (forced_exit_new c initiator target token fee 0 None)) (\<lambda>tx.
          Ok \<lparr>feop_tx = tx, feop_target_account_id = target_id,
              feop_withdraw_amount = Some (unat amount)\<rparr>)))))))))"

record close_op =
  clop_tx :: close
  clop_account_id :: account_id

definition CLOSE_OP_CODE :: byte where "CLOSE_OP_CODE = 4"

definition close_op_public_data :: "close_op \<Rightarrow> (unit, byte list) res" where
  "close_op_public_data op = pubdata CLOSE_CHUNKS
    [Ok [CLOSE_OP_CODE], Ok (word_to_be (clop_account_id op))]"

definition close_op_from_public_data :: "byte list \<Rightarrow> (op_error, close_op) res" where
  "close_op_from_public_data bytes =
    res_bind (ensure (size bytes = CLOSE_CHUNKS * CHUNK_BYTES) WrongLength) (\<lambda>_.
    res_bind (int_field 1 (ACCOUNT_ID_BIT_WIDTH div 8) bytes) (\<lambda>account_id.
      Ok \<lparr>clop_tx = \<lparr>cl_account = 0, cl_nonce = 0, cl_signature = default_signature\<rparr>,
          clop_account_id = account_id\<rparr>))"

definition NOOP_CHUNKS :: nat where "NOOP_CHUNKS = 1"
definition NOOP_OP_CODE :: byte where "NOOP_OP_CODE = 0"

definition noop_op_public_data :: "(unit, byte list) res" where
  "noop_op_public_data = pubdata NOOP_CHUNKS []"

definition noop_op_from_public_data :: "byte list \<Rightarrow> (op_error, unit) res" where
  "noop_op_from_public_data bytes = ensure (bytes = replicate CHUNK_BYTES 0) WrongLength"

section \<open>ZkSyncOp\<close>

datatype zksync_op =
    OpDeposit deposit_op
  | OpTransfer transfer_op
  | OpTransferToNew transfer_to_new_op
  | OpWithdraw withdraw_op
  | OpClose close_op
  | OpFullExit full_exit_op
  | OpChangePubKey change_pub_key_op
  | OpForcedExit forced_exit_op
  | OpNoop

fun op_chunks :: "zksync_op \<Rightarrow> nat" where
  "op_chunks OpNoop = NOOP_CHUNKS"
| "op_chunks (OpDeposit op) = DEPOSIT_CHUNKS"
| "op_chunks (OpTransferToNew op) = TRANSFER_TO_NEW_CHUNKS"
| "op_chunks (OpWithdraw op) = WITHDRAW_CHUNKS"
| "op_chunks (OpClose op) = CLOSE_CHUNKS"
| "op_chunks (OpTransfer op) = TRANSFER_CHUNKS"
| "op_chunks (OpFullExit op) = FULL_EXIT_CHUNKS"
| "op_chunks (OpChangePubKey op) = CHANGE_PUBKEY_CHUNKS"
| "op_chunks (OpForcedExit op) = FORCED_EXIT_CHUNKS"

fun op_public_data :: "zksync_op \<Rightarrow> (unit, byte list) res" where
  "op_public_data OpNoop = noop_op_public_data"
| "op_public_data (OpDeposit op) = deposit_op_public_data op"
| "op_public_data (OpTransferToNew op) = transfer_to_new_op_public_data op"
| "op_public_data (OpWithdraw op) = withdraw_op_public_data op"
| "op_public_data (OpClose op) = close_op_public_data op"
| "op_public_data (OpTransfer op) = transfer_op_public_data op"
| "op_public_data (OpFullExit op) = full_exit_op_public_data op"
| "op_public_data (OpChangePubKey op) = change_pub_key_op_public_data op"
| "op_public_data (OpForcedExit op) = forced_exit_op_public_data op"

fun op_eth_witness :: "zksync_op \<Rightarrow> byte list option" where
  "op_eth_witness (OpChangePubKey op) = Some (change_pub_key_op_eth_witness op)"
| "op_eth_witness op = None"

fun op_withdrawal_data :: "zksync_op \<Rightarrow> (unit, byte list) res option" where
  "op_withdrawal_data (OpWithdraw op) = Some (withdraw_op_withdrawal_data op)"
| "op_withdrawal_data (OpFullExit op) = Some (full_exit_op_withdrawal_data op)"
| "op_withdrawal_data (OpForcedExit op) = Some (forced_exit_op_withdrawal_data op)"
| "op_withdrawal_data op = None"

definition op_from_public_data :: "crypto \<Rightarrow> byte list \<Rightarrow> (op_error, zksync_op) res" where
  "op_from_public_data c bytes =
    (case bytes of
       [] \<Rightarrow> Err EmptyPubdata
     | op_type # rest \<Rightarrow>
         if op_type = NOOP_OP_CODE then res_map (\<lambda>_. OpNoop) (noop_op_from_public_data bytes)
         else if op_type = DEPOSIT_OP_CODE then res_map OpDeposit (deposit_op_from_public_data bytes)
         else if op_type = TRANSFER_TO_NEW_OP_CODE
           then res_map OpTransferToNew (transfer_to_new_op_from_public_data c bytes)
         else if op_type = WITHDRAW_OP_CODE then res_map OpWithdraw (withdraw_op_from_public_data c bytes)
         else if op_type = CLOSE_OP_CODE then res_map OpClose (close_op_from_public_data bytes)
         else if op_type = TRANSFER_OP_CODE then res_map OpTransfer (transfer_op_from_public_data c bytes)
         else if op_type = FULL_EXIT_OP_CODE then res_map OpFullExit (full_exit_op_from_public_data bytes)
         else if op_type = CHANGE_PUBKEY_OP_CODE
           then res_map OpChangePubKey (change_pub_key_op_from_public_data c bytes)
         else if op_type = FORCED_EXIT_OP_CODE
           then res_map OpForcedExit (forced_exit_op_from_public_data c bytes)
         else Err (WrongType op_type))"

definition op_public_data_length :: "byte \<Rightarrow> (op_error, nat) res" where
  "op_public_data_length op_type = res_map (\<lambda>n. n * CHUNK_BYTES)
    (if op_type = NOOP_OP_CODE then Ok NOOP_CHUNKS
     else if op_type = DEPOSIT_OP_CODE then Ok DEPOSIT_CHUNKS
     else if op_type = TRANSFER_TO_NEW_OP_CODE then Ok TRANSFER_TO_NEW_CHUNKS
     else if op_type = WITHDRAW_OP_CODE then Ok WITHDRAW_CHUNKS
     else if op_type = CLOSE_OP_CODE then Ok CLOSE_CHUNKS
     else if op_type = TRANSFER_OP_CODE then Ok TRANSFER_CHUNKS
     else if op_type = FULL_EXIT_OP_CODE then Ok FULL_EXIT_CHUNKS
     else if op_type = CHANGE_PUBKEY_OP_CODE then Ok CHANGE_PUBKEY_CHUNKS
     else if op_type = FORCED_EXIT_OP_CODE then Ok FORCED_EXIT_CHUNKS
     else Err (WrongType op_type))"

fun op_try_get_tx :: "zksync_op \<Rightarrow> (op_error, zksync_tx) res" where
  "op_try_get_tx (OpTransfer op) = Ok (TxTransfer (trop_tx op))"
| "op_try_get_tx (OpTransferToNew op) = Ok (TxTransfer (tnop_tx op))"
| "op_try_get_tx (OpWithdraw op) = Ok (TxWithdraw (wdop_tx op))"
| "op_try_get_tx (OpClose op) = Ok (TxClose (clop_tx op))"
| "op_try_get_tx (OpChangePubKey op) = Ok (TxChangePubKey (cpop_tx op))"
| "op_try_get_tx (OpForcedExit op) = Ok (TxForcedExit (feop_tx op))"
| "op_try_get_tx op = Err WrongKind"

fun op_try_get_priority_op :: "zksync_op \<Rightarrow> (op_error, priority_op_data) res" where
  "op_try_get_priority_op (OpDeposit op) = Ok (PrioDeposit (depop_priority_op op))"
| "op_try_get_priority_op (OpFullExit op) = Ok (PrioFullExit (fxop_priority_op op))"
| "op_try_get_priority_op op = Err WrongKind"

fun op_updated_account_ids :: "zksync_op \<Rightarrow> account_id list" where
  "op_updated_account_ids OpNoop = []"
| "op_updated_account_ids (OpDeposit op) = [depop_account_id op]"
| "op_updated_account_ids (OpTransferToNew op) = [tnop_from op, tnop_to op]"
| "op_updated_account_ids (OpWithdraw op) = [wdop_account_id op]"
| "op_updated_account_ids (OpClose op) = [clop_account_id op]"
| "op_updated_account_ids (OpTransfer op) = [trop_from op, trop_to op]"
| "op_updated_account_ids (OpFullExit op) = [fx_account_id (fxop_priority_op op)]"
| "op_updated_account_ids (OpChangePubKey op) = [cpop_account_id op]"
| "op_updated_account_ids (OpForcedExit op) = [feop_target_account_id op, fe_initiator_account_id (feop_tx op)]"

section \<open>Priority operations\<close>

fun try_get_deposit :: "priority_op_data \<Rightarrow> deposit option" where
  "try_get_deposit (PrioDeposit d) = Some d"
| "try_get_deposit (PrioFullExit f) = None"

fun prio_chunks :: "priority_op_data \<Rightarrow> nat" where
  "prio_chunks (PrioDeposit d) = DEPOSIT_CHUNKS"
| "prio_chunks (PrioFullExit f) = FULL_EXIT_CHUNKS"

text \<open>@split_at@ panics beyond the end.\<close>

definition split_at :: "nat \<Rightarrow> byte list \<Rightarrow> ('e, byte list \<times> byte list) res" where
  "split_at n bs = (if n \<le> size bs then Ok (take n bs, drop n bs) else Panic)"

definition parse_from_priority_queue_logs ::
  "byte list \<Rightarrow> byte \<Rightarrow> address \<Rightarrow> (op_error, priority_op_data) res" where
  "parse_from_priority_queue_logs pub_data op_type_id sender =
    (if op_type_id = DEPOSIT_OP_CODE then
       res_bind (split_at (ACCOUNT_ID_BIT_WIDTH div 8) pub_data) (\<lambda>(_, left).
       res_bind (split_at (TOKEN_BIT_WIDTH div 8) left) (\<lambda>(token, left).
       res_bind (split_at (BALANCE_BIT_WIDTH div 8) left) (\<lambda>(amount, left).
       res_bind (split_at FR_ADDRESS_LEN left) (\<lambda>(account, left).
       res_bind (ensure (left = []) WrongLength) (\<lambda>_.
         Ok (PrioDeposit \<lparr>dep_from = sender, dep_token = word_from_be token,
           dep_amount = unat (word_from_be amount :: 128 word), dep_to = word_from_be account\<rparr>))))))
     else if op_type_id = FULL_EXIT_OP_CODE then
       res_bind (split_at (ACCOUNT_ID_BIT_WIDTH div 8) pub_data) (\<lambda>(account_id, left).
       res_bind (split_at (ETH_ADDRESS_BIT_WIDTH div 8) left) (\<lambda>(eth_address, left).
       res_bind (split_at (TOKEN_BIT_WIDTH div 8) left) (\<lambda>(token, left).
       res_bind (ensure (size left = BALANCE_BIT_WIDTH div 8) WrongLength) (\<lambda>_.
         Ok (PrioFullExit \<lparr>fx_account_id = word_from_be account_id,
           fx_eth_address = word_from_be eth_address, fx_token = word_from_be token\<rparr>)))))
     else Err (WrongType op_type_id))"

record priority_op =
  po_serial_id :: "64 word"
  po_data :: priority_op_data
  po_deadline_block :: "64 word"
  po_eth_hash :: "byte list"
  po_eth_block :: "64 word"

text \<open>A log of the contract: its data and the optional transaction hash and block number.\<close>

record eth_log =
  log_data :: "byte list"
  log_transaction_hash :: "h256 option"
  log_block_number :: "64 word option"

text \<open>@U256::as_u64@ and @as_u32@ panic on overflow; @as u8@ keeps the low byte.\<close>

definition as_u64 :: "256 word \<Rightarrow> ('e, 64 word) res" where
  "as_u64 x = (if unat x < 2 ^ 64 then Ok (ucast x) else Panic)"

definition as_u32 :: "256 word \<Rightarrow> ('e, 32 word) res" where
  "as_u32 x = (if unat x < 2 ^ 32 then Ok (ucast x) else Panic)"

text \<open>@PriorityOp::try_from@ over the ABI decoder of the library, which yields sender, serial id,
  operation type, public data and expiration block.\<close>

definition priority_op_try_from ::
  "(byte list \<Rightarrow> (address \<times> 256 word \<times> 256 word \<times> byte list \<times> 256 word) option) \<Rightarrow> eth_log
    \<Rightarrow> (op_error, priority_op) res" where
  "priority_op_try_from decode event =
    (case decode (log_data event) of
       None \<Rightarrow> Err DecodeError
     | Some (sender, serial_id, op_type, op_pubdata, expiration) \<Rightarrow>
         res_bind (as_u64 serial_id) (\<lambda>serial.
         res_bind (as_u32 op_type) (\<lambda>ty.
         res_bind (case parse_from_priority_queue_logs op_pubdata (ucast ty) sender of
             Ok d \<Rightarrow> Ok d | _ \<Rightarrow> Panic) (\<lambda>data.
         res_bind (as_u64 expiration) (\<lambda>deadline.
         res_bind (expect (log_transaction_hash event)) (\<lambda>hash.
         res_bind (expect (log_block_number event)) (\<lambda>block.
           Ok \<lparr>po_serial_id = serial, po_data = data, po_deadline_block = deadline,
               po_eth_hash = word_to_be hash, po_eth_block = block\<rparr>)))))))"

section \<open>Public data and back\<close>

definition public_transfer :: "account_id \<Rightarrow> address \<Rightarrow> transfer \<Rightarrow> transfer" where
  "public_transfer from to t = t\<lparr>tr_account_id := from, tr_from := 0, tr_to := to, tr_nonce := 0,
    tr_signature := default_signature, tr_cached_signer := NotCached\<rparr>"

text \<open>The part of an operation that its public data determines; the rest is set to its default.\<close>

fun public_part :: "zksync_op \<Rightarrow> zksync_op" where
  "public_part (OpTransfer op) =
     OpTransfer (op\<lparr>trop_tx := public_transfer (trop_from op) 0 (trop_tx op)\<rparr>)"
| "public_part (OpTransferToNew op) =
     OpTransferToNew (op\<lparr>tnop_tx := public_transfer (tnop_from op) (tr_to (tnop_tx op)) (tnop_tx op)\<rparr>)"
| "public_part (OpWithdraw op) = OpWithdraw (op\<lparr>wdop_tx := (wdop_tx op)\<lparr>
     wd_account_id := wdop_account_id op, wd_from := 0, wd_nonce := 0, wd_signature := default_signature,
     wd_cached_signer := NotCached, wd_fast := False\<rparr>\<rparr>)"
| "public_part (OpDeposit op) =
     OpDeposit (op\<lparr>depop_priority_op := (depop_priority_op op)\<lparr>dep_from := 0\<rparr>\<rparr>)"
| "public_part (OpFullExit op) = OpFullExit (op\<lparr>fxop_withdraw_amount :=
     Some (case fxop_withdraw_amount op of None \<Rightarrow> 0 | Some n \<Rightarrow> n)\<rparr>)"
| "public_part (OpChangePubKey op) = OpChangePubKey (op\<lparr>cpop_tx := (cpop_tx op)\<lparr>
     cp_account_id := cpop_account_id op, cp_signature := default_signature, cp_eth_signature := None,
     cp_cached_signer := NotCached\<rparr>\<rparr>)"
| "public_part (OpForcedExit op) = OpForcedExit (op\<lparr>feop_tx := (feop_tx op)\<lparr>fe_nonce := 0,
     fe_signature := default_signature, fe_cached_signer := NotCached\<rparr>, feop_withdraw_amount :=
     Some (case feop_withdraw_amount op of None \<Rightarrow> 0 | Some n \<Rightarrow> n)\<rparr>)"
| "public_part (OpClose op) = OpClose (op\<lparr>clop_tx :=
     \<lparr>cl_account = 0, cl_nonce = 0, cl_signature = default_signature\<rparr>\<rparr>)"
| "public_part OpNoop = OpNoop"

fun op_amounts_packable :: "zksync_op \<Rightarrow> bool" where
  "op_amounts_packable (OpTransfer op) = packable_amounts (TxTransfer (trop_tx op))"
| "op_amounts_packable (OpTransferToNew op) = packable_amounts (TxTransfer (tnop_tx op))"
| "op_amounts_packable (OpWithdraw op) = packable_amounts (TxWithdraw (wdop_tx op))"
| "op_amounts_packable (OpChangePubKey op) = packable_amounts (TxChangePubKey (cpop_tx op))"
| "op_amounts_packable (OpForcedExit op) = packable_amounts (TxForcedExit (feop_tx op))"
| "op_amounts_packable op = True"

named_theorems op_consts \<open>chunk counts and operation codes\<close>

declare TRANSFER_CHUNKS_def [op_consts] WITHDRAW_CHUNKS_def [op_consts] CLOSE_CHUNKS_def [op_consts]
  CHANGE_PUBKEY_CHUNKS_def [op_consts] FORCED_EXIT_CHUNKS_def [op_consts] DEPOSIT_CHUNKS_def [op_consts]
  TRANSFER_TO_NEW_CHUNKS_def [op_consts] FULL_EXIT_CHUNKS_def [op_consts] NOOP_CHUNKS_def [op_consts]
  TRANSFER_OP_CODE_def [op_consts] TRANSFER_TO_NEW_OP_CODE_def [op_consts] WITHDRAW_OP_CODE_def [op_consts]
  DEPOSIT_OP_CODE_def [op_consts] FULL_EXIT_OP_CODE_def [op_consts] CHANGE_PUBKEY_OP_CODE_def [op_consts]
  FORCED_EXIT_OP_CODE_def [op_consts] CLOSE_OP_CODE_def [op_consts] NOOP_OP_CODE_def [op_consts]

lemma unpack_packed_fee:
  "pack_fee_amount n = Ok b \<Longrightarrow> is_fee_amount_packable n = Ok True \<Longrightarrow> unpack_fee_amount b = Ok n"
  by (auto simp: is_fee_amount_packable_def split: res.splits)

lemma unpack_packed_token:
  "pack_token_amount n = Ok b \<Longrightarrow> is_token_amount_packable n = Ok True \<Longrightarrow> unpack_token_amount b = Ok n"
  by (auto simp: is_token_amount_packable_def split: res.splits)

lemma int_field_word:
  "slice off n bs = word_to_be (w :: 'a::len word) \<Longrightarrow> LENGTH('a) mod 8 = 0 \<Longrightarrow> n = LENGTH('a) div 8
    \<Longrightarrow> int_field off n bs = Ok w"
  using word_from_to_be [of w] by (simp add: int_field_def from_bytes_word word_from_be_def)

lemma address_field_word: "slice off n bs = word_to_be w \<Longrightarrow> address_field off n bs = Ok w"
  by (simp add: address_field_def word_from_to_be)

lemma pubkey_hash_field: "slice off n bs = word_to_be (w :: 160 word) \<Longrightarrow> pubkey_hash_from_bytes (slice off n bs) = Ok w"
  using word_from_to_be [of w] by (simp add: pubkey_hash_from_bytes_def FR_ADDRESS_LEN_def word_from_be_def)

lemma pubdata_Ok:
  "pubdata n fs = Ok bs \<longleftrightarrow> (\<exists>b. concat_fields fs = Ok b \<and> bs = resize (n * CHUNK_BYTES) 0 b)"
  by (auto simp: pubdata_def ok_iffs)

lemma length_resize [simp]: "size (resize n x xs) = n"
  by (simp add: resize_def)

lemma op_public_data_size: "op_public_data op = Ok bs \<Longrightarrow> size bs = op_chunks op * CHUNK_BYTES"
  by (cases op) (auto simp: pubdata_Ok noop_op_public_data_def deposit_op_public_data_def
      transfer_op_public_data_def transfer_to_new_op_public_data_def withdraw_op_public_data_def
      full_exit_op_public_data_def change_pub_key_op_public_data_def forced_exit_op_public_data_def
      close_op_public_data_def)

lemma transfer_op_roundtrip:
  assumes "transfer_op_public_data op = Ok bs" "packable_amounts (TxTransfer (trop_tx op))"
  shows "transfer_op_from_public_data c bs
    = Ok (op\<lparr>trop_tx := public_transfer (trop_from op) 0 (trop_tx op)\<rparr>)"
proof -
  obtain a f where af: "pack_token_amount (tr_amount (trop_tx op)) = Ok a"
    "pack_fee_amount (tr_fee (trop_tx op)) = Ok f"
    and bs: "bs = resize 18 0 (TRANSFER_OP_CODE # word_to_be (trop_from op)
      @ word_to_be (tr_token (trop_tx op)) @ word_to_be (trop_to op) @ a @ f)"
    using assms(1) by (auto simp: transfer_op_public_data_def pubdata_Ok ok_iffs param_defs op_consts)
  have sz: "size a = 5" "size f = 2"
    using af pack_token_length pack_fee_length by blast+
  have "slice 1 4 bs = word_to_be (trop_from op)" "slice 5 2 bs = word_to_be (tr_token (trop_tx op))"
    "slice 7 4 bs = word_to_be (trop_to op)" "slice 11 5 bs = a" "slice 16 2 bs = f" "size bs = 18"
    by (simp_all add: bs slice_def resize_def sz)
  moreover have "unpack_token_amount a = Ok (tr_amount (trop_tx op))"
    "unpack_fee_amount f = Ok (tr_fee (trop_tx op))"
    using af assms(2) by (auto intro: unpack_packed_token unpack_packed_fee)
  ultimately show ?thesis
    by (simp add: transfer_op_from_public_data_def Let_def param_defs op_consts int_field_word
        transfer_new_def public_transfer_def)
qed

lemma transfer_to_new_op_roundtrip:
  assumes "transfer_to_new_op_public_data op = Ok bs" "packable_amounts (TxTransfer (tnop_tx op))"
  shows "transfer_to_new_op_from_public_data c bs
    = Ok (op\<lparr>tnop_tx := public_transfer (tnop_from op) (tr_to (tnop_tx op)) (tnop_tx op)\<rparr>)"
proof -
  obtain a f where af: "pack_token_amount (tr_amount (tnop_tx op)) = Ok a"
    "pack_fee_amount (tr_fee (tnop_tx op)) = Ok f"
    and bs: "bs = resize 54 0 (TRANSFER_TO_NEW_OP_CODE # word_to_be (tnop_from op)
      @ word_to_be (tr_token (tnop_tx op)) @ a @ word_to_be (tr_to (tnop_tx op))
      @ word_to_be (tnop_to op) @ f)"
    using assms(1) by (auto simp: transfer_to_new_op_public_data_def pubdata_Ok ok_iffs param_defs op_consts)
  have sz: "size a = 5" "size f = 2"
    using af pack_token_length pack_fee_length by blast+
  have "slice 1 4 bs = word_to_be (tnop_from op)" "slice 5 2 bs = word_to_be (tr_token (tnop_tx op))"
    "slice 7 5 bs = a" "slice 12 20 bs = word_to_be (tr_to (tnop_tx op))"
    "slice 32 4 bs = word_to_be (tnop_to op)" "slice 36 2 bs = f" "size bs = 54"
    by (simp_all add: bs slice_def resize_def sz)
  moreover have "unpack_token_amount a = Ok (tr_amount (tnop_tx op))"
    "unpack_fee_amount f = Ok (tr_fee (tnop_tx op))"
    using af assms(2) by (auto intro: unpack_packed_token unpack_packed_fee)
  ultimately show ?thesis
    by (simp add: transfer_to_new_op_from_public_data_def Let_def param_defs op_consts int_field_word
        address_field_word transfer_new_def public_transfer_def)
qed

lemma withdraw_op_roundtrip:
  assumes "withdraw_op_public_data op = Ok bs" "packable_amounts (TxWithdraw (wdop_tx op))"
  shows "res_map OpWithdraw (withdraw_op_from_public_data c bs) = Ok (public_part (OpWithdraw op))"
proof -
  obtain a :: "128 word" and f where af: "unat a = wd_amount (wdop_tx op)"
    "pack_fee_amount (wd_fee (wdop_tx op)) = Ok f"
    and bs: "bs = resize 54 0 (WITHDRAW_OP_CODE # word_to_be (wdop_account_id op)
      @ word_to_be (wd_token (wdop_tx op)) @ word_to_be a @ f @ word_to_be (wd_to (wdop_tx op)))"
    using assms(1) by (auto simp: withdraw_op_public_data_def pubdata_Ok ok_iffs param_defs op_consts u128_field_Ok)
  have sz: "size f = 2"
    using af pack_fee_length by blast
  have "slice 1 4 bs = word_to_be (wdop_account_id op)" "slice 5 2 bs = word_to_be (wd_token (wdop_tx op))"
    "slice 7 16 bs = word_to_be a" "slice 23 2 bs = f" "slice 25 20 bs = word_to_be (wd_to (wdop_tx op))"
    "size bs = 54"
    by (simp_all add: bs slice_def resize_def sz)
  moreover have "unpack_fee_amount f = Ok (wd_fee (wdop_tx op))"
    using af assms(2) by (auto intro: unpack_packed_fee)
  ultimately show ?thesis
    using af(1) by (simp add: withdraw_op_from_public_data_def Let_def param_defs op_consts int_field_word
        address_field_word withdraw_new_def)
qed

lemma deposit_op_roundtrip:
  assumes "deposit_op_public_data op = Ok bs"
  shows "res_map OpDeposit (deposit_op_from_public_data bs) = Ok (public_part (OpDeposit op))"
proof -
  obtain a :: "128 word" where a: "unat a = dep_amount (depop_priority_op op)"
    and bs: "bs = resize 54 0 (DEPOSIT_OP_CODE # word_to_be (depop_account_id op)
      @ word_to_be (dep_token (depop_priority_op op)) @ word_to_be a
      @ word_to_be (dep_to (depop_priority_op op)))"
    using assms(1) by (auto simp: deposit_op_public_data_def pubdata_Ok ok_iffs param_defs op_consts u128_field_Ok)
  have "slice 1 4 bs = word_to_be (depop_account_id op)"
    "slice 5 2 bs = word_to_be (dep_token (depop_priority_op op))" "slice 7 16 bs = word_to_be a"
    "slice 23 20 bs = word_to_be (dep_to (depop_priority_op op))" "size bs = 54"
    by (simp_all add: bs slice_def resize_def)
  then show ?thesis
    using a by (simp add: deposit_op_from_public_data_def Let_def param_defs op_consts int_field_word
        address_field_word)
qed

lemma full_exit_op_roundtrip:
  assumes "full_exit_op_public_data op = Ok bs"
  shows "res_map OpFullExit (full_exit_op_from_public_data bs) = Ok (public_part (OpFullExit op))"
proof -
  obtain a :: "128 word" where a: "unat a = (case fxop_withdraw_amount op of None \<Rightarrow> 0 | Some n \<Rightarrow> n)"
    and bs: "bs = resize 54 0 (FULL_EXIT_OP_CODE # word_to_be (fx_account_id (fxop_priority_op op))
      @ word_to_be (fx_eth_address (fxop_priority_op op)) @ word_to_be (fx_token (fxop_priority_op op))
      @ word_to_be a)"
    using assms(1) by (auto simp: full_exit_op_public_data_def pubdata_Ok ok_iffs param_defs op_consts u128_field_Ok)
  have "slice 1 4 bs = word_to_be (fx_account_id (fxop_priority_op op))"
    "slice 5 20 bs = word_to_be (fx_eth_address (fxop_priority_op op))"
    "slice 25 2 bs = word_to_be (fx_token (fxop_priority_op op))" "slice 27 16 bs = word_to_be a" "size bs = 54"
    by (simp_all add: bs slice_def resize_def)
  then show ?thesis
    using a by (simp add: full_exit_op_from_public_data_def Let_def param_defs op_consts int_field_word
        address_field_word)
qed

lemma change_pub_key_op_roundtrip:
  assumes "change_pub_key_op_public_data op = Ok bs" "packable_amounts (TxChangePubKey (cpop_tx op))"
  shows "res_map OpChangePubKey (change_pub_key_op_from_public_data c bs) = Ok (public_part (OpChangePubKey op))"
proof -
  obtain f where f: "pack_fee_amount (cp_fee (cpop_tx op)) = Ok f"
    and bs: "bs = resize 54 0 (CHANGE_PUBKEY_OP_CODE # word_to_be (cpop_account_id op)
      @ word_to_be (cp_new_pk_hash (cpop_tx op)) @ word_to_be (cp_account (cpop_tx op))
      @ word_to_be (cp_nonce (cpop_tx op)) @ word_to_be (cp_fee_token (cpop_tx op)) @ f)"
    using assms(1) by (auto simp: change_pub_key_op_public_data_def pubdata_Ok ok_iffs param_defs op_consts)
  have sz: "size f = 2"
    using f pack_fee_length by blast
  have "slice 1 4 bs = word_to_be (cpop_account_id op)"
    "slice 5 20 bs = word_to_be (cp_new_pk_hash (cpop_tx op))"
    "slice 25 20 bs = word_to_be (cp_account (cpop_tx op))" "slice 45 4 bs = word_to_be (cp_nonce (cpop_tx op))"
    "slice 49 2 bs = word_to_be (cp_fee_token (cpop_tx op))" "slice 51 2 bs = f" "size bs = 54"
    by (simp_all add: bs slice_def resize_def sz)
  moreover have "unpack_fee_amount f = Ok (cp_fee (cpop_tx op))"
    using f assms(2) by (auto intro: unpack_packed_fee)
  moreover have "pubkey_hash_from_bytes (word_to_be (cp_new_pk_hash (cpop_tx op))) = Ok (cp_new_pk_hash (cpop_tx op))"
    using pubkey_hash_field [of 5 20 bs] calculation(2) by simp
  ultimately show ?thesis
    by (simp add: change_pub_key_op_from_public_data_def Let_def param_defs op_consts int_field_word
        address_field_word change_pub_key_new_def)
qed

lemma forced_exit_op_roundtrip:
  assumes "forced_exit_op_public_data op = Ok bs" "packable_amounts (TxForcedExit (feop_tx op))"
  shows "res_map OpForcedExit (forced_exit_op_from_public_data c bs) = Ok (public_part (OpForcedExit op))"
proof -
  obtain a :: "128 word" and f where f: "pack_fee_amount (fe_fee (feop_tx op)) = Ok f"
    and a: "forced_exit_op_amount op = Ok a"
    and bs: "bs = resize 54 0 (FORCED_EXIT_OP_CODE # word_to_be (fe_initiator_account_id (feop_tx op))
      @ word_to_be (feop_target_account_id op) @ word_to_be (fe_token (feop_tx op)) @ word_to_be a @ f
      @ word_to_be (fe_target (feop_tx op)))"
    using assms(1) by (auto simp: forced_exit_op_public_data_def pubdata_Ok ok_iffs param_defs op_consts)
  have sz: "size f = 2"
    using f pack_fee_length by blast
  have "unat a = (case feop_withdraw_amount op of None \<Rightarrow> 0 | Some n \<Rightarrow> n)"
    using a by (auto simp: forced_exit_op_amount_def to_u128_unat split: option.splits)
  moreover have "slice 1 4 bs = word_to_be (fe_initiator_account_id (feop_tx op))"
    "slice 5 4 bs = word_to_be (feop_target_account_id op)" "slice 9 2 bs = word_to_be (fe_token (feop_tx op))"
    "slice 11 16 bs = word_to_be a" "slice 27 2 bs = f" "slice 29 20 bs = word_to_be (fe_target (feop_tx op))"
    "size bs = 54"
    by (simp_all add: bs slice_def resize_def sz)
  moreover have "unpack_fee_amount f = Ok (fe_fee (feop_tx op))"
    using f assms(2) by (auto intro: unpack_packed_fee)
  ultimately show ?thesis
    by (simp add: forced_exit_op_from_public_data_def Let_def param_defs op_consts int_field_word
        address_field_word forced_exit_new_def)
qed

lemma close_op_roundtrip:
  assumes "close_op_public_data op = Ok bs"
  shows "res_map OpClose (close_op_from_public_data bs) = Ok (public_part (OpClose op))"
proof -
  have bs: "bs = resize 9 0 (CLOSE_OP_CODE # word_to_be (clop_account_id op))"
    using assms by (auto simp: close_op_public_data_def pubdata_Ok ok_iffs param_defs op_consts)
  have "slice 1 4 bs = word_to_be (clop_account_id op)" "size bs = 9"
    by (simp_all add: bs slice_def resize_def)
  then show ?thesis
    by (simp add: close_op_from_public_data_def param_defs op_consts int_field_word)
qed

lemma resize_Cons: "0 < n \<Longrightarrow> resize n x (y # ys) = y # resize (n - 1) x ys"
  by (cases n) (auto simp: resize_def)

lemma resize_Nil: "0 < n \<Longrightarrow> resize n x [] = x # replicate (n - 1) x"
  by (cases n) (auto simp: resize_def)

lemma op_public_data_hd:
  assumes "op_public_data op = Ok bs"
  shows "\<exists>rest. bs = (case op of OpDeposit op \<Rightarrow> DEPOSIT_OP_CODE | OpTransfer op \<Rightarrow> TRANSFER_OP_CODE
    | OpTransferToNew op \<Rightarrow> TRANSFER_TO_NEW_OP_CODE | OpWithdraw op \<Rightarrow> WITHDRAW_OP_CODE
    | OpClose op \<Rightarrow> CLOSE_OP_CODE | OpFullExit op \<Rightarrow> FULL_EXIT_OP_CODE
    | OpChangePubKey op \<Rightarrow> CHANGE_PUBKEY_OP_CODE | OpForcedExit op \<Rightarrow> FORCED_EXIT_OP_CODE
    | OpNoop \<Rightarrow> NOOP_OP_CODE) # rest"
  using assms
  by (cases op) (auto simp: pubdata_Ok ok_iffs param_defs op_consts resize_Cons resize_Nil noop_op_public_data_def deposit_op_public_data_def
      transfer_op_public_data_def transfer_to_new_op_public_data_def withdraw_op_public_data_def
      full_exit_op_public_data_def change_pub_key_op_public_data_def forced_exit_op_public_data_def
      close_op_public_data_def)

lemma noop_roundtrip: "noop_op_public_data = Ok bs \<Longrightarrow> noop_op_from_public_data bs = Ok ()"
  by (auto simp: noop_op_public_data_def noop_op_from_public_data_def pubdata_Ok ok_iffs resize_def op_consts)

lemma op_public_data_roundtrip:
  assumes "op_public_data op = Ok bs" "op_amounts_packable op"
  shows "size bs = op_chunks op * CHUNK_BYTES \<and> op_from_public_data c bs = Ok (public_part op)"
proof
  show "size bs = op_chunks op * CHUNK_BYTES"
    using assms(1) by (rule op_public_data_size)
  obtain rest where hd: "bs = (case op of OpDeposit op \<Rightarrow> DEPOSIT_OP_CODE | OpTransfer op \<Rightarrow> TRANSFER_OP_CODE
    | OpTransferToNew op \<Rightarrow> TRANSFER_TO_NEW_OP_CODE | OpWithdraw op \<Rightarrow> WITHDRAW_OP_CODE
    | OpClose op \<Rightarrow> CLOSE_OP_CODE | OpFullExit op \<Rightarrow> FULL_EXIT_OP_CODE
    | OpChangePubKey op \<Rightarrow> CHANGE_PUBKEY_OP_CODE | OpForcedExit op \<Rightarrow> FORCED_EXIT_OP_CODE
    | OpNoop \<Rightarrow> NOOP_OP_CODE) # rest"
    using op_public_data_hd [OF assms(1)] by blast
  show "op_from_public_data c bs = Ok (public_part op)"
    using assms hd
    by (cases op)
      (simp_all add: op_from_public_data_def op_consts transfer_op_roundtrip transfer_to_new_op_roundtrip
        withdraw_op_roundtrip deposit_op_roundtrip full_exit_op_roundtrip change_pub_key_op_roundtrip
        forced_exit_op_roundtrip close_op_roundtrip noop_roundtrip
        del: packable_amounts.simps public_part.simps(3-8))
qed

text \<open>C2: the public data of every operation has exactly the bytes of the operation's chunks, and the
  contract's reader gets back from it the operation it was made of: the public part of the operation,
  with every account id, address, token, amount, fee and (for a key change) nonce. (The amounts that
  are stored as floating point must be packable.)\<close>

theorem public_data_roundtrip:
  assumes "op_public_data op = Ok bs" "op_amounts_packable op"
  shows "size bs = op_chunks op * CHUNK_BYTES \<and> op_from_public_data c bs = Ok (public_part op)"
  using assms by (rule op_public_data_roundtrip)

theorem public_data_roundtrip_witness:
  "\<exists>bs. op_public_data (OpWithdraw \<lparr>wdop_tx = sample_withdraw, wdop_account_id = 5\<rparr>) = Ok bs
    \<and> op_from_public_data sample_crypto bs
      = Ok (public_part (OpWithdraw \<lparr>wdop_tx = sample_withdraw, wdop_account_id = 5\<rparr>))"
proof -
  let ?op = "OpWithdraw \<lparr>wdop_tx = sample_withdraw, wdop_account_id = 5\<rparr>"
  obtain f where "pack_fee_amount 0 = Ok f"
    using fee_pack_Ok [of 0] by auto
  moreover have "u128_field 1000 = Ok (word_to_be (1000 :: 128 word))"
    by (simp add: u128_field_def to_u128_def)
  ultimately obtain bs where "op_public_data ?op = Ok bs"
    by (simp add: withdraw_op_public_data_def pubdata_def sample_withdraw_def)
  moreover have "op_amounts_packable ?op"
    by (simp add: sample_withdraw_def fee_zero_packable)
  ultimately show ?thesis
    using public_data_roundtrip [of ?op bs sample_crypto] by blast
qed

lemma op_public_data_length_hd:
  assumes "op_public_data op = Ok bs"
  shows "op_public_data_length (hd bs) = Ok (size bs)"
  using op_public_data_hd [OF assms] op_public_data_size [OF assms]
  by (cases op) (auto simp: op_public_data_length_def op_consts)

text \<open>The public data of a deposit in a log of the contract is parsed to exactly that deposit with
  the log's sender, whatever the four bytes of the account id are, when it has its 42 bytes; longer
  data is an error and shorter data panics.\<close>

lemma parse_deposit_log:
  "parse_from_priority_queue_logs bytes DEPOSIT_OP_CODE sender =
    (if size bytes = 42 then Ok (PrioDeposit \<lparr>dep_from = sender, dep_token = word_from_be (slice 4 2 bytes),
        dep_amount = from_be (slice 6 16 bytes), dep_to = word_from_be (slice 22 20 bytes)\<rparr>)
     else if 42 < size bytes then Err WrongLength else Panic)"
proof -
  have "unat (word_from_be (take 16 (drop 6 bytes)) :: 128 word) = from_be (take 16 (drop 6 bytes))"
    if "size bytes = 42"
    using that from_be_bound [of "take 16 (drop 6 bytes)"]
    by (simp add: word_from_be_def unat_of_nat take_bit_nat_eq_self)
  then show ?thesis
    by (auto simp: parse_from_priority_queue_logs_def split_at_def param_defs op_consts slice_def
        ensure_def drop_all)
qed

end
