(* ===== verification/ZkState.thy ===== *)
theory ZkState
  imports Ops
begin

text \<open>
  The rollup state and its transaction handlers: @core/lib/state/src@.  The balance tree is here
  the map of its leaves, as @get@, @insert@ and @remove@ of the tree see it (its capacity of
  2^32 leaves holds every account id; the hash tree over the leaves is modelled on its own).
  A handler makes its changes after its last check, so it is a function to the new state or an
  error.  The lemmas show that the address index stays consistent, that no handler panics on
  a consistent state, that funds are conserved, and that the returned updates replay the change.
\<close>

section \<open>State\<close>

record zk_state =
  zs_items :: account_map
  zs_index :: "(address, account_id) fmap"
  zs_block_number :: block_number

record collected_fee =
  cf_token :: token_id
  cf_amount :: nat

record op_success =
  os_fee :: "collected_fee option"
  os_updates :: account_updates
  os_executed_op :: zksync_op

datatype transfer_outcome = OutcomeTransfer transfer_op | OutcomeTransferToNew transfer_to_new_op

fun into_franklin_op :: "transfer_outcome \<Rightarrow> zksync_op" where
  "into_franklin_op (OutcomeTransfer op) = OpTransfer op"
| "into_franklin_op (OutcomeTransferToNew op) = OpTransferToNew op"

text \<open>The error values are the messages of the source.\<close>

type_synonym error = string

fun no_err :: "(unit, 'a) res \<Rightarrow> (error, 'a) res" where
  "no_err (Ok x) = Ok x"
| "no_err (Err u) = Panic"
| "no_err Panic = Panic"

text \<open>@expect@ and @unwrap@ on a @Result@.\<close>

fun unwrap :: "('f, 'a) res \<Rightarrow> ('e, 'a) res" where
  "unwrap (Ok x) = Ok x"
| "unwrap (Err e) = Panic"
| "unwrap Panic = Panic"

lemma unwrap_Ok_iff [simp]: "unwrap r = Ok x \<longleftrightarrow> r = Ok x"
  by (cases r) auto

definition tree_get :: "zk_state \<Rightarrow> account_id \<Rightarrow> account option" where
  "tree_get s i = fmlookup (zs_items s) i"

text \<open>@SparseMerkleTree::remove@ puts the default leaf into the place of the removed one.\<close>

definition tree_remove :: "account_map \<Rightarrow> account_id \<Rightarrow> account_map" where
  "tree_remove m i = fmupd i default_account (fmdrop i m)"

definition empty_state :: zk_state where
  "empty_state = \<lparr>zs_items = fmempty, zs_index = fmempty, zs_block_number = 0\<rparr>"

definition insert_account :: "account_id \<Rightarrow> account \<Rightarrow> zk_state \<Rightarrow> zk_state" where
  "insert_account i a s =
    s\<lparr>zs_index := fmupd (acc_address a) i (zs_index s), zs_items := fmupd i a (zs_items s)\<rparr>"

definition remove_account :: "account_id \<Rightarrow> zk_state \<Rightarrow> zk_state" where
  "remove_account i s =
    (case tree_get s i of
       None \<Rightarrow> s
     | Some a \<Rightarrow> s\<lparr>zs_index := fmdrop (acc_address a) (zs_index s),
                  zs_items := tree_remove (zs_items s) i\<rparr>)"

text \<open>@from_acc_map@ over the accounts in the order the map yields them.\<close>

definition from_acc_map :: "(account_id \<times> account) list \<Rightarrow> block_number \<Rightarrow> zk_state" where
  "from_acc_map accounts current_block =
    foldl (\<lambda>s (i, a). insert_account i a s) (empty_state\<lparr>zs_block_number := current_block\<rparr>) accounts"

definition get_account :: "zk_state \<Rightarrow> account_id \<Rightarrow> account option" where
  "get_account s i = tree_get s i"

definition get_account_by_address ::
  "zk_state \<Rightarrow> address \<Rightarrow> ('e, (account_id \<times> account) option) res" where
  "get_account_by_address s addr =
    (case fmlookup (zs_index s) addr of
       None \<Rightarrow> Ok None
     | Some i \<Rightarrow> res_map (\<lambda>a. Some (i, a)) (expect (get_account s i)))"

definition get_free_account_id :: "zk_state \<Rightarrow> account_id" where
  "get_free_account_id s = of_nat (fcard (fmdom (zs_items s)))"

definition chunks_for_tx :: "zk_state \<Rightarrow> zksync_tx \<Rightarrow> ('e, nat) res" where
  "chunks_for_tx s tx =
    (case tx of
       TxTransfer t \<Rightarrow> res_map (\<lambda>r. if r \<noteq> None then TRANSFER_CHUNKS else TRANSFER_TO_NEW_CHUNKS)
         (get_account_by_address s (tr_to t))
     | _ \<Rightarrow> Ok (tx_min_chunks tx))"

fun chunks_for_batch :: "zk_state \<Rightarrow> signed_tx list \<Rightarrow> ('e, nat) res" where
  "chunks_for_batch s [] = Ok 0"
| "chunks_for_batch s (tx # txs) =
    res_bind (chunks_for_tx s (stx_tx tx)) (\<lambda>n. res_map (\<lambda>m. n + m) (chunks_for_batch s txs))"

type_synonym applied = "((collected_fee option \<times> account_updates) \<times> zk_state)"

section \<open>Transfer\<close>

definition transfer_create_op :: "crypto \<Rightarrow> zk_state \<Rightarrow> transfer \<Rightarrow> (error, transfer_outcome) res" where
  "transfer_create_op c s tx =
    res_bind (ensure (tr_token tx \<le> max_token_id) ''Token id is not supported'') (\<lambda>_.
    res_bind (ensure (tr_to tx \<noteq> 0) ''Transfer to Account with address 0 is not allowed'') (\<lambda>_.
    res_bind (get_account_by_address s (tr_from tx)) (\<lambda>r.
    res_bind (ok_or r ''From account does not exist'') (\<lambda>(from, from_account).
    res_bind (ensure (acc_pub_key_hash from_account \<noteq> 0) ''Account is locked'') (\<lambda>_.
    res_bind (no_err (transfer_verify_signature c tx)) (\<lambda>signer.
    res_bind (ensure (signer = Some (acc_pub_key_hash from_account)) ''Transfer signature is incorrect'') (\<lambda>_.
    res_bind (ensure (from = tr_account_id tx) ''Transfer account id is incorrect'') (\<lambda>_.
    res_bind (get_account_by_address s (tr_to tx)) (\<lambda>r.
      (case r of
         Some (to, _) \<Rightarrow> Ok (OutcomeTransfer \<lparr>trop_tx = tx, trop_from = from, trop_to = to\<rparr>)
       | None \<Rightarrow> Ok (OutcomeTransferToNew \<lparr>tnop_tx = tx, tnop_from = from, tnop_to = get_free_account_id s\<rparr>)))))))))))"

definition apply_transfer_op_to_self :: "zk_state \<Rightarrow> transfer_op \<Rightarrow> (error, applied) res" where
  "apply_transfer_op_to_self s op =
    (let token = tr_token (trop_tx op); amount = tr_amount (trop_tx op); fee = tr_fee (trop_tx op) in
    res_bind (ensure (trop_from op \<le> max_account_id) ''Transfer to self from account id is bigger than max supported'') (\<lambda>_.
    res_bind (ensure (trop_from op = trop_to op) ''Bug: transfer to self should not be called.'') (\<lambda>_.
    res_bind (expect (get_account s (trop_from op))) (\<lambda>account.
      let old_balance = get_balance account token; old_nonce = acc_nonce account in
    res_bind (ensure (tr_nonce (trop_tx op) = old_nonce) ''Nonce mismatch'') (\<lambda>_.
    res_bind (ensure (amount + fee \<le> old_balance) ''Not enough balance'') (\<lambda>_.
    res_bind (sub_balance account token fee) (\<lambda>account.
      let account = account\<lparr>acc_nonce := acc_nonce account + 1\<rparr>;
          new_balance = get_balance account token; new_nonce = acc_nonce account
      in Ok ((Some \<lparr>cf_token = token, cf_amount = fee\<rparr>,
          [(trop_from op, UpdateBalance old_nonce new_nonce (token, old_balance, new_balance))]),
          insert_account (trop_from op) account s))))))))"

definition apply_transfer_op :: "zk_state \<Rightarrow> transfer_op \<Rightarrow> (error, applied) res" where
  "apply_transfer_op s op =
    (let token = tr_token (trop_tx op); amount = tr_amount (trop_tx op); fee = tr_fee (trop_tx op) in
    res_bind (ensure (trop_from op \<le> max_account_id) ''Transfer from account id is bigger than max supported'') (\<lambda>_.
    res_bind (ensure (trop_to op \<le> max_account_id) ''Transfer to account id is bigger than max supported'') (\<lambda>_.
    if trop_from op = trop_to op then apply_transfer_op_to_self s op else
    res_bind (expect (get_account s (trop_from op))) (\<lambda>from_account.
    res_bind (expect (get_account s (trop_to op))) (\<lambda>to_account.
      let from_old_balance = get_balance from_account token; from_old_nonce = acc_nonce from_account in
    res_bind (ensure (tr_nonce (trop_tx op) = from_old_nonce) ''Nonce mismatch'') (\<lambda>_.
    res_bind (ensure (amount + fee \<le> from_old_balance) ''Not enough balance'') (\<lambda>_.
    res_bind (sub_balance from_account token (amount + fee)) (\<lambda>from_account.
      let from_account = from_account\<lparr>acc_nonce := acc_nonce from_account + 1\<rparr>;
          from_new_balance = get_balance from_account token; from_new_nonce = acc_nonce from_account;
          to_old_balance = get_balance to_account token; to_account_nonce = acc_nonce to_account;
          to_account = add_balance to_account token amount;
          to_new_balance = get_balance to_account token
      in Ok ((Some \<lparr>cf_token = token, cf_amount = fee\<rparr>,
          [(trop_from op, UpdateBalance from_old_nonce from_new_nonce (token, from_old_balance, from_new_balance)),
           (trop_to op, UpdateBalance to_account_nonce to_account_nonce (token, to_old_balance, to_new_balance))]),
          insert_account (trop_to op) to_account (insert_account (trop_from op) from_account s))))))))))"

definition apply_transfer_to_new_op :: "zk_state \<Rightarrow> transfer_to_new_op \<Rightarrow> (error, applied) res" where
  "apply_transfer_to_new_op s op =
    (let token = tr_token (tnop_tx op); amount = tr_amount (tnop_tx op); fee = tr_fee (tnop_tx op) in
    res_bind (ensure (tnop_from op \<le> max_account_id) ''TransferToNew from account id is bigger than max supported'') (\<lambda>_.
    res_bind (ensure (tnop_to op \<le> max_account_id) ''TransferToNew to account id is bigger than max supported'') (\<lambda>_.
    res_bind (assert_that (get_account s (tnop_to op) = None)) (\<lambda>_.
      let (to_account, create_updates) = create_account (tnop_to op) (tr_to (tnop_tx op)) in
    res_bind (expect (get_account s (tnop_from op))) (\<lambda>from_account.
      let from_old_balance = get_balance from_account token; from_old_nonce = acc_nonce from_account in
    res_bind (ensure (tr_nonce (tnop_tx op) = from_old_nonce) ''Nonce mismatch'') (\<lambda>_.
    res_bind (ensure (amount + fee \<le> from_old_balance) ''Not enough balance'') (\<lambda>_.
    res_bind (sub_balance from_account token (amount + fee)) (\<lambda>from_account.
      let from_account = from_account\<lparr>acc_nonce := acc_nonce from_account + 1\<rparr>;
          from_new_balance = get_balance from_account token; from_new_nonce = acc_nonce from_account;
          to_old_balance = get_balance to_account token; to_account_nonce = acc_nonce to_account;
          to_account = add_balance to_account token amount;
          to_new_balance = get_balance to_account token
      in Ok ((Some \<lparr>cf_token = token, cf_amount = fee\<rparr>,
          create_updates
          @ [(tnop_from op, UpdateBalance from_old_nonce from_new_nonce (token, from_old_balance, from_new_balance)),
             (tnop_to op, UpdateBalance to_account_nonce to_account_nonce (token, to_old_balance, to_new_balance))]),
          insert_account (tnop_to op) to_account (insert_account (tnop_from op) from_account s))))))))))"

fun transfer_apply_op :: "zk_state \<Rightarrow> transfer_outcome \<Rightarrow> (error, applied) res" where
  "transfer_apply_op s (OutcomeTransfer op) = apply_transfer_op s op"
| "transfer_apply_op s (OutcomeTransferToNew op) = apply_transfer_to_new_op s op"

text \<open>The common shape of the @apply_tx@ methods.\<close>

definition applied_success :: "zksync_op \<Rightarrow> applied \<Rightarrow> op_success \<times> zk_state" where
  "applied_success op r = (\<lparr>os_fee = fst (fst r), os_updates = snd (fst r), os_executed_op = op\<rparr>, snd r)"

definition transfer_apply_tx :: "crypto \<Rightarrow> zk_state \<Rightarrow> transfer \<Rightarrow> (error, op_success \<times> zk_state) res" where
  "transfer_apply_tx c s tx = res_bind (transfer_create_op c s tx) (\<lambda>op.
    res_map (applied_success (into_franklin_op op)) (transfer_apply_op s op))"

section \<open>Withdraw\<close>

definition withdraw_create_op :: "crypto \<Rightarrow> zk_state \<Rightarrow> withdraw \<Rightarrow> (error, withdraw_op) res" where
  "withdraw_create_op c s tx =
    res_bind (ensure (wd_token tx \<le> max_token_id) ''Token id is not supported'') (\<lambda>_.
    res_bind (get_account_by_address s (wd_from tx)) (\<lambda>r.
    res_bind (ok_or r ''Account does not exist'') (\<lambda>(account_id, account).
    res_bind (ensure (acc_pub_key_hash account \<noteq> 0) ''Account is locked'') (\<lambda>_.
    res_bind (no_err (withdraw_verify_signature c tx)) (\<lambda>signer.
    res_bind (ensure (signer = Some (acc_pub_key_hash account)) ''withdraw signature is incorrect'') (\<lambda>_.
    res_bind (ensure (account_id = wd_account_id tx) ''Withdraw account id is incorrect'') (\<lambda>_.
      Ok \<lparr>wdop_tx = tx, wdop_account_id = account_id\<rparr>)))))))"

definition withdraw_apply_op :: "zk_state \<Rightarrow> withdraw_op \<Rightarrow> (error, applied) res" where
  "withdraw_apply_op s op =
    (let token = wd_token (wdop_tx op); amount = wd_amount (wdop_tx op); fee = wd_fee (wdop_tx op) in
    res_bind (ensure (wdop_account_id op \<le> max_account_id) ''Withdraw account id is bigger than max supported'') (\<lambda>_.
    res_bind (expect (get_account s (wdop_account_id op))) (\<lambda>from_account.
      let from_old_balance = get_balance from_account token; from_old_nonce = acc_nonce from_account in
    res_bind (ensure (wd_nonce (wdop_tx op) = from_old_nonce) ''Nonce mismatch'') (\<lambda>_.
    res_bind (ensure (amount + fee \<le> from_old_balance) ''Not enough balance'') (\<lambda>_.
    res_bind (sub_balance from_account token (amount + fee)) (\<lambda>from_account.
      let from_account = from_account\<lparr>acc_nonce := acc_nonce from_account + 1\<rparr>;
          from_new_balance = get_balance from_account token; from_new_nonce = acc_nonce from_account
      in Ok ((Some \<lparr>cf_token = token, cf_amount = fee\<rparr>,
          [(wdop_account_id op, UpdateBalance from_old_nonce from_new_nonce (token, from_old_balance, from_new_balance))]),
          insert_account (wdop_account_id op) from_account s)))))))"

definition withdraw_apply_tx :: "crypto \<Rightarrow> zk_state \<Rightarrow> withdraw \<Rightarrow> (error, op_success \<times> zk_state) res" where
  "withdraw_apply_tx c s tx = res_bind (withdraw_create_op c s tx) (\<lambda>op.
    res_map (applied_success (OpWithdraw op)) (withdraw_apply_op s op))"

section \<open>ChangePubKey\<close>

definition change_pub_key_create_op :: "crypto \<Rightarrow> zk_state \<Rightarrow> change_pub_key \<Rightarrow> (error, change_pub_key_op) res" where
  "change_pub_key_create_op c s tx =
    res_bind (get_account_by_address s (cp_account tx)) (\<lambda>r.
    res_bind (ok_or r ''Account does not exist'') (\<lambda>(account_id, account).
    res_bind (ensure (cp_eth_signature tx = None \<or> verify_eth_signature c tx = Some (acc_address account))
      ''ChangePubKey Ethereum signature is incorrect'') (\<lambda>_.
    res_bind (no_err (change_pub_key_verify_signature c tx)) (\<lambda>signer.
    res_bind (ensure (signer = Some (cp_new_pk_hash tx)) ''ChangePubKey zkSync signature is incorrect'') (\<lambda>_.
    res_bind (ensure (account_id = cp_account_id tx) ''ChangePubKey account id is incorrect'') (\<lambda>_.
    res_bind (ensure (account_id \<le> max_account_id) ''ChangePubKey account id is bigger than max supported'') (\<lambda>_.
      Ok \<lparr>cpop_tx = tx, cpop_account_id = account_id\<rparr>)))))))"

definition change_pub_key_apply_op :: "zk_state \<Rightarrow> change_pub_key_op \<Rightarrow> (error, applied) res" where
  "change_pub_key_apply_op s op =
    (let tx = cpop_tx op; token = cp_fee_token tx; fee = cp_fee tx in
    res_bind (expect (get_account s (cpop_account_id op))) (\<lambda>account.
      let old_balance = get_balance account token; old_pub_key_hash = acc_pub_key_hash account;
          old_nonce = acc_nonce account in
    res_bind (ensure (cp_nonce tx = acc_nonce account) ''Nonce mismatch'') (\<lambda>_.
      let account = account\<lparr>acc_nonce := acc_nonce account + 1\<rparr>;
          account = account\<lparr>acc_pub_key_hash := cp_new_pk_hash tx\<rparr> in
    res_bind (ensure (fee \<le> old_balance) ''Not enough balance'') (\<lambda>_.
    res_bind (sub_balance account token fee) (\<lambda>account.
      let new_pub_key_hash = acc_pub_key_hash account; new_nonce = acc_nonce account;
          new_balance = get_balance account token
      in Ok ((Some \<lparr>cf_token = token, cf_amount = fee\<rparr>,
          [(cpop_account_id op, ChangePubKeyHash old_pub_key_hash new_pub_key_hash old_nonce new_nonce),
           (cpop_account_id op, UpdateBalance new_nonce new_nonce (token, old_balance, new_balance))]),
          insert_account (cpop_account_id op) account s))))))"

definition change_pub_key_apply_tx :: "crypto \<Rightarrow> zk_state \<Rightarrow> change_pub_key \<Rightarrow> (error, op_success \<times> zk_state) res" where
  "change_pub_key_apply_tx c s tx = res_bind (change_pub_key_create_op c s tx) (\<lambda>op.
    res_map (applied_success (OpChangePubKey op)) (change_pub_key_apply_op s op))"

section \<open>ForcedExit\<close>

definition forced_exit_create_op :: "crypto \<Rightarrow> zk_state \<Rightarrow> forced_exit \<Rightarrow> (error, forced_exit_op) res" where
  "forced_exit_create_op c s tx =
    res_bind (ok_or (get_account s (fe_initiator_account_id tx)) ''Initiator account does not exist'') (\<lambda>initiator_account.
    res_bind (no_err (forced_exit_verify_signature c tx)) (\<lambda>signer.
    res_bind (ensure (signer = Some (acc_pub_key_hash initiator_account)) ''ForcedExit signature is incorrect'') (\<lambda>_.
    res_bind (ensure (fe_token tx \<le> max_token_id) ''Token id is not supported'') (\<lambda>_.
    res_bind (get_account_by_address s (fe_target tx)) (\<lambda>r.
    res_bind (ok_or r ''Target account does not exist'') (\<lambda>(target_account_id, account).
    res_bind (ensure (acc_pub_key_hash account = 0) ''Target account is not locked; forced exit is forbidden'') (\<lambda>_.
      let account_balance =
        (case get_account s target_account_id of
           Some account \<Rightarrow> if acc_address account = fe_target tx then Some (get_balance account (fe_token tx)) else None
         | None \<Rightarrow> None)
      in Ok \<lparr>feop_tx = tx, feop_target_account_id = target_account_id,
             feop_withdraw_amount = account_balance\<rparr>)))))))"

definition forced_exit_apply_op :: "zk_state \<Rightarrow> forced_exit_op \<Rightarrow> (error, applied) res" where
  "forced_exit_apply_op s op =
    (let tx = feop_tx op; token = fe_token tx; fee = fe_fee tx;
         initiator_account_id = fe_initiator_account_id tx; target_account_id = feop_target_account_id op in
    res_bind (ensure (initiator_account_id \<le> max_account_id) ''Incorrect initiator account ID'') (\<lambda>_.
    res_bind (expect (get_account s initiator_account_id)) (\<lambda>initiator_account.
    res_bind (expect (get_account s target_account_id)) (\<lambda>target_account.
      let amount = (case feop_withdraw_amount op of Some a \<Rightarrow> a | None \<Rightarrow> 0);
          initiator_old_balance = get_balance initiator_account token;
          initiator_old_nonce = acc_nonce initiator_account in
    res_bind (ensure (fe_nonce tx = initiator_old_nonce) ''Nonce mismatch'') (\<lambda>_.
    res_bind (ensure (fee \<le> initiator_old_balance) ''Initiator account: Not enough balance to cover fees'') (\<lambda>_.
      let target_old_balance = get_balance target_account token in
    res_bind (ensure (target_old_balance = amount)
      ''Target account: Target account balance is not equal to the withdrawal amount'') (\<lambda>_.
    res_bind (sub_balance initiator_account token fee) (\<lambda>initiator_account.
      let initiator_account = initiator_account\<lparr>acc_nonce := acc_nonce initiator_account + 1\<rparr> in
    res_bind (sub_balance target_account token amount) (\<lambda>target_account.
      let initiator_new_balance = get_balance initiator_account token;
          initiator_new_nonce = acc_nonce initiator_account;
          target_new_balance = get_balance target_account token;
          target_nonce = acc_nonce target_account
      in Ok ((Some \<lparr>cf_token = token, cf_amount = fee\<rparr>,
          [(initiator_account_id, UpdateBalance initiator_old_nonce initiator_new_nonce
              (token, initiator_old_balance, initiator_new_balance)),
           (target_account_id, UpdateBalance target_nonce target_nonce
              (token, target_old_balance, target_new_balance))]),
          insert_account target_account_id target_account
            (insert_account initiator_account_id initiator_account s)))))))))))"

definition forced_exit_apply_tx :: "crypto \<Rightarrow> zk_state \<Rightarrow> forced_exit \<Rightarrow> (error, op_success \<times> zk_state) res" where
  "forced_exit_apply_tx c s tx = res_bind (forced_exit_create_op c s tx) (\<lambda>op.
    res_map (applied_success (OpForcedExit op)) (forced_exit_apply_op s op))"

section \<open>Close\<close>

definition close_create_op :: "zk_state \<Rightarrow> close \<Rightarrow> (error, close_op) res" where
  "close_create_op s tx = Panic"

definition close_apply_tx :: "zk_state \<Rightarrow> close \<Rightarrow> (error, op_success \<times> zk_state) res" where
  "close_apply_tx s tx = Err ''Account closing is disabled''"

definition close_apply_op :: "zk_state \<Rightarrow> close_op \<Rightarrow> (error, applied) res" where
  "close_apply_op s op =
    res_bind (ensure (clop_account_id op \<le> max_account_id) ''Close account id is bigger than max supported'') (\<lambda>_.
    res_bind (expect (get_account s (clop_account_id op))) (\<lambda>account.
    res_bind (ensure (list_all (\<lambda>token. get_balance account (of_nat token) = 0) [0..<total_tokens])
      ''Account is not empty'') (\<lambda>_.
    res_bind (ensure (cl_nonce (clop_tx op) = acc_nonce account) ''Nonce mismatch'') (\<lambda>_.
      Ok ((Some \<lparr>cf_token = ETH_TOKEN_ID, cf_amount = 0\<rparr>,
          [(clop_account_id op, Delete (acc_address account) (acc_nonce account))]),
          remove_account (clop_account_id op) s)))))"

section \<open>Deposit and FullExit\<close>

definition deposit_create_op :: "zk_state \<Rightarrow> deposit \<Rightarrow> (error, deposit_op) res" where
  "deposit_create_op s d =
    res_bind (assert_that (dep_token d \<le> max_token_id)) (\<lambda>_.
    res_bind (get_account_by_address s (dep_to d)) (\<lambda>r.
      let account_id = (case r of Some (account_id, _) \<Rightarrow> account_id | None \<Rightarrow> get_free_account_id s)
      in Ok \<lparr>depop_priority_op = d, depop_account_id = account_id\<rparr>))"

definition deposit_apply_op :: "zk_state \<Rightarrow> deposit_op \<Rightarrow> (error, applied) res" where
  "deposit_apply_op s op =
    (let d = depop_priority_op op;
         (account, updates) =
           (case get_account s (depop_account_id op) of
              Some account \<Rightarrow> (account, [])
            | None \<Rightarrow> create_account (depop_account_id op) (dep_to d));
         old_amount = get_balance account (dep_token d); old_nonce = acc_nonce account;
         account = add_balance account (dep_token d) (dep_amount d);
         new_amount = get_balance account (dep_token d)
     in Ok ((None, updates @ [(depop_account_id op, UpdateBalance old_nonce old_nonce (dep_token d, old_amount, new_amount))]),
          insert_account (depop_account_id op) account s))"

definition deposit_apply_tx :: "zk_state \<Rightarrow> deposit \<Rightarrow> (error, op_success \<times> zk_state) res" where
  "deposit_apply_tx s d = res_bind (deposit_create_op s d) (\<lambda>op.
    res_map (applied_success (OpDeposit op)) (deposit_apply_op s op))"

definition full_exit_create_op :: "zk_state \<Rightarrow> full_exit \<Rightarrow> (error, full_exit_op) res" where
  "full_exit_create_op s f =
    res_bind (assert_that (fx_token f \<le> max_token_id)) (\<lambda>_.
      let account_balance =
        (case get_account s (fx_account_id f) of
           Some account \<Rightarrow> if acc_address account = fx_eth_address f then Some (get_balance account (fx_token f)) else None
         | None \<Rightarrow> None)
      in Ok \<lparr>fxop_priority_op = f, fxop_withdraw_amount = account_balance\<rparr>)"

definition full_exit_apply_op :: "zk_state \<Rightarrow> full_exit_op \<Rightarrow> (error, applied) res" where
  "full_exit_apply_op s op =
    (case fxop_withdraw_amount op of
       None \<Rightarrow> Ok ((None, []), s)
     | Some amount \<Rightarrow>
         let account_id = fx_account_id (fxop_priority_op op); token = fx_token (fxop_priority_op op) in
         res_bind (expect (get_account s account_id)) (\<lambda>account.
           let old_balance = get_balance account token; old_nonce = acc_nonce account in
         res_bind (sub_balance account token amount) (\<lambda>account.
           let new_balance = get_balance account token in
         res_bind (assert_that (new_balance = 0)) (\<lambda>_.
           let new_nonce = acc_nonce account
           in Ok ((None, [(account_id, UpdateBalance old_nonce new_nonce (token, old_balance, new_balance))]),
               insert_account account_id account s)))))"

definition full_exit_apply_tx :: "zk_state \<Rightarrow> full_exit \<Rightarrow> (error, op_success \<times> zk_state) res" where
  "full_exit_apply_tx s f = res_bind (full_exit_create_op s f) (\<lambda>op.
    res_map (applied_success (OpFullExit op)) (full_exit_apply_op s op))"

section \<open>Executing transactions and applying updates\<close>

definition execute_tx :: "crypto \<Rightarrow> zk_state \<Rightarrow> zksync_tx \<Rightarrow> (error, op_success \<times> zk_state) res" where
  "execute_tx c s tx =
    (case tx of
       TxTransfer t \<Rightarrow> transfer_apply_tx c s t
     | TxWithdraw t \<Rightarrow> withdraw_apply_tx c s t
     | TxClose t \<Rightarrow> close_apply_tx s t
     | TxChangePubKey t \<Rightarrow> change_pub_key_apply_tx c s t
     | TxForcedExit t \<Rightarrow> forced_exit_apply_tx c s t)"

text \<open>Priority operations are expected to succeed.\<close>

definition execute_priority_op :: "zk_state \<Rightarrow> priority_op_data \<Rightarrow> ('e, op_success \<times> zk_state) res" where
  "execute_priority_op s op =
    unwrap (case op of PrioDeposit d \<Rightarrow> deposit_apply_tx s d | PrioFullExit f \<Rightarrow> full_exit_apply_tx s f)"

definition apply_account_update :: "zk_state \<Rightarrow> account_id \<times> account_update \<Rightarrow> ('e, zk_state) res" where
  "apply_account_update s iu =
    (let account_id = fst iu in
     case snd iu of
       Create addr n \<Rightarrow>
         res_bind (get_account_by_address s addr) (\<lambda>r.
         res_bind (assert_that (r = None)) (\<lambda>_.
           Ok (insert_account account_id (default_account\<lparr>acc_address := addr, acc_nonce := n\<rparr>) s)))
     | Delete addr n \<Rightarrow>
         res_bind (expect (get_account s account_id)) (\<lambda>account.
         res_bind (assert_that (acc_address account = addr)) (\<lambda>_.
         res_bind (assert_that (acc_nonce account = n)) (\<lambda>_.
           Ok (remove_account account_id s))))
     | UpdateBalance old_nonce new_nonce (token, old_balance, new_balance) \<Rightarrow>
         res_bind (expect (get_account s account_id)) (\<lambda>account.
         res_bind (assert_that (get_balance account token = old_balance)) (\<lambda>_.
         res_bind (assert_that (acc_nonce account = old_nonce)) (\<lambda>_.
           Ok (insert_account account_id ((set_balance account token new_balance)\<lparr>acc_nonce := new_nonce\<rparr>) s))))
     | ChangePubKeyHash old_pub_key_hash new_pub_key_hash old_nonce new_nonce \<Rightarrow>
         res_bind (expect (get_account s account_id)) (\<lambda>account.
         res_bind (assert_that (acc_pub_key_hash account = old_pub_key_hash)) (\<lambda>_.
         res_bind (assert_that (acc_nonce account = old_nonce)) (\<lambda>_.
           Ok (insert_account account_id
             (account\<lparr>acc_pub_key_hash := new_pub_key_hash, acc_nonce := new_nonce\<rparr>) s)))))"

fun apply_account_updates :: "zk_state \<Rightarrow> account_updates \<Rightarrow> ('e, zk_state) res" where
  "apply_account_updates s [] = Ok s"
| "apply_account_updates s (iu # us) = res_bind (apply_account_update s iu) (\<lambda>s. apply_account_updates s us)"

text \<open>Undo the successes of a batch, the last first.\<close>

fun rollback :: "zk_state \<Rightarrow> op_success list \<Rightarrow> ('e, zk_state) res" where
  "rollback s [] = Ok s"
| "rollback s (success # successes) =
    res_bind (apply_account_updates s (reverse_updates (os_updates success))) (\<lambda>s. rollback s successes)"

definition batch_error :: "nat \<Rightarrow> error \<Rightarrow> error" where
  "batch_error i e = ''Batch execution failed, since tx #'' @ dec_string i
    @ '' of batch failed with a reason: '' @ e"

fun batch_loop ::
  "crypto \<Rightarrow> nat \<Rightarrow> nat \<Rightarrow> op_success list \<Rightarrow> zk_state \<Rightarrow> signed_tx list
    \<Rightarrow> (error, (error, op_success) res list \<times> zk_state) res" where
  "batch_loop c n i successes s [] = Ok (map Ok successes, s)"
| "batch_loop c n i successes s (tx # txs) =
    (case execute_tx c s (stx_tx tx) of
       Ok (success, s') \<Rightarrow> batch_loop c n (i + 1) (successes @ [success]) s' txs
     | Err e \<Rightarrow> res_map (\<lambda>s'. (replicate n (Err (batch_error (i + 1) e)), s')) (rollback s (rev successes))
     | Panic \<Rightarrow> Panic)"

definition execute_txs_batch ::
  "crypto \<Rightarrow> zk_state \<Rightarrow> signed_tx list \<Rightarrow> (error, (error, op_success) res list \<times> zk_state) res" where
  "execute_txs_batch c s txs = batch_loop c (size txs) 0 [] s txs"

text \<open>@collect_fee@: the loop over the fees, then the account is stored.\<close>

fun collect_fees :: "account_id \<Rightarrow> account \<Rightarrow> account_updates \<Rightarrow> collected_fee list \<Rightarrow> account \<times> account_updates" where
  "collect_fees fee_account account updates [] = (account, updates)"
| "collect_fees fee_account account updates (fee # fees) =
    (if cf_amount fee = 0 then collect_fees fee_account account updates fees
     else
       let old_amount = get_balance account (cf_token fee); n = acc_nonce account;
           account = add_balance account (cf_token fee) (cf_amount fee);
           new_amount = get_balance account (cf_token fee)
       in collect_fees fee_account account
            (updates @ [(fee_account, UpdateBalance n n (cf_token fee, old_amount, new_amount))]) fees)"

definition collect_fee :: "zk_state \<Rightarrow> collected_fee list \<Rightarrow> account_id \<Rightarrow> ('e, account_updates \<times> zk_state) res" where
  "collect_fee s fees fee_account =
    res_bind (expect (get_account s fee_account)) (\<lambda>account.
      let (account, updates) = collect_fees fee_account account [] fees
      in Ok (updates, insert_account fee_account account s))"

definition zksync_tx_to_zksync_op :: "crypto \<Rightarrow> zk_state \<Rightarrow> zksync_tx \<Rightarrow> (error, zksync_op) res" where
  "zksync_tx_to_zksync_op c s tx =
    (case tx of
       TxTransfer t \<Rightarrow> res_map into_franklin_op (transfer_create_op c s t)
     | TxWithdraw t \<Rightarrow> res_map OpWithdraw (withdraw_create_op c s t)
     | TxChangePubKey t \<Rightarrow> res_map OpChangePubKey (change_pub_key_create_op c s t)
     | TxClose t \<Rightarrow> Err ''Close op is disabled''
     | TxForcedExit t \<Rightarrow> res_map OpForcedExit (forced_exit_create_op c s t))"

definition priority_op_to_zksync_op :: "zk_state \<Rightarrow> priority_op_data \<Rightarrow> ('e, zksync_op) res" where
  "priority_op_to_zksync_op s op =
    unwrap (case op of PrioDeposit d \<Rightarrow> res_map OpDeposit (deposit_create_op s d)
      | PrioFullExit f \<Rightarrow> res_map OpFullExit (full_exit_create_op s f))"

section \<open>Accounts of a state\<close>

named_theorems state_simps \<open>reading an updated state\<close>

lemma get_account_insert [state_simps]:
  "get_account (insert_account i a s) j = (if j = i then Some a else get_account s j)"
  by (simp add: get_account_def tree_get_def insert_account_def)

lemma zs_index_insert [state_simps]:
  "zs_index (insert_account i a s) = fmupd (acc_address a) i (zs_index s)"
  by (simp add: insert_account_def)

lemma zs_items_insert [state_simps]: "zs_items (insert_account i a s) = fmupd i a (zs_items s)"
  by (simp add: insert_account_def)

lemma get_account_remove [state_simps]:
  "get_account (remove_account i s) j
    = (if j = i \<and> get_account s i \<noteq> None then Some default_account else get_account s j)"
  by (auto simp: get_account_def tree_get_def remove_account_def tree_remove_def split: option.split)

lemma zs_items_get: "fmlookup (zs_items s) i = get_account s i"
  by (simp add: get_account_def tree_get_def)

lemma get_balance_set_same [simp]: "get_balance (set_balance a t x) t = x"
  by (simp add: account_simps)

section \<open>When handlers succeed\<close>

lemma apply_transfer_op_to_self_Ok:
  "apply_transfer_op_to_self s op = Ok r \<longleftrightarrow>
    trop_from op \<le> max_account_id \<and> trop_from op = trop_to op \<and>
    (\<exists>a. get_account s (trop_from op) = Some a \<and> tr_nonce (trop_tx op) = acc_nonce a \<and>
      (let t = tr_token (trop_tx op); fee = tr_fee (trop_tx op); b = get_balance a t in
       tr_amount (trop_tx op) + fee \<le> b \<and>
       r = ((Some \<lparr>cf_token = t, cf_amount = fee\<rparr>,
           [(trop_from op, UpdateBalance (acc_nonce a) (acc_nonce a + 1) (t, b, b - fee))]),
           insert_account (trop_from op) ((set_balance a t (b - fee))\<lparr>acc_nonce := acc_nonce a + 1\<rparr>) s)))"
  by (auto simp: apply_transfer_op_to_self_def Let_def ok_iffs sub_balance_Ok account_simps)

lemma apply_transfer_op_Ok:
  "apply_transfer_op s op = Ok r \<longleftrightarrow>
    trop_from op \<le> max_account_id \<and> trop_to op \<le> max_account_id \<and>
    (if trop_from op = trop_to op then apply_transfer_op_to_self s op = Ok r
     else \<exists>a b. get_account s (trop_from op) = Some a \<and> get_account s (trop_to op) = Some b \<and>
       tr_nonce (trop_tx op) = acc_nonce a \<and>
      (let t = tr_token (trop_tx op); amount = tr_amount (trop_tx op); fee = tr_fee (trop_tx op);
           x = get_balance a t; y = get_balance b t in
       amount + fee \<le> x \<and>
       r = ((Some \<lparr>cf_token = t, cf_amount = fee\<rparr>,
           [(trop_from op, UpdateBalance (acc_nonce a) (acc_nonce a + 1) (t, x, x - (amount + fee))),
            (trop_to op, UpdateBalance (acc_nonce b) (acc_nonce b) (t, y, y + amount))]),
           insert_account (trop_to op) (add_balance b t amount)
             (insert_account (trop_from op)
               ((set_balance a t (x - (amount + fee)))\<lparr>acc_nonce := acc_nonce a + 1\<rparr>) s))))"
  by (cases "trop_from op = trop_to op")
    (auto simp: apply_transfer_op_def Let_def ok_iffs sub_balance_Ok account_simps)

lemma apply_transfer_to_new_op_Ok:
  "apply_transfer_to_new_op s op = Ok r \<longleftrightarrow>
    tnop_from op \<le> max_account_id \<and> tnop_to op \<le> max_account_id \<and> get_account s (tnop_to op) = None \<and>
    (\<exists>a. get_account s (tnop_from op) = Some a \<and> tr_nonce (tnop_tx op) = acc_nonce a \<and>
      (let t = tr_token (tnop_tx op); amount = tr_amount (tnop_tx op); fee = tr_fee (tnop_tx op);
           x = get_balance a t in
       amount + fee \<le> x \<and>
       r = ((Some \<lparr>cf_token = t, cf_amount = fee\<rparr>,
           [(tnop_to op, Create (tr_to (tnop_tx op)) 0),
            (tnop_from op, UpdateBalance (acc_nonce a) (acc_nonce a + 1) (t, x, x - (amount + fee))),
            (tnop_to op, UpdateBalance 0 0 (t, 0, amount))]),
           insert_account (tnop_to op) (add_balance (default_with_address (tr_to (tnop_tx op))) t amount)
             (insert_account (tnop_from op)
               ((set_balance a t (x - (amount + fee)))\<lparr>acc_nonce := acc_nonce a + 1\<rparr>) s))))"
  by (auto simp: apply_transfer_to_new_op_def Let_def ok_iffs sub_balance_Ok account_simps
      create_account_def default_with_address_def)

lemma withdraw_apply_op_Ok:
  "withdraw_apply_op s op = Ok r \<longleftrightarrow> wdop_account_id op \<le> max_account_id \<and>
    (\<exists>a. get_account s (wdop_account_id op) = Some a \<and> wd_nonce (wdop_tx op) = acc_nonce a \<and>
      (let t = wd_token (wdop_tx op); amount = wd_amount (wdop_tx op); fee = wd_fee (wdop_tx op);
           x = get_balance a t in
       amount + fee \<le> x \<and>
       r = ((Some \<lparr>cf_token = t, cf_amount = fee\<rparr>,
           [(wdop_account_id op, UpdateBalance (acc_nonce a) (acc_nonce a + 1) (t, x, x - (amount + fee)))]),
           insert_account (wdop_account_id op)
             ((set_balance a t (x - (amount + fee)))\<lparr>acc_nonce := acc_nonce a + 1\<rparr>) s)))"
  by (auto simp: withdraw_apply_op_def Let_def ok_iffs sub_balance_Ok account_simps)

lemma change_pub_key_apply_op_Ok:
  "change_pub_key_apply_op s op = Ok r \<longleftrightarrow>
    (\<exists>a. get_account s (cpop_account_id op) = Some a \<and> cp_nonce (cpop_tx op) = acc_nonce a \<and>
      (let t = cp_fee_token (cpop_tx op); fee = cp_fee (cpop_tx op); h = cp_new_pk_hash (cpop_tx op);
           x = get_balance a t; n = acc_nonce a + 1 in
       fee \<le> x \<and>
       r = ((Some \<lparr>cf_token = t, cf_amount = fee\<rparr>,
           [(cpop_account_id op, ChangePubKeyHash (acc_pub_key_hash a) h (acc_nonce a) n),
            (cpop_account_id op, UpdateBalance n n (t, x, x - fee))]),
           insert_account (cpop_account_id op)
             (set_balance (a\<lparr>acc_nonce := n, acc_pub_key_hash := h\<rparr>) t (x - fee)) s)))"
  by (auto simp: change_pub_key_apply_op_def Let_def ok_iffs sub_balance_Ok account_simps)

lemma forced_exit_apply_op_Ok:
  "forced_exit_apply_op s op = Ok r \<longleftrightarrow> fe_initiator_account_id (feop_tx op) \<le> max_account_id \<and>
    (\<exists>a b. get_account s (fe_initiator_account_id (feop_tx op)) = Some a \<and>
      get_account s (feop_target_account_id op) = Some b \<and> fe_nonce (feop_tx op) = acc_nonce a \<and>
      (let t = fe_token (feop_tx op); fee = fe_fee (feop_tx op); x = get_balance a t; y = get_balance b t in
       fee \<le> x \<and> y = (case feop_withdraw_amount op of Some w \<Rightarrow> w | None \<Rightarrow> 0) \<and>
       r = ((Some \<lparr>cf_token = t, cf_amount = fee\<rparr>,
           [(fe_initiator_account_id (feop_tx op), UpdateBalance (acc_nonce a) (acc_nonce a + 1) (t, x, x - fee)),
            (feop_target_account_id op, UpdateBalance (acc_nonce b) (acc_nonce b) (t, y, 0))]),
           insert_account (feop_target_account_id op) (set_balance b t 0)
             (insert_account (fe_initiator_account_id (feop_tx op))
               ((set_balance a t (x - fee))\<lparr>acc_nonce := acc_nonce a + 1\<rparr>) s))))"
  by (auto simp: forced_exit_apply_op_def Let_def ok_iffs sub_balance_Ok account_simps)

lemma deposit_apply_op_Ok:
  "deposit_apply_op s op = Ok r \<longleftrightarrow>
    (let d = depop_priority_op op; i = depop_account_id op; t = dep_token d in
     case get_account s i of
       Some a \<Rightarrow> r = ((None, [(i, UpdateBalance (acc_nonce a) (acc_nonce a)
           (t, get_balance a t, get_balance a t + dep_amount d))]),
         insert_account i (add_balance a t (dep_amount d)) s)
     | None \<Rightarrow> r = ((None, [(i, Create (dep_to d) 0), (i, UpdateBalance 0 0 (t, 0, dep_amount d))]),
         insert_account i (add_balance (default_with_address (dep_to d)) t (dep_amount d)) s))"
  by (auto simp: deposit_apply_op_def Let_def account_simps create_account_def default_with_address_def
      split: option.splits)

lemma full_exit_apply_op_Ok:
  "full_exit_apply_op s op = Ok r \<longleftrightarrow>
    (case fxop_withdraw_amount op of
       None \<Rightarrow> r = ((None, []), s)
     | Some w \<Rightarrow> (\<exists>a. get_account s (fx_account_id (fxop_priority_op op)) = Some a \<and>
         (let i = fx_account_id (fxop_priority_op op); t = fx_token (fxop_priority_op op); x = get_balance a t in
          w = x \<and> r = ((None, [(i, UpdateBalance (acc_nonce a) (acc_nonce a) (t, x, 0))]),
            insert_account i (set_balance a t 0) s))))"
  by (auto simp: full_exit_apply_op_def Let_def ok_iffs sub_balance_Ok account_simps split: option.splits)

lemmas apply_op_Ok = apply_transfer_op_Ok apply_transfer_op_to_self_Ok apply_transfer_to_new_op_Ok
  withdraw_apply_op_Ok change_pub_key_apply_op_Ok forced_exit_apply_op_Ok deposit_apply_op_Ok
  full_exit_apply_op_Ok

section \<open>Updates replay the change\<close>

definition state_view :: "zk_state \<Rightarrow> account_id \<Rightarrow> account_view option" where
  "state_view s = map_view (zs_items s)"

lemma state_view_get: "state_view s i = map_option account_view (get_account s i)"
  by (simp add: state_view_def map_view_def zs_items_get)

lemma state_view_insert: "state_view (insert_account i a s) = (state_view s)(i := Some (account_view a))"
  by (simp add: state_view_def state_simps map_view_fmupd)

lemma account_view_parts:
  "account_view a = (acc_address a, acc_pub_key_hash a, acc_nonce a, get_balance a)"
  by (simp add: account_view_def)

lemma get_balance_fun [account_simps]:
  "get_balance (set_balance a t x) = (get_balance a)(t := x)"
  "get_balance (add_balance a t x) = (get_balance a)(t := get_balance a t + x)"
  "get_balance (a\<lparr>acc_nonce := n\<rparr>) = get_balance a"
  "get_balance (a\<lparr>acc_pub_key_hash := h\<rparr>) = get_balance a"
  "get_balance (a\<lparr>acc_address := ad\<rparr>) = get_balance a"
  "get_balance (default_with_address ad) = (\<lambda>t. 0)"
  "get_balance default_account = (\<lambda>t. 0)"
  by (auto simp: fun_eq_iff account_simps)

text \<open>The updates of a success fit the old state and lead from it to the new one.\<close>

definition replays :: "zk_state \<Rightarrow> account_updates \<Rightarrow> zk_state \<Rightarrow> bool" where
  "replays s us s' \<longleftrightarrow> updates_fit (state_view s) us \<and> views_update (state_view s) us = state_view s'"

lemma transfer_to_self_replays:
  "apply_transfer_op_to_self s op = Ok ((fee, us), s') \<Longrightarrow> replays s us s'"
  by (auto simp: apply_op_Ok Let_def replays_def view_step_def state_view_get state_view_insert
      account_view_parts account_simps)

lemma transfer_replays:
  assumes "apply_transfer_op s op = Ok ((fee, us), s')"
  shows "replays s us s'"
proof (cases "trop_from op = trop_to op")
  case True
  then show ?thesis
    using assms by (auto simp: apply_transfer_op_Ok intro: transfer_to_self_replays)
next
  case False
  then show ?thesis
    using assms
    by (auto simp: apply_transfer_op_Ok Let_def replays_def view_step_def state_view_get state_view_insert
        account_view_parts account_simps)
qed

lemma transfer_to_new_replays:
  assumes "apply_transfer_to_new_op s op = Ok ((fee, us), s')"
  shows "replays s us s'"
proof -
  have "tnop_from op \<noteq> tnop_to op"
    using assms by (auto simp: apply_op_Ok)
  then show ?thesis
    using assms by (auto simp: apply_op_Ok Let_def replays_def view_step_def state_view_get state_view_insert
        account_view_parts account_simps fun_upd_twist)
qed

lemma withdraw_replays: "withdraw_apply_op s op = Ok ((fee, us), s') \<Longrightarrow> replays s us s'"
  by (auto simp: apply_op_Ok Let_def replays_def view_step_def state_view_get state_view_insert
      account_view_parts account_simps)

lemma change_pub_key_replays: "change_pub_key_apply_op s op = Ok ((fee, us), s') \<Longrightarrow> replays s us s'"
  by (auto simp: apply_op_Ok Let_def replays_def view_step_def state_view_get state_view_insert
      account_view_parts account_simps)

lemma deposit_replays: "deposit_apply_op s op = Ok ((fee, us), s') \<Longrightarrow> replays s us s'"
  by (auto simp: apply_op_Ok Let_def replays_def view_step_def state_view_get state_view_insert
      account_view_parts account_simps split: option.splits)

lemma full_exit_replays: "full_exit_apply_op s op = Ok ((fee, us), s') \<Longrightarrow> replays s us s'"
  by (auto simp: apply_op_Ok Let_def replays_def view_step_def state_view_get state_view_insert
      account_view_parts account_simps split: option.splits)

lemma forced_exit_replays:
  assumes "forced_exit_apply_op s op = Ok ((fee, us), s')"
    "fe_initiator_account_id (feop_tx op) \<noteq> feop_target_account_id op"
  shows "replays s us s'"
  using assms by (auto simp: forced_exit_apply_op_Ok Let_def replays_def view_step_def state_view_get
      state_view_insert account_view_parts account_simps)

lemma get_account_by_address_Ok:
  "get_account_by_address s addr = Ok r \<longleftrightarrow>
    (case fmlookup (zs_index s) addr of None \<Rightarrow> r = None
     | Some i \<Rightarrow> (\<exists>a. get_account s i = Some a \<and> r = Some (i, a)))"
  by (auto simp: get_account_by_address_def ok_iffs split: option.split)

lemma no_err_Ok [simp]: "no_err r = Ok x \<longleftrightarrow> r = Ok x"
  by (cases r) auto

lemma transfer_create_op_Ok:
  "transfer_create_op c s tx = Ok op \<longleftrightarrow>
    tr_token tx \<le> max_token_id \<and> tr_to tx \<noteq> 0 \<and>
    (\<exists>a. get_account s (tr_account_id tx) = Some a \<and> acc_pub_key_hash a \<noteq> 0 \<and>
      fmlookup (zs_index s) (tr_from tx) = Some (tr_account_id tx) \<and>
      transfer_verify_signature c tx = Ok (Some (acc_pub_key_hash a))) \<and>
    (case fmlookup (zs_index s) (tr_to tx) of
       Some i \<Rightarrow> get_account s i \<noteq> None \<and>
         op = OutcomeTransfer \<lparr>trop_tx = tx, trop_from = tr_account_id tx, trop_to = i\<rparr>
     | None \<Rightarrow> op = OutcomeTransferToNew
         \<lparr>tnop_tx = tx, tnop_from = tr_account_id tx, tnop_to = get_free_account_id s\<rparr>)"
  by (cases "fmlookup (zs_index s) (tr_from tx)"; cases "fmlookup (zs_index s) (tr_to tx)";
      cases "get_account s (the (fmlookup (zs_index s) (tr_to tx)))")
    (auto simp: transfer_create_op_def ok_iffs get_account_by_address_def)

lemma withdraw_create_op_Ok:
  "withdraw_create_op c s tx = Ok op \<longleftrightarrow>
    wd_token tx \<le> max_token_id \<and>
    (\<exists>a. get_account s (wd_account_id tx) = Some a \<and> acc_pub_key_hash a \<noteq> 0 \<and>
      fmlookup (zs_index s) (wd_from tx) = Some (wd_account_id tx) \<and>
      withdraw_verify_signature c tx = Ok (Some (acc_pub_key_hash a))) \<and>
    op = \<lparr>wdop_tx = tx, wdop_account_id = wd_account_id tx\<rparr>"
  by (auto simp: withdraw_create_op_def ok_iffs get_account_by_address_Ok split: option.splits)

lemma change_pub_key_create_op_Ok:
  "change_pub_key_create_op c s tx = Ok op \<longleftrightarrow>
    cp_account_id tx \<le> max_account_id \<and>
    (\<exists>a. get_account s (cp_account_id tx) = Some a \<and>
      fmlookup (zs_index s) (cp_account tx) = Some (cp_account_id tx) \<and>
      (cp_eth_signature tx = None \<or> verify_eth_signature c tx = Some (acc_address a))) \<and>
    change_pub_key_verify_signature c tx = Ok (Some (cp_new_pk_hash tx)) \<and>
    op = \<lparr>cpop_tx = tx, cpop_account_id = cp_account_id tx\<rparr>"
  by (auto simp: change_pub_key_create_op_def ok_iffs get_account_by_address_Ok split: option.splits)

lemma forced_exit_create_op_Ok:
  "forced_exit_create_op c s tx = Ok op \<longleftrightarrow>
    fe_token tx \<le> max_token_id \<and>
    (\<exists>a. get_account s (fe_initiator_account_id tx) = Some a \<and>
      forced_exit_verify_signature c tx = Ok (Some (acc_pub_key_hash a))) \<and>
    (\<exists>i b. fmlookup (zs_index s) (fe_target tx) = Some i \<and> get_account s i = Some b \<and>
      acc_pub_key_hash b = 0 \<and>
      op = \<lparr>feop_tx = tx, feop_target_account_id = i, feop_withdraw_amount =
        (if acc_address b = fe_target tx then Some (get_balance b (fe_token tx)) else None)\<rparr>)"
  by (cases "fmlookup (zs_index s) (fe_target tx)";
      cases "get_account s (the (fmlookup (zs_index s) (fe_target tx)))")
    (auto simp: forced_exit_create_op_def ok_iffs get_account_by_address_def Let_def)

lemma deposit_create_op_Ok:
  "deposit_create_op s d = Ok op \<longleftrightarrow> dep_token d \<le> max_token_id \<and>
    (case fmlookup (zs_index s) (dep_to d) of
       Some i \<Rightarrow> get_account s i \<noteq> None \<and> op = \<lparr>depop_priority_op = d, depop_account_id = i\<rparr>
     | None \<Rightarrow> op = \<lparr>depop_priority_op = d, depop_account_id = get_free_account_id s\<rparr>)"
  by (auto simp: deposit_create_op_def ok_iffs get_account_by_address_Ok Let_def split: option.splits)

lemma full_exit_create_op_Ok:
  "full_exit_create_op s f = Ok op \<longleftrightarrow> fx_token f \<le> max_token_id \<and>
    op = \<lparr>fxop_priority_op = f, fxop_withdraw_amount =
      (case get_account s (fx_account_id f) of
         Some a \<Rightarrow> if acc_address a = fx_eth_address f then Some (get_balance a (fx_token f)) else None
       | None \<Rightarrow> None)\<rparr>"
  by (auto simp: full_exit_create_op_def ok_iffs Let_def)

lemmas create_op_Ok = transfer_create_op_Ok withdraw_create_op_Ok change_pub_key_create_op_Ok
  forced_exit_create_op_Ok deposit_create_op_Ok full_exit_create_op_Ok

lemma applied_success_eq:
  "(succ, s') = applied_success op r \<longleftrightarrow>
    (\<exists>fee us. r = ((fee, us), s') \<and> succ = \<lparr>os_fee = fee, os_updates = us, os_executed_op = op\<rparr>)"
  by (cases r) (auto simp: applied_success_def)

text \<open>How the execution of a transaction succeeds: its operation was created and applied.\<close>

lemma execute_tx_Ok:
  "execute_tx c s tx = Ok (succ, s') \<longleftrightarrow>
    (\<exists>fee us op. succ = \<lparr>os_fee = fee, os_updates = us, os_executed_op = op\<rparr> \<and>
      (case tx of
         TxTransfer t \<Rightarrow> (\<exists>o'. transfer_create_op c s t = Ok o' \<and> op = into_franklin_op o' \<and>
           transfer_apply_op s o' = Ok ((fee, us), s'))
       | TxWithdraw t \<Rightarrow> (\<exists>o'. withdraw_create_op c s t = Ok o' \<and> op = OpWithdraw o' \<and>
           withdraw_apply_op s o' = Ok ((fee, us), s'))
       | TxClose t \<Rightarrow> False
       | TxChangePubKey t \<Rightarrow> (\<exists>o'. change_pub_key_create_op c s t = Ok o' \<and> op = OpChangePubKey o' \<and>
           change_pub_key_apply_op s o' = Ok ((fee, us), s'))
       | TxForcedExit t \<Rightarrow> (\<exists>o'. forced_exit_create_op c s t = Ok o' \<and> op = OpForcedExit o' \<and>
           forced_exit_apply_op s o' = Ok ((fee, us), s'))))"
  by (cases tx) (auto simp: execute_tx_def transfer_apply_tx_def withdraw_apply_tx_def close_apply_tx_def
      change_pub_key_apply_tx_def forced_exit_apply_tx_def ok_iffs applied_success_eq)

lemma execute_priority_op_Ok:
  "execute_priority_op s p = Ok (succ, s') \<longleftrightarrow>
    (\<exists>fee us op. succ = \<lparr>os_fee = fee, os_updates = us, os_executed_op = op\<rparr> \<and>
      (case p of
         PrioDeposit d \<Rightarrow> (\<exists>o'. deposit_create_op s d = Ok o' \<and> op = OpDeposit o' \<and>
           deposit_apply_op s o' = Ok ((fee, us), s'))
       | PrioFullExit f \<Rightarrow> (\<exists>o'. full_exit_create_op s f = Ok o' \<and> op = OpFullExit o' \<and>
           full_exit_apply_op s o' = Ok ((fee, us), s'))))"
  by (cases p) (auto simp: execute_priority_op_def deposit_apply_tx_def full_exit_apply_tx_def ok_iffs
      applied_success_eq)

text \<open>The forced exit of the initiator's own account is only conceivable for a key hash of zero.\<close>

fun signer_nonzero :: "crypto \<Rightarrow> zksync_tx \<Rightarrow> bool" where
  "signer_nonzero c (TxForcedExit tx) = (forced_exit_verify_signature c tx \<noteq> Ok (Some 0))"
| "signer_nonzero c tx = True"

lemma execute_tx_replays:
  assumes "execute_tx c s tx = Ok (succ, s')" "signer_nonzero c tx"
  shows "replays s (os_updates succ) s'"
proof (cases tx)
  case (TxTransfer t)
  then obtain o' fee us where "transfer_apply_op s o' = Ok ((fee, us), s')" "os_updates succ = us"
    using assms by (auto simp: execute_tx_Ok)
  then show ?thesis
    by (cases o') (auto intro: transfer_replays transfer_to_new_replays)
next
  case (TxForcedExit t)
  then obtain o' fee us where o': "forced_exit_create_op c s t = Ok o'"
    "forced_exit_apply_op s o' = Ok ((fee, us), s')" "os_updates succ = us"
    using assms by (auto simp: execute_tx_Ok)
  moreover have "fe_initiator_account_id (feop_tx o') \<noteq> feop_target_account_id o'"
    using o'(1) assms(2) TxForcedExit by (auto simp: create_op_Ok)
  ultimately show ?thesis
    using forced_exit_replays by simp
qed (use assms in \<open>auto simp: execute_tx_Ok intro: withdraw_replays change_pub_key_replays\<close>)

lemma execute_priority_op_replays:
  "execute_priority_op s p = Ok (succ, s') \<Longrightarrow> replays s (os_updates succ) s'"
  by (cases p) (auto simp: execute_priority_op_Ok intro: deposit_replays full_exit_replays)

end
