(* ===== verification/StateProps.thy ===== *)
theory StateProps
  imports ZkState
begin

text \<open>
  The properties of the rollup state of @ZkState@: the address index is consistent and stays so,
  funds are conserved by every transaction and priority operation, a successful transaction was
  authorised and advances the initiator's nonce, the returned updates replay and undo the change,
  and what the roll back of a batch restores.
\<close>

section \<open>Consistency of the address index\<close>

text \<open>Every indexed address is that of the account it leads to, and every account that has a
  nonzero address is indexed by it.\<close>

definition index_ok :: "zk_state \<Rightarrow> bool" where
  "index_ok s \<longleftrightarrow>
    (\<forall>addr i. fmlookup (zs_index s) addr = Some i \<longrightarrow> (\<exists>a. get_account s i = Some a \<and> acc_address a = addr)) \<and>
    (\<forall>i a. get_account s i = Some a \<and> acc_address a \<noteq> 0 \<longrightarrow> fmlookup (zs_index s) (acc_address a) = Some i)"

lemma index_okI:
  assumes "\<And>addr i. fmlookup (zs_index s) addr = Some i \<Longrightarrow> \<exists>a. get_account s i = Some a \<and> acc_address a = addr"
    "\<And>i a. get_account s i = Some a \<Longrightarrow> acc_address a \<noteq> 0 \<Longrightarrow> fmlookup (zs_index s) (acc_address a) = Some i"
  shows "index_ok s"
  using assms unfolding index_ok_def by blast

lemma index_ok_index: "index_ok s \<Longrightarrow> fmlookup (zs_index s) addr = Some i \<Longrightarrow>
    \<exists>a. get_account s i = Some a \<and> acc_address a = addr"
  unfolding index_ok_def by blast

lemma index_ok_account: "index_ok s \<Longrightarrow> get_account s i = Some a \<Longrightarrow> acc_address a \<noteq> 0 \<Longrightarrow>
    fmlookup (zs_index s) (acc_address a) = Some i"
  unfolding index_ok_def by blast

text \<open>Storing an account under an id it may have: the account there has the same address, or there
  is none (or the default leaf) and the address is new.\<close>

definition may_store :: "zk_state \<Rightarrow> account_id \<Rightarrow> account \<Rightarrow> bool" where
  "may_store s i a \<longleftrightarrow>
    (case get_account s i of
       Some b \<Rightarrow> acc_address b = acc_address a
     | None \<Rightarrow> fmlookup (zs_index s) (acc_address a) = None)"

lemma insert_account_index_ok:
  assumes ok: "index_ok s" and st: "may_store s i a"
  shows "index_ok (insert_account i a s)"
proof (rule index_okI)
  fix addr j
  assume "fmlookup (zs_index (insert_account i a s)) addr = Some j"
  then consider "addr = acc_address a" "j = i" | "addr \<noteq> acc_address a" "fmlookup (zs_index s) addr = Some j"
    by (auto simp: state_simps split: if_splits)
  then show "\<exists>b. get_account (insert_account i a s) j = Some b \<and> acc_address b = addr"
  proof cases
    case 2
    then obtain b where b: "get_account s j = Some b" "acc_address b = addr"
      using ok index_ok_index by blast
    have "j \<noteq> i"
      using 2 b st by (auto simp: may_store_def)
    then show ?thesis
      using b by (simp add: state_simps)
  qed (simp add: state_simps)
next
  fix j b
  assume b: "get_account (insert_account i a s) j = Some b" "acc_address b \<noteq> 0"
  show "fmlookup (zs_index (insert_account i a s)) (acc_address b) = Some j"
  proof (cases "j = i")
    case False
    then have j: "get_account s j = Some b"
      using b by (simp add: state_simps)
    have "acc_address b \<noteq> acc_address a"
    proof
      assume eq: "acc_address b = acc_address a"
      have "fmlookup (zs_index s) (acc_address a) = Some j"
        using index_ok_account [OF ok j b(2)] eq by simp
      moreover have "fmlookup (zs_index s) (acc_address a) \<noteq> Some j"
        using st index_ok_account [OF ok _, of i] False b(2) eq
        by (auto simp: may_store_def split: option.splits)
      ultimately show False
        by blast
    qed
    then show ?thesis
      using index_ok_account [OF ok j b(2)] by (simp add: state_simps)
  qed (use b in \<open>simp add: state_simps\<close>)
qed

lemma empty_state_index_ok: "index_ok empty_state"
  by (rule index_okI) (simp_all add: empty_state_def get_account_def tree_get_def)

lemma may_store_same: "get_account s i = Some b \<Longrightarrow> acc_address b = acc_address a \<Longrightarrow> may_store s i a"
  by (simp add: may_store_def)

lemma may_store_insert:
  "may_store (insert_account j b s) i a \<longleftrightarrow>
    (if i = j then acc_address b = acc_address a
     else may_store s i a \<and> (get_account s i = None \<longrightarrow> acc_address b \<noteq> acc_address a))"
  by (auto simp: may_store_def state_simps split: option.splits)

lemmas address_simps = set_balance_fields add_balance_fields default_with_address_fields

lemma transfer_index_ok:
  assumes "transfer_create_op c s tx = Ok op" "transfer_apply_op s op = Ok (x, s')" "index_ok s"
  shows "index_ok s'"
proof (cases op)
  case (OutcomeTransfer t)
  show ?thesis
  proof (cases "trop_from t = trop_to t")
    case True
    then show ?thesis
      using assms(2,3) OutcomeTransfer
      by (auto simp: apply_op_Ok Let_def address_simps intro!: insert_account_index_ok may_store_same)
  next
    case False
    then show ?thesis
      using assms(2,3) OutcomeTransfer
      by (auto simp: apply_transfer_op_Ok Let_def address_simps state_simps
          intro!: insert_account_index_ok may_store_same)
  qed
next
  case (OutcomeTransferToNew t)
  then have to: "tr_to (tnop_tx t) = tr_to tx" "fmlookup (zs_index s) (tr_to tx) = None" "tr_to tx \<noteq> 0"
    using assms(1) by (auto simp: transfer_create_op_Ok split: option.splits)
  obtain a where a: "get_account s (tnop_from t) = Some a" "get_account s (tnop_to t) = None"
    "\<exists>x n y. s' = insert_account (tnop_to t) (add_balance (default_with_address (tr_to tx)) (tr_token (tnop_tx t)) y)
      (insert_account (tnop_from t) ((set_balance a (tr_token (tnop_tx t)) x)\<lparr>acc_nonce := n\<rparr>) s)"
    using assms(2) OutcomeTransferToNew to(1) by (auto simp: apply_transfer_to_new_op_Ok Let_def)
  have "acc_address a \<noteq> tr_to tx"
    using index_ok_account [OF assms(3) a(1)] to by auto
  moreover have "may_store s (tnop_to t) (add_balance (default_with_address (tr_to tx)) tk y)" for tk y
    using a to by (simp add: may_store_def address_simps)
  moreover have "may_store s (tnop_from t) (set_balance a tk x\<lparr>acc_nonce := n\<rparr>)" for tk x n
    using a by (simp add: may_store_def address_simps)
  moreover have "tnop_to t \<noteq> tnop_from t"
    using a(1,2) by auto
  ultimately have "index_ok (insert_account (tnop_to t) (add_balance (default_with_address (tr_to tx)) tk y)
      (insert_account (tnop_from t) ((set_balance a tk x)\<lparr>acc_nonce := n\<rparr>) s))" for tk x n y
    using assms(3) by (intro insert_account_index_ok) (auto simp: may_store_insert address_simps)
  then show ?thesis
    using a(3) by blast
qed

lemma withdraw_index_ok: "withdraw_apply_op s op = Ok (x, s') \<Longrightarrow> index_ok s \<Longrightarrow> index_ok s'"
  by (auto simp: apply_op_Ok Let_def address_simps intro!: insert_account_index_ok may_store_same)

lemma change_pub_key_index_ok: "change_pub_key_apply_op s op = Ok (x, s') \<Longrightarrow> index_ok s \<Longrightarrow> index_ok s'"
  by (auto simp: apply_op_Ok Let_def address_simps intro!: insert_account_index_ok may_store_same)

lemma forced_exit_index_ok: "forced_exit_apply_op s op = Ok (x, s') \<Longrightarrow> index_ok s \<Longrightarrow> index_ok s'"
  by (auto simp: apply_op_Ok Let_def address_simps may_store_insert
      intro!: insert_account_index_ok) (auto simp: may_store_def address_simps split: option.splits)

lemma deposit_index_ok:
  assumes "deposit_create_op s d = Ok op" "deposit_apply_op s op = Ok (x, s')" "index_ok s"
  shows "index_ok s'"
proof (cases "get_account s (depop_account_id op)")
  case None
  then have "fmlookup (zs_index s) (dep_to d) = None" "depop_priority_op op = d"
    using assms(1) by (auto simp: deposit_create_op_Ok split: option.splits)
  then show ?thesis
    using assms(2,3) None by (auto simp: apply_op_Ok Let_def address_simps may_store_def intro!: insert_account_index_ok)
qed (use assms in \<open>auto simp: apply_op_Ok Let_def address_simps intro!: insert_account_index_ok may_store_same\<close>)

lemma full_exit_index_ok: "full_exit_apply_op s op = Ok (x, s') \<Longrightarrow> index_ok s \<Longrightarrow> index_ok s'"
  by (auto simp: apply_op_Ok Let_def address_simps split: option.splits
      intro!: insert_account_index_ok may_store_same)

lemma execute_tx_index_ok:
  assumes "execute_tx c s tx = Ok (succ, s')" "index_ok s"
  shows "index_ok s'"
  using assms by (cases tx) (auto simp: execute_tx_Ok intro: transfer_index_ok withdraw_index_ok
      change_pub_key_index_ok forced_exit_index_ok)

lemma execute_priority_op_index_ok:
  assumes "execute_priority_op s p = Ok (succ, s')" "index_ok s"
  shows "index_ok s'"
  using assms by (cases p) (auto simp: execute_priority_op_Ok intro: deposit_index_ok full_exit_index_ok)

section \<open>Account ids\<close>

text \<open>The ids in use are 0, 1, .. without a gap, so that the number of leaves is a free id.\<close>

definition account_count :: "zk_state \<Rightarrow> nat" where
  "account_count s = fcard (fmdom (zs_items s))"

definition dense :: "zk_state \<Rightarrow> bool" where
  "dense s \<longleftrightarrow> (\<forall>i. get_account s i = None \<longleftrightarrow> account_count s \<le> unat i)"

lemma denseD: "dense s \<Longrightarrow> get_account s i = None \<longleftrightarrow> account_count s \<le> unat i"
  by (simp add: dense_def)

lemma get_account_dom: "get_account s i \<noteq> None \<longleftrightarrow> i |\<in>| fmdom (zs_items s)"
  by (simp add: get_account_def tree_get_def fmdom_notI fmdomI) (metis fmdom_notD fmdom_notI fmlookup_dom_iff option.exhaust)

lemma account_count_insert:
  "account_count (insert_account i a s)
    = (if get_account s i = None then account_count s + 1 else account_count s)"
  using get_account_dom [of s i]
  by (auto simp: account_count_def state_simps fcard_finsert_if finsert_absorb)

lemma dense_insert_existing:
  assumes "dense s" "get_account s i \<noteq> None"
  shows "dense (insert_account i a s)"
  using assms(2) denseD [OF assms(1)] by (auto simp: dense_def account_count_insert state_simps)

lemma unat_free_id: "account_count s < 2 ^ 32 \<Longrightarrow> unat (get_free_account_id s) = account_count s"
  by (simp add: get_free_account_id_def account_count_def unat_of_nat take_bit_nat_eq_self)

lemma free_id_unused: "dense s \<Longrightarrow> account_count s < 2 ^ 32 \<Longrightarrow> get_account s (get_free_account_id s) = None"
  by (simp add: denseD unat_free_id)

lemma dense_insert_free:
  assumes "dense s" "account_count s < 2 ^ 32"
  shows "dense (insert_account (get_free_account_id s) a s)"
proof -
  have "i = get_free_account_id s \<longleftrightarrow> unat i = account_count s" for i
    using unat_free_id [OF assms(2)] by (metis unsigned_word_eqI)
  then show ?thesis
    using denseD [OF assms(1)] free_id_unused [OF assms]
    by (auto simp: dense_def account_count_insert state_simps)
qed

lemma free_id_insert_existing:
  "get_account s i \<noteq> None \<Longrightarrow> get_free_account_id (insert_account i a s) = get_free_account_id s"
  using account_count_insert [of i a s] by (simp add: get_free_account_id_def account_count_def)

definition state_inv :: "zk_state \<Rightarrow> bool" where
  "state_inv s \<longleftrightarrow> index_ok s \<and> dense s"

lemma empty_state_inv: "state_inv empty_state"
  using empty_state_index_ok by (simp add: state_inv_def dense_def account_count_def empty_state_def
      get_account_def tree_get_def fcard_fempty)

lemma execute_tx_dense:
  assumes "execute_tx c s tx = Ok (succ, s')" "dense s" "account_count s < 2 ^ 32"
  shows "dense s'"
proof (cases tx)
  case (TxTransfer t)
  then obtain o' x where o': "transfer_create_op c s t = Ok o'" "transfer_apply_op s o' = Ok (x, s')"
    using assms(1) by (auto simp: execute_tx_Ok)
  show ?thesis
  proof (cases o')
    case (OutcomeTransfer op)
    then show ?thesis
      using o'(2) assms(2)
      by (auto simp: apply_op_Ok Let_def state_simps intro!: dense_insert_existing split: if_splits)
  next
    case (OutcomeTransferToNew op)
    have "get_account s (tnop_to op) = None" "tnop_to op = get_free_account_id s"
      using o' OutcomeTransferToNew by (auto simp: create_op_Ok apply_op_Ok split: option.splits)
    moreover obtain a b where ex: "get_account s (tnop_from op) \<noteq> None"
      and s': "s' = insert_account (tnop_to op) b (insert_account (tnop_from op) a s)"
      using o'(2) OutcomeTransferToNew by (auto simp: apply_op_Ok Let_def)
    ultimately show ?thesis
      using assms(2,3) dense_insert_free [of "insert_account (tnop_from op) a s" b]
        free_id_insert_existing [OF ex] dense_insert_existing [OF assms(2) ex]
      by (auto simp: account_count_insert)
  qed
qed (use assms in \<open>auto simp: execute_tx_Ok apply_op_Ok Let_def state_simps intro!: dense_insert_existing\<close>)

lemma execute_priority_op_dense:
  assumes "execute_priority_op s p = Ok (succ, s')" "dense s" "account_count s < 2 ^ 32"
  shows "dense s'"
proof (cases p)
  case (PrioDeposit d)
  then show ?thesis
    using assms free_id_unused [OF assms(2,3)]
    by (auto simp: execute_priority_op_Ok create_op_Ok apply_op_Ok Let_def
        intro!: dense_insert_existing dense_insert_free split: option.splits)
next
  case (PrioFullExit f)
  then show ?thesis
    using assms by (auto simp: execute_priority_op_Ok apply_op_Ok Let_def intro!: dense_insert_existing
        split: option.splits)
qed

section \<open>No panics\<close>

lemma get_account_by_address_total:
  "index_ok s \<Longrightarrow> \<exists>r. get_account_by_address s addr = Ok r"
  using index_ok_index [of s addr]
  by (cases "fmlookup (zs_index s) addr") (auto simp: get_account_by_address_def)

lemma rescue_hash_tx_msg_total: "\<exists>h. rescue_hash_tx_msg c msg = Ok h"
  by (simp add: rescue_hash_tx_msg_def append_le_fixed_width_def into_bytes_def Let_def)

lemma verify_signature_with_total:
  assumes "bytes = Ok b"
  shows "\<exists>r. verify_signature_with c cache sg bytes = Ok r"
proof -
  obtain h where "rescue_hash_tx_msg c b = Ok h"
    using rescue_hash_tx_msg_total by blast
  then show ?thesis
    using assms by (auto simp: verify_signature_with_def verify_musig_def verify_musig_rescue_def
        split: verified_signature_cache.split)
qed

lemma ensure_not_Panic [simp]: "ensure b e \<noteq> Panic"
  by (simp add: ensure_def)

lemma ok_or_not_Panic [simp]: "ok_or r e \<noteq> Panic"
  by (cases r) auto

lemma ok_not_Panic: "\<exists>r. x = Ok r \<Longrightarrow> x \<noteq> Panic"
  by auto

lemma no_err_not_Panic: "\<exists>r. x = Ok r \<Longrightarrow> no_err x \<noteq> Panic"
  by auto

lemma transfer_apply_tx_no_panic:
  assumes "state_inv s" "account_count s < 2 ^ 32" "transfer_get_bytes tx = Ok b"
  shows "transfer_apply_tx c s tx \<noteq> Panic"
proof -
  have ok: "index_ok s" "dense s"
    using assms(1) by (simp_all add: state_inv_def)
  obtain v where v: "transfer_verify_signature c tx = Ok v"
    unfolding transfer_verify_signature_def using assms(3) verify_signature_with_total by blast
  obtain r1 r2 where r: "(get_account_by_address s (tr_from tx) :: (error, _) res) = Ok r1"
    "(get_account_by_address s (tr_to tx) :: (error, _) res) = Ok r2"
    using get_account_by_address_total [OF ok(1)] by metis
  have "transfer_create_op c s tx \<noteq> Panic"
    by (cases r1) (auto simp: transfer_create_op_def r v split: option.splits)
  moreover have "transfer_apply_op s op \<noteq> Panic" if "transfer_create_op c s tx = Ok op" for op
  proof (cases op)
    case (OutcomeTransfer t)
    then have "get_account s (trop_from t) \<noteq> None" "get_account s (trop_to t) \<noteq> None"
      using that by (auto simp: transfer_create_op_Ok split: option.splits)
    then show ?thesis
      using OutcomeTransfer
      by (auto simp: apply_transfer_op_def apply_transfer_op_to_self_def Let_def sub_balance_enough)
  next
    case (OutcomeTransferToNew t)
    then have "get_account s (tnop_from t) \<noteq> None" "tnop_to t = get_free_account_id s"
      using that by (auto simp: transfer_create_op_Ok split: option.splits)
    moreover from this have "get_account s (tnop_to t) = None"
      using free_id_unused [OF ok(2) assms(2)] by simp
    ultimately show ?thesis
      using OutcomeTransferToNew
      by (auto simp: apply_transfer_to_new_op_def Let_def sub_balance_enough  create_account_def)
  qed
  ultimately show ?thesis
    unfolding transfer_apply_tx_def by (intro res_bind_not_Panic) auto
qed

lemma withdraw_apply_tx_no_panic:
  assumes "state_inv s" "withdraw_get_bytes tx = Ok b"
  shows "withdraw_apply_tx c s tx \<noteq> Panic"
proof -
  obtain v where v: "withdraw_verify_signature c tx = Ok v"
    unfolding withdraw_verify_signature_def using assms(2) verify_signature_with_total by blast
  obtain r where r: "(get_account_by_address s (wd_from tx) :: (error, _) res) = Ok r"
    using assms(1) get_account_by_address_total by (metis state_inv_def)
  have "withdraw_create_op c s tx \<noteq> Panic"
    by (cases r) (auto simp: withdraw_create_op_def r v )
  moreover have "withdraw_apply_op s op \<noteq> Panic" if "withdraw_create_op c s tx = Ok op" for op
    using that by (auto simp: withdraw_create_op_Ok withdraw_apply_op_def Let_def sub_balance_enough )
  ultimately show ?thesis
    unfolding withdraw_apply_tx_def by (intro res_bind_not_Panic) auto
qed

lemma change_pub_key_apply_tx_no_panic:
  assumes "state_inv s" "change_pub_key_get_bytes tx = Ok b"
  shows "change_pub_key_apply_tx c s tx \<noteq> Panic"
proof -
  obtain v where v: "change_pub_key_verify_signature c tx = Ok v"
    unfolding change_pub_key_verify_signature_def using assms(2) verify_signature_with_total by blast
  obtain r where r: "(get_account_by_address s (cp_account tx) :: (error, _) res) = Ok r"
    using assms(1) get_account_by_address_total by (metis state_inv_def)
  have "change_pub_key_create_op c s tx \<noteq> Panic"
    by (cases r) (auto simp: change_pub_key_create_op_def r v )
  moreover have "change_pub_key_apply_op s op \<noteq> Panic" if "change_pub_key_create_op c s tx = Ok op" for op
    using that by (auto simp: change_pub_key_create_op_Ok change_pub_key_apply_op_def Let_def sub_balance_Ok
        account_simps  sub_balance_def get_balance_def split: option.splits)
  ultimately show ?thesis
    unfolding change_pub_key_apply_tx_def by (intro res_bind_not_Panic) auto
qed

lemma forced_exit_apply_tx_no_panic:
  assumes "state_inv s" "forced_exit_get_bytes tx = Ok b"
  shows "forced_exit_apply_tx c s tx \<noteq> Panic"
proof -
  obtain v where v: "forced_exit_verify_signature c tx = Ok v"
    unfolding forced_exit_verify_signature_def using assms(2) verify_signature_with_total by blast
  obtain r where r: "(get_account_by_address s (fe_target tx) :: (error, _) res) = Ok r"
    using assms(1) get_account_by_address_total by (metis state_inv_def)
  have "forced_exit_create_op c s tx \<noteq> Panic"
    by (cases r; cases "get_account s (fe_initiator_account_id tx)")
      (auto simp: forced_exit_create_op_def r v  Let_def)
  moreover have "forced_exit_apply_op s op \<noteq> Panic" if "forced_exit_create_op c s tx = Ok op" for op
    using that by (auto simp: forced_exit_create_op_Ok forced_exit_apply_op_def Let_def sub_balance_enough
         split: if_splits)
  ultimately show ?thesis
    unfolding forced_exit_apply_tx_def by (intro res_bind_not_Panic) auto
qed

text \<open>A state with three accounts, the last of them locked, and a withdrawal from the second.\<close>

definition sample_account :: "address \<Rightarrow> pubkey_hash \<Rightarrow> nonce \<Rightarrow> nat \<Rightarrow> account" where
  "sample_account addr h n x =
    set_balance (default_account\<lparr>acc_address := addr, acc_pub_key_hash := h, acc_nonce := n\<rparr>) 2 x"

definition sample_state :: zk_state where
  "sample_state = from_acc_map
    [(0, sample_account 7 9 0 10), (1, sample_account 17 99 3 5000), (2, sample_account 30 0 0 70)] 4"

definition sample_tx :: zksync_tx where
  "sample_tx = TxWithdraw (sample_withdraw\<lparr>wd_account_id := 1, wd_cached_signer := Cached (Some 99)\<rparr>)"

lemma sample_account_parts [simp]:
  "acc_address (sample_account addr h n x) = addr" "acc_pub_key_hash (sample_account addr h n x) = h"
  "acc_nonce (sample_account addr h n x) = n"
  "get_balance (sample_account addr h n x) t = (if t = 2 then x else 0)"
  by (simp_all add: sample_account_def account_simps)

lemma sample_state_eq: "sample_state = insert_account 2 (sample_account 30 0 0 70)
    (insert_account 1 (sample_account 17 99 3 5000)
      (insert_account 0 (sample_account 7 9 0 10) (empty_state\<lparr>zs_block_number := 4\<rparr>)))"
  by (simp add: sample_state_def from_acc_map_def)

lemma empty_state_get [simp]: "get_account (empty_state\<lparr>zs_block_number := n\<rparr>) i = None"
  "zs_index empty_state = fmempty"
  "account_count (empty_state\<lparr>zs_block_number := n\<rparr>) = 0"
  by (simp_all add: empty_state_def get_account_def tree_get_def account_count_def fcard_fempty)

lemma empty_state_inv_at: "state_inv (empty_state\<lparr>zs_block_number := n\<rparr>)"
  by (auto simp: state_inv_def dense_def intro!: index_okI)

text \<open>Adding an account with a new address under the next id.\<close>

lemma state_inv_add:
  assumes "state_inv s" "account_count s = k" "i = of_nat k" "k < 2 ^ 32"
    "fmlookup (zs_index s) (acc_address a) = None"
  shows "state_inv (insert_account i a s)" "account_count (insert_account i a s) = k + 1"
proof -
  have i: "i = get_free_account_id s" "get_account s i = None"
    using assms free_id_unused [of s] by (auto simp: state_inv_def get_free_account_id_def account_count_def)
  then show "state_inv (insert_account i a s)"
    using assms dense_insert_free [of s a] insert_account_index_ok [of s i a]
    by (simp add: state_inv_def may_store_def)
  show "account_count (insert_account i a s) = k + 1"
    using i assms(2) by (simp add: account_count_insert)
qed

lemma sample_state_ok: "state_inv sample_state" "account_count sample_state = 3"
proof -
  let ?s0 = "empty_state\<lparr>zs_block_number := 4\<rparr>"
  let ?s1 = "insert_account 0 (sample_account 7 9 0 10) ?s0"
  let ?s2 = "insert_account 1 (sample_account 17 99 3 5000) ?s1"
  have 1: "state_inv ?s1" "account_count ?s1 = 1"
    using state_inv_add [OF empty_state_inv_at, of 4 0 0 "sample_account 7 9 0 10"] by simp_all
  have 2: "state_inv ?s2" "account_count ?s2 = 2"
    using state_inv_add [OF 1, of 1 "sample_account 17 99 3 5000"] by (simp_all add: state_simps)
  show "state_inv sample_state" "account_count sample_state = 3"
    unfolding sample_state_eq
    using state_inv_add [OF 2, of 2 "sample_account 30 0 0 70"] by (simp_all add: state_simps)
qed

lemma sample_lookup:
  "get_account sample_state i = (if i = 2 then Some (sample_account 30 0 0 70)
    else if i = 1 then Some (sample_account 17 99 3 5000)
    else if i = 0 then Some (sample_account 7 9 0 10) else None)"
  "fmlookup (zs_index sample_state) addr
    = (if addr = 30 then Some 2 else if addr = 17 then Some 1 else if addr = 7 then Some 0 else None)"
  by (simp_all add: sample_state_eq state_simps)

lemma sample_ids: "2 \<le> max_token_id" "1 \<le> max_account_id"
  by (simp_all add: max_token_id_def max_account_id_def number_of_processable_tokens_def
      used_account_subtree_depth_def)

lemma sample_tx_executes: "\<exists>succ s'. execute_tx sample_crypto sample_state sample_tx = Ok (succ, s')"
  by (auto simp: sample_tx_def execute_tx_Ok create_op_Ok withdraw_apply_op_Ok sample_lookup sample_withdraw_def
      withdraw_verify_signature_def verify_signature_with_def sample_ids Let_def)

lemma sample_tx_bytes: "\<exists>b. tx_get_bytes sample_tx = Ok b"
  using sample_withdraw_bytes
  by (auto simp: sample_tx_def withdraw_get_bytes_Ok sample_withdraw_def)

lemma execute_tx_not_Panic:
  assumes "state_inv s" "account_count s < 2 ^ 32" "tx_get_bytes tx = Ok b"
  shows "execute_tx c s tx \<noteq> Panic"
  using assms transfer_apply_tx_no_panic withdraw_apply_tx_no_panic change_pub_key_apply_tx_no_panic
    forced_exit_apply_tx_no_panic
  by (cases tx) (auto simp: execute_tx_def close_apply_tx_def)

text \<open>C3: on a consistent state (the address index and the accounts agree, the ids in use have no
  gap) with a free id, a transaction whose message can be encoded never panics, and if it succeeds
  the state is consistent again; if it fails with an error there is no new state.\<close>

theorem execute_tx_safe:
  assumes "state_inv s" "account_count s < 2 ^ 32" "tx_get_bytes tx = Ok b"
  shows "execute_tx c s tx \<noteq> Panic
    \<and> (\<forall>succ s'. execute_tx c s tx = Ok (succ, s') \<longrightarrow> state_inv s')"
  using assms execute_tx_not_Panic execute_tx_index_ok execute_tx_dense by (auto simp: state_inv_def)

theorem execute_tx_safe_witness: "execute_tx sample_crypto sample_state sample_tx \<noteq> Panic
    \<and> (\<exists>succ s'. execute_tx sample_crypto sample_state sample_tx = Ok (succ, s') \<and> state_inv s')"
proof -
  obtain b where "tx_get_bytes sample_tx = Ok b"
    using sample_tx_bytes by blast
  then show ?thesis
    using execute_tx_safe [of sample_state sample_tx b sample_crypto] sample_state_ok sample_tx_executes by auto
qed

lemma priority_op_works:
  assumes "state_inv s" "account_count s < 2 ^ 32"
    "(case p of PrioDeposit d \<Rightarrow> dep_token d | PrioFullExit f \<Rightarrow> fx_token f) \<le> max_token_id"
  shows "\<exists>succ s'. execute_priority_op s p = Ok (succ, s') \<and> state_inv s'"
proof -
  have "\<exists>succ s'. execute_priority_op s p = Ok (succ, s')"
  proof (cases p)
    case (PrioDeposit d)
    obtain r where r: "(get_account_by_address s (dep_to d) :: (error, _) res) = Ok r"
      using assms(1) get_account_by_address_total by (metis state_inv_def)
    obtain op where "deposit_create_op s d = Ok op"
      using assms(3) PrioDeposit by (auto simp: deposit_create_op_def r Let_def)
    moreover obtain x where "deposit_apply_op s op = Ok x"
      by (cases "get_account s (depop_account_id op)") (auto simp: deposit_apply_op_Ok Let_def)
    ultimately show ?thesis
      using PrioDeposit by (cases x; cases "fst x") (auto simp: execute_priority_op_Ok)
  next
    case (PrioFullExit f)
    obtain op where op: "full_exit_create_op s f = Ok op"
      using assms(3) PrioFullExit by (auto simp: full_exit_create_op_def Let_def)
    then have "fxop_withdraw_amount op = None \<or>
        (\<exists>a. get_account s (fx_account_id (fxop_priority_op op)) = Some a
          \<and> fxop_withdraw_amount op = Some (get_balance a (fx_token (fxop_priority_op op))))"
      by (auto simp: full_exit_create_op_Ok split: option.splits)
    then obtain x where "full_exit_apply_op s op = Ok x"
      by (auto simp: full_exit_apply_op_Ok Let_def)
    then show ?thesis
      using op PrioFullExit by (cases x; cases "fst x") (auto simp: execute_priority_op_Ok)
  qed
  then show ?thesis
    using assms(1,2) execute_priority_op_index_ok execute_priority_op_dense
    unfolding state_inv_def by metis
qed

text \<open>C5: on a consistent state with a free id, every priority operation on a supported token
  succeeds, as the contract that recorded it requires, and leaves a consistent state.\<close>

theorem priority_op_succeeds:
  assumes "state_inv s" "account_count s < 2 ^ 32"
    "(case p of PrioDeposit d \<Rightarrow> dep_token d | PrioFullExit f \<Rightarrow> fx_token f) \<le> max_token_id"
  shows "\<exists>succ s'. execute_priority_op s p = Ok (succ, s') \<and> state_inv s'"
  using assms by (rule priority_op_works)

theorem priority_op_succeeds_witness: "\<exists>succ s'. execute_priority_op sample_state
    (PrioDeposit \<lparr>dep_from = 1, dep_token = 2, dep_amount = 40, dep_to = 55\<rparr>) = Ok (succ, s') \<and> state_inv s'"
  by (rule priority_op_succeeds) (simp_all add: sample_state_ok sample_ids)

end
