(* ===== verification/StateFunds.thy ===== *)
theory StateFunds
  imports StateProps
begin

text \<open>
  Funds, nonces and roll back: what a successful operation does to the balances of the whole
  state, who has authorised it, why it cannot be executed again, how its updates replay and undo
  it, and what is left after a failed batch.
\<close>

section \<open>Conservation of funds\<close>

definition balance_at :: "zk_state \<Rightarrow> account_id \<Rightarrow> token_id \<Rightarrow> nat" where
  "balance_at s i t = (case get_account s i of None \<Rightarrow> 0 | Some a \<Rightarrow> get_balance a t)"

text \<open>All funds of a token in the state.\<close>

definition total_balance :: "zk_state \<Rightarrow> token_id \<Rightarrow> nat" where
  "total_balance s t = (\<Sum>i | get_account s i \<noteq> None. balance_at s i t)"

lemma finite_accounts [simp]: "finite {i. get_account s i \<noteq> None}"
proof -
  have "{i. get_account s i \<noteq> None} = fset (fmdom (zs_items s))"
    using get_account_dom by blast
  then show ?thesis
    by simp
qed

lemma total_balance_over:
  assumes "finite A" "{i. get_account s i \<noteq> None} \<subseteq> A"
  shows "total_balance s t = (\<Sum>i\<in>A. balance_at s i t)"
  unfolding total_balance_def using assms
  by (intro sum.mono_neutral_left) (auto simp: balance_at_def)

lemma total_balance_insert:
  "total_balance (insert_account i a s) t + balance_at s i t = total_balance s t + get_balance a t"
proof -
  let ?A = "insert i {j. get_account s j \<noteq> None}"
  have "total_balance s t = (\<Sum>j\<in>?A. balance_at s j t)"
    by (rule total_balance_over) auto
  also have "\<dots> = balance_at s i t + (\<Sum>j\<in>?A - {i}. balance_at s j t)"
    by (rule sum.remove) auto
  finally have old: "total_balance s t = balance_at s i t + (\<Sum>j\<in>?A - {i}. balance_at s j t)" .
  have "total_balance (insert_account i a s) t = (\<Sum>j\<in>?A. balance_at (insert_account i a s) j t)"
    by (rule total_balance_over) (auto simp: state_simps)
  also have "\<dots> = balance_at (insert_account i a s) i t
      + (\<Sum>j\<in>?A - {i}. balance_at (insert_account i a s) j t)"
    by (rule sum.remove) auto
  also have "(\<Sum>j\<in>?A - {i}. balance_at (insert_account i a s) j t) = (\<Sum>j\<in>?A - {i}. balance_at s j t)"
    by (rule sum.cong) (auto simp: balance_at_def state_simps)
  finally show ?thesis
    using old by (simp add: balance_at_def state_simps)
qed

lemma total_balance_replace:
  "get_account s i = Some b \<Longrightarrow>
    total_balance (insert_account i a s) t + get_balance b t = total_balance s t + get_balance a t"
  using total_balance_insert [of i a s t] by (simp add: balance_at_def)

lemma total_balance_new:
  "get_account s i = None \<Longrightarrow>
    total_balance (insert_account i a s) t = total_balance s t + get_balance a t"
  using total_balance_insert [of i a s t] by (simp add: balance_at_def)

lemma balance_le_total: "get_account s i = Some a \<Longrightarrow> get_balance a t \<le> total_balance s t"
  using total_balance_replace [of s i a "default_with_address 0" t] by (simp add: account_simps)

text \<open>What an operation brings into the rollup, and what it takes out of it to L1.\<close>

fun op_inflow :: "zksync_op \<Rightarrow> token_id \<Rightarrow> nat" where
  "op_inflow (OpDeposit op) t =
     (if dep_token (depop_priority_op op) = t then dep_amount (depop_priority_op op) else 0)"
| "op_inflow op t = 0"

fun op_outflow :: "zksync_op \<Rightarrow> token_id \<Rightarrow> nat" where
  "op_outflow (OpWithdraw op) t = (if wd_token (wdop_tx op) = t then wd_amount (wdop_tx op) else 0)"
| "op_outflow (OpForcedExit op) t = (if fe_token (feop_tx op) = t
     then (case feop_withdraw_amount op of None \<Rightarrow> 0 | Some w \<Rightarrow> w) else 0)"
| "op_outflow (OpFullExit op) t = (if fx_token (fxop_priority_op op) = t
     then (case fxop_withdraw_amount op of None \<Rightarrow> 0 | Some w \<Rightarrow> w) else 0)"
| "op_outflow op t = 0"

definition fee_of :: "collected_fee option \<Rightarrow> token_id \<Rightarrow> nat" where
  "fee_of fee t = (case fee of None \<Rightarrow> 0 | Some f \<Rightarrow> if cf_token f = t then cf_amount f else 0)"

text \<open>One account is replaced by one with another balance of one token.\<close>

lemma total_balance_set:
  assumes "get_account s i = Some a" "get_balance b = (get_balance a)(tk := x)"
  shows "total_balance (insert_account i b s) t + (if t = tk then get_balance a tk else 0)
    = total_balance s t + (if t = tk then x else 0)"
  using total_balance_replace [OF assms(1), of b t] assms(2) by (auto simp: fun_upd_def)

lemma transfer_conserves:
  assumes "transfer_apply_op s op = Ok ((fee, us), s')"
  shows "total_balance s' t + fee_of fee t = total_balance s t"
proof (cases op)
  case (OutcomeTransfer op')
  show ?thesis
  proof (cases "trop_from op' = trop_to op'")
    case True
    obtain a x where "get_account s (trop_from op') = Some a" "x = get_balance a (tr_token (trop_tx op'))"
      "tr_fee (trop_tx op') \<le> x" "fee = Some \<lparr>cf_token = tr_token (trop_tx op'), cf_amount = tr_fee (trop_tx op')\<rparr>"
      "s' = insert_account (trop_from op') ((set_balance a (tr_token (trop_tx op'))
        (x - tr_fee (trop_tx op')))\<lparr>acc_nonce := acc_nonce a + 1\<rparr>) s"
      using assms OutcomeTransfer True by (auto simp: apply_op_Ok Let_def)
    then have x: "x = get_balance a (tr_token (trop_tx op'))"
      and "tr_fee (trop_tx op') \<le> x" "get_account s (trop_from op') = Some a"
      and fee: "fee = Some \<lparr>cf_token = tr_token (trop_tx op'), cf_amount = tr_fee (trop_tx op')\<rparr>"
      and s': "s' = insert_account (trop_from op') ((set_balance a (tr_token (trop_tx op'))
        (x - tr_fee (trop_tx op')))\<lparr>acc_nonce := acc_nonce a + 1\<rparr>) s"
      by simp_all
    moreover have "total_balance s' t + (if t = tr_token (trop_tx op') then x else 0) = total_balance s t
        + (if t = tr_token (trop_tx op') then x - tr_fee (trop_tx op') else 0)"
      unfolding s' x using calculation(3) by (intro total_balance_set) (simp_all add: account_simps)
    ultimately show ?thesis
      by (auto simp: fee_of_def split: if_splits)
  next
    case False
    define tk where "tk = tr_token (trop_tx op')"
    obtain a b where ab: "get_account s (trop_from op') = Some a" "get_account s (trop_to op') = Some b"
      "tr_amount (trop_tx op') + tr_fee (trop_tx op') \<le> get_balance a tk"
      "fee = Some \<lparr>cf_token = tk, cf_amount = tr_fee (trop_tx op')\<rparr>"
      "s' = insert_account (trop_to op') (add_balance b tk (tr_amount (trop_tx op')))
         (insert_account (trop_from op') ((set_balance a tk
           (get_balance a tk - (tr_amount (trop_tx op') + tr_fee (trop_tx op'))))\<lparr>acc_nonce := acc_nonce a + 1\<rparr>) s)"
      using assms OutcomeTransfer False by (auto simp: apply_transfer_op_Ok Let_def tk_def)
    define s1 where "s1 = insert_account (trop_from op') ((set_balance a tk
           (get_balance a tk - (tr_amount (trop_tx op') + tr_fee (trop_tx op'))))\<lparr>acc_nonce := acc_nonce a + 1\<rparr>) s"
    have "get_account s1 (trop_to op') = Some b"
      using ab(2) False by (simp add: s1_def state_simps)
    then have "total_balance s' t + (if t = tk then get_balance b tk else 0)
        = total_balance s1 t + (if t = tk then get_balance b tk + tr_amount (trop_tx op') else 0)"
      unfolding ab(5) s1_def [symmetric] by (intro total_balance_set) (simp_all add: account_simps)
    moreover have "total_balance s1 t + (if t = tk then get_balance a tk else 0) = total_balance s t
        + (if t = tk then get_balance a tk - (tr_amount (trop_tx op') + tr_fee (trop_tx op')) else 0)"
      unfolding s1_def using ab(1) by (intro total_balance_set) (simp_all add: account_simps)
    ultimately show ?thesis
      using ab(3,4) by (auto simp: fee_of_def split: if_splits)
  qed
next
  case (OutcomeTransferToNew op')
  define tk where "tk = tr_token (tnop_tx op')"
  obtain a where ab: "get_account s (tnop_from op') = Some a" "get_account s (tnop_to op') = None"
    "tr_amount (tnop_tx op') + tr_fee (tnop_tx op') \<le> get_balance a tk"
    "fee = Some \<lparr>cf_token = tk, cf_amount = tr_fee (tnop_tx op')\<rparr>"
    "s' = insert_account (tnop_to op') (add_balance (default_with_address (tr_to (tnop_tx op'))) tk (tr_amount (tnop_tx op')))
       (insert_account (tnop_from op') ((set_balance a tk
         (get_balance a tk - (tr_amount (tnop_tx op') + tr_fee (tnop_tx op'))))\<lparr>acc_nonce := acc_nonce a + 1\<rparr>) s)"
    using assms OutcomeTransferToNew by (auto simp: apply_op_Ok Let_def tk_def)
  define s1 where "s1 = insert_account (tnop_from op') ((set_balance a tk
         (get_balance a tk - (tr_amount (tnop_tx op') + tr_fee (tnop_tx op'))))\<lparr>acc_nonce := acc_nonce a + 1\<rparr>) s"
  have "get_account s1 (tnop_to op') = None"
    using ab(1,2) by (auto simp: s1_def state_simps)
  then have "total_balance s' t = total_balance s1 t + (if t = tk then tr_amount (tnop_tx op') else 0)"
    unfolding ab(5) s1_def [symmetric] by (subst total_balance_new) (auto simp: account_simps)
  moreover have "total_balance s1 t + (if t = tk then get_balance a tk else 0) = total_balance s t
      + (if t = tk then get_balance a tk - (tr_amount (tnop_tx op') + tr_fee (tnop_tx op')) else 0)"
    unfolding s1_def using ab(1) by (intro total_balance_set) (simp_all add: account_simps)
  ultimately show ?thesis
    using ab(3,4) by (auto simp: fee_of_def split: if_splits)
qed


lemma withdraw_conserves:
  assumes "withdraw_apply_op s op = Ok ((fee, us), s')"
  shows "total_balance s' t + op_outflow (OpWithdraw op) t + fee_of fee t = total_balance s t"
proof -
  define tk where "tk = wd_token (wdop_tx op)"
  obtain a where a: "get_account s (wdop_account_id op) = Some a"
    "wd_amount (wdop_tx op) + wd_fee (wdop_tx op) \<le> get_balance a tk"
    "fee = Some \<lparr>cf_token = tk, cf_amount = wd_fee (wdop_tx op)\<rparr>"
    "s' = insert_account (wdop_account_id op) ((set_balance a tk
      (get_balance a tk - (wd_amount (wdop_tx op) + wd_fee (wdop_tx op))))\<lparr>acc_nonce := acc_nonce a + 1\<rparr>) s"
    using assms by (auto simp: apply_op_Ok Let_def tk_def)
  have "total_balance s' t + (if t = tk then get_balance a tk else 0) = total_balance s t
      + (if t = tk then get_balance a tk - (wd_amount (wdop_tx op) + wd_fee (wdop_tx op)) else 0)"
    unfolding a(4) using a(1) by (intro total_balance_set) (simp_all add: account_simps)
  then show ?thesis
    using a(2,3) by (auto simp: fee_of_def tk_def split: if_splits)
qed

lemma change_pub_key_conserves:
  assumes "change_pub_key_apply_op s op = Ok ((fee, us), s')"
  shows "total_balance s' t + fee_of fee t = total_balance s t"
proof -
  define tk where "tk = cp_fee_token (cpop_tx op)"
  obtain a where a: "get_account s (cpop_account_id op) = Some a" "cp_fee (cpop_tx op) \<le> get_balance a tk"
    "fee = Some \<lparr>cf_token = tk, cf_amount = cp_fee (cpop_tx op)\<rparr>"
    "s' = insert_account (cpop_account_id op) (set_balance
      (a\<lparr>acc_nonce := acc_nonce a + 1, acc_pub_key_hash := cp_new_pk_hash (cpop_tx op)\<rparr>) tk
      (get_balance a tk - cp_fee (cpop_tx op))) s"
    using assms by (auto simp: apply_op_Ok Let_def tk_def)
  have "total_balance s' t + (if t = tk then get_balance a tk else 0) = total_balance s t
      + (if t = tk then get_balance a tk - cp_fee (cpop_tx op) else 0)"
    unfolding a(4) using a(1) by (intro total_balance_set) (simp_all add: account_simps)
  then show ?thesis
    using a(2,3) by (auto simp: fee_of_def tk_def split: if_splits)
qed

lemma forced_exit_conserves:
  assumes "forced_exit_apply_op s op = Ok ((fee, us), s')"
    and ne: "fe_initiator_account_id (feop_tx op) \<noteq> feop_target_account_id op"
  shows "total_balance s' t + op_outflow (OpForcedExit op) t + fee_of fee t = total_balance s t"
proof -
  define tk where "tk = fe_token (feop_tx op)"
  obtain a b where a: "get_account s (fe_initiator_account_id (feop_tx op)) = Some a"
    "get_account s (feop_target_account_id op) = Some b" "fe_fee (feop_tx op) \<le> get_balance a tk"
    "get_balance b tk = (case feop_withdraw_amount op of Some w \<Rightarrow> w | None \<Rightarrow> 0)"
    "fee = Some \<lparr>cf_token = tk, cf_amount = fe_fee (feop_tx op)\<rparr>"
    "s' = insert_account (feop_target_account_id op) (set_balance b tk 0)
      (insert_account (fe_initiator_account_id (feop_tx op)) ((set_balance a tk
        (get_balance a tk - fe_fee (feop_tx op)))\<lparr>acc_nonce := acc_nonce a + 1\<rparr>) s)"
    using assms(1) by (auto simp: apply_op_Ok Let_def tk_def)
  define s1 where "s1 = insert_account (fe_initiator_account_id (feop_tx op)) ((set_balance a tk
        (get_balance a tk - fe_fee (feop_tx op)))\<lparr>acc_nonce := acc_nonce a + 1\<rparr>) s"
  have "get_account s1 (feop_target_account_id op) = Some b"
    using a(2) ne by (auto simp: s1_def state_simps)
  then have "total_balance s' t + (if t = tk then get_balance b tk else 0)
      = total_balance s1 t + (if t = tk then 0 else 0)"
    unfolding a(6) s1_def [symmetric] by (intro total_balance_set) (simp_all add: account_simps)
  moreover have "total_balance s1 t + (if t = tk then get_balance a tk else 0) = total_balance s t
      + (if t = tk then get_balance a tk - fe_fee (feop_tx op) else 0)"
    unfolding s1_def using a(1) by (intro total_balance_set) (simp_all add: account_simps)
  ultimately show ?thesis
    using a(3,4,5) by (auto simp: fee_of_def tk_def split: if_splits option.splits)
qed

lemma deposit_conserves:
  assumes "deposit_apply_op s op = Ok ((fee, us), s')"
  shows "fee = None \<and> total_balance s' t = total_balance s t + op_inflow (OpDeposit op) t"
proof (cases "get_account s (depop_account_id op)")
  case None
  then show ?thesis
    using assms by (auto simp: apply_op_Ok Let_def total_balance_new account_simps)
next
  case (Some a)
  define tk where "tk = dep_token (depop_priority_op op)"
  have s': "fee = None" "s' = insert_account (depop_account_id op)
      (add_balance a tk (dep_amount (depop_priority_op op))) s"
    using assms Some by (auto simp: apply_op_Ok Let_def tk_def)
  have "total_balance s' t + (if t = tk then get_balance a tk else 0) = total_balance s t
      + (if t = tk then get_balance a tk + dep_amount (depop_priority_op op) else 0)"
    unfolding s'(2) using Some by (intro total_balance_set) (simp_all add: account_simps)
  then show ?thesis
    using s'(1) by (auto simp: tk_def split: if_splits)
qed

lemma full_exit_conserves:
  assumes "full_exit_apply_op s op = Ok ((fee, us), s')"
  shows "fee = None \<and> total_balance s' t + op_outflow (OpFullExit op) t = total_balance s t"
proof (cases "fxop_withdraw_amount op")
  case None
  then show ?thesis
    using assms by (auto simp: apply_op_Ok)
next
  case (Some w)
  define tk where "tk = fx_token (fxop_priority_op op)"
  obtain a where a: "get_account s (fx_account_id (fxop_priority_op op)) = Some a" "w = get_balance a tk"
    "fee = None" "s' = insert_account (fx_account_id (fxop_priority_op op)) (set_balance a tk 0) s"
    using assms Some by (auto simp: apply_op_Ok Let_def tk_def)
  have "total_balance s' t + (if t = tk then get_balance a tk else 0) = total_balance s t
      + (if t = tk then 0 else 0)"
    unfolding a(4) using a(1) by (intro total_balance_set) (simp_all add: account_simps)
  then show ?thesis
    using a(2,3) Some by (auto simp: tk_def split: if_splits)
qed

lemma execute_tx_conserves:
  assumes "execute_tx c s tx = Ok (succ, s')" "signer_nonzero c tx"
  shows "total_balance s' t + op_outflow (os_executed_op succ) t + fee_of (os_fee succ) t = total_balance s t"
proof (cases tx)
  case (TxTransfer tr)
  then obtain o' us where o': "transfer_apply_op s o' = Ok ((os_fee succ, us), s')"
    "os_executed_op succ = into_franklin_op o'"
    using assms by (auto simp: execute_tx_Ok)
  have "op_outflow (into_franklin_op o') t = 0"
    by (cases o') auto
  then show ?thesis
    using transfer_conserves [OF o'(1), of t] o'(2) by simp
next
  case (TxForcedExit f)
  then obtain o' us where o': "forced_exit_create_op c s f = Ok o'"
    "forced_exit_apply_op s o' = Ok ((os_fee succ, us), s')" "os_executed_op succ = OpForcedExit o'"
    using assms by (auto simp: execute_tx_Ok)
  moreover have "fe_initiator_account_id (feop_tx o') \<noteq> feop_target_account_id o'"
    using o'(1) assms(2) TxForcedExit by (auto simp: create_op_Ok)
  ultimately show ?thesis
    using forced_exit_conserves by simp
next
  case (TxWithdraw w)
  then show ?thesis
    using assms(1) withdraw_conserves by (auto simp: execute_tx_Ok)
next
  case (TxChangePubKey w)
  then show ?thesis
    using assms(1) change_pub_key_conserves by (fastforce simp: execute_tx_Ok)
qed (use assms in \<open>auto simp: execute_tx_Ok\<close>)

lemma execute_priority_op_conserves:
  assumes "execute_priority_op s p = Ok (succ, s')"
  shows "os_fee succ = None \<and> total_balance s' t + op_outflow (os_executed_op succ) t
    = total_balance s t + op_inflow (os_executed_op succ) t"
proof (cases p)
  case (PrioDeposit d)
  then show ?thesis
    using assms deposit_conserves by (fastforce simp: execute_priority_op_Ok)
next
  case (PrioFullExit f)
  then show ?thesis
    using assms full_exit_conserves by (fastforce simp: execute_priority_op_Ok)
qed


text \<open>C6: a successful transaction creates and destroys no funds: for every token, what was in the
  accounts of the whole state before is what is there after, plus what leaves to L1 (a withdrawal or
  a forced exit), plus the fee that is handed to the block.\<close>

theorem tx_conserves_funds:
  assumes "execute_tx c s tx = Ok (succ, s')" "signer_nonzero c tx"
  shows "total_balance s' t + op_outflow (os_executed_op succ) t + fee_of (os_fee succ) t = total_balance s t"
  using assms by (rule execute_tx_conserves)

theorem tx_conserves_funds_witness:
  "\<exists>succ s'. execute_tx sample_crypto sample_state sample_tx = Ok (succ, s')
    \<and> total_balance s' 2 + op_outflow (os_executed_op succ) 2 + fee_of (os_fee succ) 2 = total_balance sample_state 2"
proof -
  obtain succ s' where "execute_tx sample_crypto sample_state sample_tx = Ok (succ, s')"
    using sample_tx_executes by blast
  moreover have "signer_nonzero sample_crypto sample_tx"
    by (simp add: sample_tx_def)
  ultimately show ?thesis
    using tx_conserves_funds by blast
qed

text \<open>A priority operation changes the funds by exactly what it brings in or takes out: a deposit
  adds its amount to the total of its token, a full exit removes what it reports as withdrawn, and
  neither collects a fee.\<close>

lemma priority_op_conserves_funds:
  assumes "execute_priority_op s p = Ok (succ, s')"
  shows "os_fee succ = None \<and> total_balance s' t + op_outflow (os_executed_op succ) t
    = total_balance s t + op_inflow (os_executed_op succ) t"
  using assms by (rule execute_priority_op_conserves)

lemma sample_deposit_executes: "\<exists>succ s'. execute_priority_op sample_state
    (PrioDeposit \<lparr>dep_from = 1, dep_token = 2, dep_amount = 40, dep_to = 17\<rparr>) = Ok (succ, s')"
  by (auto simp: execute_priority_op_Ok create_op_Ok apply_op_Ok sample_lookup sample_ids Let_def)

lemma priority_op_conserves_funds_example: "\<exists>succ s'. execute_priority_op sample_state
    (PrioDeposit \<lparr>dep_from = 1, dep_token = 2, dep_amount = 40, dep_to = 17\<rparr>) = Ok (succ, s')
    \<and> total_balance s' 2 + op_outflow (os_executed_op succ) 2
      = total_balance sample_state 2 + op_inflow (os_executed_op succ) 2"
  using sample_deposit_executes priority_op_conserves_funds by blast

section \<open>Authorisation and nonces\<close>

fun tx_initiator :: "zksync_tx \<Rightarrow> account_id" where
  "tx_initiator (TxTransfer t) = tr_account_id t"
| "tx_initiator (TxWithdraw t) = wd_account_id t"
| "tx_initiator (TxClose t) = 0"
| "tx_initiator (TxChangePubKey t) = cp_account_id t"
| "tx_initiator (TxForcedExit t) = fe_initiator_account_id t"

fun tx_signer :: "crypto \<Rightarrow> zksync_tx \<Rightarrow> (unit, pubkey_hash option) res" where
  "tx_signer c (TxTransfer t) = transfer_verify_signature c t"
| "tx_signer c (TxWithdraw t) = withdraw_verify_signature c t"
| "tx_signer c (TxClose t) = close_verify_signature c t"
| "tx_signer c (TxChangePubKey t) = change_pub_key_verify_signature c t"
| "tx_signer c (TxForcedExit t) = forced_exit_verify_signature c t"

text \<open>Who may be harmed by a transaction: its signer, the account whose key is changed on its
  Ethereum signature (an empty one stands for an authorisation on L1), and the owner of a
  locked account that is forced out to its own address.\<close>

fun authorised :: "crypto \<Rightarrow> zksync_tx \<Rightarrow> account_id \<Rightarrow> account \<Rightarrow> bool" where
  "authorised c (TxChangePubKey t) i a \<longleftrightarrow> i = cp_account_id t \<and> acc_address a = cp_account t
     \<and> change_pub_key_verify_signature c t = Ok (Some (cp_new_pk_hash t))
     \<and> (cp_eth_signature t = None \<or> verify_eth_signature c t = Some (acc_address a))"
| "authorised c (TxForcedExit t) i a \<longleftrightarrow>
     i = fe_initiator_account_id t \<and> forced_exit_verify_signature c t = Ok (Some (acc_pub_key_hash a))
     \<or> acc_address a = fe_target t \<and> acc_pub_key_hash a = 0"
| "authorised c tx i a \<longleftrightarrow> i = tx_initiator tx \<and> acc_pub_key_hash a \<noteq> 0
     \<and> tx_signer c tx = Ok (Some (acc_pub_key_hash a))"

text \<open>The account keeps its address, key and nonce, and loses nothing.\<close>

definition unharmed :: "zk_state \<Rightarrow> account_id \<Rightarrow> account \<Rightarrow> bool" where
  "unharmed s' i a \<longleftrightarrow> (\<exists>a'. get_account s' i = Some a' \<and> acc_address a' = acc_address a
    \<and> acc_pub_key_hash a' = acc_pub_key_hash a \<and> acc_nonce a' = acc_nonce a
    \<and> (\<forall>t. get_balance a t \<le> get_balance a' t))"

lemma unharmed_same: "get_account s' i = Some a \<Longrightarrow> unharmed s' i a"
  by (simp add: unharmed_def)

lemma transfer_harms_signer:
  assumes "transfer_apply_op s op = Ok ((fee, us), s')" "get_account s i = Some a"
    "i \<noteq> (case op of OutcomeTransfer op' \<Rightarrow> trop_from op' | OutcomeTransferToNew op' \<Rightarrow> tnop_from op')"
  shows "unharmed s' i a"
proof (cases op)
  case (OutcomeTransfer op')
  then show ?thesis
    using assms by (auto simp: apply_op_Ok Let_def state_simps account_simps address_simps unharmed_def
        split: if_splits)
next
  case (OutcomeTransferToNew op')
  then show ?thesis
    using assms by (auto simp: apply_op_Ok Let_def state_simps unharmed_def)
qed

lemma initiator_authorised:
  assumes "execute_tx c s tx = Ok (succ, s')" "get_account s (tx_initiator tx) = Some a"
    "index_ok s"
  shows "authorised c tx (tx_initiator tx) a"
proof (cases tx)
  case (TxChangePubKey t)
  have "fmlookup (zs_index s) (cp_account t) = Some (cp_account_id t)"
    using assms(1) TxChangePubKey by (auto simp: execute_tx_Ok create_op_Ok)
  then have "acc_address a = cp_account t"
    using index_ok_index [OF assms(3)] assms(2) TxChangePubKey by force
  then show ?thesis
    using assms TxChangePubKey by (auto simp: execute_tx_Ok create_op_Ok)
qed (use assms in \<open>auto simp: execute_tx_Ok create_op_Ok\<close>)

lemma others_unharmed:
  assumes "execute_tx c s tx = Ok (succ, s')" "index_ok s" "get_account s i = Some a" "i \<noteq> tx_initiator tx"
    "\<not> authorised c tx i a"
  shows "unharmed s' i a"
proof (cases tx)
  case (TxTransfer t)
  then obtain o' fee us where o': "transfer_create_op c s t = Ok o'" "transfer_apply_op s o' = Ok ((fee, us), s')"
    using assms(1) by (auto simp: execute_tx_Ok)
  then show ?thesis
    using assms(3,4) TxTransfer
    by (intro transfer_harms_signer [OF o'(2)]) (auto simp: create_op_Ok split: option.splits)
next
  case (TxForcedExit t)
  then obtain o' fee us where o': "forced_exit_create_op c s t = Ok o'" "forced_exit_apply_op s o' = Ok ((fee, us), s')"
    using assms(1) by (auto simp: execute_tx_Ok)
  have "i \<noteq> feop_target_account_id o'"
    using o'(1) assms(2,3,5) TxForcedExit index_ok_index [OF assms(2), of "fe_target t"]
    by (auto simp: create_op_Ok)
  then show ?thesis
    using o' assms(3,4) TxForcedExit
    by (auto simp: create_op_Ok apply_op_Ok Let_def state_simps intro: unharmed_same)
qed (use assms in \<open>auto simp: execute_tx_Ok create_op_Ok apply_op_Ok Let_def state_simps intro!: unharmed_same\<close>)

text \<open>C7: only those accounts lose funds, or have their key, nonce or address changed, that
  authorised it: on a consistent state, every account for which a successful transaction does not
  carry the authorisation of its owner (the signature by its key; for a change of key also that of its
  Ethereum address unless L1 vouches for it; or being a locked account forced out to its own address)
  keeps address, key and nonce, and none of its balances shrinks.\<close>

theorem tx_harms_only_authorised:
  assumes "execute_tx c s tx = Ok (succ, s')" "state_inv s" "get_account s i = Some a"
  shows "authorised c tx i a \<or> unharmed s' i a"
  using assms initiator_authorised others_unharmed unfolding state_inv_def by metis

theorem tx_harms_only_authorised_witness:
  "\<exists>succ s'. execute_tx sample_crypto sample_state sample_tx = Ok (succ, s')
    \<and> authorised sample_crypto sample_tx 1 (sample_account 17 99 3 5000)
    \<and> unharmed s' 2 (sample_account 30 0 0 70)"
proof -
  obtain succ s' where e: "execute_tx sample_crypto sample_state sample_tx = Ok (succ, s')"
    using sample_tx_executes by blast
  note harm = tx_harms_only_authorised [OF e sample_state_ok(1)]
  have "unharmed s' 2 (sample_account 30 0 0 70)"
    using harm [of 2] by (simp add: sample_lookup sample_tx_def)
  then show ?thesis
    using e by (auto simp: sample_tx_def withdraw_verify_signature_def verify_signature_with_def)
qed


text \<open>The nonce an account has in a state.\<close>

definition nonce_at :: "zk_state \<Rightarrow> account_id \<Rightarrow> nonce option" where
  "nonce_at s i = map_option acc_nonce (get_account s i)"

lemma nonce_at_insert: "nonce_at (insert_account i a s) j = (if j = i then Some (acc_nonce a) else nonce_at s j)"
  by (simp add: nonce_at_def state_simps)

lemma transfer_nonces:
  assumes "transfer_create_op c s t = Ok op" "transfer_apply_op s op = Ok ((fee, us), s')"
  shows "nonce_at s (tr_account_id t) = Some (tr_nonce t) \<and> nonce_at s' (tr_account_id t) = Some (tr_nonce t + 1)
    \<and> (\<forall>j. j \<noteq> tr_account_id t \<longrightarrow> nonce_at s j \<noteq> None \<longrightarrow> nonce_at s' j = nonce_at s j)"
proof (cases op)
  case (OutcomeTransfer op')
  then show ?thesis
    using assms by (auto simp: create_op_Ok apply_op_Ok Let_def nonce_at_insert address_simps
        split: if_splits option.splits) (auto simp: nonce_at_def)
next
  case (OutcomeTransferToNew op')
  then show ?thesis
    using assms by (auto simp: create_op_Ok apply_op_Ok Let_def nonce_at_insert address_simps
        split: option.splits) (auto simp: nonce_at_def)
qed

lemma forced_exit_nonces:
  assumes "forced_exit_create_op c s t = Ok op" "forced_exit_apply_op s op = Ok ((fee, us), s')"
    "forced_exit_verify_signature c t \<noteq> Ok (Some 0)"
  shows "nonce_at s (fe_initiator_account_id t) = Some (fe_nonce t)
    \<and> nonce_at s' (fe_initiator_account_id t) = Some (fe_nonce t + 1)
    \<and> (\<forall>j. j \<noteq> fe_initiator_account_id t \<longrightarrow> nonce_at s j \<noteq> None \<longrightarrow> nonce_at s' j = nonce_at s j)"
proof -
  have "feop_target_account_id op \<noteq> fe_initiator_account_id t"
    using assms(1,3) by (auto simp: create_op_Ok)
  then show ?thesis
    using assms(1,2) by (auto simp: create_op_Ok apply_op_Ok Let_def nonce_at_insert address_simps)
      (auto simp: nonce_at_def)
qed

lemma execute_tx_nonces:
  assumes "execute_tx c s tx = Ok (succ, s')" "signer_nonzero c tx"
  shows "nonce_at s (tx_initiator tx) = Some (tx_nonce tx) \<and> nonce_at s' (tx_initiator tx) = Some (tx_nonce tx + 1)
    \<and> (\<forall>j. j \<noteq> tx_initiator tx \<longrightarrow> nonce_at s j \<noteq> None \<longrightarrow> nonce_at s' j = nonce_at s j)"
proof (cases tx)
  case (TxTransfer t)
  then show ?thesis
    using assms transfer_nonces by (fastforce simp: execute_tx_Ok)
next
  case (TxForcedExit t)
  then show ?thesis
    using assms forced_exit_nonces by (fastforce simp: execute_tx_Ok)
next
  case (TxWithdraw t)
  then show ?thesis
    using assms by (auto simp: execute_tx_Ok create_op_Ok apply_op_Ok Let_def nonce_at_insert)
      (auto simp: nonce_at_def)
next
  case (TxChangePubKey t)
  then show ?thesis
    using assms by (auto simp: execute_tx_Ok create_op_Ok apply_op_Ok Let_def nonce_at_insert address_simps)
      (auto simp: nonce_at_def)
qed (use assms in \<open>auto simp: execute_tx_Ok\<close>)

lemma execute_tx_needs_nonce:
  assumes "execute_tx c s tx = Ok (succ, s')"
  shows "nonce_at s (tx_initiator tx) = Some (tx_nonce tx)"
proof (cases tx)
  case (TxTransfer t)
  then show ?thesis
    using assms transfer_nonces by (fastforce simp: execute_tx_Ok)
qed (use assms in \<open>auto simp: execute_tx_Ok create_op_Ok apply_op_Ok Let_def nonce_at_def\<close>)

text \<open>A transaction is only executed at the nonce of its initiator, whose nonce it advances by one
  (modulo 2^32), while all other accounts keep theirs.\<close>

lemma tx_advances_nonce:
  assumes "execute_tx c s tx = Ok (succ, s')" "signer_nonzero c tx"
  shows "nonce_at s (tx_initiator tx) = Some (tx_nonce tx) \<and> nonce_at s' (tx_initiator tx) = Some (tx_nonce tx + 1)
    \<and> (\<forall>j. j \<noteq> tx_initiator tx \<longrightarrow> nonce_at s j \<noteq> None \<longrightarrow> nonce_at s' j = nonce_at s j)"
  using assms by (rule execute_tx_nonces)

lemma tx_advances_nonce_example:
  "\<exists>succ s'. execute_tx sample_crypto sample_state sample_tx = Ok (succ, s') \<and> nonce_at s' 1 = Some 4"
proof -
  obtain succ s' where "execute_tx sample_crypto sample_state sample_tx = Ok (succ, s')"
    using sample_tx_executes by blast
  moreover have "signer_nonzero sample_crypto sample_tx"
    by (simp add: sample_tx_def)
  ultimately have "nonce_at s' (tx_initiator sample_tx) = Some (tx_nonce sample_tx + 1)"
    using tx_advances_nonce by blast
  then show ?thesis
    using \<open>execute_tx _ _ _ = _\<close> by (auto simp: sample_tx_def sample_withdraw_def)
qed

text \<open>C8: no transaction is executed twice: executed again on the state it led to (or on any
  consistent state where the initiator has the nonce it had after the first execution), it is refused
  with an error, not with a panic.\<close>

theorem tx_not_replayable:
  assumes "execute_tx c s tx = Ok (succ, s')" "signer_nonzero c tx" "tx_get_bytes tx = Ok b"
    "state_inv s''" "account_count s'' < 2 ^ 32" "nonce_at s'' (tx_initiator tx) = nonce_at s' (tx_initiator tx)"
  shows "\<exists>e. execute_tx c s'' tx = Err e"
proof (cases "execute_tx c s'' tx")
  case (Ok r)
  then have "nonce_at s'' (tx_initiator tx) = Some (tx_nonce tx)"
    using execute_tx_needs_nonce by (cases r) blast
  then show ?thesis
    using execute_tx_nonces [OF assms(1,2)] assms(6) by simp
next
  case Panic
  then show ?thesis
    using execute_tx_not_Panic [OF assms(4,5,3)] by simp
qed simp

theorem tx_not_replayable_witness:
  "\<exists>succ s' e. execute_tx sample_crypto sample_state sample_tx = Ok (succ, s')
    \<and> execute_tx sample_crypto s' sample_tx = Err e"
proof -
  obtain succ s' where e: "execute_tx sample_crypto sample_state sample_tx = Ok (succ, s')"
    using sample_tx_executes by blast
  obtain b where "tx_get_bytes sample_tx = Ok b"
    using sample_tx_bytes by blast
  moreover have "signer_nonzero sample_crypto sample_tx"
    by (simp add: sample_tx_def)
  moreover have "state_inv s'"
    using execute_tx_index_ok [OF e] execute_tx_dense [OF e] sample_state_ok by (simp add: state_inv_def)
  moreover have "account_count s' = 3"
    using e by (auto simp: sample_tx_def execute_tx_Ok apply_op_Ok account_count_insert sample_state_ok Let_def)
  ultimately show ?thesis
    using e tx_not_replayable [OF e, of b s'] by auto
qed

end
