(* ===== verification/StateUpdates.thy ===== *)
theory StateUpdates
  imports StateFunds
begin

text \<open>
  What the account updates of operations are good for: applied to the old state they lead to
  the new one, applied in reverse they roll it back.  The execution of a batch is compared with
  the one-after-another execution of its transactions; a roll back leaves default leaves in
  the tree, and what follows from that for the choice of new account ids.
\<close>

section \<open>Applying updates that fit\<close>

fun touches :: "account_update \<Rightarrow> bool" where
  "touches (UpdateBalance old_nonce new_nonce x) = True"
| "touches (ChangePubKeyHash old_hash new_hash old_nonce new_nonce) = True"
| "touches u = False"

fun creates :: "account_update \<Rightarrow> bool" where
  "creates (Create addr n) = True"
| "creates u = False"

fun deletes :: "account_update \<Rightarrow> bool" where
  "deletes (Delete addr n) = True"
| "deletes u = False"

lemma creates_reversed [simp]: "creates (reversed_update u) = deletes u"
  by (cases u rule: reversed_update.cases) auto

text \<open>A state that shows the accounts of a view, and beside them at most default leaves.\<close>

definition shows_view :: "(account_id \<Rightarrow> account_view option) \<Rightarrow> zk_state \<Rightarrow> bool" where
  "shows_view V s \<longleftrightarrow> index_ok s \<and>
    (\<forall>i. state_view s i = V i \<or> V i = None \<and> state_view s i = Some (account_view default_account))"

lemma shows_view_self: "index_ok s \<Longrightarrow> shows_view (state_view s) s"
  by (simp add: shows_view_def)

lemma shows_view_Some:
  assumes "shows_view V s" "V i = Some v"
  shows "\<exists>a. get_account s i = Some a \<and> account_view a = v"
proof -
  have "state_view s i = Some v"
    using assms by (metis option.distinct(1) shows_view_def)
  then show ?thesis
    by (auto simp: state_view_get)
qed

lemma shows_view_insert:
  assumes "shows_view V s" "get_account s i = Some b" "acc_address b = acc_address a"
  shows "shows_view (V(i := Some (account_view a))) (insert_account i a s)"
  using assms insert_account_index_ok [of s i a] may_store_same [of s i b a]
  by (auto simp: shows_view_def state_view_insert)

lemma remove_account_index_ok:
  assumes "index_ok s" "get_account s i = Some a"
  shows "index_ok (remove_account i s)"
proof (rule index_okI)
  have index: "zs_index (remove_account i s) = fmdrop (acc_address a) (zs_index s)"
    using assms(2) by (simp add: remove_account_def get_account_def)
  fix addr j
  assume "fmlookup (zs_index (remove_account i s)) addr = Some j"
  then have j: "addr \<noteq> acc_address a" "fmlookup (zs_index s) addr = Some j"
    by (auto simp: index split: if_splits)
  then obtain b where "get_account s j = Some b" "acc_address b = addr"
    using index_ok_index [OF assms(1)] by blast
  then show "\<exists>b. get_account (remove_account i s) j = Some b \<and> acc_address b = addr"
    using j assms(2) by (auto simp: state_simps)
next
  have index: "zs_index (remove_account i s) = fmdrop (acc_address a) (zs_index s)"
    using assms(2) by (simp add: remove_account_def get_account_def)
  fix j b
  assume b: "get_account (remove_account i s) j = Some b" "acc_address b \<noteq> 0"
  have j: "get_account s j = Some b" "j \<noteq> i"
    using b by (auto simp: state_simps default_account_def split: if_splits)
  have bj: "fmlookup (zs_index s) (acc_address b) = Some j"
    using j b(2) index_ok_account [OF assms(1)] by blast
  moreover have "acc_address b \<noteq> acc_address a"
    using index_ok_account [OF assms(1,2)] b(2) bj j(2) by auto
  ultimately show "fmlookup (zs_index (remove_account i s)) (acc_address b) = Some j"
    by (simp add: index)
qed

lemma state_view_remove:
  "get_account s i = Some a \<Longrightarrow>
    state_view (remove_account i s) = (state_view s)(i := Some (account_view default_account))"
  by (auto simp: fun_eq_iff state_view_get state_simps)

lemma view_eq_iff: "account_view a = (ad, h, n, b) \<longleftrightarrow>
    acc_address a = ad \<and> acc_pub_key_hash a = h \<and> acc_nonce a = n \<and> get_balance a = b"
  by (simp add: account_view_def)

text \<open>One update that fits and creates nothing is applied without a panic.\<close>

lemma apply_account_update_shows:
  assumes s: "shows_view V s" and fits: "update_fits (V i) u" and nc: "\<not> creates u"
  shows "\<exists>s'. (apply_account_update s (i, u) :: ('e, zk_state) res) = Ok s' \<and> shows_view (view_step V (i, u)) s'"
proof -
  obtain v where v: "V i = Some v"
    using fits nc by (cases "(V i, u)" rule: update_fits.cases) auto
  obtain a where a: "get_account s i = Some a" "account_view a = v"
    using shows_view_Some [OF s v] by blast
  show ?thesis
  proof (cases u)
    case (Delete addr n)
    then have "acc_address a = addr" "acc_nonce a = n"
      using fits v a(2) by (simp_all add: view_eq_iff)
    then have "(apply_account_update s (i, u) :: ('e, zk_state) res) = Ok (remove_account i s)"
      using Delete a(1) by (simp add: apply_account_update_def)
    moreover have "shows_view (V(i := None)) (remove_account i s)"
      using s remove_account_index_ok [OF _ a(1)] state_view_remove [OF a(1)] by (simp add: shows_view_def)
    ultimately show ?thesis
      using Delete v by (simp add: view_step_def)
  next
    case (UpdateBalance old_n new_n x)
    obtain t ob nb where x: "x = (t, ob, nb)"
      by (cases x) auto
    let ?a = "(set_balance a t nb)\<lparr>acc_nonce := new_n\<rparr>"
    have "acc_nonce a = old_n" "get_balance a t = ob"
      using UpdateBalance x fits v a(2) by (cases v; auto simp: view_eq_iff)+
    then have "(apply_account_update s (i, u) :: ('e, zk_state) res) = Ok (insert_account i ?a s)"
      using UpdateBalance x a(1) by (simp add: apply_account_update_def)
    moreover have "view_step V (i, u) = V(i := Some (account_view ?a))"
      using UpdateBalance x v a(2) by (cases v) (auto simp: view_step_def view_eq_iff account_view_def account_simps address_simps)
    ultimately show ?thesis
      using shows_view_insert [OF s a(1), of ?a] by (simp add: address_simps)
  next
    case (ChangePubKeyHash old_h new_h old_n new_n)
    let ?a = "a\<lparr>acc_pub_key_hash := new_h, acc_nonce := new_n\<rparr>"
    have "acc_nonce a = old_n" "acc_pub_key_hash a = old_h"
      using ChangePubKeyHash fits v a(2) by (cases v; auto simp: view_eq_iff)+
    then have "(apply_account_update s (i, u) :: ('e, zk_state) res) = Ok (insert_account i ?a s)"
      using ChangePubKeyHash a(1) by (simp add: apply_account_update_def)
    moreover have "view_step V (i, u) = V(i := Some (account_view ?a))"
      using ChangePubKeyHash v a(2) by (cases v) (auto simp: view_step_def account_view_def account_simps)
    ultimately show ?thesis
      using shows_view_insert [OF s a(1), of ?a] by simp
  qed (use nc in simp)
qed

lemma apply_account_updates_shows:
  assumes "shows_view V s" "updates_fit V us" "\<forall>iu \<in> set us. \<not> creates (snd iu)"
  shows "\<exists>s'. (apply_account_updates s us :: ('e, zk_state) res) = Ok s' \<and> shows_view (views_update V us) s'"
  using assms
proof (induction us arbitrary: V s)
  case (Cons iu us)
  then obtain s1 where "(apply_account_update s iu :: ('e, zk_state) res) = Ok s1" "shows_view (view_step V iu) s1"
    using apply_account_update_shows [of V s "fst iu" "snd iu"] by auto
  then show ?case
    using Cons by auto
qed simp

lemma apply_account_updates_append:
  "apply_account_updates s (us @ vs) = res_bind (apply_account_updates s us) (\<lambda>s. apply_account_updates s vs)"
proof (induction us arbitrary: s)
  case (Cons iu us)
  then show ?case
    by (cases "apply_account_update s iu :: ('a, zk_state) res") auto
qed simp

section \<open>Undoing updates\<close>

lemma update_fits_reversed:
  "update_fits v u \<Longrightarrow> update_fits (view_update v u) (reversed_update u)"
  by (cases "(v, u)" rule: update_fits.cases) auto

lemma updates_fit_reversed:
  "updates_fit V us \<Longrightarrow> updates_fit (views_update V us) (reverse_updates us)"
proof (induction us arbitrary: V)
  case (Cons iu us)
  moreover have "update_fits (view_step V iu (fst iu)) (reversed_update (snd iu))"
    using Cons.prems update_fits_reversed by (simp add: view_step_def)
  ultimately show ?case
    by (cases iu) (simp add: views_update_undo)
qed simp

lemma creates_in_reverse:
  "(\<forall>iu \<in> set (reverse_updates us). \<not> creates (snd iu)) \<longleftrightarrow> (\<forall>iu \<in> set us. \<not> deletes (snd iu))"
  by (simp add: reverse_updates_def case_prod_unfold)

text \<open>Reversed updates without a deletion take back what they did, but for default leaves.\<close>

lemma undo_updates:
  assumes "updates_fit V us" "\<forall>iu \<in> set us. \<not> deletes (snd iu)" "shows_view (views_update V us) s"
  shows "\<exists>s'. apply_account_updates s (reverse_updates us) = Ok s' \<and> shows_view V s'"
proof -
  have "\<forall>iu \<in> set (reverse_updates us). \<not> creates (snd iu)"
    using assms(2) creates_in_reverse by blast
  then show ?thesis
    using apply_account_updates_shows [OF assms(3) updates_fit_reversed [OF assms(1)]]
    by (simp add: views_update_undo [OF assms(1)])
qed

lemma execute_tx_no_delete:
  assumes "execute_tx c s tx = Ok (succ, s')"
  shows "\<forall>iu \<in> set (os_updates succ). \<not> deletes (snd iu)"
proof (cases tx)
  case (TxTransfer t)
  then obtain o' fee where "transfer_apply_op s o' = Ok ((fee, os_updates succ), s')"
    using assms by (auto simp: execute_tx_Ok)
  then show ?thesis
    by (cases o') (auto simp: apply_op_Ok Let_def split: if_splits)
qed (use assms in \<open>auto simp: execute_tx_Ok apply_op_Ok Let_def\<close>)


section \<open>Batches\<close>

text \<open>The specification: the transactions one after the other, if all of them succeed.\<close>

fun run_all :: "crypto \<Rightarrow> zk_state \<Rightarrow> signed_tx list \<Rightarrow> (op_success list \<times> zk_state) option" where
  "run_all c s [] = Some ([], s)"
| "run_all c s (tx # txs) =
    (case execute_tx c s (stx_tx tx) of
       Ok (success, s') \<Rightarrow> map_option (\<lambda>(successes, s''). (success # successes, s'')) (run_all c s' txs)
     | r \<Rightarrow> None)"

lemma rollback_append:
  "rollback s (xs @ ys) = res_bind (rollback s xs) (\<lambda>s. rollback s ys)"
proof (induction xs arbitrary: s)
  case (Cons x xs)
  then show ?case
    by (cases "apply_account_updates s (reverse_updates (os_updates x)) :: ('a, zk_state) res") auto
qed simp

lemma reverse_updates_append: "reverse_updates (us @ vs) = reverse_updates vs @ reverse_updates us"
  by (simp add: reverse_updates_def)

lemma rollback_updates:
  "rollback s (rev xs) = apply_account_updates s (reverse_updates (concat (map os_updates xs)))"
  by (induction xs arbitrary: s rule: rev_induct)
    (simp_all add: reverse_updates_append apply_account_updates_append rollback_append)

lemma execute_tx_count:
  assumes "execute_tx c s tx = Ok (succ, s')"
  shows "account_count s' \<le> account_count s + 1"
proof (cases tx)
  case (TxTransfer t)
  then obtain o' x where "transfer_apply_op s o' = Ok (x, s')"
    using assms by (auto simp: execute_tx_Ok)
  then show ?thesis
    by (cases o') (auto simp: apply_op_Ok Let_def account_count_insert state_simps split: if_splits)
qed (use assms in \<open>auto simp: execute_tx_Ok apply_op_Ok Let_def account_count_insert state_simps\<close>)

text \<open>Transactions that can be encoded and are not signed by a key of hash zero.\<close>

definition batch_ok :: "crypto \<Rightarrow> signed_tx list \<Rightarrow> bool" where
  "batch_ok c txs \<longleftrightarrow> list_all (\<lambda>tx. signer_nonzero c (stx_tx tx) \<and> (\<exists>b. tx_get_bytes (stx_tx tx) = Ok b)) txs"

lemma batch_loop_spec:
  assumes "updates_fit V (concat (map os_updates before))" "\<forall>iu \<in> set (concat (map os_updates before)). \<not> deletes (snd iu)"
    "views_update V (concat (map os_updates before)) = state_view s"
    "state_inv s" "account_count s + size txs \<le> 2 ^ 32" "batch_ok c txs"
  shows "case run_all c s txs of
      Some (ss, s') \<Rightarrow> batch_loop c n k before s txs = Ok (map Ok (before @ ss), s')
    | None \<Rightarrow> \<exists>e s'. batch_loop c n k before s txs = Ok (replicate n (Err e), s') \<and> shows_view V s'"
  using assms
proof (induction txs arbitrary: s before k)
  case (Cons tx txs)
  have ok: "signer_nonzero c (stx_tx tx)" "\<exists>b. tx_get_bytes (stx_tx tx) = Ok b" "batch_ok c txs"
    using Cons.prems(6) by (simp_all add: batch_ok_def)
  show ?case
  proof (cases "execute_tx c s (stx_tx tx)")
    case (Ok r)
    obtain succ s1 where r: "execute_tx c s (stx_tx tx) = Ok (succ, s1)"
      using Ok by (cases r) blast
    have rep: "replays s (os_updates succ) s1"
      using execute_tx_replays [OF r ok(1)] .
    have "index_ok s" "dense s"
      using Cons.prems(4) by (simp_all add: state_inv_def)
    then have "state_inv s1"
      using execute_tx_index_ok [OF r] execute_tx_dense [OF r] Cons.prems(5) by (simp add: state_inv_def)
    moreover have "account_count s1 + size txs \<le> 2 ^ 32"
      using execute_tx_count [OF r] Cons.prems(5) by simp
    moreover have "\<forall>iu \<in> set (concat (map os_updates (before @ [succ]))). \<not> deletes (snd iu)"
      using Cons.prems(2) execute_tx_no_delete [OF r] by auto
    moreover have "updates_fit V (concat (map os_updates (before @ [succ])))"
      "views_update V (concat (map os_updates (before @ [succ]))) = state_view s1"
      using Cons.prems(1,3) rep by (simp_all add: replays_def)
    ultimately have "case run_all c s1 txs of
        Some (ss, s') \<Rightarrow> batch_loop c n (k + 1) (before @ [succ]) s1 txs = Ok (map Ok ((before @ [succ]) @ ss), s')
      | None \<Rightarrow> \<exists>e s'. batch_loop c n (k + 1) (before @ [succ]) s1 txs = Ok (replicate n (Err e), s') \<and> shows_view V s'"
      using Cons.IH ok(3) by blast
    then show ?thesis
      by (auto simp: r split: option.splits prod.splits)
  next
    case (Err e)
    have "shows_view (views_update V (concat (map os_updates before))) s"
      using shows_view_self [of s] Cons.prems(3,4) by (simp add: state_inv_def)
    then obtain s1 where "(apply_account_updates s (reverse_updates (concat (map os_updates before)))
        :: (error, zk_state) res) = Ok s1" "shows_view V s1"
      using undo_updates [OF Cons.prems(1,2)] by blast
    then show ?thesis
      using Err by (simp add: rollback_updates)
  next
    case Panic
    then show ?thesis
      using execute_tx_not_Panic [OF Cons.prems(4)] ok(2) Cons.prems(5) by fastforce
  qed
qed simp

lemma batch_executes:
  assumes "state_inv s" "account_count s + size txs \<le> 2 ^ 32" "batch_ok c txs"
  shows "case run_all c s txs of
      Some (ss, s') \<Rightarrow> execute_txs_batch c s txs = Ok (map Ok ss, s')
    | None \<Rightarrow> \<exists>e s'. execute_txs_batch c s txs = Ok (replicate (size txs) (Err e), s')
        \<and> shows_view (state_view s) s'"
  using batch_loop_spec [of "state_view s" "[]" s txs c "size txs" 0] assms
  by (simp add: execute_txs_batch_def split: option.splits prod.splits)

text \<open>C9: a batch is executed as a whole or not at all.  On a consistent state with room for the
  accounts it may create it never panics: if the transactions succeed one after the other, the
  results are their successes and the state is the last one; otherwise every transaction of the
  batch has the same error, every account is back to its address, key, nonce and balances
  of before, the address index is consistent, and no account is new, but for default leaves.\<close>

theorem batch_all_or_nothing:
  assumes "state_inv s" "account_count s + size txs \<le> 2 ^ 32" "batch_ok c txs"
  shows "case run_all c s txs of
      Some (ss, s') \<Rightarrow> execute_txs_batch c s txs = Ok (map Ok ss, s')
    | None \<Rightarrow> \<exists>e s'. execute_txs_batch c s txs = Ok (replicate (size txs) (Err e), s')
        \<and> shows_view (state_view s) s'"
  using assms by (rule batch_executes)

definition sample_signed :: signed_tx where
  "sample_signed = \<lparr>stx_tx = sample_tx, stx_eth_sign_data = None\<rparr>"

text \<open>The same withdrawal twice: the second fails, and with it the batch.\<close>

theorem batch_all_or_nothing_witness:
  "\<exists>e s'. execute_txs_batch sample_crypto sample_state [sample_signed, sample_signed]
      = Ok ([Err e, Err e], s') \<and> shows_view (state_view sample_state) s'"
proof -
  have "batch_ok sample_crypto [sample_signed, sample_signed]"
    using sample_tx_bytes by (simp add: batch_ok_def sample_signed_def sample_tx_def)
  moreover have "run_all sample_crypto sample_state [sample_signed, sample_signed] = None"
  proof -
    obtain succ s' where e: "execute_tx sample_crypto sample_state sample_tx = Ok (succ, s')"
      using sample_tx_executes by blast
    have "nonce_at s' (tx_initiator sample_tx) = Some (tx_nonce sample_tx + 1)"
      using execute_tx_nonces [OF e] by (simp add: sample_tx_def)
    then have "\<not> (\<exists>x. execute_tx sample_crypto s' sample_tx = Ok x)"
      using execute_tx_needs_nonce by fastforce
    then show ?thesis
      by (cases "execute_tx sample_crypto s' sample_tx") (auto simp: sample_signed_def e)
  qed
  ultimately show ?thesis
    using batch_all_or_nothing [of sample_state "[sample_signed, sample_signed]" sample_crypto] sample_state_ok
    by simp
qed


section \<open>Replaying updates\<close>

text \<open>Updates that create nothing keep the set of ids in use.\<close>

lemma apply_account_update_dom:
  assumes "apply_account_update s iu = Ok s'" "\<not> creates (snd iu)"
  shows "get_account s' i = None \<longleftrightarrow> get_account s i = None" "account_count s' = account_count s"
proof -
  have ids: "get_account s' i = None \<longleftrightarrow> get_account s i = None" for i
    using assms by (cases "snd iu") (auto simp: apply_account_update_def Let_def ok_iffs state_simps
        split: prod.splits if_splits)
  then show "get_account s' i = None \<longleftrightarrow> get_account s i = None" .
  have "fmdom (zs_items s') = fmdom (zs_items s)"
    using ids get_account_dom by blast
  then show "account_count s' = account_count s"
    by (simp add: account_count_def)
qed

lemma apply_account_updates_dom:
  assumes "apply_account_updates s us = Ok s'" "\<forall>iu \<in> set us. \<not> creates (snd iu)"
  shows "account_count s' = account_count s"
  using assms
proof (induction us arbitrary: s)
  case (Cons iu us)
  then show ?case
    using apply_account_update_dom(2) by (fastforce simp: ok_iffs)
qed simp

lemma apply_touching:
  assumes "index_ok s" "updates_fit (state_view s) us" "\<forall>iu \<in> set us. \<not> creates (snd iu) \<and> \<not> deletes (snd iu)"
  shows "\<exists>s'. (apply_account_updates s us :: ('e, zk_state) res) = Ok s' \<and> index_ok s'
    \<and> state_view s' = views_update (state_view s) us"
  using assms
proof (induction us arbitrary: s)
  case (Cons iu us)
  then obtain s1 where s1: "(apply_account_update s iu :: ('e, zk_state) res) = Ok s1"
    "shows_view (view_step (state_view s) iu) s1"
    using apply_account_update_shows [OF shows_view_self, of s "fst iu" "snd iu"] by auto
  have "state_view s1 = view_step (state_view s) iu"
  proof
    fix i
    have "view_step (state_view s) iu i = None \<longleftrightarrow> state_view s i = None"
      using Cons.prems(2,3) by (cases "(state_view s (fst iu), snd iu)" rule: update_fits.cases)
        (auto simp: view_step_def)
    moreover have "state_view s1 i = None \<longleftrightarrow> state_view s i = None"
      using apply_account_update_dom(1) [OF s1(1)] Cons.prems(3) by (simp add: state_view_get)
    ultimately show "state_view s1 i = view_step (state_view s) iu i"
      using s1(2) by (metis shows_view_def)
  qed
  moreover have "index_ok s1"
    using s1(2) by (simp add: shows_view_def)
  ultimately show ?case
    using Cons.IH [of s1] Cons.prems(2,3) s1(1) by auto
qed simp

text \<open>The updates of an operation create at most one account, first and under a new address.\<close>

definition creates_first :: "zk_state \<Rightarrow> account_updates \<Rightarrow> bool" where
  "creates_first s us \<longleftrightarrow>
    (\<forall>iu \<in> set (tl us). \<not> creates (snd iu)) \<and> (\<forall>iu \<in> set us. \<not> deletes (snd iu)) \<and>
    (case us of [] \<Rightarrow> True
     | (i, u) # us \<Rightarrow> creates u \<longrightarrow> (\<exists>addr n. u = Create addr n \<and> fmlookup (zs_index s) addr = None))"

lemma execute_tx_creates_first:
  assumes "execute_tx c s tx = Ok (succ, s')"
  shows "creates_first s (os_updates succ)"
proof (cases tx)
  case (TxTransfer t)
  then obtain o' fee where o': "transfer_create_op c s t = Ok o'"
    "transfer_apply_op s o' = Ok ((fee, os_updates succ), s')"
    using assms by (auto simp: execute_tx_Ok)
  then show ?thesis
    by (cases o') (auto simp: create_op_Ok apply_op_Ok Let_def creates_first_def split: if_splits option.splits)
qed (use assms in \<open>auto simp: execute_tx_Ok apply_op_Ok Let_def creates_first_def\<close>)

lemma execute_priority_op_creates_first:
  assumes "execute_priority_op s p = Ok (succ, s')" "dense s" "account_count s < 2 ^ 32"
  shows "creates_first s (os_updates succ)"
proof (cases p)
  case (PrioDeposit d)
  then show ?thesis
    using assms(1) free_id_unused [OF assms(2,3)]
    by (cases "fmlookup (zs_index s) (dep_to d)")
      (auto simp: execute_priority_op_Ok create_op_Ok deposit_apply_op_Ok Let_def creates_first_def)
next
  case (PrioFullExit f)
  then show ?thesis
    using assms(1) by (auto simp: execute_priority_op_Ok full_exit_apply_op_Ok Let_def creates_first_def
        split: option.splits)
qed

lemma updates_replay:
  assumes "index_ok s" "creates_first s us" "replays s us s'"
  shows "\<exists>s2. (apply_account_updates s us :: ('e, zk_state) res) = Ok s2 \<and> index_ok s2 \<and> state_view s2 = state_view s'"
proof (cases "us \<noteq> [] \<and> creates (snd (hd us))")
  case False
  then have "\<forall>iu \<in> set us. \<not> creates (snd iu) \<and> \<not> deletes (snd iu)"
    using assms(2) by (cases us) (auto simp: creates_first_def)
  then show ?thesis
    using apply_touching [of s us] assms(1,3) by (auto simp: replays_def)
next
  case True
  then obtain i addr n vs where us: "us = (i, Create addr n) # vs" "fmlookup (zs_index s) addr = None"
    "\<forall>iu \<in> set vs. \<not> creates (snd iu) \<and> \<not> deletes (snd iu)"
    using assms(2) by (cases us) (auto simp: creates_first_def)
  let ?a = "default_account\<lparr>acc_address := addr, acc_nonce := n\<rparr>"
  have none: "get_account s i = None"
    using assms(3) us(1) by (cases "get_account s i") (auto simp: replays_def state_view_get)
  have 1: "(apply_account_update s (i, Create addr n) :: ('e, zk_state) res) = Ok (insert_account i ?a s)"
    using us(2) by (simp add: apply_account_update_def get_account_by_address_def)
  have 2: "index_ok (insert_account i ?a s)"
    using assms(1) none us(2) by (intro insert_account_index_ok) (simp_all add: may_store_def)
  have 3: "state_view (insert_account i ?a s) = view_step (state_view s) (i, Create addr n)"
    using none by (simp add: state_view_insert view_step_def state_view_get account_view_parts account_simps
        default_account_fields)
  show ?thesis
    using apply_touching [of "insert_account i ?a s" vs] 1 2 3 us assms(3) by (auto simp: replays_def)
qed

lemma updates_undo:
  assumes "index_ok s'" "creates_first s us" "replays s us s'"
  shows "\<exists>s2. apply_account_updates s' (reverse_updates us) = Ok s2 \<and> shows_view (state_view s) s2"
  using assms undo_updates [of "state_view s" us s'] shows_view_self [of s'] by (simp add: replays_def creates_first_def)

text \<open>C10: the account updates that a transaction reports are complete and correct: applied to the state
  before, they give (without one of the checks of the update failing) the accounts of the state
  after; reversed and applied to the state after, they give back the accounts of the state before, at
  most with a default leaf where an account had been created.\<close>

theorem tx_updates_replay_and_undo:
  assumes "execute_tx c s tx = Ok (succ, s')" "signer_nonzero c tx" "state_inv s" "account_count s < 2 ^ 32"
  shows "(\<exists>s2. apply_account_updates s (os_updates succ) = Ok s2 \<and> state_view s2 = state_view s')
    \<and> (\<exists>s2. apply_account_updates s' (reverse_updates (os_updates succ)) = Ok s2 \<and> shows_view (state_view s) s2)"
  using updates_replay [OF _ execute_tx_creates_first execute_tx_replays, OF _ assms(1,1,2)]
    updates_undo [OF _ execute_tx_creates_first execute_tx_replays, OF _ assms(1,1,2)]
    execute_tx_index_ok [OF assms(1)] assms(3) by (auto simp: state_inv_def)

theorem tx_updates_replay_and_undo_witness:
  "\<exists>succ s' s2. execute_tx sample_crypto sample_state sample_tx = Ok (succ, s')
    \<and> apply_account_updates sample_state (os_updates succ) = Ok s2 \<and> state_view s2 = state_view s'"
proof -
  obtain succ s' where e: "execute_tx sample_crypto sample_state sample_tx = Ok (succ, s')"
    using sample_tx_executes by blast
  have "signer_nonzero sample_crypto sample_tx"
    by (simp add: sample_tx_def)
  then show ?thesis
    using e tx_updates_replay_and_undo [OF e] sample_state_ok by auto
qed

text \<open>The account updates of a priority operation replay and undo it in the same way.\<close>

lemma priority_updates_replay_and_undo:
  assumes "(execute_priority_op s p :: (error, _) res) = Ok (succ, s')" "state_inv s" "account_count s < 2 ^ 32"
  shows "(\<exists>s2. (apply_account_updates s (os_updates succ) :: (error, _) res) = Ok s2 \<and> state_view s2 = state_view s')
    \<and> (\<exists>s2. (apply_account_updates s' (reverse_updates (os_updates succ)) :: (error, _) res) = Ok s2 \<and> shows_view (state_view s) s2)"
proof -
  have inv: "index_ok s" "dense s" "index_ok s'"
    using assms(2) execute_priority_op_index_ok [OF assms(1)] by (auto simp: state_inv_def)
  note first = execute_priority_op_creates_first [OF assms(1) inv(2) assms(3)]
  show ?thesis
    using updates_replay [OF inv(1) first execute_priority_op_replays [OF assms(1)]]
      updates_undo [OF inv(3) first execute_priority_op_replays [OF assms(1)]] by blast
qed

lemma priority_updates_replay_and_undo_example: "\<exists>succ s' s2. (execute_priority_op sample_state
    (PrioDeposit \<lparr>dep_from = 1, dep_token = 2, dep_amount = 40, dep_to = 17\<rparr>) :: (error, _) res) = Ok (succ, s')
    \<and> (apply_account_updates s' (reverse_updates (os_updates succ)) :: (error, _) res) = Ok s2
    \<and> shows_view (state_view sample_state) s2"
proof -
  obtain succ s' where e: "(execute_priority_op sample_state
    (PrioDeposit \<lparr>dep_from = 1, dep_token = 2, dep_amount = 40, dep_to = 17\<rparr>) :: (error, _) res) = Ok (succ, s')"
    using sample_deposit_executes by blast
  then show ?thesis
    using priority_updates_replay_and_undo [OF e] sample_state_ok by auto
qed

section \<open>Default leaves and free ids\<close>

text \<open>The roll back of a transaction that created an account does not free its id: the next free id
  is one higher than it was before, because the removed account's default leaf still counts
  as a leaf of the tree.\<close>

lemma rollback_keeps_created_id:
  assumes "execute_tx c s tx = Ok (succ, s')" "signer_nonzero c tx" "state_inv s" "account_count s < 2 ^ 32"
    "get_account s i = None" "get_account s' i \<noteq> None"
  shows "\<exists>s2. (rollback s' [succ] :: ('e, zk_state) res) = Ok s2 \<and> shows_view (state_view s) s2
    \<and> get_free_account_id s2 = get_free_account_id s + 1"
proof -
  obtain s2 where s2: "(apply_account_updates s' (reverse_updates (os_updates succ)) :: ('e, zk_state) res) = Ok s2"
    "shows_view (state_view s) s2"
    using updates_undo [OF _ execute_tx_creates_first execute_tx_replays, OF _ assms(1,1,2)]
      execute_tx_index_ok [OF assms(1)] assms(3) by (auto simp: state_inv_def)
  have "\<forall>iu \<in> set (reverse_updates (os_updates succ)). \<not> creates (snd iu)"
    using execute_tx_no_delete [OF assms(1)] creates_in_reverse by blast
  then have "account_count s2 = account_count s'"
    using apply_account_updates_dom [OF s2(1)] by blast
  moreover have "account_count s' = account_count s + 1"
  proof (rule antisym)
    show "account_count s' \<le> account_count s + 1"
      using execute_tx_count [OF assms(1)] .
    have "dense s" "dense s'"
      using assms(3,4) execute_tx_dense [OF assms(1)] by (simp_all add: state_inv_def)
    then show "account_count s + 1 \<le> account_count s'"
      using assms(5,6) denseD [of s i] denseD [of s' i] by simp
  qed
  ultimately have "get_free_account_id s2 = get_free_account_id s + 1"
    by (simp add: get_free_account_id_def account_count_def)
  then show ?thesis
    using s2 by simp
qed


definition sample_transfer :: zksync_tx where
  "sample_transfer = TxTransfer \<lparr>tr_account_id = 1, tr_from = 17, tr_to = 55, tr_token = 2, tr_amount = 1000,
    tr_fee = 0, tr_nonce = 3, tr_signature = default_signature, tr_cached_signer = Cached (Some 99)\<rparr>"

lemma rollback_keeps_created_id_example:
  "\<exists>succ s' s2. execute_tx sample_crypto sample_state sample_transfer = Ok (succ, s')
    \<and> rollback s' [succ] = Ok s2 \<and> get_free_account_id sample_state = 3 \<and> get_free_account_id s2 = 4"
proof -
  have free: "get_free_account_id sample_state = 3"
    using sample_state_ok(2) by (simp add: get_free_account_id_def account_count_def)
  obtain succ s' where e: "execute_tx sample_crypto sample_state sample_transfer = Ok (succ, s')"
    "get_account s' 3 \<noteq> None"
    by (auto simp: sample_transfer_def execute_tx_Ok create_op_Ok apply_op_Ok sample_lookup free state_simps
        sample_ids transfer_verify_signature_def verify_signature_with_def Let_def max_account_id_eq)
  have "signer_nonzero sample_crypto sample_transfer"
    by (simp add: sample_transfer_def)
  then show ?thesis
    using e rollback_keeps_created_id [OF e(1), of 3] sample_state_ok by (auto simp: sample_lookup free)
qed

text \<open>When the ids in use have a gap, so that the number of leaves is the id of an account, a deposit
  to a new address is credited to that foreign account, which keeps its own address and key, and
  the creation of an account by a transfer panics.\<close>

lemma gap_misdirects_deposit:
  assumes "get_account s (get_free_account_id s) = Some a" "fmlookup (zs_index s) (dep_to d) = None"
    "dep_token d \<le> max_token_id"
  shows "\<exists>succ s'. (execute_priority_op s (PrioDeposit d) :: (error, _) res) = Ok (succ, s')
      \<and> get_account s' (get_free_account_id s) = Some (add_balance a (dep_token d) (dep_amount d))
    \<and> (\<forall>op. tnop_to op = get_free_account_id s \<longrightarrow> tnop_from op \<le> max_account_id \<longrightarrow>
        tnop_to op \<le> max_account_id \<longrightarrow> apply_transfer_to_new_op s op = Panic)"
  using assms by (auto simp: execute_priority_op_Ok create_op_Ok deposit_apply_op_Ok state_simps Let_def
      apply_transfer_to_new_op_def)

text \<open>The accounts of the state restored from storage after the account of id 3 was created where
  a roll back had left the default leaf 2.\<close>

definition gap_state :: zk_state where
  "gap_state = from_acc_map [(0, sample_account 7 9 0 10), (1, sample_account 17 99 3 5000),
     (3, sample_account 30 44 0 70)] 4"

lemma gap_misdirects_deposit_example:
  "\<exists>succ s'. (execute_priority_op gap_state
    (PrioDeposit \<lparr>dep_from = 1, dep_token = 2, dep_amount = 40, dep_to = 55\<rparr>) :: (error, _) res) = Ok (succ, s')
    \<and> get_account s' 3 = Some (add_balance (sample_account 30 44 0 70) 2 40)"
proof -
  have "get_free_account_id gap_state = 3"
    by (simp add: gap_state_def from_acc_map_def get_free_account_id_def insert_account_def empty_state_def
        fcard_finsert_if fcard_fempty)
  moreover have "get_account gap_state 3 = Some (sample_account 30 44 0 70)" "fmlookup (zs_index gap_state) 55 = None"
    by (simp_all add: gap_state_def from_acc_map_def state_simps)
  ultimately show ?thesis
    using gap_misdirects_deposit [of gap_state "sample_account 30 44 0 70"
        "\<lparr>dep_from = 1, dep_token = 2, dep_amount = 40, dep_to = 55\<rparr>"] sample_ids(1) by auto
qed

section \<open>Collecting the fees\<close>

definition fees_in :: "collected_fee list \<Rightarrow> token_id \<Rightarrow> nat" where
  "fees_in fees t = sum_list (map (\<lambda>f. fee_of (Some f) t) fees)"

lemma collect_fees_account:
  "get_balance (fst (collect_fees i a us fees)) t = get_balance a t + fees_in fees t"
  "acc_address (fst (collect_fees i a us fees)) = acc_address a"
  "acc_nonce (fst (collect_fees i a us fees)) = acc_nonce a"
  "acc_pub_key_hash (fst (collect_fees i a us fees)) = acc_pub_key_hash a"
  by (induction i a us fees rule: collect_fees.induct)
    (auto simp: fees_in_def fee_of_def Let_def account_simps address_simps)

lemma collect_fees_updates:
  assumes "updates_fit V us" "views_update V us i = Some (account_view a)" "\<forall>j. j \<noteq> i \<longrightarrow> views_update V us j = V j"
  shows "updates_fit V (snd (collect_fees i a us fees))
    \<and> views_update V (snd (collect_fees i a us fees)) i = Some (account_view (fst (collect_fees i a us fees)))
    \<and> (\<forall>j. j \<noteq> i \<longrightarrow> views_update V (snd (collect_fees i a us fees)) j = V j)"
  using assms
proof (induction i a us fees rule: collect_fees.induct)
  case (2 i a us fee fees)
  show ?case
  proof (cases "cf_amount fee = 0")
    case False
    let ?b = "add_balance a (cf_token fee) (cf_amount fee)"
    let ?u = "(i, UpdateBalance (acc_nonce a) (acc_nonce a) (cf_token fee, get_balance a (cf_token fee), get_balance ?b (cf_token fee)))"
    have "updates_fit V (us @ [?u])" "views_update V (us @ [?u]) i = Some (account_view ?b)"
      "\<forall>j. j \<noteq> i \<longrightarrow> views_update V (us @ [?u]) j = V j"
      using "2.prems" by (simp_all add: view_step_def account_view_def account_simps address_simps)
    then show ?thesis
      using "2.IH"(2) [OF False refl refl refl refl] False by (simp add: Let_def)
  qed (use 2 in simp)
qed simp

text \<open>The fees of a block reach the fee account: each of its balances grows by the fees
  collected in that token, so the funds of the whole state grow by just these, no other account
  changes, and the updates replay the change.  It fails (with a panic) only if the account is missing.\<close>

lemma collected_fees_arrive:
  assumes "(collect_fee s fees i :: (error, _) res) = Ok (us, s')"
  shows "total_balance s' t = total_balance s t + fees_in fees t
    \<and> balance_at s' i t = balance_at s i t + fees_in fees t
    \<and> (\<forall>j. j \<noteq> i \<longrightarrow> get_account s' j = get_account s j) \<and> replays s us s'"
proof -
  obtain a where a: "get_account s i = Some a" "us = snd (collect_fees i a [] fees)"
    "s' = insert_account i (fst (collect_fees i a [] fees)) s"
    using assms by (auto simp: collect_fee_def ok_iffs case_prod_unfold Let_def)
  have "replays s us s'"
    using collect_fees_updates [of "state_view s" "[]" i a fees] a
    by (auto simp: replays_def state_view_insert state_view_get fun_eq_iff)
  then show ?thesis
    using total_balance_replace [OF a(1), of "fst (collect_fees i a [] fees)" t] a
    by (simp add: collect_fees_account balance_at_def state_simps)
qed

end
