(* ===== verification/Typing.thy ===== *)
theory Typing
  imports StateFunds
begin

text \<open>
  Amounts fit where they are written.  Amounts are unbounded integers in the state and in the transactions, but a
  u128 or a float in the public data, and the conversion panics; the types are those of what the correctness check
  admits and of a state whose funds are u128.
\<close>

section \<open>Typed states, transactions and operations\<close>

definition funds_typed :: "zk_state \<Rightarrow> bool" where
  "funds_typed s \<longleftrightarrow> (\<forall>t. total_balance s t < 2 ^ 128)"

fun tx_typed :: "zksync_tx \<Rightarrow> bool" where
  "tx_typed (TxWithdraw tx) \<longleftrightarrow> wd_amount tx < 2 ^ 128 \<and> packable_amounts (TxWithdraw tx)"
| "tx_typed tx \<longleftrightarrow> packable_amounts tx"

fun op_typed :: "zksync_op \<Rightarrow> bool" where
  "op_typed (OpWithdraw op) \<longleftrightarrow> tx_typed (TxWithdraw (wdop_tx op))"
| "op_typed (OpDeposit op) \<longleftrightarrow> dep_amount (depop_priority_op op) < 2 ^ 128"
| "op_typed (OpForcedExit op) \<longleftrightarrow> (\<forall>w. feop_withdraw_amount op = Some w \<longrightarrow> w < 2 ^ 128) \<and> packable_amounts (TxForcedExit (feop_tx op))"
| "op_typed (OpFullExit op) \<longleftrightarrow> (\<forall>w. fxop_withdraw_amount op = Some w \<longrightarrow> w < 2 ^ 128)"
| "op_typed op \<longleftrightarrow> op_amounts_packable op"

lemma op_typed_packable: "op_typed op \<Longrightarrow> op_amounts_packable op"
  by (cases op) auto

text \<open>The correctness check is the type checker of transactions.\<close>

lemma check_correctness_typed:
  assumes "tx_check_correctness c tx = (Ok True, tx')"
  shows "tx_typed tx'"
proof (cases tx)
  case (TxTransfer t)
  then have "fst (transfer_check_correctness c t) = Ok True" "tx' = TxTransfer (snd (transfer_check_correctness c t))"
    using assms by (auto simp: map_prod_def split: prod.splits)
  moreover have "tr_amount (snd (transfer_check_correctness c t)) = tr_amount t" "tr_fee (snd (transfer_check_correctness c t)) = tr_fee t"
    by (simp_all add: transfer_check_correctness_def split: res.splits bool.splits)
  ultimately show ?thesis using transfer_check_iff [of c t] by simp
next
  case (TxWithdraw t)
  then have "withdraw_valid t = Ok True" "\<exists>v. tx' = TxWithdraw (t\<lparr>wd_cached_signer := v\<rparr>)"
    using assms by (auto simp: withdraw_check_correctness_def split: res.splits bool.splits)
  then show ?thesis by (auto simp: withdraw_valid_def)
next
  case (TxForcedExit t)
  then have "forced_exit_valid t = Ok True" "\<exists>v. tx' = TxForcedExit (t\<lparr>fe_cached_signer := v\<rparr>)"
    using assms by (auto simp: forced_exit_check_correctness_def split: res.splits bool.splits)
  then show ?thesis by (auto simp: forced_exit_valid_def)
next
  case (TxChangePubKey t)
  then show ?thesis using assms by (auto simp: change_pub_key_check_correctness_def)
next
  case (TxClose t)
  then show ?thesis using assms by auto
qed

section \<open>Public data of typed operations\<close>

lemma fee_packs: "is_fee_amount_packable n = Ok True \<Longrightarrow> \<exists>b. pack_fee_amount n = Ok b"
  by (cases "pack_fee_amount n") (auto simp: is_fee_amount_packable_def)

lemma token_packs: "is_token_amount_packable n = Ok True \<Longrightarrow> \<exists>b. pack_token_amount n = Ok b"
  by (cases "pack_token_amount n") (auto simp: is_token_amount_packable_def)

lemma u128_packs: "n < 2 ^ 128 \<Longrightarrow> \<exists>b. u128_field n = Ok b"
  by (simp add: u128_field_def to_u128_def)

lemma forced_exit_packs:
  "\<forall>w. feop_withdraw_amount op = Some w \<longrightarrow> w < 2 ^ 128 \<Longrightarrow> \<exists>a. forced_exit_op_amount op = Ok a"
  by (auto simp: forced_exit_op_amount_def to_u128_def split: option.split)

lemma full_exit_packs:
  "\<forall>w. fxop_withdraw_amount op = Some w \<longrightarrow> w < 2 ^ 128 \<Longrightarrow>
    \<exists>b. u128_field (case fxop_withdraw_amount op of None \<Rightarrow> 0 | Some n \<Rightarrow> n) = Ok b"
  by (rule u128_packs) (simp split: option.split)

lemma typed_public_data:
  assumes "op_typed op"
  shows "\<exists>bs. op_public_data op = Ok bs"
proof (cases op)
  case (OpForcedExit x)
  then show ?thesis
    using assms forced_exit_packs [of x] fee_packs [of "fe_fee (feop_tx x)"]
    by (auto simp: forced_exit_op_public_data_def pubdata_def)
next
  case (OpFullExit x)
  then show ?thesis
    using assms full_exit_packs [of x] by (auto simp: full_exit_op_public_data_def pubdata_def)
qed (use assms in \<open>auto dest!: fee_packs token_packs simp: u128_field_def to_u128_def pubdata_def noop_op_public_data_def deposit_op_public_data_def
      transfer_op_public_data_def transfer_to_new_op_public_data_def withdraw_op_public_data_def
      change_pub_key_op_public_data_def close_op_public_data_def\<close>)

section \<open>Execution keeps the types\<close>

lemma balance_typed: "funds_typed s \<Longrightarrow> get_account s i = Some a \<Longrightarrow> get_balance a t < 2 ^ 128"
  using balance_le_total [of s i a t] by (meson funds_typed_def le_less_trans)

lemma executed_op_typed:
  assumes "execute_tx c s tx = Ok (succ, s')" "tx_typed tx" "funds_typed s"
  shows "op_typed (os_executed_op succ)"
proof (cases tx)
  case (TxTransfer t)
  then obtain o' where "transfer_create_op c s t = Ok o'" "os_executed_op succ = into_franklin_op o'"
    using assms(1) by (auto simp: execute_tx_Ok)
  then show ?thesis using TxTransfer assms(2) by (cases o') (auto simp: create_op_Ok split: option.splits)
next
  case (TxForcedExit t)
  then obtain o' where "forced_exit_create_op c s t = Ok o'" "os_executed_op succ = OpForcedExit o'"
    using assms(1) by (auto simp: execute_tx_Ok)
  then show ?thesis using TxForcedExit assms(2) balance_typed [OF assms(3)] by (auto simp: create_op_Ok split: if_splits)
qed (use assms in \<open>auto simp: execute_tx_Ok create_op_Ok\<close>)

lemma executed_priority_op_typed:
  assumes "execute_priority_op s p = Ok (succ, s')" "funds_typed s" "\<And>d. p = PrioDeposit d \<Longrightarrow> dep_amount d < 2 ^ 128"
  shows "op_typed (os_executed_op succ)"
  using assms(1,3) balance_typed [OF assms(2)]
  by (cases p) (auto simp: execute_priority_op_Ok create_op_Ok split: option.splits if_splits)

text \<open>Priority operations are typed as long as the contract lets in less than 2^128 of a token.\<close>

lemma priority_op_stays_typed:
  assumes "execute_priority_op s p = Ok (succ, s')" "funds_typed s"
    "\<And>d. p = PrioDeposit d \<Longrightarrow> total_balance s (dep_token d) + dep_amount d < 2 ^ 128"
  shows "funds_typed s' \<and> (\<exists>bs. op_public_data (os_executed_op succ) = Ok bs)"
proof -
  have "total_balance s' t < 2 ^ 128" for t
  proof (cases p)
    case (PrioDeposit d)
    then obtain o' where "deposit_apply_op s o' = Ok ((os_fee succ, os_updates succ), s')" "depop_priority_op o' = d"
      using assms(1) by (auto simp: execute_priority_op_Ok create_op_Ok split: option.splits)
    then have "total_balance s' t = total_balance s t + (if dep_token d = t then dep_amount d else 0)"
      using deposit_conserves [of s o' _ _ s' t] by auto
    then show ?thesis using assms(2) assms(3) [OF PrioDeposit] by (auto simp: funds_typed_def)
  next
    case (PrioFullExit f)
    then obtain o' where "full_exit_apply_op s o' = Ok ((os_fee succ, os_updates succ), s')"
      using assms(1) by (auto simp: execute_priority_op_Ok)
    then have "total_balance s' t \<le> total_balance s t"
      using full_exit_conserves [of s o' _ _ s' t] by auto
    then show ?thesis using assms(2) by (meson funds_typed_def le_less_trans)
  qed
  moreover have "op_typed (os_executed_op succ)"
    by (rule executed_priority_op_typed [OF assms(1,2)]) (use assms(3) in fastforce)
  ultimately show ?thesis using typed_public_data by (simp add: funds_typed_def)
qed

section \<open>Properties\<close>

text \<open>C4: what the correctness check admits is well typed.  A transaction that passed the check and is executed on a
  state whose funds are u128 leaves such a state and becomes an operation whose public data can be written, without a
  panic, in exactly the bytes of its chunks, and is read back as the public part of the operation.\<close>

theorem checked_tx_well_typed:
  assumes "tx_check_correctness c tx = (Ok True, tx')" "execute_tx c s tx' = Ok (succ, s')" "signer_nonzero c tx'" "funds_typed s"
  shows "funds_typed s' \<and> (\<exists>bs. op_public_data (os_executed_op succ) = Ok bs \<and>
    size bs = op_chunks (os_executed_op succ) * CHUNK_BYTES \<and>
    op_from_public_data c bs = Ok (public_part (os_executed_op succ)))"
proof -
  have "op_typed (os_executed_op succ)"
    by (rule executed_op_typed [OF assms(2) check_correctness_typed [OF assms(1)] assms(4)])
  moreover have "total_balance s' t \<le> total_balance s t" for t
    using execute_tx_conserves [OF assms(2,3), of t] by simp
  then have "funds_typed s'"
    using assms(4) unfolding funds_typed_def by (meson le_less_trans)
  ultimately show ?thesis
    using typed_public_data op_typed_packable op_public_data_roundtrip by metis
qed

theorem checked_tx_well_typed_witness:
  "\<exists>tx' succ s' bs. tx_check_correctness sample_crypto sample_tx = (Ok True, tx') \<and>
    execute_tx sample_crypto sample_state tx' = Ok (succ, s') \<and> funds_typed s' \<and> op_public_data (os_executed_op succ) = Ok bs"
proof -
  have fee: "is_fee_amount_packable (wd_fee sample_withdraw) = Ok True"
    by (simp add: sample_withdraw_def is_fee_packable_floor float_floor_def)
  have "tx_check_correctness sample_crypto sample_tx = (Ok True, sample_tx)"
    using fee by (simp add: sample_tx_def withdraw_check_correctness_def withdraw_valid_def sample_withdraw_def
      max_account_id_eq max_token_id_eq withdraw_verify_signature_def verify_signature_with_def)
  moreover obtain succ s' where "execute_tx sample_crypto sample_state sample_tx = Ok (succ, s')"
    using sample_tx_executes by blast
  moreover have "signer_nonzero sample_crypto sample_tx"
    by (simp add: sample_tx_def)
  moreover have "funds_typed sample_state"
  proof -
    have "{i. get_account sample_state i \<noteq> None} = {0, 1, 2}" by (auto simp: sample_lookup)
    then show ?thesis by (simp add: funds_typed_def total_balance_def balance_at_def sample_lookup)
  qed
  ultimately show ?thesis
    using checked_tx_well_typed by blast
qed

end
