(* ===== verification/GasCounter.thy ===== *)
theory GasCounter
  imports Ops
begin

text \<open>
  The estimation of gas costs, @core/lib/types/src/gas_counter.rs@.  The arithmetic on @U256@ panics
  on an overflow.  The lemmas show that the counter accepts exactly the lists of operations whose
  total cost, with the margin of 30 percent, fits the limit, for the commit and the verify call.
\<close>

section \<open>U256 arithmetic\<close>

definition u256 :: "nat \<Rightarrow> ('e, nat) res" where
  "u256 n = (if n < 2 ^ 256 then Ok n else Panic)"

definition u256_add :: "nat \<Rightarrow> nat \<Rightarrow> ('e, nat) res" where
  "u256_add a b = u256 (a + b)"

definition u256_mul :: "nat \<Rightarrow> nat \<Rightarrow> ('e, nat) res" where
  "u256_mul a b = u256 (a * b)"

section \<open>Costs\<close>

definition TX_GAS_LIMIT :: nat where "TX_GAS_LIMIT = 4000000"

definition COMMIT_BASE_COST :: nat where "COMMIT_BASE_COST = 300000"
definition COMMIT_DEPOSIT_COST :: nat where "COMMIT_DEPOSIT_COST = 10397"
definition COMMIT_CHANGE_PUBKEY_COST_OFFCHAIN :: nat where "COMMIT_CHANGE_PUBKEY_COST_OFFCHAIN = 15866"
definition COMMIT_CHANGE_PUBKEY_COST_ONCHAIN :: nat where "COMMIT_CHANGE_PUBKEY_COST_ONCHAIN = 3929"
definition COMMIT_TRANSFER_COST :: nat where "COMMIT_TRANSFER_COST = 334"
definition COMMIT_TRANSFER_TO_NEW_COST :: nat where "COMMIT_TRANSFER_TO_NEW_COST = 862"
definition COMMIT_FULL_EXIT_COST :: nat where "COMMIT_FULL_EXIT_COST = 10165"
definition COMMIT_WITHDRAW_COST :: nat where "COMMIT_WITHDRAW_COST = 2167"
definition COMMIT_FORCED_EXIT_COST :: nat where "COMMIT_FORCED_EXIT_COST = COMMIT_WITHDRAW_COST"

fun commit_op_cost :: "zksync_op \<Rightarrow> ('e, nat) res" where
  "commit_op_cost OpNoop = Ok 0"
| "commit_op_cost (OpDeposit op) = Ok COMMIT_DEPOSIT_COST"
| "commit_op_cost (OpChangePubKey op) =
     Ok (if cp_eth_signature (cpop_tx op) \<noteq> None then COMMIT_CHANGE_PUBKEY_COST_OFFCHAIN
         else COMMIT_CHANGE_PUBKEY_COST_ONCHAIN)"
| "commit_op_cost (OpTransfer op) = Ok COMMIT_TRANSFER_COST"
| "commit_op_cost (OpTransferToNew op) = Ok COMMIT_TRANSFER_TO_NEW_COST"
| "commit_op_cost (OpFullExit op) = Ok COMMIT_FULL_EXIT_COST"
| "commit_op_cost (OpWithdraw op) = Ok COMMIT_WITHDRAW_COST"
| "commit_op_cost (OpForcedExit op) = Ok COMMIT_FORCED_EXIT_COST"
| "commit_op_cost (OpClose op) = Panic"

definition VERIFY_BASE_COST :: nat where "VERIFY_BASE_COST = 1000000"
definition VERIFY_DEPOSIT_COST :: nat where "VERIFY_DEPOSIT_COST = 0"
definition VERIFY_CHANGE_PUBKEY_COST :: nat where "VERIFY_CHANGE_PUBKEY_COST = 0"
definition VERIFY_TRANSFER_COST :: nat where "VERIFY_TRANSFER_COST = 0"
definition VERIFY_TRANSFER_TO_NEW_COST :: nat where "VERIFY_TRANSFER_TO_NEW_COST = 0"
definition VERIFY_FULL_EXIT_COST :: nat where "VERIFY_FULL_EXIT_COST = 2499"
definition VERIFY_WITHDRAW_COST :: nat where "VERIFY_WITHDRAW_COST = 45668"
definition VERIFY_FORCED_EXIT_COST :: nat where "VERIFY_FORCED_EXIT_COST = VERIFY_WITHDRAW_COST"

fun verify_op_cost :: "zksync_op \<Rightarrow> ('e, nat) res" where
  "verify_op_cost OpNoop = Ok 0"
| "verify_op_cost (OpDeposit op) = Ok VERIFY_DEPOSIT_COST"
| "verify_op_cost (OpChangePubKey op) = Ok VERIFY_CHANGE_PUBKEY_COST"
| "verify_op_cost (OpTransfer op) = Ok VERIFY_TRANSFER_COST"
| "verify_op_cost (OpTransferToNew op) = Ok VERIFY_TRANSFER_TO_NEW_COST"
| "verify_op_cost (OpFullExit op) = Ok VERIFY_FULL_EXIT_COST"
| "verify_op_cost (OpWithdraw op) = Ok VERIFY_WITHDRAW_COST"
| "verify_op_cost (OpForcedExit op) = Ok VERIFY_FORCED_EXIT_COST"
| "verify_op_cost (OpClose op) = Panic"

section \<open>The counter\<close>

record gas_counter =
  gc_commit_cost :: nat
  gc_verify_cost :: nat

definition gas_counter_new :: gas_counter where
  "gas_counter_new = \<lparr>gc_commit_cost = COMMIT_BASE_COST, gc_verify_cost = VERIFY_BASE_COST\<rparr>"

definition scale_up :: "nat \<Rightarrow> ('e, nat) res" where
  "scale_up v = res_map (\<lambda>x. x div 100) (u256_mul v 130)"

definition add_op :: "gas_counter \<Rightarrow> zksync_op \<Rightarrow> (unit, gas_counter) res" where
  "add_op g op =
    res_bind (res_bind (commit_op_cost op) (u256_add (gc_commit_cost g))) (\<lambda>new_commit_cost.
    res_bind (scale_up new_commit_cost) (\<lambda>c.
    res_bind (ensure (c \<le> TX_GAS_LIMIT) ()) (\<lambda>_.
    res_bind (res_bind (verify_op_cost op) (u256_add (gc_verify_cost g))) (\<lambda>new_verify_cost.
    res_bind (scale_up new_verify_cost) (\<lambda>v.
    res_bind (ensure (v \<le> TX_GAS_LIMIT) ()) (\<lambda>_.
      Ok \<lparr>gc_commit_cost = new_commit_cost, gc_verify_cost = new_verify_cost\<rparr>))))))"

definition commit_gas_limit :: "gas_counter \<Rightarrow> ('e, nat) res" where
  "commit_gas_limit g = res_map (\<lambda>x. x div 100) (u256_mul (gc_commit_cost g) 130)"

definition verify_gas_limit :: "gas_counter \<Rightarrow> ('e, nat) res" where
  "verify_gas_limit g = res_map (\<lambda>x. x div 100) (u256_mul (gc_verify_cost g) 130)"

definition MAX_WITHDRAWALS_TO_COMPLETE_IN_A_CALL :: nat where "MAX_WITHDRAWALS_TO_COMPLETE_IN_A_CALL = 20"
definition COMPLETE_WITHDRAWALS_BASE_COST :: nat where "COMPLETE_WITHDRAWALS_BASE_COST = 30307"
definition COMPLETE_WITHDRAWALS_COST :: nat where "COMPLETE_WITHDRAWALS_COST = 41641"

definition complete_withdrawals_gas_limit :: "('e, nat) res" where
  "complete_withdrawals_gas_limit =
    res_bind (u256_mul MAX_WITHDRAWALS_TO_COMPLETE_IN_A_CALL COMPLETE_WITHDRAWALS_COST) (\<lambda>m.
    res_bind (u256_add COMPLETE_WITHDRAWALS_BASE_COST m) scale_up)"

section \<open>What the counter accepts\<close>

lemmas gas_consts = TX_GAS_LIMIT_def COMMIT_BASE_COST_def COMMIT_DEPOSIT_COST_def
  COMMIT_CHANGE_PUBKEY_COST_OFFCHAIN_def COMMIT_CHANGE_PUBKEY_COST_ONCHAIN_def COMMIT_TRANSFER_COST_def
  COMMIT_TRANSFER_TO_NEW_COST_def COMMIT_FULL_EXIT_COST_def COMMIT_WITHDRAW_COST_def
  COMMIT_FORCED_EXIT_COST_def VERIFY_BASE_COST_def VERIFY_DEPOSIT_COST_def VERIFY_CHANGE_PUBKEY_COST_def
  VERIFY_TRANSFER_COST_def VERIFY_TRANSFER_TO_NEW_COST_def VERIFY_FULL_EXIT_COST_def
  VERIFY_WITHDRAW_COST_def VERIFY_FORCED_EXIT_COST_def

text \<open>The specification: the cost of an operation, and whether a cost fits with its margin.\<close>

definition commit_cost_of :: "zksync_op \<Rightarrow> nat" where
  "commit_cost_of op = (case commit_op_cost op :: (unit, nat) res of Ok c \<Rightarrow> c | r \<Rightarrow> 0)"

definition verify_cost_of :: "zksync_op \<Rightarrow> nat" where
  "verify_cost_of op = (case verify_op_cost op :: (unit, nat) res of Ok c \<Rightarrow> c | r \<Rightarrow> 0)"

definition gas_fits :: "nat \<Rightarrow> bool" where
  "gas_fits cost \<longleftrightarrow> cost * 130 div 100 \<le> TX_GAS_LIMIT"

fun not_close :: "zksync_op \<Rightarrow> bool" where
  "not_close (OpClose op) = False"
| "not_close op = True"

lemma op_costs: "not_close op \<Longrightarrow> commit_op_cost op = Ok (commit_cost_of op)"
  "not_close op \<Longrightarrow> verify_op_cost op = Ok (verify_cost_of op)"
  by (cases op; simp add: commit_cost_of_def verify_cost_of_def)+

lemma op_cost_bounds: "commit_cost_of op \<le> 15866" "verify_cost_of op \<le> 45668"
  by (cases op; simp add: commit_cost_of_def verify_cost_of_def gas_consts)+

lemma u256_small: "n < 2 ^ 200 \<Longrightarrow> u256 n = Ok n"
  by (simp add: u256_def)

lemma scale_up_small: "n < 2 ^ 100 \<Longrightarrow> scale_up n = Ok (n * 130 div 100)"
  by (simp add: scale_up_def u256_mul_def u256_small)

lemma gas_fits_less: "gas_fits n \<Longrightarrow> n < 2 ^ 22"
  by (simp add: gas_fits_def TX_GAS_LIMIT_def)

lemma gas_limit_Ok: "gas_fits n \<Longrightarrow> res_map (\<lambda>x. x div 100) (u256_mul n 130) = Ok (n * 130 div 100)"
  using gas_fits_less [of n] by (simp add: u256_mul_def u256_small)

definition gas_ok :: "gas_counter \<Rightarrow> bool" where
  "gas_ok g \<longleftrightarrow> gas_fits (gc_commit_cost g) \<and> gas_fits (gc_verify_cost g)"

lemma gas_counter_new_ok: "gas_ok gas_counter_new"
  by (simp add: gas_ok_def gas_counter_new_def gas_fits_def gas_consts)

lemma add_op_eq:
  assumes "gas_ok g" "not_close op"
  shows "add_op g op =
    (if gas_fits (gc_commit_cost g + commit_cost_of op) \<and> gas_fits (gc_verify_cost g + verify_cost_of op)
     then Ok \<lparr>gc_commit_cost = gc_commit_cost g + commit_cost_of op,
              gc_verify_cost = gc_verify_cost g + verify_cost_of op\<rparr>
     else Err ())"
proof -
  define C V where "C = gc_commit_cost g + commit_cost_of op" and "V = gc_verify_cost g + verify_cost_of op"
  have c: "C < 2 ^ 100" "V < 2 ^ 100"
    using gas_fits_less [of "gc_commit_cost g"] gas_fits_less [of "gc_verify_cost g"] assms(1)
      op_cost_bounds [of op] by (auto simp: gas_ok_def C_def V_def)
  have "(u256 C :: (unit, nat) res) = Ok C" "(u256 V :: (unit, nat) res) = Ok V"
    using c by (simp_all add: u256_small)
  then show ?thesis
    unfolding add_op_def op_costs [OF assms(2)] u256_add_def res_bind.simps C_def [symmetric] V_def [symmetric]
    using scale_up_small [OF c(1), where ?'a = unit] scale_up_small [OF c(2), where ?'a = unit]
    by (simp add: gas_fits_def ensure_def)
qed

text \<open>Adding a list of operations, as long as they are accepted.\<close>

fun gas_run :: "gas_counter \<Rightarrow> zksync_op list \<Rightarrow> (unit, gas_counter) res" where
  "gas_run g [] = Ok g"
| "gas_run g (op # ops) = res_bind (add_op g op) (\<lambda>g. gas_run g ops)"

lemma gas_fits_mono: "gas_fits (a + b) \<Longrightarrow> gas_fits a"
  unfolding gas_fits_def by (rule order_trans [OF div_le_mono]) auto

lemma gas_run_eq:
  assumes "gas_ok g" "list_all not_close ops"
  shows "gas_run g ops =
    (if gas_fits (gc_commit_cost g + sum_list (map commit_cost_of ops))
      \<and> gas_fits (gc_verify_cost g + sum_list (map verify_cost_of ops))
     then Ok \<lparr>gc_commit_cost = gc_commit_cost g + sum_list (map commit_cost_of ops),
              gc_verify_cost = gc_verify_cost g + sum_list (map verify_cost_of ops)\<rparr>
     else Err ())"
  using assms
proof (induction ops arbitrary: g)
  case (Cons op ops)
  show ?case
  proof (cases "gas_fits (gc_commit_cost g + commit_cost_of op) \<and> gas_fits (gc_verify_cost g + verify_cost_of op)")
    case True
    let ?g = "\<lparr>gc_commit_cost = gc_commit_cost g + commit_cost_of op,
               gc_verify_cost = gc_verify_cost g + verify_cost_of op\<rparr>"
    have "add_op g op = Ok ?g" "gas_ok ?g"
      using True Cons.prems add_op_eq by (auto simp: gas_ok_def)
    then show ?thesis
      using Cons.IH [of ?g] Cons.prems(2) by (simp add: add.assoc)
  next
    case False
    then have "add_op g op = Err ()"
      using Cons.prems add_op_eq by auto
    moreover have "\<not> (gas_fits (gc_commit_cost g + (commit_cost_of op + sum_list (map commit_cost_of ops)))
        \<and> gas_fits (gc_verify_cost g + (verify_cost_of op + sum_list (map verify_cost_of ops))))"
      using False gas_fits_mono by (metis add.assoc)
    ultimately show ?thesis
      by auto
  qed
qed (simp add: gas_ok_def)

text \<open>The gas counter accepts a list of operations, one after the other from a fresh counter, exactly
  if the cost of the empty block and of the operations, raised by 30 percent, is within the gas
  limit both for the commit and for the verify call; then the limits it reports are those sums.
  Otherwise it refuses with an error, without an overflow.\<close>

lemma gas_counter_accepts_iff_fits:
  assumes "list_all not_close ops"
  shows "case gas_run gas_counter_new ops of
      Ok g \<Rightarrow> commit_gas_limit g = Ok ((COMMIT_BASE_COST + sum_list (map commit_cost_of ops)) * 130 div 100)
        \<and> verify_gas_limit g = Ok ((VERIFY_BASE_COST + sum_list (map verify_cost_of ops)) * 130 div 100)
        \<and> (COMMIT_BASE_COST + sum_list (map commit_cost_of ops)) * 130 div 100 \<le> TX_GAS_LIMIT
        \<and> (VERIFY_BASE_COST + sum_list (map verify_cost_of ops)) * 130 div 100 \<le> TX_GAS_LIMIT
    | Err u \<Rightarrow> (COMMIT_BASE_COST + sum_list (map commit_cost_of ops)) * 130 div 100 > TX_GAS_LIMIT
        \<or> (VERIFY_BASE_COST + sum_list (map verify_cost_of ops)) * 130 div 100 > TX_GAS_LIMIT
    | Panic \<Rightarrow> False"
proof -
  define C V where "C = COMMIT_BASE_COST + sum_list (map commit_cost_of ops)"
    and "V = VERIFY_BASE_COST + sum_list (map verify_cost_of ops)"
  have run: "gas_run gas_counter_new ops = (if gas_fits C \<and> gas_fits V
      then Ok \<lparr>gc_commit_cost = C, gc_verify_cost = V\<rparr> else Err ())"
    using gas_run_eq [OF gas_counter_new_ok assms] by (simp add: gas_counter_new_def C_def V_def)
  show ?thesis
    unfolding run C_def [symmetric] V_def [symmetric]
    by (auto simp: commit_gas_limit_def verify_gas_limit_def gas_limit_Ok) (simp_all add: gas_fits_def)
qed

lemma gas_counter_accepts_iff_fits_example:
  "gas_run gas_counter_new (replicate 46 (OpWithdraw \<lparr>wdop_tx = sample_withdraw, wdop_account_id = 5\<rparr>)) = Err ()"
proof -
  let ?ops = "replicate 46 (OpWithdraw \<lparr>wdop_tx = sample_withdraw, wdop_account_id = 5\<rparr>)"
  have "list_all not_close ?ops"
    by (simp add: list_all_iff)
  from gas_counter_accepts_iff_fits [OF this] show ?thesis
    by (auto simp: sum_list_replicate commit_cost_of_def verify_cost_of_def gas_consts split: res.splits)
qed

text \<open>Every operation fits into a fresh counter.\<close>

lemma add_op_fresh: "not_close op \<Longrightarrow> \<exists>g. add_op gas_counter_new op = Ok g"
  using add_op_eq [OF gas_counter_new_ok] op_cost_bounds [of op]
  by (auto simp: gas_counter_new_def gas_fits_def gas_consts)

end
