(* ===== verification/Block.thy ===== *)
theory Block
  imports GasCounter ZkState
begin

text \<open>
  Blocks of executed operations, @core/lib/types/src/block.rs@: their public data, Ethereum
  witness and withdrawal data, and the choice of the block size.  The time stamps of executed
  operations and the serialisation are left out; a field element is its canonical number.
\<close>

section \<open>Executed operations\<close>

type_synonym fr = nat

record executed_tx =
  etx_signed_tx :: signed_tx
  etx_success :: bool
  etx_op :: "zksync_op option"
  etx_fail_reason :: "error option"
  etx_block_index :: "32 word option"
  etx_batch_id :: "64 word option"

record executed_priority_op =
  epo_priority_op :: priority_op
  epo_op :: zksync_op
  epo_block_index :: "32 word"

datatype executed_operation = ExecTx executed_tx | ExecPriority executed_priority_op

fun get_executed_op :: "executed_operation \<Rightarrow> zksync_op option" where
  "get_executed_op (ExecTx t) = etx_op t"
| "get_executed_op (ExecPriority p) = Some (epo_op p)"

fun get_executed_tx :: "executed_operation \<Rightarrow> executed_tx option" where
  "get_executed_tx (ExecTx t) = Some t"
| "get_executed_tx (ExecPriority p) = None"

definition exec_public_data :: "executed_operation \<Rightarrow> (unit, byte list) res" where
  "exec_public_data e = (case get_executed_op e of Some op \<Rightarrow> op_public_data op | None \<Rightarrow> Ok [])"

definition exec_eth_witness_bytes :: "executed_operation \<Rightarrow> byte list option" where
  "exec_eth_witness_bytes e =
    map_option (\<lambda>op. case op_eth_witness op of Some w \<Rightarrow> w | None \<Rightarrow> []) (get_executed_op e)"

definition exec_updated_account_ids :: "executed_operation \<Rightarrow> account_id list" where
  "exec_updated_account_ids e = (case get_executed_op e of Some op \<Rightarrow> op_updated_account_ids op | None \<Rightarrow> [])"

text \<open>@if let Some(fee) = fee { fees.push(fee) }@.\<close>

definition fee_list :: "collected_fee option \<Rightarrow> collected_fee list" where
  "fee_list fee = (case fee of None \<Rightarrow> [] | Some f \<Rightarrow> [f])"

section \<open>Blocks\<close>

record block =
  bl_block_number :: block_number
  bl_new_root_hash :: fr
  bl_fee_account :: account_id
  bl_block_transactions :: "executed_operation list"
  bl_processed_priority_ops :: "64 word \<times> 64 word"
  bl_block_chunks_size :: nat
  bl_commit_gas_limit :: nat
  bl_verify_gas_limit :: nat

definition block_new ::
  "block_number \<Rightarrow> fr \<Rightarrow> account_id \<Rightarrow> executed_operation list \<Rightarrow> 64 word \<times> 64 word \<Rightarrow> nat \<Rightarrow> nat \<Rightarrow> nat \<Rightarrow> block" where
  "block_new number root fee_account txs prio chunks_size cgas vgas =
    \<lparr>bl_block_number = number, bl_new_root_hash = root, bl_fee_account = fee_account,
     bl_block_transactions = txs, bl_processed_priority_ops = prio, bl_block_chunks_size = chunks_size,
     bl_commit_gas_limit = cgas, bl_verify_gas_limit = vgas\<rparr>"

text \<open>The operations of a block: @filter_map(get_executed_op)@.\<close>

definition block_ops :: "executed_operation list \<Rightarrow> zksync_op list" where
  "block_ops txs = List.map_filter get_executed_op txs"

definition chunks_used :: "block \<Rightarrow> nat" where
  "chunks_used b = sum_list (map op_chunks (block_ops (bl_block_transactions b)))"

fun smallest_block_size_for_chunks :: "nat \<Rightarrow> nat list \<Rightarrow> ('e, nat) res" where
  "smallest_block_size_for_chunks used [] = Panic"
| "smallest_block_size_for_chunks used (block_size # sizes) =
     (if block_size \<ge> used then Ok block_size else smallest_block_size_for_chunks used sizes)"

definition smallest_block_size :: "block \<Rightarrow> nat list \<Rightarrow> ('e, nat) res" where
  "smallest_block_size b sizes = smallest_block_size_for_chunks (chunks_used b) sizes"

definition block_new_from_available_block_sizes ::
  "block_number \<Rightarrow> fr \<Rightarrow> account_id \<Rightarrow> executed_operation list \<Rightarrow> 64 word \<times> 64 word \<Rightarrow> nat list \<Rightarrow> nat \<Rightarrow> nat
    \<Rightarrow> ('e, block) res" where
  "block_new_from_available_block_sizes number root fee_account txs prio sizes cgas vgas =
    (let b = block_new number root fee_account txs prio 0 cgas vgas
     in res_map (\<lambda>n. b\<lparr>bl_block_chunks_size := n\<rparr>) (smallest_block_size b sizes))"

definition get_eth_encoded_root :: "block \<Rightarrow> byte list" where
  "get_eth_encoded_root b = to_be 32 (bl_new_root_hash b)"

fun concat_res :: "(unit, byte list) res list \<Rightarrow> (unit, byte list) res" where
  "concat_res [] = Ok []"
| "concat_res (r # rs) = res_bind r (\<lambda>bs. res_map (\<lambda>cs. bs @ cs) (concat_res rs))"

definition block_public_data :: "block \<Rightarrow> (unit, byte list) res" where
  "block_public_data b =
    res_map (resize (bl_block_chunks_size b * CHUNK_BIT_WIDTH div 8) 0)
      (concat_res (map op_public_data (block_ops (bl_block_transactions b))))"

definition block_eth_witness_data :: "block \<Rightarrow> byte list \<times> 64 word list" where
  "block_eth_witness_data b =
    (let ws = List.map_filter op_eth_witness (block_ops (bl_block_transactions b))
     in (concat ws, map (\<lambda>w. of_nat (size w)) ws))"

definition number_of_processed_prior_ops :: "block \<Rightarrow> 64 word" where
  "number_of_processed_prior_ops b = snd (bl_processed_priority_ops b) - fst (bl_processed_priority_ops b)"

definition get_withdrawals_data :: "block \<Rightarrow> (unit, byte list) res" where
  "get_withdrawals_data b =
    concat_res (List.map_filter op_withdrawal_data (block_ops (bl_block_transactions b)))"

section \<open>The size of a block\<close>

lemma smallest_block_size_Ok:
  "smallest_block_size_for_chunks used sizes = Ok n \<Longrightarrow> n \<in> set sizes \<and> used \<le> n"
  by (induction used sizes rule: smallest_block_size_for_chunks.induct) (auto split: if_splits)

lemma smallest_block_size_least:
  assumes "sorted sizes" "smallest_block_size_for_chunks used sizes = Ok n" "m \<in> set sizes" "used \<le> m"
  shows "n \<le> m"
  using assms by (induction used sizes rule: smallest_block_size_for_chunks.induct) (auto split: if_splits)

lemma smallest_block_size_Panic:
  "smallest_block_size_for_chunks used sizes = Panic \<longleftrightarrow> (\<forall>m \<in> set sizes. m < used)"
  by (induction used sizes rule: smallest_block_size_for_chunks.induct) auto

lemma smallest_block_size_not_Err: "smallest_block_size_for_chunks used sizes \<noteq> Err e"
  by (induction used sizes rule: smallest_block_size_for_chunks.induct) auto

lemma smallest_block_size_res:
  "(smallest_block_size_for_chunks used sizes :: ('e, nat) res) = Ok n \<Longrightarrow>
    (smallest_block_size_for_chunks used sizes :: ('f, nat) res) = Ok n"
  by (induction sizes) (auto split: if_splits)

text \<open>The chunks of the operations of a list of transactions.\<close>

definition txs_chunks :: "executed_operation list \<Rightarrow> nat" where
  "txs_chunks txs = sum_list (map op_chunks (block_ops txs))"

lemma block_new_available_Ok:
  "block_new_from_available_block_sizes number root fee_account txs prio sizes cgas vgas = (Ok b :: ('e, block) res) \<longleftrightarrow>
    (\<exists>n. smallest_block_size_for_chunks (txs_chunks txs) sizes = (Ok n :: ('e, nat) res) \<and>
      b = block_new number root fee_account txs prio n cgas vgas)"
  by (auto simp: block_new_from_available_block_sizes_def smallest_block_size_def ok_iffs Let_def
      chunks_used_def block_new_def txs_chunks_def)

lemma block_new_available_Panic:
  "block_new_from_available_block_sizes number root fee_account txs prio sizes cgas vgas = (Panic :: ('a, block) res) \<longleftrightarrow>
    (\<forall>m \<in> set sizes. m < txs_chunks txs)"
  using smallest_block_size_Panic [of "txs_chunks txs" sizes, where ?'a = 'a]
  by (cases "smallest_block_size_for_chunks (txs_chunks txs) sizes :: ('a, nat) res")
    (auto simp: block_new_from_available_block_sizes_def smallest_block_size_def Let_def
      chunks_used_def block_new_def txs_chunks_def)

lemma concat_res_Ok:
  "concat_res (map f xs) = Ok bs \<longleftrightarrow> (\<exists>ys. list_all2 (\<lambda>x y. f x = Ok y) xs ys \<and> bs = concat ys)"
proof (induction xs arbitrary: bs)
  case (Cons x xs)
  show ?case
    by (auto simp: ok_iffs Cons list_all2_Cons1) (metis concat.simps(2))
qed auto

lemma block_ops_size:
  assumes "list_all2 (\<lambda>op bs. op_public_data op = Ok bs) ops bss"
  shows "size (concat bss) = sum_list (map op_chunks ops) * CHUNK_BYTES"
  using assms by (induction rule: list_all2_induct) (simp_all add: op_public_data_size algebra_simps)

lemma chunk_bytes_eq: "n * CHUNK_BIT_WIDTH div 8 = n * CHUNK_BYTES"
  by (simp add: CHUNK_BIT_WIDTH_def CHUNK_BYTES_def)

lemma sample_withdraw_public_data:
  "\<exists>bs. op_public_data (OpWithdraw \<lparr>wdop_tx = sample_withdraw, wdop_account_id = 5\<rparr>) = Ok bs"
proof -
  obtain f where "pack_fee_amount 0 = Ok f"
    using fee_pack_Ok [of 0] by auto
  moreover have "u128_field 1000 = Ok (word_to_be (1000 :: 128 word))"
    by (simp add: u128_field_def to_u128_def)
  ultimately show ?thesis
    by (simp add: withdraw_op_public_data_def pubdata_def sample_withdraw_def)
qed

definition sample_executed :: executed_operation where
  "sample_executed = ExecTx \<lparr>etx_signed_tx = \<lparr>stx_tx = TxWithdraw sample_withdraw, stx_eth_sign_data = None\<rparr>,
    etx_success = True, etx_op = Some (OpWithdraw \<lparr>wdop_tx = sample_withdraw, wdop_account_id = 5\<rparr>),
    etx_fail_reason = None, etx_block_index = Some 0, etx_batch_id = None\<rparr>"

text \<open>A block made for the available sizes has, when these are sorted, the smallest of them that holds its
  operations; its public data has just the length of the block's chunks and is the public data of the
  operations, none of it cut off, followed by zeros.  If no size is big enough, making the block
  panics.\<close>

lemma block_size_and_public_data:
  assumes "sorted sizes" "concat_res (map op_public_data (block_ops txs)) = Ok bs"
  shows "case (block_new_from_available_block_sizes number root fee_account txs prio sizes cgas vgas :: (unit, block) res) of
      Ok b \<Rightarrow> bl_block_chunks_size b \<in> set sizes \<and> txs_chunks txs \<le> bl_block_chunks_size b
        \<and> (\<forall>m \<in> set sizes. txs_chunks txs \<le> m \<longrightarrow> bl_block_chunks_size b \<le> m)
        \<and> block_public_data b = Ok (bs @ replicate ((bl_block_chunks_size b - txs_chunks txs) * CHUNK_BYTES) 0)
    | Err u \<Rightarrow> False
    | Panic \<Rightarrow> \<forall>m \<in> set sizes. m < txs_chunks txs"
proof (cases "block_new_from_available_block_sizes number root fee_account txs prio sizes cgas vgas :: (unit, block) res")
  case (Ok b)
  then obtain n where n: "smallest_block_size_for_chunks (txs_chunks txs) sizes = (Ok n :: (unit, nat) res)"
    "b = block_new number root fee_account txs prio n cgas vgas"
    using block_new_available_Ok by blast
  obtain bss where "list_all2 (\<lambda>op bs. op_public_data op = Ok bs) (block_ops txs) bss" "bs = concat bss"
    using assms(2) by (auto simp: concat_res_Ok)
  then have "size bs = txs_chunks txs * CHUNK_BYTES"
    by (simp add: block_ops_size txs_chunks_def)
  then have "block_public_data b = Ok (bs @ replicate ((n - txs_chunks txs) * CHUNK_BYTES) 0)"
    using smallest_block_size_Ok [OF n(1)] assms(2)
    by (simp add: n(2) block_public_data_def block_new_def resize_def chunk_bytes_eq diff_mult_distrib)
  then show ?thesis
    using Ok smallest_block_size_Ok [OF n(1)] smallest_block_size_least [OF assms(1) n(1)]
    by (simp add: n(2) block_new_def)
next
  case (Err e)
  then show ?thesis
    using smallest_block_size_not_Err [of "txs_chunks txs" sizes, where ?'a = unit]
    by (cases "smallest_block_size_for_chunks (txs_chunks txs) sizes :: (unit, nat) res")
      (auto simp: block_new_from_available_block_sizes_def smallest_block_size_def Let_def
        chunks_used_def block_new_def txs_chunks_def)
next
  case Panic
  then show ?thesis
    unfolding Panic using Panic [unfolded block_new_available_Panic] by simp
qed

lemma block_size_and_public_data_example:
  "\<exists>b. (block_new_from_available_block_sizes 1 0 0 [sample_executed] (0, 0) [6, 30] 0 0 :: (unit, block) res) = Ok b
    \<and> bl_block_chunks_size b = 6"
proof -
  obtain bs where "op_public_data (OpWithdraw \<lparr>wdop_tx = sample_withdraw, wdop_account_id = 5\<rparr>) = Ok bs"
    using sample_withdraw_public_data by blast
  then have "concat_res (map op_public_data (block_ops [sample_executed])) = Ok bs"
    by (simp add: block_ops_def sample_executed_def)
  moreover have "txs_chunks [sample_executed] = 6"
    by (simp add: txs_chunks_def block_ops_def sample_executed_def WITHDRAW_CHUNKS_def)
  ultimately show ?thesis
    using block_size_and_public_data [of "[6, 30]" "[sample_executed]" bs 1 0 0 "(0, 0)" 0 0]
    by (force split: res.splits)
qed

end
