(* ===== verification/Restore.thy ===== *)
theory Restore
  imports Block StateUpdates
begin

text \<open>
  The reader of block data of the recovery tool, @core/bin/data_restore/src/rollup_ops.rs@: it
  turns the public data of a block, as it was sent to the contract, into operations.
\<close>

section \<open>Operations from public data\<close>

text \<open>The loop over the data; the pointer is kept as the rest of the data.  A slice beyond the end panics.\<close>

lemma op_public_data_length_pos: "op_public_data_length b = Ok n \<Longrightarrow> 0 < n"
  by (auto simp: op_public_data_length_def op_consts param_defs ok_iffs split: if_splits)

function get_rollup_ops_from_data :: "crypto \<Rightarrow> byte list \<Rightarrow> (op_error, zksync_op list) res" where
  "get_rollup_ops_from_data c [] = Ok []"
| "get_rollup_ops_from_data c (op_type # rest) =
    (case op_public_data_length op_type of
       Ok n \<Rightarrow>
         if n \<le> size (op_type # rest) then
           (case op_from_public_data c (take n (op_type # rest)) of
              Ok op \<Rightarrow> res_map ((#) op) (get_rollup_ops_from_data c (drop n (op_type # rest)))
            | Err e \<Rightarrow> Err e
            | Panic \<Rightarrow> Panic)
         else Panic
     | Err e \<Rightarrow> Err e
     | Panic \<Rightarrow> Panic)"
  by pat_completeness auto

termination
proof (relation "measure (\<lambda>(c, data). size data)")
  fix c op_type rest n op
  assume "op_public_data_length op_type = Ok n"
  then have "0 < n"
    by (rule op_public_data_length_pos)
  then show "((c, drop n (op_type # rest)), c, op_type # rest) \<in> measure (\<lambda>(c, data). size data)"
    by simp
qed simp

lemma get_rollup_ops_step:
  assumes "op_public_data op = Ok bs" "op_amounts_packable op"
  shows "get_rollup_ops_from_data c (bs @ rest) = res_map ((#) (public_part op)) (get_rollup_ops_from_data c rest)"
proof -
  have len: "op_public_data_length (hd bs) = Ok (size bs)"
    using assms(1) by (rule op_public_data_length_hd)
  then obtain b bs' where bs: "bs = b # bs'"
    using op_public_data_length_pos by (cases bs) force+
  define n where "n = size bs"
  have "take n (b # bs' @ rest) = bs" "drop n (b # bs' @ rest) = rest" "n \<le> size (b # bs' @ rest)"
    by (simp_all add: bs n_def)
  moreover have "op_public_data_length b = Ok n"
    using len by (simp add: bs n_def)
  moreover have "op_from_public_data c bs = Ok (public_part op)"
    using op_public_data_roundtrip [OF assms] by blast
  moreover have "bs @ rest = b # bs' @ rest"
    by (simp add: bs)
  ultimately show ?thesis
    by (simp del: take_Suc_Cons drop_Suc_Cons)
qed

lemma get_rollup_ops_concat:
  assumes "list_all2 (\<lambda>op bs. op_public_data op = Ok bs) ops bss" "list_all op_amounts_packable ops"
  shows "get_rollup_ops_from_data c (concat bss @ rest)
    = res_map (\<lambda>more. map public_part ops @ more) (get_rollup_ops_from_data c rest)"
  using assms
proof (induction rule: list_all2_induct)
  case Nil
  then show ?case
    by (cases "get_rollup_ops_from_data c rest") auto
next
  case (Cons op ops bs bss)
  then show ?case
    by (cases "get_rollup_ops_from_data c rest") (simp_all add: get_rollup_ops_step)
qed

lemma get_rollup_ops_noops:
  "get_rollup_ops_from_data c (replicate (n * CHUNK_BYTES) 0) = Ok (replicate n OpNoop)"
proof (induction n)
  case (Suc n)
  have "op_public_data OpNoop = Ok (replicate CHUNK_BYTES 0)"
    by (simp add: noop_op_public_data_def pubdata_def resize_def op_consts CHUNK_BYTES_def)
  moreover have "public_part OpNoop = OpNoop"
    by simp
  moreover have "(replicate (Suc n * CHUNK_BYTES) 0 :: byte list)
      = replicate CHUNK_BYTES 0 @ replicate (n * CHUNK_BYTES) 0"
    by (simp add: replicate_add)
  ultimately show ?case
    using get_rollup_ops_step [of OpNoop] Suc.IH by (simp del: mult_Suc)
qed simp

lemma block_data_read:
  assumes "(block_new_from_available_block_sizes number root fee_account txs prio sizes cgas vgas :: (unit, block) res) = Ok b"
    "block_public_data b = Ok data" "list_all op_amounts_packable (block_ops txs)"
  shows "get_rollup_ops_from_data c data
    = Ok (map public_part (block_ops txs) @ replicate (bl_block_chunks_size b - txs_chunks txs) OpNoop)"
proof -
  obtain n where n: "smallest_block_size_for_chunks (txs_chunks txs) sizes = (Ok n :: (unit, nat) res)"
    "b = block_new number root fee_account txs prio n cgas vgas"
    using assms(1) block_new_available_Ok by blast
  obtain bss where bss: "list_all2 (\<lambda>op bs. op_public_data op = Ok bs) (block_ops txs) bss"
    "data = resize (n * CHUNK_BIT_WIDTH div 8) 0 (concat bss)"
    using assms(2) by (auto simp: block_public_data_def ok_iffs concat_res_Ok n(2) block_new_def)
  have "size (concat bss) = txs_chunks txs * CHUNK_BYTES"
    using block_ops_size [OF bss(1)] by (simp add: txs_chunks_def)
  then have "data = concat bss @ replicate ((n - txs_chunks txs) * CHUNK_BYTES) 0"
    using smallest_block_size_Ok [OF n(1)] by (simp add: bss(2) resize_def chunk_bytes_eq diff_mult_distrib)
  then show ?thesis
    using get_rollup_ops_concat [OF bss(1) assms(3)] get_rollup_ops_noops
    by (simp add: n(2) block_new_def)
qed

text \<open>What the recovery tool reads from the public data of a block is exactly the list of the block's
  operations (their public parts, in their order), followed by the padding operations; it
  neither fails nor panics, whatever the block was.\<close>

lemma block_data_roundtrip:
  assumes "(block_new_from_available_block_sizes number root fee_account txs prio sizes cgas vgas :: (unit, block) res) = Ok b"
    "block_public_data b = Ok data" "list_all op_amounts_packable (block_ops txs)"
  shows "get_rollup_ops_from_data c data
    = Ok (map public_part (block_ops txs) @ replicate (bl_block_chunks_size b - txs_chunks txs) OpNoop)"
  using assms by (rule block_data_read)

lemma block_data_roundtrip_example:
  "\<exists>b data. (block_new_from_available_block_sizes 1 0 0 [sample_executed] (0, 0) [6, 8] 0 0 :: (unit, block) res) = Ok b
    \<and> block_public_data b = Ok data \<and> get_rollup_ops_from_data sample_crypto data
      = Ok [public_part (OpWithdraw \<lparr>wdop_tx = sample_withdraw, wdop_account_id = 5\<rparr>)]"
proof -
  let ?op = "OpWithdraw \<lparr>wdop_tx = sample_withdraw, wdop_account_id = 5\<rparr>"
  let ?b = "block_new 1 0 0 [sample_executed] (0, 0) 6 0 0"
  have ops: "block_ops [sample_executed] = [?op]" "txs_chunks [sample_executed] = 6"
    by (simp_all add: block_ops_def sample_executed_def txs_chunks_def WITHDRAW_CHUNKS_def)
  have b: "(block_new_from_available_block_sizes 1 0 0 [sample_executed] (0, 0) [6, 8] 0 0 :: (unit, block) res) = Ok ?b"
    by (simp add: block_new_available_Ok ops)
  obtain bs where "op_public_data ?op = Ok bs"
    using sample_withdraw_public_data by blast
  then obtain data where d: "block_public_data ?b = Ok data"
    by (simp add: block_public_data_def block_new_def ops)
  have "list_all op_amounts_packable (block_ops [sample_executed])"
    by (simp add: ops sample_withdraw_def fee_zero_packable)
  from block_data_roundtrip [OF b d this, of sample_crypto] show ?thesis
    using b d by (auto simp: ops block_new_def)
qed


section \<open>Restoring the state\<close>

text \<open>@core/bin/data_restore/src/tree_state.rs@: the operations read are applied to the state, after the
  fields that the public data lacks are filled in from the accounts.  The root hash of the accounts is
  a parameter.  After an error the tool gives up, so the state is then not kept.\<close>

record tree_state =
  ts_state :: zk_state
  ts_current_unprocessed_priority_op :: "64 word"
  ts_last_fee_account_address :: address
  ts_available_block_chunk_sizes :: "nat list"

record rollup_ops_block =
  rob_block_num :: block_number
  rob_ops :: "zksync_op list"
  rob_fee_account :: account_id

definition tree_state_new :: "nat list \<Rightarrow> tree_state" where
  "tree_state_new sizes = \<lparr>ts_state = empty_state, ts_current_unprocessed_priority_op = 0,
    ts_last_fee_account_address = 0, ts_available_block_chunk_sizes = sizes\<rparr>"

definition tree_state_load ::
  "block_number \<Rightarrow> (account_id \<times> account) list \<Rightarrow> 64 word \<Rightarrow> account_id \<Rightarrow> nat list \<Rightarrow> ('e, tree_state) res" where
  "tree_state_load current_block accounts current_unprocessed_priority_op fee_account sizes =
    (let state = from_acc_map accounts current_block
     in res_map (\<lambda>a. \<lparr>ts_state = state, ts_current_unprocessed_priority_op = current_unprocessed_priority_op,
          ts_last_fee_account_address = acc_address a, ts_available_block_chunk_sizes = sizes\<rparr>)
        (expect (get_account state fee_account)))"

text \<open>The variables of the loop: the tree state, the fees, updates and operations so far, and the index.\<close>

record ops_run =
  or_tree :: tree_state
  or_fees :: "collected_fee list"
  or_accounts_updated :: account_updates
  or_ops :: "executed_operation list"
  or_index :: "32 word"

definition update_from_priority_operation ::
  "ops_run \<Rightarrow> priority_op_data \<Rightarrow> op_success \<times> zk_state \<Rightarrow> ops_run" where
  "update_from_priority_operation r p res =
    (let success = fst res;
         exec_result = ExecPriority \<lparr>epo_priority_op = \<lparr>po_serial_id = 0, po_data = p, po_deadline_block = 0,
             po_eth_hash = [], po_eth_block = 0\<rparr>, epo_op = os_executed_op success, epo_block_index = or_index r\<rparr>
     in r\<lparr>or_tree := (or_tree r)\<lparr>ts_state := snd res,
            ts_current_unprocessed_priority_op := ts_current_unprocessed_priority_op (or_tree r) + 1\<rparr>,
          or_fees := or_fees r @ fee_list (os_fee success),
          or_accounts_updated := or_accounts_updated r @ os_updates success,
          or_ops := or_ops r @ [exec_result], or_index := or_index r + 1\<rparr>)"

definition update_from_tx :: "ops_run \<Rightarrow> zksync_tx \<Rightarrow> op_success \<times> zk_state \<Rightarrow> ops_run" where
  "update_from_tx r tx res =
    (let success = fst res;
         exec_result = ExecTx \<lparr>etx_signed_tx = \<lparr>stx_tx = tx, stx_eth_sign_data = None\<rparr>, etx_success = True,
             etx_op = Some (os_executed_op success), etx_fail_reason = None,
             etx_block_index = Some (or_index r), etx_batch_id = None\<rparr>
     in r\<lparr>or_tree := (or_tree r)\<lparr>ts_state := snd res\<rparr>,
          or_fees := or_fees r @ fee_list (os_fee success),
          or_accounts_updated := or_accounts_updated r @ os_updates success,
          or_ops := or_ops r @ [exec_result], or_index := or_index r + 1\<rparr>)"

definition restore_op :: "ops_run \<Rightarrow> zksync_op \<Rightarrow> (error, ops_run) res" where
  "restore_op r operation =
    (let s = ts_state (or_tree r) in
     case operation of
       OpDeposit op \<Rightarrow>
         let p = PrioDeposit (depop_priority_op op)
         in res_map (update_from_priority_operation r p) (execute_priority_op s p)
     | OpTransferToNew op \<Rightarrow>
         res_bind (ok_or (get_account s (tnop_from op)) ''TransferToNew fail: Nonexistent account'') (\<lambda>from.
           let op = op\<lparr>tnop_tx := (tnop_tx op)\<lparr>tr_from := acc_address from, tr_nonce := acc_nonce from\<rparr>\<rparr>
           in res_map (\<lambda>a. update_from_tx r (TxTransfer (tnop_tx op)) (applied_success (OpTransferToNew op) a))
                (map_err ((@) ''TransferToNew fail: '') (transfer_apply_op s (OutcomeTransferToNew op))))
     | OpTransfer op \<Rightarrow>
         res_bind (ok_or (get_account s (trop_from op)) ''Nonexistent account'') (\<lambda>from.
         res_bind (ok_or (get_account s (trop_to op)) ''Nonexistent account'') (\<lambda>to.
           let op = op\<lparr>trop_tx := (trop_tx op)\<lparr>tr_from := acc_address from, tr_to := acc_address to,
                 tr_nonce := acc_nonce from\<rparr>\<rparr>
           in res_map (\<lambda>a. update_from_tx r (TxTransfer (trop_tx op)) (applied_success (OpTransfer op) a))
                (map_err ((@) ''Withdraw fail: '') (transfer_apply_op s (OutcomeTransfer op)))))
     | OpWithdraw op \<Rightarrow>
         res_bind (ok_or (get_account s (wdop_account_id op)) ''Withdraw fail: Nonexistent account'') (\<lambda>account.
           let op = op\<lparr>wdop_tx := (wdop_tx op)\<lparr>wd_from := acc_address account, wd_nonce := acc_nonce account\<rparr>\<rparr>
           in res_map (\<lambda>a. update_from_tx r (TxWithdraw (wdop_tx op)) (applied_success (OpWithdraw op) a))
                (map_err ((@) ''Withdraw fail: '') (withdraw_apply_op s op)))
     | OpForcedExit op \<Rightarrow>
         res_bind (ok_or (get_account s (fe_initiator_account_id (feop_tx op)))
             ''ForcedExit fail: Nonexistent initiator account'') (\<lambda>initiator_account.
           let op = op\<lparr>feop_tx := (feop_tx op)\<lparr>fe_nonce := acc_nonce initiator_account\<rparr>\<rparr>
           in res_map (\<lambda>a. update_from_tx r (TxForcedExit (feop_tx op)) (applied_success (OpForcedExit op) a))
                (map_err ((@) ''ForcedExit fail: '') (forced_exit_apply_op s op)))
     | OpClose op \<Rightarrow>
         res_bind (ok_or (get_account s (clop_account_id op)) ''Close fail: Nonexistent account'') (\<lambda>account.
           let op = op\<lparr>clop_tx := (clop_tx op)\<lparr>cl_account := acc_address account, cl_nonce := acc_nonce account\<rparr>\<rparr>
           in res_map (\<lambda>a. update_from_tx r (TxClose (clop_tx op)) (applied_success (OpClose op) a))
                (map_err ((@) ''Close fail: '') (close_apply_op s op)))
     | OpFullExit op \<Rightarrow>
         let p = PrioFullExit (fxop_priority_op op)
         in res_map (update_from_priority_operation r p) (execute_priority_op s p)
     | OpChangePubKey op \<Rightarrow>
         res_bind (ok_or (get_account s (cpop_account_id op)) ''ChangePubKeyOffChain fail: Nonexistent account'') (\<lambda>account.
           let op = op\<lparr>cpop_tx := (cpop_tx op)\<lparr>cp_account := acc_address account, cp_nonce := acc_nonce account\<rparr>\<rparr>
           in res_map (\<lambda>a. update_from_tx r (TxChangePubKey (cpop_tx op)) (applied_success (OpChangePubKey op) a))
                (map_err ((@) ''ChangePubKeyOffChain fail: '') (change_pub_key_apply_op s op)))
     | OpNoop \<Rightarrow> Ok r)"

fun restore_ops :: "ops_run \<Rightarrow> zksync_op list \<Rightarrow> (error, ops_run) res" where
  "restore_ops r [] = Ok r"
| "restore_ops r (op # ops) = res_bind (restore_op r op) (\<lambda>r. restore_ops r ops)"

definition update_tree_states_from_ops_block ::
  "(zk_state \<Rightarrow> fr) \<Rightarrow> tree_state \<Rightarrow> rollup_ops_block \<Rightarrow> (error, (block \<times> account_updates) \<times> tree_state) res" where
  "update_tree_states_from_ops_block root ts ops_block =
    res_bind (restore_ops \<lparr>or_tree = ts, or_fees = [], or_accounts_updated = [], or_ops = [], or_index = 0\<rparr>
      (rob_ops ops_block)) (\<lambda>r.
    res_bind (ok_or (get_account (ts_state (or_tree r)) (rob_fee_account ops_block)) ''Nonexistent account'') (\<lambda>fee_account.
    res_bind (collect_fee (ts_state (or_tree r)) (or_fees r) (rob_fee_account ops_block)) (\<lambda>(fee_updates, s).
    res_bind (block_new_from_available_block_sizes (rob_block_num ops_block) (root s) (rob_fee_account ops_block)
        (or_ops r) (ts_current_unprocessed_priority_op ts, ts_current_unprocessed_priority_op (or_tree r))
        (ts_available_block_chunk_sizes ts) 0 0) (\<lambda>b.
      Ok ((b, or_accounts_updated r @ fee_updates),
        (or_tree r)\<lparr>ts_state := s\<lparr>zs_block_number := zs_block_number s + 1\<rparr>,
          ts_last_fee_account_address := acc_address fee_account\<rparr>)))))"


section \<open>Applying operations that agree\<close>

lemma apply_transfer_cong:
  assumes "trop_from op' = trop_from op" "trop_to op' = trop_to op" "tr_token (trop_tx op') = tr_token (trop_tx op)"
    "tr_amount (trop_tx op') = tr_amount (trop_tx op)" "tr_fee (trop_tx op') = tr_fee (trop_tx op)"
    "tr_nonce (trop_tx op') = tr_nonce (trop_tx op)"
  shows "apply_transfer_op s op' = apply_transfer_op s op"
  unfolding apply_transfer_op_def apply_transfer_op_to_self_def assms by (rule refl)

lemma apply_transfer_to_new_cong:
  assumes "tnop_from op' = tnop_from op" "tnop_to op' = tnop_to op" "tr_token (tnop_tx op') = tr_token (tnop_tx op)"
    "tr_amount (tnop_tx op') = tr_amount (tnop_tx op)" "tr_fee (tnop_tx op') = tr_fee (tnop_tx op)"
    "tr_nonce (tnop_tx op') = tr_nonce (tnop_tx op)" "tr_to (tnop_tx op') = tr_to (tnop_tx op)"
  shows "apply_transfer_to_new_op s op' = apply_transfer_to_new_op s op"
  unfolding apply_transfer_to_new_op_def assms by (rule refl)

lemma withdraw_apply_cong:
  assumes "wdop_account_id op' = wdop_account_id op" "wd_token (wdop_tx op') = wd_token (wdop_tx op)"
    "wd_amount (wdop_tx op') = wd_amount (wdop_tx op)" "wd_fee (wdop_tx op') = wd_fee (wdop_tx op)"
    "wd_nonce (wdop_tx op') = wd_nonce (wdop_tx op)"
  shows "withdraw_apply_op s op' = withdraw_apply_op s op"
  unfolding withdraw_apply_op_def assms by (rule refl)

lemma change_pub_key_apply_cong:
  assumes "cpop_account_id op' = cpop_account_id op" "cp_fee_token (cpop_tx op') = cp_fee_token (cpop_tx op)"
    "cp_fee (cpop_tx op') = cp_fee (cpop_tx op)" "cp_new_pk_hash (cpop_tx op') = cp_new_pk_hash (cpop_tx op)"
    "cp_nonce (cpop_tx op') = cp_nonce (cpop_tx op)"
  shows "change_pub_key_apply_op s op' = change_pub_key_apply_op s op"
  unfolding change_pub_key_apply_op_def Let_def assms by (rule refl)

lemma forced_exit_apply_cong:
  assumes "feop_target_account_id op' = feop_target_account_id op"
    "fe_initiator_account_id (feop_tx op') = fe_initiator_account_id (feop_tx op)"
    "fe_token (feop_tx op') = fe_token (feop_tx op)" "fe_fee (feop_tx op') = fe_fee (feop_tx op)"
    "fe_nonce (feop_tx op') = fe_nonce (feop_tx op)"
    "(case feop_withdraw_amount op' of Some a \<Rightarrow> a | None \<Rightarrow> 0) = (case feop_withdraw_amount op of Some a \<Rightarrow> a | None \<Rightarrow> 0)"
  shows "forced_exit_apply_op s op' = forced_exit_apply_op s op"
  unfolding forced_exit_apply_op_def Let_def assms by (rule refl)

lemma deposit_apply_cong:
  assumes "depop_account_id op' = depop_account_id op"
    "dep_token (depop_priority_op op') = dep_token (depop_priority_op op)"
    "dep_amount (depop_priority_op op') = dep_amount (depop_priority_op op)"
    "dep_to (depop_priority_op op') = dep_to (depop_priority_op op)"
  shows "deposit_apply_op s op' = deposit_apply_op s op"
  unfolding deposit_apply_op_def Let_def assms by (rule refl)

section \<open>The recovery follows the server\<close>

datatype item = ItemTx zksync_tx | ItemPrio priority_op_data

fun exec_item :: "crypto \<Rightarrow> zk_state \<Rightarrow> item \<Rightarrow> (error, op_success \<times> zk_state) res" where
  "exec_item c s (ItemTx tx) = execute_tx c s tx"
| "exec_item c s (ItemPrio p) = execute_priority_op s p"

fun is_prio :: "item \<Rightarrow> bool" where
  "is_prio (ItemTx tx) = False"
| "is_prio (ItemPrio p) = True"

text \<open>An executed operation that shows the same on L1 as the given one.\<close>

definition shows_op :: "executed_operation \<Rightarrow> zksync_op \<Rightarrow> bool" where
  "shows_op e op \<longleftrightarrow> (\<exists>op'. get_executed_op e = Some op' \<and> op_public_data op' = op_public_data op
    \<and> op_chunks op' = op_chunks op)"

text \<open>The run of the recovery after one more operation.\<close>

definition restored :: "ops_run \<Rightarrow> bool \<Rightarrow> op_success \<Rightarrow> zk_state \<Rightarrow> ops_run \<Rightarrow> bool" where
  "restored r prio success s' r' \<longleftrightarrow>
    or_tree r' = (or_tree r)\<lparr>ts_state := s', ts_current_unprocessed_priority_op :=
      ts_current_unprocessed_priority_op (or_tree r) + (if prio then 1 else 0)\<rparr>
    \<and> or_fees r' = or_fees r @ fee_list (os_fee success)
    \<and> or_accounts_updated r' = or_accounts_updated r @ os_updates success
    \<and> (\<exists>e. or_ops r' = or_ops r @ [e] \<and> shows_op e (os_executed_op success))"

lemma restored_tx:
  assumes "op_public_data op' = op_public_data op" "op_chunks op' = op_chunks op"
    "succ = \<lparr>os_fee = fee, os_updates = us, os_executed_op = op\<rparr>"
  shows "restored r False succ s' (update_from_tx r tx (applied_success op' ((fee, us), s')))"
  using assms by (simp add: restored_def update_from_tx_def applied_success_def shows_op_def Let_def)

lemma restored_prio:
  assumes "op_public_data (os_executed_op succ') = op_public_data (os_executed_op succ)"
    "op_chunks (os_executed_op succ') = op_chunks (os_executed_op succ)" "os_fee succ' = os_fee succ"
    "os_updates succ' = os_updates succ"
  shows "restored r True succ s' (update_from_priority_operation r p (succ', s'))"
  using assms by (simp add: restored_def update_from_priority_operation_def shows_op_def Let_def)

lemma restore_transfer:
  assumes "transfer_apply_op s (OutcomeTransfer op) = Ok ((fee, us), s')" "ts_state (or_tree r) = s"
    "succ = \<lparr>os_fee = fee, os_updates = us, os_executed_op = OpTransfer op\<rparr>"
  shows "\<exists>r'. restore_op r (public_part (OpTransfer op)) = Ok r' \<and> restored r False succ s' r'"
proof -
  obtain a b where ab: "get_account s (trop_from op) = Some a" "get_account s (trop_to op) = Some b"
    "tr_nonce (trop_tx op) = acc_nonce a"
    using assms(1) by (auto simp: apply_op_Ok split: if_splits)
  let ?op = "op\<lparr>trop_tx := (public_transfer (trop_from op) 0 (trop_tx op))\<lparr>tr_from := acc_address a,
      tr_to := acc_address b, tr_nonce := acc_nonce a\<rparr>\<rparr>"
  have "apply_transfer_op s ?op = apply_transfer_op s op"
    by (rule apply_transfer_cong) (simp_all add: public_transfer_def ab)
  then have "restore_op r (public_part (OpTransfer op))
      = Ok (update_from_tx r (TxTransfer (trop_tx ?op)) (applied_success (OpTransfer ?op) ((fee, us), s')))"
    using assms(1,2) ab by (simp add: restore_op_def Let_def)
  moreover have "op_public_data (OpTransfer ?op) = op_public_data (OpTransfer op)"
    by (simp add: transfer_op_public_data_def public_transfer_def)
  ultimately show ?thesis
    using restored_tx [OF _ _ assms(3)] by simp
qed

lemma restore_transfer_to_new:
  assumes "transfer_apply_op s (OutcomeTransferToNew op) = Ok ((fee, us), s')" "ts_state (or_tree r) = s"
    "succ = \<lparr>os_fee = fee, os_updates = us, os_executed_op = OpTransferToNew op\<rparr>"
  shows "\<exists>r'. restore_op r (public_part (OpTransferToNew op)) = Ok r' \<and> restored r False succ s' r'"
proof -
  obtain a where ab: "get_account s (tnop_from op) = Some a" "tr_nonce (tnop_tx op) = acc_nonce a"
    using assms(1) by (auto simp: apply_op_Ok)
  let ?op = "op\<lparr>tnop_tx := (public_transfer (tnop_from op) (tr_to (tnop_tx op)) (tnop_tx op))\<lparr>tr_from := acc_address a,
      tr_nonce := acc_nonce a\<rparr>\<rparr>"
  have "apply_transfer_to_new_op s ?op = apply_transfer_to_new_op s op"
    by (rule apply_transfer_to_new_cong) (simp_all add: public_transfer_def ab)
  then have "restore_op r (public_part (OpTransferToNew op))
      = Ok (update_from_tx r (TxTransfer (tnop_tx ?op)) (applied_success (OpTransferToNew ?op) ((fee, us), s')))"
    using assms(1,2) ab by (simp add: restore_op_def Let_def)
  moreover have "op_public_data (OpTransferToNew ?op) = op_public_data (OpTransferToNew op)"
    by (simp add: transfer_to_new_op_public_data_def public_transfer_def)
  ultimately show ?thesis
    using restored_tx [OF _ _ assms(3)] by simp
qed

lemma restore_withdraw:
  assumes "withdraw_apply_op s op = Ok ((fee, us), s')" "ts_state (or_tree r) = s"
    "succ = \<lparr>os_fee = fee, os_updates = us, os_executed_op = OpWithdraw op\<rparr>"
  shows "\<exists>r'. restore_op r (public_part (OpWithdraw op)) = Ok r' \<and> restored r False succ s' r'"
proof -
  obtain a where ab: "get_account s (wdop_account_id op) = Some a" "wd_nonce (wdop_tx op) = acc_nonce a"
    using assms(1) by (auto simp: apply_op_Ok)
  let ?op = "op\<lparr>wdop_tx := (wdop_tx op)\<lparr>wd_account_id := wdop_account_id op, wd_signature := default_signature,
      wd_cached_signer := NotCached, wd_fast := False, wd_from := acc_address a, wd_nonce := acc_nonce a\<rparr>\<rparr>"
  have "withdraw_apply_op s ?op = withdraw_apply_op s op"
    by (rule withdraw_apply_cong) (simp_all add: ab)
  then have "restore_op r (public_part (OpWithdraw op))
      = Ok (update_from_tx r (TxWithdraw (wdop_tx ?op)) (applied_success (OpWithdraw ?op) ((fee, us), s')))"
    using assms(1,2) ab by (simp add: restore_op_def Let_def)
  moreover have "op_public_data (OpWithdraw ?op) = op_public_data (OpWithdraw op)"
    by (simp add: withdraw_op_public_data_def)
  ultimately show ?thesis
    using restored_tx [OF _ _ assms(3)] by simp
qed


lemma restore_change_pub_key:
  assumes "change_pub_key_create_op c s tx = Ok op" "change_pub_key_apply_op s op = Ok ((fee, us), s')"
    "ts_state (or_tree r) = s" "index_ok s" "succ = \<lparr>os_fee = fee, os_updates = us, os_executed_op = OpChangePubKey op\<rparr>"
  shows "\<exists>r'. restore_op r (public_part (OpChangePubKey op)) = Ok r' \<and> restored r False succ s' r'"
proof -
  obtain a where ab: "get_account s (cpop_account_id op) = Some a" "cp_nonce (cpop_tx op) = acc_nonce a"
    using assms(2) by (auto simp: apply_op_Ok)
  have "fmlookup (zs_index s) (cp_account (cpop_tx op)) = Some (cpop_account_id op)"
    using assms(1) by (auto simp: create_op_Ok)
  then have addr: "acc_address a = cp_account (cpop_tx op)"
    using index_ok_index [OF assms(4)] ab(1) by force
  let ?op = "op\<lparr>cpop_tx := (cpop_tx op)\<lparr>cp_account_id := cpop_account_id op, cp_signature := default_signature,
      cp_eth_signature := None, cp_cached_signer := NotCached, cp_account := acc_address a, cp_nonce := acc_nonce a\<rparr>\<rparr>"
  have "change_pub_key_apply_op s ?op = change_pub_key_apply_op s op"
    by (rule change_pub_key_apply_cong) (simp_all add: ab)
  then have "restore_op r (public_part (OpChangePubKey op))
      = Ok (update_from_tx r (TxChangePubKey (cpop_tx ?op)) (applied_success (OpChangePubKey ?op) ((fee, us), s')))"
    using assms(2,3) ab by (simp add: restore_op_def Let_def)
  moreover have "op_public_data (OpChangePubKey ?op) = op_public_data (OpChangePubKey op)"
    by (simp add: change_pub_key_op_public_data_def addr ab)
  ultimately show ?thesis
    using restored_tx [OF _ _ assms(5)] by simp
qed

lemma restore_forced_exit:
  assumes "forced_exit_apply_op s op = Ok ((fee, us), s')" "ts_state (or_tree r) = s"
    "succ = \<lparr>os_fee = fee, os_updates = us, os_executed_op = OpForcedExit op\<rparr>"
  shows "\<exists>r'. restore_op r (public_part (OpForcedExit op)) = Ok r' \<and> restored r False succ s' r'"
proof -
  obtain a where ab: "get_account s (fe_initiator_account_id (feop_tx op)) = Some a" "fe_nonce (feop_tx op) = acc_nonce a"
    using assms(1) by (auto simp: apply_op_Ok)
  let ?w = "case feop_withdraw_amount op of None \<Rightarrow> 0 | Some n \<Rightarrow> n"
  let ?op = "op\<lparr>feop_withdraw_amount := Some ?w, feop_tx := (feop_tx op)\<lparr>fe_signature := default_signature,
      fe_cached_signer := NotCached, fe_nonce := acc_nonce a\<rparr>\<rparr>"
  have "forced_exit_apply_op s ?op = forced_exit_apply_op s op"
    by (rule forced_exit_apply_cong) (simp_all add: ab split: option.split)
  then have "restore_op r (public_part (OpForcedExit op))
      = Ok (update_from_tx r (TxForcedExit (feop_tx ?op)) (applied_success (OpForcedExit ?op) ((fee, us), s')))"
    using assms(1,2) ab by (simp add: restore_op_def Let_def)
  moreover have "op_public_data (OpForcedExit ?op) = op_public_data (OpForcedExit op)"
    by (simp add: forced_exit_op_public_data_def forced_exit_op_amount_def to_u128_def split: option.split)
  ultimately show ?thesis
    using restored_tx [OF _ _ assms(3)] by simp
qed

lemma restore_prio:
  assumes "(execute_priority_op s p :: (error, _) res) = Ok (succ, s')" "ts_state (or_tree r) = s"
  shows "\<exists>r'. restore_op r (public_part (os_executed_op succ)) = Ok r' \<and> restored r True succ s' r'"
proof (cases p)
  case (PrioDeposit d)
  let ?d = "d\<lparr>dep_from := 0\<rparr>"
  obtain op where op: "deposit_create_op s d = Ok op" "os_executed_op succ = OpDeposit op"
    "deposit_apply_op s op = Ok ((os_fee succ, os_updates succ), s')"
    using assms(1) PrioDeposit by (auto simp: execute_priority_op_Ok)
  have d: "depop_priority_op op = d"
    using op(1) by (auto simp: create_op_Ok split: option.splits)
  let ?op = "op\<lparr>depop_priority_op := ?d\<rparr>"
  have c: "deposit_create_op s ?d = Ok ?op"
    using op(1) d by (cases op) (auto simp: create_op_Ok split: option.splits)
  have "deposit_apply_op s ?op = Ok ((os_fee succ, os_updates succ), s')"
    using op(3) deposit_apply_cong [of ?op op s] d by simp
  then have "execute_priority_op s (PrioDeposit ?d)
      = (Ok (\<lparr>os_fee = os_fee succ, os_updates = os_updates succ, os_executed_op = OpDeposit ?op\<rparr>, s') :: (error, _) res)"
    using c by (simp add: execute_priority_op_def deposit_apply_tx_def applied_success_def)
  then have "restore_op r (public_part (os_executed_op succ)) = Ok (update_from_priority_operation r (PrioDeposit ?d)
      (\<lparr>os_fee = os_fee succ, os_updates = os_updates succ, os_executed_op = OpDeposit ?op\<rparr>, s'))"
    using assms(2) by (simp add: restore_op_def op(2) d)
  moreover have "op_public_data (OpDeposit ?op) = op_public_data (OpDeposit op)"
    by (simp add: deposit_op_public_data_def d)
  ultimately show ?thesis
    by (auto intro!: restored_prio simp: op(2))
next
  case (PrioFullExit f)
  obtain op where op: "full_exit_create_op s f = Ok op" "os_executed_op succ = OpFullExit op"
    using assms(1) PrioFullExit by (auto simp: execute_priority_op_Ok)
  have "fxop_priority_op op = f"
    using op(1) by (auto simp: create_op_Ok)
  then have "restore_op r (public_part (os_executed_op succ))
      = Ok (update_from_priority_operation r p (succ, s'))"
    using assms PrioFullExit by (simp add: restore_op_def op(2) Let_def)
  then show ?thesis
    by (auto intro!: restored_prio)
qed

lemma restore_item:
  assumes "exec_item c s i = Ok (succ, s')" "ts_state (or_tree r) = s" "index_ok s"
  shows "\<exists>r'. restore_op r (public_part (os_executed_op succ)) = Ok r' \<and> restored r (is_prio i) succ s' r'"
proof (cases i)
  case (ItemPrio p)
  then show ?thesis
    using assms restore_prio by simp
next
  case (ItemTx tx)
  then obtain fee us op where succ: "succ = \<lparr>os_fee = fee, os_updates = us, os_executed_op = op\<rparr>"
    by (cases succ) auto
  show ?thesis
  proof (cases tx)
    case (TxTransfer t)
    then obtain o' where "transfer_apply_op s o' = Ok ((fee, us), s')" "op = into_franklin_op o'"
      using assms(1) ItemTx succ by (auto simp: execute_tx_Ok)
    then show ?thesis
      using restore_transfer [OF _ assms(2)] restore_transfer_to_new [OF _ assms(2)] succ ItemTx
      by (cases o') simp_all
  next
    case (TxChangePubKey t)
    then show ?thesis
      using assms ItemTx succ restore_change_pub_key [OF _ _ assms(2,3)] by (auto simp: execute_tx_Ok)
  next
    case (TxWithdraw t)
    then show ?thesis
      using assms ItemTx succ restore_withdraw [OF _ assms(2)] by (auto simp: execute_tx_Ok)
  next
    case (TxForcedExit t)
    then show ?thesis
      using assms ItemTx succ restore_forced_exit [OF _ assms(2)] by (auto simp: execute_tx_Ok)
  qed (use assms(1) ItemTx in \<open>auto simp: execute_tx_Ok\<close>)
qed


text \<open>The server's execution of the operations of a block, those that succeeded.\<close>

fun exec_items :: "crypto \<Rightarrow> zk_state \<Rightarrow> item list \<Rightarrow> (op_success list \<times> zk_state) option" where
  "exec_items c s [] = Some ([], s)"
| "exec_items c s (i # is) =
    (case exec_item c s i of
       Ok (success, s') \<Rightarrow> map_option (\<lambda>(successes, s''). (success # successes, s'')) (exec_items c s' is)
     | r \<Rightarrow> None)"

definition fees_of :: "op_success list \<Rightarrow> collected_fee list" where
  "fees_of successes = concat (map (\<lambda>x. fee_list (os_fee x)) successes)"

definition updates_of :: "op_success list \<Rightarrow> account_updates" where
  "updates_of successes = concat (map os_updates successes)"

lemma exec_item_index_ok: "exec_item c s i = Ok (succ, s') \<Longrightarrow> index_ok s \<Longrightarrow> index_ok s'"
  by (cases i) (auto intro: execute_tx_index_ok execute_priority_op_index_ok)

lemma restore_items:
  assumes "exec_items c s is = Some (succs, s1)" "ts_state (or_tree r) = s" "index_ok s"
  shows "\<exists>r' es. (\<forall>rest. restore_ops r (map (\<lambda>x. public_part (os_executed_op x)) succs @ rest) = restore_ops r' rest)
    \<and> or_tree r' = (or_tree r)\<lparr>ts_state := s1, ts_current_unprocessed_priority_op :=
        ts_current_unprocessed_priority_op (or_tree r) + of_nat (size (filter is_prio is))\<rparr>
    \<and> or_fees r' = or_fees r @ fees_of succs \<and> or_accounts_updated r' = or_accounts_updated r @ updates_of succs
    \<and> or_ops r' = or_ops r @ es \<and> list_all2 shows_op es (map os_executed_op succs)"
  using assms
proof (induction "is" arbitrary: s r succs)
  case Nil
  then show ?case
    by (auto simp: fees_of_def updates_of_def intro!: exI [of _ r])
next
  case (Cons i "is")
  then obtain succ s' where i: "exec_item c s i = Ok (succ, s')"
    by (auto split: res.splits)
  then obtain ss where ss: "exec_items c s' is = Some (ss, s1)" "succs = succ # ss"
    using Cons.prems(1) by auto
  obtain r1 where r1: "restore_op r (public_part (os_executed_op succ)) = Ok r1" "restored r (is_prio i) succ s' r1"
    using restore_item [OF i Cons.prems(2,3)] by blast
  have "ts_state (or_tree r1) = s'"
    using r1(2) by (simp add: restored_def)
  then obtain r2 es where r2: "\<forall>rest. restore_ops r1 (map (\<lambda>x. public_part (os_executed_op x)) ss @ rest) = restore_ops r2 rest"
    "or_tree r2 = (or_tree r1)\<lparr>ts_state := s1, ts_current_unprocessed_priority_op :=
      ts_current_unprocessed_priority_op (or_tree r1) + of_nat (size (filter is_prio is))\<rparr>"
    "or_fees r2 = or_fees r1 @ fees_of ss" "or_accounts_updated r2 = or_accounts_updated r1 @ updates_of ss"
    "or_ops r2 = or_ops r1 @ es" "list_all2 shows_op es (map os_executed_op ss)"
    using Cons.IH [OF ss(1)] exec_item_index_ok [OF i Cons.prems(3)] by blast
  obtain e where e: "or_ops r1 = or_ops r @ [e]" "shows_op e (os_executed_op succ)"
    using r1(2) by (auto simp: restored_def)
  show ?case
  proof (intro exI conjI)
    show "\<forall>rest. restore_ops r (map (\<lambda>x. public_part (os_executed_op x)) succs @ rest) = restore_ops r2 rest"
      using r1(1) r2(1) ss(2) by simp
    show "or_tree r2 = (or_tree r)\<lparr>ts_state := s1, ts_current_unprocessed_priority_op :=
        ts_current_unprocessed_priority_op (or_tree r) + of_nat (size (filter is_prio (i # is)))\<rparr>"
      using r1(2) r2(2) by (simp add: restored_def)
    show "or_fees r2 = or_fees r @ fees_of succs" "or_accounts_updated r2 = or_accounts_updated r @ updates_of succs"
      using r1(2) r2(3,4) ss(2) by (simp_all add: restored_def fees_of_def updates_of_def)
    show "or_ops r2 = or_ops r @ (e # es)"
      using e r2(5) by simp
    show "list_all2 shows_op (e # es) (map os_executed_op succs)"
      using e r2(6) ss(2) by simp
  qed
qed

lemma restore_noops: "restore_ops r (replicate n OpNoop) = Ok r"
  by (induction n) (simp_all add: restore_op_def)

lemma shows_ops:
  assumes "list_all2 shows_op es ops"
  shows "map op_public_data (block_ops es) = map op_public_data ops" "txs_chunks es = sum_list (map op_chunks ops)"
  using assms by (induction rule: list_all2_induct)
    (auto simp: shows_op_def block_ops_def txs_chunks_def)

text \<open>C11: the state can be recovered from L1 alone.  If the server executed operations on a consistent
  state and collected their fees, and made a block of them, then the recovery tool, starting in the same
  state, reads from the block's public data operations that lead it to exactly the server's new state (and
  the next block number), with the same account updates, the same root hash, a block of the same size and
  the same public data, and as many more priority operations counted as the server had executed.\<close>

theorem recovery_from_public_data:
  assumes exec: "exec_items c s is = Some (succs, s1)" and inv: "state_inv s"
    and fees: "(collect_fee s1 (fees_of succs) fee_account :: (error, _) res) = Ok (fee_updates, s2)"
    and txs: "block_ops txs = map os_executed_op succs" "list_all op_amounts_packable (block_ops txs)"
    and blk: "(block_new_from_available_block_sizes number (root s2) fee_account txs prio sizes cgas vgas
      :: (unit, block) res) = Ok b" "block_public_data b = Ok data"
    and ts: "ts_state ts = s" "ts_available_block_chunk_sizes ts = sizes"
  shows "\<exists>ops b' ts'. get_rollup_ops_from_data c data = Ok ops
    \<and> update_tree_states_from_ops_block root ts \<lparr>rob_block_num = number, rob_ops = ops, rob_fee_account = fee_account\<rparr>
      = Ok ((b', updates_of succs @ fee_updates), ts')
    \<and> ts_state ts' = s2\<lparr>zs_block_number := zs_block_number s2 + 1\<rparr>
    \<and> bl_new_root_hash b' = bl_new_root_hash b \<and> bl_block_chunks_size b' = bl_block_chunks_size b
    \<and> block_public_data b' = block_public_data b
    \<and> number_of_processed_prior_ops b' = of_nat (size (filter is_prio is))"
proof -
  let ?r0 = "\<lparr>or_tree = ts, or_fees = [], or_accounts_updated = [], or_ops = [], or_index = 0\<rparr>"
  let ?ops = "map (\<lambda>x. public_part (os_executed_op x)) succs @ replicate (bl_block_chunks_size b - txs_chunks txs) OpNoop"
  have read: "get_rollup_ops_from_data c data = Ok ?ops"
    using block_data_read [OF blk txs(2)] by (simp add: txs(1) comp_def)
  obtain r es where r: "restore_ops ?r0 ?ops = Ok r"
    "or_tree r = ts\<lparr>ts_state := s1, ts_current_unprocessed_priority_op :=
      ts_current_unprocessed_priority_op ts + of_nat (size (filter is_prio is))\<rparr>"
    "or_fees r = fees_of succs" "or_accounts_updated r = updates_of succs"
    "or_ops r = es" "list_all2 shows_op es (map os_executed_op succs)"
    using restore_items [OF exec, of ?r0] inv ts(1) restore_noops by (auto simp: state_inv_def)
  obtain n where n: "smallest_block_size_for_chunks (txs_chunks txs) sizes = (Ok n :: (unit, nat) res)"
    "b = block_new number (root s2) fee_account txs prio n cgas vgas"
    using blk(1) block_new_available_Ok by blast
  have chunks: "txs_chunks es = txs_chunks txs"
    using shows_ops(2) [OF r(6)] txs(1) by (simp add: txs_chunks_def)
  have n': "smallest_block_size_for_chunks (txs_chunks es) sizes = (Ok n :: (error, nat) res)"
    using smallest_block_size_res [OF n(1)] chunks by simp
  obtain a where a: "get_account s1 fee_account = Some a"
    using fees by (auto simp: collect_fee_def ok_iffs)
  let ?p = "(ts_current_unprocessed_priority_op ts, ts_current_unprocessed_priority_op ts + of_nat (size (filter is_prio is)))"
  let ?b = "block_new number (root s2) fee_account es ?p n 0 0"
  let ?ts = "(or_tree r)\<lparr>ts_state := s2\<lparr>zs_block_number := zs_block_number s2 + 1\<rparr>,
      ts_last_fee_account_address := acc_address a\<rparr>"
  have "update_tree_states_from_ops_block root ts \<lparr>rob_block_num = number, rob_ops = ?ops, rob_fee_account = fee_account\<rparr>
      = Ok ((?b, updates_of succs @ fee_updates), ?ts)"
    using r(1-5) a fees n' ts(2) by (simp add: update_tree_states_from_ops_block_def block_new_available_Ok ok_iffs)
  moreover have "block_public_data ?b = block_public_data b"
    using shows_ops(1) [OF r(6)] txs(1) by (simp add: block_public_data_def n(2) block_new_def)
  ultimately show ?thesis
    using read by (auto simp: n(2) block_new_def number_of_processed_prior_ops_def intro!: exI [of _ ?ops])
qed


theorem recovery_from_public_data_witness:
  "\<exists>succs s1 fee_updates s2 b data ops b' ts'.
    exec_items sample_crypto sample_state [ItemTx sample_tx] = Some (succs, s1)
    \<and> (collect_fee s1 (fees_of succs) 0 :: (error, _) res) = Ok (fee_updates, s2)
    \<and> block_public_data b = Ok data \<and> get_rollup_ops_from_data sample_crypto data = Ok ops
    \<and> update_tree_states_from_ops_block (\<lambda>s. 7) \<lparr>ts_state = sample_state, ts_current_unprocessed_priority_op = 0,
        ts_last_fee_account_address = 0, ts_available_block_chunk_sizes = [6, 8]\<rparr>
        \<lparr>rob_block_num = 4, rob_ops = ops, rob_fee_account = 0\<rparr> = Ok ((b', updates_of succs @ fee_updates), ts')
    \<and> ts_state ts' = s2\<lparr>zs_block_number := zs_block_number s2 + 1\<rparr>"
proof -
  let ?w = "sample_withdraw\<lparr>wd_account_id := 1, wd_cached_signer := Cached (Some 99)\<rparr>"
  let ?op = "OpWithdraw \<lparr>wdop_tx = ?w, wdop_account_id = 1\<rparr>"
  let ?txs = "[ExecTx \<lparr>etx_signed_tx = sample_signed, etx_success = True, etx_op = Some ?op,
      etx_fail_reason = None, etx_block_index = Some 0, etx_batch_id = None\<rparr>]"
  let ?ts = "\<lparr>ts_state = sample_state, ts_current_unprocessed_priority_op = 0, ts_last_fee_account_address = 0,
      ts_available_block_chunk_sizes = [6, 8]\<rparr>"
  let ?b = "block_new 4 7 0 ?txs (0, 0) 6 0 0"
  obtain succ s1 where e: "execute_tx sample_crypto sample_state sample_tx = Ok (succ, s1)"
    using sample_tx_executes by blast
  then have op: "os_executed_op succ = ?op" and s1: "get_account s1 0 \<noteq> None"
    by (auto simp: sample_tx_def execute_tx_Ok create_op_Ok withdraw_apply_op_Ok Let_def state_simps sample_lookup)
  have run: "exec_items sample_crypto sample_state [ItemTx sample_tx] = Some ([succ], s1)"
    by (simp add: e)
  obtain fee_updates s2 where f: "(collect_fee s1 (fees_of [succ]) 0 :: (error, _) res) = Ok (fee_updates, s2)"
    using s1 by (auto simp: collect_fee_def case_prod_unfold Let_def)
  have ops: "block_ops ?txs = map os_executed_op [succ]" "txs_chunks ?txs = 6"
    by (simp_all add: block_ops_def op txs_chunks_def WITHDRAW_CHUNKS_def)
  have pack: "list_all op_amounts_packable (block_ops ?txs)"
    unfolding ops(1) by (simp add: op sample_withdraw_def fee_zero_packable)
  have blk: "(block_new_from_available_block_sizes 4 7 0 ?txs (0, 0) [6, 8] 0 0 :: (unit, block) res) = Ok ?b"
    by (simp add: block_new_available_Ok ops)
  obtain fb where "pack_fee_amount 0 = Ok fb"
    using fee_pack_Ok [of 0] by auto
  then have "\<exists>bs. op_public_data ?op = Ok bs"
    by (simp add: withdraw_op_public_data_def pubdata_def sample_withdraw_def u128_field_def to_u128_def)
  then obtain data where data: "block_public_data ?b = Ok data"
    by (auto simp: block_public_data_def block_new_def ops op)
  show ?thesis
    using recovery_from_public_data [where root = "\<lambda>s. 7" and ts = ?ts and number = 4 and prio = "(0, 0)"
        and sizes = "[6, 8]" and cgas = 0 and vgas = 0, OF run sample_state_ok(1) f ops(1) pack blk data]
      run f data by (simp del: exec_items.simps) blast
qed

end
