(* ===== verification/StateKeeper.thy ===== *)
theory StateKeeper
  imports Block StateUpdates
begin

text \<open>
  The state keeper, @core/bin/zksync_core/src/state_keeper/mod.rs@: it executes the proposed
  operations on the state, collects them in a pending block and seals it.  The requests
  sent to the committer are kept as a list, the channel's receiver being alive.  The arithmetic of
  machine integers wraps, as in a release build.  The root hash of a state is a parameter.
\<close>

section \<open>The pending block\<close>

record pending_block =
  pb_success_operations :: "executed_operation list"
  pb_failed_txs :: "executed_tx list"
  pb_account_updates :: account_updates
  pb_chunks_left :: "64 word"
  pb_pending_op_block_index :: "32 word"
  pb_unprocessed_priority_op_before :: "64 word"
  pb_pending_block_iteration :: "64 word"
  pb_withdrawals_amount :: "32 word"
  pb_gas_counter :: gas_counter
  pb_fast_processing_required :: bool
  pb_collected_fees :: "collected_fee list"
  pb_stored_account_updates :: nat

definition pending_block_new :: "64 word \<Rightarrow> 64 word \<Rightarrow> pending_block" where
  "pending_block_new unprocessed_priority_op_before chunks_left =
    \<lparr>pb_success_operations = [], pb_failed_txs = [], pb_account_updates = [], pb_chunks_left = chunks_left,
     pb_pending_op_block_index = 0, pb_unprocessed_priority_op_before = unprocessed_priority_op_before,
     pb_pending_block_iteration = 0, pb_withdrawals_amount = 0, pb_gas_counter = gas_counter_new,
     pb_fast_processing_required = False, pb_collected_fees = [], pb_stored_account_updates = 0\<rparr>"

text \<open>What is sent to the committer: @types::block::PendingBlock@ and the requests of @committer.rs@.\<close>

record sendable_pending_block =
  spb_number :: block_number
  spb_chunks_left :: "64 word"
  spb_unprocessed_priority_op_before :: "64 word"
  spb_pending_block_iteration :: "64 word"
  spb_success_operations :: "executed_operation list"
  spb_failed_txs :: "executed_tx list"

record applied_updates_request =
  aur_account_updates :: account_updates
  aur_first_update_order_id :: nat

record block_commit_request =
  bcr_block :: block
  bcr_accounts_updated :: account_updates

datatype commit_request =
    CommitBlock block_commit_request applied_updates_request
  | CommitPendingBlock sendable_pending_block applied_updates_request

record state_keeper =
  sk_state :: zk_state
  sk_fee_account_id :: account_id
  sk_current_unprocessed_priority_op :: "64 word"
  sk_pending_block :: pending_block
  sk_available_block_chunk_sizes :: "nat list"
  sk_max_miniblock_iterations :: "64 word"
  sk_fast_miniblock_iterations :: "64 word"
  sk_max_number_of_withdrawals_per_block :: "64 word"
  sk_sent :: "commit_request list"

section \<open>Start\<close>

record init_params =
  ip_tree :: account_map
  ip_acc_id_by_addr :: "(address, account_id) fmap"
  ip_last_block_number :: block_number
  ip_unprocessed_priority_op :: "64 word"

definition init_params_new :: init_params where
  "init_params_new = \<lparr>ip_tree = fmempty, ip_acc_id_by_addr = fmempty, ip_last_block_number = 0,
    ip_unprocessed_priority_op = 0\<rparr>"

definition init_insert_account :: "account_id \<Rightarrow> account \<Rightarrow> init_params \<Rightarrow> init_params" where
  "init_insert_account i a ip =
    ip\<lparr>ip_acc_id_by_addr := fmupd (acc_address a) i (ip_acc_id_by_addr ip), ip_tree := fmupd i a (ip_tree ip)\<rparr>"

definition init_remove_account :: "account_id \<Rightarrow> init_params \<Rightarrow> account option \<times> init_params" where
  "init_remove_account i ip =
    (case fmlookup (ip_tree ip) i of
       Some a \<Rightarrow> (Some a, ip\<lparr>ip_tree := tree_remove (ip_tree ip) i,
         ip_acc_id_by_addr := fmdrop (acc_address a) (ip_acc_id_by_addr ip)\<rparr>)
     | None \<Rightarrow> (None, ip\<lparr>ip_tree := tree_remove (ip_tree ip) i\<rparr>))"

text \<open>@load_state_diff@, given what the storage returned: the block with its updates, and the number of
  the next priority operation.\<close>

fun init_apply_diff :: "init_params \<Rightarrow> account_updates \<Rightarrow> init_params" where
  "init_apply_diff ip [] = ip"
| "init_apply_diff ip ((i, u) # us) =
    (let (old, ip) = init_remove_account i ip
     in init_apply_diff
          (case apply_update old u of Some a \<Rightarrow> init_insert_account i a ip | None \<Rightarrow> ip) us)"

definition load_state_diff ::
  "init_params \<Rightarrow> (block_number \<times> account_updates) option \<Rightarrow> 64 word \<Rightarrow> init_params" where
  "load_state_diff ip state_diff unprocessed =
    (case state_diff of
       Some (block_number, updates) \<Rightarrow> (init_apply_diff ip updates)
         \<lparr>ip_unprocessed_priority_op := unprocessed, ip_last_block_number := block_number\<rparr>
     | None \<Rightarrow> ip)"

text \<open>@get_pending_block@, given the stored one: an outdated one is ignored.\<close>

definition get_pending_block ::
  "init_params \<Rightarrow> sendable_pending_block option \<Rightarrow> ('e, sendable_pending_block option) res" where
  "get_pending_block ip stored =
    (case stored of
       None \<Rightarrow> Ok None
     | Some pb \<Rightarrow>
         if spb_number pb \<le> ip_last_block_number ip then Ok None
         else res_map (\<lambda>_. Some pb) (assert_that (spb_number pb = ip_last_block_number ip + 1)))"

definition state_keeper_new ::
  "init_params \<Rightarrow> address \<Rightarrow> nat list \<Rightarrow> 64 word \<Rightarrow> 64 word \<Rightarrow> 64 word \<Rightarrow> ('e, state_keeper) res" where
  "state_keeper_new ip fee_account_address sizes max_iterations fast_iterations max_withdrawals =
    res_bind (assert_that (sizes \<noteq> [])) (\<lambda>_.
    res_bind (assert_that (sort sizes = sizes)) (\<lambda>_.
      let s = \<lparr>zs_items = ip_tree ip, zs_index = ip_acc_id_by_addr ip,
               zs_block_number = ip_last_block_number ip + 1\<rparr> in
    res_bind (get_account_by_address s fee_account_address) (\<lambda>r.
    res_bind (expect r) (\<lambda>(fee_account_id, _).
      Ok \<lparr>sk_state = s, sk_fee_account_id = fee_account_id,
        sk_current_unprocessed_priority_op = ip_unprocessed_priority_op ip,
        sk_pending_block = pending_block_new (ip_unprocessed_priority_op ip) (of_nat (Max (set sizes))),
        sk_available_block_chunk_sizes = sizes, sk_max_miniblock_iterations = max_iterations,
        sk_fast_miniblock_iterations = fast_iterations,
        sk_max_number_of_withdrawals_per_block = max_withdrawals, sk_sent = []\<rparr>))))"

section \<open>Executing operations\<close>

text \<open>A result @None@ stands for the @Err@ of the source: there is no space in the current block.\<close>

text \<open>What a success does to the pending block.\<close>

definition push_success :: "pending_block \<Rightarrow> nat \<Rightarrow> op_success \<Rightarrow> executed_operation \<Rightarrow> pending_block" where
  "push_success pb chunks_needed success exec_result =
    pb\<lparr>pb_chunks_left := pb_chunks_left pb - of_nat chunks_needed,
       pb_account_updates := pb_account_updates pb @ os_updates success,
       pb_collected_fees := pb_collected_fees pb @ fee_list (os_fee success),
       pb_pending_op_block_index := pb_pending_op_block_index pb + 1,
       pb_success_operations := pb_success_operations pb @ [exec_result]\<rparr>"

definition apply_priority_op ::
  "state_keeper \<Rightarrow> priority_op \<Rightarrow> ('e, executed_operation option \<times> state_keeper) res" where
  "apply_priority_op k op =
    (let pb = sk_pending_block k; chunks_needed = prio_chunks (po_data op) in
     if unat (pb_chunks_left pb) < chunks_needed then Ok (None, k)
     else res_bind (priority_op_to_zksync_op (sk_state k) (po_data op)) (\<lambda>non_executed_op.
       case add_op (pb_gas_counter pb) non_executed_op of
         Panic \<Rightarrow> Panic
       | Err u \<Rightarrow> Ok (None, k)
       | Ok gas \<Rightarrow>
           let pb = pb\<lparr>pb_gas_counter := gas\<rparr> in
           res_bind (execute_priority_op (sk_state k) (po_data op)) (\<lambda>(success, s).
             let exec_result = ExecPriority \<lparr>epo_priority_op = op, epo_op = os_executed_op success,
                   epo_block_index = pb_pending_op_block_index pb\<rparr>
             in Ok (Some exec_result, k\<lparr>sk_state := s,
                  sk_pending_block := push_success pb chunks_needed success exec_result,
                  sk_current_unprocessed_priority_op := sk_current_unprocessed_priority_op k + 1\<rparr>))))"

fun is_withdraw_tx :: "zksync_tx \<Rightarrow> bool" where
  "is_withdraw_tx (TxWithdraw tx) = True"
| "is_withdraw_tx tx = False"

text \<open>The gas check of one transaction: its operation is created only to know its cost; a failure to
  create it is left to the execution.\<close>

definition add_tx_gas :: "crypto \<Rightarrow> zk_state \<Rightarrow> gas_counter \<Rightarrow> zksync_tx \<Rightarrow> (unit, gas_counter) res" where
  "add_tx_gas c s gas tx =
    (case zksync_tx_to_zksync_op c s tx of
       Ok op \<Rightarrow> add_op gas op
     | Err e \<Rightarrow> Ok gas
     | Panic \<Rightarrow> Panic)"

text \<open>The first loop of @apply_batch@: whether all fit, and the block with the counters raised so far.\<close>

fun check_batch ::
  "crypto \<Rightarrow> state_keeper \<Rightarrow> pending_block \<Rightarrow> signed_tx list \<Rightarrow> ('e, bool \<times> pending_block) res" where
  "check_batch c k pb [] = Ok (True, pb)"
| "check_batch c k pb (tx # txs) =
    (case add_tx_gas c (sk_state k) (pb_gas_counter pb) (stx_tx tx) of
       Panic \<Rightarrow> Panic
     | Err u \<Rightarrow> Ok (False, pb)
     | Ok gas \<Rightarrow>
         let pb = pb\<lparr>pb_gas_counter := gas\<rparr>;
             pb = (if is_withdraw_tx (stx_tx tx)
                   then pb\<lparr>pb_withdrawals_amount := pb_withdrawals_amount pb + 1\<rparr> else pb)
         in if pb_withdrawals_amount pb > ucast (sk_max_number_of_withdrawals_per_block k) then Ok (False, pb)
            else check_batch c k pb txs)"

definition executed_success :: "signed_tx \<Rightarrow> op_success \<Rightarrow> 32 word \<Rightarrow> 64 word option \<Rightarrow> executed_operation" where
  "executed_success tx success block_index batch_id = ExecTx
    \<lparr>etx_signed_tx = tx, etx_success = True, etx_op = Some (os_executed_op success), etx_fail_reason = None,
     etx_block_index = Some block_index, etx_batch_id = batch_id\<rparr>"

definition failed_tx :: "signed_tx \<Rightarrow> error \<Rightarrow> 64 word option \<Rightarrow> executed_tx" where
  "failed_tx tx e batch_id =
    \<lparr>etx_signed_tx = tx, etx_success = False, etx_op = None, etx_fail_reason = Some e,
     etx_block_index = None, etx_batch_id = batch_id\<rparr>"

text \<open>The second loop of @apply_batch@, over the results.\<close>

fun push_results ::
  "nat \<Rightarrow> 64 word \<Rightarrow> pending_block \<Rightarrow> (signed_tx \<times> (error, op_success) res) list
    \<Rightarrow> ('e, executed_operation list \<times> pending_block) res" where
  "push_results chunks_needed batch_id pb [] = Ok ([], pb)"
| "push_results chunks_needed batch_id pb ((tx, r) # rs) =
    (case r of
       Ok success \<Rightarrow>
         let exec_result = executed_success tx success (pb_pending_op_block_index pb) (Some batch_id)
         in res_map (\<lambda>(es, pb). (exec_result # es, pb))
              (push_results chunks_needed batch_id (push_success pb chunks_needed success exec_result) rs)
     | Err e \<Rightarrow>
         let failed = failed_tx tx e (Some batch_id)
         in res_map (\<lambda>(es, pb). (ExecTx failed # es, pb))
              (push_results chunks_needed batch_id (pb\<lparr>pb_failed_txs := pb_failed_txs pb @ [failed]\<rparr>) rs)
     | Panic \<Rightarrow> Panic)"

definition apply_batch ::
  "crypto \<Rightarrow> state_keeper \<Rightarrow> signed_tx list \<Rightarrow> 64 word \<Rightarrow> (error, executed_operation list option \<times> state_keeper) res" where
  "apply_batch c k txs batch_id =
    res_bind (chunks_for_batch (sk_state k) txs) (\<lambda>chunks_needed.
      let pb = sk_pending_block k in
      if unat (pb_chunks_left pb) < chunks_needed then Ok (None, k)
      else res_bind (check_batch c k pb txs) (\<lambda>(fits, pb).
        if \<not> fits then Ok (None, k\<lparr>sk_pending_block := pb\<rparr>)
        else res_bind (execute_txs_batch c (sk_state k) txs) (\<lambda>(all_updates, s).
          res_map (\<lambda>(es, pb). (Some es, k\<lparr>sk_state := s, sk_pending_block := pb\<rparr>))
            (push_results chunks_needed batch_id pb (zip txs all_updates)))))"

fun is_fast_withdraw :: "zksync_tx \<Rightarrow> bool" where
  "is_fast_withdraw (TxWithdraw tx) = wd_fast tx"
| "is_fast_withdraw tx = False"

definition apply_tx :: "crypto \<Rightarrow> state_keeper \<Rightarrow> signed_tx \<Rightarrow> (error, executed_operation option \<times> state_keeper) res" where
  "apply_tx c k tx =
    res_bind (chunks_for_tx (sk_state k) (stx_tx tx)) (\<lambda>chunks_needed.
      let pb = sk_pending_block k in
      if unat (pb_chunks_left pb) < chunks_needed then Ok (None, k)
      else case add_tx_gas c (sk_state k) (pb_gas_counter pb) (stx_tx tx) of
        Panic \<Rightarrow> Panic
      | Err u \<Rightarrow> Ok (None, k)
      | Ok gas \<Rightarrow>
          let pb = pb\<lparr>pb_gas_counter := gas\<rparr>;
              pb = (if is_withdraw_tx (stx_tx tx)
                    then pb\<lparr>pb_withdrawals_amount := pb_withdrawals_amount pb + 1,
                            pb_fast_processing_required :=
                              (pb_fast_processing_required pb \<or> is_fast_withdraw (stx_tx tx))\<rparr>
                    else pb)
          in if pb_withdrawals_amount pb > ucast (sk_max_number_of_withdrawals_per_block k)
             then Ok (None, k\<lparr>sk_pending_block := pb\<rparr>)
             else case execute_tx c (sk_state k) (stx_tx tx) of
               Panic \<Rightarrow> Panic
             | Ok (success, s) \<Rightarrow>
                 let exec_result = executed_success tx success (pb_pending_op_block_index pb) None
                 in Ok (Some exec_result, k\<lparr>sk_state := s,
                      sk_pending_block := push_success pb chunks_needed success exec_result\<rparr>)
             | Err e \<Rightarrow>
                 let failed = failed_tx tx e None
                 in Ok (Some (ExecTx failed),
                      k\<lparr>sk_pending_block := pb\<lparr>pb_failed_txs := pb_failed_txs pb @ [failed]\<rparr>\<rparr>))"


section \<open>Sealing and storing the pending block\<close>

definition seal_pending_block :: "(zk_state \<Rightarrow> fr) \<Rightarrow> state_keeper \<Rightarrow> ('e, state_keeper) res" where
  "seal_pending_block root k =
    (let pb = sk_pending_block k; sizes = sk_available_block_chunk_sizes k in
     res_bind (assert_that (sizes \<noteq> [])) (\<lambda>_.
     res_bind (collect_fee (sk_state k) (pb_collected_fees pb) (sk_fee_account_id k)) (\<lambda>(fee_updates, s).
       let updates = pb_account_updates pb @ fee_updates;
           block_transactions = pb_success_operations pb @ map ExecTx (pb_failed_txs pb) in
     res_bind (commit_gas_limit (pb_gas_counter pb)) (\<lambda>commit_gas.
     res_bind (verify_gas_limit (pb_gas_counter pb)) (\<lambda>verify_gas.
     res_bind (block_new_from_available_block_sizes (zs_block_number s) (root s) (sk_fee_account_id k)
         block_transactions (pb_unprocessed_priority_op_before pb, sk_current_unprocessed_priority_op k)
         sizes commit_gas verify_gas) (\<lambda>b.
       let first = pb_stored_account_updates pb in
     res_bind (assert_that (first \<le> size updates)) (\<lambda>_.
       Ok (k\<lparr>sk_state := s\<lparr>zs_block_number := zs_block_number s + 1\<rparr>,
         sk_pending_block := pending_block_new (sk_current_unprocessed_priority_op k) (of_nat (last sizes)),
         sk_sent := sk_sent k @ [CommitBlock \<lparr>bcr_block = b, bcr_accounts_updated = updates\<rparr>
           \<lparr>aur_account_updates = drop first updates, aur_first_update_order_id = first\<rparr>]\<rparr>))))))))"

definition store_pending_block :: "state_keeper \<Rightarrow> ('e, state_keeper) res" where
  "store_pending_block k =
    (let pb = sk_pending_block k; first = pb_stored_account_updates pb in
     res_bind (assert_that (first \<le> size (pb_account_updates pb))) (\<lambda>_.
       Ok (k\<lparr>sk_pending_block := pb\<lparr>pb_stored_account_updates := size (pb_account_updates pb)\<rparr>,
         sk_sent := sk_sent k @ [CommitPendingBlock
           \<lparr>spb_number = zs_block_number (sk_state k), spb_chunks_left = pb_chunks_left pb,
            spb_unprocessed_priority_op_before = pb_unprocessed_priority_op_before pb,
            spb_pending_block_iteration = pb_pending_block_iteration pb,
            spb_success_operations = pb_success_operations pb, spb_failed_txs = pb_failed_txs pb\<rparr>
           \<lparr>aur_account_updates = drop first (pb_account_updates pb), aur_first_update_order_id = first\<rparr>]\<rparr>)))"

section \<open>Executing a proposed block\<close>

text \<open>The two loops of @execute_proposed_block@ have the same form: a queue of operations, of which the first
  is either executed and taken off, or does not fit; then the block is sealed and it is tried again.  Since
  it may never fit, the result is @None@ when the loop does not end.\<close>

partial_function (option) run_queue ::
  "('k \<Rightarrow> 'a \<Rightarrow> ('e, bool \<times> 'k) res) \<Rightarrow> 'k \<Rightarrow> 'a list \<Rightarrow> ('e, 'k) res option" where
  "run_queue step k queue =
    (case queue of
       [] \<Rightarrow> Some (Ok k)
     | x # rest \<Rightarrow>
         (case step k x of
            Ok r \<Rightarrow> run_queue step (snd r) (if fst r then rest else x # rest)
          | Err e \<Rightarrow> Some (Err e)
          | Panic \<Rightarrow> Some Panic))"

text \<open>One turn: whether the operation was executed, and the keeper, with the block sealed if not.\<close>

definition seal_if_full ::
  "(zk_state \<Rightarrow> fr) \<Rightarrow> 'r option \<times> state_keeper \<Rightarrow> ('e, bool \<times> state_keeper) res" where
  "seal_if_full root r =
    (case fst r of
       Some exec \<Rightarrow> Ok (True, snd r)
     | None \<Rightarrow> res_map (\<lambda>k. (False, k)) (seal_pending_block root (snd r)))"

definition priority_op_turn ::
  "(zk_state \<Rightarrow> fr) \<Rightarrow> state_keeper \<Rightarrow> priority_op \<Rightarrow> (error, bool \<times> state_keeper) res" where
  "priority_op_turn root k op = res_bind (apply_priority_op k op) (seal_if_full root)"

definition tx_turn ::
  "(zk_state \<Rightarrow> fr) \<Rightarrow> crypto \<Rightarrow> state_keeper \<Rightarrow> signed_tx_variant \<Rightarrow> (error, bool \<times> state_keeper) res" where
  "tx_turn root c k v =
    (case v of
       VariantTx tx \<Rightarrow> res_bind (apply_tx c k tx) (seal_if_full root)
     | VariantBatch txs batch_id \<Rightarrow> res_bind (apply_batch c k txs batch_id) (seal_if_full root))"

definition run_priority_ops ::
  "(zk_state \<Rightarrow> fr) \<Rightarrow> state_keeper \<Rightarrow> priority_op list \<Rightarrow> (error, state_keeper) res option" where
  "run_priority_ops root = run_queue (priority_op_turn root)"

definition run_txs ::
  "(zk_state \<Rightarrow> fr) \<Rightarrow> crypto \<Rightarrow> state_keeper \<Rightarrow> signed_tx_variant list \<Rightarrow> (error, state_keeper) res option" where
  "run_txs root c = run_queue (tx_turn root c)"

text \<open>The end of @execute_proposed_block@: the block is sealed after enough iterations, else stored.\<close>

definition finish_iteration :: "(zk_state \<Rightarrow> fr) \<Rightarrow> state_keeper \<Rightarrow> (error, state_keeper) res" where
  "finish_iteration root k =
    (let pb = sk_pending_block k;
         pb = (if pb_success_operations pb \<noteq> []
               then pb\<lparr>pb_pending_block_iteration := pb_pending_block_iteration pb + 1\<rparr> else pb);
         k = k\<lparr>sk_pending_block := pb\<rparr>;
         max_iterations = (if pb_fast_processing_required pb then sk_fast_miniblock_iterations k
                           else sk_max_miniblock_iterations k)
     in if pb_pending_block_iteration pb > max_iterations then seal_pending_block root k
        else store_pending_block k)"

record proposed_block =
  prb_priority_ops :: "priority_op list"
  prb_txs :: "signed_tx_variant list"

definition execute_proposed_block ::
  "(zk_state \<Rightarrow> fr) \<Rightarrow> crypto \<Rightarrow> state_keeper \<Rightarrow> proposed_block \<Rightarrow> (error, state_keeper) res option" where
  "execute_proposed_block root c k proposed =
    (case run_priority_ops root k (prb_priority_ops proposed) of
       None \<Rightarrow> None
     | Some (Ok k') \<Rightarrow>
         (case run_txs root c k' (prb_txs proposed) of
            None \<Rightarrow> None
          | Some (Ok k'') \<Rightarrow> Some (finish_iteration root k'')
          | Some r \<Rightarrow> Some r)
     | Some r \<Rightarrow> Some r)"

text \<open>@initialize@: the operations of a stored pending block are executed again.\<close>

fun initialize_ops :: "crypto \<Rightarrow> state_keeper \<Rightarrow> executed_operation list \<Rightarrow> (error, state_keeper) res" where
  "initialize_ops c k [] = Ok k"
| "initialize_ops c k (ExecTx tx # ops) =
    res_bind (apply_tx c k (etx_signed_tx tx)) (\<lambda>(r, k).
    res_bind (expect r) (\<lambda>_. initialize_ops c k ops))"
| "initialize_ops c k (ExecPriority op # ops) =
    res_bind (apply_priority_op k (epo_priority_op op)) (\<lambda>(r, k).
    res_bind (expect r) (\<lambda>_. initialize_ops c k ops))"

definition initialize :: "crypto \<Rightarrow> state_keeper \<Rightarrow> sendable_pending_block option \<Rightarrow> (error, state_keeper) res" where
  "initialize c k stored =
    (case stored of
       None \<Rightarrow> Ok k
     | Some spb \<Rightarrow> res_map (\<lambda>k. k\<lparr>sk_pending_block := (sk_pending_block k)
         \<lparr>pb_stored_account_updates := size (pb_account_updates (sk_pending_block k)),
          pb_failed_txs := spb_failed_txs spb\<rparr>\<rparr>)
         (initialize_ops c k (spb_success_operations spb)))"

definition keeper_account :: "state_keeper \<Rightarrow> address \<Rightarrow> ('e, (account_id \<times> account) option) res" where
  "keeper_account k addr = get_account_by_address (sk_state k) addr"

text \<open>The requests of @run@ that change or read the keeper.\<close>

datatype keeper_request =
    GetAccount address
  | GetLastUnprocessedPriorityOp
  | ExecuteMiniBlock proposed_block
  | SealBlock

datatype keeper_reply = ReplyAccount "(account_id \<times> account) option" | ReplyOp "64 word" | NoReply

definition handle_request ::
  "(zk_state \<Rightarrow> fr) \<Rightarrow> crypto \<Rightarrow> state_keeper \<Rightarrow> keeper_request \<Rightarrow> (error, keeper_reply \<times> state_keeper) res option" where
  "handle_request root c k req =
    (case req of
       GetAccount addr \<Rightarrow> Some (res_map (\<lambda>r. (ReplyAccount r, k)) (keeper_account k addr))
     | GetLastUnprocessedPriorityOp \<Rightarrow> Some (Ok (ReplyOp (sk_current_unprocessed_priority_op k), k))
     | ExecuteMiniBlock proposed \<Rightarrow>
         map_option (res_map (\<lambda>k. (NoReply, k))) (execute_proposed_block root c k proposed)
     | SealBlock \<Rightarrow> Some (res_map (\<lambda>k. (NoReply, k)) (seal_pending_block root k)))"

end
