(* ===== verification/KeeperProps.thy ===== *)
theory KeeperProps
  imports StateKeeper
begin

text \<open>
  Properties of the state keeper: what holds of the pending block after every operation, that sealing
  it gives a block which the committer and the contract can rely on.
\<close>

section \<open>The invariant\<close>

fun is_priority :: "executed_operation \<Rightarrow> bool" where
  "is_priority (ExecTx t) = False"
| "is_priority (ExecPriority p) = True"

definition prio_count :: "executed_operation list \<Rightarrow> nat" where
  "prio_count es = size (filter is_priority es)"

text \<open>The updates of the pending block lead from the accounts at its start to those of the state.\<close>

definition updates_from :: "(account_id \<Rightarrow> account_view option) \<Rightarrow> account_updates \<Rightarrow> zk_state \<Rightarrow> bool" where
  "updates_from V us s \<longleftrightarrow> updates_fit V us \<and> views_update V us = state_view s"

definition pending_ok :: "(account_id \<Rightarrow> account_view option) \<Rightarrow> state_keeper \<Rightarrow> bool" where
  "pending_ok V k \<longleftrightarrow>
    (let pb = sk_pending_block k in
     updates_from V (pb_account_updates pb) (sk_state k)
     \<and> pb_stored_account_updates pb \<le> size (pb_account_updates pb)
     \<and> gas_ok (pb_gas_counter pb)
     \<and> list_all (\<lambda>e. get_executed_op e \<noteq> None) (pb_success_operations pb)
     \<and> list_all (\<lambda>t. etx_op t = None) (pb_failed_txs pb)
     \<and> pb_pending_op_block_index pb = of_nat (size (pb_success_operations pb))
     \<and> sk_current_unprocessed_priority_op k
       = pb_unprocessed_priority_op_before pb + of_nat (prio_count (pb_success_operations pb)))"

definition keeper_inv :: "(account_id \<Rightarrow> account_view option) \<Rightarrow> state_keeper \<Rightarrow> bool" where
  "keeper_inv V k \<longleftrightarrow> state_inv (sk_state k) \<and> get_account (sk_state k) (sk_fee_account_id k) \<noteq> None
    \<and> pending_ok V k"

text \<open>The chunks left and those in use are together those of the largest block.\<close>

definition chunks_ok :: "state_keeper \<Rightarrow> bool" where
  "chunks_ok k \<longleftrightarrow> sorted (sk_available_block_chunk_sizes k) \<and> sk_available_block_chunk_sizes k \<noteq> []
    \<and> last (sk_available_block_chunk_sizes k) < 2 ^ 64
    \<and> unat (pb_chunks_left (sk_pending_block k)) + txs_chunks (pb_success_operations (sk_pending_block k))
      = last (sk_available_block_chunk_sizes k)"

lemma updates_from_append:
  "updates_from V us s \<Longrightarrow> replays s vs s' \<Longrightarrow> updates_from V (us @ vs) s'"
  by (simp add: updates_from_def replays_def)

lemma txs_chunks_append: "txs_chunks (xs @ ys) = txs_chunks xs + txs_chunks ys"
  by (induction xs) (auto simp: txs_chunks_def block_ops_def split: option.split)

lemma txs_chunks_single: "get_executed_op e = Some op \<Longrightarrow> txs_chunks [e] = op_chunks op"
  by (simp add: txs_chunks_def block_ops_def)

lemma prio_count_append: "prio_count (xs @ ys) = prio_count xs + prio_count ys"
  by (simp add: prio_count_def)

section \<open>Creating operations\<close>

lemma create_op_not_Panic:
  assumes "state_inv s" "account_count s < 2 ^ 32" "tx_get_bytes tx = Ok b"
  shows "zksync_tx_to_zksync_op c s tx \<noteq> Panic"
proof (cases tx)
  case (TxTransfer t)
  then show ?thesis
    using transfer_apply_tx_no_panic [OF assms(1,2), of t b c] assms(3)
    by (cases "transfer_create_op c s t") (auto simp: zksync_tx_to_zksync_op_def transfer_apply_tx_def)
next
  case (TxWithdraw t)
  then show ?thesis
    using withdraw_apply_tx_no_panic [OF assms(1), of t b c] assms(3)
    by (cases "withdraw_create_op c s t") (auto simp: zksync_tx_to_zksync_op_def withdraw_apply_tx_def)
next
  case (TxChangePubKey t)
  then show ?thesis
    using change_pub_key_apply_tx_no_panic [OF assms(1), of t b c] assms(3)
    by (cases "change_pub_key_create_op c s t") (auto simp: zksync_tx_to_zksync_op_def change_pub_key_apply_tx_def)
next
  case (TxForcedExit t)
  then show ?thesis
    using forced_exit_apply_tx_no_panic [OF assms(1), of t b c] assms(3)
    by (cases "forced_exit_create_op c s t") (auto simp: zksync_tx_to_zksync_op_def forced_exit_apply_tx_def)
qed (simp add: zksync_tx_to_zksync_op_def)

lemma not_close_transfer: "not_close (into_franklin_op op)"
  by (cases op) auto

lemma created_op_not_close: "zksync_tx_to_zksync_op c s tx = Ok op \<Longrightarrow> not_close op"
  using not_close_transfer by (cases tx) (auto simp: zksync_tx_to_zksync_op_def ok_iffs)

lemma add_tx_gas_cases:
  assumes "gas_ok g" "zksync_tx_to_zksync_op c s tx \<noteq> Panic"
  shows "add_tx_gas c s g tx = Err () \<or> (\<exists>g'. add_tx_gas c s g tx = Ok g' \<and> gas_ok g')"
  using assms add_op_eq [OF assms(1) created_op_not_close, of c s tx]
  by (cases "zksync_tx_to_zksync_op c s tx") (auto simp: add_tx_gas_def gas_ok_def)

text \<open>The chunks reserved for a transaction are those of the operation it becomes.\<close>

lemma execute_tx_chunks:
  assumes "execute_tx c s tx = Ok (succ, s')" "chunks_for_tx s tx = Ok n"
  shows "op_chunks (os_executed_op succ) = n"
proof (cases tx)
  case (TxTransfer t)
  then obtain o' where o': "transfer_create_op c s t = Ok o'" "os_executed_op succ = into_franklin_op o'"
    using assms(1) by (auto simp: execute_tx_Ok)
  then show ?thesis
    using assms(2) TxTransfer
    by (cases "fmlookup (zs_index s) (tr_to t)")
      (auto simp: chunks_for_tx_def ok_iffs get_account_by_address_Ok create_op_Ok split: if_splits)
qed (use assms in \<open>auto simp: execute_tx_Ok chunks_for_tx_def\<close>)

lemma chunks_for_tx_total: "index_ok s \<Longrightarrow> \<exists>n. (chunks_for_tx s tx :: ('e, nat) res) = Ok n"
proof (cases tx)
  case (TxTransfer t)
  assume "index_ok s"
  then obtain r where "(get_account_by_address s (tr_to t) :: ('e, _) res) = Ok r"
    using get_account_by_address_total by blast
  then show ?thesis
    using TxTransfer by (simp add: chunks_for_tx_def)
qed (simp_all add: chunks_for_tx_def)

lemma execute_priority_op_chunks:
  "execute_priority_op s p = Ok (succ, s') \<Longrightarrow> op_chunks (os_executed_op succ) = prio_chunks p"
  by (cases p) (auto simp: execute_priority_op_Ok)

lemma execute_tx_keeps_account:
  assumes "execute_tx c s tx = Ok (succ, s')" "get_account s i \<noteq> None"
  shows "get_account s' i \<noteq> None"
proof (cases tx)
  case (TxTransfer t)
  then obtain o' x where "transfer_apply_op s o' = Ok (x, s')"
    using assms by (auto simp: execute_tx_Ok)
  then show ?thesis
    using assms(2) by (cases o') (auto simp: apply_op_Ok Let_def state_simps split: if_splits)
qed (use assms in \<open>auto simp: execute_tx_Ok apply_op_Ok Let_def state_simps\<close>)

lemma execute_priority_op_keeps_account:
  assumes "execute_priority_op s p = Ok (succ, s')" "get_account s i \<noteq> None"
  shows "get_account s' i \<noteq> None"
  using assms by (cases p) (auto simp: execute_priority_op_Ok apply_op_Ok Let_def state_simps split: option.splits)

lemma execute_priority_op_count:
  assumes "execute_priority_op s p = Ok (succ, s')"
  shows "account_count s' \<le> account_count s + 1"
  using assms by (cases p) (auto simp: execute_priority_op_Ok apply_op_Ok Let_def account_count_insert split: option.splits)


section \<open>Operations keep the invariant\<close>

text \<open>The configuration of the keeper does not change.\<close>

definition same_config :: "state_keeper \<Rightarrow> state_keeper \<Rightarrow> bool" where
  "same_config k k' \<longleftrightarrow> sk_available_block_chunk_sizes k' = sk_available_block_chunk_sizes k
    \<and> sk_max_number_of_withdrawals_per_block k' = sk_max_number_of_withdrawals_per_block k
    \<and> sk_fee_account_id k' = sk_fee_account_id k"

text \<open>Changes of the pending block that do not touch what the invariant speaks of.\<close>

lemma pending_ok_update:
  assumes "pending_ok V k" "gas_ok g"
  shows "pending_ok V (k\<lparr>sk_pending_block := (sk_pending_block k)\<lparr>pb_gas_counter := g,
      pb_withdrawals_amount := w, pb_fast_processing_required := f\<rparr>\<rparr>)"
  using assms by (simp add: pending_ok_def Let_def)

lemma push_success_ok:
  assumes "pending_ok V k" "replays (sk_state k) (os_updates success) s"
    "get_executed_op e = Some op" "gas_ok g"
    "k' = k\<lparr>sk_state := s,
      sk_pending_block := push_success ((sk_pending_block k)\<lparr>pb_gas_counter := g, pb_withdrawals_amount := w,
        pb_fast_processing_required := f\<rparr>) n success e,
      sk_current_unprocessed_priority_op := sk_current_unprocessed_priority_op k
        + (if is_priority e then 1 else 0)\<rparr>"
  shows "pending_ok V k'"
  using assms(1-4) updates_from_append [OF _ assms(2)]
  by (auto simp: assms(5) pending_ok_def push_success_def Let_def prio_count_def)

lemma unat_minus_of_nat:
  fixes x :: "'a::len word"
  assumes "n \<le> unat x"
  shows "unat (x - of_nat n) = unat x - n"
proof -
  have "n < 2 ^ LENGTH('a)"
    using assms unsigned_less by (rule order.strict_trans1)
  then have "unat (of_nat n :: 'a word) = n"
    by (simp add: unat_of_nat)
  then show ?thesis
    using assms by (simp add: unat_sub word_le_nat_alt)
qed

lemma push_success_chunks:
  assumes "chunks_ok k" "n \<le> unat (pb_chunks_left (sk_pending_block k))" "get_executed_op e = Some op"
    "op_chunks op = n" "pb_chunks_left pb = pb_chunks_left (sk_pending_block k)"
    "pb_success_operations pb = pb_success_operations (sk_pending_block k)"
  shows "chunks_ok (k\<lparr>sk_state := s, sk_pending_block := push_success pb n success e,
    sk_current_unprocessed_priority_op := u\<rparr>)"
proof -
  have "unat (pb_chunks_left (sk_pending_block k) - of_nat n) = unat (pb_chunks_left (sk_pending_block k)) - n"
    using assms(2) by (rule unat_minus_of_nat)
  then show ?thesis
    using assms by (simp add: chunks_ok_def push_success_def txs_chunks_append txs_chunks_single)
qed

lemma apply_priority_op_keeps:
  assumes inv: "keeper_inv V k" and chunks: "chunks_ok k" and room: "account_count (sk_state k) < 2 ^ 32"
    and tok: "(case po_data op of PrioDeposit d \<Rightarrow> dep_token d | PrioFullExit f \<Rightarrow> fx_token f) \<le> max_token_id"
  shows "\<exists>r k'. (apply_priority_op k op :: (error, _) res) = Ok (r, k') \<and> keeper_inv V k' \<and> chunks_ok k'
    \<and> same_config k k' \<and> (r = None \<longrightarrow> k' = k) \<and> account_count (sk_state k') \<le> account_count (sk_state k) + 1"
proof -
  let ?s = "sk_state k"
  have st: "state_inv ?s" "get_account ?s (sk_fee_account_id k) \<noteq> None" "pending_ok V k"
    using inv by (simp_all add: keeper_inv_def)
  obtain succ s' where ex: "(execute_priority_op ?s (po_data op) :: (error, _) res) = Ok (succ, s')" "state_inv s'"
    using priority_op_works [OF st(1) room tok] by blast
  then have nz: "(priority_op_to_zksync_op ?s (po_data op) :: (error, _) res) = Ok (os_executed_op succ)"
      "not_close (os_executed_op succ)"
    by (cases "po_data op"; auto simp: priority_op_to_zksync_op_def execute_priority_op_Ok)+
  have gas: "gas_ok (pb_gas_counter (sk_pending_block k))"
    using st(3) by (simp add: pending_ok_def Let_def)
  show ?thesis
  proof (cases "unat (pb_chunks_left (sk_pending_block k)) < prio_chunks (po_data op)
      \<or> add_op (pb_gas_counter (sk_pending_block k)) (os_executed_op succ) = Err ()")
    case True
    then have "(apply_priority_op k op :: (error, _) res) = Ok (None, k)"
      using nz by (auto simp: apply_priority_op_def Let_def)
    then show ?thesis
      using inv chunks by (simp add: same_config_def)
  next
    case False
    then obtain g where g: "add_op (pb_gas_counter (sk_pending_block k)) (os_executed_op succ) = Ok g" "gas_ok g"
      using add_op_eq [OF gas nz(2)] by (auto simp: gas_ok_def split: if_splits)
    let ?e = "ExecPriority \<lparr>epo_priority_op = op, epo_op = os_executed_op succ,
        epo_block_index = pb_pending_op_block_index (sk_pending_block k)\<rparr>"
    let ?k = "k\<lparr>sk_state := s', sk_pending_block := push_success ((sk_pending_block k)\<lparr>pb_gas_counter := g\<rparr>)
        (prio_chunks (po_data op)) succ ?e,
        sk_current_unprocessed_priority_op := sk_current_unprocessed_priority_op k + 1\<rparr>"
    have "(apply_priority_op k op :: (error, _) res) = Ok (Some ?e, ?k)"
      using False nz ex g by (simp add: apply_priority_op_def Let_def)
    moreover have "pending_ok V ?k"
      by (rule push_success_ok [where g = g and w = "pb_withdrawals_amount (sk_pending_block k)"
            and f = "pb_fast_processing_required (sk_pending_block k)" and e = ?e and success = succ and s = s'
            and n = "prio_chunks (po_data op)",
            OF st(3) execute_priority_op_replays [OF ex(1)] _ g(2)]) simp_all
    moreover have "chunks_ok ?k"
      by (rule push_success_chunks [OF chunks, where op = "os_executed_op succ"])
        (use False execute_priority_op_chunks [OF ex(1)] in simp_all)
    moreover have "get_account s' (sk_fee_account_id k) \<noteq> None"
      using execute_priority_op_keeps_account [OF ex(1) st(2)] .
    ultimately show ?thesis
      using ex execute_priority_op_count [OF ex(1)] by (auto simp: keeper_inv_def same_config_def)
  qed
qed


lemma apply_tx_keeps:
  assumes inv: "keeper_inv V k" and chunks: "chunks_ok k" and room: "account_count (sk_state k) < 2 ^ 32"
    and tx: "signer_nonzero c (stx_tx tx)" "tx_get_bytes (stx_tx tx) = Ok b"
  shows "\<exists>r k'. apply_tx c k tx = Ok (r, k') \<and> keeper_inv V k' \<and> chunks_ok k' \<and> same_config k k'
    \<and> account_count (sk_state k') \<le> account_count (sk_state k) + 1"
proof -
  let ?s = "sk_state k" and ?pb = "sk_pending_block k"
  have st: "state_inv ?s" "get_account ?s (sk_fee_account_id k) \<noteq> None" "pending_ok V k" "index_ok ?s"
    using inv by (simp_all add: keeper_inv_def state_inv_def)
  have gas: "gas_ok (pb_gas_counter ?pb)"
    using st(3) by (simp add: pending_ok_def Let_def)
  obtain n where n: "(chunks_for_tx ?s (stx_tx tx) :: (error, nat) res) = Ok n"
    using chunks_for_tx_total [OF st(4)] by blast
  show ?thesis
  proof (cases "unat (pb_chunks_left ?pb) < n \<or> add_tx_gas c ?s (pb_gas_counter ?pb) (stx_tx tx) = Err ()")
    case True
    then have "apply_tx c k tx = Ok (None, k)"
      using n by (auto simp: apply_tx_def Let_def)
    then show ?thesis
      using inv chunks by (simp add: same_config_def)
  next
    case False
    then obtain g where g: "add_tx_gas c ?s (pb_gas_counter ?pb) (stx_tx tx) = Ok g" "gas_ok g"
      using add_tx_gas_cases [OF gas create_op_not_Panic [OF st(1) room tx(2)]] by blast
    define w where "w = (if is_withdraw_tx (stx_tx tx) then pb_withdrawals_amount ?pb + 1 else pb_withdrawals_amount ?pb)"
    define f where "f = (if is_withdraw_tx (stx_tx tx) then pb_fast_processing_required ?pb \<or> is_fast_withdraw (stx_tx tx)
      else pb_fast_processing_required ?pb)"
    define pb where "pb = ?pb\<lparr>pb_gas_counter := g, pb_withdrawals_amount := w, pb_fast_processing_required := f\<rparr>"
    have step: "apply_tx c k tx = (if pb_withdrawals_amount pb > ucast (sk_max_number_of_withdrawals_per_block k)
        then Ok (None, k\<lparr>sk_pending_block := pb\<rparr>)
        else case execute_tx c ?s (stx_tx tx) of
          Panic \<Rightarrow> Panic
        | Ok (success, s) \<Rightarrow> Ok (Some (executed_success tx success (pb_pending_op_block_index pb) None),
            k\<lparr>sk_state := s, sk_pending_block := push_success pb n success
              (executed_success tx success (pb_pending_op_block_index pb) None)\<rparr>)
        | Err e \<Rightarrow> Ok (Some (ExecTx (failed_tx tx e None)),
            k\<lparr>sk_pending_block := pb\<lparr>pb_failed_txs := pb_failed_txs pb @ [failed_tx tx e None]\<rparr>\<rparr>))"
      using False by (cases "is_withdraw_tx (stx_tx tx)"; cases "execute_tx c ?s (stx_tx tx)")
        (auto simp: apply_tx_def n Let_def g(1) pb_def w_def f_def)
    have upd: "pending_ok V (k\<lparr>sk_pending_block := pb\<rparr>)" "chunks_ok (k\<lparr>sk_pending_block := pb\<rparr>)"
      using pending_ok_update [OF st(3) g(2)] chunks by (simp_all add: pb_def chunks_ok_def)
    have kept: "keeper_inv V (k\<lparr>sk_pending_block := pb\<rparr>)"
      using st(1,2) upd(1) by (simp add: keeper_inv_def)
    show ?thesis
    proof (cases "pb_withdrawals_amount pb > ucast (sk_max_number_of_withdrawals_per_block k)")
      case True
      then show ?thesis
        using step kept upd(2) by (simp add: same_config_def)
    next
      case le: False
      show ?thesis
      proof (cases "execute_tx c ?s (stx_tx tx)")
        case (Ok r)
        obtain succ s' where ex: "execute_tx c ?s (stx_tx tx) = Ok (succ, s')"
          using Ok by (cases r) blast
        let ?e = "executed_success tx succ (pb_pending_op_block_index pb) None"
        let ?k = "k\<lparr>sk_state := s', sk_pending_block := push_success pb n succ ?e\<rparr>"
        have "pending_ok V ?k"
          by (rule push_success_ok [where e = ?e and op = "os_executed_op succ" and g = g and w = w and f = f
                and success = succ and s = s' and n = n, OF st(3) execute_tx_replays [OF ex tx(1)] _ g(2)])
            (simp_all add: executed_success_def pb_def)
        moreover have "chunks_ok ?k"
          using push_success_chunks [OF chunks, where e = ?e and op = "os_executed_op succ" and pb = pb and s = s'
              and success = succ and n = n and u = "sk_current_unprocessed_priority_op k"] execute_tx_chunks [OF ex n] False
          by (simp add: executed_success_def pb_def)
        moreover have "state_inv s'"
          using execute_tx_index_ok [OF ex] execute_tx_dense [OF ex] st(1) room by (simp add: state_inv_def)
        ultimately show ?thesis
          using step le ex execute_tx_keeps_account [OF ex st(2)] execute_tx_count [OF ex]
          by (auto simp: keeper_inv_def same_config_def)
      next
        case (Err e)
        have "keeper_inv V (k\<lparr>sk_pending_block := pb\<lparr>pb_failed_txs := pb_failed_txs pb @ [failed_tx tx e None]\<rparr>\<rparr>)"
          using kept by (simp add: keeper_inv_def pending_ok_def Let_def failed_tx_def)
        then show ?thesis
          using step le Err upd(2) by (simp add: chunks_ok_def same_config_def)
      next
        case Panic
        then show ?thesis
          using execute_tx_not_Panic [OF st(1) room tx(2)] by simp
      qed
    qed
  qed
qed


text \<open>A transaction that does not fit leaves the state alone.\<close>

lemma apply_tx_None: "apply_tx c k tx = Ok (None, k') \<Longrightarrow> sk_state k' = sk_state k"
  by (cases "execute_tx c (sk_state k) (stx_tx tx)";
      cases "add_tx_gas c (sk_state k) (pb_gas_counter (sk_pending_block k)) (stx_tx tx)")
    (auto simp: apply_tx_def Let_def ok_iffs split: if_splits)

section \<open>Sealing\<close>

lemma block_ops_failed:
  "list_all (\<lambda>t. etx_op t = None) ts \<Longrightarrow> block_ops (es @ map ExecTx ts) = block_ops es"
proof (induction es)
  case Nil
  then show ?case
    by (induction ts) (auto simp: block_ops_def)
next
  case (Cons e es)
  then show ?case
    by (auto simp: block_ops_def split: option.split)
qed

lemma smallest_block_size_some:
  assumes "used \<le> m" "m \<in> set sizes"
  shows "\<exists>n. (smallest_block_size_for_chunks used sizes :: ('e, nat) res) = Ok n \<and> used \<le> n \<and> n \<in> set sizes"
  using smallest_block_size_Panic [of used sizes, where ?'a = 'e] smallest_block_size_not_Err [of used sizes, where ?'a = 'e]
    smallest_block_size_Ok [of used sizes, where ?'a = 'e] assms
  by (cases "smallest_block_size_for_chunks used sizes :: ('e, nat) res") force+

lemma collect_fee_replays:
  assumes "collect_fee s fees i = Ok (us, s')"
  shows "replays s us s'" "get_account s' i \<noteq> None" "\<forall>j. j \<noteq> i \<longrightarrow> get_account s' j = get_account s j"
    "index_ok s \<Longrightarrow> index_ok s'" "dense s \<Longrightarrow> dense s'" "account_count s' = account_count s"
proof -
  obtain a where a: "get_account s i = Some a" "us = snd (collect_fees i a [] fees)"
    "s' = insert_account i (fst (collect_fees i a [] fees)) s"
    using assms by (auto simp: collect_fee_def ok_iffs case_prod_unfold Let_def)
  show "replays s us s'"
    using collect_fees_updates [of "state_view s" "[]" i a fees] a
    by (auto simp: replays_def state_view_insert state_view_get fun_eq_iff)
  show "get_account s' i \<noteq> None" "\<forall>j. j \<noteq> i \<longrightarrow> get_account s' j = get_account s j"
    using a by (simp_all add: state_simps)
  show "index_ok s'" if "index_ok s"
    using insert_account_index_ok [OF that] may_store_same [OF a(1)] a(3) by (simp add: collect_fees_account)
  show "dense s'" if "dense s"
    using dense_insert_existing [OF that] a by simp
  show "account_count s' = account_count s"
    using a by (simp add: account_count_insert)
qed

lemma state_inv_block_number [simp]: "state_inv (s\<lparr>zs_block_number := n\<rparr>) = state_inv s"
  by (simp add: state_inv_def index_ok_def dense_def account_count_def get_account_def tree_get_def)

lemma get_account_block_number [simp]: "get_account (s\<lparr>zs_block_number := n\<rparr>) = get_account s"
  by (simp add: fun_eq_iff get_account_def tree_get_def)

lemma state_view_block_number [simp]: "state_view (s\<lparr>zs_block_number := n\<rparr>) = state_view s"
  by (simp add: state_view_def)

lemma account_count_block_number [simp]: "account_count (s\<lparr>zs_block_number := n\<rparr>) = account_count s"
  by (simp add: account_count_def)

text \<open>The block that sealing sends, with all it promises.\<close>

definition sealed :: "(zk_state \<Rightarrow> fr) \<Rightarrow> (account_id \<Rightarrow> account_view option) \<Rightarrow> state_keeper \<Rightarrow> state_keeper \<Rightarrow> bool" where
  "sealed root V k k' \<longleftrightarrow> (\<exists>b us first s.
    sk_sent k' = sk_sent k @ [CommitBlock \<lparr>bcr_block = b, bcr_accounts_updated = us\<rparr>
      \<lparr>aur_account_updates = drop first us, aur_first_update_order_id = first\<rparr>]
    \<and> sk_state k' = s\<lparr>zs_block_number := zs_block_number (sk_state k) + 1\<rparr>
    \<and> updates_from V us s \<and> bl_new_root_hash b = root s \<and> bl_block_number b = zs_block_number (sk_state k)
    \<and> block_ops (bl_block_transactions b) = block_ops (pb_success_operations (sk_pending_block k))
    \<and> bl_block_chunks_size b \<in> set (sk_available_block_chunk_sizes k)
    \<and> txs_chunks (bl_block_transactions b) \<le> bl_block_chunks_size b
    \<and> bl_commit_gas_limit b \<le> TX_GAS_LIMIT \<and> bl_verify_gas_limit b \<le> TX_GAS_LIMIT
    \<and> number_of_processed_prior_ops b = of_nat (prio_count (pb_success_operations (sk_pending_block k))))"

lemma seal_works:
  assumes inv: "keeper_inv V k" and chunks: "chunks_ok k"
  shows "\<exists>k'. (seal_pending_block root k :: ('e, state_keeper) res) = Ok k' \<and> sealed root V k k'
    \<and> keeper_inv (state_view (sk_state k')) k' \<and> chunks_ok k'
    \<and> sk_pending_block k' = pending_block_new (sk_current_unprocessed_priority_op k)
        (of_nat (last (sk_available_block_chunk_sizes k)))
    \<and> account_count (sk_state k') = account_count (sk_state k)
    \<and> (\<forall>j. get_account (sk_state k') j = None \<longleftrightarrow> get_account (sk_state k) j = None)
    \<and> same_config k k'"
proof -
  let ?pb = "sk_pending_block k" and ?sizes = "sk_available_block_chunk_sizes k"
  have st: "state_inv (sk_state k)" "index_ok (sk_state k)" "dense (sk_state k)"
    "get_account (sk_state k) (sk_fee_account_id k) \<noteq> None" "pending_ok V k"
    using inv by (simp_all add: keeper_inv_def state_inv_def)
  have pb: "updates_from V (pb_account_updates ?pb) (sk_state k)"
    "pb_stored_account_updates ?pb \<le> size (pb_account_updates ?pb)" "gas_ok (pb_gas_counter ?pb)"
    "list_all (\<lambda>t. etx_op t = None) (pb_failed_txs ?pb)" "sk_current_unprocessed_priority_op k
       = pb_unprocessed_priority_op_before ?pb + of_nat (prio_count (pb_success_operations ?pb))"
    using st(5) by (simp_all add: pending_ok_def Let_def)
  obtain us s where fee: "(collect_fee (sk_state k) (pb_collected_fees ?pb) (sk_fee_account_id k) :: ('e, _) res) = Ok (us, s)"
    using st(4) by (auto simp: collect_fee_def case_prod_unfold Let_def)
  note f = collect_fee_replays [OF fee]
  have bn: "zs_block_number s = zs_block_number (sk_state k)"
    using fee by (auto simp: collect_fee_def ok_iffs case_prod_unfold Let_def insert_account_def)
  let ?txs = "pb_success_operations ?pb @ map ExecTx (pb_failed_txs ?pb)"
  have ops: "block_ops ?txs = block_ops (pb_success_operations ?pb)"
    using block_ops_failed [OF pb(4)] .
  then have tc: "txs_chunks ?txs = txs_chunks (pb_success_operations ?pb)"
    by (simp add: txs_chunks_def)
  have "txs_chunks ?txs \<le> last ?sizes" "last ?sizes \<in> set ?sizes" "?sizes \<noteq> []"
    using chunks tc by (auto simp: chunks_ok_def)
  then obtain n where n: "(smallest_block_size_for_chunks (txs_chunks ?txs) ?sizes :: ('e, nat) res) = Ok n"
    "txs_chunks ?txs \<le> n" "n \<in> set ?sizes"
    using smallest_block_size_some by blast
  let ?c = "gc_commit_cost (pb_gas_counter ?pb) * 130 div 100" and ?v = "gc_verify_cost (pb_gas_counter ?pb) * 130 div 100"
  have gas: "gas_fits (gc_commit_cost (pb_gas_counter ?pb))" "gas_fits (gc_verify_cost (pb_gas_counter ?pb))"
    using pb(3) by (simp_all add: gas_ok_def)
  have lim: "(commit_gas_limit (pb_gas_counter ?pb) :: ('e, nat) res) = Ok ?c"
    "(verify_gas_limit (pb_gas_counter ?pb) :: ('e, nat) res) = Ok ?v" "?c \<le> TX_GAS_LIMIT" "?v \<le> TX_GAS_LIMIT"
    using gas_limit_Ok [OF gas(1), where ?'a = 'e] gas_limit_Ok [OF gas(2), where ?'a = 'e] gas
    unfolding commit_gas_limit_def verify_gas_limit_def gas_fits_def by blast+
  let ?b = "block_new (zs_block_number s) (root s) (sk_fee_account_id k) ?txs
      (pb_unprocessed_priority_op_before ?pb, sk_current_unprocessed_priority_op k) n ?c ?v"
  have blk: "(block_new_from_available_block_sizes (zs_block_number s) (root s) (sk_fee_account_id k) ?txs
      (pb_unprocessed_priority_op_before ?pb, sk_current_unprocessed_priority_op k) ?sizes ?c ?v :: ('e, block) res) = Ok ?b"
    using n(1) block_new_available_Ok by blast
  let ?us = "pb_account_updates ?pb @ us" and ?first = "pb_stored_account_updates ?pb"
  let ?k = "k\<lparr>sk_state := s\<lparr>zs_block_number := zs_block_number s + 1\<rparr>,
     sk_pending_block := pending_block_new (sk_current_unprocessed_priority_op k) (of_nat (last ?sizes)),
     sk_sent := sk_sent k @ [CommitBlock \<lparr>bcr_block = ?b, bcr_accounts_updated = ?us\<rparr>
       \<lparr>aur_account_updates = drop ?first ?us, aur_first_update_order_id = ?first\<rparr>]\<rparr>"
  define k1 where "k1 = ?k"
  have "(seal_pending_block root k :: ('e, state_keeper) res) = Ok k1"
    unfolding seal_pending_block_def Let_def k1_def
    using chunks fee pb(2) lim(1,2) blk by (simp add: chunks_ok_def assert_that_def)
  moreover have "sealed root V k k1"
    unfolding sealed_def k1_def
    by (intro exI [of _ ?b] exI [of _ ?us] exI [of _ ?first] exI [of _ s])
      (use updates_from_append [OF pb(1) f(1)] ops n lim(3,4) bn pb(5)
        in \<open>simp add: block_new_def number_of_processed_prior_ops_def\<close>)
  moreover have k1: "sk_state k1 = s\<lparr>zs_block_number := zs_block_number s + 1\<rparr>"
    "sk_pending_block k1 = pending_block_new (sk_current_unprocessed_priority_op k) (of_nat (last ?sizes))"
    "sk_available_block_chunk_sizes k1 = ?sizes" "sk_fee_account_id k1 = sk_fee_account_id k"
    "sk_max_number_of_withdrawals_per_block k1 = sk_max_number_of_withdrawals_per_block k"
    "sk_current_unprocessed_priority_op k1 = sk_current_unprocessed_priority_op k"
    by (simp_all add: k1_def)
  moreover have "pending_ok (state_view (sk_state k1)) k1"
    by (simp add: k1 pending_ok_def pending_block_new_def updates_from_def gas_counter_new_ok prio_count_def)
  then have "keeper_inv (state_view (sk_state k1)) k1"
    using f(2,4,5) st(2,3) by (simp add: k1 keeper_inv_def) (simp add: state_inv_def)
  moreover have "chunks_ok k1"
    using chunks by (simp add: k1 chunks_ok_def pending_block_new_def txs_chunks_def block_ops_def unat_of_nat)
  moreover have "get_account s j = None \<longleftrightarrow> get_account (sk_state k) j = None" for j
    using f(2,3) st(4) by (cases "j = sk_fee_account_id k") auto
  then have "\<forall>j. get_account (sk_state k1) j = None \<longleftrightarrow> get_account (sk_state k) j = None"
    by (simp add: k1)
  moreover have "account_count (sk_state k1) = account_count (sk_state k)"
    using f(6) by (simp add: k1)
  moreover have "same_config k k1"
    by (simp add: k1 same_config_def)
  ultimately show ?thesis
    by blast
qed


section \<open>Properties\<close>

text \<open>A keeper on the sample state, with blocks of at most 12 chunks.\<close>

definition sample_keeper :: state_keeper where
  "sample_keeper = \<lparr>sk_state = sample_state, sk_fee_account_id = 0, sk_current_unprocessed_priority_op = 0,
    sk_pending_block = pending_block_new 0 12, sk_available_block_chunk_sizes = [6, 12],
    sk_max_miniblock_iterations = 10, sk_fast_miniblock_iterations = 5,
    sk_max_number_of_withdrawals_per_block = 10, sk_sent = []\<rparr>"

lemma sample_keeper_ok: "keeper_inv (state_view sample_state) sample_keeper" "chunks_ok sample_keeper"
  using sample_state_ok(1)
  by (simp_all add: keeper_inv_def chunks_ok_def sample_keeper_def pending_ok_def pending_block_new_def
      updates_from_def gas_counter_new_ok prio_count_def txs_chunks_def block_ops_def sample_lookup)

lemma sample_keeper_state: "sk_state sample_keeper = sample_state"
  by (simp add: sample_keeper_def)

text \<open>C12: every transaction and every priority operation that the state keeper handles leaves a sound
  pending block: it never panics, and afterwards the account updates of the block still lead from the
  accounts at its start to those of the state, the gas counter is within the limit, the operations are
  numbered, the priority operations counted, and the chunks left and used add up to the largest block.\<close>

theorem pending_block_stays_sound:
  assumes "keeper_inv V k" "chunks_ok k" "account_count (sk_state k) < 2 ^ 32"
    "signer_nonzero c (stx_tx tx)" "tx_get_bytes (stx_tx tx) = Ok b"
    "(case po_data op of PrioDeposit d \<Rightarrow> dep_token d | PrioFullExit f \<Rightarrow> fx_token f) \<le> max_token_id"
  shows "(\<exists>r k'. apply_tx c k tx = Ok (r, k') \<and> keeper_inv V k' \<and> chunks_ok k')
    \<and> (\<exists>r k'. (apply_priority_op k op :: (error, _) res) = Ok (r, k') \<and> keeper_inv V k' \<and> chunks_ok k')"
  using apply_tx_keeps [OF assms(1-5)] apply_priority_op_keeps [OF assms(1-3,6)] by blast

definition sample_prio :: priority_op where
  "sample_prio = \<lparr>po_serial_id = 0, po_data = PrioDeposit \<lparr>dep_from = 1, dep_token = 2, dep_amount = 40, dep_to = 55\<rparr>,
    po_deadline_block = 100, po_eth_hash = [], po_eth_block = 5\<rparr>"

theorem pending_block_stays_sound_witness:
  "\<exists>r k'. apply_tx sample_crypto sample_keeper sample_signed = Ok (r, k')
    \<and> keeper_inv (state_view sample_state) k' \<and> chunks_ok k'"
proof -
  obtain b where b: "tx_get_bytes (stx_tx sample_signed) = Ok b"
    using sample_tx_bytes by (auto simp: sample_signed_def)
  have "signer_nonzero sample_crypto (stx_tx sample_signed)"
    by (simp add: sample_signed_def sample_tx_def)
  then show ?thesis
    using pending_block_stays_sound [OF sample_keeper_ok _ _ b, of sample_crypto sample_prio] sample_state_ok(2) sample_ids(1)
    by (auto simp: sample_keeper_state sample_prio_def)
qed

text \<open>C13: sealing a sound pending block always succeeds.  The block that is sent has exactly the operations that were
  executed, in a size that is available and holds their chunks, gas limits within the limit, the root
  hash of the new state, the count of its priority operations, and account updates that lead from
  the accounts at the start of the block to those of the new state (fees included); the next pending
  block is empty and sound, and starts from the new state.\<close>

theorem sealed_block_is_sound:
  assumes "keeper_inv V k" "chunks_ok k"
  shows "\<exists>k'. (seal_pending_block root k :: (error, state_keeper) res) = Ok k' \<and> sealed root V k k'
    \<and> keeper_inv (state_view (sk_state k')) k' \<and> chunks_ok k'
    \<and> sk_pending_block k' = pending_block_new (sk_current_unprocessed_priority_op k)
        (of_nat (last (sk_available_block_chunk_sizes k)))"
  using seal_works [OF assms] by blast

theorem sealed_block_is_sound_witness:
  "\<exists>k'. (seal_pending_block (\<lambda>s. 7) sample_keeper :: (error, state_keeper) res) = Ok k'
    \<and> sealed (\<lambda>s. 7) (state_view sample_state) sample_keeper k'"
  using sealed_block_is_sound [OF sample_keeper_ok] by blast

end
