(* ===== verification/KeeperBatch.thy ===== *)
theory KeeperBatch
  imports KeeperProps
begin

text \<open>
  Batches in the state keeper: the chunks that a successful batch is charged, which are those of the whole batch
  once for each of its transactions, and a batch of two withdrawals after which the counter of chunks
  left has wrapped around.
\<close>

section \<open>Batches\<close>

lemma push_results_chunks:
  assumes "(push_results n batch_id pb (zip txs (map Ok ss)) :: ('e, _) res) = Ok (es, pb')" "size txs = size ss"
  shows "pb_chunks_left pb' = pb_chunks_left pb - of_nat (size txs) * of_nat n"
  using assms
proof (induction txs arbitrary: ss pb es)
  case (Cons tx txs)
  then obtain s ss' where ss: "ss = s # ss'"
    by (cases ss) auto
  then obtain es' where es': "(push_results n batch_id (push_success pb n s (executed_success tx s (pb_pending_op_block_index pb)
      (Some batch_id))) (zip txs (map Ok ss')) :: ('e, _) res) = Ok (es', pb')"
    using Cons.prems(1) by (auto simp: Let_def ok_iffs)
  show ?case
    using Cons.IH [OF es'] Cons.prems(2) ss by (simp add: push_success_def algebra_simps)
qed simp

lemma check_batch_chunks: "check_batch c k pb txs = Ok (fits, pb') \<Longrightarrow> pb_chunks_left pb' = pb_chunks_left pb"
proof (induction txs arbitrary: pb)
  case (Cons tx txs)
  then show ?case
    by (cases "add_tx_gas c (sk_state k) (pb_gas_counter pb) (stx_tx tx)") (auto simp: Let_def split: if_splits)
qed simp

lemma run_all_size: "run_all c s txs = Some (ss, s') \<Longrightarrow> size ss = size txs"
  by (induction txs arbitrary: s ss) (auto split: res.splits)

text \<open>A batch is charged too many chunks: when a batch of transactions succeeds, the chunks that the whole
  batch needs are subtracted once for each of its transactions (modulo 2^64), not once.\<close>

lemma batch_overcharges_chunks:
  assumes "apply_batch c k txs batch_id = Ok (Some es, k')" "chunks_for_batch (sk_state k) txs = (Ok n :: (error, nat) res)"
    "state_inv (sk_state k)" "account_count (sk_state k) + size txs \<le> 2 ^ 32" "batch_ok c txs"
    "run_all c (sk_state k) txs \<noteq> None"
  shows "pb_chunks_left (sk_pending_block k')
    = pb_chunks_left (sk_pending_block k) - of_nat (size txs) * of_nat n"
proof -
  obtain ss s' where ss: "run_all c (sk_state k) txs = Some (ss, s')"
    using assms(6) by auto
  then have "execute_txs_batch c (sk_state k) txs = Ok (map Ok ss, s')"
    using batch_executes [OF assms(3-5)] by simp
  then obtain pb pb' where pb: "check_batch c k (sk_pending_block k) txs = (Ok (True, pb) :: (error, _) res)"
    "(push_results n batch_id pb (zip txs (map Ok ss)) :: (error, _) res) = Ok (es, pb')" "sk_pending_block k' = pb'"
    using assms(1,2) by (auto simp: apply_batch_def Let_def ok_iffs split: if_splits)
  show ?thesis
    using push_results_chunks [OF pb(2)] run_all_size [OF ss] check_batch_chunks [OF pb(1)] pb(3) by simp
qed


definition sample_batch :: "signed_tx list" where
  "sample_batch = [sample_signed, \<lparr>stx_tx = TxWithdraw (sample_withdraw\<lparr>wd_account_id := 1, wd_nonce := 4,
    wd_cached_signer := Cached (Some 99)\<rparr>), stx_eth_sign_data = None\<rparr>]"

lemma sample_batch_ok: "batch_ok sample_crypto sample_batch"
  "(chunks_for_batch sample_state sample_batch :: (error, nat) res) = Ok 12"
proof -
  have "\<exists>b. withdraw_get_bytes (sample_withdraw\<lparr>wd_account_id := 1, wd_nonce := 4, wd_cached_signer := Cached (Some 99)\<rparr>) = Ok b"
    using sample_withdraw_bytes by (auto simp: withdraw_get_bytes_Ok sample_withdraw_def)
  then show "batch_ok sample_crypto sample_batch"
    using sample_tx_bytes by (auto simp: batch_ok_def sample_batch_def sample_signed_def sample_tx_def)
  show "(chunks_for_batch sample_state sample_batch :: (error, nat) res) = Ok 12"
    by (simp add: sample_batch_def sample_signed_def sample_tx_def chunks_for_tx_def op_consts)
qed

lemma sample_batch_runs: "\<exists>ss s'. run_all sample_crypto sample_state sample_batch = Some (ss, s')"
proof -
  let ?a = "(set_balance (sample_account 17 99 3 5000) 2 4000)\<lparr>acc_nonce := 4\<rparr>"
  let ?s = "insert_account 1 ?a sample_state"
  obtain succ where 1: "execute_tx sample_crypto sample_state sample_tx = Ok (succ, ?s)"
    by (auto simp: sample_tx_def execute_tx_Ok create_op_Ok withdraw_apply_op_Ok sample_lookup sample_withdraw_def
      withdraw_verify_signature_def verify_signature_with_def sample_ids Let_def)
  have "\<exists>succ s'. execute_tx sample_crypto ?s (TxWithdraw (sample_withdraw\<lparr>wd_account_id := 1, wd_nonce := 4,
    wd_cached_signer := Cached (Some 99)\<rparr>)) = Ok (succ, s')"
    by (auto simp: execute_tx_Ok create_op_Ok withdraw_apply_op_Ok sample_lookup sample_withdraw_def state_simps
      withdraw_verify_signature_def verify_signature_with_def sample_ids Let_def account_simps)
  then show ?thesis
    using 1 by (auto simp: sample_batch_def sample_signed_def)
qed

lemma push_results_all: "\<exists>es pb'. (push_results n batch_id pb (zip txs (map Ok ss)) :: ('e, _) res) = Ok (es, pb')"
proof (induction txs arbitrary: ss pb)
  case (Cons tx txs)
  show ?case
  proof (cases ss)
    case (Cons s ss')
    then show ?thesis
      using Cons.IH [where ss = ss'] by (fastforce simp: Let_def ok_iffs)
  qed simp
qed simp

lemma withdraw_op_costs: "commit_cost_of (OpWithdraw op) = COMMIT_WITHDRAW_COST" "verify_cost_of (OpWithdraw op) = VERIFY_WITHDRAW_COST"
  by (simp_all add: commit_cost_of_def verify_cost_of_def)

lemma sample_batch_fits: "\<exists>pb. (check_batch sample_crypto sample_keeper (sk_pending_block sample_keeper) sample_batch :: (error, _) res)
    = Ok (True, pb)"
proof -
  let ?s = sample_state
  have c: "\<exists>op. zksync_tx_to_zksync_op sample_crypto ?s (stx_tx tx) = Ok (OpWithdraw op)" "is_withdraw_tx (stx_tx tx)"
    if "tx \<in> set sample_batch" for tx
    using that by (auto simp: sample_batch_def sample_signed_def sample_tx_def zksync_tx_to_zksync_op_def create_op_Ok
        sample_lookup sample_withdraw_def withdraw_verify_signature_def verify_signature_with_def sample_ids Let_def ok_iffs)
  obtain t1 t2 where t: "sample_batch = [t1, t2]"
    by (auto simp: sample_batch_def)
  obtain o1 o2 where o: "zksync_tx_to_zksync_op sample_crypto ?s (stx_tx t1) = Ok (OpWithdraw o1)"
    "zksync_tx_to_zksync_op sample_crypto ?s (stx_tx t2) = Ok (OpWithdraw o2)"
    using c(1) [of t1] c(1) [of t2] unfolding t by (metis list.set_intros)
  define g where "g = \<lparr>gc_commit_cost = COMMIT_BASE_COST + COMMIT_WITHDRAW_COST, gc_verify_cost = VERIFY_BASE_COST + VERIFY_WITHDRAW_COST\<rparr>"
  have 1: "add_op gas_counter_new (OpWithdraw o1) = Ok g"
    using add_op_eq [OF gas_counter_new_ok, of "OpWithdraw o1"]
    by (simp add: withdraw_op_costs gas_counter_new_def gas_fits_def gas_consts g_def)
  have "gas_ok g"
    by (simp add: gas_ok_def g_def gas_fits_def gas_consts)
  then have 2: "\<exists>g'. add_op g (OpWithdraw o2) = Ok g'"
    using add_op_eq [of g "OpWithdraw o2"]
    by (simp add: withdraw_op_costs gas_fits_def gas_consts g_def)
  have k: "pb_gas_counter (sk_pending_block sample_keeper) = gas_counter_new"
    "pb_withdrawals_amount (sk_pending_block sample_keeper) = 0" "sk_max_number_of_withdrawals_per_block sample_keeper = 10"
    by (simp_all add: sample_keeper_def pending_block_new_def)
  show ?thesis
    using 1 2 c(2) [of t1] c(2) [of t2] o by (auto simp: t add_tx_gas_def sample_keeper_state k)
qed

lemma batch_overcharges_chunks_example:
  "\<exists>es k'. apply_batch sample_crypto sample_keeper sample_batch 1 = Ok (Some es, k')
    \<and> unat (pb_chunks_left (sk_pending_block k')) = 2 ^ 64 - 12"
proof -
  obtain ss s' where ss: "run_all sample_crypto sample_state sample_batch = Some (ss, s')"
    using sample_batch_runs by blast
  have ex: "execute_txs_batch sample_crypto sample_state sample_batch = Ok (map Ok ss, s')"
    using batch_executes [OF sample_state_ok(1) _ sample_batch_ok(1)] ss by (simp add: sample_state_ok(2) sample_batch_def)
  obtain pb where pb: "(check_batch sample_crypto sample_keeper (sk_pending_block sample_keeper) sample_batch :: (error, _) res)
      = Ok (True, pb)"
    using sample_batch_fits by blast
  obtain es pb' where "(push_results 12 1 pb (zip sample_batch (map Ok ss)) :: (error, _) res) = Ok (es, pb')"
    using push_results_all by blast
  then have a: "apply_batch sample_crypto sample_keeper sample_batch 1
      = Ok (Some es, sample_keeper\<lparr>sk_state := s', sk_pending_block := pb'\<rparr>)"
    using ex pb sample_batch_ok(2)
    by (simp add: apply_batch_def sample_keeper_state Let_def) (simp add: sample_keeper_def pending_block_new_def)
  show ?thesis
    using batch_overcharges_chunks [OF a _ _ _ sample_batch_ok(1), of 12] ss a sample_batch_ok(2) sample_state_ok
    by (simp add: sample_keeper_state sample_batch_def) (simp add: sample_keeper_def pending_block_new_def)
qed

end
