(* ===== verification/KeeperLoop.thy ===== *)
theory KeeperLoop
  imports KeeperProps
begin

text \<open>
  The loop of the state keeper over a proposed block.  Its form, a queue whose head is retried on a
  sealed block, is an interface with two contracts: one under which the loop ends and keeps an
  invariant, one under which it never ends.  Both are interpreted on the turns of the keeper.
\<close>

section \<open>The contracts of the loop\<close>

lemma run_queue_Nil [simp]: "run_queue step k [] = Some (Ok k)"
  by (simp add: run_queue.simps)

lemma run_queue_Cons:
  "step k x = Ok (b, k') \<Longrightarrow> run_queue step k (x # rest) = run_queue step k' (if b then rest else x # rest)"
  by (subst run_queue.simps) simp

locale retry_queue =
  fixes step :: "'k \<Rightarrow> 'a \<Rightarrow> ('e, bool \<times> 'k) res" and inv :: "'k \<Rightarrow> 'a list \<Rightarrow> bool"
  assumes turn: "inv k (x # rest) \<Longrightarrow> \<exists>b k'. step k x = Ok (b, k') \<and> inv k' (if b then rest else x # rest)"
    and retry: "inv k (x # rest) \<Longrightarrow> step k x = Ok (False, k') \<Longrightarrow> \<exists>k''. step k' x = Ok (True, k'')"
begin

lemma takes_head:
  assumes "inv k (x # rest)"
  shows "\<exists>k'. run_queue step k (x # rest) = run_queue step k' rest \<and> inv k' rest"
proof -
  obtain b k1 where k1: "step k x = Ok (b, k1)" "inv k1 (if b then rest else x # rest)"
    using turn [OF assms] by blast
  show ?thesis
  proof (cases b)
    case True
    then show ?thesis
      using k1 run_queue_Cons [of step k x b k1 rest] by auto
  next
    case False
    then obtain k2 where k2: "step k1 x = Ok (True, k2)"
      using retry [OF assms, of k1] k1(1) by auto
    moreover have "inv k2 rest"
      using turn [of k1 x rest] k1(2) k2 False by auto
    ultimately show ?thesis
      using run_queue_Cons [of step k x b k1 rest] run_queue_Cons [of step k1 x True k2 rest] k1(1) False by auto
  qed
qed

lemma ends: "inv k queue \<Longrightarrow> \<exists>k'. run_queue step k queue = Some (Ok k') \<and> inv k' []"
proof (induction queue arbitrary: k)
  case (Cons x rest)
  then show ?case
    using takes_head by metis
qed simp

end

locale stuck_queue =
  fixes step :: "'k \<Rightarrow> 'a \<Rightarrow> ('e, bool \<times> 'k) res" and stuck :: "'k \<Rightarrow> 'a \<Rightarrow> bool"
  assumes no_progress: "stuck k x \<Longrightarrow> \<exists>k'. step k x = Ok (False, k') \<and> stuck k' x"
begin

lemma never_ends:
  assumes "stuck k x"
  shows "run_queue step k (x # rest) = None"
proof -
  have "st = step \<longrightarrow> (\<forall>x rest. q = x # rest \<longrightarrow> \<not> stuck k x)" if "run_queue st k q = Some r" for st k q r
  proof (rule run_queue.raw_induct [of "\<lambda>st k q r. st = step \<longrightarrow> (\<forall>x rest. q = x # rest \<longrightarrow> \<not> stuck k x)", OF _ that],
      intro allI impI notI)
    fix rq st k q r x rest
    assume IH: "\<And>st k q r. rq st k q = Some r \<Longrightarrow> st = step \<longrightarrow> (\<forall>x rest. q = x # rest \<longrightarrow> \<not> stuck k x)"
      and body: "(case q of [] \<Rightarrow> Some (Ok k) | x # rest \<Rightarrow>
          (case st k x of Ok r \<Rightarrow> rq st (snd r) (if fst r then rest else x # rest)
            | Err e \<Rightarrow> Some (Err e) | Panic \<Rightarrow> Some Panic)) = Some r"
      and eq: "st = step" "q = x # rest" and "stuck k x"
    then obtain k' where k': "step k x = Ok (False, k')" "stuck k' x"
      using no_progress by blast
    then have "rq step k' (x # rest) = Some r"
      using body eq by simp
    then show False
      using IH k'(2) by blast
  qed
  then show ?thesis
    using assms by (cases "run_queue step k (x # rest)") blast+
qed

end

section \<open>Priority operations\<close>

definition prio_token_ok :: "priority_op \<Rightarrow> bool" where
  "prio_token_ok op \<longleftrightarrow> (case po_data op of PrioDeposit d \<Rightarrow> dep_token d | PrioFullExit f \<Rightarrow> fx_token f) \<le> max_token_id"

definition prio_ready :: "state_keeper \<Rightarrow> nat \<Rightarrow> state_keeper \<Rightarrow> priority_op list \<Rightarrow> bool" where
  "prio_ready k0 m k ops \<longleftrightarrow> (\<exists>V. keeper_inv V k) \<and> chunks_ok k \<and> same_config k0 k
    \<and> account_count (sk_state k) + size ops + m \<le> 2 ^ 32
    \<and> (\<forall>op \<in> set ops. prio_token_ok op \<and> prio_chunks (po_data op) \<le> last (sk_available_block_chunk_sizes k))"

lemma priority_op_fresh:
  assumes "keeper_inv V k" "account_count (sk_state k) < 2 ^ 32" "prio_token_ok op"
    "pb_gas_counter (sk_pending_block k) = gas_counter_new"
    "prio_chunks (po_data op) \<le> unat (pb_chunks_left (sk_pending_block k))"
  shows "\<exists>e k'. (apply_priority_op k op :: (error, _) res) = Ok (Some e, k')"
proof -
  obtain succ s' where ex: "(execute_priority_op (sk_state k) (po_data op) :: (error, _) res) = Ok (succ, s')"
    using priority_op_works [of "sk_state k" "po_data op"] assms(1-3) by (auto simp: keeper_inv_def prio_token_ok_def)
  then have nz: "(priority_op_to_zksync_op (sk_state k) (po_data op) :: (error, _) res) = Ok (os_executed_op succ)"
      "not_close (os_executed_op succ)"
    by (cases "po_data op"; auto simp: priority_op_to_zksync_op_def execute_priority_op_Ok)+
  then show ?thesis
    using add_op_fresh [OF nz(2)] ex assms(4,5) by (auto simp: apply_priority_op_def Let_def)
qed

lemma same_config_trans: "same_config k1 k2 \<Longrightarrow> same_config k2 k3 \<Longrightarrow> same_config k1 k3"
  by (simp add: same_config_def)

lemma same_config_sizes: "same_config k k' \<Longrightarrow> sk_available_block_chunk_sizes k' = sk_available_block_chunk_sizes k"
  by (simp add: same_config_def)

text \<open>The next keeper is ready when it is sound, has the same configuration, and room for one account less.\<close>

lemma prio_ready_next:
  assumes "prio_ready k0 m k ops" "keeper_inv V k'" "chunks_ok k'" "same_config k k'" "set ops' \<subseteq> set ops"
    "account_count (sk_state k') + size ops' \<le> account_count (sk_state k) + size ops"
  shows "prio_ready k0 m k' ops'"
  using assms(1,2,3,5,6) same_config_trans [OF _ assms(4)] same_config_sizes [OF assms(4)]
  by (auto simp: prio_ready_def)

lemma prio_ready_turn:
  assumes "prio_ready k0 m k (op # rest)"
  shows "\<exists>b k'. priority_op_turn root k op = Ok (b, k') \<and> prio_ready k0 m k' (if b then rest else op # rest)
    \<and> (\<not> b \<longrightarrow> pb_gas_counter (sk_pending_block k') = gas_counter_new
        \<and> unat (pb_chunks_left (sk_pending_block k')) = last (sk_available_block_chunk_sizes k'))"
proof -
  obtain V where inv: "keeper_inv V k" "chunks_ok k" "account_count (sk_state k) < 2 ^ 32"
    "(case po_data op of PrioDeposit d \<Rightarrow> dep_token d | PrioFullExit f \<Rightarrow> fx_token f) \<le> max_token_id"
    using assms by (auto simp: prio_ready_def prio_token_ok_def)
  obtain r k1 where k1: "(apply_priority_op k op :: (error, _) res) = Ok (r, k1)" "keeper_inv V k1" "chunks_ok k1" "same_config k k1"
    "r = None \<longrightarrow> k1 = k" "account_count (sk_state k1) \<le> account_count (sk_state k) + 1"
    using apply_priority_op_keeps [OF inv] by blast
  show ?thesis
  proof (cases r)
    case (Some e)
    then show ?thesis
      using k1(1) prio_ready_next [OF assms k1(2,3,4), of rest] k1(6) by (auto simp: priority_op_turn_def seal_if_full_def)
  next
    case None
    obtain k2 where k2: "(seal_pending_block root k1 :: (error, state_keeper) res) = Ok k2"
      "keeper_inv (state_view (sk_state k2)) k2" "chunks_ok k2"
      "sk_pending_block k2 = pending_block_new (sk_current_unprocessed_priority_op k1)
        (of_nat (last (sk_available_block_chunk_sizes k1)))"
      "account_count (sk_state k2) = account_count (sk_state k1)"
      "same_config k1 k2"
      using seal_works [OF k1(2,3)] by blast
    have cfg: "same_config k k2"
      using same_config_trans [OF k1(4) k2(6)] .
    have "unat (of_nat (last (sk_available_block_chunk_sizes k)) :: 64 word) = last (sk_available_block_chunk_sizes k)"
      using inv(2) by (simp add: chunks_ok_def unat_of_nat)
    then have "pb_gas_counter (sk_pending_block k2) = gas_counter_new"
      "unat (pb_chunks_left (sk_pending_block k2)) = last (sk_available_block_chunk_sizes k2)"
      using same_config_sizes [OF cfg] same_config_sizes [OF k1(4)] by (simp_all add: k2(4) pending_block_new_def)
    moreover have "prio_ready k0 m k2 (op # rest)"
      by (rule prio_ready_next [OF assms k2(2,3) cfg]) (use k1(5) k2(5) None in simp_all)
    moreover have "priority_op_turn root k op = Ok (False, k2)"
      using None k1(1) k2(1) by (simp add: priority_op_turn_def seal_if_full_def)
    ultimately show ?thesis
      by auto
  qed
qed

interpretation prio_loop: retry_queue "priority_op_turn root" "prio_ready k0 m"
  for root :: "zk_state \<Rightarrow> fr" and k0 :: state_keeper and m :: nat
proof unfold_locales
  fix k op rest
  assume "prio_ready k0 m k (op # rest)"
  then show "\<exists>b k'. priority_op_turn root k op = Ok (b, k') \<and> prio_ready k0 m k' (if b then rest else op # rest)"
    using prio_ready_turn by blast
next
  fix k op rest k'
  assume ready: "prio_ready k0 m k (op # rest)" and no: "priority_op_turn root k op = Ok (False, k')"
  have k': "prio_ready k0 m k' (op # rest)" "pb_gas_counter (sk_pending_block k') = gas_counter_new"
    "unat (pb_chunks_left (sk_pending_block k')) = last (sk_available_block_chunk_sizes k')"
    using prio_ready_turn [OF ready, of root] no by auto
  obtain V where V: "keeper_inv V k'" "account_count (sk_state k') < 2 ^ 32" "prio_token_ok op"
    "prio_chunks (po_data op) \<le> unat (pb_chunks_left (sk_pending_block k'))"
    using k'(1,3) by (auto simp: prio_ready_def)
  obtain e k'' where "(apply_priority_op k' op :: (error, _) res) = Ok (Some e, k'')"
    using priority_op_fresh [OF V(1-3) k'(2) V(4)] by blast
  then show "\<exists>k''. priority_op_turn root k' op = Ok (True, k'')"
    by (simp add: priority_op_turn_def seal_if_full_def)
qed


text \<open>The bound @m@ keeps room for the accounts that the transactions after the priority operations create.\<close>

text \<open>An operation that needs more chunks than the largest block has never fits.\<close>

definition prio_too_big :: "state_keeper \<Rightarrow> priority_op \<Rightarrow> bool" where
  "prio_too_big k op \<longleftrightarrow> (\<exists>V. keeper_inv V k) \<and> chunks_ok k
    \<and> last (sk_available_block_chunk_sizes k) < prio_chunks (po_data op)"

interpretation prio_stuck: stuck_queue "priority_op_turn root" prio_too_big for root :: "zk_state \<Rightarrow> fr"
proof unfold_locales
  fix k op
  assume big: "prio_too_big k op"
  then obtain V where inv: "keeper_inv V k" "chunks_ok k"
    by (auto simp: prio_too_big_def)
  obtain k' where k': "(seal_pending_block root k :: (error, state_keeper) res) = Ok k'"
    "keeper_inv (state_view (sk_state k')) k'" "chunks_ok k'" "same_config k k'"
    using seal_works [OF inv] by blast
  have "unat (pb_chunks_left (sk_pending_block k)) < prio_chunks (po_data op)"
    using big inv(2) by (auto simp: prio_too_big_def chunks_ok_def)
  then have "(apply_priority_op k op :: (error, _) res) = Ok (None, k)"
    by (simp add: apply_priority_op_def)
  then have "priority_op_turn root k op = Ok (False, k')"
    using k'(1) by (simp add: priority_op_turn_def seal_if_full_def)
  then show "\<exists>k'. priority_op_turn root k op = Ok (False, k') \<and> prio_too_big k' op"
    using k' big by (auto simp: prio_too_big_def same_config_def)
qed

section \<open>Transactions\<close>

definition tx_fine :: "crypto \<Rightarrow> signed_tx \<Rightarrow> bool" where
  "tx_fine c tx \<longleftrightarrow> signer_nonzero c (stx_tx tx) \<and> (\<exists>b. tx_get_bytes (stx_tx tx) = Ok b)"

definition tx_ready :: "crypto \<Rightarrow> state_keeper \<Rightarrow> signed_tx_variant list \<Rightarrow> bool" where
  "tx_ready c k vs \<longleftrightarrow> (\<exists>V. keeper_inv V k) \<and> chunks_ok k \<and> account_count (sk_state k) + size vs \<le> 2 ^ 32
    \<and> (\<forall>v \<in> set vs. \<exists>tx. v = VariantTx tx \<and> tx_fine c tx) \<and> 6 \<le> last (sk_available_block_chunk_sizes k)
    \<and> ucast (sk_max_number_of_withdrawals_per_block k) \<noteq> (0 :: 32 word)"

lemma chunks_for_tx_le: "chunks_for_tx s tx = Ok n \<Longrightarrow> n \<le> 6"
  by (cases tx) (auto simp: chunks_for_tx_def op_consts ok_iffs split: if_splits)

lemma add_tx_gas_fresh:
  "zksync_tx_to_zksync_op c s tx \<noteq> Panic \<Longrightarrow> \<exists>g. add_tx_gas c s gas_counter_new tx = Ok g"
  using add_op_fresh [OF created_op_not_close] by (cases "zksync_tx_to_zksync_op c s tx") (auto simp: add_tx_gas_def)

lemma tx_fresh:
  assumes inv: "keeper_inv V k" and room: "account_count (sk_state k) < 2 ^ 32" and tx: "tx_fine c tx"
    and pb: "pb_gas_counter (sk_pending_block k) = gas_counter_new" "pb_withdrawals_amount (sk_pending_block k) = 0"
      "6 \<le> unat (pb_chunks_left (sk_pending_block k))"
    and lim: "ucast (sk_max_number_of_withdrawals_per_block k) \<noteq> (0 :: 32 word)"
  shows "\<exists>e k'. apply_tx c k tx = Ok (Some e, k')"
proof -
  have st: "state_inv (sk_state k)" "index_ok (sk_state k)"
    using inv by (simp_all add: keeper_inv_def state_inv_def)
  obtain b where b: "tx_get_bytes (stx_tx tx) = Ok b"
    using tx by (auto simp: tx_fine_def)
  obtain n where n: "(chunks_for_tx (sk_state k) (stx_tx tx) :: (error, nat) res) = Ok n"
    using chunks_for_tx_total [OF st(2)] by blast
  obtain g where g: "add_tx_gas c (sk_state k) gas_counter_new (stx_tx tx) = Ok g"
    using add_tx_gas_fresh [OF create_op_not_Panic [OF st(1) room b]] by blast
  have one: "\<not> ucast (sk_max_number_of_withdrawals_per_block k) < (1 :: 32 word)"
    using lim by (simp add: word_less_1)
  have "\<not> unat (pb_chunks_left (sk_pending_block k)) < n"
    using chunks_for_tx_le [OF n] pb(3) by simp
  then show ?thesis
    using execute_tx_not_Panic [OF st(1) room b, of c] one n g pb(1,2)
    by (cases "execute_tx c (sk_state k) (stx_tx tx)") (auto simp: apply_tx_def Let_def)
qed

lemma tx_ready_turn:
  assumes "tx_ready c k (VariantTx tx # rest)"
  shows "\<exists>b k'. tx_turn root c k (VariantTx tx) = Ok (b, k') \<and> tx_ready c k' (if b then rest else VariantTx tx # rest)
    \<and> (\<not> b \<longrightarrow> pb_gas_counter (sk_pending_block k') = gas_counter_new \<and> pb_withdrawals_amount (sk_pending_block k') = 0
        \<and> unat (pb_chunks_left (sk_pending_block k')) = last (sk_available_block_chunk_sizes k'))"
proof -
  obtain V b where inv: "keeper_inv V k" "chunks_ok k" "account_count (sk_state k) < 2 ^ 32"
    "signer_nonzero c (stx_tx tx)" "tx_get_bytes (stx_tx tx) = Ok b"
    using assms by (auto simp: tx_ready_def tx_fine_def)
  obtain r k1 where k1: "apply_tx c k tx = Ok (r, k1)" "keeper_inv V k1" "chunks_ok k1" "same_config k k1"
    "account_count (sk_state k1) \<le> account_count (sk_state k) + 1"
    using apply_tx_keeps [OF inv] by blast
  show ?thesis
  proof (cases r)
    case (Some e)
    then show ?thesis
      using k1 assms by (auto simp: tx_turn_def seal_if_full_def tx_ready_def same_config_def)
  next
    case None
    have same: "sk_state k1 = sk_state k"
      using apply_tx_None [of c k tx k1] k1(1) None by simp
    obtain k2 where k2: "(seal_pending_block root k1 :: (error, state_keeper) res) = Ok k2"
      "keeper_inv (state_view (sk_state k2)) k2" "chunks_ok k2"
      "sk_pending_block k2 = pending_block_new (sk_current_unprocessed_priority_op k1)
        (of_nat (last (sk_available_block_chunk_sizes k1)))"
      "account_count (sk_state k2) = account_count (sk_state k1)" "same_config k1 k2"
      using seal_works [OF k1(2,3)] by blast
    have "unat (of_nat (last (sk_available_block_chunk_sizes k)) :: 64 word) = last (sk_available_block_chunk_sizes k)"
      using inv(2) by (simp add: chunks_ok_def unat_of_nat)
    then show ?thesis
      using None k1 k2 same assms by (auto simp: tx_turn_def seal_if_full_def tx_ready_def pending_block_new_def same_config_def)
  qed
qed

interpretation tx_loop: retry_queue "tx_turn root c" "tx_ready c" for root :: "zk_state \<Rightarrow> fr" and c :: crypto
proof unfold_locales
  fix k v rest
  assume ready: "tx_ready c k (v # rest)"
  then obtain tx where "v = VariantTx tx"
    by (auto simp: tx_ready_def)
  then show "\<exists>b k'. tx_turn root c k v = Ok (b, k') \<and> tx_ready c k' (if b then rest else v # rest)"
    using tx_ready_turn ready by blast
next
  fix k v rest k'
  assume ready: "tx_ready c k (v # rest)" and no: "tx_turn root c k v = Ok (False, k')"
  then obtain tx where v: "v = VariantTx tx"
    by (auto simp: tx_ready_def)
  have k': "tx_ready c k' (VariantTx tx # rest)" "pb_gas_counter (sk_pending_block k') = gas_counter_new"
    "pb_withdrawals_amount (sk_pending_block k') = 0"
    "unat (pb_chunks_left (sk_pending_block k')) = last (sk_available_block_chunk_sizes k')"
    using tx_ready_turn [of c k tx rest root] ready no v by auto
  moreover obtain V where "keeper_inv V k'" "account_count (sk_state k') < 2 ^ 32" "tx_fine c tx"
    "6 \<le> last (sk_available_block_chunk_sizes k')" "ucast (sk_max_number_of_withdrawals_per_block k') \<noteq> (0 :: 32 word)"
    using k'(1) by (auto simp: tx_ready_def)
  ultimately obtain e k'' where "apply_tx c k' tx = Ok (Some e, k'')"
    using tx_fresh by metis
  then show "\<exists>k''. tx_turn root c k' v = Ok (True, k'')"
    by (simp add: v tx_turn_def seal_if_full_def)
qed


section \<open>Properties\<close>

lemma finish_iteration_works:
  assumes inv: "keeper_inv V k" "chunks_ok k"
  shows "\<exists>V' k'. finish_iteration root k = Ok k' \<and> keeper_inv V' k' \<and> chunks_ok k'"
proof -
  let ?pb = "sk_pending_block k"
  define pb where "pb = (if pb_success_operations ?pb \<noteq> []
    then ?pb\<lparr>pb_pending_block_iteration := pb_pending_block_iteration ?pb + 1\<rparr> else ?pb)"
  define k1 where "k1 = k\<lparr>sk_pending_block := pb\<rparr>"
  have k1: "keeper_inv V k1" "chunks_ok k1"
    using inv by (auto simp: k1_def pb_def keeper_inv_def pending_ok_def chunks_ok_def Let_def)
  have stored: "pb_stored_account_updates (sk_pending_block k1) \<le> size (pb_account_updates (sk_pending_block k1))"
    using k1(1) by (simp add: keeper_inv_def pending_ok_def Let_def)
  define k2 where "k2 = k1\<lparr>sk_pending_block := (sk_pending_block k1)
    \<lparr>pb_stored_account_updates := size (pb_account_updates (sk_pending_block k1))\<rparr>,
    sk_sent := sk_sent k1 @ [CommitPendingBlock
           \<lparr>spb_number = zs_block_number (sk_state k1), spb_chunks_left = pb_chunks_left pb,
            spb_unprocessed_priority_op_before = pb_unprocessed_priority_op_before pb,
            spb_pending_block_iteration = pb_pending_block_iteration pb,
            spb_success_operations = pb_success_operations pb, spb_failed_txs = pb_failed_txs pb\<rparr>
           \<lparr>aur_account_updates = drop (pb_stored_account_updates pb) (pb_account_updates pb),
            aur_first_update_order_id = pb_stored_account_updates pb\<rparr>]\<rparr>"
  have "(store_pending_block k1 :: (error, _) res) = Ok k2"
    using stored by (simp add: store_pending_block_def k2_def Let_def assert_that_def k1_def)
  moreover have "keeper_inv V k2" "chunks_ok k2"
    using k1 by (simp_all add: k2_def keeper_inv_def pending_ok_def chunks_ok_def Let_def)
  moreover obtain k3 where "(seal_pending_block root k1 :: (error, _) res) = Ok k3"
    "keeper_inv (state_view (sk_state k3)) k3" "chunks_ok k3"
    using seal_works [OF k1] by blast
  moreover have "finish_iteration root k = seal_pending_block root k1 \<or> finish_iteration root k = store_pending_block k1"
    by (simp add: finish_iteration_def Let_def k1_def pb_def)
  ultimately show ?thesis
    by metis
qed

lemma proposed_block_runs:
  assumes "keeper_inv V k" "chunks_ok k" "6 \<le> last (sk_available_block_chunk_sizes k)"
    "ucast (sk_max_number_of_withdrawals_per_block k) \<noteq> (0 :: 32 word)"
    "account_count (sk_state k) + size (prb_priority_ops p) + size (prb_txs p) \<le> 2 ^ 32"
    "\<forall>op \<in> set (prb_priority_ops p). prio_token_ok op
      \<and> prio_chunks (po_data op) \<le> last (sk_available_block_chunk_sizes k)"
    "\<forall>v \<in> set (prb_txs p). \<exists>tx. v = VariantTx tx \<and> tx_fine c tx"
  shows "\<exists>V' k'. execute_proposed_block root c k p = Some (Ok k') \<and> keeper_inv V' k' \<and> chunks_ok k'"
proof -
  have "prio_ready k (size (prb_txs p)) k (prb_priority_ops p)"
    using assms by (auto simp: prio_ready_def same_config_def)
  then obtain k1 where k1: "run_priority_ops root k (prb_priority_ops p) = Some (Ok k1)"
    "prio_ready k (size (prb_txs p)) k1 []"
    using prio_loop.ends unfolding run_priority_ops_def by metis
  then have "tx_ready c k1 (prb_txs p)"
    using assms by (auto simp: prio_ready_def tx_ready_def same_config_def)
  then obtain k2 where k2: "run_txs root c k1 (prb_txs p) = Some (Ok k2)" "tx_ready c k2 []"
    using tx_loop.ends unfolding run_txs_def by metis
  then obtain V2 where "keeper_inv V2 k2" "chunks_ok k2"
    by (auto simp: tx_ready_def)
  then show ?thesis
    using finish_iteration_works k1(1) k2(1) by (simp add: execute_proposed_block_def)
qed

text \<open>C15: executing a proposed block of priority operations and single transactions, without batches, ends and
  succeeds if each priority operation fits an empty block of the largest size and that size holds a transaction: both loops,
  which retry an operation on a sealed block when it does not fit, take every operation off their queue, and the
  keeper is left with a sound pending block.  The message of each transaction can be encoded and its signature does not give the
  zero key hash.  Batches are left out since a batch is charged all its chunks for each of its transactions, so that
  the number of chunks left can wrap around; an operation that fits no block is retried for ever.\<close>

theorem proposed_block_executes:
  assumes "keeper_inv V k" "chunks_ok k" "6 \<le> last (sk_available_block_chunk_sizes k)"
    "ucast (sk_max_number_of_withdrawals_per_block k) \<noteq> (0 :: 32 word)"
    "account_count (sk_state k) + size (prb_priority_ops p) + size (prb_txs p) \<le> 2 ^ 32"
    "\<forall>op \<in> set (prb_priority_ops p). prio_token_ok op
      \<and> prio_chunks (po_data op) \<le> last (sk_available_block_chunk_sizes k)"
    "\<forall>v \<in> set (prb_txs p). \<exists>tx. v = VariantTx tx \<and> tx_fine c tx"
  shows "\<exists>V' k'. execute_proposed_block root c k p = Some (Ok k') \<and> keeper_inv V' k' \<and> chunks_ok k'"
  by (rule proposed_block_runs [OF assms])

definition sample_proposed :: proposed_block where
  "sample_proposed = \<lparr>prb_priority_ops = [sample_prio, sample_prio, sample_prio], prb_txs = [VariantTx sample_signed]\<rparr>"

theorem proposed_block_executes_witness:
  "\<exists>V' k'. execute_proposed_block (\<lambda>s. 7) sample_crypto sample_keeper sample_proposed = Some (Ok k')
    \<and> keeper_inv V' k' \<and> chunks_ok k'"
proof (rule proposed_block_executes [OF sample_keeper_ok])
  show "\<forall>v \<in> set (prb_txs sample_proposed). \<exists>tx. v = VariantTx tx \<and> tx_fine sample_crypto tx"
    using sample_tx_bytes by (auto simp: sample_proposed_def tx_fine_def sample_signed_def sample_tx_def)
  show "account_count (sk_state sample_keeper) + size (prb_priority_ops sample_proposed) + size (prb_txs sample_proposed) \<le> 2 ^ 32"
    using sample_ids(1) by (simp add: sample_keeper_state sample_proposed_def sample_state_ok)
qed (use sample_ids(1) in \<open>simp_all add: sample_keeper_def sample_proposed_def prio_token_ok_def sample_prio_def
    op_consts\<close>)

text \<open>C16: a priority operation with more chunks than the largest block is retried for ever: executing the proposed
  block never ends, though the state keeper is sound, and seals one empty block after the other.\<close>

theorem oversized_op_never_ends:
  assumes "keeper_inv V k" "chunks_ok k" "prb_priority_ops p = op # ops"
    "last (sk_available_block_chunk_sizes k) < prio_chunks (po_data op)"
  shows "execute_proposed_block root c k p = None"
proof -
  have "prio_too_big k op"
    using assms by (auto simp: prio_too_big_def)
  then have "run_priority_ops root k (op # ops) = None"
    unfolding run_priority_ops_def by (rule prio_stuck.never_ends)
  then show ?thesis
    using assms(3) by (simp add: execute_proposed_block_def)
qed

text \<open>The witness is a keeper whose only block size is 2 chunks, and a deposit, which needs 6.\<close>

definition small_keeper :: state_keeper where
  "small_keeper = sample_keeper\<lparr>sk_available_block_chunk_sizes := [2], sk_pending_block := pending_block_new 0 2\<rparr>"

theorem oversized_op_never_ends_witness:
  "execute_proposed_block (\<lambda>s. 7) sample_crypto small_keeper sample_proposed = None"
proof -
  have "keeper_inv (state_view sample_state) small_keeper" "chunks_ok small_keeper"
    using sample_state_ok(1)
    by (simp_all add: keeper_inv_def chunks_ok_def small_keeper_def sample_keeper_def pending_ok_def pending_block_new_def
        updates_from_def gas_counter_new_ok prio_count_def txs_chunks_def block_ops_def sample_lookup)
  moreover have "prb_priority_ops sample_proposed = sample_prio # [sample_prio, sample_prio]"
    by (simp add: sample_proposed_def)
  moreover have "last (sk_available_block_chunk_sizes small_keeper) < prio_chunks (po_data sample_prio)"
    by (simp add: small_keeper_def sample_prio_def op_consts)
  ultimately show ?thesis
    by (rule oversized_op_never_ends)
qed

end
