(* ===== verification/Merkle.thy ===== *)
theory Merkle
  imports Codec
begin

text \<open>
  The sparse Merkle tree, @core/lib/crypto/src/merkle_tree/parallel_smt.rs@: a vector of nodes
  that refer to each other by position, the items, and the cache of hashes.  The hasher, the bits of
  an item and the default item are parameters.  Depths and node indices are unbounded numbers: a tree
  of depth below 63 has no index that does not fit its @u64@.  A subtraction of depths that would
  underflow panics.  A walk over the nodes whose references form a cycle does not end, so the
  walks are partial functions with result @None@ in that case.
\<close>

section \<open>The tree\<close>

text \<open>The trait @Hasher@ with @GetBits@ and @Default@ of the items.\<close>

record ('t, 'h) hasher =
  hash_bits :: "bool list \<Rightarrow> 'h"
  compress :: "'h \<Rightarrow> 'h \<Rightarrow> nat \<Rightarrow> 'h"
  item_bits :: "'t \<Rightarrow> bool list"
  default_item :: 't

type_synonym node_index = nat

record node =
  nd_depth :: nat
  nd_index :: node_index
  nd_left :: "nat option"
  nd_right :: "nat option"

record ('t, 'h) merkle_tree =
  mt_items :: "(nat, 't) fmap"
  mt_tree_depth :: nat
  mt_root :: nat
  mt_nodes :: "node list"
  mt_prehashed :: "'h list"
  mt_cache :: "(node_index, 'h) fmap"

datatype node_direction = DirLeft | DirRight

fun child_index :: "node_direction \<Rightarrow> node_index \<Rightarrow> node_index" where
  "child_index DirLeft parent_idx = parent_idx * 2"
| "child_index DirRight parent_idx = parent_idx * 2 + 1"

definition from_idx :: "node_index \<Rightarrow> node_direction" where
  "from_idx i = (if even i then DirLeft else DirRight)"

fun order_elements :: "node_direction \<Rightarrow> 'a \<Rightarrow> 'a \<Rightarrow> 'a \<times> 'a" where
  "order_elements DirLeft primary secondary = (primary, secondary)"
| "order_elements DirRight primary secondary = (secondary, primary)"

text \<open>The hashes of default subtrees, for the depths from the root to the leaves.\<close>

fun prehash :: "('t, 'h) hasher \<Rightarrow> nat \<Rightarrow> 'h list" where
  "prehash H 0 = [hash_bits H (item_bits H (default_item H))]"
| "prehash H (Suc i) = (let hs = prehash H i in compress H (hd hs) (hd hs) i # hs)"

definition merkle_new :: "('t, 'h) hasher \<Rightarrow> nat \<Rightarrow> (unit, ('t, 'h) merkle_tree) res" where
  "merkle_new H tree_depth = res_map (\<lambda>_.
    \<lparr>mt_items = fmempty, mt_tree_depth = tree_depth, mt_root = 0,
     mt_nodes = [\<lparr>nd_depth = 0, nd_index = 1, nd_left = None, nd_right = None\<rparr>],
     mt_prehashed = prehash H tree_depth, mt_cache = fmempty\<rparr>) (assert_that (1 < tree_depth))"

definition merkle_get :: "('t, 'h) merkle_tree \<Rightarrow> nat \<Rightarrow> 't option" where
  "merkle_get t index = fmlookup (mt_items t) index"

definition capacity :: "('t, 'h) merkle_tree \<Rightarrow> nat" where
  "capacity t = 2 ^ mt_tree_depth t"

definition nodes_capacity :: "('t, 'h) merkle_tree \<Rightarrow> nat" where
  "nodes_capacity t = 2 ^ (mt_tree_depth t + 1) - 1"

section \<open>Sequencing of calls that may not end\<close>

text \<open>Vector access, and the subtraction of depths.\<close>

definition nth_opt :: "'a list \<Rightarrow> nat \<Rightarrow> 'a option" where
  "nth_opt xs i = (if i < size xs then Some (xs ! i) else None)"

definition then_res :: "('e, 'a) res option \<Rightarrow> ('a \<Rightarrow> ('e, 'b) res option) \<Rightarrow> ('e, 'b) res option" where
  "then_res m f = Option.bind m (\<lambda>r. case r of Ok x \<Rightarrow> f x | Err e \<Rightarrow> Some (Err e) | Panic \<Rightarrow> Some Panic)"

lemma then_res_mono [partial_function_mono]:
  assumes "mono_option B" "\<And>y. mono_option (\<lambda>f. C y f)"
  shows "mono_option (\<lambda>f. then_res (B f) (\<lambda>y. C y f))"
  unfolding then_res_def
proof (rule bind_mono [OF assms(1)])
  show "mono_option (\<lambda>f. case y of Ok x \<Rightarrow> C x f | Err e \<Rightarrow> Some (Err e) | Panic \<Rightarrow> Some Panic)" for y
    using assms(2) by (cases y) (auto simp: monotone_def option.leq_refl)
qed

lemma then_res_simps [simp]:
  "then_res (Some (Ok x)) f = f x" "then_res (Some (Err e)) f = Some (Err e)" "then_res (Some Panic) f = Some Panic"
  "then_res None f = None"
  by (simp_all add: then_res_def)

section \<open>Hashing\<close>

definition calculate_level :: "('t, 'h) merkle_tree \<Rightarrow> nat \<Rightarrow> nat option" where
  "calculate_level t cur_depth = (if cur_depth < mt_tree_depth t then Some (mt_tree_depth t - cur_depth - 1) else None)"

definition calculate_hash :: "('t, 'h) hasher \<Rightarrow> ('t, 'h) merkle_tree \<Rightarrow> nat \<Rightarrow> 'h \<Rightarrow> 'h \<Rightarrow> (unit, 'h) res" where
  "calculate_hash H t cur_depth lhs rhs = res_map (compress H lhs rhs) (expect (calculate_level t cur_depth))"

text \<open>The loop of @calculate_child_hash@ that fills the gap between a child and its parent.\<close>

function fill_gap ::
  "('t, 'h) hasher \<Rightarrow> ('t, 'h) merkle_tree \<Rightarrow> nat \<Rightarrow> nat \<Rightarrow> node_index \<Rightarrow> 'h \<Rightarrow> (node_index \<times> 'h) list
    \<Rightarrow> (unit, 'h \<times> (node_index \<times> 'h) list) res" where
  "fill_gap H t parent_depth cur_depth cur_idx cur_hash updates =
    (if parent_depth < cur_depth then
       res_bind (expect (nth_opt (mt_prehashed t) (cur_depth + 1))) (\<lambda>supplement_hash.
         let (lhs, rhs) = order_elements (from_idx cur_idx) cur_hash supplement_hash in
       res_bind (calculate_hash H t cur_depth lhs rhs) (\<lambda>cur_hash.
         let cur_idx = cur_idx div 2
         in fill_gap H t parent_depth (cur_depth - 1) cur_idx cur_hash (updates @ [(cur_idx, cur_hash)])))
     else Ok (cur_hash, updates))"
  by pat_completeness auto
termination
  by (relation "measure (\<lambda>(H, t, pd, cd, i, h, u). cd)") auto

declare fill_gap.simps [simp del]

text \<open>@calculate_child_hash@ and @get_child_hash@; the recursive call is their argument.\<close>

definition calculate_child_hash ::
  "('t, 'h) hasher \<Rightarrow> ('t, 'h) merkle_tree \<Rightarrow> (nat \<Rightarrow> (unit, 'h \<times> (node_index \<times> 'h) list) res option) \<Rightarrow> nat \<Rightarrow> node
    \<Rightarrow> (unit, 'h \<times> (node_index \<times> 'h) list) res option" where
  "calculate_child_hash H t get_hash child_ref parent =
    (case nth_opt (mt_nodes t) child_ref of
       None \<Rightarrow> Some Panic
     | Some child \<Rightarrow>
         then_res (get_hash child_ref) (\<lambda>r.
           Some (if nd_depth child = 0 then Panic
                 else fill_gap H t (nd_depth parent) (nd_depth child - 1) (nd_index child) (fst r) (snd r))))"

definition get_child_hash ::
  "('t, 'h) hasher \<Rightarrow> ('t, 'h) merkle_tree \<Rightarrow> (nat \<Rightarrow> (unit, 'h \<times> (node_index \<times> 'h) list) res option) \<Rightarrow> node \<Rightarrow> node_direction
    \<Rightarrow> (unit, 'h \<times> (node_index \<times> 'h) list) res option" where
  "get_child_hash H t get_hash parent dir =
    (let child_ref = (case dir of DirLeft \<Rightarrow> nd_left parent | DirRight \<Rightarrow> nd_right parent) in
     case fmlookup (mt_cache t) (child_index dir (nd_index parent)) of
       Some cached \<Rightarrow> Some (Ok (cached, []))
     | None \<Rightarrow>
         (case child_ref of
            Some child_ref \<Rightarrow> calculate_child_hash H t get_hash child_ref parent
          | None \<Rightarrow> Some (res_map (\<lambda>h. (h, [])) (expect (nth_opt (mt_prehashed t) (nd_depth parent + 1))))))"

lemma calculate_child_hash_mono [partial_function_mono]:
  "(\<And>r. mono_option (\<lambda>f. g f r)) \<Longrightarrow> mono_option (\<lambda>f. calculate_child_hash H t (g f) child_ref parent)"
  unfolding calculate_child_hash_def
  by (cases "nth_opt (mt_nodes t) child_ref") (auto intro!: then_res_mono option.const_mono)

lemma get_child_hash_mono [partial_function_mono]:
  "(\<And>r. mono_option (\<lambda>f. g f r)) \<Longrightarrow> mono_option (\<lambda>f. get_child_hash H t (g f) parent dir)"
  unfolding get_child_hash_def Let_def
  by (cases "fmlookup (mt_cache t) (child_index dir (nd_index parent))";
      cases "case dir of DirLeft \<Rightarrow> nd_left parent | DirRight \<Rightarrow> nd_right parent")
    (simp_all add: option.const_mono calculate_child_hash_mono)

partial_function (option) get_hash ::
  "('t, 'h) hasher \<Rightarrow> ('t, 'h) merkle_tree \<Rightarrow> nat \<Rightarrow> (unit, 'h \<times> (node_index \<times> 'h) list) res option" where
  "get_hash H t node_ref =
    (case nth_opt (mt_nodes t) node_ref of
       None \<Rightarrow> Some Panic
     | Some node \<Rightarrow>
         if nd_depth node = mt_tree_depth t
         then (case fmlookup (mt_items t) (nd_index node - 2 ^ mt_tree_depth t) of
                 None \<Rightarrow> Some Panic
               | Some item \<Rightarrow> (let hash = hash_bits H (item_bits H item) in Some (Ok (hash, [(nd_index node, hash)]))))
         else then_res (get_child_hash H t (get_hash H t) node DirLeft) (\<lambda>l.
              then_res (get_child_hash H t (get_hash H t) node DirRight) (\<lambda>r.
                Some (res_map (\<lambda>hash. (hash, snd l @ snd r @ [(nd_index node, hash)]))
                  (calculate_hash H t (nd_depth node) (fst l) (fst r))))))"

declare get_hash.simps [code]

definition store_hashes :: "(node_index, 'h) fmap \<Rightarrow> (node_index \<times> 'h) list \<Rightarrow> (node_index, 'h) fmap" where
  "store_hashes cache us = foldl (\<lambda>m (i, h). fmupd i h m) cache us"

definition root_hash ::
  "('t, 'h) hasher \<Rightarrow> ('t, 'h) merkle_tree \<Rightarrow> (unit, 'h \<times> ('t, 'h) merkle_tree) res option" where
  "root_hash H t = then_res (get_hash H t 0) (\<lambda>(h, us).
    Some (Ok (h, t\<lparr>mt_cache := store_hashes (mt_cache t) us\<rparr>)))"

section \<open>Insertion\<close>

fun index_depth :: "node_index \<Rightarrow> nat" where
  "index_depth i = (if 1 < i then Suc (index_depth (i div 2)) else 0)"

declare index_depth.simps [simp del]

function common_parent :: "node_index \<Rightarrow> node_index \<Rightarrow> node_index" where
  "common_parent i j = (if i = j then i else common_parent (i div 2) (j div 2))"
  by pat_completeness auto
termination
proof (relation "measure (\<lambda>(i, j). i + j)")
  fix i j :: node_index
  assume "i \<noteq> j"
  then have "i div 2 + j div 2 < i + j"
    by (cases "i = 0"; cases "j = 0") (auto intro: add_less_le_mono)
  then show "((i div 2, j div 2), (i, j)) \<in> measure (\<lambda>(i, j). i + j)"
    by simp
qed simp

declare common_parent.simps [simp del]

function wipe_up :: "(node_index, 'h) fmap \<Rightarrow> node_index \<Rightarrow> node_index \<Rightarrow> (node_index, 'h) fmap" where
  "wipe_up cache i parent = (if parent < i then wipe_up (fmdrop i cache) (i div 2) parent else cache)"
  by pat_completeness auto
termination
  by (relation "measure (\<lambda>(c, i, p). i)") auto

declare wipe_up.simps [simp del]

definition wipe_cache :: "('t, 'h) merkle_tree \<Rightarrow> node_index \<Rightarrow> node_index \<Rightarrow> ('t, 'h) merkle_tree" where
  "wipe_cache t child parent =
    (case fmlookup (mt_cache t) child of
       Some h \<Rightarrow> t\<lparr>mt_cache := wipe_up (fmdrop child (mt_cache t)) (child div 2) parent\<rparr>
     | None \<Rightarrow> t)"

definition insert_node ::
  "('t, 'h) merkle_tree \<Rightarrow> node_index \<Rightarrow> nat \<Rightarrow> nat option \<Rightarrow> nat option \<Rightarrow> nat \<times> ('t, 'h) merkle_tree" where
  "insert_node t index depth left right =
    (size (mt_nodes t),
     t\<lparr>mt_nodes := mt_nodes t @ [\<lparr>nd_depth = depth, nd_index = index, nd_left = left, nd_right = right\<rparr>]\<rparr>)"

definition add_child_node :: "('t, 'h) merkle_tree \<Rightarrow> nat \<Rightarrow> node_direction \<Rightarrow> nat \<Rightarrow> (unit, ('t, 'h) merkle_tree) res" where
  "add_child_node t node_ref dir child =
    res_map (\<lambda>node. t\<lparr>mt_nodes := (mt_nodes t)[node_ref :=
        (case dir of DirLeft \<Rightarrow> node\<lparr>nd_left := Some child\<rparr> | DirRight \<Rightarrow> node\<lparr>nd_right := Some child\<rparr>)]\<rparr>)
      (expect (nth_opt (mt_nodes t) node_ref))"

text \<open>The walk of @insert@ down the tree.\<close>

partial_function (option) insert_walk ::
  "('t, 'h) merkle_tree \<Rightarrow> node_index \<Rightarrow> nat \<Rightarrow> (unit, ('t, 'h) merkle_tree) res option" where
  "insert_walk t leaf_index current_node_ref =
    (case nth_opt (mt_nodes t) current_node_ref of
       None \<Rightarrow> Some Panic
     | Some current_node \<Rightarrow>
     (case calculate_level t (nd_depth current_node) of
       None \<Rightarrow> Some Panic
     | Some current_level \<Rightarrow>
         let (dir, child_ref) =
           (if odd (leaf_index div 2 ^ current_level) then (DirRight, nd_right current_node)
            else (DirLeft, nd_left current_node)) in
         (case child_ref of
            Some next_ref \<Rightarrow>
              (case nth_opt (mt_nodes t) next_ref of
                 None \<Rightarrow> Some Panic
               | Some next \<Rightarrow>
                   if mt_tree_depth t < nd_depth next then Some Panic
                   else let normalized = leaf_index div 2 ^ (mt_tree_depth t - nd_depth next) in
                   if normalized = nd_index next then
                     (let t = wipe_cache t (nd_index next) (nd_index current_node)
                      in if nd_index next = leaf_index then Some (Ok t)
                         else insert_walk t leaf_index next_ref)
                   else
                     (let common_parent_index = common_parent normalized (nd_index next);
                          t = wipe_cache t common_parent_index (nd_index current_node);
                          (leaf_ref, t) = insert_node t leaf_index (mt_tree_depth t) None None;
                          direction = (if nd_index next < normalized then DirRight else DirLeft);
                          (lhs, rhs) = order_elements direction (Some leaf_ref) (Some next_ref);
                          split_depth = index_depth common_parent_index;
                          (split_node_ref, t) = insert_node t common_parent_index split_depth lhs rhs
                      in Some (add_child_node t current_node_ref dir split_node_ref)))
          | None \<Rightarrow>
              (let (leaf_ref, t) = insert_node t leaf_index (mt_tree_depth t) None None
               in Some (add_child_node t current_node_ref dir leaf_ref)))))"

declare insert_walk.simps [code]

definition merkle_insert ::
  "('t, 'h) merkle_tree \<Rightarrow> nat \<Rightarrow> 't \<Rightarrow> (unit, ('t, 'h) merkle_tree) res option" where
  "merkle_insert t item_index item =
    (if item_index < capacity t
     then insert_walk
       (t\<lparr>mt_items := fmupd item_index item (mt_items t), mt_cache := fmdrop 1 (mt_cache t)\<rparr>)
       (2 ^ mt_tree_depth t + item_index) (mt_root t)
     else Some Panic)"

definition merkle_remove ::
  "('t, 'h) hasher \<Rightarrow> ('t, 'h) merkle_tree \<Rightarrow> nat \<Rightarrow> (unit, 't option \<times> ('t, 'h) merkle_tree) res option" where
  "merkle_remove H t index =
    (let old = fmlookup (mt_items t) index in
     map_option (res_map (\<lambda>t. (old, t)))
       (merkle_insert (t\<lparr>mt_items := fmdrop index (mt_items t)\<rparr>) index (default_item H)))"

section \<open>Proofs of existence\<close>

definition get_calculated_node_hash ::
  "('t, 'h) merkle_tree \<Rightarrow> nat \<Rightarrow> node_index \<Rightarrow> (unit, 'h \<times> bool) res" where
  "get_calculated_node_hash t depth node_index =
    (let neighbor_index = (if even node_index then node_index + 1 else node_index - 1);
         going_right = odd node_index
     in res_map (\<lambda>h. (h, going_right))
          (case fmlookup (mt_cache t) neighbor_index of
             Some h \<Rightarrow> Ok h
           | None \<Rightarrow> expect (nth_opt (mt_prehashed t) depth)))"

text \<open>The loop over the depths, from the leaves to the root.\<close>

fun path_up :: "('t, 'h) merkle_tree \<Rightarrow> nat \<Rightarrow> node_index \<Rightarrow> (unit, ('h \<times> bool) list) res" where
  "path_up t 0 cur_index = Ok []"
| "path_up t (Suc depth) cur_index =
    res_bind (get_calculated_node_hash t (Suc depth) cur_index) (\<lambda>p.
      res_map (\<lambda>ps. p # ps) (path_up t depth (cur_index div 2)))"

definition merkle_path ::
  "('t, 'h) hasher \<Rightarrow> ('t, 'h) merkle_tree \<Rightarrow> nat \<Rightarrow> (unit, ('h \<times> bool) list \<times> ('t, 'h) merkle_tree) res option" where
  "merkle_path H t index =
    (if index < capacity t
     then then_res (root_hash H t) (\<lambda>(h, t).
       Some (res_map (\<lambda>ps. (ps, t)) (path_up t (mt_tree_depth t) (2 ^ mt_tree_depth t + index))))
     else Some Panic)"

section \<open>Saving the tree\<close>

text \<open>The cache as it is stored, for hashes that are field elements, written as 32 bytes.\<close>

record internals =
  in_root :: nat
  in_nodes :: "node list"
  in_cache :: "(node_index \<times> byte list) list"

definition get_internals :: "('t, nat) merkle_tree \<Rightarrow> internals" where
  "get_internals t = \<lparr>in_root = mt_root t, in_nodes = mt_nodes t,
    in_cache = map (\<lambda>i. (i, to_be 32 (case fmlookup (mt_cache t) i of Some h \<Rightarrow> h | None \<Rightarrow> 0)))
      (sorted_list_of_fset (fmdom (mt_cache t)))\<rparr>"

fun read_cache :: "nat \<Rightarrow> (node_index \<times> byte list) list \<Rightarrow> (unit, (node_index, nat) fmap) res" where
  "read_cache modulus [] = Ok fmempty"
| "read_cache modulus ((i, bs) # es) =
    (let h = from_be bs in
     res_bind (assert_that (h < modulus)) (\<lambda>_.
     res_map (\<lambda>m. if i \<in> fset (fmdom m) then m else fmupd i h m) (read_cache modulus es)))"

definition set_internals :: "nat \<Rightarrow> ('t, nat) merkle_tree \<Rightarrow> internals \<Rightarrow> (unit, ('t, nat) merkle_tree) res" where
  "set_internals modulus t internals =
    res_map (\<lambda>cache. t\<lparr>mt_root := in_root internals, mt_nodes := in_nodes internals, mt_cache := cache\<rparr>)
      (read_cache modulus (in_cache internals))"

end
