(* ===== verification/MerklePaths.thy ===== *)
theory MerklePaths
  imports Merkle
begin

text \<open>
  The indices of a binary tree, whose root is 1 and where the children of @i@ are @2 * i@ and
  @2 * i + 1@: ancestors, depths, and what the loops of the Merkle tree compute on them.
\<close>

section \<open>Ancestors\<close>

definition anc :: "nat \<Rightarrow> nat \<Rightarrow> bool" where
  "anc a b \<longleftrightarrow> (\<exists>k. b div 2 ^ k = a)"

lemma anc_refl [simp]: "anc a a"
  unfolding anc_def by (rule exI [of _ 0]) simp

lemma anc_trans: "anc a b \<Longrightarrow> anc b c \<Longrightarrow> anc a c"
  unfolding anc_def by (metis div_mult2_eq power_add)

lemma anc_half: "anc a b \<longleftrightarrow> a = b \<or> anc a (b div 2)"
proof
  assume "anc a b"
  then obtain k where "b div 2 ^ k = a"
    by (auto simp: anc_def)
  then show "a = b \<or> anc a (b div 2)"
    by (cases k) (auto simp: anc_def div_mult2_eq)
next
  assume "a = b \<or> anc a (b div 2)"
  moreover have "anc (b div 2) b"
    unfolding anc_def by (rule exI [of _ 1]) simp
  ultimately show "anc a b"
    using anc_trans by auto
qed

lemma anc_le: "anc a b \<Longrightarrow> a \<le> b"
  by (auto simp: anc_def)

lemma anc_antisym: "anc a b \<Longrightarrow> anc b a \<Longrightarrow> a = b"
  using anc_le by (simp add: le_antisym)

lemma anc_linear:
  assumes "anc a c" "anc b c"
  shows "anc a b \<or> anc b a"
proof -
  obtain k l where kl: "c div 2 ^ k = a" "c div 2 ^ l = b"
    using assms by (auto simp: anc_def)
  have "anc (c div 2 ^ (m + n)) (c div 2 ^ m)" for m n
    unfolding anc_def by (rule exI [of _ n]) (simp add: power_add div_mult2_eq)
  then show ?thesis
    using kl by (metis le_add_diff_inverse linear)
qed

section \<open>Depths\<close>

lemma index_depth_step: "2 \<le> i \<Longrightarrow> index_depth i = Suc (index_depth (i div 2))"
  by (subst index_depth.simps) simp

lemma index_depth_1 [simp]: "index_depth 1 = 0" "index_depth (Suc 0) = 0"
  by (simp_all add: index_depth.simps)

lemma index_depth_child [simp]: "1 \<le> i \<Longrightarrow> index_depth (child_index d i) = Suc (index_depth i)"
  by (cases d) (auto simp: index_depth_step)

lemma child_index_pos: "1 \<le> i \<Longrightarrow> 1 \<le> child_index d i" "1 \<le> i \<Longrightarrow> i < child_index d i"
  by (cases d; auto)+

lemma child_index_half [simp]: "child_index d i div 2 = i"
  by (cases d) auto

lemma index_depth_bounds: "1 \<le> i \<Longrightarrow> 2 ^ index_depth i \<le> i \<and> i < 2 ^ Suc (index_depth i)"
proof (induction i rule: index_depth.induct)
  case (1 i)
  show ?case
  proof (cases "2 \<le> i")
    case True
    then have ih: "2 ^ index_depth (i div 2) \<le> i div 2" "i div 2 < 2 ^ Suc (index_depth (i div 2))"
      using 1(1) by simp_all
    have half: "2 * (i div 2) \<le> i" "i < 2 * (i div 2) + 2"
      by simp_all
    have "2 * 2 ^ index_depth (i div 2) \<le> 2 * (i div 2)" "2 * (i div 2) + 2 \<le> 2 * 2 ^ Suc (index_depth (i div 2))"
      using ih by simp_all
    then show ?thesis
      unfolding index_depth_step [OF True] power_Suc using half by linarith
  next
    case False
    then have "i = 1"
      using 1 by simp
    then show ?thesis
      by simp
  qed
qed

lemma index_depth_eq:
  assumes "2 ^ l \<le> i" "i < 2 ^ Suc l"
  shows "index_depth i = l"
proof -
  have i: "1 \<le> i"
    using assms(1) order.trans [of 1 "2 ^ l" i] by simp
  note b = index_depth_bounds [OF i]
  have "(2::nat) ^ index_depth i < 2 ^ Suc l" "(2::nat) ^ l < 2 ^ Suc (index_depth i)"
    using order.strict_trans1 [OF conjunct1 [OF b] assms(2)] order.strict_trans1 [OF assms(1) conjunct2 [OF b]] .
  then have "index_depth i < Suc l" "l < Suc (index_depth i)"
    by (metis power_less_imp_less_exp one_less_numeral_iff semiring_norm(76))+
  then show ?thesis
    by simp
qed

lemma leaf_depth: "x < 2 ^ D \<Longrightarrow> index_depth (2 ^ D + x) = D"
  by (rule index_depth_eq) auto

lemma anc_div: "1 \<le> a \<Longrightarrow> anc a b \<Longrightarrow> index_depth a \<le> index_depth b \<and> b div 2 ^ (index_depth b - index_depth a) = a"
proof (induction b rule: index_depth.induct)
  case (1 b)
  show ?case
  proof (cases "a = b")
    case False
    then have h: "anc a (b div 2)"
      using 1(3) anc_half by blast
    then have b: "2 \<le> b"
      using anc_le 1(2) by fastforce
    then have "index_depth a \<le> index_depth (b div 2) \<and> b div 2 div 2 ^ (index_depth (b div 2) - index_depth a) = a"
      using 1 h by simp
    then show ?thesis
      using b by (simp add: index_depth_step Suc_diff_le div_mult2_eq)
  qed simp
qed

lemma anc_iff: "1 \<le> a \<Longrightarrow> anc a b \<longleftrightarrow> index_depth a \<le> index_depth b \<and> b div 2 ^ (index_depth b - index_depth a) = a"
  using anc_div by (auto simp: anc_def)

lemma anc_depth: "1 \<le> a \<Longrightarrow> anc a b \<Longrightarrow> index_depth a \<le> index_depth b"
  using anc_div by blast

lemma anc_same_depth:
  assumes "1 \<le> a" "anc a b" "index_depth b \<le> index_depth a"
  shows "a = b"
proof -
  have "index_depth b - index_depth a = 0"
    using assms(3) by simp
  then show ?thesis
    using anc_div [OF assms(1,2)] by (metis div_by_1 power_0)
qed

lemma anc_proper_depth: "1 \<le> a \<Longrightarrow> anc a b \<Longrightarrow> a \<noteq> b \<Longrightarrow> index_depth a < index_depth b"
  using anc_same_depth [of a b] by linarith

lemma anc_root: "1 \<le> i \<Longrightarrow> anc 1 i"
  using index_depth_bounds [of i] anc_iff [of 1 i] by (simp add: div_nat_eqI)

lemma anc_linear_depth:
  assumes "1 \<le> a" "1 \<le> b" "anc a c" "anc b c" "index_depth a \<le> index_depth b"
  shows "anc a b"
proof (cases "anc a b")
  case False
  then have "anc b a"
    using anc_linear [OF assms(3,4)] by blast
  then have "b = a"
    by (rule anc_same_depth [OF assms(2) _ assms(5)])
  then show ?thesis
    by simp
qed

section \<open>Children\<close>

lemma anc_child: "anc (child_index d a) b \<Longrightarrow> anc a b"
  by (rule anc_trans [of _ "child_index d a"]) (subst anc_half, simp)

lemma anc_step: "anc a b \<Longrightarrow> a \<noteq> b \<Longrightarrow> \<exists>d. anc (child_index d a) b"
proof (induction b rule: index_depth.induct)
  case (1 b)
  then have h: "anc a (b div 2)"
    using anc_half by blast
  show ?case
  proof (cases "a = b div 2")
    case True
    then have "b = child_index (from_idx b) a"
      by (cases "even b") (simp_all add: from_idx_def, presburger)
    then have "anc (child_index (from_idx b) a) b"
      by (metis anc_refl)
    then show ?thesis ..
  next
    case False
    show ?thesis
    proof (cases "1 < b")
      case True
      then show ?thesis
        using 1(1) h False anc_half by metis
    next
      case False
      then have "b = 0 \<or> b = 1"
        by auto
      then show ?thesis
        using \<open>a \<noteq> b div 2\<close> h anc_le [of a "b div 2"] by auto
    qed
  qed
qed

lemma anc_child_unique:
  assumes "1 \<le> a" "anc (child_index d a) b" "anc (child_index e a) b"
  shows "d = e"
proof -
  have "anc (child_index d a) (child_index e a)"
    using anc_linear_depth [of "child_index d a" "child_index e a" b] assms child_index_pos by simp
  then have "child_index d a = child_index e a"
    using anc_same_depth [of "child_index d a" "child_index e a"] assms(1) child_index_pos by simp
  moreover have "a * 2 \<noteq> Suc (a * 2)"
    by simp
  ultimately show ?thesis
    by (cases d; cases e) auto
qed

text \<open>The other child of the parent.\<close>

definition sibling :: "nat \<Rightarrow> nat" where
  "sibling i = (if even i then i + 1 else i - 1)"

lemma sibling_child: "2 \<le> i \<Longrightarrow> \<exists>d e. d \<noteq> e \<and> i = child_index d (i div 2) \<and> sibling i = child_index e (i div 2)"
proof (cases "even i")
  case True
  then have "i = child_index DirLeft (i div 2)" "sibling i = child_index DirRight (i div 2)"
    by (auto simp: sibling_def)
  then show ?thesis
    by blast
next
  case False
  then have "i = child_index DirRight (i div 2)" "sibling i = child_index DirLeft (i div 2)"
    by (simp_all add: sibling_def) presburger+
  then show ?thesis
    by blast
qed

lemma sibling_disjoint: "2 \<le> i \<Longrightarrow> anc i b \<Longrightarrow> anc (sibling i) b \<Longrightarrow> False"
  using sibling_child [of i] anc_child_unique [of "i div 2"] by (metis One_nat_def Suc_1 Suc_leI div_greater_zero_iff zero_less_numeral)

text \<open>The bit that the walk looks at is the direction of the child on the way to the leaf.\<close>

lemma direction_bit:
  assumes "1 \<le> n" "anc n leaf" "index_depth leaf = D" "index_depth n < D"
  shows "anc (child_index (if odd (leaf div 2 ^ (D - index_depth n - 1)) then DirRight else DirLeft) n) leaf"
proof -
  obtain d where d: "anc (child_index d n) leaf"
    using anc_step [OF assms(2)] assms(3,4) by blast
  then have "leaf div 2 ^ (D - index_depth n - 1) = child_index d n"
    using anc_div [of "child_index d n" leaf] assms child_index_pos by simp
  then show ?thesis
    using d by (cases d) auto
qed

section \<open>The loops\<close>

lemma common_parent_spec:
  assumes "1 \<le> i" "1 \<le> j" "index_depth i = index_depth j"
  shows "1 \<le> common_parent i j \<and> anc (common_parent i j) i \<and> anc (common_parent i j) j
    \<and> (\<forall>q. anc q i \<longrightarrow> anc q j \<longrightarrow> anc q (common_parent i j))"
  using assms
proof (induction i j rule: common_parent.induct)
  case (1 i j)
  show ?case
  proof (cases "i = j")
    case False
    have ij: "2 \<le> i" "2 \<le> j"
    proof -
      have "\<not> (k = 1 \<and> 2 \<le> l)" if "index_depth k = index_depth l" for k l
        using that by (auto simp: index_depth_step)
      then show "2 \<le> i" "2 \<le> j"
        using 1(2-4) False by (metis One_nat_def Suc_1 le_antisym not_less_eq_eq)+
    qed
    let ?p = "common_parent (i div 2) (j div 2)"
    have ih: "1 \<le> ?p" "anc ?p (i div 2)" "anc ?p (j div 2)" "\<And>q. anc q (i div 2) \<Longrightarrow> anc q (j div 2) \<Longrightarrow> anc q ?p"
      using 1(1) [OF False] ij 1(4) by (simp_all add: index_depth_step)
    have half: "anc q (i div 2) \<and> anc q (j div 2)" if "anc q i" "anc q j" for q
    proof -
      have "q \<noteq> i" "q \<noteq> j"
        using that False anc_same_depth [OF 1(2), of j] anc_same_depth [OF 1(3), of i] 1(4) by auto
      then show ?thesis
        using that anc_half by blast
    qed
    have "common_parent i j = ?p"
      using False by (simp add: common_parent.simps [of i j])
    then show ?thesis
      using ih half anc_half [of ?p i] anc_half [of ?p j] by metis
  qed (use 1 in \<open>simp add: common_parent.simps\<close>)
qed

lemma wipe_up_lookup:
  assumes "1 \<le> n" "anc n i"
  shows "fmlookup (wipe_up K i n) j = (if anc j i \<and> n < j then None else fmlookup K j)"
  using assms
proof (induction K i n rule: wipe_up.induct)
  case (1 K i n)
  show ?case
  proof (cases "n < i")
    case True
    then have "anc n (i div 2)"
      using 1(3) anc_half [of n i] by auto
    then show ?thesis
      using 1 True anc_half [of j i] by (subst wipe_up.simps) auto
  next
    case False
    then have "i = n"
      using anc_le [OF 1(3)] by simp
    then show ?thesis
      using anc_le [of j n] by (subst wipe_up.simps) auto
  qed
qed

end
