(* ===== verification/MerkleHash.thy ===== *)
theory MerkleHash
  imports MerklePaths
begin

text \<open>
  The root hash of the Merkle tree against its reference: the hash of the full tree over all leaves, with the
  default item at every index without an item.  The invariant says what the sparse nodes
  and the cache are; on it the cached computation gives the reference hash and fills the cache, and
  the proofs of existence lead from a leaf to the root.
\<close>

declare child_index.simps [simp del]

section \<open>The reference\<close>

fun full_hash :: "('t, 'h) hasher \<Rightarrow> (nat, 't) fmap \<Rightarrow> nat \<Rightarrow> nat \<Rightarrow> node_index \<Rightarrow> 'h" where
  "full_hash H items D 0 i =
     hash_bits H (item_bits H (case fmlookup items (i - 2 ^ D) of Some x \<Rightarrow> x | None \<Rightarrow> default_item H))"
| "full_hash H items D (Suc l) i =
     compress H (full_hash H items D l (child_index DirLeft i)) (full_hash H items D l (child_index DirRight i)) l"

text \<open>The reference root hash of a tree with these items.\<close>

definition reference_root :: "('t, 'h) hasher \<Rightarrow> nat \<Rightarrow> (nat, 't) fmap \<Rightarrow> 'h" where
  "reference_root H D items = full_hash H items D D 1"

definition hash_at :: "('t, 'h) hasher \<Rightarrow> ('t, 'h) merkle_tree \<Rightarrow> node_index \<Rightarrow> 'h" where
  "hash_at H t i = full_hash H (mt_items t) (mt_tree_depth t) (mt_tree_depth t - index_depth i) i"

lemma hash_at_root: "hash_at H t 1 = reference_root H (mt_tree_depth t) (mt_items t)"
  by (simp add: hash_at_def reference_root_def)

lemma hash_at_step:
  assumes "1 \<le> i" "index_depth i < mt_tree_depth t"
  shows "hash_at H t i = compress H (hash_at H t (child_index DirLeft i)) (hash_at H t (child_index DirRight i))
    (mt_tree_depth t - index_depth i - 1)"
proof -
  obtain l where l: "mt_tree_depth t - index_depth i = Suc l"
    using assms(2) by (metis Suc_diff_Suc)
  then have "mt_tree_depth t - index_depth (child_index d i) = l" for d
    using assms(1) by simp
  then show ?thesis
    by (simp add: hash_at_def l)
qed

lemma prehash_size: "size (prehash H D) = Suc D"
  by (induction D) (auto simp: Let_def)

lemma prehash_nth: "d \<le> D \<Longrightarrow> nth_opt (prehash H D) d = Some (hd (prehash H (D - d)))"
proof (induction D arbitrary: d)
  case (Suc D)
  show ?case
  proof (cases d)
    case (Suc e)
    then have "nth_opt (prehash H D) e = Some (hd (prehash H (D - e)))"
      using Suc.IH [of e] Suc.prems by simp
    then show ?thesis
      using Suc by (auto simp: nth_opt_def Let_def split: if_splits)
  qed (simp add: nth_opt_def Let_def)
qed (simp add: nth_opt_def)

section \<open>The invariant\<close>

definition node_set :: "('t, 'h) merkle_tree \<Rightarrow> node_index set" where
  "node_set t = nd_index ` set (mt_nodes t)"

definition relevant :: "('t, 'h) merkle_tree \<Rightarrow> node_index \<Rightarrow> bool" where
  "relevant t j \<longleftrightarrow> 1 \<le> j \<and> (\<exists>m \<in> node_set t. anc j m)"

text \<open>The node @m@ is the top of all nodes below the index @i@.\<close>

definition least_below :: "node_index set \<Rightarrow> node_index \<Rightarrow> node_index \<Rightarrow> bool" where
  "least_below N i m \<longleftrightarrow> m \<in> N \<and> anc i m \<and> (\<forall>m' \<in> N. anc i m' \<longrightarrow> anc m m')"

fun child_ref :: "node \<Rightarrow> node_direction \<Rightarrow> nat option" where
  "child_ref n DirLeft = nd_left n"
| "child_ref n DirRight = nd_right n"

definition link_ok :: "('t, 'h) merkle_tree \<Rightarrow> node \<Rightarrow> node_direction \<Rightarrow> bool" where
  "link_ok t n d \<longleftrightarrow>
    (case child_ref n d of
       None \<Rightarrow> \<forall>m \<in> node_set t. \<not> anc (child_index d (nd_index n)) m
     | Some c \<Rightarrow> c < size (mt_nodes t)
         \<and> least_below (node_set t) (child_index d (nd_index n)) (nd_index (mt_nodes t ! c)))"

definition shape_ok :: "('t, 'h) hasher \<Rightarrow> ('t, 'h) merkle_tree \<Rightarrow> bool" where
  "shape_ok H t \<longleftrightarrow> 0 < mt_tree_depth t \<and> mt_root t = 0 \<and> mt_prehashed t = prehash H (mt_tree_depth t)
    \<and> mt_nodes t \<noteq> [] \<and> nd_index (mt_nodes t ! 0) = 1 \<and> distinct (map nd_index (mt_nodes t))
    \<and> (\<forall>n \<in> set (mt_nodes t). 1 \<le> nd_index n \<and> nd_depth n = index_depth (nd_index n) \<and> nd_depth n \<le> mt_tree_depth t)
    \<and> (\<forall>n \<in> set (mt_nodes t). \<forall>d. link_ok t n d)"

text \<open>The nodes at the bottom are those of the items.\<close>

definition leaves_ok :: "node_index set \<Rightarrow> ('t, 'h) merkle_tree \<Rightarrow> bool" where
  "leaves_ok N t \<longleftrightarrow>
    {i \<in> N. index_depth i = mt_tree_depth t} = (\<lambda>x. 2 ^ mt_tree_depth t + x) ` fset (fmdom (mt_items t))
    \<and> (\<forall>x \<in> fset (fmdom (mt_items t)). x < 2 ^ mt_tree_depth t)"

definition tree_ok :: "('t, 'h) hasher \<Rightarrow> ('t, 'h) merkle_tree \<Rightarrow> bool" where
  "tree_ok H t \<longleftrightarrow> shape_ok H t \<and> leaves_ok (node_set t) t"

lemma tree_shape: "tree_ok H t \<Longrightarrow> shape_ok H t"
  by (simp add: tree_ok_def)

definition cached :: "('t, 'h) merkle_tree \<Rightarrow> node_index set" where
  "cached t = fset (fmdom (mt_cache t))"

text \<open>The cache has only hashes of the reference, and with an index every relevant one below it.\<close>

definition cache_closed :: "('t, 'h) merkle_tree \<Rightarrow> bool" where
  "cache_closed t \<longleftrightarrow> (\<forall>i \<in> cached t. relevant t i \<and> (\<forall>j. anc i j \<longrightarrow> relevant t j \<longrightarrow> j \<in> cached t))"

definition cache_ok :: "('t, 'h) hasher \<Rightarrow> ('t, 'h) merkle_tree \<Rightarrow> bool" where
  "cache_ok H t \<longleftrightarrow> (\<forall>i h. fmlookup (mt_cache t) i = Some h \<longrightarrow> h = hash_at H t i) \<and> cache_closed t"

lemma cached_iff: "i \<in> cached t \<longleftrightarrow> fmlookup (mt_cache t) i \<noteq> None"
  by (auto simp: cached_def fmlookup_dom_iff)

lemma node_facts:
  assumes "shape_ok H t" "r < size (mt_nodes t)"
  shows "1 \<le> nd_index (mt_nodes t ! r)" "nd_depth (mt_nodes t ! r) = index_depth (nd_index (mt_nodes t ! r))"
    "index_depth (nd_index (mt_nodes t ! r)) \<le> mt_tree_depth t" "nd_index (mt_nodes t ! r) \<in> node_set t"
    "link_ok t (mt_nodes t ! r) d"
proof -
  have "mt_nodes t ! r \<in> set (mt_nodes t)"
    using assms(2) by simp
  then have "1 \<le> nd_index (mt_nodes t ! r) \<and> nd_depth (mt_nodes t ! r) = index_depth (nd_index (mt_nodes t ! r))
      \<and> nd_depth (mt_nodes t ! r) \<le> mt_tree_depth t" "link_ok t (mt_nodes t ! r) d"
      "nd_index (mt_nodes t ! r) \<in> node_set t"
    using assms(1) unfolding shape_ok_def node_set_def by blast+
  then show "1 \<le> nd_index (mt_nodes t ! r)" "nd_depth (mt_nodes t ! r) = index_depth (nd_index (mt_nodes t ! r))"
    "index_depth (nd_index (mt_nodes t ! r)) \<le> mt_tree_depth t" "nd_index (mt_nodes t ! r) \<in> node_set t"
    "link_ok t (mt_nodes t ! r) d"
    by simp_all
qed

lemma node_set_facts: "shape_ok H t \<Longrightarrow> i \<in> node_set t \<Longrightarrow> 1 \<le> i \<and> index_depth i \<le> mt_tree_depth t"
  by (auto simp: shape_ok_def node_set_def)

lemma leaf_item:
  assumes "tree_ok H t" "i \<in> node_set t" "index_depth i = mt_tree_depth t"
  shows "\<exists>x. fmlookup (mt_items t) (i - 2 ^ mt_tree_depth t) = Some x"
proof -
  have "i \<in> (\<lambda>x. 2 ^ mt_tree_depth t + x) ` fset (fmdom (mt_items t))"
    using assms unfolding tree_ok_def shape_ok_def leaves_ok_def by blast
  then show ?thesis
    by (auto simp: fmlookup_dom_iff)
qed

section \<open>Hashes of empty subtrees\<close>

lemma empty_full_hash:
  assumes "tree_ok H t" "1 \<le> i" "index_depth i + l = mt_tree_depth t" "\<forall>m \<in> node_set t. \<not> anc i m"
  shows "full_hash H (mt_items t) (mt_tree_depth t) l i = hd (prehash H l)"
  using assms(2-4)
proof (induction l arbitrary: i)
  case 0
  have "fmlookup (mt_items t) (i - 2 ^ mt_tree_depth t) = None"
  proof (rule ccontr)
    assume "\<not> ?thesis"
    then have "i - 2 ^ mt_tree_depth t \<in> fset (fmdom (mt_items t))"
      by (simp add: fmlookup_dom_iff)
    then have "2 ^ mt_tree_depth t + (i - 2 ^ mt_tree_depth t) \<in> node_set t"
      using assms(1) unfolding tree_ok_def shape_ok_def leaves_ok_def by blast
    moreover have "2 ^ mt_tree_depth t \<le> i"
      using index_depth_bounds [OF 0(1)] 0(2) by simp
    ultimately show False
      using 0(3) anc_refl [of i] by auto
  qed
  then show ?case
    by simp
next
  case (Suc l)
  have "full_hash H (mt_items t) (mt_tree_depth t) l (child_index d i) = hd (prehash H l)" for d
    by (rule Suc.IH) (use Suc.prems child_index_pos(1) [of i d] anc_child [of d i] in auto)
  then show ?case
    by (simp add: Let_def)
qed

lemma empty_hash_at:
  assumes "tree_ok H t" "1 \<le> i" "index_depth i \<le> mt_tree_depth t" "\<forall>m \<in> node_set t. \<not> anc i m"
  shows "hash_at H t i = hd (prehash H (mt_tree_depth t - index_depth i))"
  unfolding hash_at_def using assms by (intro empty_full_hash) simp_all

text \<open>Between a node and its child no other subtree has nodes.\<close>

lemma gap_sibling_empty:
  assumes t: "tree_ok H t" and n: "1 \<le> n" and c: "least_below (node_set t) (child_index d n) c"
    and j: "anc j c" "Suc (index_depth n) < index_depth j"
  shows "hash_at H t (sibling j) = hd (prehash H (mt_tree_depth t - index_depth j))"
proof -
  have j2: "2 \<le> j"
    using j(2) by (cases "j = 0 \<or> j = 1") (auto simp: index_depth.simps)
  then obtain e f where ef: "j = child_index e (j div 2)" "sibling j = child_index f (j div 2)"
    using sibling_child by blast
  have half: "1 \<le> j div 2" "index_depth j = Suc (index_depth (j div 2))"
    using j2 index_depth_step by auto
  have ch: "anc (child_index d n) c" "1 \<le> child_index d n" "index_depth (child_index d n) = Suc (index_depth n)"
    using c n child_index_pos by (simp_all add: least_below_def)
  have "anc (j div 2) j" "anc (j div 2) (sibling j)"
    using anc_child [of _ "j div 2"] ef anc_refl by metis+
  then have jc: "anc (child_index d n) (j div 2)"
    using anc_linear_depth [OF ch(2) half(1) ch(1)] anc_trans [of "j div 2" j c] j half(2) ch(3) by simp
  have none: "\<not> anc (sibling j) m" if "m \<in> node_set t" for m
  proof
    assume m: "anc (sibling j) m"
    then have "anc (child_index d n) m"
      using jc anc_trans \<open>anc (j div 2) (sibling j)\<close> by blast
    then have "anc j m"
      using c that j(1) anc_trans unfolding least_below_def by blast
    then show False
      using sibling_disjoint [OF j2] m by blast
  qed
  have d: "index_depth (sibling j) = index_depth j" "1 \<le> sibling j"
    using ef(2) half child_index_pos by simp_all
  have "index_depth j \<le> mt_tree_depth t"
    using anc_depth [of j c] j(1) j2 node_set_facts [OF tree_shape [OF t], of c] c by (simp add: least_below_def)
  then show ?thesis
    using empty_hash_at [OF t d(2)] d(1) none by simp
qed


section \<open>Filling gaps\<close>

lemma calculate_hash_Ok:
  "d < mt_tree_depth t \<Longrightarrow> calculate_hash H t d l r = Ok (compress H l r (mt_tree_depth t - d - 1))"
  by (simp add: calculate_hash_def calculate_level_def)

text \<open>A hash and that of its sibling, in their order, are those of the children of the parent.\<close>

lemma order_siblings:
  assumes "2 \<le> j"
  shows "order_elements (from_idx j) (f j) (f (sibling j)) = (f (child_index DirLeft (j div 2)), f (child_index DirRight (j div 2)))"
proof (cases "even j")
  case True
  then show ?thesis
    by (auto simp: from_idx_def sibling_def child_index.simps)
next
  case False
  then have "j = Suc (j div 2 * 2)" "j - Suc 0 = j div 2 * 2"
    by presburger+
  with False show ?thesis
    by (simp add: from_idx_def sibling_def child_index.simps)
qed

lemma fill_gap_ok:
  assumes t: "tree_ok H t" and n: "1 \<le> n" and c: "least_below (node_set t) (child_index d n) c"
    and i: "1 \<le> i" "anc (child_index d n) i" "anc i c"
  shows "\<exists>us. fill_gap H t (index_depth n) (index_depth i - 1) i (hash_at H t i) updates
      = Ok (hash_at H t (child_index d n), updates @ us)
    \<and> (\<forall>(j, h) \<in> set us. h = hash_at H t j) \<and> fst ` set us = {j. anc (child_index d n) j \<and> anc j i \<and> j \<noteq> i}"
  using i
proof (induction i arbitrary: updates rule: index_depth.induct)
  case (1 i)
  let ?D = "mt_tree_depth t" and ?k = "child_index d n"
  have k: "1 \<le> ?k" "index_depth ?k = Suc (index_depth n)"
    using n child_index_pos by simp_all
  show ?case
  proof (cases "i = ?k")
    case True
    then have "fill_gap H t (index_depth n) (index_depth i - 1) i (hash_at H t i) updates = Ok (hash_at H t ?k, updates)"
      using k by (subst fill_gap.simps) simp
    moreover have "\<not> (anc ?k j \<and> anc j i \<and> j \<noteq> i)" for j
      using True anc_antisym by blast
    ultimately show ?thesis
      by (intro exI [of _ "[]"]) auto
  next
    case False
    let ?p = "i div 2"
    have deep: "Suc (index_depth n) < index_depth i"
      using anc_proper_depth [OF k(1) 1(3)] False k(2) by auto
    then have i2: "2 \<le> i"
      using 1(2) by (cases "i = 1") auto
    have p: "1 \<le> ?p" "index_depth i = Suc (index_depth ?p)" "anc ?k ?p" "anc ?p c" "anc ?p i"
      using i2 index_depth_step 1(3,4) False anc_half [of ?k i] anc_half [of ?p i] anc_trans [of ?p i c] by auto
    have dc: "index_depth i \<le> ?D"
      using anc_depth [OF 1(2,4)] node_set_facts [OF tree_shape [OF t], of c] c by (simp add: least_below_def)
    have sib: "nth_opt (mt_prehashed t) (index_depth i) = Some (hash_at H t (sibling i))"
      using t prehash_nth [OF dc] gap_sibling_empty [OF t n c 1(4) deep] by (simp add: tree_ok_def shape_ok_def leaves_ok_def)
    have "fill_gap H t (index_depth n) (index_depth i - 1) i (hash_at H t i) updates
        = fill_gap H t (index_depth n) (index_depth ?p - 1) ?p (hash_at H t ?p) (updates @ [(?p, hash_at H t ?p)])"
      using deep p(2) dc sib order_siblings [OF i2, of "hash_at H t"] hash_at_step [OF p(1), of t H]
      by (subst fill_gap.simps) (simp add: calculate_hash_Ok Let_def)
    moreover have "1 < i"
      using i2 by simp
    note ih = 1(1) [OF this p(1,3,4), of "updates @ [(?p, hash_at H t ?p)]"]
    obtain us where us: "fill_gap H t (index_depth n) (index_depth ?p - 1) ?p (hash_at H t ?p) (updates @ [(?p, hash_at H t ?p)])
        = Ok (hash_at H t ?k, (updates @ [(?p, hash_at H t ?p)]) @ us)"
      "\<forall>(j, h) \<in> set us. h = hash_at H t j" "fst ` set us = {j. anc ?k j \<and> anc j ?p \<and> j \<noteq> ?p}"
      using ih by blast
    moreover have "insert ?p (fst ` set us) = {j. anc ?k j \<and> anc j i \<and> j \<noteq> i}"
    proof (rule set_eqI)
      fix j
      have "j \<noteq> i" if "anc j ?p"
        using anc_le [OF that] i2 by linarith
      then show "j \<in> insert ?p (fst ` set us) \<longleftrightarrow> j \<in> {j. anc ?k j \<and> anc j i \<and> j \<noteq> i}"
        unfolding us(3) using p(3) anc_half [of j i] by (cases "j = ?p") auto
    qed
    ultimately show ?thesis
      by (intro exI [of _ "(?p, hash_at H t ?p) # us"]) auto
  qed
qed

section \<open>The cached computation\<close>

definition hashes_ok :: "('t, 'h) hasher \<Rightarrow> ('t, 'h) merkle_tree \<Rightarrow> node_index \<Rightarrow> (node_index \<times> 'h) list \<Rightarrow> bool" where
  "hashes_ok H t i us \<longleftrightarrow> (\<forall>(j, h) \<in> set us. h = hash_at H t j \<and> relevant t j)
    \<and> (\<forall>j. anc i j \<longrightarrow> relevant t j \<longrightarrow> j \<in> cached t \<union> fst ` set us)"

lemma get_child_hash_ok:
  assumes t: "tree_ok H t" and ca: "cache_ok H t" and r: "r < size (mt_nodes t)"
    and deep: "index_depth (nd_index (mt_nodes t ! r)) < mt_tree_depth t"
    and IH: "\<And>c. c < size (mt_nodes t) \<Longrightarrow> index_depth (nd_index (mt_nodes t ! r)) < index_depth (nd_index (mt_nodes t ! c)) \<Longrightarrow>
      \<exists>us. f c = Some (Ok (hash_at H t (nd_index (mt_nodes t ! c)), us)) \<and> hashes_ok H t (nd_index (mt_nodes t ! c)) us"
  shows "\<exists>us. get_child_hash H t f (mt_nodes t ! r) d = Some (Ok (hash_at H t (child_index d (nd_index (mt_nodes t ! r))), us))
    \<and> hashes_ok H t (child_index d (nd_index (mt_nodes t ! r))) us"
proof -
  let ?n = "mt_nodes t ! r"
  let ?k = "child_index d (nd_index ?n)" and ?cr = "child_ref ?n d"
  have cr: "(case d of DirLeft \<Rightarrow> nd_left ?n | DirRight \<Rightarrow> nd_right ?n) = ?cr"
    by (cases d) simp_all
  have k: "1 \<le> ?k" "index_depth ?k = Suc (index_depth (nd_index ?n))"
    using node_facts(1) [OF tree_shape [OF t] r] child_index_pos by simp_all
  show ?thesis
  proof (cases "fmlookup (mt_cache t) ?k")
    case (Some h)
    then have "h = hash_at H t ?k" "\<forall>j. anc ?k j \<longrightarrow> relevant t j \<longrightarrow> j \<in> cached t"
      using ca by (auto simp: cache_ok_def cache_closed_def cached_iff)
    then show ?thesis
      using Some by (simp add: get_child_hash_def hashes_ok_def)
  next
    case nc: None
    show ?thesis
    proof (cases ?cr)
      case None
      then have none: "\<forall>m \<in> node_set t. \<not> anc ?k m"
        using node_facts(5) [OF tree_shape [OF t] r, of d] by (simp add: link_ok_def)
      then have "hashes_ok H t ?k []"
        using anc_trans [of ?k] by (auto simp: hashes_ok_def relevant_def)
      moreover have "nth_opt (mt_prehashed t) (nd_depth ?n + 1) = Some (hash_at H t ?k)"
        using t deep k prehash_nth [of "index_depth ?k" "mt_tree_depth t" H] empty_hash_at [OF t k(1) _ none] node_facts(2) [OF tree_shape [OF t] r]
        by (simp add: tree_ok_def shape_ok_def leaves_ok_def)
      ultimately show ?thesis
        using nc None cr by (simp add: get_child_hash_def)
    next
      case (Some c)
      let ?c = "nd_index (mt_nodes t ! c)"
      have c: "c < size (mt_nodes t)" "least_below (node_set t) ?k ?c"
        using node_facts(5) [OF tree_shape [OF t] r, of d] Some by (simp_all add: link_ok_def)
      have ck: "anc ?k ?c" "1 \<le> ?c"
        using c(2) node_facts(1) [OF tree_shape [OF t] c(1)] by (simp_all add: least_below_def)
      have dc: "index_depth (nd_index ?n) < index_depth ?c"
        using anc_depth [OF k(1) ck(1)] k(2) by simp
      then obtain us where us: "f c = Some (Ok (hash_at H t ?c, us))" "hashes_ok H t ?c us"
        using IH [OF c(1)] by blast
      obtain vs where vs: "fill_gap H t (index_depth (nd_index ?n)) (index_depth ?c - 1) ?c (hash_at H t ?c) us
            = Ok (hash_at H t ?k, us @ vs)"
          "\<forall>(j, h) \<in> set vs. h = hash_at H t j" "fst ` set vs = {j. anc ?k j \<and> anc j ?c \<and> j \<noteq> ?c}"
        using fill_gap_ok [OF t node_facts(1) [OF tree_shape [OF t] r] c(2) ck(2,1) anc_refl] by blast
      have "get_child_hash H t f ?n d = Some (Ok (hash_at H t ?k, us @ vs))"
        using nc Some cr c(1) us(1) vs(1) node_facts(2) [OF tree_shape [OF t] c(1)] node_facts(2) [OF tree_shape [OF t] r] dc
        by (simp add: get_child_hash_def calculate_child_hash_def nth_opt_def)
      moreover have "relevant t j" if "anc ?k j" "anc j ?c" for j
        using that c(2) anc_le [of ?k j] k(1) by (auto simp: relevant_def least_below_def)
      then have "\<forall>(j, h) \<in> set (us @ vs). h = hash_at H t j \<and> relevant t j"
      proof -
        have "anc ?k j \<and> anc j ?c" if "(j, h) \<in> set vs" for j h
          using image_eqI [of j fst "(j, h)" "set vs"] that unfolding vs(3) by simp
        then show ?thesis
          using us(2) vs(2) \<open>\<And>j. anc ?k j \<Longrightarrow> anc j ?c \<Longrightarrow> relevant t j\<close> unfolding hashes_ok_def by auto
      qed
      moreover have "j \<in> cached t \<union> fst ` set (us @ vs)" if j: "anc ?k j" "relevant t j" for j
      proof -
        obtain m where m: "m \<in> node_set t" "anc j m"
          using j(2) by (auto simp: relevant_def)
        then have "anc ?c m"
          using c(2) j(1) anc_trans unfolding least_below_def by blast
        then have "anc j ?c \<or> anc ?c j"
          using m(2) anc_linear by blast
        then consider "anc j ?c" "j \<noteq> ?c" | "anc ?c j"
          using anc_refl by metis
        then show ?thesis
        proof cases
          case 1
          then have "j \<in> fst ` set vs"
            unfolding vs(3) using j(1) by simp
          then show ?thesis
            by auto
        next
          case 2
          then have "j \<in> cached t \<union> fst ` set us"
            using us(2) j(2) unfolding hashes_ok_def by blast
          then show ?thesis
            by auto
        qed
      qed
      ultimately show ?thesis
        by (auto simp: hashes_ok_def)
    qed
  qed
qed

lemma get_hash_ok:
  assumes t: "tree_ok H t" and ca: "cache_ok H t" and r: "r < size (mt_nodes t)"
  shows "\<exists>us. get_hash H t r = Some (Ok (hash_at H t (nd_index (mt_nodes t ! r)), us))
    \<and> hashes_ok H t (nd_index (mt_nodes t ! r)) us"
  using r
proof (induction "mt_tree_depth t - index_depth (nd_index (mt_nodes t ! r))" arbitrary: r rule: less_induct)
  case less
  let ?n = "mt_nodes t ! r"
  let ?i = "nd_index ?n"
  note nf = node_facts [OF tree_shape [OF t] less.prems]
  have self: "relevant t ?i"
    using nf(1,4) anc_refl [of ?i] unfolding relevant_def by blast
  show ?case
  proof (cases "index_depth ?i = mt_tree_depth t")
    case True
    then obtain x where x: "fmlookup (mt_items t) (?i - 2 ^ mt_tree_depth t) = Some x"
      using leaf_item [OF t nf(4)] by blast
    then have "get_hash H t r = Some (Ok (hash_at H t ?i, [(?i, hash_at H t ?i)]))"
      using True nf(2) less.prems by (subst get_hash.simps) (simp add: nth_opt_def hash_at_def Let_def)
    moreover have "j = ?i" if "anc ?i j" "relevant t j" for j
    proof -
      obtain m where "m \<in> node_set t" "anc j m" "1 \<le> j"
        using \<open>relevant t j\<close> unfolding relevant_def by blast
      then have "index_depth j \<le> index_depth ?i"
        using anc_depth [of j m] node_set_facts [OF tree_shape [OF t], of m] True by simp
      then show ?thesis
        using anc_same_depth [OF nf(1) that(1)] by simp
    qed
    then have "hashes_ok H t ?i [(?i, hash_at H t ?i)]"
      using self by (simp add: hashes_ok_def)
    ultimately show ?thesis
      by blast
  next
    case False
    then have deep: "index_depth ?i < mt_tree_depth t"
      using nf(3) by simp
    have IH: "\<exists>us. get_hash H t c = Some (Ok (hash_at H t (nd_index (mt_nodes t ! c)), us)) \<and> hashes_ok H t (nd_index (mt_nodes t ! c)) us"
      if "c < size (mt_nodes t)" "index_depth ?i < index_depth (nd_index (mt_nodes t ! c))" for c
      using less.hyps [OF _ that(1)] that(2) deep node_facts(3) [OF tree_shape [OF t] that(1)] by simp
    obtain ls where ls: "get_child_hash H t (get_hash H t) ?n DirLeft = Some (Ok (hash_at H t (child_index DirLeft ?i), ls))"
        "hashes_ok H t (child_index DirLeft ?i) ls"
      using get_child_hash_ok [OF t ca less.prems deep IH] by blast
    obtain rs where rs: "get_child_hash H t (get_hash H t) ?n DirRight = Some (Ok (hash_at H t (child_index DirRight ?i), rs))"
        "hashes_ok H t (child_index DirRight ?i) rs"
      using get_child_hash_ok [OF t ca less.prems deep IH] by blast
    let ?us = "ls @ rs @ [(?i, hash_at H t ?i)]"
    have "get_hash H t r = Some (Ok (hash_at H t ?i, ?us))"
      using less.prems False nf(2) ls(1) rs(1) deep hash_at_step [OF nf(1) deep, of H]
      by (subst get_hash.simps) (simp add: nth_opt_def calculate_hash_Ok)
    moreover have "hashes_ok H t ?i ?us"
      unfolding hashes_ok_def
    proof (intro conjI allI impI)
      show "\<forall>(j, h) \<in> set ?us. h = hash_at H t j \<and> relevant t j"
        using ls(2) rs(2) self unfolding hashes_ok_def by auto
      fix j
      assume j: "anc ?i j" "relevant t j"
      show "j \<in> cached t \<union> fst ` set ?us"
      proof (cases "j = ?i")
        case False
        then obtain d where "anc (child_index d ?i) j"
          using anc_step [OF j(1)] by auto
        then show ?thesis
          using ls(2) rs(2) j(2) by (cases d) (auto simp: hashes_ok_def)
      qed simp
    qed
    ultimately show ?thesis
      by blast
  qed
qed


section \<open>The root hash\<close>

lemma store_hashes_lookup:
  assumes "\<forall>(j, h) \<in> set us. h = f j"
  shows "fmlookup (store_hashes K us) i = (if i \<in> fst ` set us then Some (f i) else fmlookup K i)"
  using assms
proof (induction us arbitrary: K)
  case (Cons u us)
  then show ?case
    by (cases u) (auto simp: store_hashes_def)
qed (simp add: store_hashes_def)

lemma node_set_cache [simp]: "node_set (t\<lparr>mt_cache := K\<rparr>) = node_set t"
  by (simp add: node_set_def)

lemma link_ok_cache [simp]: "link_ok (t\<lparr>mt_cache := K\<rparr>) n d = link_ok t n d"
  unfolding link_ok_def node_set_cache by (simp split: option.split)

lemma shape_ok_cache [simp]: "shape_ok H (t\<lparr>mt_cache := K\<rparr>) = shape_ok H t"
  by (simp add: shape_ok_def)

lemma leaves_ok_cache [simp]: "leaves_ok N (t\<lparr>mt_cache := K\<rparr>) = leaves_ok N t"
  by (simp add: leaves_ok_def)

lemma tree_ok_cache [simp]: "tree_ok H (t\<lparr>mt_cache := K\<rparr>) = tree_ok H t"
  by (simp add: tree_ok_def)

lemma relevant_cache [simp]: "relevant (t\<lparr>mt_cache := K\<rparr>) = relevant t"
  by (simp add: relevant_def fun_eq_iff)

lemma hash_at_cache [simp]: "hash_at H (t\<lparr>mt_cache := K\<rparr>) = hash_at H t"
  by (simp add: hash_at_def fun_eq_iff)

text \<open>All that can be cached is.\<close>

definition cache_full :: "('t, 'h) merkle_tree \<Rightarrow> bool" where
  "cache_full t \<longleftrightarrow> (\<forall>j. relevant t j \<longrightarrow> j \<in> cached t)"

lemma root_hash_ok:
  assumes t: "tree_ok H t" and ca: "cache_ok H t"
  shows "\<exists>K. root_hash H t = Some (Ok (reference_root H (mt_tree_depth t) (mt_items t), t\<lparr>mt_cache := K\<rparr>))
    \<and> cache_ok H (t\<lparr>mt_cache := K\<rparr>) \<and> cache_full (t\<lparr>mt_cache := K\<rparr>)"
proof -
  have root: "0 < size (mt_nodes t)" "nd_index (mt_nodes t ! 0) = 1"
    using t by (simp_all add: tree_ok_def shape_ok_def leaves_ok_def)
  obtain us where us: "get_hash H t 0 = Some (Ok (hash_at H t 1, us))" "hashes_ok H t 1 us"
    using get_hash_ok [OF t ca root(1)] root(2) by auto
  let ?K = "store_hashes (mt_cache t) us"
  let ?t = "t\<lparr>mt_cache := ?K\<rparr>"
  have look: "fmlookup ?K i = (if i \<in> fst ` set us then Some (hash_at H t i) else fmlookup (mt_cache t) i)" for i
    using us(2) by (intro store_hashes_lookup) (auto simp: hashes_ok_def)
  have mem: "i \<in> cached ?t \<longleftrightarrow> i \<in> cached t \<union> fst ` set us" for i
    by (auto simp: cached_iff look)
  have all: "j \<in> cached ?t" if "relevant t j" for j
    using us(2) that anc_root mem by (auto simp: hashes_ok_def relevant_def)
  moreover have "relevant t i" if "i \<in> cached ?t" for i
    using us(2) ca that mem by (auto simp: hashes_ok_def cache_ok_def cache_closed_def)
  moreover have "h = hash_at H t i" if "fmlookup ?K i = Some h" for i h
    using that ca look by (auto simp: cache_ok_def cache_closed_def split: if_splits)
  ultimately have "cache_ok H ?t"
    by (simp add: cache_ok_def cache_closed_def)
  moreover have "cache_full ?t"
    using all by (simp add: cache_full_def)
  ultimately show ?thesis
    using us(1) hash_at_root [of H t] by (auto simp: root_hash_def)
qed

section \<open>Proofs of existence\<close>

text \<open>How a proof is checked: from the hash of the item up to the root.\<close>

fun fold_proof :: "('t, 'h) hasher \<Rightarrow> nat \<Rightarrow> 'h \<Rightarrow> ('h \<times> bool) list \<Rightarrow> 'h" where
  "fold_proof H level cur [] = cur"
| "fold_proof H level cur ((h, dir) # ps) =
     fold_proof H (level + 1) (if dir then compress H h cur level else compress H cur h level) ps"

text \<open>The index that the directions of a proof spell.\<close>

fun proof_index :: "('h \<times> bool) list \<Rightarrow> nat" where
  "proof_index [] = 0"
| "proof_index ((h, dir) # ps) = 2 * proof_index ps + (if dir then 1 else 0)"

lemma neighbor_hash:
  assumes t: "tree_ok H t" and ca: "cache_ok H t" and full: "cache_full t"
    and i: "2 \<le> i" "index_depth i \<le> mt_tree_depth t"
  shows "get_calculated_node_hash t (index_depth i) i = Ok (hash_at H t (sibling i), odd i)"
proof -
  obtain e where e: "sibling i = child_index e (i div 2)"
    using sibling_child [OF i(1)] by blast
  have s: "1 \<le> sibling i" "index_depth (sibling i) = index_depth i"
    using i(1) child_index_pos(1) [of "i div 2" e] by (simp_all add: e index_depth_step [OF i(1)])
  have "(case fmlookup (mt_cache t) (sibling i) of Some h \<Rightarrow> Ok h | None \<Rightarrow> expect (nth_opt (mt_prehashed t) (index_depth i)))
      = (Ok (hash_at H t (sibling i)) :: (unit, _) res)"
  proof (cases "fmlookup (mt_cache t) (sibling i)")
    case (Some h)
    then show ?thesis
      using ca by (simp add: cache_ok_def cache_closed_def)
  next
    case None
    then have "\<not> relevant t (sibling i)"
      using full by (auto simp: cache_full_def cached_iff)
    then have "hash_at H t (sibling i) = hd (prehash H (mt_tree_depth t - index_depth i))"
      using empty_hash_at [OF t s(1)] s i(2) by (simp add: relevant_def)
    moreover have "nth_opt (mt_prehashed t) (index_depth i) = Some (hd (prehash H (mt_tree_depth t - index_depth i)))"
      using t prehash_nth [OF i(2)] by (simp add: tree_ok_def shape_ok_def leaves_ok_def)
    ultimately show ?thesis
      using None by simp
  qed
  then show ?thesis
    by (simp add: get_calculated_node_hash_def Let_def sibling_def)
qed

lemma path_up_ok:
  assumes t: "tree_ok H t" and ca: "cache_ok H t" and full: "cache_full t"
    and i: "1 \<le> i" "index_depth i = d" "d \<le> mt_tree_depth t"
  shows "\<exists>ps. path_up t d i = Ok ps \<and> size ps = d \<and> proof_index ps = i - 2 ^ d
    \<and> fold_proof H (mt_tree_depth t - d) (hash_at H t i) ps = hash_at H t 1"
  using i
proof (induction d arbitrary: i)
  case 0
  then have "i = 1"
    using index_depth_bounds [of i] by simp
  then show ?case
    by simp
next
  case (Suc d)
  have i2: "2 \<le> i"
    using Suc.prems by (cases "i = 1") auto
  let ?p = "i div 2"
  have p: "1 \<le> ?p" "index_depth ?p = d"
    using i2 Suc.prems(2) by (simp_all add: index_depth_step)
  obtain ps where ps: "path_up t d ?p = Ok ps" "size ps = d" "proof_index ps = ?p - 2 ^ d"
      "fold_proof H (mt_tree_depth t - d) (hash_at H t ?p) ps = hash_at H t 1"
    using Suc.IH [OF p] Suc.prems(3) by auto
  have nb: "get_calculated_node_hash t (Suc d) i = Ok (hash_at H t (sibling i), odd i)"
    using neighbor_hash [OF t ca full i2] Suc.prems(2,3) by simp
  have up: "(if odd i then compress H (hash_at H t (sibling i)) (hash_at H t i) (mt_tree_depth t - Suc d)
      else compress H (hash_at H t i) (hash_at H t (sibling i)) (mt_tree_depth t - Suc d)) = hash_at H t ?p"
    using hash_at_step [OF p(1), of t H] p(2) Suc.prems(3) order_siblings [OF i2, of "hash_at H t"]
    by (auto simp: from_idx_def)
  have "2 ^ d \<le> ?p"
    using index_depth_bounds [OF p(1)] p(2) by simp
  moreover have "2 * (?p - q) + (if odd i then 1 else 0) = i - 2 * q" if "q \<le> ?p" for q :: nat
    using that by (cases "even i") (simp_all, presburger+)
  ultimately have "2 * (?p - 2 ^ d) + (if odd i then 1 else 0) = i - 2 ^ Suc d"
    by simp
  then have "proof_index ((hash_at H t (sibling i), odd i) # ps) = i - 2 ^ Suc d"
    using ps(3) by simp
  moreover have "Suc (mt_tree_depth t - Suc d) = mt_tree_depth t - d"
    using Suc.prems(3) by simp
  then have "fold_proof H (mt_tree_depth t - Suc d) (hash_at H t i) ((hash_at H t (sibling i), odd i) # ps) = hash_at H t 1"
    using ps(4) up by simp
  moreover have "path_up t (Suc d) i = Ok ((hash_at H t (sibling i), odd i) # ps)"
    using nb ps(1) by simp
  ultimately show ?case
    using ps(2) by (metis length_Cons)
qed

lemma merkle_path_ok:
  assumes t: "tree_ok H t" and ca: "cache_ok H t" and x: "x < capacity t"
  shows "\<exists>ps K. merkle_path H t x = Some (Ok (ps, t\<lparr>mt_cache := K\<rparr>)) \<and> cache_ok H (t\<lparr>mt_cache := K\<rparr>)
    \<and> size ps = mt_tree_depth t \<and> proof_index ps = x
    \<and> fold_proof H 0 (hash_bits H (item_bits H (case merkle_get t x of Some y \<Rightarrow> y | None \<Rightarrow> default_item H))) ps
      = reference_root H (mt_tree_depth t) (mt_items t)"
proof -
  obtain K where K: "root_hash H t = Some (Ok (reference_root H (mt_tree_depth t) (mt_items t), t\<lparr>mt_cache := K\<rparr>))"
    "cache_ok H (t\<lparr>mt_cache := K\<rparr>)" "cache_full (t\<lparr>mt_cache := K\<rparr>)"
    using root_hash_ok [OF t ca] by blast
  let ?t = "t\<lparr>mt_cache := K\<rparr>" and ?i = "2 ^ mt_tree_depth t + x"
  have i: "index_depth ?i = mt_tree_depth t" "1 \<le> ?i"
    using leaf_depth x by (simp_all add: capacity_def)
  obtain ps where ps: "path_up ?t (mt_tree_depth t) ?i = Ok ps" "size ps = mt_tree_depth t" "proof_index ps = x"
      "fold_proof H 0 (hash_at H t ?i) ps = hash_at H t 1"
    using path_up_ok [of H ?t ?i "mt_tree_depth t"] t K(2,3) i by auto
  have "hash_at H t ?i = hash_bits H (item_bits H (case merkle_get t x of Some y \<Rightarrow> y | None \<Rightarrow> default_item H))"
    using i(1) by (simp add: hash_at_def merkle_get_def)
  then show ?thesis
    using K(1,2) ps x hash_at_root [of H t] by (auto simp: merkle_path_def)
qed

end
