(* ===== verification/MerkleInsert.thy ===== *)
theory MerkleInsert
  imports MerkleHash
begin

text \<open>
  Insertion and removal in the Merkle tree keep the invariant: the walk down the tree takes the hash of
  every ancestor of the changed leaf out of the cache and nothing else, and the new nodes are where
  the invariant wants them.
\<close>

section \<open>Hashes off the path\<close>

lemma full_hash_other:
  assumes "1 \<le> i" "index_depth i + l = D" "x < 2 ^ D" "\<not> anc i (2 ^ D + x)" "D > 0"
  shows "full_hash H (fmupd x y items) D l i = full_hash H items D l i"
  using assms
proof (induction l arbitrary: i)
  case 0
  have "2 ^ D \<le> i"
    using index_depth_bounds [OF 0(1)] 0(2) by simp
  then have "i - 2 ^ D \<noteq> x"
    using 0(4) anc_refl by (metis le_add_diff_inverse)
  then show ?case
    by simp
next
  case (Suc l)
  have "full_hash H (fmupd x y items) D l (child_index d i) = full_hash H items D l (child_index d i)" for d
    by (rule Suc.IH) (use Suc.prems child_index_pos(1) [of i d] anc_child [of d i] in auto)
  then show ?case
    by simp
qed

section \<open>The walk\<close>

definition walk_inv :: "('t, 'h) hasher \<Rightarrow> ('t, 'h) merkle_tree \<Rightarrow> node_index \<Rightarrow> nat \<Rightarrow> bool" where
  "walk_inv H t leaf b \<longleftrightarrow> shape_ok H t \<and> leaves_ok (insert leaf (node_set t)) t \<and> cache_closed t
    \<and> 1 \<le> leaf \<and> index_depth leaf = mt_tree_depth t
    \<and> (\<forall>i h. fmlookup (mt_cache t) i = Some h \<longrightarrow> \<not> anc i leaf \<longrightarrow> h = hash_at H t i)
    \<and> (\<forall>i \<in> cached t. anc i leaf \<longrightarrow> b < index_depth i)"

lemma walk_inv_parts:
  assumes "walk_inv H t leaf b"
  shows "shape_ok H t" "cache_closed t" "1 \<le> leaf" "index_depth leaf = mt_tree_depth t"
    "i \<in> cached t \<Longrightarrow> anc i leaf \<Longrightarrow> b < index_depth i"
  using assms by (simp_all add: walk_inv_def)

lemma cached_pos: "cache_closed t \<Longrightarrow> i \<in> cached t \<Longrightarrow> 1 \<le> i \<and> relevant t i"
  by (auto simp: cache_closed_def relevant_def)

lemma wipe_cache_lookup:
  assumes closed: "cache_closed t" and rel: "relevant t c" and n: "1 \<le> n" "anc n c" "n \<noteq> c"
  shows "\<exists>K. wipe_cache t c n = t\<lparr>mt_cache := K\<rparr>
    \<and> (\<forall>j. fmlookup K j = (if anc j c \<and> n < j then None else fmlookup (mt_cache t) j))"
proof (cases "fmlookup (mt_cache t) c")
  case None
  have "fmlookup (mt_cache t) j = None" if "anc j c" for j
    using closed rel that None cached_iff unfolding cache_closed_def by metis
  then show ?thesis
    using None by (auto simp: wipe_cache_def intro!: exI [of _ "mt_cache t"])
next
  case (Some h)
  have "anc n (c div 2)"
    using n anc_half by blast
  note w = wipe_up_lookup [OF n(1) this, of "fmdrop c (mt_cache t)"]
  have "n < c"
    using anc_le [OF n(2)] n(3) by simp
  then have "fmlookup (wipe_up (fmdrop c (mt_cache t)) (c div 2) n) j
      = (if anc j c \<and> n < j then None else fmlookup (mt_cache t) j)" for j
    using w [of j] anc_half [of j c] by auto
  then show ?thesis
    using Some by (auto simp: wipe_cache_def intro!: exI [of _ "wipe_up (fmdrop c (mt_cache t)) (c div 2) n"])
qed

text \<open>Wiping up to the ancestor @c@ of the leaf moves the bound of the walk to it.\<close>

lemma wipe_walk_inv:
  assumes inv: "walk_inv H t leaf (index_depth n)" and n: "1 \<le> n" "anc n c" "n \<noteq> c"
    and c: "anc c leaf" "relevant t c"
  shows "\<exists>K. wipe_cache t c n = t\<lparr>mt_cache := K\<rparr> \<and> walk_inv H (t\<lparr>mt_cache := K\<rparr>) leaf (index_depth c)"
proof -
  note w = walk_inv_parts [OF inv]
  obtain K where K: "wipe_cache t c n = t\<lparr>mt_cache := K\<rparr>"
    "\<And>j. fmlookup K j = (if anc j c \<and> n < j then None else fmlookup (mt_cache t) j)"
    using wipe_cache_lookup [OF w(2) c(2) n] by blast
  let ?t = "t\<lparr>mt_cache := K\<rparr>"
  have mem: "j \<in> cached ?t \<longleftrightarrow> j \<in> cached t \<and> \<not> (anc j c \<and> n < j)" for j
    by (simp add: cached_iff K(2))
  have c1: "1 \<le> c"
    using c(2) by (simp add: relevant_def)
  have nl: "anc n leaf"
    using n(2) c(1) anc_trans by blast
  have deeper: "n < j" if "j \<in> cached t" "anc j leaf" for j
  proof -
    have "1 \<le> j" "index_depth n < index_depth j"
      using that w(5) cached_pos [OF w(2)] by auto
    then have "anc n j" "n \<noteq> j"
      using anc_linear_depth [OF n(1) _ nl that(2)] by auto
    then show ?thesis
      using anc_le by (simp add: le_neq_implies_less)
  qed
  have bound: "index_depth c < index_depth j" if "j \<in> cached ?t" "anc j leaf" for j
  proof (rule ccontr)
    assume "\<not> ?thesis"
    then have "anc j c"
      using anc_linear_depth [OF _ c1 that(2) c(1)] cached_pos [OF w(2)] that(1) mem by simp
    then show False
      using deeper that mem by blast
  qed
  have "cache_closed ?t"
    unfolding cache_closed_def
  proof (intro ballI conjI allI impI)
    fix i assume i: "i \<in> cached ?t"
    then show "relevant ?t i"
      using w(2) mem by (simp add: cache_closed_def)
    fix j assume j: "anc i j" "relevant ?t j"
    then have "j \<in> cached t"
      using i w(2) mem unfolding cache_closed_def relevant_cache by blast
    moreover have "\<not> (anc j c \<and> n < j)"
    proof
      assume "anc j c \<and> n < j"
      then have "anc i c"
        using j(1) anc_trans by blast
      then show False
        using deeper [of i] i mem c(1) anc_trans by blast
    qed
    ultimately show "j \<in> cached ?t"
      using mem by simp
  qed
  then have "walk_inv H ?t leaf (index_depth c)"
    using inv bound K(2) by (simp add: walk_inv_def)
  then show ?thesis
    using K(1) by blast
qed

text \<open>When no ancestor of the leaf is cached, and the nodes are in place, the tree is sound again.\<close>

lemma walk_end:
  assumes inv: "walk_inv H t leaf b" and none: "\<And>i. i \<in> cached t \<Longrightarrow> \<not> anc i leaf"
    and t': "t' = t\<lparr>mt_nodes := ns\<rparr>" "shape_ok H t'" "node_set t' = node_set t \<union> S" "leaf \<in> node_set t'"
    and S: "\<And>m. m \<in> S \<Longrightarrow> anc m leaf"
  shows "tree_ok H t' \<and> cache_ok H t'"
proof -
  note w = walk_inv_parts [OF inv]
  have same: "hash_at H t' = hash_at H t" "cached t' = cached t" "mt_cache t' = mt_cache t"
    by (simp_all add: t'(1) hash_at_def cached_def fun_eq_iff)
  have "i = leaf" if "i \<in> S" "index_depth i = mt_tree_depth t" for i
  proof -
    have "1 \<le> i"
      using that(2) inv t'(2,3) that(1) node_set_facts [OF t'(2), of i] by simp
    then show ?thesis
      using anc_same_depth [OF _ S [OF that(1)]] that(2) w(4) by simp
  qed
  then have "{i \<in> node_set t'. index_depth i = mt_tree_depth t} = {i \<in> insert leaf (node_set t). index_depth i = mt_tree_depth t}"
    using t'(3,4) by blast
  then have "leaves_ok (node_set t') t'"
    using inv by (simp add: walk_inv_def leaves_ok_def t'(1))
  moreover have "cache_closed t'"
    unfolding cache_closed_def same(2)
  proof (intro ballI conjI allI impI)
    fix i assume i: "i \<in> cached t"
    then have "relevant t i"
      using w(2) by (simp add: cache_closed_def)
    then show "relevant t' i"
      using t'(3) by (auto simp: relevant_def)
    fix j assume j: "anc i j" "relevant t' j"
    then obtain m where m: "m \<in> node_set t'" "anc j m" "1 \<le> j"
      by (auto simp: relevant_def)
    then have "m \<notin> S"
      using none [OF i] S [of m] j(1) anc_trans by blast
    then have "relevant t j"
      using m t'(3) by (auto simp: relevant_def)
    then show "j \<in> cached t"
      using w(2) i j(1) unfolding cache_closed_def by blast
  qed
  moreover have "h = hash_at H t' i" if "fmlookup (mt_cache t') i = Some h" for i h
    using that none inv by (simp add: same walk_inv_def cached_iff)
  ultimately show ?thesis
    using t'(2) by (simp add: tree_ok_def cache_ok_def)
qed

section \<open>Links after adding nodes\<close>

lemma node_eq:
  assumes "shape_ok H t" "q < size (mt_nodes t)" "r < size (mt_nodes t)" "nd_index (mt_nodes t ! q) = nd_index (mt_nodes t ! r)"
  shows "q = r"
  using assms nth_eq_iff_index_eq [of "map nd_index (mt_nodes t)" q r] by (simp add: shape_ok_def)

text \<open>A link of another place is untouched by new nodes @S@ below the place @(r, d)@.\<close>

lemma old_link:
  assumes t: "shape_ok H t" and r: "r < size (mt_nodes t)" and q: "q < size (mt_nodes t)"
    and ne: "(q, e) \<noteq> (r, d)"
    and below: "\<And>m. m \<in> S \<Longrightarrow> anc (child_index d (nd_index (mt_nodes t ! r))) m"
    and blocked: "\<And>i m. i \<in> node_set t \<Longrightarrow> anc (child_index d (nd_index (mt_nodes t ! r))) i \<Longrightarrow> m \<in> S \<Longrightarrow> \<not> anc i m"
    and link: "link_ok t (mt_nodes t ! q) e"
    and t': "node_set t' = node_set t \<union> S" "size (mt_nodes t) \<le> size (mt_nodes t')"
      "\<And>q. q < size (mt_nodes t) \<Longrightarrow> nd_index (mt_nodes t' ! q) = nd_index (mt_nodes t ! q)"
      "child_ref n' e = child_ref (mt_nodes t ! q) e" "nd_index n' = nd_index (mt_nodes t ! q)"
  shows "link_ok t' n' e"
proof -
  let ?i = "nd_index (mt_nodes t ! q)" and ?n = "nd_index (mt_nodes t ! r)"
  let ?k = "child_index e ?i" and ?h = "child_index d ?n"
  have pos: "1 \<le> ?i" "1 \<le> ?n" "1 \<le> ?k" "1 \<le> ?h" "index_depth ?k = Suc (index_depth ?i)" "index_depth ?h = Suc (index_depth ?n)"
    "?n \<in> node_set t" "?i \<in> node_set t"
    using node_facts [OF t q] node_facts [OF t r] child_index_pos by simp_all
  have above: "anc ?k ?n" if m: "m \<in> S" "anc ?k m" for m
  proof (cases "index_depth ?i < index_depth ?n")
    case True
    then show ?thesis
      using anc_linear_depth [OF pos(3,2) m(2) anc_child [OF below [OF m(1)]]] pos(5) by simp
  next
    case False
    have im: "anc ?i m"
      using anc_child [OF m(2)] .
    show ?thesis
    proof (cases "?i = ?n")
      case True
      then have "q = r"
        using node_eq [OF t q r] by simp
      moreover have "e = d"
        using anc_child_unique [OF pos(1) m(2)] below [OF m(1)] True by simp
      ultimately show ?thesis
        using ne by simp
    next
      case ne: False
      then have "anc ?n ?i" "index_depth ?n < index_depth ?i"
        using anc_linear_depth [OF pos(2,1) anc_child [OF below [OF m(1)]] im] False anc_proper_depth [OF pos(2)] by auto
      then have "anc ?h ?i"
        using anc_linear_depth [OF pos(4,1) below [OF m(1)] im] pos(6) by simp
      then show ?thesis
        using blocked [OF pos(8) _ m(1)] im by blast
    qed
  qed
  show ?thesis
  proof (cases "child_ref (mt_nodes t ! q) e")
    case None
    then have "\<forall>m \<in> node_set t. \<not> anc ?k m"
      using link by (simp add: link_ok_def)
    then show ?thesis
      using None above pos(7) t' by (auto simp: link_ok_def)
  next
    case (Some c)
    then have c: "c < size (mt_nodes t)" "least_below (node_set t) ?k (nd_index (mt_nodes t ! c))"
      using link by (simp_all add: link_ok_def)
    then have "anc (nd_index (mt_nodes t ! c)) m" if "m \<in> S" "anc ?k m" for m
      using above [OF that] pos(7) anc_child [OF below [OF that(1)]] anc_trans unfolding least_below_def by blast
    then show ?thesis
      using Some c t' by (auto simp: link_ok_def least_below_def)
  qed
qed


section \<open>Adding nodes\<close>

fun set_child :: "node \<Rightarrow> node_direction \<Rightarrow> nat \<Rightarrow> node" where
  "set_child n DirLeft c = n\<lparr>nd_left := Some c\<rparr>"
| "set_child n DirRight c = n\<lparr>nd_right := Some c\<rparr>"

lemma set_child_simps [simp]:
  "nd_index (set_child n d c) = nd_index n" "nd_depth (set_child n d c) = nd_depth n"
  "child_ref (set_child n d c) e = (if e = d then Some c else child_ref n e)"
  by (cases d; cases e; simp)+

lemma add_child_node_eq:
  "r < size (mt_nodes t) \<Longrightarrow> add_child_node t r d c = Ok (t\<lparr>mt_nodes := (mt_nodes t)[r := set_child (mt_nodes t ! r) d c]\<rparr>)"
  by (cases d) (simp_all add: add_child_node_def nth_opt_def)

lemma attach_shape:
  assumes t: "shape_ok H t" and r: "r < size (mt_nodes t)"
    and t': "t' = t\<lparr>mt_nodes := (mt_nodes t @ new)[r := set_child (mt_nodes t ! r) d c]\<rparr>"
    and new: "\<And>x. x \<in> set new \<Longrightarrow> 1 \<le> nd_index x \<and> nd_depth x = index_depth (nd_index x) \<and> nd_depth x \<le> mt_tree_depth t"
      "\<And>x. x \<in> set new \<Longrightarrow> anc (child_index d (nd_index (mt_nodes t ! r))) (nd_index x)"
      "\<And>x. x \<in> set new \<Longrightarrow> nd_index x \<notin> node_set t" "distinct (map nd_index new)"
    and blocked: "\<And>i x. i \<in> node_set t \<Longrightarrow> anc (child_index d (nd_index (mt_nodes t ! r))) i \<Longrightarrow> x \<in> set new \<Longrightarrow> \<not> anc i (nd_index x)"
    and c: "size (mt_nodes t) \<le> c" "c < size (mt_nodes t) + size new"
      "least_below (node_set t \<union> nd_index ` set new) (child_index d (nd_index (mt_nodes t ! r))) (nd_index (new ! (c - size (mt_nodes t))))"
    and links: "\<And>x e. x \<in> set new \<Longrightarrow> link_ok t' x e"
  shows "shape_ok H t' \<and> node_set t' = node_set t \<union> nd_index ` set new"
proof -
  let ?ns = "mt_nodes t" and ?ns' = "mt_nodes t'"
  have idx: "map nd_index ?ns' = map nd_index ?ns @ map nd_index new"
    using r by (simp add: t' map_update list_update_append) (metis list_update_id nth_map)
  have size: "size ?ns' = size ?ns + size new"
    by (simp add: t')
  have at: "nd_index (?ns' ! q) = (if q < size ?ns then nd_index (?ns ! q) else nd_index (new ! (q - size ?ns)))"
    if "q < size ?ns'" for q
    using that size arg_cong [OF idx, of "\<lambda>xs. xs ! q"] by (simp add: nth_append)
  have N: "node_set t' = node_set t \<union> nd_index ` set new"
    using arg_cong [OF idx, of set] by (simp add: node_set_def)
  have node: "?ns' ! q = (if q = r then set_child (?ns ! r) d c else if q < size ?ns then ?ns ! q else new ! (q - size ?ns))"
    if "q < size ?ns'" for q
    using that r by (auto simp: t' nth_list_update nth_append)
  have link: "link_ok t' (?ns' ! q) e" if q: "q < size ?ns'" for q e
  proof (cases "q < size ?ns")
    case False
    then have "?ns' ! q = new ! (q - size ?ns)" "q - size ?ns < size new"
      using node [OF q] q size r by simp_all
    then show ?thesis
      using links by simp
  next
    case old: True
    show ?thesis
    proof (cases "(q, e) = (r, d)")
      case True
      have "c < size ?ns'" "nd_index (?ns' ! c) = nd_index (new ! (c - size ?ns))"
        using at [of c] c(1,2) size by simp_all
      then show ?thesis
        using True node [OF q] c(3) N by (simp add: link_ok_def)
    next
      case ne: False
      show ?thesis
        by (rule old_link [OF t r old ne, where S = "nd_index ` set new"])
          (use new(2) blocked node_facts(5) [OF t old] N size at node [OF q] old ne in auto)
    qed
  qed
  have "1 \<le> nd_index x \<and> nd_depth x = index_depth (nd_index x) \<and> nd_depth x \<le> mt_tree_depth t" if x: "x \<in> set ?ns'" for x
  proof -
    obtain q where q: "q < size ?ns'" "x = ?ns' ! q"
      using x by (metis in_set_conv_nth)
    show ?thesis
    proof (cases "q < size ?ns")
      case True
      then show ?thesis
        using q(2) node [OF q(1)] node_facts [OF t True] by (auto split: if_splits)
    next
      case False
      then have "x \<in> set new"
        using q node [OF q(1)] size r by simp
      then show ?thesis
        using new(1) by blast
    qed
  qed
  moreover have "set (map nd_index ?ns) \<inter> set (map nd_index new) = {}"
  proof (rule equals0I)
    fix i assume "i \<in> set (map nd_index ?ns) \<inter> set (map nd_index new)"
    then have i: "i \<in> node_set t" "i \<in> nd_index ` set new"
      by (simp_all add: node_set_def)
    from i(2) obtain x where "x \<in> set new" "i = nd_index x" ..
    then show False
      using new(3) i(1) by simp
  qed
  then have "distinct (map nd_index ?ns')"
    unfolding idx using t new(4) by (simp add: shape_ok_def)
  moreover have "?ns' \<noteq> []" "nd_index (?ns' ! 0) = 1"
    using size r at [of 0] t by (auto simp: shape_ok_def)
  moreover have "\<forall>x \<in> set ?ns'. \<forall>e. link_ok t' x e"
    using link by (metis in_set_conv_nth)
  moreover have "mt_tree_depth t' = mt_tree_depth t" "mt_root t' = mt_root t" "mt_prehashed t' = mt_prehashed t"
    by (simp_all add: t')
  ultimately have "shape_ok H t'"
    using t unfolding shape_ok_def by metis
  then show ?thesis
    using N by simp
qed

text \<open>A leaf under a node that has no child in that direction.\<close>

lemma attach_leaf:
  assumes t: "shape_ok H t" and r: "r < size (mt_nodes t)"
    and leaf: "1 \<le> leaf" "index_depth leaf = mt_tree_depth t" "anc (child_index d (nd_index (mt_nodes t ! r))) leaf"
    and empty: "child_ref (mt_nodes t ! r) d = None"
    and t': "t' = t\<lparr>mt_nodes := (mt_nodes t @ [\<lparr>nd_depth = mt_tree_depth t, nd_index = leaf, nd_left = None, nd_right = None\<rparr>])
        [r := set_child (mt_nodes t ! r) d (size (mt_nodes t))]\<rparr>"
  shows "shape_ok H t' \<and> node_set t' = node_set t \<union> {leaf}"
proof -
  let ?new = "[\<lparr>nd_depth = mt_tree_depth t, nd_index = leaf, nd_left = None, nd_right = None\<rparr>]"
  let ?k = "child_index d (nd_index (mt_nodes t ! r))"
  have none: "\<not> anc ?k m" if "m \<in> node_set t" for m
    using node_facts(5) [OF t r, of d] empty that by (simp add: link_ok_def)
  have N: "node_set t' \<subseteq> node_set t \<union> {leaf}"
    using r set_update_subset_insert by (fastforce simp: t' node_set_def)
  have deep: "\<not> anc (child_index e leaf) m" if "m \<in> node_set t'" for e m
  proof
    assume "anc (child_index e leaf) m"
    then have "mt_tree_depth t < index_depth m"
      using anc_depth child_index_pos(1) [OF leaf(1)] leaf(1,2) by fastforce
    then show False
      using that N node_set_facts [OF t, of m] leaf(2) by auto
  qed
  have "shape_ok H t' \<and> node_set t' = node_set t \<union> nd_index ` set ?new"
  proof (rule attach_shape [OF t r t'])
    show "link_ok t' x e" if "x \<in> set ?new" for x e
      using that deep by (cases e) (auto simp: link_ok_def)
  qed (use leaf none in \<open>auto simp: least_below_def\<close>)
  then show ?thesis
    by simp
qed


section \<open>Splitting a link\<close>

definition other_direction :: "node_direction \<Rightarrow> node_direction" where
  "other_direction d = (if d = DirLeft then DirRight else DirLeft)"

lemma other_direction_ne [simp]: "other_direction d \<noteq> d" "d \<noteq> other_direction d"
  by (cases d; simp add: other_direction_def)+

text \<open>Of two indices of one depth, the one on the left is smaller.\<close>

lemma left_is_smaller:
  assumes "1 \<le> p" "anc (child_index DirLeft p) i" "anc (child_index DirRight p) j" "index_depth i = index_depth j"
  shows "i < j"
proof -
  have "i div 2 ^ (index_depth i - Suc (index_depth p)) = child_index DirLeft p"
    "j div 2 ^ (index_depth i - Suc (index_depth p)) = child_index DirRight p"
    using anc_div [OF child_index_pos(1) [OF assms(1)] assms(2)] anc_div [OF child_index_pos(1) [OF assms(1)] assms(3)]
      assms(4) by (simp_all add: index_depth_child [OF assms(1)])
  then have "i div 2 ^ (index_depth i - Suc (index_depth p)) = p * 2" "j div 2 ^ (index_depth i - Suc (index_depth p)) = p * 2 + 1"
    by (simp_all add: child_index.simps)
  then show ?thesis
    using div_le_mono [of j i "2 ^ (index_depth i - Suc (index_depth p))"] by fastforce
qed

lemma split_point:
  assumes k: "1 \<le> k" "anc k ci" "anc k leaf" and ci: "1 \<le> ci" "\<not> anc ci leaf" "index_depth ci \<le> index_depth leaf"
    and leaf: "1 \<le> leaf" and nm: "nm = leaf div 2 ^ (index_depth leaf - index_depth ci)" and p: "p = common_parent nm ci"
    and dir: "dir = (if ci < nm then DirRight else DirLeft)"
  shows "1 \<le> p" "anc p ci" "anc p leaf" "anc k p" "index_depth p < index_depth ci"
    "anc (child_index dir p) leaf" "anc (child_index (other_direction dir) p) ci"
proof -
  have leaf_bounds: "2 ^ index_depth leaf \<le> leaf" "leaf < 2 * 2 ^ index_depth leaf"
    using index_depth_bounds [OF leaf] by simp_all
  define s where "s = index_depth leaf - index_depth ci"
  have ds: "index_depth leaf = index_depth ci + s"
    using ci(3) by (simp add: s_def)
  have nm_bounds: "2 ^ index_depth ci \<le> nm" "nm < 2 ^ Suc (index_depth ci)"
    using leaf_bounds ds unfolding nm s_def [symmetric]
    by (simp_all add: power_add less_mult_imp_div_less) (metis div_le_mono nonzero_mult_div_cancel_right power_eq_0_iff zero_neq_numeral)
  have n1: "1 \<le> nm" "index_depth nm = index_depth ci"
    using nm_bounds(1) order.trans [of 1 "2 ^ index_depth ci" nm] index_depth_eq [OF nm_bounds] by simp_all
  have nl: "anc nm leaf"
    unfolding anc_def using nm by blast
  have ne: "nm \<noteq> ci"
    using nl ci(2) by blast
  note cp = common_parent_spec [OF n1(1) ci(1) n1(2), folded p]
  show p1: "1 \<le> p" and pc: "anc p ci" and pl: "anc p leaf"
    using cp nl anc_trans by blast+
  have kn: "anc k nm"
    using anc_linear_depth [OF k(1) n1(1) k(3) nl] anc_depth [OF k(1,2)] n1(2) by simp
  then show "anc k p"
    using cp k(2) by blast
  have "p \<noteq> ci"
    using pl ci(2) by blast
  then show dp: "index_depth p < index_depth ci"
    using anc_proper_depth [OF p1 pc] by simp
  obtain e where e: "anc (child_index e p) ci"
    using anc_step [OF pc \<open>p \<noteq> ci\<close>] by blast
  have "p \<noteq> nm"
    using dp n1(2) by auto
  then obtain f where f: "anc (child_index f p) nm"
    using anc_step cp by blast
  have "e \<noteq> f"
  proof
    assume "e = f"
    then have "anc (child_index e p) p"
      using cp e f by blast
    then show False
      using anc_depth [of "child_index e p" p] child_index_pos(1) [OF p1] p1 by simp
  qed
  moreover have "f = dir"
    using left_is_smaller [OF p1, of nm ci] left_is_smaller [OF p1, of ci nm] e f n1(2) \<open>e \<noteq> f\<close>
    by (cases e; cases f) (auto simp: dir)
  moreover from calculation have "e = other_direction dir"
    by (cases e; cases f) (auto simp: other_direction_def)
  ultimately show "anc (child_index dir p) leaf" "anc (child_index (other_direction dir) p) ci"
    using e f nl anc_trans by blast+
qed

lemma attach_split:
  assumes t: "shape_ok H t" and r: "r < size (mt_nodes t)"
    and leaf: "1 \<le> leaf" "index_depth leaf = mt_tree_depth t" "anc (child_index d (nd_index (mt_nodes t ! r))) leaf"
    and c: "child_ref (mt_nodes t ! r) d = Some c" "\<not> anc (nd_index (mt_nodes t ! c)) leaf"
    and p: "1 \<le> p" "anc p (nd_index (mt_nodes t ! c))" "anc p leaf" "anc (child_index d (nd_index (mt_nodes t ! r))) p"
      "index_depth p < index_depth (nd_index (mt_nodes t ! c))"
      "anc (child_index dir p) leaf" "anc (child_index (other_direction dir) p) (nd_index (mt_nodes t ! c))"
    and lr: "order_elements dir (Some (size (mt_nodes t))) (Some c) = (lhs, rhs)"
    and t': "t' = t\<lparr>mt_nodes := (mt_nodes t @ [\<lparr>nd_depth = mt_tree_depth t, nd_index = leaf, nd_left = None, nd_right = None\<rparr>,
        \<lparr>nd_depth = index_depth p, nd_index = p, nd_left = lhs, nd_right = rhs\<rparr>])
        [r := set_child (mt_nodes t ! r) d (Suc (size (mt_nodes t)))]\<rparr>"
  shows "shape_ok H t' \<and> node_set t' = node_set t \<union> {leaf, p}"
proof -
  let ?leaf = "\<lparr>nd_depth = mt_tree_depth t, nd_index = leaf, nd_left = None, nd_right = None\<rparr>"
  let ?split = "\<lparr>nd_depth = index_depth p, nd_index = p, nd_left = lhs, nd_right = rhs\<rparr>"
  let ?k = "child_index d (nd_index (mt_nodes t ! r))" and ?c = "nd_index (mt_nodes t ! c)" and ?n = "size (mt_nodes t)"
  have cl: "c < ?n" "least_below (node_set t) ?k ?c"
    using node_facts(5) [OF t r, of d] c(1) by (simp_all add: link_ok_def)
  note nc = node_facts [OF t cl(1)]
  have below: "anc ?c m" if "m \<in> node_set t" "anc ?k m" for m
    using cl(2) that by (auto simp: least_below_def)
  have refs: "child_ref ?split dir = Some ?n" "child_ref ?split (other_direction dir) = Some c"
    using lr by (cases dir; auto simp: other_direction_def)+
  have size: "size (mt_nodes t') = ?n + 2"
    by (simp add: t')
  have at: "mt_nodes t' ! ?n = ?leaf" "nd_index (mt_nodes t' ! c) = ?c"
    using r cl(1) by (auto simp: t' nth_append nth_list_update)
  have N: "node_set t' \<subseteq> node_set t \<union> {leaf, p}"
  proof
    fix m assume "m \<in> node_set t'"
    then obtain x where x: "x \<in> set (mt_nodes t')" "m = nd_index x"
      by (auto simp: node_set_def)
    then have "x = set_child (mt_nodes t ! r) d (Suc ?n) \<or> x \<in> set (mt_nodes t @ [?leaf, ?split])"
      using set_update_subset_insert by (fastforce simp: t')
    then show "m \<in> node_set t \<union> {leaf, p}"
      using x(2) node_facts(4) [OF t r] by (auto simp: node_set_def)
  qed
  have dp: "index_depth p < mt_tree_depth t"
    using p(5) nc(3) by simp
  have one: "e = f" if "anc (child_index e p) m" "anc (child_index f p) m" for e f m
    using anc_child_unique [OF p(1) that] .
  have cm: "anc (child_index (other_direction dir) p) m" if "m \<in> node_set t" "anc ?k m" for m
    using below [OF that] p(7) anc_trans by blast
  have kd: "anc ?k m" if "anc (child_index e p) m" for e m
    using anc_child [OF that] p(4) anc_trans by blast
  have pself: "\<not> anc (child_index e p) p" for e
    using anc_depth [of "child_index e p" p] child_index_pos(1) [OF p(1)] p(1) by auto
  have notin: "leaf \<notin> node_set t" "p \<notin> node_set t"
    using below [of leaf] below [of p] leaf(3) c(2) p(3,4) anc_trans by blast+
  have lp: "leaf \<noteq> p"
    using dp leaf(2) by auto
  have links: "link_ok t' ?split e" for e
  proof (cases "e = dir")
    case True
    have "m = leaf" if "m \<in> node_set t'" "anc (child_index dir p) m" for m
    proof (rule ccontr)
      assume "m \<noteq> leaf"
      then have "m \<in> node_set t"
        using N that pself by auto
      then have "dir = other_direction dir"
        using one [OF that(2)] cm [OF _ kd [OF that(2)]] by blast
      then show False
        by (metis other_direction_ne(1))
    qed
    moreover have "leaf \<in> node_set t'"
      using nth_mem [of ?n "mt_nodes t'"] size at(1) by (force simp: node_set_def)
    ultimately have "least_below (node_set t') (child_index dir p) leaf"
      unfolding least_below_def using p(6) anc_refl by metis
    then show ?thesis
      using True refs(1) size at(1) by (simp add: link_ok_def)
  next
    case False
    then have e: "e = other_direction dir"
      by (cases e; cases dir) (auto simp: other_direction_def)
    have "anc ?c m" if "m \<in> node_set t'" "anc (child_index e p) m" for m
    proof -
      have "m \<noteq> leaf"
        using one [OF that(2), of dir] p(6) False by blast
      then have "m \<in> node_set t"
        using N that pself by auto
      then show ?thesis
        using below kd [OF that(2)] by blast
    qed
    moreover have "?c \<in> node_set t'"
    proof -
      have "mt_nodes t' ! c \<in> set (mt_nodes t')"
        using size cl(1) by simp
      then show ?thesis
        using at(2) by (metis image_eqI node_set_def)
    qed
    ultimately have "least_below (node_set t') (child_index e p) ?c"
      unfolding least_below_def using e p(7) by blast
    then show ?thesis
      using e refs(2) size at(2) cl(1) by (simp add: link_ok_def)
  qed
  have deep: "\<not> anc (child_index e leaf) m" if "m \<in> node_set t'" for e m
  proof
    assume "anc (child_index e leaf) m"
    then have "mt_tree_depth t < index_depth m"
      using anc_depth child_index_pos(1) [OF leaf(1)] leaf(1,2) by fastforce
    then show False
      using that N node_set_facts [OF t, of m] leaf(2) dp by auto
  qed
  have "shape_ok H t' \<and> node_set t' = node_set t \<union> nd_index ` set [?leaf, ?split]"
  proof (rule attach_shape [OF t r t'])
    fix i x assume i: "i \<in> node_set t" "anc ?k i" "x \<in> set [?leaf, ?split]"
    have "\<not> anc ?c p"
      using anc_depth [OF nc(1)] p(5) by fastforce
    then show "\<not> anc i (nd_index x)"
      using below [OF i(1,2)] i(3) c(2) anc_trans by auto
  next
    have "link_ok t' ?leaf e" for e
      using deep by (cases e) (simp_all add: link_ok_def)
    then have "\<forall>x \<in> set [?leaf, ?split]. link_ok t' x e" for e
      using links by simp
    then show "link_ok t' x e" if "x \<in> set [?leaf, ?split]" for x e
      using that by blast
  next
    have "anc p m" if "m \<in> node_set t" "anc ?k m" for m
      using below [OF that] p(2) anc_trans by blast
    then show "least_below (node_set t \<union> nd_index ` set [?leaf, ?split]) ?k (nd_index ([?leaf, ?split] ! (Suc ?n - ?n)))"
      using p(3,4) by (simp add: least_below_def)
  qed (use leaf p dp notin lp in auto)
  then show ?thesis
    by simp
qed


section \<open>Insertion and removal\<close>

lemma wipe_cache_same [simp]:
  "mt_nodes (wipe_cache t c n) = mt_nodes t" "mt_tree_depth (wipe_cache t c n) = mt_tree_depth t"
  by (simp_all add: wipe_cache_def split: option.split)

abbreviation leaf_node :: "('t, 'h) merkle_tree \<Rightarrow> node_index \<Rightarrow> node" where
  "leaf_node t leaf \<equiv> \<lparr>nd_depth = mt_tree_depth t, nd_index = leaf, nd_left = None, nd_right = None\<rparr>"

text \<open>One step of the walk, in its three cases.\<close>

lemma insert_walk_step:
  assumes r: "r < size (mt_nodes t)" "nd_depth (mt_nodes t ! r) < mt_tree_depth t"
    and d: "d = (if odd (leaf div 2 ^ (mt_tree_depth t - nd_depth (mt_nodes t ! r) - 1)) then DirRight else DirLeft)"
  shows "child_ref (mt_nodes t ! r) d = None \<Longrightarrow> insert_walk t leaf r
      = Some (Ok (t\<lparr>mt_nodes := (mt_nodes t @ [leaf_node t leaf])[r := set_child (mt_nodes t ! r) d (size (mt_nodes t))]\<rparr>))"
    and "child_ref (mt_nodes t ! r) d = Some c \<Longrightarrow> c < size (mt_nodes t) \<Longrightarrow> nd_depth (mt_nodes t ! c) \<le> mt_tree_depth t \<Longrightarrow>
      leaf div 2 ^ (mt_tree_depth t - nd_depth (mt_nodes t ! c)) = nd_index (mt_nodes t ! c) \<Longrightarrow> insert_walk t leaf r
      = (let t' = wipe_cache t (nd_index (mt_nodes t ! c)) (nd_index (mt_nodes t ! r))
         in if nd_index (mt_nodes t ! c) = leaf then Some (Ok t') else insert_walk t' leaf c)"
    and "child_ref (mt_nodes t ! r) d = Some c \<Longrightarrow> c < size (mt_nodes t) \<Longrightarrow> nd_depth (mt_nodes t ! c) \<le> mt_tree_depth t \<Longrightarrow>
      nm = leaf div 2 ^ (mt_tree_depth t - nd_depth (mt_nodes t ! c)) \<Longrightarrow> nm \<noteq> nd_index (mt_nodes t ! c) \<Longrightarrow>
      p = common_parent nm (nd_index (mt_nodes t ! c)) \<Longrightarrow> wipe_cache t p (nd_index (mt_nodes t ! r)) = t\<lparr>mt_cache := K\<rparr> \<Longrightarrow>
      order_elements (if nd_index (mt_nodes t ! c) < nm then DirRight else DirLeft) (Some (size (mt_nodes t))) (Some c) = (lhs, rhs) \<Longrightarrow>
      insert_walk t leaf r = Some (Ok (t\<lparr>mt_cache := K, mt_nodes := (mt_nodes t @ [leaf_node t leaf,
          \<lparr>nd_depth = index_depth p, nd_index = p, nd_left = lhs, nd_right = rhs\<rparr>])
        [r := set_child (mt_nodes t ! r) d (Suc (size (mt_nodes t)))]\<rparr>))"
  using r
  by (subst insert_walk.simps; cases "odd (leaf div 2 ^ (mt_tree_depth t - Suc (nd_depth (mt_nodes t ! r))))";
    simp add: d nth_opt_def calculate_level_def insert_node_def add_child_node_eq nth_append Let_def)+

lemma insert_walk_ok:
  assumes "walk_inv H t leaf (index_depth (nd_index (mt_nodes t ! r)))" "r < size (mt_nodes t)"
    "anc (nd_index (mt_nodes t ! r)) leaf" "index_depth (nd_index (mt_nodes t ! r)) < mt_tree_depth t"
  shows "\<exists>t'. insert_walk t leaf r = Some (Ok t') \<and> tree_ok H t' \<and> cache_ok H t' \<and> mt_items t' = mt_items t
    \<and> mt_tree_depth t' = mt_tree_depth t"
  using assms
proof (induction "mt_tree_depth t - index_depth (nd_index (mt_nodes t ! r))" arbitrary: t r rule: less_induct)
  case less
  let ?n = "mt_nodes t ! r" and ?i = "nd_index (mt_nodes t ! r)" and ?D = "mt_tree_depth t"
  let ?leaf = "\<lparr>nd_depth = mt_tree_depth t, nd_index = leaf, nd_left = None, nd_right = None\<rparr>"
  note w = walk_inv_parts [OF less.prems(1)] and r = less.prems(2) and il = less.prems(3)
  note nf = node_facts [OF w(1) r]
  define d where "d = (if odd (leaf div 2 ^ (?D - index_depth ?i - 1)) then DirRight else DirLeft)"
  let ?k = "child_index d ?i"
  have kl: "anc ?k leaf"
    using direction_bit [OF nf(1) il w(4) less.prems(4)] by (simp add: d_def)
  have k: "1 \<le> ?k" "index_depth ?k = Suc (index_depth ?i)"
    using nf(1) child_index_pos by simp_all
  have d_def': "d = (if odd (leaf div 2 ^ (?D - nd_depth ?n - 1)) then DirRight else DirLeft)" and deep: "nd_depth ?n < ?D"
    using less.prems(4) nf(2) by (simp_all add: d_def)
  have on_path: "anc ?k i" if "i \<in> cached t" "anc i leaf" for i
    using anc_linear_depth [OF k(1) _ kl that(2)] w(5) [OF that] cached_pos [OF w(2) that(1)] k(2) by simp
  show ?case
  proof (cases "child_ref ?n d")
    case None
    let ?t = "t\<lparr>mt_nodes := (mt_nodes t @ [?leaf])[r := set_child ?n d (size (mt_nodes t))]\<rparr>"
    have step: "insert_walk t leaf r = Some (Ok ?t)"
      using insert_walk_step(1) [OF r deep d_def' None] .
    have shape: "shape_ok H ?t" "node_set ?t = node_set t \<union> {leaf}"
      using attach_leaf [OF w(1) r w(3,4) kl None refl] by blast+
    have none: "\<not> anc i leaf" if i: "i \<in> cached t" for i
    proof
      assume il: "anc i leaf"
      obtain m where "m \<in> node_set t" "anc i m"
        using cached_pos [OF w(2) i] unfolding relevant_def by blast
      moreover from this have "anc ?k m"
        using on_path [OF i il] anc_trans by blast
      ultimately show False
        using nf(5) [of d] None by (simp add: link_ok_def)
    qed
    have "tree_ok H ?t \<and> cache_ok H ?t"
      by (rule walk_end [OF less.prems(1) none refl shape]) (use shape(2) in auto)
    then show ?thesis
      using step by (intro exI [of _ ?t]) simp
  next
    case (Some c)
    let ?c = "nd_index (mt_nodes t ! c)"
    have c: "c < size (mt_nodes t)" "?c \<in> node_set t" "anc ?k ?c" "\<And>m. m \<in> node_set t \<Longrightarrow> anc ?k m \<Longrightarrow> anc ?c m"
      using nf(5) [of d] Some by (simp_all add: link_ok_def least_below_def)
    note cf = node_facts [OF w(1) c(1)]
    have ic: "anc ?i ?c" "?i \<noteq> ?c"
      using anc_child [OF c(3)] anc_depth [OF k(1) c(3)] k(2) by auto
    have rel: "relevant t j" if "anc j ?c" "1 \<le> j" for j
      using that c(2) by (auto simp: relevant_def)
    have nm: "leaf div 2 ^ (?D - nd_depth (mt_nodes t ! c)) = ?c \<longleftrightarrow> anc ?c leaf"
      using anc_iff [OF cf(1), of leaf] cf(2,3) w(4) by auto
    show ?thesis
    proof (cases "anc ?c leaf")
      case True
      obtain K where K: "wipe_cache t ?c ?i = t\<lparr>mt_cache := K\<rparr>" "walk_inv H (t\<lparr>mt_cache := K\<rparr>) leaf (index_depth ?c)"
        using wipe_walk_inv [OF less.prems(1) nf(1) ic True rel [OF anc_refl cf(1)]] by blast
      let ?t = "t\<lparr>mt_cache := K\<rparr>"
      have step: "insert_walk t leaf r = (if ?c = leaf then Some (Ok ?t) else insert_walk ?t leaf c)"
        using insert_walk_step(2) [OF r deep d_def' Some c(1)] True nm cf(2,3) K(1) by simp
      show ?thesis
      proof (cases "?c = leaf")
        case leaf: True
        have none: "\<not> anc i leaf" if "i \<in> cached ?t" for i
        proof
          assume i: "anc i leaf"
          then have "index_depth leaf < index_depth i"
            using walk_inv_parts(5) [OF K(2) that i] leaf by simp
          moreover have "1 \<le> i"
            using cached_pos [OF walk_inv_parts(2) [OF K(2)] that] by simp
          ultimately show False
            using anc_depth [OF _ i] by simp
        qed
        have "tree_ok H ?t \<and> cache_ok H ?t"
          by (rule walk_end [OF K(2) none, where ns = "mt_nodes t" and S = "{}"]) (use w(1) c(2) leaf in auto)
        then show ?thesis
          using step leaf by (intro exI [of _ ?t]) simp
      next
        case False
        then have "index_depth ?c < ?D"
          using anc_proper_depth [OF cf(1) True] w(4) by simp
        then have "\<exists>t'. insert_walk ?t leaf c = Some (Ok t') \<and> tree_ok H t' \<and> cache_ok H t' \<and> mt_items t' = mt_items ?t
            \<and> mt_tree_depth t' = mt_tree_depth ?t"
          using anc_proper_depth [OF nf(1) ic] K(2) c(1) True by (intro less.hyps) simp_all
        then show ?thesis
          using step False by simp
      qed
    next
      case False
      define nrm where "nrm = leaf div 2 ^ (?D - nd_depth (mt_nodes t ! c))"
      define p where "p = common_parent nrm ?c"
      define dir where "dir = (if ?c < nrm then DirRight else DirLeft)"
      have nrm: "nrm = leaf div 2 ^ (index_depth leaf - index_depth ?c)"
        using w(4) cf(2) by (simp add: nrm_def)
      have "index_depth ?c \<le> index_depth leaf"
        using cf(3) w(4) by simp
      note sp = split_point [OF k(1) c(3) kl cf(1) False this w(3) nrm p_def dir_def]
      have ip: "anc ?i p" "?i \<noteq> p"
        using anc_child [OF sp(4)] anc_depth [OF k(1) sp(4)] k(2) by auto
      obtain K where K: "wipe_cache t p ?i = t\<lparr>mt_cache := K\<rparr>" "walk_inv H (t\<lparr>mt_cache := K\<rparr>) leaf (index_depth p)"
        using wipe_walk_inv [OF less.prems(1) nf(1) ip sp(3) rel [OF sp(2,1)]] by blast
      let ?u = "t\<lparr>mt_cache := K\<rparr>"
      obtain lhs rhs where lr: "order_elements dir (Some (size (mt_nodes t))) (Some c) = (lhs, rhs)"
        by (cases "order_elements dir (Some (size (mt_nodes t))) (Some c)") blast
      let ?split = "\<lparr>nd_depth = index_depth p, nd_index = p, nd_left = lhs, nd_right = rhs\<rparr>"
      let ?t = "?u\<lparr>mt_nodes := (mt_nodes ?u @ [?leaf, ?split])[r := set_child ?n d (Suc (size (mt_nodes t)))]\<rparr>"
      have step: "insert_walk t leaf r = Some (Ok ?t)"
        using insert_walk_step(3) [OF r deep d_def' Some c(1) _ nrm_def _ p_def K(1)] False nm cf(2,3) lr
        by (simp add: nrm_def dir_def)
      have shape: "shape_ok H ?t" "node_set ?t = node_set ?u \<union> {leaf, p}"
      proof -
        have "shape_ok H ?t \<and> node_set ?t = node_set ?u \<union> {leaf, p}"
          by (rule attach_split [of H ?u r leaf d c p dir lhs rhs]) (use w(1,3,4) r kl Some False sp lr in simp_all)
        then show "shape_ok H ?t" "node_set ?t = node_set ?u \<union> {leaf, p}"
          by simp_all
      qed
      have none: "\<not> anc i leaf" if i: "i \<in> cached ?u" for i
      proof
        assume il: "anc i leaf"
        have deep: "index_depth p < index_depth i" and i1: "1 \<le> i" "relevant t i"
          using walk_inv_parts(5) [OF K(2) i il] cached_pos [OF walk_inv_parts(2) [OF K(2)] i] by simp_all
        have pi: "anc (child_index dir p) i"
          using anc_linear_depth [OF child_index_pos(1) [OF sp(1)] i1(1) sp(6) il] deep sp(1) by simp
        obtain m where m: "m \<in> node_set t" "anc i m"
          using i1(2) by (auto simp: relevant_def)
        then have "anc ?k m"
          using pi sp(4) anc_child anc_trans by blast
        then have "anc (child_index (other_direction dir) p) m"
          using c(4) [OF m(1)] sp(7) anc_trans by blast
        then have "other_direction dir = dir"
          using anc_child_unique [OF sp(1)] pi m(2) anc_trans by blast
        then show False
          by (metis other_direction_ne(1))
      qed
      have "tree_ok H ?t \<and> cache_ok H ?t"
        by (rule walk_end [OF K(2) none refl shape]) (use shape(2) sp(3) in auto)
      then show ?thesis
        using step by (intro exI [of _ ?t]) simp
    qed
  qed
qed


lemma node_set_items [simp]: "node_set (t\<lparr>mt_items := I\<rparr>) = node_set t"
  by (simp add: node_set_def)

lemma link_ok_items [simp]: "link_ok (t\<lparr>mt_items := I\<rparr>) n d = link_ok t n d"
  unfolding link_ok_def node_set_items by (simp split: option.split)

lemma shape_ok_items [simp]: "shape_ok H (t\<lparr>mt_items := I\<rparr>) = shape_ok H t"
  by (simp add: shape_ok_def)

lemma merkle_insert_ok:
  assumes t: "tree_ok H t" and ca: "cache_ok H t" and x: "x < capacity t"
  shows "\<exists>t'. merkle_insert t x item = Some (Ok t') \<and> tree_ok H t' \<and> cache_ok H t'
    \<and> mt_items t' = fmupd x item (mt_items t) \<and> mt_tree_depth t' = mt_tree_depth t"
proof -
  let ?D = "mt_tree_depth t" and ?leaf = "2 ^ mt_tree_depth t + x"
  let ?t = "t\<lparr>mt_items := fmupd x item (mt_items t), mt_cache := fmdrop 1 (mt_cache t)\<rparr>"
  have xD: "x < 2 ^ ?D"
    using x by (simp add: capacity_def)
  have leaf: "index_depth ?leaf = ?D" "1 \<le> ?leaf"
    using leaf_depth [OF xD] one_le_power [of "2 :: nat" ?D] by (simp_all add: trans_le_add1)
  have nodes: "mt_nodes ?t = mt_nodes t" "node_set ?t = node_set t" "mt_tree_depth ?t = ?D"
    by (simp_all add: node_set_def)
  have mem: "i \<in> cached ?t \<longleftrightarrow> i \<in> cached t \<and> i \<noteq> 1" for i
    by (auto simp: cached_iff)
  have sh: "shape_ok H ?t"
    using tree_shape [OF t] by simp
  moreover have "leaves_ok (insert ?leaf (node_set ?t)) ?t"
  proof -
    have "{i \<in> insert ?leaf (node_set t). index_depth i = ?D} = insert ?leaf {i \<in> node_set t. index_depth i = ?D}"
      using leaf(1) by auto
    then show ?thesis
      using t xD by (simp add: tree_ok_def leaves_ok_def nodes)
  qed
  moreover have rel: "relevant ?t = relevant t"
    by (simp add: relevant_def nodes fun_eq_iff)
  have closed: "relevant t i \<and> (\<forall>j. anc i j \<longrightarrow> relevant t j \<longrightarrow> j \<in> cached t)" if "i \<in> cached t" for i
    using ca that unfolding cache_ok_def cache_closed_def by blast
  have "j \<noteq> 1" if "i \<in> cached ?t" "anc i j" for i j
    using that mem closed [of i] anc_le [of i j] unfolding relevant_def by fastforce
  then have "cache_closed ?t"
    unfolding cache_closed_def rel using closed mem by blast
  moreover have "h = hash_at H ?t i" if "fmlookup (mt_cache ?t) i = Some h" "\<not> anc i ?leaf" for i h
  proof -
    have i: "fmlookup (mt_cache t) i = Some h"
      using that(1) by (simp split: if_splits)
    then have "relevant t i" "h = hash_at H t i"
      using ca by (auto simp: cache_ok_def cache_closed_def cached_iff)
    moreover from this have "1 \<le> i" "index_depth i \<le> ?D"
      using anc_depth node_set_facts [OF tree_shape [OF t]] unfolding relevant_def by fastforce+
    ultimately show ?thesis
      using full_hash_other [of i "?D - index_depth i" ?D x H item "mt_items t"] that(2) xD t
      by (simp add: hash_at_def tree_ok_def shape_ok_def)
  qed
  moreover have "0 < index_depth i" if "i \<in> cached ?t" for i
  proof -
    have "1 \<le> i" "i \<noteq> 1"
      using that mem ca by (auto simp: cache_ok_def cache_closed_def relevant_def)
    then show ?thesis
      by (simp add: index_depth_step)
  qed
  ultimately have inv: "walk_inv H ?t ?leaf 0"
    using leaf by (simp add: walk_inv_def)
  have root: "0 < size (mt_nodes t)" "nd_index (mt_nodes t ! 0) = 1" "0 < ?D" "mt_root t = 0"
    using t by (simp_all add: tree_ok_def shape_ok_def)
  have "\<exists>t'. insert_walk ?t ?leaf 0 = Some (Ok t') \<and> tree_ok H t' \<and> cache_ok H t' \<and> mt_items t' = mt_items ?t
      \<and> mt_tree_depth t' = mt_tree_depth ?t"
    using insert_walk_ok [of H ?t ?leaf 0] inv root anc_root [OF leaf(2)] by simp
  then show ?thesis
    using x root(4) by (auto simp: merkle_insert_def)
qed

lemma merkle_remove_ok:
  assumes t: "tree_ok H t" and ca: "cache_ok H t" and x: "x < capacity t"
  shows "\<exists>t'. merkle_remove H t x = Some (Ok (merkle_get t x, t')) \<and> tree_ok H t' \<and> cache_ok H t'
    \<and> mt_items t' = fmupd x (default_item H) (mt_items t) \<and> mt_tree_depth t' = mt_tree_depth t"
proof -
  have "fmupd x y (fmdrop x m) = fmupd x y m" for y and m :: "(nat, 'a) fmap"
    by (rule fmap_ext) simp
  then have "merkle_insert (t\<lparr>mt_items := fmdrop x (mt_items t)\<rparr>) x (default_item H) = merkle_insert t x (default_item H)"
    by (simp add: merkle_insert_def capacity_def)
  then show ?thesis
    using merkle_insert_ok [OF assms, of "default_item H"] by (auto simp: merkle_remove_def merkle_get_def)
qed

lemma merkle_new_ok:
  assumes "1 < D"
  shows "\<exists>t. merkle_new H D = Ok t \<and> tree_ok H t \<and> cache_ok H t \<and> mt_items t = fmempty \<and> mt_tree_depth t = D"
proof -
  let ?t = "\<lparr>mt_items = fmempty, mt_tree_depth = D, mt_root = 0,
     mt_nodes = [\<lparr>nd_depth = 0, nd_index = 1, nd_left = None, nd_right = None\<rparr>],
     mt_prehashed = prehash H D, mt_cache = fmempty\<rparr>"
  have "\<not> anc (child_index d 1) 1" for d
    using anc_le [of "child_index d 1" 1] by (cases d) (auto simp: child_index.simps)
  then have "link_ok ?t \<lparr>nd_depth = 0, nd_index = 1, nd_left = None, nd_right = None\<rparr> d" for d
    by (cases d) (auto simp: link_ok_def node_set_def)
  then have "tree_ok H ?t"
    using assms by (auto simp: tree_ok_def shape_ok_def leaves_ok_def node_set_def)
  moreover have "cache_ok H ?t"
    by (simp add: cache_ok_def cache_closed_def cached_def)
  ultimately show ?thesis
    using assms by (auto simp: merkle_new_def)
qed

end
