(* ===== verification/MerkleProps.thy ===== *)
theory MerkleProps
  imports MerkleInsert
begin

text \<open>
  What the Merkle tree promises to the rollup state, as an interface: a map whose root hash depends on nothing but
  its contents.  The interface is interpreted on the tree of the source, and the properties
  are its facts there.
\<close>

section \<open>The interface\<close>

datatype 't tree_op = TreeInsert nat 't | TreeRemove nat | TreeRootHash

fun op_within :: "nat \<Rightarrow> 't tree_op \<Rightarrow> bool" where
  "op_within n (TreeInsert i x) \<longleftrightarrow> i < n"
| "op_within n (TreeRemove i) \<longleftrightarrow> i < n"
| "op_within n TreeRootHash \<longleftrightarrow> True"

text \<open>What is left in the tree: a removed item is one with the default value.\<close>

fun content_after :: "'t \<Rightarrow> 't tree_op list \<Rightarrow> (nat, 't) fmap \<Rightarrow> (nat, 't) fmap" where
  "content_after dflt [] m = m"
| "content_after dflt (TreeInsert i x # ops) m = content_after dflt ops (fmupd i x m)"
| "content_after dflt (TreeRemove i # ops) m = content_after dflt ops (fmupd i dflt m)"
| "content_after dflt (TreeRootHash # ops) m = content_after dflt ops m"

fun run_ops ::
  "('s \<Rightarrow> 't tree_op \<Rightarrow> (unit, 's) res option) \<Rightarrow> 's \<Rightarrow> 't tree_op list \<Rightarrow> (unit, 's) res option" where
  "run_ops step s [] = Some (Ok s)"
| "run_ops step s (op # ops) = then_res (step s op) (\<lambda>s. run_ops step s ops)"

locale authenticated_map =
  fixes ok :: "'s \<Rightarrow> bool" and content :: "'s \<Rightarrow> (nat, 't) fmap" and room :: "'s \<Rightarrow> nat"
    and step :: "'s \<Rightarrow> 't tree_op \<Rightarrow> (unit, 's) res option" and root :: "'s \<Rightarrow> (unit, 'h \<times> 's) res option"
    and dflt :: 't and ref_root :: "nat \<Rightarrow> (nat, 't) fmap \<Rightarrow> 'h"
  assumes step_law: "ok s \<Longrightarrow> op_within (2 ^ room s) op \<Longrightarrow>
      \<exists>s'. step s op = Some (Ok s') \<and> ok s' \<and> content s' = content_after dflt [op] (content s) \<and> room s' = room s"
    and root_law: "ok s \<Longrightarrow> \<exists>s'. root s = Some (Ok (ref_root (room s) (content s), s')) \<and> ok s'
      \<and> content s' = content s \<and> room s' = room s"
begin

lemma content_Cons: "content_after dflt (op # ops) m = content_after dflt ops (content_after dflt [op] m)"
  by (cases op) simp_all

lemma run_law:
  assumes "ok s" "list_all (op_within (2 ^ room s)) ops"
  shows "\<exists>s'. run_ops step s ops = Some (Ok s') \<and> ok s' \<and> content s' = content_after dflt ops (content s) \<and> room s' = room s"
  using assms
proof (induction ops arbitrary: s)
  case (Cons op ops)
  obtain s1 where s1: "step s op = Some (Ok s1)" "ok s1" "content s1 = content_after dflt [op] (content s)" "room s1 = room s"
    using step_law [OF Cons.prems(1), of op] Cons.prems(2) by auto
  moreover obtain s' where "run_ops step s1 ops = Some (Ok s')" "ok s'" "content s' = content_after dflt ops (content s1)"
    "room s' = room s1"
    using Cons.IH [OF s1(2)] s1(4) Cons.prems(2) by auto
  ultimately show ?case
    by (simp add: content_Cons [of op ops])
qed simp

lemma root_after_run:
  assumes "ok s" "list_all (op_within (2 ^ room s)) ops"
  shows "\<exists>s' s''. run_ops step s ops = Some (Ok s')
    \<and> root s' = Some (Ok (ref_root (room s) (content_after dflt ops (content s)), s''))"
  using run_law [OF assms] root_law by metis

text \<open>The order of the operations and the calls of @root_hash@ between them do not matter.\<close>

lemma root_by_content:
  assumes "ok s" "list_all (op_within (2 ^ room s)) ops" "list_all (op_within (2 ^ room s)) ops'"
    "content_after dflt ops (content s) = content_after dflt ops' (content s)"
  shows "map_option (res_map fst) (then_res (run_ops step s ops) root)
    = map_option (res_map fst) (then_res (run_ops step s ops') root)"
  using root_after_run [OF assms(1,2)] root_after_run [OF assms(1,3)] assms(4) by auto

end

section \<open>The tree of the source\<close>

fun merkle_step :: "('t, 'h) hasher \<Rightarrow> ('t, 'h) merkle_tree \<Rightarrow> 't tree_op \<Rightarrow> (unit, ('t, 'h) merkle_tree) res option" where
  "merkle_step H t (TreeInsert i x) = merkle_insert t i x"
| "merkle_step H t (TreeRemove i) = map_option (res_map snd) (merkle_remove H t i)"
| "merkle_step H t TreeRootHash = map_option (res_map snd) (root_hash H t)"

definition merkle_ok :: "('t, 'h) hasher \<Rightarrow> ('t, 'h) merkle_tree \<Rightarrow> bool" where
  "merkle_ok H t \<longleftrightarrow> tree_ok H t \<and> cache_ok H t"

interpretation smt: authenticated_map "merkle_ok H" mt_items mt_tree_depth "merkle_step H" "root_hash H" "default_item H"
    "reference_root H"
  for H :: "('t, 'h) hasher"
proof unfold_locales
  fix t :: "('t, 'h) merkle_tree" and op :: "'t tree_op"
  assume t: "merkle_ok H t" and op: "op_within (2 ^ mt_tree_depth t) op"
  show "\<exists>t'. merkle_step H t op = Some (Ok t') \<and> merkle_ok H t'
    \<and> mt_items t' = content_after (default_item H) [op] (mt_items t) \<and> mt_tree_depth t' = mt_tree_depth t"
  proof (cases op)
    case (TreeInsert i x)
    then show ?thesis
      using merkle_insert_ok [of H t i x] t op by (auto simp: merkle_ok_def capacity_def)
  next
    case (TreeRemove i)
    then show ?thesis
      using merkle_remove_ok [of H t i] t op by (auto simp: merkle_ok_def capacity_def)
  next
    case TreeRootHash
    then show ?thesis
      using root_hash_ok [of H t] t by (auto simp: merkle_ok_def)
  qed
next
  fix t :: "('t, 'h) merkle_tree"
  assume "merkle_ok H t"
  then show "\<exists>t'. root_hash H t = Some (Ok (reference_root H (mt_tree_depth t) (mt_items t), t')) \<and> merkle_ok H t'
      \<and> mt_items t' = mt_items t \<and> mt_tree_depth t' = mt_tree_depth t"
    using root_hash_ok [of H t] by (auto simp: merkle_ok_def)
qed

lemma new_tree_ok: "1 < D \<Longrightarrow> \<exists>t. merkle_new H D = Ok t \<and> merkle_ok H t \<and> mt_items t = fmempty \<and> mt_tree_depth t = D"
  using merkle_new_ok by (auto simp: merkle_ok_def)

section \<open>Properties\<close>

text \<open>C17: the sparse, cached Merkle tree computes the root hash of the full tree.  After any insertions, removals and
  calls of @root_hash@ on a new tree (indices within the capacity), none of which panics or runs for
  ever, @root_hash@ is the hash of the complete binary tree over all leaves, with the default item at every index
  that was never set or was removed.\<close>

theorem merkle_root_is_reference:
  assumes "1 < D" "list_all (op_within (2 ^ D)) ops"
  shows "\<exists>t t' t''. merkle_new H D = Ok t \<and> run_ops (merkle_step H) t ops = Some (Ok t')
    \<and> root_hash H t' = Some (Ok (full_hash H (content_after (default_item H) ops fmempty) D D 1, t''))"
proof -
  obtain t where t: "merkle_new H D = Ok t" "merkle_ok H t" "mt_items t = fmempty" "mt_tree_depth t = D"
    using new_tree_ok [OF assms(1), of H] by blast
  then show ?thesis
    using smt.root_after_run [of H t ops] assms(2) by (simp add: reference_root_def)
qed

text \<open>A hasher on numbers, and a tree of depth 3.\<close>

definition sample_hasher :: "(nat, nat) hasher" where
  "sample_hasher = \<lparr>hash_bits = (\<lambda>bs. size bs), compress = (\<lambda>l r i. (11 * l + 17 * r + 1 + i) mod 1234567891),
    item_bits = (\<lambda>x. replicate (x + 1) True), default_item = 0\<rparr>"

theorem merkle_root_is_reference_witness:
  "\<exists>t t' t'' h. merkle_new sample_hasher 3 = Ok t
    \<and> run_ops (merkle_step sample_hasher) t [TreeInsert 0 1, TreeRootHash, TreeInsert 3 2, TreeRemove 0] = Some (Ok t')
    \<and> root_hash sample_hasher t' = Some (Ok (h, t'')) \<and> h = full_hash sample_hasher (fmap_of_list [(0, 0), (3, 2)]) 3 3 1"
proof -
  have "content_after (default_item sample_hasher) [TreeInsert 0 1, TreeRootHash, TreeInsert 3 2, TreeRemove 0] fmempty
      = fmap_of_list [(0, 0), (3, 2)]"
    by (rule fmap_ext) (simp add: sample_hasher_def fmlookup_of_list)
  then show ?thesis
    using merkle_root_is_reference [of 3 "[TreeInsert 0 1, TreeRootHash, TreeInsert 3 2, TreeRemove 0]" sample_hasher] by simp
qed

text \<open>C18: every proof of existence that @merkle_path@ makes verifies.  After any operations on a new tree, the
  proof for any index within the capacity, of a stored item or of a default one, has one step for each
  level, spells the index, and leads from the hash of the item to the root hash of the tree.\<close>

theorem merkle_path_verifies:
  assumes "1 < D" "list_all (op_within (2 ^ D)) ops" "x < 2 ^ D"
  shows "\<exists>t t' t'' ps root. merkle_new H D = Ok t \<and> run_ops (merkle_step H) t ops = Some (Ok t')
    \<and> merkle_path H t' x = Some (Ok (ps, t'')) \<and> size ps = D \<and> proof_index ps = x
    \<and> map_option (res_map fst) (root_hash H t') = Some (Ok root)
    \<and> fold_proof H 0 (hash_bits H (item_bits H (case merkle_get t' x of Some y \<Rightarrow> y | None \<Rightarrow> default_item H))) ps = root"
proof -
  obtain t where t: "merkle_new H D = Ok t" "merkle_ok H t" "mt_items t = fmempty" "mt_tree_depth t = D"
    using new_tree_ok [OF assms(1), of H] by blast
  then obtain t' where t': "run_ops (merkle_step H) t ops = Some (Ok t')" "merkle_ok H t'" "mt_tree_depth t' = D"
    using smt.run_law [of H t ops] assms(2) by auto
  then have ok: "tree_ok H t'" "cache_ok H t'" "x < capacity t'"
    using assms(3) by (simp_all add: merkle_ok_def capacity_def)
  show ?thesis
    using t t' merkle_path_ok [OF ok] root_hash_ok [OF ok(1,2)] by auto
qed

theorem merkle_path_verifies_witness:
  "\<exists>t t' t'' ps. merkle_new sample_hasher 3 = Ok t
    \<and> run_ops (merkle_step sample_hasher) t [TreeInsert 0 2, TreeInsert 3 2] = Some (Ok t')
    \<and> merkle_path sample_hasher t' 6 = Some (Ok (ps, t'')) \<and> size ps = 3 \<and> proof_index ps = 6"
  using merkle_path_verifies [of 3 "[TreeInsert 0 2, TreeInsert 3 2]" 6 sample_hasher] by auto

section \<open>Saving and restoring\<close>

text \<open>The stored form of a tree brings back its nodes and its cache, for hashes below the modulus of the field.\<close>

lemma read_cache_map:
  assumes "distinct is" "\<And>i. i \<in> set is \<Longrightarrow> f i < modulus" "modulus \<le> 256 ^ 32"
  shows "\<exists>m. read_cache modulus (map (\<lambda>i. (i, to_be 32 (f i))) is) = Ok m \<and> (\<forall>i. fmlookup m i = (if i \<in> set is then Some (f i) else None))"
  using assms(1,2)
proof (induction "is")
  case (Cons i "is")
  then obtain m where m: "read_cache modulus (map (\<lambda>i. (i, to_be 32 (f i))) is) = Ok m"
    "\<And>i. fmlookup m i = (if i \<in> set is then Some (f i) else None)"
    by auto
  have "i \<notin> fset (fmdom m)"
    using Cons.prems(1) m(2) by (simp add: fmlookup_dom_iff)
  moreover have "f i < modulus" "from_be (to_be 32 (f i)) = f i"
    using Cons.prems(2) [of i] assms(3) by simp_all
  ultimately show ?case
    using m Cons.prems(1) by (simp add: Let_def)
qed simp

lemma internals_roundtrip:
  assumes "\<And>i h. fmlookup (mt_cache t) i = Some h \<Longrightarrow> h < modulus" "modulus \<le> 256 ^ 32" "mt_items t' = mt_items t"
    "mt_tree_depth t' = mt_tree_depth t" "mt_prehashed t' = mt_prehashed t"
  shows "set_internals modulus t' (get_internals t) = Ok t"
proof -
  let ?f = "\<lambda>i. case fmlookup (mt_cache t) i of Some h \<Rightarrow> h | None \<Rightarrow> 0"
  have dom: "i \<in> fset (fmdom (mt_cache t)) \<Longrightarrow> ?f i < modulus" for i
    using assms(1) by (auto simp: fmlookup_dom_iff)
  obtain m where m: "read_cache modulus (map (\<lambda>i. (i, to_be 32 (?f i))) (sorted_list_of_fset (fmdom (mt_cache t)))) = Ok m"
    "\<forall>i. fmlookup m i = (if i \<in> fset (fmdom (mt_cache t)) then Some (?f i) else None)"
    using read_cache_map [of "sorted_list_of_fset (fmdom (mt_cache t))" ?f modulus] dom assms(2)
    by (auto simp: sorted_list_of_fset.rep_eq)
  have "m = mt_cache t"
    by (rule fmap_ext) (auto simp: m(2) fmlookup_dom_iff split: option.split)
  then show ?thesis
    using m(1) assms(3-5) by (simp add: set_internals_def get_internals_def)
qed

end
