(* ===== verification/SequentialTree.thy ===== *)
theory SequentialTree
  imports MerkleProps
begin

text \<open>
  The other sparse Merkle tree, @core/lib/crypto/src/merkle_tree/sequential_smt.rs@: it keeps the hash of every
  node above an item that was ever set, under a packed index of level and position, and renews the
  hashes up to the root at every insertion.  Depths and positions are unbounded numbers below those
  of the capacity; the packed index is that of the source, with its wrapping at 64 bits.
\<close>

section \<open>The tree\<close>

type_synonym hash_index = "nat \<times> nat"

definition pack_index :: "hash_index \<Rightarrow> nat" where
  "pack_index i = (case i of (level, pos) \<Rightarrow> ((level mod 2 ^ 64) * 2 ^ 32 mod 2 ^ 64 + pos mod 2 ^ 64) mod 2 ^ 64)"

record ('t, 'h) seq_tree =
  sq_tree_depth :: nat
  sq_prehashed :: "'h list"
  sq_items :: "(nat, 't) fmap"
  sq_hashes :: "(nat, 'h) fmap"

definition seq_capacity :: "('t, 'h) seq_tree \<Rightarrow> nat" where
  "seq_capacity t = 2 ^ sq_tree_depth t"

definition seq_new :: "('t, 'h) hasher \<Rightarrow> nat \<Rightarrow> (unit, ('t, 'h) seq_tree) res" where
  "seq_new H tree_depth =
    (let prehashed = prehash H tree_depth
     in res_map (\<lambda>_. \<lparr>sq_tree_depth = tree_depth, sq_prehashed = prehashed, sq_items = fmempty, sq_hashes = fmempty\<rparr>)
       (assert_that (size prehashed - 1 = tree_depth)))"

definition seq_get :: "('t, 'h) seq_tree \<Rightarrow> nat \<Rightarrow> 't option" where
  "seq_get t index = fmlookup (sq_items t) index"

definition get_hash_seq :: "('t, 'h) seq_tree \<Rightarrow> hash_index \<Rightarrow> (unit, 'h) res" where
  "get_hash_seq t index =
    res_bind (assert_that (fst index \<le> sq_tree_depth t)) (\<lambda>_.
    res_bind (assert_that (snd index < seq_capacity t)) (\<lambda>_.
      case fmlookup (sq_hashes t) (pack_index index) of
        Some hash \<Rightarrow> Ok hash
      | None \<Rightarrow> expect (nth_opt (sq_prehashed t) (fst index))))"

definition update_hash :: "('t, 'h) hasher \<Rightarrow> ('t, 'h) seq_tree \<Rightarrow> hash_index \<Rightarrow> (unit, ('t, 'h) seq_tree) res" where
  "update_hash H t index =
    res_bind (assert_that (fst index < sq_tree_depth t)) (\<lambda>_.
    res_bind (assert_that (snd index < seq_capacity t)) (\<lambda>_.
    res_bind (get_hash_seq t (fst index + 1, snd index * 2)) (\<lambda>lhs_hash.
    res_bind (get_hash_seq t (fst index + 1, snd index * 2 + 1)) (\<lambda>rhs_hash.
      Ok (t\<lparr>sq_hashes := fmupd (pack_index index) (compress H lhs_hash rhs_hash (sq_tree_depth t - 1 - fst index)) (sq_hashes t)\<rparr>)))))"

text \<open>The loop over the levels above the node at the index.\<close>

fun update_hashes_up :: "('t, 'h) hasher \<Rightarrow> ('t, 'h) seq_tree \<Rightarrow> nat \<Rightarrow> nat \<Rightarrow> (unit, ('t, 'h) seq_tree) res" where
  "update_hashes_up H t 0 pos = Ok t"
| "update_hashes_up H t (Suc level) pos =
     res_bind (update_hash H t (level, pos div 2)) (\<lambda>t. update_hashes_up H t level (pos div 2))"

definition recalculate_hashes :: "('t, 'h) hasher \<Rightarrow> ('t, 'h) seq_tree \<Rightarrow> nat \<Rightarrow> 't \<Rightarrow> (unit, ('t, 'h) seq_tree) res" where
  "recalculate_hashes H t index item =
    (let hash = hash_bits H (item_bits H item)
     in update_hashes_up H (t\<lparr>sq_hashes := fmupd (pack_index (sq_tree_depth t, index)) hash (sq_hashes t)\<rparr>) (sq_tree_depth t) index)"

definition seq_insert :: "('t, 'h) hasher \<Rightarrow> ('t, 'h) seq_tree \<Rightarrow> nat \<Rightarrow> 't \<Rightarrow> (unit, ('t, 'h) seq_tree) res" where
  "seq_insert H t index item =
    res_bind (assert_that (index < seq_capacity t)) (\<lambda>_.
    res_map (\<lambda>t. t\<lparr>sq_items := fmupd index item (sq_items t)\<rparr>) (recalculate_hashes H t index item))"

definition seq_remove :: "('t, 'h) hasher \<Rightarrow> ('t, 'h) seq_tree \<Rightarrow> nat \<Rightarrow> (unit, 't option \<times> ('t, 'h) seq_tree) res" where
  "seq_remove H t index =
    (let old = fmlookup (sq_items t) index
     in res_map (Pair old) (seq_insert H (t\<lparr>sq_items := fmdrop index (sq_items t)\<rparr>) index (default_item H)))"

definition seq_delete :: "('t, 'h) hasher \<Rightarrow> ('t, 'h) seq_tree \<Rightarrow> nat \<Rightarrow> (unit, ('t, 'h) seq_tree) res" where
  "seq_delete H t index = res_map snd (seq_remove H t index)"

definition seq_root_hash :: "('t, 'h) seq_tree \<Rightarrow> (unit, 'h) res" where
  "seq_root_hash t = get_hash_seq t (0, 0)"

text \<open>The proof for the node at the level, up to the root.  The exclusive or with 1 is written out.\<close>

fun seq_path_up :: "('t, 'h) seq_tree \<Rightarrow> nat \<Rightarrow> nat \<Rightarrow> (unit, ('h \<times> bool) list) res" where
  "seq_path_up t 0 pos = Ok []"
| "seq_path_up t (Suc level) pos =
     res_bind (get_hash_seq t (Suc level, if even pos then pos + 1 else pos - 1)) (\<lambda>hash.
     res_map ((#) (hash, odd pos)) (seq_path_up t level (pos div 2)))"

definition seq_merkle_path :: "('t, 'h) seq_tree \<Rightarrow> nat \<Rightarrow> (unit, ('h \<times> bool) list) res" where
  "seq_merkle_path t index =
    res_bind (assert_that (index < seq_capacity t)) (\<lambda>_. seq_path_up t (sq_tree_depth t) index)"

section \<open>Packed indices\<close>

lemma pack_index_inj:
  assumes "l \<le> 32" "i < 2 ^ l" "l' \<le> 32" "i' < 2 ^ l'" "pack_index (l, i) = pack_index (l', i')"
  shows "l = l' \<and> i = i'"
proof -
  have small: "j < 2 ^ 32" if "k \<le> 32" "j < 2 ^ k" for j k :: nat
    using that power_increasing [of k 32 "2 :: nat"] by simp
  have pack: "pack_index (k, j) = k * 2 ^ 32 + j \<and> j < 2 ^ 32" if "k \<le> 32" "j < 2 ^ k" for j k
    using small [OF that] that(1) by (simp add: pack_index_def)
  have eq: "l * 2 ^ 32 + i = l' * 2 ^ 32 + i'" and i: "i < 2 ^ 32" "i' < 2 ^ 32"
    using pack [OF assms(1,2)] pack [OF assms(3,4)] assms(5) by simp_all
  have "(l * 2 ^ 32 + i) div 2 ^ 32 = l" "(l' * 2 ^ 32 + i') div 2 ^ 32 = l'" using i by simp_all
  then have "l = l'" using eq by simp
  with eq show ?thesis by simp
qed

section \<open>Every hash is that of the full tree\<close>

definition seq_ok :: "('t, 'h) hasher \<Rightarrow> ('t, 'h) seq_tree \<Rightarrow> bool" where
  "seq_ok H t \<longleftrightarrow> 0 < sq_tree_depth t \<and> sq_tree_depth t \<le> 32 \<and> sq_prehashed t = prehash H (sq_tree_depth t) \<and>
    (\<forall>l \<le> sq_tree_depth t. \<forall>i < 2 ^ l. get_hash_seq t (l, i) =
      Ok (full_hash H (sq_items t) (sq_tree_depth t) (sq_tree_depth t - l) (2 ^ l + i)))"

lemma seq_updates_commute: "t\<lparr>sq_items := I, sq_hashes := hs\<rparr> = t\<lparr>sq_hashes := hs, sq_items := I\<rparr>"
  by simp

lemma get_hash_items [simp]: "get_hash_seq (t\<lparr>sq_items := I\<rparr>) i = get_hash_seq t i"
  by (simp add: get_hash_seq_def seq_capacity_def split: option.split)

lemma get_hash_pos: "l \<le> sq_tree_depth t \<Longrightarrow> i < 2 ^ l \<Longrightarrow> i < seq_capacity t"
  using order.strict_trans2 [OF _ power_increasing [of l "sq_tree_depth t" "2 :: nat"], of i] by (simp add: seq_capacity_def)

lemma get_hash_updated:
  assumes "sq_tree_depth t \<le> 32" "l \<le> sq_tree_depth t" "i < 2 ^ l" "l' \<le> sq_tree_depth t" "i' < 2 ^ l'"
  shows "get_hash_seq (t\<lparr>sq_hashes := fmupd (pack_index (l, i)) h (sq_hashes t)\<rparr>) (l', i') =
    (if l' = l \<and> i' = i then Ok h else get_hash_seq t (l', i'))"
  using pack_index_inj [of l i l' i'] assms get_hash_pos [OF assms(4,5)]
  by (auto simp: get_hash_seq_def seq_capacity_def assert_that_def split: option.split)

text \<open>On the way up, the hashes of all the nodes are right but for those above the current one.\<close>

definition right_but_above :: "('t, 'h) hasher \<Rightarrow> (nat, 't) fmap \<Rightarrow> nat \<Rightarrow> nat \<Rightarrow> ('t, 'h) seq_tree \<Rightarrow> bool" where
  "right_but_above H items level pos t \<longleftrightarrow>
    (\<forall>l \<le> sq_tree_depth t. \<forall>i < 2 ^ l. (l < level \<longrightarrow> i \<noteq> pos div 2 ^ (level - l)) \<longrightarrow>
      get_hash_seq t (l, i) = Ok (full_hash H items (sq_tree_depth t) (sq_tree_depth t - l) (2 ^ l + i)))"

lemma full_hash_children:
  assumes "l < D"
  shows "full_hash H items D (D - l) (2 ^ l + i) =
    compress H (full_hash H items D (D - (l + 1)) (2 ^ (l + 1) + i * 2)) (full_hash H items D (D - (l + 1)) (2 ^ (l + 1) + (i * 2 + 1)))
      (D - 1 - l)"
proof -
  have "D - l = Suc (D - (l + 1))" using assms by simp
  then show ?thesis by (simp add: child_index.simps algebra_simps)
qed

lemma update_hash_ok:
  assumes D: "sq_tree_depth t \<le> 32" "Suc level \<le> sq_tree_depth t" "pos < 2 ^ Suc level"
    and right: "right_but_above H items (Suc level) pos t"
  shows "\<exists>hs. update_hash H t (level, pos div 2) = Ok (t\<lparr>sq_hashes := hs\<rparr>) \<and>
    right_but_above H items level (pos div 2) (t\<lparr>sq_hashes := hs\<rparr>)"
proof -
  let ?D = "sq_tree_depth t" and ?p = "pos div 2"
  have p: "?p < 2 ^ level" using D(3) by simp
  have child: "get_hash_seq t (level + 1, j) = Ok (full_hash H items ?D (?D - (level + 1)) (2 ^ (level + 1) + j))" if "j < 2 ^ (level + 1)" for j
    using right that D(2) by (simp add: right_but_above_def)
  have kids: "?p * 2 < 2 ^ (level + 1)" "?p * 2 + 1 < 2 ^ (level + 1)" using p by simp_all
  let ?h = "full_hash H items ?D (?D - level) (2 ^ level + ?p)"
  let ?t = "t\<lparr>sq_hashes := fmupd (pack_index (level, ?p)) ?h (sq_hashes t)\<rparr>"
  have "update_hash H t (level, ?p) = Ok ?t"
    using D(2) get_hash_pos [of level t ?p] p child [OF kids(1)] child [OF kids(2)] full_hash_children [of level ?D H items ?p]
    by (simp add: update_hash_def assert_that_def)
  moreover have "right_but_above H items level ?p ?t"
    unfolding right_but_above_def
  proof (intro allI impI)
    fix l i
    assume l: "l \<le> sq_tree_depth ?t" and i: "i < 2 ^ l" and off: "l < level \<longrightarrow> i \<noteq> ?p div 2 ^ (level - l)"
    have "l < Suc level \<longrightarrow> i \<noteq> pos div 2 ^ (Suc level - l)" if "\<not> (l = level \<and> i = ?p)"
      using off that by (cases "l = level") (auto simp: Suc_diff_le div_mult2_eq)
    then show "get_hash_seq ?t (l, i) = Ok (full_hash H items (sq_tree_depth ?t) (sq_tree_depth ?t - l) (2 ^ l + i))"
      using get_hash_updated [of t level ?p l i ?h] D(1,2) p l i right by (auto simp: right_but_above_def)
  qed
  ultimately show ?thesis by blast
qed

lemma update_hashes_up_ok:
  "sq_tree_depth t \<le> 32 \<Longrightarrow> level \<le> sq_tree_depth t \<Longrightarrow> pos < 2 ^ level \<Longrightarrow> right_but_above H items level pos t \<Longrightarrow>
    \<exists>hs. update_hashes_up H t level pos = Ok (t\<lparr>sq_hashes := hs\<rparr>) \<and> right_but_above H items 0 0 (t\<lparr>sq_hashes := hs\<rparr>)"
proof (induction level arbitrary: t pos)
  case 0
  then show ?case by (intro exI [of _ "sq_hashes t"]) simp
next
  case (Suc level)
  obtain hs where hs: "update_hash H t (level, pos div 2) = Ok (t\<lparr>sq_hashes := hs\<rparr>)"
    "right_but_above H items level (pos div 2) (t\<lparr>sq_hashes := hs\<rparr>)"
    using update_hash_ok [of t level pos H items] Suc.prems by blast
  have "\<exists>hs'. update_hashes_up H (t\<lparr>sq_hashes := hs\<rparr>) level (pos div 2) = Ok ((t\<lparr>sq_hashes := hs\<rparr>)\<lparr>sq_hashes := hs'\<rparr>) \<and>
      right_but_above H items 0 0 ((t\<lparr>sq_hashes := hs\<rparr>)\<lparr>sq_hashes := hs'\<rparr>)"
    by (rule Suc.IH) (use Suc.prems hs(2) in simp_all)
  with hs(1) show ?case by auto
qed

lemma seq_insert_ok:
  assumes ok: "seq_ok H t" and x: "x < 2 ^ sq_tree_depth t"
  shows "\<exists>hs. seq_insert H t x y = Ok (t\<lparr>sq_hashes := hs, sq_items := fmupd x y (sq_items t)\<rparr>) \<and>
    seq_ok H (t\<lparr>sq_hashes := hs, sq_items := fmupd x y (sq_items t)\<rparr>)"
proof -
  let ?D = "sq_tree_depth t" and ?items = "fmupd x y (sq_items t)"
  let ?h = "hash_bits H (item_bits H y)"
  let ?t = "t\<lparr>sq_hashes := fmupd (pack_index (?D, x)) ?h (sq_hashes t)\<rparr>"
  have D: "0 < ?D" "?D \<le> 32" using ok by (simp_all add: seq_ok_def)
  have "right_but_above H ?items ?D x ?t"
    unfolding right_but_above_def
  proof (intro allI impI)
    fix l i
    assume l: "l \<le> sq_tree_depth ?t" and i: "i < 2 ^ l" and off: "l < ?D \<longrightarrow> i \<noteq> x div 2 ^ (?D - l)"
    show "get_hash_seq ?t (l, i) = Ok (full_hash H ?items (sq_tree_depth ?t) (sq_tree_depth ?t - l) (2 ^ l + i))"
    proof (cases "l = ?D \<and> i = x")
      case True
      then show ?thesis using get_hash_updated [of t ?D x ?D x ?h] D x by simp
    next
      case False
      have depth: "index_depth (2 ^ l + i) = l" "1 \<le> 2 ^ l + i" using leaf_depth [OF i] by (simp_all add: Suc_le_eq)
      have "\<not> anc (2 ^ l + i) (2 ^ ?D + x)"
      proof
        assume "anc (2 ^ l + i) (2 ^ ?D + x)"
        then have "(2 ^ ?D + x) div 2 ^ (?D - l) = 2 ^ l + i"
          using anc_div [OF depth(2), of "2 ^ ?D + x"] depth(1) leaf_depth [OF x] by simp
        moreover have "(2 ^ ?D + x) div 2 ^ (?D - l) = 2 ^ l + x div 2 ^ (?D - l)"
        proof -
          obtain d where "?D = l + d" using l by (auto simp: le_iff_add)
          then show ?thesis by (simp add: power_add)
        qed
        ultimately have "i = x div 2 ^ (?D - l)" by simp
        with off False l show False by auto
      qed
      then have "full_hash H ?items ?D (?D - l) (2 ^ l + i) = full_hash H (sq_items t) ?D (?D - l) (2 ^ l + i)"
        by (intro full_hash_other) (use depth l x D in simp_all)
      moreover have "get_hash_seq ?t (l, i) = get_hash_seq t (l, i)"
        using get_hash_updated [of t ?D x l i ?h] D x l i False by auto
      ultimately show ?thesis using ok l i by (simp add: seq_ok_def)
    qed
  qed
  then obtain hs where hs: "update_hashes_up H ?t ?D x = Ok (?t\<lparr>sq_hashes := hs\<rparr>)" "right_but_above H ?items 0 0 (?t\<lparr>sq_hashes := hs\<rparr>)"
    using update_hashes_up_ok [of ?t ?D x H ?items] D x by auto
  then have "seq_insert H t x y = Ok (t\<lparr>sq_hashes := hs, sq_items := ?items\<rparr>)"
    using x by (simp add: seq_insert_def assert_that_def seq_capacity_def recalculate_hashes_def Let_def)
  moreover have "seq_ok H (t\<lparr>sq_hashes := hs, sq_items := ?items\<rparr>)"
    using hs(2) ok by (simp add: seq_ok_def right_but_above_def)
  ultimately show ?thesis by blast
qed

lemma update_hashes_up_items:
  "update_hashes_up H (t\<lparr>sq_items := I\<rparr>) level pos = res_map (\<lambda>t. t\<lparr>sq_items := I\<rparr>) (update_hashes_up H t level pos)"
proof (induction level arbitrary: t pos)
  case (Suc level)
  have "update_hash H (t\<lparr>sq_items := I\<rparr>) i = res_map (\<lambda>t. t\<lparr>sq_items := I\<rparr>) (update_hash H t i)" for t i
    unfolding update_hash_def get_hash_items seq_capacity_def
    by (cases "get_hash_seq t (fst i + 1, snd i * 2)"; cases "get_hash_seq t (fst i + 1, snd i * 2 + 1)")
      (simp_all add: assert_that_def)
  with Suc.IH show ?case by (cases "update_hash H t (level, pos div 2)") simp_all
qed simp

lemma seq_remove_ok:
  assumes ok: "seq_ok H t" and x: "x < 2 ^ sq_tree_depth t"
  shows "\<exists>t'. seq_remove H t x = Ok (fmlookup (sq_items t) x, t') \<and> seq_ok H t' \<and>
    sq_items t' = fmupd x (default_item H) (sq_items t) \<and> sq_tree_depth t' = sq_tree_depth t"
proof -
  let ?I = "fmdrop x (sq_items t)" and ?y = "default_item H"
  obtain hs where hs: "seq_insert H t x ?y = Ok (t\<lparr>sq_hashes := hs, sq_items := fmupd x ?y (sq_items t)\<rparr>)"
    "seq_ok H (t\<lparr>sq_hashes := hs, sq_items := fmupd x ?y (sq_items t)\<rparr>)"
    using seq_insert_ok [OF assms] by blast
  then obtain t1 where t1: "recalculate_hashes H t x ?y = Ok t1"
    "t1\<lparr>sq_items := fmupd x ?y (sq_items t1)\<rparr> = t\<lparr>sq_hashes := hs, sq_items := fmupd x ?y (sq_items t)\<rparr>"
    by (auto simp: seq_insert_def ok_iffs)
  have "(t1\<lparr>sq_items := I\<rparr>) = t\<lparr>sq_hashes := hs, sq_items := I\<rparr>" for I
    using arg_cong [OF t1(2), of "\<lambda>t. t\<lparr>sq_items := I\<rparr>"] by simp
  moreover have "recalculate_hashes H (t\<lparr>sq_items := ?I\<rparr>) x ?y = Ok (t1\<lparr>sq_items := ?I\<rparr>)"
    using t1(1) update_hashes_up_items [where I = ?I and H = H
      and t = "t\<lparr>sq_hashes := fmupd (pack_index (sq_tree_depth t, x)) (hash_bits H (item_bits H ?y)) (sq_hashes t)\<rparr>"]
    by (simp add: recalculate_hashes_def Let_def seq_updates_commute del: seq_tree.update_convs)
  moreover have "fmupd x ?y ?I = fmupd x ?y (sq_items t)" by (rule fmap_ext) simp
  ultimately have "seq_remove H t x = Ok (fmlookup (sq_items t) x, t\<lparr>sq_hashes := hs, sq_items := fmupd x ?y (sq_items t)\<rparr>)"
    using x by (simp add: seq_remove_def seq_insert_def seq_capacity_def assert_that_def Let_def)
  with hs(2) show ?thesis by simp
qed

lemma empty_items_hash: "full_hash H fmempty D l i = hd (prehash H l)"
  by (induction l arbitrary: i) (simp_all add: Let_def)

lemma seq_new_ok:
  assumes "0 < D" "D \<le> 32"
  shows "\<exists>t. seq_new H D = Ok t \<and> seq_ok H t \<and> sq_items t = fmempty \<and> sq_tree_depth t = D"
  using assms
  by (simp add: seq_new_def Let_def prehash_size assert_that_def seq_ok_def get_hash_seq_def seq_capacity_def empty_items_hash prehash_nth
      order.strict_trans2 [OF _ power_increasing])

lemma seq_root_ok: "seq_ok H t \<Longrightarrow> seq_root_hash t = Ok (reference_root H (sq_tree_depth t) (sq_items t))"
  by (simp add: seq_ok_def seq_root_hash_def reference_root_def)

lemma seq_path_up_ok:
  assumes "seq_ok H t"
  defines "hash_of \<equiv> \<lambda>l i. full_hash H (sq_items t) (sq_tree_depth t) (sq_tree_depth t - l) (2 ^ l + i)"
  shows "level \<le> sq_tree_depth t \<Longrightarrow> pos < 2 ^ level \<Longrightarrow>
    \<exists>ps. seq_path_up t level pos = Ok ps \<and> size ps = level \<and> proof_index ps = pos \<and>
      fold_proof H (sq_tree_depth t - level) (hash_of level pos) ps = hash_of 0 0"
proof (induction level arbitrary: pos)
  case (Suc level)
  let ?D = "sq_tree_depth t" and ?sib = "if even pos then pos + 1 else pos - 1"
  have sib: "?sib < 2 ^ Suc level"
  proof (cases "even pos")
    case True
    then obtain q where "pos = 2 * q" by (rule evenE)
    with Suc.prems(2) show ?thesis by simp
  qed (use Suc.prems(2) in simp)
  then have hash: "get_hash_seq t (Suc level, ?sib) = Ok (hash_of (Suc level) ?sib)"
    using assms(1) Suc.prems(1) by (simp only: seq_ok_def hash_of_def)
  obtain ps where ps: "seq_path_up t level (pos div 2) = Ok ps" "size ps = level" "proof_index ps = pos div 2"
    "fold_proof H (?D - level) (hash_of level (pos div 2)) ps = hash_of 0 0"
    using Suc.IH [of "pos div 2"] Suc.prems less_mult_imp_div_less [of pos "2 ^ level" 2] by (auto simp: mult.commute)
  have "hash_of level (pos div 2) = compress H (hash_of (Suc level) (pos div 2 * 2)) (hash_of (Suc level) (pos div 2 * 2 + 1)) (?D - Suc level)"
    using full_hash_children [of level ?D H "sq_items t" "pos div 2"] Suc.prems(1) by (simp add: hash_of_def)
  moreover have "Suc (?D - Suc level) = ?D - level" using Suc.prems(1) by simp
  moreover have "pos div 2 * 2 = (if even pos then pos else pos - 1)" by (simp add: minus_mod_eq_div_mult [symmetric] odd_iff_mod_2_eq_one)
  ultimately have "fold_proof H (?D - Suc level) (hash_of (Suc level) pos) ((hash_of (Suc level) ?sib, odd pos) # ps) = hash_of 0 0"
    using ps(4) by (cases "even pos") (simp_all add: odd_pos)
  moreover have "2 * (pos div 2) + (if odd pos then 1 else 0) = pos" by simp
  ultimately show ?case using hash ps(1-3) by (intro exI [of _ "(hash_of (Suc level) ?sib, odd pos) # ps"]) simp
qed (simp add: hash_of_def)

section \<open>The interface of the tree\<close>

fun seq_step :: "('t, 'h) hasher \<Rightarrow> ('t, 'h) seq_tree \<Rightarrow> 't tree_op \<Rightarrow> (unit, ('t, 'h) seq_tree) res option" where
  "seq_step H t (TreeInsert i x) = Some (seq_insert H t i x)"
| "seq_step H t (TreeRemove i) = Some (seq_delete H t i)"
| "seq_step H t TreeRootHash = Some (res_map (\<lambda>_. t) (seq_root_hash t))"

definition seq_root :: "('t, 'h) seq_tree \<Rightarrow> (unit, 'h \<times> ('t, 'h) seq_tree) res option" where
  "seq_root t = Some (res_map (\<lambda>h. (h, t)) (seq_root_hash t))"

interpretation seq_smt: authenticated_map "seq_ok H" sq_items sq_tree_depth "seq_step H" seq_root "default_item H" "reference_root H"
  for H :: "('t, 'h) hasher"
proof unfold_locales
  fix t :: "('t, 'h) seq_tree" and op :: "'t tree_op"
  assume t: "seq_ok H t" and op: "op_within (2 ^ sq_tree_depth t) op"
  show "\<exists>t'. seq_step H t op = Some (Ok t') \<and> seq_ok H t' \<and>
    sq_items t' = content_after (default_item H) [op] (sq_items t) \<and> sq_tree_depth t' = sq_tree_depth t"
  proof (cases op)
    case (TreeInsert i x)
    then show ?thesis using seq_insert_ok [OF t, of i x] op by auto
  next
    case (TreeRemove i)
    then show ?thesis using seq_remove_ok [OF t, of i] op by (auto simp: seq_delete_def)
  qed (use seq_root_ok [OF t] t in auto)
qed (auto simp: seq_root_def seq_root_ok)

section \<open>Properties\<close>

text \<open>C19: the two implementations of the sparse Merkle tree agree: after any insertions, removals and calls of
  @root_hash@ on a new tree of each kind, of a depth of at most 32, both end without a panic and give the same
  root hash, that of the full tree over the items.\<close>

theorem sequential_equals_parallel:
  assumes "1 < D" "D \<le> 32" "list_all (op_within (2 ^ D)) ops"
  shows "\<exists>t t' p p' p''. seq_new H D = Ok t \<and> run_ops (seq_step H) t ops = Some (Ok t') \<and>
    merkle_new H D = Ok p \<and> run_ops (merkle_step H) p ops = Some (Ok p') \<and>
    (\<exists>h. seq_root_hash t' = Ok h \<and> root_hash H p' = Some (Ok (h, p'')) \<and>
      h = reference_root H D (content_after (default_item H) ops fmempty))"
proof -
  obtain t where t: "seq_new H D = Ok t" "seq_ok H t" "sq_items t = fmempty" "sq_tree_depth t = D"
    using seq_new_ok [of D H] assms by auto
  obtain p where p: "merkle_new H D = Ok p" "merkle_ok H p" "mt_items p = fmempty" "mt_tree_depth p = D"
    using new_tree_ok [OF assms(1), of H] by blast
  obtain t' where t': "run_ops (seq_step H) t ops = Some (Ok t')" "seq_ok H t'" "sq_tree_depth t' = D"
    "sq_items t' = content_after (default_item H) ops fmempty"
    using seq_smt.run_law [OF t(2), of ops] t(3,4) assms(3) by auto
  obtain p' p'' where "run_ops (merkle_step H) p ops = Some (Ok p')"
    "root_hash H p' = Some (Ok (reference_root H D (content_after (default_item H) ops fmempty), p''))"
    using smt.root_after_run [OF p(2), of ops] p(3,4) assms(3) by auto
  then show ?thesis using t(1) t' p(1) seq_root_ok [OF t'(2)] by auto
qed

theorem sequential_equals_parallel_witness:
  "\<exists>t t' p p' p'' h. seq_new sample_hasher 3 = Ok t \<and> merkle_new sample_hasher 3 = Ok p \<and>
    run_ops (seq_step sample_hasher) t [TreeInsert 0 1, TreeRemove 5, TreeInsert 3 2] = Some (Ok t') \<and>
    run_ops (merkle_step sample_hasher) p [TreeInsert 0 1, TreeRemove 5, TreeInsert 3 2] = Some (Ok p') \<and>
    seq_root_hash t' = Ok h \<and> root_hash sample_hasher p' = Some (Ok (h, p''))"
  using sequential_equals_parallel [of 3 "[TreeInsert 0 1, TreeRemove 5, TreeInsert 3 2]" sample_hasher] by auto

lemma sequential_path_verifies:
  assumes "seq_ok H t" "x < 2 ^ sq_tree_depth t"
  shows "\<exists>ps root. seq_merkle_path t x = Ok ps \<and> seq_root_hash t = Ok root \<and> size ps = sq_tree_depth t \<and> proof_index ps = x \<and>
    fold_proof H 0 (hash_bits H (item_bits H (case seq_get t x of Some y \<Rightarrow> y | None \<Rightarrow> default_item H))) ps = root"
  using seq_path_up_ok [OF assms(1), of "sq_tree_depth t" x] seq_root_ok [OF assms(1)] assms(2)
  by (auto simp: seq_merkle_path_def assert_that_def seq_capacity_def seq_get_def reference_root_def)

text \<open>In a tree of depth 33 two nodes share one packed index.\<close>

lemma packed_indices_collide: "pack_index (33, 2 ^ 32) = pack_index (34, 0)"
  by (simp add: pack_index_def)

end
