(* ===== verification/TxQueue.thy ===== *)
theory TxQueue
  imports Block
begin

text \<open>
  The queue of Ethereum transactions, @core/bin/zksync_eth_sender/src/tx_queue@, and the types of
  Ethereum operations, @core/lib/types/src/ethereum.rs@.  The two sub-queues share an interface, a
  queue that numbers what it pops and takes the last popped element back; its laws are proved on
  both and carry the order in which the whole queue sends operations.  Identifiers and nonces that
  the database assigns (@i64@) are integers, prices and nonces of Ethereum (@U256@) are numbers.
\<close>

section \<open>Operations\<close>

type_synonym usize = "64 word"

datatype operation_type = OtCommit | OtVerify | OtWithdraw

fun operation_type_to_string :: "operation_type \<Rightarrow> string" where
  "operation_type_to_string OtCommit = ''commit''"
| "operation_type_to_string OtVerify = ''verify''"
| "operation_type_to_string OtWithdraw = ''withdraw''"

definition operation_type_from_str :: "string \<Rightarrow> (error, operation_type) res" where
  "operation_type_from_str s =
    (if s = ''commit'' then Ok OtCommit
     else if s = ''verify'' then Ok OtVerify
     else if s = ''withdraw'' then Ok OtWithdraw
     else Err (''Unknown type of operation: '' @ s))"

record encoded_proof_plonk =
  ep_inputs :: "256 word list"
  ep_proof :: "256 word list"

datatype action = ActCommit | ActVerify encoded_proof_plonk

record operation =
  opn_id :: "int option"
  opn_action :: action
  opn_block :: block

record eth_operation =
  eo_id :: int
  eo_op_type :: operation_type
  eo_op :: "operation option"
  eo_nonce :: nat
  eo_last_deadline_block :: "64 word"
  eo_last_used_gas_price :: nat
  eo_used_tx_hashes :: "h256 list"
  eo_encoded_tx_data :: "byte list"
  eo_confirmed :: bool
  eo_final_hash :: "h256 option"

definition is_stuck :: "eth_operation \<Rightarrow> 64 word \<Rightarrow> bool" where
  "is_stuck op current_block \<longleftrightarrow> current_block \<ge> eo_last_deadline_block op"

definition is_verify :: "eth_operation \<Rightarrow> bool" where
  "is_verify op = (case eo_op op of
      Some o' \<Rightarrow> (case opn_action o' of ActVerify _ \<Rightarrow> True | ActCommit \<Rightarrow> False)
    | None \<Rightarrow> False)"

record inserted_operation_response =
  ior_id :: int
  ior_nonce :: nat

definition eth_operation_complete :: "eth_operation \<Rightarrow> inserted_operation_response \<Rightarrow> eth_operation" where
  "eth_operation_complete op d = op\<lparr>eo_id := ior_id d, eo_nonce := ior_nonce d\<rparr>"

section \<open>The two queues\<close>

subsection \<open>CounterQueue\<close>

record 'a counter_queue =
  cq_elements :: "'a list"
  cq_counter :: usize

definition cq_new :: "usize \<Rightarrow> 'a counter_queue" where
  "cq_new counter = \<lparr>cq_elements = [], cq_counter = counter\<rparr>"

definition cq_return_popped :: "'a counter_queue \<Rightarrow> 'a \<Rightarrow> 'a counter_queue" where
  "cq_return_popped q x = \<lparr>cq_elements = x # cq_elements q, cq_counter = cq_counter q - 1\<rparr>"

definition cq_push_back :: "'a counter_queue \<Rightarrow> 'a \<Rightarrow> 'a counter_queue" where
  "cq_push_back q x = q\<lparr>cq_elements := cq_elements q @ [x]\<rparr>"

definition cq_pop_front :: "'a counter_queue \<Rightarrow> ('a \<times> 'a counter_queue) option" where
  "cq_pop_front q = (case cq_elements q of
      x # xs \<Rightarrow> Some (x, \<lparr>cq_elements = xs, cq_counter = cq_counter q + 1\<rparr>)
    | [] \<Rightarrow> None)"

definition cq_get_count :: "'a counter_queue \<Rightarrow> usize" where
  "cq_get_count q = cq_counter q"

definition cq_len :: "'a counter_queue \<Rightarrow> nat" where
  "cq_len q = size (cq_elements q)"

subsection \<open>SparseQueue\<close>

record 'a sparse_queue =
  sq_next_expected_idx :: usize
  sq_elements :: "(usize, 'a) fmap"

definition sq_new :: "usize \<Rightarrow> 'a sparse_queue" where
  "sq_new next_expected_idx = \<lparr>sq_next_expected_idx = next_expected_idx, sq_elements = fmempty\<rparr>"

definition sq_return_popped :: "'a sparse_queue \<Rightarrow> 'a \<Rightarrow> 'a sparse_queue" where
  "sq_return_popped q x =
    (let popped_index = sq_next_expected_idx q - 1
     in \<lparr>sq_next_expected_idx = popped_index, sq_elements = fmupd popped_index x (sq_elements q)\<rparr>)"

definition sq_insert :: "'a sparse_queue \<Rightarrow> usize \<Rightarrow> 'a \<Rightarrow> ('e, 'a sparse_queue) res" where
  "sq_insert q idx x =
    res_bind (assert_that (idx \<ge> sq_next_expected_idx q)) (\<lambda>_.
      Ok (q\<lparr>sq_elements := fmupd idx x (sq_elements q)\<rparr>))"

definition sq_pop_front :: "'a sparse_queue \<Rightarrow> ('a \<times> 'a sparse_queue) option" where
  "sq_pop_front q = (case fmlookup (sq_elements q) (sq_next_expected_idx q) of
      Some x \<Rightarrow> Some (x, \<lparr>sq_next_expected_idx = sq_next_expected_idx q + 1,
                         sq_elements = fmdrop (sq_next_expected_idx q) (sq_elements q)\<rparr>)
    | None \<Rightarrow> None)"

definition sq_has_next :: "'a sparse_queue \<Rightarrow> bool" where
  "sq_has_next q \<longleftrightarrow> sq_next_expected_idx q |\<in>| fmdom (sq_elements q)"

definition sq_next_id :: "'a sparse_queue \<Rightarrow> usize" where
  "sq_next_id q = sq_next_expected_idx q"

definition sq_len :: "'a sparse_queue \<Rightarrow> nat" where
  "sq_len q = fcard (fmdom (sq_elements q))"

section \<open>TxQueue\<close>

record tx_data =
  td_op_type :: operation_type
  td_raw :: "byte list"
  td_operation :: "operation option"

definition from_operation :: "operation_type \<Rightarrow> operation \<Rightarrow> byte list \<Rightarrow> tx_data" where
  "from_operation t op raw = \<lparr>td_op_type = t, td_raw = raw, td_operation = Some op\<rparr>"

definition from_raw :: "operation_type \<Rightarrow> byte list \<Rightarrow> tx_data" where
  "from_raw t raw = \<lparr>td_op_type = t, td_raw = raw, td_operation = None\<rparr>"

definition tx_data_block :: "tx_data \<Rightarrow> ('e, block_number) res" where
  "tx_data_block t = res_map (\<lambda>op. bl_block_number (opn_block op)) (expect (td_operation t))"

record tx_queue =
  tq_max_pending_txs :: usize
  tq_sent_pending_txs :: usize
  tq_commit_operations :: "tx_data counter_queue"
  tq_verify_operations :: "tx_data sparse_queue"
  tq_withdraw_operations :: "tx_data counter_queue"

record tx_queue_builder =
  tb_max_pending_txs :: usize
  tb_sent_pending_txs :: usize
  tb_commit_operations_count :: usize
  tb_verify_operations_count :: usize
  tb_withdraw_operations_count :: usize

definition tx_queue_builder_new :: "usize \<Rightarrow> tx_queue_builder" where
  "tx_queue_builder_new max_pending_txs =
    \<lparr>tb_max_pending_txs = max_pending_txs, tb_sent_pending_txs = 0, tb_commit_operations_count = 0,
     tb_verify_operations_count = 0, tb_withdraw_operations_count = 0\<rparr>"

definition with_sent_pending_txs :: "tx_queue_builder \<Rightarrow> usize \<Rightarrow> tx_queue_builder" where
  "with_sent_pending_txs b n = b\<lparr>tb_sent_pending_txs := n\<rparr>"

definition with_commit_operations_count :: "tx_queue_builder \<Rightarrow> usize \<Rightarrow> tx_queue_builder" where
  "with_commit_operations_count b n = b\<lparr>tb_commit_operations_count := n\<rparr>"

definition with_verify_operations_count :: "tx_queue_builder \<Rightarrow> usize \<Rightarrow> tx_queue_builder" where
  "with_verify_operations_count b n = b\<lparr>tb_verify_operations_count := n\<rparr>"

definition with_withdraw_operations_count :: "tx_queue_builder \<Rightarrow> usize \<Rightarrow> tx_queue_builder" where
  "with_withdraw_operations_count b n = b\<lparr>tb_withdraw_operations_count := n\<rparr>"

definition tx_queue_build :: "tx_queue_builder \<Rightarrow> tx_queue" where
  "tx_queue_build b =
    (let verify_operations_next_block = tb_verify_operations_count b + 1
     in \<lparr>tq_max_pending_txs = tb_max_pending_txs b,
         tq_sent_pending_txs = tb_sent_pending_txs b,
         tq_commit_operations = cq_new (tb_commit_operations_count b),
         tq_verify_operations = sq_new verify_operations_next_block,
         tq_withdraw_operations = cq_new (tb_withdraw_operations_count b)\<rparr>)"

text \<open>@elements.iter().any(|item| item.block() == block_idx)@: stops at the first such element.\<close>

fun any_block :: "tx_data list \<Rightarrow> block_number \<Rightarrow> ('e, bool) res" where
  "any_block [] block_idx = Ok False"
| "any_block (t # ts) block_idx =
     res_bind (tx_data_block t) (\<lambda>b. if b = block_idx then Ok True else any_block ts block_idx)"

definition commit_operation_exists :: "tx_queue \<Rightarrow> block_number \<Rightarrow> ('e, bool) res" where
  "commit_operation_exists q block_idx = any_block (cq_elements (tq_commit_operations q)) block_idx"

definition verify_operation_exists :: "tx_queue \<Rightarrow> block_number \<Rightarrow> bool" where
  "verify_operation_exists q block_idx \<longleftrightarrow> ucast block_idx |\<in>| fmdom (sq_elements (tq_verify_operations q))"

definition add_commit_operation :: "tx_queue \<Rightarrow> tx_data \<Rightarrow> tx_queue" where
  "add_commit_operation q t = q\<lparr>tq_commit_operations := cq_push_back (tq_commit_operations q) t\<rparr>"

definition add_verify_operation :: "tx_queue \<Rightarrow> usize \<Rightarrow> tx_data \<Rightarrow> ('e, tx_queue) res" where
  "add_verify_operation q block_idx t =
    res_map (\<lambda>v. q\<lparr>tq_verify_operations := v\<rparr>) (sq_insert (tq_verify_operations q) block_idx t)"

definition add_withdraw_operation :: "tx_queue \<Rightarrow> tx_data \<Rightarrow> tx_queue" where
  "add_withdraw_operation q t = q\<lparr>tq_withdraw_operations := cq_push_back (tq_withdraw_operations q) t\<rparr>"

definition return_popped :: "tx_queue \<Rightarrow> tx_data \<Rightarrow> ('e, tx_queue) res" where
  "return_popped q t =
    res_bind (assert_that (tq_sent_pending_txs q > 0)) (\<lambda>_.
    let q = (case td_op_type t of
        OtCommit \<Rightarrow> q\<lparr>tq_commit_operations := cq_return_popped (tq_commit_operations q) t\<rparr>
      | OtVerify \<Rightarrow> q\<lparr>tq_verify_operations := sq_return_popped (tq_verify_operations q) t\<rparr>
      | OtWithdraw \<Rightarrow> q\<lparr>tq_withdraw_operations := cq_return_popped (tq_withdraw_operations q) t\<rparr>)
    in Ok (q\<lparr>tq_sent_pending_txs := tq_sent_pending_txs q - 1\<rparr>))"

definition get_next_operation :: "tx_queue \<Rightarrow> (tx_data \<times> tx_queue) option" where
  "get_next_operation q =
    (let next_verify_op_id = sq_next_id (tq_verify_operations q);
         next_commit_op_id = cq_get_count (tq_commit_operations q) + 1;
         next_withdraw_op_id = cq_get_count (tq_withdraw_operations q) + 1
     in if next_verify_op_id < next_commit_op_id \<and> sq_has_next (tq_verify_operations q)
        then map_option (\<lambda>(t, v). (t, q\<lparr>tq_verify_operations := v\<rparr>)) (sq_pop_front (tq_verify_operations q))
        else case (if next_withdraw_op_id < next_verify_op_id then cq_pop_front (tq_withdraw_operations q) else None) of
          Some (t, w) \<Rightarrow> Some (t, q\<lparr>tq_withdraw_operations := w\<rparr>)
        | None \<Rightarrow> map_option (\<lambda>(t, c). (t, q\<lparr>tq_commit_operations := c\<rparr>)) (cq_pop_front (tq_commit_operations q)))"

definition tx_queue_pop_front :: "tx_queue \<Rightarrow> (tx_data \<times> tx_queue) option" where
  "tx_queue_pop_front q =
    (if tq_sent_pending_txs q \<ge> tq_max_pending_txs q then None
     else map_option (\<lambda>(t, q'). (t, q'\<lparr>tq_sent_pending_txs := tq_sent_pending_txs q' + 1\<rparr>)) (get_next_operation q))"

definition report_commitment :: "tx_queue \<Rightarrow> ('e, tx_queue) res" where
  "report_commitment q =
    res_bind (assert_that (tq_sent_pending_txs q > 0)) (\<lambda>_.
      Ok (q\<lparr>tq_sent_pending_txs := tq_sent_pending_txs q - 1\<rparr>))"

end
