(* ===== verification/TxQueueProps.thy ===== *)
theory TxQueueProps
  imports TxQueue
begin

text \<open>
  What the transaction queue promises.  A queue that numbers what it pops is an interface with the
  two sub-queues as instances; a run of the whole queue is an inductive relation over its
  operations, and the order of the operations it sends is an invariant of every run.
\<close>

section \<open>A queue that numbers what it pops\<close>

locale numbered_queue =
  fixes pop :: "'q \<Rightarrow> ('a \<times> 'q) option" and ret :: "'q \<Rightarrow> 'a \<Rightarrow> 'q" and count :: "'q \<Rightarrow> usize"
  assumes pop_count: "pop q = Some (x, q') \<Longrightarrow> count q' = count q + 1"
    and ret_pop: "pop q = Some (x, q') \<Longrightarrow> ret q' x = q"
begin

fun pops :: "nat \<Rightarrow> 'q \<Rightarrow> ('a list \<times> 'q) option" where
  "pops 0 q = Some ([], q)"
| "pops (Suc n) q = (case pop q of None \<Rightarrow> None | Some (x, q') \<Rightarrow> map_option (\<lambda>(xs, q''). (x # xs, q'')) (pops n q'))"

lemma pops_count: "pops n q = Some (xs, q') \<Longrightarrow> size xs = n \<and> count q' = count q + of_nat n"
  by (induction n arbitrary: q xs) (auto dest!: pop_count split: option.splits)

text \<open>Returning what was popped, the last first, restores the queue.\<close>

lemma return_all: "pops n q = Some (xs, q') \<Longrightarrow> foldr (\<lambda>x q. ret q x) xs q' = q"
  by (induction n arbitrary: q xs) (auto dest!: ret_pop split: option.splits)

end

locale fifo_queue = numbered_queue pop ret count
  for pop :: "'q \<Rightarrow> ('a \<times> 'q) option" and ret :: "'q \<Rightarrow> 'a \<Rightarrow> 'q" and count :: "'q \<Rightarrow> usize" +
  fixes push :: "'q \<Rightarrow> 'a \<Rightarrow> 'q" and contents :: "'q \<Rightarrow> 'a list"
  assumes push_contents: "contents (push q x) = contents q @ [x]"
    and push_count: "count (push q x) = count q"
    and pop_contents: "pop q = Some (x, q') \<Longrightarrow> contents q = x # contents q'"
    and pop_none: "pop q = None \<longleftrightarrow> contents q = []"
begin

lemma pops_contents: "pops n q = Some (xs, q') \<Longrightarrow> contents q = xs @ contents q'"
  by (induction n arbitrary: q xs) (auto dest!: pop_contents split: option.splits)

end

interpretation counter: fifo_queue cq_pop_front cq_return_popped cq_get_count cq_push_back cq_elements
  by unfold_locales
    (auto simp: cq_pop_front_def cq_return_popped_def cq_get_count_def cq_push_back_def split: list.splits)

lemma fmupd_same: "fmlookup m k = Some x \<Longrightarrow> fmupd k x m = m"
  by (rule fmap_ext) auto

lemma sq_pop_count: "sq_pop_front q = Some (x, q') \<Longrightarrow> sq_next_id q' = sq_next_id q + 1"
  by (auto simp: sq_pop_front_def sq_next_id_def split: option.splits)

lemma sq_return: "sq_pop_front q = Some (x, q') \<Longrightarrow> sq_return_popped q' x = q"
  by (cases q) (auto simp: sq_pop_front_def sq_return_popped_def Let_def fmupd_same split: option.splits)

interpretation sparse: numbered_queue sq_pop_front sq_return_popped sq_next_id
  by unfold_locales (fact sq_pop_count sq_return)+

lemma sq_pop_front_None: "sq_pop_front q = None \<longleftrightarrow> \<not> sq_has_next q"
  by (auto simp: sq_pop_front_def sq_has_next_def fmlookup_dom_iff split: option.splits)

section \<open>What is sent next\<close>

text \<open>Every element sits in the queue of its type.\<close>

definition queue_typed :: "tx_queue \<Rightarrow> bool" where
  "queue_typed q \<longleftrightarrow>
    (\<forall>t \<in> set (cq_elements (tq_commit_operations q)). td_op_type t = OtCommit)
    \<and> (\<forall>i t. fmlookup (sq_elements (tq_verify_operations q)) i = Some t \<longrightarrow> td_op_type t = OtVerify)
    \<and> (\<forall>t \<in> set (cq_elements (tq_withdraw_operations q)). td_op_type t = OtWithdraw)"

lemma get_next_cases:
  assumes "get_next_operation q = Some (t, q')" "queue_typed q"
  obtains (verify) v where "td_op_type t = OtVerify" "sq_pop_front (tq_verify_operations q) = Some (t, v)"
      "q' = q\<lparr>tq_verify_operations := v\<rparr>"
      "sq_next_id (tq_verify_operations q) < cq_get_count (tq_commit_operations q) + 1"
    | (withdraw) w where "td_op_type t = OtWithdraw" "cq_pop_front (tq_withdraw_operations q) = Some (t, w)"
      "q' = q\<lparr>tq_withdraw_operations := w\<rparr>"
      "cq_get_count (tq_withdraw_operations q) + 1 < sq_next_id (tq_verify_operations q)"
    | (commit) c where "td_op_type t = OtCommit" "cq_pop_front (tq_commit_operations q) = Some (t, c)"
      "q' = q\<lparr>tq_commit_operations := c\<rparr>"
  using assms
  by (auto simp: get_next_operation_def Let_def queue_typed_def sq_pop_front_def cq_pop_front_def
      split: if_splits option.splits list.splits)

lemma pop_cases:
  assumes "tx_queue_pop_front q = Some (t, q'')"
  obtains q' where "tq_sent_pending_txs q < tq_max_pending_txs q" "get_next_operation q = Some (t, q')"
    "q'' = q'\<lparr>tq_sent_pending_txs := tq_sent_pending_txs q' + 1\<rparr>"
  using assms by (auto simp: tx_queue_pop_front_def split: if_splits)

lemma word_suc_gt_0: "x < y \<Longrightarrow> 0 < x + (1 :: 'w :: len word)"
proof -
  assume "x < y"
  have "x + 1 \<noteq> 0"
    using \<open>x < y\<close> word_order.extremum_strict [of y] by (auto simp flip: eq_neg_iff_add_eq_0)
  then show ?thesis
    by (simp add: word_gt_0)
qed

lemma get_next_sent: "get_next_operation q = Some (t, q') \<Longrightarrow> tq_sent_pending_txs q' = tq_sent_pending_txs q"
  by (auto simp: get_next_operation_def Let_def split: if_splits option.splits)

text \<open>The transaction returned right after it was popped leaves the queue as it was.\<close>

lemma pop_then_return:
  assumes "tx_queue_pop_front q = Some (t, q')" "queue_typed q"
  shows "(return_popped q' t :: ('e, tx_queue) res) = Ok q"
proof -
  obtain q1 where q1: "tq_sent_pending_txs q < tq_max_pending_txs q" "get_next_operation q = Some (t, q1)"
      "q' = q1\<lparr>tq_sent_pending_txs := tq_sent_pending_txs q1 + 1\<rparr>"
    using assms(1) by (rule pop_cases)
  have "tq_sent_pending_txs q + 1 > 0"
    using q1(1) by (rule word_suc_gt_0)
  with q1(2) assms(2) show ?thesis
    unfolding q1(3)
    by (cases rule: get_next_cases)
      (simp_all add: return_popped_def counter.ret_pop sparse.ret_pop Let_def)
qed

section \<open>Runs of the queue\<close>

datatype queue_event =
    AddCommit tx_data
  | AddVerify usize tx_data
  | AddWithdraw tx_data
  | PopSend
  | PopReturn
  | ReportCommitment

text \<open>
  A popped transaction is sent (@PopSend@) or returned at once (@PopReturn@), as
  @proceed_next_operations@ does.
\<close>

fun queue_step :: "tx_queue \<Rightarrow> queue_event \<Rightarrow> (unit, tx_data list \<times> tx_queue) res" where
  "queue_step q (AddCommit t) = Ok ([], add_commit_operation q t)"
| "queue_step q (AddVerify i t) = res_map (Pair []) (add_verify_operation q i t)"
| "queue_step q (AddWithdraw t) = Ok ([], add_withdraw_operation q t)"
| "queue_step q PopSend = (case tx_queue_pop_front q of None \<Rightarrow> Ok ([], q) | Some (t, q') \<Rightarrow> Ok ([t], q'))"
| "queue_step q PopReturn = (case tx_queue_pop_front q of None \<Rightarrow> Ok ([], q)
     | Some (t, q') \<Rightarrow> res_map (Pair []) (return_popped q' t))"
| "queue_step q ReportCommitment = res_map (Pair []) (report_commitment q)"

fun event_typed :: "queue_event \<Rightarrow> bool" where
  "event_typed (AddCommit t) \<longleftrightarrow> td_op_type t = OtCommit"
| "event_typed (AddVerify i t) \<longleftrightarrow> td_op_type t = OtVerify"
| "event_typed (AddWithdraw t) \<longleftrightarrow> td_op_type t = OtWithdraw"
| "event_typed _ \<longleftrightarrow> True"

text \<open>@queue_run b evs sent q@: from a queue built by @b@, the events lead to @q@ and send the list.\<close>

inductive queue_run :: "tx_queue_builder \<Rightarrow> queue_event list \<Rightarrow> tx_data list \<Rightarrow> tx_queue \<Rightarrow> bool" for b where
  start: "queue_run b [] [] (tx_queue_build b)"
| step: "queue_run b evs sent q \<Longrightarrow> event_typed e \<Longrightarrow> queue_step q e = Ok (out, q')
    \<Longrightarrow> queue_run b (evs @ [e]) (sent @ out) q'"

definition of_type :: "operation_type \<Rightarrow> tx_data list \<Rightarrow> tx_data list" where
  "of_type ty = filter (\<lambda>t. td_op_type t = ty)"

fun commit_added :: "queue_event \<Rightarrow> tx_data list" where
  "commit_added (AddCommit t) = [t]" | "commit_added _ = []"

fun withdraw_added :: "queue_event \<Rightarrow> tx_data list" where
  "withdraw_added (AddWithdraw t) = [t]" | "withdraw_added _ = []"

definition commits_added :: "queue_event list \<Rightarrow> tx_data list" where
  "commits_added evs = concat (map commit_added evs)"

definition withdraws_added :: "queue_event list \<Rightarrow> tx_data list" where
  "withdraws_added evs = concat (map withdraw_added evs)"

definition reports :: "queue_event list \<Rightarrow> nat" where
  "reports evs = size (filter ((=) ReportCommitment) evs)"

lemmas event_lists = of_type_def commits_added_def withdraws_added_def reports_def

lemma queue_step_cases:
  assumes "queue_step q e = Ok (out, q')" "queue_typed q" "event_typed e"
  obtains (add_commit) t where "e = AddCommit t" "out = []" "td_op_type t = OtCommit"
      "q' = q\<lparr>tq_commit_operations := cq_push_back (tq_commit_operations q) t\<rparr>"
    | (add_verify) i t where "e = AddVerify i t" "out = []" "td_op_type t = OtVerify"
      "q' = q\<lparr>tq_verify_operations := tq_verify_operations q\<lparr>sq_elements := fmupd i t (sq_elements (tq_verify_operations q))\<rparr>\<rparr>"
      "i \<ge> sq_next_expected_idx (tq_verify_operations q)"
    | (add_withdraw) t where "e = AddWithdraw t" "out = []" "td_op_type t = OtWithdraw"
      "q' = q\<lparr>tq_withdraw_operations := cq_push_back (tq_withdraw_operations q) t\<rparr>"
    | (idle) "e = PopSend \<or> e = PopReturn" "out = []" "q' = q"
    | (send) t q1 where "e = PopSend" "out = [t]" "get_next_operation q = Some (t, q1)"
      "tq_sent_pending_txs q < tq_max_pending_txs q"
      "q' = q1\<lparr>tq_sent_pending_txs := tq_sent_pending_txs q + 1\<rparr>"
    | (report) "e = ReportCommitment" "out = []" "tq_sent_pending_txs q > 0"
      "q' = q\<lparr>tq_sent_pending_txs := tq_sent_pending_txs q - 1\<rparr>"
proof (cases e)
  case PopSend
  show ?thesis
  proof (cases "tx_queue_pop_front q")
    case None
    then show ?thesis
      using PopSend assms(1) that(4) by simp
  next
    case (Some p)
    then obtain t q2 where p: "tx_queue_pop_front q = Some (t, q2)" "out = [t]" "q' = q2"
      using PopSend assms(1) by (cases p) simp
    from p(1) obtain q1 where "tq_sent_pending_txs q < tq_max_pending_txs q" "get_next_operation q = Some (t, q1)"
        "q2 = q1\<lparr>tq_sent_pending_txs := tq_sent_pending_txs q1 + 1\<rparr>"
      by (rule pop_cases)
    then show ?thesis
      using that(5) [OF PopSend p(2)] p(3) get_next_sent by simp
  qed
next
  case PopReturn
  show ?thesis
  proof (cases "tx_queue_pop_front q")
    case None
    then show ?thesis
      using PopReturn assms(1) that(4) by simp
  next
    case (Some p)
    then show ?thesis
      using PopReturn assms(1) that(4) pop_then_return [where 'e = unit, OF _ assms(2)] by (cases p) simp
  qed
qed (use assms that(1,2,3,6) in \<open>auto simp: add_commit_operation_def add_verify_operation_def add_withdraw_operation_def
    report_commitment_def sq_insert_def ok_iffs\<close>)

lemma get_next_typed: "get_next_operation q = Some (t, q') \<Longrightarrow> queue_typed q \<Longrightarrow> queue_typed q'"
  by (erule (1) get_next_cases)
    (auto simp: queue_typed_def sq_pop_front_def cq_pop_front_def split: option.splits list.splits if_splits)

lemma run_typed: "queue_run b evs sent q \<Longrightarrow> queue_typed q \<and> tq_max_pending_txs q = tb_max_pending_txs b"
proof (induction rule: queue_run.induct)
  case start
  then show ?case
    by (simp add: tx_queue_build_def queue_typed_def cq_new_def sq_new_def Let_def)
next
  case (step evs sent q e out q')
  have m: "tq_max_pending_txs q1 = tq_max_pending_txs q" if "get_next_operation q = Some (t, q1)" for t q1
    by (rule get_next_cases [OF that step.IH [THEN conjunct1]]) simp_all
  from step.hyps(3) step.IH [THEN conjunct1] step.hyps(2) show ?case
  proof (cases rule: queue_step_cases)
    case (send t q1)
    have "queue_typed q1"
      using send(3) step.IH get_next_typed by blast
    then show ?thesis
      using step.IH m [OF send(3)] by (simp add: send(5) queue_typed_def)
  qed (use step.IH in \<open>auto simp: queue_typed_def cq_push_back_def\<close>)
qed

lemma of_type_simps [simp]: "of_type ty [] = []" "of_type ty (xs @ ys) = of_type ty xs @ of_type ty ys"
    "of_type ty [t] = (if td_op_type t = ty then [t] else [])"
  by (simp_all add: of_type_def)

lemma added_simps [simp]: "commits_added [] = []" "withdraws_added [] = []"
    "commits_added (evs @ [e]) = commits_added evs @ commit_added e"
    "withdraws_added (evs @ [e]) = withdraws_added evs @ withdraw_added e"
    "reports [] = 0" "reports (evs @ [e]) = reports evs + (if e = ReportCommitment then 1 else 0)"
  by (auto simp: event_lists)

text \<open>Commit and withdraw operations are sent in the order in which they were added.\<close>

lemma run_fifo:
  assumes "queue_run b evs sent q"
  shows "of_type OtCommit sent @ cq_elements (tq_commit_operations q) = commits_added evs"
    "of_type OtWithdraw sent @ cq_elements (tq_withdraw_operations q) = withdraws_added evs"
proof -
  have "of_type OtCommit sent @ cq_elements (tq_commit_operations q) = commits_added evs
      \<and> of_type OtWithdraw sent @ cq_elements (tq_withdraw_operations q) = withdraws_added evs"
    using assms
  proof (induction rule: queue_run.induct)
    case start
    then show ?case
      by (simp add: tx_queue_build_def cq_new_def Let_def)
  next
    case (step evs sent q e out q')
    from step.hyps(3) run_typed [OF step.hyps(1), THEN conjunct1] step.hyps(2) show ?case
    proof (cases rule: queue_step_cases)
      case (send t q1)
      from send(3) run_typed [OF step.hyps(1), THEN conjunct1] show ?thesis
        by (cases rule: get_next_cases)
          (simp_all add: send(1,2,5) counter.pop_contents step.IH [THEN conjunct1, symmetric] step.IH [THEN conjunct2, symmetric])
    qed (auto simp: counter.push_contents step.IH [THEN conjunct1, symmetric] step.IH [THEN conjunct2, symmetric])
  qed
  then show "of_type OtCommit sent @ cq_elements (tq_commit_operations q) = commits_added evs"
    "of_type OtWithdraw sent @ cq_elements (tq_withdraw_operations q) = withdraws_added evs"
    by blast+
qed

text \<open>Verify operations are sent by their block numbers, one after another.\<close>

lemma run_verify:
  assumes "queue_run b evs sent q"
  shows "sq_next_id (tq_verify_operations q) = tb_verify_operations_count b + 1 + of_nat (size (of_type OtVerify sent))
    \<and> (\<forall>i < size (of_type OtVerify sent).
        AddVerify (tb_verify_operations_count b + 1 + of_nat i) (of_type OtVerify sent ! i) \<in> set evs)
    \<and> (\<forall>i t. fmlookup (sq_elements (tq_verify_operations q)) i = Some t \<longrightarrow> AddVerify i t \<in> set evs)"
  using assms
proof (induction rule: queue_run.induct)
  case start
  then show ?case
    by (simp add: tx_queue_build_def sq_new_def sq_next_id_def Let_def)
next
  case (step evs sent q e out q')
  note typed = run_typed [OF step.hyps(1), THEN conjunct1]
  from step.hyps(3) typed step.hyps(2) show ?case
  proof (cases rule: queue_step_cases)
    case (send t q1)
    from send(3) typed show ?thesis
    proof (cases rule: get_next_cases)
      case (verify v)
      have v: "fmlookup (sq_elements (tq_verify_operations q)) (sq_next_id (tq_verify_operations q)) = Some t"
          "sq_elements v = fmdrop (sq_next_id (tq_verify_operations q)) (sq_elements (tq_verify_operations q))"
        using verify(2) by (auto simp: sq_pop_front_def sq_next_id_def split: option.splits)
      have "AddVerify (tb_verify_operations_count b + 1 + of_nat (size (of_type OtVerify sent))) t \<in> set evs"
        using v(1) step.IH by simp
      then show ?thesis
        using step.IH v(2) sparse.pop_count [OF verify(2)]
        by (auto simp: send(1,2,5) verify(1,3) nth_append less_Suc_eq)
    qed (use step.IH in \<open>simp_all add: send(1,2,5)\<close>)
  qed (use step.IH in \<open>auto simp: sq_next_id_def\<close>)
qed

lemma unat_suc: "unat x + 1 < 2 ^ 64 \<Longrightarrow> unat (x + 1 :: usize) = unat x + 1"
  by (simp add: unat_word_ariths)

text \<open>No verify operation is ahead of the commit operations, no withdrawal ahead of the verify operations.\<close>

lemma run_counts:
  assumes "queue_run b evs sent q"
    "tb_withdraw_operations_count b \<le> tb_verify_operations_count b"
    "tb_verify_operations_count b \<le> tb_commit_operations_count b"
    "unat (tb_commit_operations_count b) + size evs + 1 < 2 ^ 64"
  shows "unat (cq_get_count (tq_commit_operations q)) = unat (tb_commit_operations_count b) + size (of_type OtCommit sent)
    \<and> unat (sq_next_id (tq_verify_operations q)) = unat (tb_verify_operations_count b) + size (of_type OtVerify sent) + 1
    \<and> unat (cq_get_count (tq_withdraw_operations q)) = unat (tb_withdraw_operations_count b) + size (of_type OtWithdraw sent)
    \<and> unat (tb_withdraw_operations_count b) + size (of_type OtWithdraw sent)
        \<le> unat (tb_verify_operations_count b) + size (of_type OtVerify sent)
    \<and> unat (tb_verify_operations_count b) + size (of_type OtVerify sent)
        \<le> unat (tb_commit_operations_count b) + size (of_type OtCommit sent)
    \<and> size (of_type OtCommit sent) \<le> size evs"
  using assms(1,4)
proof (induction rule: queue_run.induct)
  case start
  then show ?case
    using assms(2,3) unat_suc [of "tb_verify_operations_count b"]
    by (simp add: tx_queue_build_def cq_new_def sq_new_def cq_get_count_def sq_next_id_def Let_def word_le_nat_alt)
next
  case (step evs sent q e out q')
  note typed = run_typed [OF step.hyps(1), THEN conjunct1]
  have bound: "unat (tb_commit_operations_count b) + size evs + 2 < 2 ^ 64"
    using step.prems by simp
  note IH = step.IH [OF le_less_trans [OF _ bound]]
  from step.hyps(3) typed step.hyps(2) show ?case
  proof (cases rule: queue_step_cases)
    case (send t q1)
    from send(3) typed show ?thesis
    proof (cases rule: get_next_cases)
      case (verify v)
      then show ?thesis
        using IH bound sparse.pop_count [OF verify(2)] unat_suc [of "sq_next_id (tq_verify_operations q)"]
          unat_suc [of "cq_get_count (tq_commit_operations q)"]
        by (simp add: send(1,2,5) word_less_nat_alt)
    next
      case (withdraw w)
      then show ?thesis
        using IH bound counter.pop_count [OF withdraw(2)] unat_suc [of "cq_get_count (tq_withdraw_operations q)"]
        by (simp add: send(1,2,5) word_less_nat_alt)
    next
      case (commit c)
      then show ?thesis
        using IH bound counter.pop_count [OF commit(2)] unat_suc [of "cq_get_count (tq_commit_operations q)"]
        by (simp add: send(1,2,5))
    qed
  qed (use IH in \<open>simp_all add: counter.push_count sq_next_id_def\<close>)
qed

text \<open>The transactions in flight are those sent and not yet reported, and never more than the limit.\<close>

lemma run_in_flight:
  assumes "queue_run b evs sent q"
  shows "unat (tq_sent_pending_txs q) + reports evs = unat (tb_sent_pending_txs b) + size sent
    \<and> tq_sent_pending_txs q \<le> max (tb_sent_pending_txs b) (tb_max_pending_txs b)"
  using assms
proof (induction rule: queue_run.induct)
  case start
  then show ?case
    by (simp add: tx_queue_build_def Let_def)
next
  case (step evs sent q e out q')
  note typed = run_typed [OF step.hyps(1)]
  from step.hyps(3) typed [THEN conjunct1] step.hyps(2) show ?case
  proof (cases rule: queue_step_cases)
    case (send t q1)
    have "unat (tq_sent_pending_txs q + 1) = unat (tq_sent_pending_txs q) + 1"
      using send(4) by unat_arith
    moreover have "tq_sent_pending_txs q + 1 \<le> tb_max_pending_txs b"
      using send(4) typed by (simp add: inc_le)
    ultimately show ?thesis
      using step.IH by (simp add: send(1,2,5) le_max_iff_disj)
  next
    case report
    have "unat (tq_sent_pending_txs q - 1) + 1 = unat (tq_sent_pending_txs q)"
      "tq_sent_pending_txs q - 1 \<le> tq_sent_pending_txs q"
      using report(3) by unat_arith+
    then show ?thesis
      using step.IH by (auto simp: report(1,2,4) le_max_iff_disj)
  qed (use step.IH in auto)
qed

section \<open>The order of the operations sent\<close>

text \<open>C20: Whatever is added, popped, returned and reported, a verify operation is sent only after
  the commit operation of the same number, a withdraw operation only after the verify operation of
  the same number, each kind in the order of its queue, and the operations in flight stay within
  the limit (or what was in flight at the start).\<close>

theorem queue_sends_in_order:
  assumes "queue_run b evs sent q"
    "tb_withdraw_operations_count b \<le> tb_verify_operations_count b"
    "tb_verify_operations_count b \<le> tb_commit_operations_count b"
    "unat (tb_commit_operations_count b) + size evs + 1 < 2 ^ 64"
  shows "(unat (tb_withdraw_operations_count b) + size (of_type OtWithdraw sent)
        \<le> unat (tb_verify_operations_count b) + size (of_type OtVerify sent)
      \<and> unat (tb_verify_operations_count b) + size (of_type OtVerify sent)
        \<le> unat (tb_commit_operations_count b) + size (of_type OtCommit sent))
    \<and> of_type OtCommit sent @ cq_elements (tq_commit_operations q) = commits_added evs
    \<and> of_type OtWithdraw sent @ cq_elements (tq_withdraw_operations q) = withdraws_added evs
    \<and> (\<forall>i < size (of_type OtVerify sent).
        AddVerify (tb_verify_operations_count b + 1 + of_nat i) (of_type OtVerify sent ! i) \<in> set evs)
    \<and> unat (tb_sent_pending_txs b) + size sent
        \<le> reports evs + unat (max (tb_sent_pending_txs b) (tb_max_pending_txs b))"
proof -
  have "unat (tq_sent_pending_txs q) \<le> unat (max (tb_sent_pending_txs b) (tb_max_pending_txs b))"
    using run_in_flight [OF assms(1)] by (simp add: word_le_nat_alt)
  then show ?thesis
    using run_in_flight [OF assms(1)] run_counts [OF assms] run_fifo [OF assms(1)] run_verify [OF assms(1)] by simp
qed

text \<open>Runs can be computed.\<close>

fun queue_run_from :: "tx_data list \<Rightarrow> tx_queue \<Rightarrow> queue_event list \<Rightarrow> (unit, tx_data list \<times> tx_queue) res" where
  "queue_run_from sent q [] = Ok (sent, q)"
| "queue_run_from sent q (e # evs) = res_bind (queue_step q e) (\<lambda>(out, q'). queue_run_from (sent @ out) q' evs)"

lemma queue_run_from_run:
  "queue_run b pre sent q \<Longrightarrow> list_all event_typed evs \<Longrightarrow> queue_run_from sent q evs = Ok (sent', q')
    \<Longrightarrow> queue_run b (pre @ evs) sent' q'"
proof (induction evs arbitrary: pre sent q)
  case (Cons e evs)
  then obtain out q1 where q1: "queue_step q e = Ok (out, q1)" "queue_run_from (sent @ out) q1 evs = Ok (sent', q')"
    by (auto simp: res_bind_Ok_iff)
  have "queue_run b (pre @ [e]) (sent @ out) q1"
    using Cons.prems(1,2) q1(1) by (auto intro: queue_run.step)
  from Cons.IH [OF this _ q1(2)] Cons.prems(2) show ?case
    by simp
qed simp

definition mark :: "operation_type \<Rightarrow> byte \<Rightarrow> tx_data" where
  "mark t n = from_raw t [n]"

definition sample_events :: "queue_event list" where
  "sample_events = [AddCommit (mark OtCommit 0), AddCommit (mark OtCommit 1), AddVerify 1 (mark OtVerify 0),
    AddVerify 2 (mark OtVerify 1), AddWithdraw (mark OtWithdraw 0), PopSend, PopReturn, PopSend, PopSend, PopSend,
    ReportCommitment, PopSend]"

definition sample_sent :: "tx_data list" where
  "sample_sent = [mark OtCommit 0, mark OtVerify 0, mark OtWithdraw 0, mark OtCommit 1]"

lemma sample_queue_run:
  "\<exists>q. queue_run (tx_queue_builder_new 3) sample_events sample_sent q"
proof -
  have "res_map fst (queue_run_from [] (tx_queue_build (tx_queue_builder_new 3)) sample_events) = Ok sample_sent"
    by code_simp
  then have "\<exists>q. queue_run_from [] (tx_queue_build (tx_queue_builder_new 3)) sample_events = Ok (sample_sent, q)"
    by (auto simp: res_map_Ok_iff)
  then show ?thesis
    using queue_run_from_run [OF queue_run.start, of sample_events] by (auto simp: sample_events_def mark_def from_raw_def)
qed

lemma queue_sends_in_order_witness:
  "size (of_type OtVerify sample_sent) \<le> size (of_type OtCommit sample_sent)
    \<and> size sample_sent \<le> reports sample_events + 3"
proof -
  obtain q where q: "queue_run (tx_queue_builder_new 3) sample_events sample_sent q"
    using sample_queue_run by blast
  have "unat (tb_commit_operations_count (tx_queue_builder_new 3)) + size sample_events + 1 < 2 ^ 64"
    by (simp add: tx_queue_builder_new_def sample_events_def)
  then show ?thesis
    using queue_sends_in_order [OF q] by (simp add: tx_queue_builder_new_def max_def)
qed

end
