(* ===== verification/GasAdjuster.thy ===== *)
theory GasAdjuster
  imports GasCounter
begin

text \<open>
  The choice of the gas price, @core/bin/zksync_eth_sender/src/gas_adjuster@.  Prices are @U256@
  numbers, whose arithmetic panics on an overflow.  The scale factor of the environment, an @f64@
  that the code multiplies by 100 and rounds to an @u64@, is that number of percents; one reading of
  the clock, in seconds, serves a whole call.  The lemmas show that the limit follows the average
  of the last ten prices and what it does to the price of a transaction.
\<close>

section \<open>Statistics\<close>

definition u256_sub :: "nat \<Rightarrow> nat \<Rightarrow> ('e, nat) res" where
  "u256_sub a b = (if b \<le> a then Ok (a - b) else Panic)"

definition u256_div :: "nat \<Rightarrow> nat \<Rightarrow> ('e, nat) res" where
  "u256_div a b = (if b = 0 then Panic else Ok (a div b))"

record gas_statistics =
  gs_samples :: "nat list"
  gs_current_sum :: nat
  gs_current_max_price :: nat

definition GAS_PRICE_SAMPLES_AMOUNT :: nat where "GAS_PRICE_SAMPLES_AMOUNT = 10"

definition gas_statistics_new :: "nat \<Rightarrow> gas_statistics" where
  "gas_statistics_new initial_max_price =
    \<lparr>gs_samples = [], gs_current_sum = 0, gs_current_max_price = initial_max_price\<rparr>"

definition pop_sample :: "gas_statistics \<Rightarrow> ('e, gas_statistics) res" where
  "pop_sample st = (case gs_samples st of
      [] \<Rightarrow> Panic
    | popped_price # rest \<Rightarrow> res_map (\<lambda>s. st\<lparr>gs_samples := rest, gs_current_sum := s\<rparr>)
        (u256_sub (gs_current_sum st) popped_price))"

definition add_sample :: "gas_statistics \<Rightarrow> nat \<Rightarrow> ('e, gas_statistics) res" where
  "add_sample st price =
    res_bind (if size (gs_samples st) \<ge> GAS_PRICE_SAMPLES_AMOUNT then pop_sample st else Ok st) (\<lambda>st.
    res_map (\<lambda>s. st\<lparr>gs_samples := gs_samples st @ [price], gs_current_sum := s\<rparr>)
      (u256_add (gs_current_sum st) price))"

definition update_limit :: "gas_statistics \<Rightarrow> 64 word \<Rightarrow> ('e, gas_statistics) res" where
  "update_limit st percent =
    (if size (gs_samples st) < GAS_PRICE_SAMPLES_AMOUNT then Ok st
     else
       res_bind (u256_div (gs_current_sum st) (size (gs_samples st))) (\<lambda>average_price.
       res_bind (u256_mul average_price (unat percent)) (\<lambda>scaled.
       res_map (\<lambda>l. st\<lparr>gs_current_max_price := l\<rparr>) (u256_div scaled 100))))"

definition get_limit :: "gas_statistics \<Rightarrow> nat" where
  "get_limit st = gs_current_max_price st"

section \<open>The adjuster\<close>

record gas_adjuster =
  ga_statistics :: gas_statistics
  ga_last_price_renewal :: nat
  ga_last_sample_added :: nat

record gas_parameters =
  gp_limit_update_interval :: nat
  gp_limit_scale_percent :: "64 word"
  gp_sample_adding_interval :: nat

definition gas_adjuster_new :: "nat \<Rightarrow> nat \<Rightarrow> gas_adjuster" where
  "gas_adjuster_new gas_price_limit now =
    \<lparr>ga_statistics = gas_statistics_new gas_price_limit, ga_last_price_renewal = now, ga_last_sample_added = now\<rparr>"

definition get_current_max_price :: "gas_adjuster \<Rightarrow> nat" where
  "get_current_max_price g = get_limit (ga_statistics g)"

definition price_scale_up :: "nat \<Rightarrow> nat \<Rightarrow> ('e, nat) res" where
  "price_scale_up price_to_scale current_network_price =
    res_bind (res_bind (u256_mul price_to_scale 115) (\<lambda>x. u256_div x 100)) (\<lambda>replacement_price.
      Ok (max current_network_price replacement_price))"

definition limit_max :: "gas_adjuster \<Rightarrow> nat \<Rightarrow> nat" where
  "limit_max g price = min price (get_current_max_price g)"

definition get_average_gas_price :: "gas_adjuster \<Rightarrow> 64 word \<Rightarrow> ('e, nat) res" where
  "get_average_gas_price g percent =
    res_bind (u256_mul (get_limit (ga_statistics g)) 100) (\<lambda>x. u256_div x (unat percent))"

text \<open>The first argument is the answer of @ethereum.gas_price()@.\<close>

definition get_gas_price :: "('e, nat) res \<Rightarrow> gas_adjuster \<Rightarrow> nat option \<Rightarrow> ('e, nat) res" where
  "get_gas_price network g old_tx_gas_price =
    res_bind network (\<lambda>network_price.
    res_bind (case old_tx_gas_price of
        Some old_price \<Rightarrow> price_scale_up old_price network_price
      | None \<Rightarrow> Ok network_price) (\<lambda>scaled_price.
    Ok (limit_max g scaled_price)))"

text \<open>
  @keep_updated@: the answers are the gas price of the node and whether a connection to the
  database was acquired; the result carries the parameters written to the database.
\<close>

definition keep_updated ::
  "gas_parameters \<Rightarrow> nat \<Rightarrow> ('e, nat) res \<Rightarrow> bool \<Rightarrow> gas_adjuster \<Rightarrow> ('e, gas_adjuster \<times> (nat \<times> nat) option) res" where
  "keep_updated pars now network connected g =
    res_bind
      (if now - ga_last_sample_added g \<ge> gp_sample_adding_interval pars then
         (case network of
            Ok network_price \<Rightarrow> res_map (\<lambda>st. g\<lparr>ga_statistics := st, ga_last_sample_added := now\<rparr>)
              (add_sample (ga_statistics g) network_price)
          | Err e \<Rightarrow> Ok g
          | Panic \<Rightarrow> Panic)
       else Ok g) (\<lambda>g.
      if now - ga_last_price_renewal g \<ge> gp_limit_update_interval pars then
        res_bind (update_limit (ga_statistics g) (gp_limit_scale_percent pars)) (\<lambda>st.
        let g = g\<lparr>ga_statistics := st, ga_last_price_renewal := now\<rparr>
        in if connected then
             res_map (\<lambda>a. (g, Some (get_limit st, a))) (get_average_gas_price g (gp_limit_scale_percent pars))
           else Ok (g, None))
      else Ok (g, None))"

section \<open>The window of samples\<close>

fun add_samples :: "gas_statistics \<Rightarrow> nat list \<Rightarrow> ('e, gas_statistics) res" where
  "add_samples st [] = Ok st"
| "add_samples st (p # ps) = res_bind (add_sample st p) (\<lambda>st. add_samples st ps)"

text \<open>The last @n@ elements of a list.\<close>

definition last_n :: "nat \<Rightarrow> 'a list \<Rightarrow> 'a list" where
  "last_n n xs = drop (size xs - n) xs"

lemma last_n_append1: "0 < n \<Longrightarrow> last_n n (xs @ [x]) = (if size xs < n then xs else tl (last_n n xs)) @ [x]"
  by (auto simp: last_n_def drop_Suc tl_drop Suc_diff_le)

definition window_of :: "nat list \<Rightarrow> gas_statistics \<Rightarrow> bool" where
  "window_of ps st \<longleftrightarrow> gs_samples st = last_n GAS_PRICE_SAMPLES_AMOUNT ps \<and> gs_current_sum st = sum_list (gs_samples st)"

lemma sum_last_n: "sum_list (last_n n xs) \<le> sum_list (xs :: nat list)"
proof -
  have "sum_list xs = sum_list (take (size xs - n) xs) + sum_list (last_n n xs)"
    by (metis append_take_drop_id last_n_def sum_list_append)
  then show ?thesis
    by simp
qed

lemma add_sample_window:
  assumes "window_of ps st" "sum_list ps + p < 2 ^ 256"
  shows "\<exists>st'. (add_sample st p :: ('e, _) res) = Ok st' \<and> window_of (ps @ [p]) st'
    \<and> gs_current_max_price st' = gs_current_max_price st"
proof -
  let ?w = "last_n GAS_PRICE_SAMPLES_AMOUNT ps"
  have w: "gs_samples st = ?w" "gs_current_sum st = sum_list ?w" "sum_list ?w + p < 2 ^ 256"
    using assms sum_last_n [of GAS_PRICE_SAMPLES_AMOUNT ps] by (auto simp: window_of_def)
  have next_w: "last_n GAS_PRICE_SAMPLES_AMOUNT (ps @ [p]) = (if size ps < 10 then ps else tl ?w) @ [p]"
    by (simp add: last_n_append1 GAS_PRICE_SAMPLES_AMOUNT_def)
  show ?thesis
  proof (cases "size ps < 10")
    case True
    then have "?w = ps"
      by (simp add: last_n_def GAS_PRICE_SAMPLES_AMOUNT_def)
    then show ?thesis
      using w next_w True
      by (auto simp: add_sample_def window_of_def u256_add_def u256_def GAS_PRICE_SAMPLES_AMOUNT_def)
  next
    case False
    then have "size ?w = 10"
      by (simp add: last_n_def GAS_PRICE_SAMPLES_AMOUNT_def)
    then obtain x xs where x: "?w = x # xs" "size xs = 9"
      by (cases ?w) auto
    then show ?thesis
      using w next_w False
      by (auto simp: add_sample_def pop_sample_def window_of_def u256_add_def u256_sub_def u256_def
          GAS_PRICE_SAMPLES_AMOUNT_def)
  qed
qed

lemma add_samples_window:
  "window_of qs st \<Longrightarrow> sum_list (qs @ ps) < 2 ^ 256
    \<Longrightarrow> \<exists>st'. (add_samples st ps :: ('e, _) res) = Ok st' \<and> window_of (qs @ ps) st'
      \<and> gs_current_max_price st' = gs_current_max_price st"
proof (induction ps arbitrary: qs st)
  case (Cons p ps)
  then obtain st1 where st1: "(add_sample st p :: ('e, _) res) = Ok st1" "window_of (qs @ [p]) st1"
      "gs_current_max_price st1 = gs_current_max_price st"
    using add_sample_window [of qs st p] by auto
  show ?case
    using Cons.IH [OF st1(2)] Cons.prems(2) st1 by simp
qed simp

text \<open>The average of the last ten prices, scaled: what the limit should be.\<close>

definition reference_limit :: "nat list \<Rightarrow> 64 word \<Rightarrow> nat" where
  "reference_limit ps percent = (sum_list (last_n 10 ps) div 10) * unat percent div 100"

lemma update_limit_window:
  assumes "window_of ps st" "10 \<le> size ps" "sum_list (last_n 10 ps) div 10 * unat percent < 2 ^ 256"
  shows "(update_limit st percent :: ('e, _) res) = Ok (st\<lparr>gs_current_max_price := reference_limit ps percent\<rparr>)"
  using assms
  by (simp add: update_limit_def window_of_def u256_div_def u256_mul_def u256_def reference_limit_def
      GAS_PRICE_SAMPLES_AMOUNT_def last_n_def)

text \<open>However many prices were observed, the limit set is the scaled average of the last ten of
  them, and nothing is set before there are ten.\<close>

lemma limit_is_scaled_average:
  assumes "sum_list ps < 2 ^ 256" "sum_list (last_n 10 ps) div 10 * unat percent < 2 ^ 256"
  shows "\<exists>st. (res_bind (add_samples (gas_statistics_new l) ps) (\<lambda>st. update_limit st percent) :: ('e, _) res) = Ok st
    \<and> get_limit st = (if size ps < 10 then l else reference_limit ps percent)"
proof -
  have "window_of [] (gas_statistics_new l)"
    by (simp add: window_of_def gas_statistics_new_def last_n_def)
  then obtain st where st: "(add_samples (gas_statistics_new l) ps :: ('e, _) res) = Ok st" "window_of ps st"
      "gs_current_max_price st = l"
    using add_samples_window [of "[]" "gas_statistics_new l" ps] assms(1) by (auto simp: gas_statistics_new_def)
  show ?thesis
  proof (cases "size ps < 10")
    case True
    then show ?thesis
      using st by (simp add: update_limit_def window_of_def last_n_def GAS_PRICE_SAMPLES_AMOUNT_def get_limit_def)
  next
    case False
    then show ?thesis
      using st update_limit_window [where 'e = 'e, OF st(2) _ assms(2)] by (simp add: get_limit_def)
  qed
qed

lemma limit_is_scaled_average_example:
  "\<exists>st. (res_bind (add_samples (gas_statistics_new 7) [1, 2, 3, 4, 5, 6, 7, 8, 9, 10, 11, 12])
      (\<lambda>st. update_limit st 150) :: (unit, _) res) = Ok st \<and> get_limit st = 10"
  using limit_is_scaled_average [of "[1, 2, 3, 4, 5, 6, 7, 8, 9, 10, 11, 12]" 150 7]
  by (simp add: reference_limit_def last_n_def)

section \<open>The price of a transaction\<close>

lemma get_gas_price_Ok:
  "(get_gas_price network g old :: ('e, nat) res) = Ok p \<Longrightarrow> p \<le> get_current_max_price g"
  by (auto simp: get_gas_price_def limit_max_def ok_iffs)

text \<open>The replacement of a stuck transaction costs 15 percent more, unless the limit is lower.\<close>

lemma replacement_price:
  "old * 115 < 2 ^ 256 \<Longrightarrow> (get_gas_price (Ok n) g (Some old) :: ('e, nat) res)
    = Ok (min (max n (old * 115 div 100)) (get_current_max_price g))"
  by (simp add: get_gas_price_def price_scale_up_def limit_max_def u256_mul_def u256_div_def u256_def)

text \<open>
  So the replacement is dearer by 15 percent exactly when the limit allows it; when the limit has
  fallen below the old price, the "replacement" is cheaper than what it replaces.
\<close>

lemma replacement_raised_iff:
  assumes "old * 115 < 2 ^ 256" "(get_gas_price (Ok n) g (Some old) :: ('e, nat) res) = Ok p"
  shows "(old * 115 div 100 \<le> p \<longleftrightarrow> old * 115 div 100 \<le> get_current_max_price g)
    \<and> (get_current_max_price g < old \<longrightarrow> p < old)"
  using assms(2) unfolding replacement_price [OF assms(1)] by auto

lemma replacement_cheaper:
  "(get_gas_price (Ok 40) (gas_adjuster_new 90 0) (Some 100) :: (unit, nat) res) = Ok 90"
  by (simp add: replacement_price gas_adjuster_new_def gas_statistics_new_def get_current_max_price_def get_limit_def)

end
