(* ===== verification/EthStorage.thy ===== *)
theory EthStorage
  imports TxQueue
begin

text \<open>
  The tables of the Ethereum sender and their queries, @core/lib/storage/src/ethereum@.  A table is
  the list of its rows in the order of insertion, a query is what its SQL statement does: the next
  id of a @bigserial@ column comes from a sequence, and a foreign key must exist.  The stored zkSync
  operations carry their operation (its action and block are loaded from other tables).
\<close>

section \<open>Tables\<close>

record storage_eth_operation =
  so_id :: int
  so_nonce :: int
  so_confirmed :: bool
  so_raw_tx :: "byte list"
  so_op_type :: string
  so_final_hash :: "h256 option"
  so_last_deadline_block :: "64 word"
  so_last_used_gas_price :: nat

record eth_tx_hash =
  eh_eth_op_id :: int
  eh_tx_hash :: h256

record eth_binding =
  eb_op_id :: int
  eb_eth_op_id :: int

record eth_params =
  epr_nonce :: int
  epr_gas_price_limit :: int
  epr_average_gas_price :: "int option"
  epr_commit_ops :: int
  epr_verify_ops :: int
  epr_withdraw_ops :: int

record eth_stats =
  est_commit_ops :: int
  est_verify_ops :: int
  est_withdraw_ops :: int

record stored_operation =
  sto_id :: int
  sto_confirmed :: bool
  sto_operation :: operation

record eth_db =
  db_operations :: "stored_operation list"
  db_eth_operations :: "storage_eth_operation list"
  db_next_eth_op_id :: int
  db_eth_ops_binding :: "eth_binding list"
  db_eth_tx_hashes :: "eth_tx_hash list"
  db_eth_parameters :: eth_params

definition eth_stats_from :: "eth_params \<Rightarrow> eth_stats" where
  "eth_stats_from p =
    \<lparr>est_commit_ops = epr_commit_ops p, est_verify_ops = epr_verify_ops p, est_withdraw_ops = epr_withdraw_ops p\<rparr>"

text \<open>A transaction that is rolled back leaves everything but the sequence of ids.\<close>

definition db_rollback :: "eth_db \<Rightarrow> eth_db \<Rightarrow> eth_db" where
  "db_rollback before during = before\<lparr>db_next_eth_op_id := db_next_eth_op_id during\<rparr>"

text \<open>An @i64@ as an @U256@: panics when negative.\<close>

definition u256_from_i64 :: "int \<Rightarrow> ('e, nat) res" where
  "u256_from_i64 n = (if n < 0 then Panic else Ok (nat n))"

section \<open>Queries\<close>

definition into_op :: "stored_operation \<Rightarrow> operation" where
  "into_op r = (sto_operation r)\<lparr>opn_id := Some (sto_id r)\<rparr>"

definition bound_operation :: "eth_db \<Rightarrow> int \<Rightarrow> operation option" where
  "bound_operation db eth_op_id = (case find (\<lambda>b. eb_eth_op_id b = eth_op_id) (db_eth_ops_binding db) of
      None \<Rightarrow> None
    | Some b \<Rightarrow> map_option into_op (find (\<lambda>r. sto_id r = eb_op_id b) (db_operations db)))"

definition load_eth_operation :: "eth_db \<Rightarrow> storage_eth_operation \<Rightarrow> (error, eth_operation) res" where
  "load_eth_operation db r =
    (let eth_tx_hashes = filter (\<lambda>h. eh_eth_op_id h = so_id r) (db_eth_tx_hashes db)
     in res_bind (assert_that (eth_tx_hashes \<noteq> [])) (\<lambda>_.
        res_bind (unwrap (operation_type_from_str (so_op_type r))) (\<lambda>op_type.
        res_bind (u256_from_i64 (so_nonce r)) (\<lambda>n.
          Ok \<lparr>eo_id = so_id r, eo_op_type = op_type, eo_op = bound_operation db (so_id r), eo_nonce = n,
              eo_last_deadline_block = so_last_deadline_block r,
              eo_last_used_gas_price = so_last_used_gas_price r,
              eo_used_tx_hashes = map eh_tx_hash eth_tx_hashes, eo_encoded_tx_data = so_raw_tx r,
              eo_confirmed = so_confirmed r, eo_final_hash = so_final_hash r\<rparr>))))"

fun collect_res :: "('a \<Rightarrow> ('e, 'b) res) \<Rightarrow> 'a list \<Rightarrow> ('e, 'b list) res" where
  "collect_res f [] = Ok []"
| "collect_res f (x # xs) = res_bind (f x) (\<lambda>y. res_map ((#) y) (collect_res f xs))"

definition load_unconfirmed_operations :: "eth_db \<Rightarrow> (error, eth_operation list) res" where
  "load_unconfirmed_operations db =
    collect_res (load_eth_operation db) (sort_key so_id (filter (\<lambda>r. \<not> so_confirmed r) (db_eth_operations db)))"

definition load_unprocessed_operations :: "eth_db \<Rightarrow> operation list" where
  "load_unprocessed_operations db =
    map into_op (sort_key sto_id (filter (\<lambda>r. \<not> sto_confirmed r
      \<and> \<not> list_ex (\<lambda>b. eb_op_id b = sto_id r) (db_eth_ops_binding db)) (db_operations db)))"

definition get_next_nonce :: "eth_db \<Rightarrow> int \<times> eth_db" where
  "get_next_nonce db =
    (let p = db_eth_parameters db
     in (epr_nonce p, db\<lparr>db_eth_parameters := p\<lparr>epr_nonce := epr_nonce p + 1\<rparr>\<rparr>))"

definition report_created_operation :: "eth_db \<Rightarrow> operation_type \<Rightarrow> eth_db" where
  "report_created_operation db operation_type =
    (let p = db_eth_parameters db
     in db\<lparr>db_eth_parameters := (case operation_type of
          OtCommit \<Rightarrow> p\<lparr>epr_commit_ops := epr_commit_ops p + 1\<rparr>
        | OtVerify \<Rightarrow> p\<lparr>epr_verify_ops := epr_verify_ops p + 1\<rparr>
        | OtWithdraw \<Rightarrow> p\<lparr>epr_withdraw_ops := epr_withdraw_ops p + 1\<rparr>)\<rparr>)"

definition insert_binding :: "eth_db \<Rightarrow> int option \<Rightarrow> int \<Rightarrow> (error, eth_db) res" where
  "insert_binding db op_id eth_op_id = (case op_id of
      None \<Rightarrow> Ok db
    | Some i \<Rightarrow>
        if list_ex (\<lambda>r. sto_id r = i) (db_operations db)
        then Ok (db\<lparr>db_eth_ops_binding := db_eth_ops_binding db @ [\<lparr>eb_op_id = i, eb_eth_op_id = eth_op_id\<rparr>]\<rparr>)
        else Err ''foreign key violation'')"

definition save_new_eth_tx ::
  "eth_db \<Rightarrow> operation_type \<Rightarrow> int option \<Rightarrow> 64 word \<Rightarrow> nat \<Rightarrow> byte list
    \<Rightarrow> (error, inserted_operation_response \<times> eth_db) res" where
  "save_new_eth_tx db op_type op_id last_deadline_block last_used_gas_price raw_tx =
    (let (nonce, db) = get_next_nonce db;
         eth_op_id = db_next_eth_op_id db;
         row = \<lparr>so_id = eth_op_id, so_nonce = nonce, so_confirmed = False, so_raw_tx = raw_tx,
                so_op_type = operation_type_to_string op_type, so_final_hash = None,
                so_last_deadline_block = last_deadline_block,
                so_last_used_gas_price = last_used_gas_price\<rparr>;
         db = db\<lparr>db_eth_operations := db_eth_operations db @ [row], db_next_eth_op_id := eth_op_id + 1\<rparr>
     in res_bind (insert_binding db op_id eth_op_id) (\<lambda>db.
        let db = report_created_operation db op_type
        in res_bind (u256_from_i64 nonce) (\<lambda>n. Ok (\<lparr>ior_id = eth_op_id, ior_nonce = n\<rparr>, db))))"

definition get_eth_op_id :: "eth_db \<Rightarrow> h256 \<Rightarrow> (error, int) res" where
  "get_eth_op_id db hash =
    res_map eh_eth_op_id (ok_or (find (\<lambda>h. eh_tx_hash h = hash) (db_eth_tx_hashes db)) ''row not found'')"

definition add_hash_entry :: "eth_db \<Rightarrow> int \<Rightarrow> h256 \<Rightarrow> (error, eth_db) res" where
  "add_hash_entry db eth_op_id hash =
    (if list_ex (\<lambda>r. so_id r = eth_op_id) (db_eth_operations db)
     then Ok (db\<lparr>db_eth_tx_hashes := db_eth_tx_hashes db @ [\<lparr>eh_eth_op_id = eth_op_id, eh_tx_hash = hash\<rparr>]\<rparr>)
     else Err ''foreign key violation'')"

definition update_eth_tx :: "eth_db \<Rightarrow> int \<Rightarrow> 64 word \<Rightarrow> nat \<Rightarrow> eth_db" where
  "update_eth_tx db eth_op_id new_deadline_block new_gas_value =
    db\<lparr>db_eth_operations := map (\<lambda>r. if so_id r = eth_op_id
        then r\<lparr>so_last_used_gas_price := new_gas_value, so_last_deadline_block := new_deadline_block\<rparr>
        else r) (db_eth_operations db)\<rparr>"

definition confirm_eth_tx :: "eth_db \<Rightarrow> h256 \<Rightarrow> (error, eth_db) res" where
  "confirm_eth_tx db hash =
    res_bind (get_eth_op_id db hash) (\<lambda>eth_op_id.
    res_bind (ensure (list_ex (\<lambda>r. so_id r = eth_op_id) (db_eth_operations db)) ''row not found'') (\<lambda>_.
    let confirmed_op = map_option eb_op_id (find (\<lambda>b. eb_eth_op_id b = eth_op_id) (db_eth_ops_binding db))
    in Ok (db\<lparr>db_eth_operations := map (\<lambda>r. if so_id r = eth_op_id
                 then r\<lparr>so_confirmed := True, so_final_hash := Some hash\<rparr> else r) (db_eth_operations db),
              db_operations := map (\<lambda>r. if confirmed_op = Some (sto_id r) then r\<lparr>sto_confirmed := True\<rparr> else r)
                 (db_operations db)\<rparr>)))"

definition i64_from_u256 :: "nat \<Rightarrow> ('e, int) res" where
  "i64_from_u256 n = (if n < 2 ^ 63 then Ok (int n) else Panic)"

definition update_gas_price :: "eth_db \<Rightarrow> nat \<Rightarrow> nat \<Rightarrow> ('e, eth_db) res" where
  "update_gas_price db gas_price_limit average_gas_price =
    res_bind (i64_from_u256 gas_price_limit) (\<lambda>l.
    res_bind (i64_from_u256 average_gas_price) (\<lambda>a.
      Ok (db\<lparr>db_eth_parameters := (db_eth_parameters db)\<lparr>epr_gas_price_limit := l, epr_average_gas_price := Some a\<rparr>\<rparr>)))"

definition load_gas_price_limit :: "eth_db \<Rightarrow> ('e, nat) res" where
  "load_gas_price_limit db = u256_from_i64 (epr_gas_price_limit (db_eth_parameters db))"

definition load_average_gas_price :: "eth_db \<Rightarrow> ('e, nat option) res" where
  "load_average_gas_price db = (case epr_average_gas_price (db_eth_parameters db) of
      None \<Rightarrow> Ok None | Some a \<Rightarrow> res_map Some (u256_from_i64 a))"

definition load_stats :: "eth_db \<Rightarrow> eth_stats" where
  "load_stats db = eth_stats_from (db_eth_parameters db)"

definition restore_state :: "eth_db \<Rightarrow> (error, eth_operation list \<times> operation list) res" where
  "restore_state db =
    res_map (\<lambda>unconfirmed_ops. (unconfirmed_ops, load_unprocessed_operations db)) (load_unconfirmed_operations db)"

end
