(* ===== verification/EthStorageProps.thy ===== *)
theory EthStorageProps
  imports EthStorage
begin

text \<open>
  What the tables of the Ethereum sender promise: the operations loaded after a restart are those
  saved and not confirmed, with every transaction sent for them.  A hash determines the nonce of its
  transaction (@hn@), and the nonce determines the operation.
\<close>

section \<open>Loading lists\<close>

lemma collect_res_append: "collect_res f (xs @ ys) = res_bind (collect_res f xs) (\<lambda>as. res_map (\<lambda>bs. as @ bs) (collect_res f ys))"
proof (induction xs)
  case Nil
  then show ?case
    by (cases "collect_res f ys") auto
next
  case (Cons x xs)
  then show ?case
    by (cases "f x"; cases "collect_res f xs"; cases "collect_res f ys") auto
qed

lemma collect_res_cong: "(\<And>x. x \<in> set xs \<Longrightarrow> f x = g x) \<Longrightarrow> collect_res f xs = collect_res g xs"
  by (induction xs) auto

lemma collect_res_map: "collect_res f (map g xs) = collect_res (\<lambda>x. f (g x)) xs"
  by (induction xs) auto

lemma collect_res_Ok_iff: "collect_res f xs = Ok ys \<longleftrightarrow> list_all2 (\<lambda>x y. f x = Ok y) xs ys"
  by (induction xs arbitrary: ys) (auto simp: ok_iffs list_all2_Cons1)

lemma find_append: "find P (xs @ ys) = (case find P xs of Some x \<Rightarrow> Some x | None \<Rightarrow> find P ys)"
  by (induction xs) auto

section \<open>Sound tables\<close>

definition db_ids_ok :: "eth_db \<Rightarrow> bool" where
  "db_ids_ok db \<longleftrightarrow> sorted_wrt (<) (map so_id (db_eth_operations db))
    \<and> (\<forall>r \<in> set (db_eth_operations db). so_id r < db_next_eth_op_id db)"

definition db_nonces_ok :: "eth_db \<Rightarrow> bool" where
  "db_nonces_ok db \<longleftrightarrow> distinct (map so_nonce (db_eth_operations db))
    \<and> (\<forall>r \<in> set (db_eth_operations db). 0 \<le> so_nonce r \<and> so_nonce r < epr_nonce (db_eth_parameters db))
    \<and> 0 \<le> epr_nonce (db_eth_parameters db)"

definition db_refs_ok :: "(h256 \<Rightarrow> nat) \<Rightarrow> eth_db \<Rightarrow> bool" where
  "db_refs_ok hn db \<longleftrightarrow>
    (\<forall>h \<in> set (db_eth_tx_hashes db).
      list_ex (\<lambda>r. so_id r = eh_eth_op_id h \<and> so_nonce r = int (hn (eh_tx_hash h))) (db_eth_operations db))
    \<and> (\<forall>b \<in> set (db_eth_ops_binding db). list_ex (\<lambda>r. so_id r = eb_eth_op_id b) (db_eth_operations db))"

definition db_ok :: "(h256 \<Rightarrow> nat) \<Rightarrow> eth_db \<Rightarrow> bool" where
  "db_ok hn db \<longleftrightarrow> db_ids_ok db \<and> db_nonces_ok db \<and> db_refs_ok hn db"

lemma load_unconfirmed_sorted:
  assumes "db_ok hn db"
  shows "load_unconfirmed_operations db
    = collect_res (load_eth_operation db) (filter (\<lambda>r. \<not> so_confirmed r) (db_eth_operations db))"
proof -
  have "sorted (map so_id (db_eth_operations db))"
    using assms by (simp add: db_ok_def db_ids_ok_def strict_sorted_imp_sorted)
  then have "sorted (map so_id (filter (\<lambda>r. \<not> so_confirmed r) (db_eth_operations db)))"
    by (rule sorted_filter)
  then show ?thesis
    by (simp add: load_unconfirmed_operations_def sort_key_id_if_sorted)
qed

lemma load_eth_operation_cong:
  "filter (\<lambda>h. eh_eth_op_id h = so_id r) (db_eth_tx_hashes db') = filter (\<lambda>h. eh_eth_op_id h = so_id r) (db_eth_tx_hashes db)
    \<Longrightarrow> bound_operation db' (so_id r) = bound_operation db (so_id r)
    \<Longrightarrow> load_eth_operation db' r = load_eth_operation db r"
  by (simp add: load_eth_operation_def)

lemma operation_type_roundtrip: "operation_type_from_str (operation_type_to_string t) = Ok t"
  by (cases t) (simp_all add: operation_type_from_str_def)

section \<open>A new operation\<close>

lemma insert_binding_Ok:
  "insert_binding db op_id i = Ok db' \<longleftrightarrow>
    (case op_id of None \<Rightarrow> db' = db
     | Some j \<Rightarrow> list_ex (\<lambda>r. sto_id r = j) (db_operations db)
        \<and> db' = db\<lparr>db_eth_ops_binding := db_eth_ops_binding db @ [\<lparr>eb_op_id = j, eb_eth_op_id = i\<rparr>]\<rparr>)"
  by (auto simp: insert_binding_def split: option.splits)

definition new_row :: "eth_db \<Rightarrow> operation_type \<Rightarrow> 64 word \<Rightarrow> nat \<Rightarrow> byte list \<Rightarrow> storage_eth_operation" where
  "new_row db ty deadline price raw =
    \<lparr>so_id = db_next_eth_op_id db, so_nonce = epr_nonce (db_eth_parameters db), so_confirmed = False,
     so_raw_tx = raw, so_op_type = operation_type_to_string ty, so_final_hash = None,
     so_last_deadline_block = deadline, so_last_used_gas_price = price\<rparr>"

text \<open>The tables after a new operation with its hash was saved.\<close>

lemma saved_db:
  assumes "save_new_eth_tx db ty op_id deadline price raw = Ok (d, db1)" "add_hash_entry db1 (ior_id d) h = Ok db2"
  shows "ior_id d = db_next_eth_op_id db" "int (ior_nonce d) = epr_nonce (db_eth_parameters db)"
    "db_eth_operations db2 = db_eth_operations db @ [new_row db ty deadline price raw]"
    "db_operations db2 = db_operations db"
    "db_next_eth_op_id db2 = db_next_eth_op_id db + 1"
    "db_eth_tx_hashes db2 = db_eth_tx_hashes db @ [\<lparr>eh_eth_op_id = db_next_eth_op_id db, eh_tx_hash = h\<rparr>]"
    "db_eth_ops_binding db2 = db_eth_ops_binding db
      @ (case op_id of None \<Rightarrow> [] | Some j \<Rightarrow> [\<lparr>eb_op_id = j, eb_eth_op_id = db_next_eth_op_id db\<rparr>])"
    "epr_nonce (db_eth_parameters db2) = epr_nonce (db_eth_parameters db) + 1"
    "load_stats db2 = load_stats (report_created_operation db ty)"
    "case op_id of None \<Rightarrow> True | Some j \<Rightarrow> list_ex (\<lambda>r. sto_id r = j) (db_operations db)"
  using assms
  by (auto simp: save_new_eth_tx_def get_next_nonce_def Let_def ok_iffs insert_binding_Ok u256_from_i64_def
      report_created_operation_def add_hash_entry_def new_row_def load_stats_def eth_stats_from_def
      split: if_splits option.splits operation_type.splits)

lemma db_ok_saved:
  assumes "db_ok hn db" "save_new_eth_tx db ty op_id deadline price raw = Ok (d, db1)"
    "add_hash_entry db1 (ior_id d) h = Ok db2" "hn h = ior_nonce d"
  shows "db_ok hn db2"
proof -
  note db2 = saved_db [OF assms(2,3)]
  have "db_ids_ok db2"
    using assms(1) by (auto simp: db_ok_def db_ids_ok_def db2(3,5) sorted_wrt_append new_row_def)
  moreover have "db_nonces_ok db2"
    using assms(1) by (auto simp: db_ok_def db_nonces_ok_def db2(3,8) new_row_def)
  moreover have "db_refs_ok hn db2"
    using assms(1,4) db2(2)
    by (auto simp: db_ok_def db_refs_ok_def db2(3,6,7) new_row_def split: option.splits)
  ultimately show ?thesis
    by (simp add: db_ok_def)
qed

text \<open>A queued operation is one of the stored ones.\<close>

definition backed :: "eth_db \<Rightarrow> operation option \<Rightarrow> bool" where
  "backed db op \<longleftrightarrow> (case op of None \<Rightarrow> True | Some o' \<Rightarrow> (case opn_id o' of None \<Rightarrow> False
    | Some j \<Rightarrow> map_option into_op (find (\<lambda>r. sto_id r = j) (db_operations db)) = Some o'))"

lemma filter_hashes_append:
  "\<not> list_ex (\<lambda>h. eh_eth_op_id h = i) hs \<Longrightarrow> filter (\<lambda>h. eh_eth_op_id h = i) hs = []"
  by (auto simp: list_ex_iff filter_empty_conv)

lemma no_refs_to_next:
  assumes "db_ok hn db"
  shows "filter (\<lambda>h. eh_eth_op_id h = db_next_eth_op_id db) (db_eth_tx_hashes db) = []"
    "find (\<lambda>b. eb_eth_op_id b = db_next_eth_op_id db) (db_eth_ops_binding db) = None"
  using assms by (force simp: db_ok_def db_ids_ok_def db_refs_ok_def list_ex_iff filter_empty_conv find_None_iff)+

lemma load_saved:
  assumes "db_ok hn db" "load_unconfirmed_operations db = Ok ops" "backed db op"
    "save_new_eth_tx db ty (case op of None \<Rightarrow> None | Some o' \<Rightarrow> opn_id o') deadline price raw = Ok (d, db1)"
    "add_hash_entry db1 (ior_id d) h = Ok db2" "hn h = ior_nonce d"
  shows "load_unconfirmed_operations db2 = Ok (ops @
    [\<lparr>eo_id = ior_id d, eo_op_type = ty, eo_op = op, eo_nonce = ior_nonce d, eo_last_deadline_block = deadline,
      eo_last_used_gas_price = price, eo_used_tx_hashes = [h], eo_encoded_tx_data = raw, eo_confirmed = False,
      eo_final_hash = None\<rparr>])"
proof -
  note db2 = saved_db [OF assms(4,5)]
  let ?new = "new_row db ty deadline price raw"
  have old: "load_eth_operation db2 r = load_eth_operation db r" if "r \<in> set (db_eth_operations db)" for r
  proof (rule load_eth_operation_cong)
    have "so_id r \<noteq> db_next_eth_op_id db"
      using that assms(1) by (auto simp: db_ok_def db_ids_ok_def)
    then show "filter (\<lambda>h. eh_eth_op_id h = so_id r) (db_eth_tx_hashes db2)
        = filter (\<lambda>h. eh_eth_op_id h = so_id r) (db_eth_tx_hashes db)"
      "bound_operation db2 (so_id r) = bound_operation db (so_id r)"
      by (auto simp: db2(4,6,7) bound_operation_def find_append split: option.splits)
  qed
  have "bound_operation db2 (db_next_eth_op_id db) = op"
    using assms(3) no_refs_to_next(2) [OF assms(1)]
    by (auto simp: bound_operation_def db2(4,7) find_append backed_def split: option.splits)
  moreover have "filter (\<lambda>h. eh_eth_op_id h = db_next_eth_op_id db) (db_eth_tx_hashes db2)
      = [\<lparr>eh_eth_op_id = db_next_eth_op_id db, eh_tx_hash = h\<rparr>]"
    using no_refs_to_next(1) [OF assms(1)] by (simp add: db2(6))
  moreover have "(u256_from_i64 (epr_nonce (db_eth_parameters db)) :: (error, nat) res) = Ok (ior_nonce d)"
    using db2(2) by (simp add: u256_from_i64_def flip: db2(2))
  ultimately have "load_eth_operation db2 ?new = Ok \<lparr>eo_id = ior_id d, eo_op_type = ty, eo_op = op,
      eo_nonce = ior_nonce d, eo_last_deadline_block = deadline, eo_last_used_gas_price = price,
      eo_used_tx_hashes = [h], eo_encoded_tx_data = raw, eo_confirmed = False, eo_final_hash = None\<rparr>"
    by (simp add: load_eth_operation_def new_row_def operation_type_roundtrip db2(1))
  moreover have "collect_res (load_eth_operation db2) (filter (\<lambda>r. \<not> so_confirmed r) (db_eth_operations db)) = Ok ops"
    using assms(2) collect_res_cong [of "filter (\<lambda>r. \<not> so_confirmed r) (db_eth_operations db)", OF old]
    by (simp add: load_unconfirmed_sorted [OF assms(1)])
  ultimately show ?thesis
    by (simp add: load_unconfirmed_sorted [OF db_ok_saved [OF assms(1,4,5,6)]] db2(3) collect_res_append new_row_def)
qed

section \<open>The loaded operations\<close>

lemma ids_distinct: "db_ok hn db \<Longrightarrow> r \<in> set (db_eth_operations db) \<Longrightarrow> r' \<in> set (db_eth_operations db)
    \<Longrightarrow> so_id r = so_id r' \<Longrightarrow> r = r'"
  by (auto simp: db_ok_def db_ids_ok_def strict_sorted_iff distinct_map dest: inj_onD)

lemma nonces_distinct: "db_ok hn db \<Longrightarrow> r \<in> set (db_eth_operations db) \<Longrightarrow> r' \<in> set (db_eth_operations db)
    \<Longrightarrow> so_nonce r = so_nonce r' \<Longrightarrow> r = r'"
  by (auto simp: db_ok_def db_nonces_ok_def distinct_map dest: inj_onD)

lemma hash_row:
  assumes "db_ok hn db" "h \<in> set (db_eth_tx_hashes db)"
  obtains r where "r \<in> set (db_eth_operations db)" "so_id r = eh_eth_op_id h" "so_nonce r = int (hn (eh_tx_hash h))"
  using assms by (auto simp: db_ok_def db_refs_ok_def list_ex_iff)

text \<open>A hash belongs to one operation.\<close>

lemma get_eth_op_id_hash:
  assumes "db_ok hn db" "h \<in> set (db_eth_tx_hashes db)"
  shows "get_eth_op_id db (eh_tx_hash h) = Ok (eh_eth_op_id h)"
proof -
  obtain h' where h': "find (\<lambda>h'. eh_tx_hash h' = eh_tx_hash h) (db_eth_tx_hashes db) = Some h'"
    using assms(2) by (cases "find (\<lambda>h'. eh_tx_hash h' = eh_tx_hash h) (db_eth_tx_hashes db)") (auto simp: find_None_iff)
  then have "h' \<in> set (db_eth_tx_hashes db)" "eh_tx_hash h' = eh_tx_hash h"
    by (auto simp: find_Some_iff)
  obtain r where r: "r \<in> set (db_eth_operations db)" "so_id r = eh_eth_op_id h" "so_nonce r = int (hn (eh_tx_hash h))"
    using assms by (rule hash_row)
  obtain r' where r': "r' \<in> set (db_eth_operations db)" "so_id r' = eh_eth_op_id h'" "so_nonce r' = int (hn (eh_tx_hash h'))"
    using assms(1) \<open>h' \<in> set (db_eth_tx_hashes db)\<close> by (rule hash_row)
  have "r = r'"
    using nonces_distinct [OF assms(1) r(1) r'(1)] r(3) r'(3) \<open>eh_tx_hash h' = eh_tx_hash h\<close> by simp
  then show ?thesis
    using h' r(2) r'(2) by (simp add: get_eth_op_id_def)
qed

text \<open>The row of a loaded operation.\<close>

lemma loaded_row:
  assumes "db_ok hn db" "load_unconfirmed_operations db = Ok (xs @ op # ys)"
  obtains R1 r R2 where "filter (\<lambda>r. \<not> so_confirmed r) (db_eth_operations db) = R1 @ r # R2"
    "collect_res (load_eth_operation db) R1 = Ok xs" "load_eth_operation db r = Ok op"
    "collect_res (load_eth_operation db) R2 = Ok ys" "so_id r = eo_id op"
    "so_id r \<notin> so_id ` set R1" "so_id r \<notin> so_id ` set R2"
proof -
  let ?U = "filter (\<lambda>r. \<not> so_confirmed r) (db_eth_operations db)"
  have "list_all2 (\<lambda>r o'. load_eth_operation db r = Ok o') ?U (xs @ op # ys)"
    using assms(2) by (simp add: load_unconfirmed_sorted [OF assms(1)] collect_res_Ok_iff)
  then obtain R1 r R2 where R: "?U = R1 @ r # R2" "collect_res (load_eth_operation db) R1 = Ok xs"
      "load_eth_operation db r = Ok op" "collect_res (load_eth_operation db) R2 = Ok ys"
    by (auto simp: list_all2_append2 list_all2_Cons2 collect_res_Ok_iff)
  have "distinct (map so_id ?U)"
    using assms(1) by (auto simp: db_ok_def db_ids_ok_def strict_sorted_iff distinct_map_filter)
  then have "so_id r \<notin> so_id ` set R1" "so_id r \<notin> so_id ` set R2"
    unfolding R(1) by auto
  then show ?thesis
    using that R by (auto simp: load_eth_operation_def Let_def ok_iffs)
qed

lemma loaded_hashes:
  "load_eth_operation db r = Ok op \<Longrightarrow> h \<in> set (eo_used_tx_hashes op)
    \<Longrightarrow> \<exists>e \<in> set (db_eth_tx_hashes db). eh_eth_op_id e = so_id r \<and> eh_tx_hash e = h"
  by (auto simp: load_eth_operation_def Let_def ok_iffs)

section \<open>A confirmed operation\<close>

lemma filter_confirmed:
  "filter (\<lambda>r. \<not> so_confirmed r) (map (\<lambda>r. if so_id r = i then r\<lparr>so_confirmed := True, so_final_hash := Some h\<rparr> else r) rows)
    = filter (\<lambda>r. so_id r \<noteq> i) (filter (\<lambda>r. \<not> so_confirmed r) rows)"
  by (induction rows) auto

lemma filter_others: "i \<notin> so_id ` set rows \<Longrightarrow> filter (\<lambda>r. so_id r \<noteq> i) rows = rows"
  by (induction rows) auto

lemma find_map: "find P (map f xs) = map_option f (find (\<lambda>x. P (f x)) xs)"
  by (induction xs) auto

lemma find_into_op:
  "map_option into_op (find (\<lambda>r. sto_id r = j) (map (\<lambda>r. if c = Some (sto_id r) then r\<lparr>sto_confirmed := True\<rparr> else r) rows))
    = map_option into_op (find (\<lambda>r. sto_id r = j) rows)"
proof -
  have "find (\<lambda>r. sto_id (if c = Some (sto_id r) then r\<lparr>sto_confirmed := True\<rparr> else r) = j) rows = find (\<lambda>r. sto_id r = j) rows"
    by (induction rows) auto
  then show ?thesis
    by (cases "find (\<lambda>r. sto_id r = j) rows") (simp_all add: find_map into_op_def)
qed

lemma confirm_eth_tx_Ok:
  assumes "confirm_eth_tx db h = Ok db'"
  obtains i c where "get_eth_op_id db h = Ok i"
    "db' = db\<lparr>db_eth_operations := map (\<lambda>r. if so_id r = i
                 then r\<lparr>so_confirmed := True, so_final_hash := Some h\<rparr> else r) (db_eth_operations db),
              db_operations := map (\<lambda>r. if c = Some (sto_id r) then r\<lparr>sto_confirmed := True\<rparr> else r) (db_operations db)\<rparr>"
proof -
  obtain i where i: "get_eth_op_id db h = Ok i"
    using assms by (auto simp: confirm_eth_tx_def res_bind_Ok_iff)
  then show ?thesis
    using assms that [OF i, of "map_option eb_op_id (find (\<lambda>b. eb_eth_op_id b = i) (db_eth_ops_binding db))"]
    by (simp add: confirm_eth_tx_def res_bind_Ok_iff del: map_option_eq_Some)
qed

lemma db_ok_map_rows:
  assumes "db_ok hn db" "\<And>r. so_id (f r) = so_id r" "\<And>r. so_nonce (f r) = so_nonce r"
    "db_eth_operations db' = map f (db_eth_operations db)" "db_next_eth_op_id db' = db_next_eth_op_id db"
    "db_eth_parameters db' = db_eth_parameters db" "db_eth_tx_hashes db' = db_eth_tx_hashes db"
    "db_eth_ops_binding db' = db_eth_ops_binding db"
  shows "db_ok hn db'"
  using assms by (simp add: db_ok_def db_ids_ok_def db_nonces_ok_def db_refs_ok_def o_def list_ex_iff)

lemma load_confirmed:
  assumes "db_ok hn db" "load_unconfirmed_operations db = Ok (xs @ op # ys)" "h \<in> set (eo_used_tx_hashes op)"
    "confirm_eth_tx db h = Ok db'"
  shows "load_unconfirmed_operations db' = Ok (xs @ ys) \<and> db_ok hn db' \<and> load_stats db' = load_stats db"
proof -
  obtain R1 r R2 where R: "filter (\<lambda>r. \<not> so_confirmed r) (db_eth_operations db) = R1 @ r # R2"
      "collect_res (load_eth_operation db) R1 = Ok xs" "load_eth_operation db r = Ok op"
      "collect_res (load_eth_operation db) R2 = Ok ys" "so_id r = eo_id op"
      "so_id r \<notin> so_id ` set R1" "so_id r \<notin> so_id ` set R2"
    by (rule loaded_row [OF assms(1,2)])
  obtain i c where ic: "get_eth_op_id db h = Ok i" "db' = db\<lparr>db_eth_operations := map (\<lambda>r. if so_id r = i
         then r\<lparr>so_confirmed := True, so_final_hash := Some h\<rparr> else r) (db_eth_operations db),
       db_operations := map (\<lambda>r. if c = Some (sto_id r) then r\<lparr>sto_confirmed := True\<rparr> else r) (db_operations db)\<rparr>"
    using assms(4) by (rule confirm_eth_tx_Ok)
  obtain e where "e \<in> set (db_eth_tx_hashes db)" "eh_eth_op_id e = so_id r" "eh_tx_hash e = h"
    using loaded_hashes [OF R(3) assms(3)] by blast
  then have i: "i = so_id r"
    using get_eth_op_id_hash [OF assms(1), of e] ic(1) by simp
  have ok: "db_ok hn db'"
    by (rule db_ok_map_rows [OF assms(1), of "\<lambda>r. if so_id r = i then r\<lparr>so_confirmed := True, so_final_hash := Some h\<rparr> else r"])
      (simp_all add: ic(2))
  have "bound_operation db' j = bound_operation db j" for j
    by (simp add: bound_operation_def ic(2) find_into_op split: option.split)
  then have same: "load_eth_operation db' r' = load_eth_operation db r'" for r'
    by (intro load_eth_operation_cong) (simp_all add: ic(2))
  have "filter (\<lambda>r. \<not> so_confirmed r) (db_eth_operations db') = R1 @ R2"
    using filter_others [OF R(6)] filter_others [OF R(7)] by (simp add: ic(2) filter_confirmed R(1) i)
  then have "load_unconfirmed_operations db' = Ok (xs @ ys)"
    using R(2,4) by (simp add: load_unconfirmed_sorted [OF ok] collect_res_append same [abs_def])
  then show ?thesis
    using ok by (simp add: ic(2) load_stats_def)
qed

section \<open>A replacement\<close>

lemma load_replaced:
  assumes "db_ok hn db" "load_unconfirmed_operations db = Ok (xs @ op # ys)" "hn h = eo_nonce op"
    "add_hash_entry (update_eth_tx db (eo_id op) deadline price) (eo_id op) h = Ok db'"
  shows "load_unconfirmed_operations db' = Ok (xs @ op\<lparr>eo_last_deadline_block := deadline, eo_last_used_gas_price := price,
      eo_used_tx_hashes := eo_used_tx_hashes op @ [h]\<rparr> # ys) \<and> db_ok hn db' \<and> load_stats db' = load_stats db"
proof -
  obtain R1 r R2 where R: "filter (\<lambda>r. \<not> so_confirmed r) (db_eth_operations db) = R1 @ r # R2"
      "collect_res (load_eth_operation db) R1 = Ok xs" "load_eth_operation db r = Ok op"
      "collect_res (load_eth_operation db) R2 = Ok ys" "so_id r = eo_id op"
      "so_id r \<notin> so_id ` set R1" "so_id r \<notin> so_id ` set R2"
    by (rule loaded_row [OF assms(1,2)])
  define f :: "storage_eth_operation \<Rightarrow> storage_eth_operation" where "f = (\<lambda>r. if so_id r = eo_id op
    then r\<lparr>so_last_used_gas_price := price, so_last_deadline_block := deadline\<rparr> else r)"
  let ?e = "\<lparr>eh_eth_op_id = eo_id op, eh_tx_hash = h\<rparr>"
  have db': "db' = db\<lparr>db_eth_operations := map f (db_eth_operations db), db_eth_tx_hashes := db_eth_tx_hashes db @ [?e]\<rparr>"
    using assms(4) by (auto simp: add_hash_entry_def update_eth_tx_def f_def split: if_splits)
  have f [simp]: "so_id (f r) = so_id r" "so_nonce (f r) = so_nonce r" "so_confirmed (f r) = so_confirmed r" for r
    by (simp_all add: f_def)
  have bound: "bound_operation db' j = bound_operation db j" for j
    by (simp add: bound_operation_def db' split: option.split)
  have r: "r \<in> set (db_eth_operations db)"
    using R(1) by (metis filter_is_subset in_set_conv_decomp subsetD)
  have "so_nonce r = int (eo_nonce op)"
    using R(3) by (auto simp: load_eth_operation_def Let_def ok_iffs u256_from_i64_def split: if_splits)
  then have ok: "db_ok hn db'"
    using assms(1,3) r R(5) by (auto simp: db_ok_def db_ids_ok_def db_nonces_ok_def db_refs_ok_def db' o_def list_ex_iff)
  have other: "load_eth_operation db' (f r') = load_eth_operation db r'" if "so_id r' \<noteq> eo_id op" for r'
    using that by (simp add: load_eth_operation_def bound) (simp add: f_def db')
  have this_one: "load_eth_operation db' (f r) = Ok (op\<lparr>eo_last_deadline_block := deadline, eo_last_used_gas_price := price,
      eo_used_tx_hashes := eo_used_tx_hashes op @ [h]\<rparr>)"
    using R(3,5) unfolding load_eth_operation_def bound by (cases op) (auto simp: f_def db' Let_def ok_iffs)
  have others: "collect_res (load_eth_operation db') (map f rows) = collect_res (load_eth_operation db) rows"
    if "so_id r \<notin> so_id ` set rows" for rows
    unfolding collect_res_map using that R(5) by (intro collect_res_cong other) (metis image_eqI)
  have rows: "filter (\<lambda>r. \<not> so_confirmed r) (db_eth_operations db') = map f R1 @ f r # map f R2"
    by (simp add: db' filter_map o_def R(1))
  have "load_unconfirmed_operations db' = Ok (xs @ op\<lparr>eo_last_deadline_block := deadline, eo_last_used_gas_price := price,
      eo_used_tx_hashes := eo_used_tx_hashes op @ [h]\<rparr> # ys)"
    unfolding load_unconfirmed_sorted [OF ok] rows collect_res_append
    by (simp add: others R(2,4,6,7) this_one)
  then show ?thesis
    using ok by (simp add: db' load_stats_def)
qed

end
