(* ===== verification/EthSender.thy ===== *)
theory EthSender
  imports EthStorage GasAdjuster
begin

text \<open>
  The Ethereum sender, @core/bin/zksync_eth_sender/src/lib.rs@.  What the node, the signer and the
  database connection answer during one handler call is an argument of the call (@answers@); the
  tables are part of the state, with the writes of an SQL transaction taking effect when it commits.
  A handler returns its outcome and the state it leaves, since an error keeps the changes made to the
  memory before it.  @es_sent@ records what the node accepted.
\<close>

section \<open>The outside\<close>

record tx_options =
  opt_gas :: "nat option"
  opt_gas_price :: "nat option"
  opt_nonce :: "nat option"

record signed_call_result =
  sc_raw_tx :: "byte list"
  sc_gas_price :: nat
  sc_nonce :: nat
  sc_hash :: h256

record executed_tx_status =
  ets_confirmations :: "64 word"
  ets_success :: bool
  ets_receipt :: "h256 option"

text \<open>A receipt of the node; only its block number and status are read.\<close>

record transaction_receipt =
  rc_transaction_hash :: h256
  rc_block_number :: "64 word option"
  rc_status :: "64 word option"

text \<open>
  The answers of one call; a receipt and the acceptance of a raw transaction depend on the
  transaction.  The signer gets data, nonce, gas price and gas limit, and returns the
  raw transaction with its hash; @an_queries@ is the outcome of the statements of the SQL transaction.
\<close>

record answers =
  an_block_number :: "(error, 64 word) res"
  an_gas_price :: "(error, nat) res"
  an_pending_nonce :: "(error, nat) res"
  an_receipt :: "h256 \<Rightarrow> (error, transaction_receipt option) res"
  an_signer :: "byte list \<Rightarrow> nat \<Rightarrow> nat \<Rightarrow> nat \<Rightarrow> (error, byte list \<times> h256) res"
  an_send :: "byte list \<Rightarrow> (error, h256) res"
  an_connection :: "(error, unit) res"
  an_queries :: "(error, unit) res"
  an_commit :: "(error, unit) res"

datatype eth_call =
    CommitBlock "64 word" "64 word" "byte list list" "byte list" "byte list" "64 word list"
  | VerifyBlock "64 word" "256 word list" "byte list"
  | CompleteWithdrawals nat

subsection \<open>The Ethereum client\<close>

definition saturating_sub :: "'w :: len word \<Rightarrow> 'w word \<Rightarrow> 'w word" where
  "saturating_sub a b = (if b \<le> a then a - b else 0)"

definition get_tx_status :: "answers \<Rightarrow> h256 \<Rightarrow> (error, executed_tx_status option) res" where
  "get_tx_status a hash =
    res_bind (an_receipt a hash) (\<lambda>receipt. case receipt of
      None \<Rightarrow> Ok None
    | Some r \<Rightarrow> (case (rc_block_number r, rc_status r) of
        (Some tx_block_number, Some status) \<Rightarrow>
          res_map (\<lambda>n. Some \<lparr>ets_confirmations = saturating_sub n tx_block_number, ets_success = (status = 1),
            ets_receipt = (if status = 1 then None else Some (rc_transaction_hash r))\<rparr>) (an_block_number a)
      | _ \<Rightarrow> Ok None))"

definition send_tx :: "answers \<Rightarrow> signed_call_result \<Rightarrow> (error, unit) res" where
  "send_tx a signed_tx =
    res_bind (an_send a (sc_raw_tx signed_tx)) (\<lambda>hash. ensure (hash = sc_hash signed_tx) ''Hash from signer and Ethereum node mismatch'')"

definition FALLBACK_GAS_LIMIT :: nat where "FALLBACK_GAS_LIMIT = 3000000"

definition sign_prepared_tx :: "answers \<Rightarrow> byte list \<Rightarrow> tx_options \<Rightarrow> (error, signed_call_result) res" where
  "sign_prepared_tx a data options =
    res_bind (case opt_gas_price options of Some p \<Rightarrow> Ok p | None \<Rightarrow> an_gas_price a) (\<lambda>gas_price.
    res_bind (case opt_nonce options of Some n \<Rightarrow> Ok n | None \<Rightarrow> an_pending_nonce a) (\<lambda>nonce.
    let gas = (case opt_gas options of Some g \<Rightarrow> g | None \<Rightarrow> FALLBACK_GAS_LIMIT)
    in res_map (\<lambda>(raw, hash). \<lparr>sc_raw_tx = raw, sc_gas_price = gas_price, sc_nonce = nonce, sc_hash = hash\<rparr>)
         (an_signer a data nonce gas_price gas)))"

section \<open>The sender\<close>

record eth_sender_options =
  eso_expected_wait_time_block :: "64 word"
  eso_wait_confirmations :: "64 word"
  eso_max_txs_in_flight :: "64 word"
  eso_is_enabled :: bool

record eth_sender =
  es_ongoing_ops :: "eth_operation list"
  es_db :: eth_db
  es_encode_tx_data :: "eth_call \<Rightarrow> byte list"
  es_tx_queue :: tx_queue
  es_gas_adjuster :: gas_adjuster
  es_options :: eth_sender_options
  es_sent :: "signed_call_result list"

datatype tx_check_mode = Latest | Old

datatype tx_check_outcome = TxCommitted | TxPending | TxStuck | TxFailed h256

datatype operation_commitment = Committed | Pending

definition get_deadline_block :: "eth_sender \<Rightarrow> 64 word \<Rightarrow> 64 word" where
  "get_deadline_block s current_block = current_block + eso_expected_wait_time_block (es_options s)"

definition gas_limit_for_op :: "eth_operation \<Rightarrow> ('e, nat) res" where
  "gas_limit_for_op op = (case eo_op_type op of
      OtCommit \<Rightarrow> res_map (\<lambda>o'. bl_commit_gas_limit (opn_block o')) (expect (eo_op op))
    | OtVerify \<Rightarrow> res_map (\<lambda>o'. bl_verify_gas_limit (opn_block o')) (expect (eo_op op))
    | OtWithdraw \<Rightarrow> complete_withdrawals_gas_limit)"

definition sign_new_tx :: "answers \<Rightarrow> eth_operation \<Rightarrow> (error, signed_call_result) res" where
  "sign_new_tx a op =
    res_bind (gas_limit_for_op op) (\<lambda>gas_limit.
    res_bind (assert_that (gas_limit > 0)) (\<lambda>_.
      sign_prepared_tx a (eo_encoded_tx_data op)
        \<lparr>opt_gas = Some gas_limit, opt_gas_price = Some (eo_last_used_gas_price op), opt_nonce = Some (eo_nonce op)\<rparr>))"

section \<open>A new operation\<close>

text \<open>The statements between the start of the SQL transaction and the end of the inner block.\<close>

definition save_and_sign ::
  "answers \<Rightarrow> eth_db \<Rightarrow> tx_data \<Rightarrow> 64 word \<Rightarrow> nat \<Rightarrow> (error, eth_operation \<times> signed_call_result) res \<times> eth_db" where
  "save_and_sign a db tx deadline_block gas_price =
    (case res_bind (an_queries a) (\<lambda>_.
        res_bind (case td_operation tx of None \<Rightarrow> Ok None | Some op \<Rightarrow> res_map Some (expect (opn_id op))) (\<lambda>op_id.
          save_new_eth_tx db (td_op_type tx) op_id deadline_block gas_price (td_raw tx))) of
       Err e \<Rightarrow> (Err e, db)
     | Panic \<Rightarrow> (Panic, db)
     | Ok (assigned_data, db1) \<Rightarrow>
        let new_op = \<lparr>eo_id = ior_id assigned_data, eo_op_type = td_op_type tx, eo_op = td_operation tx,
              eo_nonce = ior_nonce assigned_data, eo_last_deadline_block = deadline_block,
              eo_last_used_gas_price = gas_price, eo_used_tx_hashes = [], eo_encoded_tx_data = td_raw tx,
              eo_confirmed = False, eo_final_hash = None\<rparr>
        in case res_bind (sign_new_tx a new_op) (\<lambda>signed_tx.
             res_map (Pair signed_tx) (add_hash_entry db1 (eo_id new_op) (sc_hash signed_tx))) of
             Err e \<Rightarrow> (Err e, db1)
           | Panic \<Rightarrow> (Panic, db1)
           | Ok (signed_tx, db2) \<Rightarrow>
              (Ok (new_op\<lparr>eo_used_tx_hashes := eo_used_tx_hashes new_op @ [sc_hash signed_tx]\<rparr>, signed_tx), db2))"

definition initialize_operation :: "answers \<Rightarrow> eth_sender \<Rightarrow> tx_data \<Rightarrow> (error, unit) res \<times> eth_sender" where
  "initialize_operation a s tx =
    (case res_bind (an_block_number a) (\<lambda>current_block.
        let deadline_block = get_deadline_block s current_block
        in res_bind (get_gas_price (an_gas_price a) (es_gas_adjuster s) None) (\<lambda>gas_price.
           res_map (\<lambda>_. (deadline_block, gas_price)) (an_connection a))) of
       Err e \<Rightarrow> (Err e, s)
     | Panic \<Rightarrow> (Panic, s)
     | Ok (deadline_block, gas_price) \<Rightarrow>
        (case save_and_sign a (es_db s) tx deadline_block gas_price of
           (Err e, db1) \<Rightarrow> (Err e, s\<lparr>es_db := db_rollback (es_db s) db1\<rparr>)
         | (Panic, db1) \<Rightarrow> (Panic, s)
         | (Ok (new_op, signed_tx), db1) \<Rightarrow>
            let s1 = s\<lparr>es_ongoing_ops := es_ongoing_ops s @ [new_op]\<rparr>;
                s2 = (if send_tx a signed_tx = Ok () then s1\<lparr>es_sent := es_sent s1 @ [signed_tx]\<rparr> else s1)
            in case an_commit a of
                 Ok _ \<Rightarrow> (Ok (), s2\<lparr>es_db := db1\<rparr>)
               | Err e \<Rightarrow> (Err e, s2\<lparr>es_db := db_rollback (es_db s) db1\<rparr>)
               | Panic \<Rightarrow> (Panic, s2)))"

section \<open>The commitment step\<close>

definition check_transaction_state ::
  "answers \<Rightarrow> eth_sender \<Rightarrow> tx_check_mode \<Rightarrow> eth_operation \<Rightarrow> h256 \<Rightarrow> 64 word \<Rightarrow> (error, tx_check_outcome) res" where
  "check_transaction_state a s mode op the_hash current_block =
    res_bind (get_tx_status a the_hash) (\<lambda>status. case status of
      Some status \<Rightarrow>
        if ets_success status then
          Ok (if ets_confirmations status \<ge> eso_wait_confirmations (es_options s) then TxCommitted else TxPending)
        else res_map TxFailed (expect (ets_receipt status))
    | None \<Rightarrow>
        if is_stuck op current_block then Ok TxStuck
        else (case mode of Latest \<Rightarrow> Ok TxPending | Old \<Rightarrow> Ok TxStuck))"

text \<open>
  The loop over the hashes; the last one is checked in the mode @Latest@.  A result means an early
  return: the confirmed hash, or @None@ for a pending transaction.
\<close>

fun check_hashes ::
  "answers \<Rightarrow> eth_sender \<Rightarrow> eth_operation \<Rightarrow> 64 word \<Rightarrow> h256 list \<Rightarrow> (error, h256 option option) res" where
  "check_hashes a s op current_block [] = Ok None"
| "check_hashes a s op current_block (the_hash # rest) =
    res_bind (check_transaction_state a s (if rest = [] then Latest else Old) op the_hash current_block) (\<lambda>outcome.
      case outcome of
        TxPending \<Rightarrow> Ok (Some None)
      | TxCommitted \<Rightarrow> Ok (Some (Some the_hash))
      | TxStuck \<Rightarrow> check_hashes a s op current_block rest
      | TxFailed receipt \<Rightarrow> Panic)"

definition tx_options_from_stuck_tx :: "answers \<Rightarrow> eth_sender \<Rightarrow> eth_operation \<Rightarrow> (error, tx_options) res" where
  "tx_options_from_stuck_tx a s stuck_tx =
    res_bind (get_gas_price (an_gas_price a) (es_gas_adjuster s) (Some (eo_last_used_gas_price stuck_tx))) (\<lambda>new_gas_price.
    res_bind (gas_limit_for_op stuck_tx) (\<lambda>gas_limit.
    res_bind (assert_that (gas_limit > 0)) (\<lambda>_.
      Ok \<lparr>opt_gas = Some gas_limit, opt_gas_price = Some new_gas_price, opt_nonce = Some (eo_nonce stuck_tx)\<rparr>)))"

definition create_supplement_tx ::
  "answers \<Rightarrow> eth_sender \<Rightarrow> 64 word \<Rightarrow> eth_operation \<Rightarrow> (error, signed_call_result \<times> eth_operation) res" where
  "create_supplement_tx a s deadline_block stuck_tx =
    res_bind (tx_options_from_stuck_tx a s stuck_tx) (\<lambda>options.
    res_bind (sign_prepared_tx a (eo_encoded_tx_data stuck_tx) options) (\<lambda>signed_tx.
      Ok (signed_tx, stuck_tx\<lparr>eo_last_deadline_block := deadline_block, eo_last_used_gas_price := sc_gas_price signed_tx,
        eo_used_tx_hashes := eo_used_tx_hashes stuck_tx @ [sc_hash signed_tx]\<rparr>)))"

text \<open>The end of the step, for a stuck operation whose replacement @new_tx@ is already in @op@.\<close>

definition persist_and_send ::
  "answers \<Rightarrow> eth_sender \<Rightarrow> eth_operation \<Rightarrow> 64 word \<Rightarrow> signed_call_result \<Rightarrow> (error, operation_commitment) res \<times> eth_sender" where
  "persist_and_send a s op deadline_block new_tx =
    (case res_bind (an_connection a) (\<lambda>_. res_bind (an_queries a) (\<lambda>_.
        add_hash_entry (update_eth_tx (es_db s) (eo_id op) deadline_block (sc_gas_price new_tx)) (eo_id op) (sc_hash new_tx))) of
       Err e \<Rightarrow> (Err e, s)
     | Panic \<Rightarrow> (Panic, s)
     | Ok db1 \<Rightarrow>
        (case send_tx a new_tx of
           Err e \<Rightarrow> (Err e, s)
         | Panic \<Rightarrow> (Panic, s)
         | Ok _ \<Rightarrow>
            let s1 = s\<lparr>es_sent := es_sent s @ [new_tx]\<rparr>
            in case an_commit a of
                 Ok _ \<Rightarrow> (Ok Pending, s1\<lparr>es_db := db1\<rparr>)
               | Err e \<Rightarrow> (Err e, s1)
               | Panic \<Rightarrow> (Panic, s1)))"

definition perform_commitment_step ::
  "answers \<Rightarrow> eth_sender \<Rightarrow> eth_operation \<Rightarrow> (error, operation_commitment) res \<times> eth_operation \<times> eth_sender" where
  "perform_commitment_step a s op =
    (case res_bind (assert_that (eo_used_tx_hashes op \<noteq> [])) (\<lambda>_.
        res_bind (an_block_number a) (\<lambda>current_block.
          res_map (Pair current_block) (check_hashes a s op current_block (eo_used_tx_hashes op)))) of
       Err e \<Rightarrow> (Err e, op, s)
     | Panic \<Rightarrow> (Panic, op, s)
     | Ok p \<Rightarrow>
        (case snd p of
           Some None \<Rightarrow> (Ok Pending, op, s)
         | Some (Some the_hash) \<Rightarrow>
            (case res_bind (an_connection a) (\<lambda>_. res_bind (an_queries a) (\<lambda>_. confirm_eth_tx (es_db s) the_hash)) of
               Ok db1 \<Rightarrow> (Ok Committed, op, s\<lparr>es_db := db1\<rparr>)
             | Err e \<Rightarrow> (Err e, op, s)
             | Panic \<Rightarrow> (Panic, op, s))
         | None \<Rightarrow>
            let deadline_block = get_deadline_block s (fst p)
            in (case create_supplement_tx a s deadline_block op of
                  Err e \<Rightarrow> (Err e, op, s)
                | Panic \<Rightarrow> (Panic, op, s)
                | Ok (new_tx, op') \<Rightarrow> (let (r, s') = persist_and_send a s op' deadline_block new_tx in (r, op', s')))))"

section \<open>The queue of operations\<close>

definition operation_to_raw_tx :: "eth_sender \<Rightarrow> operation \<Rightarrow> (error, byte list) res" where
  "operation_to_raw_tx s op = (case opn_action op of
      ActCommit \<Rightarrow>
        let b = opn_block op; root = get_eth_encoded_root b; witness_data = block_eth_witness_data b
        in res_map (\<lambda>public_data. es_encode_tx_data s (CommitBlock (ucast (bl_block_number b)) (ucast (bl_fee_account b))
             [root] public_data (fst witness_data) (snd witness_data))) (no_err (block_public_data b))
    | ActVerify proof \<Rightarrow>
        let b = opn_block op
        in res_map (\<lambda>withdrawals_data. es_encode_tx_data s (VerifyBlock (ucast (bl_block_number b)) (ep_proof proof)
             withdrawals_data)) (no_err (get_withdrawals_data b)))"

definition add_operation_to_queue :: "eth_sender \<Rightarrow> operation \<Rightarrow> (error, eth_sender) res" where
  "add_operation_to_queue s op =
    res_bind (operation_to_raw_tx s op) (\<lambda>raw_tx.
    let block_number = bl_block_number (opn_block op); q = es_tx_queue s
    in case opn_action op of
         ActCommit \<Rightarrow>
           res_bind (commit_operation_exists q block_number) (\<lambda>exists.
             if exists then Ok s
             else res_map (\<lambda>_. s\<lparr>es_tx_queue := add_commit_operation q (from_operation OtCommit op raw_tx)\<rparr>)
                    (expect (opn_id op)))
       | ActVerify proof \<Rightarrow>
           if verify_operation_exists q block_number then Ok s
           else res_bind (add_verify_operation q (ucast block_number) (from_operation OtVerify op raw_tx)) (\<lambda>q'.
             res_map (\<lambda>_. s\<lparr>es_tx_queue := q'\<rparr>) (expect (opn_id op))))"

fun add_operations :: "eth_sender \<Rightarrow> operation list \<Rightarrow> (error, eth_sender) res" where
  "add_operations s [] = Ok s"
| "add_operations s (op # ops) = res_bind (add_operation_to_queue s op) (\<lambda>s. add_operations s ops)"

definition add_complete_withdrawals_to_queue :: "eth_sender \<Rightarrow> eth_sender" where
  "add_complete_withdrawals_to_queue s =
    (let raw_tx = es_encode_tx_data s (CompleteWithdrawals MAX_WITHDRAWALS_TO_COMPLETE_IN_A_CALL)
     in s\<lparr>es_tx_queue := add_withdraw_operation (es_tx_queue s) (from_raw OtWithdraw raw_tx)\<rparr>)"

text \<open>@load_new_operations@: the first answer is that of the connection, the second of the query.\<close>

definition load_new_operations :: "answers \<Rightarrow> eth_sender \<Rightarrow> (error, eth_sender) res" where
  "load_new_operations a s =
    (if an_connection a \<noteq> Ok () then Ok s
     else add_operations s (if an_queries a = Ok () then load_unprocessed_operations (es_db s) else []))"

definition eth_sender_new ::
  "eth_sender_options \<Rightarrow> (eth_call \<Rightarrow> byte list) \<Rightarrow> nat \<Rightarrow> eth_db \<Rightarrow> (error, eth_sender) res" where
  "eth_sender_new options encode now db =
    res_bind (unwrap (restore_state db)) (\<lambda>(ongoing_ops, unprocessed_ops).
    let stats = load_stats db;
        tx_queue = tx_queue_build
          (with_withdraw_operations_count
            (with_verify_operations_count
              (with_commit_operations_count
                (with_sent_pending_txs (tx_queue_builder_new (eso_max_txs_in_flight options))
                  (of_nat (size ongoing_ops)))
                (word_of_int (est_commit_ops stats)))
              (word_of_int (est_verify_ops stats)))
            (word_of_int (est_withdraw_ops stats)))
    in res_bind (load_gas_price_limit db) (\<lambda>gas_price_limit.
       add_operations \<lparr>es_ongoing_ops = ongoing_ops, es_db = db, es_encode_tx_data = encode, es_tx_queue = tx_queue,
         es_gas_adjuster = gas_adjuster_new gas_price_limit now, es_options = options, es_sent = []\<rparr> unprocessed_ops))"

section \<open>The loop of the sender\<close>

text \<open>
  Sending everything the queue yields: @env i@ are the answers of the @i@-th iteration.  The result
  @None@ means that the loop does not end.
\<close>

partial_function (option) send_all ::
  "(nat \<Rightarrow> answers) \<Rightarrow> nat \<Rightarrow> eth_sender \<Rightarrow> (error, nat \<times> eth_sender) res option" where
  "send_all env i s = (case tx_queue_pop_front (es_tx_queue s) of
      None \<Rightarrow> Some (Ok (i, s))
    | Some (tx, q) \<Rightarrow>
        (case initialize_operation (env i) (s\<lparr>es_tx_queue := q\<rparr>) tx of
           (Ok _, s1) \<Rightarrow> send_all env (i + 1) s1
         | (Err e, s1) \<Rightarrow>
             (case return_popped (es_tx_queue s1) tx of
                Ok q1 \<Rightarrow> send_all env (i + 1) (s1\<lparr>es_tx_queue := q1\<rparr>)
              | Err e \<Rightarrow> Some (Err e)
              | Panic \<Rightarrow> Some Panic)
         | (Panic, s1) \<Rightarrow> Some Panic))"

declare send_all.simps [code]

text \<open>A committed operation frees its slot; a verify operation with withdrawals asks for their completion.\<close>

definition commit_done :: "eth_sender \<Rightarrow> eth_operation \<Rightarrow> (error, eth_sender) res" where
  "commit_done s current_op =
    res_bind (report_commitment (es_tx_queue s)) (\<lambda>q.
    let s = s\<lparr>es_tx_queue := q\<rparr>
    in if is_verify current_op then
         res_bind (expect (eo_op current_op)) (\<lambda>sync_op.
         res_map (\<lambda>data. if data \<noteq> [] then add_complete_withdrawals_to_queue s else s)
           (no_err (get_withdrawals_data (opn_block sync_op))))
       else Ok s)"

text \<open>The loop over the ongoing operations; the result has those not finished.\<close>

fun commit_all ::
  "(nat \<Rightarrow> answers) \<Rightarrow> nat \<Rightarrow> eth_sender \<Rightarrow> eth_operation list \<Rightarrow> eth_operation list
    \<Rightarrow> (error, eth_operation list \<times> eth_sender) res" where
  "commit_all env i s [] new_ongoing_ops = Ok (new_ongoing_ops, s)"
| "commit_all env i s (op # ops) new_ongoing_ops =
    (case perform_commitment_step (env i) s op of
       (Panic, current_op, s1) \<Rightarrow> Panic
     | (Ok Committed, current_op, s1) \<Rightarrow>
         res_bind (commit_done s1 current_op) (\<lambda>s2. commit_all env (i + 1) s2 ops new_ongoing_ops)
     | (_, current_op, s1) \<Rightarrow> commit_all env (i + 1) s1 ops (new_ongoing_ops @ [current_op]))"

definition proceed_next_operations :: "(nat \<Rightarrow> answers) \<Rightarrow> eth_sender \<Rightarrow> (error, eth_sender) res option" where
  "proceed_next_operations env s =
    map_option (\<lambda>r. res_bind r (\<lambda>(i, s).
      res_map (\<lambda>(new_ongoing_ops, s). s\<lparr>es_ongoing_ops := new_ongoing_ops\<rparr>)
        (commit_all env i (s\<lparr>es_ongoing_ops := []\<rparr>) (es_ongoing_ops s) [])))
    (send_all env 0 s)"

text \<open>
  One iteration of @run@: the operations are loaded within the poll period (@in_time@) or not, and
  the gas adjuster is kept up to date.
\<close>

definition run_iteration ::
  "gas_parameters \<Rightarrow> nat \<Rightarrow> bool \<Rightarrow> answers \<Rightarrow> (nat \<Rightarrow> answers) \<Rightarrow> answers \<Rightarrow> eth_sender
    \<Rightarrow> (error, eth_sender) res option" where
  "run_iteration pars now in_time load env upd s =
    (case (if in_time then load_new_operations load s else Ok s) of
       Err e \<Rightarrow> Some (Err e)
     | Panic \<Rightarrow> Some Panic
     | Ok s \<Rightarrow>
        if eso_is_enabled (es_options s) then
          map_option (\<lambda>r. res_bind r (\<lambda>s.
            res_bind (keep_updated pars now (an_gas_price upd) (an_connection upd = Ok ()) (es_gas_adjuster s)) (\<lambda>(g, w).
            res_map (\<lambda>db. s\<lparr>es_gas_adjuster := g, es_db := db\<rparr>)
              (case w of Some (l, a) \<Rightarrow> if an_queries upd = Ok () then update_gas_price (es_db s) l a else Ok (es_db s)
               | None \<Rightarrow> Ok (es_db s)))))
            (proceed_next_operations env s)
        else Some (Ok s))"

end
