(* ===== verification/EthSenderProps.thy ===== *)
theory EthSenderProps
  imports EthSender EthStorageProps TxQueueProps
begin

text \<open>
  What the Ethereum sender promises: the outcome of a commitment step, and that the tables hold at
  every round what a restarted sender needs to go on, as long as the statements of a started SQL
  transaction take effect.  The last section shows what a failing commit does.
\<close>

section \<open>The commitment step\<close>

text \<open>@tx_absent@: the node knows nothing of the transaction; @tx_confirmed@: it succeeded, deep enough.\<close>

definition tx_absent :: "answers \<Rightarrow> h256 \<Rightarrow> bool" where
  "tx_absent a h \<longleftrightarrow> get_tx_status a h = Ok None"

definition tx_confirmed :: "answers \<Rightarrow> eth_sender \<Rightarrow> h256 \<Rightarrow> bool" where
  "tx_confirmed a s h \<longleftrightarrow> (\<exists>st. get_tx_status a h = Ok (Some st) \<and> ets_success st
    \<and> eso_wait_confirmations (es_options s) \<le> ets_confirmations st)"

lemma check_state_Ok:
  assumes "check_transaction_state a s mode op h n = Ok oc"
  shows "case oc of TxCommitted \<Rightarrow> tx_confirmed a s h
    | TxStuck \<Rightarrow> tx_absent a h \<and> (is_stuck op n \<or> mode = Old) | _ \<Rightarrow> True"
proof -
  obtain st where st: "get_tx_status a h = Ok st"
    using assms by (auto simp: check_transaction_state_def res_bind_Ok_iff)
  show ?thesis
    using assms st by (cases st; cases mode)
      (auto simp: check_transaction_state_def tx_absent_def tx_confirmed_def res_map_Ok_iff split: if_splits)
qed

lemma check_hashes_confirmed:
  "check_hashes a s op n hs = Ok (Some (Some h)) \<Longrightarrow>
    \<exists>pre post. hs = pre @ h # post \<and> tx_confirmed a s h \<and> (\<forall>h' \<in> set pre. tx_absent a h')"
proof (induction hs)
  case (Cons h0 hs)
  then obtain oc where oc: "check_transaction_state a s (if hs = [] then Latest else Old) op h0 n = Ok oc"
    by (auto simp: res_bind_Ok_iff)
  show ?case
  proof (cases oc)
    case TxStuck
    then obtain pre post where "hs = pre @ h # post" "tx_confirmed a s h" "\<forall>h' \<in> set pre. tx_absent a h'"
      using Cons oc by auto
    then show ?thesis
      using check_state_Ok [OF oc] TxStuck by (intro exI [of _ "h0 # pre"] exI [of _ post]) auto
  qed (use Cons.prems oc check_state_Ok [OF oc] in \<open>auto intro: exI [of _ "[]"]\<close>)
qed simp

lemma check_hashes_stuck:
  "check_hashes a s op n hs = Ok None \<Longrightarrow> (\<forall>h \<in> set hs. tx_absent a h) \<and> (hs \<noteq> [] \<longrightarrow> is_stuck op n)"
proof (induction hs)
  case (Cons h0 hs)
  then obtain oc where oc: "check_transaction_state a s (if hs = [] then Latest else Old) op h0 n = Ok oc"
    by (auto simp: res_bind_Ok_iff)
  then show ?case
    using Cons check_state_Ok [OF oc] by (cases oc; cases hs) (auto split: if_splits)
qed simp

lemma sign_prepared_Ok:
  assumes "sign_prepared_tx a data \<lparr>opt_gas = Some g, opt_gas_price = Some p, opt_nonce = Some n\<rparr> = Ok tx"
  shows "sc_gas_price tx = p \<and> sc_nonce tx = n \<and> an_signer a data n p g = Ok (sc_raw_tx tx, sc_hash tx)"
  using assms by (auto simp: sign_prepared_tx_def ok_iffs)

lemma create_supplement_Ok:
  assumes "create_supplement_tx a s deadline op = Ok (tx, op')"
  shows "op' = op\<lparr>eo_last_deadline_block := deadline, eo_last_used_gas_price := sc_gas_price tx,
        eo_used_tx_hashes := eo_used_tx_hashes op @ [sc_hash tx]\<rparr>
    \<and> sc_nonce tx = eo_nonce op
    \<and> get_gas_price (an_gas_price a) (es_gas_adjuster s) (Some (eo_last_used_gas_price op)) = Ok (sc_gas_price tx)
    \<and> (\<exists>g > 0. (gas_limit_for_op op :: (error, nat) res) = Ok g
        \<and> an_signer a (eo_encoded_tx_data op) (eo_nonce op) (sc_gas_price tx) g = Ok (sc_raw_tx tx, sc_hash tx))"
  using assms by (auto simp: create_supplement_tx_def tx_options_from_stuck_tx_def ok_iffs dest!: sign_prepared_Ok)

lemma persist_and_send_Ok:
  assumes "persist_and_send a s op deadline tx = (Ok c, s')"
  shows "c = Pending \<and> es_sent s' = es_sent s @ [tx] \<and> send_tx a tx = Ok ()
    \<and> add_hash_entry (update_eth_tx (es_db s) (eo_id op) deadline (sc_gas_price tx)) (eo_id op) (sc_hash tx) = Ok (es_db s')
    \<and> s' = s\<lparr>es_sent := es_sent s', es_db := es_db s'\<rparr>"
  using assms by (auto simp: persist_and_send_def Let_def ok_iffs split: res.splits)

text \<open>The three ways for a step to succeed.\<close>

lemma commitment_step_cases:
  assumes "perform_commitment_step a s op = (Ok c, op', s')"
  obtains (pending) "c = Pending" "op' = op" "s' = s"
    | (committed) pre h post where "c = Committed" "op' = op" "eo_used_tx_hashes op = pre @ h # post"
      "tx_confirmed a s h" "\<forall>h' \<in> set pre. tx_absent a h'" "confirm_eth_tx (es_db s) h = Ok (es_db s')"
      "s' = s\<lparr>es_db := es_db s'\<rparr>"
    | (replaced) n tx where "c = Pending" "\<forall>h \<in> set (eo_used_tx_hashes op). tx_absent a h" "is_stuck op n"
      "an_block_number a = Ok n"
      "create_supplement_tx a s (get_deadline_block s n) op = Ok (tx, op')"
      "persist_and_send a s op' (get_deadline_block s n) tx = (Ok c, s')"
proof -
  obtain n r where r: "eo_used_tx_hashes op \<noteq> []" "an_block_number a = Ok n" "check_hashes a s op n (eo_used_tx_hashes op) = Ok r"
    using assms by (auto simp: perform_commitment_step_def ok_iffs split: res.splits)
  show ?thesis
  proof (cases r)
    case None
    then have "create_supplement_tx a s (get_deadline_block s n) op \<noteq> Panic"
      "\<forall>e. create_supplement_tx a s (get_deadline_block s n) op \<noteq> Err e"
      using assms r by (auto simp: perform_commitment_step_def Let_def)
    then obtain tx op1 where tx: "create_supplement_tx a s (get_deadline_block s n) op = Ok (tx, op1)"
      by (cases "create_supplement_tx a s (get_deadline_block s n) op") auto
    moreover from this have "op1 = op'" and ps: "persist_and_send a s op' (get_deadline_block s n) tx = (Ok c, s')"
      using assms r None by (auto simp: perform_commitment_step_def Let_def split: prod.splits)
    ultimately show ?thesis
      using r None that(3) [OF _ _ _ r(2)] check_hashes_stuck [of a s op n "eo_used_tx_hashes op"]
        persist_and_send_Ok [OF ps] by auto
  next
    case (Some h)
    show ?thesis
    proof (cases h)
      case None
      then show ?thesis
        using assms r Some that(1) by (auto simp: perform_commitment_step_def)
    next
      case (Some h0)
      then have "c = Committed \<and> op' = op \<and> confirm_eth_tx (es_db s) h0 = Ok (es_db s') \<and> s' = s\<lparr>es_db := es_db s'\<rparr>"
        using assms r \<open>r = Some h\<close> by (auto simp: perform_commitment_step_def ok_iffs split: res.splits)
      then show ?thesis
        using that(2) check_hashes_confirmed [of a s op n "eo_used_tx_hashes op" h0] r(3) Some \<open>r = Some h\<close> by blast
    qed
  qed
qed

text \<open>C21: An operation is reported committed only for a transaction of it that succeeded with enough
  confirmations, and a replacement is sent only when the deadline passed and the node knows none of
  its transactions; the replacement has the nonce and the data of the operation and a price within
  the limit.\<close>

theorem commitment_step_ok:
  assumes "perform_commitment_step a s op = (Ok c, op', s')"
  shows "case c of
      Committed \<Rightarrow> op' = op \<and> es_sent s' = es_sent s
        \<and> (\<exists>pre h post. eo_used_tx_hashes op = pre @ h # post \<and> tx_confirmed a s h \<and> (\<forall>h' \<in> set pre. tx_absent a h')
            \<and> confirm_eth_tx (es_db s) h = Ok (es_db s'))
    | Pending \<Rightarrow> (op' = op \<and> s' = s)
        \<or> (\<exists>tx g n. es_sent s' = es_sent s @ [tx] \<and> (\<forall>h \<in> set (eo_used_tx_hashes op). tx_absent a h)
            \<and> an_block_number a = Ok n \<and> is_stuck op n
            \<and> op' = op\<lparr>eo_last_deadline_block := n + eso_expected_wait_time_block (es_options s),
                eo_last_used_gas_price := sc_gas_price tx, eo_used_tx_hashes := eo_used_tx_hashes op @ [sc_hash tx]\<rparr>
            \<and> an_signer a (eo_encoded_tx_data op) (eo_nonce op) (sc_gas_price tx) g = Ok (sc_raw_tx tx, sc_hash tx)
            \<and> 0 < g \<and> sc_gas_price tx \<le> get_current_max_price (es_gas_adjuster s))"
  using assms
proof (cases rule: commitment_step_cases)
  case (replaced n tx)
  obtain g where "0 < g" "an_signer a (eo_encoded_tx_data op) (eo_nonce op) (sc_gas_price tx) g = Ok (sc_raw_tx tx, sc_hash tx)"
    using create_supplement_Ok [OF replaced(5)] by blast
  then show ?thesis
    using replaced(1,2,3,4) create_supplement_Ok [OF replaced(5)] persist_and_send_Ok [OF replaced(6)] get_gas_price_Ok
    by (auto simp: get_deadline_block_def intro!: exI [of _ tx] exI [of _ g])
next
  case (committed pre h post)
  then have "es_sent s' = es_sent s"
    by (metis (no_types, lifting) eth_sender.select_convs(7) eth_sender.surjective eth_sender.update_convs(2))
  then show ?thesis
    using committed by auto
qed auto

section \<open>The tables and the memory\<close>

definition counters_match :: "tx_queue \<Rightarrow> eth_stats \<Rightarrow> bool" where
  "counters_match q st \<longleftrightarrow> cq_get_count (tq_commit_operations q) = word_of_int (est_commit_ops st)
    \<and> sq_next_id (tq_verify_operations q) = word_of_int (est_verify_ops st) + 1
    \<and> cq_get_count (tq_withdraw_operations q) = word_of_int (est_withdraw_ops st)"

definition queue_backed :: "eth_db \<Rightarrow> tx_queue \<Rightarrow> bool" where
  "queue_backed db q \<longleftrightarrow> queue_typed q
    \<and> (\<forall>t \<in> set (cq_elements (tq_commit_operations q)). backed db (td_operation t))
    \<and> (\<forall>i t. fmlookup (sq_elements (tq_verify_operations q)) i = Some t \<longrightarrow> backed db (td_operation t))
    \<and> (\<forall>t \<in> set (cq_elements (tq_withdraw_operations q)). backed db (td_operation t))"

text \<open>The sender with the ongoing operations @ops@ is what a restart on the tables would give.\<close>

definition synced :: "(h256 \<Rightarrow> nat) \<Rightarrow> eth_operation list \<Rightarrow> eth_sender \<Rightarrow> bool" where
  "synced hn ops s \<longleftrightarrow> db_ok hn (es_db s) \<and> load_unconfirmed_operations (es_db s) = Ok ops
    \<and> counters_match (es_tx_queue s) (load_stats (es_db s)) \<and> queue_backed (es_db s) (es_tx_queue s)
    \<and> unat (tq_sent_pending_txs (es_tx_queue s)) = size ops"

text \<open>
  The database connection works, SQL transactions commit, the node accepts the signed transaction
  and the hash of a transaction determines its nonce.  Reading the state of Ethereum may fail.
\<close>

definition reliable :: "(h256 \<Rightarrow> nat) \<Rightarrow> answers \<Rightarrow> bool" where
  "reliable hn a \<longleftrightarrow> an_connection a = Ok () \<and> an_queries a = Ok () \<and> an_commit a = Ok ()
    \<and> (\<forall>d n p g raw h. an_signer a d n p g = Ok (raw, h) \<longrightarrow> hn h = n \<and> an_send a raw = Ok h)"

lemma queue_sent_simps [simp]:
  "queue_backed db (q\<lparr>tq_sent_pending_txs := n\<rparr>) = queue_backed db q"
  "counters_match (q\<lparr>tq_sent_pending_txs := n\<rparr>) st = counters_match q st"
  by (simp_all add: queue_backed_def queue_typed_def counters_match_def)

subsection \<open>A commitment step\<close>

lemma backed_confirmed: "confirm_eth_tx db h = Ok db' \<Longrightarrow> backed db' op = backed db op"
  by (erule confirm_eth_tx_Ok) (simp add: backed_def find_into_op split: option.split)

lemma backed_same: "db_operations db' = db_operations db \<Longrightarrow> backed db' op = backed db op"
  by (simp add: backed_def split: option.split)

lemma unat_pred: "unat (x :: usize) = Suc n \<Longrightarrow> unat (x - 1) = n"
  by unat_arith

lemma add_hash_operations: "add_hash_entry (update_eth_tx db i d p) j h = Ok db' \<Longrightarrow> db_operations db' = db_operations db"
  by (auto simp: add_hash_entry_def update_eth_tx_def split: if_splits)

lemma list_ex_map_id: "(\<And>r. so_id (f r) = so_id r) \<Longrightarrow> list_ex (\<lambda>r. so_id r = i) (map f rows) = list_ex (\<lambda>r. so_id r = i) rows"
  by (induction rows) auto

lemma queue_backed_cong: "(\<And>op. backed db' op = backed db op) \<Longrightarrow> queue_backed db' q = queue_backed db q"
  by (simp add: queue_backed_def)

lemma commitment_step_synced:
  assumes "perform_commitment_step a s op = (Ok c, op', s')" "synced hn (xs @ op # ys) s" "reliable hn a"
  shows "synced hn (if c = Committed then xs @ ys else xs @ op' # ys) (s'\<lparr>es_tx_queue :=
      (if c = Committed then (es_tx_queue s')\<lparr>tq_sent_pending_txs := tq_sent_pending_txs (es_tx_queue s') - 1\<rparr>
       else es_tx_queue s')\<rparr>) \<and> es_tx_queue s' = es_tx_queue s"
  using assms(1)
proof (cases rule: commitment_step_cases)
  case pending
  then show ?thesis
    using assms(2) by simp
next
  case (committed pre h post)
  have q: "es_tx_queue s' = es_tx_queue s"
    by (subst committed(7)) simp
  have "load_unconfirmed_operations (es_db s') = Ok (xs @ ys) \<and> db_ok hn (es_db s') \<and> load_stats (es_db s') = load_stats (es_db s)"
    using assms(2) committed(3,6) by (intro load_confirmed) (auto simp: synced_def)
  moreover have "unat (tq_sent_pending_txs (es_tx_queue s) - 1) = size (xs @ ys)"
    using assms(2) by (simp add: synced_def unat_pred)
  moreover have "queue_backed (es_db s') (es_tx_queue s)"
    using assms(2) queue_backed_cong [OF backed_confirmed [OF committed(6)]] by (simp add: synced_def)
  ultimately show ?thesis
    using assms(2) q by (simp add: synced_def committed(1))
next
  case (replaced n tx)
  note ps = persist_and_send_Ok [OF replaced(6)]
  have q: "es_tx_queue s' = es_tx_queue s"
    by (subst ps [THEN conjunct2, THEN conjunct2, THEN conjunct2, THEN conjunct2]) simp
  have "hn (sc_hash tx) = eo_nonce op"
    using create_supplement_Ok [OF replaced(5)] assms(3) by (auto simp: reliable_def)
  then have "load_unconfirmed_operations (es_db s') = Ok (xs @ op' # ys) \<and> db_ok hn (es_db s') \<and> load_stats (es_db s') = load_stats (es_db s)"
    using load_replaced [of hn "es_db s" xs op ys "sc_hash tx" "get_deadline_block s n" "sc_gas_price tx"]
      create_supplement_Ok [OF replaced(5)] ps assms(2) by (simp add: synced_def)
  moreover have "db_operations (es_db s') = db_operations (es_db s)"
    using ps add_hash_operations by blast
  then have "queue_backed (es_db s') (es_tx_queue s)"
    using assms(2) queue_backed_cong [OF backed_same] unfolding synced_def by blast
  ultimately show ?thesis
    using assms(2) q by (simp add: synced_def replaced(1))
qed

lemma persist_and_send_reliable:
  assumes "reliable hn a" "list_ex (\<lambda>r. so_id r = eo_id op) (db_eth_operations (es_db s))"
    "an_signer a d n p g = Ok (sc_raw_tx tx, sc_hash tx)"
  shows "\<exists>s'. persist_and_send a s op deadline tx = (Ok Pending, s')"
proof -
  have "list_ex (\<lambda>r. so_id r = eo_id op) (db_eth_operations (update_eth_tx (es_db s) (eo_id op) deadline (sc_gas_price tx)))"
    using assms(2) by (simp add: update_eth_tx_def list_ex_map_id)
  moreover have "send_tx a tx = Ok ()"
    using assms(1,3) by (auto simp: send_tx_def reliable_def)
  ultimately show ?thesis
    using assms(1) by (simp add: persist_and_send_def reliable_def add_hash_entry_def Let_def)
qed

lemma commitment_step_Err:
  assumes "perform_commitment_step a s op = (Err e, op', s')" "synced hn (xs @ op # ys) s" "reliable hn a"
  shows "op' = op \<and> s' = s"
proof (cases "res_bind (assert_that (eo_used_tx_hashes op \<noteq> [])) (\<lambda>_. res_bind (an_block_number a) (\<lambda>n.
    res_map (Pair n) (check_hashes a s op n (eo_used_tx_hashes op))))")
  case check: (Ok nr)
  obtain n r where nr: "nr = (n, r)"
    by (cases nr)
  show ?thesis
  proof (cases r)
    case None
    show ?thesis
    proof (cases "create_supplement_tx a s (get_deadline_block s n) op")
      case (Ok p)
      obtain tx op1 where p: "p = (tx, op1)"
        by (cases p)
      note sup = create_supplement_Ok [OF Ok [unfolded p]]
      obtain R1 r0 R2 where "filter (\<lambda>r. \<not> so_confirmed r) (db_eth_operations (es_db s)) = R1 @ r0 # R2" "so_id r0 = eo_id op"
        using loaded_row [of hn "es_db s" xs op ys] assms(2) unfolding synced_def by metis
      then have "r0 \<in> set (db_eth_operations (es_db s))"
        by (metis filter_is_subset in_set_conv_decomp subsetD)
      moreover have "so_id r0 = eo_id op1"
        using sup \<open>so_id r0 = eo_id op\<close> by simp
      ultimately have "list_ex (\<lambda>r. so_id r = eo_id op1) (db_eth_operations (es_db s))"
        by (auto simp: list_ex_iff)
      then obtain s1 where "persist_and_send a s op1 (get_deadline_block s n) tx = (Ok Pending, s1)"
        using persist_and_send_reliable [OF assms(3)] sup by blast
      then show ?thesis
        using assms(1) check nr None Ok p by (simp add: perform_commitment_step_def Let_def)
    qed (use assms(1) check nr None in \<open>simp_all add: perform_commitment_step_def Let_def\<close>)
  next
    case (Some h)
    then show ?thesis
      using assms(1) check nr
      by (cases h) (simp_all add: perform_commitment_step_def split: res.splits)
  qed
qed (use assms(1) in \<open>simp_all add: perform_commitment_step_def del: assert_bind_Panic\<close>)

subsection \<open>A new operation\<close>

lemma counter_word: "(word_of_int (n + 1) :: usize) = word_of_int n + 1" "(word_of_int (1 + n) :: usize) = 1 + word_of_int n"
  by (simp_all add: wi_hom_syms)

lemma counters_popped:
  assumes "get_next_operation q = Some (t, q')" "queue_typed q" "counters_match q (load_stats db)"
  shows "counters_match q' (load_stats (report_created_operation db (td_op_type t)))"
  using assms(1,2)
proof (cases rule: get_next_cases)
  case (verify v)
  then show ?thesis
    using assms(3) sparse.pop_count [OF verify(2)]
    by (simp add: counters_match_def load_stats_def eth_stats_from_def report_created_operation_def counter_word Let_def)
next
  case (withdraw w)
  then show ?thesis
    using assms(3) counter.pop_count [OF withdraw(2)]
    by (simp add: counters_match_def load_stats_def eth_stats_from_def report_created_operation_def counter_word Let_def)
next
  case (commit c)
  then show ?thesis
    using assms(3) counter.pop_count [OF commit(2)]
    by (simp add: counters_match_def load_stats_def eth_stats_from_def report_created_operation_def counter_word Let_def)
qed

lemma backed_popped:
  assumes "get_next_operation q = Some (t, q')" "queue_backed db q"
  shows "backed db (td_operation t) \<and> queue_backed db q'"
proof -
  have typed: "queue_typed q"
    using assms(2) by (simp add: queue_backed_def)
  have "queue_typed q'"
    using assms(1) typed by (rule get_next_typed)
  with assms(1) typed show ?thesis
  proof (cases rule: get_next_cases)
    case (verify v)
    have "fmlookup (sq_elements (tq_verify_operations q)) (sq_next_expected_idx (tq_verify_operations q)) = Some t"
        "sq_elements v = fmdrop (sq_next_expected_idx (tq_verify_operations q)) (sq_elements (tq_verify_operations q))"
      using verify(2) by (auto simp: sq_pop_front_def split: option.splits)
    then show ?thesis
      using assms(2) \<open>queue_typed q'\<close> by (auto simp: queue_backed_def verify(3) split: if_splits)
  qed (use assms(2) \<open>queue_typed q'\<close> in \<open>auto simp: queue_backed_def dest!: counter.pop_contents\<close>)
qed

lemma save_and_sign_Ok:
  assumes "save_and_sign a db tx deadline price = (Ok (op, stx), db2)" "backed db (td_operation tx)"
  obtains d db1 where "save_new_eth_tx db (td_op_type tx)
      (case td_operation tx of None \<Rightarrow> None | Some o' \<Rightarrow> opn_id o') deadline price (td_raw tx) = Ok (d, db1)"
    "add_hash_entry db1 (ior_id d) (sc_hash stx) = Ok db2" "sc_nonce stx = ior_nonce d"
    "op = \<lparr>eo_id = ior_id d, eo_op_type = td_op_type tx, eo_op = td_operation tx, eo_nonce = ior_nonce d,
      eo_last_deadline_block = deadline, eo_last_used_gas_price = price, eo_used_tx_hashes = [sc_hash stx],
      eo_encoded_tx_data = td_raw tx, eo_confirmed = False, eo_final_hash = None\<rparr>"
    "\<exists>g. an_signer a (td_raw tx) (ior_nonce d) price g = Ok (sc_raw_tx stx, sc_hash stx)"
proof -
  have ids: "(case td_operation tx of None \<Rightarrow> Ok None | Some op \<Rightarrow> res_map Some (expect (opn_id op)))
      = Ok (case td_operation tx of None \<Rightarrow> None | Some o' \<Rightarrow> opn_id o')"
    using assms(2) by (auto simp: backed_def split: option.splits)
  show ?thesis
    using assms(1) that unfolding save_and_sign_def ids
    by (auto simp: Let_def ok_iffs sign_new_tx_def dest!: sign_prepared_Ok split: res.splits) blast
qed

lemma rollback_ok: "db_ok hn db \<Longrightarrow> db_next_eth_op_id db \<le> db_next_eth_op_id db1 \<Longrightarrow> db_ok hn (db_rollback db db1)"
  by (force simp: db_rollback_def db_ok_def db_ids_ok_def db_nonces_ok_def db_refs_ok_def)

lemma load_rollback: "load_unconfirmed_operations (db_rollback db db1) = load_unconfirmed_operations db"
proof -
  have "load_eth_operation (db_rollback db db1) = load_eth_operation db"
    by (rule ext, rule load_eth_operation_cong) (simp_all add: db_rollback_def bound_operation_def split: option.split)
  then show ?thesis
    by (simp add: load_unconfirmed_operations_def) (simp add: db_rollback_def)
qed

lemma save_next: "save_new_eth_tx db ty i dl p raw = Ok (d, db1) \<Longrightarrow> db_next_eth_op_id db1 = db_next_eth_op_id db + 1"
  by (auto simp: save_new_eth_tx_def get_next_nonce_def report_created_operation_def Let_def res_bind_Ok_iff insert_binding_Ok
      split: option.splits)

lemma save_and_sign_next:
  assumes "save_and_sign a db tx dl price = (Err e, db1)"
  shows "db_next_eth_op_id db \<le> db_next_eth_op_id db1"
proof (cases "res_bind (an_queries a) (\<lambda>_.
        res_bind (case td_operation tx of None \<Rightarrow> Ok None | Some op \<Rightarrow> res_map Some (expect (opn_id op))) (\<lambda>op_id.
          save_new_eth_tx db (td_op_type tx) op_id dl price (td_raw tx)))")
  case (Ok p)
  obtain d db2 where p: "p = (d, db2)"
    by (cases p)
  then have "db_next_eth_op_id db2 = db_next_eth_op_id db + 1"
    using Ok save_next unfolding res_bind_Ok_iff by blast
  moreover have "db1 = db2"
    using assms unfolding save_and_sign_def Ok p by (auto simp: Let_def split: res.splits prod.splits)
  ultimately show ?thesis
    by simp
qed (use assms in \<open>simp_all add: save_and_sign_def\<close>)

text \<open>The outcomes of @initialize_operation@.\<close>

lemma initialize_cases:
  assumes "initialize_operation a s tx = (r, s1)" "reliable hn a" "r \<noteq> Panic"
  obtains (early) e where "r = Err e" "s1 = s"
    | (rolled_back) e deadline price db1 where "r = Err e" "save_and_sign a (es_db s) tx deadline price = (Err e, db1)"
      "s1 = s\<lparr>es_db := db_rollback (es_db s) db1\<rparr>"
    | (stored) deadline price op stx db1 sent where "r = Ok ()"
      "save_and_sign a (es_db s) tx deadline price = (Ok (op, stx), db1)"
      "s1 = s\<lparr>es_ongoing_ops := es_ongoing_ops s @ [op], es_sent := sent, es_db := db1\<rparr>"
proof (cases "res_bind (an_block_number a) (\<lambda>current_block.
        let deadline_block = get_deadline_block s current_block
        in res_bind (get_gas_price (an_gas_price a) (es_gas_adjuster s) None) (\<lambda>gas_price.
           res_map (\<lambda>_. (deadline_block, gas_price)) (an_connection a)))")
  case (Ok dp)
  obtain deadline price where dp: "dp = (deadline, price)"
    by (cases dp)
  obtain r1 db1 where r1: "save_and_sign a (es_db s) tx deadline price = (r1, db1)"
    by (cases "save_and_sign a (es_db s) tx deadline price")
  have commit: "an_commit a = Ok ()"
    using assms(2) by (simp add: reliable_def)
  show ?thesis
  proof (cases r1)
    case (Ok os)
    obtain op stx where "os = (op, stx)"
      by (cases os)
    then have "r = Ok () \<and> s1 = s\<lparr>es_ongoing_ops := es_ongoing_ops s @ [op],
        es_sent := (if send_tx a stx = Ok () then es_sent s @ [stx] else es_sent s), es_db := db1\<rparr>"
      using assms(1) r1 Ok \<open>res_bind _ _ = Ok dp\<close> dp commit
      by (cases s) (auto simp: initialize_operation_def Let_def split: if_splits)
    then show ?thesis
      using that(3) r1 Ok \<open>os = (op, stx)\<close> by blast
  next
    case (Err e)
    then show ?thesis
      using assms(1) r1 \<open>res_bind _ _ = Ok dp\<close> dp that(2) [of e deadline price db1]
      by (auto simp: initialize_operation_def)
  next
    case Panic
    then show ?thesis
      using assms(1,3) r1 \<open>res_bind _ _ = Ok dp\<close> dp by (simp add: initialize_operation_def)
  qed
next
  case (Err e)
  then have "r = Err e \<and> s1 = s"
    using assms(1) unfolding initialize_operation_def Err by simp
  then show ?thesis
    using that(1) by blast
next
  case Panic
  then show ?thesis
    using assms(1,3) unfolding initialize_operation_def Panic by simp
qed

lemma initialize_synced:
  assumes "initialize_operation a (s\<lparr>es_tx_queue := q\<rparr>) tx = (r, s1)" "reliable hn a" "r \<noteq> Panic"
    "synced hn (es_ongoing_ops s) s" "tx_queue_pop_front (es_tx_queue s) = Some (tx, q)"
  shows "(r = Ok () \<and> synced hn (es_ongoing_ops s1) s1)
    \<or> (\<exists>e. r = Err e \<and> es_tx_queue s1 = q \<and> synced hn (es_ongoing_ops s1) (s1\<lparr>es_tx_queue := es_tx_queue s\<rparr>))"
proof -
  obtain q1 where q1: "tq_sent_pending_txs (es_tx_queue s) < tq_max_pending_txs (es_tx_queue s)"
      "get_next_operation (es_tx_queue s) = Some (tx, q1)" "q = q1\<lparr>tq_sent_pending_txs := tq_sent_pending_txs q1 + 1\<rparr>"
    using assms(5) by (rule pop_cases)
  have typed: "queue_typed (es_tx_queue s)"
    using assms(4) by (simp add: synced_def queue_backed_def)
  have popped: "backed (es_db s) (td_operation tx)" "queue_backed (es_db s) q1"
    using backed_popped [OF q1(2)] assms(4) by (simp_all add: synced_def)
  from assms(1,2,3) show ?thesis
  proof (cases rule: initialize_cases)
    case early
    then show ?thesis
      using assms(4) by simp
  next
    case (rolled_back e deadline price db1)
    have "db_next_eth_op_id (es_db s) \<le> db_next_eth_op_id db1"
      using save_and_sign_next rolled_back(2) by simp
    moreover have "queue_backed (db_rollback (es_db s) db1) (es_tx_queue s) = queue_backed (es_db s) (es_tx_queue s)"
      by (intro queue_backed_cong backed_same) (simp add: db_rollback_def)
    ultimately show ?thesis
      using assms(4) rolled_back(1,3)
      by (simp add: synced_def rollback_ok load_rollback) (simp add: db_rollback_def load_stats_def)
  next
    case (stored deadline price op stx db1 sent)
    from stored(2) have saved: "save_and_sign a (es_db s) tx deadline price = (Ok (op, stx), db1)"
      by simp
    obtain d db2 where d: "save_new_eth_tx (es_db s) (td_op_type tx)
        (case td_operation tx of None \<Rightarrow> None | Some o' \<Rightarrow> opn_id o') deadline price (td_raw tx) = Ok (d, db2)"
      "add_hash_entry db2 (ior_id d) (sc_hash stx) = Ok db1" "sc_nonce stx = ior_nonce d"
      "op = \<lparr>eo_id = ior_id d, eo_op_type = td_op_type tx, eo_op = td_operation tx, eo_nonce = ior_nonce d,
        eo_last_deadline_block = deadline, eo_last_used_gas_price = price, eo_used_tx_hashes = [sc_hash stx],
        eo_encoded_tx_data = td_raw tx, eo_confirmed = False, eo_final_hash = None\<rparr>"
      "\<exists>g. an_signer a (td_raw tx) (ior_nonce d) price g = Ok (sc_raw_tx stx, sc_hash stx)"
      using saved popped(1) by (rule save_and_sign_Ok)
    have hn: "hn (sc_hash stx) = ior_nonce d"
      using d(5) assms(2) by (auto simp: reliable_def)
    have db: "db_ok hn (es_db s)" "load_unconfirmed_operations (es_db s) = Ok (es_ongoing_ops s)"
      using assms(4) by (simp_all add: synced_def)
    have "load_unconfirmed_operations db1 = Ok (es_ongoing_ops s @ [op])"
      using load_saved [OF db popped(1) d(1,2) hn] d(4) by simp
    moreover have "db_ok hn db1"
      by (rule db_ok_saved [OF db(1) d(1,2) hn])
    moreover have "counters_match q1 (load_stats db1)"
      using counters_popped [OF q1(2) typed] assms(4) saved_db(9) [OF d(1,2)] by (simp add: synced_def)
    moreover have "queue_backed db1 q1"
      using popped(2) queue_backed_cong [of db1 "es_db s" q1, OF backed_same, OF saved_db(4) [OF d(1,2)]] by simp
    moreover have "unat (tq_sent_pending_txs q1 + 1) = size (es_ongoing_ops s) + 1"
    proof -
      have "unat (tq_sent_pending_txs (es_tx_queue s) + 1) = unat (tq_sent_pending_txs (es_tx_queue s)) + 1"
        using q1(1) by unat_arith
      then show ?thesis
        using assms(4) get_next_sent [OF q1(2)] by (simp add: synced_def)
    qed
    ultimately show ?thesis
      by (simp add: stored(1,3) synced_def q1(3))
  qed
qed

subsection \<open>A round of the sender\<close>

lemma send_all_synced:
  assumes "send_all env i s = Some r" "\<forall>i. reliable hn (env i)" "synced hn (es_ongoing_ops s) s" "r = Ok (j, s')"
  shows "synced hn (es_ongoing_ops s') s'"
proof -
  have "(\<forall>i. reliable hn (env i)) \<longrightarrow> synced hn (es_ongoing_ops s) s \<longrightarrow> (\<forall>j s'. r = Ok (j, s') \<longrightarrow> synced hn (es_ongoing_ops s') s')"
  proof (rule send_all.raw_induct [of "\<lambda>env i s r. (\<forall>i. reliable hn (env i)) \<longrightarrow> synced hn (es_ongoing_ops s) s
        \<longrightarrow> (\<forall>j s'. r = Ok (j, s') \<longrightarrow> synced hn (es_ongoing_ops s') s')", OF _ assms(1)], intro impI allI)
    fix rec env i s r j s'
    assume IH: "\<And>env i s r. rec env i s = Some r \<Longrightarrow> (\<forall>i. reliable hn (env i)) \<longrightarrow> synced hn (es_ongoing_ops s) s
        \<longrightarrow> (\<forall>j s'. r = Ok (j, s') \<longrightarrow> synced hn (es_ongoing_ops s') s')"
      and body: "(case tx_queue_pop_front (es_tx_queue s) of None \<Rightarrow> Some (Ok (i, s))
        | Some (tx, q) \<Rightarrow>
          (case initialize_operation (env i) (s\<lparr>es_tx_queue := q\<rparr>) tx of
            (Ok x, s1) \<Rightarrow> rec env (i + 1) s1
          | (Err e, s1) \<Rightarrow> (case return_popped (es_tx_queue s1) tx of Ok q1 \<Rightarrow> rec env (i + 1) (s1\<lparr>es_tx_queue := q1\<rparr>)
              | Err e \<Rightarrow> Some (Err e) | Panic \<Rightarrow> Some Panic)
          | (Panic, s1) \<Rightarrow> Some Panic)) = Some r"
      and rel: "\<forall>i. reliable hn (env i)" and sync: "synced hn (es_ongoing_ops s) s" and r: "r = Ok (j, s')"
    show "synced hn (es_ongoing_ops s') s'"
    proof (cases "tx_queue_pop_front (es_tx_queue s)")
      case None
      then show ?thesis
        using body r sync by simp
    next
      case (Some p)
      obtain tx q where pop: "tx_queue_pop_front (es_tx_queue s) = Some (tx, q)"
        using Some by (cases p) simp
      obtain r1 s1 where init: "initialize_operation (env i) (s\<lparr>es_tx_queue := q\<rparr>) tx = (r1, s1)"
        by (cases "initialize_operation (env i) (s\<lparr>es_tx_queue := q\<rparr>) tx")
      have "r1 \<noteq> Panic"
        using body pop init r by auto
      from initialize_synced [OF init spec [OF rel] this sync pop]
      show ?thesis
      proof
        assume "r1 = Ok () \<and> synced hn (es_ongoing_ops s1) s1"
        then show ?thesis
          using body pop init r rel IH [of env "i + 1" s1 r] by simp
      next
        assume "\<exists>e. r1 = Err e \<and> es_tx_queue s1 = q \<and> synced hn (es_ongoing_ops s1) (s1\<lparr>es_tx_queue := es_tx_queue s\<rparr>)"
        then obtain e where e: "r1 = Err e" "es_tx_queue s1 = q"
            "synced hn (es_ongoing_ops s1) (s1\<lparr>es_tx_queue := es_tx_queue s\<rparr>)"
          by blast
        have "queue_typed (es_tx_queue s)"
          using sync by (simp add: synced_def queue_backed_def)
        then have "rec env (i + 1) (s1\<lparr>es_tx_queue := es_tx_queue s\<rparr>) = Some r"
          using body init e(1,2) by (simp add: pop pop_then_return [OF pop])
        then show ?thesis
          using r rel e(3) IH [of env "i + 1" "s1\<lparr>es_tx_queue := es_tx_queue s\<rparr>" r] by simp
      qed
    qed
  qed
  then show ?thesis
    using assms(2-4) by blast
qed

lemma add_withdrawals_synced: "synced hn ops s \<Longrightarrow> synced hn ops (add_complete_withdrawals_to_queue s)"
  by (simp add: synced_def add_complete_withdrawals_to_queue_def Let_def add_withdraw_operation_def queue_backed_def
      queue_typed_def counters_match_def counter.push_contents counter.push_count from_raw_def backed_def)

lemma commit_done_synced:
  assumes "commit_done s op = Ok s'" "synced hn ops (s\<lparr>es_tx_queue :=
    (es_tx_queue s)\<lparr>tq_sent_pending_txs := tq_sent_pending_txs (es_tx_queue s) - 1\<rparr>\<rparr>)"
  shows "synced hn ops s'"
  using assms add_withdrawals_synced
  by (auto simp: commit_done_def report_commitment_def Let_def ok_iffs split: if_splits)

lemma commit_all_synced:
  "commit_all env i s ops new = Ok (new', s') \<Longrightarrow> \<forall>i. reliable hn (env i) \<Longrightarrow> synced hn (new @ ops) s
    \<Longrightarrow> synced hn new' s'"
proof (induction ops arbitrary: i s new)
  case (Cons op ops)
  obtain r op' s1 where step: "perform_commitment_step (env i) s op = (r, op', s1)"
    by (cases "perform_commitment_step (env i) s op")
  note rel = spec [OF Cons.prems(2), of i]
  show ?case
  proof (cases r)
    case (Ok c)
    note next_s = commitment_step_synced [OF step [unfolded Ok] Cons.prems(3) rel]
    show ?thesis
    proof (cases c)
      case Committed
      then obtain s2 where "commit_done s1 op' = Ok s2" "commit_all env (i + 1) s2 ops new = Ok (new', s')"
        using Cons.prems(1) step Ok by (auto simp: res_bind_Ok_iff)
      moreover have "synced hn (new @ ops) s2"
        by (rule commit_done_synced [OF calculation(1)]) (use next_s Committed in auto)
      ultimately show ?thesis
        using Cons.IH Cons.prems(2) by blast
    next
      case Pending
      then show ?thesis
        using Cons.IH [of "i + 1" s1 "new @ [op']"] Cons.prems step Ok next_s by simp
    qed
  next
    case (Err e)
    then have "op' = op \<and> s1 = s"
      using commitment_step_Err step Cons.prems(3) rel by blast
    then show ?thesis
      using Cons.IH [of "i + 1" s "new @ [op]"] Cons.prems step Err by simp
  next
    case Panic
    then show ?thesis
      using Cons.prems(1) step by simp
  qed
qed simp

lemma proceed_synced:
  assumes "synced hn (es_ongoing_ops s) s" "\<forall>i. reliable hn (env i)" "proceed_next_operations env s = Some (Ok s')"
  shows "synced hn (es_ongoing_ops s') s'"
proof -
  obtain i s1 new s2 where "send_all env 0 s = Some (Ok (i, s1))"
      "commit_all env i (s1\<lparr>es_ongoing_ops := []\<rparr>) (es_ongoing_ops s1) [] = Ok (new, s2)"
      "s' = s2\<lparr>es_ongoing_ops := new\<rparr>"
    using assms(3) by (auto simp: proceed_next_operations_def ok_iffs)
  moreover from calculation(1) have "synced hn (es_ongoing_ops s1) s1"
    using send_all_synced assms(1,2) by blast
  ultimately show ?thesis
    using commit_all_synced [of env i "s1\<lparr>es_ongoing_ops := []\<rparr>" "es_ongoing_ops s1" "[]" new s2 hn] assms(2)
    by (simp add: synced_def)
qed

section \<open>A restart\<close>

text \<open>What a queue promises to send next, whatever is still waiting in it.\<close>

definition queue_position :: "tx_queue \<Rightarrow> usize \<times> usize \<times> usize \<times> usize" where
  "queue_position q = (cq_get_count (tq_commit_operations q), sq_next_id (tq_verify_operations q),
    cq_get_count (tq_withdraw_operations q), tq_sent_pending_txs q)"

lemma add_operation_keeps:
  "add_operation_to_queue s op = Ok s' \<Longrightarrow> es_ongoing_ops s' = es_ongoing_ops s
    \<and> queue_position (es_tx_queue s') = queue_position (es_tx_queue s)"
  by (cases "opn_action op") (auto simp: add_operation_to_queue_def Let_def ok_iffs add_commit_operation_def add_verify_operation_def sq_insert_def
      queue_position_def counter.push_count sq_next_id_def split: if_splits)

lemma add_operations_keeps:
  "add_operations s ops = Ok s' \<Longrightarrow> es_ongoing_ops s' = es_ongoing_ops s
    \<and> queue_position (es_tx_queue s') = queue_position (es_tx_queue s)"
  by (induction ops arbitrary: s) (auto simp: res_bind_Ok_iff dest!: add_operation_keeps)

lemma sent_of_unat: "of_nat (unat (x :: usize)) = x"
  by simp

lemma restart_position:
  assumes "synced hn (es_ongoing_ops s) s" "eth_sender_new opts enc now (es_db s) = Ok r"
  shows "es_ongoing_ops r = es_ongoing_ops s \<and> queue_position (es_tx_queue r) = queue_position (es_tx_queue s)"
proof -
  have sent: "of_nat (size (es_ongoing_ops s)) = tq_sent_pending_txs (es_tx_queue s)"
    using assms(1) unfolding synced_def by (metis sent_of_unat)
  show ?thesis
    using assms sent
    by (auto simp: eth_sender_new_def restore_state_def synced_def counters_match_def Let_def ok_iffs queue_position_def
        tx_queue_build_def with_withdraw_operations_count_def with_verify_operations_count_def cq_new_def sq_new_def
        with_commit_operations_count_def with_sent_pending_txs_def tx_queue_builder_new_def cq_get_count_def sq_next_id_def
        dest!: add_operations_keeps)
qed

text \<open>C22: When SQL transactions commit and the node takes what it is sent, a round of the sender leaves
  tables from which a restarted sender goes on with the same ongoing operations (with every
  transaction sent for them), the same numbers of operations sent and the same number in flight.\<close>

theorem restart_resumes_sender:
  assumes "synced hn (es_ongoing_ops s) s" "\<forall>i. reliable hn (env i)"
    "proceed_next_operations env s = Some (Ok s')" "eth_sender_new opts enc now (es_db s') = Ok r"
  shows "es_ongoing_ops r = es_ongoing_ops s' \<and> queue_position (es_tx_queue r) = queue_position (es_tx_queue s')
    \<and> synced hn (es_ongoing_ops s') s'"
  using proceed_synced [OF assms(1-3)] restart_position [OF _ assms(4)] by blast

text \<open>A block with one commit operation, a sender on new tables, and a node that accepts transactions.\<close>

definition sample_operation :: operation where
  "sample_operation = \<lparr>opn_id = Some 1, opn_action = ActCommit, opn_block = block_new 1 0 0 [] (0, 0) 0 5 6\<rparr>"

definition sample_db :: eth_db where
  "sample_db = \<lparr>db_operations = [\<lparr>sto_id = 1, sto_confirmed = False, sto_operation = sample_operation\<rparr>],
    db_eth_operations = [], db_next_eth_op_id = 1, db_eth_ops_binding = [], db_eth_tx_hashes = [],
    db_eth_parameters = \<lparr>epr_nonce = 0, epr_gas_price_limit = 9, epr_average_gas_price = None, epr_commit_ops = 0,
      epr_verify_ops = 0, epr_withdraw_ops = 0\<rparr>\<rparr>"

definition sample_options :: eth_sender_options where
  "sample_options = \<lparr>eso_expected_wait_time_block = 3, eso_wait_confirmations = 1, eso_max_txs_in_flight = 2,
    eso_is_enabled = True\<rparr>"

definition sample_encode :: "eth_call \<Rightarrow> byte list" where
  "sample_encode c = [7]"

definition sample_sender :: eth_sender where
  "sample_sender = \<lparr>es_ongoing_ops = [], es_db = sample_db, es_encode_tx_data = sample_encode,
    es_tx_queue = add_commit_operation (tx_queue_build (tx_queue_builder_new 2)) (from_operation OtCommit sample_operation [7]),
    es_gas_adjuster = gas_adjuster_new 9 0, es_options = sample_options, es_sent = []\<rparr>"

text \<open>The hash of a transaction is its nonce, when that is small; the commit answers are an argument.\<close>

definition sample_answers :: "(error, unit) res \<Rightarrow> answers" where
  "sample_answers commit = \<lparr>an_block_number = Ok 10, an_gas_price = Ok 8, an_pending_nonce = Ok 0,
    an_receipt = (\<lambda>h. Ok None),
    an_signer = (\<lambda>d n p g. if n < 256 then Ok ([of_nat n], of_nat n) else Err ''nonce''),
    an_send = (\<lambda>raw. Ok (ucast (hd raw))), an_connection = Ok (), an_queries = Ok (), an_commit = commit\<rparr>"

lemma sample_reliable: "reliable unat (sample_answers (Ok ()))"
proof -
  have "ucast (of_nat n :: byte) = (of_nat n :: h256)" if "n < 256" for n
    using that by (simp add: unsigned_of_nat take_bit_nat_eq_self)
  then show ?thesis
    by (auto simp: reliable_def sample_answers_def unat_of_nat split: if_splits)
qed

lemma sample_synced: "synced unat (es_ongoing_ops sample_sender) sample_sender"
  by (auto simp: synced_def sample_sender_def sample_db_def db_ok_def db_ids_ok_def db_nonces_ok_def db_refs_ok_def
      load_unconfirmed_operations_def counters_match_def queue_backed_def queue_typed_def backed_def into_op_def
      add_commit_operation_def tx_queue_build_def tx_queue_builder_new_def cq_new_def sq_new_def cq_push_back_def
      cq_get_count_def sq_next_id_def load_stats_def eth_stats_from_def from_operation_def sample_operation_def Let_def)

lemma restart_resumes_sender_witness:
  "\<exists>s' r. proceed_next_operations (\<lambda>i. sample_answers (Ok ())) sample_sender = Some (Ok s')
    \<and> eth_sender_new sample_options sample_encode 0 (es_db s') = Ok r \<and> map eo_used_tx_hashes (es_ongoing_ops s') = [[0]]
    \<and> es_ongoing_ops r = es_ongoing_ops s' \<and> queue_position (es_tx_queue r) = queue_position (es_tx_queue s')"
proof -
  have "case proceed_next_operations (\<lambda>i. sample_answers (Ok ())) sample_sender of
      Some (Ok s') \<Rightarrow> is_ok (eth_sender_new sample_options sample_encode 0 (es_db s'))
        \<and> map eo_used_tx_hashes (es_ongoing_ops s') = [[0]]
    | _ \<Rightarrow> False"
    by code_simp
  then obtain s' r where run: "proceed_next_operations (\<lambda>i. sample_answers (Ok ())) sample_sender = Some (Ok s')"
      "eth_sender_new sample_options sample_encode 0 (es_db s') = Ok r" "map eo_used_tx_hashes (es_ongoing_ops s') = [[0]]"
    by (auto simp: is_ok_iff split: option.splits res.splits)
  have "\<forall>i. reliable unat (sample_answers (Ok ()))"
    using sample_reliable by simp
  note resumed = restart_resumes_sender [OF sample_synced this run(1,2)]
  show ?thesis
    using run resumed by (intro exI [of _ s'] exI [of _ r]) simp
qed

text \<open>An operation with two transactions, the second confirmed by two blocks.\<close>

definition sample_ongoing :: eth_operation where
  "sample_ongoing = \<lparr>eo_id = 1, eo_op_type = OtCommit, eo_op = Some sample_operation, eo_nonce = 0,
    eo_last_deadline_block = 10, eo_last_used_gas_price = 8, eo_used_tx_hashes = [5, 6], eo_encoded_tx_data = [7],
    eo_confirmed = False, eo_final_hash = None\<rparr>"

definition sample_mined :: answers where
  "sample_mined = (sample_answers (Ok ()))\<lparr>an_receipt := (\<lambda>h. Ok (if h = 6
    then Some \<lparr>rc_transaction_hash = 6, rc_block_number = Some 8, rc_status = Some 1\<rparr> else None))\<rparr>"

lemma commitment_step_ok_witness:
  "\<exists>s'. perform_commitment_step sample_mined (sample_sender\<lparr>es_db := sample_db\<lparr>db_eth_operations :=
        [new_row sample_db OtCommit 10 8 [7]], db_eth_tx_hashes := [\<lparr>eh_eth_op_id = 1, eh_tx_hash = 6\<rparr>]\<rparr>\<rparr>) sample_ongoing
      = (Ok Committed, sample_ongoing, s')
    \<and> (\<exists>pre h post. [5, 6] = pre @ h # post \<and> (\<forall>h' \<in> set pre. tx_absent sample_mined h'))"
proof -
  let ?s = "sample_sender\<lparr>es_db := sample_db\<lparr>db_eth_operations := [new_row sample_db OtCommit 10 8 [7]],
    db_eth_tx_hashes := [\<lparr>eh_eth_op_id = 1, eh_tx_hash = 6\<rparr>]\<rparr>\<rparr>"
  have "fst (perform_commitment_step sample_mined ?s sample_ongoing) = Ok Committed"
    by code_simp
  then obtain op' s' where step: "perform_commitment_step sample_mined ?s sample_ongoing = (Ok Committed, op', s')"
    by (cases "perform_commitment_step sample_mined ?s sample_ongoing") auto
  show ?thesis
    using commitment_step_ok [OF step] step by (auto simp: sample_ongoing_def)
qed

section \<open>A commit that fails\<close>

text \<open>What a successful attempt did, with a node that accepts what was signed.\<close>

lemma initialize_success:
  assumes "initialize_operation a s tx = (Ok (), s1)" "reliable hn a" "backed (es_db s) (td_operation tx)"
  obtains deadline price op stx db1 d db2 where
    "res_bind (an_block_number a) (\<lambda>current_block.
        let deadline_block = get_deadline_block s current_block
        in res_bind (get_gas_price (an_gas_price a) (es_gas_adjuster s) None) (\<lambda>gas_price.
           res_map (\<lambda>_. (deadline_block, gas_price)) (an_connection a))) = Ok (deadline, price)"
    "save_and_sign a (es_db s) tx deadline price = (Ok (op, stx), db1)" "send_tx a stx = Ok ()"
    "s1 = s\<lparr>es_ongoing_ops := es_ongoing_ops s @ [op], es_sent := es_sent s @ [stx], es_db := db1\<rparr>"
    "save_new_eth_tx (es_db s) (td_op_type tx) (case td_operation tx of None \<Rightarrow> None | Some o' \<Rightarrow> opn_id o') deadline price (td_raw tx) = Ok (d, db2)"
    "add_hash_entry db2 (ior_id d) (sc_hash stx) = Ok db1" "sc_nonce stx = ior_nonce d" "hn (sc_hash stx) = ior_nonce d"
    "op = \<lparr>eo_id = ior_id d, eo_op_type = td_op_type tx, eo_op = td_operation tx, eo_nonce = ior_nonce d,
      eo_last_deadline_block = deadline, eo_last_used_gas_price = price, eo_used_tx_hashes = [sc_hash stx],
      eo_encoded_tx_data = td_raw tx, eo_confirmed = False, eo_final_hash = None\<rparr>"
proof (cases "res_bind (an_block_number a) (\<lambda>current_block.
        let deadline_block = get_deadline_block s current_block
        in res_bind (get_gas_price (an_gas_price a) (es_gas_adjuster s) None) (\<lambda>gas_price.
           res_map (\<lambda>_. (deadline_block, gas_price)) (an_connection a)))")
  case (Ok dp)
  obtain deadline price where dp: "dp = (deadline, price)" by (cases dp)
  obtain r1 db1 where r1: "save_and_sign a (es_db s) tx deadline price = (r1, db1)" by (cases "save_and_sign a (es_db s) tx deadline price")
  then obtain op stx where saved: "save_and_sign a (es_db s) tx deadline price = (Ok (op, stx), db1)"
    using assms(1) unfolding initialize_operation_def Ok dp by (auto split: res.splits)
  from saved assms(3) obtain d db2 where d: "save_new_eth_tx (es_db s) (td_op_type tx)
      (case td_operation tx of None \<Rightarrow> None | Some o' \<Rightarrow> opn_id o') deadline price (td_raw tx) = Ok (d, db2)"
    "add_hash_entry db2 (ior_id d) (sc_hash stx) = Ok db1" "sc_nonce stx = ior_nonce d"
    "op = \<lparr>eo_id = ior_id d, eo_op_type = td_op_type tx, eo_op = td_operation tx, eo_nonce = ior_nonce d,
      eo_last_deadline_block = deadline, eo_last_used_gas_price = price, eo_used_tx_hashes = [sc_hash stx],
      eo_encoded_tx_data = td_raw tx, eo_confirmed = False, eo_final_hash = None\<rparr>"
    "\<exists>g. an_signer a (td_raw tx) (ior_nonce d) price g = Ok (sc_raw_tx stx, sc_hash stx)"
    by (rule save_and_sign_Ok)
  have hn: "hn (sc_hash stx) = ior_nonce d" "an_send a (sc_raw_tx stx) = Ok (sc_hash stx)"
    using assms(2) d(5) by (auto simp: reliable_def)
  then have send: "send_tx a stx = Ok ()" by (simp add: send_tx_def)
  have "s1 = s\<lparr>es_ongoing_ops := es_ongoing_ops s @ [op], es_sent := es_sent s @ [stx], es_db := db1\<rparr>"
    using assms(1,2) saved send unfolding initialize_operation_def Ok dp by (simp add: Let_def reliable_def)
  with Ok dp saved send d hn that show ?thesis by blast
qed (use assms(1) in \<open>simp_all add: initialize_operation_def\<close>)

lemma save_and_sign_commit [simp]: "save_and_sign (a\<lparr>an_commit := c\<rparr>) = save_and_sign a"
  by (simp add: fun_eq_iff save_and_sign_def sign_new_tx_def sign_prepared_tx_def cong: res.case_cong)

lemma commit_fails_once:
  assumes "synced hn (es_ongoing_ops s) s" "tx_queue_pop_front (es_tx_queue s) = Some (tx, q)"
    and "reliable hn a" "initialize_operation a (s\<lparr>es_tx_queue := q\<rparr>) tx = (Ok (), t)"
  obtains op stx db1 where "initialize_operation (a\<lparr>an_commit := Err e\<rparr>) (s\<lparr>es_tx_queue := q\<rparr>) tx =
      (Err e, s\<lparr>es_tx_queue := q, es_ongoing_ops := es_ongoing_ops s @ [op], es_sent := es_sent s @ [stx], es_db := db_rollback (es_db s) db1\<rparr>)"
    "eo_op op = td_operation tx" "int (eo_nonce op) = epr_nonce (db_eth_parameters (es_db s))" "sc_nonce stx = eo_nonce op"
    "db_next_eth_op_id db1 = db_next_eth_op_id (es_db s) + 1"
proof -
  obtain q1 where "get_next_operation (es_tx_queue s) = Some (tx, q1)" using assms(2) by (rule pop_cases)
  then have "backed (es_db s) (td_operation tx)" using backed_popped assms(1) by (simp add: synced_def)
  then have "backed (es_db (s\<lparr>es_tx_queue := q\<rparr>)) (td_operation tx)" by simp
  with assms(4,3) obtain deadline price op stx db1 d db2 where
    early: "res_bind (an_block_number a) (\<lambda>current_block.
        let deadline_block = get_deadline_block (s\<lparr>es_tx_queue := q\<rparr>) current_block
        in res_bind (get_gas_price (an_gas_price a) (es_gas_adjuster (s\<lparr>es_tx_queue := q\<rparr>)) None) (\<lambda>gas_price.
           res_map (\<lambda>_. (deadline_block, gas_price)) (an_connection a))) = Ok (deadline, price)"
    and saved: "save_and_sign a (es_db (s\<lparr>es_tx_queue := q\<rparr>)) tx deadline price = (Ok (op, stx), db1)" "send_tx a stx = Ok ()"
    and d: "save_new_eth_tx (es_db (s\<lparr>es_tx_queue := q\<rparr>)) (td_op_type tx)
        (case td_operation tx of None \<Rightarrow> None | Some o' \<Rightarrow> opn_id o') deadline price (td_raw tx) = Ok (d, db2)"
      "add_hash_entry db2 (ior_id d) (sc_hash stx) = Ok db1" "sc_nonce stx = ior_nonce d"
    and op: "op = \<lparr>eo_id = ior_id d, eo_op_type = td_op_type tx, eo_op = td_operation tx, eo_nonce = ior_nonce d,
      eo_last_deadline_block = deadline, eo_last_used_gas_price = price, eo_used_tx_hashes = [sc_hash stx],
      eo_encoded_tx_data = td_raw tx, eo_confirmed = False, eo_final_hash = None\<rparr>"
    by (rule initialize_success)
  have "initialize_operation (a\<lparr>an_commit := Err e\<rparr>) (s\<lparr>es_tx_queue := q\<rparr>) tx =
      (Err e, s\<lparr>es_tx_queue := q, es_ongoing_ops := es_ongoing_ops s @ [op], es_sent := es_sent s @ [stx], es_db := db_rollback (es_db s) db1\<rparr>)"
    using early saved by (simp add: initialize_operation_def send_tx_def Let_def)
  then show ?thesis
    using that op d(3) saved_db(2,5) [OF d(1,2)] by simp
qed

text \<open>C23: The transaction is sent and its operation is ongoing before the SQL transaction commits.  So when an
  attempt goes well but for its commit, and the next attempt goes well, the sender goes on from a state in which the operation
  is ongoing twice, two transactions with one nonce were sent by a node that accepts them, the tables know only the second,
  and the queue counts one in flight.\<close>

theorem failed_commit_duplicates:
  assumes "synced hn (es_ongoing_ops s) s" "tx_queue_pop_front (es_tx_queue s) = Some (tx, q)"
    and "reliable hn a" "initialize_operation a (s\<lparr>es_tx_queue := q\<rparr>) tx = (Ok (), t)"
    and "env i = a\<lparr>an_commit := Err e\<rparr>" "initialize_operation (env i) (s\<lparr>es_tx_queue := q\<rparr>) tx = (r0, s0)"
    and "reliable hn (env (i + 1))" "initialize_operation (env (i + 1)) s0 tx = (Ok (), s2)"
  shows "r0 = Err e \<and> send_all env i s = send_all env (i + 2) s2 \<and>
    (\<exists>op1 op2 tx1 tx2. es_ongoing_ops s2 = es_ongoing_ops s @ [op1, op2] \<and>
      eo_op op1 = td_operation tx \<and> eo_op op2 = td_operation tx \<and> eo_nonce op1 = eo_nonce op2 \<and>
      es_sent s2 = es_sent s @ [tx1, tx2] \<and> sc_nonce tx1 = eo_nonce op1 \<and> sc_nonce tx2 = eo_nonce op1 \<and>
      load_unconfirmed_operations (es_db s2) = Ok (es_ongoing_ops s @ [op2]) \<and>
      unat (tq_sent_pending_txs (es_tx_queue s2)) = size (es_ongoing_ops s) + 1)"
proof -
  obtain op1 tx1 db1 where first: "initialize_operation (a\<lparr>an_commit := Err e\<rparr>) (s\<lparr>es_tx_queue := q\<rparr>) tx =
      (Err e, s\<lparr>es_tx_queue := q, es_ongoing_ops := es_ongoing_ops s @ [op1], es_sent := es_sent s @ [tx1], es_db := db_rollback (es_db s) db1\<rparr>)"
    and op1: "eo_op op1 = td_operation tx" "int (eo_nonce op1) = epr_nonce (db_eth_parameters (es_db s))" "sc_nonce tx1 = eo_nonce op1"
    and next_id: "db_next_eth_op_id db1 = db_next_eth_op_id (es_db s) + 1"
    using assms(1-4) by (rule commit_fails_once)
  let ?db = "db_rollback (es_db s) db1"
  have s0: "r0 = Err e" "s0 = s\<lparr>es_tx_queue := q, es_ongoing_ops := es_ongoing_ops s @ [op1], es_sent := es_sent s @ [tx1], es_db := ?db\<rparr>"
    using first assms(5,6) by simp_all
  obtain q1 where q1: "tq_sent_pending_txs (es_tx_queue s) < tq_max_pending_txs (es_tx_queue s)"
      "get_next_operation (es_tx_queue s) = Some (tx, q1)" "q = q1\<lparr>tq_sent_pending_txs := tq_sent_pending_txs q1 + 1\<rparr>"
    using assms(2) by (rule pop_cases)
  have typed: "queue_typed (es_tx_queue s)" using assms(1) by (simp add: synced_def queue_backed_def)
  have "backed (es_db s) (td_operation tx)" using backed_popped [OF q1(2)] assms(1) by (simp add: synced_def)
  then have backed: "backed ?db (td_operation tx)" using backed_same [of ?db "es_db s"] by (simp add: db_rollback_def)
  then have "backed (es_db s0) (td_operation tx)" by (simp add: s0(2))
  with assms(8,7) obtain deadline price op2 tx2 db2 d db' where
    s2: "s2 = s0\<lparr>es_ongoing_ops := es_ongoing_ops s0 @ [op2], es_sent := es_sent s0 @ [tx2], es_db := db2\<rparr>"
    and d: "save_new_eth_tx (es_db s0) (td_op_type tx)
        (case td_operation tx of None \<Rightarrow> None | Some o' \<Rightarrow> opn_id o') deadline price (td_raw tx) = Ok (d, db')"
      "add_hash_entry db' (ior_id d) (sc_hash tx2) = Ok db2" "sc_nonce tx2 = ior_nonce d" "hn (sc_hash tx2) = ior_nonce d"
    and op2: "op2 = \<lparr>eo_id = ior_id d, eo_op_type = td_op_type tx, eo_op = td_operation tx, eo_nonce = ior_nonce d,
      eo_last_deadline_block = deadline, eo_last_used_gas_price = price, eo_used_tx_hashes = [sc_hash tx2],
      eo_encoded_tx_data = td_raw tx, eo_confirmed = False, eo_final_hash = None\<rparr>"
    by (rule initialize_success)
  have db: "es_db s0 = ?db" "db_ok hn ?db" "load_unconfirmed_operations ?db = Ok (es_ongoing_ops s)"
    using assms(1) next_id by (simp_all add: s0(2) synced_def rollback_ok load_rollback)
  have "load_unconfirmed_operations db2 = Ok (es_ongoing_ops s @ [op2])"
    using load_saved [OF db(2,3) backed d(1,2) [unfolded db(1)] d(4)] op2 by simp
  moreover have "eo_nonce op1 = eo_nonce op2"
    using saved_db(2) [OF d(1,2)] op1(2) by (simp add: op2 db(1) db_rollback_def)
  moreover have "unat (tq_sent_pending_txs q) = size (es_ongoing_ops s) + 1"
  proof -
    have "unat (tq_sent_pending_txs (es_tx_queue s) + 1) = unat (tq_sent_pending_txs (es_tx_queue s)) + 1"
      using q1(1) by unat_arith
    then show ?thesis using assms(1) get_next_sent [OF q1(2)] by (simp add: synced_def q1(3))
  qed
  moreover have "send_all env i s = send_all env (i + 2) s2"
  proof -
    have "send_all env i s = send_all env (i + 1) (s0\<lparr>es_tx_queue := es_tx_queue s\<rparr>)"
      using typed by (subst send_all.simps) (simp add: assms(2,6) s0 pop_then_return [OF assms(2)])
    also have "\<dots> = send_all env (i + 2) s2"
    proof -
      have "s0\<lparr>es_tx_queue := q\<rparr> = s0" by (simp add: s0(2))
      then show ?thesis by (subst send_all.simps) (use assms(2,8) in \<open>simp\<close>)
    qed
    finally show ?thesis .
  qed
  ultimately show ?thesis
    using s0 op1 op2 d(3) by (simp add: s2)
qed

text \<open>The commit operation of the sample, whose first SQL transaction does not commit: the table has one row, the memory two.\<close>

theorem failed_commit_duplicates_witness:
  "\<exists>s2. send_all (\<lambda>i. sample_answers (if i = 0 then Err ''commit'' else Ok ())) 0 sample_sender = Some (Ok (2, s2)) \<and>
    map eo_op (es_ongoing_ops s2) = [Some sample_operation, Some sample_operation] \<and>
    res_map size (load_unconfirmed_operations (es_db s2)) = Ok 1 \<and> size (es_sent s2) = 2"
proof -
  let ?env = "\<lambda>i::nat. sample_answers (if i = 0 then Err ''commit'' else Ok ())"
  obtain tx q where pop: "tx_queue_pop_front (es_tx_queue sample_sender) = Some (tx, q)" "td_operation tx = Some sample_operation"
  proof -
    have "map_option (\<lambda>(tx, q). td_operation tx) (tx_queue_pop_front (es_tx_queue sample_sender)) = Some (Some sample_operation)"
      by code_simp
    then show ?thesis using that by auto
  qed
  have "case tx_queue_pop_front (es_tx_queue sample_sender) of None \<Rightarrow> False
    | Some (tx, q) \<Rightarrow> fst (initialize_operation (sample_answers (Ok ())) (sample_sender\<lparr>es_tx_queue := q\<rparr>) tx) = Ok () \<and>
        (case initialize_operation (sample_answers (Ok ())) (snd (initialize_operation (sample_answers (Err ''commit''))
          (sample_sender\<lparr>es_tx_queue := q\<rparr>) tx)) tx of (r, s2) \<Rightarrow> r = Ok () \<and> tx_queue_pop_front (es_tx_queue s2) = None)"
    by code_simp
  with pop(1) have once: "fst (initialize_operation (sample_answers (Ok ())) (sample_sender\<lparr>es_tx_queue := q\<rparr>) tx) = Ok ()"
    "case initialize_operation (sample_answers (Ok ())) (snd (initialize_operation (sample_answers (Err ''commit''))
      (sample_sender\<lparr>es_tx_queue := q\<rparr>) tx)) tx of (r, s2) \<Rightarrow> r = Ok () \<and> tx_queue_pop_front (es_tx_queue s2) = None"
    by simp_all
  define s0 where "s0 = snd (initialize_operation (?env 0) (sample_sender\<lparr>es_tx_queue := q\<rparr>) tx)"
  obtain s2 where s2: "initialize_operation (sample_answers (Ok ())) s0 tx = (Ok (), s2)" "tx_queue_pop_front (es_tx_queue s2) = None"
    using once(2) by (auto simp: s0_def split: prod.splits)
  have runs: "initialize_operation (sample_answers (Ok ())) (sample_sender\<lparr>es_tx_queue := q\<rparr>) tx =
      (Ok (), snd (initialize_operation (sample_answers (Ok ())) (sample_sender\<lparr>es_tx_queue := q\<rparr>) tx))"
    "initialize_operation (?env 0) (sample_sender\<lparr>es_tx_queue := q\<rparr>) tx =
      (fst (initialize_operation (?env 0) (sample_sender\<lparr>es_tx_queue := q\<rparr>) tx), s0)"
    "initialize_operation (?env (0 + 1)) s0 tx = (Ok (), s2)"
    using once(1) s2(1) by (simp_all add: prod_eq_iff s0_def)
  have env: "?env 0 = sample_answers (Ok ())\<lparr>an_commit := Err ''commit''\<rparr>" by (simp add: sample_answers_def)
  have rel: "reliable unat (?env (0 + 1))" using sample_reliable by simp
  note twice = failed_commit_duplicates [where env = ?env, OF sample_synced pop(1) sample_reliable runs(1) env runs(2) rel runs(3)]
  have "send_all ?env 2 s2 = Some (Ok (2, s2))" using s2(2) by (subst send_all.simps) simp
  with twice pop(2) show ?thesis by (intro exI [of _ s2]) (auto simp: sample_sender_def numeral_2_eq_2)
qed

end
