(* ===== verification/EthWatch.thy ===== *)
theory EthWatch
  imports Txs Ops ZkState
begin

text \<open>
  The watcher of the Ethereum contract, @core/bin/zksync_core/src/eth_watch@.  What the node, the
  contract and the storage answer during a request is an argument (@watch_answers@); the clock, in
  seconds, is read once per request.  The ABI decoders of the library and Keccak are parameters.
\<close>

section \<open>Received operations\<close>

definition SECS_IN_HOUR :: nat where "SECS_IN_HOUR = 3600"
definition PRIORITY_EXPIRATION_DAYS :: nat where "PRIORITY_EXPIRATION_DAYS = 6"
definition PRIORITY_OP_EXPIRATION :: nat where
  "PRIORITY_OP_EXPIRATION = PRIORITY_EXPIRATION_DAYS * 24 * SECS_IN_HOUR + 2 * SECS_IN_HOUR"

record received_priority_op =
  rp_op :: priority_op
  rp_received_at :: nat

definition is_outdated :: "nat \<Rightarrow> received_priority_op \<Rightarrow> bool" where
  "is_outdated now r \<longleftrightarrow> now - rp_received_at r \<ge> PRIORITY_OP_EXPIRATION"

definition received_from :: "nat \<Rightarrow> priority_op \<Rightarrow> received_priority_op" where
  "received_from now op = \<lparr>rp_op = op, rp_received_at = now\<rparr>"

definition sift_outdated_ops :: "nat \<Rightarrow> (64 word, received_priority_op) fmap \<Rightarrow> (64 word, received_priority_op) fmap" where
  "sift_outdated_ops now ops =
    fmfilter (\<lambda>id. case fmlookup ops id of Some r \<Rightarrow> \<not> is_outdated now r | None \<Rightarrow> False) ops"

section \<open>State\<close>

type_synonym eth_block_id = "64 word"

record eth_state =
  ews_last_ethereum_block :: "64 word"
  ews_unconfirmed_queue :: "(eth_block_id \<times> priority_op) list"
  ews_priority_queue :: "(64 word, received_priority_op) fmap"

definition eth_state_new ::
  "64 word \<Rightarrow> (eth_block_id \<times> priority_op) list \<Rightarrow> (64 word, received_priority_op) fmap \<Rightarrow> eth_state" where
  "eth_state_new last_ethereum_block unconfirmed_queue priority_queue =
    \<lparr>ews_last_ethereum_block = last_ethereum_block, ews_unconfirmed_queue = unconfirmed_queue,
     ews_priority_queue = priority_queue\<rparr>"

definition eth_state_default :: eth_state where
  "eth_state_default = eth_state_new 0 [] fmempty"

datatype watcher_mode = Working | Backoff nat

record complete_withdrawals_tx =
  cw_tx_hash :: h256
  cw_queue_start_index :: "32 word"
  cw_queue_end_index :: "32 word"

record eth_watch =
  ew_eth_state :: eth_state
  ew_number_of_confirmations_for_event :: "64 word"
  ew_mode :: watcher_mode
  ew_stored_withdrawals :: "complete_withdrawals_tx list"

definition eth_watch_new :: "64 word \<Rightarrow> eth_watch" where
  "eth_watch_new number_of_confirmations_for_event =
    \<lparr>ew_eth_state = eth_state_default, ew_number_of_confirmations_for_event = number_of_confirmations_for_event,
     ew_mode = Working, ew_stored_withdrawals = []\<rparr>"

definition RATE_LIMIT_DELAY :: nat where "RATE_LIMIT_DELAY = 30"

definition EIP1271_SUCCESS_RETURN_VALUE :: "byte list" where
  "EIP1271_SUCCESS_RETURN_VALUE = [0x20, 0xc1, 0x3b, 0x0b]"

section \<open>The outside\<close>

datatype block_tag = TagNumber "64 word" | TagLatest

record watch_answers =
  wa_now :: nat
  wa_block_number :: "(error, 64 word) res"
  wa_priority_logs :: "block_tag \<Rightarrow> block_tag \<Rightarrow> (error, eth_log list) res"
  wa_withdrawal_logs :: "block_tag \<Rightarrow> block_tag \<Rightarrow> (error, eth_log list) res"
  wa_storage :: "(error, unit) res"
  wa_auth_facts :: "address \<Rightarrow> 64 word \<Rightarrow> (error, byte list) res"
  wa_is_valid_signature :: "address \<Rightarrow> byte list \<Rightarrow> byte list \<Rightarrow> (error, byte list) res"
  wa_first_pending_withdrawal_index :: "(error, 32 word) res"
  wa_number_of_pending_withdrawals :: "(error, 32 word) res"

record watch_library =
  wl_decode_priority_op :: "byte list \<Rightarrow> (address \<times> 256 word \<times> 256 word \<times> byte list \<times> 256 word) option"
  wl_decode_withdrawals :: "byte list \<Rightarrow> (256 word \<times> 256 word) option"
  wl_keccak256 :: "byte list \<Rightarrow> byte list"

section \<open>Events\<close>

text \<open>@into_iter().map(..).collect::<Result<Vec<_>, _>>()@.\<close>

fun collect_all :: "('a \<Rightarrow> ('e, 'b) res) \<Rightarrow> 'a list \<Rightarrow> ('e, 'b list) res" where
  "collect_all f [] = Ok []"
| "collect_all f (x # xs) = res_bind (f x) (\<lambda>y. res_map ((#) y) (collect_all f xs))"

definition parse_event :: "watch_library \<Rightarrow> eth_log \<Rightarrow> (error, priority_op) res" where
  "parse_event l event = (case priority_op_try_from (wl_decode_priority_op l) event of
      Ok op \<Rightarrow> Ok op
    | Err e \<Rightarrow> Err ''Failed to parse priority queue event log from ETH''
    | Panic \<Rightarrow> Panic)"

definition get_priority_op_events_with_blocks ::
  "watch_library \<Rightarrow> watch_answers \<Rightarrow> block_tag \<Rightarrow> block_tag \<Rightarrow> (error, (eth_block_id \<times> priority_op) list) res" where
  "get_priority_op_events_with_blocks l a from to_block =
    res_bind (wa_priority_logs a from to_block) (collect_all (\<lambda>event.
      res_bind (ok_or (log_block_number event) ''No block number set in the queue event log'') (\<lambda>block_number.
        res_map (Pair block_number) (parse_event l event))))"

definition get_priority_op_events ::
  "watch_library \<Rightarrow> watch_answers \<Rightarrow> block_tag \<Rightarrow> block_tag \<Rightarrow> (error, priority_op list) res" where
  "get_priority_op_events l a from to_block = res_bind (wa_priority_logs a from to_block) (collect_all (parse_event l))"

definition complete_withdrawals_try_from :: "watch_library \<Rightarrow> eth_log \<Rightarrow> (error, complete_withdrawals_tx) res" where
  "complete_withdrawals_try_from l event = (case wl_decode_withdrawals l (log_data event) of
      None \<Rightarrow> Err ''Event data decode''
    | Some (start_index, end_index) \<Rightarrow>
        res_bind (expect (log_transaction_hash event)) (\<lambda>hash.
        res_bind (as_u32 start_index) (\<lambda>s.
        res_bind (as_u32 end_index) (\<lambda>e.
          Ok \<lparr>cw_tx_hash = hash, cw_queue_start_index = s, cw_queue_end_index = e\<rparr>))))"

definition get_complete_withdrawals_event ::
  "watch_library \<Rightarrow> watch_answers \<Rightarrow> block_tag \<Rightarrow> block_tag \<Rightarrow> (error, complete_withdrawals_tx list) res" where
  "get_complete_withdrawals_event l a from to_block =
    res_bind (wa_withdrawal_logs a from to_block) (collect_all (complete_withdrawals_try_from l))"

definition u64_saturating_sub :: "64 word \<Rightarrow> 64 word \<Rightarrow> 64 word" where
  "u64_saturating_sub a b = (if b \<le> a then a - b else 0)"

definition get_unconfirmed_ops ::
  "watch_library \<Rightarrow> watch_answers \<Rightarrow> eth_watch \<Rightarrow> 64 word \<Rightarrow> (error, (eth_block_id \<times> priority_op) list) res" where
  "get_unconfirmed_ops l a w current_ethereum_block =
    (let block_from_number = u64_saturating_sub current_ethereum_block (ew_number_of_confirmations_for_event w) + 1
     in get_priority_op_events_with_blocks l a (TagNumber block_from_number) TagLatest)"

definition store_complete_withdrawals ::
  "watch_answers \<Rightarrow> eth_watch \<Rightarrow> complete_withdrawals_tx list \<Rightarrow> (error, eth_watch) res" where
  "store_complete_withdrawals a w txs =
    res_map (\<lambda>_. w\<lparr>ew_stored_withdrawals := ew_stored_withdrawals w @ txs\<rparr>) (wa_storage a)"

definition insert_ops ::
  "nat \<Rightarrow> priority_op list \<Rightarrow> (64 word, received_priority_op) fmap \<Rightarrow> (64 word, received_priority_op) fmap" where
  "insert_ops now ops q = fold (\<lambda>op q. fmupd (po_serial_id op) (received_from now op) q) ops q"

text \<open>
  The handlers return their outcome with the watcher they leave: withdrawals stored before a later
  error stay stored.
\<close>

definition restore_state_from_eth ::
  "watch_library \<Rightarrow> watch_answers \<Rightarrow> eth_watch \<Rightarrow> 64 word \<Rightarrow> (error, unit) res \<times> eth_watch" where
  "restore_state_from_eth l a w last_ethereum_block =
    (let confirmations = ew_number_of_confirmations_for_event w;
         current_ethereum_block = u64_saturating_sub last_ethereum_block confirmations;
         new_block_with_accepted_events = u64_saturating_sub current_ethereum_block confirmations;
         previous_block_with_accepted_events =
           u64_saturating_sub new_block_with_accepted_events (of_nat PRIORITY_EXPIRATION);
         from = TagNumber previous_block_with_accepted_events;
         to_block = TagNumber new_block_with_accepted_events
     in case res_bind (get_unconfirmed_ops l a w current_ethereum_block) (\<lambda>unconfirmed_queue.
          res_bind (get_complete_withdrawals_event l a from to_block) (\<lambda>txs.
            res_map (Pair unconfirmed_queue) (store_complete_withdrawals a w txs))) of
          Err e \<Rightarrow> (Err e, w)
        | Panic \<Rightarrow> (Panic, w)
        | Ok (unconfirmed_queue, w1) \<Rightarrow>
            (case get_priority_op_events l a from to_block of
               Err e \<Rightarrow> (Err e, w1)
             | Panic \<Rightarrow> (Panic, w1)
             | Ok prior_queue_events \<Rightarrow>
                 (Ok (), w1\<lparr>ew_eth_state := eth_state_new last_ethereum_block unconfirmed_queue
                    (insert_ops (wa_now a) prior_queue_events fmempty)\<rparr>)))"

definition process_new_blocks ::
  "watch_library \<Rightarrow> watch_answers \<Rightarrow> eth_watch \<Rightarrow> 64 word \<Rightarrow> (error, unit) res \<times> eth_watch" where
  "process_new_blocks l a w last_ethereum_block =
    (let confirmations = ew_number_of_confirmations_for_event w;
         previous_block_with_accepted_events =
           u64_saturating_sub (ews_last_ethereum_block (ew_eth_state w) + 1) confirmations;
         new_block_with_accepted_events = u64_saturating_sub last_ethereum_block confirmations;
         from = TagNumber previous_block_with_accepted_events;
         to_block = TagNumber new_block_with_accepted_events
     in case res_bind (get_complete_withdrawals_event l a from to_block) (store_complete_withdrawals a w) of
          Err e \<Rightarrow> (Err e, w)
        | Panic \<Rightarrow> (Panic, w)
        | Ok w1 \<Rightarrow>
            (case res_bind (get_priority_op_events l a from to_block) (\<lambda>priority_op_events.
                let priority_queue = insert_ops (wa_now a) priority_op_events
                      (sift_outdated_ops (wa_now a) (ews_priority_queue (ew_eth_state w1)))
                in res_map (\<lambda>unconfirmed_queue. eth_state_new last_ethereum_block unconfirmed_queue priority_queue)
                     (get_unconfirmed_ops l a w1 last_ethereum_block)) of
               Err e \<Rightarrow> (Err e, w1)
             | Panic \<Rightarrow> (Panic, w1)
             | Ok new_state \<Rightarrow> (Ok (), w1\<lparr>ew_eth_state := new_state\<rparr>)))"

definition poll_eth_node :: "watch_library \<Rightarrow> watch_answers \<Rightarrow> eth_watch \<Rightarrow> (error, unit) res \<times> eth_watch" where
  "poll_eth_node l a w = (case wa_block_number a of
      Err e \<Rightarrow> (Err e, w)
    | Panic \<Rightarrow> (Panic, w)
    | Ok last_block_number \<Rightarrow>
        if last_block_number > ews_last_ethereum_block (ew_eth_state w) then process_new_blocks l a w last_block_number
        else (Ok (), w))"

section \<open>Requests\<close>

lemma prio_chunks_pos: "0 < prio_chunks d"
  by (cases d) (simp_all add: DEPOSIT_CHUNKS_def FULL_EXIT_CHUNKS_def)

function priority_requests_loop ::
  "(64 word, received_priority_op) fmap \<Rightarrow> nat \<Rightarrow> nat \<Rightarrow> 64 word \<Rightarrow> priority_op list" where
  "priority_requests_loop q max_chunks used_chunks current_priority_op = (case fmlookup q current_priority_op of
      None \<Rightarrow> []
    | Some r \<Rightarrow>
        if used_chunks + prio_chunks (po_data (rp_op r)) \<le> max_chunks then
          rp_op r # priority_requests_loop q max_chunks (used_chunks + prio_chunks (po_data (rp_op r))) (current_priority_op + 1)
        else [])"
  by pat_completeness auto
termination
proof (relation "measure (\<lambda>(q, m, u, c). m - u)")
  fix q :: "(64 word, received_priority_op) fmap" and m u c r
  show "u + prio_chunks (po_data (rp_op r)) \<le> m \<Longrightarrow>
      ((q, m, u + prio_chunks (po_data (rp_op r)), c + 1), q, m, u, c) \<in> measure (\<lambda>(q, m, u, c). m - u)"
    using prio_chunks_pos [of "po_data (rp_op r)"] by simp
qed simp

declare priority_requests_loop.simps [simp del]

definition get_priority_requests :: "eth_watch \<Rightarrow> 64 word \<Rightarrow> nat \<Rightarrow> priority_op list" where
  "get_priority_requests w first_serial_id max_chunks =
    priority_requests_loop (ews_priority_queue (ew_eth_state w)) max_chunks 0 first_serial_id"

definition is_eip1271_signature_correct ::
  "watch_answers \<Rightarrow> address \<Rightarrow> byte list \<Rightarrow> byte list \<Rightarrow> (error, bool) res" where
  "is_eip1271_signature_correct a addr message signature =
    res_map (\<lambda>received. received = EIP1271_SUCCESS_RETURN_VALUE) (wa_is_valid_signature a addr message signature)"

definition is_new_pubkey_hash_authorized ::
  "watch_library \<Rightarrow> watch_answers \<Rightarrow> address \<Rightarrow> nonce \<Rightarrow> pubkey_hash \<Rightarrow> (error, bool) res" where
  "is_new_pubkey_hash_authorized l a addr n pub_key_hash =
    res_map (\<lambda>auth_fact. auth_fact = wl_keccak256 l (word_to_be pub_key_hash)) (wa_auth_facts a addr (ucast n))"

definition pending_withdrawals_queue_index :: "watch_answers \<Rightarrow> (error, 32 word) res" where
  "pending_withdrawals_queue_index a =
    res_bind (wa_first_pending_withdrawal_index a) (\<lambda>first_index.
      res_map (\<lambda>n. first_index + n) (wa_number_of_pending_withdrawals a))"

definition find_ongoing_op_by_hash :: "eth_watch \<Rightarrow> byte list \<Rightarrow> (eth_block_id \<times> priority_op) option" where
  "find_ongoing_op_by_hash w eth_hash =
    find (\<lambda>(block, op). po_eth_hash op = eth_hash) (ews_unconfirmed_queue (ew_eth_state w))"

definition get_ongoing_deposits_for :: "eth_watch \<Rightarrow> address \<Rightarrow> (eth_block_id \<times> priority_op) list" where
  "get_ongoing_deposits_for w addr =
    filter (\<lambda>(block, op). case po_data op of
        PrioDeposit d \<Rightarrow> dep_from d = addr \<or> dep_to d = addr
      | PrioFullExit f \<Rightarrow> False) (ews_unconfirmed_queue (ew_eth_state w))"

text \<open>@str::contains@.\<close>

fun str_contains :: "string \<Rightarrow> string \<Rightarrow> bool" where
  "str_contains [] pat = (pat = [])"
| "str_contains (c # cs) pat = (take (size pat) (c # cs) = pat \<or> str_contains cs pat)"

definition is_backoff_requested :: "error \<Rightarrow> bool" where
  "is_backoff_requested e = str_contains e ''429 Too Many Requests''"

definition enter_backoff_mode :: "nat \<Rightarrow> eth_watch \<Rightarrow> eth_watch" where
  "enter_backoff_mode now w = w\<lparr>ew_mode := Backoff (now + RATE_LIMIT_DELAY)\<rparr>"

definition polling_allowed :: "nat \<Rightarrow> eth_watch \<Rightarrow> bool \<times> eth_watch" where
  "polling_allowed now w = (case ew_mode w of
      Working \<Rightarrow> (True, w)
    | Backoff delay_until \<Rightarrow> if now \<ge> delay_until then (True, w\<lparr>ew_mode := Working\<rparr>) else (False, w))"

datatype eth_watch_request =
    PollETHNode
  | IsPubkeyChangeAuthorized address nonce pubkey_hash
  | GetPriorityQueueOps "64 word" nat
  | GetUnconfirmedDeposits address
  | GetUnconfirmedOpByHash "byte list"
  | CheckEIP1271Signature address "byte list" "byte list"
  | GetPendingWithdrawalsQueueIndex

datatype eth_watch_reply =
    NoWatchReply
  | ReplyBool bool
  | ReplyOps "priority_op list"
  | ReplyDeposits "(eth_block_id \<times> priority_op) list"
  | ReplyUnconfirmed "(eth_block_id \<times> priority_op) option"
  | ReplySignature "(error, bool) res"
  | ReplyIndex "(error, 32 word) res"

definition poll_request :: "watch_library \<Rightarrow> watch_answers \<Rightarrow> eth_watch \<Rightarrow> (error, eth_watch) res" where
  "poll_request l a w = (case polling_allowed (wa_now a) w of
      (False, w1) \<Rightarrow> Ok w1
    | (True, w1) \<Rightarrow> (case poll_eth_node l a w1 of
         (Ok _, w2) \<Rightarrow> Ok w2
       | (Err e, w2) \<Rightarrow> Ok (if is_backoff_requested e then enter_backoff_mode (wa_now a) w2 else w2)
       | (Panic, w2) \<Rightarrow> Panic))"

fun handle_watch_request ::
  "watch_library \<Rightarrow> watch_answers \<Rightarrow> eth_watch \<Rightarrow> eth_watch_request \<Rightarrow> (error, eth_watch_reply \<times> eth_watch) res" where
  "handle_watch_request l a w PollETHNode = res_map (Pair NoWatchReply) (poll_request l a w)"
| "handle_watch_request l a w (GetPriorityQueueOps op_start_id max_chunks) =
     Ok (ReplyOps (get_priority_requests w op_start_id max_chunks), w)"
| "handle_watch_request l a w (GetUnconfirmedDeposits addr) = Ok (ReplyDeposits (get_ongoing_deposits_for w addr), w)"
| "handle_watch_request l a w (GetUnconfirmedOpByHash eth_hash) =
     Ok (ReplyUnconfirmed (find_ongoing_op_by_hash w eth_hash), w)"
| "handle_watch_request l a w (IsPubkeyChangeAuthorized addr n pkh) =
     (case is_new_pubkey_hash_authorized l a addr n pkh of
        Ok b \<Rightarrow> Ok (ReplyBool b, w) | Err e \<Rightarrow> Ok (ReplyBool False, w) | Panic \<Rightarrow> Panic)"
| "handle_watch_request l a w (CheckEIP1271Signature addr message signature) =
     Ok (ReplySignature (is_eip1271_signature_correct a addr message signature), w)"
| "handle_watch_request l a w GetPendingWithdrawalsQueueIndex = Ok (ReplyIndex (pending_withdrawals_queue_index a), w)"

text \<open>The start of @run@, once the node has told its last block.\<close>

definition eth_watch_start :: "watch_library \<Rightarrow> watch_answers \<Rightarrow> 64 word \<Rightarrow> 64 word \<Rightarrow> (error, eth_watch) res" where
  "eth_watch_start l a confirmations block = (case restore_state_from_eth l a (eth_watch_new confirmations) block of
      (Ok _, w) \<Rightarrow> Ok w | (_, w) \<Rightarrow> Panic)"

end
