(* ===== verification/EthWatchProps.thy ===== *)
theory EthWatchProps
  imports EthWatch
begin

text \<open>
  What the watcher accepts.  A run is an inductive relation over the requests it handles while the node tells
  the logs of one chain, as far as they are deep enough; its invariant says which events are in the
  queue of priority operations, and which ones never get there.
\<close>

section \<open>Requests\<close>

lemma priority_requests_chunks:
  "used \<le> m \<Longrightarrow> used + (\<Sum>op\<leftarrow>priority_requests_loop q m used c. prio_chunks (po_data op)) \<le> m"
proof (induction q m used c rule: priority_requests_loop.induct)
  case (1 q m used c)
  then show ?case
    by (subst priority_requests_loop.simps) (auto split: option.split simp: add.assoc)
qed

lemma priority_requests_nth:
  "i < size (priority_requests_loop q m used c) \<Longrightarrow>
    (\<exists>r. fmlookup q (c + of_nat i) = Some r \<and> priority_requests_loop q m used c ! i = rp_op r)"
proof (induction q m used c arbitrary: i rule: priority_requests_loop.induct)
  case (1 q m used c)
  show ?case
  proof (cases i)
    case 0
    with "1.prems" show ?thesis
      by (subst (asm) priority_requests_loop.simps, subst priority_requests_loop.simps)
        (auto split: option.splits if_splits)
  next
    case (Suc j)
    with "1.prems" obtain r where r: "fmlookup q c = Some r" "used + prio_chunks (po_data (rp_op r)) \<le> m"
      by (subst (asm) priority_requests_loop.simps) (auto split: option.splits if_splits)
    then have step: "priority_requests_loop q m used c =
        rp_op r # priority_requests_loop q m (used + prio_chunks (po_data (rp_op r))) (c + 1)"
      by (subst priority_requests_loop.simps) simp
    show ?thesis
      using "1.IH" [OF r, of j] "1.prems" Suc by (simp add: step add.assoc)
  qed
qed

lemma priority_requests_missing: "fmlookup q c = None \<Longrightarrow> priority_requests_loop q m used c = []"
  by (subst priority_requests_loop.simps) simp

section \<open>The node\<close>

lemma unat_saturating_sub: "unat (u64_saturating_sub a b) = unat a - unat b"
  by (simp add: u64_saturating_sub_def unat_sub word_le_nat_alt)

text \<open>
  The logs of the blocks that are deep enough are those of the chain, if the node answers at all;
  @wa_now@ is between two times.
\<close>

type_synonym eth_chain = "nat \<Rightarrow> eth_log list"

definition honest :: "eth_chain \<Rightarrow> 64 word \<Rightarrow> nat \<Rightarrow> nat \<Rightarrow> watch_answers \<Rightarrow> bool" where
  "honest chain c t0 t1 a \<longleftrightarrow> t0 \<le> wa_now a \<and> wa_now a \<le> t1 \<and>
    (\<forall>n f t ls. wa_block_number a = Ok n \<longrightarrow> unat t \<le> unat n - unat c \<longrightarrow>
      wa_priority_logs a (TagNumber f) (TagNumber t) = Ok ls \<longrightarrow> ls = concat (map chain [unat f..<Suc (unat t)]))"

text \<open>An event of the chain that is an operation.\<close>

definition op_at :: "watch_library \<Rightarrow> eth_chain \<Rightarrow> nat \<Rightarrow> priority_op \<Rightarrow> bool" where
  "op_at l chain b op \<longleftrightarrow> (\<exists>event \<in> set (chain b). parse_event l event = Ok op)"

text \<open>The contract numbers its requests, so that no number comes twice.\<close>

definition unique_serials :: "watch_library \<Rightarrow> eth_chain \<Rightarrow> bool" where
  "unique_serials l chain \<longleftrightarrow> (\<forall>b b' op op'. op_at l chain b op \<longrightarrow> op_at l chain b' op' \<longrightarrow>
    po_serial_id op = po_serial_id op' \<longrightarrow> b = b' \<and> op = op')"

lemma collect_all_Ok:
  "collect_all f xs = Ok ys \<longleftrightarrow> list_all2 (\<lambda>x y. f x = Ok y) xs ys"
  by (induction xs arbitrary: ys) (auto simp: ok_iffs list_all2_Cons1)

lemma honest_ops:
  assumes "honest chain c t0 t1 a" "wa_block_number a = Ok n" "unat t \<le> unat n - unat c"
    and "get_priority_op_events l a (TagNumber f) (TagNumber t) = Ok ops"
  shows "op \<in> set ops \<longleftrightarrow> (\<exists>b. unat f \<le> b \<and> b \<le> unat t \<and> op_at l chain b op)"
proof -
  obtain ls where ls: "wa_priority_logs a (TagNumber f) (TagNumber t) = Ok ls" "list_all2 (\<lambda>x y. parse_event l x = Ok y) ls ops"
    using assms(4) by (auto simp: get_priority_op_events_def collect_all_Ok ok_iffs)
  have "ls = concat (map chain [unat f..<Suc (unat t)])"
    using assms(1-3) ls(1) unfolding honest_def by blast
  then have evs: "e \<in> set ls \<longleftrightarrow> (\<exists>b. unat f \<le> b \<and> b \<le> unat t \<and> e \<in> set (chain b))" for e
    by auto
  have "op \<in> set ops \<longleftrightarrow> (\<exists>e \<in> set ls. parse_event l e = Ok op)"
    using ls(2) by (auto simp: list_all2_conv_all_nth in_set_conv_nth) force+
  with evs show ?thesis unfolding op_at_def by blast
qed

lemma insert_ops_other:
  "\<forall>op \<in> set ops. po_serial_id op \<noteq> i \<Longrightarrow> fmlookup (insert_ops now ops q) i = fmlookup q i"
  by (induction ops arbitrary: q) (simp_all add: insert_ops_def)

lemma insert_ops_snoc:
  "insert_ops now (ops @ [op]) q = fmupd (po_serial_id op) (received_from now op) (insert_ops now ops q)"
  by (simp add: insert_ops_def)

lemma insert_ops_some:
  "op \<in> set ops \<Longrightarrow> \<exists>op' \<in> set ops. po_serial_id op' = po_serial_id op \<and>
    fmlookup (insert_ops now ops q) (po_serial_id op) = Some (received_from now op')"
  by (induction ops rule: rev_induct) (auto simp: insert_ops_snoc)

section \<open>One request\<close>

text \<open>What a successful poll does to the accepted operations.\<close>

definition accepts :: "watch_library \<Rightarrow> watch_answers \<Rightarrow> eth_watch \<Rightarrow> eth_watch \<Rightarrow> bool" where
  "accepts l a w w' \<longleftrightarrow> (\<exists>n ops unconfirmed.
    wa_block_number a = Ok n \<and> ews_last_ethereum_block (ew_eth_state w) < n \<and>
    get_priority_op_events l a
      (TagNumber (u64_saturating_sub (ews_last_ethereum_block (ew_eth_state w) + 1) (ew_number_of_confirmations_for_event w)))
      (TagNumber (u64_saturating_sub n (ew_number_of_confirmations_for_event w))) = Ok ops \<and>
    ew_eth_state w' = eth_state_new n unconfirmed
      (insert_ops (wa_now a) ops (sift_outdated_ops (wa_now a) (ews_priority_queue (ew_eth_state w)))))"

lemma process_new_blocks_cases:
  assumes "process_new_blocks l a w n = (r, w')" "wa_block_number a = Ok n"
    and "ews_last_ethereum_block (ew_eth_state w) < n"
  shows "ew_number_of_confirmations_for_event w' = ew_number_of_confirmations_for_event w \<and>
    (ew_eth_state w' = ew_eth_state w \<or> accepts l a w w')"
  using assms
  by (auto simp: process_new_blocks_def Let_def store_complete_withdrawals_def accepts_def ok_iffs split: res.splits)

lemma polling_allowed_state:
  "polling_allowed now w = (b, w1) \<Longrightarrow> ew_eth_state w1 = ew_eth_state w \<and>
    ew_number_of_confirmations_for_event w1 = ew_number_of_confirmations_for_event w"
  by (auto simp: polling_allowed_def split: watcher_mode.splits if_splits)

lemma poll_eth_node_cases:
  assumes "poll_eth_node l a w = (r, w')"
  shows "ew_number_of_confirmations_for_event w' = ew_number_of_confirmations_for_event w \<and>
    (ew_eth_state w' = ew_eth_state w \<or> accepts l a w w')"
  using assms process_new_blocks_cases by (fastforce simp: poll_eth_node_def split: res.splits if_splits)

lemma watch_step:
  assumes "handle_watch_request l a w req = Ok (rep, w')"
  shows "ew_number_of_confirmations_for_event w' = ew_number_of_confirmations_for_event w \<and>
    (ew_eth_state w' = ew_eth_state w \<or> accepts l a w w')"
proof (cases req)
  case PollETHNode
  obtain b w1 where w1: "polling_allowed (wa_now a) w = (b, w1)" by fastforce
  obtain r w2 where w2: "poll_eth_node l a w1 = (r, w2)" by fastforce
  have same: "w' = w1 \<or> ew_eth_state w' = ew_eth_state w2 \<and>
      ew_number_of_confirmations_for_event w' = ew_number_of_confirmations_for_event w2"
    using assms PollETHNode w1 w2
    by (auto simp: poll_request_def enter_backoff_mode_def ok_iffs split: bool.splits res.splits if_splits)
  show ?thesis
    using same polling_allowed_state [OF w1] poll_eth_node_cases [OF w2] by (auto simp: accepts_def)
qed (use assms in \<open>auto simp: ok_iffs split: res.splits\<close>)

section \<open>Runs\<close>

text \<open>The watcher after requests that it has handled, from its first state.\<close>

inductive watch_run :: "watch_library \<Rightarrow> eth_chain \<Rightarrow> nat \<Rightarrow> nat \<Rightarrow> eth_watch \<Rightarrow> eth_watch \<Rightarrow> bool"
  for l chain t0 t1 w0 where
  run_start: "watch_run l chain t0 t1 w0 w0"
| run_request: "watch_run l chain t0 t1 w0 w \<Longrightarrow> honest chain (ew_number_of_confirmations_for_event w) t0 t1 a
    \<Longrightarrow> handle_watch_request l a w req = Ok (rep, w') \<Longrightarrow> watch_run l chain t0 t1 w0 w'"

text \<open>The blocks whose operations are accepted: @last_block@ is the one the watcher started at.\<close>

definition accepted_blocks :: "nat \<Rightarrow> nat \<Rightarrow> nat \<Rightarrow> nat set" where
  "accepted_blocks started confirmations last_block =
    {started - 2 * confirmations - PRIORITY_EXPIRATION..started - 2 * confirmations}
      \<union> {started + 1 - confirmations..last_block - confirmations}"

lemma accepted_blocks_start: "accepted_blocks L c L = {L - 2 * c - PRIORITY_EXPIRATION..L - 2 * c}"
  by (auto simp: accepted_blocks_def)

lemma accepted_blocks_step:
  "L \<le> m \<Longrightarrow> m < n \<Longrightarrow> accepted_blocks L c n = accepted_blocks L c m \<union> {m + 1 - c..n - c}"
  by (auto simp: accepted_blocks_def)

abbreviation accepted_queue :: "eth_watch \<Rightarrow> (64 word, received_priority_op) fmap" where
  "accepted_queue w \<equiv> ews_priority_queue (ew_eth_state w)"

abbreviation last_block :: "eth_watch \<Rightarrow> nat" where
  "last_block w \<equiv> unat (ews_last_ethereum_block (ew_eth_state w))"

text \<open>The queue holds operations of a set of blocks only; it holds all of them, none too old.\<close>

definition queue_within :: "watch_library \<Rightarrow> eth_chain \<Rightarrow> nat set \<Rightarrow> (64 word, received_priority_op) fmap \<Rightarrow> bool" where
  "queue_within l chain B q \<longleftrightarrow> (\<forall>i r. fmlookup q i = Some r \<longrightarrow>
    po_serial_id (rp_op r) = i \<and> (\<exists>b \<in> B. op_at l chain b (rp_op r)))"

definition queue_covers :: "watch_library \<Rightarrow> eth_chain \<Rightarrow> nat \<Rightarrow> nat set \<Rightarrow> (64 word, received_priority_op) fmap \<Rightarrow> bool" where
  "queue_covers l chain t0 B q \<longleftrightarrow> (\<forall>b \<in> B. \<forall>op. op_at l chain b op \<longrightarrow>
    (\<exists>r. fmlookup q (po_serial_id op) = Some r \<and> rp_op r = op \<and> t0 \<le> rp_received_at r))"

lemma sift_lookup:
  "fmlookup (sift_outdated_ops now q) i = Some r \<longleftrightarrow> fmlookup q i = Some r \<and> \<not> is_outdated now r"
  by (auto simp: sift_outdated_ops_def split: option.splits if_splits)

lemma queue_within_insert:
  assumes "queue_within l chain B q" "\<And>op. op \<in> set ops \<Longrightarrow> \<exists>b \<in> B'. op_at l chain b op"
  shows "queue_within l chain (B \<union> B') (insert_ops now ops q)"
  unfolding queue_within_def
proof (intro allI impI)
  fix i r assume r: "fmlookup (insert_ops now ops q) i = Some r"
  show "po_serial_id (rp_op r) = i \<and> (\<exists>b \<in> B \<union> B'. op_at l chain b (rp_op r))"
  proof (cases "\<exists>op \<in> set ops. po_serial_id op = i")
    case True
    then obtain op1 where "op1 \<in> set ops" "po_serial_id op1 = i" by blast
    with insert_ops_some [of op1 ops now q] r obtain op where "op \<in> set ops" "po_serial_id op = i" "r = received_from now op"
      by auto
    with assms(2) show ?thesis by (auto simp: received_from_def)
  next
    case False
    with r insert_ops_other [of ops i now q] have "fmlookup q i = Some r" by simp
    with assms(1) show ?thesis by (auto simp: queue_within_def)
  qed
qed

lemma queue_covers_insert:
  assumes "unique_serials l chain" "queue_covers l chain t0 B q" "t0 \<le> now"
    and "\<And>op. op \<in> set ops \<longleftrightarrow> (\<exists>b \<in> B'. op_at l chain b op)"
  shows "queue_covers l chain t0 (B \<union> B') (insert_ops now ops q)"
  unfolding queue_covers_def
proof (intro ballI allI impI)
  fix b op assume b: "b \<in> B \<union> B'" and op: "op_at l chain b op"
  show "\<exists>r. fmlookup (insert_ops now ops q) (po_serial_id op) = Some r \<and> rp_op r = op \<and> t0 \<le> rp_received_at r"
  proof (cases "\<exists>op' \<in> set ops. po_serial_id op' = po_serial_id op")
    case True
    then obtain op1 where op1: "op1 \<in> set ops" "po_serial_id op1 = po_serial_id op" by blast
    from insert_ops_some [OF op1(1)] op1(2) obtain op' where op': "op' \<in> set ops" "po_serial_id op' = po_serial_id op"
      "fmlookup (insert_ops now ops q) (po_serial_id op) = Some (received_from now op')" by metis
    have "op' = op" using assms(1,4) op op' unfolding unique_serials_def by metis
    with op' assms(3) show ?thesis by (simp add: received_from_def)
  next
    case False
    then have "b \<in> B" using assms(4) op b by auto
    with assms(2) op insert_ops_other [of ops "po_serial_id op" now q] False show ?thesis
      unfolding queue_covers_def by fastforce
  qed
qed

section \<open>The invariant\<close>

definition watch_inv :: "watch_library \<Rightarrow> eth_chain \<Rightarrow> nat \<Rightarrow> 64 word \<Rightarrow> 64 word \<Rightarrow> eth_watch \<Rightarrow> bool" where
  "watch_inv l chain t0 started c w \<longleftrightarrow> ew_number_of_confirmations_for_event w = c \<and>
    unat started \<le> last_block w \<and>
    queue_within l chain (accepted_blocks (unat started) (unat c) (last_block w)) (accepted_queue w)"

lemma u64_Suc: "a < b \<Longrightarrow> unat (a + 1) = unat a + 1" for a b :: "64 word"
  using unsigned_less [of b, where 'a = nat] by (simp add: word_less_nat_alt unat_word_ariths)

lemma accepts_ops:
  assumes "accepts l a w w'" "honest chain c t0 t1 a" "ew_number_of_confirmations_for_event w = c"
  shows "\<exists>ops. (\<forall>op. op \<in> set ops \<longleftrightarrow> (\<exists>b \<in> {last_block w + 1 - unat c..last_block w' - unat c}. op_at l chain b op)) \<and>
    last_block w < last_block w' \<and>
    accepted_queue w' = insert_ops (wa_now a) ops (sift_outdated_ops (wa_now a) (accepted_queue w))"
proof -
  obtain n ops unconfirmed where n: "wa_block_number a = Ok n" "ews_last_ethereum_block (ew_eth_state w) < n"
    and ops: "get_priority_op_events l a (TagNumber (u64_saturating_sub (ews_last_ethereum_block (ew_eth_state w) + 1) c))
      (TagNumber (u64_saturating_sub n c)) = Ok ops"
    and st: "ew_eth_state w' = eth_state_new n unconfirmed
      (insert_ops (wa_now a) ops (sift_outdated_ops (wa_now a) (accepted_queue w)))"
    using assms(1,3) unfolding accepts_def by auto
  have "unat (u64_saturating_sub n c) \<le> unat n - unat c" by (simp add: unat_saturating_sub)
  note honest_ops [OF assms(2) n(1) this ops]
  with n(2) st show ?thesis
    by (intro exI [of _ ops]) (auto simp: unat_saturating_sub u64_Suc eth_state_new_def word_less_nat_alt Bex_def)
qed

lemma restore_accepts:
  assumes "eth_watch_start l a c started = Ok w" "honest chain c t0 t1 a" "wa_block_number a = Ok started"
  shows "\<exists>ops. (\<forall>op. op \<in> set ops \<longleftrightarrow> (\<exists>b \<in> {unat started - 2 * unat c - PRIORITY_EXPIRATION..unat started - 2 * unat c}.
      op_at l chain b op)) \<and> last_block w = unat started \<and> accepted_queue w = insert_ops (wa_now a) ops fmempty \<and>
    ew_number_of_confirmations_for_event w = c"
proof -
  let ?to = "u64_saturating_sub (u64_saturating_sub started c) c"
  let ?from = "u64_saturating_sub ?to (of_nat PRIORITY_EXPIRATION)"
  obtain ops unconfirmed where ops: "get_priority_op_events l a (TagNumber ?from) (TagNumber ?to) = Ok ops"
    and st: "ew_eth_state w = eth_state_new started unconfirmed (insert_ops (wa_now a) ops fmempty)"
      "ew_number_of_confirmations_for_event w = c"
    using assms(1)
    by (auto simp: eth_watch_start_def restore_state_from_eth_def Let_def eth_watch_new_def store_complete_withdrawals_def
        ok_iffs split: prod.splits res.splits)
  have to_block: "unat ?to = unat started - 2 * unat c" by (simp add: unat_saturating_sub)
  moreover have "unat (of_nat PRIORITY_EXPIRATION :: 64 word) = PRIORITY_EXPIRATION"
    by (simp add: PRIORITY_EXPIRATION_def)
  ultimately have from_block: "unat ?from = unat started - 2 * unat c - PRIORITY_EXPIRATION"
    by (simp only: unat_saturating_sub)
  from to_block have "unat ?to \<le> unat started - unat c" by simp
  note honest_ops [OF assms(2,3) this ops, unfolded to_block from_block]
  with st show ?thesis by (intro exI [of _ ops]) (auto simp: eth_state_new_def Bex_def)
qed

lemma watch_start_inv:
  assumes "eth_watch_start l a c started = Ok w" "honest chain c t0 t1 a" "wa_block_number a = Ok started"
  shows "watch_inv l chain t0 started c w"
proof -
  obtain ops where "\<And>op. op \<in> set ops \<longleftrightarrow> (\<exists>b \<in> {unat started - 2 * unat c - PRIORITY_EXPIRATION..unat started - 2 * unat c}.
      op_at l chain b op)" "last_block w = unat started" "accepted_queue w = insert_ops (wa_now a) ops fmempty"
    "ew_number_of_confirmations_for_event w = c"
    using restore_accepts [OF assms] by blast
  moreover have "queue_within l chain (accepted_blocks (unat started) (unat c) (unat started)) fmempty"
    by (simp add: queue_within_def)
  ultimately show ?thesis
    using queue_within_insert [of l chain "accepted_blocks (unat started) (unat c) (unat started)" fmempty ops
        "accepted_blocks (unat started) (unat c) (unat started)"]
    by (simp add: watch_inv_def accepted_blocks_start)
qed

lemma watch_inv_accepts:
  assumes "watch_inv l chain t0 started c w" "accepts l a w w'" "honest chain c t0 t1 a"
    and "ew_number_of_confirmations_for_event w' = c"
  shows "watch_inv l chain t0 started c w'"
proof -
  from assms(1) have w: "ew_number_of_confirmations_for_event w = c" "unat started \<le> last_block w"
    "queue_within l chain (accepted_blocks (unat started) (unat c) (last_block w)) (accepted_queue w)"
    by (simp_all add: watch_inv_def)
  obtain ops where ops: "\<And>op. op \<in> set ops \<longleftrightarrow> (\<exists>b \<in> {last_block w + 1 - unat c..last_block w' - unat c}. op_at l chain b op)"
    "last_block w < last_block w'" "accepted_queue w' = insert_ops (wa_now a) ops (sift_outdated_ops (wa_now a) (accepted_queue w))"
    using accepts_ops [OF assms(2,3) w(1)] by blast
  have "queue_within l chain (accepted_blocks (unat started) (unat c) (last_block w)) (sift_outdated_ops (wa_now a) (accepted_queue w))"
    using w(3) unfolding queue_within_def sift_lookup by blast
  then have "queue_within l chain (accepted_blocks (unat started) (unat c) (last_block w')) (accepted_queue w')"
    unfolding accepted_blocks_step [OF w(2) ops(2)] ops(3) by (rule queue_within_insert) (use ops(1) in blast)
  with w ops(2) assms(4) show ?thesis by (simp add: watch_inv_def)
qed

lemma watch_run_inv:
  assumes "watch_run l chain t0 t1 w0 w" "watch_inv l chain t0 started c w0"
  shows "watch_inv l chain t0 started c w"
  using assms
proof (induction rule: watch_run.induct)
  case (run_request w a req rep w')
  then have inv: "watch_inv l chain t0 started c w" by blast
  then have "ew_number_of_confirmations_for_event w = c" by (simp add: watch_inv_def)
  with run_request.hyps watch_step [OF run_request.hyps(3)] inv watch_inv_accepts [OF inv] show ?case
    by (auto simp: watch_inv_def)
qed

lemma watch_run_covers:
  assumes "watch_run l chain t0 t1 w0 w" "watch_inv l chain t0 started c w0" "unique_serials l chain"
    and "t1 < t0 + PRIORITY_OP_EXPIRATION"
    and "queue_covers l chain t0 (accepted_blocks (unat started) (unat c) (last_block w0)) (accepted_queue w0)"
  shows "queue_covers l chain t0 (accepted_blocks (unat started) (unat c) (last_block w)) (accepted_queue w)"
  using assms
proof (induction rule: watch_run.induct)
  case (run_request w a req rep w')
  then have cov: "queue_covers l chain t0 (accepted_blocks (unat started) (unat c) (last_block w)) (accepted_queue w)"
    and inv: "watch_inv l chain t0 started c w"
    using watch_run_inv by blast+
  from inv have c: "ew_number_of_confirmations_for_event w = c" "unat started \<le> last_block w" by (simp_all add: watch_inv_def)
  with run_request have hon: "honest chain c t0 t1 a" by simp
  then have now: "t0 \<le> wa_now a" "wa_now a \<le> t1" by (simp_all add: honest_def)
  consider "ew_eth_state w' = ew_eth_state w" | "accepts l a w w'"
    using watch_step [OF run_request.hyps(3)] by blast
  then show ?case
  proof cases
    case 2
    obtain ops where ops: "\<And>op. op \<in> set ops \<longleftrightarrow> (\<exists>b \<in> {last_block w + 1 - unat c..last_block w' - unat c}. op_at l chain b op)"
      "last_block w < last_block w'" "accepted_queue w' = insert_ops (wa_now a) ops (sift_outdated_ops (wa_now a) (accepted_queue w))"
      using accepts_ops [OF 2 hon c(1)] by blast
    have "\<not> is_outdated (wa_now a) r" if "t0 \<le> rp_received_at r" for r
      using that now assms(4) by (simp add: is_outdated_def)
    with cov have "queue_covers l chain t0 (accepted_blocks (unat started) (unat c) (last_block w))
        (sift_outdated_ops (wa_now a) (accepted_queue w))"
      unfolding queue_covers_def sift_lookup by blast
    then show ?thesis
      unfolding accepted_blocks_step [OF c(2) ops(2)] ops(3)
      by (rule queue_covers_insert [OF assms(3) _ now(1) ops(1)])
  qed (simp add: cov)
qed

lemma watch_start_covers:
  assumes "eth_watch_start l a c started = Ok w" "honest chain c t0 t1 a" "wa_block_number a = Ok started"
    and "unique_serials l chain"
  shows "queue_covers l chain t0 (accepted_blocks (unat started) (unat c) (last_block w)) (accepted_queue w)"
proof -
  obtain ops where ops: "\<And>op. op \<in> set ops \<longleftrightarrow> (\<exists>b \<in> {unat started - 2 * unat c - PRIORITY_EXPIRATION..unat started - 2 * unat c}.
      op_at l chain b op)" "last_block w = unat started" "accepted_queue w = insert_ops (wa_now a) ops fmempty"
    using restore_accepts [OF assms(1-3)] by blast
  have "queue_covers l chain t0 {} fmempty" by (simp add: queue_covers_def)
  moreover have "t0 \<le> wa_now a" using assms(2) by (simp add: honest_def)
  ultimately have "queue_covers l chain t0 ({} \<union> {unat started - 2 * unat c - PRIORITY_EXPIRATION..unat started - 2 * unat c})
      (insert_ops (wa_now a) ops fmempty)"
    by (rule queue_covers_insert [OF assms(4) _ _ ops(1)])
  then show ?thesis unfolding accepted_blocks_start ops(2,3) by simp
qed

lemma queue_exact:
  assumes "queue_within l chain B q" "queue_covers l chain t0 B q"
  shows "map_option rp_op (fmlookup q (po_serial_id op)) = Some op \<longleftrightarrow> (\<exists>b \<in> B. op_at l chain b op)"
proof
  assume "map_option rp_op (fmlookup q (po_serial_id op)) = Some op"
  then obtain r where "fmlookup q (po_serial_id op) = Some r" "rp_op r = op" by auto
  with assms(1) show "\<exists>b \<in> B. op_at l chain b op" unfolding queue_within_def by blast
next
  assume "\<exists>b \<in> B. op_at l chain b op"
  with assms(2) obtain r where "fmlookup q (po_serial_id op) = Some r" "rp_op r = op"
    unfolding queue_covers_def by blast
  then show "map_option rp_op (fmlookup q (po_serial_id op)) = Some op" by simp
qed

section \<open>The properties\<close>

text \<open>C24: While no operation is older than the watcher keeps it, its queue holds exactly the operations of the
  blocks it accepts: those up to twice the confirmations before the block it started at, and those
  of every later poll, from where the last poll stopped up to the confirmations before the new block.\<close>

theorem watched_queue_exact:
  assumes "eth_watch_start l a c started = Ok w0" "honest chain c t0 t1 a" "wa_block_number a = Ok started"
    and "watch_run l chain t0 t1 w0 w" "unique_serials l chain" "t1 < t0 + PRIORITY_OP_EXPIRATION"
  shows "map_option rp_op (fmlookup (ews_priority_queue (ew_eth_state w)) (po_serial_id op)) = Some op \<longleftrightarrow>
    (\<exists>b \<in> accepted_blocks (unat started) (unat c) (unat (ews_last_ethereum_block (ew_eth_state w))). op_at l chain b op)"
proof -
  have inv0: "watch_inv l chain t0 started c w0" by (rule watch_start_inv [OF assms(1-3)])
  have "queue_within l chain (accepted_blocks (unat started) (unat c) (last_block w)) (accepted_queue w)"
    using watch_run_inv [OF assms(4) inv0] by (simp add: watch_inv_def)
  moreover have "queue_covers l chain t0 (accepted_blocks (unat started) (unat c) (last_block w)) (accepted_queue w)"
    by (rule watch_run_covers [OF assms(4) inv0 assms(5,6) watch_start_covers [OF assms(1-3,5)]])
  ultimately show ?thesis by (rule queue_exact)
qed

text \<open>C25: The operations of the blocks between twice the confirmations and once the confirmations before the
  block the watcher started at are never accepted, whatever it polls: no request for priority operations that
  starts at one of them returns anything.\<close>

theorem restored_watcher_skips_blocks:
  assumes "eth_watch_start l a c started = Ok w0" "honest chain c t0 t1 a" "wa_block_number a = Ok started"
    and "watch_run l chain t0 t1 w0 w" "unique_serials l chain"
    and "op_at l chain b op" "unat started - 2 * unat c < b" "b \<le> unat started - unat c"
  shows "get_priority_requests w (po_serial_id op) max_chunks = []"
proof -
  have within: "queue_within l chain (accepted_blocks (unat started) (unat c) (last_block w)) (accepted_queue w)"
    using watch_run_inv [OF assms(4) watch_start_inv [OF assms(1-3)]] by (simp add: watch_inv_def)
  have "b \<notin> accepted_blocks (unat started) (unat c) (last_block w)"
    using assms(7,8) by (auto simp: accepted_blocks_def)
  then have "fmlookup (accepted_queue w) (po_serial_id op) = None"
    using within assms(5,6) unfolding queue_within_def unique_serials_def by (metis option.exhaust)
  then show ?thesis by (simp add: get_priority_requests_def priority_requests_missing)
qed

section \<open>A chain\<close>

text \<open>An operation in every third block from block 3 on; one block confirms.\<close>

definition sample_watch_library :: watch_library where
  "sample_watch_library = \<lparr>wl_decode_priority_op = (\<lambda>data. Some (0, word_of_nat (size data), 1, replicate 42 0, 0)),
    wl_decode_withdrawals = (\<lambda>data. None), wl_keccak256 = (\<lambda>data. data)\<rparr>"

definition sample_chain :: eth_chain where
  "sample_chain b = (if b \<in> {3, 6, 9} then [\<lparr>log_data = replicate (b div 3 - 1) 0, log_transaction_hash = Some 0,
    log_block_number = Some (word_of_nat b)\<rparr>] else [])"

definition sample_answers :: "64 word \<Rightarrow> watch_answers" where
  "sample_answers n = \<lparr>wa_now = 0, wa_block_number = Ok n,
    wa_priority_logs = (\<lambda>f t. case (f, t) of
        (TagNumber f, TagNumber t) \<Rightarrow> Ok (concat (map sample_chain [unat f..<Suc (unat t)]))
      | _ \<Rightarrow> Ok []),
    wa_withdrawal_logs = (\<lambda>f t. Ok []), wa_storage = Ok (), wa_auth_facts = (\<lambda>a n. Ok []),
    wa_is_valid_signature = (\<lambda>a m s. Ok []), wa_first_pending_withdrawal_index = Ok 0,
    wa_number_of_pending_withdrawals = Ok 0\<rparr>"

definition sample_op :: "nat \<Rightarrow> priority_op" where
  "sample_op b = \<lparr>po_serial_id = word_of_nat (b div 3 - 1),
    po_data = PrioDeposit \<lparr>dep_from = 0, dep_token = 0, dep_amount = 0, dep_to = 0\<rparr>,
    po_deadline_block = 0, po_eth_hash = replicate 32 0, po_eth_block = word_of_nat b\<rparr>"

definition sample_watch :: "64 word \<Rightarrow> (64 word \<times> received_priority_op) list \<Rightarrow> eth_watch" where
  "sample_watch n q = eth_watch_new 2\<lparr>ew_eth_state := eth_state_new n [] (fmap_of_list q)\<rparr>"

lemma word_to_be_zero: "word_to_be (0 :: h256) = replicate 32 0"
  by code_simp

lemma parse_sample_data:
  "(parse_from_priority_queue_logs (replicate 42 0) 1 0) =
    Ok (PrioDeposit \<lparr>dep_from = 0, dep_token = 0, dep_amount = 0, dep_to = 0\<rparr>)"
  by code_simp

lemma sample_event:
  "e \<in> set (sample_chain b) \<Longrightarrow> b \<in> {3, 6, 9} \<and> parse_event sample_watch_library e = Ok (sample_op b)"
  by (auto simp: sample_chain_def sample_watch_library_def parse_event_def priority_op_try_from_def sample_op_def as_u64_def
      as_u32_def parse_sample_data word_to_be_zero split: if_splits)

lemma sample_op_at: "op_at sample_watch_library sample_chain b op \<longleftrightarrow> b \<in> {3, 6, 9} \<and> op = sample_op b"
proof
  show "op_at sample_watch_library sample_chain b op \<Longrightarrow> b \<in> {3, 6, 9} \<and> op = sample_op b"
    using sample_event unfolding op_at_def by fastforce
next
  assume b: "b \<in> {3, 6, 9} \<and> op = sample_op b"
  then have "\<exists>e. e \<in> set (sample_chain b)" by (auto simp: sample_chain_def)
  with sample_event b show "op_at sample_watch_library sample_chain b op" unfolding op_at_def by blast
qed

lemma sample_unique: "unique_serials sample_watch_library sample_chain"
  by (auto simp: unique_serials_def sample_op_at sample_op_def)

lemma sample_honest: "honest sample_chain c 0 0 (sample_answers n)"
  by (simp add: honest_def sample_answers_def)

lemma sample_parse:
  "b \<in> {3, 6, 9} \<Longrightarrow> sample_chain b = [e] \<Longrightarrow> parse_event sample_watch_library e = Ok (sample_op b)"
  using sample_event [of e b] by simp

lemma sample_events:
  "get_priority_op_events sample_watch_library (sample_answers n) (TagNumber 0) (TagNumber 4) = Ok [sample_op 3]"
  "get_priority_op_events sample_watch_library (sample_answers n) (TagNumber 7) (TagNumber 9) = Ok [sample_op 9]"
proof -
  have "concat (map sample_chain [0..<5]) = sample_chain 3" "concat (map sample_chain [7..<10]) = sample_chain 9"
  proof -
    have "[0..<5] = [0, 1, 2, 3, 4 :: nat]" "[7..<10] = [7, 8, 9 :: nat]" by code_simp+
    then show "concat (map sample_chain [0..<5]) = sample_chain 3" "concat (map sample_chain [7..<10]) = sample_chain 9"
      by (simp_all add: sample_chain_def)
  qed
  moreover obtain e e' where "sample_chain 3 = [e]" "sample_chain 9 = [e']" by (simp add: sample_chain_def)
  ultimately show
    "get_priority_op_events sample_watch_library (sample_answers n) (TagNumber 0) (TagNumber 4) = Ok [sample_op 3]"
    "get_priority_op_events sample_watch_library (sample_answers n) (TagNumber 7) (TagNumber 9) = Ok [sample_op 9]"
    using sample_parse [of 3 e] sample_parse [of 9 e']
    by (simp_all add: get_priority_op_events_def sample_answers_def)
qed

lemma sample_quiet:
  "get_unconfirmed_ops sample_watch_library (sample_answers k) w n = Ok []"
  "get_complete_withdrawals_event sample_watch_library (sample_answers k) f t = Ok []"
  "store_complete_withdrawals (sample_answers k) w [] = Ok w"
  "wa_now (sample_answers k) = 0" "wa_block_number (sample_answers k) = Ok k"
  by (simp_all add: get_unconfirmed_ops_def get_priority_op_events_with_blocks_def get_complete_withdrawals_event_def
      store_complete_withdrawals_def sample_answers_def)

lemma sample_start:
  "eth_watch_start sample_watch_library (sample_answers 8) 2 8 = Ok (sample_watch 8 [(0, received_from 0 (sample_op 3))])"
  using sample_events(1)
  by (simp add: eth_watch_start_def restore_state_from_eth_def Let_def PRIORITY_EXPIRATION_def eth_watch_new_def
      u64_saturating_sub_def sample_watch_def insert_ops_def sample_op_def sample_quiet)

lemma sample_sift: "sift_outdated_ops 0 q = q"
  by (rule fmap_ext) (auto simp: sift_outdated_ops_def is_outdated_def PRIORITY_OP_EXPIRATION_def
    PRIORITY_EXPIRATION_DAYS_def SECS_IN_HOUR_def split: option.split)

lemma sample_poll:
  "handle_watch_request sample_watch_library (sample_answers 11) (sample_watch 8 [(0, received_from 0 (sample_op 3))]) PollETHNode =
    Ok (NoWatchReply, sample_watch 11 [(2, received_from 0 (sample_op 9)), (0, received_from 0 (sample_op 3))])"
  using sample_events(2) [of 11]
  by (simp add: poll_request_def polling_allowed_def poll_eth_node_def process_new_blocks_def Let_def eth_watch_new_def
      u64_saturating_sub_def sample_watch_def insert_ops_def sample_op_def eth_state_new_def sample_quiet sample_sift)

lemma sample_run:
  "watch_run sample_watch_library sample_chain 0 0 (sample_watch 8 [(0, received_from 0 (sample_op 3))])
    (sample_watch 11 [(2, received_from 0 (sample_op 9)), (0, received_from 0 (sample_op 3))])"
  by (rule run_request [OF run_start sample_honest sample_poll])

text \<open>Block 9 is accepted after the poll.\<close>

theorem watched_queue_exact_witness:
  "map_option rp_op (fmlookup (ews_priority_queue (ew_eth_state
    (sample_watch 11 [(2, received_from 0 (sample_op 9)), (0, received_from 0 (sample_op 3))]))) (po_serial_id (sample_op 9))) =
    Some (sample_op 9)"
proof -
  have "9 \<in> accepted_blocks (unat (8 :: 64 word)) (unat (2 :: 64 word)) (unat (ews_last_ethereum_block (ew_eth_state
      (sample_watch 11 [(2, received_from 0 (sample_op 9)), (0, received_from 0 (sample_op 3))]))))"
    by (simp add: accepted_blocks_def sample_watch_def eth_watch_new_def eth_state_new_def)
  then show ?thesis
    using watched_queue_exact [OF sample_start sample_honest sample_quiet(5) sample_run sample_unique, of "sample_op 9"]
    by (auto simp: sample_op_at PRIORITY_OP_EXPIRATION_def PRIORITY_EXPIRATION_DAYS_def SECS_IN_HOUR_def)
qed

text \<open>Block 6, five deep, is skipped.\<close>

theorem restored_watcher_skips_blocks_witness:
  "get_priority_requests (sample_watch 11 [(2, received_from 0 (sample_op 9)), (0, received_from 0 (sample_op 3))])
    (po_serial_id (sample_op 6)) 1000 = []"
  using restored_watcher_skips_blocks [OF sample_start sample_honest sample_quiet(5) sample_run sample_unique, of 6 "sample_op 6"]
  by (simp add: sample_op_at)

end
