(* ===== verification/MempoolStorage.thy ===== *)
theory MempoolStorage
  imports Txs ZkState
begin

text \<open>
  The table of the mempool, @core/lib/storage/src/chain/mempool@: the list of its rows in the order of
  insertion, with the sequences of its @bigserial@ columns.  A transaction is kept as JSON, which
  loses the cached signer; a query that fails is in the answers of the caller.
\<close>

section \<open>The table\<close>

record mempool_tx =
  mt_id :: int
  mt_tx_hash :: h256
  mt_tx :: zksync_tx
  mt_created_at :: nat
  mt_eth_sign_data :: "eth_sign_data option"
  mt_batch_id :: int

record mempool_db =
  md_mempool_txs :: "mempool_tx list"
  md_next_id :: int
  md_next_batch_id :: int

text \<open>What @serde_json@ writes and reads of a transaction.\<close>

fun stored_form :: "zksync_tx \<Rightarrow> zksync_tx" where
  "stored_form (TxTransfer tx) = TxTransfer (tx\<lparr>tr_cached_signer := NotCached\<rparr>)"
| "stored_form (TxWithdraw tx) = TxWithdraw (tx\<lparr>wd_cached_signer := NotCached\<rparr>)"
| "stored_form (TxClose tx) = TxClose tx"
| "stored_form (TxChangePubKey tx) = TxChangePubKey (tx\<lparr>cp_cached_signer := NotCached\<rparr>)"
| "stored_form (TxForcedExit tx) = TxForcedExit (tx\<lparr>fe_cached_signer := NotCached\<rparr>)"

definition stored_signed :: "signed_tx \<Rightarrow> signed_tx" where
  "stored_signed tx = tx\<lparr>stx_tx := stored_form (stx_tx tx)\<rparr>"

fun stored_variant :: "signed_tx_variant \<Rightarrow> signed_tx_variant" where
  "stored_variant (VariantTx tx) = VariantTx (stored_signed tx)"
| "stored_variant (VariantBatch txs batch_id) = VariantBatch (map stored_signed txs) batch_id"

section \<open>Loading\<close>

definition batch_id_optional :: "int \<Rightarrow> int option" where
  "batch_id_optional batch_id = (if batch_id = 0 then None else Some batch_id)"

text \<open>@itertools::group_by@: runs of neighbours with the same key.\<close>

fun group_by :: "('a \<Rightarrow> 'k) \<Rightarrow> 'a list \<Rightarrow> ('k \<times> 'a list) list" where
  "group_by key [] = []"
| "group_by key (x # xs) = (case group_by key xs of
      [] \<Rightarrow> [(key x, [x])]
    | (k, ys) # gs \<Rightarrow> if key x = k then (k, x # ys) # gs else (key x, [x]) # (k, ys) # gs)"

definition deserialized :: "mempool_tx \<Rightarrow> signed_tx" where
  "deserialized r = \<lparr>stx_tx = mt_tx r, stx_eth_sign_data = mt_eth_sign_data r\<rparr>"

fun group_variants :: "int option \<times> mempool_tx list \<Rightarrow> signed_tx_variant list" where
  "group_variants (Some batch_id, rows) = [VariantBatch (map deserialized rows) (word_of_int batch_id)]"
| "group_variants (None, rows) = map (\<lambda>r. VariantTx (deserialized r)) rows"

text \<open>The nonce to sort by: that of the last transaction of a batch.  A group is never empty.\<close>

fun variant_nonce :: "signed_tx_variant \<Rightarrow> nonce" where
  "variant_nonce (VariantTx tx) = tx_nonce (stx_tx tx)"
| "variant_nonce (VariantBatch txs batch_id) = (if txs = [] then 0 else tx_nonce (stx_tx (last txs)))"

definition ordered_variants :: "mempool_db \<Rightarrow> signed_tx_variant list" where
  "ordered_variants db = concat (map group_variants
    (group_by (\<lambda>r. batch_id_optional (mt_batch_id r)) (sort_key mt_created_at (md_mempool_txs db))))"

definition load_txs :: "mempool_db \<Rightarrow> signed_tx_variant list" where
  "load_txs db = sort_key variant_nonce (ordered_variants db)"

section \<open>Insertion and removal\<close>

definition insert_row ::
  "crypto \<Rightarrow> nat \<Rightarrow> int \<Rightarrow> mempool_db \<Rightarrow> signed_tx \<Rightarrow> (error, mempool_db) res" where
  "insert_row c now batch_id db tx_data = res_map (\<lambda>hash.
      db\<lparr>md_mempool_txs := md_mempool_txs db @
          [\<lparr>mt_id = md_next_id db, mt_tx_hash = hash, mt_tx = stored_form (stx_tx tx_data), mt_created_at = now,
            mt_eth_sign_data = stx_eth_sign_data tx_data, mt_batch_id = batch_id\<rparr>],
        md_next_id := md_next_id db + 1\<rparr>)
    (unwrap (tx_hash c (stx_tx tx_data)))"

text \<open>The clock is read at every insertion.\<close>

fun insert_rows ::
  "crypto \<Rightarrow> nat list \<Rightarrow> int \<Rightarrow> mempool_db \<Rightarrow> signed_tx list \<Rightarrow> (error, mempool_db) res" where
  "insert_rows c now batch_id db [] = Ok db"
| "insert_rows c now batch_id db (tx # txs) =
    res_bind (insert_row c (if now = [] then 0 else hd now) batch_id db tx) (\<lambda>db.
      insert_rows c (tl now) batch_id db txs)"

definition last_batch_id :: "mempool_db \<Rightarrow> (error, int) res" where
  "last_batch_id db = (if md_mempool_txs db = [] then Err ''Can't get maximal batch_id from mempool_txs''
    else Ok (Max (mt_batch_id ` set (md_mempool_txs db))))"

definition insert_batch :: "crypto \<Rightarrow> nat list \<Rightarrow> mempool_db \<Rightarrow> signed_tx list \<Rightarrow> (error, int \<times> mempool_db) res" where
  "insert_batch c now db txs = (case txs of
      [] \<Rightarrow> Err ''Cannot insert an empty batch''
    | first_tx_data # others \<Rightarrow>
        res_bind (insert_row c (if now = [] then 0 else hd now) (md_next_batch_id db)
          (db\<lparr>md_next_batch_id := md_next_batch_id db + 1\<rparr>) first_tx_data) (\<lambda>db.
        res_bind (last_batch_id db) (\<lambda>batch_id.
        res_map (Pair batch_id) (insert_rows c (tl now) batch_id db others))))"

definition mempool_insert_tx :: "crypto \<Rightarrow> nat \<Rightarrow> mempool_db \<Rightarrow> signed_tx \<Rightarrow> (error, mempool_db) res" where
  "mempool_insert_tx c now db tx_data = insert_row c now 0 db tx_data"

definition mempool_remove_tx :: "mempool_db \<Rightarrow> h256 \<Rightarrow> mempool_db" where
  "mempool_remove_tx db hash = db\<lparr>md_mempool_txs := filter (\<lambda>r. mt_tx_hash r \<noteq> hash) (md_mempool_txs db)\<rparr>"

definition mempool_remove_txs :: "mempool_db \<Rightarrow> h256 list \<Rightarrow> mempool_db" where
  "mempool_remove_txs db hashes =
    db\<lparr>md_mempool_txs := filter (\<lambda>r. mt_tx_hash r \<notin> set hashes) (md_mempool_txs db)\<rparr>"

text \<open>
  @get_tx_by_hash@ asks the tables of executed transactions, which are not part of this one: the hashes it
  finds are an argument.
\<close>

definition should_remove :: "crypto \<Rightarrow> (h256 \<Rightarrow> bool) \<Rightarrow> signed_tx_variant \<Rightarrow> (error, bool) res" where
  "should_remove c executed v = (case v of
      VariantTx tx \<Rightarrow> res_map executed (unwrap (tx_hash c (stx_tx tx)))
    | VariantBatch txs batch_id \<Rightarrow> (case txs of
        [] \<Rightarrow> Panic
      | tx # rest \<Rightarrow> res_map executed (unwrap (tx_hash c (stx_tx tx)))))"

fun unwrap_all :: "('f, 'a) res list \<Rightarrow> ('e, 'a list) res" where
  "unwrap_all [] = Ok []"
| "unwrap_all (r # rs) = res_bind (unwrap r) (\<lambda>x. res_map ((#) x) (unwrap_all rs))"

fun hashes_to_remove :: "crypto \<Rightarrow> (h256 \<Rightarrow> bool) \<Rightarrow> signed_tx_variant list \<Rightarrow> (error, h256 list) res" where
  "hashes_to_remove c executed [] = Ok []"
| "hashes_to_remove c executed (v # vs) =
    res_bind (should_remove c executed v) (\<lambda>remove.
    res_bind (if remove then unwrap_all (variant_hashes c v) else Ok []) (\<lambda>hs.
    res_map (\<lambda>rest. hs @ rest) (hashes_to_remove c executed vs)))"

definition collect_garbage :: "crypto \<Rightarrow> (h256 \<Rightarrow> bool) \<Rightarrow> mempool_db \<Rightarrow> (error, mempool_db) res" where
  "collect_garbage c executed db = res_map (mempool_remove_txs db) (hashes_to_remove c executed (load_txs db))"

end
