(* ===== verification/Mempool.thy ===== *)
theory Mempool
  imports MempoolStorage StateKeeper EthWatch
begin

text \<open>
  The mempool, @core/bin/zksync_core/src/mempool.rs@, and the block proposer, @block_proposer.rs@, which asks it
  for a block and hands the block to the state keeper.  What the database answers is an argument of each
  request; the watcher of Ethereum is asked through a function.
\<close>

section \<open>The state\<close>

datatype tx_add_error =
    NonceMismatch
  | IncorrectTx
  | TxFeeTooLow
  | TxBatchFeeTooLow
  | EIP1271SignatureVerificationFail
  | MissingEthSignature
  | IncorrectEthSignature
  | ChangePkNotAuthorized
  | TxAddOther
  | DbError
  | EmptyBatch
  | BatchTooBig
  | BatchWithdrawalsOverload

record mempool_state =
  ms_account_nonces :: "(address, nonce) fmap"
  ms_account_ids :: "(account_id, address) fmap"
  ms_ready_txs :: "signed_tx_variant list"

record mempool =
  mp_db :: mempool_db
  mp_mempool_state :: mempool_state
  mp_max_block_size_chunks :: nat
  mp_max_number_of_withdrawals_per_block :: nat

text \<open>The accesses to the database in a request, each of which can fail, and the readings of the clock.\<close>

record mempool_answers =
  ma_access :: "(error, unit) res"
  ma_start :: "(error, unit) res"
  ma_statements :: "(error, unit) res"
  ma_commit :: "(error, unit) res"
  ma_now :: "nat list"

definition proposed_is_empty :: "proposed_block \<Rightarrow> bool" where
  "proposed_is_empty p \<longleftrightarrow> prb_priority_ops p = [] \<and> prb_txs p = []"

fun mempool_chunks_for_tx :: "mempool_state \<Rightarrow> zksync_tx \<Rightarrow> nat" where
  "mempool_chunks_for_tx m (TxTransfer tx) =
    (if fmlookup (ms_account_nonces m) (tr_to tx) \<noteq> None then TRANSFER_CHUNKS else TRANSFER_TO_NEW_CHUNKS)"
| "mempool_chunks_for_tx m tx = tx_min_chunks tx"

definition mempool_chunks_for_batch :: "mempool_state \<Rightarrow> signed_tx list \<Rightarrow> nat" where
  "mempool_chunks_for_batch m txs = (\<Sum>tx\<leftarrow>txs. mempool_chunks_for_tx m (stx_tx tx))"

fun required_chunks :: "mempool_state \<Rightarrow> signed_tx_variant \<Rightarrow> nat" where
  "required_chunks m (VariantTx tx) = mempool_chunks_for_tx m (stx_tx tx)"
| "required_chunks m (VariantBatch txs batch_id) = mempool_chunks_for_batch m txs"

text \<open>The accounts are the committed ones, in the order of the iteration.\<close>

definition restore_from_db ::
  "crypto \<Rightarrow> (h256 \<Rightarrow> bool) \<Rightarrow> (account_id \<times> account) list \<Rightarrow> mempool_db \<Rightarrow> (error, mempool_state \<times> mempool_db) res" where
  "restore_from_db c executed accounts db = res_map (\<lambda>db'.
      (\<lparr>ms_account_nonces = fold (\<lambda>(i, a) m. fmupd (acc_address a) (acc_nonce a) m) accounts fmempty,
        ms_account_ids = fold (\<lambda>(i, a) m. fmupd i (acc_address a) m) accounts fmempty,
        ms_ready_txs = load_txs db'\<rparr>, db'))
    (collect_garbage c executed db)"

definition mempool_nonce :: "mempool_state \<Rightarrow> address \<Rightarrow> nonce" where
  "mempool_nonce m addr = (case fmlookup (ms_account_nonces m) addr of Some n \<Rightarrow> n | None \<Rightarrow> 0)"

definition state_add_tx :: "mempool_state \<Rightarrow> signed_tx \<Rightarrow> (tx_add_error, unit) res \<times> mempool_state" where
  "state_add_tx m tx =
    (if tx_nonce (stx_tx tx) \<ge> mempool_nonce m (tx_account (stx_tx tx))
     then (Ok (), m\<lparr>ms_ready_txs := ms_ready_txs m @ [VariantTx tx]\<rparr>)
     else (Err NonceMismatch, m))"

definition state_add_batch ::
  "mempool_state \<Rightarrow> signed_tx list \<Rightarrow> int \<Rightarrow> (tx_add_error, unit) res \<times> mempool_state" where
  "state_add_batch m txs batch_id =
    (if batch_id = 0 then (Panic, m)
     else if list_ex (\<lambda>tx. tx_nonce (stx_tx tx) < mempool_nonce m (tx_account (stx_tx tx))) txs
       then (Err NonceMismatch, m)
     else (Ok (), m\<lparr>ms_ready_txs := ms_ready_txs m @ [VariantBatch txs (word_of_int batch_id)]\<rparr>))"

section \<open>Requests\<close>

definition db_error :: "(error, 'a) res \<Rightarrow> (tx_add_error, 'a) res" where
  "db_error r = (case r of Ok x \<Rightarrow> Ok x | Err e \<Rightarrow> Err DbError | Panic \<Rightarrow> Panic)"

text \<open>A statement takes effect when the transaction commits.\<close>

definition add_tx :: "crypto \<Rightarrow> mempool_answers \<Rightarrow> mempool \<Rightarrow> signed_tx \<Rightarrow> (tx_add_error, unit) res \<times> mempool" where
  "add_tx c a m tx =
    (case db_error (res_bind (ma_access a) (\<lambda>_. res_bind (ma_start a) (\<lambda>_. res_bind (ma_statements a) (\<lambda>_.
        res_bind (mempool_insert_tx c (if ma_now a = [] then 0 else hd (ma_now a)) (mp_db m) tx) (\<lambda>db.
        res_map (\<lambda>_. db) (ma_commit a)))))) of
       Err e \<Rightarrow> (Err e, m)
     | Panic \<Rightarrow> (Panic, m)
     | Ok db \<Rightarrow> map_prod (\<lambda>r. r) (\<lambda>s. m\<lparr>mp_db := db, mp_mempool_state := s\<rparr>) (state_add_tx (mp_mempool_state m) tx))"

definition add_batch ::
  "crypto \<Rightarrow> mempool_answers \<Rightarrow> mempool \<Rightarrow> signed_tx list \<Rightarrow> (tx_add_error, unit) res \<times> mempool" where
  "add_batch c a m txs =
    (case res_bind (db_error (ma_access a)) (\<lambda>_.
        res_bind (ensure (mempool_chunks_for_batch (mp_mempool_state m) txs \<le> mp_max_block_size_chunks m) BatchTooBig) (\<lambda>_.
        res_bind (ensure (size (filter (\<lambda>tx. is_withdraw (stx_tx tx)) txs) \<le> mp_max_number_of_withdrawals_per_block m)
          BatchWithdrawalsOverload) (\<lambda>_.
        db_error (res_bind (ma_start a) (\<lambda>_. res_bind (ma_statements a) (\<lambda>_.
          res_bind (insert_batch c (ma_now a) (mp_db m) txs) (\<lambda>p. res_map (\<lambda>_. p) (ma_commit a)))))))) of
       Err e \<Rightarrow> (Err e, m)
     | Panic \<Rightarrow> (Panic, m)
     | Ok p \<Rightarrow> map_prod (\<lambda>r. r) (\<lambda>s. m\<lparr>mp_db := snd p, mp_mempool_state := s\<rparr>)
         (state_add_batch (mp_mempool_state m) txs (fst p)))"

definition set_nonce :: "mempool_state \<Rightarrow> account_id \<Rightarrow> nonce \<Rightarrow> mempool_state" where
  "set_nonce m i new_nonce = (case fmlookup (ms_account_ids m) i of
      None \<Rightarrow> m
    | Some addr \<Rightarrow> (case fmlookup (ms_account_nonces m) addr of
        None \<Rightarrow> m
      | Some n \<Rightarrow> m\<lparr>ms_account_nonces := fmupd addr new_nonce (ms_account_nonces m)\<rparr>))"

fun update_nonce :: "account_id \<times> account_update \<Rightarrow> mempool_state \<Rightarrow> mempool_state" where
  "update_nonce (i, Create addr n) m = m\<lparr>ms_account_ids := fmupd i addr (ms_account_ids m),
     ms_account_nonces := fmupd addr n (ms_account_nonces m)\<rparr>"
| "update_nonce (i, Delete addr n) m = m\<lparr>ms_account_ids := fmdrop i (ms_account_ids m),
     ms_account_nonces := fmdrop addr (ms_account_nonces m)\<rparr>"
| "update_nonce (i, UpdateBalance old_nonce new_nonce balance_update) m = set_nonce m i new_nonce"
| "update_nonce (i, ChangePubKeyHash old_pub_key_hash new_pub_key_hash old_nonce new_nonce) m = set_nonce m i new_nonce"

definition update_nonces :: "mempool_state \<Rightarrow> account_updates \<Rightarrow> mempool_state" where
  "update_nonces m updates = fold update_nonce updates m"

text \<open>A @usize@ wraps around in a release build.\<close>

definition usize_sub :: "nat \<Rightarrow> nat \<Rightarrow> nat" where
  "usize_sub a b = (if b \<le> a then a - b else a + 2 ^ 64 - b)"

definition select_priority_ops ::
  "(64 word \<Rightarrow> nat \<Rightarrow> priority_op list) \<Rightarrow> mempool \<Rightarrow> 64 word \<Rightarrow> nat \<times> priority_op list" where
  "select_priority_ops eth_watch m current_unprocessed_priority_op =
    (let priority_ops = eth_watch current_unprocessed_priority_op (mp_max_block_size_chunks m)
     in (usize_sub (mp_max_block_size_chunks m) (\<Sum>op\<leftarrow>priority_ops. prio_chunks (po_data op)), priority_ops))"

fun take_txs :: "mempool_state \<Rightarrow> nat \<Rightarrow> signed_tx_variant list \<Rightarrow> nat \<times> signed_tx_variant list \<times> signed_tx_variant list" where
  "take_txs m chunks_left [] = (chunks_left, [], [])"
| "take_txs m chunks_left (tx # ready_txs) =
    (if chunks_left \<ge> required_chunks m tx then
       let (left, txs_for_commit, rest) = take_txs m (chunks_left - required_chunks m tx) ready_txs
       in (left, tx # txs_for_commit, rest)
     else (chunks_left, [], tx # ready_txs))"

definition prepare_tx_for_block :: "mempool \<Rightarrow> nat \<Rightarrow> (nat \<times> signed_tx_variant list) \<times> mempool" where
  "prepare_tx_for_block m chunks_left =
    (let s = mp_mempool_state m; (left, txs_for_commit, rest) = take_txs s chunks_left (ms_ready_txs s)
     in ((left, txs_for_commit), m\<lparr>mp_mempool_state := s\<lparr>ms_ready_txs := rest\<rparr>\<rparr>))"

definition propose_new_block ::
  "(64 word \<Rightarrow> nat \<Rightarrow> priority_op list) \<Rightarrow> mempool \<Rightarrow> 64 word \<Rightarrow> proposed_block \<times> mempool" where
  "propose_new_block eth_watch m current_unprocessed_priority_op =
    (let (chunks_left, priority_ops) = select_priority_ops eth_watch m current_unprocessed_priority_op;
         ((_, txs), m) = prepare_tx_for_block m chunks_left
     in (\<lparr>prb_priority_ops = priority_ops, prb_txs = txs\<rparr>, m))"

datatype mempool_request =
    NewTx signed_tx
  | NewTxsBatch "signed_tx list"
  | UpdateNonces account_updates
  | GetBlock "64 word"

datatype mempool_reply = ReplyAdded "(tx_add_error, unit) res" | ReplyBlock proposed_block | NoMempoolReply

fun handle_mempool_request ::
  "crypto \<Rightarrow> mempool_answers \<Rightarrow> (64 word \<Rightarrow> nat \<Rightarrow> priority_op list) \<Rightarrow> mempool \<Rightarrow> mempool_request
    \<Rightarrow> mempool_reply \<times> mempool" where
  "handle_mempool_request c a eth_watch m (NewTx tx) = map_prod ReplyAdded (\<lambda>m. m) (add_tx c a m tx)"
| "handle_mempool_request c a eth_watch m (NewTxsBatch txs) = map_prod ReplyAdded (\<lambda>m. m) (add_batch c a m txs)"
| "handle_mempool_request c a eth_watch m (GetBlock last_priority_op_number) =
     map_prod ReplyBlock (\<lambda>m. m) (propose_new_block eth_watch m last_priority_op_number)"
| "handle_mempool_request c a eth_watch m (UpdateNonces updates) =
     (NoMempoolReply, m\<lparr>mp_mempool_state := update_nonces (mp_mempool_state m) updates\<rparr>)"

text \<open>The largest block size; @None@ of @max@ panics.\<close>

definition mempool_new :: "mempool_state \<Rightarrow> mempool_db \<Rightarrow> nat list \<Rightarrow> nat \<Rightarrow> (error, mempool) res" where
  "mempool_new s db available_block_chunk_sizes max_number_of_withdrawals_per_block =
    (if available_block_chunk_sizes = [] then Panic
     else Ok \<lparr>mp_db = db, mp_mempool_state = s, mp_max_block_size_chunks = Max (set available_block_chunk_sizes),
       mp_max_number_of_withdrawals_per_block = max_number_of_withdrawals_per_block\<rparr>)"

section \<open>The block proposer\<close>

record block_proposer =
  bp_current_priority_op_number :: "64 word"

text \<open>The proposer waits for the mempool; the state keeper gets the block in its queue.\<close>

definition commit_new_tx_mini_batch ::
  "(64 word \<Rightarrow> nat \<Rightarrow> priority_op list) \<Rightarrow> mempool \<Rightarrow> block_proposer \<Rightarrow> proposed_block \<times> mempool \<times> block_proposer" where
  "commit_new_tx_mini_batch eth_watch m p =
    (let (proposed_block, m) = propose_new_block eth_watch m (bp_current_priority_op_number p)
     in (proposed_block, m, p\<lparr>bp_current_priority_op_number :=
          bp_current_priority_op_number p + of_nat (size (prb_priority_ops proposed_block))\<rparr>))"

end
