(* ===== verification/MempoolProps.thy ===== *)
theory MempoolProps
  imports Mempool EthWatchProps KeeperLoop
begin

text \<open>
  What the mempool proposes and how the parts that handle priority operations agree.  A source of priority
  operations is an interface, with the watcher of Ethereum as its instance; the block that the
  mempool makes from it, the number that the block proposer keeps and the one that the state
  keeper keeps rest on its contract.
\<close>

section \<open>A source of priority operations\<close>

locale priority_source =
  fixes sound :: "'w \<Rightarrow> bool" and request :: "'w \<Rightarrow> 64 word \<Rightarrow> nat \<Rightarrow> priority_op list"
  assumes fits: "(\<Sum>op\<leftarrow>request w start limit. prio_chunks (po_data op)) \<le> limit"
    and numbered: "sound w \<Longrightarrow> i < size (request w start limit) \<Longrightarrow> po_serial_id (request w start limit ! i) = start + of_nat i"
begin

lemma fits_each: "op \<in> set (request w start limit) \<Longrightarrow> prio_chunks (po_data op) \<le> limit"
  using fits [of w start limit] member_le_sum_list [of "prio_chunks (po_data op)" "map (prio_chunks \<circ> po_data) (request w start limit)"]
  by (force simp: comp_def)

lemma few: "size (request w start limit) \<le> limit"
proof -
  have "size xs \<le> (\<Sum>op\<leftarrow>xs. prio_chunks (po_data op))" for xs :: "priority_op list"
  proof (induction xs)
    case (Cons op xs)
    then show ?case using prio_chunks_pos [of "po_data op"] by simp
  qed simp
  with fits show ?thesis using le_trans by blast
qed

lemma numbered_from: "sound w \<Longrightarrow> op \<in> set (request w start limit) \<Longrightarrow> \<exists>i. po_serial_id op = start + of_nat i"
  using numbered by (metis in_set_conv_nth)

end

text \<open>Every operation of the watcher is under its own number.\<close>

definition watch_keyed :: "eth_watch \<Rightarrow> bool" where
  "watch_keyed w \<longleftrightarrow> (\<forall>i r. fmlookup (ews_priority_queue (ew_eth_state w)) i = Some r \<longrightarrow> po_serial_id (rp_op r) = i)"

interpretation eth_source: priority_source watch_keyed get_priority_requests
proof unfold_locales
  show "(\<Sum>op\<leftarrow>get_priority_requests w start limit. prio_chunks (po_data op)) \<le> limit" for w start limit
    using priority_requests_chunks [of 0 limit] by (simp add: get_priority_requests_def)
next
  fix w :: eth_watch and i limit start
  assume "watch_keyed w" "i < size (get_priority_requests w start limit)"
  then show "po_serial_id (get_priority_requests w start limit ! i) = start + of_nat i"
    using priority_requests_nth [of i _ limit 0 start] unfolding get_priority_requests_def watch_keyed_def by metis
qed

lemma watch_within_keyed: "queue_within l chain B (ews_priority_queue (ew_eth_state w)) \<Longrightarrow> watch_keyed w"
  by (simp add: queue_within_def watch_keyed_def)

section \<open>A proposed block\<close>

lemma take_txs_spec:
  "take_txs m n txs = (left, taken, rest) \<Longrightarrow>
    txs = taken @ rest \<and> (\<Sum>v\<leftarrow>taken. required_chunks m v) + left = n \<and> (rest = [] \<or> left < required_chunks m (hd rest))"
proof (induction txs arbitrary: n left taken rest)
  case (Cons v txs)
  then show ?case
    by (cases "take_txs m (n - required_chunks m v) txs") (fastforce split: if_splits)
qed auto

lemma propose_new_block_eq:
  assumes "propose_new_block eth_watch m start = (p, m')"
    and "(\<Sum>op\<leftarrow>eth_watch start (mp_max_block_size_chunks m). prio_chunks (po_data op)) \<le> mp_max_block_size_chunks m"
  shows "prb_priority_ops p = eth_watch start (mp_max_block_size_chunks m) \<and>
    (\<exists>left rest. take_txs (mp_mempool_state m)
        (mp_max_block_size_chunks m - (\<Sum>op\<leftarrow>prb_priority_ops p. prio_chunks (po_data op)))
        (ms_ready_txs (mp_mempool_state m)) = (left, prb_txs p, rest) \<and>
      m' = m\<lparr>mp_mempool_state := (mp_mempool_state m)\<lparr>ms_ready_txs := rest\<rparr>\<rparr>)"
  using assms
  by (auto simp: propose_new_block_def select_priority_ops_def prepare_tx_for_block_def usize_sub_def Let_def split: prod.splits)

section \<open>The keeper's number\<close>

lemma run_queue_invariant:
  assumes "run_queue step k q = Some r" "r = Ok k'" "I k q"
    and "\<And>k x rest b k1. I k (x # rest) \<Longrightarrow> step k x = Ok (b, k1) \<Longrightarrow> I k1 (if b then rest else x # rest)"
  shows "I k' []"
proof -
  have "st = step \<longrightarrow> I k q \<longrightarrow> (\<forall>k'. r = Ok k' \<longrightarrow> I k' [])" if "run_queue st k q = Some r" for st k q r
  proof (rule run_queue.raw_induct [of "\<lambda>st k q r. st = step \<longrightarrow> I k q \<longrightarrow> (\<forall>k'. r = Ok k' \<longrightarrow> I k' [])", OF _ that])
    fix rq st k q r
    assume IH: "\<And>st k q r. rq st k q = Some r \<Longrightarrow> st = step \<longrightarrow> I k q \<longrightarrow> (\<forall>k'. r = Ok k' \<longrightarrow> I k' [])"
      and body: "(case q of [] \<Rightarrow> Some (Ok k) | x # rest \<Rightarrow>
          (case st k x of Ok r \<Rightarrow> rq st (snd r) (if fst r then rest else x # rest)
            | Err e \<Rightarrow> Some (Err e) | Panic \<Rightarrow> Some Panic)) = Some r"
    show "st = step \<longrightarrow> I k q \<longrightarrow> (\<forall>k'. r = Ok k' \<longrightarrow> I k' [])"
    proof (intro impI allI)
      fix k' assume st: "st = step" "I k q" "r = Ok k'"
      show "I k' []"
      proof (cases q)
        case Nil
        with body st show ?thesis by simp
      next
        case (Cons x rest)
        with body st(1,3) obtain b k1 where k1: "step k x = Ok (b, k1)" "rq st k1 (if b then rest else x # rest) = Some (Ok k')"
          by (auto split: res.splits)
        with assms(4) [OF st(2) [unfolded Cons] k1(1)] IH st show ?thesis by blast
      qed
    qed
  qed
  with assms(1-3) show ?thesis by blast
qed

abbreviation next_op :: "state_keeper \<Rightarrow> 64 word" where
  "next_op k \<equiv> sk_current_unprocessed_priority_op k"

lemma seal_next_op: "seal_pending_block root k = Ok k' \<Longrightarrow> next_op k' = next_op k"
  by (auto simp: seal_pending_block_def Let_def ok_iffs split: prod.splits if_splits)

lemma store_next_op: "store_pending_block k = Ok k' \<Longrightarrow> next_op k' = next_op k"
  by (auto simp: store_pending_block_def Let_def ok_iffs split: prod.splits if_splits)

lemma apply_priority_op_next:
  assumes "(apply_priority_op k op :: (error, _) res) = Ok (r, k')"
  shows "next_op k' = next_op k + (if r = None then 0 else 1)"
proof (cases "unat (pb_chunks_left (sk_pending_block k)) < prio_chunks (po_data op)")
  case True
  with assms show ?thesis by (simp add: apply_priority_op_def)
next
  case False
  with assms obtain z where "(priority_op_to_zksync_op (sk_state k) (po_data op) :: (error, _) res) = Ok z"
    by (cases "priority_op_to_zksync_op (sk_state k) (po_data op) :: (error, zksync_op) res") (simp_all add: apply_priority_op_def)
  with assms False show ?thesis
    by (cases "add_op (pb_gas_counter (sk_pending_block k)) z") (auto simp: apply_priority_op_def ok_iffs Let_def)
qed

lemma apply_tx_next:
  assumes "apply_tx c k tx = Ok (r, k')"
  shows "next_op k' = next_op k"
proof -
  obtain n where "(chunks_for_tx (sk_state k) (stx_tx tx) :: (error, nat) res) = Ok n"
    using assms by (cases "chunks_for_tx (sk_state k) (stx_tx tx) :: (error, nat) res") (simp_all add: apply_tx_def)
  then show ?thesis
    using assms
    by (cases "add_tx_gas c (sk_state k) (pb_gas_counter (sk_pending_block k)) (stx_tx tx)";
        cases "execute_tx c (sk_state k) (stx_tx tx)") (auto simp: apply_tx_def Let_def split: if_splits)
qed

lemma apply_batch_next: "apply_batch c k txs batch_id = Ok (r, k') \<Longrightarrow> next_op k' = next_op k"
  by (auto simp: apply_batch_def Let_def ok_iffs split: prod.splits if_splits)

lemma priority_op_turn_next:
  "priority_op_turn root k op = Ok (b, k') \<Longrightarrow> next_op k' = next_op k + (if b then 1 else 0)"
  by (auto simp: priority_op_turn_def seal_if_full_def ok_iffs dest!: apply_priority_op_next seal_next_op split: option.splits)

lemma tx_turn_next: "tx_turn root c k v = Ok (b, k') \<Longrightarrow> next_op k' = next_op k"
  by (auto simp: tx_turn_def seal_if_full_def ok_iffs dest!: apply_tx_next apply_batch_next seal_next_op
      split: option.splits signed_tx_variant.splits)

lemma run_priority_ops_next:
  assumes "run_priority_ops root k ops = Some (Ok k')"
  shows "next_op k' = next_op k + of_nat (size ops)"
  using run_queue_invariant [of "priority_op_turn root" k ops "Ok k'" k' "\<lambda>k' q. next_op k' + of_nat (size q) = next_op k + of_nat (size ops)"]
    assms priority_op_turn_next [of root] unfolding run_priority_ops_def
  by (fastforce simp: algebra_simps)

lemma run_txs_next:
  assumes "run_txs root c k txs = Some (Ok k')"
  shows "next_op k' = next_op k"
  using run_queue_invariant [of "tx_turn root c" k txs "Ok k'" k' "\<lambda>k' q. next_op k' = next_op k"]
    assms tx_turn_next [of root c] unfolding run_txs_def by fastforce

lemma execute_proposed_block_next:
  assumes "execute_proposed_block root c k p = Some (Ok k')"
  shows "next_op k' = next_op k + of_nat (size (prb_priority_ops p))"
proof -
  obtain k1 k2 where k: "run_priority_ops root k (prb_priority_ops p) = Some (Ok k1)" "run_txs root c k1 (prb_txs p) = Some (Ok k2)"
    "finish_iteration root k2 = Ok k'"
    using assms by (auto simp: execute_proposed_block_def split: option.splits res.splits)
  moreover have "next_op k' = next_op k2"
    using k(3) by (auto simp: finish_iteration_def Let_def dest!: seal_next_op store_next_op split: if_splits)
  ultimately show ?thesis
    using run_priority_ops_next [OF k(1)] run_txs_next [OF k(2)] by simp
qed

section \<open>The whole path\<close>

text \<open>C26: A proposed block fits the largest block; the transactions are taken from the head of the queue, in their
  order, and as many of them as fit.\<close>

theorem proposed_block_fits:
  assumes "propose_new_block (get_priority_requests w) m start = (p, m')"
  shows "(\<Sum>op\<leftarrow>prb_priority_ops p. prio_chunks (po_data op)) + (\<Sum>v\<leftarrow>prb_txs p. required_chunks (mp_mempool_state m) v)
      \<le> mp_max_block_size_chunks m \<and>
    ms_ready_txs (mp_mempool_state m) = prb_txs p @ ms_ready_txs (mp_mempool_state m') \<and>
    (ms_ready_txs (mp_mempool_state m') = [] \<or>
     mp_max_block_size_chunks m < (\<Sum>op\<leftarrow>prb_priority_ops p. prio_chunks (po_data op)) +
       (\<Sum>v\<leftarrow>prb_txs p. required_chunks (mp_mempool_state m) v) +
       required_chunks (mp_mempool_state m) (hd (ms_ready_txs (mp_mempool_state m'))))"
proof -
  have fits: "(\<Sum>op\<leftarrow>get_priority_requests w start (mp_max_block_size_chunks m). prio_chunks (po_data op))
      \<le> mp_max_block_size_chunks m"
    by (rule eth_source.fits)
  from propose_new_block_eq [OF assms this] obtain left rest where
    ops: "prb_priority_ops p = get_priority_requests w start (mp_max_block_size_chunks m)" and
    taken: "take_txs (mp_mempool_state m) (mp_max_block_size_chunks m - (\<Sum>op\<leftarrow>prb_priority_ops p. prio_chunks (po_data op)))
        (ms_ready_txs (mp_mempool_state m)) = (left, prb_txs p, rest)" and
    m': "ms_ready_txs (mp_mempool_state m') = rest"
    by auto
  from take_txs_spec [OF taken] fits show ?thesis by (auto simp: ops m')
qed

lemma watch_run_keyed:
  assumes "eth_watch_start l a c started = Ok w0" "honest chain c t0 t1 a" "wa_block_number a = Ok started"
    and "watch_run l chain t0 t1 w0 w"
  shows "watch_keyed w"
  using watch_run_inv [OF assms(4) watch_start_inv [OF assms(1-3)]] watch_within_keyed by (auto simp: watch_inv_def)

definition tokens_ok :: "eth_watch \<Rightarrow> bool" where
  "tokens_ok w \<longleftrightarrow> (\<forall>r \<in> fmran' (ews_priority_queue (ew_eth_state w)). prio_token_ok (rp_op r))"

lemma requested_in_queue:
  assumes "op \<in> set (get_priority_requests w start limit)"
  shows "\<exists>r \<in> fmran' (ews_priority_queue (ew_eth_state w)). op = rp_op r"
  using assms priority_requests_nth [of _ _ limit 0 start] unfolding get_priority_requests_def
  by (metis fmran'I in_set_conv_nth)

text \<open>C27: In an iteration of the block proposer, the priority operations that the mempool takes over from what the watcher
  accepted are numbered on from the keeper's number, and when the state keeper has executed the proposed block, proposer and
  keeper agree on the number of the next one.  If only single transactions are ready, no batches, and the message of each can
  be encoded and its signature does not give the zero key hash, the execution does end, and the keeper is sound after it.  Batches
  are left out since a batch is charged all its chunks for each of its transactions, so that after a batch of two withdrawals
  the number of chunks that are left can wrap around.  The watcher was started and polled with an honest node and accepted only
  known tokens; the keeper is sound before, its largest block holds what the mempool proposes, and there are
  enough free account ids.\<close>

theorem mini_batch_in_step:
  assumes "eth_watch_start l a conf started = Ok w0" "honest chain conf t0 t1 a" "wa_block_number a = Ok started"
    and "watch_run l chain t0 t1 w0 w" "tokens_ok w"
    and "keeper_inv V k" "chunks_ok k" "6 \<le> last (sk_available_block_chunk_sizes k)"
      "ucast (sk_max_number_of_withdrawals_per_block k) \<noteq> (0 :: 32 word)"
      "mp_max_block_size_chunks m \<le> last (sk_available_block_chunk_sizes k)"
      "account_count (sk_state k) + mp_max_block_size_chunks m + size (ms_ready_txs (mp_mempool_state m)) \<le> 2 ^ 32"
    and "bp_current_priority_op_number bp = sk_current_unprocessed_priority_op k"
    and "commit_new_tx_mini_batch (get_priority_requests w) m bp = (p, m', bp')"
  shows "(\<forall>i < size (prb_priority_ops p).
      po_serial_id (prb_priority_ops p ! i) = sk_current_unprocessed_priority_op k + of_nat i) \<and>
    (\<forall>k'. execute_proposed_block root c k p = Some (Ok k') \<longrightarrow>
      sk_current_unprocessed_priority_op k' = bp_current_priority_op_number bp') \<and>
    ((\<forall>v \<in> set (ms_ready_txs (mp_mempool_state m)). \<exists>tx. v = VariantTx tx \<and> tx_fine c tx) \<longrightarrow>
      (\<exists>V' k'. execute_proposed_block root c k p = Some (Ok k') \<and> keeper_inv V' k' \<and> chunks_ok k'))"
proof -
  let ?start = "bp_current_priority_op_number bp" and ?max = "mp_max_block_size_chunks m"
  have p: "propose_new_block (get_priority_requests w) m ?start = (p, m')"
    and bp': "bp_current_priority_op_number bp' = ?start + of_nat (size (prb_priority_ops p))"
    using assms(13) by (auto simp: commit_new_tx_mini_batch_def split: prod.splits)
  from propose_new_block_eq [OF p eth_source.fits] have
    ops: "prb_priority_ops p = get_priority_requests w ?start ?max" and
    txs: "set (prb_txs p) \<subseteq> set (ms_ready_txs (mp_mempool_state m))" "size (prb_txs p) \<le> size (ms_ready_txs (mp_mempool_state m))"
    using take_txs_spec by fastforce+
  have each: "prio_token_ok op \<and> prio_chunks (po_data op) \<le> last (sk_available_block_chunk_sizes k)"
    if "op \<in> set (prb_priority_ops p)" for op
    using that requested_in_queue [of op w ?start ?max] eth_source.fits_each [of op w ?start ?max] assms(5,10)
    by (auto simp: ops tokens_ok_def)
  have "size (prb_priority_ops p) \<le> ?max"
    using eth_source.few [of w ?start ?max] by (simp add: ops)
  then have "\<exists>V' k'. execute_proposed_block root c k p = Some (Ok k') \<and> keeper_inv V' k' \<and> chunks_ok k'"
    if "\<forall>v \<in> set (ms_ready_txs (mp_mempool_state m)). \<exists>tx. v = VariantTx tx \<and> tx_fine c tx"
    using proposed_block_runs [OF assms(6-9), where p = p and c = c and root = root] each txs assms(11) that by fastforce
  moreover have "sk_current_unprocessed_priority_op k' = bp_current_priority_op_number bp'"
    if "execute_proposed_block root c k p = Some (Ok k')" for k'
    using execute_proposed_block_next [OF that] bp' assms(12) by simp
  ultimately show ?thesis
    using eth_source.numbered [OF watch_run_keyed [OF assms(1-4)], of _ ?start ?max] assms(12) by (auto simp: ops)
qed

section \<open>A proposed block\<close>

abbreviation polled_watch :: eth_watch where
  "polled_watch \<equiv> sample_watch 11 [(2, received_from 0 (sample_op 9)), (0, received_from 0 (sample_op 3))]"

definition sample_mempool :: mempool where
  "sample_mempool = \<lparr>mp_db = \<lparr>md_mempool_txs = [], md_next_id = 1, md_next_batch_id = 1\<rparr>,
    mp_mempool_state = \<lparr>ms_account_nonces = fmempty, ms_account_ids = fmempty,
      ms_ready_txs = [VariantTx sample_signed, VariantTx sample_signed]\<rparr>,
    mp_max_block_size_chunks = 12, mp_max_number_of_withdrawals_per_block = 10\<rparr>"

definition sample_proposal :: proposed_block where
  "sample_proposal = \<lparr>prb_priority_ops = [sample_op 3], prb_txs = [VariantTx sample_signed]\<rparr>"

definition sample_mempool_after :: mempool where
  "sample_mempool_after = sample_mempool\<lparr>mp_mempool_state := (mp_mempool_state sample_mempool)\<lparr>ms_ready_txs := [VariantTx sample_signed]\<rparr>\<rparr>"

lemma sample_requests: "get_priority_requests polled_watch 0 12 = [sample_op 3]"
  by (simp add: get_priority_requests_def priority_requests_loop.simps [of _ _ _ 0] priority_requests_loop.simps [of _ _ _ 1]
      sample_watch_def eth_watch_new_def eth_state_new_def received_from_def sample_op_def DEPOSIT_CHUNKS_def)

lemma sample_chunks: "prio_chunks (po_data (sample_op b)) = 6" "required_chunks s (VariantTx sample_signed) = 6"
  by (simp_all add: sample_op_def sample_signed_def sample_tx_def op_consts)

lemma sample_proposed_block: "propose_new_block (get_priority_requests polled_watch) sample_mempool 0 = (sample_proposal, sample_mempool_after)"
  by (simp add: propose_new_block_def select_priority_ops_def prepare_tx_for_block_def sample_mempool_def sample_requests
      usize_sub_def sample_proposal_def sample_mempool_after_def sample_chunks del: required_chunks.simps)

text \<open>The deposit and the first of two withdrawals fill the block of twelve chunks.\<close>

theorem proposed_block_fits_witness:
  "(\<Sum>op\<leftarrow>prb_priority_ops sample_proposal. prio_chunks (po_data op)) +
      (\<Sum>v\<leftarrow>prb_txs sample_proposal. required_chunks (mp_mempool_state sample_mempool) v) \<le> 12"
  using proposed_block_fits [OF sample_proposed_block, THEN conjunct1] by (simp add: sample_mempool_def)

theorem mini_batch_in_step_witness:
  "\<exists>V' k'. execute_proposed_block (\<lambda>s. 7) sample_crypto sample_keeper sample_proposal = Some (Ok k') \<and> keeper_inv V' k' \<and>
    sk_current_unprocessed_priority_op k' = 1"
proof -
  have "commit_new_tx_mini_batch (get_priority_requests polled_watch) sample_mempool \<lparr>bp_current_priority_op_number = 0\<rparr> =
      (sample_proposal, sample_mempool_after, \<lparr>bp_current_priority_op_number = 1\<rparr>)"
    by (simp add: commit_new_tx_mini_batch_def sample_proposed_block) (simp add: sample_proposal_def)
  moreover have "tokens_ok polled_watch"
    by (auto simp: tokens_ok_def sample_watch_def eth_watch_new_def eth_state_new_def received_from_def sample_op_def
        prio_token_ok_def fmran'_def split: if_splits)
  moreover have "\<forall>v \<in> set (ms_ready_txs (mp_mempool_state sample_mempool)). \<exists>tx. v = VariantTx tx \<and> tx_fine sample_crypto tx"
    using sample_tx_bytes by (auto simp: sample_mempool_def tx_fine_def sample_signed_def sample_tx_def)
  moreover have "account_count (sk_state sample_keeper) + mp_max_block_size_chunks sample_mempool +
      size (ms_ready_txs (mp_mempool_state sample_mempool)) \<le> 2 ^ 32"
    by (simp add: sample_keeper_state sample_state_ok sample_mempool_def)
  ultimately show ?thesis
    using mini_batch_in_step [OF sample_start sample_honest sample_quiet(5) sample_run _ sample_keeper_ok, of sample_mempool
        "\<lparr>bp_current_priority_op_number = 0\<rparr>" sample_proposal sample_mempool_after
        "\<lparr>bp_current_priority_op_number = 1\<rparr>" "\<lambda>s. 7" sample_crypto]
    by (auto simp: sample_keeper_def sample_mempool_def)
qed

end
