(* ===== verification/MempoolPersist.thy ===== *)
theory MempoolPersist
  imports Mempool "HOL-Library.Multiset"
begin

text \<open>
  What a restart finds of the mempool: the table gives back every transaction and every batch that was
  ready, possibly in another order, less what the removal of executed transactions takes with it.
\<close>

section \<open>Groups\<close>

lemma group_by_Nil [simp]: "group_by key xs = [] \<longleftrightarrow> xs = []"
  by (cases xs) (auto split: list.split)

lemma group_by_hd: "group_by key (x # xs) = (k, ys) # gs \<Longrightarrow> k = key x"
  by (auto split: list.splits if_splits)

lemma group_by_same:
  "xs \<noteq> [] \<Longrightarrow> \<forall>x \<in> set xs. key x = k \<Longrightarrow> group_by key xs = [(k, xs)]"
  by (induction xs rule: list_nonempty_induct) auto

lemma group_by_append:
  "xs \<noteq> [] \<Longrightarrow> ys \<noteq> [] \<Longrightarrow> key (last xs) \<noteq> key (hd ys) \<Longrightarrow> group_by key (xs @ ys) = group_by key xs @ group_by key ys"
proof (induction xs rule: list_nonempty_induct)
  case (single x)
  then obtain y ys' where ys: "ys = y # ys'" by (cases ys) auto
  obtain k zs gs where "group_by key (y # ys') = (k, zs) # gs"
    by (metis group_by_Nil list.exhaust neq_Nil_conv surj_pair)
  with single ys group_by_hd [of key y ys'] show ?case by (auto split: if_splits)
next
  case (cons x xs)
  then have "group_by key (xs @ ys) = group_by key xs @ group_by key ys" "group_by key xs \<noteq> []" by auto
  then show ?case by (cases "group_by key xs") auto
qed

abbreviation batch_key :: "mempool_tx \<Rightarrow> int option" where
  "batch_key r \<equiv> batch_id_optional (mt_batch_id r)"

definition variants_of :: "mempool_tx list \<Rightarrow> signed_tx_variant list" where
  "variants_of rows = concat (map group_variants (group_by batch_key rows))"

lemma variants_of_Nil [simp]: "variants_of [] = []"
  by (simp add: variants_of_def)

lemma variants_of_append:
  "xs = [] \<or> ys = [] \<or> batch_key (last xs) \<noteq> batch_key (hd ys) \<Longrightarrow> variants_of (xs @ ys) = variants_of xs @ variants_of ys"
  by (cases "xs = [] \<or> ys = []") (auto simp: variants_of_def group_by_append)

lemma variants_of_batch:
  "rows \<noteq> [] \<Longrightarrow> \<forall>r \<in> set rows. batch_key r = Some b \<Longrightarrow>
    variants_of rows = [VariantBatch (map deserialized rows) (word_of_int b)]"
  unfolding variants_of_def by (subst group_by_same [where k = "Some b"]) simp_all

lemma variants_of_singles: "\<forall>r \<in> set rows. batch_key r = None \<Longrightarrow> variants_of rows = map (\<lambda>r. VariantTx (deserialized r)) rows"
  by (cases "rows = []", simp, unfold variants_of_def, subst group_by_same [where k = None]) simp_all

lemma variants_of_snoc:
  assumes "batch_key r = None"
  shows "variants_of (rows @ [r]) = variants_of rows @ [VariantTx (deserialized r)]"
proof -
  let ?single = "\<lambda>r. batch_key r = None"
  define ys where "ys = rev (takeWhile ?single (rev rows))"
  define xs where "xs = rev (dropWhile ?single (rev rows))"
  have rows: "rows = xs @ ys" unfolding xs_def ys_def by (simp flip: rev_append)
  have ys: "\<forall>r \<in> set ys. batch_key r = None" unfolding ys_def by (auto dest: set_takeWhileD)
  have "xs = [] \<or> batch_key (last xs) \<noteq> None"
    unfolding xs_def using hd_dropWhile [of ?single "rev rows"] by (metis last_rev rev_is_Nil_conv)
  then have "variants_of (xs @ zs) = variants_of xs @ variants_of zs" if "\<forall>r \<in> set zs. batch_key r = None" for zs
    using that by (intro variants_of_append) (cases zs; auto)
  with ys assms show ?thesis by (simp add: rows variants_of_singles)
qed

lemma variants_of_Cons:
  "batch_key r = None \<Longrightarrow> variants_of (r # rows) = VariantTx (deserialized r) # variants_of rows"
  by (auto simp: variants_of_def split: list.split)

section \<open>Blocks of rows\<close>

text \<open>A single transaction is a block of one row, a batch a block of rows with its id; no two batches have the same id.\<close>

definition row_block :: "mempool_tx list \<Rightarrow> bool" where
  "row_block bl \<longleftrightarrow> (\<exists>r. bl = [r] \<and> batch_key r = None) \<or> (bl \<noteq> [] \<and> (\<exists>b. \<forall>r \<in> set bl. batch_key r = Some b))"

abbreviation apart :: "mempool_tx list \<Rightarrow> mempool_tx list \<Rightarrow> bool" where
  "apart x y \<equiv> batch_key (hd x) = None \<or> batch_key (hd x) \<noteq> batch_key (hd y)"

definition blocks :: "mempool_tx list list \<Rightarrow> bool" where
  "blocks bls \<longleftrightarrow> (\<forall>bl \<in> set bls. row_block bl) \<and> sorted_wrt apart bls"

definition block_variant :: "mempool_tx list \<Rightarrow> signed_tx_variant" where
  "block_variant bl = (case batch_key (hd bl) of None \<Rightarrow> VariantTx (deserialized (hd bl))
    | Some b \<Rightarrow> VariantBatch (map deserialized bl) (word_of_int b))"

lemma row_block_cases:
  assumes "row_block bl"
  obtains (single) r where "bl = [r]" "batch_key r = None"
    | (batch) b where "bl \<noteq> []" "\<forall>r \<in> set bl. batch_key r = Some b" "batch_key (hd bl) = Some b"
  using assms unfolding row_block_def by (metis hd_in_set)

lemma row_block_not_Nil [simp]: "row_block bl \<Longrightarrow> bl \<noteq> []"
  by (auto simp: row_block_def)

lemma row_block_single: "batch_key r = None \<Longrightarrow> row_block [r]"
  by (simp add: row_block_def)

lemma row_block_batch: "bl \<noteq> [] \<Longrightarrow> \<forall>r \<in> set bl. batch_key r = Some b \<Longrightarrow> row_block bl"
  unfolding row_block_def by blast

lemma blocks_Nil [simp]: "blocks []"
  by (simp add: blocks_def)

lemma blocks_Cons: "blocks (bl # bls) \<longleftrightarrow> row_block bl \<and> (\<forall>x \<in> set bls. apart bl x) \<and> blocks bls"
  by (auto simp: blocks_def)

lemma blocks_snoc:
  assumes "blocks bls" "row_block bl" "batch_key (hd bl) = None \<or> (\<forall>r \<in> set (concat bls). batch_key r \<noteq> batch_key (hd bl))"
  shows "blocks (bls @ [bl])"
proof -
  have "hd x \<in> set (concat bls)" if "x \<in> set bls" for x
    using that assms(1) by (auto simp: blocks_def intro!: bexI [of _ x])
  with assms show ?thesis by (auto simp: blocks_def sorted_wrt_append)
qed

lemma variants_of_blocks: "blocks bls \<Longrightarrow> variants_of (concat bls) = map block_variant bls"
proof (induction bls)
  case (Cons bl bls)
  then have bl: "row_block bl" and rest: "variants_of (concat bls) = map block_variant bls" "\<forall>x \<in> set bls. row_block x \<and> apart bl x"
    by (auto simp: blocks_Cons) (auto simp: blocks_def)
  from bl show ?case
  proof (cases rule: row_block_cases)
    case (single r)
    with rest(1) show ?thesis by (simp add: variants_of_Cons block_variant_def)
  next
    case (batch b)
    have "concat bls = [] \<or> batch_key (hd (concat bls)) \<noteq> Some b"
      using rest(2) batch(3) by (cases bls) (auto simp: hd_append)
    moreover have "batch_key (last bl) = Some b" using batch(1,2) by simp
    ultimately have "variants_of (bl @ concat bls) = variants_of bl @ variants_of (concat bls)"
      by (intro variants_of_append) auto
    moreover have "variants_of bl = [block_variant bl]"
      using batch by (subst variants_of_batch [where b = b]) (simp_all add: block_variant_def)
    ultimately show ?thesis by (simp add: rest(1))
  qed
qed simp

abbreviation filter_blocks :: "(mempool_tx \<Rightarrow> bool) \<Rightarrow> mempool_tx list list \<Rightarrow> mempool_tx list list" where
  "filter_blocks P bls \<equiv> filter (\<lambda>bl. bl \<noteq> []) (map (filter P) bls)"

lemma concat_filter_blocks: "concat (filter_blocks P bls) = filter P (concat bls)"
  by (induction bls) auto

lemma row_block_filter:
  assumes "row_block bl" "filter P bl \<noteq> []"
  shows "row_block (filter P bl) \<and> batch_key (hd (filter P bl)) = batch_key (hd bl)"
  using assms(1)
proof (cases rule: row_block_cases)
  case (single r)
  with assms show ?thesis by (auto split: if_splits)
next
  case (batch b)
  have "hd (filter P bl) \<in> set bl" using assms(2) by (metis filter_is_subset hd_in_set subsetD)
  then have "batch_key (hd (filter P bl)) = Some b" using batch(2) by blast
  with batch assms(2) show ?thesis by (auto intro: row_block_batch)
qed

lemma blocks_filter: "blocks bls \<Longrightarrow> blocks (filter_blocks P bls)"
proof (induction bls)
  case (Cons bl bls)
  then have IH: "blocks (filter_blocks P bls)" and bl: "row_block bl" "\<forall>x \<in> set bls. row_block x \<and> apart bl x"
    by (auto simp: blocks_Cons) (auto simp: blocks_def)
  show ?case
  proof (cases "filter P bl = []")
    case False
    note first = row_block_filter [OF bl(1) False]
    have "apart (filter P bl) (filter P x)" if "x \<in> set bls" "filter P x \<noteq> []" for x
      using bl(2) that first row_block_filter [of x P] by metis
    then have "\<forall>x \<in> set (filter_blocks P bls). apart (filter P bl) x" by (simp only: set_filter set_map) blast
    with IH first False show ?thesis by (simp add: blocks_Cons)
  qed (use IH in simp)
qed simp

section \<open>Insertion\<close>

text \<open>A row keeps what @serde_json@ writes of its transaction, with the hash of it.\<close>

definition row_fine :: "crypto \<Rightarrow> mempool_tx \<Rightarrow> bool" where
  "row_fine c r \<longleftrightarrow> stored_form (mt_tx r) = mt_tx r \<and> tx_hash c (mt_tx r) = Ok (mt_tx_hash r)"

text \<open>The rows are in the order of their times and in blocks, and the ids of batches come from the sequence.\<close>

definition db_fine :: "crypto \<Rightarrow> mempool_db \<Rightarrow> bool" where
  "db_fine c db \<longleftrightarrow> sorted (map mt_created_at (md_mempool_txs db)) \<and> (\<forall>r \<in> set (md_mempool_txs db). row_fine c r) \<and>
    (\<forall>r \<in> set (md_mempool_txs db). mt_batch_id r < md_next_batch_id db) \<and> 1 \<le> md_next_batch_id db \<and>
    (\<exists>bls. md_mempool_txs db = concat bls \<and> blocks bls)"

text \<open>The clock does not go back, and is read for every row.\<close>

definition clock_fine :: "mempool_db \<Rightarrow> nat \<Rightarrow> nat list \<Rightarrow> bool" where
  "clock_fine db n now \<longleftrightarrow> n \<le> size now \<and> sorted now \<and>
    (\<forall>r \<in> set (md_mempool_txs db). \<forall>t \<in> set now. mt_created_at r \<le> t)"

lemma ordered_variants_fine: "db_fine c db \<Longrightarrow> ordered_variants db = variants_of (md_mempool_txs db)"
  by (simp add: ordered_variants_def variants_of_def db_fine_def sort_key_id_if_sorted)

lemma insert_row_Ok:
  "insert_row c now b db tx = Ok db' \<longleftrightarrow> (\<exists>h. (unwrap (tx_hash c (stx_tx tx)) :: (error, h256) res) = Ok h \<and>
    db' = db\<lparr>md_mempool_txs := md_mempool_txs db @ [\<lparr>mt_id = md_next_id db, mt_tx_hash = h, mt_tx = stored_form (stx_tx tx),
      mt_created_at = now, mt_eth_sign_data = stx_eth_sign_data tx, mt_batch_id = b\<rparr>], md_next_id := md_next_id db + 1\<rparr>)"
  by (auto simp: insert_row_def ok_iffs)

lemma deserialized_stored:
  "deserialized \<lparr>mt_id = i, mt_tx_hash = h, mt_tx = stored_form (stx_tx tx), mt_created_at = now,
    mt_eth_sign_data = stx_eth_sign_data tx, mt_batch_id = b\<rparr> = stored_signed tx"
  by (simp add: deserialized_def stored_signed_def)

lemma stored_form_idem [simp]: "stored_form (stored_form tx) = stored_form tx"
  by (cases tx) simp_all

lemma tx_hash_stored [simp]: "tx_hash c (stored_form tx) = tx_hash c tx"
  by (cases tx) (simp_all add: tx_hash_def transfer_get_bytes_def withdraw_get_bytes_def change_pub_key_get_bytes_def forced_exit_get_bytes_def)

lemma stored_signed_idem [simp]: "stored_signed (stored_signed tx) = stored_signed tx"
  by (simp add: stored_signed_def)

lemma stored_variant_idem [simp]: "stored_variant (stored_variant v) = stored_variant v"
  by (cases v) simp_all

lemma variant_hashes_stored [simp]: "variant_hashes c (stored_variant v) = variant_hashes c v"
  by (cases v) (simp_all add: stored_signed_def)

lemma insert_tx_persists:
  assumes "mempool_insert_tx c now db tx = Ok db'" "db_fine c db" "\<forall>r \<in> set (md_mempool_txs db). mt_created_at r \<le> now"
  shows "db_fine c db' \<and> ordered_variants db' = ordered_variants db @ [VariantTx (stored_signed tx)]"
proof -
  obtain h where hash: "tx_hash c (stx_tx tx) = Ok h" and db': "db' = db\<lparr>md_mempool_txs := md_mempool_txs db @ [\<lparr>mt_id = md_next_id db, mt_tx_hash = h,
      mt_tx = stored_form (stx_tx tx), mt_created_at = now, mt_eth_sign_data = stx_eth_sign_data tx, mt_batch_id = 0\<rparr>],
      md_next_id := md_next_id db + 1\<rparr>"
    using assms(1) by (auto simp: mempool_insert_tx_def insert_row_Ok)
  obtain bls where bls: "md_mempool_txs db = concat bls" "blocks bls" using assms(2) by (auto simp: db_fine_def)
  let ?r = "\<lparr>mt_id = md_next_id db, mt_tx_hash = h, mt_tx = stored_form (stx_tx tx), mt_created_at = now,
    mt_eth_sign_data = stx_eth_sign_data tx, mt_batch_id = 0\<rparr>"
  have "blocks (bls @ [[?r]])" using bls(2) by (rule blocks_snoc) (simp_all add: row_block_single batch_id_optional_def)
  then have "\<exists>bls'. concat bls @ [?r] = concat bls' \<and> blocks bls'" by (intro exI [of _ "bls @ [[?r]]"]) simp
  then have fine: "db_fine c db'"
    using assms(2,3) db' hash unfolding db_fine_def by (auto simp: sorted_append row_fine_def bls(1))
  then show ?thesis
    using assms(2) by (simp add: ordered_variants_fine) (simp add: db' variants_of_snoc batch_id_optional_def deserialized_stored)
qed

lemma insert_rows_Ok:
  assumes "insert_rows c now b db txs = Ok db'" "size txs \<le> size now"
  shows "\<exists>rows. md_mempool_txs db' = md_mempool_txs db @ rows \<and> md_next_batch_id db' = md_next_batch_id db \<and>
    map deserialized rows = map stored_signed txs \<and> (\<forall>r \<in> set rows. mt_batch_id r = b) \<and>
    map mt_created_at rows = take (size txs) now \<and> (\<forall>r \<in> set rows. row_fine c r)"
  using assms
proof (induction txs arbitrary: db now)
  case (Cons tx txs)
  then obtain t now' where now: "now = t # now'" by (cases now) auto
  with Cons.prems obtain db1 where db1: "insert_row c t b db tx = Ok db1" "insert_rows c now' b db1 txs = Ok db'"
    by (auto simp: ok_iffs)
  from Cons.IH [OF db1(2)] Cons.prems(2) now obtain rows where rows: "md_mempool_txs db' = md_mempool_txs db1 @ rows"
    "md_next_batch_id db' = md_next_batch_id db1" "map deserialized rows = map stored_signed txs"
    "\<forall>r \<in> set rows. mt_batch_id r = b" "map mt_created_at rows = take (size txs) now'"
    "\<forall>r \<in> set rows. row_fine c r" by auto
  obtain h where "tx_hash c (stx_tx tx) = Ok h" "db1 = db\<lparr>md_mempool_txs := md_mempool_txs db @ [\<lparr>mt_id = md_next_id db, mt_tx_hash = h,
      mt_tx = stored_form (stx_tx tx), mt_created_at = t, mt_eth_sign_data = stx_eth_sign_data tx, mt_batch_id = b\<rparr>],
      md_next_id := md_next_id db + 1\<rparr>"
    using db1(1) by (auto simp: insert_row_Ok)
  with rows now show ?case
    by (intro exI [of _ "\<lparr>mt_id = md_next_id db, mt_tx_hash = h, mt_tx = stored_form (stx_tx tx), mt_created_at = t,
      mt_eth_sign_data = stx_eth_sign_data tx, mt_batch_id = b\<rparr> # rows"]) (simp add: deserialized_stored row_fine_def)
qed simp

lemma insert_batch_persists:
  assumes "insert_batch c now db txs = Ok (b, db')" "db_fine c db" "clock_fine db (size txs) now"
  shows "db_fine c db' \<and> b = md_next_batch_id db \<and> txs \<noteq> [] \<and>
    ordered_variants db' = ordered_variants db @ [VariantBatch (map stored_signed txs) (word_of_int b)]"
proof -
  obtain tx others where txs: "txs = tx # others" using assms(1) by (cases txs) (auto simp: insert_batch_def)
  with assms(3) obtain t now' where now: "now = t # now'" by (cases now) (auto simp: clock_fine_def)
  let ?id = "md_next_batch_id db" and ?db = "db\<lparr>md_next_batch_id := md_next_batch_id db + 1\<rparr>"
  obtain db1 where db1: "insert_row c t ?id ?db tx = Ok db1" "last_batch_id db1 = Ok b" "insert_rows c now' b db1 others = Ok db'"
    using assms(1) by (auto simp: insert_batch_def txs now ok_iffs)
  have one: "insert_rows c [t] ?id ?db [tx] = Ok db1" using db1(1) by simp
  obtain r where r: "md_mempool_txs db1 = md_mempool_txs db @ [r]" "md_next_batch_id db1 = ?id + 1"
      "deserialized r = stored_signed tx" "mt_batch_id r = ?id" "mt_created_at r = t" "row_fine c r"
    using insert_rows_Ok [OF one] by (auto simp: Cons_eq_map_conv map_eq_Cons_conv)
  have lt: "\<forall>x \<in> set (md_mempool_txs db). mt_batch_id x < ?id" and pos: "1 \<le> ?id" using assms(2) by (auto simp: db_fine_def)
  have "Max (mt_batch_id ` set (md_mempool_txs db1)) = ?id"
    using lt by (intro Max_eqI) (auto simp: r(1,4) intro: less_imp_le)
  with db1(2) r(1) have b: "b = ?id" by (simp add: last_batch_id_def)
  obtain rows where rows: "md_mempool_txs db' = md_mempool_txs db1 @ rows" "md_next_batch_id db' = md_next_batch_id db1"
      "map deserialized rows = map stored_signed others" "\<forall>r \<in> set rows. mt_batch_id r = b"
      "map mt_created_at rows = take (size others) now'" "\<forall>r \<in> set rows. row_fine c r"
    using insert_rows_Ok [OF db1(3)] assms(3) by (auto simp: clock_fine_def txs now)
  have all: "md_mempool_txs db' = md_mempool_txs db @ (r # rows)" by (simp add: rows(1) r(1))
  have times: "map mt_created_at (r # rows) = take (size txs) now" by (simp add: rows(5) r(5) txs now)
  have "sorted (take (size txs) now)" using assms(3) by (simp add: clock_fine_def sorted_wrt_take)
  moreover have "\<forall>x \<in> set (md_mempool_txs db). \<forall>s \<in> set (take (size txs) now). mt_created_at x \<le> s"
    using assms(3) by (auto simp: clock_fine_def dest: in_set_takeD)
  ultimately have "sorted (map mt_created_at (md_mempool_txs db'))"
    using assms(2) unfolding all map_append times by (auto simp: sorted_append db_fine_def)
  moreover have batch: "\<forall>x \<in> set (r # rows). batch_key x = Some b" using r(4) rows(4) b pos by (auto simp: batch_id_optional_def)
  obtain bls where bls: "md_mempool_txs db = concat bls" "blocks bls" using assms(2) by (auto simp: db_fine_def)
  have "batch_key x \<noteq> Some b" if "x \<in> set (concat bls)" for x
    using bspec [OF lt, of x] that b by (auto simp: bls(1) batch_id_optional_def)
  then have "blocks (bls @ [r # rows])" using bls(2) batch
    by (intro blocks_snoc row_block_batch [of _ b]) auto
  then have "\<exists>bls'. md_mempool_txs db @ (r # rows) = concat bls' \<and> blocks bls'" by (intro exI [of _ "bls @ [r # rows]"]) (simp add: bls(1))
  moreover have "\<forall>x \<in> set (md_mempool_txs db'). row_fine c x" using assms(2) r(6) rows(6) by (auto simp: all db_fine_def)
  moreover have "\<forall>x \<in> set (md_mempool_txs db'). mt_batch_id x < md_next_batch_id db'" "1 \<le> md_next_batch_id db'"
    using lt pos r(4) rows(2,4) r(2) b unfolding all by (auto intro: less_trans)
  ultimately have fine: "db_fine c db'" unfolding db_fine_def by (simp only: all)
  have "md_mempool_txs db = [] \<or> batch_key (last (md_mempool_txs db)) \<noteq> batch_key (hd (r # rows))"
    using bspec [OF lt last_in_set] batch b by (auto simp: batch_id_optional_def split: if_splits)
  then have "variants_of (md_mempool_txs db') = variants_of (md_mempool_txs db) @ [VariantBatch (map deserialized (r # rows)) (word_of_int b)]"
    unfolding all using variants_of_batch [OF _ batch] by (subst variants_of_append) auto
  with fine assms(2) b show ?thesis
    by (simp add: ordered_variants_fine r(3) rows(3) txs)
qed

section \<open>What a restart finds\<close>

text \<open>Every ready transaction and batch is stored.\<close>

definition persisted :: "crypto \<Rightarrow> mempool \<Rightarrow> bool" where
  "persisted c m \<longleftrightarrow> db_fine c (mp_db m) \<and>
    mset (map stored_variant (ms_ready_txs (mp_mempool_state m))) \<subseteq># mset (ordered_variants (mp_db m))"

lemma mset_load_txs: "mset (load_txs db) = mset (ordered_variants db)"
  by (simp add: load_txs_def)

fun request_size :: "mempool_request \<Rightarrow> nat" where
  "request_size (NewTx tx) = 1"
| "request_size (NewTxsBatch txs) = size txs"
| "request_size (UpdateNonces updates) = 0"
| "request_size (GetBlock n) = 0"

lemma db_error_Ok [simp]: "db_error r = Ok x \<longleftrightarrow> r = Ok x"
  by (cases r) (simp_all add: db_error_def)

lemma add_tx_cases:
  assumes "add_tx c a m tx = (r, m')"
  shows "m' = m \<or> (\<exists>db. mempool_insert_tx c (if ma_now a = [] then 0 else hd (ma_now a)) (mp_db m) tx = Ok db \<and>
    m' = m\<lparr>mp_db := db, mp_mempool_state := snd (state_add_tx (mp_mempool_state m) tx)\<rparr>)"
proof -
  let ?r = "db_error (res_bind (ma_access a) (\<lambda>_. res_bind (ma_start a) (\<lambda>_. res_bind (ma_statements a) (\<lambda>_.
        res_bind (mempool_insert_tx c (if ma_now a = [] then 0 else hd (ma_now a)) (mp_db m) tx) (\<lambda>db.
        res_map (\<lambda>_. db) (ma_commit a))))))"
  show ?thesis
  proof (cases ?r)
    case (Ok db)
    then have "mempool_insert_tx c (if ma_now a = [] then 0 else hd (ma_now a)) (mp_db m) tx = Ok db" by (auto simp: ok_iffs)
    moreover have "m' = m\<lparr>mp_db := db, mp_mempool_state := snd (state_add_tx (mp_mempool_state m) tx)\<rparr>"
      using assms unfolding add_tx_def Ok by (auto simp: map_prod_def split: prod.splits)
    ultimately show ?thesis by blast
  qed (use assms in \<open>simp_all add: add_tx_def\<close>)
qed

lemma add_batch_cases:
  assumes "add_batch c a m txs = (r, m')"
  shows "m' = m \<or> (\<exists>b db. insert_batch c (ma_now a) (mp_db m) txs = Ok (b, db) \<and>
    m' = m\<lparr>mp_db := db, mp_mempool_state := snd (state_add_batch (mp_mempool_state m) txs b)\<rparr>)"
proof -
  let ?r = "res_bind (db_error (ma_access a)) (\<lambda>_.
        res_bind (ensure (mempool_chunks_for_batch (mp_mempool_state m) txs \<le> mp_max_block_size_chunks m) BatchTooBig) (\<lambda>_.
        res_bind (ensure (size (filter (\<lambda>tx. is_withdraw (stx_tx tx)) txs) \<le> mp_max_number_of_withdrawals_per_block m)
          BatchWithdrawalsOverload) (\<lambda>_.
        db_error (res_bind (ma_start a) (\<lambda>_. res_bind (ma_statements a) (\<lambda>_.
          res_bind (insert_batch c (ma_now a) (mp_db m) txs) (\<lambda>p. res_map (\<lambda>_. p) (ma_commit a))))))))"
  show ?thesis
  proof (cases ?r)
    case (Ok p)
    then have "insert_batch c (ma_now a) (mp_db m) txs = Ok p" by (auto simp: ok_iffs)
    moreover have "m' = m\<lparr>mp_db := snd p, mp_mempool_state := snd (state_add_batch (mp_mempool_state m) txs (fst p))\<rparr>"
      using assms unfolding add_batch_def Ok by (auto simp: map_prod_def split: prod.splits)
    ultimately show ?thesis by (cases p) auto
  qed (use assms in \<open>simp_all add: add_batch_def\<close>)
qed

lemma subset_mset_grow: "A \<subseteq># B \<Longrightarrow> A \<subseteq># add_mset x B"
  by (simp add: subset_mset.order_trans [of A B])

lemma add_tx_persisted:
  assumes "persisted c m" "clock_fine (mp_db m) 1 (ma_now a)" "add_tx c a m tx = (r, m')"
  shows "persisted c m'"
proof -
  obtain t now where now: "ma_now a = t # now" using assms(2) by (cases "ma_now a") (auto simp: clock_fine_def)
  then have clock: "\<forall>r \<in> set (md_mempool_txs (mp_db m)). mt_created_at r \<le> t" using assms(2) by (simp add: clock_fine_def)
  from add_tx_cases [OF assms(3)] show ?thesis
  proof
    assume "\<exists>db. mempool_insert_tx c (if ma_now a = [] then 0 else hd (ma_now a)) (mp_db m) tx = Ok db \<and>
      m' = m\<lparr>mp_db := db, mp_mempool_state := snd (state_add_tx (mp_mempool_state m) tx)\<rparr>"
    with now obtain db where db: "mempool_insert_tx c t (mp_db m) tx = Ok db"
      "m' = m\<lparr>mp_db := db, mp_mempool_state := snd (state_add_tx (mp_mempool_state m) tx)\<rparr>" by auto
    have "db_fine c db" "ordered_variants db = ordered_variants (mp_db m) @ [VariantTx (stored_signed tx)]"
      using insert_tx_persists [OF db(1) _ clock] assms(1) by (simp_all add: persisted_def)
    with assms(1) show ?thesis
      by (simp add: persisted_def db(2) state_add_tx_def subset_mset_grow)
  qed (simp add: assms(1))
qed

lemma add_batch_persisted:
  assumes "persisted c m" "clock_fine (mp_db m) (size txs) (ma_now a)" "add_batch c a m txs = (r, m')"
  shows "persisted c m'"
  using add_batch_cases [OF assms(3)]
proof
  assume "\<exists>b db. insert_batch c (ma_now a) (mp_db m) txs = Ok (b, db) \<and>
    m' = m\<lparr>mp_db := db, mp_mempool_state := snd (state_add_batch (mp_mempool_state m) txs b)\<rparr>"
  then obtain b db where db: "insert_batch c (ma_now a) (mp_db m) txs = Ok (b, db)"
    "m' = m\<lparr>mp_db := db, mp_mempool_state := snd (state_add_batch (mp_mempool_state m) txs b)\<rparr>" by blast
  have "db_fine c db"
    "ordered_variants db = ordered_variants (mp_db m) @ [VariantBatch (map stored_signed txs) (word_of_int b)]"
    using insert_batch_persists [OF db(1) _ assms(2)] assms(1) by (simp_all add: persisted_def)
  with assms(1) show ?thesis
    by (simp add: persisted_def db(2) state_add_batch_def subset_mset_grow)
qed (simp add: assms(1))

lemma take_txs_rest: "take_txs m n txs = (left, taken, rest) \<Longrightarrow> txs = taken @ rest"
  by (induction txs arbitrary: n left taken rest) (auto split: if_splits prod.splits)

lemma propose_persisted:
  assumes "persisted c m" "propose_new_block eth_watch m start = (p, m')"
  shows "persisted c m'"
proof -
  obtain n left taken rest where t: "take_txs (mp_mempool_state m) n (ms_ready_txs (mp_mempool_state m)) = (left, taken, rest)"
    "mp_db m' = mp_db m" "ms_ready_txs (mp_mempool_state m') = rest"
    using assms(2) by (auto simp: propose_new_block_def prepare_tx_for_block_def Let_def split: prod.splits)
  from take_txs_rest [OF t(1)] have "mset (map stored_variant rest) \<subseteq># mset (map stored_variant (ms_ready_txs (mp_mempool_state m)))"
    by simp
  with assms(1) t(2,3) show ?thesis unfolding persisted_def by (metis subset_mset.order_trans)
qed

lemma update_nonces_ready: "ms_ready_txs (update_nonces s us) = ms_ready_txs s"
proof (induction us arbitrary: s)
  case (Cons u us)
  have "ms_ready_txs (update_nonce u s) = ms_ready_txs s"
    by (cases "(u, s)" rule: update_nonce.cases) (auto simp: set_nonce_def split: option.split)
  with Cons show ?case by (simp add: update_nonces_def)
qed (simp add: update_nonces_def)

lemma handled_persisted:
  assumes "persisted c m" "clock_fine (mp_db m) (request_size req) (ma_now a)"
    and "handle_mempool_request c a eth_watch m req = (reply, m')"
  shows "persisted c m'"
proof (cases req)
  case (NewTx tx)
  with assms show ?thesis by (cases "add_tx c a m tx") (auto intro: add_tx_persisted)
next
  case (NewTxsBatch txs)
  with assms show ?thesis by (cases "add_batch c a m txs") (auto intro: add_batch_persisted)
next
  case (GetBlock n)
  with assms show ?thesis by (cases "propose_new_block eth_watch m n") (auto intro: propose_persisted)
next
  case (UpdateNonces us)
  with assms show ?thesis by (auto simp: persisted_def update_nonces_ready)
qed

subsection \<open>The removal of executed transactions\<close>

text \<open>What @collect_garbage@ deletes: the hashes of the stored variants whose first transaction was executed.\<close>

definition garbage :: "crypto \<Rightarrow> (h256 \<Rightarrow> bool) \<Rightarrow> signed_tx_variant list \<Rightarrow> h256 set" where
  "garbage c executed vs =
    {h. \<exists>v \<in> set vs. (should_remove c executed v :: (error, bool) res) = Ok True \<and> Ok h \<in> set (variant_hashes c v)}"

definition spared :: "crypto \<Rightarrow> h256 set \<Rightarrow> signed_tx_variant \<Rightarrow> bool" where
  "spared c hs v \<longleftrightarrow> (\<forall>h. Ok h \<in> set (variant_hashes c v) \<longrightarrow> h \<notin> hs)"

lemma spared_stored [simp]: "spared c hs (stored_variant v) = spared c hs v"
  by (simp add: spared_def)

lemma unwrap_all_Ok: "rs = map Ok hs \<Longrightarrow> unwrap_all rs = Ok hs"
  by (induction rs arbitrary: hs) auto

lemma hashes_to_remove_garbage:
  assumes "\<forall>v \<in> set vs. \<exists>h hs. variant_hashes c v = map Ok (h # hs)"
  shows "\<exists>hs. hashes_to_remove c executed vs = (Ok hs :: (error, h256 list) res) \<and> set hs = garbage c executed vs"
  using assms
proof (induction vs)
  case (Cons v vs)
  then obtain hs where hs: "hashes_to_remove c executed vs = (Ok hs :: (error, h256 list) res)" "set hs = garbage c executed vs" by auto
  from Cons.prems obtain g gs where g: "variant_hashes c v = map Ok (g # gs)" by auto
  then have remove: "should_remove c executed v = (Ok (executed g) :: (error, bool) res)"
    by (cases v) (auto simp: should_remove_def split: list.splits)
  have all: "unwrap_all (variant_hashes c v) = (Ok (g # gs) :: (error, h256 list) res)" using g by (rule unwrap_all_Ok)
  show ?case
  proof (cases "executed g")
    case True
    with remove all hs(1) have "hashes_to_remove c executed (v # vs) = (Ok ((g # gs) @ hs) :: (error, h256 list) res)" by simp
    moreover have "set ((g # gs) @ hs) = garbage c executed (v # vs)"
      using remove True g hs(2) by (auto simp: garbage_def)
    ultimately show ?thesis by blast
  next
    case False
    with remove hs show ?thesis by (simp add: garbage_def)
  qed
qed (simp add: garbage_def)

lemma row_block_hashes:
  assumes "row_block bl" "\<forall>r \<in> set bl. row_fine c r"
  shows "variant_hashes c (block_variant bl) = map (\<lambda>r. Ok (mt_tx_hash r)) bl"
  using assms(1) by (cases rule: row_block_cases) (use assms(2) in \<open>simp_all add: block_variant_def deserialized_def row_fine_def\<close>)

lemma row_block_stored:
  assumes "row_block bl" "\<forall>r \<in> set bl. row_fine c r"
  shows "stored_variant (block_variant bl) = block_variant bl"
  using assms(1) by (cases rule: row_block_cases)
    (use assms(2) in \<open>simp_all add: block_variant_def deserialized_def stored_signed_def row_fine_def\<close>)

text \<open>The blocks without a row to remove stay as they are.\<close>

lemma mset_kept_blocks:
  "mset (map f (filter (\<lambda>bl. bl \<noteq> [] \<and> (\<forall>r \<in> set bl. P r)) bls)) \<subseteq># mset (map f (filter_blocks P bls))"
proof (induction bls)
  case (Cons bl bls)
  have "filter P bl = bl" if "\<forall>r \<in> set bl. P r" using that by simp
  with Cons show ?case by (auto intro: subset_mset_grow)
qed simp

lemma db_fine_remove:
  assumes "db_fine c db"
  shows "db_fine c (mempool_remove_txs db hs)"
proof -
  obtain bls where bls: "md_mempool_txs db = concat bls" "blocks bls" using assms by (auto simp: db_fine_def)
  let ?P = "\<lambda>r. mt_tx_hash r \<notin> set hs"
  have "\<exists>bls'. filter ?P (md_mempool_txs db) = concat bls' \<and> blocks bls'"
    by (intro exI [of _ "filter_blocks ?P bls"]) (simp add: bls blocks_filter concat_filter_blocks)
  with assms show ?thesis by (auto simp: db_fine_def mempool_remove_txs_def sorted_filter)
qed

lemma restart_loads:
  assumes "db_fine c db"
  shows "\<exists>hs. hashes_to_remove c executed (load_txs db) = (Ok hs :: (error, h256 list) res) \<and>
    set hs = garbage c executed (load_txs db) \<and>
    filter_mset (spared c (set hs)) (mset (ordered_variants db)) \<subseteq># mset (ordered_variants (mempool_remove_txs db hs)) \<and>
    (\<forall>v \<in> set (ordered_variants (mempool_remove_txs db hs)). spared c (set hs) v \<and> variant_hashes c v \<noteq> [] \<and> stored_variant v = v)"
proof -
  obtain bls where bls: "md_mempool_txs db = concat bls" "blocks bls" using assms by (auto simp: db_fine_def)
  have fine: "\<forall>bl \<in> set bls. row_block bl \<and> (\<forall>r \<in> set bl. row_fine c r)" using assms bls by (auto simp: db_fine_def blocks_def)
  have old: "ordered_variants db = map block_variant bls"
    using assms bls by (simp add: ordered_variants_fine variants_of_blocks)
  have "\<forall>v \<in> set (load_txs db). \<exists>h hs. variant_hashes c v = map Ok (h # hs)"
  proof
    fix v assume "v \<in> set (load_txs db)"
    then obtain bl where bl: "bl \<in> set bls" "v = block_variant bl" by (auto simp: load_txs_def old)
    then have ok: "row_block bl" "\<forall>r \<in> set bl. row_fine c r" using fine by simp_all
    then obtain r rs where "bl = r # rs" using list.exhaust [of bl] row_block_not_Nil [of bl] by metis
    with row_block_hashes [OF ok] bl(2) have "variant_hashes c v = map (\<lambda>r. Ok (mt_tx_hash r)) (r # rs)" by simp
    then show "\<exists>h hs. variant_hashes c v = map Ok (h # hs)" by (intro exI [of _ "mt_tx_hash r"] exI [of _ "map mt_tx_hash rs"]) simp
  qed
  from hashes_to_remove_garbage [OF this, of executed] obtain hs where hs:
    "hashes_to_remove c executed (load_txs db) = (Ok hs :: (error, h256 list) res)" "set hs = garbage c executed (load_txs db)" by blast
  let ?P = "\<lambda>r. mt_tx_hash r \<notin> set hs"
  have rows: "md_mempool_txs (mempool_remove_txs db hs) = concat (filter_blocks ?P bls)"
    by (simp add: mempool_remove_txs_def bls(1) concat_filter_blocks)
  have new: "ordered_variants (mempool_remove_txs db hs) = map block_variant (filter_blocks ?P bls)"
    using ordered_variants_fine [OF db_fine_remove [OF assms]] variants_of_blocks [OF blocks_filter [OF bls(2)]] by (simp only: rows)
  have spared_block: "spared c (set hs) (block_variant bl) \<longleftrightarrow> bl \<noteq> [] \<and> (\<forall>r \<in> set bl. ?P r)" if "bl \<in> set bls" for bl
    using row_block_hashes [of bl c] bspec [OF fine that] by (auto simp: spared_def)
  have "filter (spared c (set hs)) (map block_variant bls) = map block_variant (filter (\<lambda>bl. bl \<noteq> [] \<and> (\<forall>r \<in> set bl. ?P r)) bls)"
    using fine spared_block by (simp add: filter_map comp_def cong: filter_cong)
  then have "filter_mset (spared c (set hs)) (mset (ordered_variants db)) \<subseteq># mset (ordered_variants (mempool_remove_txs db hs))"
    using mset_kept_blocks [of block_variant ?P bls] by (metis mset_filter new old)
  moreover have "spared c (set hs) v \<and> variant_hashes c v \<noteq> [] \<and> stored_variant v = v"
    if "v \<in> set (ordered_variants (mempool_remove_txs db hs))" for v
  proof -
    from that obtain bl where bl: "bl \<in> set bls" "filter ?P bl \<noteq> []" "v = block_variant (filter ?P bl)" by (auto simp: new)
    then have ok: "row_block (filter ?P bl)" "\<forall>r \<in> set (filter ?P bl). row_fine c r" using fine row_block_filter by auto
    from row_block_hashes [OF this] row_block_stored [OF this] bl(2) show ?thesis by (auto simp: bl(3) spared_def)
  qed
  ultimately show ?thesis using hs by blast
qed

text \<open>C28: Whatever the mempool is asked, and also when its access to the database fails, a restart after it, if the database works
  then, succeeds and loads
  every ready transaction and batch, with the multiplicity it has, except those with a transaction the removal
  of executed ones takes: the removal deletes each stored transaction, and each stored batch whose first transaction,
  has a hash among the executed.  So nothing ready is lost as long as no stored hash is executed; but a ready
  transaction whose hash is found among the executed, as that of one sent again after an attempt that failed,
  is not loaded.  The restarted mempool stores all that it loads, so the property holds again after it.\<close>

theorem ready_txs_survive_restart:
  assumes "persisted c m" "clock_fine (mp_db m) (request_size req) (ma_now a)"
    and "handle_mempool_request c a eth_watch m req = (reply, m')"
  shows "persisted c m' \<and> (\<exists>s db. restore_from_db c executed accounts (mp_db m') = Ok (s, db) \<and>
    mset (map stored_variant (filter (spared c (garbage c executed (load_txs (mp_db m')))) (ms_ready_txs (mp_mempool_state m'))))
      \<subseteq># mset (ms_ready_txs s) \<and>
    (\<forall>v \<in> set (ms_ready_txs (mp_mempool_state m')). (should_remove c executed v :: (error, bool) res) = Ok True \<longrightarrow>
      stored_variant v \<notin> set (ms_ready_txs s)) \<and>
    persisted c (m'\<lparr>mp_db := db, mp_mempool_state := s\<rparr>))"
proof -
  have p: "persisted c m'" using handled_persisted [OF assms] .
  let ?vs = "load_txs (mp_db m')" and ?ready = "ms_ready_txs (mp_mempool_state m')"
  from p have fine: "db_fine c (mp_db m')" by (simp add: persisted_def)
  from restart_loads [OF this] obtain hs where hs: "hashes_to_remove c executed ?vs = (Ok hs :: (error, h256 list) res)"
      "set hs = garbage c executed ?vs"
      "filter_mset (spared c (set hs)) (mset (ordered_variants (mp_db m'))) \<subseteq># mset (ordered_variants (mempool_remove_txs (mp_db m') hs))"
      "\<forall>v \<in> set (ordered_variants (mempool_remove_txs (mp_db m') hs)). spared c (set hs) v \<and> variant_hashes c v \<noteq> [] \<and> stored_variant v = v"
    by blast
  define db where "db = mempool_remove_txs (mp_db m') hs"
  from hs(1) obtain s where s: "restore_from_db c executed accounts (mp_db m') = Ok (s, db)" "ms_ready_txs s = load_txs db"
    by (simp add: restore_from_db_def collect_garbage_def db_def)
  have loaded: "set (load_txs db) = set (ordered_variants db)" by (simp add: load_txs_def)
  have "mset (map stored_variant (filter (spared c (set hs)) ?ready)) = filter_mset (spared c (set hs)) (mset (map stored_variant ?ready))"
    by (simp only: flip: mset_filter) (simp add: filter_map comp_def)
  also have "\<dots> \<subseteq># filter_mset (spared c (set hs)) (mset (ordered_variants (mp_db m')))"
    using p by (intro multiset_filter_mono) (simp add: persisted_def)
  finally have kept: "mset (map stored_variant (filter (spared c (set hs)) ?ready)) \<subseteq># mset (ms_ready_txs s)"
    using hs(3) by (auto simp: s(2) mset_load_txs db_def intro: subset_mset.order_trans)
  have lost: "stored_variant v \<notin> set (ms_ready_txs s)"
    if v: "v \<in> set ?ready" "(should_remove c executed v :: (error, bool) res) = Ok True" for v
  proof
    assume "stored_variant v \<in> set (ms_ready_txs s)"
    then have ok: "spared c (set hs) v" using bspec [OF hs(4), of "stored_variant v"] loaded by (simp add: s(2) db_def)
    have "stored_variant ` set ?ready \<subseteq> set (ordered_variants (mp_db m'))"
      using p set_mset_mono unfolding persisted_def by fastforce
    then have "stored_variant v \<in> set ?vs" using v(1) by (auto simp: load_txs_def)
    moreover have "should_remove c executed (stored_variant v) = (Ok True :: (error, bool) res)"
      using v(2) by (cases v) (auto simp: should_remove_def stored_signed_def split: list.splits)
    moreover have "\<exists>h. Ok h \<in> set (variant_hashes c v)"
      using v(2) by (cases v) (auto simp: should_remove_def ok_iffs split: list.splits)
    ultimately show False using ok unfolding hs(2) spared_def garbage_def by force
  qed
  have "map stored_variant (load_txs db) = load_txs db" using hs(4) loaded by (intro map_idI) (auto simp: db_def)
  then have "persisted c (m'\<lparr>mp_db := db, mp_mempool_state := s\<rparr>)"
    using db_fine_remove [OF fine, of hs] by (simp add: persisted_def s(2) mset_load_txs flip: db_def)
  with p s(1) kept lost hs(2) show ?thesis by auto
qed

section \<open>An order that a restart changes\<close>

definition withdraw_of :: "address \<Rightarrow> nonce \<Rightarrow> signed_tx" where
  "withdraw_of addr n = \<lparr>stx_tx = TxWithdraw (sample_withdraw\<lparr>wd_from := addr, wd_nonce := n\<rparr>), stx_eth_sign_data = None\<rparr>"

lemma withdraw_of_hash: "\<exists>h. unwrap (tx_hash sample_crypto (stx_tx (withdraw_of addr n))) = Ok h"
  using sample_withdraw_bytes by (auto simp: withdraw_of_def tx_hash_def withdraw_get_bytes_Ok ok_iffs sample_withdraw_def)

lemma withdraw_of_parts:
  "stored_signed (withdraw_of addr n) = withdraw_of addr n" "tx_nonce (stx_tx (withdraw_of addr n)) = n"
  "tx_account (stx_tx (withdraw_of addr n)) = addr" "is_withdraw (stx_tx (withdraw_of addr n))"
  "mempool_chunks_for_tx s (stx_tx (withdraw_of addr n)) = 6"
  by (simp_all add: stored_signed_def withdraw_of_def sample_withdraw_def op_consts)

definition empty_mempool :: mempool where
  "empty_mempool = \<lparr>mp_db = \<lparr>md_mempool_txs = [], md_next_id = 1, md_next_batch_id = 1\<rparr>,
    mp_mempool_state = \<lparr>ms_account_nonces = fmempty, ms_account_ids = fmempty, ms_ready_txs = []\<rparr>,
    mp_max_block_size_chunks = 12, mp_max_number_of_withdrawals_per_block = 10\<rparr>"

definition working_db :: "nat list \<Rightarrow> mempool_answers" where
  "working_db now = \<lparr>ma_access = Ok (), ma_start = Ok (), ma_statements = Ok (), ma_commit = Ok (), ma_now = now\<rparr>"

lemma empty_mempool_persisted: "persisted c empty_mempool" "clock_fine (mp_db empty_mempool) 2 [1, 2]"
  by (simp_all add: persisted_def empty_mempool_def db_fine_def clock_fine_def exI [of _ "[]"])

text \<open>A batch of two accounts, and a later transaction of the first.\<close>

abbreviation two_accounts :: "signed_tx list" where
  "two_accounts \<equiv> [withdraw_of 17 5, withdraw_of 18 100]"

lemma two_accounts_added:
  "\<exists>db. add_batch sample_crypto (working_db [1, 2]) empty_mempool two_accounts = (Ok (),
      empty_mempool\<lparr>mp_db := db, mp_mempool_state := (mp_mempool_state empty_mempool)\<lparr>ms_ready_txs := [VariantBatch two_accounts 1]\<rparr>\<rparr>) \<and>
    insert_batch sample_crypto [1, 2] (mp_db empty_mempool) two_accounts = Ok (1, db)"
proof -
  obtain h h' where h: "unwrap (tx_hash sample_crypto (stx_tx (withdraw_of 17 5))) = (Ok h :: (error, h256) res)"
    "unwrap (tx_hash sample_crypto (stx_tx (withdraw_of 18 100))) = (Ok h' :: (error, h256) res)"
    using withdraw_of_hash by metis
  then obtain db where "insert_batch sample_crypto [1, 2] (mp_db empty_mempool) two_accounts = Ok (1, db)"
    by (auto simp: insert_batch_def insert_row_def last_batch_id_def empty_mempool_def)
  then show ?thesis
    by (simp add: add_batch_def working_db_def empty_mempool_def mempool_chunks_for_batch_def withdraw_of_parts state_add_batch_def
        mempool_nonce_def db_error_def)
qed

text \<open>A restart can put the transactions of an account in another order than they were accepted in: a batch
  of two accounts is sorted by the nonce of its last transaction, so it is loaded after a later
  transaction of the account of its first, which then has the wrong nonce.\<close>

lemma restart_reorders_account:
  "\<exists>m1 m2. add_batch sample_crypto (working_db [1, 2]) empty_mempool [withdraw_of 17 5, withdraw_of 18 100] = (Ok (), m1) \<and>
    add_tx sample_crypto (working_db [3]) m1 (withdraw_of 17 6) = (Ok (), m2) \<and>
    ms_ready_txs (mp_mempool_state m2) = [VariantBatch [withdraw_of 17 5, withdraw_of 18 100] 1, VariantTx (withdraw_of 17 6)] \<and>
    load_txs (mp_db m2) = [VariantTx (withdraw_of 17 6), VariantBatch [withdraw_of 17 5, withdraw_of 18 100] 1]"
proof -
  obtain db where m1: "add_batch sample_crypto (working_db [1, 2]) empty_mempool two_accounts = (Ok (),
      empty_mempool\<lparr>mp_db := db, mp_mempool_state := (mp_mempool_state empty_mempool)\<lparr>ms_ready_txs := [VariantBatch two_accounts 1]\<rparr>\<rparr>)"
    and ins: "insert_batch sample_crypto [1, 2] (mp_db empty_mempool) two_accounts = Ok (1, db)"
    using two_accounts_added by blast
  from insert_batch_persists [OF ins] empty_mempool_persisted(1) [of sample_crypto] empty_mempool_persisted(2) have fine: "db_fine sample_crypto db"
    "ordered_variants db = [VariantBatch two_accounts 1]"
    by (simp_all add: persisted_def withdraw_of_parts numeral_2_eq_2) (simp add: ordered_variants_def empty_mempool_def)
  obtain h where "unwrap (tx_hash sample_crypto (stx_tx (withdraw_of 17 6))) = (Ok h :: (error, h256) res)"
    using withdraw_of_hash by metis
  then obtain db' where db': "mempool_insert_tx sample_crypto 3 db (withdraw_of 17 6) = Ok db'"
    by (auto simp: mempool_insert_tx_def insert_row_def)
  have "\<forall>r \<in> set (md_mempool_txs db). mt_created_at r \<le> 3"
    using ins by (auto simp: insert_batch_def insert_row_def last_batch_id_def empty_mempool_def ok_iffs)
  with insert_tx_persists [OF db' fine(1)] fine(2)
  have "ordered_variants db' = [VariantBatch two_accounts 1, VariantTx (withdraw_of 17 6)]"
    by (simp add: withdraw_of_parts)
  then have "load_txs db' = [VariantTx (withdraw_of 17 6), VariantBatch two_accounts 1]"
    by (simp add: load_txs_def withdraw_of_parts)
  with m1 db' show ?thesis
    by (simp add: add_tx_def working_db_def empty_mempool_def withdraw_of_parts state_add_tx_def mempool_nonce_def db_error_def)
qed

text \<open>A ready batch is loaded by a restart, and is not if it was executed before.\<close>

theorem ready_txs_survive_restart_witness:
  "\<exists>m1 s db s' db'. add_batch sample_crypto (working_db [1, 2]) empty_mempool two_accounts = (Ok (), m1) \<and>
    restore_from_db sample_crypto (\<lambda>h. False) [] (mp_db m1) = Ok (s, db) \<and> ms_ready_txs (mp_mempool_state m1) = [VariantBatch two_accounts 1] \<and>
    VariantBatch two_accounts 1 \<in> set (ms_ready_txs s) \<and>
    restore_from_db sample_crypto (\<lambda>h. True) [] (mp_db m1) = Ok (s', db') \<and> VariantBatch two_accounts 1 \<notin> set (ms_ready_txs s')"
proof -
  obtain m1 where m1: "add_batch sample_crypto (working_db [1, 2]) empty_mempool two_accounts = (Ok (), m1)"
      "ms_ready_txs (mp_mempool_state m1) = [VariantBatch two_accounts 1]"
    using two_accounts_added by auto
  have clock: "clock_fine (mp_db empty_mempool) (request_size (NewTxsBatch two_accounts)) (ma_now (working_db [1, 2]))"
    using empty_mempool_persisted(2) by (simp add: working_db_def numeral_2_eq_2)
  have handled: "handle_mempool_request sample_crypto (working_db [1, 2]) (\<lambda>s n. []) empty_mempool (NewTxsBatch two_accounts) =
      (ReplyAdded (Ok ()), m1)" using m1(1) by simp
  note restart = ready_txs_survive_restart [OF empty_mempool_persisted(1) clock handled, where accounts = "[]"]
  obtain s db where s: "restore_from_db sample_crypto (\<lambda>h. False) [] (mp_db m1) = Ok (s, db)"
      "VariantBatch two_accounts 1 \<in> set (ms_ready_txs s)"
    using restart [where executed = "\<lambda>h. False"] m1(2)
    by (auto simp: withdraw_of_parts garbage_def spared_def should_remove_def ok_iffs split: signed_tx_variant.splits list.splits)
  obtain h where h: "tx_hash sample_crypto (stx_tx (withdraw_of 17 5)) = Ok h"
    using withdraw_of_hash [of 17 5] by auto
  obtain s' db' where "restore_from_db sample_crypto (\<lambda>h. True) [] (mp_db m1) = Ok (s', db')"
      "VariantBatch two_accounts 1 \<notin> set (ms_ready_txs s')"
    using restart [where executed = "\<lambda>h. True"] m1(2) h by (auto simp: withdraw_of_parts should_remove_def)
  with m1 s show ?thesis by blast
qed

end
