(* ===== verification/ChainStorage.thy ===== *)
theory ChainStorage
  imports MempoolStorage Block TxQueue "HOL-Library.Product_Lexorder"
begin

text \<open>
  The tables of the chain and the queries on accounts and their updates:
  @core/lib/storage/src/chain/state@, @chain/account@ and @diff.rs@.  A table is the list of its rows
  in the order of insertion; primary and foreign keys that a statement can violate make it an
  error, and the statements of an SQL transaction that fails have no effect.  A column that holds an
  unsigned integer in a wider signed one keeps the unsigned one; the serial keys of the update tables,
  which nothing reads, and the times of execution are left out.
\<close>

section \<open>Tables\<close>

record storage_account =
  sa_id :: account_id
  sa_last_block :: block_number
  sa_nonce :: nonce
  sa_address :: address
  sa_pubkey_hash :: pubkey_hash

record storage_account_creation =
  sac_account_id :: account_id
  sac_is_create :: bool
  sac_block_number :: block_number
  sac_address :: address
  sac_nonce :: nonce
  sac_update_order_id :: "32 word"

record storage_account_update =
  sau_account_id :: account_id
  sau_block_number :: block_number
  sau_coin_id :: token_id
  sau_old_balance :: nat
  sau_new_balance :: nat
  sau_old_nonce :: nonce
  sau_new_nonce :: nonce
  sau_update_order_id :: "32 word"

record storage_account_pubkey_update =
  sap_update_order_id :: "32 word"
  sap_account_id :: account_id
  sap_block_number :: block_number
  sap_old_pubkey_hash :: pubkey_hash
  sap_new_pubkey_hash :: pubkey_hash
  sap_old_nonce :: nonce
  sap_new_nonce :: nonce

record storage_balance =
  sb_account_id :: account_id
  sb_coin_id :: token_id
  sb_balance :: nat

record storage_block =
  sbl_number :: block_number
  sbl_root_hash :: fr
  sbl_fee_account_id :: account_id
  sbl_unprocessed_prior_op_before :: "64 word"
  sbl_unprocessed_prior_op_after :: "64 word"
  sbl_block_size :: nat
  sbl_commit_gas_limit :: "64 word"
  sbl_verify_gas_limit :: "64 word"

record storage_pending_block =
  spl_number :: block_number
  spl_chunks_left :: "64 word"
  spl_unprocessed_priority_op_before :: "64 word"
  spl_pending_block_iteration :: "64 word"

datatype action_type = COMMIT | VERIFY

record operation_row =
  or_id :: int
  or_block_number :: block_number
  or_action_type :: action_type
  or_confirmed :: bool

record stored_executed_transaction =
  set_block_number :: block_number
  set_block_index :: "32 word option"
  set_tx :: zksync_tx
  set_operation :: "zksync_op option"
  set_tx_hash :: h256
  set_from_account :: "160 word"
  set_to_account :: "160 word option"
  set_success :: bool
  set_fail_reason :: "error option"
  set_primary_account_address :: address
  set_nonce :: nonce
  set_eth_sign_data :: "eth_sign_data option"
  set_batch_id :: "64 word option"

record stored_executed_priority_operation =
  sep_block_number :: block_number
  sep_block_index :: "32 word"
  sep_operation :: zksync_op
  sep_from_account :: address
  sep_to_account :: address
  sep_priority_op_serialid :: "64 word"
  sep_deadline_block :: "64 word"
  sep_eth_hash :: "byte list"
  sep_eth_block :: "64 word"

record chain_db =
  cd_tokens :: "token_id list"
  cd_account_creates :: "storage_account_creation list"
  cd_account_balance_updates :: "storage_account_update list"
  cd_account_pubkey_updates :: "storage_account_pubkey_update list"
  cd_accounts :: "storage_account list"
  cd_balances :: "storage_balance list"
  cd_blocks :: "storage_block list"
  cd_pending_block :: "storage_pending_block list"
  cd_operations :: "operation_row list"
  cd_next_operation_id :: int
  cd_executed_transactions :: "stored_executed_transaction list"
  cd_executed_priority_operations :: "stored_executed_priority_operation list"
  cd_proofs :: "(block_number \<times> encoded_proof_plonk) list"
  cd_pending_withdrawals :: "(int \<times> h256) list"
  cd_mempool :: mempool_db

section \<open>Diffs\<close>

datatype storage_account_diff =
    DiffBalanceUpdate storage_account_update
  | DiffCreate storage_account_creation
  | DiffDelete storage_account_creation
  | DiffChangePubKey storage_account_pubkey_update

definition diff_from_creation :: "storage_account_creation \<Rightarrow> storage_account_diff" where
  "diff_from_creation c = (if sac_is_create c then DiffCreate c else DiffDelete c)"

fun diff_into :: "storage_account_diff \<Rightarrow> account_id \<times> account_update" where
  "diff_into (DiffBalanceUpdate u) = (sau_account_id u,
     UpdateBalance (sau_old_nonce u) (sau_new_nonce u) (sau_coin_id u, sau_old_balance u, sau_new_balance u))"
| "diff_into (DiffCreate u) = (sac_account_id u, Create (sac_address u) (sac_nonce u))"
| "diff_into (DiffDelete u) = (sac_account_id u, Delete (sac_address u) (sac_nonce u))"
| "diff_into (DiffChangePubKey u) = (sap_account_id u,
     ChangePubKeyHash (sap_old_pubkey_hash u) (sap_new_pubkey_hash u) (sap_old_nonce u) (sap_new_nonce u))"

fun diff_update_order_id :: "storage_account_diff \<Rightarrow> 32 word" where
  "diff_update_order_id (DiffBalanceUpdate u) = sau_update_order_id u"
| "diff_update_order_id (DiffCreate u) = sac_update_order_id u"
| "diff_update_order_id (DiffDelete u) = sac_update_order_id u"
| "diff_update_order_id (DiffChangePubKey u) = sap_update_order_id u"

fun diff_block_number :: "storage_account_diff \<Rightarrow> block_number" where
  "diff_block_number (DiffBalanceUpdate u) = sau_block_number u"
| "diff_block_number (DiffCreate u) = sac_block_number u"
| "diff_block_number (DiffDelete u) = sac_block_number u"
| "diff_block_number (DiffChangePubKey u) = sap_block_number u"

text \<open>@cmp_order@ compares the block numbers, then the (signed) order ids.\<close>

definition diff_order :: "storage_account_diff \<Rightarrow> block_number \<times> int" where
  "diff_order d = (diff_block_number d, sint (diff_update_order_id d))"

text \<open>
  The three queries have the same condition @P@, on the account and the block of a row; a row is taken
  from its table and turned into a diff.
\<close>

definition load_diffs :: "(account_id \<Rightarrow> block_number \<Rightarrow> bool) \<Rightarrow> chain_db \<Rightarrow> storage_account_diff list" where
  "load_diffs P db = sort_key diff_order
    (map DiffBalanceUpdate (filter (\<lambda>r. P (sau_account_id r) (sau_block_number r)) (cd_account_balance_updates db)) @
     map diff_from_creation (filter (\<lambda>r. P (sac_account_id r) (sac_block_number r)) (cd_account_creates db)) @
     map DiffChangePubKey (filter (\<lambda>r. P (sap_account_id r) (sap_block_number r)) (cd_account_pubkey_updates db)))"

section \<open>The state schema\<close>

definition insert_account_create :: "storage_account_creation \<Rightarrow> chain_db \<Rightarrow> (error, chain_db) res" where
  "insert_account_create r db =
    (if list_ex (\<lambda>x. sac_account_id x = sac_account_id r \<and> sac_block_number x = sac_block_number r) (cd_account_creates db)
     then Err ''duplicate key of account_creates''
     else Ok (db\<lparr>cd_account_creates := cd_account_creates db @ [r]\<rparr>))"

fun commit_update :: "block_number \<Rightarrow> nat \<Rightarrow> account_id \<times> account_update \<Rightarrow> chain_db \<Rightarrow> (error, chain_db) res" where
  "commit_update n order (i, Create addr nonce) db = insert_account_create
     \<lparr>sac_account_id = i, sac_is_create = True, sac_block_number = n, sac_address = addr, sac_nonce = nonce,
      sac_update_order_id = of_nat order\<rparr> db"
| "commit_update n order (i, Delete addr nonce) db = insert_account_create
     \<lparr>sac_account_id = i, sac_is_create = False, sac_block_number = n, sac_address = addr, sac_nonce = nonce,
      sac_update_order_id = of_nat order\<rparr> db"
| "commit_update n order (i, UpdateBalance old_nonce new_nonce (token, old_balance, new_balance)) db =
     (if token \<in> set (cd_tokens db)
      then Ok (db\<lparr>cd_account_balance_updates := cd_account_balance_updates db @
        [\<lparr>sau_account_id = i, sau_block_number = n, sau_coin_id = token, sau_old_balance = old_balance,
          sau_new_balance = new_balance, sau_old_nonce = old_nonce, sau_new_nonce = new_nonce,
          sau_update_order_id = of_nat order\<rparr>]\<rparr>)
      else Err ''account_balance_updates: unknown token'')"
| "commit_update n order (i, ChangePubKeyHash old_hash new_hash old_nonce new_nonce) db =
     Ok (db\<lparr>cd_account_pubkey_updates := cd_account_pubkey_updates db @
        [\<lparr>sap_update_order_id = of_nat order, sap_account_id = i, sap_block_number = n, sap_old_pubkey_hash = old_hash,
          sap_new_pubkey_hash = new_hash, sap_old_nonce = old_nonce, sap_new_nonce = new_nonce\<rparr>]\<rparr>)"

fun commit_state_update :: "chain_db \<Rightarrow> block_number \<Rightarrow> account_updates \<Rightarrow> nat \<Rightarrow> (error, chain_db) res" where
  "commit_state_update db n [] first = Ok db"
| "commit_state_update db n (u # us) first =
     res_bind (commit_update n first u db) (\<lambda>db. commit_state_update db n us (first + 1))"

text \<open>@INSERT .. ON CONFLICT DO UPDATE@ on the balances, with the foreign keys of the table.\<close>

definition upsert_balance :: "account_id \<Rightarrow> token_id \<Rightarrow> nat \<Rightarrow> chain_db \<Rightarrow> (error, chain_db) res" where
  "upsert_balance i token balance db =
    (if \<not> list_ex (\<lambda>a. sa_id a = i) (cd_accounts db) \<or> token \<notin> set (cd_tokens db) then Err ''balances: foreign key''
     else Ok (db\<lparr>cd_balances :=
       (if list_ex (\<lambda>b. sb_account_id b = i \<and> sb_coin_id b = token) (cd_balances db)
        then map (\<lambda>b. if sb_account_id b = i \<and> sb_coin_id b = token then b\<lparr>sb_balance := balance\<rparr> else b) (cd_balances db)
        else cd_balances db @ [\<lparr>sb_account_id = i, sb_coin_id = token, sb_balance = balance\<rparr>])\<rparr>))"

definition update_account :: "account_id \<Rightarrow> (storage_account \<Rightarrow> storage_account) \<Rightarrow> chain_db \<Rightarrow> chain_db" where
  "update_account i f db = db\<lparr>cd_accounts := map (\<lambda>a. if sa_id a = i then f a else a) (cd_accounts db)\<rparr>"

fun apply_diff :: "storage_account_diff \<Rightarrow> chain_db \<Rightarrow> (error, chain_db) res" where
  "apply_diff (DiffBalanceUpdate u) db =
     res_map (update_account (sau_account_id u) (\<lambda>a. a\<lparr>sa_last_block := sau_block_number u, sa_nonce := sau_new_nonce u\<rparr>))
       (upsert_balance (sau_account_id u) (sau_coin_id u) (sau_new_balance u) db)"
| "apply_diff (DiffCreate u) db =
     (if list_ex (\<lambda>a. sa_id a = sac_account_id u) (cd_accounts db) then Err ''duplicate key of accounts''
      else Ok (db\<lparr>cd_accounts := cd_accounts db @ [\<lparr>sa_id = sac_account_id u, sa_last_block = sac_block_number u,
        sa_nonce = sac_nonce u, sa_address = sac_address u, sa_pubkey_hash = 0\<rparr>]\<rparr>))"
| "apply_diff (DiffDelete u) db =
     Ok (db\<lparr>cd_accounts := filter (\<lambda>a. sa_id a \<noteq> sac_account_id u) (cd_accounts db),
            cd_balances := filter (\<lambda>b. sb_account_id b \<noteq> sac_account_id u) (cd_balances db)\<rparr>)"
| "apply_diff (DiffChangePubKey u) db =
     Ok (update_account (sap_account_id u) (\<lambda>a. a\<lparr>sa_last_block := sap_block_number u, sa_nonce := sap_new_nonce u,
       sa_pubkey_hash := sap_new_pubkey_hash u\<rparr>) db)"

fun apply_diffs :: "storage_account_diff list \<Rightarrow> chain_db \<Rightarrow> (error, chain_db) res" where
  "apply_diffs [] db = Ok db"
| "apply_diffs (d # ds) db = res_bind (apply_diff d db) (apply_diffs ds)"

definition apply_state_update :: "chain_db \<Rightarrow> block_number \<Rightarrow> (error, chain_db) res" where
  "apply_state_update db block_number = apply_diffs (load_diffs (\<lambda>i n. n = block_number) db) db"

text \<open>@restore_account@; the balances of an account are those with its id.\<close>

definition restore_account :: "storage_account \<Rightarrow> storage_balance list \<Rightarrow> account_id \<times> account" where
  "restore_account stored_account stored_balances =
    (sa_id stored_account,
     (fold (\<lambda>b a. set_balance a (sb_coin_id b) (sb_balance b)) stored_balances default_account)
       \<lparr>acc_nonce := sa_nonce stored_account, acc_address := sa_address stored_account,
        acc_pub_key_hash := sa_pubkey_hash stored_account\<rparr>)"

definition balances_for_id :: "chain_db \<Rightarrow> account_id \<Rightarrow> storage_balance list" where
  "balances_for_id db i = filter (\<lambda>b. sb_account_id b = i) (cd_balances db)"

definition max_or_zero :: "block_number list \<Rightarrow> block_number" where
  "max_or_zero ns = (if ns = [] then 0 else Max (set ns))"

definition get_last_block_by_action :: "chain_db \<Rightarrow> action_type \<Rightarrow> block_number" where
  "get_last_block_by_action db a =
    max_or_zero (map or_block_number (filter (\<lambda>r. or_action_type r = a) (cd_operations db)))"

definition load_verified_state :: "chain_db \<Rightarrow> block_number \<times> account_map" where
  "load_verified_state db =
    (get_last_block_by_action db VERIFY,
     fold (\<lambda>a m. let (i, acc) = restore_account a (balances_for_id db (sa_id a)) in fmupd i acc m) (cd_accounts db) fmempty)"

definition storage_state_diff ::
  "chain_db \<Rightarrow> block_number \<Rightarrow> block_number option \<Rightarrow> (block_number \<times> account_updates) option" where
  "storage_state_diff db from_block to_block =
    (let to_block_resolved = (case to_block of Some n \<Rightarrow> n | None \<Rightarrow> max_or_zero (map sbl_number (cd_blocks db)));
         time_forward = (from_block \<le> to_block_resolved);
         start_block = min from_block to_block_resolved;
         end_block = max from_block to_block_resolved;
         account_diff = load_diffs (\<lambda>i n. start_block < n \<and> n \<le> end_block) db;
         last_block = max_or_zero (map diff_block_number account_diff);
         account_updates = map diff_into account_diff;
         account_updates = (if time_forward then account_updates else reverse_updates account_updates);
         block_after_updates = (if time_forward then last_block else start_block)
     in if account_updates \<noteq> [] then Some (block_after_updates, account_updates) else None)"

definition load_committed_state :: "chain_db \<Rightarrow> block_number option \<Rightarrow> block_number \<times> account_map" where
  "load_committed_state db block =
    (let (verif_block, accounts) = load_verified_state db
     in case storage_state_diff db verif_block block of
          Some (block, state_diff) \<Rightarrow> (block, apply_updates accounts state_diff)
        | None \<Rightarrow> (verif_block, accounts))"

definition load_state_diff_for_block :: "chain_db \<Rightarrow> block_number \<Rightarrow> account_updates" where
  "load_state_diff_for_block db block_number =
    (case storage_state_diff db (block_number - 1) (Some block_number) of Some (n, us) \<Rightarrow> us | None \<Rightarrow> [])"

section \<open>The account schema\<close>

definition get_account_and_last_block :: "chain_db \<Rightarrow> account_id \<Rightarrow> block_number \<times> account option" where
  "get_account_and_last_block db account_id = (case find (\<lambda>a. sa_id a = account_id) (cd_accounts db) of
      Some a \<Rightarrow> (sa_last_block a, Some (snd (restore_account a (balances_for_id db account_id))))
    | None \<Rightarrow> (0, None))"

definition last_verified_state_for_account :: "chain_db \<Rightarrow> account_id \<Rightarrow> account option" where
  "last_verified_state_for_account db account_id = snd (get_account_and_last_block db account_id)"

definition last_committed_state_for_account :: "chain_db \<Rightarrow> account_id \<Rightarrow> account option" where
  "last_committed_state_for_account db account_id =
    (let (last_block, account) = get_account_and_last_block db account_id;
         account_diff = map diff_into (load_diffs (\<lambda>i n. i = account_id \<and> last_block < n) db)
     in foldl apply_update account (map snd account_diff))"

record stored_account_state =
  sas_committed :: "(account_id \<times> account) option"
  sas_verified :: "(account_id \<times> account) option"

text \<open>The last creation of an account with the address; in a block an id is created once.\<close>

definition last_creation :: "chain_db \<Rightarrow> address \<Rightarrow> storage_account_creation option" where
  "last_creation db addr = (case filter (\<lambda>r. sac_address r = addr \<and> sac_is_create r) (cd_account_creates db) of
      [] \<Rightarrow> None
    | r # rs \<Rightarrow> Some (fold (\<lambda>x best. if sac_block_number best < sac_block_number x then x else best) rs r))"

definition account_state_by_address :: "chain_db \<Rightarrow> address \<Rightarrow> stored_account_state" where
  "account_state_by_address db addr = (case last_creation db addr of
      None \<Rightarrow> \<lparr>sas_committed = None, sas_verified = None\<rparr>
    | Some r \<Rightarrow>
        \<lparr>sas_committed = map_option (Pair (sac_account_id r)) (last_committed_state_for_account db (sac_account_id r)),
         sas_verified = map_option (Pair (sac_account_id r)) (last_verified_state_for_account db (sac_account_id r))\<rparr>)"

end
