(* ===== verification/ChainProps.thy ===== *)
theory ChainProps
  imports ChainStorage "HOL-Library.Multiset"
begin

text \<open>
  What the tables of accounts promise: whatever the order in which a query returns rows, the updates of
  a range of blocks are loaded as they were committed, and the tables of verified accounts are
  the result of the updates of the verified blocks.
\<close>

section \<open>Committed updates\<close>

text \<open>The updates of all the tables.\<close>

fun diff_account_id :: "storage_account_diff \<Rightarrow> account_id" where
  "diff_account_id (DiffBalanceUpdate u) = sau_account_id u"
| "diff_account_id (DiffCreate u) = sac_account_id u"
| "diff_account_id (DiffDelete u) = sac_account_id u"
| "diff_account_id (DiffChangePubKey u) = sap_account_id u"

definition all_diffs :: "chain_db \<Rightarrow> storage_account_diff list" where
  "all_diffs db = map DiffBalanceUpdate (cd_account_balance_updates db) @
    map diff_from_creation (cd_account_creates db) @ map DiffChangePubKey (cd_account_pubkey_updates db)"

fun to_diff :: "block_number \<Rightarrow> nat \<Rightarrow> account_id \<times> account_update \<Rightarrow> storage_account_diff" where
  "to_diff n k (i, Create addr nonce) = DiffCreate
     \<lparr>sac_account_id = i, sac_is_create = True, sac_block_number = n, sac_address = addr, sac_nonce = nonce,
      sac_update_order_id = of_nat k\<rparr>"
| "to_diff n k (i, Delete addr nonce) = DiffDelete
     \<lparr>sac_account_id = i, sac_is_create = False, sac_block_number = n, sac_address = addr, sac_nonce = nonce,
      sac_update_order_id = of_nat k\<rparr>"
| "to_diff n k (i, UpdateBalance old_nonce new_nonce (token, old_balance, new_balance)) = DiffBalanceUpdate
     \<lparr>sau_account_id = i, sau_block_number = n, sau_coin_id = token, sau_old_balance = old_balance,
      sau_new_balance = new_balance, sau_old_nonce = old_nonce, sau_new_nonce = new_nonce, sau_update_order_id = of_nat k\<rparr>"
| "to_diff n k (i, ChangePubKeyHash old_hash new_hash old_nonce new_nonce) = DiffChangePubKey
     \<lparr>sap_update_order_id = of_nat k, sap_account_id = i, sap_block_number = n, sap_old_pubkey_hash = old_hash,
      sap_new_pubkey_hash = new_hash, sap_old_nonce = old_nonce, sap_new_nonce = new_nonce\<rparr>"

fun diffs_from :: "block_number \<Rightarrow> nat \<Rightarrow> account_updates \<Rightarrow> storage_account_diff list" where
  "diffs_from n k [] = []"
| "diffs_from n k (u # us) = to_diff n k u # diffs_from n (k + 1) us"

lemma diff_into_to_diff [simp]: "diff_into (to_diff n k u) = u"
  by (cases "(n, k, u)" rule: to_diff.cases) simp_all

lemma diff_block_to_diff [simp]: "diff_block_number (to_diff n k u) = n"
  by (cases "(n, k, u)" rule: to_diff.cases) simp_all

lemma diff_order_id_to_diff [simp]: "diff_update_order_id (to_diff n k u) = of_nat k"
  by (cases "(n, k, u)" rule: to_diff.cases) simp_all

lemma diffs_from_append: "diffs_from n k (us @ vs) = diffs_from n k us @ diffs_from n (k + size us) vs"
  by (induction us arbitrary: k) simp_all

lemma map_diff_into_diffs [simp]: "map diff_into (diffs_from n k us) = us"
  by (induction us arbitrary: k) simp_all

lemma diffs_from_block: "d \<in> set (diffs_from n k us) \<Longrightarrow> diff_block_number d = n"
  by (induction us arbitrary: k) auto

lemma diffs_from_Nil [simp]: "diffs_from n k us = [] \<longleftrightarrow> us = []"
  by (cases us) simp_all

text \<open>What committing an update leaves as it is.\<close>

definition without_diffs :: "chain_db \<Rightarrow> chain_db" where
  "without_diffs db = db\<lparr>cd_account_creates := [], cd_account_balance_updates := [], cd_account_pubkey_updates := []\<rparr>"

lemma commit_update_diffs:
  assumes "commit_update n k u db = Ok db'"
  shows "mset (all_diffs db') = add_mset (to_diff n k u) (mset (all_diffs db)) \<and> without_diffs db' = without_diffs db"
  using assms
  by (cases "(n, k, u)" rule: to_diff.cases)
    (auto simp: all_diffs_def insert_account_create_def diff_from_creation_def without_diffs_def split: if_splits)

lemma commit_state_update_diffs:
  "commit_state_update db n us k = Ok db' \<Longrightarrow>
    mset (all_diffs db') = mset (all_diffs db) + mset (diffs_from n k us) \<and> without_diffs db' = without_diffs db"
proof (induction us arbitrary: db k)
  case (Cons u us)
  then obtain db1 where db1: "commit_update n k u db = Ok db1" "commit_state_update db1 n us (k + 1) = Ok db'"
    by (auto simp: ok_iffs)
  from commit_update_diffs [OF db1(1)] Cons.IH [OF db1(2)] show ?case by auto
qed simp

section \<open>Loading\<close>

text \<open>Of every block the tables hold exactly the updates that were committed for it.\<close>

definition db_holds :: "(block_number \<Rightarrow> account_updates) \<Rightarrow> chain_db \<Rightarrow> bool" where
  "db_holds U db \<longleftrightarrow> (\<forall>n. filter_mset (\<lambda>d. diff_block_number d = n) (mset (all_diffs db)) = mset (diffs_from n 0 (U n)))"

lemma filter_mset_diffs_from:
  "filter_mset (\<lambda>d. diff_block_number d = m) (mset (diffs_from n k us)) = (if m = n then mset (diffs_from n k us) else {#})"
proof -
  have "filter (\<lambda>d. diff_block_number d = m) (diffs_from n k us) = (if m = n then diffs_from n k us else [])"
    using diffs_from_block by (auto simp: filter_id_conv filter_empty_conv)
  then show ?thesis by (metis mset_filter mset.simps(1))
qed

lemma db_holds_commit:
  assumes "db_holds U db" "commit_state_update db n us (size (U n)) = Ok db'"
  shows "db_holds (U(n := U n @ us)) db'"
  using assms(1) commit_state_update_diffs [OF assms(2)]
  by (auto simp: db_holds_def filter_mset_diffs_from diffs_from_append)

lemma mset_load_diffs:
  "mset (load_diffs P db) = filter_mset (\<lambda>d. P (diff_account_id d) (diff_block_number d)) (mset (all_diffs db))"
proof -
  have c: "diff_account_id (diff_from_creation r) = sac_account_id r" "diff_block_number (diff_from_creation r) = sac_block_number r" for r
    by (simp_all add: diff_from_creation_def)
  have "filter (\<lambda>d. P (diff_account_id d) (diff_block_number d)) (all_diffs db) =
    map DiffBalanceUpdate (filter (\<lambda>r. P (sau_account_id r) (sau_block_number r)) (cd_account_balance_updates db)) @
     map diff_from_creation (filter (\<lambda>r. P (sac_account_id r) (sac_block_number r)) (cd_account_creates db)) @
     map DiffChangePubKey (filter (\<lambda>r. P (sap_account_id r) (sap_block_number r)) (cd_account_pubkey_updates db))"
    by (simp add: all_diffs_def filter_map comp_def c)
  then show ?thesis
    unfolding load_diffs_def mset_filter [symmetric] by (simp del: mset_filter mset_append)
qed

lemma sint_of_nat: "k < 2 ^ 31 \<Longrightarrow> sint (of_nat k :: 32 word) = int k"
  by (simp add: signed_of_nat signed_take_bit_int_eq_self)

lemma diffs_from_sorted:
  "k + size us \<le> 2 ^ 31 \<Longrightarrow> sorted_wrt (<) (map diff_order (diffs_from n k us)) \<and>
    (\<forall>d \<in> set (diffs_from n k us). (n, int k) \<le> diff_order d)"
proof (induction us arbitrary: k)
  case (Cons u us)
  have "sorted_wrt (<) (map diff_order (diffs_from n (k + 1) us))"
    "\<forall>d \<in> set (diffs_from n (k + 1) us). (n, int (k + 1)) \<le> diff_order d"
    using Cons.IH [of "k + 1"] Cons.prems by simp_all
  moreover have "diff_order (to_diff n k u) = (n, int k)"
    using Cons.prems by (simp add: diff_order_def sint_of_nat)
  moreover have "(n, int k) < diff_order d" if "d \<in> set (diffs_from n (k + 1) us)" for d
    by (rule less_le_trans [of _ "(n, int (k + 1))"]) (use calculation(2) that in simp_all)
  ultimately show ?case by (auto intro: less_imp_le)
qed simp

text \<open>The blocks after @lo@ up to @hi@.\<close>

definition blocks_between :: "block_number \<Rightarrow> block_number \<Rightarrow> block_number list" where
  "blocks_between lo hi = map of_nat [unat lo + 1..<unat hi + 1]"

definition range_diffs :: "(block_number \<Rightarrow> account_updates) \<Rightarrow> block_number list \<Rightarrow> storage_account_diff list" where
  "range_diffs U ns = concat (map (\<lambda>n. diffs_from n 0 (U n)) ns)"

definition range_updates :: "(block_number \<Rightarrow> account_updates) \<Rightarrow> block_number list \<Rightarrow> account_updates" where
  "range_updates U ns = concat (map U ns)"

lemma map_diff_into_range: "map diff_into (range_diffs U ns) = range_updates U ns"
  by (simp add: range_diffs_def range_updates_def map_concat comp_def)

lemma range_diffs_sorted:
  "sorted_wrt (<) ns \<Longrightarrow> \<forall>n. size (U n) \<le> 2 ^ 31 \<Longrightarrow> sorted_wrt (<) (map diff_order (range_diffs U ns))"
proof (induction ns)
  case (Cons n ns)
  have "diff_order d < diff_order d'" if d: "d \<in> set (diffs_from n 0 (U n))" and d': "d' \<in> set (range_diffs U ns)" for d d'
  proof -
    obtain m where m: "m \<in> set ns" "d' \<in> set (diffs_from m 0 (U m))" using d' by (auto simp: range_diffs_def)
    have "diff_block_number d = n" "diff_block_number d' = m" "n < m"
      using diffs_from_block d m Cons.prems(1) by auto
    then show ?thesis by (simp add: diff_order_def)
  qed
  with Cons diffs_from_sorted [of 0 "U n" n] show ?case
    by (auto simp: range_diffs_def sorted_wrt_append)
qed (simp add: range_diffs_def)

lemma mset_range_diffs:
  assumes "db_holds U db" "distinct ns"
  shows "mset (range_diffs U ns) = filter_mset (\<lambda>d. diff_block_number d \<in> set ns) (mset (all_diffs db))"
  using assms(2)
proof (induction ns)
  case (Cons n ns)
  have "filter_mset (\<lambda>d. diff_block_number d \<in> set (n # ns)) M =
      filter_mset (\<lambda>d. diff_block_number d = n) M + filter_mset (\<lambda>d. diff_block_number d \<in> set ns) M" for M :: "storage_account_diff multiset"
    using Cons.prems by (induction M) auto
  with Cons assms(1) show ?case by (simp add: range_diffs_def db_holds_def)
qed (simp add: range_diffs_def)

lemma load_diffs_range:
  assumes "db_holds U db" "\<forall>n. size (U n) \<le> 2 ^ 31" "sorted_wrt (<) ns" "\<And>i n. P i n \<longleftrightarrow> n \<in> set ns"
  shows "load_diffs P db = range_diffs U ns"
proof -
  have "distinct ns" using assms(3) by (simp add: strict_sorted_iff)
  then have m: "mset (load_diffs P db) = mset (range_diffs U ns)"
    by (simp add: mset_load_diffs mset_range_diffs [OF assms(1)] assms(4))
  have s: "sorted_wrt (<) (map diff_order (range_diffs U ns))"
    by (rule range_diffs_sorted [OF assms(3,2)])
  define xs where "xs = map DiffBalanceUpdate (filter (\<lambda>r. P (sau_account_id r) (sau_block_number r)) (cd_account_balance_updates db)) @
     map diff_from_creation (filter (\<lambda>r. P (sac_account_id r) (sac_block_number r)) (cd_account_creates db)) @
     map DiffChangePubKey (filter (\<lambda>r. P (sap_account_id r) (sap_block_number r)) (cd_account_pubkey_updates db))"
  have xs: "load_diffs P db = sort_key diff_order xs" by (simp add: load_diffs_def xs_def)
  then have mx: "mset xs = mset (range_diffs U ns)" using m by simp
  have "inj_on diff_order (set xs)"
    using s mset_eq_setD [OF mx] by (simp add: strict_sorted_iff distinct_map)
  then show ?thesis
    unfolding xs using s mx by (intro sort_key_inj_key_eq) (simp_all add: strict_sorted_iff)
qed

section \<open>Verified accounts\<close>

text \<open>The keys of the tables of accounts and balances.\<close>

definition tables_ok :: "chain_db \<Rightarrow> bool" where
  "tables_ok db \<longleftrightarrow> distinct (map sa_id (cd_accounts db)) \<and>
    distinct (map (\<lambda>b. (sb_account_id b, sb_coin_id b)) (cd_balances db)) \<and>
    (\<forall>b \<in> set (cd_balances db). sb_account_id b \<in> sa_id ` set (cd_accounts db))"

definition balance_in :: "storage_balance list \<Rightarrow> account_id \<Rightarrow> token_id \<Rightarrow> nat" where
  "balance_in bs i t = (case find (\<lambda>b. sb_account_id b = i \<and> sb_coin_id b = t) bs of Some b \<Rightarrow> sb_balance b | None \<Rightarrow> 0)"

definition tables_view :: "chain_db \<Rightarrow> account_id \<Rightarrow> account_view option" where
  "tables_view db i = map_option (\<lambda>a. (sa_address a, sa_pubkey_hash a, sa_nonce a, balance_in (cd_balances db) i))
    (find (\<lambda>a. sa_id a = i) (cd_accounts db))"

lemma get_balance_restored:
  assumes "distinct (map (\<lambda>b. (sb_account_id b, sb_coin_id b)) bs)"
  shows "get_balance (fold (\<lambda>b a. set_balance a (sb_coin_id b) (sb_balance b)) (filter (\<lambda>b. sb_account_id b = i) bs) a) t =
    (case find (\<lambda>b. sb_account_id b = i \<and> sb_coin_id b = t) bs of Some b \<Rightarrow> sb_balance b | None \<Rightarrow> get_balance a t)"
  using assms
proof (induction bs arbitrary: a)
  case (Cons b bs)
  have "find (\<lambda>b. sb_account_id b = i \<and> sb_coin_id b = t) bs = None" if "sb_account_id b = i" "sb_coin_id b = t"
    using Cons.prems that unfolding find_None_iff by (auto simp: image_iff)
  with Cons show ?case by (auto simp: account_simps split: option.split)
qed simp

lemma restored_view:
  assumes "tables_ok db" "sa_id a = i"
  shows "account_view (snd (restore_account a (balances_for_id db i))) =
    (sa_address a, sa_pubkey_hash a, sa_nonce a, balance_in (cd_balances db) i)"
  using assms get_balance_restored [of "cd_balances db" i default_account]
  by (auto simp: restore_account_def balances_for_id_def account_view_def balance_in_def tables_ok_def fun_eq_iff account_simps
      split: option.split)

lemma load_accounts_lookup:
  "distinct (map sa_id as) \<Longrightarrow>
    fmlookup (fold (\<lambda>a m. let (i, acc) = restore_account a (f (sa_id a)) in fmupd i acc m) as m) i =
      (case find (\<lambda>a. sa_id a = i) as of Some a \<Rightarrow> Some (snd (restore_account a (f i))) | None \<Rightarrow> fmlookup m i)"
proof (induction as arbitrary: m)
  case (Cons a as)
  have "find (\<lambda>a. sa_id a = i) as = None" if "sa_id a = i"
    using Cons.prems that unfolding find_None_iff by (auto simp: image_iff)
  with Cons show ?case by (auto simp: restore_account_def Let_def split: option.split)
qed simp

lemma verified_view:
  assumes "tables_ok db"
  shows "map_view (snd (load_verified_state db)) = tables_view db"
proof
  fix i
  have "fmlookup (snd (load_verified_state db)) i =
      map_option (\<lambda>a. snd (restore_account a (balances_for_id db i))) (find (\<lambda>a. sa_id a = i) (cd_accounts db))"
    using assms load_accounts_lookup [of "cd_accounts db" "balances_for_id db" fmempty i]
    by (auto simp: load_verified_state_def tables_ok_def split: option.split)
  moreover have "map_option (\<lambda>a. account_view (snd (restore_account a (balances_for_id db i)))) (find (\<lambda>a. sa_id a = i) (cd_accounts db))
      = tables_view db i"
  proof (cases "find (\<lambda>a. sa_id a = i) (cd_accounts db)")
    case (Some a)
    then have "sa_id a = i" by (auto simp: find_Some_iff)
    from restored_view [OF assms this] Some show ?thesis by (simp add: tables_view_def)
  qed (simp add: tables_view_def)
  ultimately show "map_view (snd (load_verified_state db)) i = tables_view db i"
    by (simp add: map_view_def option.map_comp comp_def)
qed

lemma find_map_same:
  "(\<And>x. P (g x) \<longleftrightarrow> P x) \<Longrightarrow> find P (map g xs) = map_option g (find P xs)"
  by (induction xs) simp_all

lemma find_update_account:
  assumes "\<And>a. sa_id (f a) = sa_id a"
  shows "find (\<lambda>a. sa_id a = j) (map (\<lambda>a. if sa_id a = i then f a else a) as) =
    map_option (\<lambda>a. if j = i then f a else a) (find (\<lambda>a. sa_id a = j) as)"
  by (induction as) (auto simp: assms)

lemma update_account_ok:
  assumes "tables_ok db" "\<And>a. sa_id (f a) = sa_id a"
  shows "tables_ok (update_account i f db)"
proof -
  have "map sa_id (map (\<lambda>a. if sa_id a = i then f a else a) as) = map sa_id as" for as
    by (induction as) (auto simp: assms(2))
  then have "map sa_id (cd_accounts (update_account i f db)) = map sa_id (cd_accounts db)"
    "cd_balances (update_account i f db) = cd_balances db"
    by (simp_all add: update_account_def)
  with assms(1) show ?thesis unfolding tables_ok_def by (metis list.set_map)
qed

lemma tables_view_exists: "tables_view db i \<noteq> None \<longleftrightarrow> list_ex (\<lambda>a. sa_id a = i) (cd_accounts db)"
  by (auto simp: tables_view_def list_ex_iff find_None_iff)

lemma tables_ok_alt:
  "tables_ok db \<longleftrightarrow> distinct (map sa_id (cd_accounts db)) \<and>
    distinct (map (\<lambda>b. (sb_account_id b, sb_coin_id b)) (cd_balances db)) \<and>
    sb_account_id ` set (cd_balances db) \<subseteq> sa_id ` set (cd_accounts db)"
  by (simp add: tables_ok_def image_subset_iff)

lemma tables_ok_same_keys:
  assumes "tables_ok db"
    and "map (\<lambda>b. (sb_account_id b, sb_coin_id b)) bs = map (\<lambda>b. (sb_account_id b, sb_coin_id b)) (cd_balances db)"
    and "map sb_account_id bs = map sb_account_id (cd_balances db)"
  shows "tables_ok (db\<lparr>cd_balances := bs\<rparr>)"
proof -
  have "sb_account_id ` set bs = sb_account_id ` set (cd_balances db)" using assms(3) by (metis list.set_map)
  with assms(1,2) show ?thesis by (simp add: tables_ok_alt)
qed

text \<open>What applying an update leaves as it is.\<close>

definition without_tables :: "chain_db \<Rightarrow> chain_db" where
  "without_tables db = db\<lparr>cd_accounts := [], cd_balances := []\<rparr>"

text \<open>Applying one update: it succeeds if the update fits and its token is known, and does what the update says.\<close>

lemma balance_keys:
  "map (\<lambda>b. (sb_account_id b, sb_coin_id b)) (map (\<lambda>b. if P b then b\<lparr>sb_balance := x\<rparr> else b) bs) =
    map (\<lambda>b. (sb_account_id b, sb_coin_id b)) bs"
  "map sb_account_id (map (\<lambda>b. if P b then b\<lparr>sb_balance := x\<rparr> else b) bs) = map sb_account_id bs"
  by (induction bs) simp_all

lemma find_account_deleted:
  "find (\<lambda>a. sa_id a = j) (filter (\<lambda>a. sa_id a \<noteq> i) as) = (if j = i then None else find (\<lambda>a. sa_id a = j) as)"
  by (induction as) auto

lemma balance_in_simps:
  "balance_in [] j s = 0"
  "balance_in (b # bs) j s = (if sb_account_id b = j \<and> sb_coin_id b = s then sb_balance b else balance_in bs j s)"
  by (simp_all add: balance_in_def)

lemma balance_in_deleted:
  "balance_in (filter (\<lambda>b. sb_account_id b \<noteq> i) bs) j = (if j = i then (\<lambda>s. 0) else balance_in bs j)"
proof
  show "balance_in (filter (\<lambda>b. sb_account_id b \<noteq> i) bs) j s = (if j = i then (\<lambda>s. 0) else balance_in bs j) s" for s
    by (induction bs) (auto simp: balance_in_simps)
qed

lemma balance_in_updated:
  "balance_in (map (\<lambda>b. if sb_account_id b = i \<and> sb_coin_id b = t then b\<lparr>sb_balance := x\<rparr> else b) bs) j s =
    (if j = i \<and> s = t \<and> list_ex (\<lambda>b. sb_account_id b = i \<and> sb_coin_id b = t) bs then x else balance_in bs j s)"
  by (induction bs) (auto simp: balance_in_simps)

lemma balance_in_appended:
  "balance_in (bs @ [b]) j s = (if sb_account_id b = j \<and> sb_coin_id b = s \<and> \<not> list_ex (\<lambda>b. sb_account_id b = j \<and> sb_coin_id b = s) bs
    then sb_balance b else balance_in bs j s)"
  by (induction bs) (auto simp: balance_in_simps)

lemma upsert_balance_spec:
  assumes "tables_ok db" "list_ex (\<lambda>a. sa_id a = i) (cd_accounts db)" "t \<in> set (cd_tokens db)"
  shows "\<exists>bs. upsert_balance i t x db = Ok (db\<lparr>cd_balances := bs\<rparr>) \<and> tables_ok (db\<lparr>cd_balances := bs\<rparr>) \<and>
    (\<forall>j s. balance_in bs j s = (if j = i \<and> s = t then x else balance_in (cd_balances db) j s))"
proof -
  let ?P = "\<lambda>b. sb_account_id b = i \<and> sb_coin_id b = t" and ?bs = "cd_balances db"
  show ?thesis
  proof (cases "list_ex ?P ?bs")
    case True
    let ?new = "map (\<lambda>b. if ?P b then b\<lparr>sb_balance := x\<rparr> else b) ?bs"
    have keys: "map (\<lambda>b. (sb_account_id b, sb_coin_id b)) ?new = map (\<lambda>b. (sb_account_id b, sb_coin_id b)) ?bs"
      "map sb_account_id ?new = map sb_account_id ?bs" by (rule balance_keys)+
    have "tables_ok (db\<lparr>cd_balances := ?new\<rparr>)" by (rule tables_ok_same_keys [OF assms(1) keys])
    moreover have "balance_in ?new j s = (if j = i \<and> s = t then x else balance_in ?bs j s)" for j s
      using True by (simp add: balance_in_updated)
    ultimately show ?thesis using True assms(2,3) by (intro exI [of _ ?new]) (simp add: upsert_balance_def)
  next
    case False
    let ?new = "?bs @ [\<lparr>sb_account_id = i, sb_coin_id = t, sb_balance = x\<rparr>]"
    have "tables_ok (db\<lparr>cd_balances := ?new\<rparr>)"
      using assms(1,2) False by (auto simp: tables_ok_def list_ex_iff)
    moreover have "balance_in ?new j s = (if j = i \<and> s = t then x else balance_in ?bs j s)" for j s
      using False by (auto simp: balance_in_appended)
    ultimately show ?thesis using False assms(2,3) by (intro exI [of _ ?new]) (simp add: upsert_balance_def)
  qed
qed

lemma update_account_view:
  assumes "\<And>a. sa_id (f a) = sa_id a"
  shows "tables_view (update_account i f db) = (tables_view db)(i := map_option
    (\<lambda>a. (sa_address (f a), sa_pubkey_hash (f a), sa_nonce (f a), balance_in (cd_balances db) i)) (find (\<lambda>a. sa_id a = i) (cd_accounts db)))"
proof
  fix j
  show "tables_view (update_account i f db) j = ((tables_view db)(i := map_option
    (\<lambda>a. (sa_address (f a), sa_pubkey_hash (f a), sa_nonce (f a), balance_in (cd_balances db) i)) (find (\<lambda>a. sa_id a = i) (cd_accounts db)))) j"
    using find_update_account [where f = f and i = i and j = j and as = "cd_accounts db"] assms
    by (cases "find (\<lambda>a. sa_id a = j) (cd_accounts db)") (auto simp: tables_view_def update_account_def)
qed

text \<open>The token of an update is one of the list.\<close>

fun token_known :: "token_id list \<Rightarrow> account_update \<Rightarrow> bool" where
  "token_known ts (UpdateBalance old new (token, ob, nb)) \<longleftrightarrow> token \<in> set ts"
| "token_known ts u \<longleftrightarrow> True"

lemma apply_diff_spec:
  assumes "tables_ok db" "update_fits (tables_view db (fst u)) (snd u)"
    and "token_known (cd_tokens db) (snd u)"
  shows "\<exists>db'. apply_diff (to_diff n k u) db = Ok db' \<and> tables_ok db' \<and> tables_view db' = view_step (tables_view db) u \<and>
    without_tables db' = without_tables db"
proof (cases "(n, k, u)" rule: to_diff.cases)
  case (1 n k i addr nonce)
  with assms(2) have none: "find (\<lambda>a. sa_id a = i) (cd_accounts db) = None"
    by (cases "tables_view db i") (auto simp: tables_view_def)
  then have new: "\<not> list_ex (\<lambda>a. sa_id a = i) (cd_accounts db)" by (auto simp: find_None_iff list_ex_iff)
  let ?a = "\<lparr>sa_id = i, sa_last_block = n, sa_nonce = nonce, sa_address = addr, sa_pubkey_hash = 0\<rparr>"
  let ?db = "db\<lparr>cd_accounts := cd_accounts db @ [?a]\<rparr>"
  have ok: "tables_ok ?db" using assms(1) new by (auto simp: tables_ok_def list_ex_iff)
  have snoc: "find (\<lambda>a. sa_id a = j) (as @ [?a]) = (case find (\<lambda>a. sa_id a = j) as of Some a \<Rightarrow> Some a | None \<Rightarrow> if i = j then Some ?a else None)" for as j
    by (induction as) auto
  have "balance_in (cd_balances db) i = (\<lambda>t. 0)"
  proof
    fix t
    have "find (\<lambda>b. sb_account_id b = i \<and> sb_coin_id b = t) (cd_balances db) = None"
      using assms(1) new unfolding find_None_iff tables_ok_def list_ex_iff by fastforce
    then show "balance_in (cd_balances db) i t = 0" by (simp add: balance_in_def)
  qed
  then have "tables_view ?db = view_step (tables_view db) u"
    using 1 none by (auto simp: fun_eq_iff view_step_def tables_view_def snoc split: option.split)
  with ok show ?thesis using 1 new by (intro exI [of _ ?db]) (auto simp: without_tables_def)
next
  case (2 n k i addr nonce)
  let ?db = "db\<lparr>cd_accounts := filter (\<lambda>a. sa_id a \<noteq> i) (cd_accounts db),
            cd_balances := filter (\<lambda>b. sb_account_id b \<noteq> i) (cd_balances db)\<rparr>"
  have "tables_ok ?db" using assms(1) by (auto simp: tables_ok_def distinct_map intro: inj_on_subset)
  moreover have "tables_view ?db = view_step (tables_view db) u"
    using 2 assms(2)
    by (cases "tables_view db i") (auto simp: fun_eq_iff view_step_def tables_view_def find_account_deleted balance_in_deleted)
  ultimately show ?thesis using 2 by (intro exI [of _ ?db]) (auto simp: without_tables_def)
next
  case (3 n k i old_nonce new_nonce token old_balance new_balance)
  with assms(2) have "list_ex (\<lambda>a. sa_id a = i) (cd_accounts db)"
    by (cases "tables_view db i") (auto simp flip: tables_view_exists)
  moreover have "token \<in> set (cd_tokens db)" using assms(3) 3 by auto
  ultimately obtain bs where bs: "upsert_balance i token new_balance db = Ok (db\<lparr>cd_balances := bs\<rparr>)"
    "tables_ok (db\<lparr>cd_balances := bs\<rparr>)"
    "\<And>j s. balance_in bs j s = (if j = i \<and> s = token then new_balance else balance_in (cd_balances db) j s)"
    using upsert_balance_spec [OF assms(1)] by metis
  let ?f = "\<lambda>a. a\<lparr>sa_last_block := n, sa_nonce := new_nonce\<rparr>"
  let ?db = "update_account i ?f (db\<lparr>cd_balances := bs\<rparr>)"
  have "tables_ok ?db" by (rule update_account_ok [OF bs(2)]) simp
  moreover have "tables_view ?db = view_step (tables_view db) u"
    unfolding update_account_view [where f = ?f, simplified]
    using 3 assms(2) bs(3)
    by (cases "find (\<lambda>a. sa_id a = i) (cd_accounts db)") (auto simp: fun_eq_iff view_step_def tables_view_def intro!: option.map_cong0)
  moreover have "without_tables ?db = without_tables db" by (simp add: update_account_def without_tables_def)
  moreover have "apply_diff (to_diff n k u) db = Ok ?db" using 3 bs(1) by simp
  ultimately show ?thesis using 3 by blast
next
  case (4 n k i old_hash new_hash old_nonce new_nonce)
  let ?f = "\<lambda>a. a\<lparr>sa_last_block := n, sa_nonce := new_nonce, sa_pubkey_hash := new_hash\<rparr>"
  let ?db = "update_account i ?f db"
  have "tables_ok ?db" by (rule update_account_ok [OF assms(1)]) simp
  moreover have "tables_view ?db = view_step (tables_view db) u"
    unfolding update_account_view [where f = ?f, simplified]
    using 4 assms(2) by (cases "find (\<lambda>a. sa_id a = i) (cd_accounts db)") (auto simp: fun_eq_iff view_step_def tables_view_def)
  moreover have "without_tables ?db = without_tables db" by (simp add: update_account_def without_tables_def)
  moreover have "apply_diff (to_diff n k u) db = Ok ?db" using 4 by simp
  ultimately show ?thesis using 4 by blast
qed

lemma apply_diffs_spec:
  assumes "tables_ok db" "updates_fit (tables_view db) us" "list_all (token_known (cd_tokens db) \<circ> snd) us"
  shows "\<exists>db'. apply_diffs (diffs_from n k us) db = Ok db' \<and> tables_ok db' \<and>
    tables_view db' = views_update (tables_view db) us \<and> without_tables db' = without_tables db"
  using assms
proof (induction us arbitrary: db k)
  case (Cons u us)
  obtain db1 where db1: "apply_diff (to_diff n k u) db = Ok db1" "tables_ok db1"
    "tables_view db1 = view_step (tables_view db) u" "without_tables db1 = without_tables db"
    using apply_diff_spec [OF Cons.prems(1), of u n k] Cons.prems(2,3) by auto
  have "cd_tokens db1 = cd_tokens db" using db1(4) by (cases db1; cases db) (simp add: without_tables_def)
  with Cons.prems db1 have "\<exists>db'. apply_diffs (diffs_from n (k + 1) us) db1 = Ok db' \<and> tables_ok db' \<and>
      tables_view db' = views_update (tables_view db1) us \<and> without_tables db' = without_tables db1"
    by (intro Cons.IH) auto
  with db1 show ?case by auto
qed auto

text \<open>The tokens of the committed updates are known to the database.\<close>

definition tokens_known :: "chain_db \<Rightarrow> bool" where
  "tokens_known db \<longleftrightarrow> (\<forall>r \<in> set (cd_account_balance_updates db). sau_coin_id r \<in> set (cd_tokens db))"

lemma commit_state_update_tokens:
  "commit_state_update db n us k = Ok db' \<Longrightarrow> tokens_known db \<Longrightarrow> tokens_known db'"
proof (induction us arbitrary: db k)
  case (Cons u us)
  then obtain db1 where db1: "commit_update n k u db = Ok db1" "commit_state_update db1 n us (k + 1) = Ok db'"
    by (auto simp: ok_iffs)
  have "tokens_known db1"
    using db1(1) Cons.prems(2)
    by (cases "(n, k, u)" rule: to_diff.cases) (auto simp: tokens_known_def insert_account_create_def split: if_splits)
  with Cons.IH db1(2) show ?case by blast
qed simp

lemma diffs_from_mem: "u \<in> set us \<Longrightarrow> \<exists>j. to_diff n j u \<in> set (diffs_from n k us)"
  by (induction us arbitrary: k) auto

lemma held_tokens:
  assumes "db_holds U db" "tokens_known db"
  shows "list_all (token_known (cd_tokens db) \<circ> snd) (U n)"
  unfolding list_all_iff
proof
  fix u
  assume "u \<in> set (U n)"
  then obtain j where "to_diff n j u \<in> set (diffs_from n 0 (U n))" using diffs_from_mem by blast
  moreover have "set (diffs_from n 0 (U n)) \<subseteq> set (all_diffs db)"
    using assms(1) unfolding db_holds_def by (metis multiset_filter_subset mset_subset_eqD set_mset_mset subsetI)
  ultimately have "to_diff n j u \<in> set (all_diffs db)" by blast
  then show "(token_known (cd_tokens db) \<circ> snd) u"
    using assms(2)
    by (cases "(n, j, u)" rule: to_diff.cases) (auto simp: all_diffs_def diff_from_creation_def tokens_known_def split: if_splits)
qed

lemma apply_state_update_spec:
  assumes "db_holds U db" "\<forall>n. size (U n) \<le> 2 ^ 31" "tokens_known db" "tables_ok db" "updates_fit (tables_view db) (U n)"
  shows "\<exists>db'. apply_state_update db n = Ok db' \<and> tables_ok db' \<and>
    tables_view db' = views_update (tables_view db) (U n) \<and> without_tables db' = without_tables db"
proof -
  have "load_diffs (\<lambda>i m. m = n) db = range_diffs U [n]"
    by (rule load_diffs_range [OF assms(1,2)]) simp_all
  then have "apply_state_update db n = apply_diffs (diffs_from n 0 (U n)) db"
    by (simp add: apply_state_update_def range_diffs_def)
  with apply_diffs_spec [OF assms(4,5) held_tokens [OF assms(1,3)], of n 0] show ?thesis by auto
qed

section \<open>Committed accounts\<close>

lemma unat_block_of_nat: "k \<le> unat (hi :: block_number) \<Longrightarrow> unat (of_nat k :: block_number) = k"
  using unsigned_less [of hi, where 'a = nat] by (simp add: unsigned_of_nat take_bit_nat_eq_self)

lemma blocks_between_mem: "m \<in> set (blocks_between lo hi) \<longleftrightarrow> lo < m \<and> m \<le> hi"
proof
  assume "m \<in> set (blocks_between lo hi)"
  then obtain k where k: "m = of_nat k" "k \<in> set [unat lo + 1..<unat hi + 1]" unfolding blocks_between_def by auto
  then have "unat m = k" using unat_block_of_nat [of k hi] by auto
  with k show "lo < m \<and> m \<le> hi" by (auto simp: word_less_nat_alt word_le_nat_alt)
next
  assume "lo < m \<and> m \<le> hi"
  then have "unat m \<in> set [unat lo + 1..<unat hi + 1]" by (simp add: word_less_nat_alt word_le_nat_alt) linarith
  then have "of_nat (unat m) \<in> set (blocks_between lo hi)" unfolding blocks_between_def list.set_map by (rule imageI)
  then show "m \<in> set (blocks_between lo hi)" by simp
qed

lemma blocks_between_sorted: "sorted_wrt (<) (blocks_between lo hi)"
proof -
  have "of_nat i < (of_nat j :: block_number)" if "i < j" "j \<le> unat hi" for i j
    using that unat_block_of_nat [of i hi] unat_block_of_nat [of j hi] by (simp add: word_less_nat_alt)
  then show ?thesis
    unfolding blocks_between_def sorted_wrt_map
    by (intro sorted_wrt_mono_rel [OF _ sorted_wrt_upt]) auto
qed

lemma blocks_between_append:
  assumes "lo \<le> m" "m \<le> hi"
  shows "blocks_between lo m @ blocks_between m hi = blocks_between lo hi"
proof -
  have "[unat lo + 1..<unat m + 1] @ [unat m + 1..<unat hi + 1] = [unat lo + 1..<unat hi + 1]"
    using assms upt_add_eq_append [of "unat lo + 1" "unat m + 1" "unat hi - unat m"] by (simp add: word_le_nat_alt)
  then show ?thesis unfolding blocks_between_def by (metis map_append)
qed

lemma blocks_between_same [simp]: "blocks_between m m = []"
  by (simp add: blocks_between_def)

lemma blocks_between_next:
  assumes "lo \<le> hi" "hi < hi + 1"
  shows "blocks_between lo (hi + 1) = blocks_between lo hi @ [hi + 1]"
proof -
  have "1 + hi \<noteq> 0" using assms(2) by (auto simp: add.commute)
  then have "unat (hi + 1) = unat hi + 1" using unatSuc [of hi] by (simp add: add.commute)
  moreover have "unat lo \<le> unat hi" using assms(1) by (simp add: word_le_nat_alt)
  ultimately show ?thesis by (simp add: blocks_between_def)
qed

lemma range_updates_append: "range_updates U (ms @ ns) = range_updates U ms @ range_updates U ns"
  by (simp add: range_updates_def)

lemma max_or_zero_between: "max_or_zero (blocks_between 0 n) = n"
proof (cases "n = 0")
  case False
  then have "n \<in> set (blocks_between 0 n)" by (simp add: blocks_between_mem word_greater_zero_iff)
  moreover have "Max (set (blocks_between 0 n)) = n"
    using calculation by (intro Max_eqI) (auto simp: blocks_between_mem)
  ultimately show ?thesis by (auto simp: max_or_zero_def)
qed (simp add: max_or_zero_def)

text \<open>The state of the tables after blocks up to @n@ were committed and blocks up to @v@ verified, if @U@ are
  the updates of the blocks, those of the genesis and of the next block included.\<close>

record ledger =
  lg_updates :: "block_number \<Rightarrow> account_updates"
  lg_committed :: block_number
  lg_verified :: block_number

definition ledger_view :: "ledger \<Rightarrow> block_number \<Rightarrow> account_id \<Rightarrow> account_view option" where
  "ledger_view g n = views_update (\<lambda>i. None) (range_updates (lg_updates g) (0 # blocks_between 0 n))"

definition ledger_ok :: "ledger \<Rightarrow> bool" where
  "ledger_ok g \<longleftrightarrow> lg_verified g \<le> lg_committed g \<and> lg_committed g < lg_committed g + 1 \<and>
    (\<forall>n. size (lg_updates g n) \<le> 2 ^ 31) \<and> (\<forall>n > lg_committed g + 1. lg_updates g n = []) \<and>
    updates_fit (\<lambda>i. None) (range_updates (lg_updates g) (0 # blocks_between 0 (lg_committed g + 1)))"

definition rows_of :: "action_type \<Rightarrow> chain_db \<Rightarrow> block_number list" where
  "rows_of a db = map or_block_number (filter (\<lambda>r. or_action_type r = a) (cd_operations db))"

definition chain_inv :: "ledger \<Rightarrow> chain_db \<Rightarrow> bool" where
  "chain_inv g db \<longleftrightarrow> ledger_ok g \<and> db_holds (lg_updates g) db \<and> tokens_known db \<and> tables_ok db \<and>
    tables_view db = ledger_view g (lg_verified g) \<and> map sbl_number (cd_blocks db) = blocks_between 0 (lg_committed g) \<and>
    rows_of COMMIT db = blocks_between 0 (lg_committed g) \<and> rows_of VERIFY db = blocks_between 0 (lg_verified g)"

lemma ledger_view_later:
  assumes "m \<le> n"
  shows "ledger_view g n = views_update (ledger_view g m) (range_updates (lg_updates g) (blocks_between m n))"
  using blocks_between_append [of 0 m n] assms
  by (simp add: ledger_view_def range_updates_append [symmetric] views_update_simps(3) [symmetric] del: views_update_simps(3))

lemma ledger_fits:
  assumes "ledger_ok g" "m \<le> n" "n \<le> lg_committed g + 1"
  shows "updates_fit (ledger_view g m) (range_updates (lg_updates g) (blocks_between m n))"
proof -
  have "blocks_between 0 m @ blocks_between m n @ blocks_between n (lg_committed g + 1) = blocks_between 0 (lg_committed g + 1)"
    using assms(2,3) by (simp add: blocks_between_append)
  then have "range_updates (lg_updates g) (0 # blocks_between 0 (lg_committed g + 1)) =
      range_updates (lg_updates g) (0 # blocks_between 0 m) @ range_updates (lg_updates g) (blocks_between m n) @
      range_updates (lg_updates g) (blocks_between n (lg_committed g + 1))"
    by (metis append_Cons range_updates_append)
  with assms(1) show ?thesis by (simp add: ledger_ok_def ledger_view_def updates_fit_append)
qed

lemma last_verified: "chain_inv g db \<Longrightarrow> get_last_block_by_action db VERIFY = lg_verified g"
  by (simp add: chain_inv_def get_last_block_by_action_def max_or_zero_between flip: rows_of_def)

text \<open>The block that the queries name as the last one: the last one with updates.\<close>

definition last_updated :: "ledger \<Rightarrow> block_number \<Rightarrow> block_number \<Rightarrow> block_number" where
  "last_updated g m n = max_or_zero (filter (\<lambda>k. lg_updates g k \<noteq> []) (blocks_between m n))"

lemma max_or_zero_set: "set ms = set ns \<Longrightarrow> max_or_zero ms = max_or_zero ns"
  by (auto simp: max_or_zero_def)

lemma max_range_diffs:
  "max_or_zero (map diff_block_number (range_diffs U ns)) = max_or_zero (filter (\<lambda>k. U k \<noteq> []) ns)"
proof (rule max_or_zero_set)
  have "diff_block_number ` set (diffs_from k 0 us) = (if us = [] then {} else {k})" for k us
    using diffs_from_block by (cases us) fastforce+
  then have "diff_block_number ` set (range_diffs U ns) = (\<Union>k \<in> set ns. if U k = [] then {} else {k})"
    by (simp add: range_diffs_def image_UN)
  then show "set (map diff_block_number (range_diffs U ns)) = set (filter (\<lambda>k. U k \<noteq> []) ns)" by (auto split: if_splits)
qed

lemma state_diff_forward:
  assumes "chain_inv g db" "m \<le> n"
  shows "storage_state_diff db m (Some n) = (let us = range_updates (lg_updates g) (blocks_between m n)
    in if us = [] then None else Some (last_updated g m n, us))"
proof -
  have "load_diffs (\<lambda>i k. m < k \<and> k \<le> n) db = range_diffs (lg_updates g) (blocks_between m n)"
    using assms(1) by (intro load_diffs_range) (auto simp: chain_inv_def ledger_ok_def blocks_between_mem blocks_between_sorted)
  with assms(2) show ?thesis
    by (simp add: storage_state_diff_def Let_def map_diff_into_range max_range_diffs last_updated_def min_def max_def)
qed

lemma state_diff_backward:
  assumes "chain_inv g db" "n < m"
  shows "storage_state_diff db m (Some n) = (let us = range_updates (lg_updates g) (blocks_between n m)
    in if us = [] then None else Some (n, reverse_updates us))"
proof -
  have "load_diffs (\<lambda>i k. n < k \<and> k \<le> m) db = range_diffs (lg_updates g) (blocks_between n m)"
    using assms(1) by (intro load_diffs_range) (auto simp: chain_inv_def ledger_ok_def blocks_between_mem blocks_between_sorted)
  moreover have "\<not> m \<le> n" using assms(2) by simp
  ultimately show ?thesis
    using assms(2) by (simp add: storage_state_diff_def Let_def map_diff_into_range min_def max_def reverse_updates_def)
qed

lemma state_diff_latest:
  assumes "chain_inv g db"
  shows "storage_state_diff db m None = storage_state_diff db m (Some (lg_committed g))"
  using assms by (simp add: storage_state_diff_def chain_inv_def max_or_zero_between)

text \<open>The block whose state a query for block @n@ gives.\<close>

definition loaded_block :: "ledger \<Rightarrow> block_number \<Rightarrow> block_number" where
  "loaded_block g n = (let v = lg_verified g in
    if range_updates (lg_updates g) (blocks_between (min v n) (max v n)) = [] then v
    else if v \<le> n then last_updated g v n else n)"

lemma load_committed_view:
  assumes "chain_inv g db" "n \<le> lg_committed g"
  shows "fst (load_committed_state db (Some n)) = loaded_block g n \<and>
    map_view (snd (load_committed_state db (Some n))) = ledger_view g n"
proof -
  let ?v = "lg_verified g"
  have ok: "ledger_ok g" "tables_ok db" "tables_view db = ledger_view g ?v" using assms(1) by (simp_all add: chain_inv_def)
  obtain accounts where load: "load_verified_state db = (?v, accounts)"
    using last_verified [OF assms(1)] by (simp add: load_verified_state_def)
  have view: "map_view accounts = ledger_view g ?v" using verified_view [OF ok(2)] ok(3) load by simp
  show ?thesis
  proof (cases "?v \<le> n")
    case True
    with load view show ?thesis
      by (auto simp: load_committed_state_def state_diff_forward [OF assms(1)] Let_def loaded_block_def apply_updates_refines
          ledger_view_later [OF True] min_def max_def)
  next
    case False
    then have le: "n \<le> ?v" and less: "n < ?v" by simp_all
    have "?v \<le> lg_committed g + 1" using ok(1) by (auto simp: ledger_ok_def)
    then have "updates_fit (ledger_view g n) (range_updates (lg_updates g) (blocks_between n ?v))"
      by (rule ledger_fits [OF ok(1) le])
    then have "views_update (ledger_view g ?v) (reverse_updates (range_updates (lg_updates g) (blocks_between n ?v))) = ledger_view g n"
      by (simp add: ledger_view_later [OF le] views_update_undo)
    with load view less show ?thesis
      by (auto simp: load_committed_state_def state_diff_backward [OF assms(1)] Let_def loaded_block_def apply_updates_refines
          ledger_view_later [OF le] min_def max_def)
  qed
qed

text \<open>An empty database.\<close>

definition empty_db :: "token_id list \<Rightarrow> chain_db" where
  "empty_db tokens = \<lparr>cd_tokens = tokens, cd_account_creates = [], cd_account_balance_updates = [], cd_account_pubkey_updates = [],
    cd_accounts = [], cd_balances = [], cd_blocks = [], cd_pending_block = [], cd_operations = [], cd_next_operation_id = 1,
    cd_executed_transactions = [], cd_executed_priority_operations = [], cd_proofs = [], cd_pending_withdrawals = [],
    cd_mempool = \<lparr>md_mempool_txs = [], md_next_id = 1, md_next_batch_id = 1\<rparr>\<rparr>"

end
