(* ===== verification/BlockStorage.thy ===== *)
theory BlockStorage
  imports ChainStorage StateKeeper
begin

text \<open>
  The queries on blocks and executed operations: @core/lib/storage/src/chain/block@ and
  @chain/operations@, with the proofs of @prover/mod.rs@ that they use.  An operation is kept as
  JSON, which loses the cached signers of its transaction.  Queries for the explorer (block details,
  hashes of Ethereum transactions) and the cached trees are left out.
\<close>

section \<open>Rows\<close>

text \<open>What @serde_json@ writes and reads of an operation.\<close>

fun stored_op :: "zksync_op \<Rightarrow> zksync_op" where
  "stored_op (OpTransfer op) = OpTransfer (op\<lparr>trop_tx := (trop_tx op)\<lparr>tr_cached_signer := NotCached\<rparr>\<rparr>)"
| "stored_op (OpTransferToNew op) = OpTransferToNew (op\<lparr>tnop_tx := (tnop_tx op)\<lparr>tr_cached_signer := NotCached\<rparr>\<rparr>)"
| "stored_op (OpWithdraw op) = OpWithdraw (op\<lparr>wdop_tx := (wdop_tx op)\<lparr>wd_cached_signer := NotCached\<rparr>\<rparr>)"
| "stored_op (OpChangePubKey op) = OpChangePubKey (op\<lparr>cpop_tx := (cpop_tx op)\<lparr>cp_cached_signer := NotCached\<rparr>\<rparr>)"
| "stored_op (OpForcedExit op) = OpForcedExit (op\<lparr>feop_tx := (feop_tx op)\<lparr>fe_cached_signer := NotCached\<rparr>\<rparr>)"
| "stored_op op = op"

fun from_account_of :: "zksync_tx \<Rightarrow> 160 word" where
  "from_account_of (TxWithdraw tx) = wd_from tx"
| "from_account_of (TxTransfer tx) = tr_from tx"
| "from_account_of (TxChangePubKey tx) = cp_account tx"
| "from_account_of (TxClose tx) = cl_account tx"
| "from_account_of (TxForcedExit tx) = fe_target tx"

fun to_account_of :: "zksync_tx \<Rightarrow> 160 word option" where
  "to_account_of (TxWithdraw tx) = Some (wd_to tx)"
| "to_account_of (TxTransfer tx) = Some (tr_to tx)"
| "to_account_of (TxChangePubKey tx) = Some (cp_new_pk_hash tx)"
| "to_account_of (TxClose tx) = Some (cl_account tx)"
| "to_account_of (TxForcedExit tx) = Some (fe_target tx)"

definition prepare_stored_tx :: "crypto \<Rightarrow> executed_tx \<Rightarrow> block_number \<Rightarrow> (error, stored_executed_transaction) res" where
  "prepare_stored_tx c exec_tx block =
    (let tx = stx_tx (etx_signed_tx exec_tx)
     in res_map (\<lambda>hash.
          \<lparr>set_block_number = block, set_block_index = etx_block_index exec_tx, set_tx = stored_form tx,
           set_operation = map_option stored_op (etx_op exec_tx), set_tx_hash = hash, set_from_account = from_account_of tx,
           set_to_account = to_account_of tx, set_success = etx_success exec_tx, set_fail_reason = etx_fail_reason exec_tx,
           set_primary_account_address = tx_account tx, set_nonce = tx_nonce tx,
           set_eth_sign_data = stx_eth_sign_data (etx_signed_tx exec_tx), set_batch_id = etx_batch_id exec_tx\<rparr>)
        (unwrap (tx_hash c tx)))"

text \<open>@u32::try_from@ of the @i32@ column panics for an index that wrapped around.\<close>

definition index_from_i32 :: "32 word \<Rightarrow> (error, 32 word) res" where
  "index_from_i32 idx = (if sint idx < 0 then Panic else Ok idx)"

definition into_executed_tx :: "stored_executed_transaction \<Rightarrow> (error, executed_tx) res" where
  "into_executed_tx r =
    res_map (\<lambda>block_index.
      \<lparr>etx_signed_tx = \<lparr>stx_tx = set_tx r, stx_eth_sign_data = set_eth_sign_data r\<rparr>, etx_success = set_success r,
       etx_op = set_operation r, etx_fail_reason = set_fail_reason r, etx_block_index = block_index,
       etx_batch_id = set_batch_id r\<rparr>)
      (case set_block_index r of None \<Rightarrow> Ok None | Some idx \<Rightarrow> res_map Some (index_from_i32 idx))"

definition prepare_stored_priority_op ::
  "executed_priority_op \<Rightarrow> block_number \<Rightarrow> (error, stored_executed_priority_operation) res" where
  "prepare_stored_priority_op p block =
    res_map (\<lambda>(from_account, to_account).
      \<lparr>sep_block_number = block, sep_block_index = epo_block_index p, sep_operation = stored_op (epo_op p),
       sep_from_account = from_account, sep_to_account = to_account,
       sep_priority_op_serialid = po_serial_id (epo_priority_op p), sep_deadline_block = po_deadline_block (epo_priority_op p),
       sep_eth_hash = po_eth_hash (epo_priority_op p), sep_eth_block = po_eth_block (epo_priority_op p)\<rparr>)
    (case epo_op p of
       OpDeposit d \<Rightarrow> Ok (dep_from (depop_priority_op d), dep_to (depop_priority_op d))
     | OpFullExit f \<Rightarrow> Ok (fx_eth_address (fxop_priority_op f), fx_eth_address (fxop_priority_op f))
     | _ \<Rightarrow> Panic)"

definition into_executed :: "stored_executed_priority_operation \<Rightarrow> (error, executed_priority_op) res" where
  "into_executed r = res_map (\<lambda>data.
      \<lparr>epo_priority_op = \<lparr>po_serial_id = sep_priority_op_serialid r, po_data = data,
         po_deadline_block = sep_deadline_block r, po_eth_hash = sep_eth_hash r, po_eth_block = sep_eth_block r\<rparr>,
       epo_op = sep_operation r, epo_block_index = sep_block_index r\<rparr>)
    (unwrap (op_try_get_priority_op (sep_operation r)))"

section \<open>The operations schema\<close>

definition get_operation :: "chain_db \<Rightarrow> block_number \<Rightarrow> action_type \<Rightarrow> operation_row option" where
  "get_operation db block_number a =
    find (\<lambda>r. or_block_number r = block_number \<and> or_action_type r = a) (cd_operations db)"

definition get_executed_operation :: "chain_db \<Rightarrow> h256 \<Rightarrow> stored_executed_transaction option" where
  "get_executed_operation db op_hash = find (\<lambda>r. set_tx_hash r = op_hash) (cd_executed_transactions db)"

definition get_executed_priority_operation :: "chain_db \<Rightarrow> 32 word \<Rightarrow> stored_executed_priority_operation option" where
  "get_executed_priority_operation db priority_op_id =
    find (\<lambda>r. sep_priority_op_serialid r = ucast priority_op_id) (cd_executed_priority_operations db)"

definition get_executed_priority_operation_by_hash ::
  "chain_db \<Rightarrow> byte list \<Rightarrow> stored_executed_priority_operation option" where
  "get_executed_priority_operation_by_hash db eth_hash =
    find (\<lambda>r. sep_eth_hash r = eth_hash) (cd_executed_priority_operations db)"

definition store_operation :: "chain_db \<Rightarrow> block_number \<Rightarrow> action_type \<Rightarrow> operation_row \<times> chain_db" where
  "store_operation db block_number a =
    (let row = \<lparr>or_id = cd_next_operation_id db, or_block_number = block_number, or_action_type = a, or_confirmed = False\<rparr>
     in (row, db\<lparr>cd_operations := cd_operations db @ [row], cd_next_operation_id := cd_next_operation_id db + 1\<rparr>))"

text \<open>Neither statement names the column @batch_id@, which is then null.\<close>

definition store_executed_operation :: "chain_db \<Rightarrow> stored_executed_transaction \<Rightarrow> chain_db" where
  "store_executed_operation db operation =
    (let db = db\<lparr>cd_mempool := mempool_remove_tx (cd_mempool db) (set_tx_hash operation)\<rparr>;
         row = operation\<lparr>set_batch_id := None\<rparr>;
         conflict = list_ex (\<lambda>r. set_tx_hash r = set_tx_hash operation) (cd_executed_transactions db)
     in if \<not> conflict then db\<lparr>cd_executed_transactions := cd_executed_transactions db @ [row]\<rparr>
        else if set_success operation then
          db\<lparr>cd_executed_transactions := map (\<lambda>r. if set_tx_hash r = set_tx_hash operation
            then row\<lparr>set_batch_id := set_batch_id r\<rparr> else r) (cd_executed_transactions db)\<rparr>
        else db)"

definition store_executed_priority_operation :: "chain_db \<Rightarrow> stored_executed_priority_operation \<Rightarrow> chain_db" where
  "store_executed_priority_operation db operation =
    (if list_ex (\<lambda>r. sep_priority_op_serialid r = sep_priority_op_serialid operation) (cd_executed_priority_operations db)
     then db
     else db\<lparr>cd_executed_priority_operations := cd_executed_priority_operations db @ [operation]\<rparr>)"

definition add_pending_withdrawal :: "chain_db \<Rightarrow> h256 \<Rightarrow> int option \<Rightarrow> (error, chain_db) res" where
  "add_pending_withdrawal db hash id_opt =
    res_map (\<lambda>pending_withdrawal_id. db\<lparr>cd_pending_withdrawals :=
        (if list_ex (\<lambda>r. fst r = pending_withdrawal_id) (cd_pending_withdrawals db)
         then map (\<lambda>r. if fst r = pending_withdrawal_id then (pending_withdrawal_id, hash) else r) (cd_pending_withdrawals db)
         else cd_pending_withdrawals db @ [(pending_withdrawal_id, hash)])\<rparr>)
    (case id_opt of
       Some i \<Rightarrow> Ok i
     | None \<Rightarrow> if cd_pending_withdrawals db = [] then Err ''there is no pending withdrawals in the db''
         else Ok (Max (fst ` set (cd_pending_withdrawals db)) + 1))"

definition no_stored_pending_withdrawals :: "chain_db \<Rightarrow> bool" where
  "no_stored_pending_withdrawals db \<longleftrightarrow> cd_pending_withdrawals db = []"

section \<open>The block schema\<close>

fun save_block_transactions :: "crypto \<Rightarrow> chain_db \<Rightarrow> block_number \<Rightarrow> executed_operation list \<Rightarrow> (error, chain_db) res" where
  "save_block_transactions c db n [] = Ok db"
| "save_block_transactions c db n (ExecTx tx # ops) =
     res_bind (prepare_stored_tx c tx n) (\<lambda>new_tx. save_block_transactions c (store_executed_operation db new_tx) n ops)"
| "save_block_transactions c db n (ExecPriority p # ops) =
     res_bind (prepare_stored_priority_op p n) (\<lambda>new_op.
       save_block_transactions c (store_executed_priority_operation db new_op) n ops)"

fun res_all :: "('a \<Rightarrow> ('e, 'b) res) \<Rightarrow> 'a list \<Rightarrow> ('e, 'b list) res" where
  "res_all f [] = Ok []"
| "res_all f (x # xs) = res_bind (f x) (\<lambda>y. res_map ((#) y) (res_all f xs))"

fun exec_order :: "executed_operation \<Rightarrow> 32 word" where
  "exec_order (ExecTx tx) = (case etx_block_index tx of Some idx \<Rightarrow> idx | None \<Rightarrow> - 1)"
| "exec_order (ExecPriority p) = epo_block_index p"

definition get_block_executed_ops :: "chain_db \<Rightarrow> block_number \<Rightarrow> (error, executed_operation list) res" where
  "get_block_executed_ops db block =
    res_bind (res_all into_executed_tx (filter (\<lambda>r. set_block_number r = block) (cd_executed_transactions db))) (\<lambda>txs.
    res_map (\<lambda>prios. sort_key exec_order (map ExecTx txs @ map ExecPriority prios))
      (res_all into_executed (filter (\<lambda>r. sep_block_number r = block) (cd_executed_priority_operations db))))"

definition get_block_operations :: "chain_db \<Rightarrow> block_number \<Rightarrow> (error, zksync_op list) res" where
  "get_block_operations db block = res_map (List.map_filter get_executed_op) (get_block_executed_ops db block)"

definition get_storage_block :: "chain_db \<Rightarrow> block_number \<Rightarrow> storage_block option" where
  "get_storage_block db block = find (\<lambda>r. sbl_number r = block) (cd_blocks db)"

definition get_block :: "chain_db \<Rightarrow> block_number \<Rightarrow> (error, block option) res" where
  "get_block db block = (case get_storage_block db block of
      None \<Rightarrow> Ok None
    | Some b \<Rightarrow> res_map (\<lambda>txs. Some (block_new block (sbl_root_hash b) (sbl_fee_account_id b) txs
        (sbl_unprocessed_prior_op_before b, sbl_unprocessed_prior_op_after b) (sbl_block_size b)
        (unat (sbl_commit_gas_limit b)) (unat (sbl_verify_gas_limit b)))) (get_block_executed_ops db block))"

text \<open>@U256::as_u64@ of a gas limit.\<close>

definition gas_as_u64 :: "nat \<Rightarrow> (error, 64 word) res" where
  "gas_as_u64 g = (if g < 2 ^ 64 then Ok (of_nat g) else Panic)"

definition save_block :: "crypto \<Rightarrow> chain_db \<Rightarrow> block \<Rightarrow> (error, chain_db) res" where
  "save_block c db b =
    res_bind (gas_as_u64 (bl_commit_gas_limit b)) (\<lambda>commit_gas_limit.
    res_bind (gas_as_u64 (bl_verify_gas_limit b)) (\<lambda>verify_gas_limit.
    res_bind (save_block_transactions c db (bl_block_number b) (bl_block_transactions b)) (\<lambda>db.
      let db = db\<lparr>cd_pending_block := filter (\<lambda>p. spl_number p \<noteq> bl_block_number b) (cd_pending_block db)\<rparr>
      in if get_storage_block db (bl_block_number b) \<noteq> None then Err ''duplicate key of blocks''
         else Ok (db\<lparr>cd_blocks := cd_blocks db @ [\<lparr>sbl_number = bl_block_number b, sbl_root_hash = bl_new_root_hash b,
            sbl_fee_account_id = bl_fee_account b, sbl_unprocessed_prior_op_before = fst (bl_processed_priority_ops b),
            sbl_unprocessed_prior_op_after = snd (bl_processed_priority_ops b), sbl_block_size = bl_block_chunks_size b,
            sbl_commit_gas_limit = commit_gas_limit, sbl_verify_gas_limit = verify_gas_limit\<rparr>]\<rparr>))))"

text \<open>@ORDER BY number DESC LIMIT 1@.\<close>

definition load_storage_pending_block :: "chain_db \<Rightarrow> storage_pending_block option" where
  "load_storage_pending_block db =
    find (\<lambda>p. spl_number p = max_or_zero (map spl_number (cd_pending_block db))) (cd_pending_block db)"

definition pending_block_exists :: "chain_db \<Rightarrow> bool" where
  "pending_block_exists db \<longleftrightarrow> load_storage_pending_block db \<noteq> None"

fun is_failed_tx :: "executed_operation \<Rightarrow> bool" where
  "is_failed_tx (ExecTx tx) \<longleftrightarrow> \<not> etx_success tx"
| "is_failed_tx (ExecPriority p) \<longleftrightarrow> False"

definition load_pending_block :: "chain_db \<Rightarrow> (error, sendable_pending_block option) res" where
  "load_pending_block db = (case load_storage_pending_block db of
      None \<Rightarrow> Ok None
    | Some p \<Rightarrow> res_map (\<lambda>executed_ops. Some
        \<lparr>spb_number = spl_number p, spb_chunks_left = spl_chunks_left p,
         spb_unprocessed_priority_op_before = spl_unprocessed_priority_op_before p,
         spb_pending_block_iteration = spl_pending_block_iteration p,
         spb_success_operations = filter (\<lambda>op. \<not> is_failed_tx op) executed_ops,
         spb_failed_txs = List.map_filter get_executed_tx (filter is_failed_tx executed_ops)\<rparr>)
        (get_block_executed_ops db (spl_number p)))"

definition save_pending_block :: "crypto \<Rightarrow> chain_db \<Rightarrow> sendable_pending_block \<Rightarrow> (error, chain_db) res" where
  "save_pending_block c db pb =
    (let row = \<lparr>spl_number = spb_number pb, spl_chunks_left = spb_chunks_left pb,
           spl_unprocessed_priority_op_before = spb_unprocessed_priority_op_before pb,
           spl_pending_block_iteration = spb_pending_block_iteration pb\<rparr>;
         db = db\<lparr>cd_pending_block :=
           (if list_ex (\<lambda>p. spl_number p = spb_number pb) (cd_pending_block db)
            then map (\<lambda>p. if spl_number p = spb_number pb then row else p) (cd_pending_block db)
            else cd_pending_block db @ [row])\<rparr>
     in save_block_transactions c db (spb_number pb) (spb_success_operations pb @ map ExecTx (spb_failed_txs pb)))"

definition load_proof :: "chain_db \<Rightarrow> block_number \<Rightarrow> encoded_proof_plonk option" where
  "load_proof db n = map_option snd (find (\<lambda>p. fst p = n) (cd_proofs db))"

definition store_proof :: "chain_db \<Rightarrow> block_number \<Rightarrow> encoded_proof_plonk \<Rightarrow> chain_db" where
  "store_proof db n proof = db\<lparr>cd_proofs := cd_proofs db @ [(n, proof)]\<rparr>"

definition row_into_op :: "chain_db \<Rightarrow> operation_row \<Rightarrow> (error, operation) res" where
  "row_into_op db r =
    res_bind (case or_action_type r of
        COMMIT \<Rightarrow> Ok ActCommit
      | VERIFY \<Rightarrow> res_map ActVerify (expect (load_proof db (or_block_number r)))) (\<lambda>action.
    res_bind (get_block db (or_block_number r)) (\<lambda>b.
    res_map (\<lambda>block. \<lparr>opn_id = Some (or_id r), opn_action = action, opn_block = block\<rparr>) (expect b)))"

definition execute_operation :: "crypto \<Rightarrow> chain_db \<Rightarrow> operation \<Rightarrow> (error, operation \<times> chain_db) res" where
  "execute_operation c db op =
    (let block_number = bl_block_number (opn_block op)
     in res_bind (case opn_action op of
          ActCommit \<Rightarrow> res_map (Pair COMMIT) (save_block c db (opn_block op))
        | ActVerify proof \<Rightarrow> res_map (Pair VERIFY)
            (apply_state_update (if load_proof db block_number = None then store_proof db block_number proof else db) block_number))
        (\<lambda>(action_type, db).
          let (row, db) = store_operation db block_number action_type
          in res_map (\<lambda>result. (result, db)) (row_into_op db row)))"

definition load_commit_op :: "chain_db \<Rightarrow> block_number \<Rightarrow> (error, operation option) res" where
  "load_commit_op db n = (case get_operation db n COMMIT of
      None \<Rightarrow> Ok None
    | Some r \<Rightarrow> (case row_into_op db r of Ok op \<Rightarrow> Ok (Some op) | Err e \<Rightarrow> Ok None | Panic \<Rightarrow> Panic))"

definition load_committed_block :: "chain_db \<Rightarrow> block_number \<Rightarrow> (error, block option) res" where
  "load_committed_block db n = res_map (map_option opn_block) (load_commit_op db n)"

definition get_last_committed_block :: "chain_db \<Rightarrow> block_number" where
  "get_last_committed_block db = get_last_block_by_action db COMMIT"

definition get_last_verified_block :: "chain_db \<Rightarrow> block_number" where
  "get_last_verified_block db = get_last_block_by_action db VERIFY"

definition count_operations :: "chain_db \<Rightarrow> action_type \<Rightarrow> bool \<Rightarrow> nat" where
  "count_operations db a confirmed =
    size (filter (\<lambda>r. or_action_type r = a \<and> or_confirmed r = confirmed) (cd_operations db))"

end
