(* ===== verification/BlockProps.thy ===== *)
theory BlockProps
  imports ChainProps BlockStorage
begin

text \<open>
  What the tables of blocks and executed operations promise: the operations of a block, or of a pending
  block, are loaded in the order in which they were executed.
\<close>

section \<open>Sorting\<close>

lemma sort_key_parts:
  assumes "sorted (map f xs)" "\<And>x y. x \<in> set xs \<Longrightarrow> y \<in> set xs \<Longrightarrow> f x = f y \<Longrightarrow> P x = P y"
  shows "sort_key f (filter P xs @ filter (\<lambda>x. \<not> P x) xs) = xs"
proof (rule properties_for_sort_key [OF _ _ assms(1)])
  show "mset xs = mset (filter P xs @ filter (\<lambda>x. \<not> P x) xs)" by (simp add: multiset_partition)
  fix x
  assume x: "x \<in> set xs"
  have same: "filter (\<lambda>y. f x = f y) (filter Q xs) = (if Q x then filter (\<lambda>y. f x = f y) xs else [])"
    if Q: "\<And>y. y \<in> set xs \<Longrightarrow> f x = f y \<Longrightarrow> Q y = Q x" for Q
  proof -
    have "filter (\<lambda>y. Q y \<and> f x = f y) xs = filter (\<lambda>y. Q x \<and> f x = f y) xs" by (rule filter_cong) (use Q in auto)
    then show ?thesis by simp
  qed
  have P: "P y = P x" if "y \<in> set xs" "f x = f y" for y using assms(2) [OF x that] by simp
  have "filter (\<lambda>y. f x = f y) (filter P xs) = (if P x then filter (\<lambda>y. f x = f y) xs else [])"
    "filter (\<lambda>y. f x = f y) (filter (\<lambda>x. \<not> P x) xs) = (if \<not> P x then filter (\<lambda>y. f x = f y) xs else [])"
    by (rule same; simp add: P)+
  then show "filter (\<lambda>y. f x = f y) xs = filter (\<lambda>y. f x = f y) (filter P xs @ filter (\<lambda>x. \<not> P x) xs)"
    by (simp only: filter_append split: if_split) simp
qed

lemma res_all_Ok: "(\<And>x. x \<in> set xs \<Longrightarrow> f x = Ok (g x)) \<Longrightarrow> res_all f xs = Ok (map g xs)"
  by (induction xs) simp_all

lemma res_all_map: "res_all f (map g xs) = res_all (f \<circ> g) xs"
  by (induction xs) simp_all

lemma find_append_new: "find P xs = None \<Longrightarrow> find P (xs @ ys) = find P ys"
  by (induction xs) (simp_all split: if_splits)

section \<open>Rows\<close>

fun is_tx_op :: "executed_operation \<Rightarrow> bool" where
  "is_tx_op (ExecTx tx) = True"
| "is_tx_op (ExecPriority p) = False"

text \<open>The key of an operation in its table, if it has one.\<close>

fun op_key :: "crypto \<Rightarrow> executed_operation \<Rightarrow> (h256 + 64 word) option" where
  "op_key c (ExecTx tx) = (case tx_hash c (stx_tx (etx_signed_tx tx)) of Ok h \<Rightarrow> Some (Inl h) | _ \<Rightarrow> None)"
| "op_key c (ExecPriority p) = Some (Inr (po_serial_id (epo_priority_op p)))"

definition stored_keys :: "chain_db \<Rightarrow> (h256 + 64 word) set" where
  "stored_keys db = Inl ` set_tx_hash ` set (cd_executed_transactions db) \<union>
    Inr ` sep_priority_op_serialid ` set (cd_executed_priority_operations db)"

text \<open>What an operation is after it was stored: the signers cached in its transaction and the number of its
  batch are lost.\<close>

definition stored_tx :: "executed_tx \<Rightarrow> executed_tx" where
  "stored_tx tx = tx\<lparr>etx_signed_tx := (etx_signed_tx tx)\<lparr>stx_tx := stored_form (stx_tx (etx_signed_tx tx))\<rparr>,
     etx_op := map_option stored_op (etx_op tx), etx_batch_id := None\<rparr>"

definition stored_prio :: "executed_priority_op \<Rightarrow> executed_priority_op" where
  "stored_prio p = p\<lparr>epo_op := stored_op (epo_op p)\<rparr>"

fun stored_exec :: "executed_operation \<Rightarrow> executed_operation" where
  "stored_exec (ExecTx tx) = ExecTx (stored_tx tx)"
| "stored_exec (ExecPriority p) = ExecPriority (stored_prio p)"

text \<open>An operation that the keeper can have executed: the operation of a priority operation comes from it, and a
  position is a small number.\<close>

fun exec_fine :: "executed_operation \<Rightarrow> bool" where
  "exec_fine (ExecTx tx) \<longleftrightarrow> (case etx_block_index tx of Some i \<Rightarrow> unat i < 2 ^ 31 | None \<Rightarrow> True)"
| "exec_fine (ExecPriority p) \<longleftrightarrow> op_try_get_priority_op (epo_op p) = Ok (po_data (epo_priority_op p)) \<and>
    unat (epo_block_index p) < 2 ^ 31"

definition ops_fine :: "crypto \<Rightarrow> executed_operation list \<Rightarrow> bool" where
  "ops_fine c ops \<longleftrightarrow> list_all exec_fine ops \<and> None \<notin> op_key c ` set ops \<and> distinct (map (op_key c) ops)"

definition tx_row :: "crypto \<Rightarrow> block_number \<Rightarrow> executed_tx \<Rightarrow> stored_executed_transaction" where
  "tx_row c n tx = (case prepare_stored_tx c tx n of Ok r \<Rightarrow> r\<lparr>set_batch_id := None\<rparr> | _ \<Rightarrow> undefined)"

definition prio_row :: "block_number \<Rightarrow> executed_priority_op \<Rightarrow> stored_executed_priority_operation" where
  "prio_row n p = (case prepare_stored_priority_op p n of Ok r \<Rightarrow> r | _ \<Rightarrow> undefined)"

fun exec_tx_of :: "executed_operation \<Rightarrow> executed_tx option" where
  "exec_tx_of (ExecTx tx) = Some tx"
| "exec_tx_of (ExecPriority p) = None"

fun exec_prio_of :: "executed_operation \<Rightarrow> executed_priority_op option" where
  "exec_prio_of (ExecTx tx) = None"
| "exec_prio_of (ExecPriority p) = Some p"

lemma tx_row_prepared:
  assumes "op_key c (ExecTx tx) \<noteq> None"
  shows "\<exists>r. prepare_stored_tx c tx n = Ok r \<and> tx_row c n tx = r\<lparr>set_batch_id := None\<rparr> \<and> op_key c (ExecTx tx) = Some (Inl (set_tx_hash r)) \<and>
    set_block_number r = n"
  using assms by (cases "tx_hash c (stx_tx (etx_signed_tx tx))") (simp_all add: prepare_stored_tx_def tx_row_def Let_def)

lemma prio_row_prepared:
  assumes "exec_fine (ExecPriority p)"
  shows "\<exists>r. (prepare_stored_priority_op p n :: (error, _) res) = Ok r \<and> prio_row n p = r \<and>
    sep_priority_op_serialid r = po_serial_id (epo_priority_op p) \<and> sep_block_number r = n"
  using assms by (cases "epo_op p") (simp_all add: prepare_stored_priority_op_def prio_row_def)

lemma index_from_small: "unat i < 2 ^ 31 \<Longrightarrow> index_from_i32 i = Ok i"
  using sint_of_nat [of "unat i"] by (simp add: index_from_i32_def)

lemma tx_row_loaded:
  assumes "op_key c (ExecTx tx) \<noteq> None" "exec_fine (ExecTx tx)"
  shows "into_executed_tx (tx_row c n tx) = Ok (stored_tx tx)"
  using assms
  by (cases "tx_hash c (stx_tx (etx_signed_tx tx))"; cases "etx_block_index tx")
    (simp_all add: prepare_stored_tx_def tx_row_def Let_def into_executed_tx_def stored_tx_def index_from_small)

lemma prio_row_loaded:
  assumes "exec_fine (ExecPriority p)"
  shows "into_executed (prio_row n p) = Ok (stored_prio p)"
  using assms
  by (cases "epo_op p") (auto simp: prepare_stored_priority_op_def prio_row_def into_executed_def stored_prio_def)

section \<open>Saving\<close>

lemma save_block_transactions_rows:
  assumes "ops_fine c ops" "\<forall>op \<in> set ops. the (op_key c op) \<notin> stored_keys db"
  shows "\<exists>mp. save_block_transactions c db n ops = Ok (db\<lparr>
    cd_executed_transactions := cd_executed_transactions db @ map (tx_row c n) (List.map_filter exec_tx_of ops),
    cd_executed_priority_operations := cd_executed_priority_operations db @ map (prio_row n) (List.map_filter exec_prio_of ops),
    cd_mempool := mp\<rparr>)"
  using assms
proof (induction ops arbitrary: db)
  case Nil
  show ?case by (intro exI [of _ "cd_mempool db"]) (simp add: map_filter_simps)
next
  case (Cons op ops)
  have fine: "ops_fine c ops" "exec_fine op" "op_key c op \<noteq> None" "op_key c op \<notin> op_key c ` set ops"
    using Cons.prems(1) by (auto simp: ops_fine_def)
  have other: "the (op_key c op') \<noteq> the (op_key c op)" if "op' \<in> set ops" for op'
    using that fine(1,3,4) by (metis (no_types, lifting) image_eqI ops_fine_def option.expand)
  show ?case
  proof (cases op)
    case (ExecTx tx)
    obtain r where r: "prepare_stored_tx c tx n = Ok r" "tx_row c n tx = r\<lparr>set_batch_id := None\<rparr>"
      "op_key c op = Some (Inl (set_tx_hash r))"
      using tx_row_prepared [of c tx n] fine(3) ExecTx by auto
    have new: "Inl (set_tx_hash r) \<notin> stored_keys db" using Cons.prems(2) r(3) by auto
    let ?db = "db\<lparr>cd_executed_transactions := cd_executed_transactions db @ [tx_row c n tx],
      cd_mempool := mempool_remove_tx (cd_mempool db) (set_tx_hash r)\<rparr>"
    have stored: "store_executed_operation db r = ?db"
      using new by (auto simp: store_executed_operation_def Let_def stored_keys_def list_ex_iff r(2) image_iff)
    have "stored_keys ?db = insert (Inl (set_tx_hash r)) (stored_keys db)" by (auto simp: stored_keys_def r(2))
    then have "\<forall>op \<in> set ops. the (op_key c op) \<notin> stored_keys ?db"
      using Cons.prems(2) other r(3) by simp
    from Cons.IH [OF fine(1) this] show ?thesis
      by (auto simp: ExecTx r(1) stored map_filter_simps)
  next
    case (ExecPriority p)
    obtain r where r: "prepare_stored_priority_op p n = (Ok r :: (error, _) res)" "prio_row n p = r"
      "sep_priority_op_serialid r = po_serial_id (epo_priority_op p)"
      using prio_row_prepared [of p n] fine(2) ExecPriority by auto
    have new: "Inr (sep_priority_op_serialid r) \<notin> stored_keys db" using Cons.prems(2) r(3) ExecPriority by auto
    let ?db = "db\<lparr>cd_executed_priority_operations := cd_executed_priority_operations db @ [r]\<rparr>"
    have stored: "store_executed_priority_operation db r = ?db"
      using new by (auto simp: store_executed_priority_operation_def stored_keys_def list_ex_iff image_iff)
    have "stored_keys ?db = insert (Inr (sep_priority_op_serialid r)) (stored_keys db)" by (auto simp: stored_keys_def)
    then have "\<forall>op \<in> set ops. the (op_key c op) \<notin> stored_keys ?db"
      using Cons.prems(2) other r(3) ExecPriority by simp
    from Cons.IH [OF fine(1) this] show ?thesis
      by (auto simp: ExecPriority r(1,2) stored map_filter_simps)
  qed
qed

section \<open>Loading\<close>

lemma stored_index [simp]: "etx_block_index (stored_tx tx) = etx_block_index tx"
  by (simp add: stored_tx_def)

lemma exec_order_stored [simp]: "exec_order (stored_exec op) = exec_order op"
  by (cases op) (simp_all add: stored_tx_def stored_prio_def)

definition no_ops_of :: "chain_db \<Rightarrow> block_number \<Rightarrow> bool" where
  "no_ops_of db n \<longleftrightarrow> (\<forall>r \<in> set (cd_executed_transactions db). set_block_number r \<noteq> n) \<and>
    (\<forall>r \<in> set (cd_executed_priority_operations db). sep_block_number r \<noteq> n)"

text \<open>The operations of a block: those that succeeded in the order of their positions, then the failed ones.\<close>

definition in_order :: "executed_operation list \<Rightarrow> executed_tx list \<Rightarrow> bool" where
  "in_order ss fs \<longleftrightarrow> sorted_wrt (<) (map exec_order ss) \<and> (\<forall>op \<in> set ss. exec_order op \<noteq> - 1) \<and>
    (\<forall>tx \<in> set fs. etx_block_index tx = None)"

lemma in_order_sorted:
  assumes "in_order ss fs"
  shows "sorted (map exec_order (ss @ map ExecTx fs))"
proof -
  have "sorted (map exec_order ss)" using assms by (auto simp: in_order_def strict_sorted_imp_sorted)
  moreover have "sorted (map exec_order (map ExecTx fs))"
    using assms by (induction fs) (auto simp: in_order_def)
  moreover have "exec_order op \<le> exec_order (ExecTx tx)" if "tx \<in> set fs" for op tx
    using that assms by (simp add: in_order_def)
  ultimately show ?thesis by (auto simp: sorted_append)
qed

lemma in_order_kind:
  assumes "in_order ss fs" "x \<in> set (ss @ map ExecTx fs)" "y \<in> set (ss @ map ExecTx fs)" "exec_order x = exec_order y"
  shows "is_tx_op x = is_tx_op y"
proof -
  have "inj_on exec_order (set ss)" using assms(1) by (simp add: in_order_def strict_sorted_iff distinct_map)
  have kind: "if exec_order z = - 1 then z \<in> ExecTx ` set fs else z \<in> set ss" if "z \<in> set (ss @ map ExecTx fs)" for z
    using that assms(1) by (auto simp: in_order_def)
  show ?thesis
  proof (cases "exec_order x = - 1")
    case True
    with kind [OF assms(2)] kind [OF assms(3)] assms(4) have "x \<in> ExecTx ` set fs" "y \<in> ExecTx ` set fs" by simp_all
    then show ?thesis by auto
  next
    case False
    with kind [OF assms(2)] kind [OF assms(3)] assms(4) have "x \<in> set ss" "y \<in> set ss" by simp_all
    with \<open>inj_on exec_order (set ss)\<close> assms(4) have "x = y" by (auto dest: inj_onD)
    then show ?thesis by simp
  qed
qed

lemma stored_parts:
  "map ExecTx (map stored_tx (List.map_filter exec_tx_of ops)) = filter is_tx_op (map stored_exec ops)"
  "map ExecPriority (map stored_prio (List.map_filter exec_prio_of ops)) = filter (\<lambda>op. \<not> is_tx_op op) (map stored_exec ops)"
proof (induction ops)
  case (Cons op ops)
  { case 1 from Cons show ?case by (cases op) (simp_all add: map_filter_simps) }
  { case 2 from Cons show ?case by (cases op) (simp_all add: map_filter_simps) }
qed (simp_all add: map_filter_simps)

lemma is_tx_op_stored [simp]: "is_tx_op (stored_exec op) = is_tx_op op"
  by (cases op) simp_all

lemma map_filter_mem: "x \<in> set (List.map_filter f xs) \<longleftrightarrow> (\<exists>y \<in> set xs. f y = Some x)"
  by (induction xs) (auto simp: map_filter_simps split: option.splits)

lemma ops_fine_mem:
  assumes "ops_fine c ops" "op \<in> set ops"
  shows "exec_fine op \<and> op_key c op \<noteq> None"
  using assms unfolding ops_fine_def list_all_iff by (metis image_eqI)

lemma get_block_executed_ops_stored:
  assumes ops: "ops = ss @ map ExecTx fs" "in_order ss fs" "ops_fine c ops" and old: "no_ops_of db n"
    and db': "cd_executed_transactions db' = cd_executed_transactions db @ map (tx_row c n) (List.map_filter exec_tx_of ops)"
      "cd_executed_priority_operations db' = cd_executed_priority_operations db @ map (prio_row n) (List.map_filter exec_prio_of ops)"
  shows "get_block_executed_ops db' n = Ok (map stored_exec ops)"
proof -
  have tx: "set_block_number (tx_row c n tx) = n \<and> into_executed_tx (tx_row c n tx) = Ok (stored_tx tx)"
    if tx: "tx \<in> set (List.map_filter exec_tx_of ops)" for tx
  proof -
    obtain op where op: "op \<in> set ops" "exec_tx_of op = Some tx" using tx by (auto simp: map_filter_mem)
    have "op = ExecTx tx" using op(2) by (cases op) simp_all
    then have "ExecTx tx \<in> set ops" using op(1) by simp
    with ops_fine_mem [OF ops(3) this] tx_row_prepared [of c tx n] tx_row_loaded [of c tx n] show ?thesis by auto
  qed
  have prio: "sep_block_number (prio_row n p) = n \<and> into_executed (prio_row n p) = Ok (stored_prio p)"
    if p: "p \<in> set (List.map_filter exec_prio_of ops)" for p
  proof -
    obtain op where op: "op \<in> set ops" "exec_prio_of op = Some p" using p by (auto simp: map_filter_mem)
    have "op = ExecPriority p" using op(2) by (cases op) simp_all
    then have "ExecPriority p \<in> set ops" using op(1) by simp
    with ops_fine_mem [OF ops(3) this] prio_row_prepared [of p n] prio_row_loaded [of p n] show ?thesis by auto
  qed
  have "filter (\<lambda>r. set_block_number r = n) (cd_executed_transactions db') = map (tx_row c n) (List.map_filter exec_tx_of ops)"
    using old tx by (auto simp: db'(1) no_ops_of_def filter_empty_conv filter_id_conv)
  moreover have "res_all into_executed_tx (map (tx_row c n) (List.map_filter exec_tx_of ops)) =
      Ok (map stored_tx (List.map_filter exec_tx_of ops))"
    using tx res_all_Ok [of "List.map_filter exec_tx_of ops" "into_executed_tx \<circ> tx_row c n" stored_tx]
    by (simp add: res_all_map)
  moreover have "filter (\<lambda>r. sep_block_number r = n) (cd_executed_priority_operations db') =
      map (prio_row n) (List.map_filter exec_prio_of ops)"
    using old prio by (auto simp: db'(2) no_ops_of_def filter_empty_conv filter_id_conv)
  moreover have "res_all into_executed (map (prio_row n) (List.map_filter exec_prio_of ops)) =
      Ok (map stored_prio (List.map_filter exec_prio_of ops))"
    using prio res_all_Ok [of "List.map_filter exec_prio_of ops" "into_executed \<circ> prio_row n" stored_prio]
    by (simp add: res_all_map)
  moreover have "sort_key exec_order (filter is_tx_op (map stored_exec ops) @ filter (\<lambda>op. \<not> is_tx_op op) (map stored_exec ops)) =
      map stored_exec ops"
  proof (rule sort_key_parts)
    show "sorted (map exec_order (map stored_exec ops))" using in_order_sorted [OF ops(2)] by (simp add: ops(1) comp_def)
    fix x y
    assume xy: "x \<in> set (map stored_exec ops)" "y \<in> set (map stored_exec ops)" "exec_order x = exec_order y"
    then obtain x' y' where "x = stored_exec x'" "x' \<in> set ops" "y = stored_exec y'" "y' \<in> set ops" by (auto simp only: set_map)
    then show "is_tx_op x = is_tx_op y" using in_order_kind [OF ops(2), of x' y'] xy(3) ops(1) by simp
  qed
  ultimately show ?thesis by (simp only: get_block_executed_ops_def res_bind.simps res_map.simps stored_parts)
qed

section \<open>Blocks\<close>

text \<open>C31: a block that is saved is loaded as it was, with all its operations in the order in which they were executed,
  those that succeeded and those that failed, if its transactions and priority operations are new to the
  tables; only the cached signers of the transactions and the numbers of their batches are lost.\<close>

theorem saved_block_loads:
  assumes "bl_block_transactions b = ss @ map ExecTx fs" "in_order ss fs" "ops_fine c (bl_block_transactions b)"
    and "\<forall>op \<in> set (bl_block_transactions b). the (op_key c op) \<notin> stored_keys db" "no_ops_of db (bl_block_number b)"
    and "get_storage_block db (bl_block_number b) = None"
    and "bl_commit_gas_limit b < 2 ^ 64" "bl_verify_gas_limit b < 2 ^ 64"
  shows "\<exists>db'. save_block c db b = Ok db' \<and>
    get_block db' (bl_block_number b) = Ok (Some (b\<lparr>bl_block_transactions := map stored_exec (bl_block_transactions b)\<rparr>))"
proof -
  let ?n = "bl_block_number b"
  obtain mp where saved: "save_block_transactions c db ?n (bl_block_transactions b) = Ok (db\<lparr>
    cd_executed_transactions := cd_executed_transactions db @ map (tx_row c ?n) (List.map_filter exec_tx_of (bl_block_transactions b)),
    cd_executed_priority_operations := cd_executed_priority_operations db @ map (prio_row ?n) (List.map_filter exec_prio_of (bl_block_transactions b)),
    cd_mempool := mp\<rparr>)" (is "_ = Ok ?db1")
    using save_block_transactions_rows [OF assms(3,4)] by blast
  let ?row = "\<lparr>sbl_number = ?n, sbl_root_hash = bl_new_root_hash b, sbl_fee_account_id = bl_fee_account b,
    sbl_unprocessed_prior_op_before = fst (bl_processed_priority_ops b), sbl_unprocessed_prior_op_after = snd (bl_processed_priority_ops b),
    sbl_block_size = bl_block_chunks_size b, sbl_commit_gas_limit = of_nat (bl_commit_gas_limit b),
    sbl_verify_gas_limit = of_nat (bl_verify_gas_limit b)\<rparr>"
  let ?db2 = "?db1\<lparr>cd_pending_block := filter (\<lambda>p. spl_number p \<noteq> ?n) (cd_pending_block db), cd_blocks := cd_blocks db @ [?row]\<rparr>"
  have none: "get_storage_block (?db1\<lparr>cd_pending_block := x\<rparr>) ?n = None" for x using assms(6) by (simp add: get_storage_block_def)
  have "save_block c db b = Ok ?db2"
    using assms(7,8) none by (simp add: save_block_def gas_as_u64_def saved Let_def)
  moreover have "get_storage_block ?db2 ?n = Some ?row"
    using assms(6) by (simp add: get_storage_block_def find_append_new)
  moreover have "get_block_executed_ops ?db2 ?n = Ok (map stored_exec (bl_block_transactions b))"
    by (rule get_block_executed_ops_stored [OF assms(1,2,3,5)]) simp_all
  ultimately show ?thesis
    using assms(7,8) by (simp add: get_block_def block_new_def unsigned_of_nat take_bit_nat_eq_self)
qed

lemma pending_row:
  fixes n :: block_number
  assumes "\<forall>p \<in> set ps. spl_number p \<le> n" "spl_number row = n"
  defines "ps' \<equiv> if list_ex (\<lambda>p. spl_number p = n) ps then map (\<lambda>p. if spl_number p = n then row else p) ps else ps @ [row]"
  shows "find (\<lambda>p. spl_number p = max_or_zero (map spl_number ps')) ps' = Some row"
proof -
  have "row \<in> set ps'" "\<forall>p \<in> set ps'. spl_number p \<le> n"
    using assms by (auto simp: ps'_def list_ex_iff)
  then have "max_or_zero (map spl_number ps') = n"
    using assms(2) by (force simp: max_or_zero_def intro: Max_eqI)
  moreover have "find (\<lambda>p. spl_number p = n) (map (\<lambda>p. if spl_number p = n then row else p) ps) = Some row"
    if "list_ex (\<lambda>p. spl_number p = n) ps" for ps
    using that assms(2) by (induction ps) auto
  moreover have "find (\<lambda>p. spl_number p = n) ps = None" if "\<not> list_ex (\<lambda>p. spl_number p = n) ps"
    using that by (auto simp: find_None_iff list_ex_iff)
  ultimately show ?thesis using assms(2) by (simp add: ps'_def find_append_new)
qed

lemma is_failed_tx_stored [simp]: "is_failed_tx (stored_exec op) = is_failed_tx op"
  by (cases op) (simp_all add: stored_tx_def)

lemma split_failed:
  assumes "\<forall>op \<in> set ss. \<not> is_failed_tx op" "\<forall>tx \<in> set fs. \<not> etx_success tx"
  shows "filter (\<lambda>op. \<not> is_failed_tx op) (map stored_exec (ss @ map ExecTx fs)) = map stored_exec ss"
    "List.map_filter get_executed_tx (filter is_failed_tx (map stored_exec (ss @ map ExecTx fs))) = map stored_tx fs"
proof -
  have f: "\<forall>op \<in> set (map ExecTx (map stored_tx fs)). is_failed_tx op" using assms(2) by (simp add: stored_tx_def)
  have s: "\<forall>op \<in> set (map stored_exec ss). \<not> is_failed_tx op" using assms(1) by simp
  have e: "map stored_exec (ss @ map ExecTx fs) = map stored_exec ss @ map ExecTx (map stored_tx fs)" by simp
  have "filter is_failed_tx (map stored_exec ss) = []" "filter is_failed_tx (map ExecTx (map stored_tx fs)) = map ExecTx (map stored_tx fs)"
    "filter (\<lambda>op. \<not> is_failed_tx op) (map stored_exec ss) = map stored_exec ss"
    "filter (\<lambda>op. \<not> is_failed_tx op) (map ExecTx (map stored_tx fs)) = []"
    using f s by (simp_all only: filter_empty_conv filter_id_conv) auto
  moreover have "List.map_filter get_executed_tx (map ExecTx txs) = txs" for txs
    by (induction txs) (simp_all add: map_filter_simps)
  ultimately show "filter (\<lambda>op. \<not> is_failed_tx op) (map stored_exec (ss @ map ExecTx fs)) = map stored_exec ss"
    "List.map_filter get_executed_tx (filter is_failed_tx (map stored_exec (ss @ map ExecTx fs))) = map stored_tx fs"
    unfolding e filter_append by (simp_all del: map_map)
qed

text \<open>The pending block that is saved is the one that is loaded at the next start, its operations in the order in
  which they were executed, and its failed transactions apart from them.\<close>

lemma saved_pending_block_loads:
  assumes "in_order (spb_success_operations pb) (spb_failed_txs pb)"
    and "ops_fine c (spb_success_operations pb @ map ExecTx (spb_failed_txs pb))"
    and "\<forall>op \<in> set (spb_success_operations pb @ map ExecTx (spb_failed_txs pb)). the (op_key c op) \<notin> stored_keys db"
    and "no_ops_of db (spb_number pb)" "\<forall>p \<in> set (cd_pending_block db). spl_number p \<le> spb_number pb"
    and "\<forall>op \<in> set (spb_success_operations pb). \<not> is_failed_tx op" "\<forall>tx \<in> set (spb_failed_txs pb). \<not> etx_success tx"
  shows "\<exists>db'. save_pending_block c db pb = Ok db' \<and> load_pending_block db' = Ok (Some (pb\<lparr>
    spb_success_operations := map stored_exec (spb_success_operations pb), spb_failed_txs := map stored_tx (spb_failed_txs pb)\<rparr>))"
proof -
  let ?n = "spb_number pb" and ?ops = "spb_success_operations pb @ map ExecTx (spb_failed_txs pb)" and ?ps = "cd_pending_block db"
  let ?row = "\<lparr>spl_number = ?n, spl_chunks_left = spb_chunks_left pb,
    spl_unprocessed_priority_op_before = spb_unprocessed_priority_op_before pb,
    spl_pending_block_iteration = spb_pending_block_iteration pb\<rparr>"
  let ?ps' = "if list_ex (\<lambda>p. spl_number p = ?n) ?ps then map (\<lambda>p. if spl_number p = ?n then ?row else p) ?ps else ?ps @ [?row]"
  let ?db1 = "db\<lparr>cd_pending_block := ?ps'\<rparr>"
  have "\<forall>op \<in> set ?ops. the (op_key c op) \<notin> stored_keys ?db1" using assms(3) by (simp add: stored_keys_def)
  from save_block_transactions_rows [OF assms(2) this, of ?n] obtain mp where
    "save_block_transactions c ?db1 ?n ?ops = Ok (?db1\<lparr>
      cd_executed_transactions := cd_executed_transactions ?db1 @ map (tx_row c ?n) (List.map_filter exec_tx_of ?ops),
      cd_executed_priority_operations := cd_executed_priority_operations ?db1 @ map (prio_row ?n) (List.map_filter exec_prio_of ?ops),
      cd_mempool := mp\<rparr>)" (is "_ = Ok ?db2") by blast
  then have "save_pending_block c db pb = Ok ?db2" unfolding save_pending_block_def Let_def .
  moreover have "load_storage_pending_block ?db2 = Some ?row"
    using pending_row [OF assms(5), of ?row] by (simp add: load_storage_pending_block_def)
  moreover have "get_block_executed_ops ?db2 ?n = Ok (map stored_exec ?ops)"
    by (rule get_block_executed_ops_stored [OF refl assms(1,2,4)]) simp_all
  ultimately show ?thesis
    using split_failed [OF assms(6,7)] by (intro exI [of _ ?db2]) (simp add: load_pending_block_def del: map_append)
qed

text \<open>A block with a full exit and a withdrawal that failed.\<close>

definition sample_stored_op :: executed_operation where
  "sample_stored_op = ExecPriority \<lparr>epo_priority_op = \<lparr>po_serial_id = 0, po_data = PrioFullExit \<lparr>fx_account_id = 9, fx_eth_address = 8, fx_token = 0\<rparr>,
      po_deadline_block = 100, po_eth_hash = [], po_eth_block = 5\<rparr>,
    epo_op = OpFullExit \<lparr>fxop_priority_op = \<lparr>fx_account_id = 9, fx_eth_address = 8, fx_token = 0\<rparr>, fxop_withdraw_amount = None\<rparr>,
    epo_block_index = 0\<rparr>"

definition sample_failed_tx :: executed_tx where
  "sample_failed_tx = \<lparr>etx_signed_tx = \<lparr>stx_tx = TxWithdraw sample_withdraw, stx_eth_sign_data = None\<rparr>, etx_success = False,
    etx_op = None, etx_fail_reason = Some ''Nonce mismatch'', etx_block_index = None, etx_batch_id = Some 4\<rparr>"

lemma sample_stored_fine:
  "in_order [sample_stored_op] [sample_failed_tx]" "ops_fine sample_crypto ([sample_stored_op] @ map ExecTx [sample_failed_tx])"
  using sample_withdraw_bytes
  by (auto simp: in_order_def sample_stored_op_def sample_failed_tx_def ops_fine_def tx_hash_def ok_iffs split: res.splits)

lemma sample_empty_fresh: "stored_keys (empty_db []) = {}" "no_ops_of (empty_db []) n" "get_storage_block (empty_db []) n = None"
  "cd_pending_block (empty_db []) = []"
  by (simp_all add: empty_db_def stored_keys_def no_ops_of_def get_storage_block_def)

theorem saved_block_loads_witness:
  "\<exists>db. get_block db 1 = Ok (Some (block_new 1 0 0 [sample_stored_op, ExecTx (sample_failed_tx\<lparr>etx_batch_id := None\<rparr>)] (0, 1) 6 0 0))"
proof -
  let ?b = "block_new 1 0 0 ([sample_stored_op] @ map ExecTx [sample_failed_tx]) (0, 1) 6 0 0"
  have "map stored_exec (bl_block_transactions ?b) = [sample_stored_op, ExecTx (sample_failed_tx\<lparr>etx_batch_id := None\<rparr>)]"
    by (simp add: block_new_def stored_prio_def stored_tx_def sample_stored_op_def sample_failed_tx_def sample_withdraw_def)
  moreover have "\<exists>db. save_block sample_crypto (empty_db []) ?b = Ok db \<and>
      get_block db (bl_block_number ?b) = Ok (Some (?b\<lparr>bl_block_transactions := map stored_exec (bl_block_transactions ?b)\<rparr>))"
    by (rule saved_block_loads [where ss = "[sample_stored_op]" and fs = "[sample_failed_tx]"])
      (use sample_stored_fine sample_empty_fresh in \<open>simp_all add: block_new_def\<close>)
  ultimately show ?thesis by (auto simp: block_new_def)
qed

lemma saved_pending_block_loads_example:
  "\<exists>db pb. load_pending_block db = Ok (Some pb) \<and> spb_success_operations pb = [sample_stored_op] \<and>
    spb_failed_txs pb = [sample_failed_tx\<lparr>etx_batch_id := None\<rparr>]"
proof -
  let ?pb = "\<lparr>spb_number = 1, spb_chunks_left = 4, spb_unprocessed_priority_op_before = 0, spb_pending_block_iteration = 1,
    spb_success_operations = [sample_stored_op], spb_failed_txs = [sample_failed_tx]\<rparr>"
  have "stored_exec sample_stored_op = sample_stored_op" "stored_tx sample_failed_tx = sample_failed_tx\<lparr>etx_batch_id := None\<rparr>"
    by (simp_all add: stored_prio_def stored_tx_def sample_stored_op_def sample_failed_tx_def sample_withdraw_def)
  moreover have "\<exists>db. save_pending_block sample_crypto (empty_db []) ?pb = Ok db \<and> load_pending_block db = Ok (Some (?pb\<lparr>
      spb_success_operations := map stored_exec (spb_success_operations ?pb), spb_failed_txs := map stored_tx (spb_failed_txs ?pb)\<rparr>))"
    by (rule saved_pending_block_loads)
      (use sample_stored_fine sample_empty_fresh in \<open>simp_all add: sample_failed_tx_def sample_stored_op_def\<close>)
  ultimately show ?thesis by fastforce
qed

end
