(* ===== verification/Committer.thy ===== *)
theory Committer
  imports BlockStorage
begin

text \<open>
  The committer, @core/bin/zksync_core/src/committer.rs@: it writes what the state keeper sends to the
  database, and the proofs that have arrived.  An error of the database is a panic of the
  committer, after which nothing of the request is stored.
\<close>

section \<open>Requests of the state keeper\<close>

fun withdrawal_hashes :: "crypto \<Rightarrow> executed_operation list \<Rightarrow> (error, h256 list) res" where
  "withdrawal_hashes c [] = Ok []"
| "withdrawal_hashes c (op # ops) = (case get_executed_tx op of
      Some exec_tx \<Rightarrow>
        if etx_success exec_tx \<and> is_withdraw (stx_tx (etx_signed_tx exec_tx))
        then res_bind (unwrap (tx_hash c (stx_tx (etx_signed_tx exec_tx)))) (\<lambda>h. res_map ((#) h) (withdrawal_hashes c ops))
        else withdrawal_hashes c ops
    | None \<Rightarrow> withdrawal_hashes c ops)"

fun add_pending_withdrawals :: "chain_db \<Rightarrow> h256 list \<Rightarrow> (error, chain_db) res" where
  "add_pending_withdrawals db [] = Ok db"
| "add_pending_withdrawals db (h # hs) =
     res_bind (unwrap (add_pending_withdrawal db h None)) (\<lambda>db. add_pending_withdrawals db hs)"

text \<open>The updates for the nonces of the mempool are sent along with the new database.\<close>

definition commit_block ::
  "crypto \<Rightarrow> chain_db \<Rightarrow> block_commit_request \<Rightarrow> applied_updates_request \<Rightarrow> (error, account_updates \<times> chain_db) res" where
  "commit_block c db req applied =
    (let block = bcr_block req
     in res_bind (withdrawal_hashes c (bl_block_transactions block)) (\<lambda>hs.
        res_bind (add_pending_withdrawals db hs) (\<lambda>db.
        res_bind (unwrap (commit_state_update db (bl_block_number block) (aur_account_updates applied)
          (aur_first_update_order_id applied))) (\<lambda>db.
        res_bind (unwrap (execute_operation c db \<lparr>opn_id = None, opn_action = ActCommit, opn_block = block\<rparr>)) (\<lambda>(_, db).
          Ok (bcr_accounts_updated req, db))))))"

definition committer_save_pending_block ::
  "crypto \<Rightarrow> chain_db \<Rightarrow> sendable_pending_block \<Rightarrow> applied_updates_request \<Rightarrow> (error, chain_db) res" where
  "committer_save_pending_block c db pending_block applied =
    res_bind (unwrap (save_pending_block c db pending_block)) (\<lambda>db.
      unwrap (commit_state_update db (spb_number pending_block) (aur_account_updates applied)
        (aur_first_update_order_id applied)))"

fun handle_commit_request ::
  "crypto \<Rightarrow> chain_db \<Rightarrow> commit_request \<Rightarrow> (error, account_updates option \<times> chain_db) res" where
  "handle_commit_request c db (CommitBlock req applied) =
     res_map (\<lambda>(us, db). (Some us, db)) (commit_block c db req applied)"
| "handle_commit_request c db (CommitPendingBlock pending_block applied) =
     res_map (Pair None) (committer_save_pending_block c db pending_block applied)"

section \<open>Proofs\<close>

text \<open>The block after the last verified one, if its proof is there.\<close>

definition verify_next :: "crypto \<Rightarrow> chain_db \<Rightarrow> block_number \<Rightarrow> (error, chain_db option) res" where
  "verify_next c db block_number = (case load_proof db block_number of
      None \<Rightarrow> Ok None
    | Some proof \<Rightarrow>
        res_bind (load_committed_block db block_number) (\<lambda>b.
        res_bind (expect b) (\<lambda>block.
        res_map (\<lambda>(_, db). Some db)
          (unwrap (execute_operation c db \<lparr>opn_id = None, opn_action = ActVerify proof, opn_block = block\<rparr>)))))"

text \<open>The inner loop of @poll_for_new_proofs_task@: @None@ if it does not end.\<close>

partial_function (option) verify_all ::
  "crypto \<Rightarrow> chain_db \<Rightarrow> block_number \<Rightarrow> (error, block_number \<times> chain_db) res option" where
  "verify_all c db last_verified_block = (case verify_next c db (last_verified_block + 1) of
      Ok r \<Rightarrow> (case r of
          None \<Rightarrow> Some (Ok (last_verified_block, db))
        | Some db' \<Rightarrow> verify_all c db' (last_verified_block + 1))
    | Err e \<Rightarrow> Some (Err e)
    | Panic \<Rightarrow> Some Panic)"

end
