(* ===== verification/KeeperRestore.thy ===== *)
theory KeeperRestore
  imports BlockStorage
begin

text \<open>
  The start of the state keeper from the database: @ZkSyncStateInitParams@ of
  @core/bin/zksync_core/src/state_keeper/mod.rs@ and the genesis block.  The accounts of a loaded map are
  inserted in the order of their ids.  The cache of the tree holds hashes only: it is the number of the
  block it belongs to, if there is one, and the hash of a tree is that of its accounts.
\<close>

definition init_accounts :: "account_map \<Rightarrow> init_params \<Rightarrow> init_params" where
  "init_accounts accounts ip =
    fold (\<lambda>i ip. case fmlookup accounts i of Some a \<Rightarrow> init_insert_account i a ip | None \<Rightarrow> ip)
      (sorted_list_of_fset (fmdom accounts)) ip"

definition init_renew_accounts :: "account_map \<Rightarrow> account_updates \<Rightarrow> init_params \<Rightarrow> init_params" where
  "init_renew_accounts accounts account_updates ip =
    fold (\<lambda>i ip. case fmlookup accounts i of
          Some a \<Rightarrow> init_insert_account i a ip
        | None \<Rightarrow> snd (init_remove_account i ip))
      (remdups (sort (map fst account_updates))) ip"

definition load_account_tree ::
  "(account_map \<Rightarrow> fr) \<Rightarrow> chain_db \<Rightarrow> block_number option \<Rightarrow> init_params \<Rightarrow> (error, block_number \<times> init_params) res" where
  "load_account_tree root db cache ip =
    (let (last_cached_block_number, accounts) = (case cache of
           Some block \<Rightarrow> load_committed_state db (Some block)
         | None \<Rightarrow> load_verified_state db);
         ip = init_accounts accounts ip;
         (block_number, accounts) = load_committed_state db None;
         ip = (if block_number \<noteq> last_cached_block_number
               then (case storage_state_diff db last_cached_block_number (Some block_number) of
                       Some (_, account_updates) \<Rightarrow> init_renew_accounts accounts account_updates ip
                     | None \<Rightarrow> ip)
               else ip)
     in if block_number \<noteq> 0
        then res_bind (get_block db block_number) (\<lambda>b.
             res_bind (expect b) (\<lambda>storage_root_hash.
             res_bind (assert_that (bl_new_root_hash storage_root_hash = root (ip_tree ip))) (\<lambda>_.
               Ok (block_number, ip))))
        else Ok (block_number, ip))"

definition unprocessed_priority_op_id :: "chain_db \<Rightarrow> block_number \<Rightarrow> (error, 64 word) res" where
  "unprocessed_priority_op_id db block_number = (case get_operation db block_number COMMIT of
      Some storage_op \<Rightarrow> res_map (\<lambda>op. snd (bl_processed_priority_ops (opn_block op))) (row_into_op db storage_op)
    | None \<Rightarrow> Ok 0)"

definition keeper_restore_from_db ::
  "(account_map \<Rightarrow> fr) \<Rightarrow> chain_db \<Rightarrow> block_number option \<Rightarrow> (error, init_params) res" where
  "keeper_restore_from_db root db cache =
    res_bind (load_account_tree root db cache init_params_new) (\<lambda>(block_number, ip).
    res_bind (unprocessed_priority_op_id db block_number) (\<lambda>unprocessed.
      Ok (ip\<lparr>ip_last_block_number := block_number, ip_unprocessed_priority_op := unprocessed\<rparr>)))"

text \<open>@get_pending_block@ on the database: an error of the query counts as no pending block.\<close>

definition stored_pending_block :: "init_params \<Rightarrow> chain_db \<Rightarrow> (error, sendable_pending_block option) res" where
  "stored_pending_block ip db = (case load_pending_block db of
      Ok stored \<Rightarrow> get_pending_block ip stored
    | Err e \<Rightarrow> Ok None
    | Panic \<Rightarrow> Panic)"

definition create_genesis_block :: "chain_db \<Rightarrow> address \<Rightarrow> (error, chain_db) res" where
  "create_genesis_block db fee_account_address =
    (let (last_committed, accounts) = load_committed_state db None
     in res_bind (assert_that (last_committed = 0 \<and> accounts = fmempty)) (\<lambda>_.
        res_bind (unwrap (commit_state_update db 0 [(0, Create fee_account_address (acc_nonce default_account))] 0)) (\<lambda>db.
          unwrap (apply_state_update db 0))))"

end
