(* ===== verification/CommitProps.thy ===== *)
theory CommitProps
  imports ChainProps Committer KeeperRestore
begin

text \<open>
  The committer against a ledger that only records which updates each block has: every request it
  carries out and every proof keeps the tables in step with the ledger, so that the states that
  are loaded from them, by the state keeper at its start among others, are those of the ledger.
\<close>

section \<open>Frames\<close>

text \<open>The tables that make up the accounts, the blocks and their operations.\<close>

definition books :: "chain_db \<Rightarrow> token_id list \<times> storage_account_creation list \<times> storage_account_update list \<times>
    storage_account_pubkey_update list \<times> storage_account list \<times> storage_balance list \<times> storage_block list \<times> operation_row list" where
  "books db = (cd_tokens db, cd_account_creates db, cd_account_balance_updates db, cd_account_pubkey_updates db,
    cd_accounts db, cd_balances db, cd_blocks db, cd_operations db)"

lemma chain_inv_books:
  assumes "books db' = books db" "chain_inv g db"
  shows "chain_inv g db'"
proof -
  have eq: "cd_tokens db' = cd_tokens db" "cd_account_creates db' = cd_account_creates db"
    "cd_account_balance_updates db' = cd_account_balance_updates db" "cd_account_pubkey_updates db' = cd_account_pubkey_updates db"
    "cd_accounts db' = cd_accounts db" "cd_balances db' = cd_balances db" "cd_blocks db' = cd_blocks db"
    "cd_operations db' = cd_operations db"
    using assms(1) by (simp_all add: books_def)
  then have "all_diffs db' = all_diffs db" "tables_view db' = tables_view db" "tables_ok db' = tables_ok db"
    "tokens_known db' = tokens_known db" "rows_of a db' = rows_of a db" for a
    by (simp_all add: all_diffs_def tables_view_def fun_eq_iff tables_ok_def tokens_known_def rows_of_def)
  with assms(2) eq show ?thesis by (simp add: chain_inv_def db_holds_def)
qed

lemma store_executed_books [simp]:
  "books (store_executed_operation db tx) = books db" "books (store_executed_priority_operation db p) = books db"
  by (simp_all add: books_def store_executed_operation_def store_executed_priority_operation_def Let_def)

lemma save_block_transactions_books:
  "save_block_transactions c db n ops = Ok db' \<Longrightarrow> books db' = books db"
  by (induction c db n ops rule: save_block_transactions.induct) (auto simp: ok_iffs)

lemma add_pending_withdrawals_books: "add_pending_withdrawals db hs = Ok db' \<Longrightarrow> books db' = books db"
proof (induction db hs rule: add_pending_withdrawals.induct)
  case (2 db h hs)
  then show ?case by (fastforce simp: ok_iffs add_pending_withdrawal_def books_def)
qed simp

section \<open>Requests\<close>

definition append_updates :: "ledger \<Rightarrow> account_updates \<Rightarrow> ledger" where
  "append_updates g us = g\<lparr>lg_updates := (lg_updates g)(lg_committed g + 1 := lg_updates g (lg_committed g + 1) @ us)\<rparr>"

lemma without_diffs_eq:
  "without_diffs db' = without_diffs db \<Longrightarrow> cd_tokens db' = cd_tokens db \<and> cd_accounts db' = cd_accounts db \<and>
    cd_balances db' = cd_balances db \<and> cd_blocks db' = cd_blocks db \<and> cd_operations db' = cd_operations db"
  by (cases db; cases db') (simp add: without_diffs_def)

lemma without_tables_eq:
  "without_tables db' = without_tables db \<Longrightarrow> cd_tokens db' = cd_tokens db \<and> cd_account_creates db' = cd_account_creates db \<and>
    cd_account_balance_updates db' = cd_account_balance_updates db \<and> cd_account_pubkey_updates db' = cd_account_pubkey_updates db \<and>
    cd_blocks db' = cd_blocks db \<and> cd_operations db' = cd_operations db"
  by (cases db; cases db') (simp add: without_tables_def)

lemma ledger_view_committed:
  assumes "n \<le> lg_committed g" "lg_committed g < lg_committed g + 1"
  shows "ledger_view (append_updates g us) n = ledger_view g n"
proof -
  have "lg_updates (append_updates g us) m = lg_updates g m" if "m \<in> set (0 # blocks_between 0 n)" for m
    using that assms by (auto simp: append_updates_def blocks_between_mem)
  then show ?thesis unfolding ledger_view_def range_updates_def by (metis (mono_tags, lifting) map_cong)
qed

lemma state_update_inv:
  assumes "chain_inv g db" "commit_state_update db (lg_committed g + 1) us (size (lg_updates g (lg_committed g + 1))) = Ok db'"
    and "ledger_ok (append_updates g us)"
  shows "chain_inv (append_updates g us) db'"
proof -
  have inv: "ledger_ok g" "db_holds (lg_updates g) db" "tokens_known db" "tables_ok db" "tables_view db = ledger_view g (lg_verified g)"
    "map sbl_number (cd_blocks db) = blocks_between 0 (lg_committed g)" "rows_of COMMIT db = blocks_between 0 (lg_committed g)"
    "rows_of VERIFY db = blocks_between 0 (lg_verified g)"
    using assms(1) by (simp_all add: chain_inv_def)
  have g: "lg_committed (append_updates g us) = lg_committed g" "lg_verified (append_updates g us) = lg_verified g"
    by (simp_all add: append_updates_def)
  have same: "cd_tokens db' = cd_tokens db" "cd_accounts db' = cd_accounts db" "cd_balances db' = cd_balances db"
    "cd_blocks db' = cd_blocks db" "cd_operations db' = cd_operations db"
    using commit_state_update_diffs [OF assms(2)] without_diffs_eq by blast+
  have "tables_view db' = tables_view db" "tables_ok db' = tables_ok db" "rows_of a db' = rows_of a db" for a
    using same by (simp_all add: tables_view_def tables_ok_def rows_of_def fun_eq_iff)
  moreover have "db_holds (lg_updates (append_updates g us)) db'"
    using db_holds_commit [OF inv(2) assms(2)] by (simp add: append_updates_def)
  moreover have "ledger_view (append_updates g us) (lg_verified g) = ledger_view g (lg_verified g)"
    by (rule ledger_view_committed) (use inv(1) in \<open>simp_all add: ledger_ok_def\<close>)
  ultimately show ?thesis
    using inv g same assms(3) commit_state_update_tokens [OF assms(2) inv(3)] by (simp add: chain_inv_def)
qed

lemma pending_request_inv:
  assumes "chain_inv g db" "handle_commit_request c db (CommitPendingBlock pb r) = Ok (us, db')"
    and "spb_number pb = lg_committed g + 1" "aur_first_update_order_id r = size (lg_updates g (lg_committed g + 1))"
    and "ledger_ok (append_updates g (aur_account_updates r))"
  shows "chain_inv (append_updates g (aur_account_updates r)) db'"
proof -
  obtain db1 where db1: "save_pending_block c db pb = Ok db1"
    "commit_state_update db1 (lg_committed g + 1) (aur_account_updates r) (size (lg_updates g (lg_committed g + 1))) = Ok db'"
    using assms(2,3,4) by (auto simp: committer_save_pending_block_def ok_iffs)
  have "books db1 = books db"
    using save_block_transactions_books db1(1) by (fastforce simp: save_pending_block_def Let_def books_def)
  then have "chain_inv g db1" by (rule chain_inv_books) (rule assms(1))
  then show ?thesis by (rule state_update_inv [OF _ db1(2) assms(5)])
qed

definition commit_next :: "ledger \<Rightarrow> ledger" where
  "commit_next g = g\<lparr>lg_committed := lg_committed g + 1\<rparr>"

definition verify_one :: "ledger \<Rightarrow> ledger" where
  "verify_one g = g\<lparr>lg_verified := lg_verified g + 1\<rparr>"

lemma save_block_books:
  assumes "save_block c db b = Ok db'"
  shows "cd_blocks db' = cd_blocks db @ [last (cd_blocks db')] \<and> sbl_number (last (cd_blocks db')) = bl_block_number b \<and>
    books (db'\<lparr>cd_blocks := []\<rparr>) = books (db\<lparr>cd_blocks := []\<rparr>)"
proof -
  obtain db1 where db1: "save_block_transactions c db (bl_block_number b) (bl_block_transactions b) = Ok db1"
    using assms by (auto simp: save_block_def ok_iffs)
  with save_block_transactions_books [OF db1] assms show ?thesis
    by (auto simp: save_block_def ok_iffs Let_def books_def split: if_splits)
qed

lemma store_operation_simps [simp]:
  "cd_operations (snd (store_operation db n a)) = cd_operations db @ [fst (store_operation db n a)]"
  "or_block_number (fst (store_operation db n a)) = n" "or_action_type (fst (store_operation db n a)) = a"
  "cd_tokens (snd (store_operation db n a)) = cd_tokens db" "cd_blocks (snd (store_operation db n a)) = cd_blocks db"
  "all_diffs (snd (store_operation db n a)) = all_diffs db" "tables_view (snd (store_operation db n a)) = tables_view db"
  "tables_ok (snd (store_operation db n a)) = tables_ok db" "tokens_known (snd (store_operation db n a)) = tokens_known db"
  by (simp_all add: store_operation_def Let_def all_diffs_def tables_view_def fun_eq_iff tables_ok_def tokens_known_def)

lemma execute_commit:
  assumes "execute_operation c db \<lparr>opn_id = None, opn_action = ActCommit, opn_block = b\<rparr> = Ok (r, db')"
  shows "\<exists>db1. save_block c db b = Ok db1 \<and> db' = snd (store_operation db1 (bl_block_number b) COMMIT)"
  using assms by (auto simp: execute_operation_def ok_iffs Let_def case_prod_beta)

lemma execute_verify:
  assumes "execute_operation c db \<lparr>opn_id = None, opn_action = ActVerify p, opn_block = b\<rparr> = Ok (r, db')"
    "load_proof db (bl_block_number b) = Some p"
  shows "\<exists>db1. apply_state_update db (bl_block_number b) = Ok db1 \<and> db' = snd (store_operation db1 (bl_block_number b) VERIFY)"
  using assms by (auto simp: execute_operation_def ok_iffs Let_def case_prod_beta)

lemma save_block_inv:
  assumes "chain_inv g db" "save_block c db b = Ok db1" "bl_block_number b = lg_committed g + 1" "ledger_ok (commit_next g)"
  shows "chain_inv (commit_next g) (snd (store_operation db1 (bl_block_number b) COMMIT))"
proof -
  have inv: "ledger_ok g" "db_holds (lg_updates g) db" "tokens_known db" "tables_ok db" "tables_view db = ledger_view g (lg_verified g)"
    "map sbl_number (cd_blocks db) = blocks_between 0 (lg_committed g)" "rows_of COMMIT db = blocks_between 0 (lg_committed g)"
    "rows_of VERIFY db = blocks_between 0 (lg_verified g)"
    using assms(1) by (simp_all add: chain_inv_def)
  have same: "all_diffs db1 = all_diffs db" "tokens_known db1 = tokens_known db" "tables_ok db1 = tables_ok db"
    "tables_view db1 = tables_view db" "cd_operations db1 = cd_operations db"
    using save_block_books [OF assms(2)]
    by (simp_all add: books_def all_diffs_def tokens_known_def tables_ok_def tables_view_def fun_eq_iff)
  have "map sbl_number (cd_blocks db1) = blocks_between 0 (lg_committed g) @ [lg_committed g + 1]"
    using save_block_books [OF assms(2)] inv(6) assms(3) by (metis list.simps(8,9) map_append)
  moreover have "blocks_between 0 (lg_committed g + 1) = blocks_between 0 (lg_committed g) @ [lg_committed g + 1]"
    using inv(1) by (intro blocks_between_next) (simp_all add: ledger_ok_def)
  moreover have "ledger_view (commit_next g) n = ledger_view g n" for n by (simp add: ledger_view_def commit_next_def)
  ultimately show ?thesis
    using inv same assms(3,4) by (simp add: chain_inv_def commit_next_def db_holds_def rows_of_def)
qed

lemma block_request_inv:
  assumes "chain_inv g db" "handle_commit_request c db (CommitBlock b r) = Ok (us, db')"
    and "bl_block_number (bcr_block b) = lg_committed g + 1"
    and "aur_first_update_order_id r = size (lg_updates g (lg_committed g + 1))"
    and "ledger_ok (append_updates g (aur_account_updates r))" "ledger_ok (commit_next (append_updates g (aur_account_updates r)))"
  shows "chain_inv (commit_next (append_updates g (aur_account_updates r))) db'"
proof -
  obtain hs db1 db2 r' db3 where run: "add_pending_withdrawals db hs = Ok db1"
    "commit_state_update db1 (lg_committed g + 1) (aur_account_updates r) (size (lg_updates g (lg_committed g + 1))) = Ok db2"
    "execute_operation c db2 \<lparr>opn_id = None, opn_action = ActCommit, opn_block = bcr_block b\<rparr> = Ok (r', db')"
    using assms(2,3,4) by (auto simp: commit_block_def ok_iffs Let_def)
  have "chain_inv g db1" by (rule chain_inv_books [OF add_pending_withdrawals_books [OF run(1)] assms(1)])
  then have inv: "chain_inv (append_updates g (aur_account_updates r)) db2" by (rule state_update_inv [OF _ run(2) assms(5)])
  obtain db3 where "save_block c db2 (bcr_block b) = Ok db3" "db' = snd (store_operation db3 (bl_block_number (bcr_block b)) COMMIT)"
    using execute_commit [OF run(3)] by blast
  with save_block_inv [OF inv, of c "bcr_block b"] assms(3,6) show ?thesis by (simp add: append_updates_def)
qed

lemma load_committed_block_row:
  "load_committed_block db n = Ok (Some b) \<Longrightarrow> n \<in> set (rows_of COMMIT db) \<and> bl_block_number b = n"
  by (auto simp: load_committed_block_def load_commit_op_def ok_iffs rows_of_def get_operation_def find_Some_iff
      row_into_op_def get_block_def block_new_def split: option.splits res.splits action_type.splits)

lemma verify_inv:
  assumes "chain_inv g db" "verify_next c db (lg_verified g + 1) = Ok (Some db')"
  shows "chain_inv (verify_one g) db'"
proof -
  let ?v = "lg_verified g"
  have inv: "ledger_ok g" "db_holds (lg_updates g) db" "tokens_known db" "tables_ok db" "tables_view db = ledger_view g ?v"
    "map sbl_number (cd_blocks db) = blocks_between 0 (lg_committed g)" "rows_of COMMIT db = blocks_between 0 (lg_committed g)"
    "rows_of VERIFY db = blocks_between 0 ?v"
    using assms(1) by (simp_all add: chain_inv_def)
  obtain p b r where run: "load_proof db (?v + 1) = Some p" "load_committed_block db (?v + 1) = Ok (Some b)"
    "execute_operation c db \<lparr>opn_id = None, opn_action = ActVerify p, opn_block = b\<rparr> = Ok (r, db')"
    using assms(2) by (auto simp: verify_next_def ok_iffs split: option.splits)
  have b: "bl_block_number b = ?v + 1" "?v + 1 \<in> set (blocks_between 0 (lg_committed g))"
    using load_committed_block_row [OF run(2)] inv(7) by simp_all
  then have le: "?v + 1 \<le> lg_committed g" "?v + 1 \<noteq> 0" by (auto simp: blocks_between_mem)
  have less: "?v < ?v + 1"
    using le(2) unatSuc [of ?v] by (simp add: word_less_nat_alt add.commute)
  obtain db1 where db1: "apply_state_update db (?v + 1) = Ok db1" "db' = snd (store_operation db1 (?v + 1) VERIFY)"
    using execute_verify [OF run(3)] run(1) b(1) by auto
  have next_block: "blocks_between ?v (?v + 1) = [?v + 1]" "blocks_between 0 (?v + 1) = blocks_between 0 ?v @ [?v + 1]"
    using blocks_between_next [OF order.refl less] blocks_between_next [OF _ less, of 0] by simp_all
  have "lg_committed g < lg_committed g + 1" using inv(1) by (simp add: ledger_ok_def)
  then have "?v + 1 \<le> lg_committed g + 1" using le(1) by (meson less_imp_le order.trans)
  then have "updates_fit (ledger_view g ?v) (lg_updates g (?v + 1))"
    using ledger_fits [OF inv(1), of ?v "?v + 1"] less next_block(1) by (simp add: range_updates_def)
  then obtain db2 where db2: "apply_state_update db (?v + 1) = Ok db2" "tables_ok db2"
    "tables_view db2 = views_update (ledger_view g ?v) (lg_updates g (?v + 1))" "without_tables db2 = without_tables db"
    using apply_state_update_spec [OF inv(2) _ inv(3,4), of "?v + 1"] inv(1,5) by (auto simp: ledger_ok_def)
  have eq: "db2 = db1" using db1 db2 by simp
  have same: "all_diffs db1 = all_diffs db" "tokens_known db1 = tokens_known db" "cd_blocks db1 = cd_blocks db"
    "cd_operations db1 = cd_operations db"
    using without_tables_eq [OF db2(4)] unfolding eq by (simp_all add: all_diffs_def tokens_known_def)
  have "ledger_view (verify_one g) (?v + 1) = views_update (ledger_view g ?v) (lg_updates g (?v + 1))"
    using ledger_view_later [of ?v "?v + 1" g] less next_block(1)
    by (simp add: range_updates_def ledger_view_def verify_one_def)
  moreover have "ledger_ok (verify_one g)" using inv(1) le(1) by (simp add: ledger_ok_def verify_one_def)
  ultimately show ?thesis
    using inv same db1(2) db2 eq next_block by (simp add: chain_inv_def verify_one_def db_holds_def rows_of_def)
qed

section \<open>Histories\<close>

text \<open>
  What the committer does, along with what the state keeper promises: the block numbers follow each other,
  the pieces of the updates of a block are numbered one after the other, and the updates fit the accounts.
\<close>

inductive committer_step :: "crypto \<Rightarrow> ledger \<times> chain_db \<Rightarrow> ledger \<times> chain_db \<Rightarrow> bool" for c where
  stored: "handle_commit_request c db (CommitPendingBlock pb r) = Ok (us, db') \<Longrightarrow> spb_number pb = lg_committed g + 1 \<Longrightarrow>
     aur_first_update_order_id r = size (lg_updates g (lg_committed g + 1)) \<Longrightarrow>
     ledger_ok (append_updates g (aur_account_updates r)) \<Longrightarrow>
     committer_step c (g, db) (append_updates g (aur_account_updates r), db')"
| committed: "handle_commit_request c db (CommitBlock b r) = Ok (us, db') \<Longrightarrow> bl_block_number (bcr_block b) = lg_committed g + 1 \<Longrightarrow>
     aur_first_update_order_id r = size (lg_updates g (lg_committed g + 1)) \<Longrightarrow>
     ledger_ok (append_updates g (aur_account_updates r)) \<Longrightarrow>
     ledger_ok (commit_next (append_updates g (aur_account_updates r))) \<Longrightarrow>
     committer_step c (g, db) (commit_next (append_updates g (aur_account_updates r)), db')"
| verified: "verify_next c db (lg_verified g + 1) = Ok (Some db') \<Longrightarrow> committer_step c (g, db) (verify_one g, db')"
| others: "books db' = books db \<Longrightarrow> committer_step c (g, db) (g, db')"

lemma committer_step_inv: "committer_step c (g, db) (g', db') \<Longrightarrow> chain_inv g db \<Longrightarrow> chain_inv g' db'"
  by (erule committer_step.cases) (auto intro: pending_request_inv block_request_inv verify_inv chain_inv_books)

lemma committer_steps_inv:
  "(committer_step c)\<^sup>*\<^sup>* (g, db) (g', db') \<Longrightarrow> chain_inv g db \<Longrightarrow> chain_inv g' db'"
  by (induction "(g', db')" arbitrary: g' db' rule: rtranclp_induct) (auto intro: committer_step_inv)

text \<open>The ledger of the genesis.\<close>

definition genesis_ledger :: "address \<Rightarrow> ledger" where
  "genesis_ledger addr = \<lparr>lg_updates = (\<lambda>n. [])(0 := [(0, Create addr 0)]), lg_committed = 0, lg_verified = 0\<rparr>"

lemma genesis_created:
  "create_genesis_block (empty_db tokens) addr = Ok db \<Longrightarrow> chain_inv (genesis_ledger addr) db"
proof -
  assume "create_genesis_block (empty_db tokens) addr = Ok db"
  moreover have "diff_order (DiffCreate r) = (sac_block_number r, sint (sac_update_order_id r))" for r
    by (simp add: diff_order_def)
  ultimately have db: "db = (empty_db tokens)\<lparr>
      cd_account_creates := [\<lparr>sac_account_id = 0, sac_is_create = True, sac_block_number = 0, sac_address = addr, sac_nonce = 0, sac_update_order_id = 0\<rparr>],
      cd_accounts := [\<lparr>sa_id = 0, sa_last_block = 0, sa_nonce = 0, sa_address = addr, sa_pubkey_hash = 0\<rparr>]\<rparr>"
    by (simp add: create_genesis_block_def load_committed_state_def load_verified_state_def empty_db_def storage_state_diff_def
        Let_def load_diffs_def get_last_block_by_action_def max_or_zero_def insert_account_create_def apply_state_update_def
        diff_from_creation_def account_simps)
  have "range_updates (lg_updates (genesis_ledger addr)) (0 # blocks_between 0 n) = [(0, Create addr 0)]" for n
  proof -
    have "lg_updates (genesis_ledger addr) m = []" if "m \<in> set (blocks_between 0 n)" for m
      using that by (auto simp: genesis_ledger_def blocks_between_mem)
    then show ?thesis by (simp add: range_updates_def genesis_ledger_def)
  qed
  moreover have "db_holds (lg_updates (genesis_ledger addr)) db"
    by (simp add: db db_holds_def genesis_ledger_def all_diffs_def diff_from_creation_def empty_db_def)
  ultimately show ?thesis
    by (simp add: chain_inv_def ledger_ok_def ledger_view_def db tokens_known_def tables_ok_def rows_of_def)
      (auto simp: db empty_db_def genesis_ledger_def tables_view_def fun_eq_iff view_step_def balance_in_def)
qed

section \<open>The start of the state keeper\<close>

lemma last_updated_props:
  assumes "range_updates (lg_updates g) (blocks_between m n) \<noteq> []"
  shows "m < last_updated g m n \<and> last_updated g m n \<le> n \<and> lg_updates g (last_updated g m n) \<noteq> [] \<and>
    range_updates (lg_updates g) (blocks_between (last_updated g m n) n) = [] \<and>
    (\<forall>k. m < k \<and> k \<le> n \<and> lg_updates g k \<noteq> [] \<longrightarrow> k \<le> last_updated g m n)"
proof -
  let ?S = "set (filter (\<lambda>k. lg_updates g k \<noteq> []) (blocks_between m n))"
  have S: "k \<in> ?S \<longleftrightarrow> m < k \<and> k \<le> n \<and> lg_updates g k \<noteq> []" for k by (auto simp: blocks_between_mem)
  have ne: "?S \<noteq> {}" using assms by (auto simp: range_updates_def filter_empty_conv)
  then have "filter (\<lambda>k. lg_updates g k \<noteq> []) (blocks_between m n) \<noteq> []" by force
  then have "last_updated g m n = Max ?S" by (simp only: last_updated_def max_or_zero_def if_False)
  with Max_in [of ?S] Max_ge [of ?S] ne have last: "last_updated g m n \<in> ?S" "\<And>k. k \<in> ?S \<Longrightarrow> k \<le> last_updated g m n"
    by auto
  have "lg_updates g k = []" if "k \<in> set (blocks_between (last_updated g m n) n)" for k
  proof (rule ccontr)
    assume "lg_updates g k \<noteq> []"
    moreover have "last_updated g m n < k" "k \<le> n" "m < last_updated g m n"
      using that last(1) unfolding S by (simp_all add: blocks_between_mem)
    ultimately have "k \<le> last_updated g m n" using last(2) [of k] unfolding S by (meson less_trans)
    with \<open>last_updated g m n < k\<close> show False by simp
  qed
  then have "range_updates (lg_updates g) (blocks_between (last_updated g m n) n) = []" by (simp add: range_updates_def)
  with last S show ?thesis by blast
qed

lemma loaded_block_forward:
  "lg_verified g \<le> n \<Longrightarrow> loaded_block g n =
    (if range_updates (lg_updates g) (blocks_between (lg_verified g) n) = [] then lg_verified g else last_updated g (lg_verified g) n)"
  by (simp add: loaded_block_def min_def max_def Let_def)

lemma loaded_block_view: "ledger_view g (loaded_block g n) = ledger_view g n"
proof (cases "lg_verified g \<le> n")
  case True
  show ?thesis
  proof (cases "range_updates (lg_updates g) (blocks_between (lg_verified g) n) = []")
    case empty: True
    with True show ?thesis by (simp add: loaded_block_def min_def max_def ledger_view_later [OF True])
  next
    case False
    from last_updated_props [OF this] True False show ?thesis
      using ledger_view_later [of "last_updated g (lg_verified g) n" n g] by (simp add: loaded_block_def min_def max_def Let_def)
  qed
next
  case False
  then have le: "n \<le> lg_verified g" by simp
  with False show ?thesis
    using ledger_view_later [OF le, of g] by (auto simp: loaded_block_def min_def max_def Let_def)
qed

lemma loaded_block_mono:
  assumes "n \<le> lg_committed g" "lg_verified g \<le> lg_committed g"
  shows "loaded_block g n \<le> loaded_block g (lg_committed g)"
proof -
  let ?v = "lg_verified g" and ?c = "lg_committed g"
  have ge: "?v \<le> loaded_block g ?c"
    using assms(2) last_updated_props [of g ?v ?c] by (auto simp: loaded_block_def min_def max_def Let_def)
  show ?thesis
  proof (cases "?v \<le> n \<and> range_updates (lg_updates g) (blocks_between ?v n) \<noteq> []")
    case True
    then have l: "?v < last_updated g ?v n" "last_updated g ?v n \<le> n" "lg_updates g (last_updated g ?v n) \<noteq> []"
      using last_updated_props by blast+
    have "lg_updates g (last_updated g ?v n) \<noteq> [] \<and> last_updated g ?v n \<in> set (blocks_between ?v ?c)"
      using l assms(1) by (auto simp: blocks_between_mem)
    then have ne: "range_updates (lg_updates g) (blocks_between ?v ?c) \<noteq> []" unfolding range_updates_def by auto
    have "last_updated g ?v n \<le> last_updated g ?v ?c"
      using last_updated_props [OF ne] l assms(1) by auto
    with True ne assms(2) show ?thesis by (simp add: loaded_block_def min_def max_def Let_def)
  next
    case False
    then have "loaded_block g n \<le> ?v" by (auto simp: loaded_block_def min_def max_def Let_def)
    with ge show ?thesis by simp
  qed
qed

lemma load_latest:
  assumes "chain_inv g db"
  shows "load_committed_state db None = load_committed_state db (Some (lg_committed g))"
  using state_diff_latest [OF assms] by (simp add: load_committed_state_def)

text \<open>What the tree of the state keeper shows of an account; a removed account is an empty one.\<close>

definition tree_shows :: "account_map \<Rightarrow> (account_id \<Rightarrow> account_view option) \<Rightarrow> bool" where
  "tree_shows m V \<longleftrightarrow> (\<forall>i. map_view m i = V i \<or> V i = None \<and> fmlookup m i = Some default_account)"

lemma init_accounts_tree:
  "ip_tree (fold (\<lambda>i ip. case fmlookup accounts i of Some a \<Rightarrow> init_insert_account i a ip | None \<Rightarrow> ip) is ip) =
    fold (\<lambda>i m. case fmlookup accounts i of Some a \<Rightarrow> fmupd i a m | None \<Rightarrow> m) is (ip_tree ip)"
  by (induction "is" arbitrary: ip) (auto simp: init_insert_account_def split: option.split)

lemma inserted_accounts:
  "fmlookup (fold (\<lambda>i m. case fmlookup accounts i of Some a \<Rightarrow> fmupd i a m | None \<Rightarrow> m) is m) j =
    (if j \<in> set is \<and> fmlookup accounts j \<noteq> None then fmlookup accounts j else fmlookup m j)"
  by (induction "is" arbitrary: m) (auto split: option.split)

lemma init_accounts_new: "ip_tree (init_accounts accounts init_params_new) = accounts"
  by (rule fmap_ext) (auto simp: init_accounts_def init_accounts_tree inserted_accounts init_params_new_def fmdomI)

lemma renewed_tree:
  "ip_tree (fold (\<lambda>i ip. case fmlookup accounts i of Some a \<Rightarrow> init_insert_account i a ip
      | None \<Rightarrow> snd (init_remove_account i ip)) is ip) =
    fold (\<lambda>i m. case fmlookup accounts i of Some a \<Rightarrow> fmupd i a m | None \<Rightarrow> tree_remove m i) is (ip_tree ip)"
  by (induction "is" arbitrary: ip) (auto simp: init_insert_account_def init_remove_account_def split: option.split)

lemma renewed_lookup:
  "fmlookup (fold (\<lambda>i m. case fmlookup accounts i of Some a \<Rightarrow> fmupd i a m | None \<Rightarrow> tree_remove m i) is m) j =
    (if j \<in> set is then Some (case fmlookup accounts j of Some a \<Rightarrow> a | None \<Rightarrow> default_account) else fmlookup m j)"
  by (induction "is" arbitrary: m) (auto simp: tree_remove_def split: option.split)

lemma untouched_view: "i \<notin> fst ` set us \<Longrightarrow> views_update V us i = V i"
  by (induction us arbitrary: V) (auto simp: view_step_def)

lemma renew_accounts_show:
  assumes "map_view accounts = views_update (map_view (ip_tree ip)) us"
  shows "tree_shows (ip_tree (init_renew_accounts accounts us ip)) (map_view accounts)"
  unfolding tree_shows_def
proof
  fix i
  have "fmlookup (ip_tree (init_renew_accounts accounts us ip)) i =
      (if i \<in> fst ` set us then Some (case fmlookup accounts i of Some a \<Rightarrow> a | None \<Rightarrow> default_account) else fmlookup (ip_tree ip) i)"
    by (simp add: init_renew_accounts_def renewed_tree renewed_lookup)
  moreover have "map_view accounts i = map_view (ip_tree ip) i" if "i \<notin> fst ` set us"
    using assms untouched_view [OF that] by simp
  ultimately show "map_view (ip_tree (init_renew_accounts accounts us ip)) i = map_view accounts i \<or>
      map_view accounts i = None \<and> fmlookup (ip_tree (init_renew_accounts accounts us ip)) i = Some default_account"
    by (cases "i \<in> fst ` set us"; cases "fmlookup accounts i") (simp_all add: map_view_def)
qed

lemma load_account_tree_shows:
  assumes inv: "chain_inv g db" and cache: "case cache of Some b \<Rightarrow> b \<le> lg_committed g | None \<Rightarrow> True"
    and run: "load_account_tree root db cache init_params_new = Ok (n, ip)"
  shows "n = loaded_block g (lg_committed g) \<and> tree_shows (ip_tree ip) (ledger_view g (lg_committed g))"
proof -
  let ?c = "lg_committed g" and ?v = "lg_verified g"
  have v: "?v \<le> ?c" and tables: "tables_ok db" "tables_view db = ledger_view g ?v"
    using inv by (simp_all add: chain_inv_def ledger_ok_def)
  obtain m accounts0 where start: "(case cache of Some b \<Rightarrow> load_committed_state db (Some b) | None \<Rightarrow> load_verified_state db) = (m, accounts0)"
    by fastforce
  have m: "map_view accounts0 = ledger_view g m \<and> m \<le> loaded_block g ?c"
  proof (cases cache)
    case None
    with start last_verified [OF inv] have "m = ?v" by (simp add: load_verified_state_def)
    moreover have "loaded_block g ?v = ?v" by (simp add: loaded_block_def range_updates_def)
    ultimately show ?thesis using None start verified_view [OF tables(1)] tables(2) loaded_block_mono [OF v v] by auto
  next
    case (Some b)
    with cache start load_committed_view [OF inv, of b] loaded_block_view [of g b] loaded_block_mono [of b g] v
    show ?thesis by auto
  qed
  obtain k accounts where latest: "load_committed_state db None = (k, accounts)" by fastforce
  have k: "k = loaded_block g ?c" "map_view accounts = ledger_view g k" "map_view accounts = ledger_view g ?c"
    using load_committed_view [OF inv order.refl] loaded_block_view [of g ?c] latest unfolding load_latest [OF inv] by simp_all
  let ?ip = "init_accounts accounts0 init_params_new"
  let ?ip' = "if k \<noteq> m then case storage_state_diff db m (Some k) of Some (_, us) \<Rightarrow> init_renew_accounts accounts us ?ip | None \<Rightarrow> ?ip else ?ip"
  have "tree_shows (ip_tree ?ip') (ledger_view g ?c)"
  proof (cases "k = m \<or> range_updates (lg_updates g) (blocks_between m k) = []")
    case True
    have "m \<le> k" using m k(1) by simp
    then have "ledger_view g k = ledger_view g m" using True ledger_view_later [of m k g] by auto
    moreover have "ip_tree ?ip' = accounts0"
      using True state_diff_forward [OF inv \<open>m \<le> k\<close>] by (cases "k = m") (simp_all add: init_accounts_new)
    ultimately show ?thesis using m k(2,3) by (simp add: tree_shows_def)
  next
    case False
    then have "ip_tree ?ip' = ip_tree (init_renew_accounts accounts (range_updates (lg_updates g) (blocks_between m k)) ?ip)"
      using m k(1) state_diff_forward [OF inv, of m k] by (simp add: Let_def)
    moreover have "map_view accounts = views_update (map_view (ip_tree ?ip)) (range_updates (lg_updates g) (blocks_between m k))"
      using m k ledger_view_later [of m k g] by (simp add: init_accounts_new)
    ultimately show ?thesis using renew_accounts_show k(3) by metis
  qed
  moreover have "n = k \<and> ip = ?ip'"
    using run start latest by (auto simp: load_account_tree_def ok_iffs Let_def split: if_splits)
  ultimately show ?thesis using k(1) by simp
qed

text \<open>A genesis and a block with a full exit of an account that does not exist.\<close>

definition sample_exit_op :: executed_operation where
  "sample_exit_op = ExecPriority \<lparr>epo_priority_op = \<lparr>po_serial_id = 0, po_data = PrioFullExit \<lparr>fx_account_id = 9, fx_eth_address = 8, fx_token = 0\<rparr>,
      po_deadline_block = 100, po_eth_hash = [], po_eth_block = 5\<rparr>,
    epo_op = OpFullExit \<lparr>fxop_priority_op = \<lparr>fx_account_id = 9, fx_eth_address = 8, fx_token = 0\<rparr>, fxop_withdraw_amount = None\<rparr>,
    epo_block_index = 0\<rparr>"

definition sample_request :: "account_updates \<Rightarrow> commit_request" where
  "sample_request us = CommitBlock \<lparr>bcr_block = block_new 1 0 0 [sample_exit_op] (0, 1) 6 0 0, bcr_accounts_updated = us\<rparr>
    \<lparr>aur_account_updates = us, aur_first_update_order_id = 0\<rparr>"

definition sample_genesis_db :: chain_db where
  "sample_genesis_db = (empty_db [0])\<lparr>
      cd_account_creates := [\<lparr>sac_account_id = 0, sac_is_create = True, sac_block_number = 0, sac_address = 7, sac_nonce = 0, sac_update_order_id = 0\<rparr>],
      cd_accounts := [\<lparr>sa_id = 0, sa_last_block = 0, sa_nonce = 0, sa_address = 7, sa_pubkey_hash = 0\<rparr>]\<rparr>"

lemma sample_genesis: "create_genesis_block (empty_db [0]) 7 = Ok sample_genesis_db"
    by (simp add: create_genesis_block_def load_committed_state_def load_verified_state_def empty_db_def storage_state_diff_def
        Let_def load_diffs_def get_last_block_by_action_def max_or_zero_def insert_account_create_def apply_state_update_def
        diff_from_creation_def account_simps sample_genesis_db_def assert_that_def)

lemma sample_commit:
  assumes "us = [] \<or> us = [(0, UpdateBalance 0 0 (0, 0, 5))]"
  shows "\<exists>r db ip. handle_commit_request c sample_genesis_db (sample_request us) = Ok (r, db) \<and> keeper_restore_from_db (\<lambda>m. 0) db None = Ok ip"
proof -
  have "\<exists>r db. handle_commit_request c sample_genesis_db (sample_request us) = Ok (r, db) \<and> (\<exists>ip. keeper_restore_from_db (\<lambda>m. 0) db None = Ok ip)"
    using assms
    by (elim disjE; simp add: sample_request_def commit_block_def block_new_def Let_def sample_exit_op_def sample_genesis_db_def
        empty_db_def execute_operation_def save_block_def gas_as_u64_def prepare_stored_priority_op_def
        store_executed_priority_operation_def get_storage_block_def store_operation_def row_into_op_def get_block_def
        get_block_executed_ops_def into_executed_def;
      simp add: keeper_restore_from_db_def load_account_tree_def load_committed_state_def load_verified_state_def assert_that_def
        get_last_block_by_action_def max_or_zero_def storage_state_diff_def Let_def load_diffs_def init_accounts_def init_params_new_def
        unprocessed_priority_op_id_def get_operation_def get_block_def get_storage_block_def get_block_executed_ops_def
        into_executed_def block_new_def row_into_op_def)
  then show ?thesis by blast
qed

lemma sample_blocks: "blocks_between 0 1 = [1]" "blocks_between 0 2 = [1, 2]"
  by (simp_all add: blocks_between_def upt_rec)

lemma sample_ledger:
  assumes "us = [] \<or> us = [(0, UpdateBalance 0 0 (0, 0, 5))]"
  shows "ledger_ok (append_updates (genesis_ledger 7) us) \<and> ledger_ok (commit_next (append_updates (genesis_ledger 7) us))"
  using assms
  by (elim disjE; simp add: ledger_ok_def append_updates_def commit_next_def genesis_ledger_def range_updates_def sample_blocks
      view_step_def)

lemma sample_history:
  assumes "us = [] \<or> us = [(0, UpdateBalance 0 0 (0, 0, 5))]"
  shows "\<exists>db ip. (committer_step c)\<^sup>*\<^sup>* (genesis_ledger 7, sample_genesis_db) (commit_next (append_updates (genesis_ledger 7) us), db) \<and>
    keeper_restore_from_db (\<lambda>m. 0) db None = Ok ip"
proof -
  obtain r db ip where run: "handle_commit_request c sample_genesis_db (sample_request us) = Ok (r, db)"
    "keeper_restore_from_db (\<lambda>m. 0) db None = Ok ip"
    using sample_commit [OF assms] by blast
  let ?r = "\<lparr>aur_account_updates = us, aur_first_update_order_id = 0\<rparr>"
  have "committer_step c (genesis_ledger 7, sample_genesis_db) (commit_next (append_updates (genesis_ledger 7) (aur_account_updates ?r)), db)"
    by (rule committer_step.committed [OF run(1) [unfolded sample_request_def]])
      (use sample_ledger [OF assms] in \<open>simp_all add: block_new_def genesis_ledger_def\<close>)
  then show ?thesis using run(2) by auto
qed

section \<open>What the tables promise\<close>

text \<open>C30: from the genesis on, whatever requests of the state keeper the committer carries out and whatever
  proofs arrive, the tables of verified accounts show the accounts after the updates of the verified
  blocks, and loading the committed state, of the last block or of any other one, verified or not, gives the
  accounts after the updates of the blocks up to it.\<close>

theorem committed_state_loads:
  assumes "create_genesis_block (empty_db tokens) addr = Ok db0"
    and "(committer_step c)\<^sup>*\<^sup>* (genesis_ledger addr, db0) (g, db)"
  shows "map_view (snd (load_verified_state db)) = ledger_view g (lg_verified g) \<and>
    map_view (snd (load_committed_state db None)) = ledger_view g (lg_committed g) \<and>
    (\<forall>n \<le> lg_committed g. map_view (snd (load_committed_state db (Some n))) = ledger_view g n)"
proof -
  have inv: "chain_inv g db" by (rule committer_steps_inv [OF assms(2) genesis_created [OF assms(1)]])
  then have "map_view (snd (load_verified_state db)) = ledger_view g (lg_verified g)"
    using verified_view [of db] by (simp add: chain_inv_def)
  then show ?thesis using load_committed_view [OF inv] load_latest [OF inv] by simp
qed

lemma restore_shows:
  assumes "chain_inv g db" "case cache of Some b \<Rightarrow> b \<le> lg_committed g | None \<Rightarrow> True" "keeper_restore_from_db root db cache = Ok ip"
  shows "ip_last_block_number ip = loaded_block g (lg_committed g) \<and> tree_shows (ip_tree ip) (ledger_view g (lg_committed g))"
  using assms(3) load_account_tree_shows [OF assms(1,2)] by (auto simp: keeper_restore_from_db_def ok_iffs)

text \<open>C33: a state keeper that starts from the database, with or without a cached tree of whatever committed
  block, has the accounts that the updates of all the committed blocks lead to, and goes on after the last
  committed block if that block is verified or has updates.\<close>

theorem keeper_restarts:
  assumes "create_genesis_block (empty_db tokens) addr = Ok db0"
    and "(committer_step c)\<^sup>*\<^sup>* (genesis_ledger addr, db0) (g, db)"
    and "case cache of Some b \<Rightarrow> b \<le> lg_committed g | None \<Rightarrow> True"
    and "keeper_restore_from_db root db cache = Ok ip"
  shows "tree_shows (ip_tree ip) (ledger_view g (lg_committed g)) \<and>
    (lg_verified g = lg_committed g \<or> lg_updates g (lg_committed g) \<noteq> [] \<longrightarrow> ip_last_block_number ip = lg_committed g)"
proof -
  let ?v = "lg_verified g" and ?c = "lg_committed g"
  have inv: "chain_inv g db" by (rule committer_steps_inv [OF assms(2) genesis_created [OF assms(1)]])
  then have le: "?v \<le> ?c" by (simp add: chain_inv_def ledger_ok_def)
  have "loaded_block g ?c = ?c" if last: "?v \<noteq> ?c" "lg_updates g ?c \<noteq> []"
  proof -
    have "?c \<in> set (blocks_between ?v ?c)" using le last(1) by (auto simp: blocks_between_mem)
    then have ne: "range_updates (lg_updates g) (blocks_between ?v ?c) \<noteq> []" using last(2) unfolding range_updates_def by auto
    have "last_updated g ?v ?c = ?c" using last_updated_props [OF ne] last(2) le last(1) by (auto intro: antisym)
    with ne le show ?thesis by (simp add: loaded_block_def min_def max_def)
  qed
  moreover have "loaded_block g ?c = ?c" if "?v = ?c" using that by (simp add: loaded_block_def range_updates_def)
  ultimately show ?thesis using restore_shows [OF inv assms(3,4)] by metis
qed

lemma err_iffs:
  "res_bind r f = Err e \<longleftrightarrow> r = Err e \<or> (\<exists>x. r = Ok x \<and> f x = Err e)"
  "res_map h r = Err e \<longleftrightarrow> r = Err e" "unwrap r' \<noteq> Err e"
  by (cases r; simp; fail)+ (cases r'; simp)

lemma committer_no_Err:
  "withdrawal_hashes c ops \<noteq> Err e" "add_pending_withdrawals db hs \<noteq> Err e"
proof (induction ops)
  case (Cons op ops)
  then show "withdrawal_hashes c (op # ops) \<noteq> Err e" by (auto simp: err_iffs split: option.split)
next
  show "add_pending_withdrawals db hs \<noteq> Err e"
    by (induction db hs rule: add_pending_withdrawals.induct) (auto simp: err_iffs)
qed simp

lemma block_number_taken:
  assumes "bl_block_number (bcr_block b) \<in> set (map sbl_number (cd_blocks db))"
  shows "commit_block c db b r = Panic"
proof -
  have "save_block c db2 (bcr_block b) \<noteq> Ok db3" if "cd_blocks db2 = cd_blocks db" for db2 db3
  proof
    assume run: "save_block c db2 (bcr_block b) = Ok db3"
    then obtain db4 where db4: "save_block_transactions c db2 (bl_block_number (bcr_block b)) (bl_block_transactions (bcr_block b)) = Ok db4"
      by (auto simp: save_block_def ok_iffs)
    have "cd_blocks db4 = cd_blocks db" using save_block_transactions_books [OF db4] that by (simp add: books_def)
    with run db4 assms show False
      by (auto simp: save_block_def ok_iffs Let_def get_storage_block_def find_None_iff split: if_splits)
  qed
  have "commit_block c db b r \<noteq> Ok x" for x
  proof
    assume "commit_block c db b r = Ok x"
    then obtain hs db1 db2 r' db3 where run: "add_pending_withdrawals db hs = Ok db1"
      "commit_state_update db1 (bl_block_number (bcr_block b)) (aur_account_updates r) (aur_first_update_order_id r) = Ok db2"
      "execute_operation c db2 \<lparr>opn_id = None, opn_action = ActCommit, opn_block = bcr_block b\<rparr> = Ok (r', db3)"
      by (auto simp: commit_block_def ok_iffs Let_def)
    have "cd_blocks db2 = cd_blocks db"
      using add_pending_withdrawals_books [OF run(1)] commit_state_update_diffs [OF run(2)] without_diffs_eq [of db2 db1]
      by (simp add: books_def)
    with execute_commit [OF run(3)] \<open>\<And>db3 db2. cd_blocks db2 = cd_blocks db \<Longrightarrow> save_block c db2 (bcr_block b) \<noteq> Ok db3\<close>
    show False by blast
  qed
  moreover have "commit_block c db b r \<noteq> Err e" for e
    by (auto simp: commit_block_def Let_def err_iffs committer_no_Err)
  ultimately show ?thesis by (cases "commit_block c db b r") blast+
qed

text \<open>C34: when the last committed block is not verified and changed no account (a full exit of an account that does
  not exist is such a block), the number that the queries give is that of an earlier block: a state keeper that
  starts then takes up the numbers of blocks that exist, and the committer fails on its first block.\<close>

theorem block_without_updates_forgotten:
  assumes "create_genesis_block (empty_db tokens) addr = Ok db0"
    and "(committer_step c)\<^sup>*\<^sup>* (genesis_ledger addr, db0) (g, db)"
    and "case cache of Some b \<Rightarrow> b \<le> lg_committed g | None \<Rightarrow> True"
    and "keeper_restore_from_db root db cache = Ok ip"
    and "lg_verified g < lg_committed g" "lg_updates g (lg_committed g) = []"
  shows "ip_last_block_number ip < lg_committed g \<and>
    (bl_block_number (bcr_block b) = ip_last_block_number ip + 1 \<longrightarrow> handle_commit_request c db (CommitBlock b r) = Panic)"
proof -
  let ?v = "lg_verified g" and ?c = "lg_committed g" and ?n = "ip_last_block_number ip"
  have inv: "chain_inv g db" by (rule committer_steps_inv [OF assms(2) genesis_created [OF assms(1)]])
  have n: "?n = loaded_block g ?c" using restore_shows [OF inv assms(3,4)] by simp
  have less: "?n < ?c"
  proof (cases "range_updates (lg_updates g) (blocks_between ?v ?c) = []")
    case True
    with assms(5) n show ?thesis by (simp add: loaded_block_forward)
  next
    case False
    with last_updated_props [OF False] assms(5,6) n show ?thesis
      by (auto simp: loaded_block_forward order.strict_iff_order)
  qed
  have "handle_commit_request c db (CommitBlock b r) = Panic" if b: "bl_block_number (bcr_block b) = ?n + 1"
  proof -
    have "unat (?n + 1) = unat ?n + 1"
      using less unsigned_less [of ?c, where 'a = nat] by (simp add: word_less_nat_alt unat_word_ariths(1))
    then have "?n + 1 \<in> set (blocks_between 0 ?c)"
      using less by (simp add: blocks_between_mem word_less_nat_alt word_le_nat_alt)
    then have "bl_block_number (bcr_block b) \<in> set (map sbl_number (cd_blocks db))"
      using inv by (simp only: b chain_inv_def)
    then have "commit_block c db b r = Panic" by (rule block_number_taken)
    then show ?thesis by simp
  qed
  with less show ?thesis by simp
qed

theorem committed_state_loads_witness:
  "\<exists>db. map_view (snd (load_committed_state db None)) =
    ledger_view (commit_next (append_updates (genesis_ledger 7) [(0, UpdateBalance 0 0 (0, 0, 5))])) 1"
proof -
  obtain db where "(committer_step sample_crypto)\<^sup>*\<^sup>* (genesis_ledger 7, sample_genesis_db)
      (commit_next (append_updates (genesis_ledger 7) [(0, UpdateBalance 0 0 (0, 0, 5))]), db)"
    using sample_history by blast
  from committed_state_loads [OF sample_genesis this]
  have "map_view (snd (load_committed_state db None)) =
      ledger_view (commit_next (append_updates (genesis_ledger 7) [(0, UpdateBalance 0 0 (0, 0, 5))])) 1"
    by (simp add: commit_next_def append_updates_def genesis_ledger_def)
  then show ?thesis by blast
qed

theorem keeper_restarts_witness:
  "\<exists>db ip. keeper_restore_from_db (\<lambda>m. 0) db None = Ok ip \<and> ip_last_block_number ip = 1 \<and>
    tree_shows (ip_tree ip) (ledger_view (commit_next (append_updates (genesis_ledger 7) [(0, UpdateBalance 0 0 (0, 0, 5))])) 1)"
proof -
  obtain db ip where run: "(committer_step sample_crypto)\<^sup>*\<^sup>* (genesis_ledger 7, sample_genesis_db)
      (commit_next (append_updates (genesis_ledger 7) [(0, UpdateBalance 0 0 (0, 0, 5))]), db)"
    "keeper_restore_from_db (\<lambda>m. 0) db None = Ok ip"
    using sample_history by blast
  from keeper_restarts [OF sample_genesis run(1) _ run(2)] run(2)
  show ?thesis by (auto simp: commit_next_def append_updates_def genesis_ledger_def)
qed

theorem block_without_updates_forgotten_witness:
  "\<exists>db ip. keeper_restore_from_db (\<lambda>m. 0) db None = Ok ip \<and> ip_last_block_number ip = 0 \<and>
    handle_commit_request sample_crypto db (sample_request []) = Panic"
proof -
  obtain db ip where run: "(committer_step sample_crypto)\<^sup>*\<^sup>* (genesis_ledger 7, sample_genesis_db)
      (commit_next (append_updates (genesis_ledger 7) []), db)"
    "keeper_restore_from_db (\<lambda>m. 0) db None = Ok ip"
    using sample_history by blast
  have last: "ip_last_block_number ip < 1 \<and> (bl_block_number (bcr_block b) = ip_last_block_number ip + 1 \<longrightarrow>
      handle_commit_request sample_crypto db (CommitBlock b r) = Panic)" for b r
    using block_without_updates_forgotten [OF sample_genesis run(1) _ run(2), of b r]
    by (simp add: commit_next_def append_updates_def genesis_ledger_def)
  then have "ip_last_block_number ip = 0" by simp
  with last run(2) show ?thesis unfolding sample_request_def by (intro exI [of _ db] exI [of _ ip]) (simp add: block_new_def)
qed

end
