(* ===== verification/KeeperCommit.thy ===== *)
theory KeeperCommit
  imports KeeperLoop CommitProps
begin

text \<open>
  The state keeper and the committer together: the requests that the keeper sends while it executes proposed
  blocks keep the promises on which the tables depend, so that, whatever else happens between the requests,
  the committed state in the database is the one that the pending block of the keeper starts from.
\<close>

section \<open>What the requests promise\<close>

fun request_updates :: "commit_request \<Rightarrow> applied_updates_request" where
  "request_updates (CommitBlock b r) = r"
| "request_updates (CommitPendingBlock pb r) = r"

fun request_number :: "commit_request \<Rightarrow> block_number" where
  "request_number (CommitBlock b r) = bl_block_number (bcr_block b)"
| "request_number (CommitPendingBlock pb r) = spb_number pb"

definition request_total :: "commit_request \<Rightarrow> nat" where
  "request_total r = aur_first_update_order_id (request_updates r) + size (aur_account_updates (request_updates r))"

text \<open>The part of @ledger_ok@ that does not bound numbers.\<close>

definition ledger_sound :: "ledger \<Rightarrow> bool" where
  "ledger_sound g \<longleftrightarrow> (\<forall>n > lg_committed g + 1. lg_updates g n = []) \<and>
    updates_fit (\<lambda>i. None) (range_updates (lg_updates g) (0 # blocks_between 0 (lg_committed g + 1)))"

definition after_updates :: "ledger \<Rightarrow> commit_request \<Rightarrow> ledger" where
  "after_updates g r = append_updates g (aur_account_updates (request_updates r))"

fun after_request :: "ledger \<Rightarrow> commit_request \<Rightarrow> ledger" where
  "after_request g (CommitBlock b r) = commit_next (after_updates g (CommitBlock b r))"
| "after_request g (CommitPendingBlock pb r) = after_updates g (CommitPendingBlock pb r)"

definition follows :: "ledger \<Rightarrow> commit_request \<Rightarrow> bool" where
  "follows g r \<longleftrightarrow> request_number r = lg_committed g + 1 \<and>
    aur_first_update_order_id (request_updates r) = size (lg_updates g (lg_committed g + 1)) \<and>
    ledger_sound (after_updates g r) \<and> ledger_sound (after_request g r)"

fun leads :: "ledger \<Rightarrow> commit_request list \<Rightarrow> ledger \<Rightarrow> bool" where
  "leads g [] g' \<longleftrightarrow> g' = g"
| "leads g (r # rs) g' \<longleftrightarrow> follows g r \<and> leads (after_request g r) rs g'"

lemma leads_append: "leads g (rs @ [r]) g' \<longleftrightarrow> (\<exists>g1. leads g rs g1 \<and> follows g1 r \<and> g' = after_request g1 r)"
  by (induction rs arbitrary: g) auto

lemma append_updates_simps [simp]:
  "lg_committed (append_updates g us) = lg_committed g" "lg_verified (append_updates g us) = lg_verified g"
  "lg_updates (append_updates g us) n = (if n = lg_committed g + 1 then lg_updates g n @ us else lg_updates g n)"
  by (simp_all add: append_updates_def)

lemma commit_next_simps [simp]:
  "lg_committed (commit_next g) = lg_committed g + 1" "lg_updates (commit_next g) = lg_updates g"
  "lg_verified (commit_next g) = lg_verified g" "ledger_view (commit_next g) = ledger_view g"
  by (simp_all add: commit_next_def ledger_view_def fun_eq_iff)

lemma after_updates_committed [simp]: "lg_committed (after_updates g r) = lg_committed g"
  by (simp add: after_updates_def)

lemma leads_number: "leads g rs g' \<Longrightarrow> unat (lg_committed g) + size rs + 1 < 2 ^ 32 \<Longrightarrow>
  unat (lg_committed g') \<le> unat (lg_committed g) + size rs"
proof (induction rs arbitrary: g)
  case (Cons r rs)
  have "unat (lg_committed (after_request g r)) \<le> unat (lg_committed g) + 1"
    using Cons.prems(2) by (cases r) (simp_all add: unat_word_ariths(1))
  then show ?case using Cons by fastforce
qed simp

text \<open>The number of the last verified block plays no role.\<close>

lemma verified_irrelevant [simp]:
  "ledger_view (g\<lparr>lg_verified := v\<rparr>) = ledger_view g"
  "append_updates (g\<lparr>lg_verified := v\<rparr>) us = (append_updates g us)\<lparr>lg_verified := v\<rparr>"
  "commit_next (g\<lparr>lg_verified := v\<rparr>) = (commit_next g)\<lparr>lg_verified := v\<rparr>"
  by (simp_all add: ledger_view_def fun_eq_iff append_updates_def commit_next_def)

section \<open>The committer\<close>

text \<open>What happens to the tables while the committer carries out the requests, in their order.\<close>

inductive committer_run :: "crypto \<Rightarrow> chain_db \<Rightarrow> commit_request list \<Rightarrow> chain_db \<Rightarrow> bool" for c db where
  start: "committer_run c db [] db"
| handled: "committer_run c db rs db1 \<Longrightarrow> handle_commit_request c db1 r = Ok (us, db2) \<Longrightarrow> committer_run c db (rs @ [r]) db2"
| proved: "committer_run c db rs db1 \<Longrightarrow> verify_next c db1 (get_last_verified_block db1 + 1) = Ok (Some db2) \<Longrightarrow> committer_run c db rs db2"
| others: "committer_run c db rs db1 \<Longrightarrow> books db2 = books db1 \<Longrightarrow> committer_run c db rs db2"

lemma request_inv:
  assumes inv: "chain_inv g db" and run: "handle_commit_request c db r = Ok (us, db')" and fol: "follows g r"
    and number: "unat (lg_committed g) + 2 < 2 ^ 32" and total: "request_total r \<le> 2 ^ 31"
  shows "chain_inv (after_request g r) db'"
proof -
  have g: "lg_verified g \<le> lg_committed g" "\<forall>n. size (lg_updates g n) \<le> 2 ^ 31" using inv by (simp_all add: chain_inv_def ledger_ok_def)
  have less: "lg_committed g < lg_committed g + 1" "lg_committed g + 1 < lg_committed g + 1 + 1"
    using number by (simp_all add: word_less_nat_alt unat_word_ariths(1))
  have size: "size (lg_updates (after_updates g r) n) \<le> 2 ^ 31" for n
    using g(2) fol total by (auto simp: after_updates_def follows_def request_total_def)
  have ok: "ledger_ok (after_updates g r)"
    using fol g(1) less(1) size by (simp add: ledger_ok_def follows_def ledger_sound_def) (simp add: after_updates_def)
  show ?thesis
  proof (cases r)
    case (CommitBlock b a)
    have "lg_verified g \<le> lg_committed g + 1" using g(1) less(1) by (meson less_imp_le order.trans)
    then have "ledger_ok (commit_next (after_updates g r))"
      using fol less(2) size CommitBlock by (simp add: ledger_ok_def follows_def ledger_sound_def) (simp add: after_updates_def)
    then show ?thesis
      using block_request_inv [of g db c b a us db'] inv run fol ok CommitBlock by (simp add: after_updates_def follows_def)
  next
    case (CommitPendingBlock pb a)
    then show ?thesis
      using pending_request_inv [of g db c pb a us db'] inv run fol ok by (simp add: after_updates_def follows_def)
  qed
qed

lemma follows_verified [simp]: "follows (g\<lparr>lg_verified := v\<rparr>) r = follows g r"
  "after_request (g\<lparr>lg_verified := v\<rparr>) r = (after_request g r)\<lparr>lg_verified := v\<rparr>"
  by (cases r; simp add: follows_def after_updates_def ledger_sound_def)+

lemma committer_run_inv:
  assumes "committer_run c db rs db'" "chain_inv g db"
  shows "leads g rs g' \<Longrightarrow> unat (lg_committed g) + size rs + 1 < 2 ^ 32 \<Longrightarrow> \<forall>r \<in> set rs. request_total r \<le> 2 ^ 31 \<Longrightarrow>
    \<exists>v. chain_inv (g'\<lparr>lg_verified := v\<rparr>) db'"
  using assms(1)
proof (induction arbitrary: g' rule: committer_run.induct)
  case start
  then have "g' = g\<lparr>lg_verified := lg_verified g\<rparr>" by simp
  then show ?case using assms(2) by (intro exI [of _ "lg_verified g"]) simp
next
  case (handled rs db1 r us db2)
  obtain g1 where g1: "leads g rs g1" "follows g1 r" "g' = after_request g1 r"
    using handled.prems(1) unfolding leads_append by blast
  have bound: "unat (lg_committed g) + size rs + 1 < 2 ^ 32" using handled.prems(2) by simp
  obtain v where v: "chain_inv (g1\<lparr>lg_verified := v\<rparr>) db1"
    using handled.IH [OF g1(1) bound] handled.prems(3) by auto
  have number: "unat (lg_committed g1) + 2 < 2 ^ 32" using leads_number [OF g1(1) bound] handled.prems(2) by simp
  have "chain_inv (after_request (g1\<lparr>lg_verified := v\<rparr>) r) db2"
    by (rule request_inv [OF v handled.hyps(2)]) (use g1(2) number handled.prems(3) in simp_all)
  then show ?case using g1(3) by auto
next
  case (proved rs db1 db2)
  obtain v where v: "chain_inv (g'\<lparr>lg_verified := v\<rparr>) db1" using proved.IH proved.prems by blast
  then have "chain_inv (verify_one (g'\<lparr>lg_verified := v\<rparr>)) db2"
    using verify_inv [OF v, of c db2] proved.hyps(2) last_verified [OF v] by (simp add: get_last_verified_block_def)
  then show ?case by (auto simp: verify_one_def)
next
  case (others rs db1 db2)
  then show ?case using chain_inv_books by blast
qed

section \<open>The state keeper\<close>

definition matches :: "ledger \<Rightarrow> state_keeper \<Rightarrow> bool" where
  "matches g k \<longleftrightarrow> ledger_sound g \<and> keeper_inv (ledger_view g (lg_committed g)) k \<and>
    zs_block_number (sk_state k) = lg_committed g + 1 \<and>
    lg_updates g (lg_committed g + 1) = take (pb_stored_account_updates (sk_pending_block k)) (pb_account_updates (sk_pending_block k))"

text \<open>The requests sent so far lead to a ledger that matches the keeper, as long as block numbers do not run out.\<close>

definition in_step :: "ledger \<Rightarrow> commit_request list \<Rightarrow> state_keeper \<Rightarrow> bool" where
  "in_step g sent k \<longleftrightarrow> (\<exists>rs. sk_sent k = sent @ rs \<and>
    (unat (lg_committed g) + size rs + 1 < 2 ^ 32 \<longrightarrow> (\<exists>g'. leads g rs g' \<and> matches g' k)))"

text \<open>A step that sends nothing and only adds to the pending block.\<close>

definition quiet :: "state_keeper \<Rightarrow> state_keeper \<Rightarrow> bool" where
  "quiet k k' \<longleftrightarrow> sk_sent k' = sk_sent k \<and> zs_block_number (sk_state k') = zs_block_number (sk_state k) \<and>
    pb_stored_account_updates (sk_pending_block k') = pb_stored_account_updates (sk_pending_block k) \<and>
    (\<exists>us. pb_account_updates (sk_pending_block k') = pb_account_updates (sk_pending_block k) @ us)"

lemma in_step_quiet:
  assumes "in_step g sent k" "quiet k k'" "\<And>V. keeper_inv V k \<Longrightarrow> keeper_inv V k'"
  shows "in_step g sent k'"
proof -
  obtain rs where rs: "sk_sent k = sent @ rs"
    "unat (lg_committed g) + size rs + 1 < 2 ^ 32 \<Longrightarrow> \<exists>g'. leads g rs g' \<and> matches g' k"
    using assms(1) by (auto simp: in_step_def)
  have "matches g' k'" if "matches g' k" for g'
  proof -
    have "pb_stored_account_updates (sk_pending_block k) \<le> size (pb_account_updates (sk_pending_block k))"
      using that by (simp add: matches_def keeper_inv_def pending_ok_def Let_def)
    with that assms(2) assms(3) [of "ledger_view g' (lg_committed g')"] show ?thesis by (auto simp: matches_def quiet_def)
  qed
  with rs assms(2) show ?thesis unfolding in_step_def quiet_def by metis
qed

lemma in_step_send:
  assumes step: "in_step g sent k" and k': "sk_sent k' = sk_sent k @ [r]"
    and emit: "\<And>g'. matches g' k \<Longrightarrow> unat (lg_committed g') + 2 < 2 ^ 32 \<Longrightarrow> follows g' r \<and> matches (after_request g' r) k'"
  shows "in_step g sent k'"
proof -
  obtain rs where rs: "sk_sent k = sent @ rs"
    "unat (lg_committed g) + size rs + 1 < 2 ^ 32 \<Longrightarrow> \<exists>g'. leads g rs g' \<and> matches g' k"
    using step by (auto simp: in_step_def)
  have "\<exists>g'. leads g (rs @ [r]) g' \<and> matches g' k'" if bound: "unat (lg_committed g) + size (rs @ [r]) + 1 < 2 ^ 32"
  proof -
    have small: "unat (lg_committed g) + size rs + 1 < 2 ^ 32" using bound by simp
    then obtain g' where g': "leads g rs g'" "matches g' k" using rs(2) by blast
    have "unat (lg_committed g') + 2 < 2 ^ 32" using leads_number [OF g'(1) small] bound by simp
    with emit [OF g'(2)] g'(1) show ?thesis unfolding leads_append by blast
  qed
  with rs(1) k' show ?thesis unfolding in_step_def by (intro exI [of _ "rs @ [r]"]) simp
qed

lemma ledger_view_next:
  assumes "lg_committed g < lg_committed g + 1"
  shows "ledger_view g (lg_committed g + 1) = views_update (ledger_view g (lg_committed g)) (lg_updates g (lg_committed g + 1))"
  using ledger_view_later [of "lg_committed g" "lg_committed g + 1" g] blocks_between_next [OF order.refl assms] assms
  by (simp add: range_updates_def)

lemma sound_append:
  assumes "ledger_sound g" "lg_committed g < lg_committed g + 1"
    "updates_fit (ledger_view g (lg_committed g)) (lg_updates g (lg_committed g + 1) @ us)"
  shows "ledger_sound (append_updates g us)"
proof -
  let ?c = "lg_committed g" and ?g = "append_updates g us"
  have split: "blocks_between 0 (?c + 1) = blocks_between 0 ?c @ [?c + 1]"
    using blocks_between_next [OF _ assms(2), of 0] by simp
  have "lg_updates ?g m = lg_updates g m" if "m \<in> set (0 # blocks_between 0 ?c)" for m
    using that assms(2) by (auto simp: blocks_between_mem)
  then have same: "map (lg_updates ?g) (0 # blocks_between 0 ?c) = map (lg_updates g) (0 # blocks_between 0 ?c)" by (rule map_cong [OF refl])
  have parts: "range_updates U (0 # blocks_between 0 (?c + 1)) = range_updates U (0 # blocks_between 0 ?c) @ U (?c + 1)" for U
    by (simp add: range_updates_def split)
  have "updates_fit (\<lambda>i. None) (range_updates (lg_updates g) (0 # blocks_between 0 ?c))"
    using assms(1) unfolding ledger_sound_def parts by (simp add: updates_fit_append)
  moreover have "range_updates (lg_updates ?g) (0 # blocks_between 0 ?c) = range_updates (lg_updates g) (0 # blocks_between 0 ?c)"
    unfolding range_updates_def same by simp
  ultimately have "updates_fit (\<lambda>i. None) (range_updates (lg_updates ?g) (0 # blocks_between 0 (?c + 1)))"
    using assms(3) unfolding parts by (simp add: updates_fit_append ledger_view_def)
  then show ?thesis using assms(1,2) by (simp add: ledger_sound_def)
qed

lemma sound_next:
  assumes "ledger_sound g" "unat (lg_committed g) + 2 < 2 ^ 32"
  shows "ledger_sound (commit_next g)"
proof -
  let ?n = "lg_committed g + 1"
  have "unat ?n = unat (lg_committed g) + 1" "unat (?n + 1) = unat (lg_committed g) + 2"
    using assms(2) by (simp_all add: unat_word_ariths(1))
  then have less: "?n < ?n + 1" by (simp add: word_less_nat_alt)
  then have "blocks_between 0 (?n + 1) = blocks_between 0 ?n @ [?n + 1]" using blocks_between_next [OF _ less, of 0] by simp
  with less assms(1) show ?thesis by (auto simp: ledger_sound_def range_updates_def intro: less_trans)
qed


subsection \<open>Steps that send nothing\<close>

lemma insert_account_block_number [simp]: "zs_block_number (insert_account i a s) = zs_block_number s"
  by (simp add: insert_account_def)

lemma remove_account_block_number [simp]: "zs_block_number (remove_account i s) = zs_block_number s"
  by (simp add: remove_account_def Let_def split: option.split)

lemma execute_tx_block_number:
  assumes "execute_tx c s tx = Ok (succ, s')"
  shows "zs_block_number s' = zs_block_number s"
proof (cases tx)
  case (TxTransfer t)
  then obtain o' x where "transfer_apply_op s o' = Ok (x, s')"
    using assms by (auto simp: execute_tx_Ok)
  then show ?thesis by (cases o') (auto simp: apply_op_Ok Let_def split: if_splits)
qed (use assms in \<open>auto simp: execute_tx_Ok apply_op_Ok Let_def\<close>)

lemma execute_priority_op_block_number:
  assumes "execute_priority_op s p = Ok (succ, s')"
  shows "zs_block_number s' = zs_block_number s"
  using assms by (cases p) (auto simp: execute_priority_op_Ok apply_op_Ok Let_def split: option.splits)

lemma apply_priority_op_quiet:
  assumes "(apply_priority_op k op :: (error, _) res) = Ok (r, k')"
  shows "quiet k k'"
proof (cases "unat (pb_chunks_left (sk_pending_block k)) < prio_chunks (po_data op)")
  case True
  then show ?thesis using assms by (simp add: apply_priority_op_def quiet_def)
next
  case False
  then obtain o' where o': "(priority_op_to_zksync_op (sk_state k) (po_data op) :: (error, _) res) = Ok o'"
    using assms by (auto simp: apply_priority_op_def Let_def ok_iffs)
  note body = assms [unfolded apply_priority_op_def Let_def o' res_bind.simps if_not_P [OF False]]
  show ?thesis
  proof (cases "add_op (pb_gas_counter (sk_pending_block k)) o'")
    case (Ok g)
    then obtain succ s where ex: "(execute_priority_op (sk_state k) (po_data op) :: (error, _) res) = Ok (succ, s)"
      using body by (auto simp: ok_iffs)
    then show ?thesis
      using body Ok execute_priority_op_block_number [OF ex] by (auto simp: quiet_def push_success_def)
  qed (use body in \<open>simp_all add: quiet_def\<close>)
qed

lemma apply_tx_quiet:
  assumes "apply_tx c k tx = Ok (r, k')"
  shows "quiet k k'"
proof -
  obtain n where n: "(chunks_for_tx (sk_state k) (stx_tx tx) :: (error, _) res) = Ok n"
    using assms by (auto simp: apply_tx_def ok_iffs)
  show ?thesis
  proof (cases "unat (pb_chunks_left (sk_pending_block k)) < n")
    case True
    then show ?thesis using assms n by (simp add: apply_tx_def quiet_def)
  next
    case False
    note body = assms [unfolded apply_tx_def Let_def n res_bind.simps if_not_P [OF False]]
    show ?thesis
    proof (cases "add_tx_gas c (sk_state k) (pb_gas_counter (sk_pending_block k)) (stx_tx tx)")
      case (Ok g)
      note body = body [unfolded Ok res.case]
      show ?thesis
      proof (cases "execute_tx c (sk_state k) (stx_tx tx)")
        case (Ok x)
        obtain succ s where x: "x = (succ, s)" by (cases x)
        show ?thesis
          using body [unfolded Ok x res.case prod.case] execute_tx_block_number [OF Ok [unfolded x]]
          by (auto simp: quiet_def push_success_def split: if_splits)
      next
        case (Err e)
        show ?thesis using body [unfolded Err res.case] by (auto simp: quiet_def split: if_splits)
      next
        case Panic
        show ?thesis using body [unfolded Panic res.case] by (auto simp: quiet_def split: if_splits)
      qed
    qed (use body in \<open>simp_all add: quiet_def\<close>)
  qed
qed


subsection \<open>Steps that send a request\<close>

lemma seal_sends:
  assumes "(seal_pending_block root k :: ('e, _) res) = Ok k'"
  shows "\<exists>b us s. (collect_fee (sk_state k) (pb_collected_fees (sk_pending_block k)) (sk_fee_account_id k) :: ('e, _) res) = Ok (us, s)
    \<and> bl_block_number b = zs_block_number (sk_state k) \<and> sk_state k' = s\<lparr>zs_block_number := zs_block_number (sk_state k) + 1\<rparr>
    \<and> sk_pending_block k' = pending_block_new (sk_current_unprocessed_priority_op k) (of_nat (last (sk_available_block_chunk_sizes k)))
    \<and> sk_sent k' = sk_sent k @ [CommitBlock
        \<lparr>bcr_block = b, bcr_accounts_updated = pb_account_updates (sk_pending_block k) @ us\<rparr>
        \<lparr>aur_account_updates = drop (pb_stored_account_updates (sk_pending_block k)) (pb_account_updates (sk_pending_block k) @ us),
         aur_first_update_order_id = pb_stored_account_updates (sk_pending_block k)\<rparr>]"
proof -
  have number: "zs_block_number s = zs_block_number (sk_state k)"
    if "(collect_fee (sk_state k) (pb_collected_fees (sk_pending_block k)) (sk_fee_account_id k) :: ('e, _) res) = Ok (us, s)" for us s
    using that by (auto simp: collect_fee_def ok_iffs case_prod_unfold Let_def)
  have block: "bl_block_number b = n" if "(block_new_from_available_block_sizes n h f txs ops sizes c v :: ('e, block) res) = Ok b"
    for n h f txs ops sizes c v b
    using that by (auto simp: block_new_from_available_block_sizes_def block_new_def ok_iffs Let_def)
  show ?thesis
    using assms by (fastforce simp: seal_pending_block_def Let_def ok_iffs number dest: block)
qed

lemma matches_parts:
  assumes "matches g k"
  shows "ledger_sound g" "keeper_inv (ledger_view g (lg_committed g)) k" "zs_block_number (sk_state k) = lg_committed g + 1"
    "lg_updates g (lg_committed g + 1) = take (pb_stored_account_updates (sk_pending_block k)) (pb_account_updates (sk_pending_block k))"
    "pb_stored_account_updates (sk_pending_block k) \<le> size (pb_account_updates (sk_pending_block k))"
    "updates_from (ledger_view g (lg_committed g)) (pb_account_updates (sk_pending_block k)) (sk_state k)"
  using assms by (simp_all add: matches_def keeper_inv_def pending_ok_def Let_def)

text \<open>The updates that a request adds complete those of the pending block.\<close>

lemma matches_request:
  assumes "matches g k" "unat (lg_committed g) + 2 < 2 ^ 32"
    and r: "request_number r = zs_block_number (sk_state k)"
      "request_updates r = \<lparr>aur_account_updates = drop (pb_stored_account_updates (sk_pending_block k)) us,
        aur_first_update_order_id = pb_stored_account_updates (sk_pending_block k)\<rparr>"
    and us: "us = pb_account_updates (sk_pending_block k) @ vs" "updates_from (ledger_view g (lg_committed g)) us s"
  shows "follows g r" "ledger_sound (after_updates g r)" "lg_updates (after_updates g r) (lg_committed g + 1) = us"
    "ledger_view (after_updates g r) (lg_committed g) = ledger_view g (lg_committed g)"
    "ledger_view (after_updates g r) (lg_committed g + 1) = state_view s"
proof -
  note m = matches_parts [OF assms(1)]
  have less: "lg_committed g < lg_committed g + 1" using assms(2) by (simp add: word_less_nat_alt unat_word_ariths(1))
  have all: "lg_updates g (lg_committed g + 1) @ drop (pb_stored_account_updates (sk_pending_block k)) us = us"
    using m(4,5) us(1) by (simp add: append_assoc [symmetric] del: append_assoc)
  show sound: "ledger_sound (after_updates g r)"
    using sound_append [OF m(1) less, of "drop (pb_stored_account_updates (sk_pending_block k)) us"] all us(2) r(2)
    by (simp add: after_updates_def updates_from_def)
  show now: "lg_updates (after_updates g r) (lg_committed g + 1) = us" using all r(2) by (simp add: after_updates_def)
  show before: "ledger_view (after_updates g r) (lg_committed g) = ledger_view g (lg_committed g)"
    using ledger_view_committed [OF order.refl less] by (simp add: after_updates_def)
  show "ledger_view (after_updates g r) (lg_committed g + 1) = state_view s"
    using ledger_view_next [of "after_updates g r"] less us(2) now before by (simp add: updates_from_def)
  have "ledger_sound (after_request g r)"
    using sound sound_next [of "after_updates g r"] assms(2) by (cases r) simp_all
  then show "follows g r"
    using sound r m(3,4,5) by (simp add: follows_def)
qed


lemma seal_in_step:
  assumes step: "in_step g sent k" and chunks: "chunks_ok k" and seal: "(seal_pending_block root k :: (error, _) res) = Ok k'"
  shows "in_step g sent k'"
proof -
  obtain b us s where sent: "(collect_fee (sk_state k) (pb_collected_fees (sk_pending_block k)) (sk_fee_account_id k) :: (error, _) res) = Ok (us, s)"
    "bl_block_number b = zs_block_number (sk_state k)" "sk_state k' = s\<lparr>zs_block_number := zs_block_number (sk_state k) + 1\<rparr>"
    "sk_pending_block k' = pending_block_new (sk_current_unprocessed_priority_op k) (of_nat (last (sk_available_block_chunk_sizes k)))"
    and k': "sk_sent k' = sk_sent k @ [CommitBlock
        \<lparr>bcr_block = b, bcr_accounts_updated = pb_account_updates (sk_pending_block k) @ us\<rparr>
        \<lparr>aur_account_updates = drop (pb_stored_account_updates (sk_pending_block k)) (pb_account_updates (sk_pending_block k) @ us),
         aur_first_update_order_id = pb_stored_account_updates (sk_pending_block k)\<rparr>]"
    using seal_sends [OF seal] by blast
  define r where "r = CommitBlock \<lparr>bcr_block = b, bcr_accounts_updated = pb_account_updates (sk_pending_block k) @ us\<rparr>
    \<lparr>aur_account_updates = drop (pb_stored_account_updates (sk_pending_block k)) (pb_account_updates (sk_pending_block k) @ us),
     aur_first_update_order_id = pb_stored_account_updates (sk_pending_block k)\<rparr>"
  have parts: "request_number r = zs_block_number (sk_state k)"
    "request_updates r = \<lparr>aur_account_updates =
        drop (pb_stored_account_updates (sk_pending_block k)) (pb_account_updates (sk_pending_block k) @ us),
      aur_first_update_order_id = pb_stored_account_updates (sk_pending_block k)\<rparr>"
    "after_request g' r = commit_next (after_updates g' r)" for g'
    by (simp_all add: r_def sent(2))
  show ?thesis
  proof (rule in_step_send [OF step, of _ r])
    show "sk_sent k' = sk_sent k @ [r]" using k' by (simp add: r_def)
    fix g' assume m: "matches g' k" and number: "unat (lg_committed g') + 2 < 2 ^ 32"
    note p = matches_parts [OF m]
    have from_start: "updates_from (ledger_view g' (lg_committed g')) (pb_account_updates (sk_pending_block k) @ us) s"
      by (rule updates_from_append [OF p(6) collect_fee_replays(1) [OF sent(1)]])
    note q = matches_request [OF m number parts(1,2) refl from_start]
    have "keeper_inv (state_view (sk_state k')) k'"
      using seal_works [OF p(2) chunks, of root] seal by (metis res.inject(1))
    moreover have "lg_committed g' + 1 < lg_committed g' + 1 + 1"
      using number by (simp add: word_less_nat_alt unat_word_ariths(1))
    moreover have "ledger_sound (commit_next (after_updates g' r))"
      using sound_next [OF q(2)] number by simp
    ultimately show "follows g' r \<and> matches (after_request g' r) k'"
      using q p(3) sent(3,4) by (simp add: matches_def parts(3) pending_block_new_def ledger_sound_def)
  qed
qed

lemma store_in_step:
  assumes step: "in_step g sent k" and store: "(store_pending_block k :: (error, _) res) = Ok k'"
  shows "in_step g sent k'"
proof -
  let ?pb = "sk_pending_block k"
  define r where "r = CommitPendingBlock
    \<lparr>spb_number = zs_block_number (sk_state k), spb_chunks_left = pb_chunks_left ?pb,
     spb_unprocessed_priority_op_before = pb_unprocessed_priority_op_before ?pb,
     spb_pending_block_iteration = pb_pending_block_iteration ?pb,
     spb_success_operations = pb_success_operations ?pb, spb_failed_txs = pb_failed_txs ?pb\<rparr>
    \<lparr>aur_account_updates = drop (pb_stored_account_updates ?pb) (pb_account_updates ?pb),
     aur_first_update_order_id = pb_stored_account_updates ?pb\<rparr>"
  have k': "k' = k\<lparr>sk_pending_block := ?pb\<lparr>pb_stored_account_updates := size (pb_account_updates ?pb)\<rparr>,
    sk_sent := sk_sent k @ [r]\<rparr>"
    using store by (auto simp: store_pending_block_def Let_def ok_iffs r_def)
  show ?thesis
  proof (rule in_step_send [OF step, of _ r])
    show "sk_sent k' = sk_sent k @ [r]" by (simp add: k')
    fix g' assume m: "matches g' k" and number: "unat (lg_committed g') + 2 < 2 ^ 32"
    note p = matches_parts [OF m]
    have parts: "request_number r = zs_block_number (sk_state k)"
      "request_updates r = \<lparr>aur_account_updates = drop (pb_stored_account_updates ?pb) (pb_account_updates ?pb),
        aur_first_update_order_id = pb_stored_account_updates ?pb\<rparr>" "after_request g' r = after_updates g' r"
      by (simp_all add: r_def)
    note q = matches_request [OF m number parts(1,2) append_Nil2 [symmetric] p(6)]
    have "keeper_inv (ledger_view g' (lg_committed g')) k'"
      using p(2) by (simp add: k' keeper_inv_def pending_ok_def Let_def)
    then show "follows g' r \<and> matches (after_request g' r) k'"
      using q p(3) by (simp add: matches_def parts(3)) (simp add: k')
  qed
qed


section \<open>The loops of the state keeper\<close>

text \<open>What every turn keeps, the whole loop keeps.\<close>

context retry_queue begin

lemma ends_keeping:
  assumes keeps: "\<And>k x rest b k'. inv k (x # rest) \<Longrightarrow> J k \<Longrightarrow> step k x = Ok (b, k') \<Longrightarrow> J k'"
    and start: "inv k queue" "J k"
  shows "\<exists>k'. run_queue step k queue = Some (Ok k') \<and> inv k' [] \<and> J k'"
proof -
  have "retry_queue step (\<lambda>k queue. inv k queue \<and> J k)"
  proof
    fix k x rest assume "inv k (x # rest) \<and> J k"
    then show "\<exists>b k'. step k x = Ok (b, k') \<and> inv k' (if b then rest else x # rest) \<and> J k'"
      using turn keeps by blast
  qed (use retry in blast)
  then show ?thesis using retry_queue.ends [of step "\<lambda>k queue. inv k queue \<and> J k"] start by blast
qed

end

lemma seal_if_full_in_step:
  assumes "in_step g sent k" "chunks_ok k" "(seal_if_full root (r, k) :: (error, _) res) = Ok (b, k')"
  shows "in_step g sent k'"
  using assms seal_in_step [OF assms(1,2), of root] by (cases r) (auto simp: seal_if_full_def ok_iffs)

lemma priority_turn_in_step:
  assumes "prio_ready k0 m k (op # rest)" "in_step g sent k" "priority_op_turn root k op = Ok (b, k')"
  shows "in_step g sent k'"
proof -
  obtain r k1 where k1: "(apply_priority_op k op :: (error, _) res) = Ok (r, k1)" "(seal_if_full root (r, k1) :: (error, _) res) = Ok (b, k')"
    using assms(3) by (auto simp: priority_op_turn_def ok_iffs)
  have ready: "\<exists>V. keeper_inv V k" "chunks_ok k" "account_count (sk_state k) < 2 ^ 32"
    "(case po_data op of PrioDeposit d \<Rightarrow> dep_token d | PrioFullExit f \<Rightarrow> fx_token f) \<le> max_token_id"
    using assms(1) by (auto simp: prio_ready_def prio_token_ok_def)
  have "keeper_inv V k1 \<and> chunks_ok k1" if "keeper_inv V k" for V
    using apply_priority_op_keeps [OF that ready(2-4)] k1(1) by auto
  then show ?thesis
    using seal_if_full_in_step [OF in_step_quiet [OF assms(2) apply_priority_op_quiet [OF k1(1)]] _ k1(2)] ready(1) by blast
qed

lemma tx_turn_in_step:
  assumes "tx_ready c k (v # rest)" "in_step g sent k" "tx_turn root c k v = Ok (b, k')"
  shows "in_step g sent k'"
proof -
  obtain tx where v: "v = VariantTx tx" "tx_fine c tx" using assms(1) by (auto simp: tx_ready_def)
  obtain r k1 where k1: "apply_tx c k tx = Ok (r, k1)" "(seal_if_full root (r, k1) :: (error, _) res) = Ok (b, k')"
    using assms(3) by (auto simp: tx_turn_def v(1) ok_iffs)
  obtain bytes where ready: "\<exists>V. keeper_inv V k" "chunks_ok k" "account_count (sk_state k) < 2 ^ 32"
    "signer_nonzero c (stx_tx tx)" "tx_get_bytes (stx_tx tx) = Ok bytes"
    using assms(1) v(2) by (auto simp: tx_ready_def tx_fine_def)
  have "keeper_inv V k1 \<and> chunks_ok k1" if "keeper_inv V k" for V
    using apply_tx_keeps [OF that ready(2-5)] k1(1) by auto
  then show ?thesis
    using seal_if_full_in_step [OF in_step_quiet [OF assms(2) apply_tx_quiet [OF k1(1)]] _ k1(2)] ready(1) by blast
qed

lemma finish_in_step:
  assumes "in_step g sent k" "chunks_ok k" "finish_iteration root k = Ok k'"
  shows "in_step g sent k'"
proof -
  let ?pb = "sk_pending_block k"
  define pb where "pb = (if pb_success_operations ?pb \<noteq> []
    then ?pb\<lparr>pb_pending_block_iteration := pb_pending_block_iteration ?pb + 1\<rparr> else ?pb)"
  define k1 where "k1 = k\<lparr>sk_pending_block := pb\<rparr>"
  have "quiet k k1" "chunks_ok k1"
    using assms(2) by (auto simp: quiet_def k1_def pb_def chunks_ok_def)
  moreover have "keeper_inv V k1" if "keeper_inv V k" for V
    using that by (auto simp: k1_def pb_def keeper_inv_def pending_ok_def Let_def)
  ultimately have k1: "in_step g sent k1" "chunks_ok k1" using in_step_quiet [OF assms(1)] by blast+
  have "finish_iteration root k = seal_pending_block root k1 \<or> finish_iteration root k = store_pending_block k1"
    by (simp add: finish_iteration_def Let_def k1_def pb_def)
  then show ?thesis using seal_in_step [OF k1] store_in_step [OF k1(1)] assms(3) by auto
qed

lemma proposed_block_in_step:
  assumes "keeper_inv V k" "chunks_ok k" "6 \<le> last (sk_available_block_chunk_sizes k)"
    "ucast (sk_max_number_of_withdrawals_per_block k) \<noteq> (0 :: 32 word)"
    "account_count (sk_state k) + size (prb_priority_ops p) + size (prb_txs p) \<le> 2 ^ 32"
    "\<forall>op \<in> set (prb_priority_ops p). prio_token_ok op
      \<and> prio_chunks (po_data op) \<le> last (sk_available_block_chunk_sizes k)"
    "\<forall>v \<in> set (prb_txs p). \<exists>tx. v = VariantTx tx \<and> tx_fine c tx"
    and step: "in_step g sent k"
  shows "\<exists>k'. execute_proposed_block root c k p = Some (Ok k') \<and> in_step g sent k'"
proof -
  have ready: "prio_ready k (size (prb_txs p)) k (prb_priority_ops p)"
    using assms(1-7) by (auto simp: prio_ready_def same_config_def)
  have "\<exists>k1. run_priority_ops root k (prb_priority_ops p) = Some (Ok k1) \<and> prio_ready k (size (prb_txs p)) k1 [] \<and> in_step g sent k1"
    unfolding run_priority_ops_def
    by (rule prio_loop.ends_keeping [where J = "in_step g sent", OF _ ready step]) (rule priority_turn_in_step)
  then obtain k1 where k1: "run_priority_ops root k (prb_priority_ops p) = Some (Ok k1)"
    "prio_ready k (size (prb_txs p)) k1 []" "in_step g sent k1" by blast
  then have ready: "tx_ready c k1 (prb_txs p)"
    using assms(1-7) by (auto simp: prio_ready_def tx_ready_def same_config_def)
  have "\<exists>k2. run_txs root c k1 (prb_txs p) = Some (Ok k2) \<and> tx_ready c k2 [] \<and> in_step g sent k2"
    unfolding run_txs_def
    by (rule tx_loop.ends_keeping [where J = "in_step g sent", OF _ ready k1(3)]) (rule tx_turn_in_step)
  then obtain k2 where k2: "run_txs root c k1 (prb_txs p) = Some (Ok k2)" "tx_ready c k2 []" "in_step g sent k2" by blast
  then obtain V2 where V2: "keeper_inv V2 k2" "chunks_ok k2" by (auto simp: tx_ready_def)
  obtain k' where "finish_iteration root k2 = Ok k'" using finish_iteration_works [OF V2] by blast
  then show ?thesis
    using finish_in_step [OF k2(3) V2(2)] k1(1) k2(1) by (simp add: execute_proposed_block_def)
qed


lemma committed_number: "chain_inv g db \<Longrightarrow> get_last_block_by_action db COMMIT = lg_committed g"
  by (simp add: chain_inv_def get_last_block_by_action_def max_or_zero_between flip: rows_of_def)

section \<open>A keeper on the genesis\<close>

text \<open>The genesis with the fee account, and a deposit to a new account.\<close>

definition first_state :: zk_state where
  "first_state = insert_account 0 (default_with_address 7) (empty_state\<lparr>zs_block_number := 1\<rparr>)"

definition first_keeper :: state_keeper where
  "first_keeper = sample_keeper\<lparr>sk_state := first_state\<rparr>"

definition first_deposit :: priority_op where
  "first_deposit = sample_prio\<lparr>po_data := PrioDeposit \<lparr>dep_from = 1, dep_token = 0, dep_amount = 40, dep_to = 55\<rparr>\<rparr>"

definition first_proposed :: proposed_block where
  "first_proposed = \<lparr>prb_priority_ops = [first_deposit], prb_txs = []\<rparr>"

lemma empty_first: "account_count (empty_state\<lparr>zs_block_number := n\<rparr>) = 0" "get_account empty_state i = None"
  using empty_state_get by (simp_all add: account_count_def empty_state_def fcard_fempty get_account_block_number [symmetric] del: get_account_block_number)

lemma first_state_ok: "state_inv first_state" "account_count first_state = 1"
  using state_inv_add [OF empty_state_inv_at empty_first(1), where a = "default_with_address 7" and i = 0]
  by (simp_all add: first_state_def)

lemma first_lookup: "get_account first_state i = (if i = 0 then Some (default_with_address 7) else None)"
  "fmlookup (zs_index first_state) a = (if a = 7 then Some 0 else None)" "zs_block_number first_state = 1"
  by (simp_all add: first_state_def state_simps default_with_address_def empty_first)

lemma first_view: "state_view first_state = ledger_view (genesis_ledger 7) 0"
proof -
  have "range_updates (lg_updates (genesis_ledger 7)) (0 # blocks_between 0 0) = [(0, Create 7 0)]"
    by (simp add: range_updates_def genesis_ledger_def)
  then show ?thesis
    by (auto simp: ledger_view_def fun_eq_iff view_step_def state_view_get first_lookup account_view_def
      default_with_address_def account_simps default_account_def get_balance_def)
qed

lemma first_matches: "matches (genesis_ledger 7) first_keeper" "chunks_ok first_keeper"
proof -
  have "ledger_sound (genesis_ledger 7)"
    using genesis_created [OF sample_genesis] by (simp add: chain_inv_def ledger_ok_def ledger_sound_def)
  then show "matches (genesis_ledger 7) first_keeper" "chunks_ok first_keeper"
    using first_state_ok(1)
    by (simp_all add: matches_def keeper_inv_def chunks_ok_def first_keeper_def sample_keeper_def pending_ok_def pending_block_new_def
      updates_from_def gas_counter_new_ok prio_count_def txs_chunks_def block_ops_def first_lookup first_view [symmetric])
     (simp_all add: genesis_ledger_def first_view)
qed

text \<open>It is the one that starts on the genesis.\<close>

lemma first_restores: "keeper_restore_from_db (\<lambda>m. 0) sample_genesis_db None =
   Ok \<lparr>ip_tree = fmupd 0 (default_with_address 7) fmempty, ip_acc_id_by_addr = fmupd 7 0 fmempty, ip_last_block_number = 0,
    ip_unprocessed_priority_op = 0\<rparr>"
  by (simp add: keeper_restore_from_db_def load_account_tree_def load_committed_state_def load_verified_state_def
        get_last_block_by_action_def max_or_zero_def storage_state_diff_def load_diffs_def init_accounts_def init_params_new_def
        unprocessed_priority_op_id_def sample_genesis_db_def empty_db_def get_operation_def restore_account_def balances_for_id_def
        init_insert_account_def sorted_list_of_fset.rep_eq default_with_address_def default_account_def)

lemma first_keeper_starts:
  "\<exists>ip. keeper_restore_from_db (\<lambda>m. 0) sample_genesis_db None = Ok ip \<and>
    (state_keeper_new ip 7 [6, 12] 10 5 10 :: (error, _) res) = Ok first_keeper"
  unfolding first_restores
  by (simp add: state_keeper_new_def first_keeper_def sample_keeper_def first_state_def insert_account_def empty_state_def
    get_account_by_address_def assert_that_def get_account_def tree_get_def default_with_address_def)

lemma first_deposit_executes: "\<exists>succ s'. execute_priority_op first_state (po_data first_deposit) = (Ok (succ, s') :: (error, _) res)
  \<and> os_updates succ = [(1, Create 55 0), (1, UpdateBalance 0 0 (0, 0, 40))]
  \<and> os_executed_op succ = OpDeposit \<lparr>depop_priority_op = \<lparr>dep_from = 1, dep_token = 0, dep_amount = 40, dep_to = 55\<rparr>, depop_account_id = 1\<rparr>"
proof -
  have free: "get_free_account_id first_state = 1"
    using first_state_ok(2) by (simp add: get_free_account_id_def account_count_def)
  show ?thesis
    by (simp add: execute_priority_op_Ok first_deposit_def deposit_create_op_def deposit_apply_op_def first_lookup
      get_account_by_address_def free create_account_def account_simps assert_that_def)
qed


lemma first_runs: "\<exists>k' pb. execute_proposed_block (\<lambda>s. 7) sample_crypto first_keeper first_proposed = Some (Ok k')
  \<and> sk_sent k' = [CommitPendingBlock pb \<lparr>aur_account_updates = [(1, Create 55 0), (1, UpdateBalance 0 0 (0, 0, 40))],
      aur_first_update_order_id = 0\<rparr>]
  \<and> spb_number pb = 1 \<and> spb_failed_txs pb = [] \<and> (\<exists>o' i. spb_success_operations pb = [ExecPriority \<lparr>epo_priority_op = first_deposit,
      epo_op = OpDeposit o', epo_block_index = i\<rparr>])"
proof -
  obtain succ s' where ex: "execute_priority_op first_state (po_data first_deposit) = (Ok (succ, s') :: (error, _) res)"
    "os_updates succ = [(1, Create 55 0), (1, UpdateBalance 0 0 (0, 0, 40))]"
    "os_executed_op succ = OpDeposit \<lparr>depop_priority_op = \<lparr>dep_from = 1, dep_token = 0, dep_amount = 40, dep_to = 55\<rparr>, depop_account_id = 1\<rparr>"
    using first_deposit_executes by blast
  then have nz: "(priority_op_to_zksync_op first_state (po_data first_deposit) :: (error, _) res) = Ok (os_executed_op succ)"
    by (auto simp: priority_op_to_zksync_op_def execute_priority_op_Ok first_deposit_def)
  obtain gas where gas: "add_op gas_counter_new (os_executed_op succ) = Ok gas" using add_op_fresh ex(3) by fastforce
  have chunks: "prio_chunks (po_data first_deposit) = 6" by (simp add: first_deposit_def op_consts)
  have num: "zs_block_number s' = 1" using execute_priority_op_block_number [OF ex(1)] by (simp add: first_lookup)
  have turn: "(priority_op_turn (\<lambda>s. 7) first_keeper first_deposit) = Ok (True, first_keeper\<lparr>sk_state := s',
      sk_pending_block := push_success ((sk_pending_block first_keeper)\<lparr>pb_gas_counter := gas\<rparr>) 6 succ
       (ExecPriority \<lparr>epo_priority_op = first_deposit, epo_op = os_executed_op succ, epo_block_index = 0\<rparr>),
      sk_current_unprocessed_priority_op := 1\<rparr>)"
    using ex(1) nz gas by (simp add: priority_op_turn_def apply_priority_op_def chunks first_keeper_def sample_keeper_def
      pending_block_new_def seal_if_full_def Let_def)
  have queue: "run_priority_ops (\<lambda>s. 7) first_keeper [first_deposit] = Some (Ok (first_keeper\<lparr>sk_state := s',
      sk_pending_block := push_success ((sk_pending_block first_keeper)\<lparr>pb_gas_counter := gas\<rparr>) 6 succ
       (ExecPriority \<lparr>epo_priority_op = first_deposit, epo_op = os_executed_op succ, epo_block_index = 0\<rparr>),
      sk_current_unprocessed_priority_op := 1\<rparr>))"
    using run_queue_Cons [where step = "priority_op_turn (\<lambda>s. 7)", OF turn, of "[]"] by (simp add: run_priority_ops_def)
  show ?thesis
    unfolding execute_proposed_block_def first_proposed_def proposed_block.simps queue
    by (simp add: run_txs_def finish_iteration_def store_pending_block_def first_keeper_def sample_keeper_def push_success_def
      pending_block_new_def ex num assert_that_def)
qed

lemma first_commits:
  assumes "spb_number pb = 1" "spb_failed_txs pb = []"
    "spb_success_operations pb = [ExecPriority \<lparr>epo_priority_op = first_deposit, epo_op = OpDeposit o', epo_block_index = i\<rparr>]"
  shows "\<exists>db. handle_commit_request c sample_genesis_db (CommitPendingBlock pb
    \<lparr>aur_account_updates = [(1, Create 55 0), (1, UpdateBalance 0 0 (0, 0, 40))], aur_first_update_order_id = 0\<rparr>) = Ok (None, db)"
  using assms
  by (simp add: committer_save_pending_block_def save_pending_block_def sample_genesis_db_def empty_db_def Let_def
     prepare_stored_priority_op_def store_executed_priority_operation_def insert_account_create_def)

section \<open>Agreement\<close>

text \<open>C32: the state keeper and the committer agree, as far as priority operations and single transactions go.  Let the
  tables hold what the keeper has sent so far, and let a block of such operations be proposed, without batches, whose priority
  operations fit the largest block.  Then it is executed, and once the committer has carried out the requests that the keeper sent
  meanwhile, with proofs and other changes in between, the tables hold again what the keeper has sent:
  the committed state in the tables is the one that the pending block starts from, and the number of the
  next block follows the last committed one.  Batches are left out since it fails for them: when one is rolled back
  that had created an account, the keeper is left with a default leaf and another next free id, which no
  request tells the committer of.\<close>

theorem keeper_and_committer_agree:
  assumes "matches g k" "chain_inv g db" "chunks_ok k" "6 \<le> last (sk_available_block_chunk_sizes k)"
    "ucast (sk_max_number_of_withdrawals_per_block k) \<noteq> (0 :: 32 word)"
    "account_count (sk_state k) + size (prb_priority_ops p) + size (prb_txs p) \<le> 2 ^ 32"
    "\<forall>op \<in> set (prb_priority_ops p). prio_token_ok op
      \<and> prio_chunks (po_data op) \<le> last (sk_available_block_chunk_sizes k)"
    "\<forall>v \<in> set (prb_txs p). \<exists>tx. v = VariantTx tx \<and> tx_fine c tx"
  shows "\<exists>k' rs. execute_proposed_block root c k p = Some (Ok k') \<and> sk_sent k' = sk_sent k @ rs \<and>
    (\<forall>db'. unat (lg_committed g) + size rs + 1 < 2 ^ 32 \<and> (\<forall>r \<in> set rs. request_total r \<le> 2 ^ 31) \<and>
      committer_run c db rs db' \<longrightarrow>
      (\<exists>g' v. matches g' k' \<and> chain_inv (g'\<lparr>lg_verified := v\<rparr>) db') \<and>
      updates_from (map_view (snd (load_committed_state db' None))) (pb_account_updates (sk_pending_block k')) (sk_state k') \<and>
      zs_block_number (sk_state k') = get_last_block_by_action db' COMMIT + 1)"
proof -
  have "in_step g (sk_sent k) k" using assms(1) by (simp add: in_step_def)
  then obtain k' rs where k': "execute_proposed_block root c k p = Some (Ok k')" "sk_sent k' = sk_sent k @ rs"
    "unat (lg_committed g) + size rs + 1 < 2 ^ 32 \<longrightarrow> (\<exists>g'. leads g rs g' \<and> matches g' k')"
    using proposed_block_in_step [OF matches_parts(2) [OF assms(1)] assms(3-8)] unfolding in_step_def by blast
  have "(\<exists>g' v. matches g' k' \<and> chain_inv (g'\<lparr>lg_verified := v\<rparr>) db') \<and>
      updates_from (map_view (snd (load_committed_state db' None))) (pb_account_updates (sk_pending_block k')) (sk_state k') \<and>
      zs_block_number (sk_state k') = get_last_block_by_action db' COMMIT + 1"
    if run: "unat (lg_committed g) + size rs + 1 < 2 ^ 32" "\<forall>r \<in> set rs. request_total r \<le> 2 ^ 31" "committer_run c db rs db'" for db'
  proof -
    obtain g' v where g': "leads g rs g'" "matches g' k'" "chain_inv (g'\<lparr>lg_verified := v\<rparr>) db'"
      using k'(3) run committer_run_inv [OF run(3) assms(2)] by blast
    have "map_view (snd (load_committed_state db' None)) = ledger_view g' (lg_committed g')"
      using load_committed_view [OF g'(3), of "lg_committed g'"] load_latest [OF g'(3)] by simp
    then show ?thesis using g'(2,3) matches_parts(3,6) [OF g'(2)] committed_number [OF g'(3)] by auto
  qed
  with k'(1,2) show ?thesis by blast
qed

text \<open>The keeper starts from the genesis, executes a deposit and sends the pending block.\<close>

theorem keeper_and_committer_agree_witness:
  "\<exists>k' r db'. execute_proposed_block (\<lambda>s. 7) sample_crypto first_keeper first_proposed = Some (Ok k') \<and> sk_sent k' = [r] \<and>
    committer_run sample_crypto sample_genesis_db [r] db' \<and>
    updates_from (map_view (snd (load_committed_state db' None))) (pb_account_updates (sk_pending_block k')) (sk_state k')"
proof -
  obtain k' pb o' i where run: "execute_proposed_block (\<lambda>s. 7) sample_crypto first_keeper first_proposed = Some (Ok k')"
    "sk_sent k' = [CommitPendingBlock pb \<lparr>aur_account_updates = [(1, Create 55 0), (1, UpdateBalance 0 0 (0, 0, 40))],
      aur_first_update_order_id = 0\<rparr>]" (is "_ = [?r]")
    "spb_number pb = 1" "spb_failed_txs pb = []"
    "spb_success_operations pb = [ExecPriority \<lparr>epo_priority_op = first_deposit, epo_op = OpDeposit o', epo_block_index = i\<rparr>]"
    using first_runs by blast
  obtain db where "handle_commit_request sample_crypto sample_genesis_db ?r = Ok (None, db)"
    using first_commits [OF run(3-5)] by blast
  then have db: "committer_run sample_crypto sample_genesis_db [?r] db"
    using committer_run.handled [OF committer_run.start] by fastforce
  have "updates_from (map_view (snd (load_committed_state db None))) (pb_account_updates (sk_pending_block k')) (sk_state k')"
    using keeper_and_committer_agree [OF first_matches(1) genesis_created [OF sample_genesis] first_matches(2), of first_proposed sample_crypto "\<lambda>s. 7"]
      run(1,2) db
    by (simp add: first_keeper_def sample_keeper_def first_state_ok first_proposed_def first_deposit_def sample_prio_def
      prio_token_ok_def op_consts genesis_ledger_def request_total_def)
  with run(1,2) db show ?thesis by blast
qed

end
