(* ===== verification/SignMessage.thy ===== *)
theory SignMessage
  imports Txs
begin

text \<open>
  The messages that users sign with their Ethereum key, @get_ethereum_sign_message@ of @core/lib/types/src/tx@, with
  the amounts printed by @core/lib/utils/src/format.rs@.  How an address is printed is the library's, and a
  parameter.
\<close>

section \<open>Numbers\<close>

text \<open>@to_string@ of an unsigned number.\<close>

definition digit :: "nat \<Rightarrow> char" where
  "digit n = char_of (48 + n)"

fun decimal :: "nat \<Rightarrow> string" where
  "decimal n = (if n < 10 then [digit n] else decimal (n div 10) @ [digit (n mod 10)])"

declare decimal.simps [simp del]

text \<open>@format_units@: the loops that push and pop zeros are @replicate@ and @dropWhile@.\<close>

definition format_units :: "nat \<Rightarrow> nat \<Rightarrow> string" where
  "format_units wei units =
    (let chars = decimal wei;
         chars = replicate (units - size chars) (CHR ''0'') @ chars;
         chars = take (size chars - units) chars @ CHR ''.'' # drop (size chars - units) chars;
         chars = (if hd chars = CHR ''.'' then CHR ''0'' # chars else chars);
         chars = rev (dropWhile (\<lambda>c. c = CHR ''0'') (rev chars))
     in if last chars = CHR ''.'' then chars @ ''0'' else chars)"

section \<open>Messages\<close>

definition newline :: char where "newline = char_of (10 :: nat)"

definition sign_message ::
  "(address \<Rightarrow> string) \<Rightarrow> string \<Rightarrow> nat \<Rightarrow> nat \<Rightarrow> address \<Rightarrow> nonce \<Rightarrow> account_id \<Rightarrow> string \<Rightarrow> nat \<Rightarrow> string" where
  "sign_message debug kind amount fee to n account_id token_symbol decimals =
    kind @ '' '' @ format_units amount decimals @ '' '' @ token_symbol @ [newline] @
    ''To: '' @ debug to @ [newline] @
    ''Nonce: '' @ decimal (unat n) @ [newline] @
    ''Fee: '' @ format_units fee decimals @ '' '' @ token_symbol @ [newline] @
    ''Account Id: '' @ decimal (unat account_id)"

definition transfer_sign_message :: "(address \<Rightarrow> string) \<Rightarrow> transfer \<Rightarrow> string \<Rightarrow> nat \<Rightarrow> string" where
  "transfer_sign_message debug tx = sign_message debug ''Transfer'' (tr_amount tx) (tr_fee tx) (tr_to tx) (tr_nonce tx) (tr_account_id tx)"

definition withdraw_sign_message :: "(address \<Rightarrow> string) \<Rightarrow> withdraw \<Rightarrow> string \<Rightarrow> nat \<Rightarrow> string" where
  "withdraw_sign_message debug tx = sign_message debug ''Withdraw'' (wd_amount tx) (wd_fee tx) (wd_to tx) (wd_nonce tx) (wd_account_id tx)"

section \<open>Reading the numbers back\<close>

definition digit_value :: "char \<Rightarrow> nat" where
  "digit_value c = of_char c - 48"

definition read_decimal :: "string \<Rightarrow> nat" where
  "read_decimal s = foldl (\<lambda>n c. 10 * n + digit_value c) 0 s"

lemma digit_value_digit [simp]: "n < 10 \<Longrightarrow> digit_value (digit n) = n"
  by (simp add: digit_value_def digit_def)

lemma digit_neq: "n < 10 \<Longrightarrow> digit n \<noteq> CHR ''.''" "n < 10 \<Longrightarrow> digit n \<noteq> CHR '' ''" "n < 10 \<Longrightarrow> digit n \<noteq> newline"
proof -
  have "of_char (digit n) = 48 + n" if "n < 10" using that by (simp add: digit_def)
  moreover have "of_char (CHR ''.'') = (46 :: nat)" "of_char (CHR '' '') = (32 :: nat)" "of_char newline = (10 :: nat)"
    by (simp_all add: newline_def)
  ultimately show "n < 10 \<Longrightarrow> digit n \<noteq> CHR ''.''" "n < 10 \<Longrightarrow> digit n \<noteq> CHR '' ''" "n < 10 \<Longrightarrow> digit n \<noteq> newline"
    by (metis not_add_less1 numeral_less_iff semiring_norm)+
qed

lemma decimal_digits: "c \<in> set (decimal n) \<Longrightarrow> \<exists>k < 10. c = digit k"
proof (induction n rule: decimal.induct)
  case (1 n)
  have "n mod 10 < 10" by simp
  then have last: "\<exists>k < 10. digit (n mod 10) = digit k" by blast
  show ?case
  proof (cases "n < 10")
    case True
    with "1.prems" show ?thesis by (subst (asm) decimal.simps) auto
  next
    case False
    then have "c \<in> set (decimal (n div 10)) \<or> c = digit (n mod 10)" using "1.prems" by (subst (asm) decimal.simps) auto
    then show ?thesis using "1.IH" [OF False] last by blast
  qed
qed

lemma read_decimal_snoc: "read_decimal (s @ [c]) = 10 * read_decimal s + digit_value c"
  by (simp add: read_decimal_def)

lemma read_decimal_decimal [simp]: "read_decimal (decimal n) = n"
proof (induction n rule: decimal.induct)
  case (1 n)
  show ?case
  proof (cases "n < 10")
    case True
    then show ?thesis by (subst decimal.simps) (simp add: read_decimal_def)
  next
    case False
    with 1 show ?thesis by (subst decimal.simps) (simp add: read_decimal_snoc)
  qed
qed

lemma decimal_inject [simp]: "decimal m = decimal n \<longleftrightarrow> m = n"
  by (metis read_decimal_decimal)


lemma read_decimal_append: "read_decimal (s @ t) = read_decimal s * 10 ^ size t + read_decimal t"
proof (induction t rule: rev_induct)
  case Nil
  then show ?case by (simp add: read_decimal_def)
next
  case (snoc c t)
  have "read_decimal (s @ t @ [c]) = 10 * read_decimal (s @ t) + digit_value c"
    using read_decimal_snoc [of "s @ t" c] by simp
  with snoc show ?case by (simp add: read_decimal_snoc algebra_simps)
qed

lemma read_decimal_zeros [simp]: "read_decimal (replicate k (CHR ''0'')) = 0"
  by (induction k) (simp_all add: read_decimal_def digit_value_def)

definition read_units :: "nat \<Rightarrow> string \<Rightarrow> nat" where
  "read_units units s = read_decimal (takeWhile (\<lambda>c. c \<noteq> CHR ''.'') s) * 10 ^ units
    + read_decimal (take units (tl (dropWhile (\<lambda>c. c \<noteq> CHR ''.'') s) @ replicate units (CHR ''0'')))"

text \<open>What @format_units@ prints: an integer part, a point, a fraction without trailing zeros.\<close>

definition strip_zeros :: "string \<Rightarrow> string" where
  "strip_zeros s = rev (dropWhile (\<lambda>c. c = CHR ''0'') (rev s))"

lemma strip_zeros_pad: "strip_zeros s @ replicate (size s - size (strip_zeros s)) (CHR ''0'') = s"
proof (induction s rule: rev_induct)
  case (snoc c s)
  have "size (strip_zeros s) \<le> size s" by (simp add: strip_zeros_def length_dropWhile_le [of _ "rev s", simplified])
  with snoc show ?case by (auto simp: strip_zeros_def Suc_diff_le replicate_append_same [symmetric] simp del: replicate_append_same)
qed (simp add: strip_zeros_def)

lemma strip_zeros_size: "size (strip_zeros s) \<le> size s"
  using strip_zeros_pad [of s] by (metis le_add1 length_append)

lemma strip_zeros_point: "strip_zeros (s @ CHR ''.'' # t) = s @ CHR ''.'' # strip_zeros t"
  by (auto simp: strip_zeros_def dropWhile_append)

lemma strip_zeros_subset: "set (strip_zeros s) \<subseteq> set s"
  by (auto simp: strip_zeros_def dest: set_dropWhileD)

lemma format_units_parts:
  "\<exists>A F. (\<forall>c \<in> set (A @ F). \<exists>k < 10. c = digit k) \<and> size F = units \<and> read_decimal A * 10 ^ units + read_decimal F = wei \<and> A \<noteq> [] \<and>
    format_units wei units = A @ CHR ''.'' # (if strip_zeros F = [] then ''0'' else strip_zeros F)"
proof -
  define chars where "chars = replicate (units - size (decimal wei)) (CHR ''0'') @ decimal wei"
  define A where "A = take (size chars - units) chars"
  define F where "F = drop (size chars - units) chars"
  define B where "B = (if A = [] then ''0'' else A)"
  have "CHR ''0'' = digit 0" by code_simp
  then have zero: "\<exists>k < 10. CHR ''0'' = digit k" by (intro exI [of _ 0]) simp
  have digits: "\<exists>k < 10. c = digit k" if "c \<in> set chars" for c
    using that decimal_digits zero unfolding chars_def by (metis Un_iff in_set_replicate set_append)
  have size: "size F = units" by (simp add: F_def chars_def)
  have val: "read_decimal chars = wei" by (simp add: chars_def read_decimal_append)
  have AF: "chars = A @ F" by (simp add: A_def F_def)
  have sub: "set A \<subseteq> set chars" "set F \<subseteq> set chars" unfolding AF by auto
  have dB: "\<exists>k < 10. c = digit k" if "c \<in> set (B @ F)" for c
  proof -
    have "c \<in> set chars \<or> c = CHR ''0''" using that sub by (auto simp: B_def split: if_splits)
    with digits zero show ?thesis by blast
  qed
  have "read_decimal B = read_decimal A" by (simp add: B_def read_decimal_def digit_value_def)
  then have "read_decimal B * 10 ^ units + read_decimal F = wei"
    using val read_decimal_append [of A F] by (simp add: AF size)
  moreover have "hd (A @ CHR ''.'' # F) = CHR ''.'' \<longleftrightarrow> A = []"
    using digits sub(1) digit_neq(1) by (cases A) (auto, metis)
  then have "(if hd (A @ CHR ''.'' # F) = CHR ''.'' then CHR ''0'' # (A @ CHR ''.'' # F) else A @ CHR ''.'' # F) = B @ CHR ''.'' # F"
    by (simp add: B_def)
  moreover have "last (B @ CHR ''.'' # strip_zeros F) = CHR ''.'' \<longleftrightarrow> strip_zeros F = []"
  proof (cases "strip_zeros F = []")
    case False
    then have "last (strip_zeros F) \<in> set chars" using strip_zeros_subset [of F] sub(2) by (meson last_in_set subsetD)
    then have "last (strip_zeros F) \<noteq> CHR ''.''" using digits digit_neq(1) by metis
    then show ?thesis using False by simp
  qed simp
  ultimately have "format_units wei units = B @ CHR ''.'' # (if strip_zeros F = [] then ''0'' else strip_zeros F)"
    unfolding format_units_def Let_def chars_def [symmetric] A_def [symmetric] F_def [symmetric]
      strip_zeros_def [symmetric] by (simp add: strip_zeros_point)
  with dB size \<open>read_decimal B * 10 ^ units + read_decimal F = wei\<close> show ?thesis
    by (intro exI [of _ B] exI [of _ F]) (auto simp: B_def)
qed

lemma read_format_units: "read_units units (format_units wei units) = wei"
proof -
  obtain A F where parts: "\<forall>c \<in> set (A @ F). \<exists>k < 10. c = digit k" "size F = units" "read_decimal A * 10 ^ units + read_decimal F = wei"
    "format_units wei units = A @ CHR ''.'' # (if strip_zeros F = [] then ''0'' else strip_zeros F)"
    using format_units_parts [of units wei] by blast
  have A: "\<forall>c \<in> set A. c \<noteq> CHR ''.''" using parts(1) digit_neq(1) by (metis UnI1 set_append)
  have split: "takeWhile (\<lambda>c. c \<noteq> CHR ''.'') (A @ CHR ''.'' # t) = A" "dropWhile (\<lambda>c. c \<noteq> CHR ''.'') (A @ CHR ''.'' # t) = CHR ''.'' # t" for t
    using A by (simp_all add: takeWhile_append dropWhile_append)
  have "take units ((if strip_zeros F = [] then ''0'' else strip_zeros F) @ replicate units (CHR ''0'')) = F"
    using strip_zeros_pad [of F] strip_zeros_size [of F] parts(2) by (auto simp: take_Cons' min_def replicate_Suc [symmetric] simp del: replicate_Suc)
  then show ?thesis using parts(3) by (simp add: read_units_def parts(4) split)
qed


section \<open>What a message says\<close>

lemma split_at:
  "xs @ c # ys = xs' @ c # ys' \<Longrightarrow> c \<notin> set xs \<Longrightarrow> c \<notin> set xs' \<Longrightarrow> xs = xs' \<and> ys = ys'"
proof (induction xs arbitrary: xs')
  case Nil
  then show ?case by (cases xs') auto
next
  case (Cons x xs)
  then show ?case by (cases xs') auto
qed

lemma newline_neq: "newline \<noteq> CHR ''.''" "newline \<noteq> CHR ''0''" "newline \<noteq> CHR '' ''"
  by code_simp+

lemma no_newline: "newline \<notin> set (decimal n)" "CHR '' '' \<notin> set (decimal n)"
  using decimal_digits digit_neq(2,3) by metis+

lemma format_units_clean: "newline \<notin> set (format_units wei units)" "CHR '' '' \<notin> set (format_units wei units)"
proof -
  obtain A F where parts: "\<forall>c \<in> set (A @ F). \<exists>k < 10. c = digit k"
    "format_units wei units = A @ CHR ''.'' # (if strip_zeros F = [] then ''0'' else strip_zeros F)"
    using format_units_parts [of units wei] by blast
  have "c \<noteq> newline \<and> c \<noteq> CHR '' ''" if "c \<in> set A \<union> set (strip_zeros F)" for c
    using that parts(1) strip_zeros_subset [of F] digit_neq(2,3) by (metis Un_iff set_append subsetD)
  then show "newline \<notin> set (format_units wei units)" "CHR '' '' \<notin> set (format_units wei units)"
    unfolding parts(2) using newline_neq by auto
qed

lemma sign_message_inject:
  assumes eq: "sign_message debug kind amount fee to n i symbol units = sign_message debug kind' amount' fee' to' n' i' symbol' units'"
    and kind: "CHR '' '' \<notin> set kind" "CHR '' '' \<notin> set kind'" and sym: "newline \<notin> set symbol" "newline \<notin> set symbol'"
    and addr: "newline \<notin> set (debug to)" "newline \<notin> set (debug to')"
  shows "kind = kind' \<and> format_units amount units = format_units amount' units' \<and> symbol = symbol' \<and> debug to = debug to'
    \<and> n = n' \<and> format_units fee units = format_units fee' units' \<and> i = i'"
proof -
  note clean = format_units_clean no_newline
  note e1 = split_at [OF eq [unfolded sign_message_def append_Cons append_Nil] kind]
  note e2 = split_at [OF conjunct2 [OF e1] clean(2) clean(2)]
  note e3 = split_at [OF conjunct2 [OF e2] sym]
  have f3: "debug to @ newline # ''Nonce: '' @ decimal (unat n) @ newline # ''Fee: '' @ format_units fee units @ CHR '' '' # symbol @
      newline # ''Account Id: '' @ decimal (unat i) =
     debug to' @ newline # ''Nonce: '' @ decimal (unat n') @ newline # ''Fee: '' @ format_units fee' units' @ CHR '' '' # symbol' @
      newline # ''Account Id: '' @ decimal (unat i')"
    using conjunct2 [OF e3] by simp
  note e4 = split_at [OF f3 addr]
  have f4: "decimal (unat n) @ newline # ''Fee: '' @ format_units fee units @ CHR '' '' # symbol @ newline # ''Account Id: '' @ decimal (unat i) =
     decimal (unat n') @ newline # ''Fee: '' @ format_units fee' units' @ CHR '' '' # symbol' @ newline # ''Account Id: '' @ decimal (unat i')"
    using conjunct2 [OF e4] by simp
  note e5 = split_at [OF f4 clean(3) clean(3)]
  have f5: "format_units fee units @ CHR '' '' # symbol @ newline # ''Account Id: '' @ decimal (unat i) =
     format_units fee' units' @ CHR '' '' # symbol' @ newline # ''Account Id: '' @ decimal (unat i')"
    using conjunct2 [OF e5] by simp
  note e6 = split_at [OF f5 clean(2) clean(2)]
  show ?thesis
    using e1 e2 e3 e4 e5 e6 by (simp add: word_unat_eq_iff)
qed


lemma format_units_inject: "format_units wei units = format_units wei' units \<Longrightarrow> wei = wei'"
  by (metis read_format_units)

section \<open>Properties\<close>

text \<open>C35: the message that a user signs with the Ethereum key says what the transaction does: two transfers, or two
  withdrawals, with the same message have the same recipient, nonce and account, the same token symbol, and, if the
  symbol stands for tokens of the same precision, the same amount and the same fee; and no message is that of a transfer
  and of a withdrawal.  (Addresses are printed differently, and no symbol has a line break.)\<close>

theorem eth_message_binds:
  assumes "inj debug" "\<And>a. newline \<notin> set (debug a)" "newline \<notin> set symbol" "newline \<notin> set symbol'"
  shows "(transfer_sign_message debug t symbol d = transfer_sign_message debug t' symbol' d' \<longrightarrow>
      tr_to t = tr_to t' \<and> tr_nonce t = tr_nonce t' \<and> tr_account_id t = tr_account_id t' \<and> symbol = symbol' \<and>
      (d = d' \<longrightarrow> tr_amount t = tr_amount t' \<and> tr_fee t = tr_fee t')) \<and>
    (withdraw_sign_message debug w symbol d = withdraw_sign_message debug w' symbol' d' \<longrightarrow>
      wd_to w = wd_to w' \<and> wd_nonce w = wd_nonce w' \<and> wd_account_id w = wd_account_id w' \<and> symbol = symbol' \<and>
      (d = d' \<longrightarrow> wd_amount w = wd_amount w' \<and> wd_fee w = wd_fee w')) \<and>
    transfer_sign_message debug t symbol d \<noteq> withdraw_sign_message debug w' symbol' d'"
proof -
  note inject = sign_message_inject [OF _ _ _ assms(3,4) assms(2,2)] format_units_inject injD [OF assms(1)]
  have "tr_to t = tr_to t' \<and> tr_nonce t = tr_nonce t' \<and> tr_account_id t = tr_account_id t' \<and> symbol = symbol' \<and>
      (d = d' \<longrightarrow> tr_amount t = tr_amount t' \<and> tr_fee t = tr_fee t')"
    if "transfer_sign_message debug t symbol d = transfer_sign_message debug t' symbol' d'"
    using inject(1) [OF that [unfolded transfer_sign_message_def]] inject(2,3) by auto
  moreover have "wd_to w = wd_to w' \<and> wd_nonce w = wd_nonce w' \<and> wd_account_id w = wd_account_id w' \<and> symbol = symbol' \<and>
      (d = d' \<longrightarrow> wd_amount w = wd_amount w' \<and> wd_fee w = wd_fee w')"
    if "withdraw_sign_message debug w symbol d = withdraw_sign_message debug w' symbol' d'"
    using inject(1) [OF that [unfolded withdraw_sign_message_def]] inject(2,3) by auto
  moreover have "transfer_sign_message debug t symbol d \<noteq> withdraw_sign_message debug w' symbol' d'"
    by (simp add: transfer_sign_message_def withdraw_sign_message_def sign_message_def)
  ultimately show ?thesis by blast
qed

text \<open>Two withdrawals of different amounts of a token with 6 decimals.\<close>

theorem eth_message_binds_witness:
  "withdraw_sign_message (\<lambda>a. decimal (unat a)) sample_withdraw ''USDC'' 6
    \<noteq> withdraw_sign_message (\<lambda>a. decimal (unat a)) (sample_withdraw\<lparr>wd_amount := 10000\<rparr>) ''USDC'' 6"
proof -
  have "inj (\<lambda>a :: address. decimal (unat a))" by (simp add: inj_def word_unat_eq_iff)
  moreover have "newline \<notin> set ''USDC''" by code_simp
  ultimately show ?thesis
    using eth_message_binds [of "\<lambda>a. decimal (unat a)" "''USDC''" "''USDC''" _ 6 _ 6 sample_withdraw "sample_withdraw\<lparr>wd_amount := 10000\<rparr>"]
      no_newline(1) by (auto simp: sample_withdraw_def)
qed

end
