(* ===== verification/FeeTicker.thy ===== *)
theory FeeTicker
  imports GasCounter ZkState
begin

text \<open>
  The fee ticker of the API server, @core/bin/zksync_api/src/fee_ticker/mod.rs@ with the rounding of
  @core/lib/utils/src/convert.rs@: what a transaction costs in its token.  Prices are ratios; a division by zero
  panics.  The answers of the price source and of the database during a request are arguments.
\<close>

section \<open>Tokens and types of fees\<close>

record token =
  tk_id :: token_id
  tk_address :: address
  tk_symbol :: string
  tk_decimals :: "8 word"

record token_price =
  tp_usd_price :: rat
  tp_last_updated :: int

datatype output_fee_type = OutTransfer | OutTransferToNew | OutWithdraw | OutFastWithdraw | OutChangePubKey bool

section \<open>Configuration\<close>

definition BASE_TRANSFER_COST :: nat where
  "BASE_TRANSFER_COST = VERIFY_TRANSFER_COST + COMMIT_TRANSFER_COST + 1000 * TRANSFER_CHUNKS"

definition BASE_TRANSFER_TO_NEW_COST :: nat where
  "BASE_TRANSFER_TO_NEW_COST = VERIFY_TRANSFER_TO_NEW_COST + COMMIT_TRANSFER_TO_NEW_COST + 1000 * TRANSFER_TO_NEW_CHUNKS"

definition BASE_WITHDRAW_COST :: nat where
  "BASE_WITHDRAW_COST = VERIFY_WITHDRAW_COST + COMMIT_WITHDRAW_COST + COMPLETE_WITHDRAWALS_COST + 1000 * WITHDRAW_CHUNKS
    + COMPLETE_WITHDRAWALS_BASE_COST div MAX_WITHDRAWALS_TO_COMPLETE_IN_A_CALL"

definition BASE_CHANGE_PUBKEY_OFFCHAIN_COST :: nat where
  "BASE_CHANGE_PUBKEY_OFFCHAIN_COST = COMMIT_CHANGE_PUBKEY_COST_OFFCHAIN + VERIFY_CHANGE_PUBKEY_COST + 1000 * CHANGE_PUBKEY_CHUNKS"

definition BASE_CHANGE_PUBKEY_ONCHAIN_COST :: nat where
  "BASE_CHANGE_PUBKEY_ONCHAIN_COST = COMMIT_CHANGE_PUBKEY_COST_ONCHAIN + VERIFY_CHANGE_PUBKEY_COST + 1000 * CHANGE_PUBKEY_CHUNKS"

record ticker_config =
  tc_zkp_cost_chunk_usd :: rat
  tc_gas_cost_tx :: "output_fee_type \<Rightarrow> nat option"
  tc_tokens_risk_factors :: "token_id \<Rightarrow> rat option"

text \<open>The configuration that @run_ticker_task@ makes; the cost of a fast withdrawal is a product of floats.\<close>

definition run_ticker_config :: "32 word \<Rightarrow> ticker_config" where
  "run_ticker_config fast_withdrawal_cost = \<lparr>tc_zkp_cost_chunk_usd = 1 / 10 ^ 3,
    tc_gas_cost_tx = map_of [(OutTransfer, BASE_TRANSFER_COST), (OutTransferToNew, BASE_TRANSFER_TO_NEW_COST),
      (OutWithdraw, BASE_WITHDRAW_COST), (OutFastWithdraw, unat fast_withdrawal_cost),
      (OutChangePubKey False, BASE_CHANGE_PUBKEY_OFFCHAIN_COST), (OutChangePubKey True, BASE_CHANGE_PUBKEY_ONCHAIN_COST)],
    tc_tokens_risk_factors = (\<lambda>i. None)\<rparr>"

section \<open>Rounding\<close>

definition round_precision :: "rat \<Rightarrow> nat \<Rightarrow> rat" where
  "round_precision x precision = of_int \<lfloor>x * 10 ^ precision\<rfloor> / 10 ^ precision"

definition round_precision_raw_no_div :: "rat \<Rightarrow> nat \<Rightarrow> nat" where
  "round_precision_raw_no_div x precision = nat (round (x * 10 ^ precision))"

text \<open>@ratio_to_big_decimal@: a decimal is its value.\<close>

definition ratio_to_big_decimal :: "rat \<Rightarrow> nat \<Rightarrow> rat" where
  "ratio_to_big_decimal x precision = of_nat (round_precision_raw_no_div x precision) / 10 ^ precision"

section \<open>Fees\<close>

record tx_fee =
  fee_fee_type :: output_fee_type
  fee_gas_tx_amount :: nat
  fee_gas_price_wei :: nat
  fee_gas_fee :: nat
  fee_zkp_fee :: nat
  fee_total_fee :: nat

definition tx_fee_new :: "output_fee_type \<Rightarrow> rat \<Rightarrow> rat \<Rightarrow> nat \<Rightarrow> nat \<Rightarrow> ('e, tx_fee) res" where
  "tx_fee_new fee_type zkp_fee gas_fee gas_tx_amount gas_price_wei =
    (let zkp_fee = nat \<lceil>round_precision zkp_fee 18\<rceil>;
         gas_fee = nat \<lceil>round_precision gas_fee 18\<rceil>
     in res_bind (unwrap (res_bind (pack_fee_amount (zkp_fee + gas_fee)) unpack_fee_amount)) (\<lambda>total_fee.
       Ok \<lparr>fee_fee_type = fee_type, fee_gas_tx_amount = gas_tx_amount, fee_gas_price_wei = gas_price_wei,
         fee_gas_fee = gas_fee, fee_zkp_fee = zkp_fee, fee_total_fee = total_fee\<rparr>))"

text \<open>The traits @FeeTickerAPI@ and @FeeTickerInfo@: their answers during a request.\<close>

record ticker_answers =
  ta_last_quote :: "token_like \<Rightarrow> (error, token_price) res"
  ta_gas_price_wei :: "(error, nat) res"
  ta_token :: "token_like \<Rightarrow> (error, token) res"
  ta_account_new :: "address \<Rightarrow> (error, bool) res"

definition ratio_div :: "rat \<Rightarrow> rat \<Rightarrow> ('e, rat) res" where
  "ratio_div a b = (if b = 0 then Panic else Ok (a / b))"

definition output_fee_of ::
  "ticker_answers \<Rightarrow> tx_fee_type \<Rightarrow> address \<Rightarrow> (error, output_fee_type \<times> nat) res" where
  "output_fee_of a tx_type recipient = (case tx_type of
      FeeWithdraw \<Rightarrow> Ok (OutWithdraw, WITHDRAW_CHUNKS)
    | FeeFastWithdraw \<Rightarrow> Ok (OutFastWithdraw, WITHDRAW_CHUNKS)
    | FeeTransfer \<Rightarrow> res_map (\<lambda>is_new. if is_new then (OutTransferToNew, TRANSFER_TO_NEW_CHUNKS) else (OutTransfer, TRANSFER_CHUNKS))
        (ta_account_new a recipient)
    | FeeChangePubKey onchain \<Rightarrow> Ok (OutChangePubKey onchain, CHANGE_PUBKEY_CHUNKS))"

definition get_fee_from_ticker_in_wei ::
  "ticker_config \<Rightarrow> ticker_answers \<Rightarrow> tx_fee_type \<Rightarrow> token_like \<Rightarrow> address \<Rightarrow> (error, tx_fee) res" where
  "get_fee_from_ticker_in_wei config a tx_type token recipient =
    (let zkp_cost_chunk = tc_zkp_cost_chunk_usd config in
     res_bind (ta_token a token) (\<lambda>token.
     let token_risk_factor = (case tc_tokens_risk_factors config (tk_id token) of Some r \<Rightarrow> r | None \<Rightarrow> 1) in
     res_bind (output_fee_of a tx_type recipient) (\<lambda>(fee_type, op_chunks).
     res_bind (expect (tc_gas_cost_tx config fee_type)) (\<lambda>gas_tx_amount.
     res_bind (ta_gas_price_wei a) (\<lambda>gas_price_wei.
     res_bind (ta_last_quote a (TokenId 0)) (\<lambda>eth.
     let wei_price_usd = tp_usd_price eth / 10 ^ 18 in
     res_bind (ta_last_quote a (TokenId (tk_id token))) (\<lambda>quote.
     let token_price_usd = tp_usd_price quote / 10 ^ unat (tk_decimals token) in
     res_bind (ratio_div (zkp_cost_chunk * of_nat op_chunks * token_risk_factor) token_price_usd) (\<lambda>zkp_fee.
     res_bind (ratio_div (wei_price_usd * of_nat gas_tx_amount * of_nat gas_price_wei * token_risk_factor) token_price_usd) (\<lambda>gas_fee.
       tx_fee_new fee_type zkp_fee gas_fee gas_tx_amount gas_price_wei)))))))))"

datatype token_price_request = USDForOneWei | USDForOneToken

definition get_token_price :: "ticker_answers \<Rightarrow> token_like \<Rightarrow> token_price_request \<Rightarrow> (error, rat) res" where
  "get_token_price a token req_type =
    res_bind (case req_type of
        USDForOneWei \<Rightarrow> res_map (\<lambda>t. 10 ^ unat (tk_decimals t)) (ta_token a token)
      | USDForOneToken \<Rightarrow> Ok 1) (\<lambda>factor.
    res_map (\<lambda>price. ratio_to_big_decimal (tp_usd_price price / factor) 100) (ta_last_quote a token))"

end
