(* ===== verification/TickerApi.thy ===== *)
theory TickerApi
  imports FeeTicker EthStorage ChainStorage "HOL-Library.AList"
begin

text \<open>
  Where the fee ticker gets its prices: the caches of @core/bin/zksync_api/src/fee_ticker/ticker_api/mod.rs@ and
  @utils/token_db_cache.rs@, and the tables of tokens and prices, @core/lib/storage/src/tokens@.  Times are milliseconds, of the
  calendar for the time of a price, of a clock that never goes back for the ages of cache entries.
\<close>

section \<open>The tables\<close>

record tokens_db =
  tdb_tokens :: "token list"
  tdb_ticker_price :: "(token_id \<times> token_price) list"

definition STORED_USD_PRICE_PRECISION :: nat where "STORED_USD_PRICE_PRECISION = 6"

definition store_token :: "tokens_db \<Rightarrow> token \<Rightarrow> tokens_db" where
  "store_token db t =
    (if list_ex (\<lambda>r. tk_id r = tk_id t) (tdb_tokens db)
     then db\<lparr>tdb_tokens := map (\<lambda>r. if tk_id r = tk_id t then t else r) (tdb_tokens db)\<rparr>
     else db\<lparr>tdb_tokens := tdb_tokens db @ [t]\<rparr>)"

definition load_tokens :: "tokens_db \<Rightarrow> token_id \<rightharpoonup> token" where
  "load_tokens db = map_of (map (\<lambda>t. (tk_id t, t)) (tdb_tokens db))"

definition tokens_get_count :: "tokens_db \<Rightarrow> nat" where
  "tokens_get_count db = size (tdb_tokens db)"

fun token_matches :: "token_like \<Rightarrow> token \<Rightarrow> bool" where
  "token_matches (TokenId i) t \<longleftrightarrow> tk_id t = i"
| "token_matches (TokenAddress a) t \<longleftrightarrow> tk_address t = a"
| "token_matches (TokenSymbol s) t \<longleftrightarrow> tk_symbol t = s"

definition db_get_token :: "tokens_db \<Rightarrow> token_like \<Rightarrow> token option" where
  "db_get_token db token_like = find (token_matches token_like) (tdb_tokens db)"

definition big_decimal_to_ratio :: "rat \<Rightarrow> (error, rat) res" where
  "big_decimal_to_ratio x = (if x < 0 then Err ''BigDecimal should be unsigned'' else Ok x)"

definition price_from_row :: "token_price \<Rightarrow> (error, token_price) res" where
  "price_from_row r = res_bind (unwrap (big_decimal_to_ratio (tp_usd_price r))) (\<lambda>p. Ok (r\<lparr>tp_usd_price := p\<rparr>))"

definition get_historical_ticker_price :: "tokens_db \<Rightarrow> token_id \<Rightarrow> (error, token_price option) res" where
  "get_historical_ticker_price db i = (case map_of (tdb_ticker_price db) i of
      None \<Rightarrow> Ok None
    | Some r \<Rightarrow> res_map Some (price_from_row r))"

definition update_historical_ticker_price :: "tokens_db \<Rightarrow> token_id \<Rightarrow> token_price \<Rightarrow> tokens_db" where
  "update_historical_ticker_price db i price =
    (let usd_price_rounded = ratio_to_big_decimal (tp_usd_price price) STORED_USD_PRICE_PRECISION
     in db\<lparr>tdb_ticker_price := AList.update i (price\<lparr>tp_usd_price := usd_price_rounded\<rparr>) (tdb_ticker_price db)\<rparr>)"

section \<open>The cache of tokens\<close>

text \<open>@access_storage_fragile@, or the query after it, fails or not.\<close>

definition access :: "error option \<Rightarrow> (error, unit) res" where
  "access failure = (case failure of None \<Rightarrow> Ok () | Some e \<Rightarrow> Err e)"

text \<open>The values of the map in some order, in the model that of insertion.\<close>

definition cache_insert_token :: "token list \<Rightarrow> token \<Rightarrow> token list" where
  "cache_insert_token cache t = filter (\<lambda>r. tk_id r \<noteq> tk_id t) cache @ [t]"

definition token_db_cache_get_token ::
  "error option \<Rightarrow> tokens_db \<Rightarrow> token list \<Rightarrow> token_like \<Rightarrow> (error, token option) res \<times> token list" where
  "token_db_cache_get_token failure db cache token_like = (case find (token_matches token_like) cache of
      Some t \<Rightarrow> (Ok (Some t), cache)
    | None \<Rightarrow> let r = res_map (\<lambda>_. db_get_token db token_like) (access failure)
        in (r, case r of Ok (Some t) \<Rightarrow> cache_insert_token cache t | _ \<Rightarrow> cache))"

section \<open>The caches of prices\<close>

definition API_PRICE_EXPIRATION_TIME_SECS :: int where "API_PRICE_EXPIRATION_TIME_SECS = 300"
definition HISTORICAL_PRICE_EXPIRATION_TIME :: int where "HISTORICAL_PRICE_EXPIRATION_TIME = 60 * 1000"

record token_cache_entry =
  tce_price :: token_price
  tce_creation_time :: int
  tce_is_price_historical :: bool

record ticker_api =
  tka_token_db_cache :: "token list"
  tka_price_cache :: "token_id \<rightharpoonup> token_cache_entry"
  tka_gas_price_cache :: "(nat \<times> int) option"

definition ticker_api_new :: ticker_api where
  "ticker_api_new = \<lparr>tka_token_db_cache = [], tka_price_cache = Map.empty, tka_gas_price_cache = None\<rparr>"

text \<open>During a request: both clocks, the accesses to the database, and the answer of the source of prices.\<close>

record ticker_env =
  te_utc_now :: int
  te_now :: int
  te_token_access :: "error option"
  te_update_access :: "error option"
  te_historical_access :: "error option"
  te_gas_access :: "error option"
  te_get_price :: "string \<Rightarrow> (error, token_price) res"

definition is_price_expired :: "ticker_env \<Rightarrow> token_cache_entry \<Rightarrow> bool" where
  "is_price_expired env entry \<longleftrightarrow> (te_utc_now env - tp_last_updated (tce_price entry)) div 1000 > API_PRICE_EXPIRATION_TIME_SECS"

definition is_cache_entry_expired :: "ticker_env \<Rightarrow> token_cache_entry \<Rightarrow> bool" where
  "is_cache_entry_expired env entry =
    (if tce_is_price_historical entry then te_now env - tce_creation_time entry \<ge> HISTORICAL_PRICE_EXPIRATION_TIME
     else is_price_expired env entry)"

definition update_stored_value ::
  "ticker_env \<Rightarrow> ticker_api \<times> tokens_db \<Rightarrow> token_id \<Rightarrow> token_price \<Rightarrow> bool \<Rightarrow> ticker_api \<times> tokens_db" where
  "update_stored_value env s i price is_price_historical =
    (let entry = \<lparr>tce_price = price, tce_creation_time = te_now env, tce_is_price_historical = is_price_historical\<rparr>;
         api = (fst s)\<lparr>tka_price_cache := (tka_price_cache (fst s))(i \<mapsto> entry)\<rparr>
     in if \<not> is_price_historical \<and> te_update_access env = None then (api, update_historical_ticker_price (snd s) i price)
        else (api, snd s))"

definition get_stored_value :: "ticker_env \<Rightarrow> ticker_api \<Rightarrow> token_id \<Rightarrow> token_price option \<times> ticker_api" where
  "get_stored_value env api i = (case tka_price_cache api i of
      None \<Rightarrow> (None, api)
    | Some entry \<Rightarrow> if is_cache_entry_expired env entry
        then (None, api\<lparr>tka_price_cache := (tka_price_cache api)(i := None)\<rparr>)
        else (Some (tce_price entry), api))"

text \<open>A price that is not in the cache: that of the source, or else the stored one.\<close>

definition fetch_quote :: "ticker_env \<Rightarrow> ticker_api \<times> tokens_db \<Rightarrow> token \<Rightarrow> (error, token_price) res \<times> (ticker_api \<times> tokens_db)" where
  "fetch_quote env s token = (case te_get_price env (tk_symbol token) of
      Ok api_price \<Rightarrow> (Ok api_price, update_stored_value env s (tk_id token) api_price False)
    | Panic \<Rightarrow> (Panic, s)
    | Err e \<Rightarrow> (case res_bind (access (te_historical_access env)) (\<lambda>_. get_historical_ticker_price (snd s) (tk_id token)) of
        Ok (Some historical_price) \<Rightarrow> (Ok historical_price, update_stored_value env s (tk_id token) historical_price True)
      | Panic \<Rightarrow> (Panic, s)
      | _ \<Rightarrow> (Err ''Token price api is not available right now.'', s)))"

definition ticker_get_token ::
  "ticker_env \<Rightarrow> ticker_api \<times> tokens_db \<Rightarrow> token_like \<Rightarrow> (error, token) res \<times> (ticker_api \<times> tokens_db)" where
  "ticker_get_token env s token_like =
    (case token_db_cache_get_token (te_token_access env) (snd s) (tka_token_db_cache (fst s)) token_like of
       (r, cache) \<Rightarrow> (res_bind r (\<lambda>t. ok_or t ''Token not found''), ((fst s)\<lparr>tka_token_db_cache := cache\<rparr>, snd s)))"

definition get_last_quote ::
  "ticker_env \<Rightarrow> ticker_api \<times> tokens_db \<Rightarrow> token_like \<Rightarrow> (error, token_price) res \<times> (ticker_api \<times> tokens_db)" where
  "get_last_quote env s token_like = (case ticker_get_token env s token_like of
      (Err e, s) \<Rightarrow> (Err e, s)
    | (Panic, s) \<Rightarrow> (Panic, s)
    | (Ok token, s) \<Rightarrow>
        if tk_symbol token = ''MLTT'' then (Ok \<lparr>tp_usd_price = 1, tp_last_updated = te_utc_now env\<rparr>, s)
        else (case get_stored_value env (fst s) (tk_id token) of
            (Some cached_value, api) \<Rightarrow> (Ok cached_value, (api, snd s))
          | (None, api) \<Rightarrow> fetch_quote env (api, snd s) token))"

definition fetch_gas_price :: "ticker_env \<Rightarrow> eth_db \<Rightarrow> ticker_api \<Rightarrow> (error, nat) res \<times> ticker_api" where
  "fetch_gas_price env db api =
    (let r = res_bind (access (te_gas_access env)) (\<lambda>_. res_bind (load_average_gas_price db) (\<lambda>price.
               let average_gas_price = (case price of None \<Rightarrow> 0 | Some p \<Rightarrow> p)
               in if average_gas_price < 2 ^ 64 then Ok average_gas_price else Panic))
     in (r, api\<lparr>tka_gas_price_cache := (case r of Ok p \<Rightarrow> Some (p, te_now env) | _ \<Rightarrow> None)\<rparr>))"

definition get_gas_price_wei :: "ticker_env \<Rightarrow> eth_db \<Rightarrow> ticker_api \<Rightarrow> (error, nat) res \<times> ticker_api" where
  "get_gas_price_wei env db api = (case tka_gas_price_cache api of
      Some (cached_gas_price, cache_time) \<Rightarrow>
        if te_now env - cache_time < API_PRICE_EXPIRATION_TIME_SECS * 1000 then (Ok cached_gas_price, api)
        else fetch_gas_price env db api
    | None \<Rightarrow> fetch_gas_price env db api)"

text \<open>@is_account_new@ of @ticker_info.rs@; a failing query panics.\<close>

definition is_account_new :: "error option \<Rightarrow> chain_db \<Rightarrow> address \<Rightarrow> (error, bool) res" where
  "is_account_new failure db addr = unwrap (res_map (\<lambda>_. sas_committed (account_state_by_address db addr) = None) (access failure))"

section \<open>Tokens\<close>

lemma access_simps [simp]: "access None = Ok ()" "access (Some e) = Err e" "access f = Ok u \<longleftrightarrow> f = None" "access f \<noteq> Panic"
  by (simp_all add: access_def split: option.splits)

lemma find_after: "find P xs = None \<Longrightarrow> find P (xs @ ys) = find P ys"
  by (induction xs) (auto split: if_splits)

lemma cached_token_found:
  assumes "token_db_cache_get_token f db cache q = (Ok (Some t), cache')"
  shows "find (token_matches q) cache' = Some t" "token_matches q t"
proof -
  have "find (token_matches q) cache' = Some t"
  proof (cases "find (token_matches q) cache")
    case None
    then have "db_get_token db q = Some t" "cache' = cache_insert_token cache t"
      using assms None by (cases f; cases "db_get_token db q"; auto simp: token_db_cache_get_token_def Let_def)+
    moreover have "\<not> (\<exists>r \<in> set cache. token_matches q r)" using None by (auto simp: find_None_iff)
    then have "find (token_matches q) (filter (\<lambda>r. tk_id r \<noteq> tk_id t) cache) = None" by (auto simp: find_None_iff)
    moreover have "token_matches q t"
      using \<open>db_get_token db q = Some t\<close> by (auto simp: db_get_token_def find_Some_iff)
    ultimately show ?thesis by (simp add: cache_insert_token_def find_after)
  next
    case (Some t')
    then show ?thesis using assms by (simp add: token_db_cache_get_token_def)
  qed
  then show "find (token_matches q) cache' = Some t" "token_matches q t"
    by (auto simp: find_Some_iff)
qed

text \<open>A token that was found is found again.\<close>

lemma ticker_get_token_again:
  assumes "ticker_get_token env s q = (Ok t, s')" "tka_token_db_cache (fst s'') = tka_token_db_cache (fst s')"
  shows "ticker_get_token env' s'' q = (Ok t, s'')" "token_matches q t" "snd s' = snd s"
    "tka_price_cache (fst s') = tka_price_cache (fst s)"
proof -
  obtain cache where cache: "token_db_cache_get_token (te_token_access env) (snd s) (tka_token_db_cache (fst s)) q = (Ok (Some t), cache)"
    "s' = ((fst s)\<lparr>tka_token_db_cache := cache\<rparr>, snd s)"
    using assms(1) by (auto simp: ticker_get_token_def ok_iffs split: prod.splits)
  note found = cached_token_found [OF cache(1)]
  show "ticker_get_token env' s'' q = (Ok t, s'')"
    using found(1) assms(2) cache(2) by (cases s'') (simp add: ticker_get_token_def token_db_cache_get_token_def)
  show "token_matches q t" "snd s' = snd s" "tka_price_cache (fst s') = tka_price_cache (fst s)"
    using found(2) cache(2) by simp_all
qed

section \<open>Prices\<close>

text \<open>A cached historical price is the stored one.\<close>

definition prices_ok :: "ticker_api \<times> tokens_db \<Rightarrow> bool" where
  "prices_ok s \<longleftrightarrow> (\<forall>i e. tka_price_cache (fst s) i = Some e \<and> tce_is_price_historical e \<longrightarrow>
    get_historical_ticker_price (snd s) i = Ok (Some (tce_price e)))"

lemma prices_ok_new: "prices_ok (ticker_api_new, db)"
  by (simp add: prices_ok_def ticker_api_new_def)

lemma ratio_to_big_decimal_nonneg: "\<not> ratio_to_big_decimal x k < 0"
  by (simp add: ratio_to_big_decimal_def not_less)

lemma stored_price:
  "get_historical_ticker_price (update_historical_ticker_price db i p) j =
    (if j = i then Ok (Some (p\<lparr>tp_usd_price := ratio_to_big_decimal (tp_usd_price p) STORED_USD_PRICE_PRECISION\<rparr>))
     else get_historical_ticker_price db j)"
  by (simp add: get_historical_ticker_price_def update_historical_ticker_price_def Let_def AList.update_conv price_from_row_def
      big_decimal_to_ratio_def ratio_to_big_decimal_nonneg)

lemma update_stored_value_ok:
  assumes "prices_ok s" "hist \<longrightarrow> get_historical_ticker_price (snd s) i = Ok (Some p)"
  shows "prices_ok (update_stored_value env s i p hist)"
  using assms by (auto simp: prices_ok_def update_stored_value_def Let_def stored_price)

lemma fetch_quote_ok:
  assumes "prices_ok s" "fetch_quote env s t = (r, s')"
  shows "prices_ok s'" "r = Ok p \<Longrightarrow> te_get_price env (tk_symbol t) = Ok p \<or> get_historical_ticker_price (snd s) (tk_id t) = Ok (Some p)"
  using assms update_stored_value_ok [OF assms(1)]
  by (auto simp: fetch_quote_def ok_iffs split: res.splits option.splits)

text \<open>C36: every price that the ticker answers is the fixed one of the test token, at most 300 seconds old, the answer of
  the source of prices to this request, or the price that is stored for the token, of any age; a restart included, the cache never
  holds a historical price that is not the stored one.\<close>

theorem quote_is_fresh_or_stored:
  assumes "prices_ok s" "get_last_quote env s q = (r, s')"
  shows "prices_ok s' \<and> (\<forall>p. r = Ok p \<longrightarrow> (\<exists>t. token_matches q t \<and>
    (tk_symbol t = ''MLTT'' \<and> tp_usd_price p = 1 \<or> (te_utc_now env - tp_last_updated p) div 1000 \<le> 300 \<or>
     te_get_price env (tk_symbol t) = Ok p \<or> get_historical_ticker_price (snd s) (tk_id t) = Ok (Some p))))"
proof -
  obtain rt s1 where s1: "ticker_get_token env s q = (rt, s1)" by (meson surj_pair)
  then have "snd s1 = snd s \<and> tka_price_cache (fst s1) = tka_price_cache (fst s)"
    by (auto simp: ticker_get_token_def split: prod.splits)
  then have ok1: "prices_ok s1" "snd s1 = snd s" using assms(1) by (simp_all add: prices_ok_def)
  show ?thesis
  proof (cases rt)
    case (Ok t)
    then have match: "token_matches q t" using ticker_get_token_again(2) [OF _ refl] s1 by blast
    obtain v api where v: "get_stored_value env (fst s1) (tk_id t) = (v, api)" by (meson surj_pair)
    have ok2: "prices_ok (api, snd s1)"
      using ok1(1) v by (auto simp: prices_ok_def get_stored_value_def split: option.splits if_splits)
    show ?thesis
    proof (cases "tk_symbol t = ''MLTT''")
      case True
      then show ?thesis using assms(2) s1 Ok ok1 match by (auto simp: get_last_quote_def)
    next
      case False
      show ?thesis
      proof (cases v)
        case None
        then have "fetch_quote env (api, snd s1) t = (r, s')"
          using assms(2) s1 Ok False v by (simp add: get_last_quote_def)
        then have fetched: "prices_ok s'" "r = Ok p \<Longrightarrow> te_get_price env (tk_symbol t) = Ok p \<or>
            get_historical_ticker_price (snd s) (tk_id t) = Ok (Some p)" for p
          using fetch_quote_ok [OF ok2, of env t r s'] ok1(2) by simp_all
        show ?thesis
        proof (intro conjI allI impI exI [of _ t])
          fix p assume "r = Ok p"
          then show "tk_symbol t = ''MLTT'' \<and> tp_usd_price p = 1 \<or> (te_utc_now env - tp_last_updated p) div 1000 \<le> 300 \<or>
              te_get_price env (tk_symbol t) = Ok p \<or> get_historical_ticker_price (snd s) (tk_id t) = Ok (Some p)"
            using fetched(2) by blast
        qed (rule fetched(1), rule match)
      next
        case (Some p)
        then obtain e where e: "tka_price_cache (fst s1) (tk_id t) = Some e" "\<not> is_cache_entry_expired env e" "tce_price e = p"
          using v by (auto simp: get_stored_value_def split: option.splits if_splits)
        have "(te_utc_now env - tp_last_updated p) div 1000 \<le> 300 \<or> get_historical_ticker_price (snd s) (tk_id t) = Ok (Some p)"
        proof (cases "tce_is_price_historical e")
          case True
          then show ?thesis using e ok1 unfolding prices_ok_def by metis
        next
          case False
          then show ?thesis using e by (simp add: is_cache_entry_expired_def is_price_expired_def API_PRICE_EXPIRATION_TIME_SECS_def)
        qed
        moreover have "r = Ok p" "s' = (api, snd s1)"
          using assms(2) s1 Ok False v Some by (auto simp: get_last_quote_def)
        ultimately show ?thesis using ok2 match by auto
      qed
    qed
  qed (use assms(2) s1 ok1 in \<open>auto simp: get_last_quote_def\<close>)
qed

section \<open>Cheap tokens\<close>

lemma cheap_price_stored_zero:
  assumes "0 \<le> p" "p < 1 / (2 * 10 ^ 6)"
  shows "ratio_to_big_decimal p STORED_USD_PRICE_PRECISION = 0"
proof -
  have "p * 10 ^ 6 < 1 / 2" using assms(2) by simp
  then have "round (p * 10 ^ 6) = 0" using assms(1) by (simp add: round_def floor_eq_iff)
  then show ?thesis
    by (simp add: ratio_to_big_decimal_def round_precision_raw_no_div_def STORED_USD_PRICE_PRECISION_def)
qed

lemma free_token_panics:
  assumes "ta_last_quote a (TokenId (tk_id t)) = Ok p" "tp_usd_price p = 0" "ta_token a q = Ok t"
    "output_fee_of a ty addr = Ok o'" "ta_gas_price_wei a = Ok g" "ta_last_quote a (TokenId 0) = Ok e"
  shows "get_fee_from_ticker_in_wei config a ty q addr = Panic"
  using assms by (cases o'; cases "tc_gas_cost_tx config (fst o')") (simp_all add: get_fee_from_ticker_in_wei_def ratio_div_def Let_def)

text \<open>C37: a token of less than half of a millionth of a dollar stops the fee ticker.  Its price is stored as zero, for the
  table keeps six decimals; when the source of prices fails after the price in the cache has expired, the ticker takes the
  price zero from the table, and every request for a fee in that token panics, dividing by it.\<close>

theorem cheap_token_stops_ticker:
  assumes first: "get_last_quote env s q = (Ok p, s1)" "ticker_get_token env s q = (Ok t, s0)" "tk_symbol t \<noteq> ''MLTT''"
    "te_get_price env (tk_symbol t) = Ok p" "te_update_access env = None" "tka_price_cache (fst s) (tk_id t) = None"
    and cheap: "0 \<le> tp_usd_price p" "tp_usd_price p < 1 / (2 * 10 ^ 6)"
    and later: "te_get_price env' (tk_symbol t) = Err e" "300 < (te_utc_now env' - tp_last_updated p) div 1000" "te_historical_access env' = None"
  shows "\<exists>s2. get_last_quote env' s1 q = (Ok (p\<lparr>tp_usd_price := 0\<rparr>), s2) \<and>
    (\<forall>a config ty addr. ta_token a q = Ok t \<and> ta_last_quote a (TokenId (tk_id t)) = Ok (p\<lparr>tp_usd_price := 0\<rparr>) \<and>
        (\<exists>o'. output_fee_of a ty addr = Ok o') \<and> (\<exists>g. ta_gas_price_wei a = Ok g) \<and> (\<exists>eth. ta_last_quote a (TokenId 0) = Ok eth) \<longrightarrow>
      get_fee_from_ticker_in_wei config a ty q addr = Panic)"
proof -
  note found = ticker_get_token_again [OF first(2) refl]
  have "get_stored_value env (fst s0) (tk_id t) = (None, fst s0)"
    using first(6) found(4) by (simp add: get_stored_value_def)
  then have s1: "s1 = update_stored_value env s0 (tk_id t) p False"
    using first by (simp add: get_last_quote_def fetch_quote_def)
  have stored: "get_historical_ticker_price (snd s1) (tk_id t) = Ok (Some (p\<lparr>tp_usd_price := 0\<rparr>))"
    using first(5) cheap_price_stored_zero [OF cheap] by (simp add: s1 update_stored_value_def Let_def stored_price)
  have cached: "tka_price_cache (fst s1) (tk_id t) = Some \<lparr>tce_price = p, tce_creation_time = te_now env, tce_is_price_historical = False\<rparr>"
    by (simp add: s1 update_stored_value_def Let_def)
  have token: "ticker_get_token env' s1 q = (Ok t, s1)"
    using ticker_get_token_again(1) [OF first(2)] by (simp add: s1 update_stored_value_def Let_def)
  obtain api where api: "get_stored_value env' (fst s1) (tk_id t) = (None, api)"
    using cached later(2) by (simp add: get_stored_value_def is_cache_entry_expired_def is_price_expired_def API_PRICE_EXPIRATION_TIME_SECS_def)
  have "get_last_quote env' s1 q = fetch_quote env' (api, snd s1) t"
    using token api first(3) by (simp add: get_last_quote_def)
  also have "\<dots> = (Ok (p\<lparr>tp_usd_price := 0\<rparr>), update_stored_value env' (api, snd s1) (tk_id t) (p\<lparr>tp_usd_price := 0\<rparr>) True)"
    using later(1,3) stored by (simp add: fetch_quote_def)
  finally show ?thesis
    using free_token_panics by fastforce
qed

section \<open>Examples\<close>

definition sample_cheap_token :: token where
  "sample_cheap_token = \<lparr>tk_id = 2, tk_address = 2, tk_symbol = ''SHIB'', tk_decimals = 18\<rparr>"

definition sample_tokens_db :: tokens_db where
  "sample_tokens_db = \<lparr>tdb_tokens = [sample_cheap_token], tdb_ticker_price = []\<rparr>"

definition sample_cheap_price :: token_price where
  "sample_cheap_price = \<lparr>tp_usd_price = 1 / 10 ^ 7, tp_last_updated = 1000\<rparr>"

definition sample_env :: "int \<Rightarrow> (error, token_price) res \<Rightarrow> ticker_env" where
  "sample_env t answer = \<lparr>te_utc_now = t, te_now = t, te_token_access = None, te_update_access = None,
    te_historical_access = None, te_gas_access = None, te_get_price = (\<lambda>symbol. answer)\<rparr>"

lemma sample_token_found:
  "\<exists>s0. ticker_get_token (sample_env 2000 (Ok sample_cheap_price)) (ticker_api_new, sample_tokens_db) (TokenId 2) = (Ok sample_cheap_token, s0)"
  by (simp add: ticker_get_token_def token_db_cache_get_token_def ticker_api_new_def sample_env_def db_get_token_def
      sample_tokens_db_def sample_cheap_token_def)

lemma sample_first_quote:
  "\<exists>s1. get_last_quote (sample_env 2000 (Ok sample_cheap_price)) (ticker_api_new, sample_tokens_db) (TokenId 2) = (Ok sample_cheap_price, s1)"
proof -
  let ?env = "sample_env 2000 (Ok sample_cheap_price)"
  obtain api db where s0: "ticker_get_token ?env (ticker_api_new, sample_tokens_db) (TokenId 2) = (Ok sample_cheap_token, (api, db))"
    using sample_token_found by force
  then have "tka_price_cache api = Map.empty"
    using ticker_get_token_again(4) [OF s0 refl] by (simp add: ticker_api_new_def)
  then have "get_stored_value ?env api 2 = (None, api)" by (simp add: get_stored_value_def)
  moreover have "te_get_price ?env ''SHIB'' = Ok sample_cheap_price" by (simp add: sample_env_def)
  ultimately show ?thesis using s0 by (simp add: get_last_quote_def fetch_quote_def sample_cheap_token_def)
qed

theorem quote_is_fresh_or_stored_witness:
  "\<exists>s1. get_last_quote (sample_env 2000 (Ok sample_cheap_price)) (ticker_api_new, sample_tokens_db) (TokenId 2) = (Ok sample_cheap_price, s1)
    \<and> prices_ok s1"
  using sample_first_quote quote_is_fresh_or_stored [OF prices_ok_new] by blast

text \<open>The price source fails ten minutes later.\<close>

theorem cheap_token_stops_ticker_witness:
  "\<exists>s1 s2. get_last_quote (sample_env 2000 (Ok sample_cheap_price)) (ticker_api_new, sample_tokens_db) (TokenId 2) = (Ok sample_cheap_price, s1) \<and>
    get_last_quote (sample_env 602000 (Err ''timeout'')) s1 (TokenId 2) = (Ok (sample_cheap_price\<lparr>tp_usd_price := 0\<rparr>), s2)"
proof -
  let ?env = "sample_env 2000 (Ok sample_cheap_price)" and ?s = "(ticker_api_new, sample_tokens_db)"
  obtain s0 where s0: "ticker_get_token ?env ?s (TokenId 2) = (Ok sample_cheap_token, s0)" using sample_token_found by blast
  obtain s1 where s1: "get_last_quote ?env ?s (TokenId 2) = (Ok sample_cheap_price, s1)" using sample_first_quote by blast
  have "\<exists>s2. get_last_quote (sample_env 602000 (Err ''timeout'')) s1 (TokenId 2) = (Ok (sample_cheap_price\<lparr>tp_usd_price := 0\<rparr>), s2)"
    using cheap_token_stops_ticker [OF s1 s0, of "sample_env 602000 (Err ''timeout'')" "''timeout''"]
    by (simp add: sample_cheap_token_def sample_env_def ticker_api_new_def sample_cheap_price_def)
  with s1 show ?thesis by blast
qed

end
