(* ===== verification/ApiSubmit.thy ===== *)
theory ApiSubmit
  imports FeeTicker SignMessage Mempool Typing
begin

text \<open>
  How the API server admits transactions: the methods @tx_submit@ and @submit_txs_batch@ of
  @core/bin/zksync_api/src/api_server/rpc_server@, the signature checker and the checks on Ethereum, @signature_checker.rs@ and
  @eth_checker.rs@.  Of an error only its code is kept.  A panic of the signature checker, which runs in a task of its
  own, drops the channel and is an internal error of the request; a panic of the fee ticker is one of the request.
\<close>

section \<open>Errors\<close>

datatype rpc_error_code =
    RpcNonceMismatch
  | RpcIncorrectTx
  | RpcFeeTooLow
  | RpcMissingEthSignature
  | RpcEIP1271SignatureVerificationFail
  | RpcIncorrectEthSignature
  | RpcChangePkNotAuthorized
  | RpcOther
  | RpcAccountCloseDisabled
  | RpcOperationsLimitReached
  | RpcUnsupportedFastProcessing

datatype rpc_error = RpcError rpc_error_code | InvalidParams | InternalError

fun rpc_error_code_of :: "tx_add_error \<Rightarrow> rpc_error_code" where
  "rpc_error_code_of NonceMismatch = RpcNonceMismatch"
| "rpc_error_code_of IncorrectTx = RpcIncorrectTx"
| "rpc_error_code_of TxFeeTooLow = RpcFeeTooLow"
| "rpc_error_code_of TxBatchFeeTooLow = RpcFeeTooLow"
| "rpc_error_code_of MissingEthSignature = RpcMissingEthSignature"
| "rpc_error_code_of EIP1271SignatureVerificationFail = RpcEIP1271SignatureVerificationFail"
| "rpc_error_code_of IncorrectEthSignature = RpcIncorrectEthSignature"
| "rpc_error_code_of ChangePkNotAuthorized = RpcChangePkNotAuthorized"
| "rpc_error_code_of TxAddOther = RpcOther"
| "rpc_error_code_of DbError = RpcOther"
| "rpc_error_code_of EmptyBatch = RpcOther"
| "rpc_error_code_of BatchTooBig = RpcOther"
| "rpc_error_code_of BatchWithdrawalsOverload = RpcOther"

definition add_error :: "tx_add_error \<Rightarrow> rpc_error" where
  "add_error e = RpcError (rpc_error_code_of e)"

section \<open>What the server asks\<close>

record api_config =
  ac_forced_exit_minimum_account_age :: int
  ac_enforce_pubkey_change_fee :: bool
  ac_ticker :: ticker_config

text \<open>The answers during a request: of the ticker's sources, of the token cache and the database, of the contracts on
  Ethereum (with the hash function that the authorisation is compared with), and of the core server.\<close>

record api_answers =
  aa_ticker :: ticker_answers
  aa_token :: "token_id \<Rightarrow> (error, token option) res"
  aa_account_created_on :: "address \<Rightarrow> (error, int option) res"
  aa_now :: int
  aa_debug_address :: "address \<Rightarrow> string"
  aa_auth_facts :: "address \<Rightarrow> 64 word \<Rightarrow> (error, byte list) res"
  aa_is_valid_signature :: "address \<Rightarrow> byte list \<Rightarrow> byte list \<Rightarrow> (error, byte list) res"
  aa_keccak256 :: "byte list \<Rightarrow> byte list"
  aa_send_tx :: "signed_tx \<Rightarrow> (error, (tx_add_error, unit) res) res"
  aa_send_txs_batch :: "signed_tx list \<Rightarrow> (error, (tx_add_error, unit) res) res"

section \<open>The signature checker\<close>

definition CHECKER_SUCCESS_RETURN_VALUE :: "byte list" where
  "CHECKER_SUCCESS_RETURN_VALUE = [0x20, 0xc1, 0x3b, 0x0b]"

definition checker_signature_correct :: "api_answers \<Rightarrow> address \<Rightarrow> byte list \<Rightarrow> byte list \<Rightarrow> (error, bool) res" where
  "checker_signature_correct a addr message signature =
    res_map (\<lambda>received. received = CHECKER_SUCCESS_RETURN_VALUE) (aa_is_valid_signature a addr message signature)"

definition checker_pubkey_hash_authorized :: "api_answers \<Rightarrow> address \<Rightarrow> nonce \<Rightarrow> pubkey_hash \<Rightarrow> (error, bool) res" where
  "checker_pubkey_hash_authorized a addr n pub_key_hash =
    res_map (\<lambda>auth_fact. auth_fact = aa_keccak256 a (word_to_be pub_key_hash)) (aa_auth_facts a addr (ucast n))"

definition check_change_pk :: "api_answers \<Rightarrow> zksync_tx \<Rightarrow> (tx_add_error, unit) res" where
  "check_change_pk a tx = (case tx of
      TxChangePubKey t \<Rightarrow> if cp_eth_signature t = None
        then res_bind (unwrap (checker_pubkey_hash_authorized a (cp_account t) (cp_nonce t) (cp_new_pk_hash t)))
          (\<lambda>is_authorized. ensure is_authorized ChangePkNotAuthorized)
        else Ok ()
    | _ \<Rightarrow> Ok ())"

definition eip1271_message :: "string \<Rightarrow> byte list" where
  "eip1271_message message = [0x19] @ ascii ''Ethereum Signed Message:'' @ [10] @ ascii (decimal (size message)) @ ascii message"

definition verify_request_eth_signature :: "crypto \<Rightarrow> api_answers \<Rightarrow> zksync_tx \<Rightarrow> eth_sign_data option \<Rightarrow> (tx_add_error, unit) res" where
  "verify_request_eth_signature c a tx eth_sign_data =
    res_bind (check_change_pk a tx) (\<lambda>_. case eth_sign_data of
        None \<Rightarrow> Ok ()
      | Some sign_data \<Rightarrow> (case esd_signature sign_data of
          EthereumSignature packed_signature \<Rightarrow> (case cr_eth_recover c packed_signature (ascii (esd_message sign_data)) of
              None \<Rightarrow> Err IncorrectEthSignature
            | Some signer_account \<Rightarrow> ensure (signer_account = tx_account tx) IncorrectEthSignature)
        | EIP1271Signature signature \<Rightarrow>
            res_bind (unwrap (checker_signature_correct a (tx_account tx) (eip1271_message (esd_message sign_data)) signature))
              (\<lambda>signature_correct. ensure signature_correct IncorrectTx)))"

definition verify_tx_correctness :: "crypto \<Rightarrow> zksync_tx \<Rightarrow> (tx_add_error, zksync_tx) res" where
  "verify_tx_correctness c tx = (case tx_check_correctness c tx of
      (Ok True, tx) \<Rightarrow> Ok tx
    | (Ok False, tx) \<Rightarrow> Err IncorrectTx
    | (_, tx) \<Rightarrow> Panic)"

definition verify_tx :: "crypto \<Rightarrow> api_answers \<Rightarrow> zksync_tx \<Rightarrow> eth_sign_data option \<Rightarrow> (tx_add_error, signed_tx) res" where
  "verify_tx c a tx eth_sign_data =
    res_bind (verify_request_eth_signature c a tx eth_sign_data) (\<lambda>_.
    res_map (\<lambda>tx. \<lparr>stx_tx = tx, stx_eth_sign_data = eth_sign_data\<rparr>) (verify_tx_correctness c tx))"

text \<open>The request to the checker and its answer.\<close>

definition verify_tx_info_message_signature ::
  "crypto \<Rightarrow> api_answers \<Rightarrow> zksync_tx \<Rightarrow> tx_eth_signature option \<Rightarrow> string option \<Rightarrow> (rpc_error, signed_tx) res" where
  "verify_tx_info_message_signature c a tx signature msg_to_sign =
    res_bind (case msg_to_sign of
        Some message_to_sign \<Rightarrow> (case signature of
            None \<Rightarrow> Err (add_error MissingEthSignature)
          | Some signature \<Rightarrow> Ok (Some \<lparr>esd_signature = signature, esd_message = message_to_sign\<rparr>))
      | None \<Rightarrow> Ok None) (\<lambda>eth_sign_data.
    case verify_tx c a tx eth_sign_data of
      Ok tx \<Rightarrow> Ok tx
    | Err e \<Rightarrow> Err (add_error e)
    | Panic \<Rightarrow> Err InternalError)"

section \<open>One transaction\<close>

definition token_info_from_id :: "api_answers \<Rightarrow> token_id \<Rightarrow> (rpc_error, token) res" where
  "token_info_from_id a i = res_bind (map_err (\<lambda>_. RpcError RpcOther) (aa_token a i)) (\<lambda>t.
    case t of None \<Rightarrow> Err (RpcError RpcOther) | Some t \<Rightarrow> Ok t)"

definition get_tx_info_message_to_sign :: "api_answers \<Rightarrow> zksync_tx \<Rightarrow> (rpc_error, string option) res" where
  "get_tx_info_message_to_sign a tx = (case tx of
      TxTransfer t \<Rightarrow> res_map (\<lambda>token. Some (transfer_sign_message (aa_debug_address a) t (tk_symbol token) (unat (tk_decimals token))))
        (token_info_from_id a (tr_token t))
    | TxWithdraw t \<Rightarrow> res_map (\<lambda>token. Some (withdraw_sign_message (aa_debug_address a) t (tk_symbol token) (unat (tk_decimals token))))
        (token_info_from_id a (wd_token t))
    | _ \<Rightarrow> Ok None)"

definition check_forced_exit :: "api_config \<Rightarrow> api_answers \<Rightarrow> forced_exit \<Rightarrow> (rpc_error, unit) res" where
  "check_forced_exit cfg a forced_exit =
    res_bind (map_err (\<lambda>_. InternalError) (aa_account_created_on a (fe_target forced_exit))) (\<lambda>account_age.
      case account_age of
        Some age \<Rightarrow> ensure (aa_now a - age \<ge> ac_forced_exit_minimum_account_age cfg) InvalidParams
      | None \<Rightarrow> Err InvalidParams)"

definition ticker_request :: "api_config \<Rightarrow> api_answers \<Rightarrow> tx_fee_type \<Rightarrow> address \<Rightarrow> token_like \<Rightarrow> (rpc_error, tx_fee) res" where
  "ticker_request cfg a tx_type addr token =
    map_err (\<lambda>_. InternalError) (get_fee_from_ticker_in_wei (ac_ticker cfg) (aa_ticker a) tx_type token addr)"

definition ticker_price_request :: "api_answers \<Rightarrow> token_like \<Rightarrow> token_price_request \<Rightarrow> (rpc_error, rat) res" where
  "ticker_price_request a token req_type = map_err (\<lambda>_. InternalError) (get_token_price (aa_ticker a) token req_type)"

fun is_change_pub_key_fee :: "tx_fee_type \<Rightarrow> bool" where
  "is_change_pub_key_fee (FeeChangePubKey onchain) = True"
| "is_change_pub_key_fee t = False"

definition check_tx_fee :: "api_config \<Rightarrow> api_answers \<Rightarrow> zksync_tx \<Rightarrow> (rpc_error, unit) res" where
  "check_tx_fee cfg a tx = (case get_fee_info tx of
      None \<Rightarrow> Ok ()
    | Some (tx_type, token, addr, provided_fee) \<Rightarrow>
        let should_enforce_fee = (\<not> is_change_pub_key_fee tx_type \<or> ac_enforce_pubkey_change_fee cfg) in
        res_bind (ticker_request cfg a tx_type addr token) (\<lambda>required_fee.
        let scaled_provided_fee = provided_fee * 105 div 100 in
        if fee_total_fee required_fee \<ge> scaled_provided_fee \<and> should_enforce_fee then Err (add_error TxFeeTooLow) else Ok ()))"

text \<open>The checks before the fee; the field @fast@ of a withdrawal is set from the request.\<close>

definition accept_request :: "api_config \<Rightarrow> api_answers \<Rightarrow> zksync_tx \<Rightarrow> bool option \<Rightarrow> (rpc_error, zksync_tx) res" where
  "accept_request cfg a tx fast_processing =
    (if is_close tx then Err (RpcError RpcAccountCloseDisabled)
     else res_bind (case tx of TxForcedExit forced_exit \<Rightarrow> check_forced_exit cfg a forced_exit | _ \<Rightarrow> Ok ()) (\<lambda>_.
       let fast_processing = (case fast_processing of None \<Rightarrow> False | Some b \<Rightarrow> b) in
       if fast_processing \<and> \<not> is_withdraw tx then Err (RpcError RpcUnsupportedFastProcessing)
       else case tx of
           TxWithdraw withdraw \<Rightarrow> if wd_fast withdraw then Err (RpcError RpcIncorrectTx)
             else Ok (TxWithdraw (withdraw\<lparr>wd_fast := fast_processing\<rparr>))
         | _ \<Rightarrow> Ok tx))"

definition admit_tx ::
  "crypto \<Rightarrow> api_config \<Rightarrow> api_answers \<Rightarrow> zksync_tx \<Rightarrow> tx_eth_signature option \<Rightarrow> bool option \<Rightarrow> (rpc_error, signed_tx \<times> h256) res" where
  "admit_tx c cfg a tx signature fast_processing =
    res_bind (accept_request cfg a tx fast_processing) (\<lambda>tx.
    res_bind (get_tx_info_message_to_sign a tx) (\<lambda>msg_to_sign.
    res_bind (check_tx_fee cfg a tx) (\<lambda>_.
    res_bind (verify_tx_info_message_signature c a tx signature msg_to_sign) (\<lambda>verified_tx.
    res_map (\<lambda>hash. (verified_tx, hash)) (unwrap (tx_hash c tx))))))"

text \<open>The answer, and what was sent to the core server.\<close>

definition core_answer :: "(error, (tx_add_error, unit) res) res \<Rightarrow> 'a \<Rightarrow> (rpc_error, 'a) res" where
  "core_answer answer x = res_bind (map_err (\<lambda>_. RpcError RpcOther) answer) (\<lambda>tx_add_result. map_err add_error (res_map (\<lambda>_. x) tx_add_result))"

definition tx_submit ::
  "crypto \<Rightarrow> api_config \<Rightarrow> api_answers \<Rightarrow> zksync_tx \<Rightarrow> tx_eth_signature option \<Rightarrow> bool option \<Rightarrow> (rpc_error, h256) res \<times> signed_tx option" where
  "tx_submit c cfg a tx signature fast_processing = (case admit_tx c cfg a tx signature fast_processing of
      Ok (verified_tx, hash) \<Rightarrow> (core_answer (aa_send_tx a verified_tx) hash, Some verified_tx)
    | Err e \<Rightarrow> (Err e, None)
    | Panic \<Rightarrow> (Panic, None))"

section \<open>Batches\<close>

record tx_with_signature =
  tws_tx :: zksync_tx
  tws_signature :: "tx_eth_signature option"

fun messages_to_sign :: "api_answers \<Rightarrow> tx_with_signature list \<Rightarrow> (rpc_error, string option list) res" where
  "messages_to_sign a [] = Ok []"
| "messages_to_sign a (tx # txs) =
    res_bind (get_tx_info_message_to_sign a (tws_tx tx)) (\<lambda>m. res_map ((#) m) (messages_to_sign a txs))"

fun is_change_pub_key :: "zksync_tx \<Rightarrow> bool" where
  "is_change_pub_key (TxChangePubKey t) = True"
| "is_change_pub_key t = False"

text \<open>The fees required and provided, in dollars, added to those so far.\<close>

fun batch_usd_fees :: "api_config \<Rightarrow> api_answers \<Rightarrow> tx_with_signature list \<Rightarrow> rat \<times> rat \<Rightarrow> (rpc_error, rat \<times> rat) res" where
  "batch_usd_fees cfg a [] totals = Ok totals"
| "batch_usd_fees cfg a (tx # txs) totals =
    (if is_change_pub_key (tws_tx tx) then Err (add_error TxAddOther)
     else case get_fee_info (tws_tx tx) of
         None \<Rightarrow> batch_usd_fees cfg a txs totals
       | Some (tx_type, token, addr, provided_fee) \<Rightarrow>
           res_bind (ticker_request cfg a tx_type addr token) (\<lambda>required_fee.
           res_bind (ticker_price_request a token USDForOneWei) (\<lambda>token_price_in_usd.
             batch_usd_fees cfg a txs
               (fst totals + of_nat (fee_total_fee required_fee) * token_price_in_usd,
                snd totals + of_nat provided_fee * token_price_in_usd))))"

fun verify_batch :: "crypto \<Rightarrow> api_answers \<Rightarrow> (tx_with_signature \<times> string option) list \<Rightarrow> (rpc_error, signed_tx list) res" where
  "verify_batch c a [] = Ok []"
| "verify_batch c a ((tx, msg_to_sign) # txs) =
    res_bind (verify_tx_info_message_signature c a (tws_tx tx) (tws_signature tx) msg_to_sign) (\<lambda>verified_tx.
      res_map ((#) verified_tx) (verify_batch c a txs))"

fun tx_hashes :: "crypto \<Rightarrow> tx_with_signature list \<Rightarrow> (rpc_error, h256 list) res" where
  "tx_hashes c [] = Ok []"
| "tx_hashes c (tx # txs) = res_bind (unwrap (tx_hash c (tws_tx tx))) (\<lambda>h. res_map ((#) h) (tx_hashes c txs))"

definition admit_batch ::
  "crypto \<Rightarrow> api_config \<Rightarrow> api_answers \<Rightarrow> tx_with_signature list \<Rightarrow> (rpc_error, signed_tx list \<times> h256 list) res" where
  "admit_batch c cfg a txs =
    (if txs = [] then Err (add_error EmptyBatch)
     else if list_ex (\<lambda>tx. is_close (tws_tx tx)) txs then Err (RpcError RpcAccountCloseDisabled)
     else res_bind (messages_to_sign a txs) (\<lambda>msgs.
       res_bind (batch_usd_fees cfg a txs (0, 0)) (\<lambda>(required_total_usd_fee, provided_total_usd_fee).
       let scaled_provided_fee_in_usd = provided_total_usd_fee * 105 / 100 in
       if required_total_usd_fee \<ge> scaled_provided_fee_in_usd then Err (add_error TxBatchFeeTooLow)
       else res_bind (verify_batch c a (zip txs msgs)) (\<lambda>verified_txs.
         res_map (\<lambda>hashes. (verified_txs, hashes)) (tx_hashes c txs)))))"

definition submit_txs_batch ::
  "crypto \<Rightarrow> api_config \<Rightarrow> api_answers \<Rightarrow> tx_with_signature list \<Rightarrow> (rpc_error, h256 list) res \<times> signed_tx list option" where
  "submit_txs_batch c cfg a txs = (case admit_batch c cfg a txs of
      Ok (verified_txs, hashes) \<Rightarrow> (core_answer (aa_send_txs_batch a verified_txs) hashes, Some verified_txs)
    | Err e \<Rightarrow> (Err e, None)
    | Panic \<Rightarrow> (Panic, None))"

section \<open>Quotes\<close>

fun txs_batch_fee :: "api_config \<Rightarrow> api_answers \<Rightarrow> (tx_fee_type \<times> address) list \<Rightarrow> token_like \<Rightarrow> nat \<Rightarrow> (rpc_error, nat) res" where
  "txs_batch_fee cfg a [] token total_fee = Ok total_fee"
| "txs_batch_fee cfg a ((tx_type, addr) # txs) token total_fee =
    res_bind (ticker_request cfg a tx_type addr token) (\<lambda>fee. txs_batch_fee cfg a txs token (total_fee + fee_total_fee fee))"

definition get_txs_batch_fee_in_wei ::
  "api_config \<Rightarrow> api_answers \<Rightarrow> tx_fee_type list \<Rightarrow> address list \<Rightarrow> token_like \<Rightarrow> (rpc_error, nat) res" where
  "get_txs_batch_fee_in_wei cfg a tx_types addresses token =
    (if size tx_types \<noteq> size addresses then Err (RpcError RpcIncorrectTx) else txs_batch_fee cfg a (zip tx_types addresses) token 0)"

end
