(* ===== verification/ApiProps.thy ===== *)
theory ApiProps
  imports ApiSubmit
begin

text \<open>
  What the admission of transactions guarantees: every transaction that reaches the core server was checked, a quoted
  fee is accepted unless it is tiny, and what the endpoint for batches does not check.
\<close>

section \<open>Fees\<close>

lemma tx_fee_new_Ok:
  assumes "tx_fee_new ty zkp gas n p = Ok f"
  shows "fee_total_fee f \<le> fee_zkp_fee f + fee_gas_fee f"
    "(fee_zkp_fee f + fee_gas_fee f - fee_total_fee f) * 2047 \<le> 10 * (fee_zkp_fee f + fee_gas_fee f)"
    "is_fee_amount_packable (fee_total_fee f) = Ok True" "fee_zkp_fee f + fee_gas_fee f \<le> 2047 * 10 ^ 31"
proof -
  define total where "total = nat \<lceil>round_precision zkp 18\<rceil> + nat \<lceil>round_precision gas 18\<rceil>"
  have parts: "fee_zkp_fee f + fee_gas_fee f = total" "res_bind (pack_fee_amount total) unpack_fee_amount = Ok (fee_total_fee f)"
    using assms by (auto simp: tx_fee_new_def Let_def ok_iffs total_def)
  have limit: "total \<le> float_limit 5 11"
    using parts(2) fee_pack_Panic [of total] by (cases "total \<le> float_limit 5 11") auto
  then have floor: "fee_total_fee f = float_floor 11 total"
    using parts(2) by (auto elim: fee_pack_Ok)
  show "fee_total_fee f \<le> fee_zkp_fee f + fee_gas_fee f" unfolding parts(1) floor by (rule float_floor_le)
  show "(fee_zkp_fee f + fee_gas_fee f - fee_total_fee f) * 2047 \<le> 10 * (fee_zkp_fee f + fee_gas_fee f)"
    using float_floor_error [of 11 total] unfolding parts(1) floor by simp
  have "float_floor 11 total \<le> float_limit 5 11" using limit float_floor_le [of 11 total] by simp
  then show "is_fee_amount_packable (fee_total_fee f) = Ok True"
    unfolding floor using is_fee_packable_floor [of "float_floor 11 total"] float_floor_idem [of 11 total] by simp
  show "fee_zkp_fee f + fee_gas_fee f \<le> 2047 * 10 ^ 31" using limit unfolding parts(1) by (simp add: fee_limit)
qed

lemma ticker_fee_new:
  assumes "get_fee_from_ticker_in_wei config a ty token addr = Ok f"
  shows "\<exists>out zkp gas n p. (tx_fee_new out zkp gas n p :: (error, _) res) = Ok f"
  using assms by (fastforce simp: get_fee_from_ticker_in_wei_def Let_def ok_iffs)

lemma map_err_Ok [simp]: "map_err g r = Ok x \<longleftrightarrow> r = Ok x"
  by (cases r) auto

lemma ensure_Ok [simp]: "ensure b e = Ok u \<longleftrightarrow> b"
  by (simp add: ensure_def)

lemma tolerance: "(n :: nat) * 105 div 100 \<le> n \<longleftrightarrow> n < 20"
proof
  assume "n * 105 div 100 \<le> n"
  then have "n * 105 < (n + 1) * 100" by (metis add.commute div_less_iff_less_mult le_imp_less_Suc plus_1_eq_Suc zero_less_numeral)
  then show "n < 20" by simp
next
  assume "n < 20"
  then have "n * 105 < (n + 1) * 100" by simp
  then show "n * 105 div 100 \<le> n" using div_less_iff_less_mult [of 100 "n * 105" "n + 1"] by simp
qed

text \<open>C39: a transaction that pays exactly the fee that the server quotes for it passes the check of the fee if and only
  if the fee is at least 20 units of the token (or fees are not enforced for it): the tolerance of five percent is rounded
  down, and a tie is refused.  The quote itself is packable, at most the estimated cost, and below it by at most
  10 / 2047 of it.\<close>

theorem quote_accepted_iff:
  assumes "get_fee_info tx = Some (ty, token, addr, fee_total_fee quote)" "ticker_request cfg a ty addr token = Ok quote"
  shows "(check_tx_fee cfg a tx = Ok () \<longleftrightarrow> 20 \<le> fee_total_fee quote \<or> is_change_pub_key_fee ty \<and> \<not> ac_enforce_pubkey_change_fee cfg) \<and>
    is_fee_amount_packable (fee_total_fee quote) = Ok True \<and> fee_total_fee quote \<le> fee_zkp_fee quote + fee_gas_fee quote \<and>
    (fee_zkp_fee quote + fee_gas_fee quote - fee_total_fee quote) * 2047 \<le> 10 * (fee_zkp_fee quote + fee_gas_fee quote)"
proof -
  obtain out zkp gas n p where new: "(tx_fee_new out zkp gas n p :: (error, _) res) = Ok quote"
    using assms(2) ticker_fee_new unfolding ticker_request_def by fastforce
  have "check_tx_fee cfg a tx = Ok () \<longleftrightarrow> 20 \<le> fee_total_fee quote \<or> is_change_pub_key_fee ty \<and> \<not> ac_enforce_pubkey_change_fee cfg"
    using tolerance [of "fee_total_fee quote"] assms by (cases "fee_total_fee quote < 20") (simp_all add: check_tx_fee_def Let_def)
  then show ?thesis
    using tx_fee_new_Ok [OF new] by simp
qed

lemma check_tx_fee_Ok:
  assumes "check_tx_fee cfg a tx = Ok ()" "get_fee_info tx = Some (ty, token, addr, fee)"
    "\<not> is_change_pub_key_fee ty \<or> ac_enforce_pubkey_change_fee cfg"
  shows "\<exists>quote. ticker_request cfg a ty addr token = Ok quote \<and> 100 * (fee_total_fee quote + 1) \<le> 105 * fee"
proof -
  obtain quote where quote: "ticker_request cfg a ty addr token = Ok quote" "\<not> fee * 105 div 100 \<le> fee_total_fee quote"
    using assms by (auto simp: check_tx_fee_def Let_def ok_iffs split: if_splits)
  then have "fee_total_fee quote + 1 \<le> fee * 105 div 100" by simp
  then have "100 * (fee_total_fee quote + 1) \<le> fee * 105"
    using less_eq_div_iff_mult_less_eq [of 100 "fee_total_fee quote + 1" "fee * 105"] by simp
  with quote(1) show ?thesis by (auto simp: mult.commute)
qed

section \<open>The request\<close>

fun is_withdraw_request :: "zksync_tx \<Rightarrow> bool" where
  "is_withdraw_request (TxWithdraw w) = True"
| "is_withdraw_request tx = False"

lemma accept_request_Ok:
  assumes "accept_request cfg a tx fast = Ok tx'"
  shows "\<not> is_close tx \<and>
    (\<forall>f. tx = TxForcedExit f \<longrightarrow> (\<exists>created. aa_account_created_on a (fe_target f) = Ok (Some created) \<and>
      ac_forced_exit_minimum_account_age cfg \<le> aa_now a - created)) \<and>
    (tx' = tx \<and> \<not> is_withdraw_request tx \<or>
      (\<exists>w. tx = TxWithdraw w \<and> \<not> wd_fast w \<and> tx' = TxWithdraw (w\<lparr>wd_fast := (fast = Some True)\<rparr>)))"
  using assms by (cases tx; cases fast; auto simp: accept_request_def check_forced_exit_def ok_iffs split: if_splits option.splits)

section \<open>Checked transactions\<close>

definition eth_signed :: "crypto \<Rightarrow> api_answers \<Rightarrow> address \<Rightarrow> string \<Rightarrow> tx_eth_signature \<Rightarrow> bool" where
  "eth_signed c a account message s = (case s of
      EthereumSignature packed \<Rightarrow> cr_eth_recover c packed (ascii message) = Some account
    | EIP1271Signature bytes \<Rightarrow> aa_is_valid_signature a account (eip1271_message message) bytes = Ok CHECKER_SUCCESS_RETURN_VALUE)"

text \<open>What the checker of signatures promises of a transaction @tx@ that became @stx@.\<close>

definition tx_verified :: "crypto \<Rightarrow> api_answers \<Rightarrow> zksync_tx \<Rightarrow> tx_eth_signature option \<Rightarrow> signed_tx \<Rightarrow> bool" where
  "tx_verified c a tx signature stx \<longleftrightarrow>
    tx_check_correctness c tx = (Ok True, stx_tx stx) \<and> tx_typed (stx_tx stx) \<and>
    (\<forall>t. tx = TxChangePubKey t \<and> cp_eth_signature t = None \<longrightarrow>
      aa_auth_facts a (cp_account t) (ucast (cp_nonce t)) = Ok (aa_keccak256 a (word_to_be (cp_new_pk_hash t)))) \<and>
    (case tx of
        TxTransfer t \<Rightarrow> \<exists>token s. aa_token a (tr_token t) = Ok (Some token) \<and> signature = Some s \<and>
          eth_signed c a (tr_from t) (transfer_sign_message (aa_debug_address a) t (tk_symbol token) (unat (tk_decimals token))) s
      | TxWithdraw t \<Rightarrow> \<exists>token s. aa_token a (wd_token t) = Ok (Some token) \<and> signature = Some s \<and>
          eth_signed c a (wd_from t) (withdraw_sign_message (aa_debug_address a) t (tk_symbol token) (unat (tk_decimals token))) s
      | _ \<Rightarrow> True)"

lemma verify_tx_Ok:
  assumes "verify_tx c a tx sd = Ok stx"
  shows "tx_check_correctness c tx = (Ok True, stx_tx stx)"
    "\<forall>t. tx = TxChangePubKey t \<and> cp_eth_signature t = None \<longrightarrow>
      aa_auth_facts a (cp_account t) (ucast (cp_nonce t)) = Ok (aa_keccak256 a (word_to_be (cp_new_pk_hash t)))"
    "\<forall>d. sd = Some d \<longrightarrow> eth_signed c a (tx_account tx) (esd_message d) (esd_signature d)"
proof -
  have parts: "check_change_pk a tx = Ok ()" "verify_request_eth_signature c a tx sd = Ok ()" "verify_tx_correctness c tx = Ok (stx_tx stx)"
    using assms by (auto simp: verify_tx_def verify_request_eth_signature_def ok_iffs)
  show "tx_check_correctness c tx = (Ok True, stx_tx stx)"
    using parts(3) by (auto simp: verify_tx_correctness_def split: prod.splits res.splits bool.splits)
  show "\<forall>t. tx = TxChangePubKey t \<and> cp_eth_signature t = None \<longrightarrow>
      aa_auth_facts a (cp_account t) (ucast (cp_nonce t)) = Ok (aa_keccak256 a (word_to_be (cp_new_pk_hash t)))"
    using parts(1) by (auto simp: check_change_pk_def checker_pubkey_hash_authorized_def ok_iffs)
  show "\<forall>d. sd = Some d \<longrightarrow> eth_signed c a (tx_account tx) (esd_message d) (esd_signature d)"
    using parts(2) by (auto simp: verify_request_eth_signature_def eth_signed_def checker_signature_correct_def ok_iffs
        split: tx_eth_signature.splits option.splits)
qed

lemma verified:
  assumes "get_tx_info_message_to_sign a tx = Ok m" "verify_tx_info_message_signature c a tx signature m = Ok stx"
  shows "tx_verified c a tx signature stx"
proof -
  obtain sd where sd: "verify_tx c a tx sd = Ok stx"
    "sd = (case m of None \<Rightarrow> None | Some msg \<Rightarrow> map_option (\<lambda>s. \<lparr>esd_signature = s, esd_message = msg\<rparr>) signature)"
    "m \<noteq> None \<longrightarrow> signature \<noteq> None"
    using assms(2) by (auto simp: verify_tx_info_message_signature_def ok_iffs split: option.splits res.splits)
  note v = verify_tx_Ok [OF sd(1)]
  have "case tx of
        TxTransfer t \<Rightarrow> \<exists>token s. aa_token a (tr_token t) = Ok (Some token) \<and> signature = Some s \<and>
          eth_signed c a (tr_from t) (transfer_sign_message (aa_debug_address a) t (tk_symbol token) (unat (tk_decimals token))) s
      | TxWithdraw t \<Rightarrow> \<exists>token s. aa_token a (wd_token t) = Ok (Some token) \<and> signature = Some s \<and>
          eth_signed c a (wd_from t) (withdraw_sign_message (aa_debug_address a) t (tk_symbol token) (unat (tk_decimals token))) s
      | _ \<Rightarrow> True"
    using assms(1) sd(2,3) v(3)
    by (cases tx; cases signature; auto simp: get_tx_info_message_to_sign_def token_info_from_id_def ok_iffs split: option.splits)
  then show ?thesis
    using v(1,2) check_correctness_typed [OF v(1)] by (simp add: tx_verified_def)
qed

section \<open>What reaches the core server\<close>

text \<open>C38: whatever the endpoint for a transaction sends to the core server was checked: it is the transaction of the
  request, or a withdrawal that was not marked fast with the mark of the request; it is correct and typed, an Ethereum
  account that moves funds signed the message that describes it, a key set without a signature was authorised on
  Ethereum, the account of a forced exit is old enough, and an enforced fee is, up to five percent, above that of the
  ticker.\<close>

theorem submitted_tx_verified:
  assumes "tx_submit c cfg a tx signature fast = (r, Some stx)"
  shows "\<not> is_close tx \<and>
    (\<forall>f. tx = TxForcedExit f \<longrightarrow> (\<exists>created. aa_account_created_on a (fe_target f) = Ok (Some created) \<and>
      ac_forced_exit_minimum_account_age cfg \<le> aa_now a - created)) \<and>
    (\<exists>tx'. (tx' = tx \<and> \<not> is_withdraw_request tx \<or>
        (\<exists>w. tx = TxWithdraw w \<and> \<not> wd_fast w \<and> tx' = TxWithdraw (w\<lparr>wd_fast := (fast = Some True)\<rparr>))) \<and>
      tx_verified c a tx' signature stx \<and>
      (\<forall>ty token addr fee. get_fee_info tx' = Some (ty, token, addr, fee) \<and>
          (\<not> is_change_pub_key_fee ty \<or> ac_enforce_pubkey_change_fee cfg) \<longrightarrow>
        (\<exists>quote. ticker_request cfg a ty addr token = Ok quote \<and> 100 * (fee_total_fee quote + 1) \<le> 105 * fee)))"
proof -
  obtain hash where admitted: "admit_tx c cfg a tx signature fast = Ok (stx, hash)"
    using assms by (auto simp: tx_submit_def split: res.splits)
  then obtain tx' m where steps: "accept_request cfg a tx fast = Ok tx'" "get_tx_info_message_to_sign a tx' = Ok m"
    "check_tx_fee cfg a tx' = Ok ()" "verify_tx_info_message_signature c a tx' signature m = Ok stx"
    by (auto simp: admit_tx_def ok_iffs)
  have "\<forall>ty token addr fee. get_fee_info tx' = Some (ty, token, addr, fee) \<and>
      (\<not> is_change_pub_key_fee ty \<or> ac_enforce_pubkey_change_fee cfg) \<longrightarrow>
    (\<exists>quote. ticker_request cfg a ty addr token = Ok quote \<and> 100 * (fee_total_fee quote + 1) \<le> 105 * fee)"
    using check_tx_fee_Ok [OF steps(3)] by blast
  then show ?thesis
    using accept_request_Ok [OF steps(1)] verified [OF steps(2,4)] by blast
qed

text \<open>A token of 1000 dollars without decimals, an account that was just created, a wallet that approves everything.\<close>

definition sample_token :: token where
  "sample_token = \<lparr>tk_id = 2, tk_address = 2, tk_symbol = ''USDC'', tk_decimals = 0\<rparr>"

definition sample_answers :: api_answers where
  "sample_answers = \<lparr>
    aa_ticker = \<lparr>ta_last_quote = (\<lambda>t. Ok \<lparr>tp_usd_price = 1000, tp_last_updated = 0\<rparr>), ta_gas_price_wei = Ok 1,
      ta_token = (\<lambda>t. Ok sample_token), ta_account_new = (\<lambda>t. Ok False)\<rparr>,
    aa_token = (\<lambda>i. Ok (Some sample_token)), aa_account_created_on = (\<lambda>addr. Ok (Some 0)), aa_now = 60,
    aa_debug_address = (\<lambda>addr. ''0x''), aa_auth_facts = (\<lambda>addr n. Ok []),
    aa_is_valid_signature = (\<lambda>addr m s. Ok CHECKER_SUCCESS_RETURN_VALUE), aa_keccak256 = id,
    aa_send_tx = (\<lambda>tx. Ok (Ok ())), aa_send_txs_batch = (\<lambda>txs. Ok (Ok ()))\<rparr>"

definition sample_api_config :: api_config where
  "sample_api_config = \<lparr>ac_forced_exit_minimum_account_age = 86400, ac_enforce_pubkey_change_fee = True, ac_ticker = run_ticker_config 500000\<rparr>"

lemma sample_quote:
  "\<exists>q. ticker_request sample_api_config sample_answers FeeWithdraw addr (TokenId 2) = Ok q \<and> fee_total_fee q \<le> 2"
  "\<exists>q. ticker_request sample_api_config sample_answers FeeFastWithdraw addr (TokenId 2) = Ok q \<and> fee_total_fee q \<le> 2"
proof -
  obtain bs where bs: "(pack_fee_amount 2 :: (unit, byte list) res) = Ok bs" "unpack_fee_amount bs = Ok (float_floor 11 2)"
    using fee_pack_Ok [of 2] by (auto simp: fee_limit)
  have "float_floor 11 2 \<le> 2" by (rule float_floor_le)
  moreover have "\<lceil>3 / 500000 :: rat\<rceil> = 1" "\<lceil>96991 / 1000000000000000000 :: rat\<rceil> = 1" "\<lceil>1 / 2000000000000 :: rat\<rceil> = 1"
    by (simp_all add: ceiling_eq_iff)
  ultimately
  show "\<exists>q. ticker_request sample_api_config sample_answers FeeWithdraw addr (TokenId 2) = Ok q \<and> fee_total_fee q \<le> 2"
   "\<exists>q. ticker_request sample_api_config sample_answers FeeFastWithdraw addr (TokenId 2) = Ok q \<and> fee_total_fee q \<le> 2"
  using bs by (auto simp: ticker_request_def get_fee_from_ticker_in_wei_def sample_api_config_def sample_answers_def output_fee_of_def
    run_ticker_config_def BASE_WITHDRAW_COST_def MAX_WITHDRAWALS_TO_COMPLETE_IN_A_CALL_def COMPLETE_WITHDRAWALS_COST_def
    COMPLETE_WITHDRAWALS_BASE_COST_def gas_consts WITHDRAW_CHUNKS_def ratio_div_def sample_token_def tx_fee_new_def round_precision_def Let_def numeral_2_eq_2 [symmetric])
qed

text \<open>A withdrawal that pays exactly the quote of at most 2 units is refused.\<close>

theorem quote_accepted_iff_witness:
  "\<exists>q. ticker_request sample_api_config sample_answers FeeWithdraw 18 (TokenId 2) = Ok q \<and>
    check_tx_fee sample_api_config sample_answers (TxWithdraw (sample_withdraw\<lparr>wd_fee := fee_total_fee q\<rparr>)) \<noteq> Ok ()"
proof -
  obtain q where q: "ticker_request sample_api_config sample_answers FeeWithdraw 18 (TokenId 2) = Ok q" "fee_total_fee q \<le> 2"
    using sample_quote(1) by blast
  have "get_fee_info (TxWithdraw (sample_withdraw\<lparr>wd_fee := fee_total_fee q\<rparr>)) = Some (FeeWithdraw, TokenId 2, 18, fee_total_fee q)"
    by (simp add: sample_withdraw_def)
  from quote_accepted_iff [OF this q(1)] q show ?thesis by auto
qed

lemma sample_fee: "is_fee_amount_packable 100 = Ok True" "\<exists>f. pack_fee_amount 100 = Ok f"
proof -
  have "float_floor 11 100 = 100"
  proof -
    have "(100 :: nat) < 2 ^ 11 \<and> (100 :: nat) = 100 * 10 ^ 0" by simp
    then have "\<exists>m < 2 ^ 11. \<exists>e. (100 :: nat) = m * 10 ^ e" by blast
    then show ?thesis by (simp add: float_floor_packable)
  qed
  then show "is_fee_amount_packable 100 = Ok True" by (simp add: is_fee_packable_floor fee_limit)
  show "\<exists>f. pack_fee_amount 100 = Ok f" using fee_pack_Ok [of 100] by (auto simp: fee_limit)
qed

lemma sample_signer: "bytes = Ok b \<Longrightarrow> verify_signature_with sample_crypto NotCached s bytes = Ok (Some (ucast (sig_pub_key s)))"
  using rescue_hash_tx_msg_total [of sample_crypto b]
  by (auto simp: verify_signature_with_def verify_musig_def verify_musig_rescue_def sample_crypto_def)

definition sample_paid_withdraw :: "bool \<Rightarrow> withdraw" where
  "sample_paid_withdraw b = sample_withdraw\<lparr>wd_fee := 100, wd_fast := b\<rparr>"

definition sample_paid_exit :: forced_exit where
  "sample_paid_exit = \<lparr>fe_initiator_account_id = 5, fe_target = 18, fe_token = 2, fe_fee = 100, fe_nonce = 3,
    fe_signature = default_signature, fe_cached_signer = NotCached\<rparr>"

lemma sample_checked:
  "tx_check_correctness sample_crypto (TxWithdraw (sample_paid_withdraw b)) =
    (Ok True, TxWithdraw (sample_paid_withdraw b\<lparr>wd_cached_signer := Cached (Some 0)\<rparr>))" (is ?withdraw)
  "tx_check_correctness sample_crypto (TxForcedExit sample_paid_exit) =
    (Ok True, TxForcedExit (sample_paid_exit\<lparr>fe_cached_signer := Cached (Some 0)\<rparr>))" (is ?exit)
  "\<exists>h. tx_hash sample_crypto (TxWithdraw (sample_paid_withdraw b)) = Ok h"
  "\<exists>h. tx_hash sample_crypto (TxForcedExit sample_paid_exit) = Ok h"
proof -
  have "u128_field 1000 = Ok (word_to_be (1000 :: 128 word))"
    by (auto simp: u128_field_Ok intro: exI [of _ 1000])
  then obtain bs where bytes: "withdraw_get_bytes (sample_paid_withdraw b) = Ok bs"
    using sample_fee(2) by (force simp: withdraw_get_bytes_Ok sample_paid_withdraw_def sample_withdraw_def)
  obtain es where exit: "forced_exit_get_bytes sample_paid_exit = Ok es"
    using sample_fee(2) by (auto simp: forced_exit_get_bytes_Ok sample_paid_exit_def)
  show ?withdraw
    using sample_fee(1) sample_signer [OF bytes]
    by (simp add: withdraw_check_correctness_def withdraw_valid_def sample_withdraw_def sample_paid_withdraw_def
      max_account_id_eq max_token_id_eq withdraw_verify_signature_def default_signature_def)
  show ?exit
    using sample_fee(1) sample_signer [OF exit]
    by (simp add: forced_exit_check_correctness_def forced_exit_valid_def sample_paid_exit_def
      max_account_id_eq max_token_id_eq forced_exit_verify_signature_def default_signature_def)
  show "\<exists>h. tx_hash sample_crypto (TxWithdraw (sample_paid_withdraw b)) = Ok h"
    "\<exists>h. tx_hash sample_crypto (TxForcedExit sample_paid_exit) = Ok h"
    using bytes exit by (simp_all add: tx_hash_def)
qed

text \<open>A withdrawal of the sample account, sent as a fast one.\<close>

lemma sample_fee_ok:
  "check_tx_fee sample_api_config sample_answers (TxWithdraw (sample_paid_withdraw b)) = Ok ()"
proof -
  obtain q where "ticker_request sample_api_config sample_answers (if b then FeeFastWithdraw else FeeWithdraw) 18 (TokenId 2) = Ok q"
    "fee_total_fee q \<le> 2"
    using sample_quote by (cases b) force+
  then show ?thesis
    by (cases b) (simp_all add: check_tx_fee_def Let_def sample_paid_withdraw_def sample_withdraw_def)
qed

lemma sample_message: "\<exists>m. get_tx_info_message_to_sign sample_answers (TxWithdraw (sample_paid_withdraw b)) = Ok (Some m)"
  by (simp add: get_tx_info_message_to_sign_def token_info_from_id_def sample_answers_def)

lemma sample_verified:
  "verify_tx sample_crypto sample_answers (TxWithdraw (sample_paid_withdraw b))
     (Some \<lparr>esd_signature = EIP1271Signature [], esd_message = m\<rparr>) =
   Ok \<lparr>stx_tx = TxWithdraw (sample_paid_withdraw b\<lparr>wd_cached_signer := Cached (Some 0)\<rparr>),
     stx_eth_sign_data = Some \<lparr>esd_signature = EIP1271Signature [], esd_message = m\<rparr>\<rparr>"
  "verify_tx sample_crypto sample_answers (TxForcedExit sample_paid_exit) None =
   Ok \<lparr>stx_tx = TxForcedExit (sample_paid_exit\<lparr>fe_cached_signer := Cached (Some 0)\<rparr>), stx_eth_sign_data = None\<rparr>"
  using sample_checked by (simp_all add: verify_tx_def verify_request_eth_signature_def check_change_pk_def
      verify_tx_correctness_def checker_signature_correct_def sample_answers_def)

theorem submitted_tx_verified_witness:
  "\<exists>r stx. tx_submit sample_crypto sample_api_config sample_answers (TxWithdraw (sample_paid_withdraw False))
      (Some (EIP1271Signature [])) (Some True) = (r, Some stx) \<and>
    tx_verified sample_crypto sample_answers (TxWithdraw (sample_paid_withdraw True)) (Some (EIP1271Signature [])) stx"
proof -
  obtain m where m: "get_tx_info_message_to_sign sample_answers (TxWithdraw (sample_paid_withdraw True)) = Ok (Some m)"
    using sample_message by blast
  obtain h where h: "tx_hash sample_crypto (TxWithdraw (sample_paid_withdraw True)) = Ok h"
    using sample_checked(3) by blast
  have fast: "\<not> wd_fast (sample_paid_withdraw False)" "(sample_paid_withdraw False)\<lparr>wd_fast := True\<rparr> = sample_paid_withdraw True"
    by (simp_all add: sample_paid_withdraw_def sample_withdraw_def)
  then have "accept_request sample_api_config sample_answers (TxWithdraw (sample_paid_withdraw False)) (Some True)
      = Ok (TxWithdraw (sample_paid_withdraw True))"
    by (simp add: accept_request_def)
  then obtain r stx where submitted: "tx_submit sample_crypto sample_api_config sample_answers
      (TxWithdraw (sample_paid_withdraw False)) (Some (EIP1271Signature [])) (Some True) = (r, Some stx)"
    using m h sample_fee_ok [of True] by (simp add: tx_submit_def admit_tx_def verify_tx_info_message_signature_def sample_verified)
  then show ?thesis
    using submitted_tx_verified [OF submitted] fast(2) by fastforce
qed

section \<open>What the endpoint for batches does not check\<close>

lemma batch_answers:
  fixes cfg a m g n
  defines "cfg' \<equiv> cfg\<lparr>ac_forced_exit_minimum_account_age := m\<rparr>" and "a' \<equiv> a\<lparr>aa_account_created_on := g, aa_now := n\<rparr>"
  shows "messages_to_sign a' txs = messages_to_sign a txs" "batch_usd_fees cfg' a' txs totals = batch_usd_fees cfg a txs totals"
    "verify_batch c a' tms = verify_batch c a tms"
proof -
  have message: "get_tx_info_message_to_sign a' tx = get_tx_info_message_to_sign a tx" for tx
    by (cases tx) (simp_all add: get_tx_info_message_to_sign_def token_info_from_id_def a'_def)
  have ticker: "ticker_request cfg' a' = ticker_request cfg a" "ticker_price_request a' = ticker_price_request a"
    by (simp_all add: fun_eq_iff ticker_request_def ticker_price_request_def a'_def cfg'_def)
  have request: "verify_tx c a' = verify_tx c a"
    by (simp add: fun_eq_iff verify_tx_def verify_request_eth_signature_def check_change_pk_def checker_signature_correct_def
        checker_pubkey_hash_authorized_def a'_def split: zksync_tx.splits option.splits tx_eth_signature.splits)
  show "messages_to_sign a' txs = messages_to_sign a txs"
    by (induction txs) (simp_all add: message)
  show "batch_usd_fees cfg' a' txs totals = batch_usd_fees cfg a txs totals"
    by (induction txs arbitrary: totals) (simp_all add: ticker split: option.splits)
  show "verify_batch c a' tms = verify_batch c a tms"
  proof (induction tms)
    case (Cons p tms)
    then show ?case by (cases p) (simp add: verify_tx_info_message_signature_def request)
  qed simp
qed

text \<open>A request, and what is sent, without the mark of a fast withdrawal.\<close>

fun unmarked :: "zksync_tx \<Rightarrow> zksync_tx" where
  "unmarked (TxWithdraw w) = TxWithdraw (w\<lparr>wd_fast := False\<rparr>)"
| "unmarked tx = tx"

fun marked_fast :: "zksync_tx \<Rightarrow> bool" where
  "marked_fast (TxWithdraw w) = wd_fast w"
| "marked_fast tx = False"

definition unmarked_request :: "tx_with_signature \<Rightarrow> tx_with_signature" where
  "unmarked_request tx = tx\<lparr>tws_tx := unmarked (tws_tx tx)\<rparr>"

definition unmarked_signed :: "signed_tx \<Rightarrow> signed_tx" where
  "unmarked_signed tx = tx\<lparr>stx_tx := unmarked (stx_tx tx)\<rparr>"

lemma unmarked_simps [simp]:
  "tx_hash c (unmarked tx) = tx_hash c tx" "is_close (unmarked tx) = is_close tx" "tx_account (unmarked tx) = tx_account tx"
  "get_tx_info_message_to_sign a (unmarked tx) = get_tx_info_message_to_sign a tx" "check_change_pk a (unmarked tx) = check_change_pk a tx"
  by (cases tx; simp add: tx_hash_def withdraw_get_bytes_def get_tx_info_message_to_sign_def withdraw_sign_message_def check_change_pk_def)+

lemma verify_unmarked:
  "verify_tx_info_message_signature c a (unmarked tx) s m = res_map unmarked_signed (verify_tx_info_message_signature c a tx s m)"
proof -
  have "verify_tx_correctness c (unmarked tx) = res_map unmarked (verify_tx_correctness c tx)"
    by (cases tx) (auto simp: map_prod_def verify_tx_correctness_def withdraw_check_correctness_def withdraw_valid_def withdraw_verify_signature_def
        withdraw_get_bytes_def split: res.split prod.split bool.split)
  moreover have "verify_request_eth_signature c a (unmarked tx) d = verify_request_eth_signature c a tx d" for d
    by (simp add: verify_request_eth_signature_def cong: option.case_cong tx_eth_signature.case_cong)
  ultimately have "verify_tx c a (unmarked tx) d = res_map unmarked_signed (verify_tx c a tx d)" for d
    by (cases "verify_request_eth_signature c a tx d"; cases "verify_tx_correctness c tx") (simp_all add: verify_tx_def unmarked_signed_def)
  then show ?thesis
    by (auto simp: verify_tx_info_message_signature_def split: option.split res.split)
qed

lemma verify_keeps_mark:
  "verify_tx_info_message_signature c a tx s m = Ok stx \<Longrightarrow> marked_fast (stx_tx stx) = marked_fast tx"
  by (cases tx) (auto simp: verify_tx_info_message_signature_def verify_tx_def verify_tx_correctness_def withdraw_check_correctness_def
      map_prod_def ok_iffs split: option.splits res.splits prod.splits bool.splits)

lemma batch_unmarked:
  "messages_to_sign a (map unmarked_request txs) = messages_to_sign a txs"
  "tx_hashes c (map unmarked_request txs) = tx_hashes c txs"
  "list_ex (\<lambda>tx. is_close (tws_tx tx)) (map unmarked_request txs) = list_ex (\<lambda>tx. is_close (tws_tx tx)) txs"
  by (induction txs) (simp_all add: unmarked_request_def)

lemma verify_batch_unmarked:
  "verify_batch c a (zip (map unmarked_request txs) ms) = res_map (map unmarked_signed) (verify_batch c a (zip txs ms))"
proof (induction txs arbitrary: ms)
  case (Cons tx txs)
  show ?case
  proof (cases ms)
    case (Cons m ms')
    with Cons.IH [of ms'] show ?thesis
      by (cases "verify_tx_info_message_signature c a (tws_tx tx) (tws_signature tx) m"; cases "verify_batch c a (zip txs ms')")
        (simp_all add: unmarked_request_def verify_unmarked)
  qed simp
qed simp

lemma verify_batch_keeps_marks:
  "verify_batch c a (zip txs ms) = Ok stxs \<Longrightarrow> size ms = size txs \<Longrightarrow> map (marked_fast \<circ> stx_tx) stxs = map (marked_fast \<circ> tws_tx) txs"
proof (induction txs arbitrary: ms stxs)
  case (Cons tx txs)
  then show ?case by (cases ms) (auto simp: ok_iffs dest!: verify_keeps_mark)
qed simp

lemma messages_size: "messages_to_sign a txs = Ok ms \<Longrightarrow> size ms = size txs"
  by (induction txs arbitrary: ms) (auto simp: ok_iffs)

lemma marked_batch_admitted:
  assumes "admit_batch c cfg a (map unmarked_request txs) = Ok (stxs, hashes)"
    and "batch_usd_fees cfg a txs (0, 0) = Ok (required, provided)" "required < provided * 105 / 100"
  shows "\<exists>stxs'. admit_batch c cfg a txs = Ok (stxs', hashes) \<and> map unmarked_signed stxs' = stxs \<and>
    map (marked_fast \<circ> stx_tx) stxs' = map (marked_fast \<circ> tws_tx) txs"
proof -
  obtain msgs stxs' where "txs \<noteq> []" "\<not> list_ex (\<lambda>tx. is_close (tws_tx tx)) txs" and msgs: "messages_to_sign a txs = Ok msgs"
      and stxs': "verify_batch c a (zip txs msgs) = Ok stxs'" "stxs = map unmarked_signed stxs'" and "tx_hashes c txs = Ok hashes"
    using assms(1) by (auto simp: admit_batch_def batch_unmarked verify_batch_unmarked ok_iffs Let_def split: if_splits)
  with assms(2,3) have "admit_batch c cfg a txs = Ok (stxs', hashes)" by (simp add: admit_batch_def)
  with stxs' verify_batch_keeps_marks [OF stxs'(1) messages_size [OF msgs]] show ?thesis by simp
qed

text \<open>C40: the endpoint for batches does not make two of the checks of the endpoint for one transaction: a forced exit of
  an account that is younger than the minimum age is refused by the latter, and so is a withdrawal whose field @fast@ was
  set by hand.  What the former does with a batch depends neither on the ages nor on the minimum.  And it sends a batch
  with hand-set marks to the core server, marks included, if it admits the batch without them and what
  the marked batch provides is enough for its own fee: nothing but the fee depends on a mark.\<close>

theorem batch_skips_request_checks:
  assumes "aa_account_created_on a (fe_target f) = Ok (Some created)"
    "aa_now a - created < ac_forced_exit_minimum_account_age cfg" "wd_fast w"
  shows "tx_submit c cfg a (TxForcedExit f) s fast = (Err InvalidParams, None) \<and>
    tx_submit c cfg a (TxWithdraw w) s fast = (Err (RpcError RpcIncorrectTx), None) \<and>
    submit_txs_batch c (cfg\<lparr>ac_forced_exit_minimum_account_age := m\<rparr>) (a\<lparr>aa_account_created_on := g, aa_now := n\<rparr>) txs
      = submit_txs_batch c cfg a txs \<and>
    (admit_batch c cfg a (map unmarked_request txs) = Ok (stxs, hashes) \<and>
      batch_usd_fees cfg a txs (0, 0) = Ok (required, provided) \<and> required < provided * 105 / 100 \<longrightarrow>
      (\<exists>stxs'. submit_txs_batch c cfg a txs = (core_answer (aa_send_txs_batch a stxs') hashes, Some stxs') \<and>
        map unmarked_signed stxs' = stxs \<and> map (marked_fast \<circ> stx_tx) stxs' = map (marked_fast \<circ> tws_tx) txs))"
proof -
  have "tx_submit c cfg a (TxForcedExit f) s fast = (Err InvalidParams, None)"
    using assms(1,2) by (simp add: tx_submit_def admit_tx_def accept_request_def check_forced_exit_def ensure_def)
  moreover have "tx_submit c cfg a (TxWithdraw w) s fast = (Err (RpcError RpcIncorrectTx), None)"
    using assms(3) by (simp add: tx_submit_def admit_tx_def accept_request_def Let_def)
  moreover have "submit_txs_batch c (cfg\<lparr>ac_forced_exit_minimum_account_age := m\<rparr>) (a\<lparr>aa_account_created_on := g, aa_now := n\<rparr>) txs
      = submit_txs_batch c cfg a txs"
    by (simp add: submit_txs_batch_def admit_batch_def batch_answers Let_def cong: if_cong res.case_cong)
  moreover have "\<exists>stxs'. submit_txs_batch c cfg a txs = (core_answer (aa_send_txs_batch a stxs') hashes, Some stxs') \<and>
      map unmarked_signed stxs' = stxs \<and> map (marked_fast \<circ> stx_tx) stxs' = map (marked_fast \<circ> tws_tx) txs"
    if "admit_batch c cfg a (map unmarked_request txs) = Ok (stxs, hashes)"
      "batch_usd_fees cfg a txs (0, 0) = Ok (required, provided)" "required < provided * 105 / 100"
    using marked_batch_admitted [OF that] by (auto simp: submit_txs_batch_def)
  ultimately show ?thesis by blast
qed

text \<open>A batch of a forced exit of an account that is a minute old and of a withdrawal that was marked fast by hand reaches
  the core server.\<close>

definition sample_tx_batch :: "tx_with_signature list" where
  "sample_tx_batch = [\<lparr>tws_tx = TxForcedExit sample_paid_exit, tws_signature = None\<rparr>,
    \<lparr>tws_tx = TxWithdraw (sample_paid_withdraw True), tws_signature = Some (EIP1271Signature [])\<rparr>]"

theorem batch_skips_request_checks_witness:
  "\<exists>r stxs. tx_submit sample_crypto sample_api_config sample_answers (TxForcedExit sample_paid_exit) None None = (Err InvalidParams, None) \<and>
    tx_submit sample_crypto sample_api_config sample_answers (TxWithdraw (sample_paid_withdraw True)) (Some (EIP1271Signature [])) None =
      (Err (RpcError RpcIncorrectTx), None) \<and>
    submit_txs_batch sample_crypto sample_api_config sample_answers sample_tx_batch = (r, Some stxs) \<and>
    map (marked_fast \<circ> stx_tx) stxs = [False, True]"
proof -
  have price: "ticker_price_request sample_answers t USDForOneWei = Ok 1000" for t
    by (simp add: ticker_price_request_def get_token_price_def sample_answers_def sample_token_def ratio_to_big_decimal_def
        round_precision_raw_no_div_def)
  obtain m where m: "get_tx_info_message_to_sign sample_answers (TxWithdraw (sample_paid_withdraw True)) = Ok (Some m)"
    using sample_message by blast
  obtain q q' where q: "ticker_request sample_api_config sample_answers FeeWithdraw 18 (TokenId 2) = Ok q" "fee_total_fee q \<le> 2"
    "ticker_request sample_api_config sample_answers FeeFastWithdraw 18 (TokenId 2) = Ok q'" "fee_total_fee q' \<le> 2"
    using sample_quote by blast
  have unmarked: "map unmarked_request sample_tx_batch = [\<lparr>tws_tx = TxForcedExit sample_paid_exit, tws_signature = None\<rparr>,
      \<lparr>tws_tx = TxWithdraw (sample_paid_withdraw False), tws_signature = Some (EIP1271Signature [])\<rparr>]"
    by (simp add: sample_tx_batch_def unmarked_request_def sample_paid_withdraw_def)
  have usd: "batch_usd_fees sample_api_config sample_answers sample_tx_batch (0, 0) =
      Ok (of_nat (fee_total_fee q) * 1000 + of_nat (fee_total_fee q') * 1000, 200000)"
    "batch_usd_fees sample_api_config sample_answers (map unmarked_request sample_tx_batch) (0, 0) =
      Ok (of_nat (fee_total_fee q) * 1000 + of_nat (fee_total_fee q) * 1000, 200000)"
    unfolding unmarked by (simp_all add: sample_tx_batch_def sample_paid_exit_def sample_paid_withdraw_def sample_withdraw_def q price)
  have "rat_of_nat (fee_total_fee q) \<le> 2" "rat_of_nat (fee_total_fee q') \<le> 2"
    using q(2,4) by (metis of_nat_le_iff of_nat_numeral)+
  then have low: "rat_of_nat (fee_total_fee q) * 1000 + rat_of_nat (fee_total_fee q') * 1000 < 200000 * 105 / 100"
    "\<not> 210000 \<le> rat_of_nat (fee_total_fee q) * 1000 + rat_of_nat (fee_total_fee q) * 1000" by linarith+
  obtain h h' where h: "tx_hash sample_crypto (TxForcedExit sample_paid_exit) = Ok h"
    "tx_hash sample_crypto (TxWithdraw (sample_paid_withdraw True)) = Ok h'"
    using sample_checked(3,4) by blast
  have "messages_to_sign sample_answers sample_tx_batch = Ok [None, Some m]"
    using m by (simp add: sample_tx_batch_def) (simp add: get_tx_info_message_to_sign_def)
  moreover have "tx_hashes sample_crypto sample_tx_batch = Ok [h, h']"
    using h by (simp add: sample_tx_batch_def)
  moreover have "\<exists>stxs. verify_batch sample_crypto sample_answers (zip (map unmarked_request sample_tx_batch) [None, Some m]) = Ok stxs"
    unfolding unmarked by (simp add: verify_tx_info_message_signature_def sample_verified)
  moreover have not_closed: "\<not> list_ex (\<lambda>tx. is_close (tws_tx tx)) sample_tx_batch" "sample_tx_batch \<noteq> []"
    by (simp_all add: sample_tx_batch_def)
  ultimately obtain stxs where "admit_batch sample_crypto sample_api_config sample_answers (map unmarked_request sample_tx_batch) = Ok (stxs, [h, h'])"
    using low(2) usd(2) by (auto simp: admit_batch_def batch_unmarked not_closed)
  then show ?thesis
    using batch_skips_request_checks [of sample_answers sample_paid_exit 0 sample_api_config "sample_paid_withdraw True" sample_crypto,
        where txs = sample_tx_batch and stxs = stxs and hashes = "[h, h']"] usd(1) low(1)
    by (fastforce simp: sample_answers_def sample_api_config_def sample_paid_withdraw_def sample_tx_batch_def)
qed

end
