(* ===== verification/Witness.thy ===== *)
theory Witness
  imports Block
begin

text \<open>
  The inputs of the circuit, @core/lib/circuit/src/witness@: for every executed operation the changes to the circuit's tree of
  accounts with the values before and after, the public data as bits, and the operations of the circuit, one per
  chunk; and for a block all of these with the collected fees and the commitment to the public data.  What the
  constraints of the circuit mean is not modelled.

  A field element is its canonical number; the modulus of the field, the root hashes and audit paths of the trees, the
  hash functions and the serialisation of keys and signatures are the library's, and arguments.  A tree is
  the map of its leaves.  Fields that are always @Some@ are plain.
\<close>

section \<open>Bits and field elements\<close>

type_synonym balance_tree = "token_id \<rightharpoonup> fr"

record circuit_account =
  ca_subtree :: balance_tree
  ca_nonce :: fr
  ca_pub_key_hash :: fr
  ca_address :: fr

type_synonym circuit_tree = "account_id \<rightharpoonup> circuit_account"

record circuit_lib =
  cx_modulus :: nat
  cx_capacity :: nat
  cx_root_hash :: "circuit_tree \<Rightarrow> fr"
  cx_account_path :: "circuit_tree \<Rightarrow> account_id \<Rightarrow> fr list"
  cx_balance_root_hash :: "balance_tree \<Rightarrow> fr"
  cx_balance_path :: "balance_tree \<Rightarrow> token_id \<Rightarrow> fr list"
  cx_hash_elements :: "fr list \<Rightarrow> fr"
  cx_hash_bits :: "bool list \<Rightarrow> fr"
  cx_compress :: "fr \<Rightarrow> fr \<Rightarrow> nat \<Rightarrow> fr"
  cx_serialize_signature :: "512 word \<Rightarrow> (error, byte list) res"
  cx_serialize_pub_key :: "256 word \<Rightarrow> (error, byte list) res"
  cx_sha256_bytes :: "byte list \<Rightarrow> byte list"

text \<open>@Fr::from_str@ of a decimal number, and @ff::from_hex@.\<close>

definition fr_from_str :: "circuit_lib \<Rightarrow> nat \<Rightarrow> fr" where
  "fr_from_str l n = n mod cx_modulus l"

definition fr_from_hex :: "circuit_lib \<Rightarrow> nat \<Rightarrow> ('e, fr) res" where
  "fr_from_hex l n = (if n < cx_modulus l then Ok n else Panic)"

definition add_assign :: "circuit_lib \<Rightarrow> fr \<Rightarrow> fr \<Rightarrow> fr" where
  "add_assign l a b = (a + b) mod cx_modulus l"

definition sub_assign :: "circuit_lib \<Rightarrow> fr \<Rightarrow> fr \<Rightarrow> fr" where
  "sub_assign l a b = (a + (cx_modulus l - b)) mod cx_modulus l"

text \<open>The bits of the representation of a field element, most significant first, and least significant first.\<close>

definition repr_bits :: "fr \<Rightarrow> bool list" where
  "repr_bits x = rev (map (bit x) [0..<256])"

definition fr_bits_le_fixed :: "fr \<Rightarrow> nat \<Rightarrow> bool list" where
  "fr_bits_le_fixed x width = resize width False (rev (repr_bits x))"

definition append_be_fixed_width :: "bool list \<Rightarrow> fr \<Rightarrow> nat \<Rightarrow> bool list" where
  "append_be_fixed_width content x width = content @ rev (resize width False (rev (repr_bits x)))"

text \<open>The loop of @le_bit_vector_into_field_element@: double and add.\<close>

fun double_and_add :: "circuit_lib \<Rightarrow> fr \<Rightarrow> fr \<Rightarrow> bool list \<Rightarrow> fr" where
  "double_and_add l fe base [] = fe"
| "double_and_add l fe base (b # bits) =
    double_and_add l (if b then add_assign l fe base else fe) (add_assign l base base) bits"

definition le_bit_vector_into_field_element :: "circuit_lib \<Rightarrow> bool list \<Rightarrow> fr" where
  "le_bit_vector_into_field_element l bits = double_and_add l 0 (fr_from_str l 1) bits"

definition be_bit_vector_into_bytes :: "bool list \<Rightarrow> byte list" where
  "be_bit_vector_into_bytes bits =
    map (\<lambda>c. foldl (\<lambda>byte (i, b). if b then byte OR push_bit (7 - i) 1 else byte) 0 (enumerate 0 c)) (chunks 8 bits)"

definition resize_grow_only :: "bool list \<Rightarrow> nat \<Rightarrow> bool \<Rightarrow> ('e, bool list) res" where
  "resize_grow_only to_resize new_size pad_with =
    res_map (\<lambda>_. resize new_size pad_with to_resize) (assert_that (size to_resize \<le> new_size))"

section \<open>Accounts\<close>

definition circuit_account_default :: circuit_account where
  "circuit_account_default = \<lparr>ca_subtree = Map.empty, ca_nonce = 0, ca_pub_key_hash = 0, ca_address = 0\<rparr>"

definition tree_leaf :: "circuit_tree \<Rightarrow> account_id \<Rightarrow> circuit_account" where
  "tree_leaf tree i = (case tree i of None \<Rightarrow> circuit_account_default | Some a \<Rightarrow> a)"

definition balance_value :: "balance_tree \<Rightarrow> token_id \<Rightarrow> fr" where
  "balance_value subtree t = (case subtree t of None \<Rightarrow> 0 | Some v \<Rightarrow> v)"

definition FR_BIT_WIDTH :: nat where "FR_BIT_WIDTH = 254"
definition FR_BIT_WIDTH_PADDED :: nat where "FR_BIT_WIDTH_PADDED = 256"
definition MAX_CIRCUIT_MSG_HASH_BITS :: nat where "MAX_CIRCUIT_MSG_HASH_BITS = 736"

definition get_state_root :: "circuit_lib \<Rightarrow> circuit_account \<Rightarrow> fr" where
  "get_state_root l acc = cx_hash_elements l [cx_balance_root_hash l (ca_subtree acc), 0]"

definition circuit_account_bits :: "circuit_lib \<Rightarrow> circuit_account \<Rightarrow> bool list" where
  "circuit_account_bits l acc =
    fr_bits_le_fixed (ca_nonce acc) NONCE_BIT_WIDTH @ fr_bits_le_fixed (ca_pub_key_hash acc) NEW_PUBKEY_HASH_WIDTH @
    fr_bits_le_fixed (ca_address acc) ADDRESS_WIDTH @
    resize FR_BIT_WIDTH_PADDED False (fr_bits_le_fixed (get_state_root l acc) FR_BIT_WIDTH)"

text \<open>@CircuitAccount::from(Account)@, for the tree of the accounts of a state.\<close>

definition circuit_account_from :: "circuit_lib \<Rightarrow> account \<Rightarrow> ('e, circuit_account) res" where
  "circuit_account_from l acc =
    res_bind (assert_that (\<forall>t \<in> fset (fmdom (acc_balances acc)). unat t < 2 ^ balance_tree_depth)) (\<lambda>_.
    res_bind (fr_from_hex l (unat (acc_pub_key_hash acc))) (\<lambda>pub_key_hash.
    res_bind (fr_from_hex l (unat (acc_address acc))) (\<lambda>address.
      Ok \<lparr>ca_subtree = (\<lambda>t. map_option (fr_from_str l) (fmlookup (acc_balances acc) t)),
        ca_nonce = fr_from_str l (unat (acc_nonce acc)), ca_pub_key_hash = pub_key_hash, ca_address = address\<rparr>)))"

section \<open>Branches of an operation\<close>

record account_witness =
  aw_nonce :: fr
  aw_pub_key_hash :: fr
  aw_address :: fr

definition account_witness_from :: "circuit_account \<Rightarrow> account_witness" where
  "account_witness_from a = \<lparr>aw_nonce = ca_nonce a, aw_pub_key_hash = ca_pub_key_hash a, aw_address = ca_address a\<rparr>"

record operation_branch_witness =
  obw_account_witness :: account_witness
  obw_account_path :: "fr list"
  obw_balance_value :: fr
  obw_balance_subtree_path :: "fr list"

record operation_branch =
  ob_address :: fr
  ob_token :: fr
  ob_witness :: operation_branch_witness

record operation_arguments =
  oa_a :: fr
  oa_b :: fr
  oa_amount_packed :: fr
  oa_full_amount :: fr
  oa_fee :: fr
  oa_new_pub_key_hash :: fr
  oa_eth_address :: fr
  oa_pub_nonce :: fr

definition no_arguments :: operation_arguments where
  "no_arguments = \<lparr>oa_a = 0, oa_b = 0, oa_amount_packed = 0, oa_full_amount = 0, oa_fee = 0, oa_new_pub_key_hash = 0,
    oa_eth_address = 0, oa_pub_nonce = 0\<rparr>"

record signature_data =
  sgd_r_packed :: "bool list"
  sgd_s :: "bool list"

definition init_empty :: signature_data where
  "init_empty = \<lparr>sgd_r_packed = replicate 256 False, sgd_s = replicate 256 False\<rparr>"

record sig_data_input =
  sdi_first_sig_msg :: fr
  sdi_second_sig_msg :: fr
  sdi_third_sig_msg :: fr
  sdi_signature :: signature_data
  sdi_signer_pub_key_packed :: "bool list"

text \<open>The values for an operation without a signature.\<close>

definition no_signature :: sig_data_input where
  "no_signature = \<lparr>sdi_first_sig_msg = 0, sdi_second_sig_msg = 0, sdi_third_sig_msg = 0, sdi_signature = init_empty,
    sdi_signer_pub_key_packed = replicate 256 False\<rparr>"

record circuit_operation =
  co_new_root :: fr
  co_tx_type :: fr
  co_chunk :: fr
  co_pubdata_chunk :: fr
  co_sig_data :: sig_data_input
  co_args :: operation_arguments
  co_lhs :: operation_branch
  co_rhs :: operation_branch

text \<open>The audit paths of an account and of a balance; @merkle_path@ checks the index.\<close>

definition get_audits :: "circuit_lib \<Rightarrow> circuit_tree \<Rightarrow> account_id \<Rightarrow> token_id \<Rightarrow> ('e, fr list \<times> fr list) res" where
  "get_audits l tree account_address token =
    res_map (\<lambda>_. (cx_account_path l tree account_address, cx_balance_path l (ca_subtree (tree_leaf tree account_address)) token))
      (assert_that (unat token < 2 ^ balance_tree_depth))"

definition branch :: "circuit_lib \<Rightarrow> account_id \<Rightarrow> token_id \<Rightarrow> account_witness \<Rightarrow> fr \<Rightarrow> fr list \<times> fr list \<Rightarrow> operation_branch" where
  "branch l account_address token account_witness value audits =
    \<lparr>ob_address = fr_from_str l (unat account_address), ob_token = fr_from_str l (unat token),
     ob_witness = \<lparr>obw_account_witness = account_witness, obw_account_path = fst audits, obw_balance_value = value,
       obw_balance_subtree_path = snd audits\<rparr>\<rparr>"

text \<open>The account and the balance before and after.\<close>

record leaf_change =
  lc_account_before :: account_witness
  lc_account_after :: account_witness
  lc_balance_before :: fr
  lc_balance_after :: fr

definition apply_leaf_operation ::
  "circuit_tree \<Rightarrow> account_id \<Rightarrow> token_id \<Rightarrow> (circuit_account \<Rightarrow> ('e, circuit_account) res) \<Rightarrow> (fr \<Rightarrow> fr)
    \<Rightarrow> ('e, leaf_change \<times> circuit_tree) res" where
  "apply_leaf_operation tree account_address token fa fb =
    (let account = tree_leaf tree account_address;
         account_witness_before = account_witness_from account;
         balance_before = balance_value (ca_subtree account) token;
         balance_after = fb balance_before in
     res_bind (assert_that (unat token < 2 ^ balance_tree_depth)) (\<lambda>_.
     let account = account\<lparr>ca_subtree := (ca_subtree account)(token \<mapsto> balance_after)\<rparr> in
     res_bind (fa account) (\<lambda>account.
       Ok (\<lparr>lc_account_before = account_witness_before, lc_account_after = account_witness_from account,
            lc_balance_before = balance_before, lc_balance_after = balance_after\<rparr>, tree(account_address \<mapsto> account)))))"

section \<open>Witnesses\<close>

text \<open>The witnesses of the operations on one account all have these fields, and are made in the same way.\<close>

record single_witness =
  sw_before :: operation_branch
  sw_after :: operation_branch
  sw_args :: operation_arguments
  sw_before_root :: fr
  sw_after_root :: fr
  sw_tx_type :: fr

definition apply_single ::
  "circuit_lib \<Rightarrow> circuit_tree \<Rightarrow> account_id \<Rightarrow> token_id \<Rightarrow> (circuit_account \<Rightarrow> ('e, circuit_account) res) \<Rightarrow> (fr \<Rightarrow> fr)
    \<Rightarrow> (fr \<Rightarrow> operation_arguments) \<Rightarrow> nat \<Rightarrow> ('e, single_witness \<times> circuit_tree) res" where
  "apply_single l tree i token fa fb args tx_type =
    res_bind (get_audits l tree i token) (\<lambda>audits_before.
    res_bind (apply_leaf_operation tree i token fa fb) (\<lambda>(change, tree').
    res_bind (get_audits l tree' i token) (\<lambda>audits_after.
      Ok (\<lparr>sw_before = branch l i token (lc_account_before change) (lc_balance_before change) audits_before,
           sw_after = branch l i token (lc_account_after change) (lc_balance_after change) audits_after,
           sw_args = args (lc_balance_before change), sw_before_root = cx_root_hash l tree,
           sw_after_root = cx_root_hash l tree', sw_tx_type = fr_from_str l tx_type\<rparr>, tree'))))"

text \<open>Those of the operations on two accounts, which are changed one after the other.\<close>

record pair_witness =
  pw_from_before :: operation_branch
  pw_from_intermediate :: operation_branch
  pw_from_after :: operation_branch
  pw_to_before :: operation_branch
  pw_to_intermediate :: operation_branch
  pw_to_after :: operation_branch
  pw_args :: operation_arguments
  pw_before_root :: fr
  pw_intermediate_root :: fr
  pw_after_root :: fr
  pw_tx_type :: fr

definition apply_pair ::
  "circuit_lib \<Rightarrow> circuit_tree \<Rightarrow> account_id \<Rightarrow> account_id \<Rightarrow> token_id
    \<Rightarrow> (circuit_account \<Rightarrow> ('e, circuit_account) res) \<Rightarrow> (fr \<Rightarrow> fr) \<Rightarrow> (circuit_account \<Rightarrow> ('e, circuit_account) res) \<Rightarrow> (fr \<Rightarrow> fr)
    \<Rightarrow> (fr \<Rightarrow> operation_arguments) \<Rightarrow> nat \<Rightarrow> ('e, pair_witness \<times> circuit_tree) res" where
  "apply_pair l tree from to token fa fb ga gb args tx_type =
    res_bind (get_audits l tree from token) (\<lambda>from_before.
    res_bind (get_audits l tree to token) (\<lambda>to_before.
    res_bind (apply_leaf_operation tree from token fa fb) (\<lambda>(from_change, tree').
    res_bind (get_audits l tree' from token) (\<lambda>from_intermediate.
    res_bind (get_audits l tree' to token) (\<lambda>to_intermediate.
    res_bind (apply_leaf_operation tree' to token ga gb) (\<lambda>(to_change, tree'').
    res_bind (get_audits l tree'' from token) (\<lambda>from_after.
    res_bind (get_audits l tree'' to token) (\<lambda>to_after.
      Ok (\<lparr>pw_from_before = branch l from token (lc_account_before from_change) (lc_balance_before from_change) from_before,
           pw_from_intermediate = branch l from token (lc_account_after from_change) (lc_balance_after from_change) from_intermediate,
           pw_from_after = branch l from token (lc_account_after from_change) (lc_balance_after from_change) from_after,
           pw_to_before = branch l to token (lc_account_before to_change) (lc_balance_before to_change) to_before,
           pw_to_intermediate = branch l to token (lc_account_before to_change) (lc_balance_before to_change) to_intermediate,
           pw_to_after = branch l to token (lc_account_after to_change) (lc_balance_after to_change) to_after,
           pw_args = args (lc_balance_before from_change), pw_before_root = cx_root_hash l tree,
           pw_intermediate_root = cx_root_hash l tree', pw_after_root = cx_root_hash l tree'',
           pw_tx_type = fr_from_str l tx_type\<rparr>, tree'')))))))))"

text \<open>@to_u128@ and @to_float@ with their @unwrap@.\<close>

definition amount_u128 :: "nat \<Rightarrow> ('e, nat) res" where
  "amount_u128 n = (if n < 2 ^ 128 then Ok n else Panic)"

definition float_encoded :: "circuit_lib \<Rightarrow> nat \<Rightarrow> nat \<Rightarrow> nat \<Rightarrow> ('e, fr) res" where
  "float_encoded l n exponent_width mantissa_width =
    res_map (le_bit_vector_into_field_element l) (unwrap (to_float n exponent_width mantissa_width 10))"

definition amount_encoded :: "circuit_lib \<Rightarrow> nat \<Rightarrow> ('e, fr) res" where
  "amount_encoded l n = float_encoded l n AMOUNT_EXPONENT_BIT_WIDTH AMOUNT_MANTISSA_BIT_WIDTH"

definition fee_encoded :: "circuit_lib \<Rightarrow> nat \<Rightarrow> ('e, fr) res" where
  "fee_encoded l n = float_encoded l n FEE_EXPONENT_BIT_WIDTH FEE_MANTISSA_BIT_WIDTH"

definition increment_nonce :: "circuit_lib \<Rightarrow> circuit_account \<Rightarrow> ('e, circuit_account) res" where
  "increment_nonce l acc = Ok (acc\<lparr>ca_nonce := add_assign l (ca_nonce acc) (fr_from_str l 1)\<rparr>)"

section \<open>Applying operations\<close>

text \<open>For every operation its data, @apply_data@, and @apply_tx@, which takes the data from the operation.\<close>

record deposit_data =
  dpd_amount :: nat
  dpd_token :: token_id
  dpd_account_address :: account_id
  dpd_address :: fr

definition deposit_apply_data :: "circuit_lib \<Rightarrow> circuit_tree \<Rightarrow> deposit_data \<Rightarrow> ('e, single_witness \<times> circuit_tree) res" where
  "deposit_apply_data l tree deposit =
    (let amount = fr_from_str l (dpd_amount deposit); address = dpd_address deposit in
     apply_single l tree (dpd_account_address deposit) (dpd_token deposit)
       (\<lambda>acc. res_map (\<lambda>_. acc\<lparr>ca_address := address\<rparr>) (assert_that (ca_address acc = address \<or> ca_address acc = 0)))
       (\<lambda>bal. add_assign l bal amount)
       (\<lambda>balance_before. no_arguments\<lparr>oa_eth_address := address, oa_full_amount := amount, oa_a := amount\<rparr>) 1)"

definition deposit_witness :: "circuit_lib \<Rightarrow> circuit_tree \<Rightarrow> deposit_op \<Rightarrow> ('e, single_witness \<times> circuit_tree) res" where
  "deposit_witness l tree deposit =
    (let d = depop_priority_op deposit in
     res_bind (amount_u128 (dep_amount d)) (\<lambda>amount.
     res_bind (fr_from_hex l (unat (dep_to d))) (\<lambda>address.
       deposit_apply_data l tree \<lparr>dpd_amount = amount, dpd_token = dep_token d,
         dpd_account_address = depop_account_id deposit, dpd_address = address\<rparr>)))"

record withdraw_data =
  wdd_amount :: nat
  wdd_fee :: nat
  wdd_token :: token_id
  wdd_account_address :: account_id
  wdd_eth_address :: fr

definition withdraw_apply_data :: "circuit_lib \<Rightarrow> circuit_tree \<Rightarrow> withdraw_data \<Rightarrow> ('e, single_witness \<times> circuit_tree) res" where
  "withdraw_apply_data l tree withdraw =
    (let amount = fr_from_str l (wdd_amount withdraw); fee = fr_from_str l (wdd_fee withdraw) in
     res_bind (amount_encoded l (wdd_amount withdraw)) (\<lambda>amount_packed.
     res_bind (fee_encoded l (wdd_fee withdraw)) (\<lambda>fee_packed.
       apply_single l tree (wdd_account_address withdraw) (wdd_token withdraw) (increment_nonce l)
         (\<lambda>bal. sub_assign l (sub_assign l bal amount) fee)
         (\<lambda>balance_before. no_arguments\<lparr>oa_eth_address := wdd_eth_address withdraw, oa_amount_packed := amount_packed,
           oa_full_amount := amount, oa_fee := fee_packed, oa_a := balance_before, oa_b := add_assign l amount fee\<rparr>) 3)))"

definition withdraw_witness :: "circuit_lib \<Rightarrow> circuit_tree \<Rightarrow> withdraw_op \<Rightarrow> ('e, single_witness \<times> circuit_tree) res" where
  "withdraw_witness l tree withdraw =
    (let tx = wdop_tx withdraw in
     res_bind (amount_u128 (wd_amount tx)) (\<lambda>amount.
     res_bind (amount_u128 (wd_fee tx)) (\<lambda>fee.
     res_bind (fr_from_hex l (unat (wd_to tx))) (\<lambda>eth_address.
       withdraw_apply_data l tree \<lparr>wdd_amount = amount, wdd_fee = fee, wdd_token = wd_token tx,
         wdd_account_address = wdop_account_id withdraw, wdd_eth_address = eth_address\<rparr>))))"

record full_exit_data =
  fxd_token :: token_id
  fxd_account_address :: account_id
  fxd_eth_address :: fr
  fxd_full_exit_amount :: fr

definition full_exit_apply_data ::
  "circuit_lib \<Rightarrow> circuit_tree \<Rightarrow> full_exit_data \<Rightarrow> bool \<Rightarrow> ('e, single_witness \<times> circuit_tree) res" where
  "full_exit_apply_data l tree full_exit is_success =
    apply_single l tree (fxd_account_address full_exit) (fxd_token full_exit) Ok (\<lambda>bal. if is_success then 0 else bal)
      (\<lambda>balance_before. no_arguments\<lparr>oa_eth_address := fxd_eth_address full_exit,
        oa_full_amount := fxd_full_exit_amount full_exit, oa_a := balance_before\<rparr>) 6"

definition full_exit_witness :: "circuit_lib \<Rightarrow> circuit_tree \<Rightarrow> full_exit_op \<times> bool \<Rightarrow> ('e, single_witness \<times> circuit_tree) res" where
  "full_exit_witness l tree op = (case op of (full_exit, is_success) \<Rightarrow>
    let f = fxop_priority_op full_exit in
     res_bind (fr_from_hex l (unat (fx_eth_address f))) (\<lambda>eth_address.
       full_exit_apply_data l tree \<lparr>fxd_token = fx_token f, fxd_account_address = fx_account_id f, fxd_eth_address = eth_address,
         fxd_full_exit_amount = (case fxop_withdraw_amount full_exit of Some amount \<Rightarrow> fr_from_str l amount | None \<Rightarrow> 0)\<rparr> is_success))"

record change_pubkey_data =
  cpd_account_id :: account_id
  cpd_address :: fr
  cpd_new_pubkey_hash :: fr
  cpd_fee_token :: token_id
  cpd_fee :: nat
  cpd_nonce :: fr

definition change_pubkey_apply_data ::
  "circuit_lib \<Rightarrow> circuit_tree \<Rightarrow> change_pubkey_data \<Rightarrow> ('e, single_witness \<times> circuit_tree) res" where
  "change_pubkey_apply_data l tree d =
    (let fee = fr_from_str l (cpd_fee d) in
     res_bind (fee_encoded l (cpd_fee d)) (\<lambda>fee_packed.
       apply_single l tree (cpd_account_id d) (cpd_fee_token d)
         (\<lambda>acc. res_bind (assert_that (ca_address acc = cpd_address d)) (\<lambda>_.
           increment_nonce l (acc\<lparr>ca_pub_key_hash := cpd_new_pubkey_hash d\<rparr>)))
         (\<lambda>bal. sub_assign l bal fee)
         (\<lambda>balance_before. no_arguments\<lparr>oa_eth_address := cpd_address d, oa_fee := fee_packed, oa_a := balance_before, oa_b := fee,
           oa_pub_nonce := cpd_nonce d, oa_new_pub_key_hash := cpd_new_pubkey_hash d\<rparr>) 7))"

definition change_pubkey_witness :: "circuit_lib \<Rightarrow> circuit_tree \<Rightarrow> change_pub_key_op \<Rightarrow> ('e, single_witness \<times> circuit_tree) res" where
  "change_pubkey_witness l tree op =
    (let tx = cpop_tx op in
     res_bind (fr_from_hex l (unat (cp_account tx))) (\<lambda>address.
     res_bind (fr_from_hex l (unat (cp_new_pk_hash tx))) (\<lambda>new_pubkey_hash.
     res_bind (amount_u128 (cp_fee tx)) (\<lambda>fee.
       change_pubkey_apply_data l tree \<lparr>cpd_account_id = cpop_account_id op, cpd_address = address,
         cpd_new_pubkey_hash = new_pubkey_hash, cpd_fee_token = cp_fee_token tx, cpd_fee = fee,
         cpd_nonce = fr_from_str l (unat (cp_nonce tx))\<rparr>))))"

definition close_account_apply_data :: "circuit_lib \<Rightarrow> circuit_tree \<Rightarrow> account_id \<Rightarrow> ('e, single_witness \<times> circuit_tree) res" where
  "close_account_apply_data l tree account_address =
    apply_single l tree account_address 0 (\<lambda>acc. Ok (acc\<lparr>ca_pub_key_hash := 0, ca_nonce := 0\<rparr>)) (\<lambda>bal. bal)
      (\<lambda>balance_before. no_arguments) 4"

definition close_account_witness :: "circuit_lib \<Rightarrow> circuit_tree \<Rightarrow> close_op \<Rightarrow> ('e, single_witness \<times> circuit_tree) res" where
  "close_account_witness l tree op = close_account_apply_data l tree (clop_account_id op)"

record transfer_data =
  trd_amount :: nat
  trd_fee :: nat
  trd_token :: token_id
  trd_from_account_address :: account_id
  trd_to_account_address :: account_id

text \<open>What both transfers do to the sender.\<close>

definition transfer_apply_with ::
  "circuit_lib \<Rightarrow> circuit_tree \<Rightarrow> transfer_data \<Rightarrow> (circuit_account \<Rightarrow> ('e, circuit_account) res) \<Rightarrow> fr \<Rightarrow> nat
    \<Rightarrow> ('e, pair_witness \<times> circuit_tree) res" where
  "transfer_apply_with l tree transfer ga eth_address tx_type =
    (let amount = fr_from_str l (trd_amount transfer); fee = fr_from_str l (trd_fee transfer) in
     res_bind (amount_encoded l (trd_amount transfer)) (\<lambda>amount_packed.
     res_bind (fee_encoded l (trd_fee transfer)) (\<lambda>fee_packed.
       apply_pair l tree (trd_from_account_address transfer) (trd_to_account_address transfer) (trd_token transfer)
         (increment_nonce l) (\<lambda>bal. sub_assign l (sub_assign l bal amount) fee) ga (\<lambda>bal. add_assign l bal amount)
         (\<lambda>balance_before. no_arguments\<lparr>oa_eth_address := eth_address, oa_amount_packed := amount_packed, oa_full_amount := amount,
           oa_fee := fee_packed, oa_a := balance_before, oa_b := add_assign l amount fee\<rparr>) tx_type)))"

definition transfer_apply_data :: "circuit_lib \<Rightarrow> circuit_tree \<Rightarrow> transfer_data \<Rightarrow> ('e, pair_witness \<times> circuit_tree) res" where
  "transfer_apply_data l tree transfer = transfer_apply_with l tree transfer Ok 0 5"

definition transfer_witness :: "circuit_lib \<Rightarrow> circuit_tree \<Rightarrow> transfer_op \<Rightarrow> ('e, pair_witness \<times> circuit_tree) res" where
  "transfer_witness l tree op =
    (let tx = trop_tx op in
     res_bind (amount_u128 (tr_amount tx)) (\<lambda>amount.
     res_bind (amount_u128 (tr_fee tx)) (\<lambda>fee.
       transfer_apply_data l tree \<lparr>trd_amount = amount, trd_fee = fee, trd_token = tr_token tx,
         trd_from_account_address = trop_from op, trd_to_account_address = trop_to op\<rparr>)))"

record transfer_to_new_data = transfer_data +
  tnd_new_address :: fr

definition transfer_to_new_apply_data ::
  "circuit_lib \<Rightarrow> circuit_tree \<Rightarrow> transfer_to_new_data \<Rightarrow> ('e, pair_witness \<times> circuit_tree) res" where
  "transfer_to_new_apply_data l tree d =
    transfer_apply_with l tree (transfer_data.truncate d)
      (\<lambda>acc. res_map (\<lambda>_. acc\<lparr>ca_address := tnd_new_address d\<rparr>) (assert_that (ca_address acc = 0))) (tnd_new_address d) 2"

definition transfer_to_new_witness :: "circuit_lib \<Rightarrow> circuit_tree \<Rightarrow> transfer_to_new_op \<Rightarrow> ('e, pair_witness \<times> circuit_tree) res" where
  "transfer_to_new_witness l tree op =
    (let tx = tnop_tx op in
     res_bind (amount_u128 (tr_amount tx)) (\<lambda>amount.
     res_bind (amount_u128 (tr_fee tx)) (\<lambda>fee.
     res_bind (fr_from_hex l (unat (tr_to tx))) (\<lambda>new_address.
       transfer_to_new_apply_data l tree \<lparr>trd_amount = amount, trd_fee = fee, trd_token = tr_token tx,
         trd_from_account_address = tnop_from op, trd_to_account_address = tnop_to op, tnd_new_address = new_address\<rparr>))))"

record forced_exit_data =
  fed_amount :: nat
  fed_fee :: nat
  fed_token :: token_id
  fed_initiator_account_address :: account_id
  fed_target_account_address :: account_id
  fed_target_account_eth_address :: fr

definition forced_exit_apply_data :: "circuit_lib \<Rightarrow> circuit_tree \<Rightarrow> forced_exit_data \<Rightarrow> ('e, pair_witness \<times> circuit_tree) res" where
  "forced_exit_apply_data l tree d =
    (let amount = fr_from_str l (fed_amount d); fee = fr_from_str l (fed_fee d) in
     res_bind (amount_encoded l (fed_amount d)) (\<lambda>amount_packed.
     res_bind (fee_encoded l (fed_fee d)) (\<lambda>fee_packed.
       apply_pair l tree (fed_initiator_account_address d) (fed_target_account_address d) (fed_token d)
         (increment_nonce l) (\<lambda>bal. sub_assign l bal fee) Ok (\<lambda>bal. sub_assign l bal amount)
         (\<lambda>balance_before. no_arguments\<lparr>oa_eth_address := fed_target_account_eth_address d, oa_amount_packed := amount_packed,
           oa_full_amount := amount, oa_fee := fee_packed, oa_a := balance_before, oa_b := fee\<rparr>) 8)))"

definition forced_exit_witness :: "circuit_lib \<Rightarrow> circuit_tree \<Rightarrow> forced_exit_op \<Rightarrow> ('e, pair_witness \<times> circuit_tree) res" where
  "forced_exit_witness l tree op =
    (let tx = feop_tx op in
     res_bind (amount_u128 (case feop_withdraw_amount op of None \<Rightarrow> 0 | Some a \<Rightarrow> a)) (\<lambda>amount.
     res_bind (amount_u128 (fe_fee tx)) (\<lambda>fee.
     res_bind (fr_from_hex l (unat (fe_target tx))) (\<lambda>target_address.
       forced_exit_apply_data l tree \<lparr>fed_amount = amount, fed_fee = fee, fed_token = fe_token tx,
         fed_initiator_account_address = fe_initiator_account_id tx, fed_target_account_address = feop_target_account_id op,
         fed_target_account_eth_address = target_address\<rparr>))))"

section \<open>Public data\<close>

text \<open>The fields, most significant bit first, and zeros up to the chunks of the operation.\<close>

definition pubdata_bits :: "nat \<Rightarrow> (fr \<times> nat) list \<Rightarrow> ('e, bool list) res" where
  "pubdata_bits n fs = resize_grow_only (foldl (\<lambda>content (x, width). append_be_fixed_width content x width) [] fs) (n * CHUNK_BIT_WIDTH) False"

definition amount_width :: nat where "amount_width = AMOUNT_MANTISSA_BIT_WIDTH + AMOUNT_EXPONENT_BIT_WIDTH"
definition fee_width :: nat where "fee_width = FEE_MANTISSA_BIT_WIDTH + FEE_EXPONENT_BIT_WIDTH"

definition deposit_pubdata :: "single_witness \<Rightarrow> ('e, bool list) res" where
  "deposit_pubdata w = pubdata_bits DEPOSIT_CHUNKS
    [(sw_tx_type w, TX_TYPE_BIT_WIDTH), (ob_address (sw_before w), ACCOUNT_ID_BIT_WIDTH), (ob_token (sw_before w), TOKEN_BIT_WIDTH),
     (oa_full_amount (sw_args w), BALANCE_BIT_WIDTH), (oa_eth_address (sw_args w), ETH_ADDRESS_BIT_WIDTH)]"

definition withdraw_pubdata :: "single_witness \<Rightarrow> ('e, bool list) res" where
  "withdraw_pubdata w = pubdata_bits WITHDRAW_CHUNKS
    [(sw_tx_type w, TX_TYPE_BIT_WIDTH), (ob_address (sw_before w), ACCOUNT_ID_BIT_WIDTH), (ob_token (sw_before w), TOKEN_BIT_WIDTH),
     (oa_full_amount (sw_args w), BALANCE_BIT_WIDTH), (oa_fee (sw_args w), fee_width), (oa_eth_address (sw_args w), ETH_ADDRESS_BIT_WIDTH)]"

definition full_exit_pubdata :: "single_witness \<Rightarrow> ('e, bool list) res" where
  "full_exit_pubdata w = pubdata_bits FULL_EXIT_CHUNKS
    [(sw_tx_type w, TX_TYPE_BIT_WIDTH), (ob_address (sw_before w), ACCOUNT_ID_BIT_WIDTH), (oa_eth_address (sw_args w), ETH_ADDRESS_BIT_WIDTH),
     (ob_token (sw_before w), TOKEN_BIT_WIDTH), (oa_full_amount (sw_args w), BALANCE_BIT_WIDTH)]"

definition change_pubkey_pubdata :: "single_witness \<Rightarrow> ('e, bool list) res" where
  "change_pubkey_pubdata w = pubdata_bits CHANGE_PUBKEY_CHUNKS
    [(sw_tx_type w, TX_TYPE_BIT_WIDTH), (ob_address (sw_before w), ACCOUNT_ID_BIT_WIDTH),
     (oa_new_pub_key_hash (sw_args w), NEW_PUBKEY_HASH_WIDTH), (oa_eth_address (sw_args w), ETH_ADDRESS_BIT_WIDTH),
     (aw_nonce (obw_account_witness (ob_witness (sw_before w))), NONCE_BIT_WIDTH), (ob_token (sw_before w), TOKEN_BIT_WIDTH),
     (oa_fee (sw_args w), fee_width)]"

definition close_account_pubdata :: "single_witness \<Rightarrow> ('e, bool list) res" where
  "close_account_pubdata w = pubdata_bits CLOSE_CHUNKS
    [(sw_tx_type w, TX_TYPE_BIT_WIDTH), (ob_address (sw_before w), ACCOUNT_ID_BIT_WIDTH)]"

definition transfer_pubdata :: "pair_witness \<Rightarrow> ('e, bool list) res" where
  "transfer_pubdata w = pubdata_bits TRANSFER_CHUNKS
    [(pw_tx_type w, TX_TYPE_BIT_WIDTH), (ob_address (pw_from_before w), ACCOUNT_ID_BIT_WIDTH), (ob_token (pw_from_before w), TOKEN_BIT_WIDTH),
     (ob_address (pw_to_before w), ACCOUNT_ID_BIT_WIDTH), (oa_amount_packed (pw_args w), amount_width), (oa_fee (pw_args w), fee_width)]"

definition transfer_to_new_pubdata :: "pair_witness \<Rightarrow> ('e, bool list) res" where
  "transfer_to_new_pubdata w = pubdata_bits TRANSFER_TO_NEW_CHUNKS
    [(pw_tx_type w, TX_TYPE_BIT_WIDTH), (ob_address (pw_from_before w), ACCOUNT_ID_BIT_WIDTH), (ob_token (pw_from_before w), TOKEN_BIT_WIDTH),
     (oa_amount_packed (pw_args w), amount_width), (oa_eth_address (pw_args w), ETH_ADDRESS_BIT_WIDTH),
     (ob_address (pw_to_before w), ACCOUNT_ID_BIT_WIDTH), (oa_fee (pw_args w), fee_width)]"

definition forced_exit_pubdata :: "pair_witness \<Rightarrow> ('e, bool list) res" where
  "forced_exit_pubdata w = pubdata_bits FORCED_EXIT_CHUNKS
    [(pw_tx_type w, TX_TYPE_BIT_WIDTH), (ob_address (pw_from_before w), ACCOUNT_ID_BIT_WIDTH), (ob_address (pw_to_before w), ACCOUNT_ID_BIT_WIDTH),
     (ob_token (pw_from_before w), TOKEN_BIT_WIDTH), (oa_full_amount (pw_args w), BALANCE_BIT_WIDTH), (oa_fee (pw_args w), fee_width),
     (oa_eth_address (pw_args w), ETH_ADDRESS_BIT_WIDTH)]"

section \<open>Operations of the circuit\<close>

definition pubdata_chunks :: "circuit_lib \<Rightarrow> bool list \<Rightarrow> fr list" where
  "pubdata_chunks l pub_bits = map (le_bit_vector_into_field_element l) (chunks CHUNK_BIT_WIDTH pub_bits)"

definition chunk_operation ::
  "circuit_lib \<Rightarrow> sig_data_input \<Rightarrow> operation_arguments \<Rightarrow> fr \<Rightarrow> fr \<Rightarrow> nat \<times> fr \<Rightarrow> operation_branch \<Rightarrow> operation_branch \<Rightarrow> circuit_operation" where
  "chunk_operation l input args tx_type new_root chunk lhs rhs =
    \<lparr>co_new_root = new_root, co_tx_type = tx_type, co_chunk = fr_from_str l (fst chunk), co_pubdata_chunk = snd chunk,
     co_sig_data = input, co_args = args, co_lhs = lhs, co_rhs = rhs\<rparr>"

text \<open>The @calculate_operations@ of the operations on one account: chunk 0 with the branch before, the chunks up to @n@ with
  the branch after.  The public data has at least @n@ chunks.\<close>

definition single_operations ::
  "circuit_lib \<Rightarrow> nat \<Rightarrow> sig_data_input \<Rightarrow> single_witness \<Rightarrow> bool list \<Rightarrow> circuit_operation list" where
  "single_operations l n input w pub_bits =
    (let operation = (\<lambda>chunk b. chunk_operation l input (sw_args w) (sw_tx_type w) (sw_after_root w)
           (chunk, pubdata_chunks l pub_bits ! chunk) b b)
     in operation 0 (sw_before w) # map (\<lambda>chunk. operation chunk (sw_after w)) [1..<n])"

definition deposit_operations :: "circuit_lib \<Rightarrow> single_witness \<Rightarrow> bool list \<Rightarrow> circuit_operation list" where
  "deposit_operations l = single_operations l DEPOSIT_CHUNKS no_signature"

definition withdraw_operations :: "circuit_lib \<Rightarrow> sig_data_input \<Rightarrow> single_witness \<Rightarrow> bool list \<Rightarrow> circuit_operation list" where
  "withdraw_operations l = single_operations l WITHDRAW_CHUNKS"

definition close_account_operations :: "circuit_lib \<Rightarrow> sig_data_input \<Rightarrow> single_witness \<Rightarrow> bool list \<Rightarrow> circuit_operation list" where
  "close_account_operations l = single_operations l 1"

definition full_exit_operations :: "circuit_lib \<Rightarrow> single_witness \<Rightarrow> bool list \<Rightarrow> circuit_operation list" where
  "full_exit_operations l = single_operations l 6 no_signature"

text \<open>For a new public key every chunk has both branches.\<close>

definition change_pubkey_operations :: "circuit_lib \<Rightarrow> sig_data_input \<Rightarrow> single_witness \<Rightarrow> bool list \<Rightarrow> circuit_operation list" where
  "change_pubkey_operations l input w pub_bits =
    map (\<lambda>chunk. chunk_operation l input (sw_args w) (sw_tx_type w) (sw_after_root w) chunk (sw_before w) (sw_after w))
      (enumerate 0 (pubdata_chunks l pub_bits))"

text \<open>On two accounts: chunk 0 before the first change, chunk 1 between the changes, the rest after both.\<close>

definition pair_operations ::
  "circuit_lib \<Rightarrow> nat \<Rightarrow> sig_data_input \<Rightarrow> pair_witness \<Rightarrow> bool list \<Rightarrow> circuit_operation list" where
  "pair_operations l n input w pub_bits =
    (let operation = (\<lambda>root chunk. chunk_operation l input (pw_args w) (pw_tx_type w) root (chunk, pubdata_chunks l pub_bits ! chunk))
     in operation (pw_intermediate_root w) 0 (pw_from_before w) (pw_to_before w)
        # operation (pw_after_root w) 1 (pw_from_intermediate w) (pw_to_intermediate w)
        # map (\<lambda>chunk. operation (pw_after_root w) chunk (pw_from_after w) (pw_to_after w)) [2..<n])"

definition transfer_operations :: "circuit_lib \<Rightarrow> sig_data_input \<Rightarrow> pair_witness \<Rightarrow> bool list \<Rightarrow> circuit_operation list" where
  "transfer_operations l = pair_operations l 2"

text \<open>The loop of a transfer to a new account counts the chunks of another operation.\<close>

definition transfer_to_new_operations :: "circuit_lib \<Rightarrow> sig_data_input \<Rightarrow> pair_witness \<Rightarrow> bool list \<Rightarrow> circuit_operation list" where
  "transfer_to_new_operations l = pair_operations l CHANGE_PUBKEY_CHUNKS"

definition forced_exit_operations :: "circuit_lib \<Rightarrow> sig_data_input \<Rightarrow> pair_witness \<Rightarrow> bool list \<Rightarrow> circuit_operation list" where
  "forced_exit_operations l = pair_operations l FORCED_EXIT_CHUNKS"

definition noop_operation :: "circuit_lib \<Rightarrow> circuit_tree \<Rightarrow> account_id \<Rightarrow> ('e, circuit_operation) res" where
  "noop_operation l tree acc_id =
    res_bind (expect (tree acc_id)) (\<lambda>acc.
    res_bind (get_audits l tree acc_id 0) (\<lambda>audits.
      let b = branch l acc_id 0 (account_witness_from acc) (balance_value (ca_subtree acc) 0) audits;
          chunk = le_bit_vector_into_field_element l (replicate CHUNK_BIT_WIDTH False)
      in Ok (chunk_operation l no_signature no_arguments (fr_from_str l 0) (cx_root_hash l tree) (0, chunk) b b)))"

section \<open>Signatures\<close>

definition generate_sig_witness :: "circuit_lib \<Rightarrow> bool list \<Rightarrow> ('e, fr \<times> fr \<times> fr) res" where
  "generate_sig_witness l bits =
    res_bind (assert_that (size bits < MAX_CIRCUIT_MSG_HASH_BITS)) (\<lambda>_.
    let sig_bits_to_hash = resize MAX_CIRCUIT_MSG_HASH_BITS False bits; capacity = cx_capacity l in
    res_bind (assert_that (2 * capacity \<le> MAX_CIRCUIT_MSG_HASH_BITS)) (\<lambda>_.
    let remaining = drop capacity sig_bits_to_hash;
        fe = le_bit_vector_into_field_element l
    in Ok (fe (take capacity sig_bits_to_hash), fe (take capacity remaining), fe (drop capacity remaining))))"

definition sig_data_input_new :: "circuit_lib \<Rightarrow> byte list \<Rightarrow> byte list \<Rightarrow> 256 word \<Rightarrow> (error, sig_data_input) res" where
  "sig_data_input_new l sig_bytes tx_bytes pub_key =
    res_bind (assert_that (32 \<le> size sig_bytes)) (\<lambda>_.
    res_bind (generate_sig_witness l (from_be_bytes tx_bytes)) (\<lambda>(first_sig_msg, second_sig_msg, third_sig_msg).
    res_bind (cx_serialize_pub_key l pub_key) (\<lambda>signer_packed_key_bytes.
      Ok \<lparr>sdi_first_sig_msg = first_sig_msg, sdi_second_sig_msg = second_sig_msg, sdi_third_sig_msg = third_sig_msg,
        sdi_signature = \<lparr>sgd_r_packed = from_be_bytes (take 32 sig_bytes), sgd_s = from_be_bytes (drop 32 sig_bytes)\<rparr>,
        sdi_signer_pub_key_packed = from_be_bytes signer_packed_key_bytes\<rparr>)))"

text \<open>The functions @from_transfer_op@ and its like; the signature is serialised with @expect@.\<close>

definition sig_data_from :: "circuit_lib \<Rightarrow> (unit, byte list) res \<Rightarrow> tx_signature \<Rightarrow> (error, sig_data_input) res" where
  "sig_data_from l tx_bytes signature =
    res_bind (unwrap (cx_serialize_signature l (sig_signature signature))) (\<lambda>sign_packed.
    res_bind (unwrap tx_bytes) (\<lambda>bytes. sig_data_input_new l sign_packed bytes (sig_pub_key signature)))"

section \<open>Blocks\<close>

record witness_builder =
  wb_account_tree :: circuit_tree
  wb_fee_account_id :: account_id
  wb_block_number :: block_number
  wb_initial_root_hash :: fr
  wb_initial_used_subtree_root_hash :: fr
  wb_operations :: "circuit_operation list"
  wb_pubdata :: "bool list"
  wb_root_before_fees :: "fr option"
  wb_root_after_fees :: "fr option"
  wb_fee_account_balances :: "fr list option"
  wb_fee_account_witness :: "account_witness option"
  wb_fee_account_audit_path :: "fr list option"
  wb_pubdata_commitment :: "fr option"

definition get_used_subtree_root_hash :: "circuit_lib \<Rightarrow> circuit_tree \<Rightarrow> fr" where
  "get_used_subtree_root_hash l tree =
    foldl (\<lambda>current_hash item. cx_compress l current_hash item 0) (cx_hash_bits l (circuit_account_bits l (tree_leaf tree 0)))
      (take used_account_subtree_depth (cx_account_path l tree 0))"

definition witness_builder_new :: "circuit_lib \<Rightarrow> circuit_tree \<Rightarrow> account_id \<Rightarrow> block_number \<Rightarrow> witness_builder" where
  "witness_builder_new l tree fee_account_id n =
    \<lparr>wb_account_tree = tree, wb_fee_account_id = fee_account_id, wb_block_number = n, wb_initial_root_hash = cx_root_hash l tree,
     wb_initial_used_subtree_root_hash = get_used_subtree_root_hash l tree, wb_operations = [], wb_pubdata = [],
     wb_root_before_fees = None, wb_root_after_fees = None, wb_fee_account_balances = None, wb_fee_account_witness = None,
     wb_fee_account_audit_path = None, wb_pubdata_commitment = None\<rparr>"

definition add_operation_with_pubdata :: "witness_builder \<Rightarrow> circuit_operation list \<Rightarrow> bool list \<Rightarrow> witness_builder" where
  "add_operation_with_pubdata b ops pub_bits = b\<lparr>wb_operations := wb_operations b @ ops, wb_pubdata := wb_pubdata b @ pub_bits\<rparr>"

fun push_noops :: "circuit_lib \<Rightarrow> nat \<Rightarrow> witness_builder \<Rightarrow> ('e, witness_builder) res" where
  "push_noops l 0 b = Ok b"
| "push_noops l (Suc n) b =
    res_bind (noop_operation l (wb_account_tree b) (wb_fee_account_id b)) (\<lambda>noop.
      push_noops l n (b\<lparr>wb_operations := wb_operations b @ [noop], wb_pubdata := wb_pubdata b @ replicate CHUNK_BIT_WIDTH False\<rparr>))"

definition extend_pubdata_with_noops :: "circuit_lib \<Rightarrow> witness_builder \<Rightarrow> nat \<Rightarrow> ('e, witness_builder) res" where
  "extend_pubdata_with_noops l b block_size_chunks =
    res_bind (assert_that (size (wb_operations b) \<le> block_size_chunks)) (\<lambda>_.
      push_noops l (block_size_chunks - size (wb_operations b)) b)"

definition apply_fee ::
  "circuit_lib \<Rightarrow> circuit_tree \<Rightarrow> account_id \<Rightarrow> token_id \<Rightarrow> nat \<Rightarrow> ('e, (fr \<times> account_witness) \<times> circuit_tree) res" where
  "apply_fee l tree validator_address token fee =
    res_bind (expect (tree validator_address)) (\<lambda>validator_leaf.
    res_bind (assert_that (unat token < 2 ^ balance_tree_depth)) (\<lambda>_.
    let balance = add_assign l (balance_value (ca_subtree validator_leaf) token) (fr_from_str l fee);
        tree = tree(validator_address \<mapsto> validator_leaf\<lparr>ca_subtree := (ca_subtree validator_leaf)(token \<mapsto> balance)\<rparr>)
    in Ok ((cx_root_hash l tree, account_witness_from validator_leaf), tree)))"

fun apply_fees ::
  "circuit_lib \<Rightarrow> circuit_tree \<Rightarrow> account_id \<Rightarrow> collected_fee list \<Rightarrow> fr \<times> account_witness
    \<Rightarrow> ('e, (fr \<times> account_witness) \<times> circuit_tree) res" where
  "apply_fees l tree i [] r = Ok (r, tree)"
| "apply_fees l tree i (f # fees) r =
    res_bind (amount_u128 (cf_amount f)) (\<lambda>amount.
    res_bind (apply_fee l tree i (cf_token f) amount) (\<lambda>(r, tree). apply_fees l tree i fees r))"

definition builder_collect_fees :: "circuit_lib \<Rightarrow> witness_builder \<Rightarrow> collected_fee list \<Rightarrow> ('e, witness_builder) res" where
  "builder_collect_fees l b fees =
    (let tree = wb_account_tree b; i = wb_fee_account_id b in
     res_bind (expect (tree i)) (\<lambda>fee_circuit_account.
     res_bind (apply_fee l tree i 0 0) (\<lambda>(r, tree').
     res_bind (apply_fees l tree' i fees r) (\<lambda>((root_after_fee, fee_account_witness), tree'').
       Ok (b\<lparr>wb_account_tree := tree'', wb_root_before_fees := Some (cx_root_hash l tree),
         wb_fee_account_balances := Some (map (\<lambda>t. balance_value (ca_subtree fee_circuit_account) (of_nat t)) [0..<total_tokens]),
         wb_root_after_fees := Some root_after_fee, wb_fee_account_witness := Some fee_account_witness\<rparr>)))))"

text \<open>@public_data_commitment@: a chain of hashes, the last without its top three bits.\<close>

definition packed_bytes :: "fr \<Rightarrow> byte list" where
  "packed_bytes x = be_bit_vector_into_bytes (replicate (256 - size (repr_bits x)) False @ repr_bits x)"

definition public_data_commitment :: "circuit_lib \<Rightarrow> bool list \<Rightarrow> fr \<Rightarrow> fr \<Rightarrow> fr \<Rightarrow> fr \<Rightarrow> ('e, fr) res" where
  "public_data_commitment l pub_bits initial_root new_root validator_address block_number =
    (let h = cx_sha256_bytes l;
         hash_result = h (packed_bytes block_number @ packed_bytes validator_address);
         hash_result = h (hash_result @ packed_bytes initial_root);
         hash_result = h (hash_result @ packed_bytes new_root);
         hash_result = h (hash_result @ be_bit_vector_into_bytes pub_bits)
     in fr_from_hex l (from_be ((hd hash_result AND 0x1f) # tl hash_result)))"

definition calculate_pubdata_commitment :: "circuit_lib \<Rightarrow> witness_builder \<Rightarrow> ('e, witness_builder) res" where
  "calculate_pubdata_commitment l b =
    res_bind (get_audits l (wb_account_tree b) (wb_fee_account_id b) 0) (\<lambda>audits.
    res_bind (expect (wb_root_after_fees b)) (\<lambda>root.
    res_bind (public_data_commitment l (wb_pubdata b) (wb_initial_root_hash b) root
        (fr_from_str l (unat (wb_fee_account_id b))) (fr_from_str l (unat (wb_block_number b)))) (\<lambda>commitment.
      Ok (b\<lparr>wb_fee_account_audit_path := Some (fst audits), wb_pubdata_commitment := Some commitment\<rparr>))))"

text \<open>The instance of the circuit; its constant parameters are left out.\<close>

record circuit_instance =
  ci_old_root :: fr
  ci_initial_used_subtree_root :: fr
  ci_operations :: "circuit_operation list"
  ci_pub_data_commitment :: fr
  ci_block_number :: fr
  ci_validator_account :: account_witness
  ci_validator_address :: fr
  ci_validator_balances :: "fr list"
  ci_validator_audit_path :: "fr list"

definition into_circuit_instance :: "circuit_lib \<Rightarrow> witness_builder \<Rightarrow> ('e, circuit_instance) res" where
  "into_circuit_instance l b =
    res_bind (expect (wb_pubdata_commitment b)) (\<lambda>commitment.
    res_bind (expect (wb_fee_account_witness b)) (\<lambda>validator_account.
    res_bind (expect (wb_fee_account_balances b)) (\<lambda>validator_balances.
    res_bind (expect (wb_fee_account_audit_path b)) (\<lambda>audit_path.
      Ok \<lparr>ci_old_root = wb_initial_root_hash b, ci_initial_used_subtree_root = wb_initial_used_subtree_root_hash b,
        ci_operations = wb_operations b, ci_pub_data_commitment = commitment,
        ci_block_number = fr_from_str l (unat (wb_block_number b)), ci_validator_account = validator_account,
        ci_validator_address = fr_from_str l (unat (wb_fee_account_id b)), ci_validator_balances = validator_balances,
        ci_validator_audit_path = audit_path\<rparr>))))"

text \<open>One operation of a block: the operations of the circuit, the public data, the fees, and the tree after it.\<close>

definition of_witness ::
  "('e, 'w \<times> circuit_tree) res \<Rightarrow> ('w \<Rightarrow> ('e, bool list) res) \<Rightarrow> ('e, 'i) res \<Rightarrow> ('i \<Rightarrow> 'w \<Rightarrow> bool list \<Rightarrow> circuit_operation list)
    \<Rightarrow> collected_fee list \<Rightarrow> ('e, (circuit_operation list \<times> bool list \<times> collected_fee list) \<times> circuit_tree) res" where
  "of_witness w pub_bits input operations fees =
    res_bind w (\<lambda>(w, tree). res_bind input (\<lambda>input. res_bind (pub_bits w) (\<lambda>data. Ok ((operations input w data, data, fees), tree))))"

definition op_witness ::
  "circuit_lib \<Rightarrow> circuit_tree \<Rightarrow> zksync_op
    \<Rightarrow> (error, (circuit_operation list \<times> bool list \<times> collected_fee list) \<times> circuit_tree) res" where
  "op_witness l tree op = (case op of
      OpDeposit deposit \<Rightarrow> of_witness (deposit_witness l tree deposit) deposit_pubdata (Ok ()) (\<lambda>_. deposit_operations l) []
    | OpTransfer transfer \<Rightarrow> let tx = trop_tx transfer in
        of_witness (transfer_witness l tree transfer) transfer_pubdata (sig_data_from l (transfer_get_bytes tx) (tr_signature tx))
          (transfer_operations l) [\<lparr>cf_token = tr_token tx, cf_amount = tr_fee tx\<rparr>]
    | OpTransferToNew transfer_to_new \<Rightarrow> let tx = tnop_tx transfer_to_new in
        of_witness (transfer_to_new_witness l tree transfer_to_new) transfer_to_new_pubdata
          (sig_data_from l (transfer_get_bytes tx) (tr_signature tx)) (transfer_to_new_operations l)
          [\<lparr>cf_token = tr_token tx, cf_amount = tr_fee tx\<rparr>]
    | OpWithdraw withdraw \<Rightarrow> let tx = wdop_tx withdraw in
        of_witness (withdraw_witness l tree withdraw) withdraw_pubdata (sig_data_from l (withdraw_get_bytes tx) (wd_signature tx))
          (withdraw_operations l) [\<lparr>cf_token = wd_token tx, cf_amount = wd_fee tx\<rparr>]
    | OpClose close \<Rightarrow> let tx = clop_tx close in
        of_witness (close_account_witness l tree close) close_account_pubdata
          (sig_data_from l (Ok (close_get_bytes tx)) (cl_signature tx)) (close_account_operations l) []
    | OpFullExit full_exit \<Rightarrow>
        of_witness (full_exit_witness l tree (full_exit, fxop_withdraw_amount full_exit \<noteq> None)) full_exit_pubdata (Ok ())
          (\<lambda>_. full_exit_operations l) []
    | OpChangePubKey change_pkhash \<Rightarrow> let tx = cpop_tx change_pkhash in
        of_witness (change_pubkey_witness l tree change_pkhash) change_pubkey_pubdata
          (sig_data_from l (change_pub_key_get_bytes tx) (cp_signature tx)) (change_pubkey_operations l)
          [\<lparr>cf_token = cp_fee_token tx, cf_amount = cp_fee tx\<rparr>]
    | OpForcedExit forced_exit \<Rightarrow> let tx = feop_tx forced_exit in
        of_witness (forced_exit_witness l tree forced_exit) forced_exit_pubdata
          (sig_data_from l (forced_exit_get_bytes tx) (fe_signature tx)) (forced_exit_operations l)
          [\<lparr>cf_token = fe_token tx, cf_amount = fe_fee tx\<rparr>]
    | OpNoop \<Rightarrow> Ok (([], [], []), tree))"

fun ops_witness ::
  "circuit_lib \<Rightarrow> circuit_tree \<Rightarrow> zksync_op list
    \<Rightarrow> (error, (circuit_operation list \<times> bool list \<times> collected_fee list) \<times> circuit_tree) res" where
  "ops_witness l tree [] = Ok (([], [], []), tree)"
| "ops_witness l tree (op # ops) =
    res_bind (op_witness l tree op) (\<lambda>((operations, pub_data, fees), tree).
    res_bind (ops_witness l tree ops) (\<lambda>((operations', pub_data', fees'), tree).
      Ok ((operations @ operations', pub_data @ pub_data', fees @ fees'), tree)))"

definition build_block_witness :: "circuit_lib \<Rightarrow> circuit_tree \<Rightarrow> block \<Rightarrow> (error, witness_builder) res" where
  "build_block_witness l tree blk =
    (let witness_accum = witness_builder_new l tree (bl_fee_account blk) (bl_block_number blk); block_size = bl_block_chunks_size blk in
     res_bind (ops_witness l tree (block_ops (bl_block_transactions blk))) (\<lambda>((operations, pub_data, fees), tree).
     let witness_accum = add_operation_with_pubdata (witness_accum\<lparr>wb_account_tree := tree\<rparr>) operations pub_data in
     res_bind (extend_pubdata_with_noops l witness_accum block_size) (\<lambda>witness_accum.
     res_bind (assert_that (size (wb_pubdata witness_accum) = CHUNK_BIT_WIDTH * block_size)) (\<lambda>_.
     res_bind (assert_that (size (wb_operations witness_accum) = block_size)) (\<lambda>_.
     res_bind (builder_collect_fees l witness_accum fees) (\<lambda>witness_accum.
     res_bind (assert_that (wb_root_after_fees witness_accum = Some (bl_new_root_hash blk))) (\<lambda>_.
       calculate_pubdata_commitment l witness_accum)))))))"

end
