(* ===== verification/WitnessBits.thy ===== *)
theory WitnessBits
  imports Witness Typing Restore
begin

text \<open>
  The bits of the circuit's public data are those of the bytes of the operations.
\<close>

section \<open>Integers\<close>

definition be_bits :: "nat \<Rightarrow> nat \<Rightarrow> bool list" where
  "be_bits n x = rev (map (bit x) [0..<n])"

lemma append_be_fixed_width: "width \<le> 256 \<Longrightarrow> append_be_fixed_width content x width = content @ be_bits width x"
  by (simp add: append_be_fixed_width_def repr_bits_def resize_def be_bits_def take_map)

lemma be_bits_add: "be_bits (m + n) x = be_bits m (x div 2 ^ n) @ be_bits n x"
proof -
  have shifted: "map (bit x) [n..<m + n] = map (bit (x div 2 ^ n)) [0..<m]"
    by (rule nth_equalityI) (auto simp: bit_iff_odd div_mult2_eq [symmetric] power_add [symmetric] add.commute)
  have "[0..<m + n] = [0..<n] @ [n..<m + n]"
    using upt_add_eq_append [of 0 n m] by (simp add: add.commute)
  then show ?thesis by (simp add: be_bits_def shifted)
qed

lemma shift_out_byte: "shift_out 8 (of_nat x) = be_bits 8 x"
  by (rule nth_equalityI) (auto simp: be_bits_def rev_nth shift_out_nth bit_simps)

lemma from_be_bytes_to_be: "from_be_bytes (to_be n x) = be_bits (8 * n) x"
proof (induction n arbitrary: x)
  case (Suc n)
  have "be_bits (8 * Suc n) x = be_bits (8 * n) (x div 256) @ be_bits 8 x"
    using be_bits_add [of "8 * n" 8 x] by (simp add: add.commute)
  then show ?case using Suc by (simp add: from_be_bytes_append) (simp add: from_be_bytes_def shift_out_byte)
qed (simp add: be_bits_def from_be_bytes_def)

lemma from_be_bytes_word:
  assumes "LENGTH('a::len) mod 8 = 0"
  shows "from_be_bytes (word_to_be (w :: 'a word)) = be_bits LENGTH('a) (unat w)"
proof -
  have "8 * (LENGTH('a) div 8) = LENGTH('a)" using assms by auto
  then show ?thesis by (simp add: word_to_be_def from_be_bytes_to_be)
qed

lemma from_be_bytes_fields:
  "from_be_bytes (word_to_be (a :: 16 word)) = be_bits 16 (unat a)"
  "from_be_bytes (word_to_be (b :: 32 word)) = be_bits 32 (unat b)"
  "from_be_bytes (word_to_be (c :: 128 word)) = be_bits 128 (unat c)"
  "from_be_bytes (word_to_be (d :: 160 word)) = be_bits 160 (unat d)"
  "from_be_bytes [e] = be_bits 8 (unat e)"
  using from_be_bytes_word [of a] from_be_bytes_word [of b] from_be_bytes_word [of c] from_be_bytes_word [of d]
    from_be_bytes_word [of e] by (simp_all add: word_to_be_8)

lemma from_be_bytes_zeros: "from_be_bytes (replicate n 0) = replicate (8 * n) False"
proof -
  have "shift_out 8 0 = replicate 8 False" by code_simp
  then have "from_be_bytes (replicate n 0) = concat (replicate n (replicate 8 False))"
    by (simp add: from_be_bytes_def)
  also have "\<dots> = replicate (8 * n) False"
    by (induction n) (simp_all only: replicate_0 replicate_Suc concat.simps mult_0_right mult_Suc_right replicate_add)
  finally show ?thesis .
qed

lemma bit_packed:
  "bit (foldl (\<lambda>byte (i, b). if b then byte OR f i else byte) (w :: byte) ps) j
    \<longleftrightarrow> bit w j \<or> (\<exists>i. (i, True) \<in> set ps \<and> bit (f i :: byte) j)"
proof (induction ps arbitrary: w)
  case (Cons p ps)
  obtain i b where "p = (i, b)" by (cases p)
  then show ?case using Cons by (cases b) (auto simp: bit_or_iff)
qed simp

lemma packed_shift_out: "foldl (\<lambda>byte (i, b). if b then byte OR push_bit (7 - i) 1 else byte) (0 :: byte) (enumerate 0 (shift_out 8 t)) = t"
proof (rule bit_word_eqI)
  fix j assume "j < LENGTH(8)"
  then have j: "j < 8" by simp
  have one: "bit (push_bit (7 - i) 1 :: byte) j \<longleftrightarrow> i = 7 - j" if "i < 8" for i
    using that j by (auto simp: push_bit_eq_mult bit_exp_iff)
  have "(i, True) \<in> set (enumerate 0 (shift_out 8 t)) \<longleftrightarrow> i < 8 \<and> bit t (7 - i)" for i
    by (auto simp only: in_set_enumerate_eq length_shift_out shift_out_nth fst_conv snd_conv add_0 diff_zero)
  then have "bit (foldl (\<lambda>byte (i, b). if b then byte OR push_bit (7 - i) 1 else byte) (0 :: byte) (enumerate 0 (shift_out 8 t))) j
      \<longleftrightarrow> (\<exists>i. i < 8 \<and> bit t (7 - i) \<and> bit (push_bit (7 - i) 1 :: byte) j)"
    unfolding bit_packed by (simp only: bit_0_eq bot_apply bot_bool_def simp_thms conj_assoc)
  also have "\<dots> \<longleftrightarrow> bit t j"
  proof
    assume "bit t j"
    then show "\<exists>i. i < 8 \<and> bit t (7 - i) \<and> bit (push_bit (7 - i) 1 :: byte) j"
      using j one [of "7 - j"] by (intro exI [of _ "7 - j"]) simp
  qed (use one j in auto)
  finally show "bit (foldl (\<lambda>byte (i, b). if b then byte OR push_bit (7 - i) 1 else byte) (0 :: byte) (enumerate 0 (shift_out 8 t))) j = bit t j" .
qed

lemma bytes_from_be_bytes: "be_bit_vector_into_bytes (from_be_bytes bs) = bs"
  by (simp add: be_bit_vector_into_bytes_def chunks_from_be_bytes packed_shift_out map_idI)

section \<open>Amounts\<close>

lemma double_and_add_value:
  "fe < cx_modulus l \<Longrightarrow> double_and_add l fe (base mod cx_modulus l) bits = (fe + base * horner_sum of_bool 2 bits) mod cx_modulus l"
proof (induction bits arbitrary: fe base)
  case (Cons b bits)
  have base: "add_assign l (base mod cx_modulus l) (base mod cx_modulus l) = (2 * base) mod cx_modulus l"
    by (simp add: add_assign_def mod_simps mult_2)
  have fe: "(if b then add_assign l fe (base mod cx_modulus l) else fe) = (fe + base * of_bool b) mod cx_modulus l"
    using Cons.prems by (simp add: add_assign_def mod_simps)
  have "(fe + base * of_bool b) mod cx_modulus l < cx_modulus l" using Cons.prems by simp
  from Cons.IH [OF this, of "2 * base"] show ?case
    by (simp add: base fe mod_simps algebra_simps)
qed simp

lemma le_bits_value:
  assumes "horner_sum of_bool 2 bits < cx_modulus l"
  shows "le_bit_vector_into_field_element l bits = horner_sum of_bool 2 bits"
  using double_and_add_value [of 0 l 1 bits] assms by (simp add: le_bit_vector_into_field_element_def fr_from_str_def)

lemma be_bits_horner: "be_bits (size bits) (horner_sum of_bool 2 bits) = rev bits"
  by (rule nth_equalityI) (auto simp: be_bits_def rev_nth bit_horner_sum_bit_iff)

lemma horner_bound: "horner_sum of_bool 2 bits < (2 :: nat) ^ size bits"
  by (induction bits) auto

lemma float_bits:
  assumes "pack n el ml = Ok bs" "2 ^ (8 * size bs) \<le> cx_modulus l"
  shows "\<exists>x. (float_encoded l n el ml :: ('e, fr) res) = Ok x \<and> be_bits (8 * size bs) x = from_be_bytes bs" "n < 2 ^ 128"
proof -
  obtain vec where vec: "to_float n el ml 10 = Ok vec" "into_bytes_ordered (rev vec) = Ok bs" "n < 2 ^ 128"
    using assms(1) by (auto simp: pack_def split: if_splits res.splits)
  then have "size (rev vec) mod 8 = 0" by (auto simp: into_bytes_ordered_def ok_iffs)
  from into_bytes_ordered_Ok [OF this] obtain bs' where
    "(into_bytes_ordered (rev vec) :: (unit, byte list) res) = Ok bs'" "from_be_bytes bs' = rev vec" "size (rev vec) = 8 * size bs'"
    by metis
  with vec(2) have bits: "from_be_bytes bs = rev vec" "size vec = 8 * size bs" by simp_all
  have "le_bit_vector_into_field_element l vec = horner_sum of_bool 2 vec"
    by (rule le_bits_value) (use horner_bound [of vec] assms(2) bits(2) in simp)
  then show "\<exists>x. (float_encoded l n el ml :: ('e, fr) res) = Ok x \<and> be_bits (8 * size bs) x = from_be_bytes bs"
    using be_bits_horner [of vec] bits vec(1) by (simp add: float_encoded_def)
  show "n < 2 ^ 128" by (rule vec(3))
qed

section \<open>Fields of public data\<close>

text \<open>A field of the circuit's public data shows the same as a field of the bytes.\<close>

definition field_shows :: "fr \<times> nat \<Rightarrow> (unit, byte list) res \<Rightarrow> bool" where
  "field_shows xw f \<longleftrightarrow> snd xw \<le> 256 \<and> (\<exists>bs. f = Ok bs \<and> snd xw = 8 * size bs \<and> be_bits (snd xw) (fst xw) = from_be_bytes bs)"

lemma shown_fields:
  assumes "list_all2 field_shows fs bfs"
  shows "\<exists>bs. concat_fields bfs = Ok bs \<and>
    (\<forall>content. foldl (\<lambda>content (x, width). append_be_fixed_width content x width) content fs = content @ from_be_bytes bs)"
  using assms
proof (induction rule: list_all2_induct)
  case (Cons xw fs f bfs)
  then obtain bs where bs: "concat_fields bfs = Ok bs"
    "\<forall>content. foldl (\<lambda>content (x, width). append_be_fixed_width content x width) content fs = content @ from_be_bytes bs" by blast
  obtain b where b: "f = Ok b" "be_bits (snd xw) (fst xw) = from_be_bytes b" "snd xw \<le> 256"
    using Cons.hyps(1) by (auto simp: field_shows_def)
  show ?case
    using bs b by (cases xw) (simp add: append_be_fixed_width from_be_bytes_append)
qed (simp add: from_be_bytes_def)

lemma chunk_bits: "CHUNK_BIT_WIDTH = 8 * CHUNK_BYTES" "0 < CHUNK_BIT_WIDTH"
  by (simp_all add: param_defs CHUNK_BYTES_def)

lemma shown_pubdata:
  assumes "list_all2 field_shows fs bfs" "sum_list (map snd fs) \<le> n * CHUNK_BIT_WIDTH"
  shows "\<exists>bs. pubdata n bfs = Ok bs \<and> (pubdata_bits n fs :: ('e, bool list) res) = Ok (from_be_bytes bs)"
proof -
  obtain bs where bs: "concat_fields bfs = Ok bs"
    "foldl (\<lambda>content (x, width). append_be_fixed_width content x width) [] fs = from_be_bytes bs"
    using shown_fields [OF assms(1)] by auto
  have "list_all2 field_shows fs bfs \<Longrightarrow> concat_fields bfs = Ok bs \<Longrightarrow> sum_list (map snd fs) = 8 * size bs" for fs bfs bs
    by (induction arbitrary: bs rule: list_all2_induct) (auto simp: field_shows_def ok_iffs)
  then have size: "8 * size bs \<le> 8 * (n * CHUNK_BYTES)"
    using assms bs(1) by (simp add: chunk_bits)
  have "resize (8 * m) False (from_be_bytes bs) = from_be_bytes (resize m 0 bs)" if "size bs \<le> m" for m
    using that by (simp add: resize_def from_be_bytes_append from_be_bytes_zeros diff_mult_distrib2)
  from this [of "n * CHUNK_BYTES"] size show ?thesis
    using bs by (simp add: pubdata_bits_def pubdata_def resize_grow_only_def outcome_simps chunk_bits mult.left_commute)
qed

lemma size_chunks: "0 < n \<Longrightarrow> size xs = m * n \<Longrightarrow> size (chunks n xs) = m"
proof (induction m arbitrary: xs)
  case (Suc m)
  then have "xs \<noteq> []" by auto
  then show ?case using Suc by (simp add: chunks_step)
qed simp

end
