(* ===== verification/WitnessOps.thy ===== *)
theory WitnessOps
  imports WitnessBits
begin

text \<open>
  The witness of every executed operation: it is built without an error, its public data are the bits of the
  operation's bytes, it has as many operations of the circuit as the operation has chunks, and the circuit's tree
  follows the state.
\<close>

section \<open>Trees and states\<close>

text \<open>What the circuit relies on of its library: the size of the field, and that keys and signatures serialise.\<close>

definition circuit_lib_ok :: "circuit_lib \<Rightarrow> bool" where
  "circuit_lib_ok l \<longleftrightarrow> 2 ^ 253 \<le> cx_modulus l \<and> 2 * cx_capacity l \<le> MAX_CIRCUIT_MSG_HASH_BITS \<and>
    (\<forall>sg. \<exists>bs. cx_serialize_signature l sg = Ok bs \<and> 32 \<le> size bs) \<and> (\<forall>key. \<exists>bs. cx_serialize_pub_key l key = Ok bs) \<and>
    (\<forall>bs. size (cx_sha256_bytes l bs) = 32)"

lemma lib_modulus: "circuit_lib_ok l \<Longrightarrow> 2 ^ 253 \<le> cx_modulus l"
  by (simp add: circuit_lib_ok_def)

definition account_matches :: "circuit_lib \<Rightarrow> account \<Rightarrow> circuit_account \<Rightarrow> bool" where
  "account_matches l a ca \<longleftrightarrow> ca_nonce ca = unat (acc_nonce a) \<and> ca_pub_key_hash ca = unat (acc_pub_key_hash a) \<and>
    ca_address ca = unat (acc_address a) \<and> (\<forall>t. balance_value (ca_subtree ca) t = get_balance a t mod cx_modulus l)"

definition state_account :: "zk_state \<Rightarrow> account_id \<Rightarrow> account" where
  "state_account s i = (case get_account s i of None \<Rightarrow> default_account | Some a \<Rightarrow> a)"

definition tree_matches :: "circuit_lib \<Rightarrow> zk_state \<Rightarrow> circuit_tree \<Rightarrow> bool" where
  "tree_matches l s tree \<longleftrightarrow> (\<forall>i. account_matches l (state_account s i) (tree_leaf tree i)) \<and>
    (\<forall>i. get_account s i \<noteq> None \<longrightarrow> tree i \<noteq> None)"

lemma tree_matches_account: "tree_matches l s tree \<Longrightarrow> get_account s i = Some a \<Longrightarrow> account_matches l a (tree_leaf tree i)"
  unfolding tree_matches_def state_account_def by (metis option.simps(5))

lemma tree_matches_new: "tree_matches l s tree \<Longrightarrow> get_account s i = None \<Longrightarrow> account_matches l default_account (tree_leaf tree i)"
  unfolding tree_matches_def state_account_def by (metis option.simps(4))

lemma tree_matches_update:
  "tree_matches l s tree \<Longrightarrow> account_matches l a ca \<Longrightarrow> tree_matches l (insert_account i a s) (tree(i \<mapsto> ca))"
  by (simp add: tree_matches_def state_account_def state_simps tree_leaf_def)

lemma tree_matches_write:
  "tree_matches l s tree \<Longrightarrow> account_matches l (state_account s i) ca \<Longrightarrow> tree_matches l s (tree(i \<mapsto> ca))"
  by (simp add: tree_matches_def tree_leaf_def)

lemma balance_value_upd: "balance_value (m(t \<mapsto> v)) t' = (if t' = t then v else balance_value m t')"
  by (simp add: balance_value_def)

lemma add_assign_balance: "add_assign l (b mod cx_modulus l) (fr_from_str l n) = (b + n) mod cx_modulus l"
  by (simp add: add_assign_def fr_from_str_def mod_simps)

lemma sub_assign_balance:
  assumes "0 < cx_modulus l" "n \<le> b"
  shows "sub_assign l (b mod cx_modulus l) (fr_from_str l n) = (b - n) mod cx_modulus l"
proof -
  let ?m = "cx_modulus l"
  obtain k where k: "b = k + n" using assms(2) by (metis le_add_diff_inverse2)
  have le: "n mod ?m \<le> ?m" using assms(1) by (simp add: less_imp_le)
  have "(b mod ?m + (?m - n mod ?m)) mod ?m = ((k + n mod ?m) mod ?m + (?m - n mod ?m)) mod ?m"
    by (simp add: k mod_simps)
  also have "\<dots> = (k + n mod ?m + (?m - n mod ?m)) mod ?m" by (rule mod_add_left_eq)
  also have "\<dots> = k mod ?m" using le by (simp add: add.assoc)
  finally show ?thesis by (simp add: sub_assign_def fr_from_str_def k)
qed

lemma sub_two_balance:
  assumes "0 < cx_modulus l" "n + k \<le> b"
  shows "sub_assign l (sub_assign l (b mod cx_modulus l) (fr_from_str l n)) (fr_from_str l k) = (b - (n + k)) mod cx_modulus l"
  using sub_assign_balance [OF assms(1), of n b] sub_assign_balance [OF assms(1), of k "b - n"] assms(2) by simp

lemma fr_from_hex_Ok: "n < cx_modulus l \<Longrightarrow> fr_from_hex l n = Ok n"
  by (simp add: fr_from_hex_def)

lemma fr_from_str_small: "n < cx_modulus l \<Longrightarrow> fr_from_str l n = n"
  by (simp add: fr_from_str_def)

text \<open>Machine integers and amounts of 128 bits are far below the modulus.\<close>

lemma unat_word_less: "LENGTH('a::len) \<le> 253 \<Longrightarrow> circuit_lib_ok l \<Longrightarrow> unat (w :: 'a word) < cx_modulus l"
  using power_increasing [of "LENGTH('a)" 253 "2 :: nat"] lib_modulus [of l] unsigned_less [of w]
  by (metis less_le_trans one_le_numeral)

lemma small_numbers:
  assumes "circuit_lib_ok l"
  shows "unat (a :: 32 word) < cx_modulus l" "unat (b :: 16 word) < cx_modulus l" "unat (d :: 160 word) < cx_modulus l"
    "n < 2 ^ 128 \<Longrightarrow> n < cx_modulus l" "k < 256 \<Longrightarrow> k < cx_modulus l" "0 < cx_modulus l"
    "unat (a + 1) < cx_modulus l"
  using assms lib_modulus [OF assms] by (simp_all add: unat_word_less)

section \<open>Changes of a leaf\<close>

abbreviation with_balance :: "circuit_account \<Rightarrow> token_id \<Rightarrow> fr \<Rightarrow> circuit_account" where
  "with_balance ca t v \<equiv> ca\<lparr>ca_subtree := (ca_subtree ca)(t \<mapsto> v)\<rparr>"

abbreviation leaf_balance :: "circuit_tree \<Rightarrow> account_id \<Rightarrow> token_id \<Rightarrow> fr" where
  "leaf_balance tree i t \<equiv> balance_value (ca_subtree (tree_leaf tree i)) t"

definition shows_single ::
  "circuit_lib \<Rightarrow> circuit_tree \<Rightarrow> account_id \<Rightarrow> token_id \<Rightarrow> (fr \<Rightarrow> operation_arguments) \<Rightarrow> nat \<Rightarrow> single_witness \<Rightarrow> bool" where
  "shows_single l tree i t args tx_type w \<longleftrightarrow> sw_tx_type w = fr_from_str l tx_type \<and> ob_address (sw_before w) = fr_from_str l (unat i) \<and>
    ob_token (sw_before w) = fr_from_str l (unat t) \<and> (\<exists>b. sw_args w = args b) \<and>
    aw_nonce (obw_account_witness (ob_witness (sw_before w))) = ca_nonce (tree_leaf tree i)"

lemma single_step:
  assumes "unat t < 2 ^ balance_tree_depth"
    "fa (with_balance (tree_leaf tree i) t (fb (leaf_balance tree i t))) = Ok ca"
  shows "\<exists>w. apply_single l tree i t fa fb args tx_type = Ok (w, tree(i \<mapsto> ca)) \<and> shows_single l tree i t args tx_type w"
  using assms by (simp add: apply_single_def apply_leaf_operation_def get_audits_def outcome_simps Let_def shows_single_def
      branch_def account_witness_from_def) blast

definition shows_pair ::
  "circuit_lib \<Rightarrow> account_id \<Rightarrow> account_id \<Rightarrow> token_id \<Rightarrow> (fr \<Rightarrow> operation_arguments) \<Rightarrow> nat \<Rightarrow> pair_witness \<Rightarrow> bool" where
  "shows_pair l from to t args tx_type w \<longleftrightarrow> pw_tx_type w = fr_from_str l tx_type \<and>
    ob_address (pw_from_before w) = fr_from_str l (unat from) \<and> ob_address (pw_to_before w) = fr_from_str l (unat to) \<and>
    ob_token (pw_from_before w) = fr_from_str l (unat t) \<and> (\<exists>b. pw_args w = args b)"

lemma pair_step:
  assumes "unat t < 2 ^ balance_tree_depth"
    "fa (with_balance (tree_leaf tree i) t (fb (leaf_balance tree i t))) = Ok ca"
    "ga (with_balance (tree_leaf (tree(i \<mapsto> ca)) j) t (gb (leaf_balance (tree(i \<mapsto> ca)) j t))) = Ok cb"
  shows "\<exists>w. apply_pair l tree i j t fa fb ga gb args tx_type = Ok (w, tree(i \<mapsto> ca, j \<mapsto> cb)) \<and> shows_pair l i j t args tx_type w"
  using assms by (simp add: apply_pair_def apply_leaf_operation_def get_audits_def outcome_simps Let_def shows_pair_def
      branch_def del: fun_upd_apply) blast

section \<open>Fields\<close>

lemma small_fields:
  assumes "circuit_lib_ok l"
  shows "field_shows (fr_from_str l (unat (a :: 32 word)), 32) (Ok (word_to_be a))"
    "field_shows (fr_from_str l (unat (b :: 16 word)), 16) (Ok (word_to_be b))"
    "field_shows (unat (d :: 160 word), 160) (Ok (word_to_be d))"
    "field_shows (unat a, 32) (Ok (word_to_be a))"
    "k < 256 \<Longrightarrow> field_shows (fr_from_str l k, 8) (Ok [of_nat k])"
    "n < 2 ^ 128 \<Longrightarrow> field_shows (fr_from_str l n, 128) (u128_field n)"
  using small_numbers [OF assms] from_be_bytes_fields from_be_bytes_to_be [of 16 n]
  by (simp_all add: field_shows_def fr_from_str_small unat_word_less [OF _ assms] u128_field_def to_u128_def
      unat_of_nat take_bit_nat_eq_self word_to_be_def)

lemma float_field:
  assumes "circuit_lib_ok l" "pack n el ml = Ok bs" "8 * size bs \<le> 253"
  shows "\<exists>x. (float_encoded l n el ml :: ('e, fr) res) = Ok x \<and> field_shows (x, 8 * size bs) (pack n el ml) \<and> n < 2 ^ 128"
proof -
  have "(2 :: nat) ^ (8 * size bs) \<le> 2 ^ 253" using assms(3) by (intro power_increasing) simp_all
  then have le: "2 ^ (8 * size bs) \<le> cx_modulus l" using lib_modulus [OF assms(1)] by linarith
  show ?thesis using float_bits(1) [OF assms(2) le] float_bits(2) [OF assms(2) le] assms by (fastforce simp: field_shows_def)
qed

lemma fee_field:
  assumes "circuit_lib_ok l" "is_fee_amount_packable n = Ok True"
  obtains x where "(fee_encoded l n :: ('e, fr) res) = Ok x" "field_shows (x, fee_width) (pack_fee_amount n)" "n < 2 ^ 128"
proof -
  obtain bs where bs: "pack_fee_amount n = Ok bs" using fee_packs [OF assms(2)] by blast
  then have "size bs = 2" using pack_fee_length by blast
  then show ?thesis
    using float_field [OF assms(1), of n FEE_EXPONENT_BIT_WIDTH FEE_MANTISSA_BIT_WIDTH bs] bs that
    by (auto simp: pack_fee_amount_def fee_encoded_def fee_width_def param_defs)
qed

lemma u128_amount_field:
  assumes "circuit_lib_ok l" "n < 2 ^ 128"
  obtains x where "(amount_encoded l n :: ('e, fr) res) = Ok x" "field_shows (x, amount_width) (pack_token_amount n)"
proof -
  obtain bs where bs: "pack_token_amount n = Ok bs" "size bs = 5" using token_pack_Ok [OF assms(2)] by blast
  then show ?thesis
    using float_field [OF assms(1), of n AMOUNT_EXPONENT_BIT_WIDTH AMOUNT_MANTISSA_BIT_WIDTH bs] that
    by (auto simp: pack_token_amount_def amount_encoded_def amount_width_def param_defs)
qed

lemma fee_packable_u128: "is_fee_amount_packable n = Ok True \<Longrightarrow> n < 2 ^ 128"
  using fee_packable_le_u128 [of n] by simp

lemma token_packable_u128: "is_token_amount_packable n = Ok True \<Longrightarrow> n < 2 ^ 128"
  using token_pack_Panic [of n] by (cases "n < 2 ^ 128") (auto simp: is_token_amount_packable_def)

section \<open>Signatures\<close>

lemma typed_get_bytes:
  assumes "tx_typed tx"
  shows "\<exists>bs. tx_get_bytes tx = Ok bs \<and> size bs < 92"
proof -
  have "\<exists>bs. tx_get_bytes tx = Ok bs"
    using assms by (cases tx) (auto simp: get_bytes_Ok dest!: fee_packs token_packs simp: u128_field_def to_u128_def)
  then show ?thesis using get_bytes_length by (fastforce split: zksync_tx.splits)
qed

lemma sig_data_Ok:
  assumes "circuit_lib_ok l" "tx_bytes = Ok bs" "size bs < 92"
  shows "\<exists>input. sig_data_from l tx_bytes sg = Ok input"
proof -
  obtain sb kb where "cx_serialize_signature l (sig_signature sg) = Ok sb" "32 \<le> size sb" "cx_serialize_pub_key l (sig_pub_key sg) = Ok kb"
    using assms(1) unfolding circuit_lib_ok_def by metis
  then show ?thesis
    using assms by (simp add: sig_data_from_def sig_data_input_new_def generate_sig_witness_def outcome_simps
      circuit_lib_ok_def MAX_CIRCUIT_MSG_HASH_BITS_def Let_def)
qed

lemma typed_sig_data:
  assumes "circuit_lib_ok l" "tx_typed tx"
  shows "\<exists>input. sig_data_from l (tx_get_bytes tx) sg = Ok input"
  using typed_get_bytes [OF assms(2)] sig_data_Ok [OF assms(1)] by blast

section \<open>Operations\<close>

text \<open>The witness of an operation shows the operation and leads to a tree that matches the new state.\<close>

definition op_shown :: "circuit_lib \<Rightarrow> circuit_tree \<Rightarrow> zksync_op \<Rightarrow> collected_fee option \<Rightarrow> zk_state \<Rightarrow> bool" where
  "op_shown l tree op fee s' \<longleftrightarrow> (\<exists>ops bits bs tree'. op_witness l tree op = Ok ((ops, bits, fee_list fee), tree') \<and>
    op_public_data op = Ok bs \<and> bits = from_be_bytes bs \<and> size ops = op_chunks op \<and> tree_matches l s' tree')"

lemma shown_chunks:
  "op_public_data op = Ok bs \<Longrightarrow> size (pubdata_chunks l (from_be_bytes bs)) = op_chunks op"
  using op_public_data_size [of op bs] size_chunks [OF chunk_bits(2), of "from_be_bytes bs" "op_chunks op"]
  by (simp add: pubdata_chunks_def chunk_bits(1))

lemma witness_shown:
  assumes "op_witness l tree op = of_witness w pub_bits input operations (fee_list fee)" "w = Ok (w', tree')"
    "\<exists>x. input = Ok x" "\<exists>bs. op_public_data op = Ok bs \<and> pub_bits w' = Ok (from_be_bytes bs)" "tree_matches l s' tree'"
    "\<And>x bs. op_public_data op = Ok bs \<Longrightarrow> size (operations x w' (from_be_bytes bs)) = op_chunks op"
  shows "op_shown l tree op fee s'"
  using assms unfolding op_shown_def of_witness_def by fastforce

lemma size_operations:
  "1 \<le> n \<Longrightarrow> size (single_operations l n input w pub_bits) = n"
  "2 \<le> n \<Longrightarrow> size (pair_operations l n input w' pub_bits) = n"
  "op_public_data (OpChangePubKey op) = Ok bs \<Longrightarrow> size (change_pubkey_operations l input w (from_be_bytes bs)) = op_chunks (OpChangePubKey op)"
  by (simp_all add: single_operations_def pair_operations_def change_pubkey_operations_def shown_chunks Let_def del: op_chunks.simps)

lemma single_op_shown:
  assumes "op_witness l tree op = of_witness w pub_bits input operations (fee_list fee)" "w = apply_single l tree i t fa fb args tx_type"
    "\<And>x w bs. op_public_data op = Ok bs \<Longrightarrow> size (operations x w (from_be_bytes bs)) = op_chunks op" "\<exists>x. input = Ok x" "unat t < 2 ^ balance_tree_depth"
    "fa (with_balance (tree_leaf tree i) t (fb (leaf_balance tree i t))) = Ok ca"
    "\<And>w. shows_single l tree i t args tx_type w \<Longrightarrow> \<exists>bs. op_public_data op = Ok bs \<and> pub_bits w = Ok (from_be_bytes bs)"
    "tree_matches l s' (tree(i \<mapsto> ca))"
  shows "op_shown l tree op fee s'"
proof -
  obtain w' where w: "w = Ok (w', tree(i \<mapsto> ca))" "shows_single l tree i t args tx_type w'"
    using single_step [where fa = fa and fb = fb, OF assms(5,6)] assms(2) by blast
  show ?thesis by (rule witness_shown [OF assms(1) w(1) assms(4) assms(7) [OF w(2)] assms(8,3)])
qed

lemma pair_op_shown:
  assumes "op_witness l tree op = of_witness w pub_bits input operations (fee_list fee)" "w = apply_pair l tree i j t fa fb ga gb args tx_type"
    "\<And>x w bs. op_public_data op = Ok bs \<Longrightarrow> size (operations x w (from_be_bytes bs)) = op_chunks op"
    "\<exists>x. input = Ok x" "unat t < 2 ^ balance_tree_depth"
    "fa (with_balance (tree_leaf tree i) t (fb (leaf_balance tree i t))) = Ok ca"
    "ga (with_balance (tree_leaf (tree(i \<mapsto> ca)) j) t (gb (leaf_balance (tree(i \<mapsto> ca)) j t))) = Ok cb"
    "\<And>w. shows_pair l i j t args tx_type w \<Longrightarrow> \<exists>bs. op_public_data op = Ok bs \<and> pub_bits w = Ok (from_be_bytes bs)"
    "tree_matches l s' (tree(i \<mapsto> ca, j \<mapsto> cb))"
  shows "op_shown l tree op fee s'"
proof -
  obtain w' where w: "w = Ok (w', tree(i \<mapsto> ca, j \<mapsto> cb))" "shows_pair l i j t args tx_type w'"
    using pair_step [where fa = fa and fb = fb and ga = ga and gb = gb, OF assms(5,6,7)] assms(2) by blast
  show ?thesis by (rule witness_shown [OF assms(1) w(1) assms(4) assms(8) [OF w(2)] assms(9,3)])
qed

section \<open>Deposits and exits\<close>

lemma token_in_tree: "t \<le> max_token_id \<Longrightarrow> unat t < 2 ^ balance_tree_depth"
  by (simp add: max_token_id_eq balance_tree_depth_def word_le_nat_alt)

lemma code_fields:
  assumes "circuit_lib_ok l"
  shows "field_shows (fr_from_str l 1, 8) (Ok [1])" "field_shows (fr_from_str l 2, 8) (Ok [2])"
    "field_shows (fr_from_str l 3, 8) (Ok [3])" "field_shows (fr_from_str l 5, 8) (Ok [5])"
    "field_shows (fr_from_str l 6, 8) (Ok [6])" "field_shows (fr_from_str l 7, 8) (Ok [7])"
    "field_shows (fr_from_str l 8, 8) (Ok [8])"
  using small_fields(5) [OF assms, of 1] small_fields(5) [OF assms, of 2] small_fields(5) [OF assms, of 3]
    small_fields(5) [OF assms, of 5] small_fields(5) [OF assms, of 6] small_fields(5) [OF assms, of 7]
    small_fields(5) [OF assms, of 8] by simp_all

lemma account_matches_add:
  "account_matches l a ca \<Longrightarrow> account_matches l (add_balance a t n)
    (with_balance ca t (add_assign l (balance_value (ca_subtree ca) t) (fr_from_str l n)))"
  by (simp add: account_matches_def account_simps add_balance_fields balance_value_upd add_assign_balance)

lemma with_balance_address: "ca\<lparr>ca_address := x, ca_subtree := m\<rparr> = ca\<lparr>ca_subtree := m, ca_address := x\<rparr>"
  by (cases ca) simp

lemma account_matches_set:
  "account_matches l a ca \<Longrightarrow> v = n mod cx_modulus l \<Longrightarrow> account_matches l (set_balance a t n) (with_balance ca t v)"
  by (simp add: account_matches_def account_simps set_balance_fields balance_value_upd)

lemma account_matches_balance: "account_matches l a ca \<Longrightarrow> balance_value (ca_subtree ca) t = get_balance a t mod cx_modulus l"
  by (simp add: account_matches_def)

lemma account_matches_address:
  "account_matches l a ca \<Longrightarrow> account_matches l (a\<lparr>acc_address := x\<rparr>) (ca\<lparr>ca_address := unat x\<rparr>)"
  by (simp add: account_matches_def account_simps)

lemma default_with_address_eq: "default_with_address x = default_account\<lparr>acc_address := x\<rparr>"
  by (simp add: default_with_address_def default_account_def)

lemma deposit_account:
  assumes "tree_matches l s tree" "state_inv s" "account_count s < 2 ^ 32" "deposit_create_op s d = Ok op"
    "deposit_apply_op s op = Ok ((fee, us), s')"
  obtains a where "depop_priority_op op = d" "dep_token d \<le> max_token_id" "fee = None"
    "s' = insert_account (depop_account_id op) (add_balance a (dep_token d) (dep_amount d)) s"
    "account_matches l a ((tree_leaf tree (depop_account_id op))\<lparr>ca_address := unat (dep_to d)\<rparr>)"
    "ca_address (tree_leaf tree (depop_account_id op)) = unat (dep_to d) \<or> ca_address (tree_leaf tree (depop_account_id op)) = 0"
proof (cases "get_account s (depop_account_id op)")
  case None
  have matches: "account_matches l default_account (tree_leaf tree (depop_account_id op))"
    by (rule tree_matches_new [OF assms(1) None])
  then have "account_matches l (default_with_address (dep_to d)) ((tree_leaf tree (depop_account_id op))\<lparr>ca_address := unat (dep_to d)\<rparr>)"
    unfolding default_with_address_eq by (rule account_matches_address)
  moreover have "depop_priority_op op = d" "dep_token d \<le> max_token_id"
    using assms(4) by (auto simp: create_op_Ok split: option.splits)
  moreover have "ca_address (tree_leaf tree (depop_account_id op)) = 0"
    using matches by (simp add: account_matches_def default_account_def)
  ultimately show ?thesis
    using that [of "default_with_address (dep_to d)"] assms(5) None by (auto simp: apply_op_Ok Let_def)
next
  case (Some a)
  have d: "depop_priority_op op = d" "dep_token d \<le> max_token_id"
    using assms(4) by (auto simp: create_op_Ok split: option.splits)
  have "get_account s (get_free_account_id s) = None"
    using assms(2,3) free_id_unused by (simp add: state_inv_def)
  then have "fmlookup (zs_index s) (dep_to d) = Some (depop_account_id op)"
    using assms(4) Some by (auto simp: create_op_Ok split: option.splits)
  then have addr: "acc_address a = dep_to d"
    using assms(2) index_ok_index [of s "dep_to d"] Some by (force simp: state_inv_def)
  have matches: "account_matches l a (tree_leaf tree (depop_account_id op))"
    by (rule tree_matches_account [OF assms(1) Some])
  show ?thesis
    using that [of a] d assms(5) Some matches addr by (auto simp: apply_op_Ok Let_def account_matches_def)
qed

lemma deposit_bits:
  assumes "circuit_lib_ok l" "dep_amount (depop_priority_op op) < 2 ^ 128"
    "shows_single l tree (depop_account_id op) (dep_token (depop_priority_op op)) args 1 w"
    "\<And>b. oa_full_amount (args b) = fr_from_str l (dep_amount (depop_priority_op op))"
    "\<And>b. oa_eth_address (args b) = unat (dep_to (depop_priority_op op))"
  shows "\<exists>bs. op_public_data (OpDeposit op) = Ok bs \<and> (deposit_pubdata w :: ('e, bool list) res) = Ok (from_be_bytes bs)"
  unfolding op_public_data.simps deposit_op_public_data_def deposit_pubdata_def
  by (rule shown_pubdata) (use assms small_fields [OF assms(1)] code_fields [OF assms(1)] in
    \<open>auto simp: shows_single_def param_defs op_consts\<close>)

lemma deposit_shown:
  assumes lib: "circuit_lib_ok l" and st: "tree_matches l s tree" "state_inv s" "account_count s < 2 ^ 32"
    and op: "deposit_create_op s d = Ok op" "deposit_apply_op s op = Ok ((fee, us), s')" and typed: "dep_amount d < 2 ^ 128"
  shows "op_shown l tree (OpDeposit op) fee s'"
proof -
  let ?i = "depop_account_id op" and ?t = "dep_token d" and ?to = "unat (dep_to d)" and ?amount = "fr_from_str l (dep_amount d)"
  let ?leaf = "tree_leaf tree ?i"
  obtain a where a: "depop_priority_op op = d" "dep_token d \<le> max_token_id" "fee = None"
    "s' = insert_account ?i (add_balance a ?t (dep_amount d)) s"
    "account_matches l a (?leaf\<lparr>ca_address := ?to\<rparr>)" "ca_address ?leaf = ?to \<or> ca_address ?leaf = 0"
    by (rule deposit_account [OF st op])
  let ?b = "with_balance ?leaf ?t (add_assign l (leaf_balance tree ?i ?t) ?amount)"
  let ?ca = "?b\<lparr>ca_address := ?to\<rparr>"
  show ?thesis
  proof (rule single_op_shown)
    show "op_witness l tree (OpDeposit op)
        = of_witness (deposit_witness l tree op) deposit_pubdata (Ok ()) (\<lambda>_. deposit_operations l) (fee_list fee)"
      by (simp add: op_witness_def a(3) fee_list_def)
    show "deposit_witness l tree op = apply_single l tree ?i ?t
        (\<lambda>acc. res_map (\<lambda>_. acc\<lparr>ca_address := ?to\<rparr>) (assert_that (ca_address acc = ?to \<or> ca_address acc = 0)))
        (\<lambda>bal. add_assign l bal ?amount)
        (\<lambda>b. no_arguments\<lparr>oa_eth_address := ?to, oa_full_amount := ?amount, oa_a := ?amount\<rparr>) 1"
      using typed by (simp add: deposit_witness_def deposit_apply_data_def amount_u128_def fr_from_hex_Ok a(1) unat_word_less [OF _ lib] Let_def)
    show "res_map (\<lambda>_. ?ca) (assert_that (ca_address ?b = ?to \<or> ca_address ?b = 0)) = Ok ?ca"
      using a(6) by (simp add: outcome_simps)
    show "tree_matches l s' (tree(?i \<mapsto> ?ca))"
      unfolding a(4) using account_matches_add [OF a(5), of ?t "dep_amount d"]
      by (intro tree_matches_update [OF st(1)]) (simp add: with_balance_address)
    show "\<exists>bs. op_public_data (OpDeposit op) = Ok bs \<and> deposit_pubdata w = Ok (from_be_bytes bs)"
      if "shows_single l tree ?i ?t (\<lambda>b. no_arguments\<lparr>oa_eth_address := ?to, oa_full_amount := ?amount, oa_a := ?amount\<rparr>) 1 w" for w
      by (rule deposit_bits [OF lib]) (use that a(1) typed in auto)
  qed (use token_in_tree [OF a(2)] in \<open>simp_all add: deposit_operations_def size_operations op_consts\<close>)
qed

lemma account_matches_same: "account_matches l a ca \<Longrightarrow> account_matches l a (with_balance ca t (balance_value (ca_subtree ca) t))"
  by (simp add: account_matches_def balance_value_upd)

lemma full_exit_bits:
  assumes "circuit_lib_ok l" "\<forall>w. fxop_withdraw_amount op = Some w \<longrightarrow> w < 2 ^ 128"
    "shows_single l tree (fx_account_id (fxop_priority_op op)) (fx_token (fxop_priority_op op)) args 6 w"
    "\<And>b. oa_full_amount (args b) = (case fxop_withdraw_amount op of Some n \<Rightarrow> fr_from_str l n | None \<Rightarrow> 0)"
    "\<And>b. oa_eth_address (args b) = unat (fx_eth_address (fxop_priority_op op))"
  shows "\<exists>bs. op_public_data (OpFullExit op) = Ok bs \<and> (full_exit_pubdata w :: ('e, bool list) res) = Ok (from_be_bytes bs)"
proof -
  have amount: "field_shows (case fxop_withdraw_amount op of Some n \<Rightarrow> fr_from_str l n | None \<Rightarrow> 0, 128)
      (u128_field (case fxop_withdraw_amount op of None \<Rightarrow> 0 | Some n \<Rightarrow> n))"
    using small_fields(6) [OF assms(1)] small_fields(6) [OF assms(1), of 0] assms(2)
    by (auto simp: fr_from_str_def split: option.split)
  show ?thesis
    unfolding op_public_data.simps full_exit_op_public_data_def full_exit_pubdata_def
    by (rule shown_pubdata) (use assms amount small_fields [OF assms(1)] code_fields [OF assms(1)] in
      \<open>auto simp: shows_single_def param_defs op_consts\<close>)
qed

lemma full_exit_shown:
  assumes lib: "circuit_lib_ok l" and st: "tree_matches l s tree"
    and op: "full_exit_create_op s f = Ok op" "full_exit_apply_op s op = Ok ((fee, us), s')"
    and typed: "\<forall>w. fxop_withdraw_amount op = Some w \<longrightarrow> w < 2 ^ 128"
  shows "op_shown l tree (OpFullExit op) fee s'"
proof -
  let ?success = "fxop_withdraw_amount op \<noteq> None" and ?to = "unat (fx_eth_address f)" and ?i = "fx_account_id f" and ?t = "fx_token f"
  let ?amount = "case fxop_withdraw_amount op of Some n \<Rightarrow> fr_from_str l n | None \<Rightarrow> 0"
  let ?leaf = "tree_leaf tree ?i"
  let ?ca = "with_balance ?leaf ?t (if ?success then 0 else leaf_balance tree ?i ?t)"
  have f: "fxop_priority_op op = f" "fx_token f \<le> max_token_id"
    using op(1) by (auto simp: create_op_Ok)
  have fee: "fee = None"
    using op(2) by (auto simp: apply_op_Ok Let_def split: option.splits)
  have tree: "tree_matches l s' (tree(?i \<mapsto> ?ca))"
  proof (cases "fxop_withdraw_amount op")
    case None
    then have "s' = s" using op(2) by (auto simp: apply_op_Ok)
    then show ?thesis
      using tree_matches_write [OF st account_matches_same [of l "state_account s ?i" ?leaf ?t]] st None by (simp add: tree_matches_def)
  next
    case (Some w)
    then obtain a where a: "get_account s ?i = Some a" "s' = insert_account ?i (set_balance a ?t 0) s"
      using op(2) f by (auto simp: apply_op_Ok Let_def)
    then show ?thesis
      using Some account_matches_set [OF tree_matches_account [OF st a(1)], of 0 0 ?t] by (simp add: tree_matches_update [OF st])
  qed
  show ?thesis
  proof (rule single_op_shown)
    show "op_witness l tree (OpFullExit op) = of_witness (full_exit_witness l tree (op, ?success)) full_exit_pubdata
        (Ok ()) (\<lambda>_. full_exit_operations l) (fee_list fee)"
      by (simp add: op_witness_def fee fee_list_def)
    show "full_exit_witness l tree (op, ?success) = apply_single l tree ?i ?t Ok (\<lambda>bal. if ?success then 0 else bal)
        (\<lambda>b. no_arguments\<lparr>oa_eth_address := ?to, oa_full_amount := ?amount, oa_a := b\<rparr>) 6"
      by (simp add: full_exit_witness_def full_exit_apply_data_def fr_from_hex_Ok f(1) unat_word_less [OF _ lib] Let_def)
    show "\<exists>bs. op_public_data (OpFullExit op) = Ok bs \<and> full_exit_pubdata w = Ok (from_be_bytes bs)"
      if "shows_single l tree ?i ?t (\<lambda>b. no_arguments\<lparr>oa_eth_address := ?to, oa_full_amount := ?amount, oa_a := b\<rparr>) 6 w" for w
      by (rule full_exit_bits [OF lib]) (use that f(1) typed in auto)
  qed (use token_in_tree [OF f(2)] tree in \<open>simp_all add: full_exit_operations_def size_operations op_consts\<close>)
qed

section \<open>Withdrawals and new keys\<close>

lemma next_nonce:
  assumes "circuit_lib_ok l" "unat (n :: nonce) + 1 < 2 ^ 32"
  shows "add_assign l (unat n) (fr_from_str l 1) = unat (n + 1)"
proof -
  have "unat (n + 1) = unat n + 1" using assms(2) by (simp add: unat_word_ariths)
  moreover have "unat n + 1 < cx_modulus l" using lib_modulus [OF assms(1)] assms(2) by simp
  ultimately show ?thesis by (simp add: add_assign_def fr_from_str_def mod_simps)
qed

lemma account_matches_nonce:
  assumes "circuit_lib_ok l" "account_matches l a ca" "unat (acc_nonce a) + 1 < 2 ^ 32"
  shows "account_matches l (a\<lparr>acc_nonce := acc_nonce a + 1\<rparr>) (ca\<lparr>ca_nonce := add_assign l (ca_nonce ca) (fr_from_str l 1)\<rparr>)"
  using assms next_nonce [OF assms(1,3)] by (simp add: account_matches_def account_simps)

text \<open>The sender of an operation pays, and its nonce goes up.\<close>

lemma account_matches_pay:
  assumes "circuit_lib_ok l" "account_matches l a ca" "unat (acc_nonce a) + 1 < 2 ^ 32" "n \<le> get_balance a t"
    "v = (get_balance a t - n) mod cx_modulus l"
  shows "account_matches l ((set_balance a t (get_balance a t - n))\<lparr>acc_nonce := acc_nonce a + 1\<rparr>)
    ((with_balance ca t v)\<lparr>ca_nonce := add_assign l (ca_nonce ca) (fr_from_str l 1)\<rparr>)"
  using account_matches_nonce [OF assms(1) account_matches_set [OF assms(2,5)]] assms(3) by (simp add: set_balance_fields)

lemma withdraw_bits:
  assumes "circuit_lib_ok l" "wd_amount (wdop_tx op) < 2 ^ 128"
    "shows_single l tree (wdop_account_id op) (wd_token (wdop_tx op)) args 3 w"
    "\<And>b. oa_full_amount (args b) = fr_from_str l (wd_amount (wdop_tx op))" "\<And>b. oa_fee (args b) = x"
    "field_shows (x, fee_width) (pack_fee_amount (wd_fee (wdop_tx op)))" "\<And>b. oa_eth_address (args b) = unat (wd_to (wdop_tx op))"
  shows "\<exists>bs. op_public_data (OpWithdraw op) = Ok bs \<and> (withdraw_pubdata w :: ('e, bool list) res) = Ok (from_be_bytes bs)"
  unfolding op_public_data.simps withdraw_op_public_data_def withdraw_pubdata_def
  by (rule shown_pubdata) (use assms small_fields [OF assms(1)] code_fields [OF assms(1)] in
    \<open>auto simp: shows_single_def param_defs op_consts fee_width_def\<close>)

lemma withdraw_shown:
  assumes lib: "circuit_lib_ok l" and st: "tree_matches l s tree"
    and op: "withdraw_create_op c s tx = Ok op" "withdraw_apply_op s op = Ok ((fee, us), s')"
    and typed: "tx_typed (TxWithdraw tx)" and room: "unat (wd_nonce tx) + 1 < 2 ^ 32"
  shows "op_shown l tree (OpWithdraw op) fee s'"
proof -
  let ?i = "wdop_account_id op" and ?t = "wd_token tx" and ?amount = "fr_from_str l (wd_amount tx)" and ?fee = "fr_from_str l (wd_fee tx)"
  let ?leaf = "tree_leaf tree ?i"
  let ?b = "with_balance ?leaf ?t (sub_assign l (sub_assign l (leaf_balance tree ?i ?t) ?amount) ?fee)"
  let ?ca = "?b\<lparr>ca_nonce := add_assign l (ca_nonce ?leaf) (fr_from_str l 1)\<rparr>"
  have tx: "wdop_tx op = tx" "wd_token tx \<le> max_token_id" using op(1) by (auto simp: create_op_Ok)
  obtain a where a: "get_account s ?i = Some a" "wd_nonce tx = acc_nonce a" "wd_amount tx + wd_fee tx \<le> get_balance a ?t"
    "fee = Some \<lparr>cf_token = ?t, cf_amount = wd_fee tx\<rparr>"
    "s' = insert_account ?i ((set_balance a ?t (get_balance a ?t - (wd_amount tx + wd_fee tx)))\<lparr>acc_nonce := acc_nonce a + 1\<rparr>) s"
    using op(2) tx by (auto simp: apply_op_Ok Let_def)
  note matches = tree_matches_account [OF st a(1)]
  obtain x y where x: "(fee_encoded l (wd_fee tx) :: (error, fr) res) = Ok x" "field_shows (x, fee_width) (pack_fee_amount (wd_fee tx))"
    "wd_fee tx < 2 ^ 128" and y: "(amount_encoded l (wd_amount tx) :: (error, fr) res) = Ok y"
    using fee_field [OF lib, of "wd_fee tx"] u128_amount_field [OF lib, of "wd_amount tx"] typed by (metis packable_amounts.simps(2) tx_typed.simps(1))
  let ?args = "\<lambda>b. no_arguments\<lparr>oa_eth_address := unat (wd_to tx), oa_amount_packed := y, oa_full_amount := ?amount, oa_fee := x, oa_a := b,
    oa_b := add_assign l ?amount ?fee\<rparr>"
  show ?thesis
  proof (rule single_op_shown)
    show "op_witness l tree (OpWithdraw op) = of_witness (withdraw_witness l tree op) withdraw_pubdata
        (sig_data_from l (withdraw_get_bytes tx) (wd_signature tx)) (withdraw_operations l) (fee_list fee)"
      by (simp add: op_witness_def a(4) fee_list_def tx(1) Let_def)
    show "(withdraw_witness l tree op :: (error, _) res) = apply_single l tree ?i ?t (increment_nonce l)
        (\<lambda>bal. sub_assign l (sub_assign l bal ?amount) ?fee) ?args 3"
      using typed x y by (simp add: withdraw_witness_def withdraw_apply_data_def amount_u128_def fr_from_hex_Ok tx(1) unat_word_less [OF _ lib] Let_def)
    show "increment_nonce l ?b = Ok ?ca" by (simp add: increment_nonce_def)
    show "tree_matches l s' (tree(?i \<mapsto> ?ca))"
      unfolding a(5) using room a(2,3) small_numbers(6) [OF lib]
      by (intro tree_matches_update [OF st] account_matches_pay [OF lib matches])
        (simp_all add: account_matches_balance [OF matches] sub_two_balance)
    show "\<exists>bs. op_public_data (OpWithdraw op) = Ok bs \<and> withdraw_pubdata w = Ok (from_be_bytes bs)"
      if "shows_single l tree ?i ?t ?args 3 w" for w
      by (rule withdraw_bits [OF lib]) (use that tx(1) typed x(2) in auto)
    show "\<exists>input. sig_data_from l (withdraw_get_bytes tx) (wd_signature tx) = Ok input"
      using typed_sig_data [OF lib typed] by simp
  qed (use token_in_tree [OF tx(2)] in \<open>simp_all add: withdraw_operations_def size_operations op_consts\<close>)
qed

lemma change_pubkey_bits:
  assumes "circuit_lib_ok l" "shows_single l tree (cpop_account_id op) (cp_fee_token (cpop_tx op)) args 7 w"
    "ca_nonce (tree_leaf tree (cpop_account_id op)) = unat (cp_nonce (cpop_tx op))"
    "\<And>b. oa_new_pub_key_hash (args b) = unat (cp_new_pk_hash (cpop_tx op))" "\<And>b. oa_fee (args b) = x"
    "field_shows (x, fee_width) (pack_fee_amount (cp_fee (cpop_tx op)))" "\<And>b. oa_eth_address (args b) = unat (cp_account (cpop_tx op))"
  shows "\<exists>bs. op_public_data (OpChangePubKey op) = Ok bs \<and> (change_pubkey_pubdata w :: ('e, bool list) res) = Ok (from_be_bytes bs)"
  unfolding op_public_data.simps change_pub_key_op_public_data_def change_pubkey_pubdata_def
  by (rule shown_pubdata) (use assms small_fields [OF assms(1)] code_fields [OF assms(1)] in
    \<open>auto simp: shows_single_def param_defs op_consts fee_width_def\<close>)

lemma change_pubkey_shown:
  assumes lib: "circuit_lib_ok l" and st: "tree_matches l s tree" "index_ok s"
    and op: "change_pub_key_create_op c s tx = Ok op" "change_pub_key_apply_op s op = Ok ((fee, us), s')"
    and typed: "tx_typed (TxChangePubKey tx)" "cp_fee_token tx \<le> max_token_id" and room: "unat (cp_nonce tx) + 1 < 2 ^ 32"
  shows "op_shown l tree (OpChangePubKey op) fee s'"
proof -
  let ?i = "cpop_account_id op" and ?t = "cp_fee_token tx" and ?fee = "fr_from_str l (cp_fee tx)"
    and ?address = "unat (cp_account tx)" and ?hash = "unat (cp_new_pk_hash tx)"
  let ?leaf = "tree_leaf tree ?i"
  let ?b = "with_balance ?leaf ?t (sub_assign l (leaf_balance tree ?i ?t) ?fee)"
  let ?ca = "?b\<lparr>ca_pub_key_hash := ?hash, ca_nonce := add_assign l (ca_nonce ?leaf) (fr_from_str l 1)\<rparr>"
  have tx: "cpop_tx op = tx" "fmlookup (zs_index s) (cp_account tx) = Some ?i" using op(1) by (auto simp: create_op_Ok)
  obtain a where a: "get_account s ?i = Some a" "cp_nonce tx = acc_nonce a" "cp_fee tx \<le> get_balance a ?t"
    "fee = Some \<lparr>cf_token = ?t, cf_amount = cp_fee tx\<rparr>"
    "s' = insert_account ?i (set_balance (a\<lparr>acc_nonce := acc_nonce a + 1, acc_pub_key_hash := cp_new_pk_hash tx\<rparr>) ?t
      (get_balance a ?t - cp_fee tx)) s"
    using op(2) tx by (auto simp: apply_op_Ok Let_def)
  have "acc_address a = cp_account tx"
    using index_ok_index [OF st(2) tx(2)] a(1) by auto
  note matches = tree_matches_account [OF st(1) a(1)]
  then have address: "ca_address ?leaf = ?address" and nonce: "ca_nonce ?leaf = unat (cp_nonce tx)"
    using \<open>acc_address a = cp_account tx\<close> a(2) by (simp_all add: account_matches_def)
  obtain x where x: "(fee_encoded l (cp_fee tx) :: (error, fr) res) = Ok x" "field_shows (x, fee_width) (pack_fee_amount (cp_fee tx))"
    "cp_fee tx < 2 ^ 128"
    using fee_field [OF lib, of "cp_fee tx"] typed(1) by (metis packable_amounts.simps(4) tx_typed.simps(4))
  let ?args = "\<lambda>b. no_arguments\<lparr>oa_eth_address := ?address, oa_fee := x, oa_a := b, oa_b := ?fee,
    oa_pub_nonce := fr_from_str l (unat (cp_nonce tx)), oa_new_pub_key_hash := ?hash\<rparr>"
  show ?thesis
  proof (rule single_op_shown)
    show "op_witness l tree (OpChangePubKey op) = of_witness (change_pubkey_witness l tree op) change_pubkey_pubdata
        (sig_data_from l (change_pub_key_get_bytes tx) (cp_signature tx)) (change_pubkey_operations l) (fee_list fee)"
      by (simp add: op_witness_def a(4) fee_list_def tx(1) Let_def)
    show "(change_pubkey_witness l tree op :: (error, _) res) = apply_single l tree ?i ?t
        (\<lambda>acc. res_bind (assert_that (ca_address acc = ?address)) (\<lambda>_. increment_nonce l (acc\<lparr>ca_pub_key_hash := ?hash\<rparr>)))
        (\<lambda>bal. sub_assign l bal ?fee) ?args 7"
      using x by (simp add: change_pubkey_witness_def change_pubkey_apply_data_def amount_u128_def fr_from_hex_Ok tx(1) unat_word_less [OF _ lib] Let_def)
    show "res_bind (assert_that (ca_address ?b = ?address)) (\<lambda>_. increment_nonce l (?b\<lparr>ca_pub_key_hash := ?hash\<rparr>)) = Ok ?ca"
      using address by (simp add: increment_nonce_def outcome_simps)
    show "tree_matches l s' (tree(?i \<mapsto> ?ca))"
      unfolding a(5) using a(2,3) room matches small_numbers(6) [OF lib] next_nonce [OF lib, of "acc_nonce a"]
      by (intro tree_matches_update [OF st(1)])
        (simp add: account_matches_def account_simps set_balance_fields balance_value_upd sub_assign_balance)
    show "\<exists>bs. op_public_data (OpChangePubKey op) = Ok bs \<and> change_pubkey_pubdata w = Ok (from_be_bytes bs)"
      if "shows_single l tree ?i ?t ?args 7 w" for w
      by (rule change_pubkey_bits [OF lib]) (use that tx(1) nonce x(2) in auto)
    show "\<exists>input. sig_data_from l (change_pub_key_get_bytes tx) (cp_signature tx) = Ok input"
      using typed_sig_data [OF lib typed(1)] by simp
  qed (use token_in_tree [OF typed(2)] size_operations(3) in simp_all)
qed

section \<open>Transfers and forced exits\<close>

lemma transfer_bits:
  assumes "circuit_lib_ok l" "shows_pair l (trop_from op) (trop_to op) (tr_token (trop_tx op)) args 5 w"
    "\<And>b. oa_amount_packed (args b) = y" "field_shows (y, amount_width) (pack_token_amount (tr_amount (trop_tx op)))"
    "\<And>b. oa_fee (args b) = x" "field_shows (x, fee_width) (pack_fee_amount (tr_fee (trop_tx op)))"
  shows "\<exists>bs. op_public_data (OpTransfer op) = Ok bs \<and> (transfer_pubdata w :: ('e, bool list) res) = Ok (from_be_bytes bs)"
  unfolding op_public_data.simps transfer_op_public_data_def transfer_pubdata_def
  by (rule shown_pubdata) (use assms small_fields [OF assms(1)] code_fields [OF assms(1)] in
    \<open>auto simp: shows_pair_def param_defs op_consts fee_width_def amount_width_def\<close>)

lemma transfer_to_new_bits:
  assumes "circuit_lib_ok l" "shows_pair l (tnop_from op) (tnop_to op) (tr_token (tnop_tx op)) args 2 w"
    "\<And>b. oa_amount_packed (args b) = y" "field_shows (y, amount_width) (pack_token_amount (tr_amount (tnop_tx op)))"
    "\<And>b. oa_fee (args b) = x" "field_shows (x, fee_width) (pack_fee_amount (tr_fee (tnop_tx op)))"
    "\<And>b. oa_eth_address (args b) = unat (tr_to (tnop_tx op))"
  shows "\<exists>bs. op_public_data (OpTransferToNew op) = Ok bs \<and> (transfer_to_new_pubdata w :: ('e, bool list) res) = Ok (from_be_bytes bs)"
  unfolding op_public_data.simps transfer_to_new_op_public_data_def transfer_to_new_pubdata_def
  by (rule shown_pubdata) (use assms small_fields [OF assms(1)] code_fields [OF assms(1)] in
    \<open>auto simp: shows_pair_def param_defs op_consts fee_width_def amount_width_def\<close>)

lemma forced_exit_bits:
  assumes "circuit_lib_ok l" "shows_pair l (fe_initiator_account_id (feop_tx op)) (feop_target_account_id op) (fe_token (feop_tx op)) args 8 w"
    "(case feop_withdraw_amount op of None \<Rightarrow> 0 | Some n \<Rightarrow> n) = k" "k < 2 ^ 128"
    "\<And>b. oa_full_amount (args b) = fr_from_str l k" "\<And>b. oa_fee (args b) = x"
    "field_shows (x, fee_width) (pack_fee_amount (fe_fee (feop_tx op)))" "\<And>b. oa_eth_address (args b) = unat (fe_target (feop_tx op))"
  shows "\<exists>bs. op_public_data (OpForcedExit op) = Ok bs \<and> (forced_exit_pubdata w :: ('e, bool list) res) = Ok (from_be_bytes bs)"
proof -
  have "res_map word_to_be (forced_exit_op_amount op) = u128_field k"
    using assms(3,4) by (cases "feop_withdraw_amount op") (auto simp: forced_exit_op_amount_def u128_field_def to_u128_def word_to_be_def)
  then show ?thesis
    unfolding op_public_data.simps forced_exit_op_public_data_def forced_exit_pubdata_def
    by (intro shown_pubdata) (use assms small_fields [OF assms(1)] code_fields [OF assms(1)] in
      \<open>auto simp: shows_pair_def param_defs op_consts fee_width_def\<close>)
qed

end
