(* ===== verification/WitnessPairs.thy ===== *)
theory WitnessPairs
  imports WitnessOps
begin

text \<open>
  The witnesses of the operations on two accounts: transfers, to an account (also the sender itself) and to a new
  one, and forced exits.
\<close>

section \<open>Two changes\<close>

text \<open>A matching account is determined by what the circuit sees of it.\<close>

lemma account_matches_cong:
  "account_matches l a ca \<Longrightarrow> acc_nonce b = acc_nonce a \<Longrightarrow> acc_pub_key_hash b = acc_pub_key_hash a \<Longrightarrow>
    acc_address b = acc_address a \<Longrightarrow> get_balance b = get_balance a \<Longrightarrow> account_matches l b ca"
  by (simp add: account_matches_def)

lemma tree_matches_twice:
  "tree_matches l s tree \<Longrightarrow> account_matches l b cb \<Longrightarrow> tree_matches l (insert_account i b s) (tree(i \<mapsto> ca, i \<mapsto> cb))"
  using tree_matches_update [of l s tree b cb i] by simp

text \<open>What both transfers have in common: the arguments, and how the witness is made.\<close>

abbreviation sent_data :: "transfer \<Rightarrow> account_id \<Rightarrow> account_id \<Rightarrow> transfer_data" where
  "sent_data tx i j \<equiv> \<lparr>trd_amount = tr_amount tx, trd_fee = tr_fee tx, trd_token = tr_token tx,
    trd_from_account_address = i, trd_to_account_address = j\<rparr>"

lemma transfer_arguments:
  assumes "circuit_lib_ok l" "tx_typed (TxTransfer tx)"
  obtains x y where "field_shows (y, amount_width) (pack_token_amount (tr_amount tx))" "field_shows (x, fee_width) (pack_fee_amount (tr_fee tx))"
    "\<And>tree i j ga to ty. (transfer_apply_with l tree (sent_data tx i j) ga to ty :: (error, _) res) = apply_pair l tree i j (tr_token tx) (increment_nonce l)
      (\<lambda>bal. sub_assign l (sub_assign l bal (fr_from_str l (tr_amount tx))) (fr_from_str l (tr_fee tx)))
      ga (\<lambda>bal. add_assign l bal (fr_from_str l (tr_amount tx)))
      (\<lambda>b. no_arguments\<lparr>oa_eth_address := to, oa_amount_packed := y, oa_full_amount := fr_from_str l (tr_amount tx), oa_fee := x,
        oa_a := b, oa_b := add_assign l (fr_from_str l (tr_amount tx)) (fr_from_str l (tr_fee tx))\<rparr>) ty"
proof -
  have pack: "is_token_amount_packable (tr_amount tx) = Ok True" "is_fee_amount_packable (tr_fee tx) = Ok True"
    using assms(2) by simp_all
  obtain x where x: "(fee_encoded l (tr_fee tx) :: (error, fr) res) = Ok x" "field_shows (x, fee_width) (pack_fee_amount (tr_fee tx))"
    "tr_fee tx < 2 ^ 128"
    using fee_field [OF assms(1) pack(2)] by metis
  obtain y where y: "(amount_encoded l (tr_amount tx) :: (error, fr) res) = Ok y" "field_shows (y, amount_width) (pack_token_amount (tr_amount tx))"
    using u128_amount_field [OF assms(1) token_packable_u128 [OF pack(1)]] by metis
  show ?thesis
    using x y token_packable_u128 [OF pack(1)]
    by (intro that [OF y(2) x(2)]) (simp add: transfer_apply_with_def Let_def)
qed

text \<open>The sender of a transfer after the first change.\<close>

abbreviation paid_account :: "account \<Rightarrow> token_id \<Rightarrow> nat \<Rightarrow> account" where
  "paid_account a t n \<equiv> (set_balance a t (get_balance a t - n))\<lparr>acc_nonce := acc_nonce a + 1\<rparr>"

lemma sender_pays:
  assumes "circuit_lib_ok l" "tree_matches l s tree" "get_account s i = Some a" "amount + fee \<le> get_balance a t" "unat (acc_nonce a) + 1 < 2 ^ 32"
  obtains ca where "(increment_nonce l (with_balance (tree_leaf tree i) t
      (sub_assign l (sub_assign l (leaf_balance tree i t) (fr_from_str l amount)) (fr_from_str l fee))) :: (error, _) res) = Ok ca"
    "account_matches l (paid_account a t (amount + fee)) ca" "tree_matches l (insert_account i (paid_account a t (amount + fee)) s) (tree(i \<mapsto> ca))"
proof -
  note matches = tree_matches_account [OF assms(2,3)]
  let ?v = "sub_assign l (sub_assign l (leaf_balance tree i t) (fr_from_str l amount)) (fr_from_str l fee)"
  let ?ca = "(with_balance (tree_leaf tree i) t ?v)\<lparr>ca_nonce := add_assign l (ca_nonce (tree_leaf tree i)) (fr_from_str l 1)\<rparr>"
  have paid: "account_matches l (paid_account a t (amount + fee)) ?ca"
    by (rule account_matches_pay [OF assms(1) matches assms(5,4)])
      (simp add: account_matches_balance [OF matches] sub_two_balance small_numbers(6) [OF assms(1)] assms(4))
  show ?thesis
    by (rule that [OF _ paid tree_matches_update [OF assms(2) paid]]) (simp add: increment_nonce_def)
qed

section \<open>Transfers\<close>

lemma transfer_changes:
  assumes lib: "circuit_lib_ok l" and st: "tree_matches l s tree" and op: "apply_transfer_op s op = Ok ((fee, us), s')"
    and room: "unat (tr_nonce (trop_tx op)) + 1 < 2 ^ 32"
  obtains ca cb where "fee = Some \<lparr>cf_token = tr_token (trop_tx op), cf_amount = tr_fee (trop_tx op)\<rparr>"
    "(increment_nonce l (with_balance (tree_leaf tree (trop_from op)) (tr_token (trop_tx op))
      (sub_assign l (sub_assign l (leaf_balance tree (trop_from op) (tr_token (trop_tx op))) (fr_from_str l (tr_amount (trop_tx op))))
        (fr_from_str l (tr_fee (trop_tx op))))) :: (error, _) res) = Ok ca"
    "with_balance (tree_leaf (tree(trop_from op \<mapsto> ca)) (trop_to op)) (tr_token (trop_tx op))
      (add_assign l (leaf_balance (tree(trop_from op \<mapsto> ca)) (trop_to op) (tr_token (trop_tx op))) (fr_from_str l (tr_amount (trop_tx op)))) = cb"
    "tree_matches l s' (tree(trop_from op \<mapsto> ca, trop_to op \<mapsto> cb))"
proof -
  let ?tx = "trop_tx op" and ?i = "trop_from op" and ?j = "trop_to op"
  let ?t = "tr_token ?tx"
  have "\<exists>a. get_account s ?i = Some a \<and> tr_nonce ?tx = acc_nonce a \<and> tr_amount ?tx + tr_fee ?tx \<le> get_balance a ?t \<and>
      fee = Some \<lparr>cf_token = ?t, cf_amount = tr_fee ?tx\<rparr>"
    using op by (auto simp: apply_op_Ok Let_def split: if_splits)
  then obtain a where a: "get_account s ?i = Some a" "tr_nonce ?tx = acc_nonce a" "tr_amount ?tx + tr_fee ?tx \<le> get_balance a ?t"
    "fee = Some \<lparr>cf_token = ?t, cf_amount = tr_fee ?tx\<rparr>" by blast
  let ?a = "paid_account a ?t (tr_amount ?tx + tr_fee ?tx)"
  obtain ca where ca: "(increment_nonce l (with_balance (tree_leaf tree ?i) ?t
      (sub_assign l (sub_assign l (leaf_balance tree ?i ?t) (fr_from_str l (tr_amount ?tx))) (fr_from_str l (tr_fee ?tx)))) :: (error, _) res) = Ok ca"
    "account_matches l ?a ca" "tree_matches l (insert_account ?i ?a s) (tree(?i \<mapsto> ca))"
    using sender_pays [OF lib st a(1,3)] room a(2) by metis
  let ?cb = "with_balance (tree_leaf (tree(?i \<mapsto> ca)) ?j) ?t
    (add_assign l (leaf_balance (tree(?i \<mapsto> ca)) ?j ?t) (fr_from_str l (tr_amount ?tx)))"
  have "tree_matches l s' (tree(?i \<mapsto> ca, ?j \<mapsto> ?cb))"
  proof (cases "?i = ?j")
    case True
    then have s': "s' = insert_account ?i (paid_account a ?t (tr_fee ?tx)) s"
      using op a(1) by (auto simp: apply_op_Ok Let_def)
    have bal: "get_balance a ?t - (tr_amount ?tx + tr_fee ?tx) + tr_amount ?tx = get_balance a ?t - tr_fee ?tx"
      using a(3) by simp
    have leaf: "tree_leaf (tree(?i \<mapsto> ca)) ?j = ca" using True by (simp add: tree_leaf_def)
    have "account_matches l (paid_account a ?t (tr_fee ?tx)) ?cb"
      unfolding leaf by (rule account_matches_cong [OF account_matches_add [OF ca(2), of ?t "tr_amount ?tx"]])
        (simp_all add: account_simps set_balance_fields add_balance_fields bal)
    then show ?thesis unfolding s' using True by (simp only: tree_matches_twice [OF st])
  next
    case False
    then obtain b where b: "get_account s ?j = Some b" "s' = insert_account ?j (add_balance b ?t (tr_amount ?tx)) (insert_account ?i ?a s)"
      using op a(1) by (auto simp: apply_op_Ok Let_def)
    then have "get_account (insert_account ?i ?a s) ?j = Some b" using False by (simp add: state_simps)
    from tree_matches_update [OF ca(3) account_matches_add [OF tree_matches_account [OF ca(3) this]]]
    show ?thesis by (simp add: b(2))
  qed
  then show ?thesis by (rule that [OF a(4) ca(1) refl])
qed

lemma transfer_shown:
  assumes lib: "circuit_lib_ok l" and st: "tree_matches l s tree"
    and op: "transfer_create_op c s tx = Ok (OutcomeTransfer op)" "transfer_apply_op s (OutcomeTransfer op) = Ok ((fee, us), s')"
    and typed: "tx_typed (TxTransfer tx)" and room: "unat (tr_nonce tx) + 1 < 2 ^ 32"
  shows "op_shown l tree (OpTransfer op) fee s'"
proof -
  let ?i = "trop_from op" and ?j = "trop_to op" and ?t = "tr_token tx"
    and ?amount = "fr_from_str l (tr_amount tx)" and ?fee = "fr_from_str l (tr_fee tx)"
  have amounts: "tr_amount tx < 2 ^ 128" "tr_fee tx < 2 ^ 128"
    using typed token_packable_u128 fee_packable_u128 by (metis packable_amounts.simps(1) tx_typed.simps(2))+
  have tx: "trop_tx op = tx" "tr_token tx \<le> max_token_id" using op(1) by (auto simp: create_op_Ok split: option.splits)
  obtain x y where xy: "field_shows (y, amount_width) (pack_token_amount (tr_amount tx))" "field_shows (x, fee_width) (pack_fee_amount (tr_fee tx))"
    and eq: "\<And>tree i j ga to ty. (transfer_apply_with l tree (sent_data tx i j) ga to ty :: (error, _) res) = apply_pair l tree i j ?t (increment_nonce l)
      (\<lambda>bal. sub_assign l (sub_assign l bal ?amount) ?fee) ga (\<lambda>bal. add_assign l bal ?amount)
      (\<lambda>b. no_arguments\<lparr>oa_eth_address := to, oa_amount_packed := y, oa_full_amount := ?amount, oa_fee := x,
        oa_a := b, oa_b := add_assign l ?amount ?fee\<rparr>) ty"
    by (rule transfer_arguments [OF lib typed]) blast
  obtain ca cb where ca: "fee = Some \<lparr>cf_token = ?t, cf_amount = tr_fee tx\<rparr>"
    "(increment_nonce l (with_balance (tree_leaf tree ?i) ?t (sub_assign l (sub_assign l (leaf_balance tree ?i ?t) ?amount) ?fee)) :: (error, _) res) = Ok ca"
    "with_balance (tree_leaf (tree(?i \<mapsto> ca)) ?j) ?t (add_assign l (leaf_balance (tree(?i \<mapsto> ca)) ?j ?t) ?amount) = cb"
    "tree_matches l s' (tree(?i \<mapsto> ca, ?j \<mapsto> cb))"
    using transfer_changes [OF lib st, of op fee us s'] op(2) room tx(1) by (metis transfer_apply_op.simps(1))
  show ?thesis
  proof (rule pair_op_shown)
    show "op_witness l tree (OpTransfer op) = of_witness (transfer_witness l tree op) transfer_pubdata
        (sig_data_from l (transfer_get_bytes tx) (tr_signature tx)) (transfer_operations l) (fee_list fee)"
      by (simp add: op_witness_def ca(1) fee_list_def tx(1) Let_def)
    show "(transfer_witness l tree op :: (error, _) res) = apply_pair l tree ?i ?j ?t (increment_nonce l)
      (\<lambda>bal. sub_assign l (sub_assign l bal ?amount) ?fee) Ok (\<lambda>bal. add_assign l bal ?amount)
      (\<lambda>b. no_arguments\<lparr>oa_eth_address := 0, oa_amount_packed := y, oa_full_amount := ?amount, oa_fee := x,
        oa_a := b, oa_b := add_assign l ?amount ?fee\<rparr>) 5"
      using amounts eq by (simp add: transfer_witness_def transfer_apply_data_def amount_u128_def tx(1) Let_def)
    show "\<exists>bs. op_public_data (OpTransfer op) = Ok bs \<and> transfer_pubdata w = Ok (from_be_bytes bs)"
      if "shows_pair l ?i ?j ?t (\<lambda>b. no_arguments\<lparr>oa_eth_address := 0, oa_amount_packed := y, oa_full_amount := ?amount, oa_fee := x,
        oa_a := b, oa_b := add_assign l ?amount ?fee\<rparr>) 5 w" for w
      by (rule transfer_bits [OF lib]) (use that tx(1) xy in auto)
    show "\<exists>input. sig_data_from l (transfer_get_bytes tx) (tr_signature tx) = Ok input"
      using typed_sig_data [OF lib typed] by simp
    show "Ok (with_balance (tree_leaf (tree(?i \<mapsto> ca)) ?j) ?t (add_assign l (leaf_balance (tree(?i \<mapsto> ca)) ?j ?t) ?amount)) = Ok cb"
      using ca(3) by simp
  qed (use token_in_tree [OF tx(2)] ca in \<open>simp_all add: transfer_operations_def transfer_to_new_operations_def size_operations op_consts\<close>)
qed

lemma transfer_to_new_changes:
  assumes lib: "circuit_lib_ok l" and st: "tree_matches l s tree" and op: "apply_transfer_to_new_op s op = Ok ((fee, us), s')"
    and room: "unat (tr_nonce (tnop_tx op)) + 1 < 2 ^ 32"
  obtains ca cb where "fee = Some \<lparr>cf_token = tr_token (tnop_tx op), cf_amount = tr_fee (tnop_tx op)\<rparr>"
    "(increment_nonce l (with_balance (tree_leaf tree (tnop_from op)) (tr_token (tnop_tx op))
      (sub_assign l (sub_assign l (leaf_balance tree (tnop_from op) (tr_token (tnop_tx op))) (fr_from_str l (tr_amount (tnop_tx op))))
        (fr_from_str l (tr_fee (tnop_tx op))))) :: (error, _) res) = Ok ca"
    "ca_address (tree_leaf (tree(tnop_from op \<mapsto> ca)) (tnop_to op)) = 0"
    "(with_balance (tree_leaf (tree(tnop_from op \<mapsto> ca)) (tnop_to op)) (tr_token (tnop_tx op))
      (add_assign l (leaf_balance (tree(tnop_from op \<mapsto> ca)) (tnop_to op) (tr_token (tnop_tx op))) (fr_from_str l (tr_amount (tnop_tx op)))))
        \<lparr>ca_address := unat (tr_to (tnop_tx op))\<rparr> = cb"
    "tree_matches l s' (tree(tnop_from op \<mapsto> ca, tnop_to op \<mapsto> cb))"
proof -
  let ?tx = "tnop_tx op" and ?i = "tnop_from op" and ?j = "tnop_to op"
  let ?t = "tr_token ?tx"
  obtain a where a: "get_account s ?i = Some a" "tr_nonce ?tx = acc_nonce a" "tr_amount ?tx + tr_fee ?tx \<le> get_balance a ?t"
    "fee = Some \<lparr>cf_token = ?t, cf_amount = tr_fee ?tx\<rparr>" "get_account s ?j = None"
    "s' = insert_account ?j (add_balance (default_with_address (tr_to ?tx)) ?t (tr_amount ?tx))
      (insert_account ?i (paid_account a ?t (tr_amount ?tx + tr_fee ?tx)) s)"
    using op by (auto simp: apply_op_Ok Let_def)
  let ?a = "paid_account a ?t (tr_amount ?tx + tr_fee ?tx)"
  obtain ca where ca: "(increment_nonce l (with_balance (tree_leaf tree ?i) ?t
      (sub_assign l (sub_assign l (leaf_balance tree ?i ?t) (fr_from_str l (tr_amount ?tx))) (fr_from_str l (tr_fee ?tx)))) :: (error, _) res) = Ok ca"
    "tree_matches l (insert_account ?i ?a s) (tree(?i \<mapsto> ca))"
    using sender_pays [OF lib st a(1,3)] room a(2) by metis
  let ?leaf = "tree_leaf (tree(?i \<mapsto> ca)) ?j"
  have "get_account (insert_account ?i ?a s) ?j = None" using a(1,5) by (auto simp: state_simps)
  then have new: "account_matches l default_account ?leaf" by (rule tree_matches_new [OF ca(2)])
  then have address: "ca_address ?leaf = 0" by (simp add: account_matches_def default_account_def)
  have "account_matches l (default_with_address (tr_to ?tx)) (?leaf\<lparr>ca_address := unat (tr_to ?tx)\<rparr>)"
    unfolding default_with_address_eq by (rule account_matches_address [OF new])
  from account_matches_add [OF this, of ?t "tr_amount ?tx"]
  have "tree_matches l s' (tree(?i \<mapsto> ca, ?j \<mapsto> (with_balance ?leaf ?t
      (add_assign l (leaf_balance (tree(?i \<mapsto> ca)) ?j ?t) (fr_from_str l (tr_amount ?tx))))\<lparr>ca_address := unat (tr_to ?tx)\<rparr>))"
    unfolding a(6) by (intro tree_matches_update [OF ca(2)]) (simp add: with_balance_address)
  then show ?thesis by (rule that [OF a(4) ca(1) address refl])
qed

lemma transfer_to_new_shown:
  assumes lib: "circuit_lib_ok l" and st: "tree_matches l s tree"
    and op: "transfer_create_op c s tx = Ok (OutcomeTransferToNew op)" "transfer_apply_op s (OutcomeTransferToNew op) = Ok ((fee, us), s')"
    and typed: "tx_typed (TxTransfer tx)" and room: "unat (tr_nonce tx) + 1 < 2 ^ 32"
  shows "op_shown l tree (OpTransferToNew op) fee s'"
proof -
  let ?i = "tnop_from op" and ?j = "tnop_to op" and ?t = "tr_token tx" and ?to = "unat (tr_to tx)"
    and ?amount = "fr_from_str l (tr_amount tx)" and ?fee = "fr_from_str l (tr_fee tx)"
  have amounts: "tr_amount tx < 2 ^ 128" "tr_fee tx < 2 ^ 128"
    using typed token_packable_u128 fee_packable_u128 by (metis packable_amounts.simps(1) tx_typed.simps(2))+
  have tx: "tnop_tx op = tx" "tr_token tx \<le> max_token_id" using op(1) by (auto simp: create_op_Ok split: option.splits)
  obtain x y where xy: "field_shows (y, amount_width) (pack_token_amount (tr_amount tx))" "field_shows (x, fee_width) (pack_fee_amount (tr_fee tx))"
    and eq: "\<And>tree i j ga to ty. (transfer_apply_with l tree (sent_data tx i j) ga to ty :: (error, _) res) = apply_pair l tree i j ?t (increment_nonce l)
      (\<lambda>bal. sub_assign l (sub_assign l bal ?amount) ?fee) ga (\<lambda>bal. add_assign l bal ?amount)
      (\<lambda>b. no_arguments\<lparr>oa_eth_address := to, oa_amount_packed := y, oa_full_amount := ?amount, oa_fee := x,
        oa_a := b, oa_b := add_assign l ?amount ?fee\<rparr>) ty"
    by (rule transfer_arguments [OF lib typed]) blast
  obtain ca cb where ca: "fee = Some \<lparr>cf_token = ?t, cf_amount = tr_fee tx\<rparr>"
    "(increment_nonce l (with_balance (tree_leaf tree ?i) ?t (sub_assign l (sub_assign l (leaf_balance tree ?i ?t) ?amount) ?fee)) :: (error, _) res) = Ok ca"
    "ca_address (tree_leaf (tree(?i \<mapsto> ca)) ?j) = 0"
    "(with_balance (tree_leaf (tree(?i \<mapsto> ca)) ?j) ?t (add_assign l (leaf_balance (tree(?i \<mapsto> ca)) ?j ?t) ?amount))\<lparr>ca_address := ?to\<rparr> = cb"
    "tree_matches l s' (tree(?i \<mapsto> ca, ?j \<mapsto> cb))"
    using transfer_to_new_changes [OF lib st, of op fee us s'] op(2) room tx(1) by (metis transfer_apply_op.simps(2))
  show ?thesis
  proof (rule pair_op_shown)
    show "op_witness l tree (OpTransferToNew op) = of_witness (transfer_to_new_witness l tree op) transfer_to_new_pubdata
        (sig_data_from l (transfer_get_bytes tx) (tr_signature tx)) (transfer_to_new_operations l) (fee_list fee)"
      by (simp add: op_witness_def ca(1) fee_list_def tx(1) Let_def)
    show "(transfer_to_new_witness l tree op :: (error, _) res) = apply_pair l tree ?i ?j ?t (increment_nonce l)
      (\<lambda>bal. sub_assign l (sub_assign l bal ?amount) ?fee)
      (\<lambda>acc. res_map (\<lambda>_. acc\<lparr>ca_address := ?to\<rparr>) (assert_that (ca_address acc = 0))) (\<lambda>bal. add_assign l bal ?amount)
      (\<lambda>b. no_arguments\<lparr>oa_eth_address := ?to, oa_amount_packed := y, oa_full_amount := ?amount, oa_fee := x,
        oa_a := b, oa_b := add_assign l ?amount ?fee\<rparr>) 2"
      using amounts eq by (simp add: transfer_to_new_witness_def transfer_to_new_apply_data_def transfer_data.truncate_def
        amount_u128_def tx(1) fr_from_hex_Ok unat_word_less [OF _ lib] Let_def)
    show "\<exists>bs. op_public_data (OpTransferToNew op) = Ok bs \<and> transfer_to_new_pubdata w = Ok (from_be_bytes bs)"
      if "shows_pair l ?i ?j ?t (\<lambda>b. no_arguments\<lparr>oa_eth_address := ?to, oa_amount_packed := y, oa_full_amount := ?amount, oa_fee := x,
        oa_a := b, oa_b := add_assign l ?amount ?fee\<rparr>) 2 w" for w
      by (rule transfer_to_new_bits [OF lib]) (use that tx(1) xy in auto)
    show "\<exists>input. sig_data_from l (transfer_get_bytes tx) (tr_signature tx) = Ok input"
      using typed_sig_data [OF lib typed] by simp
    let ?b = "with_balance (tree_leaf (tree(?i \<mapsto> ca)) ?j) ?t (add_assign l (leaf_balance (tree(?i \<mapsto> ca)) ?j ?t) ?amount)"
    show "res_map (\<lambda>_. ?b\<lparr>ca_address := ?to\<rparr>) (assert_that (ca_address ?b = 0)) = Ok cb"
      using ca(3,4) by (simp add: outcome_simps)
  qed (use token_in_tree [OF tx(2)] ca in \<open>simp_all add: transfer_operations_def transfer_to_new_operations_def size_operations op_consts\<close>)
qed

section \<open>Forced exits\<close>

lemma forced_exit_shown:
  assumes lib: "circuit_lib_ok l" and st: "tree_matches l s tree"
    and op: "forced_exit_create_op c s tx = Ok op" "forced_exit_apply_op s op = Ok ((fee, us), s')"
    and typed: "op_typed (OpForcedExit op)" and room: "unat (fe_nonce tx) + 1 < 2 ^ 32" and signer: "signer_nonzero c (TxForcedExit tx)"
  shows "op_shown l tree (OpForcedExit op) fee s'"
proof -
  let ?i = "fe_initiator_account_id tx" and ?j = "feop_target_account_id op" and ?t = "fe_token tx" and ?to = "unat (fe_target tx)"
  define n where "n = (case feop_withdraw_amount op of None \<Rightarrow> 0 | Some n \<Rightarrow> n)"
  let ?amount = "fr_from_str l n" and ?fee = "fr_from_str l (fe_fee tx)"
  have tx: "feop_tx op = tx" "fe_token tx \<le> max_token_id" "?i \<noteq> ?j"
    using op(1) signer by (auto simp: create_op_Ok)
  obtain a b where ab: "get_account s ?i = Some a" "get_account s ?j = Some b" "fe_nonce tx = acc_nonce a" "fe_fee tx \<le> get_balance a ?t"
    "get_balance b ?t = n" "fee = Some \<lparr>cf_token = ?t, cf_amount = fe_fee tx\<rparr>"
    "s' = insert_account ?j (set_balance b ?t 0) (insert_account ?i (paid_account a ?t (fe_fee tx)) s)"
    using op(2) tx(1) by (auto simp: apply_op_Ok Let_def n_def split: option.splits)
  have n: "n < 2 ^ 128" and fee: "is_fee_amount_packable (fe_fee tx) = Ok True" and tx_typed: "tx_typed (TxForcedExit tx)"
    using typed tx(1) by (auto simp: n_def split: option.split)
  obtain x where x: "(fee_encoded l (fe_fee tx) :: (error, fr) res) = Ok x" "field_shows (x, fee_width) (pack_fee_amount (fe_fee tx))"
    "fe_fee tx < 2 ^ 128"
    using fee_field [OF lib fee] by metis
  obtain y where y: "(amount_encoded l n :: (error, fr) res) = Ok y" using u128_amount_field [OF lib n] by metis
  let ?args = "\<lambda>b. no_arguments\<lparr>oa_eth_address := ?to, oa_amount_packed := y, oa_full_amount := ?amount, oa_fee := x, oa_a := b, oa_b := ?fee\<rparr>"
  let ?ca = "(with_balance (tree_leaf tree ?i) ?t (sub_assign l (leaf_balance tree ?i ?t) ?fee))
    \<lparr>ca_nonce := add_assign l (ca_nonce (tree_leaf tree ?i)) (fr_from_str l 1)\<rparr>"
  note matches = tree_matches_account [OF st ab(1)]
  have paid: "account_matches l (paid_account a ?t (fe_fee tx)) ?ca"
    by (rule account_matches_pay [OF lib matches])
      (use room ab(3,4) in \<open>simp_all add: account_matches_balance [OF matches] sub_assign_balance small_numbers(6) [OF lib]\<close>)
  note st1 = tree_matches_update [OF st paid]
  let ?cb = "with_balance (tree_leaf (tree(?i \<mapsto> ?ca)) ?j) ?t (sub_assign l (leaf_balance (tree(?i \<mapsto> ?ca)) ?j ?t) ?amount)"
  have "get_account (insert_account ?i (paid_account a ?t (fe_fee tx)) s) ?j = Some b"
    using ab(2) tx(3) by (simp add: state_simps)
  note target = tree_matches_account [OF st1 this]
  have "account_matches l (set_balance b ?t 0) ?cb"
    by (rule account_matches_set [OF target])
      (simp only: account_matches_balance [OF target] sub_assign_balance [OF small_numbers(6) [OF lib]] ab(5) le_refl diff_self_eq_0)
  note tree = tree_matches_update [OF st1 this]
  show ?thesis
  proof (rule pair_op_shown)
    show "op_witness l tree (OpForcedExit op) = of_witness (forced_exit_witness l tree op) forced_exit_pubdata
        (sig_data_from l (forced_exit_get_bytes tx) (fe_signature tx)) (forced_exit_operations l) (fee_list fee)"
      by (simp add: op_witness_def ab(6) fee_list_def tx(1) Let_def)
    show "(forced_exit_witness l tree op :: (error, _) res) = apply_pair l tree ?i ?j ?t (increment_nonce l) (\<lambda>bal. sub_assign l bal ?fee)
        Ok (\<lambda>bal. sub_assign l bal ?amount) ?args 8"
      using n x y by (simp add: forced_exit_witness_def forced_exit_apply_data_def amount_u128_def fr_from_hex_Ok tx(1) unat_word_less [OF _ lib] Let_def
        n_def [symmetric])
    show "increment_nonce l (with_balance (tree_leaf tree ?i) ?t (sub_assign l (leaf_balance tree ?i ?t) ?fee)) = Ok ?ca"
      by (simp add: increment_nonce_def)
    show "Ok ?cb = Ok ?cb" by (rule refl)
    show "tree_matches l s' (tree(?i \<mapsto> ?ca, ?j \<mapsto> ?cb))" unfolding ab(7) by (rule tree)
    show "\<exists>bs. op_public_data (OpForcedExit op) = Ok bs \<and> forced_exit_pubdata w = Ok (from_be_bytes bs)"
      if "shows_pair l ?i ?j ?t ?args 8 w" for w
      by (rule forced_exit_bits [OF lib]) (use that tx(1) x(2) n n_def in auto)
    show "\<exists>input. sig_data_from l (forced_exit_get_bytes tx) (fe_signature tx) = Ok input"
      using typed_sig_data [OF lib tx_typed] by simp
  qed (use token_in_tree [OF tx(2)] in \<open>simp_all add: forced_exit_operations_def size_operations op_consts\<close>)
qed

end
