(* ===== verification/WitnessProps.thy ===== *)
theory WitnessProps
  imports WitnessPairs
begin

text \<open>
  The witness of a block agrees with the server: from what the server executed, the builder of the circuit's witness
  reaches the same state, the same root hash and the same public data, and fills the block exactly.
\<close>

section \<open>Runs that fit\<close>

text \<open>What enters a run: transactions that passed the correctness check, and priority operations.\<close>

fun item_admitted :: "crypto \<Rightarrow> item \<Rightarrow> bool" where
  "item_admitted c (ItemTx tx) \<longleftrightarrow> signer_nonzero c tx \<and> (\<exists>tx0. tx_check_correctness c tx0 = (Ok True, tx))"
| "item_admitted c (ItemPrio p) \<longleftrightarrow> True"

fun item_deposit :: "token_id \<Rightarrow> item \<Rightarrow> nat" where
  "item_deposit t (ItemPrio (PrioDeposit d)) = (if dep_token d = t then dep_amount d else 0)"
| "item_deposit t i = 0"

text \<open>Nothing runs over: the account ids, the nonces, and the 128 bits of an amount.\<close>

definition run_fits :: "zk_state \<Rightarrow> item list \<Rightarrow> bool" where
  "run_fits s is \<longleftrightarrow> account_count s + size is \<le> 2 ^ 32 \<and> (\<forall>i n. nonce_at s i = Some n \<longrightarrow> unat n + size is < 2 ^ 32) \<and>
    (\<forall>t. total_balance s t + sum_list (map (item_deposit t) is) < 2 ^ 128)"

lemma run_fits_typed: "run_fits s is \<Longrightarrow> funds_typed s"
  unfolding run_fits_def funds_typed_def by (meson add_lessD1)

lemma executed_count:
  "exec_item c s i = Ok (succ, s') \<Longrightarrow> account_count s' \<le> account_count s + 1"
proof (cases i)
  case (ItemTx tx)
  assume ex: "exec_item c s i = Ok (succ, s')"
  show ?thesis
  proof (cases tx)
    case (TxTransfer t)
    then obtain o' x where "transfer_apply_op s o' = Ok (x, s')"
      using ex ItemTx by (auto simp: execute_tx_Ok)
    then show ?thesis by (cases o') (auto simp: apply_op_Ok Let_def account_count_insert state_simps split: if_splits)
  qed (use ex ItemTx in \<open>auto simp: execute_tx_Ok apply_op_Ok Let_def account_count_insert state_simps\<close>)
next
  case (ItemPrio p)
  assume "exec_item c s i = Ok (succ, s')"
  then show ?thesis
    using ItemPrio by (cases p) (auto simp: execute_priority_op_Ok apply_op_Ok Let_def account_count_insert split: option.splits)
qed

lemma new_account_nonce: "acc_nonce (add_balance (default_with_address x) t n) = 0"
  by (simp add: add_balance_fields default_with_address_fields)

lemma executed_nonce:
  assumes "exec_item c s i = Ok (succ, s')" "nonce_at s' j = Some m"
  shows "m = 0 \<or> (\<exists>n. nonce_at s j = Some n \<and> (m = n \<or> m = n + 1))"
proof (cases i)
  case (ItemTx tx)
  show ?thesis
  proof (cases tx)
    case (TxTransfer t)
    then obtain o' x where "transfer_apply_op s o' = Ok (x, s')"
      using assms(1) ItemTx by (auto simp: execute_tx_Ok)
    then show ?thesis
      using assms(2) by (cases o') (auto simp: apply_op_Ok Let_def nonce_at_insert new_account_nonce address_simps nonce_at_def
        state_simps split: if_splits)
  qed (use assms ItemTx in \<open>auto simp: execute_tx_Ok apply_op_Ok Let_def nonce_at_insert address_simps nonce_at_def
    state_simps split: if_splits\<close>)
next
  case (ItemPrio p)
  then show ?thesis
    using assms by (cases p) (auto simp: execute_priority_op_Ok apply_op_Ok Let_def nonce_at_insert new_account_nonce address_simps
      nonce_at_def state_simps split: option.splits if_splits)
qed

lemma executed_total:
  assumes "exec_item c s i = Ok (succ, s')" "item_admitted c i"
  shows "total_balance s' t \<le> total_balance s t + item_deposit t i"
proof (cases i)
  case (ItemTx tx)
  then show ?thesis using execute_tx_conserves [of c s tx succ s' t] assms by simp
next
  case (ItemPrio p)
  have "op_inflow (os_executed_op succ) t = item_deposit t i"
    using assms ItemPrio by (cases p) (auto simp: execute_priority_op_Ok create_op_Ok split: option.splits)
  moreover have ex: "(execute_priority_op s p :: (error, _) res) = Ok (succ, s')" using assms(1) ItemPrio by simp
  ultimately show ?thesis using execute_priority_op_conserves [OF ex, of t] by simp
qed

lemma run_fits_step:
  assumes "exec_item c s i = Ok (succ, s')" "item_admitted c i" "run_fits s (i # is)"
  shows "run_fits s' is"
proof -
  have "account_count s' + size is \<le> 2 ^ 32"
    using executed_count [OF assms(1)] assms(3) by (simp add: run_fits_def)
  moreover have "unat m + size is < 2 ^ 32" if "nonce_at s' j = Some m" for j m
  proof -
    have old: "unat n + (size is + 1) < 2 ^ 32" if "nonce_at s j = Some n" for n
      using assms(3) that unfolding run_fits_def by force
    have new: "size is < 2 ^ 32" using assms(3) by (simp add: run_fits_def)
    have next_le: "unat (n + 1) \<le> unat n + 1" for n :: nonce by (simp add: unat_word_ariths)
    show ?thesis using executed_nonce [OF assms(1) that]
    proof (elim disjE exE conjE)
      fix n assume n: "nonce_at s j = Some n" "m = n + 1"
      show ?thesis unfolding n(2) using old [OF n(1)] next_le [of n] by linarith
    next
      fix n assume n: "nonce_at s j = Some n" "m = n"
      show ?thesis unfolding n(2) using old [OF n(1)] by linarith
    qed (use new in simp)
  qed
  moreover have "total_balance s' t + sum_list (map (item_deposit t) is) < 2 ^ 128" for t
  proof -
    have "total_balance s t + sum_list (map (item_deposit t) (i # is)) < 2 ^ 128"
      using assms(3) unfolding run_fits_def by blast
    then show ?thesis using executed_total [OF assms(1,2), of t] by simp
  qed
  ultimately show ?thesis by (simp add: run_fits_def)
qed

lemma exec_item_inv:
  "exec_item c s i = Ok (succ, s') \<Longrightarrow> run_fits s (i # is) \<Longrightarrow> state_inv s \<Longrightarrow> state_inv s'"
  by (cases i) (auto simp: state_inv_def run_fits_def intro: execute_tx_index_ok execute_priority_op_index_ok
    execute_tx_dense execute_priority_op_dense)

section \<open>Single operations\<close>

lemma tx_shown:
  assumes lib: "circuit_lib_ok l" and st: "tree_matches l s tree" "state_inv s"
    and ex: "execute_tx c s tx = Ok (succ, s')" and adm: "item_admitted c (ItemTx tx)" and fits: "run_fits s (ItemTx tx # is)"
  shows "op_shown l tree (os_executed_op succ) (os_fee succ) s'"
proof -
  obtain tx0 where tx0: "tx_check_correctness c tx0 = (Ok True, tx)" and signer: "signer_nonzero c tx"
    using adm by auto
  note typed = check_correctness_typed [OF tx0]
  have "nonce_at s (tx_initiator tx) = Some (tx_nonce tx)" by (rule execute_tx_needs_nonce [OF ex])
  then have "unat (tx_nonce tx) + size (ItemTx tx # is) < 2 ^ 32"
    using fits unfolding run_fits_def by blast
  then have room: "unat (tx_nonce tx) + 1 < 2 ^ 32" by simp
  show ?thesis
  proof (cases tx)
    case (TxTransfer t)
    then obtain o' us where o': "transfer_create_op c s t = Ok o'" "os_executed_op succ = into_franklin_op o'"
      "transfer_apply_op s o' = Ok ((os_fee succ, us), s')"
      using ex by (auto simp: execute_tx_Ok)
    then show ?thesis
      using transfer_shown [OF lib st(1)] transfer_to_new_shown [OF lib st(1)] typed room TxTransfer
      by (cases o') auto
  next
    case (TxWithdraw t)
    then show ?thesis using withdraw_shown [OF lib st(1)] typed room ex by (auto simp: execute_tx_Ok simp del: tx_typed.simps)
  next
    case (TxChangePubKey t)
    then have "cp_fee_token t \<le> max_token_id"
      using tx0 by (cases tx0) (auto simp: change_pub_key_check_correctness_def map_prod_def split: prod.splits)
    then show ?thesis
      using TxChangePubKey change_pubkey_shown [OF lib st(1)] st(2) typed room ex
      by (auto simp: execute_tx_Ok state_inv_def simp del: tx_typed.simps)
  next
    case (TxForcedExit t)
    then show ?thesis
      using forced_exit_shown [OF lib st(1)] executed_op_typed [OF ex typed run_fits_typed [OF fits]] room ex signer
      by (auto simp: execute_tx_Ok simp del: op_typed.simps signer_nonzero.simps)
  qed (use ex in \<open>auto simp: execute_tx_Ok\<close>)
qed

lemma prio_shown:
  assumes lib: "circuit_lib_ok l" and st: "tree_matches l s tree" "state_inv s"
    and ex: "execute_priority_op s p = Ok (succ, s')" and fits: "run_fits s (ItemPrio p # is)"
  shows "op_shown l tree (os_executed_op succ) (os_fee succ) s'"
proof (cases p)
  case (PrioDeposit d)
  have "total_balance s (dep_token d) + sum_list (map (item_deposit (dep_token d)) (ItemPrio p # is)) < 2 ^ 128"
    using fits unfolding run_fits_def by blast
  then have "dep_amount d < 2 ^ 128" "account_count s < 2 ^ 32"
    using PrioDeposit fits by (simp_all add: run_fits_def)
  then show ?thesis
    using PrioDeposit deposit_shown [OF lib st] ex by (auto simp: execute_priority_op_Ok)
next
  case (PrioFullExit f)
  have "op_typed (os_executed_op succ)"
    by (rule executed_priority_op_typed [OF ex run_fits_typed [OF fits]]) (use PrioFullExit in simp)
  then show ?thesis
    using PrioFullExit full_exit_shown [OF lib st(1)] ex by (auto simp: execute_priority_op_Ok)
qed

lemma item_shown:
  assumes "circuit_lib_ok l" "tree_matches l s tree" "state_inv s" "exec_item c s i = Ok (succ, s')" "item_admitted c i" "run_fits s (i # is)"
  shows "op_shown l tree (os_executed_op succ) (os_fee succ) s'"
  using assms tx_shown prio_shown by (cases i) auto

text \<open>The fees of admitted transactions are those of a known token, and of 128 bits.\<close>

definition fee_fits :: "collected_fee \<Rightarrow> bool" where
  "fee_fits f \<longleftrightarrow> cf_amount f < 2 ^ 128 \<and> cf_token f \<le> max_token_id"

lemma item_fee_fits:
  assumes "exec_item c s i = Ok (succ, s')" "item_admitted c i"
  shows "list_all fee_fits (fee_list (os_fee succ))"
proof (cases i)
  case (ItemPrio p)
  then have ex: "(execute_priority_op s p :: (error, _) res) = Ok (succ, s')" using assms(1) by simp
  show ?thesis using execute_priority_op_conserves [OF ex] by (simp add: fee_list_def)
next
  case (ItemTx tx)
  then obtain tx0 where tx0: "tx_check_correctness c tx0 = (Ok True, tx)" and ex: "execute_tx c s tx = Ok (succ, s')"
    using assms by auto
  note typed = check_correctness_typed [OF tx0]
  show ?thesis
  proof (cases tx)
    case (TxTransfer t)
    then obtain o' us where o': "transfer_create_op c s t = Ok o'" "transfer_apply_op s o' = Ok ((os_fee succ, us), s')"
      using ex by (auto simp: execute_tx_Ok)
    then have "os_fee succ = Some \<lparr>cf_token = tr_token t, cf_amount = tr_fee t\<rparr>" "tr_token t \<le> max_token_id"
      by (cases o'; auto simp: create_op_Ok apply_op_Ok Let_def split: if_splits option.splits)+
    then show ?thesis using typed TxTransfer fee_packable_u128 [of "tr_fee t"] by (simp add: fee_list_def fee_fits_def)
  next
    case (TxChangePubKey t)
    then have "cp_fee_token t \<le> max_token_id"
      using tx0 by (cases tx0) (auto simp: change_pub_key_check_correctness_def map_prod_def split: prod.splits)
    then show ?thesis
      using TxChangePubKey typed ex fee_packable_u128 [of "cp_fee t"]
      by (auto simp: execute_tx_Ok create_op_Ok apply_op_Ok Let_def fee_list_def fee_fits_def)
  next
    case (TxWithdraw t)
    then show ?thesis
      using typed ex fee_packable_u128 [of "wd_fee t"] by (auto simp: execute_tx_Ok create_op_Ok apply_op_Ok Let_def fee_list_def fee_fits_def)
  next
    case (TxForcedExit t)
    then show ?thesis
      using typed ex fee_packable_u128 [of "fe_fee t"] by (auto simp: execute_tx_Ok create_op_Ok apply_op_Ok Let_def fee_list_def fee_fits_def)
  qed (use ex in \<open>auto simp: execute_tx_Ok\<close>)
qed

section \<open>Blocks\<close>

lemma items_shown:
  assumes lib: "circuit_lib_ok l"
    and "exec_items c s is = Some (succs, s1)" "tree_matches l s tree" "state_inv s" "list_all (item_admitted c) is" "run_fits s is"
  shows "\<exists>ops bss tree1. ops_witness l tree (map os_executed_op succs) = Ok ((ops, from_be_bytes (concat bss), fees_of succs), tree1) \<and>
    tree_matches l s1 tree1 \<and> list_all2 (\<lambda>op bs. op_public_data op = Ok bs) (map os_executed_op succs) bss \<and>
    size ops = sum_list (map op_chunks (map os_executed_op succs)) \<and> list_all fee_fits (fees_of succs)"
  using assms(2-)
proof (induction "is" arbitrary: s tree succs)
  case Nil
  then show ?case by (simp add: fees_of_def from_be_bytes_def)
next
  case (Cons i "is")
  then obtain succ s' where i: "exec_item c s i = Ok (succ, s')"
    by (auto split: res.splits)
  then obtain ss where ss: "exec_items c s' is = Some (ss, s1)" "succs = succ # ss"
    using Cons.prems(1) by auto
  have adm: "item_admitted c i" "list_all (item_admitted c) is" using Cons.prems(4) by simp_all
  obtain ops bs tree' where op: "op_witness l tree (os_executed_op succ) = Ok ((ops, from_be_bytes bs, fee_list (os_fee succ)), tree')"
    "op_public_data (os_executed_op succ) = Ok bs" "size ops = op_chunks (os_executed_op succ)" "tree_matches l s' tree'"
    using item_shown [OF lib Cons.prems(2,3) i adm(1) Cons.prems(5)] unfolding op_shown_def by blast
  obtain ops' bss tree1 where rest: "ops_witness l tree' (map os_executed_op ss) = Ok ((ops', from_be_bytes (concat bss), fees_of ss), tree1)"
    "tree_matches l s1 tree1" "list_all2 (\<lambda>op bs. op_public_data op = Ok bs) (map os_executed_op ss) bss"
    "size ops' = sum_list (map op_chunks (map os_executed_op ss))" "list_all fee_fits (fees_of ss)"
    using Cons.IH [OF ss(1) op(4) exec_item_inv [OF i Cons.prems(5,3)] adm(2) run_fits_step [OF i adm(1) Cons.prems(5)]] by blast
  show ?case
    using op rest item_fee_fits [OF i adm(1)]
    by (intro exI [of _ "ops @ ops'"] exI [of _ "bs # bss"] exI [of _ tree1])
      (simp add: ss(2) from_be_bytes_append fees_of_def)
qed

lemma push_noops_Ok:
  assumes "wb_account_tree b (wb_fee_account_id b) \<noteq> None"
  shows "\<exists>ops. (push_noops l n b :: ('e, _) res) = Ok (b\<lparr>wb_operations := wb_operations b @ ops, wb_pubdata := wb_pubdata b @ replicate (n * CHUNK_BIT_WIDTH) False\<rparr>)
    \<and> size ops = n"
  using assms
proof (induction n arbitrary: b)
  case (Suc n)
  obtain noop where noop: "(noop_operation l (wb_account_tree b) (wb_fee_account_id b) :: ('e, _) res) = Ok noop"
    using Suc.prems by (auto simp: noop_operation_def get_audits_def outcome_simps Let_def)
  let ?b = "b\<lparr>wb_operations := wb_operations b @ [noop], wb_pubdata := wb_pubdata b @ replicate CHUNK_BIT_WIDTH False\<rparr>"
  have "wb_account_tree ?b (wb_fee_account_id ?b) \<noteq> None" using Suc.prems by simp
  from Suc.IH [OF this] obtain ops where "(push_noops l n ?b :: ('e, _) res) = Ok (?b\<lparr>wb_operations := wb_operations ?b @ ops,
      wb_pubdata := wb_pubdata ?b @ replicate (n * CHUNK_BIT_WIDTH) False\<rparr>)" "size ops = n" by blast
  then show ?case
    by (intro exI [of _ "noop # ops"]) (simp add: noop replicate_add)
qed (auto intro!: exI [of _ "[]"])

lemma extend_Ok:
  assumes "wb_account_tree b (wb_fee_account_id b) \<noteq> None" "size (wb_operations b) \<le> n"
  shows "\<exists>ops. (extend_pubdata_with_noops l b n :: ('e, _) res) = Ok (b\<lparr>wb_operations := ops,
      wb_pubdata := wb_pubdata b @ replicate ((n - size (wb_operations b)) * CHUNK_BIT_WIDTH) False\<rparr>) \<and> size ops = n"
proof -
  obtain ops where "(push_noops l (n - size (wb_operations b)) b :: ('e, _) res) = Ok (b\<lparr>wb_operations := wb_operations b @ ops,
      wb_pubdata := wb_pubdata b @ replicate ((n - size (wb_operations b)) * CHUNK_BIT_WIDTH) False\<rparr>)" "size ops = n - size (wb_operations b)"
    using push_noops_Ok [where l = l, OF assms(1)] by blast
  then show ?thesis
    using assms(2) by (intro exI [of _ "wb_operations b @ ops"]) (simp add: extend_pubdata_with_noops_def outcome_simps)
qed

subsection \<open>Fees\<close>

lemma add_balance_zero: "get_balance (add_balance a t 0) = get_balance a"
  by (simp add: get_balance_fun fun_eq_iff)

lemma apply_fee_Ok:
  assumes "tree i \<noteq> None" "t \<le> max_token_id" "account_matches l a (tree_leaf tree i)"
  shows "\<exists>r ca. apply_fee l tree i t n = Ok (r, tree(i \<mapsto> ca)) \<and> fst r = cx_root_hash l (tree(i \<mapsto> ca)) \<and> account_matches l (add_balance a t n) ca"
proof -
  obtain ca where ca: "tree i = Some ca" using assms(1) by auto
  then have "account_matches l a ca" using assms(3) by (simp add: tree_leaf_def)
  from account_matches_add [OF this, of t n] show ?thesis
    using ca token_in_tree [OF assms(2)]
    by (intro exI [of _ "(cx_root_hash l (tree(i \<mapsto> with_balance ca t (add_assign l (balance_value (ca_subtree ca) t) (fr_from_str l n)))),
        account_witness_from ca)"] exI [of _ "with_balance ca t (add_assign l (balance_value (ca_subtree ca) t) (fr_from_str l n))"])
      (simp add: apply_fee_def outcome_simps Let_def)
qed

lemma apply_fees_Ok:
  assumes "tree i \<noteq> None" "list_all fee_fits fees" "account_matches l a (tree_leaf tree i)" "fst r = cx_root_hash l tree"
    "collect_fees i a us fees = (a', us')"
  shows "\<exists>r' tree' ca. apply_fees l tree i fees r = Ok (r', tree') \<and> tree' = tree(i \<mapsto> ca) \<and> account_matches l a' ca \<and> fst r' = cx_root_hash l tree'"
  using assms
proof (induction fees arbitrary: tree a r us)
  case Nil
  then obtain ca where "tree i = Some ca" by auto
  then show ?case using Nil by (intro exI [of _ r] exI [of _ tree] exI [of _ ca]) (auto simp: tree_leaf_def)
next
  case (Cons f fees)
  have "fee_fits f" using Cons.prems(2) by simp
  then have fits: "cf_amount f < 2 ^ 128" "cf_token f \<le> max_token_id" by (simp_all add: fee_fits_def)
  have rest: "list_all fee_fits fees" using Cons.prems(2) by simp
  obtain r1 ca where fee: "(apply_fee l tree i (cf_token f) (cf_amount f) :: ('a, _) res) = Ok (r1, tree(i \<mapsto> ca))"
    "fst r1 = cx_root_hash l (tree(i \<mapsto> ca))" "account_matches l (add_balance a (cf_token f) (cf_amount f)) ca"
    using apply_fee_Ok [OF Cons.prems(1) fits(2) Cons.prems(3), of "cf_amount f"] by blast
  obtain b us1 where b: "collect_fees i b us1 fees = (a', us')" "account_matches l b ca"
  proof (cases "cf_amount f = 0")
    case True
    then have "account_matches l a ca"
      using account_matches_cong [OF fee(3), of a] by (simp add: add_balance_fields add_balance_zero)
    then show ?thesis using that Cons.prems(5) True by simp
  next
    case False
    then show ?thesis using that Cons.prems(5) fee(3) by (simp add: Let_def)
  qed
  have "account_matches l b (tree_leaf (tree(i \<mapsto> ca)) i)" using b(2) by (simp add: tree_leaf_def)
  moreover have "(tree(i \<mapsto> ca)) i \<noteq> None" by simp
  ultimately obtain r' cb where "(apply_fees l (tree(i \<mapsto> ca)) i fees r1 :: ('a, _) res) = Ok (r', tree(i \<mapsto> cb))"
    "account_matches l a' cb" "fst r' = cx_root_hash l (tree(i \<mapsto> cb))"
    using Cons.IH [OF _ rest _ fee(2) b(1)] by (metis fun_upd_upd)
  then show ?case
    using fee(1) fits(1) by (intro exI [of _ r'] exI [of _ "tree(i \<mapsto> cb)"] exI [of _ cb])
      (simp add: amount_u128_def del: fun_upd_apply)
qed

lemma builder_collects:
  assumes "tree_matches l s1 (wb_account_tree b)" "collect_fee s1 fees (wb_fee_account_id b) = Ok (us, s2)" "list_all fee_fits fees"
  shows "\<exists>b'. (builder_collect_fees l b fees :: ('e, _) res) = Ok b' \<and> tree_matches l s2 (wb_account_tree b') \<and>
    wb_root_after_fees b' = Some (cx_root_hash l (wb_account_tree b')) \<and> wb_pubdata b' = wb_pubdata b \<and>
    wb_operations b' = wb_operations b \<and> wb_initial_root_hash b' = wb_initial_root_hash b \<and>
    wb_fee_account_id b' = wb_fee_account_id b \<and> wb_block_number b' = wb_block_number b \<and>
    wb_fee_account_balances b' \<noteq> None \<and> wb_fee_account_witness b' \<noteq> None"
proof -
  let ?tree = "wb_account_tree b" and ?i = "wb_fee_account_id b"
  obtain a a' where a: "get_account s1 ?i = Some a" "collect_fees ?i a [] fees = (a', us)" "s2 = insert_account ?i a' s1"
    using assms(2) by (auto simp: collect_fee_def ok_iffs case_prod_unfold Let_def intro: prod.collapse [symmetric])
  have tree: "?tree ?i \<noteq> None" using assms(1) a(1) by (simp add: tree_matches_def)
  have "0 \<le> max_token_id" by simp
  from apply_fee_Ok [OF tree this tree_matches_account [OF assms(1) a(1)], of 0]
  obtain r ca where fee: "(apply_fee l ?tree ?i 0 0 :: ('e, _) res) = Ok (r, ?tree(?i \<mapsto> ca))" "fst r = cx_root_hash l (?tree(?i \<mapsto> ca))"
    "account_matches l (add_balance a 0 0) ca" by blast
  have "account_matches l a ca"
    using account_matches_cong [OF fee(3), of a] by (simp add: add_balance_fields add_balance_zero)
  then have "account_matches l a (tree_leaf (?tree(?i \<mapsto> ca)) ?i)" by (simp add: tree_leaf_def)
  from apply_fees_Ok [OF _ assms(3) this fee(2) a(2)]
  obtain r' cb where "(apply_fees l (?tree(?i \<mapsto> ca)) ?i fees r :: ('e, _) res) = Ok (r', ?tree(?i \<mapsto> cb))"
    "account_matches l a' cb" "fst r' = cx_root_hash l (?tree(?i \<mapsto> cb))"
    by (metis fun_upd_same fun_upd_upd option.distinct(1))
  then show ?thesis
    using tree fee(1) tree_matches_update [OF assms(1), of a' cb ?i]
    by (auto simp: builder_collect_fees_def Let_def a(3) split: prod.split)
qed

subsection \<open>The commitment\<close>

lemma masked_hash_bound:
  assumes "size h = 32"
  shows "from_be ((hd h AND 0x1f) # tl h) < 2 ^ 253"
proof -
  have "unat (hd h AND 0x1f) < 32"
    using word_and_le1 [of "hd h" "0x1f"] by (simp add: word_le_nat_alt)
  moreover have "from_be (tl h) < 256 ^ 31" using from_be_bound [of "tl h"] assms by simp
  ultimately show ?thesis
    using from_be_append [of "[hd h AND 0x1f]" "tl h"] assms by (simp add: from_be_def)
qed

lemma commitment_Ok:
  assumes "circuit_lib_ok l"
  shows "\<exists>x. public_data_commitment l pub_bits root root' i n = Ok x"
proof -
  have "from_be ((hd h AND 0x1f) # tl h) < cx_modulus l" if "size h = 32" for h
    using masked_hash_bound [OF that] lib_modulus [OF assms] by simp
  moreover have "size (cx_sha256_bytes l bs) = 32" for bs using assms by (simp add: circuit_lib_ok_def)
  ultimately show ?thesis by (simp add: public_data_commitment_def Let_def fr_from_hex_def)
qed

section \<open>The initial tree\<close>

text \<open>The tree that is made of the accounts of a state matches it.\<close>

definition tree_of_state :: "circuit_lib \<Rightarrow> zk_state \<Rightarrow> circuit_tree \<Rightarrow> bool" where
  "tree_of_state l s tree \<longleftrightarrow> (\<forall>i. case get_account s i of None \<Rightarrow> tree i = None
    | Some a \<Rightarrow> \<exists>ca. tree i = Some ca \<and> circuit_account_from l a = (Ok ca :: (unit, _) res))"

lemma account_from_matches:
  assumes "circuit_lib_ok l" "circuit_account_from l a = Ok ca"
  shows "account_matches l a ca"
  using assms small_numbers [OF assms(1)]
  by (auto simp: circuit_account_from_def account_matches_def ok_iffs fr_from_hex_def fr_from_str_small balance_value_def
    get_balance_def fr_from_str_def split: if_splits option.split)

lemma tree_of_state_matches:
  assumes "circuit_lib_ok l" "tree_of_state l s tree"
  shows "tree_matches l s tree"
proof -
  have new: "account_matches l default_account circuit_account_default"
    by (simp add: account_matches_def circuit_account_default_def balance_value_def get_balance_fun) (simp add: default_account_def)
  have "account_matches l (state_account s i) (tree_leaf tree i) \<and> (get_account s i \<noteq> None \<longrightarrow> tree i \<noteq> None)" for i
  proof (cases "get_account s i")
    case None
    then have "tree i = None" using spec [OF assms(2) [unfolded tree_of_state_def], of i] by simp
    then show ?thesis using None new by (simp add: state_account_def tree_leaf_def)
  next
    case (Some a)
    then obtain ca where "tree i = Some ca" "circuit_account_from l a = (Ok ca :: (unit, _) res)"
      using spec [OF assms(2) [unfolded tree_of_state_def], of i] by auto
    then show ?thesis using Some account_from_matches [OF assms(1)] by (simp add: state_account_def tree_leaf_def)
  qed
  then show ?thesis by (simp add: tree_matches_def)
qed

section \<open>Properties\<close>

text \<open>C14: the prover agrees with the server.  When the server executes admitted transactions and priority operations of a run
  that fits the machine widths, pays the fees to the fee account and makes a block of the executed operations, whose root hash
  is that of the resulting state, then the prover, which starts from the circuit's tree of the same initial state,
  builds the witness of that block without an error: every leaf of its final tree holds the account of the server's final state,
  the root hash after the fees is the block's, the public data, read as bytes, is the public data the server sends to the contract,
  the operations of the circuit fill the chunks of the block exactly, and all inputs of the circuit instance are there.\<close>

theorem prover_agrees_with_server:
  assumes lib: "circuit_lib_ok l" and st: "tree_matches l s tree" "state_inv s" "run_fits s is" "list_all (item_admitted c) is"
    and exec: "exec_items c s is = Some (succs, s1)"
    and fees: "(collect_fee s1 (fees_of succs) fee_account :: (error, _) res) = Ok (us, s2)"
    and txs: "block_ops txs = map os_executed_op succs"
    and blk: "(block_new_from_available_block_sizes number root fee_account txs prio sizes cgas vgas :: (unit, block) res) = Ok b"
    and root: "\<forall>tree'. tree_matches l s2 tree' \<longrightarrow> cx_root_hash l tree' = root"
  shows "\<exists>wb data. build_block_witness l tree b = Ok wb \<and> tree_matches l s2 (wb_account_tree wb) \<and>
    wb_root_after_fees wb = Some (bl_new_root_hash b) \<and> block_public_data b = Ok data \<and>
    be_bit_vector_into_bytes (wb_pubdata wb) = data \<and> size (wb_operations wb) = bl_block_chunks_size b \<and>
    (\<exists>inst. into_circuit_instance l wb = (Ok inst :: (error, _) res))"
proof -
  obtain n where n: "smallest_block_size_for_chunks (txs_chunks txs) sizes = (Ok n :: (unit, nat) res)"
    "b = block_new number root fee_account txs prio n cgas vgas"
    using blk block_new_available_Ok by blast
  have b: "bl_fee_account b = fee_account" "bl_block_chunks_size b = n" "bl_new_root_hash b = root" "bl_block_transactions b = txs"
    by (simp_all add: n(2) block_new_def)
  obtain ops bss tree1 where ops: "ops_witness l tree (block_ops txs) = Ok ((ops, from_be_bytes (concat bss), fees_of succs), tree1)"
    "tree_matches l s1 tree1" "list_all2 (\<lambda>op bs. op_public_data op = Ok bs) (block_ops txs) bss"
    "size ops = txs_chunks txs" "list_all fee_fits (fees_of succs)"
    using items_shown [OF lib exec st(1,2,4,3)] unfolding txs txs_chunks_def by blast
  let ?data = "concat bss @ replicate ((n - txs_chunks txs) * CHUNK_BYTES) 0"
  have fit: "txs_chunks txs \<le> n" using smallest_block_size_Ok [OF n(1)] by simp
  have size: "size (concat bss) = txs_chunks txs * CHUNK_BYTES"
    using block_ops_size [OF ops(3)] by (simp add: txs_chunks_def)
  have data: "block_public_data b = Ok ?data"
    using ops(3) size fit by (auto simp: block_public_data_def b concat_res_Ok resize_def chunk_bytes_eq diff_mult_distrib ok_iffs)
  let ?b0 = "add_operation_with_pubdata ((witness_builder_new l tree fee_account (bl_block_number b))\<lparr>wb_account_tree := tree1\<rparr>)
    ops (from_be_bytes (concat bss))"
  have b0: "wb_account_tree ?b0 = tree1" "wb_fee_account_id ?b0 = fee_account" "wb_operations ?b0 = ops"
    "wb_pubdata ?b0 = from_be_bytes (concat bss)"
    by (simp_all add: add_operation_with_pubdata_def witness_builder_new_def)
  have fee_leaf: "tree1 fee_account \<noteq> None"
    using ops(2) fees by (auto simp: collect_fee_def ok_iffs tree_matches_def)
  have pad: "from_be_bytes (concat bss) @ replicate ((n - txs_chunks txs) * CHUNK_BIT_WIDTH) False = from_be_bytes ?data"
    by (simp add: from_be_bytes_append from_be_bytes_zeros chunk_bits(1) ac_simps)
  obtain ops1 where ops1: "(extend_pubdata_with_noops l ?b0 n :: (error, _) res) = Ok (?b0\<lparr>wb_operations := ops1, wb_pubdata := from_be_bytes ?data\<rparr>)"
    "size ops1 = n"
    using extend_Ok [of ?b0 n l, where 'e = error] fee_leaf fit unfolding b0 ops(4) pad by blast
  let ?b1 = "?b0\<lparr>wb_operations := ops1, wb_pubdata := from_be_bytes ?data\<rparr>"
  have b1: "wb_account_tree ?b1 = tree1" "wb_fee_account_id ?b1 = fee_account" by (simp_all add: b0)
  obtain b2 where b2: "(builder_collect_fees l ?b1 (fees_of succs) :: (error, _) res) = Ok b2" "tree_matches l s2 (wb_account_tree b2)"
    "wb_root_after_fees b2 = Some (cx_root_hash l (wb_account_tree b2))" "wb_pubdata b2 = from_be_bytes ?data" "wb_operations b2 = ops1"
    "wb_fee_account_balances b2 \<noteq> None" "wb_fee_account_witness b2 \<noteq> None"
    using builder_collects [of l s1 ?b1 "fees_of succs" us s2] ops(2,5) fees unfolding b1 by auto
  have root: "wb_root_after_fees b2 = Some root" using b2(2,3) root by simp
  obtain x where x: "public_data_commitment l (wb_pubdata b2) (wb_initial_root_hash b2) root
      (fr_from_str l (unat (wb_fee_account_id b2))) (fr_from_str l (unat (wb_block_number b2))) = (Ok x :: (error, _) res)"
    using commitment_Ok [OF lib] by blast
  have token: "unat (0 :: token_id) < 2 ^ balance_tree_depth" by simp
  have "size (from_be_bytes ?data) = CHUNK_BIT_WIDTH * n"
    using size fit by (simp add: chunk_bits(1) algebra_simps add_mult_distrib2 [symmetric] del: length_from_be_bytes)
      (simp add: algebra_simps)
  then have "build_block_witness l tree b = Ok (b2\<lparr>wb_fee_account_audit_path :=
      Some (cx_account_path l (wb_account_tree b2) (wb_fee_account_id b2)), wb_pubdata_commitment := Some x\<rparr>)"
    using ops(1) ops1 b2(1) root x
    by (simp add: build_block_witness_def Let_def b outcome_simps calculate_pubdata_commitment_def get_audits_def)
  moreover have "\<exists>inst. into_circuit_instance l (b2\<lparr>wb_fee_account_audit_path :=
      Some (cx_account_path l (wb_account_tree b2) (wb_fee_account_id b2)), wb_pubdata_commitment := Some x\<rparr>) = (Ok inst :: (error, _) res)"
    using b2(6,7) by (auto simp: into_circuit_instance_def outcome_simps)
  ultimately show ?thesis
    using b2(2,4,5) root data ops1(2) by (auto simp: b bytes_from_be_bytes)
qed

text \<open>A sample: the field of BN256, and hashes that only look at a few leaves.\<close>

definition sample_circuit_lib :: circuit_lib where
  "sample_circuit_lib = \<lparr>cx_modulus = 21888242871839275222246405745257275088548364400416034343698204186575808495617, cx_capacity = 253,
    cx_root_hash = (\<lambda>tree. ca_nonce (tree_leaf tree 1) * 2 ^ 128 + leaf_balance tree 1 2),
    cx_account_path = (\<lambda>tree i. replicate 32 (unat i)), cx_balance_root_hash = (\<lambda>subtree. balance_value subtree 0),
    cx_balance_path = (\<lambda>subtree t. replicate 11 (balance_value subtree t)), cx_hash_elements = sum_list,
    cx_hash_bits = horner_sum of_bool 2, cx_compress = (\<lambda>a b n. a + 3 * b + n),
    cx_serialize_signature = (\<lambda>sg. Ok (replicate 64 1)), cx_serialize_pub_key = (\<lambda>key. Ok (replicate 32 2)),
    cx_sha256_bytes = (\<lambda>bs. replicate 32 (of_nat (size bs)))\<rparr>"

definition sample_circuit_tree :: circuit_tree where
  "sample_circuit_tree i = (case get_account sample_state i of None \<Rightarrow> None
    | Some a \<Rightarrow> (case circuit_account_from sample_circuit_lib a :: (unit, _) res of Ok ca \<Rightarrow> Some ca | _ \<Rightarrow> None))"

lemma sample_circuit_ok: "circuit_lib_ok sample_circuit_lib"
  by (simp add: circuit_lib_ok_def sample_circuit_lib_def MAX_CIRCUIT_MSG_HASH_BITS_def)

lemma sample_tree_matches: "tree_matches sample_circuit_lib sample_state sample_circuit_tree"
proof (rule tree_of_state_matches [OF sample_circuit_ok])
  have "\<exists>ca. circuit_account_from sample_circuit_lib (sample_account addr h n x) = (Ok ca :: (unit, _) res)" for addr h n x
    by (auto simp: circuit_account_from_def outcome_simps fr_from_hex_Ok unat_word_less [OF _ sample_circuit_ok] sample_account_def
      set_balance_def balance_tree_depth_def default_account_def)
  then show "tree_of_state sample_circuit_lib sample_state sample_circuit_tree"
    unfolding tree_of_state_def sample_circuit_tree_def by (auto simp: sample_lookup split: res.split) (metis res.distinct(1,3))+
qed

lemma sample_run_fits: "run_fits sample_state [ItemTx sample_tx]"
proof -
  have "{i. get_account sample_state i \<noteq> None} = {0, 1, 2}" by (auto simp: sample_lookup)
  then show ?thesis
    by (auto simp: run_fits_def sample_state_ok nonce_at_def sample_lookup total_balance_def balance_at_def sample_tx_def)
qed

lemma sample_admitted: "item_admitted sample_crypto (ItemTx sample_tx)"
proof -
  have fee: "is_fee_amount_packable (wd_fee sample_withdraw) = Ok True"
    by (simp add: sample_withdraw_def is_fee_packable_floor float_floor_def)
  have "tx_check_correctness sample_crypto sample_tx = (Ok True, sample_tx)"
    using fee by (simp add: sample_tx_def withdraw_check_correctness_def withdraw_valid_def sample_withdraw_def
      max_account_id_eq max_token_id_eq withdraw_verify_signature_def verify_signature_with_def)
  moreover have "signer_nonzero sample_crypto sample_tx" by (simp add: sample_tx_def)
  ultimately show ?thesis by (auto simp only: item_admitted.simps)
qed

theorem prover_agrees_with_server_witness:
  "\<exists>succs s1 us s2 b wb data. exec_items sample_crypto sample_state [ItemTx sample_tx] = Some (succs, s1) \<and>
    (collect_fee s1 (fees_of succs) 0 :: (error, _) res) = Ok (us, s2) \<and>
    build_block_witness sample_circuit_lib sample_circuit_tree b = Ok wb \<and> tree_matches sample_circuit_lib s2 (wb_account_tree wb) \<and>
    wb_root_after_fees wb = Some (bl_new_root_hash b) \<and> block_public_data b = Ok data \<and>
    be_bit_vector_into_bytes (wb_pubdata wb) = data \<and> size (wb_operations wb) = 6"
proof -
  let ?w = "sample_withdraw\<lparr>wd_account_id := 1, wd_cached_signer := Cached (Some 99)\<rparr>"
  let ?op = "OpWithdraw \<lparr>wdop_tx = ?w, wdop_account_id = 1\<rparr>"
  let ?txs = "[ExecTx \<lparr>etx_signed_tx = sample_signed, etx_success = True, etx_op = Some ?op,
      etx_fail_reason = None, etx_block_index = Some 0, etx_batch_id = None\<rparr>]"
  obtain succ s1 where e: "execute_tx sample_crypto sample_state sample_tx = Ok (succ, s1)"
    using sample_tx_executes by blast
  then have op: "os_executed_op succ = ?op" and s1: "get_account s1 0 \<noteq> None" "get_account s1 1 \<noteq> None"
    by (auto simp: sample_tx_def execute_tx_Ok create_op_Ok withdraw_apply_op_Ok Let_def state_simps sample_lookup)
  have run: "exec_items sample_crypto sample_state [ItemTx sample_tx] = Some ([succ], s1)"
    by (simp add: e)
  obtain us s2 where f: "(collect_fee s1 (fees_of [succ]) 0 :: (error, _) res) = Ok (us, s2)"
    using s1(1) by (auto simp: collect_fee_def case_prod_unfold Let_def)
  then obtain a where a: "get_account s2 1 = Some a"
    using s1 by (auto simp: collect_fee_def case_prod_unfold Let_def state_simps)
  have ops: "block_ops ?txs = map os_executed_op [succ]" "txs_chunks ?txs = 6"
    by (simp_all add: block_ops_def op txs_chunks_def WITHDRAW_CHUNKS_def)
  let ?root = "unat (acc_nonce a) * 2 ^ 128 + get_balance a 2 mod cx_modulus sample_circuit_lib"
  let ?b = "block_new 4 ?root 0 ?txs (0, 0) 6 0 0"
  have blk: "(block_new_from_available_block_sizes 4 ?root 0 ?txs (0, 0) [6, 8] 0 0 :: (unit, block) res) = Ok ?b"
    by (simp add: block_new_available_Ok ops)
  have root: "cx_root_hash sample_circuit_lib tree = ?root" if "tree_matches sample_circuit_lib s2 tree" for tree
    using tree_matches_account [OF that a] by (simp add: account_matches_def sample_circuit_lib_def)
  have adm: "list_all (item_admitted sample_crypto) [ItemTx sample_tx]"
    using sample_admitted by (simp del: item_admitted.simps)
  obtain wb data where "build_block_witness sample_circuit_lib sample_circuit_tree ?b = Ok wb"
    "tree_matches sample_circuit_lib s2 (wb_account_tree wb)" "wb_root_after_fees wb = Some (bl_new_root_hash ?b)"
    "block_public_data ?b = Ok data" "be_bit_vector_into_bytes (wb_pubdata wb) = data" "size (wb_operations wb) = bl_block_chunks_size ?b"
    using prover_agrees_with_server [OF sample_circuit_ok sample_tree_matches sample_state_ok(1) sample_run_fits adm run f ops(1) blk]
      root by blast
  moreover have "bl_block_chunks_size ?b = 6" by (simp add: block_new_def)
  ultimately show ?thesis using run f by metis
qed

end
