(* ===== verification/Spec2Isabelle.thy ===== *)
theory Spec2Isabelle
  imports Prelude Params Bits Codec Floats Accounts Txs Ops ZkState StateProps StateFunds StateUpdates Typing
    GasCounter Block Restore StateKeeper KeeperProps KeeperBatch KeeperLoop
    Merkle MerklePaths MerkleHash MerkleInsert MerkleProps SequentialTree
    TxQueue TxQueueProps GasAdjuster EthStorage EthStorageProps EthSender EthSenderProps
    EthWatch EthWatchProps MempoolStorage Mempool MempoolProps MempoolPersist
    ChainStorage ChainProps BlockStorage BlockProps Committer KeeperRestore CommitProps KeeperCommit
    SignMessage FeeTicker TickerApi ApiSubmit ApiProps
    Witness WitnessBits WitnessOps WitnessPairs WitnessProps
begin

text \<open>
  A verification development of the zkSync v1 server, the Rust code under @src/zksync@.  All paths below are
  relative to @src/zksync@.

  The program.  zkSync is a rollup: users sign transactions (L2) or call a contract on Ethereum (priority
  operations, L1); a server orders them, executes them on the tree of accounts, packs them into blocks,
  and sends each block to the contract in two transactions, one that commits its public data and one
  that verifies a proof for it.  The parts of the server and how they meet:

  \<^item> @core/lib/types@, @core/lib/crypto@: transactions, operations, blocks, their bytes, the format of amounts, the
    estimation of gas, the sparse Merkle tree.
  \<^item> @core/lib/state@: the state of the rollup and one handler for every type of transaction.
  \<^item> @core/bin/zksync_core@: the Ethereum watcher collects priority operations, the mempool collects transactions,
    the block proposer asks the mempool for a block and hands it to the state keeper, which executes it on the
    state, keeps the pending block and seals it; the committer writes blocks and account updates to
    the database and tells the mempool the new nonces.
  \<^item> @core/bin/zksync_eth_sender@: reads committed and proved blocks from the database and sends their transactions to
    Ethereum, in order, replacing those that are stuck.
  \<^item> @core/bin/zksync_api@: admits the transactions of the users, after it has checked their signatures and fees, and hands
    them to the mempool.
  \<^item> @core/lib/circuit@: the proof is made for a circuit; @src/witness@ executes the operations of a block again, on trees of its
    own, to give the circuit its inputs.
  \<^item> @core/bin/data_restore@: rebuilds the accounts from the public data on Ethereum alone.

  The theories, in their order, and the code they model:

  \<^item> @Prelude@: outcomes of Rust calls (value, error, panic) and shared lemmas.
  \<^item> @Params@ (@core/lib/crypto/src/params.rs@), @Bits@ and @Codec@ (@primitives.rs@, byte fields), @Floats@
    (@primitives.rs@, @core/lib/types/src/helpers.rs@).  The lemmas give the exact set of packable amounts, the loss of
    rounding, and where packing panics.
  \<^item> @Accounts@ (@core/lib/types/src/account@): accounts and their update log, refined to maps of observable accounts.
  \<^item> @Txs@ (@core/lib/types/src/tx@): the transactions, their signed bytes and checks; what a signature binds.
  \<^item> @Ops@ (@core/lib/types/src/operations@, @priority_ops@): operations, public data, round trips; logs of the contract.
  \<^item> @ZkState@ (@core/lib/state/src@): the state and its handlers.  @StateProps@, @StateFunds@ and @StateUpdates@ show that
    no handler panics on a consistent state and every handler keeps it consistent, that funds are conserved, that
    only authorised accounts lose, that nonces prevent replay, that updates replay and undo the change, and what a
    rolled back batch leaves; @Typing@ that what the correctness check admits fits the fields of the public data.
  \<^item> @GasCounter@ and @Block@ (@core/lib/types/src/gas_counter.rs@, @block.rs@): the gas limit, the size of a block and its
    public data.
  \<^item> @Restore@ (@core/bin/data_restore/src/rollup_ops.rs@, @tree_state.rs@): from the public data back to operations and
    from these to the accounts.
  \<^item> @StateKeeper@ (@state_keeper/mod.rs@); @KeeperProps@, @KeeperBatch@ and @KeeperLoop@ give the invariant of the pending
    block, what a sealed block promises, the chunks a batch is charged, and when the loop over a proposed block
    of priority operations and single transactions ends (a batch is charged too many chunks, so it is left out).
  \<^item> @Merkle@ (@core/lib/crypto/src/merkle_tree/parallel_smt.rs@); @MerklePaths@, @MerkleHash@, @MerkleInsert@ and
    @MerkleProps@ show that the cached sparse tree computes the root hash of the full tree, and that its proofs of
    existence verify.  @SequentialTree@ (@sequential_smt.rs@) is the simpler tree of the tests, which computes the same.
  \<^item> @TxQueue@, @GasAdjuster@, @EthStorage@ and @EthSender@ (@core/bin/zksync_eth_sender@, @core/lib/storage/src/ethereum@) with
    @TxQueueProps@, @EthStorageProps@ and @EthSenderProps@: the order of sending, the price, what a restart restores,
    and how a failing commit makes an operation ongoing twice.
  \<^item> @EthWatch@ and @EthWatchProps@ (@eth_watch@): which priority operations are accepted.
  \<^item> @MempoolStorage@ and @Mempool@ (@core/lib/storage/src/chain/mempool@, @mempool.rs@, @block_proposer.rs@) with
    @MempoolProps@ and @MempoolPersist@: the proposed block, the numbers of priority operations from the
    watcher to the state keeper, which of the ready transactions a restart loads, and which ones its removal of executed
    transactions takes.
  \<^item> @ChainStorage@ and @BlockStorage@ (@core/lib/storage/src/chain/state@, @chain/account@, @chain/block@, @chain/operations@,
    @diff.rs@, @prover@), @Committer@ (@committer.rs@) and @KeeperRestore@ (@state_keeper/mod.rs@, the start from the database and
    the genesis block).  @ChainProps@ shows that the updates of a range of blocks are loaded as they were committed, whatever
    the order of the rows, @BlockProps@ that a block and a pending block are loaded as they were saved, @CommitProps@ that
    the committer keeps the tables in step with a ledger of the updates of every block, so that the state of any block can be
    loaded and the state keeper restarts from the last one, and when it does not.  @KeeperCommit@ composes the state keeper
    with the committer: what the keeper sends keeps that ledger in step with its pending block, as long as no batch is executed.
  \<^item> @SignMessage@ (@get_ethereum_sign_message@ of @core/lib/types/src/tx@, @core/lib/utils/src/format.rs@), @FeeTicker@ and
    @TickerApi@ (@core/bin/zksync_api/src/fee_ticker@, @core/lib/storage/src/tokens@), @ApiSubmit@ (@api_server/rpc_server@,
    @signature_checker.rs@, @eth_checker.rs@): how transactions are admitted.  The lemmas show what a signed message determines,
    which prices the ticker answers and which stop it; @ApiProps@ that what reaches the mempool through @tx_submit@ was checked,
    when a quoted fee is accepted, and what the endpoint for batches does not check.
  \<^item> @Witness@ (@core/lib/circuit/src/witness@, @core/lib/crypto/src/circuit@): the second implementation of every operation, on
    the trees of the circuit, and the builder of the witness of a block.  @WitnessBits@ shows that the bits of the public data are its
    bytes, @WitnessOps@ and @WitnessPairs@ that every operation on one or two accounts keeps the tree of the circuit in step with the
    state and has the public data and chunks of the server, @WitnessProps@ that the builder agrees with the server on whole blocks.

  How state and effects are modelled.  A struct is a record, an enum a datatype; a method on @&mut self@ returns its
  outcome and the new state.  A panic is an outcome, so the theorems can exclude or exhibit it.  Integers that
  wrap are words; where the source uses a checked or panicking operation the check is written out.
  Arithmetic without a check wraps around, as in a release build.  What is outside the code is an argument: the
  curve, hash and hex functions (@crypto@), the hasher of the tree, the root hash of a state, the ABI decoders
  and encoders, and, for the actors, the answers of the node, the signer, the contracts, the clock and the database
  connection during one request.  Tables of the database are lists of rows, an SQL statement is the
  function it computes, and a transaction takes effect when it commits.  A channel is a function call, or a list of
  the requests sent, its receiver being alive.

  Interfaces.  The contracts between the parts are locales: a codec of fixed width, the map with a root hash that
  the tree is, the retried queue of the state keeper, the queues that number what they send, the source of
  priority operations.  Each is interpreted on the definitions of the code.

  Termination.  Loops are structural where they can be; the others have a measure, and those that may not end are
  partial functions whose value is then @None@: the loop of the state keeper over a proposed block (shown to end
  without batches when every operation fits an empty block, and shown not to end on an operation that fits none), the walks over the nodes of the Merkle
  tree (shown to end on every tree that its operations build), and the sending of queued operations.  No
  fuel is used.

  Bounds.  The Merkle tree is taken with a depth below 63, where its indices do not overflow, the sequential one with a
  depth of at most 32, above which its packed indices collide; account ids are 32-bit
  words and the theorems that create accounts assume that fewer than @2 ^ 32@ exist.  The agreement of the witness with the
  server assumes a run (@run_fits@) in which no account id or nonce wraps around and every balance stays below @2 ^ 128@, and a
  field of at least @2 ^ 253@ elements.  Prices are rational numbers: the limited precision of a decimal division, and a decimal with a negative scale,
  are left out.

  Not modelled, and why:

  \<^item> The constraint system of @core/lib/circuit@, a program for a library (bellman) whose meaning is not in the
    repository, and the dummy and corrupted signatures of its tests; the provers (@core/bin/prover@, @core/lib/prover_utils@) only drive it.
  \<^item> The queries of @core/lib/storage@ that only present data (the explorer in @chain/operations_ext@, block details, statistics,
    configuration, connections) and the jobs of the provers.
  \<^item> The methods of @core/bin/zksync_api@ that only present data, and its subscriptions; @core/lib/eth_client@,
    @core/lib/eth_signer@, @core/lib/config@, @core/lib/contracts@, @core/bin/server@,
    loggers and exporters: requests, serialisation and configuration.
  \<^item> The event and transaction readers of @core/bin/data_restore@: decoding of Ethereum data by a library.
  \<^item> The contracts (Solidity), the SDKs, the tests and the React Native wrapper: other languages or callers of the
    code above.
\<close>

end
